(* ===== verification/Prelude.thy ===== *)
theory Prelude
  imports Main "HOL-Library.Word" "HOL-Library.List_Lexorder" "HOL-Library.Char_ord"
begin

text \<open>
  Shared vocabulary of the development: the machine-integer types of the Rust source, its
  fallible results (\<open>anyhow::Result\<close> and panics) as values of a sum type, little-endian
  byte strings, slices, \<open>Vec::resize\<close>, and the \<open>BTreeMap\<close> of the standard library as a
  sorted association list. Everything here is generic: no definition of this theory models a
  line of the program on its own.
\<close>

unbundle bit_operations_syntax

type_synonym u8 = "8 word"
type_synonym u16 = "16 word"
type_synonym u32 = "32 word"
type_synonym u64 = "64 word"

section \<open>Results\<close>

text \<open>
  \<open>Bail\<close> is an \<open>anyhow\<close> error (an early return with \<open>?\<close> or \<open>bail!\<close>), with the
  constant part of its message; \<open>Panic\<close> is an \<open>expect\<close>, \<open>assert!\<close> or \<open>panic!\<close>.
\<close>

datatype error = Bail string | Panic string

type_synonym 'a result = "error + 'a"

abbreviation Ok :: "'a \<Rightarrow> 'a result" where
  "Ok \<equiv> Inr"

abbreviation Err :: "error \<Rightarrow> 'a result" where
  "Err \<equiv> Inl"

fun and_then :: "'a result \<Rightarrow> ('a \<Rightarrow> 'b result) \<Rightarrow> 'b result" where
  "and_then (Inl e) f = Inl e"
| "and_then (Inr x) f = f x"

fun ok_or :: "'a option \<Rightarrow> error \<Rightarrow> 'a result" where
  "ok_or None e = Inl e"
| "ok_or (Some x) e = Inr x"

fun is_ok :: "'a result \<Rightarrow> bool" where
  "is_ok (Inl e) = False"
| "is_ok (Inr x) = True"

text \<open>\<open>collect\<close> into a \<open>Result\<close> or an \<open>Option\<close>: the first failure wins.\<close>

fun collect_result :: "('a \<Rightarrow> 'b result) \<Rightarrow> 'a list \<Rightarrow> 'b list result" where
  "collect_result f [] = Inr []"
| "collect_result f (x # xs) =
     and_then (f x) (\<lambda>y. and_then (collect_result f xs) (\<lambda>ys. Inr (y # ys)))"

fun collect_option :: "'a option list \<Rightarrow> 'a list option" where
  "collect_option [] = Some []"
| "collect_option (None # xs) = None"
| "collect_option (Some x # xs) = map_option ((#) x) (collect_option xs)"

named_theorems result_simps \<open>unfolding of the result combinators\<close>

lemma and_then_eq_Inr [result_simps]:
  "and_then r f = Inr y \<longleftrightarrow> (\<exists>x. r = Inr x \<and> f x = Inr y)"
  by (cases r) auto

lemma and_then_eq_Inl [result_simps]:
  "and_then r f = Inl e \<longleftrightarrow> r = Inl e \<or> (\<exists>x. r = Inr x \<and> f x = Inl e)"
  by (cases r) auto

lemma ok_or_eq_Inr [result_simps]: "ok_or o1 e = Inr x \<longleftrightarrow> o1 = Some x"
  by (cases o1) auto

lemma ok_or_eq_Inl [result_simps]: "ok_or o1 e = Inl e' \<longleftrightarrow> o1 = None \<and> e' = e"
  by (cases o1) auto

lemma is_ok_iff [result_simps]: "is_ok r \<longleftrightarrow> (\<exists>x. r = Inr x)"
  by (cases r) auto

lemma collect_option_eq_Some:
  "collect_option os = Some xs \<longleftrightarrow> os = map Some xs"
proof (induction os arbitrary: xs)
  case Nil
  then show ?case by auto
next
  case (Cons o1 os)
  show ?case
    by (cases o1; cases xs) (auto simp: Cons.IH)
qed

lemma collect_option_eq_None:
  "collect_option os = None \<longleftrightarrow> None \<in> set os"
proof (induction os)
  case (Cons o1 os)
  then show ?case by (cases o1) auto
qed simp

lemma collect_result_length:
  "collect_result f xs = Inr ys \<Longrightarrow> length ys = length xs"
  by (induction xs arbitrary: ys) (auto simp: result_simps)

lemma collect_result_nth:
  "collect_result f xs = Inr ys \<Longrightarrow> i < length xs \<Longrightarrow> f (xs ! i) = Inr (ys ! i)"
proof (induction xs arbitrary: ys i)
  case (Cons x xs)
  then show ?case by (cases i) (auto simp: result_simps)
qed simp

lemma collect_result_eq_Inl: "collect_result f xs = Inl e \<Longrightarrow> \<exists>x\<in>set xs. f x = Inl e"
  by (induction xs) (auto simp: result_simps)

lemma collect_result_cong [fundef_cong]:
  "xs = ys \<Longrightarrow> (\<And>x. x \<in> set ys \<Longrightarrow> f x = g x) \<Longrightarrow> collect_result f xs = collect_result g ys"
  by (induction xs arbitrary: ys) auto

lemma collect_result_map: "collect_result f (map g xs) = collect_result (\<lambda>x. f (g x)) xs"
  by (induction xs) auto

text \<open>A computation that can fail but not panic.\<close>

definition no_panic :: "'a result \<Rightarrow> bool" where
  "no_panic r \<longleftrightarrow> (\<forall>e. r \<noteq> Err (Panic e))"

lemma no_panic_simps [simp]: "no_panic (Ok x)" "no_panic (Err (Bail e))" "\<not> no_panic (Err (Panic e))"
  by (simp_all add: no_panic_def)

lemma no_panic_Inl: "no_panic (Inl e :: 'a result) \<longleftrightarrow> no_panic (Inl e :: 'b result)"
  by (simp add: no_panic_def)

lemma no_panic_and_then:
  "no_panic r \<Longrightarrow> (\<And>x. no_panic (f x)) \<Longrightarrow> no_panic (and_then r f)"
  by (cases r) (simp_all add: no_panic_def)

lemma no_panic_ok_or [simp]: "no_panic (ok_or o1 (Bail msg))"
  by (cases o1) simp_all

lemma collect_no_panic: "(\<And>x. no_panic (f x)) \<Longrightarrow> no_panic (collect_result f xs)"
  by (induction xs) (auto intro!: no_panic_and_then)

section \<open>Little-endian bytes\<close>

fun le_bytes :: "nat \<Rightarrow> nat \<Rightarrow> u8 list" where
  "le_bytes 0 v = []"
| "le_bytes (Suc n) v = word_of_nat v # le_bytes n (v div 256)"

fun le_value :: "u8 list \<Rightarrow> nat" where
  "le_value [] = 0"
| "le_value (b # bs) = unat b + 256 * le_value bs"

lemma length_le_bytes [simp]: "length (le_bytes n v) = n"
  by (induction n arbitrary: v) auto

lemma unat_u8_lt: "unat (b :: u8) < 256"
  using unsigned_less [of b] by simp

lemma le_value_le_bytes: "le_value (le_bytes n v) = v mod 256 ^ n"
proof (induction n arbitrary: v)
  case (Suc n)
  have "le_value (le_bytes (Suc n) v) = v mod 256 + 256 * (v div 256 mod 256 ^ n)"
    by (simp add: Suc unat_of_nat)
  also have "\<dots> = v mod 256 ^ Suc n"
    by (simp add: mod_mult2_eq)
  finally show ?case .
qed simp

lemma le_bytes_le_value: "le_bytes (length bs) (le_value bs) = bs"
proof (induction bs)
  case (Cons b bs)
  have eq: "(unat b + 256 * le_value bs) div 256 = le_value bs"
    using unat_u8_lt [of b] by simp
  have zero: "(256 :: u8) = 0"
    by transfer simp
  have "(word_of_nat (unat b + 256 * le_value bs) :: u8) = b"
    by (simp add: zero)
  then show ?case by (simp only: length_Cons le_bytes.simps le_value.simps eq Cons)
qed simp

text \<open>\<open>to_le_bytes\<close> and \<open>from_le_bytes\<close> of an integer of \<open>LENGTH('a)\<close> bits.\<close>

definition to_le :: "'a::len word \<Rightarrow> u8 list" where
  "to_le w = le_bytes (LENGTH('a) div 8) (unat w)"

definition from_le :: "u8 list \<Rightarrow> 'a::len word" where
  "from_le bs = word_of_nat (le_value bs)"

lemma length_to_le [simp]: "length (to_le (w :: 'a::len word)) = LENGTH('a) div 8"
  by (simp add: to_le_def)

lemma power_256:
  assumes "8 dvd n"
  shows "(256 :: nat) ^ (n div 8) = 2 ^ n"
proof -
  have "(256 :: nat) = 2 ^ 8" by simp
  then show ?thesis
    using assms by (metis dvd_mult_div_cancel power_mult)
qed

lemma from_le_to_le:
  fixes w :: "'a::len word"
  assumes "8 dvd LENGTH('a)"
  shows "from_le (to_le w) = w"
proof -
  have "(256 :: nat) ^ (LENGTH('a) div 8) = 2 ^ LENGTH('a)"
    using assms by (rule power_256)
  then show ?thesis
    by (simp add: from_le_def to_le_def le_value_le_bytes)
qed

lemma from_le_to_le_u8 [simp]: "from_le (to_le (w :: u8)) = w"
  and from_le_to_le_u16 [simp]: "from_le (to_le (w2 :: u16)) = w2"
  and from_le_to_le_u32 [simp]: "from_le (to_le (w4 :: u32)) = w4"
  and from_le_to_le_u64 [simp]: "from_le (to_le (w8 :: u64)) = w8"
  by (simp_all add: from_le_to_le)

lemma to_le_from_le:
  assumes "8 dvd LENGTH('a)" and "length bs = LENGTH('a) div 8"
  shows "to_le (from_le bs :: 'a::len word) = bs"
proof -
  have "le_value bs < 256 ^ length bs"
    by (metis le_bytes_le_value le_value_le_bytes mod_less_divisor zero_less_numeral zero_less_power)
  moreover have "(256 :: nat) ^ length bs = 2 ^ LENGTH('a)"
    using assms by (simp add: power_256)
  ultimately have "unat (from_le bs :: 'a word) = le_value bs"
    by (simp add: from_le_def unat_of_nat)
  then show ?thesis
    using assms(2) le_bytes_le_value [of bs] by (simp add: to_le_def)
qed

lemma to_le_inject:
  "8 dvd LENGTH('a) \<Longrightarrow> to_le (v :: 'a::len word) = to_le w \<longleftrightarrow> v = w"
  by (metis from_le_to_le)

section \<open>Slices and growable vectors\<close>

definition slice :: "nat \<Rightarrow> nat \<Rightarrow> 'a list \<Rightarrow> 'a list" where
  "slice i j xs = take (j - i) (drop i xs)"

text \<open>\<open>copy_from_slice\<close> into the range that starts at \<open>off\<close>.\<close>

definition write_at :: "nat \<Rightarrow> 'a list \<Rightarrow> 'a list \<Rightarrow> 'a list" where
  "write_at off bs xs = take off xs @ bs @ drop (off + length bs) xs"

definition vec_resize :: "nat \<Rightarrow> 'a \<Rightarrow> 'a list \<Rightarrow> 'a list" where
  "vec_resize n d xs = take n xs @ replicate (n - length xs) d"

definition vec_get :: "'a list \<Rightarrow> nat \<Rightarrow> 'a option" where
  "vec_get xs i = (if i < length xs then Some (xs ! i) else None)"

lemma length_slice [simp]: "length (slice i j xs) = min (j - i) (length xs - i)"
  by (simp add: slice_def min.commute)

lemma length_write_at [simp]:
  "off + length bs \<le> length xs \<Longrightarrow> length (write_at off bs xs) = length xs"
  by (simp add: write_at_def)

lemma slice_write_at_same:
  "off + length bs \<le> length xs \<Longrightarrow> j = off + length bs \<Longrightarrow> slice off j (write_at off bs xs) = bs"
  by (simp add: slice_def write_at_def)

lemma slice_write_at_before:
  "j \<le> off \<Longrightarrow> off \<le> length xs \<Longrightarrow> slice i j (write_at off bs xs) = slice i j xs"
  by (cases "i \<le> j") (simp_all add: slice_def write_at_def take_drop min_absorb1)

lemma slice_write_at_after:
  assumes "off + length bs \<le> i" and "off + length bs \<le> length xs"
  shows "slice i j (write_at off bs xs) = slice i j xs"
proof -
  have "drop i (write_at off bs xs) = drop (i - (off + length bs)) (drop (off + length bs) xs)"
    using assms by (simp add: write_at_def)
  also have "\<dots> = drop i xs"
    using assms by simp
  finally show ?thesis by (simp add: slice_def)
qed

lemma length_vec_resize [simp]: "length (vec_resize n d xs) = n"
  by (simp add: vec_resize_def)

lemma nth_vec_resize:
  "i < n \<Longrightarrow> vec_resize n d xs ! i = (if i < length xs then xs ! i else d)"
  by (auto simp: vec_resize_def nth_append min_def)

lemma vec_get_Some [simp]: "vec_get xs i = Some x \<longleftrightarrow> i < length xs \<and> x = xs ! i"
  by (auto simp: vec_get_def)

lemma vec_get_None [simp]: "vec_get xs i = None \<longleftrightarrow> length xs \<le> i"
  by (auto simp: vec_get_def)

section \<open>\<open>BTreeMap\<close>: a sorted association list\<close>

type_synonym ('k, 'v) btree = "('k \<times> 'v) list"

definition bt_inv :: "('k::linorder, 'v) btree \<Rightarrow> bool" where
  "bt_inv m \<longleftrightarrow> sorted_wrt (<) (map fst m)"

definition bt_get :: "('k, 'v) btree \<Rightarrow> 'k \<Rightarrow> 'v option" where
  "bt_get m k = map_of m k"

definition bt_contains :: "('k, 'v) btree \<Rightarrow> 'k \<Rightarrow> bool" where
  "bt_contains m k \<longleftrightarrow> map_of m k \<noteq> None"

definition bt_len :: "('k, 'v) btree \<Rightarrow> nat" where
  "bt_len m = length m"

fun bt_insert :: "'k::linorder \<Rightarrow> 'v \<Rightarrow> ('k, 'v) btree \<Rightarrow> ('k, 'v) btree" where
  "bt_insert k v [] = [(k, v)]"
| "bt_insert k v ((k', v') # m) =
     (if k < k' then (k, v) # (k', v') # m
      else if k = k' then (k, v) # m
      else (k', v') # bt_insert k v m)"

definition bt_remove :: "'k \<Rightarrow> ('k, 'v) btree \<Rightarrow> ('k, 'v) btree" where
  "bt_remove k m = filter (\<lambda>(k', _). k' \<noteq> k) m"

text \<open>\<open>iter_mut\<close> over the values, and \<open>collect\<close> or \<open>extend\<close> from pairs.\<close>

definition bt_map :: "('v \<Rightarrow> 'w) \<Rightarrow> ('k, 'v) btree \<Rightarrow> ('k, 'w) btree" where
  "bt_map f m = map (\<lambda>(k, v). (k, f v)) m"

fun bt_extend :: "('k::linorder \<times> 'v) list \<Rightarrow> ('k, 'v) btree \<Rightarrow> ('k, 'v) btree" where
  "bt_extend [] m = m"
| "bt_extend ((k, v) # kvs) m = bt_extend kvs (bt_insert k v m)"

lemma bt_get_insert [simp]:
  "bt_get (bt_insert k v m) k' = (if k' = k then Some v else bt_get m k')"
  by (induction k v m rule: bt_insert.induct) (auto simp: bt_get_def)

lemma bt_get_remove [simp]:
  "bt_get (bt_remove k m) k' = (if k' = k then None else bt_get m k')"
  by (induction m) (auto simp: bt_get_def bt_remove_def)

lemma bt_get_map [simp]: "bt_get (bt_map f m) k = map_option f (bt_get m k)"
  by (induction m) (auto simp: bt_get_def bt_map_def)

lemma bt_get_empty [simp]: "bt_get [] k = None"
  by (simp add: bt_get_def)

lemma bt_contains_iff [simp]: "bt_contains m k \<longleftrightarrow> bt_get m k \<noteq> None"
  by (simp add: bt_contains_def bt_get_def)

lemma bt_len_map [simp]: "bt_len (bt_map f m) = bt_len m"
  by (simp add: bt_len_def bt_map_def)

lemma set_keys_bt_insert: "set (map fst (bt_insert k v m)) = insert k (set (map fst m))"
  by (induction k v m rule: bt_insert.induct) auto

lemma bt_inv_empty [simp]: "bt_inv []"
  by (simp add: bt_inv_def)

lemma bt_inv_insert [simp]: "bt_inv m \<Longrightarrow> bt_inv (bt_insert k v m)"
proof (induction k v m rule: bt_insert.induct)
  case (2 k v k' v' m)
  then show ?case
    using set_keys_bt_insert [of k v m] by (fastforce simp: bt_inv_def)
qed (simp add: bt_inv_def)

lemma bt_inv_remove [simp]: "bt_inv m \<Longrightarrow> bt_inv (bt_remove k m)"
  by (induction m) (auto simp: bt_inv_def bt_remove_def)

lemma bt_inv_map [simp]: "bt_inv (bt_map f m) = bt_inv m"
proof -
  have "map fst (bt_map f m) = map fst m"
    by (simp add: bt_map_def comp_def split_beta)
  then show ?thesis by (simp add: bt_inv_def)
qed

lemma bt_inv_distinct: "bt_inv m \<Longrightarrow> distinct (map fst m)"
  by (simp add: bt_inv_def strict_sorted_iff)

lemma bt_inv_extend [simp]: "bt_inv m \<Longrightarrow> bt_inv (bt_extend kvs m)"
  by (induction kvs m rule: bt_extend.induct) auto

lemma bt_get_extend:
  "bt_get (bt_extend kvs m) k = (case map_of (rev kvs) k of Some v \<Rightarrow> Some v | None \<Rightarrow> bt_get m k)"
proof (induction kvs m rule: bt_extend.induct)
  case (2 k1 v1 kvs m)
  then show ?case by (auto simp: map_add_def split: option.splits)
qed simp

lemma bt_len_card: "bt_inv m \<Longrightarrow> bt_len m = card {k. bt_get m k \<noteq> None}"
proof -
  assume "bt_inv m"
  then have "card (set (map fst m)) = length (map fst m)"
    by (intro distinct_card bt_inv_distinct)
  moreover have "{k. bt_get m k \<noteq> None} = set (map fst m)"
    by (force simp: bt_get_def map_of_eq_None_iff)
  ultimately show ?thesis by (simp add: bt_len_def)
qed

lemma bt_get_in_set: "bt_inv m \<Longrightarrow> (k, v) \<in> set m \<longleftrightarrow> bt_get m k = Some v"
  by (simp add: bt_get_def bt_inv_distinct)

lemma bt_finite_dom [simp]: "finite {k. bt_get m k \<noteq> None}"
  using finite_dom_map_of [of m] by (simp add: bt_get_def dom_def)

text \<open>A list of tasks: one of them ends or changes.\<close>

definition drop_nth :: "nat \<Rightarrow> 'a list \<Rightarrow> 'a list" where
  "drop_nth i xs = take i xs @ drop (Suc i) xs"

lemma sum_list_update:
  "i < length xs \<Longrightarrow> sum_list (map f (xs[i := y])) + f (xs ! i) = sum_list (map f xs) + (f y :: 'a::comm_monoid_add)"
  by (induction xs arbitrary: i) (auto simp: ac_simps nth_Cons split: nat.split)

lemma sum_list_drop_nth:
  "i < length xs \<Longrightarrow> sum_list (map f (drop_nth i xs)) + f (xs ! i) = (sum_list (map f xs) :: 'a::comm_monoid_add)"
  by (induction xs arbitrary: i) (auto simp: drop_nth_def ac_simps nth_Cons split: nat.split)

lemma set_drop_nth: "set (drop_nth i xs) \<subseteq> set xs"
  by (auto simp: drop_nth_def dest: in_set_takeD in_set_dropD)

lemma length_drop_nth [simp]: "i < length xs \<Longrightarrow> length (drop_nth i xs) = length xs - 1"
  by (simp add: drop_nth_def)

end
