(* ===== verification/Timestamps.thy ===== *)
theory Timestamps
  imports Prelude
begin

text \<open>
  Model of \<open>crates/vector-store/src/timestamp.rs\<close>: \<open>Timestamp\<close>, a count of 100-nanosecond
  ticks whose top bit is kept free, and \<open>Timestamped<T>\<close>, a value packed with its timestamp
  in which that top bit is the tombstone flag and the value itself is \<open>MaybeUninit\<close>. The
  lemmas show that no conversion overflows, that the flag and the timestamp do not
  interfere, and that the unsafe reads of the value only ever meet initialised memory.
\<close>

section \<open>Timestamp\<close>

datatype timestamp = Timestamp (ticks: u64)

instantiation timestamp :: linorder
begin

definition less_eq_timestamp :: "timestamp \<Rightarrow> timestamp \<Rightarrow> bool" where
  "less_eq_timestamp s t \<longleftrightarrow> ticks s \<le> ticks t"

definition less_timestamp :: "timestamp \<Rightarrow> timestamp \<Rightarrow> bool" where
  "less_timestamp s t \<longleftrightarrow> ticks s < ticks t"

instance
  by standard (auto simp: less_eq_timestamp_def less_timestamp_def timestamp.expand)

end

definition MAX_100_NANOS :: u64 where
  "MAX_100_NANOS = drop_bit 1 (- 1)"

definition MAX_MICROS :: u64 where
  "MAX_MICROS = MAX_100_NANOS div 10"

definition MAX_MILLIS :: u64 where
  "MAX_MILLIS = MAX_MICROS div 1000"

definition MAX_SECONDS :: u64 where
  "MAX_SECONDS = MAX_MILLIS div 1000"

definition Timestamp_MIN :: timestamp where
  "Timestamp_MIN = Timestamp 0"

definition Timestamp_MAX :: timestamp where
  "Timestamp_MAX = Timestamp MAX_100_NANOS"

definition from_100_nanos :: "u64 \<Rightarrow> timestamp" where
  "from_100_nanos t = (let t = (if t > MAX_100_NANOS then MAX_100_NANOS else t) in Timestamp t)"

definition from_micros :: "u64 \<Rightarrow> timestamp" where
  "from_micros t = (let t = (if t > MAX_MICROS then MAX_MICROS else t) in Timestamp (t * 10))"

definition from_millis :: "u64 \<Rightarrow> timestamp" where
  "from_millis t = (let t = (if t > MAX_MILLIS then MAX_MILLIS else t) in Timestamp (t * 10000))"

definition from_seconds :: "u64 \<Rightarrow> timestamp" where
  "from_seconds t =
     (let t = (if t > MAX_SECONDS then MAX_SECONDS else t) in Timestamp (t * 10000000))"

text \<open>
  \<open>now\<close> reads the clock; \<open>clock\<close> is the signed number of nanoseconds since the UNIX epoch
  the clock shows (an \<open>i128\<close>), and the division by 100 truncates towards zero.
\<close>

definition now :: "int \<Rightarrow> timestamp" where
  "now clock =
     (let offset_100_ns = sgn clock * (\<bar>clock\<bar> div 100)
      in if offset_100_ns < 0 then Timestamp_MIN
         else if offset_100_ns > uint MAX_100_NANOS then Timestamp_MAX
         else Timestamp (word_of_int offset_100_ns))"

text \<open>The elapsed \<open>Duration\<close> is its number of nanoseconds.\<close>

definition elapsed :: "int \<Rightarrow> timestamp \<Rightarrow> nat" where
  "elapsed clock t =
     (let now = now clock
      in if ticks t > ticks now then 0 else unat (ticks now - ticks t) * 100)"

text \<open>
  \<open>get_timestamp\<close> is the \<open>uuid\<close> crate's reading of the time in a UUID (\<open>None\<close> where the
  version has none), as seconds and nanoseconds since the UNIX epoch.
\<close>

definition timestamp_try_from_uuid ::
  "('uuid \<Rightarrow> (u64 \<times> u32) option) \<Rightarrow> 'uuid \<Rightarrow> timestamp result" where
  "timestamp_try_from_uuid get_timestamp uuid =
     and_then (ok_or (get_timestamp uuid) (Bail ''UUID has no timestamp''))
       (\<lambda>(seconds, nanos).
          Ok (from_100_nanos (ticks (from_seconds seconds) + ucast (nanos div 100))))"

section \<open>Timestamped\<close>

datatype 'a maybe_uninit = Uninit | Init (assume_init: 'a)

record 'a timestamped =
  ts_timestamp :: u64
  ts_value :: "'a maybe_uninit"

definition DELETED_FLAG :: u64 where
  "DELETED_FLAG = push_bit 63 1"

definition TIMESTAMP_MASK :: u64 where
  "TIMESTAMP_MASK = NOT DELETED_FLAG"

definition timestamped_new :: "timestamp \<Rightarrow> 'a option \<Rightarrow> 'a timestamped" where
  "timestamped_new timestamp value =
     (case value of
        Some v \<Rightarrow> \<lparr>ts_timestamp = ticks timestamp AND TIMESTAMP_MASK, ts_value = Init v\<rparr>
      | None \<Rightarrow> \<lparr>ts_timestamp = ticks timestamp OR DELETED_FLAG, ts_value = Uninit\<rparr>)"

definition is_valid :: "'a timestamped \<Rightarrow> bool" where
  "is_valid t \<longleftrightarrow> ts_timestamp t AND DELETED_FLAG = 0"

definition is_tombstone :: "'a timestamped \<Rightarrow> bool" where
  "is_tombstone t \<longleftrightarrow> \<not> is_valid t"

definition timestamp_of :: "'a timestamped \<Rightarrow> timestamp" where
  "timestamp_of t = Timestamp (ts_timestamp t AND TIMESTAMP_MASK)"

text \<open>
  The unsafe read: \<open>assume_init\<close> of \<open>Uninit\<close> is an unspecified value here, undefined
  behaviour in Rust. That it is never reached is \<open>timestamped_wf\<close> below.
\<close>

definition timestamped_value :: "'a timestamped \<Rightarrow> 'a option" where
  "timestamped_value t = (if is_valid t then Some (assume_init (ts_value t)) else None)"

text \<open>
  \<open>into_value\<close> moves the value out; the second component is what is left of \<open>self\<close>, which
  \<open>Drop\<close> then sees. The values that a drop destroys are returned as a list.
\<close>

definition into_value :: "'a timestamped \<Rightarrow> 'a option \<times> 'a timestamped" where
  "into_value t =
     (if is_valid t
      then (Some (assume_init (ts_value t)),
            t\<lparr>ts_value := Uninit, ts_timestamp := ts_timestamp t OR DELETED_FLAG\<rparr>)
      else (None, t))"

definition drop_if_valid :: "'a timestamped \<Rightarrow> 'a list" where
  "drop_if_valid t = (if is_valid t then [assume_init (ts_value t)] else [])"

definition timestamped_set ::
  "'a timestamped \<Rightarrow> timestamp \<Rightarrow> 'a option \<Rightarrow> 'a timestamped \<times> 'a list" where
  "timestamped_set t timestamp value =
     (let dropped = drop_if_valid t
      in case value of
           Some v \<Rightarrow> (t\<lparr>ts_timestamp := ticks timestamp AND TIMESTAMP_MASK, ts_value := Init v\<rparr>, dropped)
         | None \<Rightarrow> (t\<lparr>ts_timestamp := ticks timestamp OR DELETED_FLAG, ts_value := Uninit\<rparr>, dropped))"

definition set_tombstone :: "'a timestamped \<Rightarrow> 'a timestamped" where
  "set_tombstone t =
     t\<lparr>ts_timestamp := ts_timestamp t OR DELETED_FLAG, ts_value := Uninit\<rparr>"

definition timestamped_clone :: "'a timestamped \<Rightarrow> 'a timestamped" where
  "timestamped_clone t =
     \<lparr>ts_timestamp = ts_timestamp t,
      ts_value = (if is_valid t then Init (assume_init (ts_value t)) else Uninit)\<rparr>"

definition timestamped_eq :: "'a timestamped \<Rightarrow> 'a timestamped \<Rightarrow> bool" where
  "timestamped_eq s t \<longleftrightarrow>
     ts_timestamp s = ts_timestamp t \<and> timestamped_value s = timestamped_value t"

subsection \<open>Timestamped without a value\<close>

definition new_valid_or_tombstone :: "timestamp \<Rightarrow> bool \<Rightarrow> unit timestamped" where
  "new_valid_or_tombstone timestamp valid =
     (if valid
      then \<lparr>ts_timestamp = ticks timestamp AND TIMESTAMP_MASK, ts_value = Init ()\<rparr>
      else \<lparr>ts_timestamp = ticks timestamp OR DELETED_FLAG, ts_value = Uninit\<rparr>)"

definition new_tombstone :: "timestamp \<Rightarrow> unit timestamped" where
  "new_tombstone timestamp = new_valid_or_tombstone timestamp False"

definition new_valid :: "timestamp \<Rightarrow> unit timestamped" where
  "new_valid timestamp = new_valid_or_tombstone timestamp True"

text \<open>
  The two transmutes. The unit value occupies no memory, so a transmuted value is
  initialised exactly when the flag says so. Native byte order is little endian here.
\<close>

definition into_ne_bytes :: "unit timestamped \<Rightarrow> u8 list" where
  "into_ne_bytes t = to_le (ts_timestamp t)"

definition from_ne_bytes :: "u8 list \<Rightarrow> unit timestamped" where
  "from_ne_bytes bytes =
     (let raw = from_le bytes
      in \<lparr>ts_timestamp = raw, ts_value = (if raw AND DELETED_FLAG = 0 then Init () else Uninit)\<rparr>)"

section \<open>Lemmas\<close>

text \<open>A timestamp uses the low 63 bits only.\<close>

definition timestamp_wf :: "timestamp \<Rightarrow> bool" where
  "timestamp_wf t \<longleftrightarrow> ticks t \<le> MAX_100_NANOS"

text \<open>The flag tells the truth about the memory behind it.\<close>

definition timestamped_wf :: "'a timestamped \<Rightarrow> bool" where
  "timestamped_wf t \<longleftrightarrow> (is_valid t \<longleftrightarrow> ts_value t \<noteq> Uninit)"

lemma unat_MAX_100_NANOS: "unat MAX_100_NANOS = 2 ^ 63 - 1"
  unfolding MAX_100_NANOS_def by (simp add: mask_eq_exp_minus_1)

lemma unat_MAX_MICROS: "unat MAX_MICROS = (2 ^ 63 - 1) div 10"
  unfolding MAX_MICROS_def by (simp add: unat_div unat_MAX_100_NANOS)

lemma unat_MAX_MILLIS: "unat MAX_MILLIS = (2 ^ 63 - 1) div 10000"
  unfolding MAX_MILLIS_def by (simp add: unat_div unat_MAX_MICROS)

lemma unat_MAX_SECONDS: "unat MAX_SECONDS = (2 ^ 63 - 1) div 10000000"
  unfolding MAX_SECONDS_def by (simp add: unat_div unat_MAX_MILLIS)

lemmas unat_MAX = unat_MAX_100_NANOS unat_MAX_MICROS unat_MAX_MILLIS unat_MAX_SECONDS

subsection \<open>Saturating conversions\<close>

text \<open>
  The four constructors share a contract: clamp to the largest number of units that fits in
  63 bits of ticks, then scale. A client may rely on the scaling being exact in the natural
  numbers, that is, on the absence of wrap-around.
\<close>

locale saturating_unit =
  fixes from_unit :: "u64 \<Rightarrow> timestamp"
    and limit :: u64
    and scale :: nat
  assumes from_unit_eq:
      "ticks (from_unit t) = (if t > limit then limit else t) * word_of_nat scale"
    and limit_fits: "unat limit * scale \<le> 2 ^ 63 - 1"
    and scale_fits: "scale < 2 ^ 64"
begin

lemma from_unit_exact: "unat (ticks (from_unit t)) = min (unat t) (unat limit) * scale"
proof -
  define c where "c = (if t > limit then limit else t)"
  have c: "unat c = min (unat t) (unat limit)"
    by (auto simp: c_def word_less_nat_alt)
  then have "unat c * scale \<le> unat limit * scale"
    by simp
  then have small: "unat c * scale < 2 ^ 64"
    using limit_fits by (rule le_less_trans [OF le_trans]) simp
  have "unat (c * word_of_nat scale) = unat c * unat (word_of_nat scale :: u64) mod 2 ^ 64"
    by (simp add: unat_word_ariths)
  also have "\<dots> = unat c * scale"
    using scale_fits small by (simp add: unat_of_nat)
  finally show ?thesis
    by (simp add: from_unit_eq c_def [symmetric] c)
qed

lemma from_unit_wf: "timestamp_wf (from_unit t)"
proof -
  have "unat (ticks (from_unit t)) \<le> unat limit * scale"
    by (simp add: from_unit_exact)
  then show ?thesis
    using limit_fits by (simp add: timestamp_wf_def word_le_nat_alt unat_MAX)
qed

lemma from_unit_mono: "s \<le> t \<Longrightarrow> from_unit s \<le> from_unit t"
proof -
  assume "s \<le> t"
  then have "min (unat s) (unat limit) \<le> min (unat t) (unat limit)"
    by (auto simp: word_le_nat_alt)
  then show ?thesis
    by (simp add: less_eq_timestamp_def word_le_nat_alt from_unit_exact)
qed

end

interpretation nanos: saturating_unit from_100_nanos MAX_100_NANOS 1
  by unfold_locales (simp_all add: from_100_nanos_def Let_def unat_MAX)

interpretation micros: saturating_unit from_micros MAX_MICROS 10
  by unfold_locales (simp_all add: from_micros_def Let_def unat_MAX)

interpretation millis: saturating_unit from_millis MAX_MILLIS 10000
  by unfold_locales (simp_all add: from_millis_def Let_def unat_MAX)

interpretation seconds: saturating_unit from_seconds MAX_SECONDS 10000000
  by unfold_locales (simp_all add: from_seconds_def Let_def unat_MAX)

lemmas from_units_exact =
  nanos.from_unit_exact micros.from_unit_exact millis.from_unit_exact seconds.from_unit_exact

lemma timestamp_wf_MIN [simp]: "timestamp_wf Timestamp_MIN"
  by (simp add: timestamp_wf_def Timestamp_MIN_def)

lemma now_wf: "timestamp_wf (now clock)"
proof -
  define k where "k = sgn clock * (\<bar>clock\<bar> div 100)"
  have "ticks (now clock) \<le> MAX_100_NANOS"
  proof (cases "k < 0 \<or> k > uint MAX_100_NANOS")
    case True
    then show ?thesis
      by (auto simp: now_def k_def [symmetric] Let_def Timestamp_MIN_def Timestamp_MAX_def)
  next
    case False
    moreover from False have "k < 2 ^ 64"
      using uint_bounded [of MAX_100_NANOS] by simp
    ultimately have "uint (word_of_int k :: u64) = k"
      by (simp add: unsigned_of_int take_bit_int_eq_self)
    with False show ?thesis
      by (simp add: now_def k_def [symmetric] Let_def word_le_def)
  qed
  then show ?thesis by (simp add: timestamp_wf_def)
qed

subsection \<open>Flag and timestamp\<close>

lemma timestamp_wf_bit: "timestamp_wf t \<longleftrightarrow> \<not> bit (ticks t) 63"
proof -
  have "timestamp_wf t \<longleftrightarrow> unat (ticks t) < 2 ^ 63"
    by (simp add: timestamp_wf_def word_le_nat_alt unat_MAX) linarith
  also have "\<dots> \<longleftrightarrow> unat (take_bit 63 (ticks t)) = unat (ticks t)"
    by (simp add: unsigned_take_bit_eq take_bit_nat_eq_self_iff)
  also have "\<dots> \<longleftrightarrow> take_bit 63 (ticks t) = ticks t"
    by (simp only: word_unat_eq_iff)
  also have "\<dots> \<longleftrightarrow> \<not> bit (ticks t) 63"
  proof
    assume "take_bit 63 (ticks t) = ticks t"
    then show "\<not> bit (ticks t) 63"
      by (metis bit_take_bit_iff less_irrefl)
  next
    assume "\<not> bit (ticks t) 63"
    then have "n < 63" if "bit (ticks t) n" "n < 64" for n
      using that by (cases "n = 63") auto
    then show "take_bit 63 (ticks t) = ticks t"
      by (auto intro!: bit_word_eqI simp: bit_simps)
  qed
  finally show ?thesis .
qed

lemma bit_DELETED_FLAG: "bit DELETED_FLAG n \<longleftrightarrow> n = 63"
  unfolding DELETED_FLAG_def by (subst bit_push_bit_iff) (auto simp: bit_1_iff)

lemma bit_TIMESTAMP_MASK: "n < 64 \<Longrightarrow> bit TIMESTAMP_MASK n \<longleftrightarrow> n \<noteq> 63"
  by (simp add: TIMESTAMP_MASK_def bit_simps bit_DELETED_FLAG)

lemma is_valid_iff_bit: "is_valid t \<longleftrightarrow> \<not> bit (ts_timestamp t) 63"
proof
  assume "is_valid t"
  then have "\<not> bit (ts_timestamp t AND DELETED_FLAG) 63"
    by (simp add: is_valid_def)
  then show "\<not> bit (ts_timestamp t) 63"
    by (simp add: bit_and_iff bit_DELETED_FLAG)
next
  assume "\<not> bit (ts_timestamp t) 63"
  then show "is_valid t"
    unfolding is_valid_def by (intro bit_word_eqI) (auto simp: bit_and_iff bit_DELETED_FLAG)
qed

lemma mask_flag_absorb [simp]:
  "(w OR DELETED_FLAG) AND TIMESTAMP_MASK = w AND TIMESTAMP_MASK"
  "(w AND TIMESTAMP_MASK) AND TIMESTAMP_MASK = w AND TIMESTAMP_MASK"
  by (auto intro!: bit_word_eqI simp: bit_simps bit_DELETED_FLAG bit_TIMESTAMP_MASK)

lemma mask_wf [simp]: "timestamp_wf t \<Longrightarrow> ticks t AND TIMESTAMP_MASK = ticks t"
  by (auto intro!: bit_word_eqI simp: bit_simps bit_TIMESTAMP_MASK timestamp_wf_bit)

lemma timestamp_of_wf [simp]: "timestamp_wf (timestamp_of t)"
  by (simp add: timestamp_wf_bit timestamp_of_def bit_simps bit_TIMESTAMP_MASK)

lemma flag_bits [simp]:
  "bit (w OR DELETED_FLAG) 63" "\<not> bit (w AND TIMESTAMP_MASK) 63"
  by (simp_all add: bit_simps bit_DELETED_FLAG bit_TIMESTAMP_MASK)

lemma timestamped_new_valid [simp]: "is_valid (timestamped_new t v) \<longleftrightarrow> v \<noteq> None"
  by (cases v) (simp_all add: timestamped_new_def is_valid_iff_bit)

lemma timestamped_new_value [simp]: "timestamped_value (timestamped_new t v) = v"
  by (cases v) (simp_all add: timestamped_value_def, simp add: timestamped_new_def)

lemma timestamped_new_timestamp [simp]:
  "timestamp_wf t \<Longrightarrow> timestamp_of (timestamped_new t v) = t"
  by (cases v) (simp_all add: timestamp_of_def timestamped_new_def)

lemma timestamped_new_wf [simp]: "timestamped_wf (timestamped_new t v)"
  unfolding timestamped_wf_def by (cases v) (simp_all add: timestamped_new_def is_valid_iff_bit)

lemma new_valid_or_tombstone_new:
  "new_valid_or_tombstone t b = timestamped_new t (if b then Some () else None)"
  by (simp add: new_valid_or_tombstone_def timestamped_new_def)

lemma set_tombstone_simps [simp]:
  "\<not> is_valid (set_tombstone t)"
  "timestamp_of (set_tombstone t) = timestamp_of t"
  "timestamped_wf (set_tombstone t)"
  by (simp_all add: set_tombstone_def is_valid_iff_bit timestamp_of_def timestamped_wf_def)

lemma timestamped_set_new:
  "fst (timestamped_set t ts v) = timestamped_new ts v"
  by (cases v) (simp_all add: timestamped_set_def timestamped_new_def)

lemma into_value_safe:
  assumes "timestamped_wf t"
  shows "timestamped_wf (snd (into_value t))"
    and "drop_if_valid (snd (into_value t)) = []"
    and "set_option (fst (into_value t)) = set (drop_if_valid t)"
  using assms by (auto simp: into_value_def drop_if_valid_def timestamped_wf_def is_valid_iff_bit)

lemma set_drops_old:
  assumes "timestamped_wf t"
  shows "snd (timestamped_set t ts v) = (case ts_value t of Uninit \<Rightarrow> [] | Init x \<Rightarrow> [x])"
  using assms
  by (cases v; cases "ts_value t")
    (simp_all add: timestamped_set_def drop_if_valid_def timestamped_wf_def)

lemma timestamped_clone_id:
  assumes "timestamped_wf t"
  shows "timestamped_clone t = t"
  using assms by (cases "ts_value t") (simp_all add: timestamped_clone_def timestamped_wf_def)

section \<open>Properties\<close>

text \<open>
  The conversions to a timestamp saturate and never wrap around: for each unit the ticks
  are the exact product, in the natural numbers, of the clamped input and the number of ticks
  per unit, so the largest result of every unit still leaves the top bit free.
\<close>

theorem timestamp_conversions_exact:
  "unat (ticks (from_100_nanos t)) = min (unat t) (2 ^ 63 - 1)
   \<and> unat (ticks (from_micros t)) = min (unat t) ((2 ^ 63 - 1) div 10) * 10
   \<and> unat (ticks (from_millis t)) = min (unat t) ((2 ^ 63 - 1) div 10000) * 10000
   \<and> unat (ticks (from_seconds t)) = min (unat t) ((2 ^ 63 - 1) div 10000000) * 10000000"
  by (simp add: from_units_exact unat_MAX)

text \<open>
  The timestamp read from a time-based UUID is the exact time in ticks whenever the
  seconds are not clamped: the 64-bit addition of the sub-second ticks cannot overflow, for
  any nanosecond count a 32-bit field can hold.
\<close>

theorem timestamp_from_uuid_exact:
  assumes "get_timestamp uuid = Some (seconds, nanos)"
    and "unat seconds * 10000000 + unat nanos div 100 \<le> 2 ^ 63 - 1"
  shows "\<exists>t. timestamp_try_from_uuid get_timestamp uuid = Ok t
           \<and> unat (ticks t) = unat seconds * 10000000 + unat nanos div 100"
proof -
  have small: "unat seconds \<le> (2 ^ 63 - 1) div 10000000"
    using assms(2) by simp
  have nanos: "unat (ucast (nanos div 100) :: u64) = unat nanos div 100"
    using unsigned_less [of nanos, where 'a = nat] by (simp add: unat_div unsigned_ucast_eq take_bit_nat_eq_self_iff)
  have "unat (ticks (from_seconds seconds) + ucast (nanos div 100))
          = (unat (ticks (from_seconds seconds)) + unat nanos div 100) mod 2 ^ 64"
    by (simp add: unat_word_ariths nanos)
  also have "\<dots> = unat seconds * 10000000 + unat nanos div 100"
    using assms(2) small by (simp add: from_units_exact unat_MAX min_absorb1)
  finally show ?thesis
    using assms by (simp add: timestamp_try_from_uuid_def from_units_exact unat_MAX)
qed

theorem timestamp_from_uuid_exact_witness:
  "\<exists>t. timestamp_try_from_uuid (\<lambda>_. Some (200, 100)) () = Ok t
     \<and> unat (ticks t) = 2000000001"
  using timestamp_from_uuid_exact [of "\<lambda>_. Some (200, 100)" "()" 200 100] by simp

text \<open>
  Packing a timestamp with an optional value loses nothing: for every timestamp in range
  the packed word gives back the same timestamp and the same optional value, the tombstone
  flag is set exactly for a missing value, and the value is initialised exactly when it is
  present.
\<close>

theorem timestamped_new_roundtrip:
  assumes "timestamp_wf t"
  shows "timestamp_of (timestamped_new t v) = t
    \<and> timestamped_value (timestamped_new t v) = v
    \<and> is_tombstone (timestamped_new t v) = (v = None)
    \<and> timestamped_wf (timestamped_new t v)"
  using assms by (simp add: is_tombstone_def)

theorem timestamped_new_roundtrip_witness:
  "timestamp_of (timestamped_new (from_millis 1000) (Some True)) = from_millis 1000"
  using timestamped_new_roundtrip [OF millis.from_unit_wf, of 1000 "Some True"] by simp

text \<open>
  The unsafe code of \<open>Timestamped\<close> is sound: starting from a value whose flag agrees
  with its memory, every operation leaves that agreement intact, \<open>into_value\<close> hands the
  value out once and leaves nothing for the destructor to drop again, and \<open>set\<close> drops
  exactly the value it overwrites.
\<close>

theorem timestamped_memory_safe:
  assumes "timestamped_wf t"
  shows "timestamped_wf (snd (into_value t))
    \<and> drop_if_valid (snd (into_value t)) = []
    \<and> set_option (fst (into_value t)) = set (drop_if_valid t)
    \<and> timestamped_wf (fst (timestamped_set t ts v))
    \<and> snd (timestamped_set t ts v) = (case ts_value t of Uninit \<Rightarrow> [] | Init x \<Rightarrow> [x])
    \<and> timestamped_wf (set_tombstone t)
    \<and> timestamped_clone t = t"
  using into_value_safe [OF assms] set_drops_old [OF assms] assms
  by (simp add: timestamped_set_new timestamped_clone_id)

theorem timestamped_memory_safe_witness:
  "drop_if_valid (snd (into_value (timestamped_new (Timestamp 7) (Some True)))) = []"
  using timestamped_memory_safe [OF timestamped_new_wf, of "Timestamp 7" "Some True"] by blast

text \<open>
  The byte representation of a timestamp chunk entry is faithful: the two transmutes are
  inverse on every well-formed entry, and every eight bytes decode to a well-formed entry
  that encodes back to the same bytes.
\<close>

theorem timestamped_bytes_roundtrip:
  "(timestamped_wf t \<longrightarrow> from_ne_bytes (into_ne_bytes t) = t)
   \<and> (length bytes = 8 \<longrightarrow> timestamped_wf (from_ne_bytes bytes)
        \<and> into_ne_bytes (from_ne_bytes bytes) = bytes)"
proof (intro conjI impI)
  assume wf: "timestamped_wf t"
  have "ts_value t = (if is_valid t then Init () else Uninit)"
    using wf by (cases "ts_value t") (auto simp: timestamped_wf_def)
  then show "from_ne_bytes (into_ne_bytes t) = t"
    by (simp add: from_ne_bytes_def into_ne_bytes_def is_valid_def Let_def)
next
  assume "length bytes = 8"
  then show "into_ne_bytes (from_ne_bytes bytes) = bytes"
    by (simp add: from_ne_bytes_def into_ne_bytes_def Let_def to_le_from_le)
next
  show "timestamped_wf (from_ne_bytes bytes)"
    by (simp add: from_ne_bytes_def timestamped_wf_def is_valid_def Let_def)
qed

theorem timestamped_bytes_roundtrip_witness:
  "from_ne_bytes (into_ne_bytes (new_tombstone (Timestamp 1000))) = new_tombstone (Timestamp 1000)"
  using timestamped_bytes_roundtrip [of "new_tombstone (Timestamp 1000)" "[]"]
  by (simp add: new_tombstone_def new_valid_or_tombstone_new)

end
