(* ===== verification/Row_Ids.thy ===== *)
theory Row_Ids
  imports Prelude
begin

text \<open>
  Model of \<open>crates/vector-store/src/table/primary_id.rs\<close> and \<open>partition_id.rs\<close>: a row
  identifier packs a 48-bit column index with a 16-bit epoch, a partition identifier a
  48-bit index with the 16-bit identifier of its index, and \<open>IndexIdGenerator\<close> hands out
  index identifiers whose top bit marks a global index. The lemmas show that packing and
  unpacking are inverse, that the reserved value is no row, and that the generator never
  repeats itself. A \<open>usize\<close> is a natural number here: the source asserts it is as wide as
  the packed word, and every index is tested against its limit before it is packed.
\<close>

section \<open>Epoch and PrimaryId\<close>

datatype epoch = Epoch (epoch_raw: u16)

datatype primary_id = PrimaryId (primary_raw: u64)

definition EPOCH_SHIFT :: nat where
  "EPOCH_SHIFT = (8 - 2) * 8"

definition RESERVED :: u64 where
  "RESERVED = NOT (push_bit EPOCH_SHIFT (ucast (- 1 :: u16)))"

definition PRIMARY_MAX :: u64 where
  "PRIMARY_MAX = RESERVED - 1"

definition primary_try_new :: "nat \<Rightarrow> epoch \<Rightarrow> primary_id result" where
  "primary_try_new idx epoch =
     (if idx > unat PRIMARY_MAX then Err (Bail ''PrimaryId is too large'')
      else Ok (PrimaryId (push_bit EPOCH_SHIFT (ucast (epoch_raw epoch)) OR word_of_nat idx)))"

definition new_epoch :: "primary_id \<Rightarrow> epoch \<Rightarrow> primary_id" where
  "new_epoch p epoch =
     (let raw = primary_raw p AND RESERVED
      in PrimaryId (raw OR push_bit EPOCH_SHIFT (ucast (epoch_raw epoch))))"

definition primary_epoch :: "primary_id \<Rightarrow> epoch" where
  "primary_epoch p = Epoch (ucast (drop_bit EPOCH_SHIFT (primary_raw p)))"

definition new_reserved :: primary_id where
  "new_reserved = PrimaryId RESERVED"

definition primary_idx :: "primary_id \<Rightarrow> nat" where
  "primary_idx p = unat (primary_raw p AND RESERVED)"

definition epoch_new :: epoch where
  "epoch_new = Epoch 0"

definition epoch_next :: "epoch \<Rightarrow> epoch" where
  "epoch_next e = (if epoch_raw e = - 1 then Epoch 0 else Epoch (epoch_raw e + 1))"

definition epoch_to_ne_bytes :: "epoch \<Rightarrow> u8 list" where
  "epoch_to_ne_bytes e = to_le (epoch_raw e)"

definition epoch_from_ne_bytes :: "u8 list \<Rightarrow> epoch" where
  "epoch_from_ne_bytes bytes = Epoch (from_le bytes)"

section \<open>IndexId and PartitionId\<close>

datatype index_id = IndexId (index_raw: u16)

datatype partition_id = PartitionId (partition_raw: u64)

instantiation index_id :: linorder
begin

definition less_eq_index_id :: "index_id \<Rightarrow> index_id \<Rightarrow> bool" where
  "less_eq_index_id s t \<longleftrightarrow> index_raw s \<le> index_raw t"

definition less_index_id :: "index_id \<Rightarrow> index_id \<Rightarrow> bool" where
  "less_index_id s t \<longleftrightarrow> index_raw s < index_raw t"

instance
  by standard (auto simp: less_eq_index_id_def less_index_id_def index_id.expand)

end

definition INDEX_ID_MASK :: u16 where
  "INDEX_ID_MASK = - 1"

definition GLOBAL_BIT :: u16 where
  "GLOBAL_BIT = push_bit (16 - 1) 1"

definition INDEX_ID_MAX :: u16 where
  "INDEX_ID_MAX = INDEX_ID_MASK AND NOT GLOBAL_BIT"

definition index_id_local :: "u16 \<Rightarrow> index_id result" where
  "index_id_local i =
     (if i > INDEX_ID_MAX then Err (Bail ''Base value is too large for local IndexId'')
      else Ok (IndexId i))"

definition index_id_global :: "u16 \<Rightarrow> index_id result" where
  "index_id_global i =
     (if i > INDEX_ID_MAX then Err (Bail ''Base value is too large for global IndexId'')
      else Ok (IndexId (i OR GLOBAL_BIT)))"

definition is_global :: "index_id \<Rightarrow> bool" where
  "is_global i \<longleftrightarrow> index_raw i AND GLOBAL_BIT \<noteq> 0"

record index_id_generator =
  gen_next :: u16

definition generator_new :: index_id_generator where
  "generator_new = \<lparr>gen_next = 0\<rparr>"

definition generator_next :: "bool \<Rightarrow> index_id_generator \<Rightarrow> index_id result \<times> index_id_generator" where
  "generator_next global g =
     (if gen_next g = INDEX_ID_MAX then (Err (Bail ''No more IndexIds available''), g)
      else case (if global then index_id_global (gen_next g) else index_id_local (gen_next g)) of
             Inl e \<Rightarrow> (Inl e, g)
           | Inr index_id \<Rightarrow> (Ok index_id, g\<lparr>gen_next := gen_next g + 1\<rparr>))"

definition INDEX_ID_SHIFT :: nat where
  "INDEX_ID_SHIFT = (8 - 2) * 8"

definition PARTITION_MAX :: u64 where
  "PARTITION_MAX = NOT (push_bit INDEX_ID_SHIFT (ucast INDEX_ID_MASK))"

definition partition_try_new :: "nat \<Rightarrow> index_id \<Rightarrow> partition_id result" where
  "partition_try_new idx index_id =
     (if idx > unat PARTITION_MAX then Err (Bail ''PartitionId is too large'')
      else Ok (PartitionId (push_bit INDEX_ID_SHIFT (ucast (index_raw index_id)) OR word_of_nat idx)))"

definition partition_global :: "index_id \<Rightarrow> partition_id" where
  "partition_global index_id = PartitionId (push_bit INDEX_ID_SHIFT (ucast (index_raw index_id)))"

definition partition_index_id :: "partition_id \<Rightarrow> index_id" where
  "partition_index_id p = IndexId (ucast (drop_bit INDEX_ID_SHIFT (partition_raw p)))"

definition partition_idx :: "partition_id \<Rightarrow> nat" where
  "partition_idx p = unat (partition_raw p AND PARTITION_MAX)"

section \<open>Packing\<close>

text \<open>Both identifiers put a 16-bit tag above a 48-bit index.\<close>

definition pack :: "u16 \<Rightarrow> nat \<Rightarrow> u64" where
  "pack tag idx = push_bit 48 (ucast tag) OR word_of_nat idx"

lemma low_mask_eq:
  "NOT (push_bit 48 (ucast (- 1 :: u16))) = (mask 48 :: u64)"
  by (intro bit_word_eqI) (auto simp: bit_simps)

lemma RESERVED_mask: "RESERVED = mask 48"
  unfolding RESERVED_def EPOCH_SHIFT_def by (simp add: low_mask_eq)

lemma PARTITION_MAX_mask: "PARTITION_MAX = mask 48"
  unfolding PARTITION_MAX_def INDEX_ID_SHIFT_def INDEX_ID_MASK_def by (simp add: low_mask_eq)

lemma unat_mask_48: "unat (mask 48 :: u64) = 2 ^ 48 - 1"
  by (simp add: mask_eq_exp_minus_1)

lemma unat_PRIMARY_MAX: "unat PRIMARY_MAX = 2 ^ 48 - 2"
  unfolding PRIMARY_MAX_def RESERVED_mask by (simp add: mask_eq_exp_minus_1)

lemma bit_nat_lt_48:
  assumes "bit (idx :: nat) n" and "idx < 281474976710656"
  shows "n < 48"
proof -
  have "take_bit 48 idx = idx"
    using assms(2) by (simp add: take_bit_nat_eq_self_iff)
  then show ?thesis
    using assms(1) by (metis bit_take_bit_iff)
qed

lemma pack_and_mask: "idx < 2 ^ 48 \<Longrightarrow> pack tag idx AND mask 48 = word_of_nat idx"
  by (intro bit_word_eqI) (auto simp: pack_def bit_simps dest: bit_nat_lt_48)

lemma pack_idx: "idx < 2 ^ 48 \<Longrightarrow> unat (pack tag idx AND mask 48) = idx"
  by (simp add: pack_and_mask unat_of_nat)

lemma pack_tag: "idx < 2 ^ 48 \<Longrightarrow> ucast (drop_bit 48 (pack tag idx)) = tag"
  by (intro bit_word_eqI) (auto simp: pack_def bit_simps dest: bit_nat_lt_48)

lemma pack_unpack: "pack (ucast (drop_bit 48 w)) (unat (w AND mask 48)) = w"
  by (intro bit_word_eqI) (auto simp: pack_def bit_simps)

lemma pack_mask_or:
  "(w AND mask 48) OR push_bit 48 (ucast tag) = pack tag (unat (w AND mask 48))"
  by (intro bit_word_eqI) (auto simp: pack_def bit_simps)

lemma unat_and_mask_48: "unat (w AND mask 48 :: u64) < 2 ^ 48"
proof -
  have "w AND mask 48 \<le> (mask 48 :: u64)"
    by (rule word_and_le1)
  then show ?thesis
    by (simp add: word_le_nat_alt unat_mask_48)
qed

lemma pack_eq_iff:
  "i < 2 ^ 48 \<Longrightarrow> j < 2 ^ 48 \<Longrightarrow> pack s i = pack t j \<longleftrightarrow> s = t \<and> i = j"
  by (metis pack_idx pack_tag)

subsection \<open>Row identifiers\<close>

lemma primary_try_new_pack:
  "primary_try_new idx e =
     (if idx > 2 ^ 48 - 2 then Err (Bail ''PrimaryId is too large'')
      else Ok (PrimaryId (pack (epoch_raw e) idx)))"
  by (simp add: primary_try_new_def unat_PRIMARY_MAX pack_def EPOCH_SHIFT_def)

lemma new_epoch_pack: "new_epoch p e = PrimaryId (pack (epoch_raw e) (primary_idx p))"
  by (simp add: new_epoch_def primary_idx_def RESERVED_mask EPOCH_SHIFT_def pack_mask_or)

lemma primary_idx_lt: "primary_idx p < 2 ^ 48"
  unfolding primary_idx_def RESERVED_mask by (rule unat_and_mask_48)

lemma primary_idx_pack [simp]: "idx < 2 ^ 48 \<Longrightarrow> primary_idx (PrimaryId (pack t idx)) = idx"
  by (simp add: primary_idx_def RESERVED_mask pack_idx del: One_nat_def)

lemma primary_epoch_pack [simp]: "idx < 2 ^ 48 \<Longrightarrow> primary_epoch (PrimaryId (pack t idx)) = Epoch t"
  by (simp add: primary_epoch_def EPOCH_SHIFT_def pack_tag)

lemma primary_id_pack: "PrimaryId (pack (epoch_raw (primary_epoch p)) (primary_idx p)) = p"
  by (cases p)
    (simp add: primary_epoch_def primary_idx_def EPOCH_SHIFT_def RESERVED_mask pack_unpack)

lemma primary_id_eq_iff: "p = q \<longleftrightarrow> primary_idx p = primary_idx q \<and> primary_epoch p = primary_epoch q"
  by (metis primary_id_pack)

lemma primary_idx_new_epoch [simp]: "primary_idx (new_epoch p e) = primary_idx p"
  using primary_idx_lt [of p] by (simp add: new_epoch_pack)

lemma primary_epoch_new_epoch [simp]: "primary_epoch (new_epoch p e) = e"
  using primary_idx_lt [of p] by (simp add: new_epoch_pack)

lemma primary_try_new_Ok:
  assumes "primary_try_new idx e = Ok p"
  shows "primary_idx p = idx" and "primary_epoch p = e" and "idx \<le> 2 ^ 48 - 2"
  using assms by (auto simp: primary_try_new_pack split: if_splits)

lemma epoch_next_raw: "epoch_raw (epoch_next e) = epoch_raw e + 1"
  by (simp add: epoch_next_def)

lemma epoch_bytes_roundtrip [simp]: "epoch_from_ne_bytes (epoch_to_ne_bytes e) = e"
  by (simp add: epoch_from_ne_bytes_def epoch_to_ne_bytes_def)

lemma length_epoch_bytes [simp]: "length (epoch_to_ne_bytes e) = 2"
  by (simp add: epoch_to_ne_bytes_def)

lemma epoch_next_power: "epoch_raw ((epoch_next ^^ n) e) = epoch_raw e + word_of_nat n"
  by (induction n) (simp_all add: epoch_next_raw)

subsection \<open>Partition identifiers\<close>

lemma partition_try_new_pack:
  "partition_try_new idx i =
     (if idx > 2 ^ 48 - 1 then Err (Bail ''PartitionId is too large'')
      else Ok (PartitionId (pack (index_raw i) idx)))"
  by (simp add: partition_try_new_def PARTITION_MAX_mask unat_mask_48 pack_def INDEX_ID_SHIFT_def)

lemma partition_global_pack: "partition_global i = PartitionId (pack (index_raw i) 0)"
  by (simp add: partition_global_def pack_def INDEX_ID_SHIFT_def)

lemma partition_idx_pack [simp]: "idx < 2 ^ 48 \<Longrightarrow> partition_idx (PartitionId (pack t idx)) = idx"
  by (simp add: partition_idx_def PARTITION_MAX_mask pack_idx del: One_nat_def)

lemma partition_index_id_pack [simp]:
  "idx < 2 ^ 48 \<Longrightarrow> partition_index_id (PartitionId (pack t idx)) = IndexId t"
  by (simp add: partition_index_id_def INDEX_ID_SHIFT_def pack_tag)

lemma partition_id_pack:
  "PartitionId (pack (index_raw (partition_index_id p)) (partition_idx p)) = p"
  by (cases p)
    (simp add: partition_index_id_def partition_idx_def INDEX_ID_SHIFT_def PARTITION_MAX_mask
      pack_unpack)

lemma partition_id_eq_iff:
  "p = q \<longleftrightarrow> partition_idx p = partition_idx q \<and> partition_index_id p = partition_index_id q"
  by (metis partition_id_pack)

lemma partition_index_id_global [simp]: "partition_index_id (partition_global i) = i"
  by (simp add: partition_global_pack)

lemma partition_try_new_Ok:
  assumes "partition_try_new idx i = Ok p"
  shows "partition_idx p = idx" and "partition_index_id p = i"
  using assms by (auto simp: partition_try_new_pack split: if_splits)

subsection \<open>The index identifier generator\<close>

lemma bit_GLOBAL_BIT: "bit GLOBAL_BIT n \<longleftrightarrow> n = 15"
  unfolding GLOBAL_BIT_def by (subst bit_push_bit_iff) (auto simp: bit_1_iff)

lemma INDEX_ID_MAX_mask: "INDEX_ID_MAX = mask 15"
  unfolding INDEX_ID_MAX_def INDEX_ID_MASK_def
  by (intro bit_word_eqI) (auto simp: bit_simps bit_GLOBAL_BIT)

lemma unat_INDEX_ID_MAX: "unat INDEX_ID_MAX = 2 ^ 15 - 1"
  by (simp add: INDEX_ID_MAX_mask mask_eq_exp_minus_1)

text \<open>The number below the flag bit, which the generator counts up.\<close>

definition index_base :: "index_id \<Rightarrow> u16" where
  "index_base i = index_raw i AND INDEX_ID_MAX"

lemma index_base_small: "n \<le> INDEX_ID_MAX \<Longrightarrow> n AND INDEX_ID_MAX = n"
proof -
  assume "n \<le> INDEX_ID_MAX"
  then have "unat n < 2 ^ 15"
    by (simp add: word_le_nat_alt unat_INDEX_ID_MAX)
  then have "take_bit 15 (unat n) = unat n"
    by (simp add: take_bit_nat_eq_self_iff)
  then have "take_bit 15 n = n"
    by (metis unsigned_take_bit_eq word_unat_eq_iff)
  then show ?thesis
    by (simp add: INDEX_ID_MAX_mask take_bit_eq_mask)
qed

lemma index_id_new:
  assumes "n \<le> INDEX_ID_MAX"
    and "(if global then index_id_global n else index_id_local n) = Ok i"
  shows "index_base i = n" and "is_global i = global"
proof -
  have no_flag: "\<not> bit n 15"
    using index_base_small [OF assms(1)] by (metis INDEX_ID_MAX_mask bit_and_iff bit_mask_iff less_irrefl)
  have i: "index_raw i = (if global then n OR GLOBAL_BIT else n)"
    using assms by (auto simp: index_id_global_def index_id_local_def split: if_splits)
  have "(n OR GLOBAL_BIT) AND INDEX_ID_MAX = n AND INDEX_ID_MAX"
    by (intro bit_word_eqI) (auto simp: bit_simps INDEX_ID_MAX_mask bit_GLOBAL_BIT)
  then show "index_base i = n"
    by (simp add: index_base_def i index_base_small assms(1))
  have "bit (index_raw i AND GLOBAL_BIT) 15 = global"
    by (simp add: i bit_simps bit_GLOBAL_BIT no_flag)
  moreover have "n AND GLOBAL_BIT = 0"
    by (intro bit_word_eqI) (auto simp: bit_simps bit_GLOBAL_BIT no_flag)
  ultimately show "is_global i = global"
    by (cases global) (auto simp: is_global_def i)
qed

fun generator_run :: "bool list \<Rightarrow> index_id_generator \<Rightarrow> index_id result list" where
  "generator_run [] g = []"
| "generator_run (global # flags) g =
     (case generator_next global g of (r, g') \<Rightarrow> r # generator_run flags g')"

lemma generator_next_Ok:
  assumes "unat (gen_next g) < 2 ^ 15 - 1"
  shows "\<exists>i. generator_next global g = (Ok i, g\<lparr>gen_next := gen_next g + 1\<rparr>)
           \<and> index_base i = gen_next g \<and> is_global i = global"
proof -
  have le: "gen_next g \<le> INDEX_ID_MAX" and ne: "gen_next g \<noteq> INDEX_ID_MAX"
    using assms by (auto simp: word_le_nat_alt unat_INDEX_ID_MAX)
  obtain i where i: "(if global then index_id_global (gen_next g) else index_id_local (gen_next g)) = Ok i"
    using le by (cases global) (auto simp: index_id_global_def index_id_local_def not_less [symmetric])
  show ?thesis
    using index_id_new [OF le i] i ne by (simp add: generator_next_def)
qed

lemma generator_run_Ok:
  "unat (gen_next g) + length flags \<le> 2 ^ 15 - 1 \<Longrightarrow>
     \<exists>ids. generator_run flags g = map Ok ids
        \<and> map (unat \<circ> index_base) ids = [unat (gen_next g)..<unat (gen_next g) + length flags]
        \<and> map is_global ids = flags"
proof (induction flags arbitrary: g)
  case (Cons global flags)
  then have "unat (gen_next g) < 2 ^ 15 - 1" by simp
  from generator_next_Ok [OF this, of global] obtain i where
    i: "generator_next global g = (Ok i, g\<lparr>gen_next := gen_next g + 1\<rparr>)"
      "index_base i = gen_next g" "is_global i = global" by blast
  define g' where "g' = g\<lparr>gen_next := gen_next g + 1\<rparr>"
  have next_val: "unat (gen_next g') = Suc (unat (gen_next g))"
    using Cons.prems by (simp add: g'_def unat_word_ariths)
  then have "unat (gen_next g') + length flags \<le> 2 ^ 15 - 1"
    using Cons.prems by simp
  from Cons.IH [OF this] obtain ids where
    ids: "generator_run flags g' = map Ok ids" "map is_global ids = flags"
      "map (unat \<circ> index_base) ids = [unat (gen_next g')..<unat (gen_next g') + length flags]"
    by blast
  have "map (unat \<circ> index_base) (i # ids) =
      [unat (gen_next g)..<unat (gen_next g) + length (global # flags)]"
    using ids(3) i(2) by (simp add: next_val upt_rec [of "unat (gen_next g)"] del: upt_Suc)
  moreover have "generator_run (global # flags) g = map Ok (i # ids)"
    using i(1) ids(1) by (simp add: g'_def)
  moreover have "map is_global (i # ids) = global # flags"
    using i(3) ids(2) by simp
  ultimately show ?case by (intro exI [of _ "i # ids"] conjI)
qed simp

section \<open>Properties\<close>

text \<open>
  Packing a row index and an epoch into a row identifier is lossless. \<open>try_new\<close> accepts
  exactly the indexes up to 2 to the 48 minus 2, the identifier gives back the index and the
  epoch, \<open>new_epoch\<close> replaces the epoch and keeps the index, and no accepted index yields the
  reserved identifier at any epoch.
\<close>

theorem primary_id_roundtrip:
  "(is_ok (primary_try_new idx e) \<longleftrightarrow> idx \<le> 2 ^ 48 - 2)
   \<and> (\<forall>p. primary_try_new idx e = Ok p \<longrightarrow>
          primary_idx p = idx \<and> primary_epoch p = e
        \<and> primary_idx (new_epoch p e') = idx \<and> primary_epoch (new_epoch p e') = e'
        \<and> primary_idx p \<noteq> primary_idx new_reserved)"
proof -
  have "primary_idx new_reserved = 2 ^ 48 - 1"
    by (simp add: primary_idx_def new_reserved_def RESERVED_mask unat_mask_48)
  then show ?thesis
    by (auto simp: result_simps primary_try_new_pack split: if_splits)
qed

theorem primary_id_roundtrip_witness:
  "\<exists>p. primary_try_new 5 (Epoch 7) = Ok p \<and> primary_idx p = 5 \<and> primary_epoch p = Epoch 7"
  using primary_id_roundtrip [of 5 "Epoch 7" "Epoch 7"] by (auto simp: result_simps)

text \<open>
  Epochs are cyclic with period 65536: after n updates of a row its epoch is the initial
  one again exactly when n is a multiple of 65536, so two identifiers of one row can only be
  confused when that many updates lie between them.
\<close>

theorem epoch_cycle: "(epoch_next ^^ n) e = e \<longleftrightarrow> 65536 dvd n"
proof -
  have "(epoch_next ^^ n) e = e \<longleftrightarrow> (word_of_nat n :: u16) = 0"
    using epoch_next_power [of n e] by (metis add_cancel_left_right epoch.expand)
  then show ?thesis
    by (simp add: word_of_nat_eq_0_iff)
qed

text \<open>
  Packing a partition index with an index identifier is lossless: the partition
  identifier gives back both parts, distinct pairs give distinct identifiers, and the single
  partition of a global index belongs to that index.
\<close>

theorem partition_id_roundtrip:
  "(is_ok (partition_try_new idx i) \<longleftrightarrow> idx \<le> 2 ^ 48 - 1)
   \<and> (\<forall>p. partition_try_new idx i = Ok p \<longrightarrow>
          partition_idx p = idx \<and> partition_index_id p = i
        \<and> (\<forall>jdx j. partition_try_new jdx j = Ok p \<longrightarrow> jdx = idx \<and> j = i))
   \<and> partition_index_id (partition_global i) = i"
proof -
  have "is_ok (partition_try_new idx i) \<longleftrightarrow> idx \<le> 2 ^ 48 - 1"
    by (auto simp: result_simps partition_try_new_pack split: if_splits)
  moreover have "jdx = idx \<and> j = i"
    if "partition_try_new idx i = Ok p" "partition_try_new jdx j = Ok p" for p jdx j
    using partition_try_new_Ok [OF that(1)] partition_try_new_Ok [OF that(2)] by simp
  ultimately show ?thesis
    by (simp add: partition_try_new_Ok)
qed

theorem partition_id_roundtrip_witness:
  "\<exists>p. partition_try_new 9 (IndexId 3) = Ok p \<and> partition_idx p = 9 \<and> partition_index_id p = IndexId 3"
  using partition_id_roundtrip [of 9 "IndexId 3"] by (auto simp: result_simps)

text \<open>
  The index identifier generator issues 32767 identifiers and then refuses: any run of at
  most that many requests succeeds, all identifiers issued are distinct whatever mix of
  local and global indexes was asked for, and each carries the kind that was requested.
\<close>

theorem generator_distinct:
  assumes "length flags \<le> 2 ^ 15 - 1"
  shows "\<exists>ids. generator_run flags generator_new = map Ok ids
    \<and> distinct ids \<and> map is_global ids = flags"
proof -
  obtain ids where ids: "generator_run flags generator_new = map Ok ids"
    "map (unat \<circ> index_base) ids = [0..<length flags]" "map is_global ids = flags"
    using generator_run_Ok [of generator_new flags] assms by (auto simp: generator_new_def)
  moreover from this have "distinct ids"
    by (metis distinct_map distinct_upt)
  ultimately show ?thesis by blast
qed

theorem generator_distinct_witness:
  "\<exists>ids. generator_run [True, False] generator_new = map Ok ids
     \<and> distinct ids \<and> map is_global ids = [True, False]"
  using generator_distinct [of "[True, False]"] by simp

end
