(* ===== verification/Vec_Chunks.thy ===== *)
theory Vec_Chunks
  imports Timestamps Row_Ids
begin

text \<open>
  Model of \<open>crates/vector-store/src/table/vec_chunks.rs\<close>, \<open>chunk_timestamps.rs\<close> and
  \<open>column_vec_chunks.rs\<close>: fixed-size chunks in one byte vector, and the chunk that the table
  keeps for every row and index, an epoch followed by the timestamps of the indexed values.
  The \<open>Chunk\<close> trait is the locale \<open>chunk_type\<close>; inside it the byte vector is shown to
  behave as a list of chunks. The methods of the trait are arguments of the definitions.
\<close>

section \<open>VecChunks\<close>

record 'c vec_chunks =
  vc_vec :: "u8 list"
  vc_chunk_size :: nat
  vc_chunk :: 'c

definition vc_new :: "('c \<Rightarrow> nat) \<Rightarrow> 'c \<Rightarrow> 'c vec_chunks" where
  "vc_new chunk_sz chunk = \<lparr>vc_vec = [], vc_chunk_size = chunk_sz chunk, vc_chunk = chunk\<rparr>"

definition vc_len :: "'c vec_chunks \<Rightarrow> nat" where
  "vc_len vc = length (vc_vec vc) div vc_chunk_size vc"

definition vc_resize ::
  "('c \<Rightarrow> u8 list \<Rightarrow> u8 list option) \<Rightarrow> nat \<Rightarrow> 'c vec_chunks \<Rightarrow> 'c vec_chunks result" where
  "vc_resize fill_default new_size vc =
     (let len = vc_len vc
      in if new_size \<le> len
         then Ok (vc\<lparr>vc_vec := take (new_size * vc_chunk_size vc) (vc_vec vc)\<rparr>)
         else case fill_default (vc_chunk vc) (replicate (vc_chunk_size vc) 0) of
                None \<Rightarrow> Err (Panic ''chunk_bytes is sized to chunk_size'')
              | Some chunk_bytes \<Rightarrow>
                  Ok (vc\<lparr>vc_vec := vc_vec vc @ concat (replicate (new_size - len) chunk_bytes)\<rparr>))"

definition vc_get :: "('c \<Rightarrow> u8 list \<Rightarrow> 'sh option) \<Rightarrow> 'c vec_chunks \<Rightarrow> nat \<Rightarrow> 'sh option" where
  "vc_get get vc idx =
     (if idx \<ge> vc_len vc then None
      else get (vc_chunk vc)
             (slice (idx * vc_chunk_size vc) ((idx + 1) * vc_chunk_size vc) (vc_vec vc)))"

definition vc_get_mut :: "('c \<Rightarrow> u8 list \<Rightarrow> 'ex option) \<Rightarrow> 'c vec_chunks \<Rightarrow> nat \<Rightarrow> 'ex option" where
  "vc_get_mut get_mut vc idx =
     (if idx \<ge> vc_len vc then None
      else get_mut (vc_chunk vc)
             (slice (idx * vc_chunk_size vc) ((idx + 1) * vc_chunk_size vc) (vc_vec vc)))"

text \<open>
  What a client wrote through the exclusive view of chunk \<open>idx\<close> is in the vector when the
  borrow ends.
\<close>

definition vc_write :: "nat \<Rightarrow> u8 list \<Rightarrow> 'c vec_chunks \<Rightarrow> 'c vec_chunks" where
  "vc_write idx bytes vc = vc\<lparr>vc_vec := write_at (idx * vc_chunk_size vc) bytes (vc_vec vc)\<rparr>"

section \<open>ChunkTimestamps\<close>

datatype chunk_timestamps = ChunkTimestamps nat

definition EPOCH_SIZE :: nat where
  "EPOCH_SIZE = 2"

definition TIMESTAMPED_SIZE :: nat where
  "TIMESTAMPED_SIZE = 8"

definition chunk_size :: "nat \<Rightarrow> nat" where
  "chunk_size elements = EPOCH_SIZE + elements * TIMESTAMPED_SIZE"

definition bytes_epoch :: "u8 list \<Rightarrow> epoch" where
  "bytes_epoch bytes = epoch_from_ne_bytes (take EPOCH_SIZE bytes)"

definition bytes_set_epoch :: "u8 list \<Rightarrow> epoch \<Rightarrow> u8 list" where
  "bytes_set_epoch bytes epoch = write_at 0 (epoch_to_ne_bytes epoch) bytes"

definition bytes_timestamp :: "nat \<Rightarrow> u8 list \<Rightarrow> nat \<Rightarrow> unit timestamped option" where
  "bytes_timestamp n bytes idx =
     (if idx \<ge> n then None
      else let offset = EPOCH_SIZE + idx * TIMESTAMPED_SIZE
           in Some (from_ne_bytes (slice offset (offset + TIMESTAMPED_SIZE) bytes)))"

definition bytes_set_timestamp :: "nat \<Rightarrow> u8 list \<Rightarrow> nat \<Rightarrow> unit timestamped \<Rightarrow> u8 list option" where
  "bytes_set_timestamp n bytes idx value =
     (if idx \<ge> n then None
      else let offset = EPOCH_SIZE + idx * TIMESTAMPED_SIZE
           in Some (write_at offset (into_ne_bytes value) bytes))"

record chunk_timestamps_shared =
  sh_bytes :: "u8 list"

record chunk_timestamps_exclusive =
  ex_size :: nat
  ex_bytes :: "u8 list"

definition ct_new :: "nat \<Rightarrow> chunk_timestamps" where
  "ct_new n = ChunkTimestamps n"

fun ct_size :: "chunk_timestamps \<Rightarrow> nat" where
  "ct_size (ChunkTimestamps n) = chunk_size n"

text \<open>
  The loop \<open>for idx in 0..self.0\<close> of \<open>fill_default\<close>; its \<open>expect\<close> cannot fail because
  \<open>idx\<close> stays below \<open>n\<close>, so a \<open>None\<close> of the model is a \<open>None\<close> of the function.
\<close>

fun ct_fill_from :: "nat \<Rightarrow> nat list \<Rightarrow> u8 list \<Rightarrow> u8 list option" where
  "ct_fill_from n [] bytes = Some bytes"
| "ct_fill_from n (idx # idxs) bytes =
     (case bytes_set_timestamp n bytes idx (new_tombstone Timestamp_MIN) of
        None \<Rightarrow> None
      | Some bytes' \<Rightarrow> ct_fill_from n idxs bytes')"

fun ct_fill_default :: "chunk_timestamps \<Rightarrow> u8 list \<Rightarrow> u8 list option" where
  "ct_fill_default (ChunkTimestamps n) bytes =
     (if chunk_size n \<noteq> length bytes then None
      else ct_fill_from n [0..<n] (bytes_set_epoch bytes epoch_new))"

fun ct_get :: "chunk_timestamps \<Rightarrow> u8 list \<Rightarrow> chunk_timestamps_shared option" where
  "ct_get (ChunkTimestamps n) bytes =
     (if chunk_size n = length bytes then Some \<lparr>sh_bytes = bytes\<rparr> else None)"

fun ct_get_mut :: "chunk_timestamps \<Rightarrow> u8 list \<Rightarrow> chunk_timestamps_exclusive option" where
  "ct_get_mut (ChunkTimestamps n) bytes =
     (if chunk_size n = length bytes then Some \<lparr>ex_size = n, ex_bytes = bytes\<rparr> else None)"

definition sh_epoch :: "chunk_timestamps_shared \<Rightarrow> epoch" where
  "sh_epoch v = bytes_epoch (sh_bytes v)"

definition ex_epoch :: "chunk_timestamps_exclusive \<Rightarrow> epoch" where
  "ex_epoch v = bytes_epoch (ex_bytes v)"

definition ex_set_epoch :: "chunk_timestamps_exclusive \<Rightarrow> epoch \<Rightarrow> chunk_timestamps_exclusive" where
  "ex_set_epoch v epoch = v\<lparr>ex_bytes := bytes_set_epoch (ex_bytes v) epoch\<rparr>"

definition ex_timestamp :: "chunk_timestamps_exclusive \<Rightarrow> nat \<Rightarrow> unit timestamped option" where
  "ex_timestamp v idx = bytes_timestamp (ex_size v) (ex_bytes v) idx"

definition ex_set_timestamp ::
  "chunk_timestamps_exclusive \<Rightarrow> nat \<Rightarrow> unit timestamped \<Rightarrow> chunk_timestamps_exclusive option" where
  "ex_set_timestamp v idx value =
     map_option (\<lambda>bytes. v\<lparr>ex_bytes := bytes\<rparr>) (bytes_set_timestamp (ex_size v) (ex_bytes v) idx value)"

section \<open>ColumnVecChunks\<close>

text \<open>The wrapper by index type, at the only instance the table uses.\<close>

type_synonym timestamp_chunks = "chunk_timestamps vec_chunks"

definition cvc_new :: "chunk_timestamps \<Rightarrow> timestamp_chunks" where
  "cvc_new chunk = vc_new ct_size chunk"

definition cvc_resize :: "nat \<Rightarrow> timestamp_chunks \<Rightarrow> timestamp_chunks result" where
  "cvc_resize n vc = vc_resize ct_fill_default n vc"

definition cvc_get :: "timestamp_chunks \<Rightarrow> primary_id \<Rightarrow> chunk_timestamps_shared option" where
  "cvc_get vc idx = vc_get ct_get vc (primary_idx idx)"

definition cvc_get_mut :: "timestamp_chunks \<Rightarrow> primary_id \<Rightarrow> chunk_timestamps_exclusive option" where
  "cvc_get_mut vc idx = vc_get_mut ct_get_mut vc (primary_idx idx)"

section \<open>A byte vector as a list of chunks\<close>

definition vc_inv :: "('c \<Rightarrow> nat) \<Rightarrow> 'c vec_chunks \<Rightarrow> bool" where
  "vc_inv chunk_sz vc \<longleftrightarrow>
     vc_chunk_size vc = chunk_sz (vc_chunk vc) \<and> vc_chunk_size vc dvd length (vc_vec vc)"

definition vc_chunk_at :: "'c vec_chunks \<Rightarrow> nat \<Rightarrow> u8 list" where
  "vc_chunk_at vc i = slice (i * vc_chunk_size vc) ((i + 1) * vc_chunk_size vc) (vc_vec vc)"

definition vc_chunks :: "'c vec_chunks \<Rightarrow> u8 list list" where
  "vc_chunks vc = map (vc_chunk_at vc) [0..<vc_len vc]"

lemma length_vc_chunks [simp]: "length (vc_chunks vc) = vc_len vc"
  by (simp add: vc_chunks_def)

lemma nth_vc_chunks: "i < vc_len vc \<Longrightarrow> vc_chunks vc ! i = vc_chunk_at vc i"
  by (simp add: vc_chunks_def)

section \<open>The chunk interface\<close>

text \<open>
  What \<open>VecChunks\<close> relies on of the \<open>Chunk\<close> trait: a positive constant size, a default that
  fills a buffer of that size whatever it held, and views for exactly the slices of that size.
\<close>

locale chunk_type =
  fixes chunk_sz :: "'c \<Rightarrow> nat"
    and fill_default :: "'c \<Rightarrow> u8 list \<Rightarrow> u8 list option"
    and get :: "'c \<Rightarrow> u8 list \<Rightarrow> 'sh option"
    and get_mut :: "'c \<Rightarrow> u8 list \<Rightarrow> 'ex option"
  assumes chunk_sz_pos: "0 < chunk_sz c"
    and fill_default_ok:
      "length bs = chunk_sz c \<Longrightarrow> \<exists>bs'. fill_default c bs = Some bs' \<and> length bs' = chunk_sz c"
    and get_iff: "get c bs \<noteq> None \<longleftrightarrow> length bs = chunk_sz c"
    and get_mut_iff: "get_mut c bs \<noteq> None \<longleftrightarrow> length bs = chunk_sz c"
begin

definition default_chunk :: "'c \<Rightarrow> u8 list" where
  "default_chunk c = the (fill_default c (replicate (chunk_sz c) 0))"

lemma length_vec: "vc_inv chunk_sz vc \<Longrightarrow> length (vc_vec vc) = vc_len vc * vc_chunk_size vc"
  by (auto simp: vc_inv_def vc_len_def)

lemma size_pos: "vc_inv chunk_sz vc \<Longrightarrow> 0 < vc_chunk_size vc"
  using chunk_sz_pos by (simp add: vc_inv_def)

lemma length_chunk_at: "vc_inv chunk_sz vc \<Longrightarrow> i < vc_len vc \<Longrightarrow> length (vc_chunk_at vc i) = vc_chunk_size vc"
proof -
  assume "vc_inv chunk_sz vc" "i < vc_len vc"
  then have "(i + 1) * vc_chunk_size vc \<le> length (vc_vec vc)"
    using length_vec [of vc] by (metis Suc_eq_plus1 Suc_leI mult_le_mono1)
  then show ?thesis
    by (simp add: vc_chunk_at_def algebra_simps)
qed

lemma inv_new [simp]: "vc_inv chunk_sz (vc_new chunk_sz c)" and chunks_new [simp]: "vc_chunks (vc_new chunk_sz c) = []"
  by (simp_all add: vc_inv_def vc_new_def vc_chunks_def vc_len_def)

lemma get_total: "vc_inv chunk_sz vc \<Longrightarrow> vc_get get vc i = (if i < vc_len vc then get (vc_chunk vc) (vc_chunk_at vc i) else None)"
  by (simp add: vc_get_def vc_chunk_at_def)

lemma get_mut_total:
  "vc_inv chunk_sz vc \<Longrightarrow> vc_get_mut get_mut vc i =
     (if i < vc_len vc then get_mut (vc_chunk vc) (vc_chunk_at vc i) else None)"
  by (simp add: vc_get_mut_def vc_chunk_at_def)

lemma get_Some_iff: "vc_inv chunk_sz vc \<Longrightarrow> vc_get get vc i \<noteq> None \<longleftrightarrow> i < vc_len vc"
  using length_chunk_at [of vc i] get_iff [of "vc_chunk vc" "vc_chunk_at vc i"]
  by (auto simp: get_total vc_inv_def split: if_splits)

lemma default_chunk_ok:
  "fill_default c (replicate (chunk_sz c) 0) = Some (default_chunk c)"
  "length (default_chunk c) = chunk_sz c"
  using fill_default_ok [of "replicate (chunk_sz c) 0" c] by (auto simp: default_chunk_def)

lemma vec_len_cong:
  "vc_chunk_size vc > 0 \<Longrightarrow> length v = n * vc_chunk_size vc \<Longrightarrow> vc_len (vc\<lparr>vc_vec := v\<rparr>) = n"
  by (simp add: vc_len_def)

lemma write_chunks:
  assumes "vc_inv chunk_sz vc" and "i < vc_len vc" and "length bytes = vc_chunk_size vc"
  shows "vc_inv chunk_sz (vc_write i bytes vc)" and "vc_chunks (vc_write i bytes vc) = (vc_chunks vc)[i := bytes]"
proof -
  let ?k = "vc_chunk_size vc"
  have fits: "i * ?k + length bytes \<le> length (vc_vec vc)"
    using assms length_vec [of vc] mult_le_mono1 [of "i + 1" "vc_len vc" ?k] by simp
  have len: "vc_len (vc_write i bytes vc) = vc_len vc"
    using fits by (simp add: vc_len_def vc_write_def)
  show "vc_inv chunk_sz (vc_write i bytes vc)"
    using assms(1) fits by (auto simp: vc_inv_def vc_write_def)
  show "vc_chunks (vc_write i bytes vc) = (vc_chunks vc)[i := bytes]"
  proof (rule nth_equalityI)
    fix j assume "j < length (vc_chunks (vc_write i bytes vc))"
    then have j: "j < vc_len vc" by (simp add: len)
    consider "j = i" | "j < i" | "i < j" by linarith
    then have "vc_chunk_at (vc_write i bytes vc) j = (if j = i then bytes else vc_chunk_at vc j)"
    proof cases
      case 1
      then show ?thesis
        using fits assms(3) by (simp add: vc_chunk_at_def vc_write_def slice_write_at_same)
    next
      case 2
      then have "(j + 1) * ?k \<le> i * ?k" by (intro mult_le_mono1) simp
      with 2 show ?thesis
        using fits by (simp add: vc_chunk_at_def vc_write_def slice_write_at_before)
    next
      case 3
      then have "(i + 1) * ?k \<le> j * ?k" by (intro mult_le_mono1) simp
      with 3 show ?thesis
        using fits assms(3) by (simp add: vc_chunk_at_def vc_write_def slice_write_at_after)
    qed
    with j show "vc_chunks (vc_write i bytes vc) ! j = (vc_chunks vc)[i := bytes] ! j"
      by (simp add: nth_vc_chunks len nth_list_update)
  qed (simp add: len)
qed

lemma vec_grow:
  fixes vc :: "'c vec_chunks" and n :: nat
  assumes "vc_inv chunk_sz vc" and "length d = vc_chunk_size vc"
  defines "vc' \<equiv> vc\<lparr>vc_vec := vc_vec vc @ concat (replicate n d)\<rparr>"
  shows "vc_inv chunk_sz vc'" and "vc_chunks vc' = vc_chunks vc @ replicate n d"
proof -
  let ?k = "vc_chunk_size vc"
  have ext: "length (concat (replicate n d)) = n * ?k"
    using assms(2) by (simp add: length_concat sum_list_replicate)
  show "vc_inv chunk_sz vc'"
    using assms(1) ext by (auto simp: vc_inv_def vc'_def)
  have len: "vc_len vc' = vc_len vc + n"
    unfolding vc'_def
    by (rule vec_len_cong) (simp_all add: size_pos assms(1) length_vec ext algebra_simps)
  have low: "vc_chunk_at vc' i = vc_chunk_at vc i" if "i < vc_len vc" for i
  proof -
    have "(i + 1) * ?k \<le> length (vc_vec vc)"
      using that length_vec [OF assms(1)] mult_le_mono1 [of "i + 1" "vc_len vc" ?k] by simp
    then show ?thesis
      by (simp add: vc_chunk_at_def vc'_def slice_def)
  qed
  have high: "vc_chunk_at vc' (vc_len vc + i) = d" if "i < n" for i
  proof -
    have "concat (replicate n d) = concat (replicate i d) @ d @ concat (replicate (n - Suc i) d)"
      using that by (metis add_Suc_right append_assoc concat.simps(2) concat_append le_add_diff_inverse
          less_eq_Suc_le replicate_Suc replicate_add replicate_app_Cons_same)
    moreover have "length (concat (replicate i d)) = i * ?k"
      using assms(2) by (simp add: length_concat sum_list_replicate)
    ultimately show ?thesis
      using assms(2) by (simp add: vc_chunk_at_def vc'_def slice_def length_vec [OF assms(1)] algebra_simps)
  qed
  show "vc_chunks vc' = vc_chunks vc @ replicate n d"
  proof (rule nth_equalityI)
    fix i assume i: "i < length (vc_chunks vc')"
    then show "vc_chunks vc' ! i = (vc_chunks vc @ replicate n d) ! i"
      using high [of "i - vc_len vc"]
      by (cases "i < vc_len vc") (auto simp: nth_vc_chunks nth_append low len)
  qed (simp add: len)
qed

lemma vec_truncate:
  fixes vc :: "'c vec_chunks" and n :: nat
  assumes "vc_inv chunk_sz vc" and "n \<le> vc_len vc"
  defines "vc' \<equiv> vc\<lparr>vc_vec := take (n * vc_chunk_size vc) (vc_vec vc)\<rparr>"
  shows "vc_inv chunk_sz vc'" and "vc_chunks vc' = take n (vc_chunks vc)"
proof -
  let ?k = "vc_chunk_size vc"
  have le: "n * ?k \<le> length (vc_vec vc)"
    using assms(2) by (simp add: length_vec [OF assms(1)])
  then show "vc_inv chunk_sz vc'"
    using assms(1) by (auto simp: vc_inv_def vc'_def)
  have len: "vc_len vc' = n"
    unfolding vc'_def using le by (intro vec_len_cong) (simp_all add: size_pos assms(1))
  have "vc_chunk_at vc' i = vc_chunk_at vc i" if "i < n" for i
  proof -
    have "(i + 1) * ?k \<le> n * ?k"
      using that by (intro mult_le_mono1) simp
    then show ?thesis
      by (simp add: vc_chunk_at_def vc'_def slice_def take_drop min_absorb1)
  qed
  then show "vc_chunks vc' = take n (vc_chunks vc)"
    using assms(2) by (intro nth_equalityI) (simp_all add: len nth_vc_chunks)
qed

text \<open>Resizing never panics, and is a resize of the list of chunks.\<close>

lemma resize_chunks:
  assumes "vc_inv chunk_sz vc"
  obtains vc' where "vc_resize fill_default n vc = Ok vc'"
    and "vc_inv chunk_sz vc'" and "vc_chunk vc' = vc_chunk vc"
    and "vc_chunks vc' = vec_resize n (default_chunk (vc_chunk vc)) (vc_chunks vc)"
proof (cases "n \<le> vc_len vc")
  case True
  then show ?thesis
    using that vec_truncate [OF assms True]
    by (simp add: vc_resize_def Let_def vec_resize_def)
next
  case False
  let ?d = "default_chunk (vc_chunk vc)"
  have size: "vc_chunk_size vc = chunk_sz (vc_chunk vc)"
    using assms by (simp add: vc_inv_def)
  have "vc_resize fill_default n vc
      = Ok (vc\<lparr>vc_vec := vc_vec vc @ concat (replicate (n - vc_len vc) ?d)\<rparr>)"
    using False default_chunk_ok(1) [of "vc_chunk vc"] by (simp add: vc_resize_def Let_def size)
  then show ?thesis
    using that vec_grow [OF assms, of ?d "n - vc_len vc"] default_chunk_ok(2) False
    by (simp add: size vec_resize_def)
qed

end

section \<open>The timestamp chunk\<close>

lemmas chunk_sizes = chunk_size_def EPOCH_SIZE_def TIMESTAMPED_SIZE_def

lemma length_into_ne_bytes [simp]: "length (into_ne_bytes t) = 8"
  by (simp add: into_ne_bytes_def)

lemma from_into_ne_bytes [simp]: "timestamped_wf t \<Longrightarrow> from_ne_bytes (into_ne_bytes t) = t"
  by (cases t) (auto simp: from_ne_bytes_def into_ne_bytes_def Let_def timestamped_wf_def is_valid_def
      split: if_splits maybe_uninit.splits, metis (full_types) maybe_uninit.exhaust old.unit.exhaust)

lemma from_ne_bytes_wf [simp]: "timestamped_wf (from_ne_bytes bytes)"
  by (simp add: from_ne_bytes_def timestamped_wf_def is_valid_def Let_def)

lemma length_set_epoch [simp]:
  "length bytes = chunk_size n \<Longrightarrow> length (bytes_set_epoch bytes e) = length bytes"
  by (simp add: bytes_set_epoch_def chunk_sizes)

lemma stamp_fits: "idx < n \<Longrightarrow> EPOCH_SIZE + idx * TIMESTAMPED_SIZE + 8 \<le> chunk_size n"
  using mult_le_mono1 [of "idx + 1" n 8] by (simp add: chunk_sizes)

lemma length_set_timestamp:
  "length bytes = chunk_size n \<Longrightarrow> bytes_set_timestamp n bytes idx v = Some bytes' \<Longrightarrow>
     length bytes' = length bytes"
  using stamp_fits [of idx n] by (auto simp: bytes_set_timestamp_def Let_def split: if_splits)

lemma epoch_set_epoch [simp]: "bytes_epoch (bytes_set_epoch bytes e) = e"
  by (simp add: bytes_epoch_def bytes_set_epoch_def write_at_def EPOCH_SIZE_def)

lemma timestamp_set_epoch [simp]:
  "length bytes = chunk_size n \<Longrightarrow> bytes_timestamp n (bytes_set_epoch bytes e) idx = bytes_timestamp n bytes idx"
  by (simp add: bytes_timestamp_def bytes_set_epoch_def Let_def chunk_sizes slice_write_at_after)

lemma epoch_set_timestamp:
  "length bytes = chunk_size n \<Longrightarrow> bytes_set_timestamp n bytes idx v = Some bytes' \<Longrightarrow>
     bytes_epoch bytes' = bytes_epoch bytes"
  by (auto simp: bytes_set_timestamp_def Let_def bytes_epoch_def write_at_def EPOCH_SIZE_def
      min_def chunk_size_def split: if_splits)

lemma timestamp_set_timestamp:
  assumes "length bytes = chunk_size n" and "timestamped_wf v"
    and "bytes_set_timestamp n bytes idx v = Some bytes'"
  shows "bytes_timestamp n bytes' jdx = (if jdx = idx then Some v else bytes_timestamp n bytes jdx)"
proof -
  let ?off = "\<lambda>i. EPOCH_SIZE + i * TIMESTAMPED_SIZE"
  from assms(3) have idx: "idx < n" and bytes': "bytes' = write_at (?off idx) (into_ne_bytes v) bytes"
    by (auto simp: bytes_set_timestamp_def Let_def split: if_splits)
  have fits: "?off idx + length (into_ne_bytes v) \<le> length bytes"
    using stamp_fits [OF idx] assms(1) by simp
  consider "jdx \<ge> n" | "jdx = idx" | "jdx < n" "jdx < idx" | "jdx < n" "idx < jdx"
    by linarith
  then show ?thesis
  proof cases
    case 1
    with idx show ?thesis by (simp add: bytes_timestamp_def)
  next
    case 2
    with idx fits assms(2) show ?thesis
      by (simp add: bytes_timestamp_def Let_def bytes' slice_write_at_same TIMESTAMPED_SIZE_def)
  next
    case 3
    then have "?off jdx + 8 \<le> ?off idx"
      using mult_le_mono1 [of "jdx + 1" idx 8] by (simp add: TIMESTAMPED_SIZE_def)
    with 3 fits show ?thesis
      by (simp add: bytes_timestamp_def Let_def bytes' slice_write_at_before TIMESTAMPED_SIZE_def)
  next
    case 4
    then have "?off idx + 8 \<le> ?off jdx"
      using mult_le_mono1 [of "idx + 1" jdx 8] by (simp add: TIMESTAMPED_SIZE_def)
    with 4 fits show ?thesis
      by (simp add: bytes_timestamp_def Let_def bytes' slice_write_at_after TIMESTAMPED_SIZE_def)
  qed
qed

lemma new_tombstone_wf [simp]: "timestamped_wf (new_tombstone t)"
  and new_valid_wf [simp]: "timestamped_wf (new_valid t)"
  by (simp_all add: new_tombstone_def new_valid_def new_valid_or_tombstone_new)

lemma ct_fill_from_ok:
  assumes "length bytes = chunk_size n" and "\<forall>i\<in>set idxs. i < n"
  shows "\<exists>bytes'. ct_fill_from n idxs bytes = Some bytes' \<and> length bytes' = chunk_size n
    \<and> bytes_epoch bytes' = bytes_epoch bytes
    \<and> (\<forall>i. bytes_timestamp n bytes' i =
          (if i \<in> set idxs then Some (new_tombstone Timestamp_MIN) else bytes_timestamp n bytes i))"
  using assms
proof (induction idxs arbitrary: bytes)
  case (Cons idx idxs)
  then obtain b where b: "bytes_set_timestamp n bytes idx (new_tombstone Timestamp_MIN) = Some b"
    by (auto simp: bytes_set_timestamp_def Let_def)
  have "length b = chunk_size n"
    using Cons.prems(1) length_set_timestamp [OF _ b] by simp
  with Cons.IH [of b] Cons.prems(2) obtain bytes' where bytes':
    "ct_fill_from n idxs b = Some bytes'" "length bytes' = chunk_size n"
    "bytes_epoch bytes' = bytes_epoch b"
    "\<forall>i. bytes_timestamp n bytes' i =
       (if i \<in> set idxs then Some (new_tombstone Timestamp_MIN) else bytes_timestamp n b i)"
    by auto
  then show ?case
    using b epoch_set_timestamp [OF Cons.prems(1) b]
      timestamp_set_timestamp [OF Cons.prems(1) new_tombstone_wf b]
    by auto
qed simp

lemma ct_fill_default_ok:
  assumes "length bytes = chunk_size n"
  shows "\<exists>bytes'. ct_fill_default (ChunkTimestamps n) bytes = Some bytes' \<and> length bytes' = chunk_size n
    \<and> bytes_epoch bytes' = epoch_new
    \<and> (\<forall>i<n. bytes_timestamp n bytes' i = Some (new_tombstone Timestamp_MIN))"
  using ct_fill_from_ok [of "bytes_set_epoch bytes epoch_new" n "[0..<n]"] assms by auto

interpretation ct: chunk_type ct_size ct_fill_default ct_get ct_get_mut
proof
  fix c bs
  obtain n where c: "c = ChunkTimestamps n" by (cases c)
  show "0 < ct_size c"
    by (simp add: c chunk_sizes)
  show "ct_get c bs \<noteq> None \<longleftrightarrow> length bs = ct_size c" "ct_get_mut c bs \<noteq> None \<longleftrightarrow> length bs = ct_size c"
    by (auto simp: c)
  assume "length bs = ct_size c"
  then show "\<exists>bs'. ct_fill_default c bs = Some bs' \<and> length bs' = ct_size c"
    using ct_fill_default_ok [of bs n] by (auto simp: c)
qed

section \<open>Rows of a timestamp column\<close>

text \<open>
  The view the table takes of its timestamp column: for every row an epoch and the
  timestamps, read off the bytes. \<open>cvc_put\<close> ends the borrow of a row.
\<close>

definition cvc_inv :: "nat \<Rightarrow> timestamp_chunks \<Rightarrow> bool" where
  "cvc_inv n vc \<longleftrightarrow> vc_inv ct_size vc \<and> vc_chunk vc = ChunkTimestamps n"

definition row_epoch :: "timestamp_chunks \<Rightarrow> nat \<Rightarrow> epoch" where
  "row_epoch vc i = bytes_epoch (vc_chunk_at vc i)"

definition row_stamp :: "nat \<Rightarrow> timestamp_chunks \<Rightarrow> nat \<Rightarrow> nat \<Rightarrow> unit timestamped option" where
  "row_stamp n vc i j = bytes_timestamp n (vc_chunk_at vc i) j"

definition cvc_put :: "primary_id \<Rightarrow> chunk_timestamps_exclusive \<Rightarrow> timestamp_chunks \<Rightarrow> timestamp_chunks" where
  "cvc_put p v vc = vc_write (primary_idx p) (ex_bytes v) vc"

lemma cvc_inv_new [simp]: "cvc_inv n (cvc_new (ct_new n))"
  by (simp add: cvc_inv_def cvc_new_def ct_new_def vc_inv_def vc_new_def)

lemma vc_len_new [simp]: "vc_len (cvc_new c) = 0"
  by (simp add: cvc_new_def vc_new_def vc_len_def)

lemma length_row_bytes:
  "cvc_inv n vc \<Longrightarrow> i < vc_len vc \<Longrightarrow> length (vc_chunk_at vc i) = chunk_size n"
  using ct.length_chunk_at [of vc i] by (auto simp: cvc_inv_def vc_inv_def)

lemma cvc_get_mut_row:
  "cvc_inv n vc \<Longrightarrow> cvc_get_mut vc p =
     (if primary_idx p < vc_len vc
      then Some \<lparr>ex_size = n, ex_bytes = vc_chunk_at vc (primary_idx p)\<rparr> else None)"
  using length_row_bytes [of n vc "primary_idx p"]
  by (simp add: cvc_get_mut_def ct.get_mut_total cvc_inv_def)

lemma cvc_get_row:
  "cvc_inv n vc \<Longrightarrow> cvc_get vc p =
     (if primary_idx p < vc_len vc then Some \<lparr>sh_bytes = vc_chunk_at vc (primary_idx p)\<rparr> else None)"
  using length_row_bytes [of n vc "primary_idx p"]
  by (simp add: cvc_get_def ct.get_total cvc_inv_def)

lemma cvc_put_rows:
  assumes "cvc_inv n vc" and "primary_idx p < vc_len vc" and "length (ex_bytes v) = chunk_size n"
  shows "cvc_inv n (cvc_put p v vc)" and "vc_len (cvc_put p v vc) = vc_len vc"
    and "i < vc_len vc \<Longrightarrow>
      vc_chunk_at (cvc_put p v vc) i = (if i = primary_idx p then ex_bytes v else vc_chunk_at vc i)"
proof -
  have sz: "length (ex_bytes v) = vc_chunk_size vc" and inv: "vc_inv ct_size vc"
    using assms by (auto simp: cvc_inv_def vc_inv_def)
  note w = ct.write_chunks [OF inv assms(2) sz]
  show "cvc_inv n (cvc_put p v vc)"
    using w(1) assms(1) by (simp add: cvc_inv_def cvc_put_def vc_write_def)
  show len: "vc_len (cvc_put p v vc) = vc_len vc"
    using arg_cong [OF w(2), of length] by (simp add: cvc_put_def)
  assume "i < vc_len vc"
  then show "vc_chunk_at (cvc_put p v vc) i = (if i = primary_idx p then ex_bytes v else vc_chunk_at vc i)"
    using arg_cong [OF w(2), of "\<lambda>xs. xs ! i"] len
    by (simp add: cvc_put_def nth_vc_chunks nth_list_update)
qed

lemma cvc_resize_rows:
  assumes "cvc_inv n vc" and "vc_len vc \<le> m"
  obtains vc' where "cvc_resize m vc = Ok vc'" and "cvc_inv n vc'" and "vc_len vc' = m"
    and "\<And>i. i < vc_len vc \<Longrightarrow> vc_chunk_at vc' i = vc_chunk_at vc i"
    and "\<And>i. vc_len vc \<le> i \<Longrightarrow> i < m \<Longrightarrow> row_epoch vc' i = epoch_new"
    and "\<And>i j. vc_len vc \<le> i \<Longrightarrow> i < m \<Longrightarrow> j < n \<Longrightarrow>
           row_stamp n vc' i j = Some (new_tombstone Timestamp_MIN)"
proof -
  have inv: "vc_inv ct_size vc" and chunk: "vc_chunk vc = ChunkTimestamps n"
    using assms(1) by (simp_all add: cvc_inv_def)
  let ?d = "ct.default_chunk (ChunkTimestamps n)"
  from ct.resize_chunks [OF inv, of m] chunk obtain vc' where vc': "cvc_resize m vc = Ok vc'"
    "vc_inv ct_size vc'" "vc_chunk vc' = ChunkTimestamps n"
    "vc_chunks vc' = vec_resize m ?d (vc_chunks vc)"
    unfolding cvc_resize_def by metis
  have len: "vc_len vc' = m"
    using arg_cong [OF vc'(4), of length] by simp
  have at: "vc_chunk_at vc' i = (if i < vc_len vc then vc_chunk_at vc i else ?d)" if "i < m" for i
    using that len vc'(4) by (metis length_vc_chunks nth_vc_chunks nth_vec_resize)
  have d: "bytes_epoch ?d = epoch_new"
    "\<And>j. j < n \<Longrightarrow> bytes_timestamp n ?d j = Some (new_tombstone Timestamp_MIN)"
    using ct_fill_default_ok [of "replicate (chunk_size n) 0" n] ct.default_chunk_ok(1) [of "ChunkTimestamps n"]
    by auto
  show thesis
    using vc' len assms(2) d
    by (intro that [of vc']) (auto simp: cvc_inv_def at row_epoch_def row_stamp_def)
qed

section \<open>Properties\<close>

text \<open>
  The chunked byte vector behaves as a list of fixed-size chunks. Resizing never panics;
  it keeps the chunks below the new size and appends default chunks above the old one. A
  chunk written through its exclusive view replaces that chunk and no other, and an index is
  refused exactly when it is out of range.
\<close>

theorem vec_chunks_refine_list:
  assumes "vc_inv ct_size vc"
  shows "(\<exists>vc' d. vc_resize ct_fill_default n vc = Ok vc' \<and> vc_inv ct_size vc'
      \<and> ct_fill_default (vc_chunk vc) (replicate (vc_chunk_size vc) 0) = Some d
      \<and> vc_chunks vc' = take n (vc_chunks vc) @ replicate (n - length (vc_chunks vc)) d)
    \<and> (\<forall>i bytes. i < vc_len vc \<and> length bytes = vc_chunk_size vc \<longrightarrow>
      vc_inv ct_size (vc_write i bytes vc) \<and> vc_chunks (vc_write i bytes vc) = (vc_chunks vc)[i := bytes])
    \<and> vc_get ct_get vc i = map_option (\<lambda>bytes. \<lparr>sh_bytes = bytes\<rparr>) (vec_get (vc_chunks vc) i)"
proof (intro conjI)
  have size: "vc_chunk_size vc = ct_size (vc_chunk vc)"
    using assms by (simp add: vc_inv_def)
  show "\<exists>vc' d. vc_resize ct_fill_default n vc = Ok vc' \<and> vc_inv ct_size vc'
      \<and> ct_fill_default (vc_chunk vc) (replicate (vc_chunk_size vc) 0) = Some d
      \<and> vc_chunks vc' = take n (vc_chunks vc) @ replicate (n - length (vc_chunks vc)) d"
    using ct.resize_chunks [OF assms, of n] ct.default_chunk_ok(1) [of "vc_chunk vc"]
    by (metis size vec_resize_def)
  show "\<forall>i bytes. i < vc_len vc \<and> length bytes = vc_chunk_size vc \<longrightarrow>
      vc_inv ct_size (vc_write i bytes vc) \<and> vc_chunks (vc_write i bytes vc) = (vc_chunks vc)[i := bytes]"
    using ct.write_chunks [OF assms] by blast
  show "vc_get ct_get vc i = map_option (\<lambda>bytes. \<lparr>sh_bytes = bytes\<rparr>) (vec_get (vc_chunks vc) i)"
    using ct.length_chunk_at [OF assms, of i]
    by (cases "vc_chunk vc") (auto simp: ct.get_total [OF assms] vec_get_def nth_vc_chunks size)
qed

theorem vec_chunks_refine_list_witness:
  "\<exists>vc' d. vc_resize ct_fill_default 3 (vc_new ct_size (ct_new 1)) = Ok vc'
     \<and> vc_chunks vc' = replicate 3 d"
  using vec_chunks_refine_list [of "vc_new ct_size (ct_new 1)" 3 0]
  by (auto simp: vc_inv_def vc_new_def vc_chunks_def vc_len_def)

text \<open>
  Epoch and timestamps of a chunk do not interfere. Writing the epoch changes the epoch
  and no timestamp; writing the timestamp at an index in range changes that timestamp and
  neither the epoch nor another timestamp; an index out of range is refused.
\<close>

theorem chunk_timestamps_independent:
  assumes "length (ex_bytes v) = chunk_size (ex_size v)" and "timestamped_wf t"
  shows "ex_epoch (ex_set_epoch v e) = e
    \<and> ex_timestamp (ex_set_epoch v e) j = ex_timestamp v j
    \<and> (ex_set_timestamp v i t = None \<longleftrightarrow> ex_size v \<le> i)
    \<and> (\<forall>v'. ex_set_timestamp v i t = Some v' \<longrightarrow> ex_epoch v' = ex_epoch v
          \<and> ex_timestamp v' j = (if j = i then Some t else ex_timestamp v j))"
  using assms epoch_set_timestamp [of "ex_bytes v" "ex_size v" i t]
    timestamp_set_timestamp [of "ex_bytes v" "ex_size v" t i]
  by (auto simp: ex_epoch_def ex_set_epoch_def ex_timestamp_def ex_set_timestamp_def)
    (auto simp: bytes_set_timestamp_def Let_def split: if_splits)

theorem chunk_timestamps_independent_witness:
  "ex_epoch (ex_set_epoch \<lparr>ex_size = 1, ex_bytes = replicate 10 0\<rparr> (Epoch 4)) = Epoch 4
   \<and> (ex_set_timestamp \<lparr>ex_size = 1, ex_bytes = replicate 10 0\<rparr> 1 (new_tombstone Timestamp_MIN) = None)"
  using chunk_timestamps_independent [of "\<lparr>ex_size = 1, ex_bytes = replicate 10 0\<rparr>"
      "new_tombstone Timestamp_MIN" "Epoch 4" 0 1]
  by (simp add: chunk_sizes)

end
