(* ===== verification/Cql_Values.thy ===== *)
theory Cql_Values
  imports Prelude
begin

text \<open>
  The CQL data model the program works on and the comparison of \<open>cql_types.rs\<close>. The value
  and type enumerations are the driver's; strings are their UTF-8 bytes, integers their
  two's complement words, floats their IEEE bit patterns. What the driver and the numeric
  crates compute on values (the integer a varint denotes, the order of decimals and of
  time-based UUIDs, decimal normalisation) are the fields of the record \<open>driver\<close>, an argument
  of every definition that needs one of them. The lemmas show that the comparison is a
  consistent total order on the values of each type.
\<close>

section \<open>Values and types\<close>

type_synonym rust_string = "u8 list"

datatype ip_addr = V4 "u8 list" | V6 "u8 list"

datatype cql_decimal = CqlDecimal (decimal_bytes: "u8 list") (decimal_scale: u32)

datatype native_type =
    NT_Ascii | NT_Boolean | NT_Blob | NT_Counter | NT_Date | NT_Decimal | NT_Double
  | NT_Duration | NT_Float | NT_Int | NT_BigInt | NT_Text | NT_Timestamp | NT_Inet
  | NT_SmallInt | NT_TinyInt | NT_Time | NT_Timeuuid | NT_Uuid | NT_Varint

datatype column_type =
    Native native_type | Collection | VectorType | UserDefinedType | TupleType

datatype cql_value =
    CqlAscii rust_string
  | CqlBoolean bool
  | CqlBlob "u8 list"
  | CqlCounter u64
  | CqlDecimalV cql_decimal
  | CqlDate u32
  | CqlDouble u64
  | CqlDuration u32 u32 u64
  | CqlEmpty
  | CqlFloat u32
  | CqlInt u32
  | CqlBigInt u64
  | CqlText rust_string
  | CqlTimestamp u64
  | CqlInet ip_addr
  | CqlList "cql_value list"
  | CqlMap "(cql_value \<times> cql_value) list"
  | CqlSet "cql_value list"
  | CqlUserDefinedType "(rust_string \<times> cql_value option) list"
  | CqlSmallInt u16
  | CqlTinyInt u8
  | CqlTime u64
  | CqlTimeuuid "u8 list"
  | CqlTuple "cql_value option list"
  | CqlUuid "u8 list"
  | CqlVarint "u8 list"
  | CqlVector "cql_value list"

definition SUPPORTED :: "native_type list" where
  "SUPPORTED =
     [NT_Ascii, NT_BigInt, NT_Blob, NT_Boolean, NT_Date, NT_Decimal, NT_Double, NT_Float,
      NT_Inet, NT_Int, NT_SmallInt, NT_Text, NT_Time, NT_Timestamp, NT_Timeuuid, NT_TinyInt,
      NT_Uuid, NT_Varint]"

fun is_supported :: "column_type \<Rightarrow> bool" where
  "is_supported (Native typ) = (typ \<in> set SUPPORTED)"
| "is_supported _ = False"

subsection \<open>UTF-8\<close>

text \<open>Well-formed UTF-8 as \<open>String::from_utf8\<close> checks it.\<close>

definition in_range :: "nat \<Rightarrow> nat \<Rightarrow> u8 \<Rightarrow> bool" where
  "in_range lo hi b \<longleftrightarrow> lo \<le> unat b \<and> unat b \<le> hi"

fun utf8_tail :: "u8 list \<Rightarrow> u8 list option" where
  "utf8_tail [] = None"
| "utf8_tail (a # bs) =
     (if in_range 0 127 a then Some bs
      else case bs of
        [] \<Rightarrow> None
      | b # cs \<Rightarrow>
          if in_range 194 223 a then (if in_range 128 191 b then Some cs else None)
          else case cs of
            [] \<Rightarrow> None
          | c # ds \<Rightarrow>
              if in_range 224 239 a
              then (if in_range (if unat a = 224 then 160 else 128) (if unat a = 237 then 159 else 191) b
                      \<and> in_range 128 191 c then Some ds else None)
              else case ds of
                [] \<Rightarrow> None
              | d # es \<Rightarrow>
                  if in_range 240 244 a
                     \<and> in_range (if unat a = 240 then 144 else 128) (if unat a = 244 then 143 else 191) b
                     \<and> in_range 128 191 c \<and> in_range 128 191 d
                  then Some es else None)"

lemma utf8_tail_length: "utf8_tail bs = Some cs \<Longrightarrow> length cs < length bs"
  by (cases bs) (auto split: if_splits list.splits)

function utf8_valid :: "u8 list \<Rightarrow> bool" where
  "utf8_valid [] = True"
| "utf8_valid (b # bs) = (case utf8_tail (b # bs) of None \<Rightarrow> False | Some cs \<Rightarrow> utf8_valid cs)"
  by pat_completeness auto
termination
  by (relation "measure length") (simp_all only: wf_measure in_measure utf8_tail_length)

definition from_utf8 :: "u8 list \<Rightarrow> rust_string option" where
  "from_utf8 bytes = (if utf8_valid bytes then Some bytes else None)"

text \<open>The invariants of the Rust types the values are made of.\<close>

fun cql_wf :: "cql_value \<Rightarrow> bool" where
  "cql_wf (CqlAscii s) = utf8_valid s"
| "cql_wf (CqlText s) = utf8_valid s"
| "cql_wf (CqlUuid u) = (length u = 16)"
| "cql_wf (CqlTimeuuid u) = (length u = 16)"
| "cql_wf (CqlInet (V4 a)) = (length a = 4)"
| "cql_wf (CqlInet (V6 a)) = (length a = 16)"
| "cql_wf _ = True"

section \<open>Orderings\<close>

datatype ordering = Less | Equal | Greater

definition ord_cmp :: "'a::linorder \<Rightarrow> 'a \<Rightarrow> ordering" where
  "ord_cmp a b = (if a < b then Less else if a = b then Equal else Greater)"

fun ordering_reverse :: "ordering \<Rightarrow> ordering" where
  "ordering_reverse Less = Greater"
| "ordering_reverse Equal = Equal"
| "ordering_reverse Greater = Less"

fun then_with :: "ordering \<Rightarrow> ordering \<Rightarrow> ordering" where
  "then_with Equal o2 = o2"
| "then_with o1 o2 = o1"

record driver =
  bigint_of :: "u8 list \<Rightarrow> int"
  decimal_cmp :: "cql_decimal \<Rightarrow> cql_decimal \<Rightarrow> ordering"
  timeuuid_cmp :: "u8 list \<Rightarrow> u8 list \<Rightarrow> ordering"
  decimal_normalized :: "cql_decimal \<Rightarrow> cql_decimal option"

text \<open>\<open>f32\<close> and \<open>f64\<close>: a NaN has no order; the two zeros are equal.\<close>

definition float_nan :: "nat \<Rightarrow> nat \<Rightarrow> 'a::len word \<Rightarrow> bool" where
  "float_nan m e x \<longleftrightarrow> unat (take_bit (m + e) x) > (2 ^ e - 1) * 2 ^ m"

definition float_key :: "nat \<Rightarrow> 'a::len word \<Rightarrow> int" where
  "float_key n x = (if bit x n then - int (unat (take_bit n x)) else int (unat (take_bit n x)))"

definition f32_partial_cmp :: "u32 \<Rightarrow> u32 \<Rightarrow> ordering option" where
  "f32_partial_cmp a b =
     (if float_nan 23 8 a \<or> float_nan 23 8 b then None
      else Some (ord_cmp (float_key 31 a) (float_key 31 b)))"

definition f64_partial_cmp :: "u64 \<Rightarrow> u64 \<Rightarrow> ordering option" where
  "f64_partial_cmp a b =
     (if float_nan 52 11 a \<or> float_nan 52 11 b then None
      else Some (ord_cmp (float_key 63 a) (float_key 63 b)))"

section \<open>Comparison of CQL values\<close>

definition uuid_timeuuid_msb :: "u8 list \<Rightarrow> u64" where
  "uuid_timeuuid_msb bytes =
     push_bit 56 (ucast (bytes ! 6 AND 0x0f))
     OR push_bit 48 (ucast (bytes ! 7))
     OR push_bit 40 (ucast (bytes ! 4))
     OR push_bit 32 (ucast (bytes ! 5))
     OR push_bit 24 (ucast (bytes ! 0))
     OR push_bit 16 (ucast (bytes ! 1))
     OR push_bit 8 (ucast (bytes ! 2))
     OR ucast (bytes ! 3)"

definition uuid_cmp :: "u8 list \<Rightarrow> u8 list \<Rightarrow> ordering" where
  "uuid_cmp a b =
     (let va = drop_bit 4 (a ! 6) AND 0x0f;
          vb = drop_bit 4 (b ! 6) AND 0x0f
      in if va \<noteq> vb then ord_cmp va vb
         else if va = 1
         then then_with (ord_cmp (uuid_timeuuid_msb a) (uuid_timeuuid_msb b))
                (ord_cmp (drop 8 a) (drop 8 b))
         else ord_cmp a b)"

fun inet_cmp :: "ip_addr \<Rightarrow> ip_addr \<Rightarrow> ordering" where
  "inet_cmp (V4 lhs) (V4 rhs) = ord_cmp lhs rhs"
| "inet_cmp (V6 lhs) (V6 rhs) = ord_cmp lhs rhs"
| "inet_cmp (V4 lhs) (V6 rhs) = ord_cmp lhs rhs"
| "inet_cmp (V6 lhs) (V4 rhs) = ord_cmp lhs rhs"

definition cql_cmp :: "driver \<Rightarrow> cql_value \<Rightarrow> cql_value \<Rightarrow> ordering option" where
  "cql_cmp d lhs rhs =
     (case lhs of
        CqlTinyInt a \<Rightarrow> (case rhs of CqlTinyInt b \<Rightarrow> Some (ord_cmp (sint a) (sint b)) | _ \<Rightarrow> None)
      | CqlSmallInt a \<Rightarrow> (case rhs of CqlSmallInt b \<Rightarrow> Some (ord_cmp (sint a) (sint b)) | _ \<Rightarrow> None)
      | CqlInt a \<Rightarrow> (case rhs of CqlInt b \<Rightarrow> Some (ord_cmp (sint a) (sint b)) | _ \<Rightarrow> None)
      | CqlBigInt a \<Rightarrow> (case rhs of CqlBigInt b \<Rightarrow> Some (ord_cmp (sint a) (sint b)) | _ \<Rightarrow> None)
      | CqlFloat a \<Rightarrow> (case rhs of CqlFloat b \<Rightarrow> f32_partial_cmp a b | _ \<Rightarrow> None)
      | CqlDouble a \<Rightarrow> (case rhs of CqlDouble b \<Rightarrow> f64_partial_cmp a b | _ \<Rightarrow> None)
      | CqlCounter a \<Rightarrow> (case rhs of CqlCounter b \<Rightarrow> Some (ord_cmp (sint a) (sint b)) | _ \<Rightarrow> None)
      | CqlVarint a \<Rightarrow> (case rhs of CqlVarint b \<Rightarrow> Some (ord_cmp (bigint_of d a) (bigint_of d b)) | _ \<Rightarrow> None)
      | CqlDecimalV a \<Rightarrow> (case rhs of CqlDecimalV b \<Rightarrow> Some (decimal_cmp d a b) | _ \<Rightarrow> None)
      | CqlText a \<Rightarrow> (case rhs of CqlText b \<Rightarrow> Some (ord_cmp a b) | _ \<Rightarrow> None)
      | CqlAscii a \<Rightarrow> (case rhs of CqlAscii b \<Rightarrow> Some (ord_cmp a b) | _ \<Rightarrow> None)
      | CqlDate a \<Rightarrow> (case rhs of CqlDate b \<Rightarrow> Some (ord_cmp a b) | _ \<Rightarrow> None)
      | CqlTime a \<Rightarrow> (case rhs of CqlTime b \<Rightarrow> Some (ord_cmp (sint a) (sint b)) | _ \<Rightarrow> None)
      | CqlTimestamp a \<Rightarrow> (case rhs of CqlTimestamp b \<Rightarrow> Some (ord_cmp (sint a) (sint b)) | _ \<Rightarrow> None)
      | CqlInet a \<Rightarrow> (case rhs of CqlInet b \<Rightarrow> Some (inet_cmp a b) | _ \<Rightarrow> None)
      | CqlBlob a \<Rightarrow> (case rhs of CqlBlob b \<Rightarrow> Some (ord_cmp a b) | _ \<Rightarrow> None)
      | CqlBoolean a \<Rightarrow> (case rhs of CqlBoolean b \<Rightarrow> Some (ord_cmp a b) | _ \<Rightarrow> None)
      | CqlTimeuuid a \<Rightarrow> (case rhs of CqlTimeuuid b \<Rightarrow> Some (timeuuid_cmp d a b) | _ \<Rightarrow> None)
      | CqlUuid a \<Rightarrow> (case rhs of CqlUuid b \<Rightarrow> Some (uuid_cmp a b) | _ \<Rightarrow> None)
      | _ \<Rightarrow> None)"

section \<open>Comparators\<close>

text \<open>The contract of an \<open>Ord\<close> implementation.\<close>

locale comparator =
  fixes cmp :: "'a \<Rightarrow> 'a \<Rightarrow> ordering"
  assumes cmp_refl: "cmp a a = Equal"
    and cmp_reverse: "cmp b a = ordering_reverse (cmp a b)"
    and cmp_trans: "cmp a b \<noteq> Greater \<Longrightarrow> cmp b c \<noteq> Greater \<Longrightarrow> cmp a c \<noteq> Greater"
begin

lemma cmp_equal_sym: "cmp a b = Equal \<Longrightarrow> cmp b a = Equal"
  using cmp_reverse [of b a] by simp

lemma cmp_equal_trans: "cmp a b = Equal \<Longrightarrow> cmp b c = Equal \<Longrightarrow> cmp a c = Equal"
  by (metis cmp_reverse cmp_trans ordering.distinct(5) ordering.exhaust ordering_reverse.simps(1))

end

text \<open>
  A comparator pulled back along a key is a comparator; so is one that breaks the ties of
  another.
\<close>

lemma ord_cmp_simps [simp]:
  "ord_cmp a b = Equal \<longleftrightarrow> a = b" "ord_cmp a b = Less \<longleftrightarrow> a < b" "ord_cmp a b = Greater \<longleftrightarrow> b < a"
  by (auto simp: ord_cmp_def)

lemma ordering_reverse_reverse [simp]: "ordering_reverse (ordering_reverse o1) = o1"
  by (cases o1) simp_all

interpretation word_cmp: comparator "ord_cmp :: 'a::linorder \<Rightarrow> 'a \<Rightarrow> ordering"
  by unfold_locales (auto simp: ord_cmp_def split: if_splits)

lemma comparator_key: "comparator (\<lambda>a b. ord_cmp (f a :: 'b::linorder) (f b))"
  by unfold_locales (auto simp: ord_cmp_def split: if_splits)

lemma comparator_then:
  assumes "comparator cmp1" and "comparator cmp2"
  shows "comparator (\<lambda>a b. then_with (cmp1 a b) (cmp2 a b))"
proof
  fix a b c
  show "then_with (cmp1 a a) (cmp2 a a) = Equal"
    using assms by (simp add: comparator.cmp_refl)
  show "then_with (cmp1 b a) (cmp2 b a) = ordering_reverse (then_with (cmp1 a b) (cmp2 a b))"
    using comparator.cmp_reverse [OF assms(1), of a b] comparator.cmp_reverse [OF assms(2), of a b]
    by (cases "cmp1 a b"; cases "cmp1 b a") auto
  assume le: "then_with (cmp1 a b) (cmp2 a b) \<noteq> Greater" "then_with (cmp1 b c) (cmp2 b c) \<noteq> Greater"
  then have le1: "cmp1 a b \<noteq> Greater" "cmp1 b c \<noteq> Greater"
    by auto
  then have ac: "cmp1 a c \<noteq> Greater"
    using comparator.cmp_trans [OF assms(1)] by blast
  show "then_with (cmp1 a c) (cmp2 a c) \<noteq> Greater"
  proof (cases "cmp1 a c")
    case Equal
    then have "cmp1 c a \<noteq> Greater"
      by (simp add: comparator.cmp_reverse [OF assms(1), of c a])
    then have "cmp1 b a \<noteq> Greater" "cmp1 c b \<noteq> Greater"
      using le1 comparator.cmp_trans [OF assms(1)] by blast+
    then have "cmp1 a b = Equal" "cmp1 b c = Equal"
      using le1 comparator.cmp_reverse [OF assms(1)]
      by (metis ordering.exhaust ordering_reverse.simps(1))+
    with le have "cmp2 a b \<noteq> Greater" "cmp2 b c \<noteq> Greater" by auto
    then show ?thesis
      using Equal comparator.cmp_trans [OF assms(2)] by auto
  qed (use ac in auto)
qed

text \<open>
  The order of \<open>uuid_cmp\<close> as a chain of tie breaks: the version, then for version 1 the
  reassembled time and the low half, for the others the bytes.
\<close>

definition uuid_version :: "u8 list \<Rightarrow> u8" where
  "uuid_version a = drop_bit 4 (a ! 6) AND 0x0f"

lemma uuid_cmp_chain:
  "uuid_cmp a b = then_with (ord_cmp (uuid_version a) (uuid_version b))
     (then_with (ord_cmp (if uuid_version a = 1 then uuid_timeuuid_msb a else 0)
                         (if uuid_version b = 1 then uuid_timeuuid_msb b else 0))
        (ord_cmp (if uuid_version a = 1 then drop 8 a else a) (if uuid_version b = 1 then drop 8 b else b)))"
  by (auto simp: uuid_cmp_def uuid_version_def Let_def ord_cmp_def)

interpretation uuid: comparator uuid_cmp
proof -
  let ?low = "\<lambda>a. if uuid_version a = 1 then drop 8 a else a"
  let ?time = "\<lambda>a. if uuid_version a = 1 then uuid_timeuuid_msb a else 0"
  note chain = comparator_then [OF comparator_key [of uuid_version]
      comparator_then [OF comparator_key [of ?time] comparator_key [of ?low]]]
  have "uuid_cmp = (\<lambda>a b. then_with (ord_cmp (uuid_version a) (uuid_version b))
     (then_with (ord_cmp (?time a) (?time b)) (ord_cmp (?low a) (?low b))))"
    by (intro ext) (rule uuid_cmp_chain)
  with chain show "comparator uuid_cmp" by simp
qed

fun inet_octets :: "ip_addr \<Rightarrow> u8 list" where
  "inet_octets (V4 a) = a"
| "inet_octets (V6 a) = a"

lemma inet_cmp_octets: "inet_cmp = (\<lambda>a b. ord_cmp (inet_octets a) (inet_octets b))"
proof (intro ext)
  fix a b show "inet_cmp a b = ord_cmp (inet_octets a) (inet_octets b)"
    by (cases a; cases b) simp_all
qed

interpretation inet: comparator inet_cmp
  unfolding inet_cmp_octets by (rule comparator_key)

subsection \<open>Bytes of a UUID from its reassembled time\<close>

lemma msb_bytes:
  fixes a :: "u8 list"
  defines "w \<equiv> uuid_timeuuid_msb a"
  shows "ucast (drop_bit 24 w) = a ! 0" "ucast (drop_bit 16 w) = a ! 1"
    "ucast (drop_bit 8 w) = a ! 2" "ucast w = a ! 3"
    "ucast (drop_bit 40 w) = a ! 4" "ucast (drop_bit 32 w) = a ! 5"
    "ucast (drop_bit 56 w) = a ! 6 AND 0x0f" "ucast (drop_bit 48 w) = a ! 7"
  unfolding w_def uuid_timeuuid_msb_def
  by (rule bit_word_eqI; auto simp: bit_simps dest: bit_imp_le_length)+

lemma nibbles: "(a :: u8) = push_bit 4 (drop_bit 4 a AND 0x0f) OR (a AND 0x0f)"
proof -
  have m: "(0x0f :: u8) = mask 4"
    by (simp add: mask_eq_exp_minus_1)
  show ?thesis
    unfolding m by (rule bit_word_eqI) (auto simp: bit_simps)
qed

lemma uuid_cmp_Equal:
  assumes "length a = 16" and "length b = 16"
  shows "uuid_cmp a b = Equal \<longleftrightarrow> a = b"
proof
  assume eq: "uuid_cmp a b = Equal"
  show "a = b"
  proof (cases "uuid_version a = uuid_version b \<and> uuid_version a = 1")
    case True
    with eq have msb: "uuid_timeuuid_msb a = uuid_timeuuid_msb b" and low: "drop 8 a = drop 8 b"
      by (auto simp: uuid_cmp_def uuid_version_def Let_def ord_cmp_def split: if_splits)
    have six: "a ! 6 = b ! 6"
      using True msb_bytes(7) [of a] msb_bytes(7) [of b] msb nibbles [of "a ! 6"] nibbles [of "b ! 6"]
      by (simp add: uuid_version_def)
    have "i < 8 \<Longrightarrow> a ! i = b ! i" for i
      using msb_bytes [of a] msb_bytes [of b] msb six
      by (auto simp: less_Suc_eq numeral_eq_Suc)
    then have "take 8 a = take 8 b"
      using assms by (intro nth_equalityI) auto
    with low show "a = b" by (metis append_take_drop_id)
  next
    case False
    with eq show "a = b"
      by (auto simp: uuid_cmp_def uuid_version_def Let_def split: if_splits)
  qed
qed (simp add: uuid.cmp_refl)

subsection \<open>The order of CQL values\<close>

text \<open>What the driver documents of its own orders.\<close>

definition driver_laws :: "driver \<Rightarrow> bool" where
  "driver_laws d \<longleftrightarrow> comparator (decimal_cmp d) \<and> comparator (timeuuid_cmp d)"

lemma partial_cmp_reverse:
  "f32_partial_cmp b a = map_option ordering_reverse (f32_partial_cmp a b)"
  "f64_partial_cmp d c = map_option ordering_reverse (f64_partial_cmp c d)"
  by (simp_all add: f32_partial_cmp_def f64_partial_cmp_def word_cmp.cmp_reverse [of "float_key n x" for n x]
      ord_cmp_def)

lemma partial_cmp_Some_reverse:
  "f32_partial_cmp b a = Some (ordering_reverse o1) \<longleftrightarrow> f32_partial_cmp a b = Some o1"
  "f64_partial_cmp d c = Some (ordering_reverse o1) \<longleftrightarrow> f64_partial_cmp c d = Some o1"
  by (metis option.map(2) ordering_reverse_reverse partial_cmp_reverse)+

lemma partial_cmp_trans:
  "f32_partial_cmp a b = Some o1 \<Longrightarrow> f32_partial_cmp b c = Some o2 \<Longrightarrow> o1 \<noteq> Greater \<Longrightarrow> o2 \<noteq> Greater \<Longrightarrow>
     \<exists>o3. f32_partial_cmp a c = Some o3 \<and> o3 \<noteq> Greater"
  "f64_partial_cmp x y = Some o1 \<Longrightarrow> f64_partial_cmp y z = Some o2 \<Longrightarrow> o1 \<noteq> Greater \<Longrightarrow> o2 \<noteq> Greater \<Longrightarrow>
     \<exists>o3. f64_partial_cmp x z = Some o3 \<and> o3 \<noteq> Greater"
  by (auto simp: f32_partial_cmp_def f64_partial_cmp_def split: if_splits)

lemma cql_case_Some:
  "(case v of CqlTinyInt x \<Rightarrow> F0 x | _ \<Rightarrow> None) = Some r \<longleftrightarrow> (\<exists>x. v = CqlTinyInt x \<and> F0 x = Some r)"
  "(case v of CqlSmallInt x \<Rightarrow> F1 x | _ \<Rightarrow> None) = Some r \<longleftrightarrow> (\<exists>x. v = CqlSmallInt x \<and> F1 x = Some r)"
  "(case v of CqlInt x \<Rightarrow> F2 x | _ \<Rightarrow> None) = Some r \<longleftrightarrow> (\<exists>x. v = CqlInt x \<and> F2 x = Some r)"
  "(case v of CqlBigInt x \<Rightarrow> F3 x | _ \<Rightarrow> None) = Some r \<longleftrightarrow> (\<exists>x. v = CqlBigInt x \<and> F3 x = Some r)"
  "(case v of CqlFloat x \<Rightarrow> F4 x | _ \<Rightarrow> None) = Some r \<longleftrightarrow> (\<exists>x. v = CqlFloat x \<and> F4 x = Some r)"
  "(case v of CqlDouble x \<Rightarrow> F5 x | _ \<Rightarrow> None) = Some r \<longleftrightarrow> (\<exists>x. v = CqlDouble x \<and> F5 x = Some r)"
  "(case v of CqlCounter x \<Rightarrow> F6 x | _ \<Rightarrow> None) = Some r \<longleftrightarrow> (\<exists>x. v = CqlCounter x \<and> F6 x = Some r)"
  "(case v of CqlVarint x \<Rightarrow> F7 x | _ \<Rightarrow> None) = Some r \<longleftrightarrow> (\<exists>x. v = CqlVarint x \<and> F7 x = Some r)"
  "(case v of CqlDecimalV x \<Rightarrow> F8 x | _ \<Rightarrow> None) = Some r \<longleftrightarrow> (\<exists>x. v = CqlDecimalV x \<and> F8 x = Some r)"
  "(case v of CqlText x \<Rightarrow> F9 x | _ \<Rightarrow> None) = Some r \<longleftrightarrow> (\<exists>x. v = CqlText x \<and> F9 x = Some r)"
  "(case v of CqlAscii x \<Rightarrow> F10 x | _ \<Rightarrow> None) = Some r \<longleftrightarrow> (\<exists>x. v = CqlAscii x \<and> F10 x = Some r)"
  "(case v of CqlDate x \<Rightarrow> F11 x | _ \<Rightarrow> None) = Some r \<longleftrightarrow> (\<exists>x. v = CqlDate x \<and> F11 x = Some r)"
  "(case v of CqlTime x \<Rightarrow> F12 x | _ \<Rightarrow> None) = Some r \<longleftrightarrow> (\<exists>x. v = CqlTime x \<and> F12 x = Some r)"
  "(case v of CqlTimestamp x \<Rightarrow> F13 x | _ \<Rightarrow> None) = Some r \<longleftrightarrow> (\<exists>x. v = CqlTimestamp x \<and> F13 x = Some r)"
  "(case v of CqlInet x \<Rightarrow> F14 x | _ \<Rightarrow> None) = Some r \<longleftrightarrow> (\<exists>x. v = CqlInet x \<and> F14 x = Some r)"
  "(case v of CqlBlob x \<Rightarrow> F15 x | _ \<Rightarrow> None) = Some r \<longleftrightarrow> (\<exists>x. v = CqlBlob x \<and> F15 x = Some r)"
  "(case v of CqlBoolean x \<Rightarrow> F16 x | _ \<Rightarrow> None) = Some r \<longleftrightarrow> (\<exists>x. v = CqlBoolean x \<and> F16 x = Some r)"
  "(case v of CqlTimeuuid x \<Rightarrow> F17 x | _ \<Rightarrow> None) = Some r \<longleftrightarrow> (\<exists>x. v = CqlTimeuuid x \<and> F17 x = Some r)"
  "(case v of CqlUuid x \<Rightarrow> F18 x | _ \<Rightarrow> None) = Some r \<longleftrightarrow> (\<exists>x. v = CqlUuid x \<and> F18 x = Some r)"
  by (cases v; simp)+

lemma cql_cmp_reverse_Some:
  assumes "driver_laws d" and "cql_cmp d v w = Some o1"
  shows "cql_cmp d w v = Some (ordering_reverse o1)"
proof -
  have dec: "decimal_cmp d x y = ordering_reverse (decimal_cmp d y x)"
    and tu: "timeuuid_cmp d p q = ordering_reverse (timeuuid_cmp d q p)" for x y p q
    using assms by (metis comparator.cmp_reverse driver_laws_def)+
  show ?thesis
    using assms(2)
    by (cases v; simp add: cql_cmp_def cql_case_Some; clarsimp simp: partial_cmp_Some_reverse
        word_cmp.cmp_reverse [symmetric] uuid.cmp_reverse [symmetric] inet.cmp_reverse [symmetric]
        dec [symmetric] tu [symmetric])
qed

lemma cql_cmp_reverse:
  assumes "driver_laws d"
  shows "cql_cmp d w v = map_option ordering_reverse (cql_cmp d v w)"
  using cql_cmp_reverse_Some [OF assms, of v w] cql_cmp_reverse_Some [OF assms, of w v]
  by (cases "cql_cmp d v w"; cases "cql_cmp d w v") auto

lemma cql_cmp_trans:
  assumes "driver_laws d" and "cql_cmp d u v = Some o1" and "cql_cmp d v w = Some o2"
    and "o1 \<noteq> Greater" and "o2 \<noteq> Greater"
  shows "\<exists>o3. cql_cmp d u w = Some o3 \<and> o3 \<noteq> Greater"
proof -
  have dec: "decimal_cmp d x y \<noteq> Greater \<Longrightarrow> decimal_cmp d y z \<noteq> Greater \<Longrightarrow> decimal_cmp d x z \<noteq> Greater"
    and tu: "timeuuid_cmp d p q \<noteq> Greater \<Longrightarrow> timeuuid_cmp d q r \<noteq> Greater \<Longrightarrow> timeuuid_cmp d p r \<noteq> Greater"
    for x y z p q r
    using assms(1) by (metis comparator.cmp_trans driver_laws_def)+
  note trans = dec tu inet.cmp_trans uuid.cmp_trans partial_cmp_trans
  show ?thesis
    using assms(2-5)
    by (cases u; clarsimp simp: cql_cmp_def cql_case_Some not_less; (blast dest: trans | simp))
qed

text \<open>A driver whose orders are comparators, to instantiate the parameter.\<close>

definition example_driver :: driver where
  "example_driver =
     \<lparr>bigint_of = (\<lambda>bs. int (le_value (rev bs))),
      decimal_cmp = (\<lambda>a b. ord_cmp (decimal_bytes a) (decimal_bytes b)),
      timeuuid_cmp = ord_cmp,
      decimal_normalized = Some\<rparr>"

lemma example_driver_laws: "driver_laws example_driver"
  by (simp add: driver_laws_def example_driver_def comparator_key word_cmp.comparator_axioms)

section \<open>Properties\<close>

text \<open>
  The order used to filter rows is consistent: comparing in the other direction gives the
  reverse answer, with no answer for the same pairs, and the relation "not greater" is
  transitive, so range restrictions select intervals. The driver's orders of decimals and of
  time-based UUIDs are assumed to be total orders, as it documents.
\<close>

theorem cql_cmp_consistent:
  assumes "driver_laws d"
  shows "cql_cmp d w v = map_option ordering_reverse (cql_cmp d v w)
    \<and> (\<forall>o1 o2. cql_cmp d u v = Some o1 \<and> cql_cmp d v w = Some o2 \<and> o1 \<noteq> Greater \<and> o2 \<noteq> Greater
         \<longrightarrow> (\<exists>o3. cql_cmp d u w = Some o3 \<and> o3 \<noteq> Greater))"
  using cql_cmp_reverse [OF assms] cql_cmp_trans [OF assms] by blast

theorem cql_cmp_consistent_witness:
  "cql_cmp example_driver (CqlInt 2) (CqlInt 1)
     = map_option ordering_reverse (cql_cmp example_driver (CqlInt 1) (CqlInt 2))"
  using cql_cmp_consistent [OF example_driver_laws] by blast

text \<open>
  The version-aware order of UUIDs identifies exactly the equal UUIDs, although for
  version 1 it compares a time reassembled from the first eight bytes and then only the last
  eight: an equality restriction on a UUID column matches the one value asked for.
\<close>

theorem uuid_cmp_equal_iff:
  assumes "length a = 16" and "length b = 16"
  shows "uuid_cmp a b = Equal \<longleftrightarrow> a = b"
  using assms by (rule uuid_cmp_Equal)

theorem uuid_cmp_equal_iff_witness:
  "uuid_cmp (replicate 6 0 @ [0x10] @ replicate 9 0) (replicate 6 0 @ [0x10] @ replicate 8 0 @ [1]) \<noteq> Equal"
  using uuid_cmp_equal_iff [of "replicate 6 0 @ [0x10] @ replicate 9 0"
      "replicate 6 0 @ [0x10] @ replicate 8 0 @ [1]"]
  by (simp add: numeral_eq_Suc)

end
