(* ===== verification/Invariant_Key.thy ===== *)
theory Invariant_Key
  imports Cql_Values
begin

text \<open>
  Model of \<open>crates/vector-store/src/invariant_key.rs\<close> with the newtypes \<open>primary_key.rs\<close>
  and \<open>partition_key.rs\<close>: a list of scalar CQL values serialised into one byte string, a
  count byte followed by tagged values, decoded on demand. Panics (an unsupported value, a
  value of 4 GiB or more, a malformed buffer) are error values. The lemmas give the round
  trip of every scalar type, of random access and of iteration, and the injectivity that
  comparing keys by their bytes relies on.
\<close>

section \<open>Layout\<close>

definition TAG_EMPTY :: u8 where
  "TAG_EMPTY = 0"

definition TAG_BOOLEAN :: u8 where
  "TAG_BOOLEAN = 1"

definition TAG_TINY_INT :: u8 where
  "TAG_TINY_INT = 2"

definition TAG_SMALL_INT :: u8 where
  "TAG_SMALL_INT = 3"

definition TAG_INT :: u8 where
  "TAG_INT = 4"

definition TAG_BIG_INT :: u8 where
  "TAG_BIG_INT = 5"

definition TAG_FLOAT :: u8 where
  "TAG_FLOAT = 6"

definition TAG_DOUBLE :: u8 where
  "TAG_DOUBLE = 7"

definition TAG_TEXT :: u8 where
  "TAG_TEXT = 8"

definition TAG_ASCII :: u8 where
  "TAG_ASCII = 9"

definition TAG_UUID :: u8 where
  "TAG_UUID = 10"

definition TAG_TIMEUUID :: u8 where
  "TAG_TIMEUUID = 11"

definition TAG_DATE :: u8 where
  "TAG_DATE = 12"

definition TAG_TIME :: u8 where
  "TAG_TIME = 13"

definition TAG_TIMESTAMP :: u8 where
  "TAG_TIMESTAMP = 14"

definition TAG_INET_V4 :: u8 where
  "TAG_INET_V4 = 15"

definition TAG_INET_V6 :: u8 where
  "TAG_INET_V6 = 16"

definition TAG_COUNTER :: u8 where
  "TAG_COUNTER = 17"

definition TAG_BLOB :: u8 where
  "TAG_BLOB = 18"

definition TAG_VARINT :: u8 where
  "TAG_VARINT = 19"

definition TAG_DECIMAL :: u8 where
  "TAG_DECIMAL = 20"

lemmas tag_defs =
  TAG_EMPTY_def TAG_BOOLEAN_def TAG_TINY_INT_def TAG_SMALL_INT_def TAG_INT_def
  TAG_BIG_INT_def TAG_FLOAT_def TAG_DOUBLE_def TAG_TEXT_def TAG_ASCII_def
  TAG_UUID_def TAG_TIMEUUID_def TAG_DATE_def TAG_TIME_def TAG_TIMESTAMP_def
  TAG_INET_V4_def TAG_INET_V6_def TAG_COUNTER_def TAG_BLOB_def TAG_VARINT_def
  TAG_DECIMAL_def

definition COUNT_SIZE :: nat where
  "COUNT_SIZE = 1"

definition TAG_SIZE :: nat where
  "TAG_SIZE = 1"

definition VAR_LEN_SIZE :: nat where
  "VAR_LEN_SIZE = 4"

definition DATA_OFFSET :: nat where
  "DATA_OFFSET = TAG_SIZE"

definition VAR_DATA_OFFSET :: nat where
  "VAR_DATA_OFFSET = TAG_SIZE + VAR_LEN_SIZE"

definition BYTE_SIZE :: nat where
  "BYTE_SIZE = 1"

definition IPV4_SIZE :: nat where
  "IPV4_SIZE = 4"

definition UUID_SIZE :: nat where
  "UUID_SIZE = 16"

definition MAX_COLUMNS :: nat where
  "MAX_COLUMNS = 255"

lemmas layout_defs =
  COUNT_SIZE_def TAG_SIZE_def VAR_LEN_SIZE_def DATA_OFFSET_def VAR_DATA_OFFSET_def BYTE_SIZE_def
  IPV4_SIZE_def UUID_SIZE_def MAX_COLUMNS_def

type_synonym invariant_key = "u8 list"

type_synonym primary_key = invariant_key

type_synonym partition_key = invariant_key

section \<open>Encoding\<close>

definition unsupported :: "cql_value \<Rightarrow> 'a result" where
  "unsupported v = Err (Panic ''CqlValue variant not supported for InvariantKey encoding'')"

fun encoded_size :: "cql_value \<Rightarrow> nat result" where
  "encoded_size CqlEmpty = Ok TAG_SIZE"
| "encoded_size (CqlBoolean _) = Ok (TAG_SIZE + BYTE_SIZE)"
| "encoded_size (CqlTinyInt _) = Ok (TAG_SIZE + BYTE_SIZE)"
| "encoded_size (CqlSmallInt _) = Ok (TAG_SIZE + 2)"
| "encoded_size (CqlInt _) = Ok (TAG_SIZE + 4)"
| "encoded_size (CqlFloat _) = Ok (TAG_SIZE + 4)"
| "encoded_size (CqlDate _) = Ok (TAG_SIZE + 4)"
| "encoded_size (CqlBigInt _) = Ok (TAG_SIZE + 8)"
| "encoded_size (CqlDouble _) = Ok (TAG_SIZE + 8)"
| "encoded_size (CqlTime _) = Ok (TAG_SIZE + 8)"
| "encoded_size (CqlTimestamp _) = Ok (TAG_SIZE + 8)"
| "encoded_size (CqlCounter _) = Ok (TAG_SIZE + 8)"
| "encoded_size (CqlUuid _) = Ok (TAG_SIZE + UUID_SIZE)"
| "encoded_size (CqlTimeuuid _) = Ok (TAG_SIZE + UUID_SIZE)"
| "encoded_size (CqlInet (V4 _)) = Ok (TAG_SIZE + IPV4_SIZE)"
| "encoded_size (CqlInet (V6 _)) = Ok (TAG_SIZE + UUID_SIZE)"
| "encoded_size (CqlText s) = Ok (TAG_SIZE + VAR_LEN_SIZE + length s)"
| "encoded_size (CqlAscii s) = Ok (TAG_SIZE + VAR_LEN_SIZE + length s)"
| "encoded_size (CqlBlob b) = Ok (TAG_SIZE + VAR_LEN_SIZE + length b)"
| "encoded_size (CqlVarint v) = Ok (TAG_SIZE + VAR_LEN_SIZE + length v)"
| "encoded_size (CqlDecimalV (CqlDecimal varint_bytes _)) =
     Ok (TAG_SIZE + VAR_LEN_SIZE + 4 + length varint_bytes)"
| "encoded_size v = unsupported v"

text \<open>The length prefix: a \<open>u32\<close> in little-endian order, or a panic.\<close>

definition var_len :: "string \<Rightarrow> nat \<Rightarrow> u8 list result" where
  "var_len msg n = (if n < 2 ^ 32 then Ok (to_le (word_of_nat n :: u32)) else Err (Panic msg))"

text \<open>\<open>encode_value\<close> appends to a buffer; the model returns what it appends.\<close>

fun encode_value :: "cql_value \<Rightarrow> u8 list result" where
  "encode_value CqlEmpty = Ok [TAG_EMPTY]"
| "encode_value (CqlBoolean v) = Ok [TAG_BOOLEAN, of_bool v]"
| "encode_value (CqlTinyInt v) = Ok (TAG_TINY_INT # to_le v)"
| "encode_value (CqlSmallInt v) = Ok (TAG_SMALL_INT # to_le v)"
| "encode_value (CqlInt v) = Ok (TAG_INT # to_le v)"
| "encode_value (CqlBigInt v) = Ok (TAG_BIG_INT # to_le v)"
| "encode_value (CqlFloat v) = Ok (TAG_FLOAT # to_le v)"
| "encode_value (CqlDouble v) = Ok (TAG_DOUBLE # to_le v)"
| "encode_value (CqlText s) =
     and_then (var_len ''Text value too large for InvariantKey encoding'' (length s))
       (\<lambda>len. Ok (TAG_TEXT # len @ s))"
| "encode_value (CqlAscii s) =
     and_then (var_len ''Ascii value too large for InvariantKey encoding'' (length s))
       (\<lambda>len. Ok (TAG_ASCII # len @ s))"
| "encode_value (CqlBlob b) =
     and_then (var_len ''Blob value too large for InvariantKey encoding'' (length b))
       (\<lambda>len. Ok (TAG_BLOB # len @ b))"
| "encode_value (CqlVarint bytes) =
     and_then (var_len ''Varint value too large for InvariantKey encoding'' (length bytes))
       (\<lambda>len. Ok (TAG_VARINT # len @ bytes))"
| "encode_value (CqlDecimalV (CqlDecimal varint_bytes scale)) =
     and_then (var_len ''Decimal value too large for InvariantKey encoding'' (4 + length varint_bytes))
       (\<lambda>payload_len. Ok (TAG_DECIMAL # payload_len @ rev (to_le scale) @ varint_bytes))"
| "encode_value (CqlUuid v) = Ok (TAG_UUID # v)"
| "encode_value (CqlTimeuuid v) = Ok (TAG_TIMEUUID # v)"
| "encode_value (CqlDate v) = Ok (TAG_DATE # to_le v)"
| "encode_value (CqlTime v) = Ok (TAG_TIME # to_le v)"
| "encode_value (CqlTimestamp v) = Ok (TAG_TIMESTAMP # to_le v)"
| "encode_value (CqlInet (V4 addr)) = Ok (TAG_INET_V4 # addr)"
| "encode_value (CqlInet (V6 addr)) = Ok (TAG_INET_V6 # addr)"
| "encode_value (CqlCounter v) = Ok (TAG_COUNTER # to_le v)"
| "encode_value v = unsupported v"

definition ik_encode :: "cql_value list \<Rightarrow> invariant_key result" where
  "ik_encode values =
     and_then (collect_result encoded_size values) (\<lambda>_.
     and_then (collect_result encode_value values) (\<lambda>encoded.
       Ok (word_of_nat (length values) # concat encoded)))"

definition ik_new :: "cql_value list \<Rightarrow> invariant_key result" where
  "ik_new values =
     (if length values \<le> MAX_COLUMNS then ik_encode values
      else Err (Panic ''InvariantKey supports at most 255 columns''))"

text \<open>\<open>from_iter\<close>: the count byte is incremented with every value appended.\<close>

fun from_iter_loop :: "cql_value list \<Rightarrow> u8 \<Rightarrow> u8 list \<Rightarrow> invariant_key result" where
  "from_iter_loop [] count buf = Ok (count # buf)"
| "from_iter_loop (value # values) count buf =
     and_then (encode_value value) (\<lambda>bytes. from_iter_loop values (count + 1) (buf @ bytes))"

definition ik_from_iter :: "cql_value list \<Rightarrow> invariant_key result" where
  "ik_from_iter values = from_iter_loop (take MAX_COLUMNS values) 0 []"

section \<open>Decoding\<close>

text \<open>Indexing and slicing of a byte slice panics out of range.\<close>

definition byte_at :: "u8 list \<Rightarrow> nat \<Rightarrow> u8 result" where
  "byte_at data i = (if i < length data then Ok (data ! i) else Err (Panic ''index out of bounds''))"

definition bytes_at :: "nat \<Rightarrow> nat \<Rightarrow> u8 list \<Rightarrow> u8 list result" where
  "bytes_at i j data =
     (if i \<le> j \<and> j \<le> length data then Ok (slice i j data) else Err (Panic ''range out of bounds''))"

definition bytes_from :: "nat \<Rightarrow> u8 list \<Rightarrow> u8 list result" where
  "bytes_from i data = (if i \<le> length data then Ok (drop i data) else Err (Panic ''range out of bounds''))"

definition read_fixed :: "nat \<Rightarrow> u8 list \<Rightarrow> u8 list result" where
  "read_fixed n data = bytes_at DATA_OFFSET (DATA_OFFSET + n) data"

definition read_var_len :: "u8 list \<Rightarrow> nat result" where
  "read_var_len data =
     and_then (bytes_at DATA_OFFSET VAR_DATA_OFFSET data) (\<lambda>bs. Ok (unat (from_le bs :: u32)))"

definition read_var :: "u8 list \<Rightarrow> u8 list result" where
  "read_var data =
     and_then (read_var_len data) (\<lambda>len. bytes_at VAR_DATA_OFFSET (VAR_DATA_OFFSET + len) data)"

definition skip_value :: "u8 list \<Rightarrow> nat result" where
  "skip_value data =
     and_then (byte_at data 0) (\<lambda>tag.
       if tag = TAG_EMPTY then Ok TAG_SIZE
       else if tag \<in> {TAG_BOOLEAN, TAG_TINY_INT} then Ok (TAG_SIZE + BYTE_SIZE)
       else if tag = TAG_SMALL_INT then Ok (TAG_SIZE + 2)
       else if tag \<in> {TAG_INT, TAG_FLOAT, TAG_DATE} then Ok (TAG_SIZE + 4)
       else if tag = TAG_INET_V4 then Ok (TAG_SIZE + IPV4_SIZE)
       else if tag \<in> {TAG_BIG_INT, TAG_DOUBLE, TAG_TIME, TAG_TIMESTAMP, TAG_COUNTER} then Ok (TAG_SIZE + 8)
       else if tag \<in> {TAG_UUID, TAG_TIMEUUID, TAG_INET_V6} then Ok (TAG_SIZE + UUID_SIZE)
       else if tag \<in> {TAG_TEXT, TAG_ASCII, TAG_BLOB, TAG_VARINT, TAG_DECIMAL}
       then and_then (read_var_len data) (\<lambda>len. Ok (VAR_DATA_OFFSET + len))
       else Err (Panic ''Unknown tag in InvariantKey data''))"

text \<open>The shape of most arms: a fixed number of bytes after the tag.\<close>

definition decode_fixed :: "nat \<Rightarrow> (u8 list \<Rightarrow> cql_value) \<Rightarrow> u8 list \<Rightarrow> (cql_value \<times> nat) result" where
  "decode_fixed n f data = and_then (read_fixed n data) (\<lambda>bs. Ok (f bs, TAG_SIZE + n))"

definition decode_var :: "(u8 list \<Rightarrow> cql_value result) \<Rightarrow> u8 list \<Rightarrow> (cql_value \<times> nat) result" where
  "decode_var f data =
     and_then (read_var data) (\<lambda>bs. and_then (f bs) (\<lambda>v. Ok (v, VAR_DATA_OFFSET + length bs)))"

definition decode_string :: "string \<Rightarrow> (rust_string \<Rightarrow> cql_value) \<Rightarrow> u8 list \<Rightarrow> cql_value result" where
  "decode_string msg f bs = and_then (ok_or (from_utf8 bs) (Panic msg)) (\<lambda>s. Ok (f s))"

definition decode_decimal :: "u8 list \<Rightarrow> cql_value result" where
  "decode_decimal payload =
     and_then (bytes_at 0 4 payload) (\<lambda>scale.
       Ok (CqlDecimalV (CqlDecimal (drop 4 payload) (from_le (rev scale)))))"

definition decode_value :: "u8 list \<Rightarrow> (cql_value \<times> nat) result" where
  "decode_value data =
     and_then (byte_at data 0) (\<lambda>tag.
       if tag = TAG_EMPTY then Ok (CqlEmpty, TAG_SIZE)
       else if tag = TAG_BOOLEAN
       then and_then (byte_at data DATA_OFFSET) (\<lambda>b. Ok (CqlBoolean (b \<noteq> 0), TAG_SIZE + BYTE_SIZE))
       else if tag = TAG_TINY_INT then decode_fixed 1 (\<lambda>bs. CqlTinyInt (from_le bs)) data
       else if tag = TAG_SMALL_INT then decode_fixed 2 (\<lambda>bs. CqlSmallInt (from_le bs)) data
       else if tag = TAG_INT then decode_fixed 4 (\<lambda>bs. CqlInt (from_le bs)) data
       else if tag = TAG_BIG_INT then decode_fixed 8 (\<lambda>bs. CqlBigInt (from_le bs)) data
       else if tag = TAG_FLOAT then decode_fixed 4 (\<lambda>bs. CqlFloat (from_le bs)) data
       else if tag = TAG_DOUBLE then decode_fixed 8 (\<lambda>bs. CqlDouble (from_le bs)) data
       else if tag = TAG_TEXT
       then decode_var (decode_string ''invalid UTF-8 in InvariantKey Text value'' CqlText) data
       else if tag = TAG_ASCII
       then decode_var (decode_string ''invalid UTF-8 in InvariantKey Ascii value'' CqlAscii) data
       else if tag = TAG_BLOB then decode_var (\<lambda>bs. Ok (CqlBlob bs)) data
       else if tag = TAG_VARINT then decode_var (\<lambda>bs. Ok (CqlVarint bs)) data
       else if tag = TAG_DECIMAL then decode_var decode_decimal data
       else if tag = TAG_UUID then decode_fixed UUID_SIZE CqlUuid data
       else if tag = TAG_TIMEUUID then decode_fixed UUID_SIZE CqlTimeuuid data
       else if tag = TAG_DATE then decode_fixed 4 (\<lambda>bs. CqlDate (from_le bs)) data
       else if tag = TAG_TIME then decode_fixed 8 (\<lambda>bs. CqlTime (from_le bs)) data
       else if tag = TAG_TIMESTAMP then decode_fixed 8 (\<lambda>bs. CqlTimestamp (from_le bs)) data
       else if tag = TAG_INET_V4 then decode_fixed IPV4_SIZE (\<lambda>bs. CqlInet (V4 bs)) data
       else if tag = TAG_INET_V6 then decode_fixed UUID_SIZE (\<lambda>bs. CqlInet (V6 bs)) data
       else if tag = TAG_COUNTER then decode_fixed 8 (\<lambda>bs. CqlCounter (from_le bs)) data
       else Err (Panic ''Unknown tag in InvariantKey data''))"

section \<open>Access\<close>

definition ik_len :: "invariant_key \<Rightarrow> nat result" where
  "ik_len key = and_then (byte_at key 0) (\<lambda>count. Ok (unat count))"

definition ik_is_empty :: "invariant_key \<Rightarrow> bool result" where
  "ik_is_empty key = and_then (byte_at key 0) (\<lambda>count. Ok (count = 0))"

text \<open>The loop \<open>for _ in 0..index\<close> that skips the first values.\<close>

fun skip_values :: "nat \<Rightarrow> invariant_key \<Rightarrow> nat \<Rightarrow> nat result" where
  "skip_values 0 key offset = Ok offset"
| "skip_values (Suc n) key offset =
     and_then (bytes_from offset key) (\<lambda>rest.
     and_then (skip_value rest) (\<lambda>k. skip_values n key (offset + k)))"

definition ik_get :: "invariant_key \<Rightarrow> nat \<Rightarrow> cql_value option result" where
  "ik_get key index =
     and_then (byte_at key 0) (\<lambda>count.
       if index \<ge> unat count then Ok None
       else and_then (skip_values index key COUNT_SIZE) (\<lambda>offset.
            and_then (bytes_from offset key) (\<lambda>rest.
            and_then (decode_value rest) (\<lambda>(v, _). Ok (Some v)))))"

record ik_iterator =
  it_data :: "u8 list"
  it_offset :: nat
  it_remaining :: nat

definition ik_iter :: "invariant_key \<Rightarrow> ik_iterator result" where
  "ik_iter key =
     and_then (byte_at key 0) (\<lambda>count.
       Ok \<lparr>it_data = key, it_offset = COUNT_SIZE, it_remaining = unat count\<rparr>)"

definition ik_iter_next :: "ik_iterator \<Rightarrow> (cql_value option \<times> ik_iterator) result" where
  "ik_iter_next it =
     (if it_remaining it = 0 then Ok (None, it)
      else and_then (bytes_from (it_offset it) (it_data it)) (\<lambda>rest.
           and_then (decode_value rest) (\<lambda>(value, consumed).
             Ok (Some value, it\<lparr>it_offset := it_offset it + consumed,
                               it_remaining := it_remaining it - 1\<rparr>))))"

text \<open>
  Draining the iterator: every call of \<open>next\<close> that yields lowers \<open>remaining\<close>, so as many
  calls as values remain, and one more, are enough.
\<close>

fun ik_iter_drain :: "nat \<Rightarrow> ik_iterator \<Rightarrow> cql_value list result" where
  "ik_iter_drain 0 it = Ok []"
| "ik_iter_drain (Suc n) it =
     and_then (ik_iter_next it) (\<lambda>(v, it').
       case v of None \<Rightarrow> Ok []
       | Some value \<Rightarrow> and_then (ik_iter_drain n it') (\<lambda>values. Ok (value # values)))"

definition ik_values :: "invariant_key \<Rightarrow> cql_value list result" where
  "ik_values key = and_then (ik_iter key) (\<lambda>it. ik_iter_drain (it_remaining it + 1) it)"

text \<open>
  \<open>normalize\<close> of \<open>primary_key.rs\<close>. The driver's \<open>decimal_normalized\<close> is \<open>None\<close> where the
  normalised scale leaves the range of an \<open>i32\<close>, which the source meets with an \<open>expect\<close>.
\<close>

fun normalize :: "driver \<Rightarrow> cql_value \<Rightarrow> cql_value result" where
  "normalize d (CqlDecimalV x) =
     and_then (ok_or (decimal_normalized d x) (Panic ''normalized decimal scale fits i32''))
       (\<lambda>y. Ok (CqlDecimalV y))"
| "normalize d v = Ok v"

section \<open>Round trips\<close>

lemma read_fixed_append [simp]: "length x = n \<Longrightarrow> read_fixed n (t # x @ rest) = Ok x"
  by (simp add: read_fixed_def bytes_at_def slice_def layout_defs)

lemma read_var_len_append:
  assumes "n < 2 ^ 32"
  shows "read_var_len (t # to_le (word_of_nat n :: u32) @ rest) = Ok n"
proof -
  have "bytes_at 1 5 (t # to_le (word_of_nat n :: u32) @ rest) = Ok (to_le (word_of_nat n :: u32))"
    by (simp add: bytes_at_def slice_def)
  then show ?thesis
    using assms by (simp add: read_var_len_def layout_defs unat_of_nat)
qed

lemma read_var_append:
  assumes "length x < 2 ^ 32"
  shows "read_var (t # to_le (word_of_nat (length x) :: u32) @ x @ rest) = Ok x"
  using read_var_len_append [OF assms, of t "x @ rest"]
  by (simp add: read_var_def bytes_at_def slice_def layout_defs)

lemma var_len_eq_Ok: "var_len msg n = Ok bs \<longleftrightarrow> n < 2 ^ 32 \<and> bs = to_le (word_of_nat n :: u32)"
  by (auto simp: var_len_def)

lemma byte_at_Cons [simp]: "byte_at (b # bs) 0 = Ok b"
  by (simp add: byte_at_def)

lemma decode_decimal_append:
  "length sc = 4 \<Longrightarrow> decode_decimal (rev sc @ x) = Ok (CqlDecimalV (CqlDecimal x (from_le sc)))"
  by (simp add: decode_decimal_def bytes_at_def slice_def)

lemma decode_var_append:
  assumes "length x < 2 ^ 32" and "f x = Ok v"
  shows "decode_var f (t # to_le (word_of_nat (length x) :: u32) @ x @ rest) = Ok (v, 5 + length x)"
  using assms read_var_append [OF assms(1), of t rest] by (simp add: decode_var_def layout_defs)

lemma decode_fixed_append [simp]: "length x = n \<Longrightarrow> decode_fixed n f (t # x @ rest) = Ok (f x, 1 + n)"
  by (simp add: decode_fixed_def layout_defs)

lemma decode_string_ok: "utf8_valid s \<Longrightarrow> decode_string msg f s = Ok (f s)"
  by (simp add: decode_string_def from_utf8_def)

lemma and_then_var_len:
  "and_then (var_len msg n) (\<lambda>len. Ok (f len)) = Ok bs \<longleftrightarrow> n < 2 ^ 32 \<and> bs = f (to_le (word_of_nat n :: u32))"
  by (auto simp: var_len_def)

lemma decode_encode_value:
  assumes "cql_wf v" and "encode_value v = Ok bs"
  shows "decode_value (bs @ rest) = Ok (v, length bs)"
  using assms
proof (cases v)
  case (CqlInet a)
  with assms show ?thesis
    by (cases a) (auto simp: decode_value_def tag_defs layout_defs)
next
  case (CqlDecimalV x)
  obtain b sc where x: "x = CqlDecimal b sc" by (cases x)
  have fits: "length (rev (to_le sc) @ b) < 2 ^ 32"
    and bs: "bs = TAG_DECIMAL # to_le (word_of_nat (length (rev (to_le sc) @ b)) :: u32) @ rev (to_le sc) @ b"
    using assms(2) by (simp_all add: CqlDecimalV x var_len_eq_Ok and_then_eq_Inr)
  have dd: "decode_decimal (rev (to_le sc) @ b) = Ok (CqlDecimalV (CqlDecimal b sc))"
    using decode_decimal_append [of "to_le sc" b] by simp
  have "decode_value (bs @ rest) = decode_var decode_decimal (bs @ rest)"
    by (simp add: decode_value_def bs tag_defs)
  also have "\<dots> = Ok (v, length bs)"
    using decode_var_append [of "rev (to_le sc) @ b" decode_decimal, OF fits dd, of TAG_DECIMAL rest]
    by (simp add: bs CqlDecimalV x)
  finally show ?thesis .
qed (clarsimp simp: and_then_var_len unsupported_def; simp add: decode_value_def tag_defs layout_defs
      byte_at_def decode_var_append decode_string_ok)+

lemma skip_encode_value:
  assumes "cql_wf v" and "encode_value v = Ok bs"
  shows "skip_value (bs @ rest) = Ok (length bs)"
  using assms
proof (cases v)
  case (CqlInet a)
  with assms show ?thesis
    by (cases a) (auto simp: skip_value_def tag_defs layout_defs)
next
  case (CqlDecimalV x)
  obtain b sc where x: "x = CqlDecimal b sc" by (cases x)
  show ?thesis
    using assms(2) read_var_len_append [of "4 + length b" TAG_DECIMAL "rev (to_le sc) @ b @ rest"]
    by (clarsimp simp: CqlDecimalV x and_then_var_len) (simp add: skip_value_def tag_defs layout_defs)
qed (clarsimp simp: and_then_var_len unsupported_def; simp add: skip_value_def tag_defs layout_defs
      read_var_len_append)+

lemma encoded_size_encode_value:
  assumes "cql_wf v" and "encode_value v = Ok bs"
  shows "encoded_size v = Ok (length bs)"
  using assms
proof (cases v)
  case (CqlInet a)
  with assms show ?thesis by (cases a) (auto simp: layout_defs)
next
  case (CqlDecimalV x)
  with assms show ?thesis by (cases x) (auto simp: layout_defs var_len_eq_Ok result_simps)
qed (auto simp: layout_defs var_len_eq_Ok result_simps unsupported_def)


section \<open>Keys as lists of values\<close>

text \<open>
  \<open>key_of vs k\<close>: the buffer \<open>k\<close> is the encoding of the values \<open>vs\<close>, at most 255 of them.
\<close>

definition key_of :: "cql_value list \<Rightarrow> invariant_key \<Rightarrow> bool" where
  "key_of vs k \<longleftrightarrow> list_all cql_wf vs \<and> length vs \<le> 255 \<and>
     (case collect_result encode_value vs of
        Inl _ \<Rightarrow> False
      | Inr es \<Rightarrow> k = word_of_nat (length vs) # concat es)"

lemma key_of_iff:
  "key_of vs k \<longleftrightarrow> list_all cql_wf vs \<and> length vs \<le> 255 \<and>
     (\<exists>es. collect_result encode_value vs = Ok es \<and> k = word_of_nat (length vs) # concat es)"
  by (auto simp: key_of_def split: sum.splits)

lemma count_byte: "n \<le> 255 \<Longrightarrow> unat (word_of_nat n :: u8) = n"
  by (simp add: unat_of_nat)

lemma from_iter_loop_eq:
  "from_iter_loop vs count buf =
     and_then (collect_result encode_value vs) (\<lambda>es. Ok ((count + word_of_nat (length vs)) # buf @ concat es))"
proof (induction vs arbitrary: count buf)
  case (Cons v vs)
  show ?case
  proof (cases "encode_value v")
    case (Inr bs)
    then show ?thesis
      by (cases "collect_result encode_value vs") (simp_all add: Cons add.assoc)
  qed simp
qed simp

lemma from_iter_eq:
  "ik_from_iter vs =
     and_then (collect_result encode_value (take 255 vs))
       (\<lambda>es. Ok (word_of_nat (length (take 255 vs)) # concat es))"
  by (simp add: ik_from_iter_def from_iter_loop_eq MAX_COLUMNS_def del: length_take)

lemma from_iter_key_of:
  "list_all cql_wf vs \<Longrightarrow> ik_from_iter vs = Ok k \<Longrightarrow> key_of (take 255 vs) k"
  unfolding from_iter_eq key_of_iff
  by (auto simp: result_simps list_all_iff dest: in_set_takeD)

lemma key_of_from_iter: "key_of vs k \<Longrightarrow> ik_from_iter vs = Ok k"
  unfolding key_of_iff from_iter_eq by clarsimp

lemma skip_values_append:
  assumes "collect_result encode_value vs = Ok es" and "list_all cql_wf vs" and "i \<le> length vs"
  shows "skip_values i (pre @ concat es) (length pre) = Ok (length pre + length (concat (take i es)))"
  using assms
proof (induction vs arbitrary: pre es i)
  case (Cons v vs)
  obtain b es' where b: "encode_value v = Ok b" and es': "collect_result encode_value vs = Ok es'"
    and es: "es = b # es'"
    using Cons.prems(1) by (auto simp: result_simps)
  show ?case
  proof (cases i)
    case (Suc j)
    have "skip_value (b @ concat es') = Ok (length b)"
      using skip_encode_value [OF _ b, of "concat es'"] Cons.prems(2) by simp
    then show ?thesis
      using Cons.IH [OF es', of j "pre @ b"] Cons.prems(2,3)
      by (simp add: Suc es bytes_from_def)
  qed simp
qed simp

lemma concat_drop_nth: "i < length es \<Longrightarrow> drop (length (concat (take i es))) (concat es) = es ! i @ concat (drop (Suc i) es)"
proof -
  assume "i < length es"
  then have "concat es = concat (take i es) @ es ! i @ concat (drop (Suc i) es)"
    by (metis append.assoc concat.simps(2) concat_append id_take_nth_drop)
  then show ?thesis by (metis append_eq_conv_conj)
qed

lemma ik_get_key_of:
  assumes "key_of vs k"
  shows "ik_get k i = Ok (vec_get vs i)"
proof -
  obtain es where es: "collect_result encode_value vs = Ok es" and k: "k = word_of_nat (length vs) # concat es"
    and wf: "list_all cql_wf vs" and len: "length vs \<le> 255"
    using assms by (auto simp: key_of_iff)
  note cnt = count_byte [OF len]
  have les: "length es = length vs" using es by (rule collect_result_length)
  show ?thesis
  proof (cases "i < length vs")
    case True
    have off: "skip_values i k 1 = Ok (1 + length (concat (take i es)))"
      using skip_values_append [OF es wf, of i "[word_of_nat (length vs)]"] True by (simp add: k)
    have bound: "length (concat (take i es)) \<le> length (concat es)"
      by (metis append_take_drop_id concat_append le_add1 length_append)
    have rest: "bytes_from (1 + length (concat (take i es))) k = Ok (es ! i @ concat (drop (Suc i) es))"
      using concat_drop_nth [of i es] True bound by (simp add: bytes_from_def k les del: length_concat)
    have "decode_value (es ! i @ concat (drop (Suc i) es)) = Ok (vs ! i, length (es ! i))"
      using collect_result_nth [OF es True] wf True by (intro decode_encode_value) (auto simp: list_all_length)
    then show ?thesis
      using True off rest cnt by (simp add: ik_get_def k vec_get_def COUNT_SIZE_def)
  qed (use cnt in \<open>simp add: ik_get_def k vec_get_def\<close>)
qed

lemma ik_len_key_of: "key_of vs k \<Longrightarrow> ik_len k = Ok (length vs)"
  by (auto simp: key_of_iff ik_len_def count_byte)

lemma ik_iter_drain_append:
  assumes "collect_result encode_value vs = Ok es" and "list_all cql_wf vs" and "n > length vs"
  shows "ik_iter_drain n \<lparr>it_data = pre @ concat es, it_offset = length pre, it_remaining = length vs\<rparr> = Ok vs"
  using assms
proof (induction vs arbitrary: pre es n)
  case Nil
  then show ?case by (cases n) (simp_all add: ik_iter_next_def)
next
  case (Cons v vs)
  obtain b es' where b: "encode_value v = Ok b" and es': "collect_result encode_value vs = Ok es'"
    and es: "es = b # es'"
    using Cons.prems(1) by (auto simp: result_simps)
  obtain m where m: "n = Suc m" using Cons.prems(3) by (cases n) auto
  have "decode_value (b @ concat es') = Ok (v, length b)"
    using decode_encode_value [OF _ b, of "concat es'"] Cons.prems(2) by simp
  then show ?case
    using Cons.IH [OF es', of m "pre @ b"] Cons.prems(2,3)
    by (simp add: m es ik_iter_next_def bytes_from_def)
qed

lemma ik_values_key_of:
  assumes "key_of vs k"
  shows "ik_values k = Ok vs"
proof -
  obtain es where es: "collect_result encode_value vs = Ok es" and k: "k = [word_of_nat (length vs)] @ concat es"
    and wf: "list_all cql_wf vs" and len: "length vs \<le> 255"
    using assms by (auto simp: key_of_iff)
  show ?thesis
    using ik_iter_drain_append [OF es wf, of "length vs + 1" "[word_of_nat (length vs)]"] count_byte [OF len]
    by (simp add: ik_values_def ik_iter_def k COUNT_SIZE_def del: ik_iter_drain.simps)
qed

lemma key_of_unique: "key_of vs k \<Longrightarrow> key_of ws k \<Longrightarrow> vs = ws"
  using ik_values_key_of [of vs k] ik_values_key_of [of ws k] by simp

lemma key_of_deterministic: "key_of vs k \<Longrightarrow> key_of vs k' \<Longrightarrow> k = k'"
  by (auto simp: key_of_iff)

lemma collect_sizes:
  assumes "list_all cql_wf vs" and "collect_result encode_value vs = Ok es"
  shows "collect_result encoded_size vs = Ok (map length es)"
  using assms
  by (induction vs arbitrary: es) (auto simp: result_simps(1) dest!: encoded_size_encode_value)

lemma ik_new_key_of:
  assumes "key_of vs k"
  shows "ik_new vs = Ok k"
proof -
  obtain es where es: "collect_result encode_value vs = Ok es" and k: "k = word_of_nat (length vs) # concat es"
    and wf: "list_all cql_wf vs" and len: "length vs \<le> 255"
    using assms by (auto simp: key_of_iff)
  show ?thesis
    using len by (simp add: ik_new_def ik_encode_def MAX_COLUMNS_def k es collect_sizes [OF wf es])
qed

section \<open>Properties\<close>

text \<open>
  C40: round trip of a key. A key collected from at most 255 well-formed values has the length
  of the list, random access \<open>get(i)\<close> returns the \<open>i\<close>-th value and \<open>None\<close> past the end, and
  the iterator yields exactly the values and then stops, without a panic.
\<close>

theorem invariant_key_roundtrip:
  assumes "list_all cql_wf vs" and "length vs \<le> MAX_COLUMNS" and "ik_from_iter vs = Ok k"
  shows "ik_len k = Ok (length vs) \<and> (\<forall>i. ik_get k i = Ok (vec_get vs i)) \<and> ik_values k = Ok vs"
proof -
  have "key_of vs k"
    using from_iter_key_of [OF assms(1,3)] assms(2) by (simp add: MAX_COLUMNS_def)
  then show ?thesis by (simp add: ik_len_key_of ik_get_key_of ik_values_key_of)
qed

text \<open>
  Keys compare by their bytes, and that is comparison by value: two lists of at most 255
  well-formed values are collected into the same bytes exactly when they are equal.
\<close>

theorem invariant_key_injective:
  assumes "list_all cql_wf vs" and "length vs \<le> MAX_COLUMNS" and "ik_from_iter vs = Ok k"
    and "list_all cql_wf ws" and "length ws \<le> MAX_COLUMNS" and "ik_from_iter ws = Ok l"
  shows "k = l \<longleftrightarrow> vs = ws"
proof -
  have "key_of vs k" "key_of ws l"
    using from_iter_key_of [OF assms(1,3)] from_iter_key_of [OF assms(4,6)] assms(2,5)
    by (simp_all add: MAX_COLUMNS_def)
  then show ?thesis by (auto dest: key_of_unique key_of_deterministic)
qed

text \<open>
  The two constructors. Up to 255 columns \<open>new\<close> (which computes the capacity with
  \<open>encoded_size\<close> first) and \<open>from_iter\<close> build the same key, whose length is one byte more
  than the sum of the sizes \<open>encoded_size\<close> computes; above 255 columns \<open>new\<close> panics while
  \<open>from_iter\<close> drops the columns past the first 255.
\<close>

theorem invariant_key_constructors:
  assumes "list_all cql_wf vs" and "ik_from_iter vs = Ok k"
  shows "if length vs \<le> MAX_COLUMNS
         then ik_new vs = Ok k \<and>
              (\<exists>sizes. collect_result encoded_size vs = Ok sizes \<and> length k = COUNT_SIZE + sum_list sizes)
         else (\<exists>msg. ik_new vs = Err (Panic msg)) \<and> ik_values k = Ok (take 255 vs)"
proof (cases "length vs \<le> 255")
  case True
  have key: "key_of vs k" using from_iter_key_of [OF assms] True by simp
  then obtain es where es: "collect_result encode_value vs = Ok es" and k: "k = word_of_nat (length vs) # concat es"
    by (auto simp: key_of_iff)
  show ?thesis
    using True ik_new_key_of [OF key] collect_sizes [OF assms(1) es]
    by (auto simp: MAX_COLUMNS_def COUNT_SIZE_def k length_concat)
next
  case False
  then show ?thesis
    using ik_values_key_of [OF from_iter_key_of [OF assms]] by (simp add: ik_new_def MAX_COLUMNS_def)
qed

section \<open>Witnesses\<close>

lemma invariant_key_roundtrip_witness:
  "ik_from_iter [CqlInt 7, CqlText [104, 105]] = Ok [2, 4, 7, 0, 0, 0, 8, 2, 0, 0, 0, 104, 105] \<and>
   ik_get [2, 4, 7, 0, 0, 0, 8, 2, 0, 0, 0, 104, 105] 1 = Ok (Some (CqlText [104, 105]))"
proof -
  have "to_le (7 :: u32) = [7, 0, 0, 0]" and "to_le (2 :: u32) = [2, 0, 0, 0]"
    by code_simp+
  then have k: "ik_from_iter [CqlInt 7, CqlText [104, 105]] = Ok [2, 4, 7, 0, 0, 0, 8, 2, 0, 0, 0, 104, 105]"
    by (simp add: ik_from_iter_def MAX_COLUMNS_def var_len_def TAG_INT_def TAG_TEXT_def)
  have wf: "list_all cql_wf [CqlInt 7, CqlText [104, 105]]"
    by code_simp
  have "length [CqlInt 7, CqlText [104, 105]] \<le> MAX_COLUMNS"
    by (simp add: MAX_COLUMNS_def)
  then have "ik_get [2, 4, 7, 0, 0, 0, 8, 2, 0, 0, 0, 104, 105] 1 = Ok (vec_get [CqlInt 7, CqlText [104, 105]] 1)"
    using invariant_key_roundtrip [OF wf _ k] by blast
  then show ?thesis
    using k by (simp add: vec_get_def)
qed

lemma invariant_key_injective_witness:
  "([1, 1, 1] :: u8 list) \<noteq> [1, 2, 1] \<and> ik_from_iter [CqlBoolean True] = Ok [1, 1, 1]"
proof -
  have k: "ik_from_iter [CqlBoolean True] = Ok [1, 1, 1]" "ik_from_iter [CqlTinyInt 1] = Ok [1, 2, 1]"
    by code_simp+
  show ?thesis
    using invariant_key_injective [of "[CqlBoolean True]" "[1, 1, 1]" "[CqlTinyInt 1]" "[1, 2, 1]"] k
    by (simp add: MAX_COLUMNS_def)
qed

lemma invariant_key_constructors_witness: "ik_new [CqlBoolean True, CqlEmpty] = Ok [2, 1, 1, 0]"
proof -
  have k: "ik_from_iter [CqlBoolean True, CqlEmpty] = Ok [2, 1, 1, 0]"
    by code_simp
  show ?thesis
    using invariant_key_constructors [of "[CqlBoolean True, CqlEmpty]", OF _ k]
    by (simp add: MAX_COLUMNS_def)
qed

end
