(* ===== verification/Columns.thy ===== *)
theory Columns
  imports Timestamps Row_Ids Invariant_Key "HOL-Library.Multiset"
begin

text \<open>
  Model of \<open>crates/vector-store/src/table/column_vec.rs\<close> and \<open>column.rs\<close>: the typed columns
  the table keeps for the partition-key and filtering columns of its indexes, a timestamped
  cell per row, and the virtual columns that read a component of the primary key. A write
  wins over the cell exactly when its timestamp is greater. The lemmas show that stale writes
  change nothing and that writes with different timestamps commute, so that replicas that
  see the same writes in any order agree.
\<close>

section \<open>ColumnVec\<close>

text \<open>
  A \<open>ColumnVec\<close> is a vector indexed by an identifier type; \<open>new\<close> is the empty list and
  \<open>resize_with\<close> is \<open>vec_resize\<close>.
\<close>

definition cv_get :: "'a list \<Rightarrow> primary_id \<Rightarrow> 'a option" where
  "cv_get vec idx = vec_get vec (primary_idx idx)"

definition cv_update :: "primary_id \<Rightarrow> 'a timestamped \<Rightarrow> 'a timestamped list \<Rightarrow> 'a timestamped list result" where
  "cv_update idx value vec =
     (case cv_get vec idx of
        None \<Rightarrow> Err (Bail ''Index out of ColumnVec bounds'')
      | Some it \<Rightarrow>
          if timestamp_of value > timestamp_of it then Ok (vec[primary_idx idx := value]) else Ok vec)"

section \<open>Column\<close>

datatype column =
    ColAscii "rust_string timestamped list"
  | ColBigInt "u64 timestamped list"
  | ColBlob "u8 list timestamped list"
  | ColBoolean "bool timestamped list"
  | ColDate "u32 timestamped list"
  | ColDecimal "cql_decimal timestamped list"
  | ColDouble "u64 timestamped list"
  | ColFloat "u32 timestamped list"
  | ColInet "ip_addr timestamped list"
  | ColInt "u32 timestamped list"
  | ColSmallInt "u16 timestamped list"
  | ColText "rust_string timestamped list"
  | ColTime "u64 timestamped list"
  | ColTimestamp "u64 timestamped list"
  | ColTimeuuid "u8 list timestamped list"
  | ColTinyInt "u8 timestamped list"
  | ColUuid "u8 list timestamped list"
  | ColVarint "u8 list timestamped list"
  | ColPrimaryKey nat

fun column_new :: "native_type \<Rightarrow> column result" where
  "column_new NT_Ascii = Ok (ColAscii [])"
| "column_new NT_BigInt = Ok (ColBigInt [])"
| "column_new NT_Blob = Ok (ColBlob [])"
| "column_new NT_Boolean = Ok (ColBoolean [])"
| "column_new NT_Date = Ok (ColDate [])"
| "column_new NT_Decimal = Ok (ColDecimal [])"
| "column_new NT_Double = Ok (ColDouble [])"
| "column_new NT_Float = Ok (ColFloat [])"
| "column_new NT_Inet = Ok (ColInet [])"
| "column_new NT_Int = Ok (ColInt [])"
| "column_new NT_SmallInt = Ok (ColSmallInt [])"
| "column_new NT_Text = Ok (ColText [])"
| "column_new NT_Time = Ok (ColTime [])"
| "column_new NT_Timestamp = Ok (ColTimestamp [])"
| "column_new NT_Timeuuid = Ok (ColTimeuuid [])"
| "column_new NT_TinyInt = Ok (ColTinyInt [])"
| "column_new NT_Uuid = Ok (ColUuid [])"
| "column_new NT_Varint = Ok (ColVarint [])"
| "column_new _ = Err (Bail ''Unsupported native type'')"

text \<open>Every cell a resize adds is a tombstone at the least timestamp.\<close>

definition resize_cells :: "nat \<Rightarrow> 'a timestamped list \<Rightarrow> 'a timestamped list" where
  "resize_cells n vec = vec_resize n (timestamped_new Timestamp_MIN None) vec"

fun column_resize_with :: "nat \<Rightarrow> column \<Rightarrow> column" where
  "column_resize_with n (ColAscii vec) = ColAscii (resize_cells n vec)"
| "column_resize_with n (ColBigInt vec) = ColBigInt (resize_cells n vec)"
| "column_resize_with n (ColBlob vec) = ColBlob (resize_cells n vec)"
| "column_resize_with n (ColBoolean vec) = ColBoolean (resize_cells n vec)"
| "column_resize_with n (ColDate vec) = ColDate (resize_cells n vec)"
| "column_resize_with n (ColDecimal vec) = ColDecimal (resize_cells n vec)"
| "column_resize_with n (ColDouble vec) = ColDouble (resize_cells n vec)"
| "column_resize_with n (ColFloat vec) = ColFloat (resize_cells n vec)"
| "column_resize_with n (ColInet vec) = ColInet (resize_cells n vec)"
| "column_resize_with n (ColInt vec) = ColInt (resize_cells n vec)"
| "column_resize_with n (ColSmallInt vec) = ColSmallInt (resize_cells n vec)"
| "column_resize_with n (ColText vec) = ColText (resize_cells n vec)"
| "column_resize_with n (ColTime vec) = ColTime (resize_cells n vec)"
| "column_resize_with n (ColTimestamp vec) = ColTimestamp (resize_cells n vec)"
| "column_resize_with n (ColTimeuuid vec) = ColTimeuuid (resize_cells n vec)"
| "column_resize_with n (ColTinyInt vec) = ColTinyInt (resize_cells n vec)"
| "column_resize_with n (ColUuid vec) = ColUuid (resize_cells n vec)"
| "column_resize_with n (ColVarint vec) = ColVarint (resize_cells n vec)"
| "column_resize_with n (ColPrimaryKey off) = ColPrimaryKey off"

text \<open>The \<open>let CqlValue::X(value) = value else\<close> of \<open>insert\<close>, one projection per column type.\<close>

fun as_ascii :: "cql_value \<Rightarrow> (rust_string) option" where
  "as_ascii (CqlAscii v) = Some v"
| "as_ascii _ = None"

fun as_big_int :: "cql_value \<Rightarrow> (u64) option" where
  "as_big_int (CqlBigInt v) = Some v"
| "as_big_int _ = None"

fun as_blob :: "cql_value \<Rightarrow> (u8 list) option" where
  "as_blob (CqlBlob v) = Some v"
| "as_blob _ = None"

fun as_boolean :: "cql_value \<Rightarrow> (bool) option" where
  "as_boolean (CqlBoolean v) = Some v"
| "as_boolean _ = None"

fun as_date :: "cql_value \<Rightarrow> (u32) option" where
  "as_date (CqlDate v) = Some v"
| "as_date _ = None"

fun as_decimal :: "cql_value \<Rightarrow> (cql_decimal) option" where
  "as_decimal (CqlDecimalV v) = Some v"
| "as_decimal _ = None"

fun as_double :: "cql_value \<Rightarrow> (u64) option" where
  "as_double (CqlDouble v) = Some v"
| "as_double _ = None"

fun as_float :: "cql_value \<Rightarrow> (u32) option" where
  "as_float (CqlFloat v) = Some v"
| "as_float _ = None"

fun as_inet :: "cql_value \<Rightarrow> (ip_addr) option" where
  "as_inet (CqlInet v) = Some v"
| "as_inet _ = None"

fun as_int :: "cql_value \<Rightarrow> (u32) option" where
  "as_int (CqlInt v) = Some v"
| "as_int _ = None"

fun as_small_int :: "cql_value \<Rightarrow> (u16) option" where
  "as_small_int (CqlSmallInt v) = Some v"
| "as_small_int _ = None"

fun as_text :: "cql_value \<Rightarrow> (rust_string) option" where
  "as_text (CqlText v) = Some v"
| "as_text _ = None"

fun as_time :: "cql_value \<Rightarrow> (u64) option" where
  "as_time (CqlTime v) = Some v"
| "as_time _ = None"

fun as_timestamp :: "cql_value \<Rightarrow> (u64) option" where
  "as_timestamp (CqlTimestamp v) = Some v"
| "as_timestamp _ = None"

fun as_timeuuid :: "cql_value \<Rightarrow> (u8 list) option" where
  "as_timeuuid (CqlTimeuuid v) = Some v"
| "as_timeuuid _ = None"

fun as_tiny_int :: "cql_value \<Rightarrow> (u8) option" where
  "as_tiny_int (CqlTinyInt v) = Some v"
| "as_tiny_int _ = None"

fun as_uuid :: "cql_value \<Rightarrow> (u8 list) option" where
  "as_uuid (CqlUuid v) = Some v"
| "as_uuid _ = None"

fun as_varint :: "cql_value \<Rightarrow> (u8 list) option" where
  "as_varint (CqlVarint v) = Some v"
| "as_varint _ = None"

text \<open>The body shared by the arms of \<open>insert\<close>, of \<open>remove\<close> and of \<open>get\<close>.\<close>

definition insert_as ::
  "string \<Rightarrow> (cql_value \<Rightarrow> 'a option) \<Rightarrow> ('a timestamped list \<Rightarrow> column) \<Rightarrow> 'a timestamped list \<Rightarrow>
   primary_id \<Rightarrow> timestamp \<Rightarrow> cql_value \<Rightarrow> column result" where
  "insert_as msg proj col vec primary_id timestamp value =
     (case proj value of
        None \<Rightarrow> Err (Bail msg)
      | Some v \<Rightarrow>
          and_then (cv_update primary_id (timestamped_new timestamp (Some v)) vec) (\<lambda>vec'. Ok (col vec')))"

definition remove_as ::
  "('a timestamped list \<Rightarrow> column) \<Rightarrow> 'a timestamped list \<Rightarrow> primary_id \<Rightarrow> timestamp \<Rightarrow> column result" where
  "remove_as col vec primary_id timestamp =
     and_then (cv_update primary_id (timestamped_new timestamp None) vec) (\<lambda>vec'. Ok (col vec'))"

definition get_as :: "('a \<Rightarrow> cql_value) \<Rightarrow> 'a timestamped list \<Rightarrow> primary_id \<Rightarrow> cql_value option" where
  "get_as wrap vec primary_id = map_option wrap (Option.bind (cv_get vec primary_id) timestamped_value)"

fun column_insert :: "primary_id \<Rightarrow> timestamp \<Rightarrow> cql_value \<Rightarrow> column \<Rightarrow> column result" where
  "column_insert p t v (ColAscii vec) = insert_as ''Failed to convert value to Ascii'' as_ascii ColAscii vec p t v"
| "column_insert p t v (ColBigInt vec) = insert_as ''Failed to convert value to BigInt'' as_big_int ColBigInt vec p t v"
| "column_insert p t v (ColBlob vec) = insert_as ''Failed to convert value to Blob'' as_blob ColBlob vec p t v"
| "column_insert p t v (ColBoolean vec) = insert_as ''Failed to convert value to Boolean'' as_boolean ColBoolean vec p t v"
| "column_insert p t v (ColDate vec) = insert_as ''Failed to convert value to Date'' as_date ColDate vec p t v"
| "column_insert p t v (ColDecimal vec) = insert_as ''Failed to convert value to Decimal'' as_decimal ColDecimal vec p t v"
| "column_insert p t v (ColDouble vec) = insert_as ''Failed to convert value to Double'' as_double ColDouble vec p t v"
| "column_insert p t v (ColFloat vec) = insert_as ''Failed to convert value to Float'' as_float ColFloat vec p t v"
| "column_insert p t v (ColInet vec) = insert_as ''Failed to convert value to Inet'' as_inet ColInet vec p t v"
| "column_insert p t v (ColInt vec) = insert_as ''Failed to convert value to Int'' as_int ColInt vec p t v"
| "column_insert p t v (ColSmallInt vec) = insert_as ''Failed to convert value to SmallInt'' as_small_int ColSmallInt vec p t v"
| "column_insert p t v (ColText vec) = insert_as ''Failed to convert value to Text'' as_text ColText vec p t v"
| "column_insert p t v (ColTime vec) = insert_as ''Failed to convert value to Time'' as_time ColTime vec p t v"
| "column_insert p t v (ColTimestamp vec) = insert_as ''Failed to convert value to Timestamp'' as_timestamp ColTimestamp vec p t v"
| "column_insert p t v (ColTimeuuid vec) = insert_as ''Failed to convert value to Timeuuid'' as_timeuuid ColTimeuuid vec p t v"
| "column_insert p t v (ColTinyInt vec) = insert_as ''Failed to convert value to TinyInt'' as_tiny_int ColTinyInt vec p t v"
| "column_insert p t v (ColUuid vec) = insert_as ''Failed to convert value to Uuid'' as_uuid ColUuid vec p t v"
| "column_insert p t v (ColVarint vec) = insert_as ''Failed to convert value to Varint'' as_varint ColVarint vec p t v"
| "column_insert p t v (ColPrimaryKey _) = Err (Bail ''Cannot insert value into PrimaryKey column'')"

fun column_remove :: "primary_id \<Rightarrow> timestamp \<Rightarrow> column \<Rightarrow> column result" where
  "column_remove p t (ColAscii vec) = remove_as ColAscii vec p t"
| "column_remove p t (ColBigInt vec) = remove_as ColBigInt vec p t"
| "column_remove p t (ColBlob vec) = remove_as ColBlob vec p t"
| "column_remove p t (ColBoolean vec) = remove_as ColBoolean vec p t"
| "column_remove p t (ColDate vec) = remove_as ColDate vec p t"
| "column_remove p t (ColDecimal vec) = remove_as ColDecimal vec p t"
| "column_remove p t (ColDouble vec) = remove_as ColDouble vec p t"
| "column_remove p t (ColFloat vec) = remove_as ColFloat vec p t"
| "column_remove p t (ColInet vec) = remove_as ColInet vec p t"
| "column_remove p t (ColInt vec) = remove_as ColInt vec p t"
| "column_remove p t (ColSmallInt vec) = remove_as ColSmallInt vec p t"
| "column_remove p t (ColText vec) = remove_as ColText vec p t"
| "column_remove p t (ColTime vec) = remove_as ColTime vec p t"
| "column_remove p t (ColTimestamp vec) = remove_as ColTimestamp vec p t"
| "column_remove p t (ColTimeuuid vec) = remove_as ColTimeuuid vec p t"
| "column_remove p t (ColTinyInt vec) = remove_as ColTinyInt vec p t"
| "column_remove p t (ColUuid vec) = remove_as ColUuid vec p t"
| "column_remove p t (ColVarint vec) = remove_as ColVarint vec p t"
| "column_remove p t (ColPrimaryKey _) = Err (Bail ''Cannot remove value from PrimaryKey column'')"

text \<open>
  Reading a primary-key column decodes the stored key, which panics on a malformed buffer;
  every other column reads its own cell.
\<close>

fun column_get :: "primary_id \<Rightarrow> primary_key option list \<Rightarrow> column \<Rightarrow> cql_value option result" where
  "column_get p keys (ColAscii vec) = Ok (get_as CqlAscii vec p)"
| "column_get p keys (ColBigInt vec) = Ok (get_as CqlBigInt vec p)"
| "column_get p keys (ColBlob vec) = Ok (get_as CqlBlob vec p)"
| "column_get p keys (ColBoolean vec) = Ok (get_as CqlBoolean vec p)"
| "column_get p keys (ColDate vec) = Ok (get_as CqlDate vec p)"
| "column_get p keys (ColDecimal vec) = Ok (get_as CqlDecimalV vec p)"
| "column_get p keys (ColDouble vec) = Ok (get_as CqlDouble vec p)"
| "column_get p keys (ColFloat vec) = Ok (get_as CqlFloat vec p)"
| "column_get p keys (ColInet vec) = Ok (get_as CqlInet vec p)"
| "column_get p keys (ColInt vec) = Ok (get_as CqlInt vec p)"
| "column_get p keys (ColSmallInt vec) = Ok (get_as CqlSmallInt vec p)"
| "column_get p keys (ColText vec) = Ok (get_as CqlText vec p)"
| "column_get p keys (ColTime vec) = Ok (get_as CqlTime vec p)"
| "column_get p keys (ColTimestamp vec) = Ok (get_as CqlTimestamp vec p)"
| "column_get p keys (ColTimeuuid vec) = Ok (get_as CqlTimeuuid vec p)"
| "column_get p keys (ColTinyInt vec) = Ok (get_as CqlTinyInt vec p)"
| "column_get p keys (ColUuid vec) = Ok (get_as CqlUuid vec p)"
| "column_get p keys (ColVarint vec) = Ok (get_as CqlVarint vec p)"
| "column_get p keys (ColPrimaryKey off) =
     (case cv_get keys p of Some (Some key) \<Rightarrow> ik_get key off | _ \<Rightarrow> Ok None)"

section \<open>A column as a list of cells\<close>

fun maybe_map :: "('a \<Rightarrow> 'b) \<Rightarrow> 'a maybe_uninit \<Rightarrow> 'b maybe_uninit" where
  "maybe_map f Uninit = Uninit"
| "maybe_map f (Init x) = Init (f x)"

definition ts_map :: "('a \<Rightarrow> 'b) \<Rightarrow> 'a timestamped \<Rightarrow> 'b timestamped" where
  "ts_map f t = \<lparr>ts_timestamp = ts_timestamp t, ts_value = maybe_map f (ts_value t)\<rparr>"

fun col_type :: "column \<Rightarrow> native_type option" where
  "col_type (ColAscii _) = Some NT_Ascii"
| "col_type (ColBigInt _) = Some NT_BigInt"
| "col_type (ColBlob _) = Some NT_Blob"
| "col_type (ColBoolean _) = Some NT_Boolean"
| "col_type (ColDate _) = Some NT_Date"
| "col_type (ColDecimal _) = Some NT_Decimal"
| "col_type (ColDouble _) = Some NT_Double"
| "col_type (ColFloat _) = Some NT_Float"
| "col_type (ColInet _) = Some NT_Inet"
| "col_type (ColInt _) = Some NT_Int"
| "col_type (ColSmallInt _) = Some NT_SmallInt"
| "col_type (ColText _) = Some NT_Text"
| "col_type (ColTime _) = Some NT_Time"
| "col_type (ColTimestamp _) = Some NT_Timestamp"
| "col_type (ColTimeuuid _) = Some NT_Timeuuid"
| "col_type (ColTinyInt _) = Some NT_TinyInt"
| "col_type (ColUuid _) = Some NT_Uuid"
| "col_type (ColVarint _) = Some NT_Varint"
| "col_type (ColPrimaryKey _) = None"

fun value_type :: "cql_value \<Rightarrow> native_type option" where
  "value_type (CqlAscii _) = Some NT_Ascii"
| "value_type (CqlBigInt _) = Some NT_BigInt"
| "value_type (CqlBlob _) = Some NT_Blob"
| "value_type (CqlBoolean _) = Some NT_Boolean"
| "value_type (CqlDate _) = Some NT_Date"
| "value_type (CqlDecimalV _) = Some NT_Decimal"
| "value_type (CqlDouble _) = Some NT_Double"
| "value_type (CqlFloat _) = Some NT_Float"
| "value_type (CqlInet _) = Some NT_Inet"
| "value_type (CqlInt _) = Some NT_Int"
| "value_type (CqlSmallInt _) = Some NT_SmallInt"
| "value_type (CqlText _) = Some NT_Text"
| "value_type (CqlTime _) = Some NT_Time"
| "value_type (CqlTimestamp _) = Some NT_Timestamp"
| "value_type (CqlTimeuuid _) = Some NT_Timeuuid"
| "value_type (CqlTinyInt _) = Some NT_TinyInt"
| "value_type (CqlUuid _) = Some NT_Uuid"
| "value_type (CqlVarint _) = Some NT_Varint"
| "value_type _ = None"

fun col_cells :: "column \<Rightarrow> cql_value timestamped list" where
  "col_cells (ColAscii vec) = map (ts_map CqlAscii) vec"
| "col_cells (ColBigInt vec) = map (ts_map CqlBigInt) vec"
| "col_cells (ColBlob vec) = map (ts_map CqlBlob) vec"
| "col_cells (ColBoolean vec) = map (ts_map CqlBoolean) vec"
| "col_cells (ColDate vec) = map (ts_map CqlDate) vec"
| "col_cells (ColDecimal vec) = map (ts_map CqlDecimalV) vec"
| "col_cells (ColDouble vec) = map (ts_map CqlDouble) vec"
| "col_cells (ColFloat vec) = map (ts_map CqlFloat) vec"
| "col_cells (ColInet vec) = map (ts_map CqlInet) vec"
| "col_cells (ColInt vec) = map (ts_map CqlInt) vec"
| "col_cells (ColSmallInt vec) = map (ts_map CqlSmallInt) vec"
| "col_cells (ColText vec) = map (ts_map CqlText) vec"
| "col_cells (ColTime vec) = map (ts_map CqlTime) vec"
| "col_cells (ColTimestamp vec) = map (ts_map CqlTimestamp) vec"
| "col_cells (ColTimeuuid vec) = map (ts_map CqlTimeuuid) vec"
| "col_cells (ColTinyInt vec) = map (ts_map CqlTinyInt) vec"
| "col_cells (ColUuid vec) = map (ts_map CqlUuid) vec"
| "col_cells (ColVarint vec) = map (ts_map CqlVarint) vec"
| "col_cells (ColPrimaryKey _) = []"

text \<open>A write that wins when its timestamp is greater.\<close>

definition cell_put :: "nat \<Rightarrow> 'a timestamped \<Rightarrow> 'a timestamped list \<Rightarrow> 'a timestamped list" where
  "cell_put i t cells =
     (if i < length cells \<and> timestamp_of (cells ! i) < timestamp_of t then cells[i := t] else cells)"

lemma ts_map_simps [simp]:
  "is_valid (ts_map f t) = is_valid t" "timestamp_of (ts_map f t) = timestamp_of t"
  "timestamped_wf (ts_map f t) = timestamped_wf t"
  "ts_map f (timestamped_new ts v) = timestamped_new ts (map_option f v)"
  by (cases "ts_value t"; cases v;
      simp add: ts_map_def is_valid_def timestamp_of_def timestamped_wf_def timestamped_new_def)+

lemma ts_map_value [simp]:
  "timestamped_wf t \<Longrightarrow> timestamped_value (ts_map f t) = map_option f (timestamped_value t)"
  by (cases "ts_value t") (simp_all add: timestamped_value_def timestamped_wf_def, simp add: ts_map_def)

lemma ts_map_inject: "inj f \<Longrightarrow> ts_map f s = ts_map f t \<longleftrightarrow> s = t"
  by (cases s; cases t; cases "ts_value s"; cases "ts_value t") (auto simp: ts_map_def dest: injD)

lemma length_cell_put [simp]: "length (cell_put i t cells) = length cells"
  by (simp add: cell_put_def)

lemma nth_cell_put:
  "j < length cells \<Longrightarrow> cell_put i t cells ! j =
     (if j = i \<and> timestamp_of (cells ! i) < timestamp_of t then t else cells ! j)"
  by (auto simp: cell_put_def)

lemma cell_put_commute:
  assumes "i \<noteq> j \<or> timestamp_of s \<noteq> timestamp_of t"
  shows "cell_put i s (cell_put j t cells) = cell_put j t (cell_put i s cells)"
  using assms by (auto simp: cell_put_def list_update_swap nth_list_update)

lemma map_cell_put: "map (ts_map f) (cell_put i t vec) = cell_put i (ts_map f t) (map (ts_map f) vec)"
  by (auto simp: cell_put_def map_update)

lemma cv_update_put:
  "cv_update p t vec =
     (if primary_idx p < length vec then Ok (cell_put (primary_idx p) t vec)
      else Err (Bail ''Index out of ColumnVec bounds''))"
  by (auto simp: cv_update_def cv_get_def vec_get_def cell_put_def)

text \<open>
  The two writes as one operation: \<open>Some v\<close> inserts, \<open>None\<close> removes. A column that accepts a
  value stores it as the cell-list write; every other write is refused and changes nothing.
\<close>

definition column_write :: "primary_id \<Rightarrow> timestamp \<Rightarrow> cql_value option \<Rightarrow> column \<Rightarrow> column result" where
  "column_write p t v col =
     (case v of Some value \<Rightarrow> column_insert p t value col | None \<Rightarrow> column_remove p t col)"

definition col_accepts :: "column \<Rightarrow> cql_value option \<Rightarrow> bool" where
  "col_accepts col v \<longleftrightarrow> col_type col \<noteq> None \<and> (\<forall>value. v = Some value \<longrightarrow> value_type value = col_type col)"

lemma value_type_proj:
  "value_type v = Some NT_Ascii \<longleftrightarrow> (\<exists>x. as_ascii v = Some x)"
  "value_type v = Some NT_BigInt \<longleftrightarrow> (\<exists>x. as_big_int v = Some x)"
  "value_type v = Some NT_Blob \<longleftrightarrow> (\<exists>x. as_blob v = Some x)"
  "value_type v = Some NT_Boolean \<longleftrightarrow> (\<exists>x. as_boolean v = Some x)"
  "value_type v = Some NT_Date \<longleftrightarrow> (\<exists>x. as_date v = Some x)"
  "value_type v = Some NT_Decimal \<longleftrightarrow> (\<exists>x. as_decimal v = Some x)"
  "value_type v = Some NT_Double \<longleftrightarrow> (\<exists>x. as_double v = Some x)"
  "value_type v = Some NT_Float \<longleftrightarrow> (\<exists>x. as_float v = Some x)"
  "value_type v = Some NT_Inet \<longleftrightarrow> (\<exists>x. as_inet v = Some x)"
  "value_type v = Some NT_Int \<longleftrightarrow> (\<exists>x. as_int v = Some x)"
  "value_type v = Some NT_SmallInt \<longleftrightarrow> (\<exists>x. as_small_int v = Some x)"
  "value_type v = Some NT_Text \<longleftrightarrow> (\<exists>x. as_text v = Some x)"
  "value_type v = Some NT_Time \<longleftrightarrow> (\<exists>x. as_time v = Some x)"
  "value_type v = Some NT_Timestamp \<longleftrightarrow> (\<exists>x. as_timestamp v = Some x)"
  "value_type v = Some NT_Timeuuid \<longleftrightarrow> (\<exists>x. as_timeuuid v = Some x)"
  "value_type v = Some NT_TinyInt \<longleftrightarrow> (\<exists>x. as_tiny_int v = Some x)"
  "value_type v = Some NT_Uuid \<longleftrightarrow> (\<exists>x. as_uuid v = Some x)"
  "value_type v = Some NT_Varint \<longleftrightarrow> (\<exists>x. as_varint v = Some x)"
  by (cases v; simp)+

lemma proj_Some:
  "as_ascii v = Some x0 \<longleftrightarrow> v = CqlAscii x0"
  "as_big_int v = Some x1 \<longleftrightarrow> v = CqlBigInt x1"
  "as_blob v = Some x2 \<longleftrightarrow> v = CqlBlob x2"
  "as_boolean v = Some x3 \<longleftrightarrow> v = CqlBoolean x3"
  "as_date v = Some x4 \<longleftrightarrow> v = CqlDate x4"
  "as_decimal v = Some x5 \<longleftrightarrow> v = CqlDecimalV x5"
  "as_double v = Some x6 \<longleftrightarrow> v = CqlDouble x6"
  "as_float v = Some x7 \<longleftrightarrow> v = CqlFloat x7"
  "as_inet v = Some x8 \<longleftrightarrow> v = CqlInet x8"
  "as_int v = Some x9 \<longleftrightarrow> v = CqlInt x9"
  "as_small_int v = Some x10 \<longleftrightarrow> v = CqlSmallInt x10"
  "as_text v = Some x11 \<longleftrightarrow> v = CqlText x11"
  "as_time v = Some x12 \<longleftrightarrow> v = CqlTime x12"
  "as_timestamp v = Some x13 \<longleftrightarrow> v = CqlTimestamp x13"
  "as_timeuuid v = Some x14 \<longleftrightarrow> v = CqlTimeuuid x14"
  "as_tiny_int v = Some x15 \<longleftrightarrow> v = CqlTinyInt x15"
  "as_uuid v = Some x16 \<longleftrightarrow> v = CqlUuid x16"
  "as_varint v = Some x17 \<longleftrightarrow> v = CqlVarint x17"
  by (cases v; auto)+

lemma insert_as_iff:
  "insert_as msg proj col vec p t v = Ok c \<longleftrightarrow>
     (\<exists>x. proj v = Some x \<and> primary_idx p < length vec \<and>
          c = col (cell_put (primary_idx p) (timestamped_new t (Some x)) vec))"
  by (auto simp: insert_as_def cv_update_put split: option.splits)

lemma remove_as_iff:
  "remove_as col vec p t = Ok c \<longleftrightarrow>
     primary_idx p < length vec \<and> c = col (cell_put (primary_idx p) (timestamped_new t None) vec)"
  by (auto simp: remove_as_def cv_update_put)

lemma column_write_ok_iff:
  "(\<exists>c. column_write p t v col = Ok c) \<longleftrightarrow> col_accepts col v \<and> primary_idx p < length (col_cells col)"
proof (cases v)
  case None
  then show ?thesis
    by (cases col) (simp_all add: column_write_def col_accepts_def remove_as_iff)
next
  case (Some val)
  then show ?thesis
    by (cases col) (simp_all add: column_write_def col_accepts_def insert_as_iff value_type_proj conj_commute)
qed

lemma column_write_cells:
  assumes "column_write p t v col = Ok c"
  shows "col_cells c = cell_put (primary_idx p) (timestamped_new t v) (col_cells col)"
    and "col_type c = col_type col"
proof -
  have "col_cells c = cell_put (primary_idx p) (timestamped_new t v) (col_cells col) \<and> col_type c = col_type col"
  proof (cases v)
    case None
    with assms show ?thesis
      by (cases col) (auto simp: column_write_def remove_as_iff map_cell_put)
  next
    case (Some val)
    with assms show ?thesis
      by (cases col) (auto simp: column_write_def insert_as_iff proj_Some map_cell_put)
  qed
  then show "col_cells c = cell_put (primary_idx p) (timestamped_new t v) (col_cells col)"
    and "col_type c = col_type col" by simp_all
qed

text \<open>
  What a write leaves behind, refused or not.
\<close>

definition column_step :: "primary_id \<times> timestamp \<times> cql_value option \<Rightarrow> column \<Rightarrow> column" where
  "column_step w col =
     (case w of (p, t, v) \<Rightarrow> case column_write p t v col of Inr c \<Rightarrow> c | Inl _ \<Rightarrow> col)"

definition cells_step ::
  "(cql_value \<Rightarrow> 'a option) \<Rightarrow> primary_id \<times> timestamp \<times> cql_value option \<Rightarrow> 'a timestamped list \<Rightarrow> 'a timestamped list" where
  "cells_step proj w vec =
     (case w of
        (p, t, None) \<Rightarrow> cell_put (primary_idx p) (timestamped_new t None) vec
      | (p, t, Some v) \<Rightarrow>
          (case proj v of None \<Rightarrow> vec | Some x \<Rightarrow> cell_put (primary_idx p) (timestamped_new t (Some x)) vec))"

lemma step_as:
  assumes "\<And>t v. column_insert p t v (col vec) = insert_as msg proj col vec p t v"
    and "\<And>t. column_remove p t (col vec) = remove_as col vec p t"
  shows "column_step (p, t, v) (col vec) = col (cells_step proj (p, t, v) vec)"
  by (auto simp: column_step_def column_write_def assms insert_as_def remove_as_def cells_step_def
      cv_update_put cell_put_def split: option.splits)

lemma column_step_simps:
  "column_step (p, t, v) (ColAscii vec0) = ColAscii (cells_step as_ascii (p, t, v) vec0)"
  "column_step (p, t, v) (ColBigInt vec1) = ColBigInt (cells_step as_big_int (p, t, v) vec1)"
  "column_step (p, t, v) (ColBlob vec2) = ColBlob (cells_step as_blob (p, t, v) vec2)"
  "column_step (p, t, v) (ColBoolean vec3) = ColBoolean (cells_step as_boolean (p, t, v) vec3)"
  "column_step (p, t, v) (ColDate vec4) = ColDate (cells_step as_date (p, t, v) vec4)"
  "column_step (p, t, v) (ColDecimal vec5) = ColDecimal (cells_step as_decimal (p, t, v) vec5)"
  "column_step (p, t, v) (ColDouble vec6) = ColDouble (cells_step as_double (p, t, v) vec6)"
  "column_step (p, t, v) (ColFloat vec7) = ColFloat (cells_step as_float (p, t, v) vec7)"
  "column_step (p, t, v) (ColInet vec8) = ColInet (cells_step as_inet (p, t, v) vec8)"
  "column_step (p, t, v) (ColInt vec9) = ColInt (cells_step as_int (p, t, v) vec9)"
  "column_step (p, t, v) (ColSmallInt vec10) = ColSmallInt (cells_step as_small_int (p, t, v) vec10)"
  "column_step (p, t, v) (ColText vec11) = ColText (cells_step as_text (p, t, v) vec11)"
  "column_step (p, t, v) (ColTime vec12) = ColTime (cells_step as_time (p, t, v) vec12)"
  "column_step (p, t, v) (ColTimestamp vec13) = ColTimestamp (cells_step as_timestamp (p, t, v) vec13)"
  "column_step (p, t, v) (ColTimeuuid vec14) = ColTimeuuid (cells_step as_timeuuid (p, t, v) vec14)"
  "column_step (p, t, v) (ColTinyInt vec15) = ColTinyInt (cells_step as_tiny_int (p, t, v) vec15)"
  "column_step (p, t, v) (ColUuid vec16) = ColUuid (cells_step as_uuid (p, t, v) vec16)"
  "column_step (p, t, v) (ColVarint vec17) = ColVarint (cells_step as_varint (p, t, v) vec17)"
  by (rule step_as, simp, simp)+

lemma column_step_key: "column_step w (ColPrimaryKey off) = ColPrimaryKey off"
  by (cases w) (simp add: column_step_def column_write_def split: option.splits)

text \<open>Two writes are independent when they are to different rows or carry different timestamps.\<close>

fun independent :: "primary_id \<times> timestamp \<times> cql_value option \<Rightarrow> primary_id \<times> timestamp \<times> cql_value option \<Rightarrow> bool" where
  "independent (p, s, _) (q, t, _) \<longleftrightarrow>
     primary_idx p \<noteq> primary_idx q \<or> (timestamp_wf s \<and> timestamp_wf t \<and> s \<noteq> t)"

lemma cells_step_commute:
  "independent w x \<Longrightarrow> cells_step proj w (cells_step proj x vec) = cells_step proj x (cells_step proj w vec)"
  by (cases w; cases x)
    (auto simp: cells_step_def cell_put_commute split: option.splits)

lemmas column_step_all =
  column_step_simps [of "fst w" "fst (snd w)" "snd (snd w)" for w, unfolded prod.collapse] column_step_key

lemma column_step_commute:
  assumes "independent w x"
  shows "column_step w (column_step x col) = column_step x (column_step w col)"
  by (cases col) (simp_all only: column_step_all cells_step_commute [OF assms])

text \<open>
  The contract of a last-write-wins store: writes that are independent commute. A client may
  then reorder a log of pairwise independent writes at will.
\<close>

locale lww_store =
  fixes put :: "'w \<Rightarrow> 's \<Rightarrow> 's"
    and indep :: "'w \<Rightarrow> 'w \<Rightarrow> bool"
  assumes put_commute: "indep w x \<Longrightarrow> put w (put x s) = put x (put w s)"
begin

lemma replay_perm:
  assumes "mset ws = mset xs" and "\<And>w x. w \<in> set ws \<Longrightarrow> x \<in> set ws \<Longrightarrow> w = x \<or> indep w x"
  shows "fold put ws s = fold put xs s"
proof -
  have "fold put ws = fold put xs"
    using assms put_commute by (intro fold_multiset_equiv) (fastforce simp: fun_eq_iff)+
  then show ?thesis by simp
qed

end

interpretation column_log: lww_store column_step independent
  by unfold_locales (rule column_step_commute)

section \<open>The invariant of a column\<close>

text \<open>A value a key can hold: well formed, of a scalar type, below 4 GiB.\<close>

definition storable :: "cql_value \<Rightarrow> bool" where
  "storable v \<longleftrightarrow> cql_wf v \<and> is_ok (encode_value v)"

definition cell_ok :: "cql_value timestamped \<Rightarrow> bool" where
  "cell_ok c \<longleftrightarrow> timestamped_wf c \<and> (\<forall>v. timestamped_value c = Some v \<longrightarrow> storable v)"

definition col_inv :: "nat \<Rightarrow> column \<Rightarrow> bool" where
  "col_inv n col \<longleftrightarrow>
     (col_type col \<noteq> None \<longrightarrow> length (col_cells col) = n \<and> list_all cell_ok (col_cells col))"

lemma get_as_cells:
  "list_all cell_ok (map (ts_map wrap) vec) \<Longrightarrow>
     get_as wrap vec p = Option.bind (vec_get (map (ts_map wrap) vec) (primary_idx p)) timestamped_value"
  by (auto simp: get_as_def cv_get_def vec_get_def cell_ok_def list_all_length)

lemma column_get_cells:
  assumes "col_inv n col" and "col_type col \<noteq> None"
  shows "column_get p keys col = Ok (Option.bind (vec_get (col_cells col) (primary_idx p)) timestamped_value)"
  using assms by (cases col) (simp_all add: col_inv_def get_as_cells)

lemma col_type_resize [simp]: "col_type (column_resize_with n col) = col_type col"
  by (cases col) simp_all

lemma col_cells_resize:
  "col_type col \<noteq> None \<Longrightarrow>
     col_cells (column_resize_with n col) = vec_resize n (timestamped_new Timestamp_MIN None) (col_cells col)"
  by (cases col) (simp_all add: resize_cells_def vec_resize_def take_map)

lemma cell_ok_tombstone [simp]: "cell_ok (timestamped_new t None)"
  by (simp add: cell_ok_def)

lemma cell_ok_new: "(\<And>x. v = Some x \<Longrightarrow> storable x) \<Longrightarrow> cell_ok (timestamped_new t v)"
  by (simp add: cell_ok_def)

lemma col_inv_resize: "col_inv n col \<Longrightarrow> col_inv m (column_resize_with m col)"
  by (auto simp: col_inv_def col_cells_resize list_all_iff vec_resize_def dest: in_set_takeD)

lemma col_inv_new: "column_new nt = Ok col \<Longrightarrow> col_inv 0 col \<and> col_type col = Some nt"
  by (cases nt) (auto simp: col_inv_def)

lemma col_inv_write:
  assumes "col_inv n col" and "column_write p t v col = Ok c" and "\<And>x. v = Some x \<Longrightarrow> storable x"
  shows "col_inv n c"
proof -
  note cells = column_write_cells [OF assms(2)]
  have "cell_ok (timestamped_new t v)"
    using assms(3) by (rule cell_ok_new)
  then show ?thesis
    using assms(1) by (auto simp: col_inv_def cells cell_put_def list_all_iff dest!: set_update_subset_insert [THEN subsetD])
qed

lemma col_type_step [simp]: "col_type (column_step w col) = col_type col"
  by (auto simp: column_step_def split: sum.splits prod.splits dest: column_write_cells(2))

section \<open>Properties\<close>

text \<open>
  A column is a last-write-wins register per row. An accepted write is visible exactly
  when its timestamp is greater than that of the cell; a stale or equal one leaves every
  read as it was, and no write changes another row. A write is accepted exactly when the
  value has the type of the column and the row exists; the others are refused.
\<close>

theorem column_last_write_wins:
  assumes "col_inv n col" and "timestamp_wf t" and "\<And>x. v = Some x \<Longrightarrow> storable x"
  shows "case column_write p t v col of
      Inl e \<Rightarrow> \<not> (col_accepts col v \<and> primary_idx p < length (col_cells col))
    | Inr c \<Rightarrow> col_accepts col v \<and> primary_idx p < n \<and> col_inv n c \<and>
        (\<forall>q. column_get q keys c =
           (if primary_idx q = primary_idx p \<and> timestamp_of (col_cells col ! primary_idx p) < t
            then Ok v else column_get q keys col))"
proof (cases "column_write p t v col")
  case (Inl e)
  then show ?thesis
    using column_write_ok_iff [of p t v col] by auto
next
  case (Inr c)
  then have acc: "col_accepts col v" and idx: "primary_idx p < length (col_cells col)"
    using column_write_ok_iff [of p t v col] by auto
  then have ty: "col_type col \<noteq> None" by (simp add: col_accepts_def)
  have len: "length (col_cells col) = n" using assms(1) ty by (simp add: col_inv_def)
  note cells = column_write_cells [OF Inr]
  have inv: "col_inv n c" using assms(1) Inr assms(3) by (rule col_inv_write)
  have "column_get q keys c = (if primary_idx q = primary_idx p \<and> timestamp_of (col_cells col ! primary_idx p) < t
      then Ok v else column_get q keys col)" for q
    using column_get_cells [OF inv, of q keys] column_get_cells [OF assms(1) ty, of q keys] ty idx assms(2)
    by (auto simp: cells vec_get_def nth_cell_put)
  then show ?thesis
    using Inr acc idx len inv by simp
qed

text \<open>
  Convergence of a column. Replicas that apply the same writes in any two orders end in
  the same column, provided writes to one row carry different timestamps (or are the same
  write); refused writes are part of the log and do no harm.
\<close>

theorem column_convergence:
  assumes "mset ws = mset xs"
    and "\<And>w x. w \<in> set ws \<Longrightarrow> x \<in> set ws \<Longrightarrow> w = x \<or> independent w x"
  shows "fold column_step ws col = fold column_step xs col"
  using assms by (rule column_log.replay_perm)

section \<open>Witnesses\<close>

definition example_row :: "nat \<Rightarrow> primary_id" where
  "example_row i = PrimaryId (word_of_nat i)"

definition example_column :: column where
  "example_column = column_resize_with 2 (ColInt [])"

lemma example_column_inv: "col_inv 2 example_column"
  unfolding example_column_def by (rule col_inv_resize [of 0]) (simp add: col_inv_def)

lemma column_last_write_wins_witness:
  "column_get (example_row 1) [] (ColInt [timestamped_new Timestamp_MIN None, timestamped_new (Timestamp 5) (Some 42)])
     = Ok (Some (CqlInt 42))"
proof -
  have wf: "timestamp_wf (Timestamp 5)"
    by code_simp
  have st: "storable (CqlInt 42)"
    by (simp add: storable_def)
  have w: "column_write (example_row 1) (Timestamp 5) (Some (CqlInt 42)) example_column =
      Ok (ColInt [timestamped_new Timestamp_MIN None, timestamped_new (Timestamp 5) (Some 42)])"
    by code_simp
  have old: "timestamp_of (col_cells example_column ! primary_idx (example_row 1)) < Timestamp 5"
    by code_simp
  show ?thesis
    using column_last_write_wins [OF example_column_inv wf, of "Some (CqlInt 42)" "example_row 1" "[]"] st old w
    by simp
qed

lemma column_convergence_witness:
  "fold column_step [(example_row 0, Timestamp 5, Some (CqlInt 1)), (example_row 0, Timestamp 7, None)] example_column
   = fold column_step [(example_row 0, Timestamp 7, None), (example_row 0, Timestamp 5, Some (CqlInt 1))] example_column"
proof (rule column_convergence)
  have "timestamp_wf (Timestamp 5)" "timestamp_wf (Timestamp 7)"
    by code_simp+
  then show "w = x \<or> independent w x"
    if "w \<in> set [(example_row 0, Timestamp 5, Some (CqlInt 1)), (example_row 0, Timestamp 7, None)]"
      "x \<in> set [(example_row 0, Timestamp 5, Some (CqlInt 1)), (example_row 0, Timestamp 7, None)]" for w x
    using that by auto
qed simp

end
