(* ===== verification/Index_Types.thy ===== *)
theory Index_Types
  imports Cql_Values
begin

text \<open>
  The types that name and describe an index (\<open>crates/vector-store/src/index_key.rs\<close> and the
  index section of \<open>crates/vector-store/src/lib.rs\<close>): the key of an index, its options by kind,
  its version and its metadata. The names of keyspaces, tables, indexes and columns are
  strings. The time in a UUID is read by the \<open>uuid\<close> crate: the function that reads it is an
  argument of what depends on it.
\<close>

type_synonym keyspace_name = string
type_synonym index_name = string
type_synonym table_name = string
type_synonym column_name = string
type_synonym index_key = string

section \<open>IndexKey\<close>

definition index_key_new :: "keyspace_name \<Rightarrow> index_name \<Rightarrow> index_key" where
  "index_key_new keyspace index = keyspace @ ''.'' @ index"

definition split_once :: "char \<Rightarrow> string \<Rightarrow> (string \<times> string) option" where
  "split_once c s = (if c \<in> set s then Some (takeWhile ((\<noteq>) c) s, tl (dropWhile ((\<noteq>) c) s)) else None)"

definition index_key_keyspace :: "index_key \<Rightarrow> keyspace_name result" where
  "index_key_keyspace key =
     and_then (ok_or (split_once CHR ''.'' key) (Panic ''unwrap on None'')) (\<lambda>(keyspace, _). Ok keyspace)"

definition index_key_index :: "index_key \<Rightarrow> index_name result" where
  "index_key_index key =
     and_then (ok_or (split_once CHR ''.'' key) (Panic ''unwrap on None'')) (\<lambda>(_, index). Ok index)"

section \<open>Options\<close>

datatype space_type = Euclidean | Cosine | DotProduct | Hamming

datatype quantization = QF32 | QF16 | QBF16 | QI8 | QB1

datatype analyzer =
    Standard | English | German | French | Spanish | Italian | Portuguese | Russian | Simple | Whitespace

record index_options_vs =
  vs_dimensions :: nat
  vs_connectivity :: nat
  vs_expansion_add :: nat
  vs_expansion_search :: nat
  vs_space_type :: space_type
  vs_quantization :: quantization

record index_options_fts =
  fts_analyzer :: analyzer
  fts_positions :: bool

datatype index_kind = Vs index_options_vs | Fts index_options_fts | Pattern

definition as_vs :: "index_kind \<Rightarrow> index_options_vs option" where
  "as_vs kind = (case kind of Vs vs \<Rightarrow> Some vs | _ \<Rightarrow> None)"

definition as_fts :: "index_kind \<Rightarrow> index_options_fts option" where
  "as_fts kind = (case kind of Fts fts \<Rightarrow> Some fts | _ \<Rightarrow> None)"

definition as_pattern :: "index_kind \<Rightarrow> unit option" where
  "as_pattern kind = (case kind of Pattern \<Rightarrow> Some () | _ \<Rightarrow> None)"

section \<open>Versions\<close>

datatype index_version = IndexVersion (version_uuid: "u8 list")

definition uuid_nil :: "u8 list" where
  "uuid_nil = replicate 16 0"

type_synonym gregorian = "u8 list \<Rightarrow> u64 option"

definition gregorian_ticks :: "gregorian \<Rightarrow> index_version \<Rightarrow> u64" where
  "gregorian_ticks greg v = (case greg (version_uuid v) of Some ticks \<Rightarrow> ticks | None \<Rightarrow> 0)"

definition version_cmp :: "gregorian \<Rightarrow> index_version \<Rightarrow> index_version \<Rightarrow> ordering" where
  "version_cmp greg a b = ord_cmp (gregorian_ticks greg a) (gregorian_ticks greg b)"

section \<open>IndexMetadata\<close>

datatype db_index_partitioning = GlobalIndex | LocalIndex "column_name list"

record index_metadata =
  im_keyspace_name :: keyspace_name
  im_index_name :: index_name
  im_table_name :: table_name
  im_primary_key_columns :: "column_name list"
  im_partition_key_count :: nat
  im_target_columns :: "column_name list"
  im_partitioning :: db_index_partitioning
  im_filtering_columns :: "column_name list"
  im_alternator_attribute_types :: "(column_name, native_type) btree"
  im_version :: index_version
  im_kind :: index_kind

definition im_key :: "index_metadata \<Rightarrow> index_key" where
  "im_key m = index_key_new (im_keyspace_name m) (im_index_name m)"

definition discard_version :: "index_metadata \<Rightarrow> index_metadata" where
  "discard_version m = m\<lparr>im_version := IndexVersion uuid_nil\<rparr>"

definition im_nonpk_partition_key_columns :: "index_metadata \<Rightarrow> column_name list option" where
  "im_nonpk_partition_key_columns m =
     (case im_partitioning m of
        GlobalIndex \<Rightarrow> None
      | LocalIndex pk_columns \<Rightarrow> Some (filter (\<lambda>col. col \<notin> set (im_primary_key_columns m)) pk_columns))"

definition im_nonpk_filtering_columns :: "index_metadata \<Rightarrow> column_name list" where
  "im_nonpk_filtering_columns m =
     filter (\<lambda>col. col \<notin> set (im_primary_key_columns m)) (im_filtering_columns m)"

text \<open>\<open>Progress\<close>: a percentage is the bits of its \<open>f64\<close>.\<close>

datatype progress = Done | InProgress u64

text \<open>
  The answer of an index to a request is an \<open>anyhow\<close> error or a value; the routes tell two kinds
  of errors from the others.
\<close>

datatype search_error = VsIndexError string | QueryError string | OtherError string

section \<open>Lemmas\<close>

lemma split_once_append: "c \<notin> set a \<Longrightarrow> split_once c (a @ c # b) = Some (a, b)"
  by (induction a) (auto simp: split_once_def)

lemma discard_version_key [simp]: "im_key (discard_version m) = im_key m"
  by (simp add: im_key_def discard_version_def)

lemma discard_version_idem [simp]: "discard_version (discard_version m) = discard_version m"
  by (simp add: discard_version_def)

section \<open>Properties\<close>

text \<open>
  The key of an index determines the index. Keyspace names have no dot, so the two names can
  be read back from a key, without a panic, whatever characters the index name has, and
  different indexes have different keys.
\<close>

theorem index_key_roundtrip:
  assumes "CHR ''.'' \<notin> set keyspace"
  shows "index_key_keyspace (index_key_new keyspace index) = Ok keyspace \<and>
    index_key_index (index_key_new keyspace index) = Ok index \<and>
    (\<forall>keyspace' index'. CHR ''.'' \<notin> set keyspace' \<longrightarrow>
       index_key_new keyspace index = index_key_new keyspace' index' \<longrightarrow> keyspace = keyspace' \<and> index = index')"
proof -
  have split: "split_once CHR ''.'' (index_key_new k i) = Some (k, i)" if "CHR ''.'' \<notin> set k" for k i
    using split_once_append [OF that] by (simp add: index_key_new_def)
  have inj: "k = k' \<and> i = i'"
    if "index_key_new k i = index_key_new k' i'" "CHR ''.'' \<notin> set k" "CHR ''.'' \<notin> set k'" for k i k' i'
    using split [OF that(2), of i] split [OF that(3), of i'] unfolding that(1) by simp
  show ?thesis
  proof (intro conjI allI impI)
    show "index_key_keyspace (index_key_new keyspace index) = Ok keyspace"
      "index_key_index (index_key_new keyspace index) = Ok index"
      using split [OF assms, of index] by (simp_all add: index_key_keyspace_def index_key_index_def)
    fix keyspace' index'
    assume "CHR ''.'' \<notin> set keyspace'" and "index_key_new keyspace index = index_key_new keyspace' index'"
    from inj [OF this(2) assms this(1)] show "keyspace = keyspace'" "index = index'" by simp_all
  qed
qed

theorem index_key_roundtrip_witness:
  "index_key_keyspace (index_key_new ''ks'' ''my.idx'') = Ok ''ks'' \<and>
    index_key_index (index_key_new ''ks'' ''my.idx'') = Ok ''my.idx''"
  using index_key_roundtrip [of "''ks''" "''my.idx''"] by simp

end
