(* ===== verification/Table_State.thy ===== *)
theory Table_State
  imports Vec_Chunks Columns Index_Types
begin

text \<open>
  Model of the first half of \<open>crates/vector-store/src/table/mod.rs\<close>: the state of a table (row
  identifiers, columns, indexes), of an index (global, or local with its partitions), and the
  operations on them that \<open>upsert\<close>, \<open>delete\<close> and the searches are composed of. An operation
  on \<open>&mut self\<close> that can fail returns its result together with the state it leaves, because
  the source keeps what was changed before an early return. \<open>debug_assert!(false)\<close> is the
  release build's no-op; that it is never reached is proved later.
\<close>

section \<open>IndexData\<close>

record local_index =
  li_partition_key_columns :: "column_name list"
  li_nonpk_partition_key_columns :: "column_name list"
  li_map :: "(partition_key, partition_id) btree"
  li_free_ids :: "partition_id list"
  li_keys :: "partition_key option list"
  li_ids :: "partition_id option list"
  li_sizes :: "nat list"

datatype index_data = Global | Local local_index

datatype processing_partition =
    Existing partition_id
  | New partition_key
  | AddToExisting partition_id
  | MoveToNew partition_id partition_key
  | MoveToExisting partition_id partition_id
  | MissingKey partition_id
  | Missing

fun is_changing_partitions :: "processing_partition \<Rightarrow> bool" where
  "is_changing_partitions (MoveToNew _ _) = True"
| "is_changing_partitions (MoveToExisting _ _) = True"
| "is_changing_partitions (MissingKey _) = True"
| "is_changing_partitions (New _) = True"
| "is_changing_partitions _ = False"

definition take_primary_id :: "primary_id list \<Rightarrow> (primary_id \<times> primary_id list) result" where
  "take_primary_id free =
     (case free of [] \<Rightarrow> Err (Bail ''Primary ids should be reserved'') | p # ps \<Rightarrow> Ok (p, ps))"

definition take_partition_id :: "partition_id list \<Rightarrow> (partition_id \<times> partition_id list) result" where
  "take_partition_id free =
     (case free of [] \<Rightarrow> Err (Bail ''Partition ids should be reserved'') | p # ps \<Rightarrow> Ok (p, ps))"

definition return_id :: "partition_id \<Rightarrow> partition_id list \<Rightarrow> partition_id list" where
  "return_id p free = free @ [p]"

text \<open>The closure that lowers the size, and the whole of \<open>remove_row_from_partition\<close>.\<close>

definition shrink_partition :: "partition_id \<Rightarrow> nat list \<Rightarrow> bool \<times> nat list" where
  "shrink_partition partition_id sizes =
     (case vec_get sizes (partition_idx partition_id) of
        None \<Rightarrow> (False, sizes)
      | Some size1 \<Rightarrow>
          let size2 = (if size1 > 0 then size1 - 1 else size1)
          in (size2 = 0, sizes[partition_idx partition_id := size2]))"

definition remove_row_local :: "primary_id \<Rightarrow> partition_id \<Rightarrow> local_index \<Rightarrow> bool \<times> local_index" where
  "remove_row_local primary_id partition_id li =
     (let li1 = li\<lparr>li_ids := (li_ids li)[primary_idx primary_id := None]\<rparr>;
          (is_empty, sizes) = shrink_partition partition_id (li_sizes li1);
          li2 = li1\<lparr>li_sizes := sizes\<rparr>
      in (is_empty,
          if is_empty
          then case vec_get (li_keys li2) (partition_idx partition_id) of
                 Some (Some key) \<Rightarrow>
                   li2\<lparr>li_keys := (li_keys li2)[partition_idx partition_id := None],
                       li_map := bt_remove key (li_map li2),
                       li_free_ids := return_id partition_id (li_free_ids li2)\<rparr>
               | _ \<Rightarrow> li2
          else li2))"

fun remove_row_from_partition :: "primary_id \<Rightarrow> partition_id \<Rightarrow> index_data \<Rightarrow> bool \<times> index_data" where
  "remove_row_from_partition primary_id partition_id Global = (False, Global)"
| "remove_row_from_partition primary_id partition_id (Local li) =
     (case remove_row_local primary_id partition_id li of (is_empty, li') \<Rightarrow> (is_empty, Local li'))"

definition insert_row_local :: "primary_id \<Rightarrow> partition_id \<Rightarrow> local_index \<Rightarrow> local_index" where
  "insert_row_local primary_id partition_id li =
     (let li1 = li\<lparr>li_ids := (li_ids li)[primary_idx primary_id := Some partition_id]\<rparr>
      in case vec_get (li_sizes li1) (partition_idx partition_id) of
           None \<Rightarrow> li1
         | Some size1 \<Rightarrow> li1\<lparr>li_sizes := (li_sizes li1)[partition_idx partition_id := size1 + 1]\<rparr>)"

fun insert_row_into_partition :: "primary_id \<Rightarrow> partition_id \<Rightarrow> index_data \<Rightarrow> index_data" where
  "insert_row_into_partition primary_id partition_id Global = Global"
| "insert_row_into_partition primary_id partition_id (Local li) =
     Local (insert_row_local primary_id partition_id li)"

text \<open>
  \<open>partition_key\<close>: the columns are read and encoded one after the other, which stops at the
  first column without a value (\<open>None\<close>) and after 255 columns (\<open>InvariantKey::from_iter\<close>).
\<close>

definition column_value ::
  "(column_name, column) btree \<Rightarrow> primary_key option list \<Rightarrow> primary_id \<Rightarrow> column_name \<Rightarrow> cql_value option result" where
  "column_value columns primary_keys primary_id name =
     (case bt_get columns name of None \<Rightarrow> Ok None | Some column \<Rightarrow> column_get primary_id primary_keys column)"

fun collect_key ::
  "(column_name \<Rightarrow> cql_value option result) \<Rightarrow> column_name list \<Rightarrow> u8 \<Rightarrow> u8 list \<Rightarrow> partition_key option result" where
  "collect_key get [] cnt buf = Ok (Some (cnt # buf))"
| "collect_key get (name # names) cnt buf =
     and_then (get name) (\<lambda>v.
       case v of
         None \<Rightarrow> Ok None
       | Some val \<Rightarrow>
           and_then (encode_value val) (\<lambda>bytes. collect_key get names (cnt + 1) (buf @ bytes)))"

definition partition_key ::
  "primary_id \<Rightarrow> column_name list \<Rightarrow> primary_key option list \<Rightarrow> (column_name, column) btree \<Rightarrow> partition_key option result" where
  "partition_key primary_id partition_key_columns primary_keys columns =
     collect_key (column_value columns primary_keys primary_id) (take MAX_COLUMNS partition_key_columns) 0 []"

text \<open>
  The end of \<open>get_partition_key\<close>: where the row is, against where its partition key says it
  belongs.
\<close>

definition classify ::
  "(partition_key, partition_id) btree \<Rightarrow> partition_id option \<Rightarrow> partition_key option \<Rightarrow> processing_partition" where
  "classify mp partition_id_ids key =
     (case key of
        None \<Rightarrow>
          (case partition_id_ids of Some partition_id \<Rightarrow> MissingKey partition_id | None \<Rightarrow> Missing)
      | Some key \<Rightarrow>
          (case bt_get mp key of
             None \<Rightarrow>
               (case partition_id_ids of
                  Some partition_id \<Rightarrow> MoveToNew partition_id key
                | None \<Rightarrow> New key)
           | Some partition_id_map \<Rightarrow>
               (case partition_id_ids of
                  None \<Rightarrow> AddToExisting partition_id_map
                | Some partition_id_ids \<Rightarrow>
                    if partition_id_map = partition_id_ids then Existing partition_id_ids
                    else MoveToExisting partition_id_ids partition_id_map)))"

definition get_partition_key_local ::
  "primary_id \<Rightarrow> primary_key option list \<Rightarrow> (column_name, column) btree \<Rightarrow> local_index \<Rightarrow> processing_partition result" where
  "get_partition_key_local primary_id primary_keys columns li =
     and_then (ok_or (vec_get (li_ids li) (primary_idx primary_id))
                (Bail ''PrimaryId index out of partition ids bounds'')) (\<lambda>partition_id_ids.
     case (li_nonpk_partition_key_columns li, partition_id_ids) of
       ([], Some partition_id) \<Rightarrow> Ok (Existing partition_id)
     | _ \<Rightarrow>
         and_then (partition_key primary_id (li_partition_key_columns li) primary_keys columns) (\<lambda>key.
           Ok (classify (li_map li) partition_id_ids key)))"

fun get_partition_key ::
  "index_id \<Rightarrow> primary_id \<Rightarrow> primary_key option list \<Rightarrow> (column_name, column) btree \<Rightarrow> index_data \<Rightarrow>
   processing_partition result" where
  "get_partition_key index_id primary_id primary_keys columns Global =
     Ok (Existing (partition_global index_id))"
| "get_partition_key index_id primary_id primary_keys columns (Local li) =
     get_partition_key_local primary_id primary_keys columns li"

definition create_partition_local :: "partition_key \<Rightarrow> local_index \<Rightarrow> partition_id result \<times> local_index" where
  "create_partition_local key li =
     (let (r, li1) =
        (case bt_get (li_map li) key of
           Some partition_id \<Rightarrow> (Ok partition_id, li)
         | None \<Rightarrow>
             (case take_partition_id (li_free_ids li) of
                Inl e \<Rightarrow> (Inl e, li)
              | Inr (partition_id, free) \<Rightarrow>
                  let li0 = li\<lparr>li_free_ids := free, li_map := bt_insert key partition_id (li_map li)\<rparr>
                  in if partition_idx partition_id < length (li_keys li0)
                     then (Ok partition_id,
                           li0\<lparr>li_keys := (li_keys li0)[partition_idx partition_id := Some key]\<rparr>)
                     else (Err (Bail ''PartitionId index out of partition keys bounds''), li0)))
      in case r of
           Inl e \<Rightarrow> (Inl e, li1)
         | Inr partition_id \<Rightarrow>
             (Ok partition_id, li1\<lparr>li_sizes := (li_sizes li1)[partition_idx partition_id := 0]\<rparr>))"

fun create_partition :: "partition_key \<Rightarrow> index_data \<Rightarrow> partition_id result \<times> index_data" where
  "create_partition key Global = (Err (Bail ''Global index does not support partition keys''), Global)"
| "create_partition key (Local li) =
     (case create_partition_local key li of (r, li') \<Rightarrow> (r, Local li'))"

section \<open>Index\<close>

record index =
  ix_index_id :: index_id
  ix_data :: index_data
  ix_target_columns :: "column_name list"
  ix_filtering_columns :: "column_name list"
  ix_values_timestamps :: timestamp_chunks

definition INDEX_INCREMENT_SIZE :: nat where
  "INDEX_INCREMENT_SIZE = 256"

definition index_new_global :: "index_id \<Rightarrow> column_name list \<Rightarrow> column_name list \<Rightarrow> index" where
  "index_new_global index_id target_columns filtering_columns =
     \<lparr>ix_index_id = index_id, ix_data = Global, ix_target_columns = target_columns,
      ix_filtering_columns = filtering_columns,
      ix_values_timestamps = cvc_new (ct_new (length target_columns))\<rparr>"

definition index_new_local ::
  "index_id \<Rightarrow> column_name list \<Rightarrow> column_name list \<Rightarrow> column_name list \<Rightarrow> column_name list \<Rightarrow> index" where
  "index_new_local index_id primary_key_columns partition_key_columns target_columns filtering_columns =
     \<lparr>ix_index_id = index_id,
      ix_data = Local
        \<lparr>li_partition_key_columns = partition_key_columns,
         li_nonpk_partition_key_columns =
           filter (\<lambda>col. col \<notin> set primary_key_columns) partition_key_columns,
         li_map = [], li_free_ids = [], li_keys = [], li_ids = [], li_sizes = []\<rparr>,
      ix_target_columns = target_columns,
      ix_filtering_columns = filtering_columns,
      ix_values_timestamps = cvc_new (ct_new (length target_columns))\<rparr>"

fun resize_ids :: "nat \<Rightarrow> index_data \<Rightarrow> index_data" where
  "resize_ids n Global = Global"
| "resize_ids n (Local li) = Local (li\<lparr>li_ids := vec_resize n None (li_ids li)\<rparr>)"

definition resize_primary_ids_with :: "nat \<Rightarrow> index \<Rightarrow> unit result \<times> index" where
  "resize_primary_ids_with new_size ix =
     (let ix1 = ix\<lparr>ix_data := resize_ids new_size (ix_data ix)\<rparr>
      in case cvc_resize new_size (ix_values_timestamps ix1) of
           Inl e \<Rightarrow> (Inl e, ix1)
         | Inr vt \<Rightarrow> (Ok (), ix1\<lparr>ix_values_timestamps := vt\<rparr>))"

text \<open>The \<open>try_for_each\<close> that fills the pool; a failure keeps the identifiers pushed before it.\<close>

fun push_partition_ids :: "index_id \<Rightarrow> nat list \<Rightarrow> partition_id list \<Rightarrow> unit result \<times> partition_id list" where
  "push_partition_ids index_id [] free = (Ok (), free)"
| "push_partition_ids index_id (i # idxs) free =
     (case partition_try_new i index_id of
        Inl e \<Rightarrow> (Inl e, free)
      | Inr q \<Rightarrow> push_partition_ids index_id idxs (free @ [q]))"

definition resize_partition_ids_local :: "index_id \<Rightarrow> local_index \<Rightarrow> unit result \<times> local_index" where
  "resize_partition_ids_local index_id li =
     (if li_free_ids li \<noteq> [] then (Ok (), li)
      else let start = bt_len (li_map li);
               end1 = start + INDEX_INCREMENT_SIZE
           in case push_partition_ids index_id [start..<end1] (li_free_ids li) of
                (Inl e, free) \<Rightarrow> (Inl e, li\<lparr>li_free_ids := free\<rparr>)
              | (Inr _, free) \<Rightarrow>
                  (Ok (), li\<lparr>li_free_ids := free,
                             li_keys := vec_resize end1 None (li_keys li),
                             li_sizes := vec_resize end1 0 (li_sizes li)\<rparr>))"

definition resize_partition_ids :: "index \<Rightarrow> unit result \<times> index" where
  "resize_partition_ids ix =
     (case ix_data ix of
        Global \<Rightarrow> (Ok (), ix)
      | Local li \<Rightarrow>
          (case resize_partition_ids_local (ix_index_id ix) li of
             (r, li') \<Rightarrow> (r, ix\<lparr>ix_data := Local li'\<rparr>)))"

definition nonpk_partition_key_columns :: "index \<Rightarrow> column_name list" where
  "nonpk_partition_key_columns ix =
     (case ix_data ix of Global \<Rightarrow> [] | Local li \<Rightarrow> li_nonpk_partition_key_columns li)"

section \<open>Table\<close>

record table =
  t_partition_primary_key_count :: nat
  t_needs_ck_normalization :: bool
  t_primary_ids :: "(primary_key, primary_id) btree"
  t_free_primary_ids :: "primary_id list"
  t_primary_keys :: "primary_key option list"
  t_columns :: "(column_name, column) btree"
  t_index_id_generator :: index_id_generator
  t_index_ids :: "(index_key, index_id) btree"
  t_indexes :: "(index_id, index) btree"

definition TABLE_INCREMENT_SIZE :: nat where
  "TABLE_INCREMENT_SIZE = 1024"

text \<open>\<open>iter_mut\<close> with \<open>try_for_each\<close> over the values of a map.\<close>

fun bt_try_for_each :: "('v \<Rightarrow> unit result \<times> 'v) \<Rightarrow> ('k, 'v) btree \<Rightarrow> unit result \<times> ('k, 'v) btree" where
  "bt_try_for_each f [] = (Ok (), [])"
| "bt_try_for_each f ((k, v) # m) =
     (case f v of
        (Inl e, v') \<Rightarrow> (Inl e, (k, v') # m)
      | (Inr _, v') \<Rightarrow> (case bt_try_for_each f m of (r, m') \<Rightarrow> (r, (k, v') # m')))"

text \<open>\<open>map(PrimaryId::try_new).take_while(is_ok)\<close>.\<close>

fun new_primary_ids :: "nat list \<Rightarrow> primary_id list" where
  "new_primary_ids [] = []"
| "new_primary_ids (i # idxs) =
     (case primary_try_new i epoch_new of Inl _ \<Rightarrow> [] | Inr p \<Rightarrow> p # new_primary_ids idxs)"

definition reserve_primary_ids :: "table \<Rightarrow> unit result \<times> table" where
  "reserve_primary_ids t =
     (if t_free_primary_ids t \<noteq> [] then (Ok (), t)
      else let start = bt_len (t_primary_ids t);
               end1 = start + TABLE_INCREMENT_SIZE;
               t1 = t\<lparr>t_free_primary_ids := t_free_primary_ids t @ new_primary_ids [start..<end1]\<rparr>
           in if t_free_primary_ids t1 = []
              then (Err (Bail ''Failed to reserve vector ids: no more ids available''), t1)
              else let new_size = start + length (t_free_primary_ids t1);
                       t2 = t1\<lparr>t_primary_keys := vec_resize new_size None (t_primary_keys t1),
                               t_columns := bt_map (column_resize_with new_size) (t_columns t1)\<rparr>
                   in case bt_try_for_each (resize_primary_ids_with new_size) (t_indexes t2) of
                        (r, ixs) \<Rightarrow> (r, t2\<lparr>t_indexes := ixs\<rparr>))"

definition reserve_partition_ids :: "table \<Rightarrow> unit result \<times> table" where
  "reserve_partition_ids t =
     (case bt_try_for_each resize_partition_ids (t_indexes t) of
        (r, ixs) \<Rightarrow> (r, t\<lparr>t_indexes := ixs\<rparr>))"

text \<open>
  \<open>Table::new\<close>. The columns stored are those of the partition key and of the filter that the
  primary key does not hold; their types come from the schema, \<open>table_columns\<close>.
\<close>

definition value_columns ::
  "(column_name \<Rightarrow> native_type option) \<Rightarrow> (column_name, column) btree \<Rightarrow> column_name list \<Rightarrow>
   (column_name \<times> column) list result" where
  "value_columns table_columns columns names =
     collect_result
       (\<lambda>name. and_then (ok_or (table_columns name) (Bail ''Column not found in table columns''))
                 (\<lambda>nt. and_then (column_new nt) (\<lambda>column. Ok (name, column))))
       (filter (\<lambda>name. \<not> bt_contains columns name) names)"

definition table_new ::
  "index_key \<Rightarrow> column_name list \<Rightarrow> nat \<Rightarrow> column_name list option \<Rightarrow> column_name list \<Rightarrow> column_name list \<Rightarrow>
   (column_name \<Rightarrow> native_type option) \<Rightarrow> table result" where
  "table_new index_key primary_key_columns partition_primary_key_count partition_key_columns
     target_columns filtering_columns table_columns =
     (if partition_primary_key_count > length primary_key_columns
      then Err (Bail ''Partition key count cannot be greater than primary key columns count'')
      else case generator_next (partition_key_columns = None) generator_new of
        (Inl e, _) \<Rightarrow> Inl e
      | (Inr index_id, generator) \<Rightarrow>
          let index = (case partition_key_columns of
                  Some cols \<Rightarrow> index_new_local index_id primary_key_columns cols target_columns filtering_columns
                | None \<Rightarrow> index_new_global index_id target_columns filtering_columns);
              columns = bt_extend (map (\<lambda>(idx, name). (name, ColPrimaryKey idx)) (enumerate 0 primary_key_columns)) []
          in and_then (value_columns table_columns columns
                         ((case partition_key_columns of Some cols \<Rightarrow> cols | None \<Rightarrow> []) @ filtering_columns))
             (\<lambda>column_with_values.
               let t0 = \<lparr>t_partition_primary_key_count = partition_primary_key_count,
                         t_needs_ck_normalization =
                           list_ex (\<lambda>col. table_columns col = Some NT_Decimal)
                             (drop partition_primary_key_count primary_key_columns),
                         t_primary_ids = [], t_free_primary_ids = [], t_primary_keys = [],
                         t_columns = bt_extend column_with_values columns,
                         t_index_id_generator = generator,
                         t_index_ids = bt_insert index_key index_id [],
                         t_indexes = bt_insert index_id index []\<rparr>
               in case reserve_primary_ids t0 of
                    (Inl e, _) \<Rightarrow> Inl e
                  | (Inr _, t1) \<Rightarrow>
                      (case reserve_partition_ids t1 of (Inl e, _) \<Rightarrow> Inl e | (Inr _, t2) \<Rightarrow> Ok t2)))"

text \<open>
  \<open>normalize_primary_key\<close>. The closure reads column by column with \<open>get\<close>; both branches of
  the final comparison return the same bytes, the second saves an allocation.
\<close>

definition normalize_column :: "driver \<Rightarrow> nat \<Rightarrow> primary_key \<Rightarrow> nat \<Rightarrow> cql_value result" where
  "normalize_column d cnt key idx =
     and_then (ik_get key idx) (\<lambda>v.
     and_then (ok_or v (Panic ''primary key column exists'')) (\<lambda>val.
       if idx \<ge> cnt then normalize d val else Ok val))"

fun normalize_loop :: "driver \<Rightarrow> nat \<Rightarrow> primary_key \<Rightarrow> nat list \<Rightarrow> u8 \<Rightarrow> u8 list \<Rightarrow> primary_key result" where
  "normalize_loop d n key [] cnt buf = Ok (cnt # buf)"
| "normalize_loop d n key (idx # idxs) cnt buf =
     and_then (normalize_column d n key idx) (\<lambda>val.
     and_then (encode_value val) (\<lambda>bytes. normalize_loop d n key idxs (cnt + 1) (buf @ bytes)))"

definition normalize_primary_key :: "driver \<Rightarrow> table \<Rightarrow> primary_key \<Rightarrow> primary_key result" where
  "normalize_primary_key d t key =
     (if \<not> t_needs_ck_normalization t then Ok key
      else and_then (ik_len key) (\<lambda>len.
           and_then (normalize_loop d (t_partition_primary_key_count t) key (take MAX_COLUMNS [0..<len]) 0 [])
             (\<lambda>normalized. if normalized = key then Ok key else Ok normalized)))"

definition is_valid_primary_id :: "table \<Rightarrow> partition_id \<Rightarrow> primary_id \<Rightarrow> bool" where
  "is_valid_primary_id t partition_id primary_id =
     (case bt_get (t_indexes t) (partition_index_id partition_id) of
        None \<Rightarrow> False
      | Some ix \<Rightarrow>
          (case cvc_get (ix_values_timestamps ix) primary_id of
             None \<Rightarrow> False
           | Some v \<Rightarrow> sh_epoch v = primary_epoch primary_id))"

definition add_primary_key :: "driver \<Rightarrow> primary_key \<Rightarrow> table \<Rightarrow> primary_id result \<times> table" where
  "add_primary_key d primary_key t =
     (case normalize_primary_key d t primary_key of
        Inl e \<Rightarrow> (Inl e, t)
      | Inr normalized_key \<Rightarrow>
          (case bt_get (t_primary_ids t) normalized_key of
             Some primary_id \<Rightarrow> (Ok primary_id, t)
           | None \<Rightarrow>
               (case take_primary_id (t_free_primary_ids t) of
                  Inl e \<Rightarrow> (Inl e, t)
                | Inr (primary_id, free) \<Rightarrow>
                    let t1 = t\<lparr>t_free_primary_ids := free,
                               t_primary_ids := bt_insert normalized_key primary_id (t_primary_ids t)\<rparr>
                    in if primary_idx primary_id < length (t_primary_keys t1)
                       then (Ok primary_id,
                             t1\<lparr>t_primary_keys := (t_primary_keys t1)[primary_idx primary_id := Some primary_key]\<rparr>)
                       else (Err (Bail ''PrimaryId index out of primary keys bounds''), t1))))"

end
