(* ===== verification/Table_Modify.thy ===== *)
theory Table_Modify
  imports Table_State
begin

text \<open>
  Model of the write path of \<open>crates/vector-store/src/table/mod.rs\<close>: \<open>compare_timestamps\<close> to
  \<open>update_index\<close> and the two operations of \<open>TableModify\<close>, \<open>upsert\<close> and \<open>delete\<close>, which
  return the operations the vector or document index has to apply.
\<close>

type_synonym vector = "u32 list"

datatype db_indexed_value = DbVector vector | DbDocument rust_string | DbFiltering cql_value

datatype splitting_values = SplitVector vector | SplitDocument rust_string

datatype operation =
    AddVector primary_id partition_id vector bool
  | AddDocument primary_id partition_id rust_string bool
  | RemoveBeforeAddValue primary_id partition_id
  | RemoveValue primary_id partition_id
  | RemovePartition partition_id

section \<open>Timestamps\<close>

record comparison =
  is_cur_tombstone :: bool
  is_new_tombstone :: bool
  is_newer_timestamp :: bool
  is_same_timestamp :: bool

definition compare_step :: "comparison \<Rightarrow> unit timestamped \<Rightarrow> unit timestamped \<Rightarrow> comparison" where
  "compare_step c cur new1 =
     c\<lparr>is_cur_tombstone := is_tombstone cur \<or> is_cur_tombstone c,
       is_new_tombstone := \<not> is_valid new1 \<and> is_new_tombstone c,
       is_newer_timestamp := timestamp_of cur < timestamp_of new1 \<or> is_newer_timestamp c,
       is_same_timestamp := timestamp_of cur = timestamp_of new1 \<and> is_same_timestamp c\<rparr>"

fun compare_loop ::
  "chunk_timestamps_exclusive \<Rightarrow> nat \<Rightarrow> unit timestamped list \<Rightarrow> comparison \<Rightarrow> comparison result" where
  "compare_loop v idx [] c = Ok c"
| "compare_loop v idx (new1 # news) c =
     (case ex_timestamp v idx of
        None \<Rightarrow> Err (Bail ''Failed to compare timestamp: missing timestamped'')
      | Some cur \<Rightarrow> compare_loop v (idx + 1) news (compare_step c cur new1))"

definition compare_timestamps :: "chunk_timestamps_exclusive \<Rightarrow> unit timestamped list \<Rightarrow> comparison result" where
  "compare_timestamps v timestamps =
     compare_loop v 0 timestamps
       \<lparr>is_cur_tombstone = False, is_new_tombstone = True, is_newer_timestamp = False,
        is_same_timestamp = True\<rparr>"

fun update_timestamps_loop ::
  "nat \<Rightarrow> unit timestamped list \<Rightarrow> chunk_timestamps_exclusive \<Rightarrow> unit result \<times> chunk_timestamps_exclusive" where
  "update_timestamps_loop idx [] v = (Ok (), v)"
| "update_timestamps_loop idx (timestamped # timestamps) v =
     (case ex_set_timestamp v idx timestamped of
        None \<Rightarrow> (Err (Bail ''Failed to update timestamp: missing timestamped''), v)
      | Some v' \<Rightarrow> update_timestamps_loop (idx + 1) timestamps v')"

definition update_timestamps ::
  "chunk_timestamps_exclusive \<Rightarrow> unit timestamped list \<Rightarrow> unit result \<times> chunk_timestamps_exclusive" where
  "update_timestamps v timestamps = update_timestamps_loop 0 timestamps v"

section \<open>Columns and values\<close>

fun update_columns ::
  "primary_id \<Rightarrow> column_name list \<Rightarrow> (timestamp \<times> cql_value option) list \<Rightarrow> (column_name, column) btree \<Rightarrow>
   unit result \<times> (column_name, column) btree" where
  "update_columns primary_id (column_name # column_names) ((timestamp, val) # values) columns =
     (case bt_get columns column_name of
        None \<Rightarrow> (Err (Bail ''Column not found in table columns''), columns)
      | Some column \<Rightarrow>
          (case (case val of
                   Some v \<Rightarrow> column_insert primary_id timestamp v column
                 | None \<Rightarrow> column_remove primary_id timestamp column) of
             Inl e \<Rightarrow> (Inl e, columns)
           | Inr column' \<Rightarrow>
               update_columns primary_id column_names values (bt_insert column_name column' columns)))"
| "update_columns primary_id _ _ columns = (Ok (), columns)"

fun split_value :: "db_indexed_value \<Rightarrow> splitting_values result" where
  "split_value (DbVector vector) = Ok (SplitVector vector)"
| "split_value (DbDocument document) = Ok (SplitDocument document)"
| "split_value (DbFiltering _) =
     Err (Bail ''Expected vector or document value for first column, got filtering value'')"

definition split_filtering :: "db_indexed_value timestamped \<Rightarrow> (timestamp \<times> cql_value option) result" where
  "split_filtering val =
     (case fst (into_value val) of
        Some (DbFiltering v) \<Rightarrow> Ok (timestamp_of val, Some v)
      | Some _ \<Rightarrow> Err (Bail ''Expected filtering value for column, got vector or document value'')
      | None \<Rightarrow> Ok (timestamp_of val, None))"

record split_values =
  sv_values :: "splitting_values option"
  sv_timestamps :: "unit timestamped list"
  sv_filtering :: "(timestamp \<times> cql_value option) list"

definition split_values_filtering :: "db_indexed_value timestamped list \<Rightarrow> split_values result" where
  "split_values_filtering row_values =
     (case row_values of
        [] \<Rightarrow> Err (Bail ''Expected vector or document value for first column, got None'')
      | val # rest \<Rightarrow>
          let timestamped = (if is_valid val then new_valid (timestamp_of val) else new_tombstone (timestamp_of val))
          in and_then (case fst (into_value val) of
                         None \<Rightarrow> Ok None
                       | Some v \<Rightarrow> and_then (split_value v) (\<lambda>s. Ok (Some s))) (\<lambda>values.
             and_then (collect_result split_filtering rest) (\<lambda>filtering.
               Ok \<lparr>sv_values = values, sv_timestamps = [timestamped], sv_filtering = filtering\<rparr>)))"

section \<open>UpdateWork\<close>

datatype update_work =
    NoWork
  | MoveInsidePartition partition_id
  | MoveBetweenPartitions partition_id partition_id
  | AddToPartition partition_id
  | RemoveFromPartition partition_id

text \<open>\<open>first_mut().set_tombstone()\<close> on a nonempty box.\<close>

fun first_set_tombstone :: "unit timestamped list \<Rightarrow> unit timestamped list" where
  "first_set_tombstone [] = []"
| "first_set_tombstone (t # ts) = set_tombstone t # ts"

record work_state =
  w_data :: index_data
  w_values :: "splitting_values option"
  w_timestamps :: "unit timestamped list"

fun update_work_new ::
  "processing_partition \<Rightarrow> bool \<Rightarrow> bool \<Rightarrow> work_state \<Rightarrow> update_work option result \<times> work_state" where
  "update_work_new (Existing partition_id) cur_tomb new_tomb w =
     (Ok (Some (if cur_tomb
                then (if new_tomb then NoWork else AddToPartition partition_id)
                else (if new_tomb then RemoveFromPartition partition_id
                      else MoveInsidePartition partition_id))), w)"
| "update_work_new (New key) cur_tomb new_tomb w =
     (if new_tomb then (Ok (Some NoWork), w)
      else case create_partition key (w_data w) of
             (Inl e, data) \<Rightarrow> (Inl e, w\<lparr>w_data := data\<rparr>)
           | (Inr partition_id, data) \<Rightarrow> (Ok (Some (AddToPartition partition_id)), w\<lparr>w_data := data\<rparr>))"
| "update_work_new (AddToExisting partition_id) cur_tomb new_tomb w =
     (Ok (Some (if new_tomb then NoWork else AddToPartition partition_id)), w)"
| "update_work_new (MoveToNew cur_partition_id key) cur_tomb new_tomb w =
     (if new_tomb
      then (Ok (Some (if cur_tomb then NoWork else RemoveFromPartition cur_partition_id)), w)
      else case create_partition key (w_data w) of
             (Inl e, data) \<Rightarrow> (Inl e, w\<lparr>w_data := data\<rparr>)
           | (Inr new_partition_id, data) \<Rightarrow>
               (Ok (Some (if cur_tomb then AddToPartition new_partition_id
                          else MoveBetweenPartitions cur_partition_id new_partition_id)),
                w\<lparr>w_data := data\<rparr>))"
| "update_work_new (MoveToExisting cur new1) cur_tomb new_tomb w =
     (Ok (Some (if cur_tomb
                then (if new_tomb then NoWork else AddToPartition new1)
                else (if new_tomb then RemoveFromPartition cur
                      else MoveBetweenPartitions cur new1))), w)"
| "update_work_new (MissingKey cur_partition_id) cur_tomb new_tomb w =
     (Ok (Some (if cur_tomb then NoWork else RemoveFromPartition cur_partition_id)),
      w\<lparr>w_values := None, w_timestamps := first_set_tombstone (w_timestamps w)\<rparr>)"
| "update_work_new Missing cur_tomb new_tomb w = (Ok None, w)"

section \<open>update_index\<close>

text \<open>\<open>remove_row_from_partition\<close> with the operation it adds when the partition became empty.\<close>

definition remove_row :: "primary_id \<Rightarrow> partition_id \<Rightarrow> index_data \<Rightarrow> operation list \<times> index_data" where
  "remove_row primary_id partition_id data =
     (case remove_row_from_partition primary_id partition_id data of
        (is_empty, data') \<Rightarrow> (if is_empty then [RemovePartition partition_id] else [], data'))"

definition add_operation :: "primary_id \<Rightarrow> partition_id \<Rightarrow> splitting_values \<Rightarrow> bool \<Rightarrow> operation" where
  "add_operation primary_id partition_id values is_update =
     (case values of
        SplitVector vector \<Rightarrow> AddVector primary_id partition_id vector is_update
      | SplitDocument document \<Rightarrow> AddDocument primary_id partition_id document is_update)"

text \<open>
  The part of \<open>update_index\<close> after the timestamps are written: the operations in the order
  they are pushed, and the partitions they leave.
\<close>

fun apply_work ::
  "update_work \<Rightarrow> primary_id \<Rightarrow> primary_id \<Rightarrow> splitting_values option \<Rightarrow> index_data \<Rightarrow> operation list \<times> index_data" where
  "apply_work NoWork cur_id new_id values data = ([], data)"
| "apply_work (MoveInsidePartition partition_id) cur_id new_id values data =
     (RemoveBeforeAddValue cur_id partition_id #
        (case values of None \<Rightarrow> [] | Some v \<Rightarrow> [add_operation new_id partition_id v True]),
      data)"
| "apply_work (MoveBetweenPartitions cur new1) cur_id new_id values data =
     (case remove_row cur_id cur data of
        (ops, data1) \<Rightarrow>
          (RemoveBeforeAddValue cur_id cur # ops @
             (case values of None \<Rightarrow> [] | Some v \<Rightarrow> [add_operation new_id new1 v True]),
           case values of None \<Rightarrow> data1 | Some _ \<Rightarrow> insert_row_into_partition new_id new1 data1))"
| "apply_work (AddToPartition partition_id) cur_id new_id values data =
     (case values of
        None \<Rightarrow> ([], data)
      | Some v \<Rightarrow>
          ([add_operation new_id partition_id v False], insert_row_into_partition new_id partition_id data))"
| "apply_work (RemoveFromPartition partition_id) cur_id new_id values data =
     (case remove_row cur_id partition_id data of
        (ops, data1) \<Rightarrow> (RemoveValue cur_id partition_id # ops, data1))"

text \<open>
  The guards of \<open>update_index\<close>: an update with no newer timestamp is ignored unless it has the
  same timestamp and the row has to change partitions.
\<close>

definition skip_update :: "comparison \<Rightarrow> processing_partition \<Rightarrow> bool" where
  "skip_update c pp \<longleftrightarrow>
     \<not> is_newer_timestamp c \<and> (\<not> is_same_timestamp c \<or> \<not> is_changing_partitions pp)"

definition update_index ::
  "primary_id \<Rightarrow> processing_partition \<Rightarrow> splitting_values option \<Rightarrow> unit timestamped list \<Rightarrow> index \<Rightarrow>
   operation list result \<times> index" where
  "update_index primary_id pp values timestamps ix =
     (case cvc_get_mut (ix_values_timestamps ix) primary_id of
        None \<Rightarrow> (Err (Bail ''Failed to update value: missing value timestamp''), ix)
      | Some vt \<Rightarrow>
          let cur_epoch = ex_epoch vt
          in case compare_timestamps vt timestamps of
               Inl e \<Rightarrow> (Inl e, ix)
             | Inr c \<Rightarrow>
                 if skip_update c pp then (Ok [], ix)
                 else
                   let demote = values = None \<and> \<not> is_new_tombstone c;
                       new_tomb = is_new_tombstone c \<or> demote;
                       timestamps1 = (if demote then first_set_tombstone timestamps else timestamps)
                   in case update_work_new pp (is_cur_tombstone c) new_tomb
                             \<lparr>w_data = ix_data ix, w_values = values, w_timestamps = timestamps1\<rparr> of
                        (Inl e, w) \<Rightarrow> (Inl e, ix\<lparr>ix_data := w_data w\<rparr>)
                      | (Inr None, w) \<Rightarrow> (Ok [], ix\<lparr>ix_data := w_data w\<rparr>)
                      | (Inr (Some work), w) \<Rightarrow>
                          let cur_id = new_epoch primary_id cur_epoch;
                              next1 = epoch_next cur_epoch;
                              new_id = new_epoch cur_id next1
                          in case update_timestamps (ex_set_epoch vt next1) (w_timestamps w) of
                               (r, vt') \<Rightarrow>
                                 let ix1 = ix\<lparr>ix_data := w_data w,
                                              ix_values_timestamps := cvc_put primary_id vt' (ix_values_timestamps ix)\<rparr>
                                 in case r of
                                      Inl e \<Rightarrow> (Inl e, ix1)
                                    | Inr _ \<Rightarrow>
                                        (case apply_work work cur_id new_id (w_values w) (ix_data ix1) of
                                           (ops, data) \<Rightarrow> (Ok ops, ix1\<lparr>ix_data := data\<rparr>)))"

section \<open>TableModify\<close>

text \<open>What \<open>upsert\<close> and \<open>delete\<close> share once the row and the column values are known.\<close>

definition update_row ::
  "index_id \<Rightarrow> primary_id \<Rightarrow> column_name list \<Rightarrow> (timestamp \<times> cql_value option) list \<Rightarrow>
   splitting_values option \<Rightarrow> unit timestamped list \<Rightarrow> index \<Rightarrow> table \<Rightarrow> operation list result \<times> table" where
  "update_row index_id primary_id names filtering values timestamps ix t =
     (case update_columns primary_id names filtering (t_columns t) of
        (Inl e, columns) \<Rightarrow> (Inl e, t\<lparr>t_columns := columns\<rparr>)
      | (Inr _, columns) \<Rightarrow>
          let t1 = t\<lparr>t_columns := columns\<rparr>
          in case get_partition_key index_id primary_id (t_primary_keys t1) (t_columns t1) (ix_data ix) of
               Inl e \<Rightarrow> (Inl e, t1)
             | Inr pp \<Rightarrow>
                 (case update_index primary_id pp values timestamps ix of
                    (r, ix') \<Rightarrow> (r, t1\<lparr>t_indexes := bt_insert index_id ix' (t_indexes t1)\<rparr>)))"

definition upsert ::
  "driver \<Rightarrow> index_key \<Rightarrow> primary_key \<Rightarrow> db_indexed_value timestamped list \<Rightarrow> table \<Rightarrow> operation list result \<times> table" where
  "upsert d index_key primary_key values t =
     (case reserve_primary_ids t of
        (Inl e, t1) \<Rightarrow> (Inl e, t1)
      | (Inr _, t1) \<Rightarrow>
     (case reserve_partition_ids t1 of
        (Inl e, t2) \<Rightarrow> (Inl e, t2)
      | (Inr _, t2) \<Rightarrow>
     (case bt_get (t_index_ids t2) index_key of
        None \<Rightarrow> (Err (Bail ''Index key not found''), t2)
      | Some index_id \<Rightarrow>
     (case add_primary_key d primary_key t2 of
        (Inl e, t3) \<Rightarrow> (Inl e, t3)
      | (Inr primary_id, t3) \<Rightarrow>
     (case bt_get (t_indexes t3) index_id of
        None \<Rightarrow> (Err (Bail ''Index id not found''), t3)
      | Some ix \<Rightarrow>
     (case split_values_filtering values of
        Inl e \<Rightarrow> (Inl e, t3)
      | Inr s \<Rightarrow>
          update_row index_id primary_id (nonpk_partition_key_columns ix @ ix_filtering_columns ix)
            (sv_filtering s) (sv_values s) (sv_timestamps s) ix t3))))))"

definition delete ::
  "driver \<Rightarrow> index_key \<Rightarrow> primary_key \<Rightarrow> timestamp \<Rightarrow> table \<Rightarrow> operation list result \<times> table" where
  "delete d index_key primary_key timestamp t =
     (case bt_get (t_index_ids t) index_key of
        None \<Rightarrow> (Err (Bail ''Index key not found''), t)
      | Some index_id \<Rightarrow>
     (case add_primary_key d primary_key t of
        (Inl e, t1) \<Rightarrow> (Inl e, t1)
      | (Inr primary_id, t1) \<Rightarrow>
     (case bt_get (t_indexes t1) index_id of
        None \<Rightarrow> (Err (Bail ''Index id not found''), t1)
      | Some ix \<Rightarrow>
          update_row index_id primary_id (ix_filtering_columns ix)
            (map (\<lambda>_. (timestamp, None)) (ix_filtering_columns ix)) None [new_tombstone timestamp] ix t1)))"

end
