(* ===== verification/Id_Pool.thy ===== *)
theory Id_Pool
  imports Row_Ids "HOL-Library.Multiset"
begin

text \<open>
  The identifier pools of a table. Row identifiers and, per local index, partition
  identifiers are managed alike: a map from keys to the identifiers in use, a queue of free
  ones, and vectors indexed by them. The locale \<open>id_pool\<close> states what the pools rely on of an
  identifier type and proves the pool invariant, every index below the capacity is used or
  free exactly once, for taking, returning and growing; it is interpreted for row and for
  partition identifiers.
\<close>

definition pool_inv ::
  "('id \<Rightarrow> nat) \<Rightarrow> ('id \<Rightarrow> bool) \<Rightarrow> nat \<Rightarrow> ('k::linorder, 'id) btree \<Rightarrow> 'id list \<Rightarrow> bool" where
  "pool_inv idx ok m mp free \<longleftrightarrow>
     bt_inv mp \<and> list_all ok (map snd mp @ free) \<and>
     mset (map idx (map snd mp @ free)) = mset [0..<m]"

lemma mset_bt_insert:
  "bt_get mp k = None \<Longrightarrow> mset (map snd (bt_insert k q mp)) = add_mset q (mset (map snd mp))"
  by (induction k q mp rule: bt_insert.induct) (auto simp: bt_get_def split: if_splits)

lemma mset_bt_remove:
  "bt_inv mp \<Longrightarrow> bt_get mp k = Some q \<Longrightarrow> mset (map snd mp) = add_mset q (mset (map snd (bt_remove k mp)))"
proof (induction mp)
  case (Cons kv mp)
  have inv: "bt_inv mp" and notin: "fst kv \<notin> set (map fst mp)"
    using Cons.prems(1) by (auto simp: bt_inv_def)
  show ?case
  proof (cases "fst kv = k")
    case True
    then have "bt_remove k mp = mp"
      using notin unfolding bt_remove_def by (intro filter_True) (force simp: image_iff)
    with True Cons.prems(2) show ?thesis
      by (cases kv) (simp add: bt_remove_def bt_get_def)
  next
    case False
    with Cons inv show ?thesis
      by (cases kv) (simp add: bt_remove_def bt_get_def)
  qed
qed simp

lemma bt_get_in_snd: "bt_get mp k = Some q \<Longrightarrow> q \<in> set (map snd mp)"
  by (force simp: bt_get_def dest: map_of_SomeD)

lemma in_snd_bt_get: "bt_inv mp \<Longrightarrow> q \<in> set (map snd mp) \<Longrightarrow> \<exists>k. bt_get mp k = Some q"
  by (auto simp: bt_get_in_set [symmetric])

locale id_pool =
  fixes idx :: "'id \<Rightarrow> nat"
    and ok :: "'id \<Rightarrow> bool"
    and mk :: "nat \<Rightarrow> 'id result"
  assumes mk_ok: "mk i = Ok q \<Longrightarrow> idx q = i \<and> ok q"
    and idx_inj: "ok p \<Longrightarrow> ok q \<Longrightarrow> idx p = idx q \<Longrightarrow> p = q"
begin

lemma pool_bt_inv: "pool_inv idx ok m mp free \<Longrightarrow> bt_inv mp"
  by (simp add: pool_inv_def)

lemma pool_distinct: "pool_inv idx ok m mp free \<Longrightarrow> distinct (map idx (map snd mp @ free))"
  by (metis distinct_upt mset_eq_imp_distinct_iff pool_inv_def)

lemma pool_cover: "pool_inv idx ok m mp free \<Longrightarrow> idx ` set (map snd mp @ free) = {0..<m}"
  by (metis list.set_map mset_eq_setD pool_inv_def set_upt)

lemma pool_used:
  assumes "pool_inv idx ok m mp free" and "bt_get mp k = Some q"
  shows "idx q < m" and "ok q"
proof -
  have q: "q \<in> set (map snd mp @ free)"
    using bt_get_in_snd [OF assms(2)] by simp
  then show "idx q < m"
    using pool_cover [OF assms(1)] by (metis atLeastLessThan_iff image_eqI)
  show "ok q"
    using q assms(1) by (simp add: pool_inv_def list_all_iff)
qed

lemma pool_free:
  assumes "pool_inv idx ok m mp free" and "q \<in> set free"
  shows "idx q < m" and "ok q"
proof -
  show "idx q < m"
    using pool_cover [OF assms(1)] assms(2) by (metis Un_iff atLeastLessThan_iff image_eqI set_append)
  show "ok q"
    using assms by (simp add: pool_inv_def list_all_iff)
qed

lemma pool_disjoint:
  assumes "pool_inv idx ok m mp free" and "bt_get mp k = Some p" and "q \<in> set free"
  shows "idx p \<noteq> idx q"
  using pool_distinct [OF assms(1)] bt_get_in_snd [OF assms(2)] assms(3)
  by (auto simp: distinct_append)

lemma pool_free_hd:
  assumes "pool_inv idx ok m mp (q # free)" and "p \<in> set free"
  shows "idx p \<noteq> idx q"
  using pool_distinct [OF assms(1)] assms(2) by (metis distinct.simps(2) distinct_append image_eqI list.set_map list.simps(9) map_append)

lemma pool_key_unique:
  assumes "pool_inv idx ok m mp free" and "bt_get mp k = Some p" and "bt_get mp l = Some q"
    and "idx p = idx q"
  shows "k = l"
proof -
  have "distinct (map idx (map snd mp))"
    using pool_distinct [OF assms(1)] by simp
  then have inj: "inj_on (\<lambda>kv. idx (snd kv)) (set mp)"
    by (simp add: distinct_map comp_def)
  have "(k, p) \<in> set mp" "(l, q) \<in> set mp"
    using assms(1-3) by (auto simp: pool_inv_def bt_get_in_set)
  then show ?thesis
    using inj_onD [OF inj, of "(k, p)" "(l, q)"] assms(4) by simp
qed

lemma pool_empty: "pool_inv idx ok 0 [] []"
  by (simp add: pool_inv_def)

lemma pool_take:
  assumes "pool_inv idx ok m mp (q # free)" and "bt_get mp k = None"
  shows "pool_inv idx ok m (bt_insert k q mp) free"
proof -
  have snds: "mset (map snd (bt_insert k q mp)) = add_mset q (mset (map snd mp))"
    using assms(2) by (rule mset_bt_insert)
  then have "mset (map idx (map snd (bt_insert k q mp))) = add_mset (idx q) (mset (map idx (map snd mp)))"
    by (metis image_mset_add_mset mset_map)
  moreover have "set (map snd (bt_insert k q mp)) = insert q (set (map snd mp))"
    using arg_cong [OF snds, of set_mset] by (simp only: set_mset_mset set_mset_add_mset_insert)
  ultimately show ?thesis
    using assms(1) by (auto simp: pool_inv_def list_all_iff)
qed

lemma pool_return:
  assumes "pool_inv idx ok m mp free" and "bt_get mp k = Some q"
  shows "pool_inv idx ok m (bt_remove k mp) (free @ [q])"
proof -
  have snds: "mset (map snd mp) = add_mset q (mset (map snd (bt_remove k mp)))"
    using assms by (intro mset_bt_remove pool_bt_inv)
  then have "mset (map idx (map snd mp)) = add_mset (idx q) (mset (map idx (map snd (bt_remove k mp))))"
    by (metis image_mset_add_mset mset_map)
  moreover have "set (map snd mp) = insert q (set (map snd (bt_remove k mp)))"
    using arg_cong [OF snds, of set_mset] by (simp only: set_mset_mset set_mset_add_mset_insert)
  ultimately show ?thesis
    using assms(1) by (auto simp: pool_inv_def list_all_iff)
qed

lemma pool_full: "pool_inv idx ok m mp [] \<Longrightarrow> bt_len mp = m"
  unfolding pool_inv_def bt_len_def by (metis append_Nil2 length_map length_upt minus_nat.diff_0 mset_eq_length)

lemma pool_grow:
  assumes "pool_inv idx ok m mp []" and "list_all2 (\<lambda>i q. mk i = Ok q) [m..<m + k] ids"
  shows "pool_inv idx ok (m + k) mp ids"
proof -
  have each: "idx (ids ! i) = m + i \<and> ok (ids ! i)" if "i < k" for i
    using assms(2) mk_ok [of "m + i" "ids ! i"] that by (auto simp: list_all2_conv_all_nth)
  have len: "length ids = k"
    using list_all2_lengthD [OF assms(2)] by simp
  have "map idx ids = [m..<m + k]"
    using each len by (auto intro!: nth_equalityI)
  moreover have "list_all ok ids"
    using each len by (simp add: list_all_length)
  moreover have "mset [0..<m + k] = mset [0..<m] + mset [m..<m + k]"
    by (metis le_add1 mset_append upt_add_eq_append zero_le)
  ultimately show ?thesis
    using assms(1) by (simp add: pool_inv_def)
qed

end

interpretation primary_pool: id_pool primary_idx "\<lambda>p. primary_epoch p = epoch_new" "\<lambda>i. primary_try_new i epoch_new"
  by unfold_locales (auto dest: primary_try_new_Ok simp: primary_id_eq_iff)

interpretation partition_pool: id_pool partition_idx "\<lambda>q. partition_index_id q = x" "\<lambda>i. partition_try_new i x"
  for x
  by unfold_locales (auto dest: partition_try_new_Ok simp: partition_id_eq_iff)

end
