(* ===== verification/Table_Partitions.thy ===== *)
theory Table_Partitions
  imports Table_State Id_Pool
begin

text \<open>
  The invariant of the partitions of a local index, and what the four operations on them do
  to it. A partition exists while it has rows: its size is the number of rows that point to
  it, its identifier is in the map exactly while the size is positive, and freed identifiers
  go back to the pool. The lemmas also show that the \<open>debug_assert!(false)\<close> branches of
  \<open>remove_row_from_partition\<close> and \<open>create_partition\<close> are never taken.
\<close>

section \<open>Counting rows\<close>

definition rows_in :: "partition_id option list \<Rightarrow> nat \<Rightarrow> nat" where
  "rows_in ids j = count_list (map (map_option partition_idx) ids) (Some j)"

definition points_to :: "partition_id option \<Rightarrow> nat \<Rightarrow> nat" where
  "points_to p j = (if map_option partition_idx p = Some j then 1 else 0)"

lemma points_to_simps [simp]:
  "points_to None j = 0" "points_to (Some q) j = (if partition_idx q = j then 1 else 0)"
  by (simp_all add: points_to_def)

lemma rows_in_update:
  assumes "i < length ids"
  shows "rows_in (ids[i := v]) j + points_to (ids ! i) j = rows_in ids j + points_to v j"
proof -
  let ?f = "map_option partition_idx"
  have mem: "?f (ids ! i) \<in># mset (map ?f ids)"
    using assms by (metis length_map nth_map nth_mem set_mset_mset)
  have "mset (map ?f (ids[i := v])) = add_mset (?f v) (mset (map ?f ids) - {#?f (ids ! i)#})"
    using assms by (simp add: map_update mset_update del: mset_map)
  then have "count (mset (map ?f (ids[i := v]))) (Some j) + points_to (ids ! i) j
      = count (mset (map ?f ids)) (Some j) + points_to v j"
    using mem count_greater_zero_iff [of "mset (map ?f ids)" "Some j"]
    by (auto simp: points_to_def simp del: mset_map)
  then show ?thesis
    by (simp add: rows_in_def count_mset [symmetric] del: mset_map)
qed

lemma rows_in_pos: "0 < rows_in ids j \<longleftrightarrow> (\<exists>i<length ids. \<exists>q. ids ! i = Some q \<and> partition_idx q = j)"
proof -
  have "0 < rows_in ids j \<longleftrightarrow> Some j \<in> map_option partition_idx ` set ids"
    by (simp add: rows_in_def count_list_0_iff neq0_conv [symmetric] del: neq0_conv)
  also have "\<dots> \<longleftrightarrow> (\<exists>p\<in>set ids. \<exists>q. p = Some q \<and> partition_idx q = j)"
    unfolding image_iff by (metis map_option_eq_Some)
  also have "\<dots> \<longleftrightarrow> (\<exists>i<length ids. \<exists>q. ids ! i = Some q \<and> partition_idx q = j)"
    by (metis in_set_conv_nth)
  finally show ?thesis .
qed

lemma rows_in_resize: "length ids \<le> n \<Longrightarrow> rows_in (vec_resize n None ids) j = rows_in ids j"
proof -
  have "count_list (map (map_option partition_idx) (replicate k None)) (Some j) = 0" for k
    by (simp add: count_list_0_iff)
  then show "length ids \<le> n \<Longrightarrow> ?thesis"
    by (simp add: rows_in_def vec_resize_def)
qed

section \<open>The invariant\<close>

text \<open>
  \<open>part_core\<close> holds at every step; \<open>part_inhabited\<close>, that no partition is empty, may be
  broken for the partition just created.
\<close>

definition part_core :: "index_id \<Rightarrow> nat \<Rightarrow> local_index \<Rightarrow> bool" where
  "part_core x n li \<longleftrightarrow>
     pool_inv partition_idx (\<lambda>q. partition_index_id q = x) (length (li_keys li)) (li_map li) (li_free_ids li) \<and>
     length (li_sizes li) = length (li_keys li) \<and> length (li_ids li) = n \<and>
     (\<forall>k q. bt_get (li_map li) k = Some q \<longrightarrow> li_keys li ! partition_idx q = Some k) \<and>
     (\<forall>q\<in>set (li_free_ids li). li_keys li ! partition_idx q = None) \<and>
     (\<forall>i<n. \<forall>q. li_ids li ! i = Some q \<longrightarrow> (\<exists>k. bt_get (li_map li) k = Some q)) \<and>
     (\<forall>j<length (li_keys li). li_sizes li ! j = rows_in (li_ids li) j)"

definition part_inhabited :: "partition_id set \<Rightarrow> local_index \<Rightarrow> bool" where
  "part_inhabited S li \<longleftrightarrow>
     (\<forall>k q. bt_get (li_map li) k = Some q \<longrightarrow> q \<notin> S \<longrightarrow> 0 < li_sizes li ! partition_idx q)"

lemma part_coreD:
  assumes "part_core x n li"
  shows "pool_inv partition_idx (\<lambda>q. partition_index_id q = x) (length (li_keys li)) (li_map li) (li_free_ids li)"
    and "length (li_sizes li) = length (li_keys li)" and "length (li_ids li) = n"
    and "\<And>k q. bt_get (li_map li) k = Some q \<Longrightarrow> li_keys li ! partition_idx q = Some k"
    and "\<And>q. q \<in> set (li_free_ids li) \<Longrightarrow> li_keys li ! partition_idx q = None"
    and "\<And>i q. i < n \<Longrightarrow> li_ids li ! i = Some q \<Longrightarrow> \<exists>k. bt_get (li_map li) k = Some q"
    and "\<And>j. j < length (li_keys li) \<Longrightarrow> li_sizes li ! j = rows_in (li_ids li) j"
  using assms unfolding part_core_def by blast+

lemma part_used:
  assumes "part_core x n li" and "bt_get (li_map li) k = Some q"
  shows "partition_idx q < length (li_keys li)" and "partition_index_id q = x"
  using partition_pool.pool_used [OF part_coreD(1) [OF assms(1)] assms(2)] by simp_all

lemma part_row:
  assumes "part_core x n li" and "i < n" and "li_ids li ! i = Some q"
  shows "partition_idx q < length (li_keys li)" and "partition_index_id q = x"
    and "0 < li_sizes li ! partition_idx q"
proof -
  obtain k where k: "bt_get (li_map li) k = Some q"
    using part_coreD(6) [OF assms] by blast
  show "partition_idx q < length (li_keys li)" "partition_index_id q = x"
    using part_used [OF assms(1) k] by simp_all
  have "0 < rows_in (li_ids li) (partition_idx q)"
    using assms part_coreD(3) [OF assms(1)] by (auto simp: rows_in_pos)
  then show "0 < li_sizes li ! partition_idx q"
    using part_coreD(7) [OF assms(1)] part_used(1) [OF assms(1) k] by simp
qed

lemma part_same_idx:
  assumes "part_core x n li" and "bt_get (li_map li) k = Some p" and "bt_get (li_map li) l = Some q"
    and "partition_idx p = partition_idx q"
  shows "p = q" and "k = l"
  using partition_pool.pool_key_unique [OF part_coreD(1) [OF assms(1)] assms(2-4)] assms(2,3) by simp_all

section \<open>Creating a partition\<close>

lemma create_partition_local_ok:
  assumes core: "part_core x n li" and inh: "part_inhabited {} li"
    and new: "bt_get (li_map li) key = None" and free: "li_free_ids li \<noteq> []"
  obtains q li' where "create_partition_local key li = (Ok q, li')" and "part_core x n li'"
    and "part_inhabited {q} li'" and "li_ids li' = li_ids li"
    and "li_map li' = bt_insert key q (li_map li)" and "\<forall>k. bt_get (li_map li) k \<noteq> Some q"
    and "li_partition_key_columns li' = li_partition_key_columns li"
    and "li_nonpk_partition_key_columns li' = li_nonpk_partition_key_columns li"
    and "\<forall>j. li_sizes li' ! j = li_sizes li ! j"
proof -
  obtain q fs where fs: "li_free_ids li = q # fs" using free by (cases "li_free_ids li") auto
  note pool = part_coreD(1) [OF core, unfolded fs]
  note c = part_coreD(2-) [OF core]
  have q: "partition_idx q < length (li_keys li)"
    using partition_pool.pool_free(1) [OF pool] by simp
  have fresh: "partition_idx p \<noteq> partition_idx q" if "bt_get (li_map li) k = Some p" for k p
    using partition_pool.pool_disjoint [OF pool that] by simp
  have norow: "\<not> (\<exists>i<length (li_ids li). \<exists>p. li_ids li ! i = Some p \<and> partition_idx p = partition_idx q)"
    using c(2,5) fresh by blast
  then have zero: "li_sizes li ! partition_idx q = 0"
    using c(6) [OF q] rows_in_pos [of "li_ids li" "partition_idx q"] by (metis gr0I)
  define li' where "li' = li\<lparr>li_free_ids := fs, li_map := bt_insert key q (li_map li),
      li_keys := (li_keys li)[partition_idx q := Some key], li_sizes := (li_sizes li)[partition_idx q := 0]\<rparr>"
  have run: "create_partition_local key li = (Ok q, li')"
    using new q by (simp add: create_partition_local_def take_partition_id_def fs Let_def li'_def)
  have sizes: "li_sizes li' = li_sizes li"
    using zero by (simp add: li'_def) (metis list_update_id)
  have core': "part_core x n li'"
    unfolding part_core_def
  proof (intro conjI allI impI ballI)
    show "pool_inv partition_idx (\<lambda>q. partition_index_id q = x) (length (li_keys li')) (li_map li') (li_free_ids li')"
      using partition_pool.pool_take [OF pool new] by (simp add: li'_def)
    show "li_keys li' ! partition_idx p = Some k" if "bt_get (li_map li') k = Some p" for k p
      using that q c(3) [of k p] fresh [of k p] by (cases "k = key") (auto simp: li'_def nth_list_update)
    show "li_keys li' ! partition_idx p = None" if "p \<in> set (li_free_ids li')" for p
      using that c(4) partition_pool.pool_free_hd [OF pool, of p] by (simp add: li'_def fs)
    show "\<exists>k. bt_get (li_map li') k = Some p" if ip: "i < n" "li_ids li' ! i = Some p" for i p
    proof -
      have "\<exists>k. bt_get (li_map li) k = Some p" using c(5) [of i p] ip by (simp add: li'_def)
      then obtain k where "bt_get (li_map li) k = Some p" by blast
      moreover from this have "k \<noteq> key" using new by auto
      ultimately show ?thesis by (intro exI [of _ k]) (simp add: li'_def)
    qed
  qed (use c sizes in \<open>simp_all add: li'_def\<close>)
  show thesis
  proof (rule that [OF run core'])
    show "part_inhabited {q} li'"
      using inh fresh sizes by (auto simp: part_inhabited_def li'_def split: if_splits)
    show "\<forall>k. bt_get (li_map li) k \<noteq> Some q" using fresh by blast
  qed (simp_all add: li'_def sizes [unfolded li'_def])
qed

section \<open>Adding a row\<close>

lemma insert_row_local_ok:
  assumes core: "part_core x n li" and i: "primary_idx p < n" "li_ids li ! primary_idx p = None"
    and q: "bt_get (li_map li) k = Some q" and inh: "part_inhabited {q} li"
  shows "part_core x n (insert_row_local p q li)" and "part_inhabited {} (insert_row_local p q li)"
    and "li_ids (insert_row_local p q li) = (li_ids li)[primary_idx p := Some q]"
    and "li_map (insert_row_local p q li) = li_map li"
proof -
  note c = part_coreD [OF core]
  have idx: "partition_idx q < length (li_keys li)" using part_used [OF core q] by simp
  let ?li = "insert_row_local p q li"
  have li': "?li = li\<lparr>li_ids := (li_ids li)[primary_idx p := Some q],
      li_sizes := (li_sizes li)[partition_idx q := li_sizes li ! partition_idx q + 1]\<rparr>"
    using idx c(2) by (simp add: insert_row_local_def vec_get_def Let_def)
  have rows: "rows_in ((li_ids li)[primary_idx p := Some q]) j = rows_in (li_ids li) j + points_to (Some q) j" for j
    using rows_in_update [of "primary_idx p" "li_ids li" "Some q" j] i c(3) by simp
  show "part_core x n ?li"
    unfolding part_core_def
  proof (intro conjI allI impI ballI)
    show "\<exists>k. bt_get (li_map ?li) k = Some r" if "i < n" "li_ids ?li ! i = Some r" for i r
      using that c(3,6) q i by (auto simp: li' nth_list_update split: if_splits)
    show "li_sizes ?li ! j = rows_in (li_ids ?li) j" if "j < length (li_keys ?li)" for j
      using that c(2,7) rows [of j] by (auto simp: li' nth_list_update)
  qed (use c in \<open>simp_all add: li'\<close>)
  show "part_inhabited {} ?li"
    using inh idx c(2) by (auto simp: part_inhabited_def li' nth_list_update)
  show "li_ids ?li = (li_ids li)[primary_idx p := Some q]" "li_map ?li = li_map li"
    by (simp_all add: li')
qed

section \<open>Removing a row\<close>

lemma remove_row_local_ok:
  assumes core: "part_core x n li" and i: "primary_idx p < n" "li_ids li ! primary_idx p = Some q"
    and inh: "part_inhabited S li" and S: "q \<notin> S"
  obtains empty li' where "remove_row_local p q li = (empty, li')" and "part_core x n li'"
    and "part_inhabited S li'" and "li_ids li' = (li_ids li)[primary_idx p := None]"
    and "empty \<longleftrightarrow> (\<forall>i<n. i \<noteq> primary_idx p \<longrightarrow> li_ids li ! i \<noteq> Some q)"
    and "\<forall>k r. r \<noteq> q \<longrightarrow> bt_get (li_map li) k = Some r \<longrightarrow> bt_get (li_map li') k = Some r"
    and "li_nonpk_partition_key_columns li' = li_nonpk_partition_key_columns li"
proof -
  note c = part_coreD [OF core]
  obtain key where key: "bt_get (li_map li) key = Some q" using c(6) [OF i] by blast
  note row = part_row [OF core i]
  have sz: "li_sizes li ! partition_idx q = rows_in (li_ids li) (partition_idx q)"
    using c(7) [OF row(1)] .
  let ?ids = "(li_ids li)[primary_idx p := None]"
  let ?sizes = "(li_sizes li)[partition_idx q := li_sizes li ! partition_idx q - 1]"
  have rows: "rows_in ?ids j + points_to (Some q) j = rows_in (li_ids li) j" for j
    using rows_in_update [of "primary_idx p" "li_ids li" None j] i c(3) by simp
  define empty where "empty \<longleftrightarrow> li_sizes li ! partition_idx q = 1"
  have empty_rows: "empty \<longleftrightarrow> rows_in ?ids (partition_idx q) = 0"
    using rows [of "partition_idx q"] sz by (simp add: empty_def) linarith
  have others: "rows_in ?ids (partition_idx q) = 0 \<longleftrightarrow> (\<forall>i<n. i \<noteq> primary_idx p \<longrightarrow> li_ids li ! i \<noteq> Some q)"
  proof -
    have same: "r = q" if "i < n" "li_ids li ! i = Some r" "partition_idx r = partition_idx q" for i r
      using c(6) [OF that(1,2)] part_same_idx(1) [OF core _ key that(3)] by blast
    have "(\<exists>i<length ?ids. \<exists>r. ?ids ! i = Some r \<and> partition_idx r = partition_idx q) \<longleftrightarrow>
        (\<exists>i<n. i \<noteq> primary_idx p \<and> li_ids li ! i = Some q)"
      using same c(3) i by (auto simp: nth_list_update split: if_splits) metis
    then show ?thesis
      using rows_in_pos [of ?ids "partition_idx q"] by auto
  qed
  define li1 where "li1 = li\<lparr>li_ids := ?ids, li_sizes := ?sizes\<rparr>"
  define li' where "li' = (if empty then li1\<lparr>li_keys := (li_keys li)[partition_idx q := None],
      li_map := bt_remove key (li_map li), li_free_ids := li_free_ids li @ [q]\<rparr> else li1)"
  have run: "remove_row_local p q li = (empty, li')"
    using row c(2,4) key
    by (simp add: remove_row_local_def shrink_partition_def vec_get_def Let_def li'_def li1_def empty_def return_id_def)
      auto
  have sizes: "li_sizes li' ! j = rows_in (li_ids li') j" if "j < length (li_keys li)" for j
    using that c(2) c(7) [OF that] rows [of j] row by (auto simp: li'_def li1_def nth_list_update)
  have other_keys: "k \<noteq> key \<and> partition_idx r \<noteq> partition_idx q" if "bt_get (li_map li) k = Some r" "r \<noteq> q" for k r
    using that key part_same_idx(1) [OF core that(1) key] by auto
  have core': "part_core x n li'"
  proof (cases empty)
    case False
    then show ?thesis
      using c sizes i by (auto simp: part_core_def li'_def li1_def nth_list_update split: if_splits)
  next
    case True
    have pool': "pool_inv partition_idx (\<lambda>q. partition_index_id q = x) (length (li_keys li'))
        (li_map li') (li_free_ids li')"
      using partition_pool.pool_return [OF c(1) key] True by (simp add: li'_def li1_def)
    have keys': "li_keys li' ! partition_idx r = Some k" if "bt_get (li_map li') k = Some r" for k r
    proof -
      have "k \<noteq> key" and kr: "bt_get (li_map li) k = Some r"
        using that True by (auto simp: li'_def li1_def split: if_splits)
      then have "r \<noteq> q" using part_same_idx(2) [OF core kr key] by auto
      then show ?thesis using c(4) [OF kr] other_keys [OF kr] True by (simp add: li'_def li1_def)
    qed
    have rows': "\<exists>k. bt_get (li_map li') k = Some r" if ir: "i < n" "li_ids li' ! i = Some r" for i r
    proof -
      have ne: "i \<noteq> primary_idx p" and r: "li_ids li ! i = Some r"
        using ir c(3) True by (cases "i = primary_idx p"; simp add: li'_def li1_def)+
      then have "r \<noteq> q" using True empty_rows others ir(1) by auto
      moreover obtain k where "bt_get (li_map li) k = Some r" using c(6) [OF ir(1) r] by blast
      ultimately show ?thesis using other_keys True by (auto simp: li'_def li1_def)
    qed
    have free': "li_keys li' ! partition_idx r = None" if "r \<in> set (li_free_ids li')" for r
      using that c(2,5) row(1) True by (auto simp: li'_def li1_def nth_list_update)
    show ?thesis
      using pool' keys' rows' free' sizes c(2,3) True by (simp add: part_core_def) (simp add: li'_def li1_def)
  qed
  have inh': "part_inhabited S li'"
    unfolding part_inhabited_def
  proof (intro allI impI)
    fix k r assume kr: "bt_get (li_map li') k = Some r" and r: "r \<notin> S"
    then have kr': "bt_get (li_map li) k = Some r" by (auto simp: li'_def li1_def split: if_splits)
    show "0 < li_sizes li' ! partition_idx r"
    proof (cases "r = q")
      case True
      then have "\<not> empty"
        using kr part_same_idx(2) [OF core kr' key] by (auto simp: li'_def li1_def)
      then show ?thesis
        using True row c(2) empty_rows sizes [OF row(1)] by (simp add: li'_def li1_def)
    next
      case False
      then show ?thesis
        using inh r kr' other_keys [OF kr'] by (auto simp: part_inhabited_def li'_def li1_def)
    qed
  qed
  show thesis
    by (rule that [OF run core' inh'])
      (use other_keys empty_rows others in \<open>auto simp: li'_def li1_def\<close>)
qed

end
