(* ===== verification/Table_Live.thy ===== *)
theory Table_Live
  imports Table_Modify Table_Partitions
begin

text \<open>
  The rows of an index as the index engine sees them. \<open>index_exec\<close> specifies the receiver of
  the table's operations: a set of entries, a row identifier with its epoch in a partition,
  that refuses to add a row identifier it already has, in whatever partition, to remove an
  entry it does not have, or to drop a partition that still has entries. The main lemma is that the operations of \<open>update_index\<close>, executed by
  that receiver, take the live rows of the table before the update to those after it.
\<close>

section \<open>The receiver of operations\<close>

type_synonym entry = "partition_id \<times> primary_id"

fun index_exec :: "operation \<Rightarrow> entry set \<Rightarrow> entry set option" where
  "index_exec (AddVector p q _ _) S = (if p \<in> snd ` S then None else Some (insert (q, p) S))"
| "index_exec (AddDocument p q _ _) S = (if p \<in> snd ` S then None else Some (insert (q, p) S))"
| "index_exec (RemoveBeforeAddValue p q) S = (if (q, p) \<in> S then Some (S - {(q, p)}) else None)"
| "index_exec (RemoveValue p q) S = (if (q, p) \<in> S then Some (S - {(q, p)}) else None)"
| "index_exec (RemovePartition q) S = (if q \<in> fst ` S then None else Some S)"

fun index_exec_all :: "operation list \<Rightarrow> entry set \<Rightarrow> entry set option" where
  "index_exec_all [] S = Some S"
| "index_exec_all (op # ops) S = Option.bind (index_exec op S) (index_exec_all ops)"

definition live_of :: "nat \<Rightarrow> (nat \<Rightarrow> partition_id option) \<Rightarrow> (nat \<Rightarrow> epoch) \<Rightarrow> entry set" where
  "live_of n part ep =
     {(q, p). primary_idx p < n \<and> part (primary_idx p) = Some q \<and> primary_epoch p = ep (primary_idx p)}"

text \<open>The operations that move one row from its old place to its new one.\<close>

definition move_ops ::
  "partition_id option \<Rightarrow> partition_id option \<Rightarrow> bool \<Rightarrow> primary_id \<Rightarrow> primary_id \<Rightarrow> splitting_values option \<Rightarrow>
   operation list" where
  "move_ops old tgt dropped cur_id new_id v =
     (case old of
        None \<Rightarrow> []
      | Some c \<Rightarrow> (if tgt = None then RemoveValue cur_id c else RemoveBeforeAddValue cur_id c) #
                  (if dropped then [RemovePartition c] else [])) @
     (case tgt of None \<Rightarrow> [] | Some q \<Rightarrow> [add_operation new_id q (the v) (old \<noteq> None)])"

lemma index_exec_add [simp]:
  "index_exec (add_operation p q v u) S = (if p \<in> snd ` S then None else Some (insert (q, p) S))"
  by (cases v) (simp_all add: add_operation_def)

lemma epoch_next_neq [simp]: "epoch_next e \<noteq> e"
  by (metis add_cancel_right_right epoch_next_raw zero_neq_one)

lemma live_remove:
  assumes "i < n" and "part i = Some c"
    and "cur_id = new_epoch p (ep i)" and "primary_idx p = i"
  shows "(c, cur_id) \<in> live_of n part ep"
    and "live_of n part ep - {(c, cur_id)} = live_of n (part(i := None)) (ep(i := e))"
  using assms by (auto simp: live_of_def primary_id_eq_iff)

lemma live_add:
  assumes "i < n" and "part i = None" and "primary_idx p = i"
  shows "new_epoch p (ep i) \<notin> snd ` live_of n part ep"
    and "insert (q, new_epoch p (ep i)) (live_of n part ep) = live_of n (part(i := Some q)) ep"
  using assms by (auto simp: live_of_def primary_id_eq_iff)

lemma live_epoch: "part i = None \<Longrightarrow> live_of n part (ep(i := e)) = live_of n part ep"
  by (auto simp: live_of_def)

lemma exec_move_ops:
  assumes i: "primary_idx p < n" and cur: "cur_id = new_epoch p (ep (primary_idx p))"
    and new: "new_id = new_epoch p e"
    and drop: "dropped \<Longrightarrow> tgt \<noteq> part (primary_idx p) \<and> (\<forall>j<n. j \<noteq> primary_idx p \<longrightarrow> part j \<noteq> part (primary_idx p))"
  shows "index_exec_all (move_ops (part (primary_idx p)) tgt dropped cur_id new_id v) (live_of n part ep)
    = Some (live_of n (part(primary_idx p := tgt)) (ep(primary_idx p := e)))"
proof -
  let ?i = "primary_idx p"
  define part0 where "part0 = part(?i := None)"
  define ep1 where "ep1 = ep(?i := e)"
  have removed: "index_exec_all (case part ?i of None \<Rightarrow> [] | Some c \<Rightarrow>
        (if tgt = None then RemoveValue cur_id c else RemoveBeforeAddValue cur_id c) #
        (if dropped then [RemovePartition c] else [])) (live_of n part ep) = Some (live_of n part0 ep1)"
  proof (cases "part ?i")
    case None
    then show ?thesis
      using live_epoch [of part ?i n ep e] by (simp add: part0_def ep1_def fun_upd_idem)
  next
    case (Some c)
    note r = live_remove(1) [of ?i n part c cur_id p ep, OF i Some cur refl]
      live_remove(2) [of ?i n part c cur_id p ep e, OF i Some cur refl]
    have "c \<notin> fst ` live_of n part0 ep1" if dropped
      using drop [OF that] Some by (auto simp: live_of_def part0_def)
    then show ?thesis
      using r Some by (auto simp: part0_def ep1_def)
  qed
  have added: "index_exec_all (case tgt of None \<Rightarrow> [] | Some q \<Rightarrow> [add_operation new_id q (the v) u])
      (live_of n part0 ep1) = Some (live_of n (part(?i := tgt)) ep1)" for u
  proof (cases tgt)
    case (Some q)
    have "part0 ?i = None" and "ep1 ?i = e" by (simp_all add: part0_def ep1_def)
    then show ?thesis
      using live_add(1) [OF i, of part0 p ep1] live_add(2) [OF i, of part0 p q ep1] Some new by (simp add: part0_def)
  qed (simp add: part0_def)
  have append: "index_exec_all (xs @ ys) S = Option.bind (index_exec_all xs S) (index_exec_all ys)" for xs ys S
    by (induction xs arbitrary: S) (auto split: Option.bind_splits)
  show ?thesis
    unfolding move_ops_def append removed by (simp only: Option.bind.bind_lunit added ep1_def [symmetric])
qed

section \<open>The invariant of an index\<close>

definition row_valid :: "index \<Rightarrow> nat \<Rightarrow> bool" where
  "row_valid ix i =
     (case row_stamp (length (ix_target_columns ix)) (ix_values_timestamps ix) i 0 of
        Some t \<Rightarrow> is_valid t | None \<Rightarrow> False)"

definition row_part :: "index \<Rightarrow> nat \<Rightarrow> partition_id option" where
  "row_part ix i =
     (case ix_data ix of
        Global \<Rightarrow> if row_valid ix i then Some (partition_global (ix_index_id ix)) else None
      | Local li \<Rightarrow> li_ids li ! i)"

definition index_inv :: "nat \<Rightarrow> index \<Rightarrow> bool" where
  "index_inv n ix \<longleftrightarrow>
     ix_target_columns ix \<noteq> [] \<and>
     cvc_inv (length (ix_target_columns ix)) (ix_values_timestamps ix) \<and>
     vc_len (ix_values_timestamps ix) = n \<and>
     (case ix_data ix of
        Global \<Rightarrow> True
      | Local li \<Rightarrow> part_core (ix_index_id ix) n li \<and> part_inhabited {} li \<and>
          (\<forall>i<n. li_ids li ! i \<noteq> None \<longleftrightarrow> row_valid ix i))"

definition live_index :: "nat \<Rightarrow> index \<Rightarrow> entry set" where
  "live_index n ix = live_of n (row_part ix) (row_epoch (ix_values_timestamps ix))"

lemma row_part_valid: "index_inv n ix \<Longrightarrow> i < n \<Longrightarrow> row_part ix i \<noteq> None \<longleftrightarrow> row_valid ix i"
  by (auto simp: index_inv_def row_part_def split: index_data.splits)

section \<open>What an update does to the partitions\<close>

text \<open>What \<open>get_partition_key\<close> promises of the partition it returns.\<close>

fun pp_ok :: "local_index \<Rightarrow> nat \<Rightarrow> processing_partition \<Rightarrow> bool" where
  "pp_ok li i (Existing q) = (li_ids li ! i = Some q)"
| "pp_ok li i (New key) = (li_ids li ! i = None \<and> bt_get (li_map li) key = None)"
| "pp_ok li i (AddToExisting q) = (li_ids li ! i = None \<and> (\<exists>key. bt_get (li_map li) key = Some q))"
| "pp_ok li i (MoveToNew q key) = (li_ids li ! i = Some q \<and> bt_get (li_map li) key = None)"
| "pp_ok li i (MoveToExisting c q) =
     (li_ids li ! i = Some c \<and> c \<noteq> q \<and> (\<exists>key. bt_get (li_map li) key = Some q))"
| "pp_ok li i (MissingKey q) = (li_ids li ! i = Some q)"
| "pp_ok li i Missing = (li_ids li ! i = None)"

lemma classify_ok: "pp_ok li i (classify (li_map li) (li_ids li ! i) key)"
  by (auto simp: classify_def split: option.splits)

lemma get_partition_key_ok:
  assumes "get_partition_key_local p keys columns li = Ok pp" and "primary_idx p < length (li_ids li)"
  shows "pp_ok li (primary_idx p) pp"
  using assms classify_ok [of li "primary_idx p"]
  by (auto simp: get_partition_key_local_def vec_get_def result_simps
      split: if_split_asm option.split_asm list.split_asm)

definition place_ok ::
  "index_id \<Rightarrow> nat \<Rightarrow> local_index \<Rightarrow> nat \<Rightarrow> partition_id option \<Rightarrow> bool \<Rightarrow> local_index \<Rightarrow> bool" where
  "place_ok x n li i tgt dropped li' \<longleftrightarrow>
     part_core x n li' \<and> part_inhabited {} li' \<and> li_ids li' = (li_ids li)[i := tgt] \<and>
     (dropped \<longrightarrow> tgt \<noteq> li_ids li ! i \<and> (\<forall>j<n. j \<noteq> i \<longrightarrow> li_ids li ! j \<noteq> li_ids li ! i)) \<and>
     li_nonpk_partition_key_columns li' = li_nonpk_partition_key_columns li"

text \<open>
  One row changes its place: from the partitions before \<open>update_work_new\<close> to those after
  \<open>apply_work\<close>, with the operations in between. \<open>tgt\<close> is where the row ends up.
\<close>

definition work_ok ::
  "bool \<Rightarrow> index_id \<Rightarrow> nat \<Rightarrow> primary_id \<Rightarrow> primary_id \<Rightarrow> nat \<Rightarrow> local_index \<Rightarrow> splitting_values option \<Rightarrow> unit timestamped \<Rightarrow>
   update_work option result \<times> work_state \<Rightarrow> bool" where
  "work_ok miss x n cur_id new_id i li values ts r \<longleftrightarrow>
     (\<exists>work w tgt dropped li' ts'. r = (Ok (Some work), w)
       \<and> w_timestamps w = [ts'] \<and> ts' \<in> {ts, set_tombstone ts} \<and> (is_valid ts' \<longleftrightarrow> tgt \<noteq> None)
       \<and> (values = None \<longrightarrow> tgt = None) \<and> (values \<noteq> None \<longrightarrow> tgt = None \<longrightarrow> miss)
       \<and> apply_work work cur_id new_id (w_values w) (w_data w) =
           (move_ops (li_ids li ! i) tgt dropped cur_id new_id values, Local li')
       \<and> place_ok x n li i tgt dropped li')"

lemma place_same:
  assumes "part_core x n li" and "part_inhabited {} li" and "li_ids li ! i = tgt"
  shows "place_ok x n li i tgt False li"
  using assms by (auto simp: place_ok_def)

lemma place_insert:
  assumes "part_core x n li" and "part_inhabited {q} li" and "primary_idx p < n"
    and "li_ids li ! primary_idx p = None" and "bt_get (li_map li) k = Some q"
  shows "place_ok x n li (primary_idx p) (Some q) False (insert_row_local p q li)"
  using insert_row_local_ok [OF assms(1,3,4,5,2)]
  by (auto simp: place_ok_def insert_row_local_def Let_def split: option.splits)

lemma place_remove:
  assumes "part_core x n li" and "part_inhabited {} li" and "primary_idx p < n"
    and "li_ids li ! primary_idx p = Some q"
  obtains dropped li' where "remove_row p q (Local li) = (if dropped then [RemovePartition q] else [], Local li')"
    and "place_ok x n li (primary_idx p) None dropped li'"
proof -
  have S: "q \<notin> {}" by simp
  show thesis
    by (rule remove_row_local_ok [OF assms(1,3,4,2) S], rule that)
      (auto simp: remove_row_def place_ok_def assms(4))
qed

lemma place_between:
  assumes "part_core x n li" and "part_inhabited {q} li" and p: "primary_idx p < n"
    and "li_ids li ! primary_idx p = Some c" and "c \<noteq> q" and k: "bt_get (li_map li) k = Some q"
    and r: "primary_idx r = primary_idx p"
  obtains dropped li1 where "remove_row p c (Local li) = (if dropped then [RemovePartition c] else [], Local li1)"
    and "place_ok x n li (primary_idx p) (Some q) dropped (insert_row_local r q li1)"
proof -
  have S: "c \<notin> {q}" using assms(5) by simp
  obtain dropped li1 where run: "remove_row_local p c li = (dropped, li1)"
    and core: "part_core x n li1" and inh: "part_inhabited {q} li1"
    and ids: "li_ids li1 = (li_ids li)[primary_idx p := None]"
    and last: "dropped \<longleftrightarrow> (\<forall>i<n. i \<noteq> primary_idx p \<longrightarrow> li_ids li ! i \<noteq> Some c)"
    and keep: "\<forall>k r. r \<noteq> c \<longrightarrow> bt_get (li_map li) k = Some r \<longrightarrow> bt_get (li_map li1) k = Some r"
    and cols: "li_nonpk_partition_key_columns li1 = li_nonpk_partition_key_columns li"
    using remove_row_local_ok [OF assms(1) p assms(4,2) S] by blast
  have none: "li_ids li1 ! primary_idx r = None" and r': "primary_idx r < n"
    using part_coreD(3) [OF assms(1)] p r by (simp_all add: ids)
  have "bt_get (li_map li1) k = Some q"
    using keep k assms(5) by auto
  with core inh r' none have "place_ok x n li1 (primary_idx r) (Some q) False (insert_row_local r q li1)"
    by (rule place_insert)
  then have "place_ok x n li (primary_idx p) (Some q) dropped (insert_row_local r q li1)"
    using assms(4,5) last cols by (auto simp: place_ok_def ids r)
  then show thesis
    using run by (intro that [of dropped li1]) (simp_all add: remove_row_def)
qed

text \<open>After creating a partition, the row's old place is as it was.\<close>

lemma place_ok_created:
  assumes "place_ok x n li1 i tgt dropped li'" and "li_ids li1 = li_ids li"
    and "li_nonpk_partition_key_columns li1 = li_nonpk_partition_key_columns li"
  shows "place_ok x n li i tgt dropped li'"
  using assms by (simp add: place_ok_def)

lemma part_inhabited_mono: "part_inhabited S li \<Longrightarrow> S \<subseteq> T \<Longrightarrow> part_inhabited T li"
  by (auto simp: part_inhabited_def)

lemma work_okI:
  assumes "r = (Ok (Some work), w)"
    and "w_timestamps w = [ts']" and "ts' \<in> {ts, set_tombstone ts}" and "is_valid ts' \<longleftrightarrow> tgt \<noteq> None"
    and "values = None \<Longrightarrow> tgt = None" and "values \<noteq> None \<Longrightarrow> tgt = None \<Longrightarrow> miss"
    and "apply_work work cur_id new_id (w_values w) (w_data w) =
           (move_ops (li_ids li ! i) tgt dropped cur_id new_id values, Local li')"
    and "place_ok x n li i tgt dropped li'"
  shows "work_ok miss x n cur_id new_id i li values ts r"
  using assms unfolding work_ok_def by blast

lemma work_remove:
  assumes "part_core x n li" and "part_inhabited {} li" and "primary_idx cur_id < n"
    and q: "li_ids li ! primary_idx cur_id = Some q"
    and w: "w_data w = Local li" "w_timestamps w = [ts']" "ts' \<in> {ts, set_tombstone ts}" "\<not> is_valid ts'"
      "values \<noteq> None \<Longrightarrow> miss"
  shows "work_ok miss x n cur_id new_id (primary_idx cur_id) li values ts (Ok (Some (RemoveFromPartition q)), w)"
proof (rule place_remove [OF assms(1-4)])
  fix dropped li'
  assume "remove_row cur_id q (Local li) = (if dropped then [RemovePartition q] else [], Local li')"
    and "place_ok x n li (primary_idx cur_id) None dropped li'"
  then show ?thesis
    using w q
    by (intro work_okI [where work = "RemoveFromPartition q" and w = w and tgt = None and ts' = ts'
          and dropped = dropped and li' = li']) (simp_all add: move_ops_def)
qed

lemma work_none:
  assumes "part_core x n li" and "part_inhabited {} li" and none: "li_ids li ! i = None"
    and w: "w_data w = Local li" "w_timestamps w = [ts]" "\<not> is_valid ts" "values = None"
  shows "work_ok miss x n cur_id new_id i li values ts (Ok (Some NoWork), w)"
  using w none place_same [OF assms(1-3)]
  by (intro work_okI [where work = NoWork and w = w and tgt = None and ts' = ts and dropped = False and li' = li])
    (simp_all add: move_ops_def)

lemma work_inside:
  assumes "part_core x n li" and "part_inhabited {} li" and q: "li_ids li ! i = Some q"
    and w: "w_data w = Local li" "w_values w = values" "w_timestamps w = [ts]" "is_valid ts" "values = Some v"
  shows "work_ok miss x n cur_id new_id i li values ts (Ok (Some (MoveInsidePartition q)), w)"
  using w q place_same [OF assms(1-3)]
  by (intro work_okI [where work = "MoveInsidePartition q" and w = w and tgt = "Some q" and ts' = ts
        and dropped = False and li' = li]) (simp_all add: move_ops_def)

lemma work_add:
  assumes "part_core x n li1" and "part_inhabited {q} li1" and "primary_idx new_id < n"
    and none: "li_ids li ! primary_idx new_id = None" and k: "bt_get (li_map li1) k = Some q"
    and li1: "li_ids li1 = li_ids li" "li_nonpk_partition_key_columns li1 = li_nonpk_partition_key_columns li"
    and w: "w_data w = Local li1" "w_values w = values" "w_timestamps w = [ts]" "is_valid ts" "values = Some v"
  shows "work_ok miss x n cur_id new_id (primary_idx new_id) li values ts (Ok (Some (AddToPartition q)), w)"
proof -
  have "place_ok x n li1 (primary_idx new_id) (Some q) False (insert_row_local new_id q li1)"
    using place_insert [OF assms(1-3) _ k] none li1 by simp
  then show ?thesis
    using w none li1
    by (intro work_okI [where work = "AddToPartition q" and w = w and tgt = "Some q" and ts' = ts
          and dropped = False and li' = "insert_row_local new_id q li1"]) (simp_all add: move_ops_def place_ok_created)
qed

lemma work_between:
  assumes "part_core x n li1" and "part_inhabited {q} li1" and "primary_idx cur_id < n"
    and c: "li_ids li ! primary_idx cur_id = Some c" and "c \<noteq> q" and k: "bt_get (li_map li1) k = Some q"
    and li1: "li_ids li1 = li_ids li" "li_nonpk_partition_key_columns li1 = li_nonpk_partition_key_columns li"
    and w: "w_data w = Local li1" "w_values w = values" "w_timestamps w = [ts]" "is_valid ts" "values = Some v"
    and new: "primary_idx new_id = primary_idx cur_id"
  shows "work_ok miss x n cur_id new_id (primary_idx cur_id) li values ts (Ok (Some (MoveBetweenPartitions c q)), w)"
proof (rule place_between [OF assms(1-3) _ assms(5) k new])
  show "li_ids li1 ! primary_idx cur_id = Some c" using c li1 by simp
  fix dropped li'
  assume "remove_row cur_id c (Local li1) = (if dropped then [RemovePartition c] else [], Local li')"
    and "place_ok x n li1 (primary_idx cur_id) (Some q) dropped (insert_row_local new_id q li')"
  then show ?thesis
    using w c li1
    by (intro work_okI [where work = "MoveBetweenPartitions c q" and w = w and tgt = "Some q" and ts' = ts
          and dropped = dropped and li' = "insert_row_local new_id q li'"]) (simp_all add: move_ops_def place_ok_created)
qed

text \<open>Every branch of \<open>UpdateWork::new\<close> on a local index.\<close>

lemma update_work_local:
  assumes core: "part_core x n li" and inh: "part_inhabited {} li" and i: "i < n"
    and ids: "primary_idx cur_id = i" "primary_idx new_id = i"
    and pp: "pp_ok li i pp" "pp \<noteq> Missing"
    and cur: "cur_tomb \<longleftrightarrow> li_ids li ! i = None" and new: "new_tomb \<longleftrightarrow> values = None"
    and ts: "is_valid ts \<longleftrightarrow> values \<noteq> None"
    and room: "values \<noteq> None \<Longrightarrow> li_free_ids li \<noteq> []"
  shows "work_ok (\<exists>q. pp = MissingKey q) x n cur_id new_id i li values ts
    (update_work_new pp cur_tomb new_tomb \<lparr>w_data = Local li, w_values = values, w_timestamps = [ts]\<rparr>)"
proof -
  let ?w = "\<lparr>w_data = Local li, w_values = values, w_timestamps = [ts]\<rparr>"
  have i': "primary_idx cur_id < n" "primary_idx new_id < n" using i ids by simp_all
  note inh1 = part_inhabited_mono [OF inh empty_subsetI]
  note remove = work_remove [OF core inh i'(1), unfolded ids]
    and none = work_none [OF core inh]
    and inside = work_inside [OF core inh]
    and add = work_add [OF core inh1 i'(2) _ _ refl refl, unfolded ids]
    and between = work_between [OF core inh1 i'(1) _ _ _ refl refl _ _ _ _ _ trans [OF ids(2) ids(1) [symmetric]], unfolded ids]
  show ?thesis
  proof (cases "values")
    case None
    then show ?thesis
      using pp cur new ts by (cases pp) (auto intro!: remove none)
  next
    case (Some v)
    have free: "li_free_ids li \<noteq> []" and valid: "is_valid ts" and new': "\<not> new_tomb"
      using Some room ts new by auto
    have created: "work_ok miss x n cur_id new_id i li values ts
        (case create_partition key (Local li) of
           (Inl e, data) \<Rightarrow> (Inl e, ?w\<lparr>w_data := data\<rparr>)
         | (Inr q, data) \<Rightarrow>
             (Ok (Some (case old of None \<Rightarrow> AddToPartition q | Some c \<Rightarrow> MoveBetweenPartitions c q)), ?w\<lparr>w_data := data\<rparr>))"
      if key: "bt_get (li_map li) key = None" and old: "li_ids li ! i = old" for key old miss
    proof (rule create_partition_local_ok [OF core inh key free])
      fix q li1
      assume li1: "create_partition_local key li = (Ok q, li1)" "part_core x n li1" "part_inhabited {q} li1"
        "li_ids li1 = li_ids li" "li_map li1 = bt_insert key q (li_map li)"
        "li_nonpk_partition_key_columns li1 = li_nonpk_partition_key_columns li"
        and fresh: "\<forall>k. bt_get (li_map li) k \<noteq> Some q"
      have k: "bt_get (li_map li1) key = Some q" by (simp add: li1(5))
      show ?thesis
      proof (cases old)
        case None
        then show ?thesis
          using work_add [OF li1(2,3) i'(2) _ k li1(4,6), of "?w\<lparr>w_data := Local li1\<rparr>" "values" ts v miss cur_id]
            old valid Some li1(1) ids by simp
      next
        case (Some c)
        then have "c \<noteq> q" using fresh part_coreD(6) [OF core i] old by auto
        then show ?thesis
          using work_between [OF li1(2,3) i'(1) _ _ k li1(4,6), of c "?w\<lparr>w_data := Local li1\<rparr>" "values" ts v new_id miss]
            old valid Some \<open>values = Some v\<close> li1(1) ids by simp
      qed
    qed
    show ?thesis
    proof (cases pp)
      case (New key)
      then show ?thesis using created [of key None] pp(1) new' by (auto split: prod.splits sum.splits)
    next
      case (MoveToNew c key)
      then show ?thesis using created [of key "Some c"] pp(1) new' cur by (auto split: prod.splits sum.splits)
    next
      case (MissingKey q)
      then show ?thesis
        using pp(1) cur by (auto intro!: remove [of _ _ "set_tombstone ts"])
    qed (use pp cur new' valid Some in \<open>auto intro!: inside add between\<close>)
  qed
qed

end
