(* ===== verification/Table_Update.thy ===== *)
theory Table_Update
  imports Table_Live
begin

text \<open>
  Correctness of \<open>update_index\<close>, the step of \<open>crates/vector-store/src/table/mod.rs\<close> that
  decides whether an update wins and which operations the index has to apply: it keeps the
  invariant of the index, its operations take the live rows before to those after, it never
  fails for want of a timestamp, and a stale update is ignored.
\<close>

section \<open>The timestamps of a row\<close>

definition row_time :: "index \<Rightarrow> nat \<Rightarrow> timestamp" where
  "row_time ix i =
     timestamp_of (the (row_stamp (length (ix_target_columns ix)) (ix_values_timestamps ix) i 0))"

lemma index_invD:
  assumes "index_inv n ix"
  shows "ix_target_columns ix \<noteq> []"
    and "cvc_inv (length (ix_target_columns ix)) (ix_values_timestamps ix)"
    and "vc_len (ix_values_timestamps ix) = n"
    and "\<And>li. ix_data ix = Local li \<Longrightarrow> part_core (ix_index_id ix) n li"
    and "\<And>li. ix_data ix = Local li \<Longrightarrow> part_inhabited {} li"
    and "\<And>li i. ix_data ix = Local li \<Longrightarrow> i < n \<Longrightarrow> li_ids li ! i \<noteq> None \<longleftrightarrow> row_valid ix i"
  using assms by (auto simp: index_inv_def)

lemma row_stamp_Some:
  assumes "index_inv n ix"
  obtains t where "row_stamp (length (ix_target_columns ix)) (ix_values_timestamps ix) i 0 = Some t"
    and "row_valid ix i \<longleftrightarrow> is_valid t" and "row_time ix i = timestamp_of t"
  using index_invD(1) [OF assms]
  by (auto simp: row_stamp_def bytes_timestamp_def Let_def row_valid_def row_time_def)

definition cmp_of :: "index \<Rightarrow> nat \<Rightarrow> unit timestamped \<Rightarrow> comparison" where
  "cmp_of ix i ts =
     \<lparr>is_cur_tombstone = (\<not> row_valid ix i), is_new_tombstone = (\<not> is_valid ts),
      is_newer_timestamp = (row_time ix i < timestamp_of ts),
      is_same_timestamp = (row_time ix i = timestamp_of ts)\<rparr>"

definition row_view :: "index \<Rightarrow> nat \<Rightarrow> chunk_timestamps_exclusive" where
  "row_view ix i = \<lparr>ex_size = length (ix_target_columns ix), ex_bytes = vc_chunk_at (ix_values_timestamps ix) i\<rparr>"

lemma row_view_get:
  "index_inv n ix \<Longrightarrow> primary_idx p < n \<Longrightarrow>
     cvc_get_mut (ix_values_timestamps ix) p = Some (row_view ix (primary_idx p))"
  using index_invD [of n ix] by (simp add: cvc_get_mut_row row_view_def)

lemma compare_row:
  assumes "index_inv n ix"
  shows "compare_timestamps (row_view ix i) [ts] = Ok (cmp_of ix i ts)"
proof -
  obtain t where "row_stamp (length (ix_target_columns ix)) (ix_values_timestamps ix) i 0 = Some t"
    "row_valid ix i \<longleftrightarrow> is_valid t" "row_time ix i = timestamp_of t"
    using row_stamp_Some [OF assms] .
  then show ?thesis
    by (simp add: compare_timestamps_def row_view_def ex_timestamp_def row_stamp_def compare_step_def
        cmp_of_def is_tombstone_def)
qed

text \<open>Writing epoch and timestamp of a row changes that row only.\<close>

lemma write_row:
  assumes inv: "index_inv n ix" and i: "primary_idx p < n" and wf: "timestamped_wf ts"
  obtains vt where "update_timestamps (ex_set_epoch (row_view ix (primary_idx p)) e) [ts] = (Ok (), vt)"
    and "cvc_inv (length (ix_target_columns ix)) (cvc_put p vt (ix_values_timestamps ix))"
    and "vc_len (cvc_put p vt (ix_values_timestamps ix)) = n"
    and "\<And>j. j < n \<Longrightarrow> row_epoch (cvc_put p vt (ix_values_timestamps ix)) j =
           (if j = primary_idx p then e else row_epoch (ix_values_timestamps ix) j)"
    and "\<And>j. j < n \<Longrightarrow> row_stamp (length (ix_target_columns ix)) (cvc_put p vt (ix_values_timestamps ix)) j 0 =
           (if j = primary_idx p then Some ts
            else row_stamp (length (ix_target_columns ix)) (ix_values_timestamps ix) j 0)"
proof -
  let ?m = "length (ix_target_columns ix)" and ?c = "ix_values_timestamps ix" and ?i = "primary_idx p"
  have c: "?m > 0" "cvc_inv ?m ?c" "vc_len ?c = n"
    using index_invD(1-3) [OF inv] by simp_all
  define b where "b = bytes_set_epoch (vc_chunk_at ?c ?i) e"
  have len: "length (vc_chunk_at ?c ?i) = chunk_size ?m"
    using length_row_bytes [OF c(2)] i c(3) by simp
  then have lb: "length b = chunk_size ?m" by (simp add: b_def)
  obtain b' where b': "bytes_set_timestamp ?m b 0 ts = Some b'"
    using c(1) by (simp add: bytes_set_timestamp_def Let_def)
  define vt where "vt = \<lparr>ex_size = ?m, ex_bytes = b'\<rparr>"
  have run: "update_timestamps (ex_set_epoch (row_view ix ?i) e) [ts] = (Ok (), vt)"
    using b' by (simp add: update_timestamps_def ex_set_timestamp_def ex_set_epoch_def row_view_def b_def vt_def)
  have lb': "length (ex_bytes vt) = chunk_size ?m"
    using length_set_timestamp [OF lb b'] lb by (simp add: vt_def)
  have ep: "bytes_epoch b' = e"
    using epoch_set_timestamp [OF lb b'] by (simp add: b_def)
  have st: "bytes_timestamp ?m b' 0 = Some ts"
    using timestamp_set_timestamp [OF lb wf b', of 0] by simp
  note put = cvc_put_rows [OF c(2) _ lb', of p]
  show thesis
    using run put i c(3) ep st
    by (intro that [of vt]) (simp_all add: row_epoch_def row_stamp_def, simp_all add: vt_def)
qed

section \<open>update_index\<close>

text \<open>What \<open>get_partition_key\<close> promises, for both kinds of index.\<close>

definition target_ok :: "index \<Rightarrow> nat \<Rightarrow> processing_partition \<Rightarrow> bool" where
  "target_ok ix i pp =
     (case ix_data ix of
        Global \<Rightarrow> pp = Existing (partition_global (ix_index_id ix))
      | Local li \<Rightarrow> pp_ok li i pp)"

text \<open>What never changes in an index after it is created.\<close>

definition same_schema :: "index \<Rightarrow> index \<Rightarrow> bool" where
  "same_schema ix ix' \<longleftrightarrow>
     ix_index_id ix' = ix_index_id ix \<and> ix_target_columns ix' = ix_target_columns ix \<and>
     ix_filtering_columns ix' = ix_filtering_columns ix \<and>
     nonpk_partition_key_columns ix' = nonpk_partition_key_columns ix \<and>
     (ix_data ix' = Global \<longleftrightarrow> ix_data ix = Global)"

lemma same_schema_refl [simp]: "same_schema ix ix"
  by (simp add: same_schema_def)

text \<open>
  The update that is applied: one row gets a new epoch, a new timestamp and a new place, and
  the operations move it there.
\<close>

definition row_moved ::
  "bool \<Rightarrow> nat \<Rightarrow> primary_id \<Rightarrow> unit timestamped \<Rightarrow> splitting_values option \<Rightarrow> index \<Rightarrow> operation list \<Rightarrow> index \<Rightarrow> bool" where
  "row_moved miss n p ts values ix ops ix' \<longleftrightarrow>
     (\<exists>ts' tgt dropped.
        ts' \<in> {ts, set_tombstone ts} \<and> (is_valid ts' \<longleftrightarrow> tgt \<noteq> None) \<and> (values = None \<longrightarrow> tgt = None) \<and>
        (values \<noteq> None \<longrightarrow> tgt = None \<longrightarrow> miss) \<and>
        index_inv n ix' \<and> same_schema ix ix' \<and>
        (\<forall>j<n. row_part ix' j = ((row_part ix)(primary_idx p := tgt)) j) \<and>
        (\<forall>j<n. row_epoch (ix_values_timestamps ix') j =
           ((row_epoch (ix_values_timestamps ix))(primary_idx p := epoch_next (row_epoch (ix_values_timestamps ix) (primary_idx p)))) j) \<and>
        (\<forall>j<n. row_time ix' j = ((row_time ix)(primary_idx p := timestamp_of ts)) j) \<and>
        (dropped \<longrightarrow> tgt \<noteq> row_part ix (primary_idx p) \<and>
           (\<forall>j<n. j \<noteq> primary_idx p \<longrightarrow> row_part ix j \<noteq> row_part ix (primary_idx p))) \<and>
        ops = move_ops (row_part ix (primary_idx p)) tgt dropped
                (new_epoch p (row_epoch (ix_values_timestamps ix) (primary_idx p)))
                (new_epoch p (epoch_next (row_epoch (ix_values_timestamps ix) (primary_idx p)))) values)"

lemma live_of_cong:
  "(\<And>j. j < n \<Longrightarrow> part j = part' j) \<Longrightarrow> (\<And>j. j < n \<Longrightarrow> ep j = ep' j) \<Longrightarrow> live_of n part ep = live_of n part' ep'"
  by (auto simp: live_of_def)

lemma row_moved_exec:
  assumes "row_moved miss n p ts values ix ops ix'" and "primary_idx p < n"
  shows "index_exec_all ops (live_index n ix) = Some (live_index n ix')"
proof -
  let ?i = "primary_idx p" and ?ep = "row_epoch (ix_values_timestamps ix)"
  from assms(1) obtain tgt dropped where
    part: "\<forall>j<n. row_part ix' j = ((row_part ix)(?i := tgt)) j" and
    ep: "\<forall>j<n. row_epoch (ix_values_timestamps ix') j = (?ep(?i := epoch_next (?ep ?i))) j" and
    drop: "dropped \<longrightarrow> tgt \<noteq> row_part ix ?i \<and> (\<forall>j<n. j \<noteq> ?i \<longrightarrow> row_part ix j \<noteq> row_part ix ?i)" and
    ops: "ops = move_ops (row_part ix ?i) tgt dropped (new_epoch p (?ep ?i)) (new_epoch p (epoch_next (?ep ?i))) values"
    unfolding row_moved_def by blast
  have "live_index n ix' = live_of n ((row_part ix)(?i := tgt)) (?ep(?i := epoch_next (?ep ?i)))"
    unfolding live_index_def using part ep by (intro live_of_cong) auto
  then show ?thesis
    using exec_move_ops [where dropped = dropped and tgt = tgt and part = "row_part ix" and ep = ?ep
        and e = "epoch_next (?ep ?i)" and v = "values", OF assms(2) refl refl] drop
    by (simp add: live_index_def ops)
qed

text \<open>
  An index whose data and timestamps were both replaced: what has to be shown of the
  partitions to have moved the row.
\<close>

lemma row_movedI:
  assumes inv: "index_inv n ix" and i: "primary_idx p < n" and wf: "timestamped_wf ts"
    and ts': "ts' \<in> {ts, set_tombstone ts}" and valid: "is_valid ts' \<longleftrightarrow> tgt \<noteq> None"
    and vals: "values = None \<Longrightarrow> tgt = None" "values \<noteq> None \<Longrightarrow> tgt = None \<Longrightarrow> miss"
    and vt: "update_timestamps (ex_set_epoch (row_view ix (primary_idx p))
           (epoch_next (row_epoch (ix_values_timestamps ix) (primary_idx p)))) [ts'] = (Ok (), vt)"
    and data: "case ix_data ix of
        Global \<Rightarrow> data' = Global \<and> \<not> dropped \<and> tgt \<in> {None, Some (partition_global (ix_index_id ix))}
      | Local li \<Rightarrow> (\<exists>li'. data' = Local li' \<and> place_ok (ix_index_id ix) n li (primary_idx p) tgt dropped li')"
    and ops: "ops = move_ops (row_part ix (primary_idx p)) tgt dropped
                (new_epoch p (row_epoch (ix_values_timestamps ix) (primary_idx p)))
                (new_epoch p (epoch_next (row_epoch (ix_values_timestamps ix) (primary_idx p)))) values"
  shows "row_moved miss n p ts values ix ops
    (ix\<lparr>ix_data := data', ix_values_timestamps := cvc_put p vt (ix_values_timestamps ix)\<rparr>)"
    (is "row_moved miss n p ts values ix ops ?ix'")
proof -
  let ?i = "primary_idx p"
  have wf': "timestamped_wf ts'" using ts' wf by auto
  have time: "timestamp_of ts' = timestamp_of ts" using ts' by auto
  obtain vt1 where w: "update_timestamps (ex_set_epoch (row_view ix ?i) (epoch_next (row_epoch (ix_values_timestamps ix) ?i))) [ts'] = (Ok (), vt1)"
    "cvc_inv (length (ix_target_columns ix)) (cvc_put p vt1 (ix_values_timestamps ix))"
    "vc_len (cvc_put p vt1 (ix_values_timestamps ix)) = n"
    "\<And>j. j < n \<Longrightarrow> row_epoch (cvc_put p vt1 (ix_values_timestamps ix)) j =
       (if j = ?i then epoch_next (row_epoch (ix_values_timestamps ix) ?i) else row_epoch (ix_values_timestamps ix) j)"
    "\<And>j. j < n \<Longrightarrow> row_stamp (length (ix_target_columns ix)) (cvc_put p vt1 (ix_values_timestamps ix)) j 0 =
       (if j = ?i then Some ts' else row_stamp (length (ix_target_columns ix)) (ix_values_timestamps ix) j 0)"
    using write_row [OF inv i wf'] by metis
  have [simp]: "vt1 = vt" using w(1) vt by simp
  have rv: "row_valid ?ix' j = (if j = ?i then tgt \<noteq> None else row_valid ix j)"
    and rt: "row_time ?ix' j = (if j = ?i then timestamp_of ts else row_time ix j)" if "j < n" for j
    using w(5) [OF that] valid time by (simp_all add: row_valid_def row_time_def)
  have part: "row_part ?ix' j = ((row_part ix)(?i := tgt)) j" if "j < n" for j
  proof (cases "ix_data ix")
    case Global
    then show ?thesis using data rv [OF that] by (auto simp: row_part_def)
  next
    case (Local li)
    then show ?thesis
      using data index_invD(4) [OF inv Local] i that by (auto simp: row_part_def place_ok_def part_core_def nth_list_update)
  qed
  have inv': "index_inv n ?ix'"
  proof (cases "ix_data ix")
    case Global
    then show ?thesis using data w(2,3) index_invD(1) [OF inv] by (simp add: index_inv_def)
  next
    case (Local li)
    then obtain li' where li': "data' = Local li'" "place_ok (ix_index_id ix) n li ?i tgt dropped li'"
      using data by auto
    have "li_ids li' ! j \<noteq> None \<longleftrightarrow> row_valid ?ix' j" if "j < n" for j
      using part [OF that] rv [OF that] index_invD(6) [OF inv Local that] li'(1) Local by (simp add: row_part_def)
    then show ?thesis
      using li' w(2,3) index_invD(1) [OF inv] by (simp add: index_inv_def place_ok_def)
  qed
  have schema: "same_schema ix ?ix'"
    using data by (auto simp: same_schema_def nonpk_partition_key_columns_def place_ok_def split: index_data.splits)
  have drop: "dropped \<longrightarrow> tgt \<noteq> row_part ix ?i \<and> (\<forall>j<n. j \<noteq> ?i \<longrightarrow> row_part ix j \<noteq> row_part ix ?i)"
    using data by (auto simp: row_part_def place_ok_def split: index_data.splits)
  show ?thesis
    unfolding row_moved_def
    using ts' valid vals inv' schema part rt drop ops w(4)
    by (intro exI [of _ ts'] exI [of _ tgt] exI [of _ dropped]) simp
qed

text \<open>\<open>update_index\<close> once both guards are passed.\<close>

lemma update_index_unfold:
  assumes "index_inv n ix" and "primary_idx p < n" and "is_valid ts \<longleftrightarrow> values \<noteq> None"
  shows "update_index p pp values [ts] ix =
    (if skip_update (cmp_of ix (primary_idx p) ts) pp then (Ok [], ix)
     else case update_work_new pp (\<not> row_valid ix (primary_idx p)) (values = None)
                 \<lparr>w_data = ix_data ix, w_values = values, w_timestamps = [ts]\<rparr> of
            (Inl e, w) \<Rightarrow> (Inl e, ix\<lparr>ix_data := w_data w\<rparr>)
          | (Inr None, w) \<Rightarrow> (Ok [], ix\<lparr>ix_data := w_data w\<rparr>)
          | (Inr (Some work), w) \<Rightarrow>
              let cur = row_epoch (ix_values_timestamps ix) (primary_idx p)
              in case update_timestamps (ex_set_epoch (row_view ix (primary_idx p)) (epoch_next cur)) (w_timestamps w) of
                   (r, vt') \<Rightarrow>
                     let ix1 = ix\<lparr>ix_data := w_data w,
                                  ix_values_timestamps := cvc_put p vt' (ix_values_timestamps ix)\<rparr>
                     in case r of
                          Inl e \<Rightarrow> (Inl e, ix1)
                        | Inr _ \<Rightarrow>
                            (case apply_work work (new_epoch p cur) (new_epoch p (epoch_next cur)) (w_values w) (w_data w) of
                               (ops, data) \<Rightarrow> (Ok ops, ix1\<lparr>ix_data := data\<rparr>)))"
proof -
  have ep: "ex_epoch (row_view ix (primary_idx p)) = row_epoch (ix_values_timestamps ix) (primary_idx p)"
    by (simp add: ex_epoch_def row_view_def row_epoch_def)
  have id: "new_epoch (new_epoch p e) e' = new_epoch p e'" for e e'
    by (simp add: primary_id_eq_iff)
  have "is_new_tombstone (cmp_of ix (primary_idx p) ts) \<longleftrightarrow> values = None"
    using assms(3) by (simp add: cmp_of_def)
  moreover have "is_cur_tombstone (cmp_of ix (primary_idx p) ts) \<longleftrightarrow> \<not> row_valid ix (primary_idx p)"
    by (simp add: cmp_of_def)
  ultimately show ?thesis
    unfolding update_index_def row_view_get [OF assms(1,2)] option.case compare_row [OF assms(1)] sum.case
    by (cases "values") (simp_all add: Let_def ep id split: prod.split sum.split option.split)
qed

lemma update_index_global:
  assumes inv: "index_inv n ix" and i: "primary_idx p < n" and g: "ix_data ix = Global"
    and pp: "pp = Existing (partition_global (ix_index_id ix))"
    and ts: "is_valid ts \<longleftrightarrow> values \<noteq> None" and wf: "timestamped_wf ts"
    and run: "\<not> skip_update (cmp_of ix (primary_idx p) ts) pp"
  shows "\<exists>ops ix'. update_index p pp values [ts] ix = (Ok ops, ix') \<and> row_moved (\<exists>q. pp = MissingKey q) n p ts values ix ops ix'"
proof -
  let ?g = "partition_global (ix_index_id ix)" and ?ep = "row_epoch (ix_values_timestamps ix) (primary_idx p)"
  let ?tgt = "if values = None then None else Some ?g"
  obtain vt where vt: "update_timestamps (ex_set_epoch (row_view ix (primary_idx p)) (epoch_next ?ep)) [ts] = (Ok (), vt)"
    using write_row [OF inv i wf] by metis
  have part: "row_part ix (primary_idx p) = (if row_valid ix (primary_idx p) then Some ?g else None)"
    by (simp add: row_part_def g)
  let ?ops = "move_ops (row_part ix (primary_idx p)) ?tgt False (new_epoch p ?ep) (new_epoch p (epoch_next ?ep)) values"
  have "update_index p pp values [ts] ix =
      (Ok ?ops, ix\<lparr>ix_data := Global, ix_values_timestamps := cvc_put p vt (ix_values_timestamps ix)\<rparr>)"
    using run vt unfolding update_index_unfold [OF inv i ts]
    by (cases "values"; cases "row_valid ix (primary_idx p)")
      (simp_all add: pp g part move_ops_def remove_row_def Let_def)
  moreover have "row_moved (\<exists>q. pp = MissingKey q) n p ts values ix ?ops (ix\<lparr>ix_data := Global, ix_values_timestamps := cvc_put p vt (ix_values_timestamps ix)\<rparr>)"
    using ts g by (intro row_movedI [OF inv i wf _ _ _ _ vt]) auto
  ultimately show ?thesis by blast
qed

lemma update_index_local:
  assumes inv: "index_inv n ix" and i: "primary_idx p < n" and l: "ix_data ix = Local li"
    and pp: "pp_ok li (primary_idx p) pp" "pp \<noteq> Missing"
    and ts: "is_valid ts \<longleftrightarrow> values \<noteq> None" and wf: "timestamped_wf ts"
    and room: "values \<noteq> None \<Longrightarrow> li_free_ids li \<noteq> []"
    and run: "\<not> skip_update (cmp_of ix (primary_idx p) ts) pp"
  shows "\<exists>ops ix'. update_index p pp values [ts] ix = (Ok ops, ix') \<and> row_moved (\<exists>q. pp = MissingKey q) n p ts values ix ops ix'"
proof -
  let ?i = "primary_idx p" and ?ep = "row_epoch (ix_values_timestamps ix) (primary_idx p)"
  let ?cur = "new_epoch p ?ep" and ?new = "new_epoch p (epoch_next ?ep)"
  have cur: "\<not> row_valid ix ?i \<longleftrightarrow> li_ids li ! ?i = None"
    using index_invD(6) [OF inv l i] by auto
  define miss where "miss \<longleftrightarrow> (\<exists>q. pp = MissingKey q)"
  have "work_ok miss (ix_index_id ix) n ?cur ?new ?i li values ts
      (update_work_new pp (\<not> row_valid ix ?i) (values = None) \<lparr>w_data = Local li, w_values = values, w_timestamps = [ts]\<rparr>)"
    using index_invD(4,5) [OF inv l] i pp cur ts room unfolding miss_def by (intro update_work_local) simp_all
  then obtain work w tgt dropped li' ts' where
    new: "update_work_new pp (\<not> row_valid ix ?i) (values = None) \<lparr>w_data = Local li, w_values = values, w_timestamps = [ts]\<rparr>
        = (Ok (Some work), w)" and
    w: "w_timestamps w = [ts']" "ts' \<in> {ts, set_tombstone ts}" "is_valid ts' \<longleftrightarrow> tgt \<noteq> None" "values = None \<longrightarrow> tgt = None"
      "values \<noteq> None \<longrightarrow> tgt = None \<longrightarrow> miss" and
    app: "apply_work work ?cur ?new (w_values w) (w_data w) = (move_ops (li_ids li ! ?i) tgt dropped ?cur ?new values, Local li')" and
    place: "place_ok (ix_index_id ix) n li ?i tgt dropped li'"
    unfolding work_ok_def by blast
  have "timestamped_wf ts'" using w(2) wf by auto
  then obtain vt where vt: "update_timestamps (ex_set_epoch (row_view ix ?i) (epoch_next ?ep)) [ts'] = (Ok (), vt)"
    using write_row [OF inv i] by metis
  let ?ops = "move_ops (row_part ix ?i) tgt dropped ?cur ?new values"
  have "update_index p pp values [ts] ix =
      (Ok ?ops, ix\<lparr>ix_data := Local li', ix_values_timestamps := cvc_put p vt (ix_values_timestamps ix)\<rparr>)"
    using run vt new app w(1) by (simp add: update_index_unfold [OF inv i ts] l Let_def row_part_def)
  moreover have "row_moved miss n p ts values ix ?ops (ix\<lparr>ix_data := Local li', ix_values_timestamps := cvc_put p vt (ix_values_timestamps ix)\<rparr>)"
    using w place l by (intro row_movedI [OF inv i wf _ _ _ _ vt]) auto
  ultimately show ?thesis unfolding miss_def by blast
qed

definition has_free_partition :: "index \<Rightarrow> bool" where
  "has_free_partition ix = (case ix_data ix of Global \<Rightarrow> True | Local li \<Rightarrow> li_free_ids li \<noteq> [])"

lemma update_index_cases:
  assumes inv: "index_inv n ix" and i: "primary_idx p < n" and pp: "target_ok ix (primary_idx p) pp"
    and ts: "is_valid ts \<longleftrightarrow> values \<noteq> None" and wf: "timestamped_wf ts"
    and room: "values \<noteq> None \<Longrightarrow> has_free_partition ix"
  shows "if skip_update (cmp_of ix (primary_idx p) ts) pp \<or> pp = Missing
     then update_index p pp values [ts] ix = (Ok [], ix)
     else \<exists>ops ix'. update_index p pp values [ts] ix = (Ok ops, ix') \<and> row_moved (\<exists>q. pp = MissingKey q) n p ts values ix ops ix'"
proof (cases "skip_update (cmp_of ix (primary_idx p) ts) pp \<or> pp = Missing")
  case True
  then show ?thesis by (auto simp: update_index_unfold [OF inv i ts])
next
  case False
  then show ?thesis
    using update_index_global [OF inv i _ _ ts wf] update_index_local [OF inv i _ _ _ ts wf] pp room
    by (simp add: target_ok_def has_free_partition_def split: index_data.splits)
qed

end
