(* ===== verification/Table_Invariant.thy ===== *)
theory Table_Invariant
  imports Table_Update
begin

text \<open>
  The invariant of a table and its preservation by the operations \<open>upsert\<close> and \<open>delete\<close> are
  composed of: reserving row and partition identifiers, adding a primary key, writing columns.
\<close>

section \<open>The invariant\<close>

definition table_rows :: "table \<Rightarrow> nat" where
  "table_rows t = length (t_primary_keys t)"

definition primary_inv :: "driver \<Rightarrow> table \<Rightarrow> bool" where
  "primary_inv d t \<longleftrightarrow>
     pool_inv primary_idx (\<lambda>p. primary_epoch p = epoch_new) (table_rows t) (t_primary_ids t) (t_free_primary_ids t) \<and>
     (\<forall>k p. bt_get (t_primary_ids t) k = Some p \<longrightarrow>
        (\<exists>key vs. t_primary_keys t ! primary_idx p = Some key \<and> key_of vs key \<and> normalize_primary_key d t key = Ok k)) \<and>
     (\<forall>p\<in>set (t_free_primary_ids t). t_primary_keys t ! primary_idx p = None)"

definition columns_inv :: "nat \<Rightarrow> (column_name, column) btree \<Rightarrow> bool" where
  "columns_inv n columns \<longleftrightarrow>
     bt_inv columns \<and> (\<forall>c col. bt_get columns c = Some col \<longrightarrow> col_inv n col)"

definition indexes_inv :: "nat \<Rightarrow> (index_id, index) btree \<Rightarrow> bool" where
  "indexes_inv n ixs \<longleftrightarrow>
     bt_inv ixs \<and> (\<forall>x ix. bt_get ixs x = Some ix \<longrightarrow> ix_index_id ix = x \<and> index_inv n ix)"

text \<open>Only rows that have a key are in an index.\<close>

definition keyed :: "table \<Rightarrow> bool" where
  "keyed t \<longleftrightarrow>
     (\<forall>i<table_rows t. t_primary_keys t ! i = None \<longrightarrow>
        (\<forall>x ix. bt_get (t_indexes t) x = Some ix \<longrightarrow> row_part ix i = None))"

definition table_inv :: "driver \<Rightarrow> table \<Rightarrow> bool" where
  "table_inv d t \<longleftrightarrow>
     primary_inv d t \<and> columns_inv (table_rows t) (t_columns t) \<and> indexes_inv (table_rows t) (t_indexes t) \<and>
     (\<forall>key x. bt_get (t_index_ids t) key = Some x \<longrightarrow> bt_get (t_indexes t) x \<noteq> None) \<and> keyed t"

text \<open>The live rows of one index of the table.\<close>

definition live :: "table \<Rightarrow> index_id \<Rightarrow> entry set" where
  "live t x = (case bt_get (t_indexes t) x of None \<Rightarrow> {} | Some ix \<Rightarrow> live_index (table_rows t) ix)"

text \<open>The partition identifiers of every local index can grow by one increment.\<close>

definition partition_room :: "table \<Rightarrow> bool" where
  "partition_room t \<longleftrightarrow>
     (\<forall>x ix li. bt_get (t_indexes t) x = Some ix \<longrightarrow> ix_data ix = Local li \<longrightarrow>
        length (li_keys li) + INDEX_INCREMENT_SIZE \<le> 2 ^ 48)"

text \<open>Two tables with the same configuration: what upserts and deletes never change.\<close>

definition same_config :: "table \<Rightarrow> table \<Rightarrow> bool" where
  "same_config t t' \<longleftrightarrow>
     t_partition_primary_key_count t' = t_partition_primary_key_count t \<and>
     t_needs_ck_normalization t' = t_needs_ck_normalization t \<and>
     t_index_ids t' = t_index_ids t"

lemma normalize_cong:
  "same_config t t' \<Longrightarrow> normalize_primary_key d t' = normalize_primary_key d t"
  by (simp add: same_config_def normalize_primary_key_def fun_eq_iff)

section \<open>Maps over the indexes\<close>

lemma bt_try_for_each_ok:
  assumes "\<And>k v. (k, v) \<in> set m \<Longrightarrow> fst (f v) = Ok ()"
  shows "bt_try_for_each f m = (Ok (), bt_map (\<lambda>v. snd (f v)) m)"
  using assms
proof (induction m)
  case (Cons kv m)
  obtain k v where kv: "kv = (k, v)" by (cases kv)
  obtain v' where "f v = (Ok (), v')" using Cons.prems [of k v] by (cases "f v") (auto simp: kv)
  moreover have "bt_try_for_each f m = (Ok (), bt_map (\<lambda>v. snd (f v)) m)"
    by (rule Cons.IH) (use Cons.prems in auto)
  ultimately show ?case by (simp add: bt_map_def kv)
qed (simp add: bt_map_def)

lemma indexes_inv_map:
  assumes "indexes_inv n ixs" and "\<And>x ix. bt_get ixs x = Some ix \<Longrightarrow> ix_index_id (f ix) = x \<and> index_inv m (f ix)"
  shows "indexes_inv m (bt_map f ixs)"
  using assms by (auto simp: indexes_inv_def)

section \<open>Growing\<close>

lemma part_core_resize:
  assumes "part_core x n li" and "n \<le> m"
  shows "part_core x m (li\<lparr>li_ids := vec_resize m None (li_ids li)\<rparr>)"
  using assms unfolding part_core_def
  by (auto simp: nth_vec_resize rows_in_resize split: if_splits)

text \<open>An index that changed in nothing but spare capacity.\<close>

definition grown :: "nat \<Rightarrow> nat \<Rightarrow> index \<Rightarrow> index \<Rightarrow> bool" where
  "grown n m ix ix' \<longleftrightarrow>
     index_inv m ix' \<and> same_schema ix ix' \<and> n \<le> m \<and>
     (\<forall>j<n. row_part ix' j = row_part ix j \<and> row_time ix' j = row_time ix j \<and>
        row_epoch (ix_values_timestamps ix') j = row_epoch (ix_values_timestamps ix) j) \<and>
     (\<forall>j. n \<le> j \<longrightarrow> j < m \<longrightarrow> row_part ix' j = None)"

lemma grown_live: "grown n m ix ix' \<Longrightarrow> live_index m ix' = live_index n ix"
proof -
  assume g: "grown n m ix ix'"
  show ?thesis
    unfolding live_index_def live_of_def
  proof (rule Collect_cong)
    fix e
    show "(case e of (q, p) \<Rightarrow> primary_idx p < m \<and> row_part ix' (primary_idx p) = Some q \<and>
          primary_epoch p = row_epoch (ix_values_timestamps ix') (primary_idx p)) =
      (case e of (q, p) \<Rightarrow> primary_idx p < n \<and> row_part ix (primary_idx p) = Some q \<and>
          primary_epoch p = row_epoch (ix_values_timestamps ix) (primary_idx p))"
      using g by (cases "primary_idx (snd e) < n") (auto simp: grown_def split: prod.splits)
  qed
qed

lemma grown_refl: "index_inv n ix \<Longrightarrow> grown n n ix ix"
  by (simp add: grown_def)

lemma resize_primary_grown:
  assumes inv: "index_inv n ix" and m: "n \<le> m"
  shows "fst (resize_primary_ids_with m ix) = Ok ()" and "grown n m ix (snd (resize_primary_ids_with m ix))"
proof -
  let ?k = "length (ix_target_columns ix)" and ?vt = "ix_values_timestamps ix"
  have c: "cvc_inv ?k ?vt" "vc_len ?vt = n" "0 < ?k" using index_invD(1-3) [OF inv] by simp_all
  obtain vt where vt: "cvc_resize m ?vt = Ok vt" "cvc_inv ?k vt" "vc_len vt = m"
    "\<And>i. i < n \<Longrightarrow> vc_chunk_at vt i = vc_chunk_at ?vt i"
    "\<And>i j. n \<le> i \<Longrightarrow> i < m \<Longrightarrow> j < ?k \<Longrightarrow> row_stamp ?k vt i j = Some (new_tombstone Timestamp_MIN)"
    using cvc_resize_rows [OF c(1), of m] c(2) m by metis
  let ?ix = "ix\<lparr>ix_data := resize_ids m (ix_data ix), ix_values_timestamps := vt\<rparr>"
  have run: "resize_primary_ids_with m ix = (Ok (), ?ix)"
    using vt(1) by (simp add: resize_primary_ids_with_def)
  have valid: "row_valid ?ix j = row_valid ix j \<and> row_time ?ix j = row_time ix j" if "j < n" for j
    using vt(4) [OF that] by (simp add: row_valid_def row_time_def row_stamp_def)
  have fresh: "\<not> row_valid ?ix j" if "n \<le> j" "j < m" for j
    using vt(5) [OF that c(3)] by (simp add: row_valid_def new_tombstone_def new_valid_or_tombstone_new)
  have part: "row_part ?ix j = (if j < n then row_part ix j else None)" if "j < m" for j
  proof (cases "ix_data ix")
    case Global
    then show ?thesis using valid fresh that by (auto simp: row_part_def)
  next
    case (Local li)
    then show ?thesis
      using that part_coreD(3) [OF index_invD(4) [OF inv Local]] by (simp add: row_part_def nth_vec_resize)
  qed
  have "index_inv m ?ix"
  proof (cases "ix_data ix")
    case Global
    then show ?thesis using vt(2,3) index_invD(1) [OF inv] by (simp add: index_inv_def)
  next
    case (Local li)
    have "(vec_resize m None (li_ids li) ! j \<noteq> None) = row_valid ?ix j" if "j < m" for j
      using part [OF that] that valid fresh index_invD(6) [OF inv Local] Local
      by (cases "j < n") (auto simp: row_part_def)
    then show ?thesis
      using vt(2,3) index_invD(1,4,5) [OF inv] part_core_resize [OF index_invD(4) [OF inv Local] m] Local
      by (simp add: index_inv_def part_inhabited_def)
  qed
  then have "grown n m ix ?ix"
    using m part valid vt(4)
    by (cases "ix_data ix")
      (auto simp: grown_def same_schema_def nonpk_partition_key_columns_def row_epoch_def)
  then show "fst (resize_primary_ids_with m ix) = Ok ()" and "grown n m ix (snd (resize_primary_ids_with m ix))"
    using run by simp_all
qed

lemma push_partition_ids_ok:
  assumes "\<forall>i\<in>set idxs. i \<le> 2 ^ 48 - 1"
  shows "\<exists>ids. push_partition_ids x idxs free = (Ok (), free @ ids)
    \<and> list_all2 (\<lambda>i q. partition_try_new i x = Ok q) idxs ids"
  using assms
proof (induction idxs arbitrary: free)
  case (Cons i idxs)
  then obtain q where q: "partition_try_new i x = Ok q"
    by (auto simp: partition_try_new_pack)
  from Cons.IH [of "free @ [q]"] Cons.prems obtain ids where
    "push_partition_ids x idxs (free @ [q]) = (Ok (), (free @ [q]) @ ids)"
    "list_all2 (\<lambda>i q. partition_try_new i x = Ok q) idxs ids" by auto
  then show ?case
    using q by (intro exI [of _ "q # ids"]) simp
qed simp

lemma part_core_grow:
  assumes core: "part_core x n li" and free: "li_free_ids li = []"
    and ids: "list_all2 (\<lambda>i q. partition_try_new i x = Ok q) [length (li_keys li)..<length (li_keys li) + k] ids"
  shows "part_core x n (li\<lparr>li_free_ids := ids, li_keys := vec_resize (length (li_keys li) + k) None (li_keys li),
      li_sizes := vec_resize (length (li_keys li) + k) 0 (li_sizes li)\<rparr>)" (is "part_core x n ?li")
proof -
  let ?m = "length (li_keys li)"
  note c = part_coreD [OF core]
  have pool: "pool_inv partition_idx (\<lambda>q. partition_index_id q = x) (?m + k) (li_map li) ids"
    using partition_pool.pool_grow [OF c(1) [unfolded free] ids] .
  have new: "?m \<le> partition_idx q" if "q \<in> set ids" for q
    using ids that partition_try_new_Ok(1) by (fastforce simp: list_all2_conv_all_nth in_set_conv_nth)
  have old: "partition_idx q < ?m" if "bt_get (li_map li) key = Some q" for key q
    using part_used(1) [OF core that] .
  have empty: "rows_in (li_ids li) j = 0" if "?m \<le> j" for j
    using rows_in_pos [of "li_ids li" j] c(3,6) old that by (metis leD not_gr_zero)
  show ?thesis
    unfolding part_core_def
  proof (intro conjI allI impI ballI)
    show "pool_inv partition_idx (\<lambda>q. partition_index_id q = x) (length (li_keys ?li)) (li_map ?li) (li_free_ids ?li)"
      using pool by simp
    show "li_keys ?li ! partition_idx q = Some key" if "bt_get (li_map ?li) key = Some q" for key q
      using c(4) [of key q] old [of key q] that by (simp add: nth_vec_resize)
    show "li_keys ?li ! partition_idx q = None" if "q \<in> set (li_free_ids ?li)" for q
      using new [of q] partition_pool.pool_free(1) [OF pool, of q] that by (simp add: nth_vec_resize)
    show "li_sizes ?li ! j = rows_in (li_ids ?li) j" if "j < length (li_keys ?li)" for j
      using that c(2) c(7) [of j] empty [of j] by (simp add: nth_vec_resize)
    show "\<exists>key. bt_get (li_map ?li) key = Some q" if "i < n" "li_ids ?li ! i = Some q" for i q
      using c(6) that by simp
  qed (use c(2,3) in simp_all)
qed

lemma resize_partition_grown:
  assumes inv: "index_inv n ix"
    and room: "\<And>li. ix_data ix = Local li \<Longrightarrow> length (li_keys li) + INDEX_INCREMENT_SIZE \<le> 2 ^ 48"
  shows "fst (resize_partition_ids ix) = Ok ()" and "grown n n ix (snd (resize_partition_ids ix))"
    and "has_free_partition (snd (resize_partition_ids ix))"
proof -
  have "fst (resize_partition_ids ix) = Ok () \<and> grown n n ix (snd (resize_partition_ids ix)) \<and>
      has_free_partition (snd (resize_partition_ids ix))"
  proof (cases "ix_data ix")
    case Global
    then show ?thesis by (simp add: resize_partition_ids_def has_free_partition_def grown_refl inv)
  next
    case (Local li)
    show ?thesis
    proof (cases "li_free_ids li = []")
      case False
      then have "resize_partition_ids ix = (Ok (), ix)"
        using Local by (simp add: resize_partition_ids_def resize_partition_ids_local_def)
      then show ?thesis using False Local by (simp add: has_free_partition_def grown_refl inv)
    next
      case True
      note core = index_invD(4) [OF inv Local]
      let ?m = "length (li_keys li)"
      have len: "bt_len (li_map li) = ?m"
        using partition_pool.pool_full part_coreD(1) [OF core, unfolded True] .
      obtain ids where ids: "push_partition_ids (ix_index_id ix) [?m..<?m + INDEX_INCREMENT_SIZE] [] = (Ok (), ids)"
        "list_all2 (\<lambda>i q. partition_try_new i (ix_index_id ix) = Ok q) [?m..<?m + INDEX_INCREMENT_SIZE] ids"
        using push_partition_ids_ok [of "[?m..<?m + INDEX_INCREMENT_SIZE]" "ix_index_id ix" "[]"] room [OF Local] by auto
      let ?li = "li\<lparr>li_free_ids := ids, li_keys := vec_resize (?m + INDEX_INCREMENT_SIZE) None (li_keys li),
          li_sizes := vec_resize (?m + INDEX_INCREMENT_SIZE) 0 (li_sizes li)\<rparr>"
      let ?ix = "ix\<lparr>ix_data := Local ?li\<rparr>"
      have run: "resize_partition_ids ix = (Ok (), ?ix)"
        using ids(1) True len Local
        by (simp add: resize_partition_ids_def resize_partition_ids_local_def Let_def)
      have "part_inhabited {} ?li"
        using index_invD(5) [OF inv Local] part_used(1) [OF core] part_coreD(2) [OF core]
        by (auto simp: part_inhabited_def nth_vec_resize trans_less_add1)
      moreover have "row_valid ?ix j = row_valid ix j" "row_time ?ix j = row_time ix j" for j
        by (simp_all add: row_valid_def row_time_def)
      ultimately have "index_inv n ?ix"
        using part_core_grow [OF core True ids(2)] inv Local by (simp add: index_inv_def)
      then have "grown n n ix ?ix"
        using Local by (simp add: grown_def same_schema_def nonpk_partition_key_columns_def row_part_def row_time_def)
      moreover have "ids \<noteq> []"
        using ids(2) by (auto simp: INDEX_INCREMENT_SIZE_def)
      ultimately show ?thesis
        using run by (simp add: has_free_partition_def)
    qed
  qed
  then show "fst (resize_partition_ids ix) = Ok ()" and "grown n n ix (snd (resize_partition_ids ix))"
    and "has_free_partition (snd (resize_partition_ids ix))" by simp_all
qed

section \<open>Reserving identifiers\<close>

text \<open>What reserving changes: spare capacity only.\<close>

definition reserved :: "table \<Rightarrow> table \<Rightarrow> bool" where
  "reserved t t' \<longleftrightarrow>
     same_config t t' \<and> t_primary_ids t' = t_primary_ids t \<and>
     (\<forall>name. map_option col_type (bt_get (t_columns t') name) = map_option col_type (bt_get (t_columns t) name)) \<and>
     (\<forall>x. case bt_get (t_indexes t) x of
            None \<Rightarrow> bt_get (t_indexes t') x = None
          | Some ix \<Rightarrow> (\<exists>ix'. bt_get (t_indexes t') x = Some ix' \<and> grown (table_rows t) (table_rows t') ix ix'))"

lemma reserved_live: "reserved t t' \<Longrightarrow> live t' x = live t x"
  by (auto simp: reserved_def live_def grown_live split: option.splits dest: spec [of _ x])

lemma reserved_index:
  assumes "reserved t t'" and "bt_get (t_indexes t') x = Some ix'"
  obtains ix where "bt_get (t_indexes t) x = Some ix" and "grown (table_rows t) (table_rows t') ix ix'"
  using assms by (auto simp: reserved_def split: option.splits dest!: spec [of _ x])

lemma reserved_keyed:
  assumes "keyed t" and "reserved t t'" and "\<And>i. i < table_rows t \<Longrightarrow> t_primary_keys t' ! i = t_primary_keys t ! i"
  shows "keyed t'"
  unfolding keyed_def
proof (intro allI impI)
  fix i x ix' assume i: "i < table_rows t'" "t_primary_keys t' ! i = None" and ix': "bt_get (t_indexes t') x = Some ix'"
  obtain ix where ix: "bt_get (t_indexes t) x = Some ix" "grown (table_rows t) (table_rows t') ix ix'"
    using reserved_index [OF assms(2) ix'] .
  show "row_part ix' i = None"
  proof (cases "i < table_rows t")
    case True
    then have "row_part ix i = None" using assms(1,3) i ix(1) by (auto simp: keyed_def)
    then show ?thesis using ix(2) True by (simp add: grown_def)
  qed (use ix(2) i in \<open>simp add: grown_def\<close>)
qed

lemma same_config_refl [simp]: "same_config t t"
  by (simp add: same_config_def)

lemma table_invD:
  assumes "table_inv d t"
  shows "primary_inv d t" and "columns_inv (table_rows t) (t_columns t)"
    and "indexes_inv (table_rows t) (t_indexes t)"
    and "\<And>key x. bt_get (t_index_ids t) key = Some x \<Longrightarrow> \<exists>ix. bt_get (t_indexes t) x = Some ix"
    and "\<And>x ix. bt_get (t_indexes t) x = Some ix \<Longrightarrow> ix_index_id ix = x \<and> index_inv (table_rows t) ix"
  using assms by (auto simp: table_inv_def indexes_inv_def)

lemma reserved_refl: "table_inv d t \<Longrightarrow> reserved t t"
  using table_invD(5) [of d t] by (auto simp: reserved_def intro!: grown_refl split: option.splits)

lemma new_primary_ids_ok:
  "\<exists>k. k \<le> length idxs \<and> list_all2 (\<lambda>i p. primary_try_new i epoch_new = Ok p) (take k idxs) (new_primary_ids idxs)"
proof (induction idxs)
  case (Cons i idxs)
  then obtain k where k: "k \<le> length idxs"
    "list_all2 (\<lambda>i p. primary_try_new i epoch_new = Ok p) (take k idxs) (new_primary_ids idxs)" by blast
  show ?case
  proof (cases "primary_try_new i epoch_new")
    case (Inl e)
    then show ?thesis by (intro exI [of _ 0]) simp
  next
    case (Inr p)
    then show ?thesis using k by (intro exI [of _ "Suc k"]) simp
  qed
qed simp

lemma new_primary_ids_upt:
  "list_all2 (\<lambda>i p. primary_try_new i epoch_new = Ok p) [s..<s + length (new_primary_ids [s..<e])] (new_primary_ids [s..<e])"
proof -
  obtain k where k: "k \<le> e - s"
    "list_all2 (\<lambda>i p. primary_try_new i epoch_new = Ok p) (take k [s..<e]) (new_primary_ids [s..<e])"
    using new_primary_ids_ok [of "[s..<e]"] by auto
  moreover have "take k [s..<e] = [s..<s + k]"
    using k(1) by (cases "k = 0") simp_all
  moreover have "length (new_primary_ids [s..<e]) = k"
    using list_all2_lengthD [OF k(2)] k(1) by simp
  ultimately show ?thesis by simp
qed

lemma new_primary_ids_empty:
  assumes "new_primary_ids [s..<s + TABLE_INCREMENT_SIZE] = []"
  shows "2 ^ 48 - 2 < s"
proof -
  have "[s..<s + TABLE_INCREMENT_SIZE] = s # [Suc s..<s + TABLE_INCREMENT_SIZE]"
    by (rule upt_conv_Cons) (simp add: TABLE_INCREMENT_SIZE_def)
  then have "\<exists>e. primary_try_new s epoch_new = Err e"
    using assms by (cases "primary_try_new s epoch_new") auto
  then show ?thesis
    by (auto simp: primary_try_new_pack split: if_splits)
qed

lemma primary_inv_grow:
  assumes inv: "primary_inv d t" and free: "t_free_primary_ids t = []"
    and ids: "list_all2 (\<lambda>i p. primary_try_new i epoch_new = Ok p) [table_rows t..<table_rows t + length ids] ids"
    and t': "t_primary_ids t' = t_primary_ids t" "t_free_primary_ids t' = ids"
      "t_primary_keys t' = vec_resize (table_rows t + length ids) None (t_primary_keys t)" "same_config t t'"
  shows "primary_inv d t'"
proof -
  have pool: "pool_inv primary_idx (\<lambda>p. primary_epoch p = epoch_new) (table_rows t + length ids) (t_primary_ids t) ids"
    by (rule primary_pool.pool_grow [OF _ ids]) (use inv free in \<open>simp add: primary_inv_def\<close>)
  have old: "primary_idx p < table_rows t" if "bt_get (t_primary_ids t) k = Some p" for k p
    using primary_pool.pool_used(1) that inv unfolding primary_inv_def by metis
  have new: "table_rows t \<le> primary_idx p" if "p \<in> set ids" for p
    using ids that primary_try_new_Ok(1) by (fastforce simp: list_all2_conv_all_nth in_set_conv_nth)
  have keys: "t_primary_keys t' ! primary_idx p = t_primary_keys t ! primary_idx p"
    if "bt_get (t_primary_ids t) k = Some p" for k p
    using old [OF that] by (simp add: t' nth_vec_resize table_rows_def)
  have none: "t_primary_keys t' ! primary_idx p = None" if "p \<in> set ids" for p
    using new [OF that] primary_pool.pool_free(1) [OF pool that] by (simp add: t' nth_vec_resize table_rows_def)
  show ?thesis
    using inv pool keys none
    by (simp add: primary_inv_def table_rows_def t' normalize_cong [OF t'(4)])
qed

lemma reserve_primary_ids_ok:
  assumes inv: "table_inv d t" and run: "reserve_primary_ids t = (r, t')"
  shows "table_inv d t'" and "reserved t t'" and "r = Ok () \<Longrightarrow> t_free_primary_ids t' \<noteq> []"
    and "r \<noteq> Ok () \<Longrightarrow> t' = t \<and> r = Err (Bail ''Failed to reserve vector ids: no more ids available'') \<and>
           t_free_primary_ids t = [] \<and> 2 ^ 48 - 2 < bt_len (t_primary_ids t)"
    and "\<And>x ix li. bt_get (t_indexes t) x = Some ix \<Longrightarrow> ix_data ix = Local li \<Longrightarrow>
           \<exists>ix' li'. bt_get (t_indexes t') x = Some ix' \<and> ix_data ix' = Local li' \<and> li_keys li' = li_keys li"
proof -
  let ?ids = "new_primary_ids [bt_len (t_primary_ids t)..<bt_len (t_primary_ids t) + TABLE_INCREMENT_SIZE]"
  consider (free) "t_free_primary_ids t \<noteq> []" | (full) "t_free_primary_ids t = []" "?ids = []"
    | (grow) "t_free_primary_ids t = []" "?ids \<noteq> []" by blast
  then have "table_inv d t' \<and> reserved t t' \<and> (r = Ok () \<longrightarrow> t_free_primary_ids t' \<noteq> []) \<and>
      (r \<noteq> Ok () \<longrightarrow> t' = t \<and> r = Err (Bail ''Failed to reserve vector ids: no more ids available'') \<and>
         t_free_primary_ids t = [] \<and> 2 ^ 48 - 2 < bt_len (t_primary_ids t)) \<and>
      (\<forall>x ix li. bt_get (t_indexes t) x = Some ix \<longrightarrow> ix_data ix = Local li \<longrightarrow>
        (\<exists>ix' li'. bt_get (t_indexes t') x = Some ix' \<and> ix_data ix' = Local li' \<and> li_keys li' = li_keys li))"
  proof cases
    case free
    then have "r = Ok ()" "t' = t" using run by (simp_all add: reserve_primary_ids_def)
    then show ?thesis using inv reserved_refl [OF inv] free by auto
  next
    case full
    then have "t' = t" "r \<noteq> Ok ()" "r = Err (Bail ''Failed to reserve vector ids: no more ids available'')"
      using run by (auto simp: reserve_primary_ids_def Let_def)
    then show ?thesis using inv reserved_refl [OF inv] full new_primary_ids_empty [OF full(2)] by auto
  next
    case grow
    let ?n = "table_rows t"
    have len: "bt_len (t_primary_ids t) = ?n"
      using primary_pool.pool_full inv grow(1) by (auto simp: table_inv_def primary_inv_def)
    let ?m = "?n + length ?ids"
    have ix: "fst (resize_primary_ids_with ?m ix) = Ok () \<and> grown ?n ?m ix (snd (resize_primary_ids_with ?m ix))"
      if "bt_get (t_indexes t) x = Some ix" for x ix
      using resize_primary_grown [of ?n ix ?m] table_invD(5) [OF inv that] by simp
    have bt: "bt_inv (t_indexes t)" using table_invD(3) [OF inv] by (simp add: indexes_inv_def)
    have each: "bt_try_for_each (resize_primary_ids_with ?m) (t_indexes t) =
        (Ok (), bt_map (\<lambda>ix. snd (resize_primary_ids_with ?m ix)) (t_indexes t))"
      using ix by (intro bt_try_for_each_ok) (auto simp: bt_get_in_set [OF bt])
    have t': "t' = t\<lparr>t_free_primary_ids := ?ids, t_primary_keys := vec_resize ?m None (t_primary_keys t),
        t_columns := bt_map (column_resize_with ?m) (t_columns t),
        t_indexes := bt_map (\<lambda>ix. snd (resize_primary_ids_with ?m ix)) (t_indexes t)\<rparr>" and r: "r = Ok ()"
      using run grow each by (simp_all add: reserve_primary_ids_def Let_def len)
    have cfg: "same_config t t'" by (simp add: t' same_config_def)
    have rows: "table_rows t' = ?m" by (simp add: t' table_rows_def)
    have "primary_inv d t'"
    proof (rule primary_inv_grow [OF table_invD(1) [OF inv] grow(1)])
      show "list_all2 (\<lambda>i p. primary_try_new i epoch_new = Ok p) [?n..<?m] ?ids"
        using new_primary_ids_upt [of ?n] unfolding len .
    qed (simp_all add: t' same_config_def)
    moreover have "columns_inv ?m (t_columns t')"
      using table_invD(2) [OF inv] by (auto simp: columns_inv_def t' intro: col_inv_resize)
    moreover have "indexes_inv ?m (t_indexes t')"
      using table_invD(3,5) [OF inv] ix unfolding t' by (auto intro!: indexes_inv_map simp: grown_def same_schema_def)
    moreover have "\<exists>ix' li'. bt_get (t_indexes t') x = Some ix' \<and> ix_data ix' = Local li' \<and> li_keys li' = li_keys li"
      if "bt_get (t_indexes t) x = Some ix0" "ix_data ix0 = Local li" for x ix0 li
      using that by (auto simp: t' resize_primary_ids_with_def Let_def split: sum.splits)
    moreover have "reserved t t'"
      unfolding reserved_def rows using cfg ix by (auto simp: t' option.map_comp comp_def split: option.splits)
    moreover from this have "keyed t'"
      using reserved_keyed [of t t'] inv by (simp add: table_inv_def t' table_rows_def nth_vec_resize)
    ultimately show ?thesis
      using inv grow(2) r rows by (auto simp: table_inv_def t')
  qed
  then show "table_inv d t'" and "reserved t t'" and "r = Ok () \<Longrightarrow> t_free_primary_ids t' \<noteq> []"
    and "r \<noteq> Ok () \<Longrightarrow> t' = t \<and> r = Err (Bail ''Failed to reserve vector ids: no more ids available'') \<and>
           t_free_primary_ids t = [] \<and> 2 ^ 48 - 2 < bt_len (t_primary_ids t)"
    and "\<And>x ix li. bt_get (t_indexes t) x = Some ix \<Longrightarrow> ix_data ix = Local li \<Longrightarrow>
           \<exists>ix' li'. bt_get (t_indexes t') x = Some ix' \<and> ix_data ix' = Local li' \<and> li_keys li' = li_keys li"
    by simp_all
qed

lemma reserve_partition_ids_ok:
  assumes inv: "table_inv d t" and room: "partition_room t"
  obtains t' where "reserve_partition_ids t = (Ok (), t')" and "table_inv d t'" and "reserved t t'"
    and "t_free_primary_ids t' = t_free_primary_ids t"
    and "\<forall>x ix. bt_get (t_indexes t') x = Some ix \<longrightarrow> has_free_partition ix"
proof -
  let ?n = "table_rows t" and ?f = "\<lambda>ix. snd (resize_partition_ids ix)"
  have ix: "fst (resize_partition_ids ix) = Ok () \<and> grown ?n ?n ix (?f ix) \<and> has_free_partition (?f ix)"
    if "bt_get (t_indexes t) x = Some ix" for x ix
    using resize_partition_grown [of ?n ix] table_invD(5) [OF inv that] room that
    by (auto simp: partition_room_def)
  have bt: "bt_inv (t_indexes t)" using table_invD(3) [OF inv] by (simp add: indexes_inv_def)
  let ?t = "t\<lparr>t_indexes := bt_map ?f (t_indexes t)\<rparr>"
  have "bt_try_for_each resize_partition_ids (t_indexes t) = (Ok (), bt_map ?f (t_indexes t))"
    using ix by (intro bt_try_for_each_ok) (auto simp: bt_get_in_set [OF bt])
  then have run: "reserve_partition_ids t = (Ok (), ?t)"
    by (simp add: reserve_partition_ids_def)
  have rows: "table_rows ?t = ?n" by (simp add: table_rows_def)
  have cfg: "same_config t ?t" by (simp add: same_config_def)
  have "primary_inv d ?t"
    using table_invD(1) [OF inv] by (simp add: primary_inv_def rows normalize_cong [OF cfg])
  moreover have "indexes_inv ?n (bt_map ?f (t_indexes t))"
    using table_invD(3,5) [OF inv] ix by (auto intro!: indexes_inv_map simp: grown_def same_schema_def)
  moreover have res: "reserved t ?t"
    unfolding reserved_def rows using cfg ix by (auto split: option.splits)
  moreover have "keyed ?t"
    using reserved_keyed [OF _ res] inv by (simp add: table_inv_def)
  ultimately have "table_inv d ?t"
    using inv by (auto simp: table_inv_def rows)
  with res show thesis
    using run ix by (intro that [of ?t]) auto
qed

section \<open>Primary keys\<close>

lemma add_primary_key_ok:
  assumes inv: "table_inv d t" and key: "key_of vs key" and run: "add_primary_key d key t = (r, t')"
  shows "table_inv d t'" and "t_indexes t' = t_indexes t" and "t_columns t' = t_columns t"
    and "same_config t t'" and "table_rows t' = table_rows t"
    and "\<And>p. r = Ok p \<Longrightarrow> primary_idx p < table_rows t \<and> primary_epoch p = epoch_new \<and>
           (\<exists>k. normalize_primary_key d t key = Ok k \<and> bt_get (t_primary_ids t') k = Some p \<and>
             (\<forall>q. bt_get (t_primary_ids t) k = Some q \<longrightarrow> q = p \<and> t' = t))"
    and "\<And>e. r = Err e \<Longrightarrow> t' = t \<and>
           (normalize_primary_key d t key = Err e \<or>
            (t_free_primary_ids t = [] \<and> (\<exists>k. normalize_primary_key d t key = Ok k \<and> bt_get (t_primary_ids t) k = None)))"
proof -
  note pinv = table_invD(1) [OF inv, unfolded primary_inv_def]
  have "table_inv d t' \<and> t_indexes t' = t_indexes t \<and> t_columns t' = t_columns t \<and> same_config t t' \<and>
      table_rows t' = table_rows t \<and>
      (\<forall>p. r = Ok p \<longrightarrow> primary_idx p < table_rows t \<and> primary_epoch p = epoch_new \<and>
        (\<exists>k. normalize_primary_key d t key = Ok k \<and> bt_get (t_primary_ids t') k = Some p \<and>
           (\<forall>q. bt_get (t_primary_ids t) k = Some q \<longrightarrow> q = p \<and> t' = t))) \<and>
      (\<forall>e. r = Err e \<longrightarrow> t' = t \<and> (normalize_primary_key d t key = Err e \<or>
        (t_free_primary_ids t = [] \<and> (\<exists>k. normalize_primary_key d t key = Ok k \<and> bt_get (t_primary_ids t) k = None))))"
  proof (cases "normalize_primary_key d t key")
    case (Inl e)
    then show ?thesis using run inv by (auto simp: add_primary_key_def)
  next
    case (Inr k)
    show ?thesis
    proof (cases "bt_get (t_primary_ids t) k")
      case (Some p)
      then have "r = Ok p" "t' = t" using run Inr by (auto simp: add_primary_key_def)
      then show ?thesis
        using inv Some Inr primary_pool.pool_used [OF conjunct1 [OF pinv] Some] by auto
    next
      case None
      show ?thesis
      proof (cases "t_free_primary_ids t")
        case Nil
        then show ?thesis using run Inr None inv by (auto simp: add_primary_key_def take_primary_id_def)
      next
        case (Cons p ps)
        note pool = conjunct1 [OF pinv, unfolded Cons]
        have p: "primary_idx p < table_rows t" "primary_epoch p = epoch_new"
          using primary_pool.pool_free [OF pool, of p] by simp_all
        have fresh: "primary_idx q \<noteq> primary_idx p" if "bt_get (t_primary_ids t) l = Some q" for l q
          using primary_pool.pool_disjoint [OF pool that, of p] by simp
        define t1 where "t1 = t\<lparr>t_free_primary_ids := ps, t_primary_ids := bt_insert k p (t_primary_ids t),
            t_primary_keys := (t_primary_keys t)[primary_idx p := Some key]\<rparr>"
        have t1: "r = Ok p" "t' = t1"
          using run Inr None Cons p by (auto simp: add_primary_key_def take_primary_id_def Let_def table_rows_def t1_def)
        have cfg: "same_config t t1" and rows: "table_rows t1 = table_rows t"
          by (simp_all add: t1_def same_config_def table_rows_def)
        have "primary_inv d t1"
          unfolding primary_inv_def normalize_cong [OF cfg] rows
        proof (intro conjI allI impI ballI)
          show "pool_inv primary_idx (\<lambda>p. primary_epoch p = epoch_new) (table_rows t) (t_primary_ids t1) (t_free_primary_ids t1)"
            using primary_pool.pool_take [OF pool None] by (simp add: t1_def)
          show "\<exists>key vs. t_primary_keys t1 ! primary_idx q = Some key \<and> key_of vs key \<and> normalize_primary_key d t key = Ok l"
            if "bt_get (t_primary_ids t1) l = Some q" for l q
          proof (cases "l = k")
            case True
            then show ?thesis using that p(1) key Inr by (auto simp: t1_def table_rows_def)
          next
            case False
            then have q: "bt_get (t_primary_ids t) l = Some q" using that by (simp add: t1_def)
            then show ?thesis using conjunct1 [OF conjunct2 [OF pinv]] fresh [OF q] by (simp add: t1_def)
          qed
          show "t_primary_keys t1 ! primary_idx q = None" if "q \<in> set (t_free_primary_ids t1)" for q
            using pinv that primary_pool.pool_free_hd [OF pool, of q] by (simp add: t1_def Cons)
        qed
        moreover have "keyed t1"
          using inv p(1) by (auto simp: table_inv_def keyed_def rows) (auto simp: t1_def table_rows_def nth_list_update split: if_splits)
        ultimately have "table_inv d t1"
          using inv by (simp add: table_inv_def rows) (simp add: t1_def)
        then show ?thesis
          using t1 p cfg rows Inr None by (simp add: t1_def)
      qed
    qed
  qed
  then show "table_inv d t'" and "t_indexes t' = t_indexes t" and "t_columns t' = t_columns t"
    and "same_config t t'" and "table_rows t' = table_rows t"
    and "\<And>p. r = Ok p \<Longrightarrow> primary_idx p < table_rows t \<and> primary_epoch p = epoch_new \<and>
           (\<exists>k. normalize_primary_key d t key = Ok k \<and> bt_get (t_primary_ids t') k = Some p \<and>
             (\<forall>q. bt_get (t_primary_ids t) k = Some q \<longrightarrow> q = p \<and> t' = t))"
    and "\<And>e. r = Err e \<Longrightarrow> t' = t \<and>
           (normalize_primary_key d t key = Err e \<or>
            (t_free_primary_ids t = [] \<and> (\<exists>k. normalize_primary_key d t key = Ok k \<and> bt_get (t_primary_ids t) k = None)))"
    by simp_all
qed

section \<open>Columns\<close>

lemma column_write_case:
  "(case val of Some v \<Rightarrow> column_insert p t v col | None \<Rightarrow> column_remove p t col) = column_write p t val col"
  by (simp add: column_write_def)

lemma update_columns_inv:
  assumes "columns_inv n columns" and "\<forall>(t, v)\<in>set vals. \<forall>x. v = Some x \<longrightarrow> storable x"
    and "update_columns p names vals columns = (r, columns')"
  shows "columns_inv n columns'"
  using assms
proof (induction p names vals columns rule: update_columns.induct)
  case (1 p name names t val vals columns)
  show ?case
  proof (cases "bt_get columns name")
    case None
    then show ?thesis using 1 by simp
  next
    case (Some col)
    show ?thesis
    proof (cases "column_write p t val col")
      case (Inl e)
      then show ?thesis using 1 Some by (simp add: column_write_case)
    next
      case (Inr col')
      have "col_inv n col'"
      proof (rule col_inv_write [OF _ Inr])
        show "col_inv n col" using "1.prems"(1) Some by (simp add: columns_inv_def)
        show "storable x" if "val = Some x" for x using "1.prems"(2) that by simp
      qed
      then have "columns_inv n (bt_insert name col' columns)"
        using "1.prems"(1) by (auto simp: columns_inv_def)
      then show ?thesis
      proof (rule "1.IH" [OF Some Inr [folded column_write_case]])
        show "update_columns p names vals (bt_insert name col' columns) = (r, columns')"
          using "1.prems"(3) Some Inr by (simp add: column_write_case)
      qed (use "1.prems"(2) in simp)
    qed
  qed
qed simp_all

section \<open>Partition keys\<close>

lemma key_of_storable: "key_of vs k \<Longrightarrow> v \<in> set vs \<Longrightarrow> storable v"
  by (auto simp: key_of_iff storable_def list_all_iff in_set_conv_nth result_simps dest: collect_result_nth)

lemma column_value_ok:
  assumes cols: "columns_inv n columns" and keys: "\<And>key. cv_get keys p = Some (Some key) \<Longrightarrow> \<exists>vs. key_of vs key"
  shows "\<exists>v. column_value columns keys p name = Ok v \<and> (\<forall>x. v = Some x \<longrightarrow> storable x)"
proof (cases "bt_get columns name")
  case None
  then show ?thesis by (simp add: column_value_def)
next
  case (Some col)
  then have inv: "col_inv n col" using cols by (simp add: columns_inv_def)
  show ?thesis
  proof (cases "col_type col")
    case None
    then obtain off where col: "col = ColPrimaryKey off" by (cases col) simp_all
    show ?thesis
    proof (cases "cv_get keys p")
      case None
      then show ?thesis using Some col by (simp add: column_value_def)
    next
      case (Some k)
      show ?thesis
      proof (cases k)
        case None
        then show ?thesis using Some \<open>bt_get columns name = _\<close> col by (simp add: column_value_def)
      next
        case (Some key)
        then obtain vs where vs: "key_of vs key" using keys \<open>cv_get keys p = _\<close> by blast
        then show ?thesis
          using Some \<open>cv_get keys p = _\<close> \<open>bt_get columns name = _\<close> col key_of_storable [OF vs]
          by (auto simp: column_value_def ik_get_key_of)
      qed
    qed
  next
    case (Some ty)
    then show ?thesis
      using column_get_cells [OF inv, of p keys] inv \<open>bt_get columns name = _\<close>
      by (auto simp: column_value_def col_inv_def list_all_length cell_ok_def vec_get_def)
  qed
qed

lemma collect_key_total:
  assumes "\<And>name. \<exists>v. get name = Ok v \<and> (\<forall>x. v = Some x \<longrightarrow> storable x)"
  shows "\<exists>k. collect_key get names cnt buf = Ok k"
proof (induction names arbitrary: cnt buf)
  case (Cons name names)
  obtain v where v: "get name = Ok v" "\<forall>x. v = Some x \<longrightarrow> storable x" using assms by blast
  show ?case
  proof (cases v)
    case (Some x)
    then obtain b where "encode_value x = Ok b" using v(2) by (auto simp: storable_def result_simps)
    then show ?thesis using v Some Cons by simp
  qed (use v in simp)
qed simp

lemma get_partition_key_total:
  assumes cols: "columns_inv n columns" and keys: "\<And>key. cv_get keys p = Some (Some key) \<Longrightarrow> \<exists>vs. key_of vs key"
    and inv: "index_inv n ix" and i: "primary_idx p < n"
  shows "\<exists>pp. get_partition_key (ix_index_id ix) p keys columns (ix_data ix) = Ok pp \<and> target_ok ix (primary_idx p) pp"
proof (cases "ix_data ix")
  case Global
  then show ?thesis by (simp add: target_ok_def)
next
  case (Local li)
  have len: "primary_idx p < length (li_ids li)"
    using part_coreD(3) [OF index_invD(4) [OF inv Local]] i by simp
  have total: "\<exists>v. column_value columns keys p name = Ok v \<and> (\<forall>x. v = Some x \<longrightarrow> storable x)" for name
    using cols keys by (rule column_value_ok)
  obtain k where "partition_key p (li_partition_key_columns li) keys columns = Ok k"
    using collect_key_total [of "column_value columns keys p", OF total] unfolding partition_key_def by blast
  then have "\<exists>pp. get_partition_key_local p keys columns li = Ok pp"
    using len by (auto simp: get_partition_key_local_def vec_get_def split: list.splits option.splits)
  then show ?thesis
    using Local get_partition_key_ok [OF _ len] by (auto simp: target_ok_def)
qed

end
