(* ===== verification/Table_Correct.thy ===== *)
theory Table_Correct
  imports Table_Invariant
begin

text \<open>
  The correctness of the write path of a table: \<open>upsert\<close> and \<open>delete\<close> keep the invariant on
  every outcome and refine the abstract index, stale writes are ignored, deletes remove, and
  an upsert fails only for the reasons the code names.
\<close>

section \<open>One row\<close>

lemma stored_row:
  assumes inv: "table_inv d t" and i: "i < table_rows t" and key: "t_primary_keys t ! i = Some key"
  obtains k p where "bt_get (t_primary_ids t) k = Some p" and "primary_idx p = i"
proof -
  note pinv = table_invD(1) [OF inv, unfolded primary_inv_def]
  have "i \<in> primary_idx ` set (map snd (t_primary_ids t) @ t_free_primary_ids t)"
    using primary_pool.pool_cover [OF conjunct1 [OF pinv]] i by simp
  then obtain q where q: "i = primary_idx q"
    and "q \<in> set (map snd (t_primary_ids t) @ t_free_primary_ids t)" by (rule imageE)
  then have "q \<in> set (map snd (t_primary_ids t)) \<or> q \<in> set (t_free_primary_ids t)"
    by (simp only: set_append Un_iff)
  moreover have "q \<notin> set (t_free_primary_ids t)"
    using conjunct2 [OF conjunct2 [OF pinv]] key q by (metis option.distinct(1))
  ultimately have used: "q \<in> set (map snd (t_primary_ids t))" by blast
  have "bt_inv (t_primary_ids t)" using pinv by (simp add: pool_inv_def)
  then show thesis using in_snd_bt_get [OF _ used] q that by blast
qed

lemma stored_key_ok:
  assumes inv: "table_inv d t" and key: "cv_get (t_primary_keys t) p = Some (Some key)"
  shows "\<exists>vs. key_of vs key"
proof -
  have i: "primary_idx p < table_rows t" "t_primary_keys t ! primary_idx p = Some key"
    using key by (auto simp: cv_get_def vec_get_def table_rows_def split: if_splits)
  obtain k q where "bt_get (t_primary_ids t) k = Some q" "primary_idx q = primary_idx p"
    using stored_row [OF inv i] .
  then show ?thesis
    using table_invD(1) [OF inv, unfolded primary_inv_def] i(2) by (metis option.inject)
qed

text \<open>
  The outcome of \<open>update_row\<close> for the row \<open>p\<close> of the index \<open>x\<close>: the columns refuse a value and
  no index changes, or the update is skipped, or the row moves.
\<close>

definition row_outcome ::
  "table \<Rightarrow> index_id \<Rightarrow> primary_id \<Rightarrow> splitting_values option \<Rightarrow> unit timestamped \<Rightarrow> operation list result \<Rightarrow> table \<Rightarrow> bool" where
  "row_outcome t x p values ts r t' \<longleftrightarrow>
     (\<exists>ix. bt_get (t_indexes t) x = Some ix \<and>
       (case r of
          Inl e \<Rightarrow> t_indexes t' = t_indexes t
        | Inr ops \<Rightarrow> (\<exists>ix' pp.
            get_partition_key x p (t_primary_keys t) (t_columns t') (ix_data ix) = Ok pp \<and>
            t_indexes t' = bt_insert x ix' (t_indexes t) \<and>
            (if skip_update (cmp_of ix (primary_idx p) ts) pp \<or> pp = Missing then ops = [] \<and> ix' = ix
             else row_moved (\<exists>q. pp = MissingKey q) (table_rows t) p ts values ix ops ix'))))"

lemma row_outcome_live:
  assumes "row_outcome t x p values ts r t'" and "primary_idx p < table_rows t" and "table_rows t' = table_rows t"
  shows "case r of Inl e \<Rightarrow> live t' x = live t x | Inr ops \<Rightarrow> index_exec_all ops (live t x) = Some (live t' x)"
    and "y \<noteq> x \<Longrightarrow> live t' y = live t y"
proof -
  obtain ix where ix: "bt_get (t_indexes t) x = Some ix" using assms(1) by (auto simp: row_outcome_def)
  have "(case r of Inl e \<Rightarrow> live t' x = live t x | Inr ops \<Rightarrow> index_exec_all ops (live t x) = Some (live t' x)) \<and>
      (y \<noteq> x \<longrightarrow> live t' y = live t y)"
  proof (cases r)
    case (Inl e)
    then have "t_indexes t' = t_indexes t" using assms(1) by (simp add: row_outcome_def)
    then show ?thesis using Inl assms(3) by (simp add: live_def split: option.split)
  next
    case (Inr ops)
    then obtain ix' pp where t': "t_indexes t' = bt_insert x ix' (t_indexes t)"
      and moved: "if skip_update (cmp_of ix (primary_idx p) ts) pp \<or> pp = Missing then ops = [] \<and> ix' = ix
             else row_moved (\<exists>q. pp = MissingKey q) (table_rows t) p ts values ix ops ix'"
      using assms(1) ix by (auto simp: row_outcome_def)
    have "index_exec_all ops (live_index (table_rows t) ix) = Some (live_index (table_rows t) ix')"
      using moved row_moved_exec [OF _ assms(2)] by (cases "skip_update (cmp_of ix (primary_idx p) ts) pp \<or> pp = Missing") auto
    then show ?thesis using Inr ix t' assms(3) by (simp add: live_def split: option.split)
  qed
  then show "case r of Inl e \<Rightarrow> live t' x = live t x | Inr ops \<Rightarrow> index_exec_all ops (live t x) = Some (live t' x)"
    and "y \<noteq> x \<Longrightarrow> live t' y = live t y" by simp_all
qed

lemma update_row_ok:
  assumes inv: "table_inv d t" and ix: "bt_get (t_indexes t) x = Some ix" and i: "primary_idx p < table_rows t"
    and pkey: "t_primary_keys t ! primary_idx p \<noteq> None"
    and vals: "\<forall>(t, v)\<in>set filtering. \<forall>y. v = Some y \<longrightarrow> storable y"
    and ts: "is_valid ts \<longleftrightarrow> values \<noteq> None" and wf: "timestamped_wf ts"
    and room: "values \<noteq> None \<Longrightarrow> has_free_partition ix"
    and run: "update_row x p names filtering values [ts] ix t = (r, t')"
  shows "table_inv d t'" and "same_config t t'" and "table_rows t' = table_rows t"
    and "t_primary_ids t' = t_primary_ids t" and "row_outcome t x p values ts r t'"
    and "\<And>e. r = Err e \<Longrightarrow> fst (update_columns p names filtering (t_columns t)) = Err e"
proof -
  let ?n = "table_rows t"
  obtain rc columns where cols: "update_columns p names filtering (t_columns t) = (rc, columns)" by fastforce
  have cinv: "columns_inv ?n columns"
    using update_columns_inv [OF table_invD(2) [OF inv] vals cols] .
  note iinv = table_invD(5) [OF inv ix]
  define t1 where "t1 = t\<lparr>t_columns := columns\<rparr>"
  have rows: "table_rows (t1\<lparr>t_indexes := ixs\<rparr>) = ?n" for ixs by (simp add: t1_def table_rows_def)
  have inv1: "table_inv d (t1\<lparr>t_indexes := ixs\<rparr>)" if "indexes_inv ?n ixs" "\<And>y. bt_get (t_indexes t) y \<noteq> None \<Longrightarrow> bt_get ixs y \<noteq> None"
      "\<And>y ix j. bt_get ixs y = Some ix \<Longrightarrow> j < ?n \<Longrightarrow> t_primary_keys t ! j = None \<Longrightarrow> row_part ix j = None" for ixs
  proof -
    have cfg: "same_config t (t1\<lparr>t_indexes := ixs\<rparr>)" by (simp add: t1_def same_config_def)
    have "primary_inv d (t1\<lparr>t_indexes := ixs\<rparr>)"
      using table_invD(1) [OF inv] unfolding primary_inv_def normalize_cong [OF cfg] rows by (simp add: t1_def)
    moreover have "keyed (t1\<lparr>t_indexes := ixs\<rparr>)"
      using that(3) unfolding keyed_def rows by (simp add: t1_def)
    ultimately show ?thesis
      using that(1,2) cinv table_invD(4) [OF inv] by (simp add: table_inv_def rows) (fastforce simp: t1_def)
  qed
  have inv1': "table_inv d t1"
    using inv1 [OF table_invD(3) [OF inv]] inv by (simp add: t1_def table_inv_def keyed_def)
  have "table_inv d t' \<and> same_config t t' \<and> table_rows t' = ?n \<and> t_primary_ids t' = t_primary_ids t \<and>
      row_outcome t x p values ts r t' \<and> (\<forall>e. r = Err e \<longrightarrow> rc = Err e)"
  proof (cases rc)
    case (Inl e)
    then have "r = Err e" "t' = t1" using run cols by (auto simp: update_row_def t1_def)
    then show ?thesis
      using inv1' ix Inl by (auto simp: row_outcome_def same_config_def t1_def table_rows_def)
  next
    case (Inr u)
    obtain pp where pp: "get_partition_key x p (t_primary_keys t) columns (ix_data ix) = Ok pp" "target_ok ix (primary_idx p) pp"
      using get_partition_key_total [OF cinv _ conjunct2 [OF iinv] i, of "t_primary_keys t"] stored_key_ok [OF inv] iinv by metis
    obtain ro ix' where up: "update_index p pp values [ts] ix = (ro, ix')" by fastforce
    have res: "r = ro" "t' = t1\<lparr>t_indexes := bt_insert x ix' (t_indexes t)\<rparr>"
      using run cols Inr pp(1) up by (auto simp: update_row_def Let_def t1_def)
    from update_index_cases [OF conjunct2 [OF iinv] i pp(2) ts wf room]
    obtain ops where ops: "ro = Ok ops"
      "if skip_update (cmp_of ix (primary_idx p) ts) pp \<or> pp = Missing then ops = [] \<and> ix' = ix
       else row_moved (\<exists>q. pp = MissingKey q) ?n p ts values ix ops ix'"
      using up by (auto split: if_splits)
    have "index_inv ?n ix' \<and> ix_index_id ix' = x"
      using ops(2) iinv by (auto simp: row_moved_def same_schema_def split: if_splits)
    then have "indexes_inv ?n (bt_insert x ix' (t_indexes t))"
      using table_invD(3) [OF inv] by (auto simp: indexes_inv_def)
    moreover have "row_part ix1 j = None"
      if "bt_get (bt_insert x ix' (t_indexes t)) y = Some ix1" "j < ?n" "t_primary_keys t ! j = None" for y ix1 j
    proof -
      have old: "row_part ix2 j = None" if "bt_get (t_indexes t) z = Some ix2" for z ix2
        using inv \<open>j < ?n\<close> \<open>t_primary_keys t ! j = None\<close> that by (auto simp: table_inv_def keyed_def)
      moreover have "j \<noteq> primary_idx p" using that(3) pkey by auto
      ultimately show ?thesis
        using that(1,2) ops(2) old [OF ix] by (auto simp: row_moved_def split: if_splits)
    qed
    ultimately have "table_inv d t'"
      unfolding res(2) by (intro inv1) auto
    moreover have "row_outcome t x p values ts r t'"
      unfolding row_outcome_def res(1) ops(1) sum.case using ix ops(2) pp(1)
      by (intro exI [of _ ix] conjI exI [of _ ix'] exI [of _ pp]) (simp_all add: res(2) t1_def)
    ultimately show ?thesis
      using res ops rows by (simp add: same_config_def) (simp add: t1_def)
  qed
  then show "table_inv d t'" and "same_config t t'" and "table_rows t' = table_rows t"
    and "t_primary_ids t' = t_primary_ids t" and "row_outcome t x p values ts r t'"
    and "\<And>e. r = Err e \<Longrightarrow> fst (update_columns p names filtering (t_columns t)) = Err e"
    using cols by simp_all
qed

section \<open>The values of a row\<close>

definition values_ok :: "db_indexed_value timestamped list \<Rightarrow> bool" where
  "values_ok vals \<longleftrightarrow> (\<forall>v\<in>set vals. \<forall>x. fst (into_value v) = Some (DbFiltering x) \<longrightarrow> storable x)"

lemma split_filtering_ok:
  "split_filtering v = Ok (t, w) \<Longrightarrow> fst (into_value v) = map_option DbFiltering w"
  by (auto simp: split_filtering_def split: option.splits db_indexed_value.splits)

lemma into_value_valid: "fst (into_value v) = None \<longleftrightarrow> \<not> is_valid v"
  by (simp add: into_value_def)

lemma split_values_ok:
  assumes "split_values_filtering vals = Ok s" and "values_ok vals"
  obtains ts where "sv_timestamps s = [ts]" and "timestamped_wf ts" and "is_valid ts \<longleftrightarrow> sv_values s \<noteq> None"
    and "timestamp_of ts = timestamp_of (hd vals)" and "is_valid ts \<longleftrightarrow> is_valid (hd vals)"
    and "\<forall>(t, v)\<in>set (sv_filtering s). \<forall>y. v = Some y \<longrightarrow> storable y"
proof -
  obtain v rest where vals: "vals = v # rest"
    using assms(1) by (cases vals) (auto simp: split_values_filtering_def)
  let ?ts = "if is_valid v then new_valid (timestamp_of v) else new_tombstone (timestamp_of v)"
  have s: "sv_timestamps s = [?ts]" "collect_result split_filtering rest = Ok (sv_filtering s)"
    "sv_values s \<noteq> None \<longleftrightarrow> is_valid v"
    using assms(1) into_value_valid [of v]
    by (auto simp: split_values_filtering_def vals Let_def result_simps split: option.splits)
  have "storable y" if fv: "(t, Some y) \<in> set (sv_filtering s)" for t y
  proof -
    obtain i where i: "i < length (sv_filtering s)" "sv_filtering s ! i = (t, Some y)"
      using fv by (auto simp: in_set_conv_nth)
    then have "i < length rest" "split_filtering (rest ! i) = Ok (t, Some y)"
      using collect_result_length [OF s(2)] collect_result_nth [OF s(2), of i] by simp_all
    then show ?thesis
      using assms(2) split_filtering_ok [of "rest ! i" t "Some y"] nth_mem [of i rest]
      by (auto simp: values_ok_def vals)
  qed
  then show thesis
    using s
    by (intro that [of ?ts]) (auto simp: vals new_valid_def new_tombstone_def new_valid_or_tombstone_new)
qed

section \<open>Reserving before an upsert\<close>

lemma same_config_trans: "same_config t t1 \<Longrightarrow> same_config t1 t2 \<Longrightarrow> same_config t t2"
  by (simp add: same_config_def)

lemma grown_trans:
  assumes "grown n m a b" and "grown m k b c"
  shows "grown n k a c"
proof -
  have "row_part c j = None" if "n \<le> j" "j < k" for j
    using assms that by (cases "j < m") (auto simp: grown_def)
  then show ?thesis
    using assms by (auto simp: grown_def same_schema_def)
qed

lemma reserved_at:
  assumes "reserved t t'"
  shows "bt_get (t_indexes t) x = None \<Longrightarrow> bt_get (t_indexes t') x = None"
    and "bt_get (t_indexes t) x = Some ix \<Longrightarrow>
      \<exists>ix'. bt_get (t_indexes t') x = Some ix' \<and> grown (table_rows t) (table_rows t') ix ix'"
  using assms [unfolded reserved_def, THEN conjunct2, THEN conjunct2, THEN conjunct2, THEN spec, of x] by auto

lemma reserved_trans: "reserved t t1 \<Longrightarrow> reserved t1 t2 \<Longrightarrow> reserved t t2"
proof -
  assume a: "reserved t t1" and b: "reserved t1 t2"
  have "case bt_get (t_indexes t) x of None \<Rightarrow> bt_get (t_indexes t2) x = None
      | Some ix \<Rightarrow> \<exists>ix'. bt_get (t_indexes t2) x = Some ix' \<and> grown (table_rows t) (table_rows t2) ix ix'" for x
  proof (cases "bt_get (t_indexes t) x")
    case None
    then show ?thesis using reserved_at(1) [OF b reserved_at(1) [OF a]] by simp
  next
    case (Some ix)
    then obtain ix1 where 1: "bt_get (t_indexes t1) x = Some ix1" "grown (table_rows t) (table_rows t1) ix ix1"
      using reserved_at(2) [OF a] by blast
    then obtain ix2 where "bt_get (t_indexes t2) x = Some ix2" "grown (table_rows t1) (table_rows t2) ix1 ix2"
      using reserved_at(2) [OF b] by blast
    then show ?thesis using Some grown_trans [OF 1(2)] by auto
  qed
  then show "reserved t t2"
    using a b same_config_trans unfolding reserved_def by auto
qed

lemma reserve_ok:
  assumes inv: "table_inv d t" and r48: "partition_room t"
  obtains (full) "reserve_primary_ids t = (Err (Bail ''Failed to reserve vector ids: no more ids available''), t)"
      and "t_free_primary_ids t = []" and "2 ^ 48 - 2 < bt_len (t_primary_ids t)"
  | (room) t1 t2 where "reserve_primary_ids t = (Ok (), t1)" and "reserve_partition_ids t1 = (Ok (), t2)"
      and "table_inv d t2" and "reserved t t2" and "t_free_primary_ids t2 \<noteq> []"
      and "\<forall>x ix. bt_get (t_indexes t2) x = Some ix \<longrightarrow> has_free_partition ix"
proof -
  obtain r t1 where run: "reserve_primary_ids t = (r, t1)" by fastforce
  note res = reserve_primary_ids_ok [OF inv run]
  show thesis
  proof (cases "r = Ok ()")
    case False
    then show thesis using that(1) run res(4) by simp
  next
    case True
    have "partition_room t1"
      unfolding partition_room_def
    proof (intro allI impI)
      fix x ix1 li1 assume ix1: "bt_get (t_indexes t1) x = Some ix1" and li1: "ix_data ix1 = Local li1"
      obtain ix where ix: "bt_get (t_indexes t) x = Some ix" "grown (table_rows t) (table_rows t1) ix ix1"
        using reserved_index [OF res(2) ix1] .
      then obtain li where li: "ix_data ix = Local li"
        using li1 by (cases "ix_data ix") (auto simp: grown_def same_schema_def)
      then have "li_keys li1 = li_keys li" using res(5) [OF ix(1) li] ix1 li1 by auto
      then show "length (li_keys li1) + INDEX_INCREMENT_SIZE \<le> 2 ^ 48"
        using r48 ix(1) li by (auto simp: partition_room_def)
    qed
    then obtain t2 where t2: "reserve_partition_ids t1 = (Ok (), t2)" "table_inv d t2" "reserved t1 t2"
      "t_free_primary_ids t2 = t_free_primary_ids t1"
      "\<forall>x ix. bt_get (t_indexes t2) x = Some ix \<longrightarrow> has_free_partition ix"
      using reserve_partition_ids_ok [OF res(1)] by blast
    then show thesis
      using run True res(3) reserved_trans [OF res(2) t2(3)] by (intro that(2) [of t1 t2]) simp_all
  qed
qed

section \<open>upsert\<close>

text \<open>
  An upsert that found its row: \<open>t3\<close> is the table before the row is updated, \<open>p\<close> the row.
\<close>

definition at_row :: "driver \<Rightarrow> table \<Rightarrow> primary_key \<Rightarrow> table \<Rightarrow> primary_id \<Rightarrow> bool" where
  "at_row d t key t3 p \<longleftrightarrow>
     table_inv d t3 \<and> same_config t t3 \<and> primary_idx p < table_rows t3 \<and>
     (\<forall>x ix3. bt_get (t_indexes t3) x = Some ix3 \<longrightarrow>
        (\<exists>ix. bt_get (t_indexes t) x = Some ix \<and> grown (table_rows t) (table_rows t3) ix ix3)) \<and>
     (\<forall>name. map_option col_type (bt_get (t_columns t3) name) = map_option col_type (bt_get (t_columns t) name)) \<and>
     (\<forall>x. live t3 x = live t x) \<and>
     (\<exists>k. normalize_primary_key d t key = Ok k \<and> bt_get (t_primary_ids t3) k = Some p \<and>
        (\<forall>q. bt_get (t_primary_ids t) k = Some q \<longrightarrow> q = p))"

lemma live_cong: "t_indexes t' = t_indexes t \<Longrightarrow> table_rows t' = table_rows t \<Longrightarrow> live t' x = live t x"
  by (simp add: live_def split: option.split)

lemma at_row_add:
  assumes inv: "table_inv d t2" and key: "key_of vs key" and run: "add_primary_key d key t2 = (Ok p, t3)"
    and res: "reserved t t2"
  shows "at_row d t key t3 p"
proof -
  note add = add_primary_key_ok [OF inv key run]
  have cfg: "same_config t t2" and ids: "t_primary_ids t2 = t_primary_ids t" using res by (auto simp: reserved_def)
  obtain k where k: "normalize_primary_key d t2 key = Ok k" "bt_get (t_primary_ids t3) k = Some p"
    "\<forall>q. bt_get (t_primary_ids t2) k = Some q \<longrightarrow> q = p"
    using add(6) [OF refl] by blast
  have "\<exists>ix. bt_get (t_indexes t) x = Some ix \<and> grown (table_rows t) (table_rows t3) ix ix3"
    if "bt_get (t_indexes t3) x = Some ix3" for x ix3
    using reserved_index [OF res, of x ix3] that add(2,5) by metis
  moreover have "live t3 x = live t x" for x
    using live_cong [OF add(2,5), of x] reserved_live [OF res, of x] by simp
  ultimately show ?thesis
    using add(1,3,5) same_config_trans [OF cfg add(4)] add(6) [OF refl] k ids res
    by (auto simp: at_row_def normalize_cong [OF cfg] reserved_def)
qed

lemma at_row_key:
  assumes "at_row d t key t3 p"
  shows "primary_idx p < table_rows t3" and "t_primary_keys t3 ! primary_idx p \<noteq> None"
  using assms by (fastforce simp: at_row_def table_inv_def primary_inv_def)+

text \<open>The errors an upsert can return before it touches the row.\<close>

definition upsert_refused :: "driver \<Rightarrow> index_key \<Rightarrow> primary_key \<Rightarrow> db_indexed_value timestamped list \<Rightarrow> table \<Rightarrow> bool" where
  "upsert_refused d key pk vals t \<longleftrightarrow>
     (t_free_primary_ids t = [] \<and> bt_len (t_primary_ids t) > 2 ^ 48 - 2) \<or>
     bt_get (t_index_ids t) key = None \<or>
     \<not> is_ok (normalize_primary_key d t pk) \<or>
     \<not> is_ok (split_values_filtering vals)"

lemma upsert_cases:
  assumes inv: "table_inv d t" and key: "key_of vs pk" and vals: "values_ok vals" and room: "partition_room t"
    and run: "upsert d key pk vals t = (r, t')"
  obtains (refused) e where "r = Err e" and "table_inv d t'" and "same_config t t'"
      and "\<forall>x. live t' x = live t x" and "upsert_refused d key pk vals t"
  | (row) x p t3 ix s ts where "bt_get (t_index_ids t) key = Some x" and "at_row d t pk t3 p"
      and "bt_get (t_indexes t3) x = Some ix" and "split_values_filtering vals = Ok s"
      and "timestamp_of ts = timestamp_of (hd vals)" and "is_valid ts \<longleftrightarrow> sv_values s \<noteq> None"
      and "is_valid ts \<longleftrightarrow> is_valid (hd vals)" and "row_outcome t3 x p (sv_values s) ts r t'"
      and "table_inv d t'" and "same_config t t'" and "table_rows t' = table_rows t3"
      and "t_primary_ids t' = t_primary_ids t3"
      and "\<And>e. r = Err e \<Longrightarrow> fst (update_columns p (nonpk_partition_key_columns ix @ ix_filtering_columns ix)
             (sv_filtering s) (t_columns t3)) = Err e"
proof (rule reserve_ok [OF inv room])
  assume f: "reserve_primary_ids t = (Err (Bail ''Failed to reserve vector ids: no more ids available''), t)"
    "t_free_primary_ids t = []" "2 ^ 48 - 2 < bt_len (t_primary_ids t)"
  then have "r = Err (Bail ''Failed to reserve vector ids: no more ids available'')" "t' = t"
    using run by (simp_all add: upsert_def)
  then show thesis using refused f inv by (simp add: upsert_refused_def)
next
  fix t1 t2
  assume t12: "reserve_primary_ids t = (Ok (), t1)" "reserve_partition_ids t1 = (Ok (), t2)"
    and inv2: "table_inv d t2" and res: "reserved t t2" and free: "t_free_primary_ids t2 \<noteq> []"
    and parts: "\<forall>x ix. bt_get (t_indexes t2) x = Some ix \<longrightarrow> has_free_partition ix"
  have cfg: "same_config t t2" using res by (simp add: reserved_def)
  show thesis
  proof (cases "bt_get (t_index_ids t) key")
    case None
    then have "r = Err (Bail ''Index key not found'')" "t' = t2"
      using run t12 cfg by (auto simp: upsert_def same_config_def)
    then show thesis
      using refused inv2 cfg reserved_live [OF res] None by (simp add: upsert_refused_def)
  next
    case (Some x)
    obtain rp t3 where add: "add_primary_key d pk t2 = (rp, t3)" by fastforce
    note a = add_primary_key_ok [OF inv2 key add]
    have cfg3: "same_config t t3" using same_config_trans [OF cfg a(4)] .
    have live3: "live t3 y = live t y" for y
      using live_cong [OF a(2,5), of y] reserved_live [OF res, of y] by simp
    obtain ix where ix: "bt_get (t_indexes t3) x = Some ix"
      using table_invD(4) [OF inv2, of key x] Some cfg a(2) by (auto simp: same_config_def)
    have stem: "upsert d key pk vals t = (case rp of Inl e \<Rightarrow> (Inl e, t3) | Inr p \<Rightarrow>
        (case split_values_filtering vals of Inl e \<Rightarrow> (Inl e, t3) | Inr s \<Rightarrow>
          update_row x p (nonpk_partition_key_columns ix @ ix_filtering_columns ix)
            (sv_filtering s) (sv_values s) (sv_timestamps s) ix t3))"
      using t12 Some cfg add ix by (simp add: upsert_def same_config_def split: sum.split)
    show thesis
    proof (cases rp)
      case (Inl e)
      then have "\<not> is_ok (normalize_primary_key d t pk)"
        using a(7) [OF Inl] free normalize_cong [OF cfg] by auto
      then show thesis
        using refused [of e] Inl stem run a(1) cfg3 live3 by (simp add: upsert_refused_def)
    next
      case (Inr p)
      show thesis
      proof (cases "split_values_filtering vals")
        case (Inl e)
        then show thesis
          using refused [of e] Inr stem run a(1) cfg3 live3 by (simp add: upsert_refused_def)
      next
        case (Inr s)
        note s = Inr
        obtain ts where ts: "sv_timestamps s = [ts]" "timestamped_wf ts" "is_valid ts \<longleftrightarrow> sv_values s \<noteq> None"
          "timestamp_of ts = timestamp_of (hd vals)" "is_valid ts \<longleftrightarrow> is_valid (hd vals)"
          "\<forall>(t, v)\<in>set (sv_filtering s). \<forall>y. v = Some y \<longrightarrow> storable y"
          using split_values_ok [OF s vals] .
        have row: "at_row d t pk t3 p"
          using at_row_add [OF inv2 key _ res] add \<open>rp = Ok p\<close> by simp
        note p = at_row_key [OF row]
        have up: "update_row x p (nonpk_partition_key_columns ix @ ix_filtering_columns ix)
            (sv_filtering s) (sv_values s) [ts] ix t3 = (r, t')"
          using stem run s \<open>rp = Ok p\<close> ts(1) by simp
        have hf: "has_free_partition ix" using parts ix a(2) by simp
        note u = update_row_ok [OF a(1) ix p ts(6,3,2) hf up]
        show thesis
          by (rule that(2) [OF Some row ix s ts(4,3,5) u(5,1) same_config_trans [OF cfg3 u(2)] u(3,4,6)])
      qed
    qed
  qed
qed

section \<open>delete\<close>

definition delete_refused :: "driver \<Rightarrow> index_key \<Rightarrow> primary_key \<Rightarrow> table \<Rightarrow> bool" where
  "delete_refused d key pk t \<longleftrightarrow>
     bt_get (t_index_ids t) key = None \<or>
     (case normalize_primary_key d t pk of
        Inl _ \<Rightarrow> True
      | Inr k \<Rightarrow> t_free_primary_ids t = [] \<and> bt_get (t_primary_ids t) k = None)"

lemma delete_cases:
  assumes inv: "table_inv d t" and key: "key_of vs pk" and run: "delete d key pk timestamp t = (r, t')"
  obtains (refused) e where "r = Err e" and "t' = t" and "delete_refused d key pk t"
  | (row) x p t3 ix where "bt_get (t_index_ids t) key = Some x" and "at_row d t pk t3 p"
      and "bt_get (t_indexes t3) x = Some ix" and "t_columns t3 = t_columns t"
      and "row_outcome t3 x p None (new_tombstone timestamp) r t'"
      and "table_inv d t'" and "same_config t t'" and "table_rows t' = table_rows t3"
      and "t_primary_ids t' = t_primary_ids t3"
      and "\<And>e. r = Err e \<Longrightarrow> fst (update_columns p (ix_filtering_columns ix)
             (map (\<lambda>_. (timestamp, None)) (ix_filtering_columns ix)) (t_columns t3)) = Err e"
proof (cases "bt_get (t_index_ids t) key")
  case None
  then show thesis using that(1) run by (auto simp: delete_def delete_refused_def)
next
  case (Some x)
  obtain rp t3 where add: "add_primary_key d pk t = (rp, t3)" by fastforce
  note a = add_primary_key_ok [OF inv key add]
  obtain ix where ix: "bt_get (t_indexes t3) x = Some ix"
    using table_invD(4) [OF inv Some] a(2) by auto
  show thesis
  proof (cases rp)
    case (Inl e)
    then show thesis
      using that(1) run Some add a(7) [OF Inl] by (auto simp: delete_def delete_refused_def)
  next
    case (Inr p)
    have up: "update_row x p (ix_filtering_columns ix) (map (\<lambda>_. (timestamp, None)) (ix_filtering_columns ix))
        None [new_tombstone timestamp] ix t3 = (r, t')"
      using run Some add ix Inr by (simp add: delete_def)
    have row: "at_row d t pk t3 p"
      using at_row_add [OF inv key _ reserved_refl [OF inv]] add Inr by simp
    note p = at_row_key [OF row]
    have tomb: "is_valid (new_tombstone timestamp) \<longleftrightarrow> (None :: splitting_values option) \<noteq> None"
      by (simp add: new_tombstone_def new_valid_or_tombstone_new)
    note u = update_row_ok [OF a(1) ix p _ tomb new_tombstone_wf _ up]
    show thesis
      by (rule that(2) [OF Some row ix a(3) u(5) u(1) same_config_trans [OF a(4) u(2)] u(3,4,6)]) auto
  qed
qed

lemma refines_intro:
  assumes "case r of Inl e \<Rightarrow> live t' x = live t3 x | Inr ops \<Rightarrow> index_exec_all ops (live t3 x) = Some (live t' x)"
    and "\<And>y. y \<noteq> x \<Longrightarrow> live t' y = live t3 y" and "\<And>y. live t3 y = live t y"
  shows "case r of Inl e \<Rightarrow> \<forall>y. live t' y = live t y
     | Inr ops \<Rightarrow> index_exec_all ops (live t x) = Some (live t' x) \<and> (\<forall>y. y \<noteq> x \<longrightarrow> live t' y = live t y)"
proof (cases r)
  case (Inl e)
  have "live t' y = live t y" for y
    using assms Inl by (cases "y = x") simp_all
  then show ?thesis using Inl by simp
next
  case (Inr ops)
  then show ?thesis using assms by simp
qed

section \<open>The row an operation is about\<close>

text \<open>\<open>row_of d t pk p\<close>: the primary key \<open>pk\<close> is known to the table as the row \<open>p\<close>.\<close>

definition row_of :: "driver \<Rightarrow> table \<Rightarrow> primary_key \<Rightarrow> primary_id \<Rightarrow> bool" where
  "row_of d t pk p \<longleftrightarrow>
     (\<exists>k. normalize_primary_key d t pk = Ok k \<and> bt_get (t_primary_ids t) k = Some p)"

lemma at_row_known:
  assumes row: "at_row d t pk t3 p" and known: "row_of d t pk p0" and inv: "table_inv d t"
    and ix: "bt_get (t_indexes t) x = Some ix"
  shows "p = p0" and "primary_idx p < table_rows t"
    and "\<And>ix3. bt_get (t_indexes t3) x = Some ix3 \<Longrightarrow>
      row_time ix3 (primary_idx p) = row_time ix (primary_idx p) \<and>
      row_part ix3 (primary_idx p) = row_part ix (primary_idx p) \<and> same_schema ix ix3 \<and>
      row_epoch (ix_values_timestamps ix3) (primary_idx p) = row_epoch (ix_values_timestamps ix) (primary_idx p)"
proof -
  obtain k where k: "normalize_primary_key d t pk = Ok k" "bt_get (t_primary_ids t) k = Some p0"
    using known by (auto simp: row_of_def)
  show p: "p = p0" using row k by (auto simp: at_row_def)
  have "pool_inv primary_idx (\<lambda>p. primary_epoch p = epoch_new) (table_rows t) (t_primary_ids t) (t_free_primary_ids t)"
    using inv by (simp add: table_inv_def primary_inv_def)
  then show i: "primary_idx p < table_rows t"
    using primary_pool.pool_used(1) k(2) unfolding p by blast
  fix ix3 assume "bt_get (t_indexes t3) x = Some ix3"
  then have "\<exists>ix0. bt_get (t_indexes t) x = Some ix0 \<and> grown (table_rows t) (table_rows t3) ix0 ix3"
    using row by (simp add: at_row_def)
  then have "grown (table_rows t) (table_rows t3) ix ix3" using ix by simp
  then show "row_time ix3 (primary_idx p) = row_time ix (primary_idx p) \<and>
      row_part ix3 (primary_idx p) = row_part ix (primary_idx p) \<and> same_schema ix ix3 \<and>
      row_epoch (ix_values_timestamps ix3) (primary_idx p) = row_epoch (ix_values_timestamps ix) (primary_idx p)"
    using i by (simp add: grown_def)
qed

lemma skip_stale:
  "timestamp_of ts < row_time ix i \<Longrightarrow> skip_update (cmp_of ix i ts) pp"
  by (auto simp: skip_update_def cmp_of_def)

lemma no_skip_newer:
  "row_time ix i < timestamp_of ts \<Longrightarrow> \<not> skip_update (cmp_of ix i ts) pp"
  by (simp add: skip_update_def cmp_of_def)

text \<open>A row without a partition key that is not indexed: not live in a local index.\<close>

lemma missing_not_indexed:
  assumes "index_inv n ix" and "primary_idx p < n"
    and "get_partition_key x p keys columns (ix_data ix) = Ok Missing"
  shows "row_part ix (primary_idx p) = None"
proof (cases "ix_data ix")
  case (Local li)
  then have "pp_ok li (primary_idx p) Missing"
    using get_partition_key_ok [of p keys columns li Missing] assms part_coreD(3) [OF index_invD(4) [OF assms(1) Local]]
    by simp
  then show ?thesis using Local by (simp add: row_part_def)
qed (use assms(3) in simp)

lemma live_index_row:
  "(q, p) \<in> live_index n ix \<Longrightarrow> row_part ix (primary_idx p) = Some q"
  by (simp add: live_index_def live_of_def)

lemma split_values_value:
  assumes "split_values_filtering vals = Ok s" and "is_valid (hd vals)"
  obtains dv v where "fst (into_value (hd vals)) = Some dv" and "split_value dv = Ok v" and "sv_values s = Some v"
proof -
  obtain w rest where vals: "vals = w # rest"
    using assms(1) by (cases vals) (auto simp: split_values_filtering_def)
  obtain dv where dv: "fst (into_value w) = Some dv"
    using into_value_valid [of w] assms(2) vals by auto
  then show thesis
    using assms(1) that [of dv]
    by (auto simp: split_values_filtering_def vals Let_def result_simps)
qed

section \<open>When the columns accept a row\<close>

text \<open>Every written column exists, is no primary-key column and has the type of the value.\<close>

definition columns_accept ::
  "(column_name, column) btree \<Rightarrow> column_name list \<Rightarrow> (timestamp \<times> cql_value option) list \<Rightarrow> bool" where
  "columns_accept columns names vals \<longleftrightarrow>
     list_all (\<lambda>(name, _, v). case bt_get columns name of None \<Rightarrow> False | Some col \<Rightarrow> col_accepts col v) (zip names vals)"

lemma columns_accept_cong:
  assumes "\<And>name. map_option col_type (bt_get a name) = map_option col_type (bt_get b name)"
  shows "columns_accept a names vals = columns_accept b names vals"
proof -
  have "(case bt_get a name of None \<Rightarrow> False | Some col \<Rightarrow> col_accepts col v) =
      (case bt_get b name of None \<Rightarrow> False | Some col \<Rightarrow> col_accepts col v)" for name v
    using assms [of name] by (cases "bt_get a name"; cases "bt_get b name") (auto simp: col_accepts_def)
  then show ?thesis by (simp add: columns_accept_def)
qed

lemma update_columns_total:
  assumes "columns_inv n columns" and "primary_idx p < n" and "columns_accept columns names vals"
    and "\<forall>(t, v)\<in>set vals. \<forall>x. v = Some x \<longrightarrow> storable x"
  shows "fst (update_columns p names vals columns) = Ok ()"
  using assms
proof (induction p names vals columns rule: update_columns.induct)
  case (1 p name names t val vals columns)
  obtain col where col: "bt_get columns name = Some col" and acc: "col_accepts col val"
    using "1.prems"(3) by (auto simp: columns_accept_def split: option.splits)
  have cinv: "col_inv n col" using "1.prems"(1) col by (simp add: columns_inv_def)
  then obtain col' where w: "column_write p t val col = Ok col'"
    using acc "1.prems"(2) column_write_ok_iff [of p t val col] by (auto simp: col_inv_def col_accepts_def)
  have "col_inv n col'"
    using cinv w by (rule col_inv_write) (use "1.prems"(4) in auto)
  then have inv': "columns_inv n (bt_insert name col' columns)"
    using "1.prems"(1) by (auto simp: columns_inv_def)
  have "columns_accept (bt_insert name col' columns) names vals"
    using "1.prems"(3) column_write_cells(2) [OF w] col
      columns_accept_cong [of "bt_insert name col' columns" columns names vals]
    by (auto simp: columns_accept_def)
  then have "fst (update_columns p names vals (bt_insert name col' columns)) = Ok ()"
    using "1.IH" [OF col w [folded column_write_case] inv' "1.prems"(2)] "1.prems"(4) by simp
  then show ?case
    using col w by (simp add: column_write_case)
qed simp_all

section \<open>Properties\<close>

text \<open>
  C2: \<open>upsert\<close> refines the abstract index, on every outcome. It keeps the invariant of the
  table; when it succeeds, the operations it returns, executed in order by an index that
  refuses to add a row identifier twice, to remove a missing entry or to drop a partition in use, take
  the live rows of the addressed index before the call to those after it, and no other index
  changes its live rows; when it fails no index does.
\<close>

theorem upsert_refines:
  assumes "table_inv d t" and "key_of vs pk" and "values_ok vals" and "partition_room t"
  shows "case upsert d key pk vals t of (r, t') \<Rightarrow>
    table_inv d t' \<and> same_config t t' \<and>
    (case r of
       Inl e \<Rightarrow> \<forall>x. live t' x = live t x
     | Inr ops \<Rightarrow> \<exists>x. bt_get (t_index_ids t) key = Some x \<and>
         index_exec_all ops (live t x) = Some (live t' x) \<and> (\<forall>y. y \<noteq> x \<longrightarrow> live t' y = live t y))"
proof -
  obtain r t' where run: "upsert d key pk vals t = (r, t')" by fastforce
  from assms run show ?thesis
  proof (rule upsert_cases)
    fix x p t3 s ts ix
    assume x: "bt_get (t_index_ids t) key = Some x" and row: "at_row d t pk t3 p"
      and out: "row_outcome t3 x p (sv_values s) ts r t'" and t': "table_inv d t'" "same_config t t'"
      and rows: "table_rows t' = table_rows t3"
    have p: "primary_idx p < table_rows t3" and live3: "\<And>y. live t3 y = live t y"
      using row by (simp_all add: at_row_def)
    note l = row_outcome_live [OF out p rows]
    show ?thesis
      using refines_intro [OF l live3] run x t' by (cases r) auto
  qed (use run in auto)
qed

text \<open>
  C3: \<open>delete\<close> refines the abstract index, on every outcome, in the same sense as \<open>upsert\<close>. It
  needs no free identifiers of partitions, because it never creates one.
\<close>

theorem delete_refines:
  assumes "table_inv d t" and "key_of vs pk"
  shows "case delete d key pk timestamp t of (r, t') \<Rightarrow>
    table_inv d t' \<and> same_config t t' \<and>
    (case r of
       Inl e \<Rightarrow> \<forall>x. live t' x = live t x
     | Inr ops \<Rightarrow> \<exists>x. bt_get (t_index_ids t) key = Some x \<and>
         index_exec_all ops (live t x) = Some (live t' x) \<and> (\<forall>y. y \<noteq> x \<longrightarrow> live t' y = live t y))"
proof -
  obtain r t' where run: "delete d key pk timestamp t = (r, t')" by fastforce
  from assms run show ?thesis
  proof (rule delete_cases)
    fix x p t3 ix
    assume x: "bt_get (t_index_ids t) key = Some x" and row: "at_row d t pk t3 p"
      and out: "row_outcome t3 x p None (new_tombstone timestamp) r t'" and t': "table_inv d t'" "same_config t t'"
      and rows: "table_rows t' = table_rows t3"
    have p: "primary_idx p < table_rows t3" and live3: "\<And>y. live t3 y = live t y"
      using row by (simp_all add: at_row_def)
    show ?thesis
      using refines_intro [OF row_outcome_live [OF out p rows] live3] run x t' by (cases r) auto
  qed (use run assms in auto)
qed

text \<open>
  C6: a stale upsert is ignored. For a known row whose value has a newer timestamp in the index,
  an upsert returns no operations if it succeeds, and changes the live rows of no index.
\<close>

theorem stale_upsert_ignored:
  assumes "table_inv d t" and "key_of vs pk" and "values_ok vals" and "partition_room t"
    and "bt_get (t_index_ids t) key = Some x" and "bt_get (t_indexes t) x = Some ix"
    and "row_of d t pk p" and "timestamp_of (hd vals) < row_time ix (primary_idx p)"
  shows "case upsert d key pk vals t of (r, t') \<Rightarrow>
    (\<forall>y. live t' y = live t y) \<and> (\<forall>ops. r = Ok ops \<longrightarrow> ops = [])"
proof -
  obtain r t' where run: "upsert d key pk vals t = (r, t')" by fastforce
  from assms(1-4) run show ?thesis
  proof (rule upsert_cases)
    fix x' p' t3 s ts ix3
    assume x': "bt_get (t_index_ids t) key = Some x'" and row: "at_row d t pk t3 p'"
      and ix3: "bt_get (t_indexes t3) x' = Some ix3" and ts: "timestamp_of ts = timestamp_of (hd vals)"
      and out: "row_outcome t3 x' p' (sv_values s) ts r t'" and rows: "table_rows t' = table_rows t3"
    have x: "x' = x" using x' assms(5) by simp
    note k = at_row_known [OF row assms(7,1,6)]
    have "timestamp_of ts < row_time ix3 (primary_idx p')"
      using k(3) ix3 assms(8) ts by (simp add: x k(1))
    then have skip: "skip_update (cmp_of ix3 (primary_idx p') ts) pp" for pp by (rule skip_stale)
    have "ops = []" if "r = Ok ops" for ops
      using out ix3 skip that by (auto simp: row_outcome_def)
    moreover have "live t' y = live t3 y" for y
      using row_outcome_live [OF out _ rows] row calculation
      by (cases "y = x'"; cases r) (auto simp: at_row_def)
    ultimately show ?thesis
      using run row by (simp add: at_row_def)
  qed (use run in auto)
qed

text \<open>
  A successful delete removes. When the delete carries a newer timestamp than the row has
  in the index, no entry of the row is live in the index afterwards.
\<close>

theorem delete_removes_row:
  assumes "table_inv d t" and "key_of vs pk" and "timestamp_wf timestamp"
    and "bt_get (t_index_ids t) key = Some x" and "bt_get (t_indexes t) x = Some ix"
    and "row_of d t pk p" and "row_time ix (primary_idx p) < timestamp"
  shows "case delete d key pk timestamp t of (r, t') \<Rightarrow>
    is_ok r \<longrightarrow> (\<forall>(q, p')\<in>live t' x. primary_idx p' \<noteq> primary_idx p)"
proof -
  obtain r t' where run: "delete d key pk timestamp t = (r, t')" by fastforce
  from assms(1,2) run show ?thesis
  proof (rule delete_cases)
    fix x' p' t3 ix3
    assume x': "bt_get (t_index_ids t) key = Some x'" and row: "at_row d t pk t3 p'"
      and ix3: "bt_get (t_indexes t3) x' = Some ix3"
      and out: "row_outcome t3 x' p' None (new_tombstone timestamp) r t'" and rows: "table_rows t' = table_rows t3"
    have x: "x' = x" using x' assms(4) by simp
    note k = at_row_known [OF row assms(6,1,5)]
    have tomb: "timestamp_of (new_tombstone timestamp) = timestamp"
      using assms(3) by (simp add: new_tombstone_def new_valid_or_tombstone_new)
    then have noskip: "\<not> skip_update (cmp_of ix3 (primary_idx p') (new_tombstone timestamp)) pp" for pp
      using k(3) ix3 assms(7) by (intro no_skip_newer) (simp add: x k(1))
    have inv3: "index_inv (table_rows t3) ix3" and i: "primary_idx p' < table_rows t3"
      using row table_invD(5) [of d t3 x' ix3] ix3 by (auto simp: at_row_def)
    have gone: "row_part ix' (primary_idx p') = None"
      if ops: "r = Ok ops" and ix': "bt_get (t_indexes t') x = Some ix'" for ops ix'
    proof -
      obtain pp where pp: "get_partition_key x' p' (t_primary_keys t3) (t_columns t') (ix_data ix3) = Ok pp"
        and moved: "if pp = Missing then ix' = ix3 else row_moved (\<exists>q. pp = MissingKey q) (table_rows t3) p' (new_tombstone timestamp) None ix3 ops ix'"
        using out ix3 ops ix' noskip x by (auto simp: row_outcome_def split: if_splits)
      show ?thesis
        using moved missing_not_indexed [OF inv3 i] pp i by (auto simp: row_moved_def split: if_splits)
    qed
    show ?thesis
      using run gone k(1) by (auto simp: live_def result_simps split: option.splits dest!: live_index_row)
  qed (use run in \<open>simp add: result_simps\<close>)
qed

text \<open>
  A newer upsert of a value is indexed. On a global index, a successful upsert of a valid
  value with a timestamp newer than the row's returns the removal of the row's old entry, if it
  had one, and then the addition of the new value under the row's next epoch; afterwards that
  entry is the only live one of the row.
\<close>

theorem newer_upsert_indexed:
  assumes "table_inv d t" and "key_of vs pk" and "values_ok vals" and "partition_room t"
    and "bt_get (t_index_ids t) key = Some x" and "bt_get (t_indexes t) x = Some ix" and "ix_data ix = Global"
    and "row_of d t pk p" and "row_time ix (primary_idx p) < timestamp_of (hd vals)" and "is_valid (hd vals)"
  shows "case upsert d key pk vals t of (r, t') \<Rightarrow>
    \<forall>ops. r = Ok ops \<longrightarrow>
     (\<exists>dv v. fst (into_value (hd vals)) = Some dv \<and> split_value dv = Ok v \<and>
        (let cur = row_epoch (ix_values_timestamps ix) (primary_idx p);
             old = row_part ix (primary_idx p)
         in ops = (case old of None \<Rightarrow> [] | Some c \<Rightarrow> [RemoveBeforeAddValue (new_epoch p cur) c]) @
               [add_operation (new_epoch p (epoch_next cur)) (partition_global x) v (old \<noteq> None)] \<and>
            (\<forall>q p'. (q, p') \<in> live t' x \<and> primary_idx p' = primary_idx p \<longleftrightarrow>
               q = partition_global x \<and> p' = new_epoch p (epoch_next cur))))"
proof -
  obtain r t' where run: "upsert d key pk vals t = (r, t')" by fastforce
  from assms(1-4) run show ?thesis
  proof (rule upsert_cases)
    fix x' p' t3 s ts ix3
    assume x': "bt_get (t_index_ids t) key = Some x'" and row: "at_row d t pk t3 p'"
      and ix3: "bt_get (t_indexes t3) x' = Some ix3" and s: "split_values_filtering vals = Ok s"
      and ts: "timestamp_of ts = timestamp_of (hd vals)" "is_valid ts \<longleftrightarrow> is_valid (hd vals)"
      and out: "row_outcome t3 x' p' (sv_values s) ts r t'" and rows: "table_rows t' = table_rows t3"
      and inv': "table_inv d t'"
    have [simp]: "x' = x" using x' assms(5) by simp
    have [simp]: "p' = p" using at_row_known(1) [OF row assms(8,1,6)] .
    note k = at_row_known(3) [OF row assms(8,1,6), of ix3, unfolded \<open>p' = p\<close>]
    let ?i = "primary_idx p" and ?cur = "row_epoch (ix_values_timestamps ix) (primary_idx p)"
    have k3: "row_time ix3 ?i = row_time ix ?i" "row_part ix3 ?i = row_part ix ?i" "same_schema ix ix3"
      "row_epoch (ix_values_timestamps ix3) ?i = ?cur"
      using k ix3 by simp_all
    have noskip: "\<not> skip_update (cmp_of ix3 ?i ts) pp" for pp
      using assms(9) ts(1) k3(1) by (intro no_skip_newer) simp
    have i: "?i < table_rows t3" using row by (simp add: at_row_def)
    have g3: "ix_data ix3 = Global" "ix_index_id ix3 = x"
      using k3(3) assms(6,7) table_invD(5) [OF assms(1)] by (auto simp: same_schema_def)
    obtain dv v where v: "fst (into_value (hd vals)) = Some dv" "split_value dv = Ok v" "sv_values s = Some v"
      using split_values_value [OF s assms(10)] .
    have moved: "\<exists>ix'. bt_get (t_indexes t') x = Some ix' \<and> row_moved False (table_rows t3) p ts (Some v) ix3 ops ix'"
      if "r = Ok ops" for ops
      using out ix3 noskip that g3 v(3) by (auto simp: row_outcome_def)
    show ?thesis
      unfolding run prod.case
    proof (intro allI impI)
      fix ops assume "r = Ok ops"
      then obtain ix' where ix': "bt_get (t_indexes t') x = Some ix'" and mv: "row_moved False (table_rows t3) p ts (Some v) ix3 ops ix'"
        using moved by blast
      from mv obtain ts' tgt dropped where m: "ts' \<in> {ts, set_tombstone ts}" "tgt \<noteq> None"
        "index_inv (table_rows t3) ix'" "same_schema ix3 ix'"
        "\<forall>j<table_rows t3. row_part ix' j = ((row_part ix3)(?i := tgt)) j"
        "\<forall>j<table_rows t3. row_epoch (ix_values_timestamps ix') j =
           ((row_epoch (ix_values_timestamps ix3))(?i := epoch_next (row_epoch (ix_values_timestamps ix3) ?i))) j"
        "dropped \<longrightarrow> tgt \<noteq> row_part ix3 ?i"
        "ops = move_ops (row_part ix3 ?i) tgt dropped (new_epoch p (row_epoch (ix_values_timestamps ix3) ?i))
           (new_epoch p (epoch_next (row_epoch (ix_values_timestamps ix3) ?i))) (Some v)"
        unfolding row_moved_def by blast
      show "\<exists>dv v. fst (into_value (hd vals)) = Some dv \<and> split_value dv = Ok v \<and>
        (let cur = ?cur; old = row_part ix ?i
         in ops = (case old of None \<Rightarrow> [] | Some c \<Rightarrow> [RemoveBeforeAddValue (new_epoch p cur) c]) @
               [add_operation (new_epoch p (epoch_next cur)) (partition_global x) v (old \<noteq> None)] \<and>
            (\<forall>q p'. (q, p') \<in> live t' x \<and> primary_idx p' = ?i \<longleftrightarrow>
               q = partition_global x \<and> p' = new_epoch p (epoch_next cur)))"
      proof (intro exI conjI)
        show "fst (into_value (hd vals)) = Some dv" "split_value dv = Ok v" using v by simp_all
        have tgt: "tgt = Some (partition_global x)"
          using m(2-5) g3 i by (auto simp: row_part_def same_schema_def split: if_splits)
        have old: "row_part ix ?i \<in> {None, Some (partition_global x)}"
          using g3 unfolding k3(2) [symmetric] by (simp add: row_part_def)
        have "ops = (case row_part ix ?i of None \<Rightarrow> [] | Some c \<Rightarrow> [RemoveBeforeAddValue (new_epoch p ?cur) c]) @
               [add_operation (new_epoch p (epoch_next ?cur)) (partition_global x) v (row_part ix ?i \<noteq> None)]"
          using m(7,8) tgt old k3(2,4) by (auto simp: move_ops_def)
        moreover have "(q, p') \<in> live t' x \<and> primary_idx p' = ?i \<longleftrightarrow>
            q = partition_global x \<and> p' = new_epoch p (epoch_next ?cur)" for q p'
          using m(5,6) tgt i k3(4) ix' rows
          by (auto simp: live_def live_index_def live_of_def primary_id_eq_iff)
        ultimately show "let cur = ?cur; old = row_part ix ?i
         in ops = (case old of None \<Rightarrow> [] | Some c \<Rightarrow> [RemoveBeforeAddValue (new_epoch p cur) c]) @
               [add_operation (new_epoch p (epoch_next cur)) (partition_global x) v (old \<noteq> None)] \<and>
            (\<forall>q p'. (q, p') \<in> live t' x \<and> primary_idx p' = ?i \<longleftrightarrow>
               q = partition_global x \<and> p' = new_epoch p (epoch_next cur))"
          by (simp add: Let_def)
      qed
    qed
  qed (use run in auto)
qed

text \<open>The filtering values of a row fit the columns the index stores.\<close>

definition row_accepted :: "table \<Rightarrow> index_key \<Rightarrow> db_indexed_value timestamped list \<Rightarrow> bool" where
  "row_accepted t key vals =
     (case bt_get (t_index_ids t) key of None \<Rightarrow> False | Some x \<Rightarrow>
       (case bt_get (t_indexes t) x of None \<Rightarrow> False | Some ix \<Rightarrow>
         (case split_values_filtering vals of Inl _ \<Rightarrow> False | Inr s \<Rightarrow>
            columns_accept (t_columns t) (nonpk_partition_key_columns ix @ ix_filtering_columns ix) (sv_filtering s))))"

text \<open>
  C18: \<open>upsert\<close> fails only for the reasons the code names. If row identifiers are left, the index
  is known, the primary key can be normalised, and the values are a vector or a document
  followed by filtering values of the types of the index's columns, then it succeeds: no
  internal error of the table (an identifier out of bounds, a missing timestamp, an empty pool,
  a panic in a key) can arise in a table that satisfies the invariant.
\<close>

theorem upsert_succeeds:
  assumes "table_inv d t" and "key_of vs pk" and "values_ok vals" and "partition_room t"
    and "\<not> upsert_refused d key pk vals t" and "row_accepted t key vals"
  shows "\<exists>ops t'. upsert d key pk vals t = (Ok ops, t')"
proof -
  obtain r t' where run: "upsert d key pk vals t = (r, t')" by fastforce
  from assms(1-4) run show ?thesis
  proof (rule upsert_cases)
    fix x p t3 ix3 s ts
    assume x: "bt_get (t_index_ids t) key = Some x" and row: "at_row d t pk t3 p"
      and ix3: "bt_get (t_indexes t3) x = Some ix3" and s: "split_values_filtering vals = Ok s"
      and err: "\<And>e. r = Err e \<Longrightarrow> fst (update_columns p (nonpk_partition_key_columns ix3 @ ix_filtering_columns ix3)
             (sv_filtering s) (t_columns t3)) = Err e"
    obtain ix where ix: "bt_get (t_indexes t) x = Some ix" "same_schema ix ix3"
      using row ix3 unfolding at_row_def grown_def by blast
    have inv3: "columns_inv (table_rows t3) (t_columns t3)" and i: "primary_idx p < table_rows t3"
      and types: "\<And>name. map_option col_type (bt_get (t_columns t3) name) = map_option col_type (bt_get (t_columns t) name)"
      using row by (simp_all add: at_row_def table_inv_def)
    have "columns_accept (t_columns t3) (nonpk_partition_key_columns ix3 @ ix_filtering_columns ix3) (sv_filtering s)"
      using assms(6) x ix s columns_accept_cong [OF types] by (simp add: row_accepted_def same_schema_def)
    moreover have "\<forall>(t, v)\<in>set (sv_filtering s). \<forall>y. v = Some y \<longrightarrow> storable y"
      using split_values_ok [OF s assms(3)] .
    ultimately have "fst (update_columns p (nonpk_partition_key_columns ix3 @ ix_filtering_columns ix3)
             (sv_filtering s) (t_columns t3)) = Ok ()"
      using inv3 i by (intro update_columns_total)
    then show ?thesis
      using err run by (cases r) auto
  qed (use assms(5) in simp)
qed

end
