(* ===== verification/Table_New.thy ===== *)
theory Table_New
  imports Table_Correct
begin

text \<open>
  A new table satisfies the invariant, has no live rows and fails to be created only for the
  reasons \<open>Table::new\<close> names; with it, witnesses for the theorems about upserts and deletes on
  a table that was built and filled by the operations themselves.
\<close>

section \<open>Table::new\<close>

lemma generator_first:
  obtains x g where "generator_next global generator_new = (Ok x, g)"
  using generator_next_Ok [of generator_new global] by (auto simp: generator_new_def)

definition index_new ::
  "index_id \<Rightarrow> column_name list \<Rightarrow> column_name list option \<Rightarrow> column_name list \<Rightarrow> column_name list \<Rightarrow> index" where
  "index_new x pk partition_columns target filtering =
     (case partition_columns of
        Some cols \<Rightarrow> index_new_local x pk cols target filtering
      | None \<Rightarrow> index_new_global x target filtering)"

lemma index_new_inv:
  assumes "target \<noteq> []"
  shows "index_inv 0 (index_new x pk partition_columns target filtering)"
    and "ix_index_id (index_new x pk partition_columns target filtering) = x"
    and "ix_data (index_new x pk partition_columns target filtering) = Local li \<Longrightarrow> li_keys li = []"
  using assms
  by (auto simp: index_new_def index_new_local_def index_new_global_def index_inv_def part_core_def
      part_inhabited_def partition_pool.pool_empty split: option.splits)

lemma columns_inv_extend:
  assumes "columns_inv n columns" and "\<And>name col. (name, col) \<in> set kvs \<Longrightarrow> col_inv n col"
  shows "columns_inv n (bt_extend kvs columns)"
proof -
  have "col_inv n col" if "bt_get (bt_extend kvs columns) c = Some col" for c col
    using that assms by (auto simp: bt_get_extend columns_inv_def split: option.splits dest!: map_of_SomeD)
  then show ?thesis using assms(1) by (simp add: columns_inv_def)
qed

lemma value_columns_ok:
  assumes "value_columns table_columns columns names = Ok kvs"
  shows "\<And>name col. (name, col) \<in> set kvs \<Longrightarrow> col_inv 0 col"
proof -
  fix name col assume "(name, col) \<in> set kvs"
  then obtain i where i: "i < length kvs" "kvs ! i = (name, col)" by (auto simp: in_set_conv_nth)
  note c = assms [unfolded value_columns_def]
  show "col_inv 0 col"
    using collect_result_nth [OF c, of i] collect_result_length [OF c] i
    by (auto simp: result_simps dest: col_inv_new)
qed

lemma collect_result_total: "is_ok (collect_result f xs) \<longleftrightarrow> (\<forall>x\<in>set xs. is_ok (f x))"
  by (induction xs) (auto simp: result_simps)

text \<open>The table before identifiers are reserved.\<close>

definition bare_table ::
  "index_key \<Rightarrow> nat \<Rightarrow> bool \<Rightarrow> (column_name, column) btree \<Rightarrow> index_id_generator \<Rightarrow> index_id \<Rightarrow> index \<Rightarrow> table" where
  "bare_table key n norm columns g x ix =
     \<lparr>t_partition_primary_key_count = n, t_needs_ck_normalization = norm,
      t_primary_ids = [], t_free_primary_ids = [], t_primary_keys = [], t_columns = columns,
      t_index_id_generator = g, t_index_ids = bt_insert key x [], t_indexes = bt_insert x ix []\<rparr>"

lemma bare_table_ok:
  assumes "index_inv 0 ix" and "ix_index_id ix = x" and "columns_inv 0 columns"
    and "\<And>li. ix_data ix = Local li \<Longrightarrow> li_keys li = []"
  shows "table_inv d (bare_table key n norm columns g x ix)" and "partition_room (bare_table key n norm columns g x ix)"
  using assms
  by (auto simp: table_inv_def primary_inv_def bare_table_def table_rows_def primary_pool.pool_empty
      indexes_inv_def bt_inv_def bt_get_def keyed_def partition_room_def INDEX_INCREMENT_SIZE_def)

lemma bt_try_for_each_Ok: "bt_try_for_each f m = (Ok (), m') \<Longrightarrow> m' = bt_map (\<lambda>v. snd (f v)) m"
proof (induction m arbitrary: m')
  case (Cons kv m)
  then show ?case
    by (cases kv) (auto simp: bt_map_def split: prod.splits sum.splits)
qed (simp add: bt_map_def)

lemma reserve_partition_keys:
  assumes inv: "table_inv d t1" and run: "reserve_partition_ids t1 = (Ok (), t2)"
    and ix2: "bt_get (t_indexes t2) x = Some ix2" and li2: "ix_data ix2 = Local li2"
  obtains ix1 li1 where "bt_get (t_indexes t1) x = Some ix1" and "ix_data ix1 = Local li1"
    and "length (li_keys li2) \<le> length (li_keys li1) + INDEX_INCREMENT_SIZE"
proof -
  have "t_indexes t2 = bt_map (\<lambda>ix. snd (resize_partition_ids ix)) (t_indexes t1)"
    using run by (auto simp: reserve_partition_ids_def split: prod.splits dest: bt_try_for_each_Ok)
  then obtain ix1 where ix1: "bt_get (t_indexes t1) x = Some ix1" "ix2 = snd (resize_partition_ids ix1)"
    using ix2 by auto
  then obtain li1 where li1: "ix_data ix1 = Local li1"
    using li2 by (cases "ix_data ix1") (simp_all add: resize_partition_ids_def)
  have core: "part_core x (table_rows t1) li1"
    using table_invD(5) [OF inv ix1(1)] index_invD(4) [OF _ li1] by auto
  have len: "bt_len (li_map li1) = length (li_keys li1)" if "li_free_ids li1 = []"
    using partition_pool.pool_full part_coreD(1) [OF core, unfolded that] .
  have "li2 = snd (resize_partition_ids_local (ix_index_id ix1) li1)"
    using li2 ix1(2) li1 by (simp add: resize_partition_ids_def split: prod.splits)
  then have "length (li_keys li2) \<le> length (li_keys li1) + INDEX_INCREMENT_SIZE"
    using len by (auto simp: resize_partition_ids_local_def Let_def split: prod.splits sum.splits if_splits)
  then show thesis using that ix1(1) li1 by blast
qed

lemma bare_table_reserve:
  fixes t0 :: table
  assumes "table_inv d t0" and "partition_room t0" and "t_primary_ids t0 = []" and "t_free_primary_ids t0 = []"
    and "t_primary_keys t0 = []"
  obtains t1 t2 where "reserve_primary_ids t0 = (Ok (), t1)" and "reserve_partition_ids t1 = (Ok (), t2)"
    and "table_inv d t2" and "reserved t0 t2" and "\<forall>x. live t2 x = {}"
proof (rule reserve_ok [OF assms(1,2)])
  assume "2 ^ 48 - 2 < bt_len (t_primary_ids t0)"
  then show thesis using assms(3) by (simp add: bt_len_def)
next
  fix t1 t2
  assume "reserve_primary_ids t0 = (Ok (), t1)" "reserve_partition_ids t1 = (Ok (), t2)" "table_inv d t2"
    and res: "reserved t0 t2"
  moreover have "live t2 x = {}" for x
    using reserved_live [OF res, of x] assms(5)
    by (simp add: live_def live_index_def live_of_def table_rows_def split: option.splits)
  ultimately show thesis using that by blast
qed

text \<open>The schema \<open>Table::new\<close> accepts.\<close>

definition schema_ok ::
  "column_name list \<Rightarrow> nat \<Rightarrow> column_name list option \<Rightarrow> column_name list \<Rightarrow> (column_name \<Rightarrow> native_type option) \<Rightarrow> bool" where
  "schema_ok pk n partition_columns filtering table_columns \<longleftrightarrow>
     n \<le> length pk \<and>
     (\<forall>name\<in>set ((case partition_columns of Some cols \<Rightarrow> cols | None \<Rightarrow> []) @ filtering).
        name \<notin> set pk \<longrightarrow> (case table_columns name of None \<Rightarrow> False | Some nt \<Rightarrow> is_ok (column_new nt)))"

definition key_columns :: "column_name list \<Rightarrow> (column_name, column) btree" where
  "key_columns pk = bt_extend (map (\<lambda>(idx, name). (name, ColPrimaryKey idx)) (enumerate 0 pk)) []"

lemma key_columns_inv: "columns_inv 0 (key_columns pk)"
  unfolding key_columns_def
  by (rule columns_inv_extend) (auto simp: columns_inv_def col_inv_def)

lemma bt_get_extend_iff: "bt_get (bt_extend kvs []) name \<noteq> None \<longleftrightarrow> name \<in> fst ` set kvs"
proof -
  have "map_of (rev kvs) name = None \<longleftrightarrow> name \<notin> fst ` set kvs"
    by (simp add: map_of_eq_None_iff)
  then show ?thesis by (cases "map_of (rev kvs) name") (auto simp: bt_get_extend)
qed

lemma key_columns_contains: "bt_contains (key_columns pk) name \<longleftrightarrow> name \<in> set pk"
proof -
  have "fst ` set (map (\<lambda>(idx, name). (name, ColPrimaryKey idx)) (enumerate 0 pk)) = set pk"
    by (force simp: enumerate_eq_zip image_iff in_set_zip in_set_conv_nth)
  then show ?thesis
    using bt_get_extend_iff [of "map (\<lambda>(idx, name). (name, ColPrimaryKey idx)) (enumerate 0 pk)" name]
    by (simp add: key_columns_def)
qed

lemma value_columns_total:
  "n \<le> length pk \<Longrightarrow> is_ok (value_columns table_columns (key_columns pk)
      ((case partition_columns of Some cols \<Rightarrow> cols | None \<Rightarrow> []) @ filtering)) \<longleftrightarrow>
     schema_ok pk n partition_columns filtering table_columns"
proof -
  have each: "is_ok (and_then (ok_or (table_columns name) e) (\<lambda>nt. and_then (column_new nt) (\<lambda>column. Ok (name, column)))) \<longleftrightarrow>
      (case table_columns name of None \<Rightarrow> False | Some nt \<Rightarrow> is_ok (column_new nt))" for name e
    by (cases "table_columns name") (auto simp: result_simps)
  assume "n \<le> length pk"
  then show ?thesis
    unfolding value_columns_def collect_result_total schema_ok_def key_columns_contains each by auto
qed

lemma table_new_unfold:
  assumes "generator_next (partition_columns = None) generator_new = (Ok x, g)"
  shows "table_new key pk n partition_columns target filtering table_columns =
    (if n > length pk then Err (Bail ''Partition key count cannot be greater than primary key columns count'')
     else and_then (value_columns table_columns (key_columns pk)
                      ((case partition_columns of Some cols \<Rightarrow> cols | None \<Rightarrow> []) @ filtering)) (\<lambda>kvs.
       case reserve_primary_ids (bare_table key n
              (list_ex (\<lambda>col. table_columns col = Some NT_Decimal) (drop n pk))
              (bt_extend kvs (key_columns pk)) g x (index_new x pk partition_columns target filtering)) of
         (Inl e, _) \<Rightarrow> Inl e
       | (Inr _, t1) \<Rightarrow> (case reserve_partition_ids t1 of (Inl e, _) \<Rightarrow> Inl e | (Inr _, t2) \<Rightarrow> Ok t2)))"
  using assms by (simp add: table_new_def key_columns_def [symmetric] bare_table_def index_new_def Let_def)

lemma table_new_ok:
  assumes "target \<noteq> []"
  shows "case table_new key pk n partition_columns target filtering table_columns of
      Inl e \<Rightarrow> \<not> schema_ok pk n partition_columns filtering table_columns
    | Inr t \<Rightarrow> schema_ok pk n partition_columns filtering table_columns \<and> table_inv d t \<and> partition_room t \<and>
        bt_get (t_index_ids t) key \<noteq> None \<and> (\<forall>x. live t x = {})"
proof -
  obtain x g where gen: "generator_next (partition_columns = None) generator_new = (Ok x, g)"
    using generator_first .
  note new = table_new_unfold [OF gen, of key pk n target filtering table_columns]
  let ?vc = "value_columns table_columns (key_columns pk) ((case partition_columns of Some cols \<Rightarrow> cols | None \<Rightarrow> []) @ filtering)"
  consider "n > length pk" | (bad) e where "n \<le> length pk" "?vc = Err e" | (good) kvs where "n \<le> length pk" "?vc = Ok kvs"
    by (cases ?vc) fastforce+
  then show ?thesis
  proof cases
    case 1
    then show ?thesis by (simp add: new schema_ok_def)
  next
    case bad
    then show ?thesis
      using value_columns_total [OF bad(1), of table_columns partition_columns filtering] by (simp add: new)
  next
    case good
    let ?ix = "index_new x pk partition_columns target filtering"
    define t0 where "t0 = bare_table key n (list_ex (\<lambda>col. table_columns col = Some NT_Decimal) (drop n pk))
        (bt_extend kvs (key_columns pk)) g x ?ix"
    have cols: "columns_inv 0 (bt_extend kvs (key_columns pk))"
      using key_columns_inv value_columns_ok [OF good(2)] by (rule columns_inv_extend)
    have "\<And>li. ix_data ?ix = Local li \<Longrightarrow> li_keys li = []"
      using index_new_inv(3) [OF assms] .
    from bare_table_ok [OF index_new_inv(1,2) [OF assms] cols this]
    have ok0: "table_inv d t0" "partition_room t0" unfolding t0_def by blast+
    have empty: "t_primary_ids t0 = []" "t_free_primary_ids t0 = []" "t_primary_keys t0 = []"
      by (simp_all add: t0_def bare_table_def)
    obtain t1 t2 where t12: "reserve_primary_ids t0 = (Ok (), t1)" "reserve_partition_ids t1 = (Ok (), t2)"
      "table_inv d t2" "reserved t0 t2" "\<forall>x. live t2 x = {}"
      using bare_table_reserve [OF ok0 empty] .
    note r1 = reserve_primary_ids_ok [OF ok0(1) t12(1)]
    have "partition_room t2"
      unfolding partition_room_def
    proof (intro allI impI)
      fix y ix2 li2 assume ix2: "bt_get (t_indexes t2) y = Some ix2" "ix_data ix2 = Local li2"
      obtain ix1 li1 where 1: "bt_get (t_indexes t1) y = Some ix1" "ix_data ix1 = Local li1"
        "length (li_keys li2) \<le> length (li_keys li1) + INDEX_INCREMENT_SIZE"
        using reserve_partition_keys [OF r1(1) t12(2) ix2] .
      obtain ix0 where ix0: "bt_get (t_indexes t0) y = Some ix0" "grown (table_rows t0) (table_rows t1) ix0 ix1"
        using reserved_index [OF r1(2) 1(1)] .
      then obtain li0 where li0: "ix_data ix0 = Local li0"
        using 1(2) by (cases "ix_data ix0") (auto simp: grown_def same_schema_def)
      then have "li_keys li1 = li_keys li0" using r1(5) [OF ix0(1) li0] 1 by auto
      moreover have "li_keys li0 = []"
        using ix0(1) li0 index_new_inv(3) [OF assms] by (auto simp: t0_def bare_table_def bt_get_def split: if_splits)
      ultimately show "length (li_keys li2) + INDEX_INCREMENT_SIZE \<le> 2 ^ 48"
        using 1(3) by (simp add: INDEX_INCREMENT_SIZE_def)
    qed
    moreover have "bt_get (t_index_ids t2) key = Some x"
      using t12(4) by (simp add: reserved_def same_config_def t0_def bare_table_def bt_get_def)
    moreover have "schema_ok pk n partition_columns filtering table_columns"
      using value_columns_total [OF good(1), of table_columns partition_columns filtering] good(2) by simp
    ultimately show ?thesis
      using good t12 by (simp add: new t0_def [symmetric])
  qed
qed

section \<open>Properties\<close>

text \<open>
  Creating a table. \<open>Table::new\<close> succeeds exactly for the schemas it is meant to accept (the
  partition key is part of the primary key, every column to store exists and has a supported
  type); the table it returns satisfies the invariant, knows the index key, has no live row and
  has room for partitions.
\<close>

theorem table_new_correct:
  assumes "target \<noteq> []"
  shows "case table_new key pk n partition_columns target filtering table_columns of
      Inl e \<Rightarrow> \<not> schema_ok pk n partition_columns filtering table_columns
    | Inr t \<Rightarrow> schema_ok pk n partition_columns filtering table_columns \<and> table_inv d t \<and> partition_room t \<and>
        bt_get (t_index_ids t) key \<noteq> None \<and> (\<forall>x. live t x = {})"
  using assms by (rule table_new_ok)

section \<open>A small table\<close>

text \<open>
  A table with a global index and two rows: row 0 has the key 1, epoch 1 and a value of
  timestamp 5, row 1 is free.
\<close>

definition example_key :: primary_key where
  "example_key = [1, 4, 1, 0, 0, 0]"

definition example_index :: index where
  "example_index =
     \<lparr>ix_index_id = IndexId 32768, ix_data = Global, ix_target_columns = [''v''], ix_filtering_columns = [],
      ix_values_timestamps =
        \<lparr>vc_vec = [1, 0, 5, 0, 0, 0, 0, 0, 0, 0,  0, 0, 0, 0, 0, 0, 0, 0, 0, 128],
         vc_chunk_size = 10, vc_chunk = ChunkTimestamps 1\<rparr>\<rparr>"

definition example_table :: table where
  "example_table =
     \<lparr>t_partition_primary_key_count = 1, t_needs_ck_normalization = False,
      t_primary_ids = [(example_key, PrimaryId 0)], t_free_primary_ids = [PrimaryId 1],
      t_primary_keys = [Some example_key, None], t_columns = [(''pk'', ColPrimaryKey 0)],
      t_index_id_generator = \<lparr>gen_next = 1\<rparr>, t_index_ids = [(''ks.idx'', IndexId 32768)],
      t_indexes = [(IndexId 32768, example_index)]\<rparr>"

definition example_values :: "timestamp \<Rightarrow> db_indexed_value timestamped list" where
  "example_values ts = [timestamped_new ts (Some (DbVector [1, 2]))]"

lemma example_key_of: "key_of [CqlInt 1] example_key"
  by code_simp

lemma example_values_ok: "values_ok (example_values ts)"
  by (simp add: values_ok_def example_values_def into_value_def timestamped_new_def)

lemma example_room: "partition_room example_table"
  by (simp add: partition_room_def example_table_def example_index_def bt_get_def)

lemma example_fields:
  "ix_index_id example_index = IndexId 32768" "ix_data example_index = Global"
  "ix_target_columns example_index = [''v'']" "vc_chunk_size (ix_values_timestamps example_index) = 10"
  "vc_chunk (ix_values_timestamps example_index) = ChunkTimestamps 1"
  "length (vc_vec (ix_values_timestamps example_index)) = 20"
  by (simp_all add: example_index_def)

lemma example_index_inv: "index_inv 2 example_index"
  by (simp add: index_inv_def example_fields cvc_inv_def vc_inv_def vc_len_def chunk_size_def
      EPOCH_SIZE_def TIMESTAMPED_SIZE_def)

lemma example_chunks:
  "vc_chunk_at (ix_values_timestamps example_index) 0 = [1, 0, 5, 0, 0, 0, 0, 0, 0, 0]"
  "vc_chunk_at (ix_values_timestamps example_index) 1 = [0, 0, 0, 0, 0, 0, 0, 0, 0, 128]"
  by (simp_all add: vc_chunk_at_def slice_def example_index_def)

lemma example_stamps:
  "row_stamp 1 (ix_values_timestamps example_index) 0 0 = Some \<lparr>ts_timestamp = 5, ts_value = Init ()\<rparr>"
  "row_stamp 1 (ix_values_timestamps example_index) 1 0 = Some \<lparr>ts_timestamp = 0x8000000000000000, ts_value = Uninit\<rparr>"
  unfolding row_stamp_def example_chunks
  by (simp_all add: bytes_timestamp_def Let_def EPOCH_SIZE_def TIMESTAMPED_SIZE_def slice_def from_ne_bytes_def
      from_le_def DELETED_FLAG_def)

lemma example_rows: "row_part example_index 1 = None" "row_time example_index 0 = Timestamp 5"
  "row_part example_index 0 = Some (partition_global (IndexId 32768))"
  "row_epoch (ix_values_timestamps example_index) 0 = Epoch 1"
  using example_stamps
  by (simp_all add: row_part_def row_valid_def row_time_def example_fields is_valid_def timestamp_of_def
      DELETED_FLAG_def TIMESTAMP_MASK_def row_epoch_def example_chunks bytes_epoch_def EPOCH_SIZE_def
      epoch_from_ne_bytes_def from_le_def)

lemma example_ids [simp]: "primary_idx (PrimaryId 0) = 0" "primary_idx (PrimaryId 1) = 1"
  "primary_epoch (PrimaryId 0) = epoch_new" "primary_epoch (PrimaryId 1) = epoch_new"
  by code_simp+

lemma example_inv: "table_inv d example_table"
proof -
  have "primary_inv d example_table"
    using example_key_of
    by (auto simp: primary_inv_def example_table_def table_rows_def pool_inv_def bt_inv_def bt_get_def
        normalize_primary_key_def upt_rec split: if_splits)
  moreover have "columns_inv 2 (t_columns example_table)"
    by (simp add: columns_inv_def example_table_def bt_inv_def bt_get_def col_inv_def)
  moreover have "indexes_inv 2 (t_indexes example_table)"
    using example_index_inv
    by (simp add: indexes_inv_def example_table_def bt_inv_def bt_get_def) (simp add: example_index_def)
  moreover have "keyed example_table"
    using example_rows by (auto simp: keyed_def example_table_def table_rows_def bt_get_def less_Suc_eq split: if_splits)
  moreover have "table_rows example_table = 2"
    by (simp add: table_rows_def example_table_def)
  ultimately show ?thesis
    by (simp add: table_inv_def) (simp add: example_table_def bt_get_def)
qed

lemma example_row: "row_of d example_table example_key (PrimaryId 0)"
  by (simp add: row_of_def normalize_primary_key_def example_table_def bt_get_def)

lemma example_gets: "bt_get (t_index_ids example_table) ''ks.idx'' = Some (IndexId 32768)"
  "bt_get (t_indexes example_table) (IndexId 32768) = Some example_index"
  by (simp_all add: example_table_def bt_get_def)

lemma example_hd: "timestamp_wf ts \<Longrightarrow> timestamp_of (hd (example_values ts)) = ts"
  "is_valid (hd (example_values ts))"
  by (simp_all add: example_values_def)

lemma example_accepted: "\<not> upsert_refused d ''ks.idx'' example_key (example_values ts) example_table"
  "row_accepted example_table ''ks.idx'' (example_values ts)"
  by (simp_all add: upsert_refused_def row_accepted_def example_gets split_values_filtering_def example_values_def
      Let_def into_value_def timestamped_new_def result_simps columns_accept_def nonpk_partition_key_columns_def
      example_fields example_index_def normalize_primary_key_def)
    (simp_all add: example_table_def)

section \<open>Witnesses\<close>

theorem table_new_correct_witness:
  "case table_new ''ks.idx'' [''pk''] 1 None [''v''] [] (\<lambda>_. Some NT_Int) of
      Inl e \<Rightarrow> \<not> schema_ok [''pk''] 1 None [] (\<lambda>_. Some NT_Int)
    | Inr t \<Rightarrow> schema_ok [''pk''] 1 None [] (\<lambda>_. Some NT_Int) \<and> table_inv example_driver t \<and> partition_room t \<and>
        bt_get (t_index_ids t) ''ks.idx'' \<noteq> None \<and> (\<forall>x. live t x = {})"
  by (rule table_new_correct) simp

theorem upsert_refines_witness:
  "case upsert example_driver ''ks.idx'' example_key (example_values (Timestamp 9)) example_table of (r, t') \<Rightarrow>
    table_inv example_driver t' \<and> same_config example_table t' \<and>
    (case r of
       Inl e \<Rightarrow> \<forall>x. live t' x = live example_table x
     | Inr ops \<Rightarrow> \<exists>x. bt_get (t_index_ids example_table) ''ks.idx'' = Some x \<and>
         index_exec_all ops (live example_table x) = Some (live t' x) \<and>
         (\<forall>y. y \<noteq> x \<longrightarrow> live t' y = live example_table y))"
  by (rule upsert_refines [OF example_inv example_key_of example_values_ok example_room])

theorem delete_refines_witness:
  "case delete example_driver ''ks.idx'' example_key (Timestamp 9) example_table of (r, t') \<Rightarrow>
    table_inv example_driver t' \<and> same_config example_table t' \<and>
    (case r of
       Inl e \<Rightarrow> \<forall>x. live t' x = live example_table x
     | Inr ops \<Rightarrow> \<exists>x. bt_get (t_index_ids example_table) ''ks.idx'' = Some x \<and>
         index_exec_all ops (live example_table x) = Some (live t' x) \<and>
         (\<forall>y. y \<noteq> x \<longrightarrow> live t' y = live example_table y))"
  by (rule delete_refines [OF example_inv example_key_of])

theorem stale_upsert_ignored_witness:
  "case upsert example_driver ''ks.idx'' example_key (example_values (Timestamp 3)) example_table of (r, t') \<Rightarrow>
    (\<forall>y. live t' y = live example_table y) \<and> (\<forall>ops. r = Ok ops \<longrightarrow> ops = [])"
proof -
  have "timestamp_wf (Timestamp 3)" by code_simp
  then have "timestamp_of (hd (example_values (Timestamp 3))) < row_time example_index (primary_idx (PrimaryId 0))"
    by (simp add: example_hd example_rows less_timestamp_def)
  then show ?thesis
    by (rule stale_upsert_ignored [OF example_inv example_key_of example_values_ok example_room example_gets example_row])
qed

theorem delete_removes_row_witness:
  "case delete example_driver ''ks.idx'' example_key (Timestamp 9) example_table of (r, t') \<Rightarrow>
    is_ok r \<longrightarrow> (\<forall>(q, p')\<in>live t' (IndexId 32768). primary_idx p' \<noteq> primary_idx (PrimaryId 0))"
proof -
  have wf: "timestamp_wf (Timestamp 9)" by code_simp
  have "row_time example_index (primary_idx (PrimaryId 0)) < Timestamp 9" by (simp add: example_rows less_timestamp_def)
  then show ?thesis
    by (rule delete_removes_row [OF example_inv example_key_of wf example_gets example_row])
qed

theorem newer_upsert_indexed_witness:
  "case upsert example_driver ''ks.idx'' example_key (example_values (Timestamp 9)) example_table of (r, t') \<Rightarrow>
    \<forall>ops. r = Ok ops \<longrightarrow>
      ops = [RemoveBeforeAddValue (new_epoch (PrimaryId 0) (Epoch 1)) (partition_global (IndexId 32768)),
             AddVector (new_epoch (PrimaryId 0) (Epoch 2)) (partition_global (IndexId 32768)) [1, 2] True]"
proof -
  have wf: "timestamp_wf (Timestamp 9)" by code_simp
  have nxt: "epoch_next (Epoch 1) = Epoch 2" by code_simp
  have newer: "row_time example_index (primary_idx (PrimaryId 0)) < timestamp_of (hd (example_values (Timestamp 9)))"
    by (simp add: example_rows example_hd wf less_timestamp_def)
  have "fst (into_value (hd (example_values (Timestamp 9)))) = Some (DbVector [1, 2])"
    using example_hd(2) [of "Timestamp 9"] by (simp add: example_values_def into_value_def timestamped_new_def)
  then show ?thesis
    using newer_upsert_indexed [OF example_inv example_key_of example_values_ok example_room example_gets
        example_fields(2) example_row newer example_hd(2), of example_driver]
    by (auto simp: Let_def example_rows add_operation_def nxt)
qed

theorem upsert_succeeds_witness:
  "\<exists>ops t'. upsert example_driver ''ks.idx'' example_key (example_values (Timestamp 9)) example_table = (Ok ops, t')"
  by (rule upsert_succeeds [OF example_inv example_key_of example_values_ok example_room example_accepted])

end
