(* ===== verification/Table_Findings.thy ===== *)
theory Table_Findings
  imports Table_New
begin

text \<open>
  Two behaviours of the write path that its guards do not intend: a row that returns to a
  partition with an unchanged vector timestamp, and a deletion when no free row is left.
\<close>

section \<open>A row that returns to a partition\<close>

text \<open>
  An upsert that brings a row without partition back, with the vector timestamp the index
  already has for it, adds the row when its new partition key has no partition yet, and is
  ignored when the partition exists: \<open>is_changing_partitions\<close> counts \<open>New\<close> and not
  \<open>AddToExisting\<close>.
\<close>

theorem same_timestamp_return:
  assumes "index_inv n ix" and "primary_idx p < n" and "ix_data ix = Local li" and "li_free_ids li \<noteq> []"
    and "row_part ix (primary_idx p) = None" and "is_valid ts" and "timestamped_wf ts"
    and "row_time ix (primary_idx p) = timestamp_of ts"
  shows "case update_index p (classify (li_map li) None (Some key)) (Some v) [ts] ix of (r, ix') \<Rightarrow>
    if bt_get (li_map li) key = None then row_part ix' (primary_idx p) \<noteq> None else r = Ok [] \<and> ix' = ix"
proof -
  let ?pp = "classify (li_map li) None (Some key)"
  have none: "li_ids li ! primary_idx p = None" using assms(3,5) by (simp add: row_part_def)
  have pp: "target_ok ix (primary_idx p) ?pp"
    using classify_ok [of li "primary_idx p" "Some key"] assms(3) none by (simp add: target_ok_def)
  have "is_valid ts \<longleftrightarrow> Some v \<noteq> None" "Some v \<noteq> None \<Longrightarrow> has_free_partition ix"
    using assms(3,4,6) by (simp_all add: has_free_partition_def)
  note up = update_index_cases [OF assms(1,2) pp this(1) assms(7) this(2)]
  show ?thesis
  proof (cases "bt_get (li_map li) key")
    case None
    then have New: "?pp = New key" by (simp add: classify_def)
    then have "\<not> skip_update (cmp_of ix (primary_idx p) ts) ?pp"
      using assms(8) by (simp add: skip_update_def cmp_of_def)
    then obtain ops ix' where "update_index p ?pp (Some v) [ts] ix = (Ok ops, ix')"
      "row_moved False n p ts (Some v) ix ops ix'"
      using up New by auto
    then show ?thesis using None assms(2) by (auto simp: row_moved_def)
  next
    case (Some q)
    then have "?pp = AddToExisting q" by (simp add: classify_def)
    then have "skip_update (cmp_of ix (primary_idx p) ts) ?pp"
      using assms(8) by (simp add: skip_update_def cmp_of_def)
    then show ?thesis using up Some by simp
  qed
qed

text \<open>
  An index on a partition column with two rows: row 0 is a tombstone of timestamp 5, row 1 is
  in the partition of the key 7.
\<close>

definition returning_key :: "u8 \<Rightarrow> partition_key" where
  "returning_key n = [1, 4, n, 0, 0, 0]"

definition returning_local :: local_index where
  "returning_local =
     \<lparr>li_partition_key_columns = [''c''], li_nonpk_partition_key_columns = [''c''],
      li_map = [(returning_key 7, PartitionId 0)], li_free_ids = [PartitionId 1],
      li_keys = [Some (returning_key 7), None], li_ids = [None, Some (PartitionId 0)], li_sizes = [1, 0]\<rparr>"

definition returning_index :: index where
  "returning_index =
     \<lparr>ix_index_id = IndexId 0, ix_data = Local returning_local, ix_target_columns = [''v''], ix_filtering_columns = [],
      ix_values_timestamps =
        \<lparr>vc_vec = [3, 0, 5, 0, 0, 0, 0, 0, 0, 128,  1, 0, 5, 0, 0, 0, 0, 0, 0, 0],
         vc_chunk_size = 10, vc_chunk = ChunkTimestamps 1\<rparr>\<rparr>"

lemma returning_fields:
  "ix_index_id returning_index = IndexId 0" "ix_data returning_index = Local returning_local"
  "ix_target_columns returning_index = [''v'']" "vc_chunk_size (ix_values_timestamps returning_index) = 10"
  "vc_chunk (ix_values_timestamps returning_index) = ChunkTimestamps 1"
  "length (vc_vec (ix_values_timestamps returning_index)) = 20"
  by (simp_all add: returning_index_def)

lemma returning_chunks:
  "vc_chunk_at (ix_values_timestamps returning_index) 0 = [3, 0, 5, 0, 0, 0, 0, 0, 0, 128]"
  "vc_chunk_at (ix_values_timestamps returning_index) 1 = [1, 0, 5, 0, 0, 0, 0, 0, 0, 0]"
  by (simp_all add: vc_chunk_at_def slice_def returning_index_def)

lemma returning_stamps:
  "row_stamp 1 (ix_values_timestamps returning_index) 0 0 = Some \<lparr>ts_timestamp = 0x8000000000000005, ts_value = Uninit\<rparr>"
  "row_stamp 1 (ix_values_timestamps returning_index) 1 0 = Some \<lparr>ts_timestamp = 5, ts_value = Init ()\<rparr>"
  unfolding row_stamp_def returning_chunks
  by (simp_all add: bytes_timestamp_def Let_def EPOCH_SIZE_def TIMESTAMPED_SIZE_def slice_def from_ne_bytes_def
      from_le_def DELETED_FLAG_def)

lemma returning_ids [simp]: "partition_idx (PartitionId 0) = 0" "partition_idx (PartitionId 1) = 1"
  "partition_index_id (PartitionId 0) = IndexId 0" "partition_index_id (PartitionId 1) = IndexId 0"
  by code_simp+

lemma returning_core: "part_core (IndexId 0) 2 returning_local" "part_inhabited {} returning_local"
  by (auto simp: part_core_def part_inhabited_def returning_local_def pool_inv_def bt_inv_def bt_get_def rows_in_def
      less_Suc_eq upt_rec numeral_2_eq_2 split: if_splits)

lemma returning_valid: "row_valid returning_index 0 = False" "row_valid returning_index 1 = True"
  using returning_stamps by (simp_all add: row_valid_def returning_fields is_valid_def DELETED_FLAG_def)

lemma returning_inv: "index_inv 2 returning_index"
proof -
  have "li_ids returning_local ! i \<noteq> None \<longleftrightarrow> row_valid returning_index i" if "i < 2" for i
    using that returning_valid by (auto simp: less_2_cases_iff returning_local_def)
  then show ?thesis
    using returning_core by (simp add: index_inv_def returning_fields cvc_inv_def vc_inv_def vc_len_def chunk_size_def
        EPOCH_SIZE_def TIMESTAMPED_SIZE_def)
qed

lemma returning_row: "row_part returning_index 0 = None" "row_time returning_index 0 = Timestamp 5"
  using returning_stamps
  by (simp_all add: row_part_def row_time_def returning_fields returning_local_def timestamp_of_def TIMESTAMP_MASK_def
      DELETED_FLAG_def)

theorem same_timestamp_return_witness:
  "update_index (PrimaryId 0) (classify (li_map returning_local) None (Some (returning_key 7)))
     (Some (SplitVector [1])) [new_valid (Timestamp 5)] returning_index = (Ok [], returning_index)"
proof -
  have wf: "timestamp_wf (Timestamp 5)" by code_simp
  have ts: "is_valid (new_valid (Timestamp 5))" "timestamped_wf (new_valid (Timestamp 5))"
    "row_time returning_index (primary_idx (PrimaryId 0)) = timestamp_of (new_valid (Timestamp 5))"
    using wf by (simp_all add: returning_row new_valid_def new_valid_or_tombstone_new)
  have "li_free_ids returning_local \<noteq> []" "bt_get (li_map returning_local) (returning_key 7) \<noteq> None"
    "primary_idx (PrimaryId 0) < 2" "row_part returning_index (primary_idx (PrimaryId 0)) = None"
    by (simp_all add: returning_local_def bt_get_def returning_row)
  then show ?thesis
    using same_timestamp_return [OF returning_inv _ returning_fields(2) _ _ ts, of "returning_key 7" "SplitVector [1]"]
    by auto
qed

section \<open>A deletion without free rows\<close>

text \<open>
  \<open>delete\<close> does not reserve row identifiers. When every reserved row is in use, deleting a key
  the table has not seen fails and leaves no tombstone, although \<open>reserve_primary_ids\<close> would
  have made room: only \<open>upsert\<close> calls it.
\<close>

theorem delete_without_free_rows:
  assumes "bt_get (t_index_ids t) key = Some x" and "t_free_primary_ids t = []"
    and "normalize_primary_key d t pk = Ok k" and "bt_get (t_primary_ids t) k = None"
  shows "delete d key pk timestamp t = (Err (Bail ''Primary ids should be reserved''), t)"
  using assms by (simp add: delete_def add_primary_key_def take_primary_id_def)

theorem delete_without_free_rows_witness:
  "delete example_driver ''ks.idx'' [1, 4, 2, 0, 0, 0] (Timestamp 9) (example_table\<lparr>t_free_primary_ids := []\<rparr>) =
     (Err (Bail ''Primary ids should be reserved''), example_table\<lparr>t_free_primary_ids := []\<rparr>)"
  by (rule delete_without_free_rows [where x = "IndexId 32768" and k = "[1, 4, 2, 0, 0, 0]"])
    (simp_all add: example_table_def example_key_def bt_get_def normalize_primary_key_def)

end
