(* ===== verification/Table_Search.thy ===== *)
theory Table_Search
  imports Table_Findings
begin

text \<open>
  Model of the search side of a table (\<open>TableSearch\<close> in \<open>crates/vector-store/src/table/mod.rs\<close>)
  and of the restrictions of a query (\<open>Restriction\<close> in \<open>crates/vector-store/src/lib.rs\<close>). Reading
  a column can panic while a key is decoded, so every operation that reads one returns a
  result; the combinators below stop where the iterators of the source stop. It is proved that
  in a table that satisfies the invariant no read fails and a restriction means what it says,
  that the entries an index holds resolve to keys, and that the entries it no longer holds are
  rejected.
\<close>

section \<open>Restriction\<close>

datatype restriction =
    REq column_name cql_value
  | RIn column_name "cql_value list"
  | RLt column_name cql_value
  | RLte column_name cql_value
  | RGt column_name cql_value
  | RGte column_name cql_value
  | REqTuple "column_name list" "cql_value list"
  | RInTuple "column_name list" "cql_value list list"
  | RLtTuple "column_name list" "cql_value list"
  | RLteTuple "column_name list" "cql_value list"
  | RGtTuple "column_name list" "cql_value list"
  | RGteTuple "column_name list" "cql_value list"

text \<open>\<open>Ordering::is_lt\<close> and so on under \<open>Option::is_some_and\<close>.\<close>

definition ord_eq :: "ordering option \<Rightarrow> bool" where "ord_eq ord \<longleftrightarrow> ord = Some Equal"
definition ord_lt :: "ordering option \<Rightarrow> bool" where "ord_lt ord \<longleftrightarrow> ord = Some Less"
definition ord_gt :: "ordering option \<Rightarrow> bool" where "ord_gt ord \<longleftrightarrow> ord = Some Greater"
definition ord_le :: "ordering option \<Rightarrow> bool" where "ord_le ord \<longleftrightarrow> ord = Some Less \<or> ord = Some Equal"
definition ord_ge :: "ordering option \<Rightarrow> bool" where "ord_ge ord \<longleftrightarrow> ord = Some Greater \<or> ord = Some Equal"

text \<open>\<open>Iterator::all\<close> over a predicate that can panic; \<open>collect\<close> into an \<open>Option<Vec<_>>\<close>.\<close>

fun all_result :: "('a \<Rightarrow> bool result) \<Rightarrow> 'a list \<Rightarrow> bool result" where
  "all_result f [] = Ok True"
| "all_result f (x # xs) = and_then (f x) (\<lambda>b. if b then all_result f xs else Ok False)"

fun collect_some :: "('a \<Rightarrow> 'b option result) \<Rightarrow> 'a list \<Rightarrow> 'b list option result" where
  "collect_some f [] = Ok (Some [])"
| "collect_some f (x # xs) =
     and_then (f x) (\<lambda>v. case v of
        None \<Rightarrow> Ok None
      | Some y \<Rightarrow> and_then (collect_some f xs) (\<lambda>ys. Ok (map_option ((#) y) ys)))"

section \<open>Comparing a row\<close>

definition cql_cmp_single ::
  "driver \<Rightarrow> (column_name, column) btree \<Rightarrow> primary_key option list \<Rightarrow> primary_id \<Rightarrow> column_name \<Rightarrow> cql_value \<Rightarrow>
   ordering option result" where
  "cql_cmp_single d columns primary_keys primary_id lhs rhs =
     and_then (column_value columns primary_keys primary_id lhs) (\<lambda>v.
       Ok (case v of None \<Rightarrow> None | Some val \<Rightarrow> cql_cmp d val rhs))"

fun cmp_tuple_loop :: "('a \<Rightarrow> ordering option result) \<Rightarrow> 'a list \<Rightarrow> ordering option result" where
  "cmp_tuple_loop f [] = Ok (Some Equal)"
| "cmp_tuple_loop f (x # xs) =
     and_then (f x) (\<lambda>ord. if ord = None \<or> ord \<noteq> Some Equal then Ok ord else cmp_tuple_loop f xs)"

definition cql_cmp_tuple ::
  "driver \<Rightarrow> (column_name, column) btree \<Rightarrow> primary_key option list \<Rightarrow> primary_id \<Rightarrow> column_name list \<Rightarrow> cql_value list \<Rightarrow>
   ordering option result" where
  "cql_cmp_tuple d columns primary_keys primary_id lhs rhs =
     cmp_tuple_loop (\<lambda>(l, r). cql_cmp_single d columns primary_keys primary_id l r) (zip lhs rhs)"

section \<open>TableSearch\<close>

definition search_index_id :: "table \<Rightarrow> index_key \<Rightarrow> index_id option" where
  "search_index_id t key = bt_get (t_index_ids t) key"

fun find_eq :: "column_name \<Rightarrow> restriction list \<Rightarrow> cql_value option" where
  "find_eq column [] = None"
| "find_eq column (r # rs) =
     (case r of
        REq lhs rhs \<Rightarrow> if lhs = column then Some rhs else find_eq column rs
      | _ \<Rightarrow> find_eq column rs)"

definition is_key_eq :: "column_name list \<Rightarrow> restriction \<Rightarrow> bool" where
  "is_key_eq key_cols r = (case r of REq lhs _ \<Rightarrow> lhs \<in> set key_cols | _ \<Rightarrow> False)"

definition partition_key_from_restrictions ::
  "column_name list \<Rightarrow> restriction list \<Rightarrow> (primary_key \<times> restriction list option) option result" where
  "partition_key_from_restrictions key_cols restrictions =
     and_then (collect_key (\<lambda>column. Ok (find_eq column restrictions)) (take MAX_COLUMNS key_cols) 0 []) (\<lambda>key.
       Ok (map_option (\<lambda>partition_key.
             (partition_key,
              let rest = filter (\<lambda>r. \<not> is_key_eq key_cols r) restrictions
              in if rest = [] then None else Some rest)) key))"

definition search_partition_id ::
  "table \<Rightarrow> index_key \<Rightarrow> restriction list option \<Rightarrow> (partition_id \<times> restriction list option) option result" where
  "search_partition_id t key restrictions =
     (case bt_get (t_index_ids t) key of None \<Rightarrow> Ok None | Some index_id \<Rightarrow>
     (case bt_get (t_indexes t) index_id of None \<Rightarrow> Ok None | Some ix \<Rightarrow>
     (case ix_data ix of
        Global \<Rightarrow> Ok (Some (partition_global index_id, restrictions))
      | Local li \<Rightarrow>
          (case restrictions of
             None \<Rightarrow> Ok None
           | Some rs \<Rightarrow>
               and_then (partition_key_from_restrictions (li_partition_key_columns li) rs) (\<lambda>found. Ok (
                 case found of
                   None \<Rightarrow> None
                 | Some (key1, rest) \<Rightarrow>
                     map_option (\<lambda>q. (q, rest)) (bt_get (li_map li) key1)))))))"

definition search_primary_key :: "table \<Rightarrow> partition_id \<Rightarrow> primary_id \<Rightarrow> primary_key option" where
  "search_primary_key t partition_id primary_id =
     (if \<not> is_valid_primary_id t partition_id primary_id then None
      else case cv_get (t_primary_keys t) primary_id of None \<Rightarrow> None | Some key \<Rightarrow> key)"

definition restriction_holds :: "driver \<Rightarrow> table \<Rightarrow> primary_id \<Rightarrow> restriction \<Rightarrow> bool result" where
  "restriction_holds d t p r =
     (let value_of = column_value (t_columns t) (t_primary_keys t) p;
          single = cql_cmp_single d (t_columns t) (t_primary_keys t) p;
          tuple = cql_cmp_tuple d (t_columns t) (t_primary_keys t) p
      in case r of
           REq lhs rhs \<Rightarrow> and_then (single lhs rhs) (\<lambda>ord. Ok (ord_eq ord))
         | RIn lhs rhs \<Rightarrow>
             and_then (value_of lhs) (\<lambda>v. Ok (case v of
                 None \<Rightarrow> False
               | Some val \<Rightarrow> list_ex ((=) Equal) (List.map_filter (cql_cmp d val) rhs)))
         | RLt lhs rhs \<Rightarrow> and_then (single lhs rhs) (\<lambda>ord. Ok (ord_lt ord))
         | RLte lhs rhs \<Rightarrow> and_then (single lhs rhs) (\<lambda>ord. Ok (ord_le ord))
         | RGt lhs rhs \<Rightarrow> and_then (single lhs rhs) (\<lambda>ord. Ok (ord_gt ord))
         | RGte lhs rhs \<Rightarrow> and_then (single lhs rhs) (\<lambda>ord. Ok (ord_ge ord))
         | REqTuple lhs rhs \<Rightarrow>
             all_result (\<lambda>(l, r). and_then (single l r) (\<lambda>ord. Ok (ord_eq ord))) (zip lhs rhs)
         | RInTuple lhs rhs \<Rightarrow>
             and_then (collect_some value_of lhs) (\<lambda>vs. Ok (case vs of
                 None \<Rightarrow> False
               | Some vals \<Rightarrow> list_ex (\<lambda>tup. list_all (\<lambda>(v, w). ord_eq (cql_cmp d v w)) (zip vals tup)) rhs))
         | RLtTuple lhs rhs \<Rightarrow> and_then (tuple lhs rhs) (\<lambda>ord. Ok (ord_lt ord))
         | RLteTuple lhs rhs \<Rightarrow> and_then (tuple lhs rhs) (\<lambda>ord. Ok (ord_le ord))
         | RGtTuple lhs rhs \<Rightarrow> and_then (tuple lhs rhs) (\<lambda>ord. Ok (ord_gt ord))
         | RGteTuple lhs rhs \<Rightarrow> and_then (tuple lhs rhs) (\<lambda>ord. Ok (ord_ge ord)))"

definition is_valid_for :: "driver \<Rightarrow> table \<Rightarrow> partition_id \<Rightarrow> primary_id \<Rightarrow> restriction \<Rightarrow> bool result" where
  "is_valid_for d t partition_id primary_id restriction =
     (if \<not> is_valid_primary_id t partition_id primary_id then Ok False
      else restriction_holds d t primary_id restriction)"

definition column_value_for :: "table \<Rightarrow> partition_id \<Rightarrow> primary_id \<Rightarrow> column_name \<Rightarrow> cql_value option result" where
  "column_value_for t partition_id primary_id column =
     (if \<not> is_valid_primary_id t partition_id primary_id then Ok None
      else column_value (t_columns t) (t_primary_keys t) primary_id column)"

definition target_column :: "table \<Rightarrow> index_id \<Rightarrow> column_name option" where
  "target_column t index_id = map_option (\<lambda>ix. hd (ix_target_columns ix)) (bt_get (t_indexes t) index_id)"

section \<open>What a restriction means\<close>

text \<open>
  The meaning of a restriction over the values of a row: a restriction on a column without a
  value, or on values of different types, holds for no row; a tuple is compared up to the
  shorter side, by its first pair that is not equal.
\<close>

definition cell_cmp :: "driver \<Rightarrow> (column_name \<Rightarrow> cql_value option) \<Rightarrow> column_name \<times> cql_value \<Rightarrow> ordering option" where
  "cell_cmp d row p = Option.bind (row (fst p)) (\<lambda>v. cql_cmp d v (snd p))"

definition tuple_first :: "('a \<Rightarrow> ordering option) \<Rightarrow> 'a list \<Rightarrow> ordering \<Rightarrow> bool" where
  "tuple_first f xs ord \<longleftrightarrow>
     (\<exists>i<length xs. (\<forall>j<i. f (xs ! j) = Some Equal) \<and> f (xs ! i) = Some ord)"

definition tuple_equal :: "('a \<Rightarrow> ordering option) \<Rightarrow> 'a list \<Rightarrow> bool" where
  "tuple_equal f xs \<longleftrightarrow> (\<forall>x\<in>set xs. f x = Some Equal)"

fun satisfies :: "driver \<Rightarrow> (column_name \<Rightarrow> cql_value option) \<Rightarrow> restriction \<Rightarrow> bool" where
  "satisfies d row (REq l r) = (cell_cmp d row (l, r) = Some Equal)"
| "satisfies d row (RIn l rs) = (\<exists>r\<in>set rs. cell_cmp d row (l, r) = Some Equal)"
| "satisfies d row (RLt l r) = (cell_cmp d row (l, r) = Some Less)"
| "satisfies d row (RLte l r) = (cell_cmp d row (l, r) \<in> {Some Less, Some Equal})"
| "satisfies d row (RGt l r) = (cell_cmp d row (l, r) = Some Greater)"
| "satisfies d row (RGte l r) = (cell_cmp d row (l, r) \<in> {Some Greater, Some Equal})"
| "satisfies d row (REqTuple ls rs) = tuple_equal (cell_cmp d row) (zip ls rs)"
| "satisfies d row (RInTuple ls rss) =
     ((\<forall>l\<in>set ls. row l \<noteq> None) \<and> (\<exists>rs\<in>set rss. tuple_equal (cell_cmp d row) (zip ls rs)))"
| "satisfies d row (RLtTuple ls rs) = tuple_first (cell_cmp d row) (zip ls rs) Less"
| "satisfies d row (RLteTuple ls rs) =
     (tuple_first (cell_cmp d row) (zip ls rs) Less \<or> tuple_equal (cell_cmp d row) (zip ls rs))"
| "satisfies d row (RGtTuple ls rs) = tuple_first (cell_cmp d row) (zip ls rs) Greater"
| "satisfies d row (RGteTuple ls rs) =
     (tuple_first (cell_cmp d row) (zip ls rs) Greater \<or> tuple_equal (cell_cmp d row) (zip ls rs))"

lemma tuple_first_Nil [simp]: "\<not> tuple_first f [] ord"
  by (simp add: tuple_first_def)

lemma tuple_first_Cons [simp]:
  "tuple_first f (x # xs) ord \<longleftrightarrow> f x = Some ord \<or> f x = Some Equal \<and> tuple_first f xs ord"
proof
  assume "tuple_first f (x # xs) ord"
  then obtain i where i: "i < length (x # xs)" "\<forall>j<i. f ((x # xs) ! j) = Some Equal" "f ((x # xs) ! i) = Some ord"
    by (auto simp: tuple_first_def)
  show "f x = Some ord \<or> f x = Some Equal \<and> tuple_first f xs ord"
  proof (cases i)
    case (Suc k)
    have "f (xs ! j) = Some Equal" if "j < k" for j using i(2) Suc that by (metis Suc_less_eq nth_Cons_Suc)
    moreover have "f x = Some Equal" using i(2) Suc by fastforce
    ultimately show ?thesis using i(1,3) Suc by (auto simp: tuple_first_def)
  qed (use i in simp)
next
  assume a: "f x = Some ord \<or> f x = Some Equal \<and> tuple_first f xs ord"
  show "tuple_first f (x # xs) ord"
  proof (cases "f x = Some ord")
    case True
    then show ?thesis by (auto simp: tuple_first_def intro!: exI [of _ 0])
  next
    case False
    then obtain k where k: "k < length xs" "\<forall>j<k. f (xs ! j) = Some Equal" "f (xs ! k) = Some ord" "f x = Some Equal"
      using a by (auto simp: tuple_first_def)
    then show ?thesis
      unfolding tuple_first_def by (intro exI [of _ "Suc k"]) (auto simp: less_Suc_eq_0_disj)
  qed
qed

lemma tuple_equal_simps [simp]:
  "tuple_equal f []" "tuple_equal f (x # xs) \<longleftrightarrow> f x = Some Equal \<and> tuple_equal f xs"
  by (simp_all add: tuple_equal_def)

lemma cmp_tuple_loop_first:
  assumes "\<And>x. g x = Ok (f x)"
  shows "\<exists>ord. cmp_tuple_loop g xs = Ok ord \<and> (ord = Some Less \<longleftrightarrow> tuple_first f xs Less) \<and>
    (ord = Some Greater \<longleftrightarrow> tuple_first f xs Greater) \<and> (ord = Some Equal \<longleftrightarrow> tuple_equal f xs)"
proof (induction xs)
  case (Cons x xs)
  then show ?case by (cases "f x = Some Equal") (auto simp: assms)
qed simp

lemma all_result_Ok: "(\<And>x. g x = Ok (f x)) \<Longrightarrow> all_result g xs = Ok (list_all f xs)"
  by (induction xs) auto

lemma collect_some_Ok: "(\<And>x. g x = Ok (f x)) \<Longrightarrow> collect_some g xs = Ok (collect_option (map f xs))"
proof (induction xs)
  case (Cons x xs)
  then show ?case by (cases "f x") auto
qed simp

text \<open>The values of a row as the searches see them.\<close>

definition row_value :: "table \<Rightarrow> primary_id \<Rightarrow> column_name \<Rightarrow> cql_value option" where
  "row_value t p name = projr (column_value (t_columns t) (t_primary_keys t) p name)"

lemma column_value_total:
  assumes "table_inv d t"
  shows "column_value (t_columns t) (t_primary_keys t) p name = Ok (row_value t p name)"
proof -
  have "\<exists>v. column_value (t_columns t) (t_primary_keys t) p name = Ok v \<and> (\<forall>x. v = Some x \<longrightarrow> storable x)"
    using table_invD(2) [OF assms] stored_key_ok [OF assms] by (rule column_value_ok)
  then show ?thesis by (auto simp: row_value_def)
qed

lemma in_tuple:
  assumes "collect_option (map row ls) = Some vs"
  shows "list_all (\<lambda>(v, w). ord_eq (cql_cmp d v w)) (zip vs rs) \<longleftrightarrow> tuple_equal (cell_cmp d row) (zip ls rs)"
proof -
  have "map row ls = map Some vs" using assms by (simp add: collect_option_eq_Some)
  then show ?thesis
  proof (induction ls arbitrary: vs rs)
    case (Cons l ls)
    then obtain v vs' where vs: "vs = v # vs'" "row l = Some v" "map row ls = map Some vs'" by (cases vs) auto
    then show ?case using Cons.IH [OF vs(3)] by (cases rs) (simp_all add: cell_cmp_def ord_eq_def)
  qed simp
qed

lemma restriction_holds_satisfies:
  assumes "table_inv d t"
  shows "restriction_holds d t p r = Ok (satisfies d (row_value t p) r)"
proof -
  let ?row = "row_value t p"
  note v = column_value_total [OF assms, of p]
  have single: "cql_cmp_single d (t_columns t) (t_primary_keys t) p l w = Ok (cell_cmp d ?row (l, w))" for l w
    by (cases "?row l") (simp_all add: cql_cmp_single_def v cell_cmp_def)
  have tuple: "\<exists>ord. cql_cmp_tuple d (t_columns t) (t_primary_keys t) p ls ws = Ok ord \<and>
      (ord = Some Less \<longleftrightarrow> tuple_first (cell_cmp d ?row) (zip ls ws) Less) \<and>
      (ord = Some Greater \<longleftrightarrow> tuple_first (cell_cmp d ?row) (zip ls ws) Greater) \<and>
      (ord = Some Equal \<longleftrightarrow> tuple_equal (cell_cmp d ?row) (zip ls ws))" for ls ws
    unfolding cql_cmp_tuple_def by (rule cmp_tuple_loop_first) (auto simp: single)
  note ords = ord_eq_def ord_lt_def ord_le_def ord_gt_def ord_ge_def
  show ?thesis
  proof (cases r)
    case (RIn l ws)
    have "list_ex ((=) Equal) (List.map_filter (cql_cmp d val) ws) \<longleftrightarrow> (\<exists>w\<in>set ws. cql_cmp d val w = Some Equal)" for val
      by (induction ws) (auto simp: map_filter_simps split: option.split)
    then show ?thesis using RIn by (cases "?row l") (simp_all add: restriction_holds_def Let_def v cell_cmp_def)
  next
    case (REqTuple ls ws)
    have "all_result (\<lambda>(l, w). and_then (cql_cmp_single d (t_columns t) (t_primary_keys t) p l w) (\<lambda>ord. Ok (ord_eq ord)))
        (zip ls ws) = Ok (list_all (\<lambda>x. ord_eq (cell_cmp d ?row x)) (zip ls ws))"
      by (rule all_result_Ok) (auto simp: single)
    then show ?thesis using REqTuple by (simp add: restriction_holds_def Let_def ord_eq_def tuple_equal_def list_all_iff)
  next
    case (RInTuple ls wss)
    have "collect_some (column_value (t_columns t) (t_primary_keys t) p) ls = Ok (collect_option (map ?row ls))"
      by (rule collect_some_Ok) (rule v)
    moreover have "(\<forall>l\<in>set ls. ?row l \<noteq> None) \<longleftrightarrow> collect_option (map ?row ls) \<noteq> None"
      using collect_option_eq_None [of "map ?row ls"] by (force simp: image_iff)
    ultimately show ?thesis
      using RInTuple in_tuple [of ?row ls _ d]
      by (cases "collect_option (map ?row ls)") (simp_all add: restriction_holds_def Let_def list_ex_iff)
  next
    case (RLtTuple ls ws)
    then show ?thesis using tuple [of ls ws] by (auto simp: restriction_holds_def Let_def ords)
  next
    case (RLteTuple ls ws)
    then show ?thesis using tuple [of ls ws] by (auto simp: restriction_holds_def Let_def ords)
  next
    case (RGtTuple ls ws)
    then show ?thesis using tuple [of ls ws] by (auto simp: restriction_holds_def Let_def ords)
  next
    case (RGteTuple ls ws)
    then show ?thesis using tuple [of ls ws] by (auto simp: restriction_holds_def Let_def ords)
  qed (simp_all add: restriction_holds_def Let_def single ords)
qed

section \<open>Entries of an index\<close>

lemma valid_iff:
  assumes "table_inv d t" and "bt_get (t_indexes t) x = Some ix" and "partition_index_id q = x"
  shows "is_valid_primary_id t q p \<longleftrightarrow>
    primary_idx p < table_rows t \<and> row_epoch (ix_values_timestamps ix) (primary_idx p) = primary_epoch p"
  using assms index_invD [of "table_rows t" ix] table_invD(5) [OF assms(1,2)]
  by (auto simp: is_valid_primary_id_def cvc_get_row sh_epoch_def row_epoch_def)

lemma live_entry:
  assumes "table_inv d t" and "(q, p) \<in> live t x"
  obtains ix where "bt_get (t_indexes t) x = Some ix" and "partition_index_id q = x"
    and "primary_idx p < table_rows t" and "row_part ix (primary_idx p) = Some q"
    and "primary_epoch p = row_epoch (ix_values_timestamps ix) (primary_idx p)"
proof -
  obtain ix where ix: "bt_get (t_indexes t) x = Some ix" "(q, p) \<in> live_index (table_rows t) ix"
    using assms(2) by (auto simp: live_def split: option.splits)
  note l = ix(2) [unfolded live_index_def live_of_def, simplified]
  have inv: "ix_index_id ix = x" "index_inv (table_rows t) ix" using table_invD(5) [OF assms(1) ix(1)] by simp_all
  have "partition_index_id q = x"
  proof (cases "ix_data ix")
    case Global
    then show ?thesis using l inv by (auto simp: row_part_def split: if_splits)
  next
    case (Local li)
    then show ?thesis using l inv part_row(2) index_invD(4) [OF inv(2) Local] by (fastforce simp: row_part_def)
  qed
  then show thesis using that ix(1) l by blast
qed

lemma live_valid: "table_inv d t \<Longrightarrow> (q, p) \<in> live t x \<Longrightarrow> is_valid_primary_id t q p"
  by (metis live_entry valid_iff)

lemma row_outcome_stale:
  assumes out: "row_outcome t3 x0 p0 vals ts r t'" and i0: "primary_idx p0 < table_rows t3"
    and rows: "table_rows t' = table_rows t3" and inv: "table_inv d t3" "table_inv d t'"
    and before: "(q, p) \<in> live t3 x" and after: "(q, p) \<notin> live t' x"
  shows "\<not> is_valid_primary_id t' q p"
proof -
  have x: "x = x0" using row_outcome_live(2) [OF out i0 rows, of x] before after by blast
  obtain ix where ix: "bt_get (t_indexes t3) x = Some ix" "partition_index_id q = x" "primary_idx p < table_rows t3"
    "row_part ix (primary_idx p) = Some q" "primary_epoch p = row_epoch (ix_values_timestamps ix) (primary_idx p)"
    using live_entry [OF inv(1) before] .
  obtain ops where r: "r = Ok ops"
    using row_outcome_live(1) [OF out i0 rows] before after x by (cases r) auto
  have "live t' x = live t3 x" if "bt_get (t_indexes t') x = Some ix"
    using that ix(1) rows by (simp add: live_def)
  then have moved: "\<exists>miss ix'. bt_get (t_indexes t') x = Some ix' \<and> row_moved miss (table_rows t3) p0 ts vals ix ops ix'"
    using out ix(1) x r before after by (auto simp: row_outcome_def split: if_splits)
  then obtain miss ix' where ix': "bt_get (t_indexes t') x = Some ix'" "row_moved miss (table_rows t3) p0 ts vals ix ops ix'"
    by blast
  then obtain tgt where m: "\<forall>j<table_rows t3. row_part ix' j = ((row_part ix)(primary_idx p0 := tgt)) j"
    "\<forall>j<table_rows t3. row_epoch (ix_values_timestamps ix') j =
       ((row_epoch (ix_values_timestamps ix))(primary_idx p0 := epoch_next (row_epoch (ix_values_timestamps ix) (primary_idx p0)))) j"
    unfolding row_moved_def by blast
  have "primary_idx p = primary_idx p0"
  proof (rule ccontr)
    assume "primary_idx p \<noteq> primary_idx p0"
    then have "(q, p) \<in> live t' x" using ix ix'(1) m rows by (simp add: live_def live_index_def live_of_def)
    then show False using after by blast
  qed
  then show ?thesis
    using valid_iff [OF inv(2) ix'(1) ix(2)] m(2) ix(3,5) by (metis epoch_next_neq fun_upd_same)
qed

section \<open>The key of a partition\<close>

lemma collect_key_find:
  "map f names = map Some vs \<Longrightarrow>
     collect_key (\<lambda>c. Ok (f c)) names cnt buf = map_sum id Some (from_iter_loop vs cnt buf)"
proof (induction names arbitrary: vs cnt buf)
  case (Cons name names)
  then obtain v vs' where vs: "vs = v # vs'" "f name = Some v" "map f names = map Some vs'" by (cases vs) auto
  then show ?case using Cons.IH [OF vs(3)] by (cases "encode_value v") simp_all
qed simp

lemma collect_key_missing:
  "collect_key (\<lambda>c. Ok (f c)) names cnt buf = Ok (Some k) \<Longrightarrow> \<exists>vs. map f names = map Some vs"
proof (induction names arbitrary: cnt buf)
  case (Cons name names)
  then obtain v bytes where v: "f name = Some v" "collect_key (\<lambda>c. Ok (f c)) names (cnt + 1) (buf @ bytes) = Ok (Some k)"
    by (auto simp: result_simps split: option.splits)
  then obtain vs where "map f names = map Some vs" using Cons.IH by blast
  then have "map f (name # names) = map Some (v # vs)" using v(1) by simp
  then show ?case by blast
qed simp

lemma partition_key_from_restrictions_Some:
  assumes "partition_key_from_restrictions cols rs = Ok (Some (key, rest))"
  obtains vs where "map (\<lambda>c. find_eq c rs) (take MAX_COLUMNS cols) = map Some vs" and "ik_from_iter vs = Ok key"
    and "(case rest of None \<Rightarrow> [] | Some l \<Rightarrow> l) = filter (\<lambda>r. \<not> is_key_eq cols r) rs"
proof -
  let ?cols = "take MAX_COLUMNS cols"
  have k: "collect_key (\<lambda>c. Ok (find_eq c rs)) ?cols 0 [] = Ok (Some key)"
    and rest: "(case rest of None \<Rightarrow> [] | Some l \<Rightarrow> l) = filter (\<lambda>r. \<not> is_key_eq cols r) rs"
    using assms by (auto simp: partition_key_from_restrictions_def result_simps Let_def split: if_splits)
  obtain vs where vs: "map (\<lambda>c. find_eq c rs) ?cols = map Some vs" using collect_key_missing [OF k] by blast
  then have "map_sum id Some (from_iter_loop vs 0 []) = Ok (Some key)" using k collect_key_find [OF vs, of 0 "[]"] by simp
  then have "from_iter_loop vs 0 [] = Ok key" by (cases "from_iter_loop vs 0 []") auto
  moreover have "length vs \<le> MAX_COLUMNS" using vs by (metis length_map length_take min.cobounded2)
  ultimately show thesis using that vs rest by (simp add: ik_from_iter_def)
qed

lemma partition_inhabited:
  assumes inv: "table_inv d t" and ix: "bt_get (t_indexes t) x = Some ix" "ix_data ix = Local li"
    and q: "bt_get (li_map li) k = Some q"
  shows "li_keys li ! partition_idx q = Some k" and "\<exists>p. (q, p) \<in> live t x"
proof -
  have core: "part_core (ix_index_id ix) (table_rows t) li" "part_inhabited {} li"
    using table_invD(5) [OF inv ix(1)] ix(2) by (auto simp: index_inv_def)
  note c = part_coreD [OF core(1)]
  show "li_keys li ! partition_idx q = Some k" using c(4) q .
  have "0 < rows_in (li_ids li) (partition_idx q)"
    using core(2) q c(7) part_used(1) [OF core(1) q] by (force simp: part_inhabited_def)
  then obtain i q' where i: "i < table_rows t" "li_ids li ! i = Some q'" "partition_idx q' = partition_idx q"
    using c(3) by (auto simp: rows_in_pos)
  obtain k' where "bt_get (li_map li) k' = Some q'" using c(6) i(1,2) by blast
  then have "q' = q" using part_same_idx(1) [OF core(1) _ q] i(3) by blast
  moreover have "i \<in> primary_idx ` set (map snd (t_primary_ids t) @ t_free_primary_ids t)"
    using primary_pool.pool_cover table_invD(1) [OF inv] i(1) by (fastforce simp: primary_inv_def)
  then obtain p where "primary_idx p = i" by blast
  ultimately have "(q, new_epoch p (row_epoch (ix_values_timestamps ix) i)) \<in> live t x"
    using i ix by (simp add: live_def live_index_def live_of_def row_part_def)
  then show "\<exists>p. (q, p) \<in> live t x" by blast
qed

lemma example_live:
  "(partition_global (IndexId 32768), new_epoch (PrimaryId 0) (Epoch 1)) \<in> live example_table (IndexId 32768)"
  by (simp add: live_def example_gets live_index_def live_of_def example_rows) (simp add: table_rows_def example_table_def)

text \<open>A table with the index on a partition column: row 1 is in the partition of the key 7.\<close>

definition returning_table :: table where
  "returning_table =
     \<lparr>t_partition_primary_key_count = 1, t_needs_ck_normalization = False,
      t_primary_ids = [(example_key, PrimaryId 1)], t_free_primary_ids = [PrimaryId 0],
      t_primary_keys = [None, Some example_key], t_columns = [(''pk'', ColPrimaryKey 0)],
      t_index_id_generator = \<lparr>gen_next = 1\<rparr>, t_index_ids = [(''ks.idx'', IndexId 0)],
      t_indexes = [(IndexId 0, returning_index)]\<rparr>"

lemma returning_gets: "bt_get (t_index_ids returning_table) ''ks.idx'' = Some (IndexId 0)"
  "bt_get (t_indexes returning_table) (IndexId 0) = Some returning_index"
  by (simp_all add: returning_table_def bt_get_def)

lemma returning_table_inv: "table_inv d returning_table"
proof -
  have "primary_inv d returning_table"
    using example_key_of
    by (auto simp: primary_inv_def returning_table_def table_rows_def pool_inv_def bt_inv_def bt_get_def
        normalize_primary_key_def upt_rec split: if_splits)
  moreover have "columns_inv 2 (t_columns returning_table)"
    by (simp add: columns_inv_def returning_table_def bt_inv_def bt_get_def col_inv_def)
  moreover have "indexes_inv 2 (t_indexes returning_table)"
    using returning_inv
    by (simp add: indexes_inv_def returning_table_def bt_inv_def bt_get_def) (simp add: returning_index_def)
  moreover have "keyed returning_table"
    using returning_row by (auto simp: keyed_def returning_table_def table_rows_def bt_get_def less_Suc_eq split: if_splits)
  moreover have "table_rows returning_table = 2"
    by (simp add: table_rows_def returning_table_def)
  ultimately show ?thesis
    by (simp add: table_inv_def) (simp add: returning_table_def bt_get_def)
qed

section \<open>Properties\<close>

text \<open>
  C30: filtering a candidate of a search is sound, complete and never fails. For a table that
  satisfies the invariant, \<open>is_valid_for\<close> accepts exactly the current entries whose row
  satisfies the restriction: single columns by the order of their type, \<open>IN\<close> by some element,
  tuples lexicographically by their first pair that differs.
\<close>

theorem search_filter_correct:
  assumes "table_inv d t"
  shows "is_valid_for d t q p r = Ok (is_valid_primary_id t q p \<and> satisfies d (row_value t p) r)"
  using restriction_holds_satisfies [OF assms] by (simp add: is_valid_for_def)

theorem search_filter_correct_witness:
  "is_valid_for example_driver example_table (partition_global (IndexId 32768)) (new_epoch (PrimaryId 0) (Epoch 1))
     (RLteTuple [''pk'', ''pk''] [CqlInt 1, CqlInt 2]) =
   Ok (is_valid_primary_id example_table (partition_global (IndexId 32768)) (new_epoch (PrimaryId 0) (Epoch 1)) \<and>
       satisfies example_driver (row_value example_table (new_epoch (PrimaryId 0) (Epoch 1)))
         (RLteTuple [''pk'', ''pk''] [CqlInt 1, CqlInt 2]))"
  by (rule search_filter_correct [OF example_inv])

text \<open>
  Every entry a correct index holds can be answered. A live entry of an index passes the
  validity check of the searches and resolves to a stored primary key, and that key, normalised,
  is the one registered for the row.
\<close>

theorem live_entries_resolve:
  assumes "table_inv d t" and "(q, p) \<in> live t x"
  shows "is_valid_primary_id t q p \<and>
    (\<exists>key vs k p0. search_primary_key t q p = Some key \<and> key_of vs key \<and> normalize_primary_key d t key = Ok k \<and>
       bt_get (t_primary_ids t) k = Some p0 \<and> primary_idx p0 = primary_idx p)"
proof -
  obtain ix where ix: "bt_get (t_indexes t) x = Some ix" "partition_index_id q = x" "primary_idx p < table_rows t"
    "row_part ix (primary_idx p) = Some q" "primary_epoch p = row_epoch (ix_values_timestamps ix) (primary_idx p)"
    using live_entry [OF assms] .
  have valid: "is_valid_primary_id t q p" using assms by (rule live_valid)
  have "t_primary_keys t ! primary_idx p \<noteq> None"
    using assms(1) ix(1,3,4) by (auto simp: table_inv_def keyed_def)
  then obtain key where key: "t_primary_keys t ! primary_idx p = Some key" by blast
  obtain k p0 where "bt_get (t_primary_ids t) k = Some p0" "primary_idx p0 = primary_idx p"
    using stored_row [OF assms(1) ix(3) key] .
  moreover from this obtain vs where "key_of vs key" "normalize_primary_key d t key = Ok k"
    using table_invD(1) [OF assms(1), unfolded primary_inv_def] key by (metis option.inject)
  ultimately show ?thesis
    using valid key ix(3) by (auto simp: search_primary_key_def cv_get_def vec_get_def table_rows_def)
qed

theorem live_entries_resolve_witness:
  "is_valid_primary_id example_table (partition_global (IndexId 32768)) (new_epoch (PrimaryId 0) (Epoch 1)) \<and>
    (\<exists>key vs k p0. search_primary_key example_table (partition_global (IndexId 32768)) (new_epoch (PrimaryId 0) (Epoch 1)) = Some key \<and>
       key_of vs key \<and> normalize_primary_key example_driver example_table key = Ok k \<and>
       bt_get (t_primary_ids example_table) k = Some p0 \<and> primary_idx p0 = primary_idx (new_epoch (PrimaryId 0) (Epoch 1)))"
  by (rule live_entries_resolve [OF example_inv example_live])

text \<open>
  An entry that left the index is rejected. Whatever an upsert or a delete does, an entry that
  was live before it is accepted by the searches afterwards exactly if it is still live: an
  index that has not applied the operations yet cannot answer with a replaced, moved or removed
  row.
\<close>

theorem stale_entries_rejected:
  assumes "table_inv d t" and "key_of vs pk" and "values_ok vals" and "partition_room t"
    and "t' \<in> {snd (upsert d key pk vals t), snd (delete d key pk timestamp t)}" and "(q, p) \<in> live t x"
  shows "is_valid_primary_id t' q p \<longleftrightarrow> (q, p) \<in> live t' x"
proof -
  have row: "is_valid_primary_id t' q p \<longleftrightarrow> (q, p) \<in> live t' x"
    if "at_row d t pk t3 p0" "row_outcome t3 x0 p0 v ts r t'" "table_rows t' = table_rows t3" "table_inv d t'" for t3 x0 p0 v ts r
    using row_outcome_stale [OF that(2) _ that(3) _ that(4)] live_valid [OF that(4)] that(1) assms(6)
    by (auto simp: at_row_def)
  have same: "is_valid_primary_id t' q p \<longleftrightarrow> (q, p) \<in> live t' x" if "table_inv d t'" "\<forall>x. live t' x = live t x"
    using that live_valid [OF that(1)] assms(6) by blast
  from assms(5) consider (u) r where "upsert d key pk vals t = (r, t')" | (d) r where "delete d key pk timestamp t = (r, t')"
    by (cases "upsert d key pk vals t"; cases "delete d key pk timestamp t") auto
  then show ?thesis
  proof cases
    case u
    from assms(1-4) u show ?thesis by (rule upsert_cases) (use row same in blast)+
  next
    case d
    from assms(1,2) d show ?thesis by (rule delete_cases) (use row same assms(1) in blast)+
  qed
qed

theorem stale_entries_rejected_witness:
  "is_valid_primary_id (snd (delete example_driver ''ks.idx'' example_key (Timestamp 9) example_table))
     (partition_global (IndexId 32768)) (new_epoch (PrimaryId 0) (Epoch 1)) \<longleftrightarrow>
   (partition_global (IndexId 32768), new_epoch (PrimaryId 0) (Epoch 1)) \<in>
     live (snd (delete example_driver ''ks.idx'' example_key (Timestamp 9) example_table)) (IndexId 32768)"
  by (rule stale_entries_rejected [where timestamp = "Timestamp 9", OF example_inv example_key_of example_values_ok example_room _ example_live]) blast

text \<open>
  A search on a local index goes to the right partition. When \<open>partition_id\<close> answers for a
  local index, every partition key column has an equality restriction, the partition found is
  the one stored under the key those values encode, it has at least one live row, and the
  remaining restrictions are exactly the given ones less the equalities on the partition key.
\<close>

theorem search_partition_correct:
  assumes "table_inv d t" and "bt_get (t_index_ids t) key = Some x" and "bt_get (t_indexes t) x = Some ix"
    and "ix_data ix = Local li" and "search_partition_id t key (Some rs) = Ok (Some (q, rest))"
  shows "\<exists>vs k. map (\<lambda>c. find_eq c rs) (take MAX_COLUMNS (li_partition_key_columns li)) = map Some vs \<and>
      ik_from_iter vs = Ok k \<and> bt_get (li_map li) k = Some q \<and> li_keys li ! partition_idx q = Some k \<and>
      (\<exists>p. (q, p) \<in> live t x) \<and>
      (case rest of None \<Rightarrow> [] | Some l \<Rightarrow> l) = filter (\<lambda>r. \<not> is_key_eq (li_partition_key_columns li) r) rs"
proof -
  obtain k where found: "partition_key_from_restrictions (li_partition_key_columns li) rs = Ok (Some (k, rest))"
    and q: "bt_get (li_map li) k = Some q"
    using assms(2-5) by (auto simp: search_partition_id_def result_simps split: option.splits)
  obtain vs where "map (\<lambda>c. find_eq c rs) (take MAX_COLUMNS (li_partition_key_columns li)) = map Some vs"
    "ik_from_iter vs = Ok k" "(case rest of None \<Rightarrow> [] | Some l \<Rightarrow> l) = filter (\<lambda>r. \<not> is_key_eq (li_partition_key_columns li) r) rs"
    using partition_key_from_restrictions_Some [OF found] .
  moreover have "li_keys li ! partition_idx q = Some k" "\<exists>p. (q, p) \<in> live t x"
    using partition_inhabited [OF assms(1,3,4) q] by blast+
  ultimately show ?thesis using q by blast
qed

theorem search_partition_correct_witness:
  "\<exists>vs k. map (\<lambda>c. find_eq c [REq ''c'' (CqlInt 7), RLt ''pk'' (CqlInt 3)]) (take MAX_COLUMNS (li_partition_key_columns returning_local)) = map Some vs \<and>
      ik_from_iter vs = Ok k \<and> bt_get (li_map returning_local) k = Some (PartitionId 0) \<and>
      li_keys returning_local ! partition_idx (PartitionId 0) = Some k \<and>
      (\<exists>p. (PartitionId 0, p) \<in> live returning_table (IndexId 0)) \<and>
      (case Some [RLt ''pk'' (CqlInt 3)] of None \<Rightarrow> [] | Some l \<Rightarrow> l) =
        filter (\<lambda>r. \<not> is_key_eq (li_partition_key_columns returning_local) r) [REq ''c'' (CqlInt 7), RLt ''pk'' (CqlInt 3)]"
proof -
  have "partition_key_from_restrictions [''c''] [REq ''c'' (CqlInt 7), RLt ''pk'' (CqlInt 3)] =
      Ok (Some (returning_key 7, Some [RLt ''pk'' (CqlInt 3)]))"
    by code_simp
  then have "search_partition_id returning_table ''ks.idx'' (Some [REq ''c'' (CqlInt 7), RLt ''pk'' (CqlInt 3)]) =
      Ok (Some (PartitionId 0, Some [RLt ''pk'' (CqlInt 3)]))"
    by (simp add: search_partition_id_def returning_gets returning_fields) (simp add: returning_local_def bt_get_def)
  then show ?thesis
    by (rule search_partition_correct [OF returning_table_inv returning_gets returning_fields(2)])
qed

end
