(* ===== verification/Checkpoints.thy ===== *)
theory Checkpoints
  imports Prelude
begin

text \<open>
  Model of \<open>crates/vector-store/src/db_cdc/checkpoint_saver.rs\<close>: the saver reports the progress of
  a CDC reader, the minimum of the last timestamps of its streams, which it keeps up to date
  by counting how many streams are at each timestamp. A \<open>Duration\<close> is its number of
  nanoseconds; subtraction below zero of the counter is a panic, and it is proved not to
  happen. The gauge is the last duration written to it.
\<close>

section \<open>StreamProgress\<close>

record 'stream stream_progress =
  sp_positions :: "'stream \<Rightarrow> nat option"
  sp_counts :: "(nat, nat) btree"

definition progress_default :: "'stream stream_progress" where
  "progress_default = \<lparr>sp_positions = Map.empty, sp_counts = []\<rparr>"

definition lower_count :: "nat \<Rightarrow> (nat, nat) btree \<Rightarrow> (nat, nat) btree result" where
  "lower_count previous counts =
     (case bt_get counts previous of
        None \<Rightarrow> Ok counts
      | Some count1 \<Rightarrow>
          if count1 = 0 then Err (Panic ''attempt to subtract with overflow'')
          else Ok (if count1 - 1 = 0 then bt_remove previous counts else bt_insert previous (count1 - 1) counts))"

definition raise_count :: "nat \<Rightarrow> (nat, nat) btree \<Rightarrow> (nat, nat) btree" where
  "raise_count timestamp counts =
     bt_insert timestamp ((case bt_get counts timestamp of None \<Rightarrow> 0 | Some n \<Rightarrow> n) + 1) counts"

definition first_key :: "('k, 'v) btree \<Rightarrow> 'k option" where
  "first_key m = (case m of [] \<Rightarrow> None | (k, _) # _ \<Rightarrow> Some k)"

definition progress_record ::
  "'stream \<Rightarrow> nat \<Rightarrow> 'stream stream_progress \<Rightarrow> (nat option \<times> 'stream stream_progress) result" where
  "progress_record stream_id timestamp p =
     (let previous = sp_positions p stream_id;
          positions = (sp_positions p)(stream_id \<mapsto> timestamp)
      in and_then (case previous of None \<Rightarrow> Ok (sp_counts p) | Some d \<Rightarrow> lower_count d (sp_counts p)) (\<lambda>counts1.
           let counts2 = raise_count timestamp counts1
           in Ok (first_key counts2, \<lparr>sp_positions = positions, sp_counts = counts2\<rparr>)))"

definition progress_clear :: "'stream stream_progress \<Rightarrow> 'stream stream_progress" where
  "progress_clear p = p\<lparr>sp_positions := Map.empty, sp_counts := []\<rparr>"

section \<open>MetricsCheckpointSaver\<close>

record 'stream checkpoint_saver =
  cs_gauge :: "nat option"
  cs_state :: "'stream stream_progress"

definition saver_new :: "'stream checkpoint_saver" where
  "saver_new = \<lparr>cs_gauge = None, cs_state = progress_default\<rparr>"

definition record_stream_progress ::
  "'stream \<Rightarrow> nat \<Rightarrow> 'stream checkpoint_saver \<Rightarrow> 'stream checkpoint_saver result" where
  "record_stream_progress stream_id timestamp sv =
     and_then (progress_record stream_id timestamp (cs_state sv)) (\<lambda>(min_progress, state).
       let sv1 = sv\<lparr>cs_state := state\<rparr>
       in Ok (case min_progress of None \<Rightarrow> sv1 | Some progress \<Rightarrow> sv1\<lparr>cs_gauge := Some progress\<rparr>))"

definition saver_reset :: "'stream checkpoint_saver \<Rightarrow> 'stream checkpoint_saver" where
  "saver_reset sv = sv\<lparr>cs_state := progress_clear (cs_state sv)\<rparr>"

text \<open>The calls of the reader library.\<close>

datatype 'stream saver_call = SaveCheckpoint 'stream nat | SaveNewGeneration

fun saver_step :: "'stream saver_call \<Rightarrow> 'stream checkpoint_saver \<Rightarrow> 'stream checkpoint_saver result" where
  "saver_step (SaveCheckpoint stream_id timestamp) sv = record_stream_progress stream_id timestamp sv"
| "saver_step SaveNewGeneration sv = Ok (saver_reset sv)"

fun saver_run :: "'stream saver_call list \<Rightarrow> 'stream checkpoint_saver \<Rightarrow> 'stream checkpoint_saver result" where
  "saver_run [] sv = Ok sv"
| "saver_run (c # cs) sv = and_then (saver_step c sv) (saver_run cs)"

section \<open>The counts are the counts\<close>

definition streams_at :: "('stream \<Rightarrow> nat option) \<Rightarrow> nat \<Rightarrow> nat" where
  "streams_at pos d = card {s. pos s = Some d}"

definition counts_inv :: "('stream \<Rightarrow> nat option) \<Rightarrow> (nat, nat) btree \<Rightarrow> bool" where
  "counts_inv pos counts \<longleftrightarrow>
     bt_inv counts \<and> (\<forall>d. bt_get counts d = (if streams_at pos d = 0 then None else Some (streams_at pos d)))"

definition progress_inv :: "'stream stream_progress \<Rightarrow> bool" where
  "progress_inv p \<longleftrightarrow> finite (dom (sp_positions p)) \<and> counts_inv (sp_positions p) (sp_counts p)"

lemma finite_at: "finite (dom pos) \<Longrightarrow> finite {s. pos s = Some d}"
  by (rule finite_subset [of _ "dom pos"]) auto

lemma streams_at_leave:
  assumes "finite (dom pos)" and "pos s = Some d"
  shows "streams_at pos e = streams_at (pos(s := None)) e + (if e = d then 1 else 0)"
proof (cases "e = d")
  case True
  have "{s'. pos s' = Some d} = insert s {s'. (pos(s := None)) s' = Some d}" using assms(2) by auto
  moreover have "finite {s'. (pos(s := None)) s' = Some d}"
    by (rule finite_subset [OF _ finite_at [OF assms(1), of d]]) auto
  ultimately show ?thesis using True by (simp add: streams_at_def)
next
  case False
  then have "{s'. pos s' = Some e} = {s'. (pos(s := None)) s' = Some e}" using assms(2) by auto
  then show ?thesis using False by (simp add: streams_at_def)
qed

lemma streams_at_enter:
  assumes "finite (dom pos)" and "pos s = None"
  shows "streams_at (pos(s \<mapsto> d)) e = streams_at pos e + (if e = d then 1 else 0)"
  using streams_at_leave [of "pos(s \<mapsto> d)" s d e] assms by (simp add: fun_upd_idem)

lemma streams_at_pos: "finite (dom pos) \<Longrightarrow> pos s = Some d \<Longrightarrow> 0 < streams_at pos d"
  using finite_at [of pos d] by (auto simp: streams_at_def card_gt_0_iff)

lemma lower_count_ok:
  assumes "finite (dom pos)" and "pos s = Some d" and "counts_inv pos counts"
  shows "\<exists>counts'. lower_count d counts = Ok counts' \<and> counts_inv (pos(s := None)) counts'"
  using streams_at_pos [OF assms(1,2)] streams_at_leave [OF assms(1,2)] assms(3)
  by (auto simp: lower_count_def counts_inv_def)

lemma raise_count_ok:
  assumes "finite (dom pos)" and "pos s = None" and "counts_inv pos counts"
  shows "counts_inv (pos(s \<mapsto> d)) (raise_count d counts)"
  using streams_at_enter [OF assms(1,2)] assms(3) by (auto simp: raise_count_def counts_inv_def)

lemma first_key_Min:
  assumes "bt_inv m" and "m \<noteq> []"
  shows "first_key m = Some (Min {k. bt_get m k \<noteq> None})"
proof -
  obtain k v m' where m: "m = (k, v) # m'" using assms(2) by (cases m) auto
  have keys: "{k. bt_get m k \<noteq> None} = fst ` set m"
    by (force simp: bt_get_def map_of_eq_None_iff)
  have "Min (fst ` set m) = k"
    using assms(1) m by (intro Min_eqI) (auto simp: bt_inv_def intro: less_imp_le)
  then show ?thesis unfolding keys by (simp add: first_key_def m)
qed

lemma counts_keys: "finite (dom pos) \<Longrightarrow> counts_inv pos counts \<Longrightarrow> {d. bt_get counts d \<noteq> None} = ran pos"
  using finite_at [of pos] by (auto simp: counts_inv_def streams_at_def ran_def)

lemma progress_record_ok:
  assumes "progress_inv p"
  shows "\<exists>p'. progress_record s d p = Ok (Some (Min (ran (sp_positions p'))), p') \<and> progress_inv p' \<and>
    sp_positions p' = (sp_positions p)(s \<mapsto> d)"
proof -
  let ?pos = "sp_positions p"
  have fin: "finite (dom ?pos)" and inv: "counts_inv ?pos (sp_counts p)"
    using assms by (simp_all add: progress_inv_def)
  obtain counts1 where c1: "(case ?pos s of None \<Rightarrow> Ok (sp_counts p) | Some d \<Rightarrow> lower_count d (sp_counts p)) = Ok counts1"
    and inv1: "counts_inv (?pos(s := None)) counts1"
    using lower_count_ok [OF fin _ inv, of s] inv by (cases "?pos s") (auto simp: fun_upd_idem)
  have fin1: "finite (dom (?pos(s := None)))" using fin by simp
  have inv2: "counts_inv (?pos(s \<mapsto> d)) (raise_count d counts1)"
    using raise_count_ok [OF fin1 _ inv1, of s d] by simp
  have fin2: "finite (dom (?pos(s \<mapsto> d)))" using fin by simp
  have "raise_count d counts1 \<noteq> []"
    by (metis bt_get_empty bt_get_insert option.distinct(1) raise_count_def)
  then have "first_key (raise_count d counts1) = Some (Min (ran (?pos(s \<mapsto> d))))"
    using first_key_Min counts_keys [OF fin2 inv2] inv2 by (metis counts_inv_def)
  then show ?thesis
    using c1 inv2 fin2 by (simp add: progress_record_def Let_def progress_inv_def)
qed

section \<open>Properties\<close>

text \<open>The last position of every stream of the current generation, from the history of calls.\<close>

fun note_call :: "'stream saver_call \<Rightarrow> ('stream \<Rightarrow> nat option) \<Rightarrow> 'stream \<Rightarrow> nat option" where
  "note_call (SaveCheckpoint s d) pos = pos(s \<mapsto> d)"
| "note_call SaveNewGeneration pos = Map.empty"

definition last_positions :: "'stream saver_call list \<Rightarrow> 'stream \<Rightarrow> nat option" where
  "last_positions calls = fold note_call calls Map.empty"

lemma saver_run_append: "saver_run (xs @ ys) sv = and_then (saver_run xs sv) (saver_run ys)"
  by (induction xs arbitrary: sv) (auto, metis and_then.simps sumE)

lemma saver_step_ok:
  assumes "progress_inv (cs_state sv)"
  shows "\<exists>sv'. saver_step c sv = Ok sv' \<and> progress_inv (cs_state sv') \<and>
    sp_positions (cs_state sv') = note_call c (sp_positions (cs_state sv)) \<and>
    (case c of SaveCheckpoint _ _ \<Rightarrow> cs_gauge sv' = Some (Min (ran (sp_positions (cs_state sv'))))
     | SaveNewGeneration \<Rightarrow> cs_gauge sv' = cs_gauge sv)"
proof (cases c)
  case (SaveCheckpoint s d)
  then show ?thesis
    using progress_record_ok [OF assms, of s d] by (auto simp: record_stream_progress_def Let_def)
next
  case SaveNewGeneration
  then show ?thesis
    by (simp add: saver_reset_def progress_clear_def progress_inv_def counts_inv_def streams_at_def)
qed

lemma saver_run_ok:
  "\<exists>sv. saver_run calls saver_new = Ok sv \<and> progress_inv (cs_state sv) \<and>
     sp_positions (cs_state sv) = last_positions calls"
proof (induction calls rule: rev_induct)
  case Nil
  then show ?case
    by (simp add: saver_new_def progress_default_def progress_inv_def counts_inv_def streams_at_def last_positions_def)
next
  case (snoc c calls)
  then obtain sv where sv: "saver_run calls saver_new = Ok sv" "progress_inv (cs_state sv)"
    "sp_positions (cs_state sv) = last_positions calls" by blast
  obtain sv' where "saver_step c sv = Ok sv'" "progress_inv (cs_state sv')"
    "sp_positions (cs_state sv') = note_call c (sp_positions (cs_state sv))"
    using saver_step_ok [OF sv(2), of c] by blast
  then show ?case using sv by (simp add: saver_run_append last_positions_def)
qed

text \<open>
  The reported progress of a CDC reader is exact. After any calls of the reader the saver has
  not panicked, and when a checkpoint was saved last the gauge is the smallest of the last
  positions of all streams seen since the last new generation: a slow stream holds the report
  back, and streams of an old generation no longer do.
\<close>

theorem checkpoint_minimum:
  "\<exists>sv. saver_run (calls @ [SaveCheckpoint s d]) saver_new = Ok sv \<and>
     cs_gauge sv = Some (Min (ran (last_positions (calls @ [SaveCheckpoint s d]))))"
proof -
  obtain sv where sv: "saver_run calls saver_new = Ok sv" "progress_inv (cs_state sv)"
    "sp_positions (cs_state sv) = last_positions calls"
    using saver_run_ok by blast
  then show ?thesis
    using saver_step_ok [OF sv(2), of "SaveCheckpoint s d"] by (auto simp: saver_run_append last_positions_def)
qed

end
