(* ===== verification/Node_State.thy ===== *)
theory Node_State
  imports Index_Types
begin

text \<open>
  Model of \<open>crates/vector-store/src/node_state.rs\<close>: the actor that keeps the status of the node
  and of its indexes. Its state is a record, each message is one step of a function, and the
  actor runs over the sequence of messages it receives. What the node is still waiting for is
  specified over the history of events, without the actor's state, and the actor is proved to
  implement that specification.
\<close>

section \<open>State and events\<close>

datatype node_status =
    NodeInitializing
  | NodeConnectingToDb
  | NodeDiscoveringIndexes
  | NodeIndexingEmbeddings
  | NodeServing

datatype index_status = IndexInitializing | IndexFullScanning | IndexServing

datatype event =
    ConnectingToDb
  | ConnectedToDb
  | DiscoveringIndexes
  | IndexesDiscovered "index_metadata set"
  | FullScanStarted index_metadata
  | FullScanFinished index_metadata

datatype node_msg =
    SendEvent event
  | GetStatus
  | GetIndexStatus string string

datatype node_reply = Status node_status | IndexStatusReply "index_status option"

record node_state =
  ns_status :: node_status
  ns_initial_idxs :: "index_metadata set option"
  ns_idxs :: "index_key \<Rightarrow> index_status option"

definition node_init :: node_state where
  "node_init = \<lparr>ns_status = NodeInitializing, ns_initial_idxs = None, ns_idxs = Map.empty\<rparr>"

section \<open>Steps\<close>

definition update_indexes ::
  "(index_key \<Rightarrow> index_status option) \<Rightarrow> index_key set \<Rightarrow> index_key \<Rightarrow> index_status option" where
  "update_indexes idxs keys =
     (let retained = (\<lambda>key. if key \<in> keys then idxs key else None)
      in (\<lambda>key. if key \<in> keys \<and> retained key = None then Some IndexInitializing else retained key))"

definition set_index_status :: "index_key \<Rightarrow> index_status \<Rightarrow> node_state \<Rightarrow> node_state" where
  "set_index_status key st s =
     (case ns_idxs s key of None \<Rightarrow> s | Some _ \<Rightarrow> s\<lparr>ns_idxs := (ns_idxs s)(key \<mapsto> st)\<rparr>)"

definition discovering_indexes :: "node_state \<Rightarrow> node_state" where
  "discovering_indexes s =
     (if ns_status s = NodeInitializing \<or> ns_status s = NodeConnectingToDb
      then s\<lparr>ns_status :=
               (case ns_initial_idxs s of
                  Some idxs \<Rightarrow> if idxs = {} then NodeServing else NodeIndexingEmbeddings
                | None \<Rightarrow> NodeDiscoveringIndexes)\<rparr>
      else s)"

definition indexes_discovered :: "index_metadata set \<Rightarrow> node_state \<Rightarrow> node_state" where
  "indexes_discovered indexes s =
     (let initial = (case ns_initial_idxs s of None \<Rightarrow> indexes | Some idxs \<Rightarrow> idxs);
          idxs = update_indexes (ns_idxs s) (im_key ` indexes);
          initial' = {m \<in> initial. idxs (im_key m) \<noteq> None \<and> m \<in> indexes}
      in s\<lparr>ns_status := (if initial' = {} then NodeServing else NodeIndexingEmbeddings),
           ns_initial_idxs := Some initial', ns_idxs := idxs\<rparr>)"

definition full_scan_finished :: "index_metadata \<Rightarrow> node_state \<Rightarrow> node_state" where
  "full_scan_finished m s =
     (let s1 = set_index_status (im_key m) IndexServing s
      in case ns_initial_idxs s1 of
           None \<Rightarrow> s1
         | Some idxs \<Rightarrow>
             s1\<lparr>ns_initial_idxs := Some (idxs - {m}),
                ns_status := (if idxs - {m} = {} then NodeServing else ns_status s1)\<rparr>)"

fun handle_event :: "event \<Rightarrow> node_state \<Rightarrow> node_state" where
  "handle_event ConnectingToDb s = s\<lparr>ns_status := NodeConnectingToDb\<rparr>"
| "handle_event ConnectedToDb s = s"
| "handle_event DiscoveringIndexes s = discovering_indexes s"
| "handle_event (IndexesDiscovered indexes) s = indexes_discovered indexes s"
| "handle_event (FullScanStarted m) s = set_index_status (im_key m) IndexFullScanning s"
| "handle_event (FullScanFinished m) s = full_scan_finished m s"

fun node_step :: "node_msg \<Rightarrow> node_state \<Rightarrow> node_reply option \<times> node_state" where
  "node_step (SendEvent event) s = (None, handle_event event s)"
| "node_step GetStatus s = (Some (Status (ns_status s)), s)"
| "node_step (GetIndexStatus keyspace index) s =
     (Some (IndexStatusReply (ns_idxs s (index_key_new keyspace index))), s)"

fun node_run :: "node_msg list \<Rightarrow> node_state \<Rightarrow> node_state" where
  "node_run [] s = s"
| "node_run (msg # msgs) s = node_run msgs (snd (node_step msg s))"

section \<open>The specification over histories\<close>

fun events_of :: "node_msg list \<Rightarrow> event list" where
  "events_of [] = []"
| "events_of (SendEvent event # msgs) = event # events_of msgs"
| "events_of (_ # msgs) = events_of msgs"

definition discovered :: "event list \<Rightarrow> bool" where
  "discovered evs \<longleftrightarrow> (\<exists>D. IndexesDiscovered D \<in> set evs)"

text \<open>
  The indexes of the first discovery that every later discovery still lists and whose full
  scan has not finished since.
\<close>

definition awaited :: "event list \<Rightarrow> index_metadata set" where
  "awaited evs =
     {m. \<exists>pre D post. evs = pre @ IndexesDiscovered D # post \<and> \<not> discovered pre \<and> m \<in> D \<and>
        (\<forall>D'. IndexesDiscovered D' \<in> set post \<longrightarrow> m \<in> D') \<and> FullScanFinished m \<notin> set post}"

definition pending :: "event list \<Rightarrow> index_metadata set option" where
  "pending evs = (if discovered evs then Some (awaited evs) else None)"

lemma discovered_simps [simp]:
  "\<not> discovered []" "discovered (evs @ [e]) \<longleftrightarrow> discovered evs \<or> (\<exists>D. e = IndexesDiscovered D)"
  by (auto simp: discovered_def)

lemma awaited_split:
  assumes "\<not> discovered pre"
  shows "awaited (pre @ IndexesDiscovered D # post) =
    {m \<in> D. (\<forall>D'. IndexesDiscovered D' \<in> set post \<longrightarrow> m \<in> D') \<and> FullScanFinished m \<notin> set post}"
proof -
  have "pre' = pre \<and> D' = D \<and> post' = post"
    if eq: "pre @ IndexesDiscovered D # post = pre' @ IndexesDiscovered D' # post'" and "\<not> discovered pre'" for pre' D' post'
  proof -
    have "takeWhile (\<lambda>e. \<not> (\<exists>D. e = IndexesDiscovered D)) (q @ IndexesDiscovered E # r) = q" if "\<not> discovered q" for q E r
      using that by (subst takeWhile_append2) (auto simp: discovered_def)
    from this [OF assms, of D post] this [OF that(2), of D' post'] have "pre' = pre" using eq by metis
    then show ?thesis using eq by simp
  qed
  then show ?thesis using assms by (auto simp: awaited_def)
qed

lemma discovered_split:
  assumes "discovered evs"
  obtains pre D post where "evs = pre @ IndexesDiscovered D # post" and "\<not> discovered pre"
proof -
  have "\<exists>e\<in>set evs. \<exists>D. e = IndexesDiscovered D" using assms by (auto simp: discovered_def)
  then obtain pre D post where "evs = pre @ IndexesDiscovered D # post" "\<forall>e\<in>set pre. \<not> (\<exists>D. e = IndexesDiscovered D)"
    using split_list_first_prop [of evs "\<lambda>e. \<exists>D. e = IndexesDiscovered D"] by blast
  then show thesis using that [of pre D post] by (auto simp: discovered_def)
qed

text \<open>How one event changes what is awaited.\<close>

fun await_step :: "event \<Rightarrow> index_metadata set option \<Rightarrow> index_metadata set option" where
  "await_step (IndexesDiscovered D) w = Some (case w of None \<Rightarrow> D | Some S \<Rightarrow> S \<inter> D)"
| "await_step (FullScanFinished m) w = map_option (\<lambda>S. S - {m}) w"
| "await_step _ w = w"

lemma pending_snoc: "pending (evs @ [e]) = await_step e (pending evs)"
proof (cases "discovered evs")
  case True
  then obtain pre D post where evs: "evs = pre @ IndexesDiscovered D # post" "\<not> discovered pre"
    by (rule discovered_split)
  have "awaited (evs @ [e]) = {m \<in> D. (\<forall>D'. IndexesDiscovered D' \<in> set (post @ [e]) \<longrightarrow> m \<in> D') \<and> FullScanFinished m \<notin> set (post @ [e])}"
    using awaited_split [OF evs(2), of D "post @ [e]"] evs(1) by simp
  moreover have "awaited evs = {m \<in> D. (\<forall>D'. IndexesDiscovered D' \<in> set post \<longrightarrow> m \<in> D') \<and> FullScanFinished m \<notin> set post}"
    using awaited_split [OF evs(2), of D post] evs(1) by simp
  ultimately show ?thesis
    using True by (cases e) (auto simp: pending_def)
next
  case False
  have "awaited (evs @ [IndexesDiscovered D]) = D" for D
    using awaited_split [OF False, of D "[]"] by simp
  then show ?thesis
    using False by (cases e) (auto simp: pending_def)
qed

section \<open>The actor implements the specification\<close>

definition node_inv :: "node_state \<Rightarrow> bool" where
  "node_inv s \<longleftrightarrow>
     (case ns_initial_idxs s of
        None \<Rightarrow> ns_status s \<in> {NodeInitializing, NodeConnectingToDb, NodeDiscoveringIndexes}
      | Some S \<Rightarrow>
          (\<forall>m\<in>S. ns_idxs s (im_key m) \<noteq> None) \<and>
          ns_status s \<in> (if S = {} then {NodeServing, NodeConnectingToDb} else {NodeIndexingEmbeddings, NodeConnectingToDb}))"

lemma set_index_status_fields [simp]:
  "ns_status (set_index_status k st s) = ns_status s"
  "ns_initial_idxs (set_index_status k st s) = ns_initial_idxs s"
  "ns_idxs (set_index_status k st s) k' = (if k' = k then map_option (\<lambda>_. st) (ns_idxs s k) else ns_idxs s k')"
  by (auto simp: set_index_status_def split: option.split)

lemma update_indexes_dom:
  "(\<exists>st. update_indexes idxs keys key = Some st) \<longleftrightarrow> key \<in> keys"
  "update_indexes idxs keys key = None \<longleftrightarrow> key \<notin> keys"
  by (auto simp: update_indexes_def Let_def)

lemma discovered_initial:
  "ns_initial_idxs (indexes_discovered D s) = Some (case ns_initial_idxs s of None \<Rightarrow> D | Some S \<Rightarrow> S \<inter> D)"
  by (auto simp: indexes_discovered_def Let_def update_indexes_dom split: option.split)

lemma node_inv_simps:
  "ns_initial_idxs s = None \<Longrightarrow>
     node_inv s \<longleftrightarrow> ns_status s \<in> {NodeInitializing, NodeConnectingToDb, NodeDiscoveringIndexes}"
  "ns_initial_idxs s = Some S \<Longrightarrow>
     node_inv s \<longleftrightarrow> (\<forall>m\<in>S. ns_idxs s (im_key m) \<noteq> None) \<and>
       (ns_status s = NodeConnectingToDb \<or> ns_status s = NodeServing \<and> S = {} \<or>
        ns_status s = NodeIndexingEmbeddings \<and> S \<noteq> {})"
  by (auto simp: node_inv_def)

lemma discovering_indexes_inv: "node_inv s \<Longrightarrow> node_inv (discovering_indexes s)"
  by (cases "ns_initial_idxs s") (auto simp: discovering_indexes_def node_inv_simps)

lemma indexes_discovered_inv: "node_inv (indexes_discovered D s)"
proof -
  let ?s = "indexes_discovered D s"
  obtain S where S: "ns_initial_idxs ?s = Some S" and sub: "S \<subseteq> D"
    by (auto simp: discovered_initial split: option.splits)
  have "ns_idxs ?s = update_indexes (ns_idxs s) (im_key ` D)"
    by (simp add: indexes_discovered_def Let_def)
  then have "\<forall>m\<in>S. ns_idxs ?s (im_key m) \<noteq> None" using sub by (auto simp: update_indexes_dom)
  moreover have "ns_status ?s = (if S = {} then NodeServing else NodeIndexingEmbeddings)"
    using S by (auto simp: indexes_discovered_def Let_def)
  ultimately show ?thesis by (simp add: node_inv_simps(2) [OF S])
qed

lemma set_index_status_inv: "node_inv s \<Longrightarrow> node_inv (set_index_status k st s)"
  by (cases "ns_initial_idxs s") (auto simp: node_inv_simps)

lemma full_scan_finished_inv: "node_inv s \<Longrightarrow> node_inv (full_scan_finished m s)"
proof (cases "ns_initial_idxs s")
  case (Some S)
  assume "node_inv s"
  then have "node_inv (set_index_status (im_key m) IndexServing s)" by (rule set_index_status_inv)
  then show ?thesis
    using Some by (cases "S - {m} = {}") (auto simp: full_scan_finished_def Let_def node_inv_simps)
qed (simp add: full_scan_finished_def Let_def set_index_status_inv)

lemma handle_event_inv: "node_inv s \<Longrightarrow> node_inv (handle_event e s)"
proof (cases e)
  case ConnectingToDb
  assume "node_inv s"
  then show ?thesis using ConnectingToDb by (cases "ns_initial_idxs s") (simp_all add: node_inv_simps)
qed (simp_all add: discovering_indexes_inv indexes_discovered_inv set_index_status_inv full_scan_finished_inv)

lemma handle_event_initial: "ns_initial_idxs (handle_event e s) = await_step e (ns_initial_idxs s)"
  by (cases e) (auto simp: discovered_initial discovering_indexes_def full_scan_finished_def Let_def split: option.split)

lemma node_run_append: "node_run (xs @ ys) s = node_run ys (node_run xs s)"
  by (induction xs arbitrary: s) auto

lemma events_of_append: "events_of (xs @ ys) = events_of xs @ events_of ys"
  by (induction xs rule: events_of.induct) auto

lemma node_run_spec:
  "node_inv (node_run msgs node_init) \<and> ns_initial_idxs (node_run msgs node_init) = pending (events_of msgs)"
proof (induction msgs rule: rev_induct)
  case Nil
  then show ?case by (simp add: node_inv_def node_init_def pending_def)
next
  case (snoc msg msgs)
  then have "node_inv (node_run msgs node_init)" "ns_initial_idxs (node_run msgs node_init) = pending (events_of msgs)"
    by simp_all
  then show ?case
    by (cases msg) (simp_all add: node_run_append events_of_append handle_event_inv handle_event_initial pending_snoc)
qed

section \<open>Properties\<close>

text \<open>
  C29: the node serves exactly when it is ready. For every sequence of messages, the indexes the
  actor waits for are those of the first discovery that every later discovery still lists and
  whose full scan has not finished since; the node reports that it is serving only if there are
  none left, and once there are none left it is serving unless it is reconnecting to the
  database.
\<close>

theorem node_serving_spec:
  "let s = node_run msgs node_init in
     ns_initial_idxs s = pending (events_of msgs) \<and>
     (ns_status s = NodeServing \<longrightarrow> pending (events_of msgs) = Some {}) \<and>
     (pending (events_of msgs) = Some {} \<longrightarrow> ns_status s = NodeServing \<or> ns_status s = NodeConnectingToDb)"
  using node_run_spec [of msgs]
  by (auto simp: Let_def node_inv_def split: option.splits if_splits)

definition example_metadata :: index_metadata where
  "example_metadata =
     \<lparr>im_keyspace_name = ''ks'', im_index_name = ''idx'', im_table_name = ''t'', im_primary_key_columns = [''pk''],
      im_partition_key_count = 1, im_target_columns = [''v''], im_partitioning = GlobalIndex,
      im_filtering_columns = [], im_alternator_attribute_types = [], im_version = IndexVersion uuid_nil,
      im_kind = Fts \<lparr>fts_analyzer = Standard, fts_positions = True\<rparr>\<rparr>"

lemma example_history:
  "pending [DiscoveringIndexes, IndexesDiscovered {example_metadata}, FullScanStarted example_metadata, FullScanFinished example_metadata] = Some {}"
  using awaited_split [of "[DiscoveringIndexes]" "{example_metadata}" "[FullScanStarted example_metadata, FullScanFinished example_metadata]"]
  by (simp add: pending_def discovered_def)

theorem node_serving_spec_witness:
  "let s = node_run (map SendEvent [DiscoveringIndexes, IndexesDiscovered {example_metadata},
                       FullScanStarted example_metadata, FullScanFinished example_metadata]) node_init in
     ns_status s = NodeServing \<or> ns_status s = NodeConnectingToDb"
  using node_serving_spec [of "map SendEvent [DiscoveringIndexes, IndexesDiscovered {example_metadata},
      FullScanStarted example_metadata, FullScanFinished example_metadata]"] example_history
  by (simp add: Let_def)

text \<open>
  An index that is recreated under the same key keeps its status. When a discovery lists an
  index whose key was already known, with other metadata or not, the status reported for the
  key stays what it was, also \<open>Serving\<close>, until the full scan of the new index starts; only a
  key that was not known starts as \<open>Initializing\<close>, and a key that is not listed is forgotten.
\<close>

theorem rediscovered_index_status:
  "ns_idxs (handle_event (IndexesDiscovered indexes) s) key =
     (if key \<notin> im_key ` indexes then None
      else Some (case ns_idxs s key of None \<Rightarrow> IndexInitializing | Some st \<Rightarrow> st))"
  by (auto simp: indexes_discovered_def Let_def update_indexes_def split: option.split)

end
