(* ===== verification/Index_Registry.thy ===== *)
theory Index_Registry
  imports Node_State
begin

text \<open>
  Model of \<open>crates/vector-store/src/indexes.rs\<close>: the registry of the active indexes, the groups
  within which a query can be routed from one vector index to another, and the choice of the
  best index for a query. A hash map is a partial function; its iteration order is used by no
  operation modelled here. A channel to an actor is a number. Lookups that the source follows
  by \<open>expect\<close> and the subtraction of lengths are results: it is proved that they do not fail.
\<close>

section \<open>NeedsFiltering\<close>

datatype needs_filtering = FilterNo | FilterYes nat

fun nf_cmp :: "needs_filtering \<Rightarrow> needs_filtering \<Rightarrow> ordering" where
  "nf_cmp FilterNo FilterNo = Equal"
| "nf_cmp FilterNo (FilterYes _) = Greater"
| "nf_cmp (FilterYes _) FilterNo = Less"
| "nf_cmp (FilterYes a) (FilterYes b) = ord_cmp b a"

text \<open>The order it is: fewer columns to filter is better, and none is best.\<close>

instantiation needs_filtering :: linorder
begin

definition less_eq_needs_filtering :: "needs_filtering \<Rightarrow> needs_filtering \<Rightarrow> bool" where
  "less_eq_needs_filtering a b \<longleftrightarrow> nf_cmp a b \<noteq> Greater"

definition less_needs_filtering :: "needs_filtering \<Rightarrow> needs_filtering \<Rightarrow> bool" where
  "less_needs_filtering a b \<longleftrightarrow> nf_cmp a b = Less"

lemma nf_le_simps [simp]:
  "(a \<le> FilterNo)" "\<not> (FilterNo \<le> FilterYes n)" "FilterYes n \<le> FilterYes m \<longleftrightarrow> m \<le> n"
  by (cases a) (auto simp: less_eq_needs_filtering_def ord_cmp_def)

lemma nf_less_simps [simp]:
  "\<not> (FilterNo < a)" "FilterYes n < FilterNo" "FilterYes n < FilterYes m \<longleftrightarrow> m < n"
  by (cases a) (auto simp: less_needs_filtering_def ord_cmp_def)

instance
proof
  fix a b c :: needs_filtering
  show "a < b \<longleftrightarrow> a \<le> b \<and> \<not> b \<le> a" by (cases a; cases b) auto
  show "a \<le> a" by (cases a) simp_all
  show "a \<le> b \<Longrightarrow> b \<le> c \<Longrightarrow> a \<le> c" by (cases a; cases b; cases c) auto
  show "a \<le> b \<Longrightarrow> b \<le> a \<Longrightarrow> a = b" by (cases a; cases b) auto
  show "a \<le> b \<or> b \<le> a" by (cases a; cases b) auto
qed

end

lemma nf_cmp_ord: "nf_cmp a b = ord_cmp a b"
  by (cases a; cases b) (auto simp: ord_cmp_def)

section \<open>Entries\<close>

record routing_group_key =
  rg_keyspace :: keyspace_name
  rg_table :: table_name
  rg_columns :: "column_name list"

definition routing_group_of :: "index_metadata \<Rightarrow> routing_group_key" where
  "routing_group_of m =
     \<lparr>rg_keyspace = im_keyspace_name m, rg_table = im_table_name m, rg_columns = im_target_columns m\<rparr>"

type_synonym channel = nat

type_synonym table_columns = "column_name \<Rightarrow> native_type option"

record 'data index_entry =
  ie_index :: channel
  ie_monitor :: channel
  ie_db_index :: channel
  ie_status :: index_status
  ie_progress :: progress
  ie_primary_key_columns :: "column_name list"
  ie_data :: 'data

record vs_index_data =
  vd_routing_group :: routing_group_key
  vd_partitioning :: db_index_partitioning
  vd_filtering_columns :: "column_name list"
  vd_table_columns :: table_columns
  vd_version :: index_version
  vd_options :: index_options_vs

type_synonym vs_index_entry = "vs_index_data index_entry"
type_synonym fts_index_entry = "index_options_fts index_entry"
type_synonym pattern_index_entry = "unit index_entry"

text \<open>
  The constructors of the three kinds of entry: the columns of the table and the progress are
  what the database index answers.
\<close>

definition vs_entry_new ::
  "channel \<Rightarrow> channel \<Rightarrow> channel \<Rightarrow> index_metadata \<Rightarrow> table_columns \<Rightarrow> progress \<Rightarrow> vs_index_entry result" where
  "vs_entry_new index monitor db_index m table_columns progress =
     and_then (ok_or (as_vs (im_kind m)) (Bail ''add_index_vs must be called with a vector-search index'')) (\<lambda>options.
       let filtering_columns = im_primary_key_columns m @
             (case im_nonpk_partition_key_columns m of None \<Rightarrow> [] | Some cols \<Rightarrow> cols) @ im_filtering_columns m
       in if filtering_columns = [] then Err (Panic ''primary key columns are always non-empty'')
          else Ok \<lparr>ie_index = index, ie_monitor = monitor, ie_db_index = db_index, ie_status = IndexInitializing,
                   ie_progress = progress, ie_primary_key_columns = im_primary_key_columns m,
                   ie_data = \<lparr>vd_routing_group = routing_group_of m, vd_partitioning = im_partitioning m,
                              vd_filtering_columns = filtering_columns, vd_table_columns = table_columns,
                              vd_version = im_version m, vd_options = options\<rparr>\<rparr>)"

definition fts_entry_new ::
  "index_metadata \<Rightarrow> channel \<Rightarrow> channel \<Rightarrow> channel \<Rightarrow> progress \<Rightarrow> fts_index_entry result" where
  "fts_entry_new m index monitor db_index progress =
     and_then (ok_or (as_fts (im_kind m)) (Bail ''add_index_fts must be called with a fulltext-search index'')) (\<lambda>options.
       Ok \<lparr>ie_index = index, ie_monitor = monitor, ie_db_index = db_index, ie_status = IndexInitializing,
           ie_progress = progress, ie_primary_key_columns = im_primary_key_columns m, ie_data = options\<rparr>)"

definition pattern_entry_new ::
  "index_metadata \<Rightarrow> channel \<Rightarrow> channel \<Rightarrow> channel \<Rightarrow> progress \<Rightarrow> pattern_index_entry result" where
  "pattern_entry_new m index monitor db_index progress =
     and_then (ok_or (as_pattern (im_kind m)) (Bail ''PatternIndexEntry::new must be called with a pattern index'')) (\<lambda>options.
       Ok \<lparr>ie_index = index, ie_monitor = monitor, ie_db_index = db_index, ie_status = IndexInitializing,
           ie_progress = progress, ie_primary_key_columns = im_primary_key_columns m, ie_data = options\<rparr>)"

definition usize_sub :: "nat \<Rightarrow> nat \<Rightarrow> nat result" where
  "usize_sub a b = (if b \<le> a then Ok (a - b) else Err (Panic ''attempt to subtract with overflow''))"

definition score_of :: "nat \<Rightarrow> needs_filtering" where
  "score_of uncovered = (if uncovered = 0 then FilterNo else FilterYes uncovered)"

definition score_index :: "vs_index_data \<Rightarrow> column_name list \<Rightarrow> column_name list \<Rightarrow> needs_filtering option result" where
  "score_index data equality_columns range_columns =
     (if \<not> list_all (\<lambda>col. col \<in> set (vd_filtering_columns data)) (equality_columns @ range_columns) then Ok None
      else case vd_partitioning data of
             GlobalIndex \<Rightarrow> Ok (Some (score_of (length equality_columns + length range_columns)))
           | LocalIndex pk_columns \<Rightarrow>
               if \<not> list_all (\<lambda>col. col \<in> set equality_columns) pk_columns then Ok None
               else and_then (usize_sub (length equality_columns) (length pk_columns)) (\<lambda>rest.
                      Ok (Some (score_of (rest + length range_columns)))))"

section \<open>Indexes\<close>

record indexes =
  vs_entries :: "index_key \<Rightarrow> vs_index_entry option"
  vs_routing :: "routing_group_key \<Rightarrow> index_key list option"
  fts_entries :: "index_key \<Rightarrow> fts_index_entry option"
  pattern_entries :: "index_key \<Rightarrow> pattern_index_entry option"

definition indexes_new :: indexes where
  "indexes_new =
     \<lparr>vs_entries = Map.empty, vs_routing = Map.empty, fts_entries = Map.empty, pattern_entries = Map.empty\<rparr>"

definition contains_key :: "indexes \<Rightarrow> index_key \<Rightarrow> bool" where
  "contains_key ixs key \<longleftrightarrow>
     vs_entries ixs key \<noteq> None \<or> fts_entries ixs key \<noteq> None \<or> pattern_entries ixs key \<noteq> None"

definition insert_vs :: "index_key \<Rightarrow> vs_index_entry \<Rightarrow> indexes \<Rightarrow> indexes" where
  "insert_vs key entry ixs =
     (let routing_group = vd_routing_group (ie_data entry);
          keys = (case vs_routing ixs routing_group of None \<Rightarrow> [] | Some keys \<Rightarrow> keys)
      in ixs\<lparr>vs_entries := (vs_entries ixs)(key \<mapsto> entry),
             vs_routing := (vs_routing ixs)(routing_group \<mapsto> keys @ [key])\<rparr>)"

definition insert_fts :: "index_key \<Rightarrow> fts_index_entry \<Rightarrow> indexes \<Rightarrow> indexes" where
  "insert_fts key entry ixs = ixs\<lparr>fts_entries := (fts_entries ixs)(key \<mapsto> entry)\<rparr>"

definition insert_pattern :: "index_key \<Rightarrow> pattern_index_entry \<Rightarrow> indexes \<Rightarrow> indexes" where
  "insert_pattern key entry ixs = ixs\<lparr>pattern_entries := (pattern_entries ixs)(key \<mapsto> entry)\<rparr>"

definition remove_routing ::
  "index_key \<Rightarrow> routing_group_key \<Rightarrow> (routing_group_key \<Rightarrow> index_key list option) \<Rightarrow> routing_group_key \<Rightarrow> index_key list option" where
  "remove_routing key rgroup routing =
     (case routing rgroup of
        None \<Rightarrow> routing
      | Some keys \<Rightarrow>
          let keys' = filter (\<lambda>k. k \<noteq> key) keys
          in if keys' = [] then routing(rgroup := None) else routing(rgroup \<mapsto> keys'))"

definition registry_remove :: "index_key \<Rightarrow> indexes \<Rightarrow> bool \<times> indexes" where
  "registry_remove key ixs =
     (case vs_entries ixs key of
        Some entry \<Rightarrow>
          (True, ixs\<lparr>vs_entries := (vs_entries ixs)(key := None),
                     vs_routing := remove_routing key (vd_routing_group (ie_data entry)) (vs_routing ixs)\<rparr>)
      | None \<Rightarrow>
          if fts_entries ixs key \<noteq> None
          then (True, ixs\<lparr>fts_entries := (fts_entries ixs)(key := None)\<rparr>)
          else (pattern_entries ixs key \<noteq> None, ixs\<lparr>pattern_entries := (pattern_entries ixs)(key := None)\<rparr>))"

section \<open>best_index\<close>

record serving_index =
  si_key :: index_key
  si_index :: channel
  si_primary_key_columns :: "column_name list"
  si_filtering_columns :: "column_name list"
  si_table_columns :: table_columns
  si_needs_filtering :: needs_filtering

datatype best_index_state =
    NotFound
  | NotServing progress
  | NoGlobalIndex
  | ServingIndex serving_index

type_synonym candidate = "index_key \<times> needs_filtering \<times> index_version"

definition candidate_cmp :: "gregorian \<Rightarrow> candidate \<Rightarrow> candidate \<Rightarrow> ordering" where
  "candidate_cmp greg a b =
     (case (a, b) of ((_, score_a, version_a), (_, score_b, version_b)) \<Rightarrow>
        then_with (nf_cmp score_a score_b) (version_cmp greg version_a version_b))"

text \<open>\<open>Iterator::max_by\<close>: of elements that compare equal it returns the last.\<close>

fun max_by_from :: "('a \<Rightarrow> 'a \<Rightarrow> ordering) \<Rightarrow> 'a \<Rightarrow> 'a list \<Rightarrow> 'a" where
  "max_by_from cmp best [] = best"
| "max_by_from cmp best (x # xs) = max_by_from cmp (if cmp best x = Greater then best else x) xs"

definition max_by :: "('a \<Rightarrow> 'a \<Rightarrow> ordering) \<Rightarrow> 'a list \<Rightarrow> 'a option" where
  "max_by cmp xs = (case xs of [] \<Rightarrow> None | x # xs \<Rightarrow> Some (max_by_from cmp x xs))"

text \<open>The chain of \<open>filter_map\<close> and \<open>filter\<close> over the candidates.\<close>

fun scored_candidates ::
  "indexes \<Rightarrow> column_name list \<Rightarrow> column_name list \<Rightarrow> index_key list \<Rightarrow> candidate list result" where
  "scored_candidates ixs eqs ranges [] = Ok []"
| "scored_candidates ixs eqs ranges (key # keys) =
     (case vs_entries ixs key of
        None \<Rightarrow> scored_candidates ixs eqs ranges keys
      | Some entry \<Rightarrow>
          if ie_status entry \<noteq> IndexServing then scored_candidates ixs eqs ranges keys
          else and_then (score_index (ie_data entry) eqs ranges) (\<lambda>score.
               and_then (scored_candidates ixs eqs ranges keys) (\<lambda>rest.
                 Ok (case score of
                       None \<Rightarrow> rest
                     | Some s \<Rightarrow> (key, s, vd_version (ie_data entry)) # rest))))"

definition is_serving :: "indexes \<Rightarrow> index_key \<Rightarrow> bool" where
  "is_serving ixs key =
     (case vs_entries ixs key of None \<Rightarrow> False | Some entry \<Rightarrow> ie_status entry = IndexServing)"

definition routed_state :: "indexes \<Rightarrow> index_key \<Rightarrow> needs_filtering \<Rightarrow> best_index_state result" where
  "routed_state ixs key needs_filtering =
     and_then (ok_or (vs_entries ixs key) (Panic ''routed key must exist'')) (\<lambda>entry.
       Ok (ServingIndex
         \<lparr>si_key = key, si_index = ie_index entry, si_primary_key_columns = ie_primary_key_columns entry,
          si_filtering_columns = vd_filtering_columns (ie_data entry),
          si_table_columns = vd_table_columns (ie_data entry), si_needs_filtering = needs_filtering\<rparr>))"

definition best_index ::
  "gregorian \<Rightarrow> indexes \<Rightarrow> index_key \<Rightarrow> column_name list \<Rightarrow> column_name list \<Rightarrow> bool \<Rightarrow> best_index_state result" where
  "best_index greg ixs key equality_columns range_columns routing =
     (case vs_entries ixs key of
        None \<Rightarrow> Ok NotFound
      | Some requested_entry \<Rightarrow>
          and_then (if routing
                    then ok_or (vs_routing ixs (vd_routing_group (ie_data requested_entry)))
                           (Panic ''routing_map must contain group for every index in indexes'')
                    else Ok [key]) (\<lambda>candidates.
          and_then (scored_candidates ixs equality_columns range_columns candidates) (\<lambda>scored.
            case max_by (candidate_cmp greg) scored of
              Some (routed_key, needs_filtering, _) \<Rightarrow> routed_state ixs routed_key needs_filtering
            | None \<Rightarrow>
                Ok (if list_ex (is_serving ixs) candidates then NoGlobalIndex
                    else NotServing (ie_progress requested_entry)))))"

section \<open>The invariant of the registry\<close>

text \<open>
  A key is in at most one of the three maps, every group lists exactly the keys of its vector
  indexes, each once, and no group is empty; partition key columns are distinct.
\<close>

definition group_keys :: "(index_key \<Rightarrow> vs_index_entry option) \<Rightarrow> routing_group_key \<Rightarrow> index_key set" where
  "group_keys entries g = {k. map_option (\<lambda>e. vd_routing_group (ie_data e)) (entries k) = Some g}"

definition group_ok :: "index_key list option \<Rightarrow> index_key set \<Rightarrow> bool" where
  "group_ok r S \<longleftrightarrow> (case r of None \<Rightarrow> S = {} | Some keys \<Rightarrow> keys \<noteq> [] \<and> distinct keys \<and> set keys = S)"

definition routing_inv :: "indexes \<Rightarrow> bool" where
  "routing_inv ixs \<longleftrightarrow> (\<forall>g. group_ok (vs_routing ixs g) (group_keys (vs_entries ixs) g))"

definition local_columns_ok :: "vs_index_data \<Rightarrow> bool" where
  "local_columns_ok data =
     (case vd_partitioning data of GlobalIndex \<Rightarrow> True | LocalIndex cols \<Rightarrow> distinct cols)"

definition registry_inv :: "indexes \<Rightarrow> bool" where
  "registry_inv ixs \<longleftrightarrow>
     routing_inv ixs \<and> (\<forall>k entry. vs_entries ixs k = Some entry \<longrightarrow> local_columns_ok (ie_data entry)) \<and>
     dom (vs_entries ixs) \<inter> dom (fts_entries ixs) = {} \<and>
     dom (vs_entries ixs) \<inter> dom (pattern_entries ixs) = {} \<and>
     dom (fts_entries ixs) \<inter> dom (pattern_entries ixs) = {}"

lemma group_ok_simps [simp]:
  "group_ok None S \<longleftrightarrow> S = {}" "group_ok (Some keys) S \<longleftrightarrow> keys \<noteq> [] \<and> distinct keys \<and> set keys = S"
  by (simp_all add: group_ok_def)

lemma group_ok_insert:
  "group_ok r S \<Longrightarrow> key \<notin> S \<Longrightarrow> group_ok (Some ((case r of None \<Rightarrow> [] | Some keys \<Rightarrow> keys) @ [key])) (insert key S)"
  by (cases r) auto

lemma group_ok_remove:
  "group_ok (Some keys) S \<Longrightarrow>
     group_ok (if filter (\<lambda>k. k \<noteq> key) keys = [] then None else Some (filter (\<lambda>k. k \<noteq> key) keys)) (S - {key})"
  by (auto simp: filter_empty_conv)

lemma group_keys_upd:
  "group_keys (entries(key := e)) g =
     (if map_option (\<lambda>e. vd_routing_group (ie_data e)) e = Some g
      then insert key (group_keys entries g) else group_keys entries g - {key})"
  by (auto simp: group_keys_def)

lemma registry_inv_new: "registry_inv indexes_new"
  by (simp add: registry_inv_def routing_inv_def indexes_new_def group_keys_def)

lemma routing_inv_insert:
  assumes "routing_inv ixs" and "vs_entries ixs key = None"
  shows "routing_inv (insert_vs key entry ixs)"
proof -
  let ?g = "vd_routing_group (ie_data entry)"
  have new: "key \<notin> group_keys (vs_entries ixs) g" for g using assms(2) by (simp add: group_keys_def)
  have ok: "group_ok (vs_routing ixs g) (group_keys (vs_entries ixs) g)" for g
    using assms(1) by (simp add: routing_inv_def)
  show ?thesis
    using group_ok_insert [OF ok new] ok new
    by (simp add: routing_inv_def insert_vs_def Let_def group_keys_upd del: group_ok_simps)
qed

lemma remove_routing_at:
  "routing g = Some keys \<Longrightarrow>
   remove_routing key g routing g' =
     (if g' \<noteq> g then routing g'
      else if filter (\<lambda>k. k \<noteq> key) keys = [] then None else Some (filter (\<lambda>k. k \<noteq> key) keys))"
  by (simp add: remove_routing_def Let_def)

lemma routing_inv_remove:
  assumes inv: "routing_inv ixs" and entry: "vs_entries ixs key = Some entry"
  shows "routing_inv (ixs\<lparr>vs_entries := (vs_entries ixs)(key := None),
     vs_routing := remove_routing key (vd_routing_group (ie_data entry)) (vs_routing ixs)\<rparr>)"
proof -
  let ?g = "vd_routing_group (ie_data entry)"
  have ok: "group_ok (vs_routing ixs g) (group_keys (vs_entries ixs) g)" for g
    using inv by (simp add: routing_inv_def)
  have mem: "key \<in> group_keys (vs_entries ixs) g \<longleftrightarrow> g = ?g" for g using entry by (auto simp: group_keys_def)
  obtain keys where keys: "vs_routing ixs ?g = Some keys"
    using ok [of ?g] mem [of ?g] by (cases "vs_routing ixs ?g") auto
  have "group_ok (remove_routing key ?g (vs_routing ixs) g) (group_keys (vs_entries ixs) g - {key})" for g
  proof (cases "g = ?g")
    case True
    then show ?thesis
      using group_ok_remove [OF ok [of ?g, unfolded keys], of key] keys by (simp only: remove_routing_at [of "vs_routing ixs" ?g] not_True_eq_False if_False simp_thms)
  next
    case False
    then show ?thesis using ok [of g] mem [of g] keys by (simp add: remove_routing_at [of "vs_routing ixs" ?g])
  qed
  then show ?thesis by (simp add: routing_inv_def group_keys_upd)
qed

lemma routing_inv_cong:
  "vs_routing ixs' = vs_routing ixs \<Longrightarrow> (\<And>g. group_keys (vs_entries ixs') g = group_keys (vs_entries ixs) g) \<Longrightarrow>
   routing_inv ixs' = routing_inv ixs"
  by (simp add: routing_inv_def)

lemma insert_fields [simp]:
  "vs_entries (insert_vs key v ixs) = (vs_entries ixs)(key \<mapsto> v)"
  "fts_entries (insert_vs key v ixs) = fts_entries ixs" "pattern_entries (insert_vs key v ixs) = pattern_entries ixs"
  by (simp_all add: insert_vs_def Let_def)

lemma registry_inv_insert_vs:
  "registry_inv ixs \<Longrightarrow> \<not> contains_key ixs key \<Longrightarrow> local_columns_ok (ie_data entry) \<Longrightarrow> registry_inv (insert_vs key entry ixs)"
  using routing_inv_insert [of ixs key entry]
  by (auto simp: registry_inv_def contains_key_def split: if_splits)

lemma registry_inv_insert_fts:
  "registry_inv ixs \<Longrightarrow> \<not> contains_key ixs key \<Longrightarrow> registry_inv (insert_fts key entry ixs)"
  by (auto simp: registry_inv_def contains_key_def insert_fts_def routing_inv_def)

lemma registry_inv_insert_pattern:
  "registry_inv ixs \<Longrightarrow> \<not> contains_key ixs key \<Longrightarrow> registry_inv (insert_pattern key entry ixs)"
  by (auto simp: registry_inv_def contains_key_def insert_pattern_def routing_inv_def)

lemma registry_inv_remove:
  assumes "registry_inv ixs"
  shows "registry_inv (snd (registry_remove key ixs))"
proof (cases "vs_entries ixs key")
  case (Some entry)
  then show ?thesis
    using assms routing_inv_remove [OF _ Some] by (auto simp: registry_inv_def registry_remove_def)
next
  case None
  then show ?thesis using assms by (auto simp: registry_inv_def registry_remove_def routing_inv_def)
qed

lemma contains_key_remove:
  assumes "registry_inv ixs"
  shows "fst (registry_remove key ixs) = contains_key ixs key"
    and "contains_key (snd (registry_remove key ixs)) k \<longleftrightarrow> k \<noteq> key \<and> contains_key ixs k"
  using assms by (auto simp: registry_remove_def contains_key_def registry_inv_def split: option.split)

end
