(* ===== verification/Query_Routing.thy ===== *)
theory Query_Routing
  imports Index_Registry "HOL-Library.Product_Lexorder"
begin

text \<open>
  The correctness of \<open>Indexes::best_index\<close>: for a registry that satisfies its invariant the
  choice never panics, it is a serving index of the requested group that can answer the query,
  and no other such index is better in the declared order (fewest columns left to filter,
  then the newest version).
\<close>

section \<open>What an index can answer\<close>

definition covers :: "vs_index_data \<Rightarrow> column_name list \<Rightarrow> column_name list \<Rightarrow> bool" where
  "covers data eqs ranges \<longleftrightarrow>
     set eqs \<union> set ranges \<subseteq> set (vd_filtering_columns data) \<and>
     (case vd_partitioning data of GlobalIndex \<Rightarrow> True | LocalIndex cols \<Rightarrow> set cols \<subseteq> set eqs)"

definition uncovered :: "vs_index_data \<Rightarrow> column_name list \<Rightarrow> column_name list \<Rightarrow> nat" where
  "uncovered data eqs ranges =
     length eqs + length ranges - (case vd_partitioning data of GlobalIndex \<Rightarrow> 0 | LocalIndex cols \<Rightarrow> length cols)"

lemma distinct_subset_length: "distinct xs \<Longrightarrow> set xs \<subseteq> set ys \<Longrightarrow> length xs \<le> length ys"
  by (metis card_length card_mono distinct_card finite_set le_trans)

lemma score_index_ok:
  assumes "local_columns_ok data"
  shows "score_index data eqs ranges =
    Ok (if covers data eqs ranges then Some (score_of (uncovered data eqs ranges)) else None)"
proof (cases "vd_partitioning data")
  case GlobalIndex
  then show ?thesis by (auto simp: score_index_def covers_def uncovered_def list_all_iff)
next
  case (LocalIndex cols)
  then have "length cols \<le> length eqs" if "set cols \<subseteq> set eqs"
    using that assms distinct_subset_length by (simp add: local_columns_ok_def)
  then show ?thesis
    using LocalIndex by (auto simp: score_index_def covers_def uncovered_def usize_sub_def list_all_iff)
qed

section \<open>The candidates\<close>

definition eligible :: "indexes \<Rightarrow> column_name list \<Rightarrow> column_name list \<Rightarrow> index_key \<Rightarrow> bool" where
  "eligible ixs eqs ranges k \<longleftrightarrow>
     (case vs_entries ixs k of None \<Rightarrow> False | Some e \<Rightarrow> ie_status e = IndexServing \<and> covers (ie_data e) eqs ranges)"

definition candidate_of :: "indexes \<Rightarrow> column_name list \<Rightarrow> column_name list \<Rightarrow> index_key \<Rightarrow> candidate" where
  "candidate_of ixs eqs ranges k =
     (let data = ie_data (the (vs_entries ixs k)) in (k, score_of (uncovered data eqs ranges), vd_version data))"

lemma scored_candidates_ok:
  assumes "\<And>k e. vs_entries ixs k = Some e \<Longrightarrow> local_columns_ok (ie_data e)"
  shows "scored_candidates ixs eqs ranges keys =
    Ok (map (candidate_of ixs eqs ranges) (filter (eligible ixs eqs ranges) keys))"
proof (induction keys)
  case (Cons key keys)
  show ?case
  proof (cases "vs_entries ixs key")
    case (Some e)
    then show ?thesis
      using Cons by (simp add: score_index_ok [OF assms [OF Some]] eligible_def candidate_of_def Let_def)
  qed (simp add: Cons eligible_def)
qed simp

text \<open>The comparison of candidates is the lexicographic order of their ranks.\<close>

definition rank :: "gregorian \<Rightarrow> candidate \<Rightarrow> needs_filtering \<times> u64" where
  "rank greg c = (fst (snd c), gregorian_ticks greg (snd (snd c)))"

lemma candidate_cmp_rank: "candidate_cmp greg a b = ord_cmp (rank greg a) (rank greg b)"
  by (cases a; cases b)
    (auto simp: candidate_cmp_def rank_def nf_cmp_ord version_cmp_def ord_cmp_def less_prod_def' split: if_splits)

lemma max_by_from_greatest:
  assumes "\<And>a b. cmp a b = ord_cmp (r a) (r b)"
  shows "max_by_from cmp best xs \<in> insert best (set xs) \<and> (\<forall>x\<in>insert best (set xs). r x \<le> r (max_by_from cmp best xs))"
proof (induction xs arbitrary: best)
  case (Cons x xs)
  let ?b = "if cmp best x = Greater then best else x"
  have "r best \<le> r ?b" "r x \<le> r ?b" using assms by (auto simp: ord_cmp_def split: if_splits)
  then show ?case using Cons [of ?b] by (auto intro: order_trans split: if_splits)
qed simp

lemma max_by_greatest:
  assumes "\<And>a b. cmp a b = ord_cmp (r a) (r b)" and "max_by cmp xs = Some m"
  shows "m \<in> set xs" and "x \<in> set xs \<Longrightarrow> r x \<le> r m"
  using assms(2) max_by_from_greatest [of cmp r, OF assms(1)]
  by (auto simp: max_by_def split: list.splits)

lemma max_by_None [simp]: "max_by cmp xs = None \<longleftrightarrow> xs = []" "max_by cmp [] = None"
  by (simp_all add: max_by_def split: list.split)

section \<open>best_index\<close>

text \<open>The indexes a query for \<open>key\<close> may be answered by.\<close>

definition may_answer :: "indexes \<Rightarrow> index_key \<Rightarrow> bool \<Rightarrow> index_key \<Rightarrow> bool" where
  "may_answer ixs key routing k \<longleftrightarrow>
     (if routing
      then \<exists>e e'. vs_entries ixs key = Some e \<and> vs_entries ixs k = Some e' \<and>
             vd_routing_group (ie_data e') = vd_routing_group (ie_data e)
      else k = key)"

lemma best_index_unfold:
  assumes inv: "registry_inv ixs" and req: "vs_entries ixs key = Some req"
  obtains keys where "\<forall>k. k \<in> set keys \<longleftrightarrow> may_answer ixs key routing k"
    and "best_index greg ixs key eqs ranges routing =
      (case max_by (candidate_cmp greg) (map (candidate_of ixs eqs ranges) (filter (eligible ixs eqs ranges) keys)) of
         Some (routed_key, needs_filtering, _) \<Rightarrow> routed_state ixs routed_key needs_filtering
       | None \<Rightarrow> Ok (if list_ex (is_serving ixs) keys then NoGlobalIndex else NotServing (ie_progress req)))"
proof -
  have "\<exists>keys. (if routing then ok_or (vs_routing ixs (vd_routing_group (ie_data req)))
            (Panic ''routing_map must contain group for every index in indexes'') else Ok [key]) = Ok keys \<and>
      (\<forall>k. k \<in> set keys \<longleftrightarrow> may_answer ixs key routing k)"
  proof (cases routing)
    case True
    let ?g = "vd_routing_group (ie_data req)"
    have ok: "group_ok (vs_routing ixs ?g) (group_keys (vs_entries ixs) ?g)"
      using inv by (simp add: registry_inv_def routing_inv_def)
    have "key \<in> group_keys (vs_entries ixs) ?g" using req by (simp add: group_keys_def)
    then obtain keys where "vs_routing ixs ?g = Some keys" "set keys = group_keys (vs_entries ixs) ?g"
      using ok by (cases "vs_routing ixs ?g") auto
    then show ?thesis using True req by (auto simp: may_answer_def group_keys_def)
  qed (simp add: may_answer_def)
  then obtain keys where keys: "(if routing then ok_or (vs_routing ixs (vd_routing_group (ie_data req)))
            (Panic ''routing_map must contain group for every index in indexes'') else Ok [key]) = Ok keys"
    "\<forall>k. k \<in> set keys \<longleftrightarrow> may_answer ixs key routing k" by blast
  show thesis
    using inv by (intro that [OF keys(2)]) (simp add: best_index_def req keys(1) registry_inv_def scored_candidates_ok)
qed

lemma best_index_ok:
  assumes "registry_inv ixs"
  shows "case best_index greg ixs key eqs ranges routing of
    Inl _ \<Rightarrow> False
  | Inr NotFound \<Rightarrow> vs_entries ixs key = None
  | Inr (ServingIndex s) \<Rightarrow>
      (\<exists>e. vs_entries ixs (si_key s) = Some e \<and> may_answer ixs key routing (si_key s) \<and> eligible ixs eqs ranges (si_key s) \<and>
         si_index s = ie_index e \<and> si_needs_filtering s = score_of (uncovered (ie_data e) eqs ranges) \<and>
         (\<forall>k. may_answer ixs key routing k \<longrightarrow> eligible ixs eqs ranges k \<longrightarrow>
            rank greg (candidate_of ixs eqs ranges k) \<le> rank greg (candidate_of ixs eqs ranges (si_key s))))
  | Inr NoGlobalIndex \<Rightarrow>
      (\<exists>k. may_answer ixs key routing k \<and> is_serving ixs k) \<and>
      (\<forall>k. may_answer ixs key routing k \<longrightarrow> \<not> eligible ixs eqs ranges k)
  | Inr (NotServing p) \<Rightarrow>
      (\<exists>e. vs_entries ixs key = Some e \<and> p = ie_progress e) \<and> (\<forall>k. may_answer ixs key routing k \<longrightarrow> \<not> is_serving ixs k)"
proof (cases "vs_entries ixs key")
  case None
  then show ?thesis by (simp add: best_index_def)
next
  case (Some req)
  let ?cands = "\<lambda>keys. map (candidate_of ixs eqs ranges) (filter (eligible ixs eqs ranges) keys)"
  obtain keys where keys: "\<forall>k. k \<in> set keys \<longleftrightarrow> may_answer ixs key routing k"
    and best: "best_index greg ixs key eqs ranges routing =
      (case max_by (candidate_cmp greg) (?cands keys) of
         Some (routed_key, needs_filtering, _) \<Rightarrow> routed_state ixs routed_key needs_filtering
       | None \<Rightarrow> Ok (if list_ex (is_serving ixs) keys then NoGlobalIndex else NotServing (ie_progress req)))"
    using best_index_unfold [OF assms Some, where routing = routing and greg = greg and eqs = eqs and ranges = ranges] .
  show ?thesis
  proof (cases "max_by (candidate_cmp greg) (?cands keys)")
    case None
    then have "\<forall>k. may_answer ixs key routing k \<longrightarrow> \<not> eligible ixs eqs ranges k"
      using keys by (simp add: filter_empty_conv)
    then show ?thesis using best None Some keys by (auto simp: list_ex_iff)
  next
    case (Some c)
    note m = max_by_greatest [of "candidate_cmp greg" "rank greg", OF candidate_cmp_rank Some]
    obtain k where k: "c = candidate_of ixs eqs ranges k" "may_answer ixs key routing k" "eligible ixs eqs ranges k"
      using m(1) keys by auto
    obtain e where e: "vs_entries ixs k = Some e" using k(3) by (auto simp: eligible_def split: option.splits)
    have "rank greg (candidate_of ixs eqs ranges k') \<le> rank greg c" if "may_answer ixs key routing k'" "eligible ixs eqs ranges k'" for k'
      using m(2) that keys by simp
    then show ?thesis
      using best Some k e by (simp add: routed_state_def candidate_of_def Let_def)
  qed
qed

text \<open>
  C22: the routing of queries is optimal and never fails. For a registry that satisfies its
  invariant \<open>best_index\<close> does not panic; it answers \<open>NotFound\<close> exactly for unknown keys; the index
  it serves from is serving, belongs to the routing group of the requested one (or is it,
  without routing), stores every restricted column, has all its partition columns restricted
  by equality, and no other such index leaves fewer columns to filter, or as many with a newer
  version; without such an index it tells apart whether some candidate serves at all.
\<close>

theorem best_index_correct:
  assumes "registry_inv ixs"
  shows "case best_index greg ixs key eqs ranges routing of
    Inl _ \<Rightarrow> False
  | Inr NotFound \<Rightarrow> vs_entries ixs key = None
  | Inr (ServingIndex s) \<Rightarrow>
      (\<exists>e. vs_entries ixs (si_key s) = Some e \<and> may_answer ixs key routing (si_key s) \<and> eligible ixs eqs ranges (si_key s) \<and>
         si_index s = ie_index e \<and> si_needs_filtering s = score_of (uncovered (ie_data e) eqs ranges) \<and>
         (\<forall>k. may_answer ixs key routing k \<longrightarrow> eligible ixs eqs ranges k \<longrightarrow>
            rank greg (candidate_of ixs eqs ranges k) \<le> rank greg (candidate_of ixs eqs ranges (si_key s))))
  | Inr NoGlobalIndex \<Rightarrow>
      (\<exists>k. may_answer ixs key routing k \<and> is_serving ixs k) \<and>
      (\<forall>k. may_answer ixs key routing k \<longrightarrow> \<not> eligible ixs eqs ranges k)
  | Inr (NotServing p) \<Rightarrow>
      (\<exists>e. vs_entries ixs key = Some e \<and> p = ie_progress e) \<and> (\<forall>k. may_answer ixs key routing k \<longrightarrow> \<not> is_serving ixs k)"
  using best_index_ok [OF assms] .

section \<open>A registry with one index\<close>

definition example_vs_entry :: vs_index_entry where
  "example_vs_entry =
     \<lparr>ie_index = 1, ie_monitor = 2, ie_db_index = 3, ie_status = IndexServing, ie_progress = Done,
      ie_primary_key_columns = [''pk''],
      ie_data = \<lparr>vd_routing_group = \<lparr>rg_keyspace = ''ks'', rg_table = ''t'', rg_columns = [''v'']\<rparr>,
                 vd_partitioning = GlobalIndex, vd_filtering_columns = [''pk''], vd_table_columns = (\<lambda>_. None),
                 vd_version = IndexVersion uuid_nil,
                 vd_options = \<lparr>vs_dimensions = 2, vs_connectivity = 16, vs_expansion_add = 128,
                   vs_expansion_search = 64, vs_space_type = Cosine, vs_quantization = QF32\<rparr>\<rparr>\<rparr>"

definition example_registry :: indexes where
  "example_registry = insert_vs ''ks.idx'' example_vs_entry indexes_new"

lemma example_registry_inv: "registry_inv example_registry"
  unfolding example_registry_def
  by (rule registry_inv_insert_vs [OF registry_inv_new])
    (simp_all add: contains_key_def indexes_new_def example_vs_entry_def local_columns_ok_def)

lemma example_eligible:
  "vs_entries example_registry ''ks.idx'' = Some example_vs_entry"
  "eligible example_registry [''pk''] [] ''ks.idx''" "may_answer example_registry ''ks.idx'' True ''ks.idx''"
  by (simp_all add: example_registry_def eligible_def may_answer_def covers_def)
    (simp_all add: example_vs_entry_def)

theorem best_index_correct_witness:
  "\<exists>s. best_index (\<lambda>_. None) example_registry ''ks.idx'' [''pk''] [] True = Ok (ServingIndex s)"
proof -
  have "is_serving example_registry ''ks.idx''"
    by (simp add: is_serving_def example_eligible(1)) (simp add: example_vs_entry_def)
  then show ?thesis
    using best_index_correct [OF example_registry_inv, where greg = "\<lambda>_. None" and key = "''ks.idx''" and eqs = "[''pk'']"
        and ranges = "[]" and routing = True] example_eligible
    by (auto split: sum.splits best_index_state.splits)
qed

text \<open>
  The answer \<open>NoGlobalIndex\<close> is also given for a global index. When the requested index is
  global and serving, and the query restricts a column the index does not store, the answer is
  \<open>NoGlobalIndex\<close>, which is documented as, and reported to the client as, the absence of a
  global index.
\<close>

theorem no_global_index_for_global:
  assumes "vs_entries ixs key = Some e" and "ie_status e = IndexServing" and "vd_partitioning (ie_data e) = GlobalIndex"
    and "col \<in> set eqs" and "col \<notin> set (vd_filtering_columns (ie_data e))"
  shows "best_index greg ixs key eqs ranges False = Ok NoGlobalIndex"
  using assms by (auto simp: best_index_def score_index_def list_all_iff is_serving_def max_by_def)

theorem no_global_index_for_global_witness:
  "best_index (\<lambda>_. None) example_registry ''ks.idx'' [''other''] [] False = Ok NoGlobalIndex"
  by (rule no_global_index_for_global [where e = example_vs_entry and col = "''other''"])
    (simp_all add: example_registry_def example_vs_entry_def)

end
