(* ===== verification/Monitor_Items.thy ===== *)
theory Monitor_Items
  imports Table_Findings
begin

text \<open>
  Model of \<open>crates/vector-store/src/monitor_items.rs\<close>, \<open>async_in_progress.rs\<close> and the sending
  sides of the index actors (\<open>vs_index/actor.rs\<close>, \<open>fts_index/actor.rs\<close>, \<open>pattern_index/actor.rs\<close>):
  the actor between the database rows, the table and an index. The interface \<open>IndexDispatch\<close> is
  a record of functions over the state of the index side, and the locale \<open>index_dispatch\<close> states
  what the monitor relies on; it is interpreted for the three kinds of index, whose state is
  the channel with the messages sent so far.
\<close>

section \<open>AsyncInProgress\<close>

datatype async_in_progress =
    ProgressNone
  | ProgressFullscan nat
  | ProgressCdc nat timestamp

definition take_progress :: "async_in_progress \<Rightarrow> async_in_progress \<times> async_in_progress" where
  "take_progress p = (p, ProgressNone)"

section \<open>IndexDispatch\<close>

datatype dispatch_status = Live | Dead

record 's dispatch =
  d_add_vector :: "partition_id \<Rightarrow> primary_id \<Rightarrow> vector \<Rightarrow> async_in_progress \<Rightarrow> 's \<Rightarrow> dispatch_status \<times> 's"
  d_add_document :: "partition_id \<Rightarrow> primary_id \<Rightarrow> rust_string \<Rightarrow> async_in_progress \<Rightarrow> 's \<Rightarrow> dispatch_status \<times> 's"
  d_remove_value :: "partition_id \<Rightarrow> primary_id \<Rightarrow> async_in_progress \<Rightarrow> 's \<Rightarrow> dispatch_status \<times> 's"
  d_remove_partition :: "partition_id \<Rightarrow> 's \<Rightarrow> dispatch_status \<times> 's"

text \<open>A channel: the messages sent, and whether its receiver still exists.\<close>

record 'msg channel_state =
  ch_sent :: "'msg list"
  ch_open :: bool

definition channel_send :: "'msg \<Rightarrow> 'msg channel_state \<Rightarrow> dispatch_status \<times> 'msg channel_state" where
  "channel_send msg ch =
     (if ch_open ch then (Live, ch\<lparr>ch_sent := ch_sent ch @ [msg]\<rparr>) else (Dead, ch))"

datatype vs_index_modify =
    VsAddVector partition_id primary_id vector async_in_progress
  | VsRemoveVector partition_id primary_id async_in_progress
  | VsRemovePartition partition_id

datatype document_index =
    AddDocumentMsg primary_id rust_string async_in_progress
  | RemoveDocumentMsg primary_id async_in_progress

text \<open>The default methods of the trait ignore what an index does not support.\<close>

definition vs_dispatch :: "vs_index_modify channel_state dispatch" where
  "vs_dispatch =
     \<lparr>d_add_vector = (\<lambda>q p v pr. channel_send (VsAddVector q p v pr)),
      d_add_document = (\<lambda>q p doc pr ch. (Live, ch)),
      d_remove_value = (\<lambda>q p pr. channel_send (VsRemoveVector q p pr)),
      d_remove_partition = (\<lambda>q. channel_send (VsRemovePartition q))\<rparr>"

definition fts_dispatch :: "document_index channel_state dispatch" where
  "fts_dispatch =
     \<lparr>d_add_vector = (\<lambda>q p v pr ch. (Live, ch)),
      d_add_document = (\<lambda>q p doc pr. channel_send (AddDocumentMsg p doc pr)),
      d_remove_value = (\<lambda>q p pr. channel_send (RemoveDocumentMsg p pr)),
      d_remove_partition = (\<lambda>q ch. (Live, ch))\<rparr>"

definition pattern_dispatch :: "document_index channel_state dispatch" where
  "pattern_dispatch =
     \<lparr>d_add_vector = (\<lambda>q p v pr ch. (Live, ch)),
      d_add_document = (\<lambda>q p doc pr. channel_send (AddDocumentMsg p doc pr)),
      d_remove_value = (\<lambda>q p pr. channel_send (RemoveDocumentMsg p pr)),
      d_remove_partition = (\<lambda>q ch. (Live, ch))\<rparr>"

section \<open>process_operations\<close>

datatype op_label = OpInsert | OpUpdate | OpRemove

record item_metrics =
  m_modified :: "op_label \<Rightarrow> nat"
  m_dirty :: bool

definition count_op :: "op_label \<Rightarrow> item_metrics \<Rightarrow> item_metrics" where
  "count_op l m = m\<lparr>m_modified := (m_modified m)(l := m_modified m l + 1)\<rparr>"

definition add_label :: "bool \<Rightarrow> op_label" where
  "add_label is_update = (if is_update then OpUpdate else OpInsert)"

fun process_operations ::
  "'s dispatch \<Rightarrow> operation list \<Rightarrow> async_in_progress \<Rightarrow> 's \<Rightarrow> item_metrics \<Rightarrow> dispatch_status \<times> 's \<times> item_metrics" where
  "process_operations D [] pr s m = (Live, s, m\<lparr>m_dirty := True\<rparr>)"
| "process_operations D (AddVector p q v is_update # ops) pr s m =
     (let (token, pr') = take_progress pr
      in case d_add_vector D q p v token s of
           (Dead, s') \<Rightarrow> (Dead, s', m)
         | (Live, s') \<Rightarrow> process_operations D ops pr' s' (count_op (add_label is_update) m))"
| "process_operations D (AddDocument p q doc is_update # ops) pr s m =
     (let (token, pr') = take_progress pr
      in case d_add_document D q p doc token s of
           (Dead, s') \<Rightarrow> (Dead, s', m)
         | (Live, s') \<Rightarrow> process_operations D ops pr' s' (count_op (add_label is_update) m))"
| "process_operations D (RemoveBeforeAddValue p q # ops) pr s m =
     (case d_remove_value D q p ProgressNone s of
        (Dead, s') \<Rightarrow> (Dead, s', m)
      | (Live, s') \<Rightarrow> process_operations D ops pr s' m)"
| "process_operations D (RemoveValue p q # ops) pr s m =
     (let (token, pr') = take_progress pr
      in case d_remove_value D q p token s of
           (Dead, s') \<Rightarrow> (Dead, s', m)
         | (Live, s') \<Rightarrow> process_operations D ops pr' s' (count_op OpRemove m))"
| "process_operations D (RemovePartition q # ops) pr s m =
     (case d_remove_partition D q s of
        (Dead, s') \<Rightarrow> (Dead, s', m)
      | (Live, s') \<Rightarrow> process_operations D ops pr s' m)"

section \<open>The actor\<close>

datatype db_indexed_operation =
    DbUpsert "db_indexed_value timestamped list"
  | DbDelete timestamp

record db_indexed_row =
  row_primary_key :: primary_key
  row_operation :: db_indexed_operation

record 's monitor =
  mo_table :: table
  mo_index :: 's
  mo_metrics :: item_metrics

text \<open>
  What \<open>upsert\<close> and \<open>delete\<close> do with the answer of the table: an error is logged and the row
  skipped; a panic under the write lock ends the actor.
\<close>

definition monitor_apply ::
  "'s dispatch \<Rightarrow> async_in_progress \<Rightarrow> operation list result \<times> table \<Rightarrow> 's monitor \<Rightarrow> dispatch_status result \<times> 's monitor" where
  "monitor_apply D pr answer mo =
     (case answer of (r, t') \<Rightarrow>
        let mo1 = mo\<lparr>mo_table := t'\<rparr>
        in case r of
             Inl (Bail _) \<Rightarrow> (Ok Live, mo1)
           | Inl (Panic e) \<Rightarrow> (Err (Panic e), mo1)
           | Inr ops \<Rightarrow>
               (case process_operations D ops pr (mo_index mo1) (mo_metrics mo1) of
                  (st, s', m') \<Rightarrow> (Ok st, mo1\<lparr>mo_index := s', mo_metrics := m'\<rparr>)))"

definition monitor_upsert ::
  "driver \<Rightarrow> 's dispatch \<Rightarrow> index_key \<Rightarrow> primary_key \<Rightarrow> db_indexed_value timestamped list \<Rightarrow> async_in_progress \<Rightarrow>
   's monitor \<Rightarrow> dispatch_status result \<times> 's monitor" where
  "monitor_upsert d D key primary_key values pr mo =
     monitor_apply D pr (upsert d key primary_key values (mo_table mo)) mo"

definition monitor_delete ::
  "driver \<Rightarrow> 's dispatch \<Rightarrow> index_key \<Rightarrow> primary_key \<Rightarrow> timestamp \<Rightarrow> async_in_progress \<Rightarrow>
   's monitor \<Rightarrow> dispatch_status result \<times> 's monitor" where
  "monitor_delete d D key primary_key timestamp pr mo =
     monitor_apply D pr (delete d key primary_key timestamp (mo_table mo)) mo"

definition monitor_row ::
  "driver \<Rightarrow> 's dispatch \<Rightarrow> index_key \<Rightarrow> db_indexed_row \<times> async_in_progress \<Rightarrow> 's monitor \<Rightarrow> dispatch_status result \<times> 's monitor" where
  "monitor_row d D key db_row mo =
     (case db_row of (row, pr) \<Rightarrow>
        (case row_operation row of
           DbUpsert values \<Rightarrow> monitor_upsert d D key (row_primary_key row) values pr mo
         | DbDelete timestamp \<Rightarrow> monitor_delete d D key (row_primary_key row) timestamp pr mo))"

text \<open>The loop over the rows received; it ends when the index or the actor died.\<close>

fun monitor_run ::
  "driver \<Rightarrow> 's dispatch \<Rightarrow> index_key \<Rightarrow> (db_indexed_row \<times> async_in_progress) list \<Rightarrow> 's monitor \<Rightarrow>
   dispatch_status result \<times> 's monitor" where
  "monitor_run d D key [] mo = (Ok Live, mo)"
| "monitor_run d D key (row # rows) mo =
     (case monitor_row d D key row mo of
        (Inr Live, mo') \<Rightarrow> monitor_run d D key rows mo'
      | (r, mo') \<Rightarrow> (r, mo'))"

section \<open>What the monitor relies on\<close>

text \<open>
  \<open>holds E s\<close>: the index in state \<open>s\<close> holds the entries \<open>E\<close>; \<open>supports\<close>: the operations the kind
  of index understands.
\<close>

locale index_dispatch =
  fixes D :: "'s dispatch"
    and supports :: "operation \<Rightarrow> bool"
    and holds :: "entry set \<Rightarrow> 's \<Rightarrow> bool"
  assumes add_vector: "holds E s \<Longrightarrow> supports (AddVector p q v u) \<Longrightarrow> p \<notin> snd ` E \<Longrightarrow>
      d_add_vector D q p v pr s = (Live, s') \<Longrightarrow> holds (insert (q, p) E) s'"
    and add_document: "holds E s \<Longrightarrow> supports (AddDocument p q doc u) \<Longrightarrow> p \<notin> snd ` E \<Longrightarrow>
      d_add_document D q p doc pr s = (Live, s') \<Longrightarrow> holds (insert (q, p) E) s'"
    and remove_value: "holds E s \<Longrightarrow> (q, p) \<in> E \<Longrightarrow>
      d_remove_value D q p pr s = (Live, s') \<Longrightarrow> holds (E - {(q, p)}) s'"
    and remove_partition: "holds E s \<Longrightarrow> q \<notin> fst ` E \<Longrightarrow>
      d_remove_partition D q s = (Live, s') \<Longrightarrow> holds E s'"
begin

lemma process_holds:
  "holds E s \<Longrightarrow> index_exec_all ops E = Some E' \<Longrightarrow> list_all supports ops \<Longrightarrow>
   process_operations D ops pr s m = (Live, s', m') \<Longrightarrow> holds E' s'"
proof (induction ops arbitrary: E pr s m)
  case (Cons op ops)
  obtain E1 where E1: "index_exec op E = Some E1" "index_exec_all ops E1 = Some E'"
    using Cons.prems(2) by (auto simp: Option.bind_eq_Some_conv)
  have sup: "supports op" "list_all supports ops" using Cons.prems(3) by simp_all
  have "\<exists>pr1 s1 m1. holds E1 s1 \<and> process_operations D ops pr1 s1 m1 = (Live, s', m')"
  proof (cases op)
    case (AddVector p q v u)
    obtain st s1 where d: "d_add_vector D q p v pr s = (st, s1)" by fastforce
    then have "st = Live" using Cons.prems(4) AddVector by (cases st) (simp_all add: take_progress_def)
    then show ?thesis
      using add_vector [OF Cons.prems(1), of p q v u pr s1] d E1 sup Cons.prems(4) AddVector
      by (auto simp: take_progress_def split: if_splits)
  next
    case (AddDocument p q doc u)
    obtain st s1 where d: "d_add_document D q p doc pr s = (st, s1)" by fastforce
    then have "st = Live" using Cons.prems(4) AddDocument by (cases st) (simp_all add: take_progress_def)
    then show ?thesis
      using add_document [OF Cons.prems(1), of p q doc u pr s1] d E1 sup Cons.prems(4) AddDocument
      by (auto simp: take_progress_def split: if_splits)
  next
    case (RemoveBeforeAddValue p q)
    obtain st s1 where d: "d_remove_value D q p ProgressNone s = (st, s1)" by fastforce
    then have "st = Live" using Cons.prems(4) RemoveBeforeAddValue by (cases st) simp_all
    then show ?thesis
      using remove_value [OF Cons.prems(1), of q p ProgressNone s1] d E1 Cons.prems(4) RemoveBeforeAddValue
      by (auto split: if_splits)
  next
    case (RemoveValue p q)
    obtain st s1 where d: "d_remove_value D q p pr s = (st, s1)" by fastforce
    then have "st = Live" using Cons.prems(4) RemoveValue by (cases st) (simp_all add: take_progress_def)
    then show ?thesis
      using remove_value [OF Cons.prems(1), of q p pr s1] d E1 Cons.prems(4) RemoveValue
      by (auto simp: take_progress_def split: if_splits)
  next
    case (RemovePartition q)
    obtain st s1 where d: "d_remove_partition D q s = (st, s1)" by fastforce
    then have "st = Live" using Cons.prems(4) RemovePartition by (cases st) simp_all
    then show ?thesis
      using remove_partition [OF Cons.prems(1), of q s1] d E1 Cons.prems(4) RemovePartition
      by (auto split: if_splits)
  qed
  then show ?case using Cons.IH E1(2) sup(2) by blast
qed simp

end

section \<open>The three kinds of index\<close>

text \<open>
  What the index actors are told: a vector index holds entries, a document index only row
  identifiers, because it has no partitions.
\<close>

fun vs_told :: "vs_index_modify \<Rightarrow> entry set \<Rightarrow> entry set option" where
  "vs_told (VsAddVector q p v pr) S = (if p \<in> snd ` S then None else Some (insert (q, p) S))"
| "vs_told (VsRemoveVector q p pr) S = (if (q, p) \<in> S then Some (S - {(q, p)}) else None)"
| "vs_told (VsRemovePartition q) S = (if q \<in> fst ` S then None else Some S)"

fun documents_told :: "document_index \<Rightarrow> primary_id set \<Rightarrow> primary_id set option" where
  "documents_told (AddDocumentMsg p doc pr) S = (if p \<in> S then None else Some (insert p S))"
| "documents_told (RemoveDocumentMsg p pr) S = (if p \<in> S then Some (S - {p}) else None)"

fun told_all :: "('msg \<Rightarrow> 'e set \<Rightarrow> 'e set option) \<Rightarrow> 'msg list \<Rightarrow> 'e set \<Rightarrow> 'e set option" where
  "told_all f [] S = Some S"
| "told_all f (msg # msgs) S = Option.bind (f msg S) (told_all f msgs)"

lemma told_all_snoc: "told_all f (msgs @ [msg]) S = Option.bind (told_all f msgs S) (f msg)"
  by (induction msgs arbitrary: S) (auto simp: bind_eq_None_conv split: Option.bind_splits)

definition vs_holds :: "entry set \<Rightarrow> vs_index_modify channel_state \<Rightarrow> bool" where
  "vs_holds E ch \<longleftrightarrow> told_all vs_told (ch_sent ch) {} = Some E"

definition documents_hold :: "entry set \<Rightarrow> document_index channel_state \<Rightarrow> bool" where
  "documents_hold E ch \<longleftrightarrow> inj_on snd E \<and> told_all documents_told (ch_sent ch) {} = Some (snd ` E)"

fun supports_vectors :: "operation \<Rightarrow> bool" where
  "supports_vectors (AddDocument _ _ _ _) = False"
| "supports_vectors _ = True"

fun supports_documents :: "operation \<Rightarrow> bool" where
  "supports_documents (AddVector _ _ _ _) = False"
| "supports_documents _ = True"

lemma channel_send_Live:
  "channel_send msg ch = (Live, ch') \<longleftrightarrow> ch_open ch \<and> ch' = ch\<lparr>ch_sent := ch_sent ch @ [msg]\<rparr>"
  by (auto simp: channel_send_def)

lemma snd_remove:
  assumes "inj_on snd E" and "(q, p) \<in> E"
  shows "snd ` (E - {(q, p)}) = snd ` E - {p}"
  using inj_on_image_set_diff [OF assms(1), of E "{(q, p)}"] assms(2) by simp

lemma documents_hold_add:
  assumes "documents_hold E ch" and "p \<notin> snd ` E"
    and "channel_send (AddDocumentMsg p doc pr) ch = (Live, ch')"
  shows "documents_hold (insert (q, p) E) ch'"
proof -
  have "inj_on snd (insert (q, p) E)"
    using assms(1,2) by (auto simp: documents_hold_def)
  then show ?thesis
    using assms by (simp add: documents_hold_def channel_send_Live told_all_snoc)
qed

lemma documents_hold_remove:
  assumes "documents_hold E ch" and "(q, p) \<in> E" and "channel_send (RemoveDocumentMsg p pr) ch = (Live, ch')"
  shows "documents_hold (E - {(q, p)}) ch'"
proof -
  have "p \<in> snd ` E"
    using assms(2) by (rule image_eqI [rotated]) simp
  moreover have "snd ` (E - {(q, p)}) = snd ` E - {p}"
    using assms(1,2) by (intro snd_remove) (simp_all add: documents_hold_def)
  ultimately show ?thesis
    using assms by (simp add: documents_hold_def channel_send_Live told_all_snoc inj_on_diff)
qed

interpretation vs: index_dispatch vs_dispatch supports_vectors vs_holds
  by unfold_locales (auto simp: vs_dispatch_def vs_holds_def channel_send_Live told_all_snoc)

interpretation fts: index_dispatch fts_dispatch supports_documents documents_hold
  by unfold_locales (auto simp: fts_dispatch_def intro: documents_hold_add documents_hold_remove)

interpretation pattern: index_dispatch pattern_dispatch supports_documents documents_hold
  by unfold_locales (auto simp: pattern_dispatch_def intro: documents_hold_add documents_hold_remove)

end
