(* ===== verification/Monitor_Correct.thy ===== *)
theory Monitor_Correct
  imports Monitor_Items
begin

text \<open>
  The monitor of items keeps an index in step with its table. The interface of the index is
  extended by the states in which it accepts every call (\<open>running\<close>) and the values it takes
  (\<open>fits\<close>); inside it a run of rows is followed once, and the three kinds of index obtain the
  result by interpretation.
\<close>

section \<open>What a row asks of the table\<close>

definition row_answer :: "driver \<Rightarrow> index_key \<Rightarrow> db_indexed_row \<Rightarrow> table \<Rightarrow> operation list result \<times> table" where
  "row_answer d key row t =
     (case row_operation row of
        DbUpsert values \<Rightarrow> upsert d key (row_primary_key row) values t
      | DbDelete timestamp \<Rightarrow> delete d key (row_primary_key row) timestamp t)"

lemma monitor_row_answer:
  "monitor_row d D key (row, pr) mo = monitor_apply D pr (row_answer d key row (mo_table mo)) mo"
  by (simp add: monitor_row_def row_answer_def monitor_upsert_def monitor_delete_def
      split: db_indexed_operation.split)

text \<open>The rows an index is fed with: keys of CQL values, storable filtering values, and a value it takes.\<close>

definition row_ok :: "(splitting_values \<Rightarrow> bool) \<Rightarrow> db_indexed_row \<Rightarrow> bool" where
  "row_ok fits row \<longleftrightarrow>
     (\<exists>vs. key_of vs (row_primary_key row)) \<and>
     (case row_operation row of
        DbUpsert values \<Rightarrow> values_ok values \<and>
          (\<forall>v w. fst (into_value (hd values)) = Some v \<longrightarrow> split_value v = Ok w \<longrightarrow> fits w)
      | DbDelete _ \<Rightarrow> True)"

lemma split_values_fits:
  assumes "split_values_filtering vals = Ok s" and "sv_values s = Some w"
  shows "\<exists>v. fst (into_value (hd vals)) = Some v \<and> split_value v = Ok w"
  using assms
  by (cases vals) (auto simp: split_values_filtering_def Let_def result_simps split: option.splits)

lemma move_ops_all:
  assumes "\<And>p q. P (RemoveBeforeAddValue p q)" and "\<And>p q. P (RemoveValue p q)" and "\<And>q. P (RemovePartition q)"
    and "\<And>p q u. tgt \<noteq> None \<Longrightarrow> P (add_operation p q (the v) u)"
  shows "list_all P (move_ops old tgt dropped cur_id new_id v)"
  using assms by (simp add: move_ops_def split: option.split)

lemma row_moved_ops:
  "row_moved miss n p ts values ix ops ix' \<Longrightarrow>
   \<exists>old tgt dropped cur_id new_id. (values = None \<longrightarrow> tgt = None) \<and> ops = move_ops old tgt dropped cur_id new_id values"
  unfolding row_moved_def by blast

lemma row_outcome_all:
  assumes out: "row_outcome t x p values ts (Ok ops) t'"
    and rem: "\<And>p q. P (RemoveBeforeAddValue p q)" "\<And>p q. P (RemoveValue p q)" "\<And>q. P (RemovePartition q)"
    and add: "\<And>w p q u. values = Some w \<Longrightarrow> P (add_operation p q w u)"
  shows "list_all P ops"
proof -
  obtain ix ix' pp where "if skip_update (cmp_of ix (primary_idx p) ts) pp \<or> pp = Missing then ops = [] \<and> ix' = ix
      else row_moved (\<exists>q. pp = MissingKey q) (table_rows t) p ts values ix ops ix'"
    using out by (auto simp: row_outcome_def)
  then have "ops = [] \<or> row_moved (\<exists>q. pp = MissingKey q) (table_rows t) p ts values ix ops ix'"
    by presburger
  then show ?thesis
  proof
    assume "row_moved (\<exists>q. pp = MissingKey q) (table_rows t) p ts values ix ops ix'"
    from row_moved_ops [OF this] obtain old tgt dropped cur_id new_id
      where "values = None \<longrightarrow> tgt = None" and "ops = move_ops old tgt dropped cur_id new_id values"
      by blast
    then show ?thesis
      using move_ops_all [of P tgt "values", OF rem] add by (cases "values") auto
  qed simp
qed

text \<open>
  The answer of the table to a row, for the index \<open>x\<close> and the operations \<open>P\<close>: the invariant
  holds, and the operations, all in \<open>P\<close>, lead from the old live entries to the new ones.
\<close>

definition answer_ok ::
  "(operation \<Rightarrow> bool) \<Rightarrow> driver \<Rightarrow> index_id \<Rightarrow> table \<Rightarrow> operation list result \<times> table \<Rightarrow> bool" where
  "answer_ok P d x t answer \<longleftrightarrow>
     table_inv d (snd answer) \<and> same_config t (snd answer) \<and>
     (case fst answer of
        Inl e \<Rightarrow> live (snd answer) x = live t x
      | Inr ops \<Rightarrow> index_exec_all ops (live t x) = Some (live (snd answer) x) \<and> list_all P ops)"

lemma answer_okI:
  assumes "row_outcome t3 x p values ts r t'" and "at_row d t pk t3 p"
    and "table_inv d t'" and "same_config t t'" and "table_rows t' = table_rows t3"
    and "\<And>ops. r = Ok ops \<Longrightarrow> list_all P ops"
  shows "answer_ok P d x t (r, t')"
proof -
  have "primary_idx p < table_rows t3" and "live t3 x = live t x"
    using assms(2) by (simp_all add: at_row_def)
  then show ?thesis
    using row_outcome_live(1) [OF assms(1) _ assms(5)] assms(3,4,6)
    by (cases r) (simp_all add: answer_ok_def)
qed

locale value_operations =
  fixes supports :: "operation \<Rightarrow> bool"
    and fits :: "splitting_values \<Rightarrow> bool"
  assumes removals: "supports (RemoveBeforeAddValue p q)" "supports (RemoveValue p q)" "supports (RemovePartition q)"
    and additions: "fits w \<Longrightarrow> supports (add_operation p q w u)"
begin

lemma row_answer_ok:
  assumes inv: "table_inv d t" and x: "bt_get (t_index_ids t) key = Some x"
    and row: "row_ok fits row" and room: "partition_room t"
  shows "answer_ok supports d x t (row_answer d key row t)"
proof -
  obtain vs where vs: "key_of vs (row_primary_key row)" using row by (auto simp: row_ok_def)
  show ?thesis
  proof (cases "row_operation row")
    case (DbUpsert vals)
    then have vals: "values_ok vals"
      and fit: "\<And>v w. fst (into_value (hd vals)) = Some v \<Longrightarrow> split_value v = Ok w \<Longrightarrow> fits w"
      using row by (auto simp: row_ok_def)
    obtain r t' where run: "upsert d key (row_primary_key row) vals t = (r, t')" by fastforce
    from inv vs vals room run have "answer_ok supports d x t (r, t')"
    proof (rule upsert_cases)
      fix e
      assume "r = Err e" and "table_inv d t'" and "same_config t t'" and "\<forall>x. live t' x = live t x"
      then show ?thesis by (simp add: answer_ok_def)
    next
      fix y p t3 ix s ts
      assume y: "bt_get (t_index_ids t) key = Some y" and row: "at_row d t (row_primary_key row) t3 p"
        and s: "split_values_filtering vals = Ok s" and out: "row_outcome t3 y p (sv_values s) ts r t'"
        and rest: "table_inv d t'" "same_config t t'" "table_rows t' = table_rows t3"
      have out: "row_outcome t3 x p (sv_values s) ts r t'" using out x y by simp
      have fits: "fits w" if "sv_values s = Some w" for w
        using split_values_fits [OF s that] fit by blast
      have "list_all supports ops" if "r = Ok ops" for ops
        by (rule row_outcome_all [OF out [unfolded that]]) (simp_all add: removals additions fits)
      then show ?thesis by (rule answer_okI [OF out row rest])
    qed
    then show ?thesis using run DbUpsert by (simp add: row_answer_def)
  next
    case (DbDelete timestamp)
    obtain r t' where run: "delete d key (row_primary_key row) timestamp t = (r, t')" by fastforce
    from inv vs run have "answer_ok supports d x t (r, t')"
    proof (rule delete_cases)
      fix e
      assume "r = Err e" and "t' = t"
      then show ?thesis using inv by (simp add: answer_ok_def same_config_def)
    next
      fix y p t3 ix
      assume y: "bt_get (t_index_ids t) key = Some y" and row: "at_row d t (row_primary_key row) t3 p"
        and out: "row_outcome t3 y p None (new_tombstone timestamp) r t'"
        and rest: "table_inv d t'" "same_config t t'" "table_rows t' = table_rows t3"
      have out: "row_outcome t3 x p None (new_tombstone timestamp) r t'" using out x y by simp
      have "list_all supports ops" if "r = Ok ops" for ops
        by (rule row_outcome_all [OF out [unfolded that]]) (simp_all add: removals)
      then show ?thesis by (rule answer_okI [OF out row rest])
    qed
    then show ?thesis using run DbDelete by (simp add: row_answer_def)
  qed
qed

end

section \<open>The index in step with the table\<close>

text \<open>
  \<open>running\<close>: the index still takes calls; then every call returns \<open>Live\<close>.
\<close>

locale running_dispatch = index_dispatch D supports holds + value_operations supports fits
  for D :: "'s dispatch" and supports :: "operation \<Rightarrow> bool" and holds :: "entry set \<Rightarrow> 's \<Rightarrow> bool"
    and fits :: "splitting_values \<Rightarrow> bool" +
  fixes running :: "'s \<Rightarrow> bool"
  assumes add_vector_runs: "running s \<Longrightarrow> \<exists>s'. d_add_vector D q p v pr s = (Live, s') \<and> running s'"
    and add_document_runs: "running s \<Longrightarrow> \<exists>s'. d_add_document D q p doc pr s = (Live, s') \<and> running s'"
    and remove_value_runs: "running s \<Longrightarrow> \<exists>s'. d_remove_value D q p pr s = (Live, s') \<and> running s'"
    and remove_partition_runs: "running s \<Longrightarrow> \<exists>s'. d_remove_partition D q s = (Live, s') \<and> running s'"
begin

lemma process_runs:
  "running s \<Longrightarrow> \<exists>s' m'. process_operations D ops pr s m = (Live, s', m') \<and> running s'"
proof (induction ops arbitrary: pr s m)
  case (Cons op ops)
  note IH = Cons.IH
  show ?case
  proof (cases op)
    case (AddVector p q v u)
    obtain s1 where "d_add_vector D q p v pr s = (Live, s1)" "running s1"
      using add_vector_runs [OF Cons.prems] by blast
    then show ?thesis using IH AddVector by (simp add: take_progress_def)
  next
    case (AddDocument p q doc u)
    obtain s1 where "d_add_document D q p doc pr s = (Live, s1)" "running s1"
      using add_document_runs [OF Cons.prems] by blast
    then show ?thesis using IH AddDocument by (simp add: take_progress_def)
  next
    case (RemoveBeforeAddValue p q)
    obtain s1 where "d_remove_value D q p ProgressNone s = (Live, s1)" "running s1"
      using remove_value_runs [OF Cons.prems] by blast
    then show ?thesis using IH RemoveBeforeAddValue by simp
  next
    case (RemoveValue p q)
    obtain s1 where "d_remove_value D q p pr s = (Live, s1)" "running s1"
      using remove_value_runs [OF Cons.prems] by blast
    then show ?thesis using IH RemoveValue by (simp add: take_progress_def)
  next
    case (RemovePartition q)
    obtain s1 where "d_remove_partition D q s = (Live, s1)" "running s1"
      using remove_partition_runs [OF Cons.prems] by blast
    then show ?thesis using IH RemovePartition by simp
  qed
qed simp

text \<open>The monitor is in step for the index \<open>x\<close>.\<close>

definition in_step :: "driver \<Rightarrow> index_key \<Rightarrow> index_id \<Rightarrow> 's monitor \<Rightarrow> bool" where
  "in_step d key x mo \<longleftrightarrow>
     table_inv d (mo_table mo) \<and> bt_get (t_index_ids (mo_table mo)) key = Some x \<and>
     running (mo_index mo) \<and> holds (live (mo_table mo) x) (mo_index mo)"

lemma apply_in_step:
  assumes "in_step d key x mo" and "answer_ok supports d x (mo_table mo) answer"
  shows "case monitor_apply D pr answer mo of (r, mo') \<Rightarrow>
    in_step d key x mo' \<and> (r = Ok Live \<or> (\<exists>e. fst answer = Err (Panic e) \<and> r = Err (Panic e)))"
proof -
  obtain r t' where answer: "answer = (r, t')" by fastforce
  have t': "table_inv d t'" "bt_get (t_index_ids t') key = Some x"
    using assms by (auto simp: in_step_def answer_ok_def same_config_def answer)
  note mo = assms(1) [unfolded in_step_def]
  show ?thesis
  proof (cases r)
    case (Inl e)
    then have "live t' x = live (mo_table mo) x" using assms(2) by (simp add: answer_ok_def answer)
    then show ?thesis
      using Inl t' mo by (cases e) (simp_all add: answer monitor_apply_def in_step_def)
  next
    case (Inr ops)
    then have ops: "index_exec_all ops (live (mo_table mo) x) = Some (live t' x)" "list_all supports ops"
      using assms(2) by (simp_all add: answer_ok_def answer)
    obtain s' m' where run: "process_operations D ops pr (mo_index mo) (mo_metrics mo) = (Live, s', m')" "running s'"
      using process_runs [of "mo_index mo" ops pr "mo_metrics mo"] mo by blast
    then have "holds (live t' x) s'"
      using process_holds [OF _ ops run(1)] mo by blast
    then show ?thesis
      using Inr t' run by (simp add: answer monitor_apply_def in_step_def)
  qed
qed

lemma row_in_step:
  assumes "in_step d key x mo" and "row_ok fits row" and "partition_room (mo_table mo)"
  shows "case monitor_row d D key (row, pr) mo of (r, mo') \<Rightarrow>
    in_step d key x mo' \<and> (r = Ok Live \<or> (\<exists>e. r = Err (Panic e)))"
proof -
  have "answer_ok supports d x (mo_table mo) (row_answer d key row (mo_table mo))"
    using assms by (intro row_answer_ok) (simp_all add: in_step_def)
  from apply_in_step [OF assms(1) this, of pr] show ?thesis
    unfolding monitor_row_answer by (auto split: prod.splits)
qed

end

text \<open>Room for the partitions of every row of a run, in the tables the run goes through.\<close>

fun room_along ::
  "driver \<Rightarrow> 's dispatch \<Rightarrow> index_key \<Rightarrow> (db_indexed_row \<times> async_in_progress) list \<Rightarrow> 's monitor \<Rightarrow> bool" where
  "room_along d D key [] mo \<longleftrightarrow> True"
| "room_along d D key (row # rows) mo \<longleftrightarrow>
     partition_room (mo_table mo) \<and>
     (case monitor_row d D key row mo of
        (Inr Live, mo') \<Rightarrow> room_along d D key rows mo'
      | _ \<Rightarrow> True)"

context running_dispatch begin

lemma run_in_step:
  assumes "in_step d key x mo" and "list_all (row_ok fits) (map fst rows)" and "room_along d D key rows mo"
  shows "case monitor_run d D key rows mo of (r, mo') \<Rightarrow>
    in_step d key x mo' \<and> (r = Ok Live \<or> (\<exists>e. r = Err (Panic e)))"
  using assms
proof (induction rows arbitrary: mo)
  case (Cons row rows)
  obtain db_row pr where row: "row = (db_row, pr)" by fastforce
  obtain r mo1 where step: "monitor_row d D key (db_row, pr) mo = (r, mo1)" by fastforce
  have "in_step d key x mo1 \<and> (r = Ok Live \<or> (\<exists>e. r = Err (Panic e)))"
    using row_in_step [of d key x mo db_row pr] Cons.prems step by (simp add: row)
  then show ?case
    using Cons.IH [of mo1] Cons.prems step by (auto simp: row)
qed simp

end

section \<open>The three kinds of index\<close>

fun is_vector :: "splitting_values \<Rightarrow> bool" where
  "is_vector (SplitVector _) = True"
| "is_vector (SplitDocument _) = False"

fun is_document :: "splitting_values \<Rightarrow> bool" where
  "is_document (SplitVector _) = False"
| "is_document (SplitDocument _) = True"

interpretation vs_run: running_dispatch vs_dispatch supports_vectors vs_holds is_vector ch_open
proof unfold_locales
  show "supports_vectors (add_operation p q w u)" if "is_vector w" for w p q u
    using that by (cases w) (simp_all add: add_operation_def)
qed (simp_all add: vs_dispatch_def channel_send_def)

interpretation fts_run: running_dispatch fts_dispatch supports_documents documents_hold is_document ch_open
proof unfold_locales
  show "supports_documents (add_operation p q w u)" if "is_document w" for w p q u
    using that by (cases w) (simp_all add: add_operation_def)
qed (simp_all add: fts_dispatch_def channel_send_def)

interpretation pattern_run: running_dispatch pattern_dispatch supports_documents documents_hold is_document ch_open
  by unfold_locales (simp_all add: pattern_dispatch_def channel_send_def)

section \<open>Properties\<close>

text \<open>
  C4: a vector index stays in step with its table. From a table that satisfies its invariant
  and a channel to an index that was told exactly the live entries of the table, the monitor
  processes any sequence of upserts and deletes of vectors, stale and failing ones included, so
  that the index has been told exactly the live entries of the final table: no message adds a
  row twice, removes a missing one or drops a partition in use. The run ends only when the
  rows end, or with a panic of the table.
\<close>

theorem vs_index_in_step:
  assumes "table_inv d (mo_table mo)" and "bt_get (t_index_ids (mo_table mo)) key = Some x"
    and "ch_open (mo_index mo)" and "vs_holds (live (mo_table mo) x) (mo_index mo)"
    and "list_all (row_ok is_vector) (map fst rows)" and "room_along d vs_dispatch key rows mo"
  shows "case monitor_run d vs_dispatch key rows mo of (r, mo') \<Rightarrow>
    table_inv d (mo_table mo') \<and> vs_holds (live (mo_table mo') x) (mo_index mo') \<and>
    (r = Ok Live \<or> (\<exists>e. r = Err (Panic e)))"
proof -
  have "vs_run.in_step d key x mo" using assms(1-4) by (simp add: vs_run.in_step_def)
  from vs_run.run_in_step [OF this assms(5,6)] show ?thesis
    by (auto simp: vs_run.in_step_def)
qed

text \<open>
  C5: a full-text index and a pattern index stay in step with their table in the same sense.
  They keep documents by row identifier and know no partitions; the identifiers they were told
  are exactly those of the live entries of the table, and no two entries share an identifier.
\<close>

theorem document_index_in_step:
  assumes "D \<in> {fts_dispatch, pattern_dispatch}"
    and "table_inv d (mo_table mo)" and "bt_get (t_index_ids (mo_table mo)) key = Some x"
    and "ch_open (mo_index mo)" and "documents_hold (live (mo_table mo) x) (mo_index mo)"
    and "list_all (row_ok is_document) (map fst rows)" and "room_along d D key rows mo"
  shows "case monitor_run d D key rows mo of (r, mo') \<Rightarrow>
    table_inv d (mo_table mo') \<and> documents_hold (live (mo_table mo') x) (mo_index mo') \<and>
    (r = Ok Live \<or> (\<exists>e. r = Err (Panic e)))"
proof -
  have fts: "fts_run.in_step d key x mo" and pattern: "pattern_run.in_step d key x mo"
    using assms(2-5) by (simp_all add: fts_run.in_step_def pattern_run.in_step_def)
  from assms(1) consider "D = fts_dispatch" | "D = pattern_dispatch" by blast
  then show ?thesis
    using fts_run.run_in_step [OF fts assms(6)] pattern_run.run_in_step [OF pattern assms(6)] assms(7)
    by cases (auto simp: fts_run.in_step_def pattern_run.in_step_def)
qed

section \<open>Witnesses\<close>

definition example_monitor :: "'msg \<Rightarrow> 'msg channel_state monitor" where
  "example_monitor msg =
     \<lparr>mo_table = example_table, mo_index = \<lparr>ch_sent = [msg], ch_open = True\<rparr>,
      mo_metrics = \<lparr>m_modified = (\<lambda>_. 0), m_dirty = False\<rparr>\<rparr>"

lemma room_along_one: "room_along d D key [row] mo \<longleftrightarrow> partition_room (mo_table mo)"
  by (auto split: prod.split sum.split dispatch_status.split)

lemma example_has_key: "\<exists>vs. key_of vs example_key"
  using example_key_of by blast

lemma example_live_entries:
  "live example_table (IndexId 32768) = {(partition_global (IndexId 32768), new_epoch (PrimaryId 0) (Epoch 1))}"
proof -
  have "table_rows example_table = 2" by (simp add: table_rows_def example_table_def)
  then show ?thesis
    using example_rows
    by (auto simp: live_def example_gets live_index_def live_of_def primary_id_eq_iff less_Suc_eq numeral_2_eq_2)
qed

lemma example_monitor_fields:
  "mo_table (example_monitor msg) = example_table" "ch_sent (mo_index (example_monitor msg)) = [msg]"
  "ch_open (mo_index (example_monitor msg))"
  by (simp_all add: example_monitor_def)

lemma example_vector: "fst (into_value (hd (example_values ts))) = Some (DbVector [1, 2])"
  using example_hd(2) [of ts] by (simp add: example_values_def into_value_def timestamped_new_def)

theorem vs_index_in_step_witness:
  "case monitor_run example_driver vs_dispatch ''ks.idx''
      [(\<lparr>row_primary_key = example_key, row_operation = DbUpsert (example_values (Timestamp 9))\<rparr>, ProgressFullscan 1)]
      (example_monitor (VsAddVector (partition_global (IndexId 32768)) (new_epoch (PrimaryId 0) (Epoch 1)) [1, 2] ProgressNone))
    of (r, mo') \<Rightarrow>
      table_inv example_driver (mo_table mo') \<and> vs_holds (live (mo_table mo') (IndexId 32768)) (mo_index mo') \<and>
      (r = Ok Live \<or> (\<exists>e. r = Err (Panic e)))"
  by (rule vs_index_in_step)
    (simp_all add: example_monitor_fields example_inv example_gets example_live_entries vs_holds_def room_along_one
      example_room row_ok_def example_values_ok example_has_key example_vector del: room_along.simps)

theorem document_index_in_step_witness:
  "case monitor_run example_driver fts_dispatch ''ks.idx''
      [(\<lparr>row_primary_key = example_key, row_operation = DbDelete (Timestamp 9)\<rparr>, ProgressNone)]
      (example_monitor (AddDocumentMsg (new_epoch (PrimaryId 0) (Epoch 1)) [116] ProgressNone))
    of (r, mo') \<Rightarrow>
      table_inv example_driver (mo_table mo') \<and> documents_hold (live (mo_table mo') (IndexId 32768)) (mo_index mo') \<and>
      (r = Ok Live \<or> (\<exists>e. r = Err (Panic e)))"
  by (rule document_index_in_step)
    (simp_all add: example_monitor_fields example_inv example_gets example_live_entries documents_hold_def room_along_one
      example_room row_ok_def example_has_key del: room_along.simps)

end
