(* ===== verification/Engine.thy ===== *)
theory Engine
  imports Index_Registry Table_New
begin

text \<open>
  Model of \<open>crates/vector-store/src/engine.rs\<close>: the actor that adds and removes indexes. Its
  state is the registry of indexes, the monitor actors it started (each with the table it was
  given) and the metric labels it removed. What other actors and the factories of the index
  libraries answer while a message is handled is the argument \<open>engine_world\<close>; a run is a list
  of messages, each with the answers it meets.
\<close>

section \<open>What the engine asks\<close>

record vs_index_configuration =
  vc_key :: index_key
  vc_dimensions :: nat
  vc_connectivity :: nat
  vc_expansion_add :: nat
  vc_expansion_search :: nat
  vc_space_type :: space_type
  vc_quantization :: quantization

record fts_index_configuration =
  fc_key :: index_key
  fc_analyzer :: analyzer
  fc_positions :: bool

record engine_world =
  w_get_db_index :: "index_metadata \<Rightarrow> (channel \<times> channel) result"
  w_table_columns :: "channel \<Rightarrow> table_columns"
  w_full_scan_progress :: "channel \<Rightarrow> progress"
  w_create_vs :: "vs_index_configuration \<Rightarrow> channel \<Rightarrow> (channel \<times> channel) result"
  w_create_fts :: "fts_index_configuration \<Rightarrow> channel"
  w_create_pattern :: "index_key \<Rightarrow> channel"
  w_monitor_items :: "index_key \<Rightarrow> channel result"
  w_index_status :: "keyspace_name \<Rightarrow> index_name \<Rightarrow> index_status option"

section \<open>State\<close>

text \<open>A monitor of items: its channel, the table it fills, the rows it reads and the index it feeds.\<close>

record items_actor =
  ia_channel :: channel
  ia_key :: index_key
  ia_table :: table
  ia_rows :: channel
  ia_index :: channel

record engine_state =
  eg_indexes :: indexes
  eg_actors :: "items_actor list"
  eg_removed_labels :: "(keyspace_name \<times> index_name) list"

definition engine_new :: engine_state where
  "engine_new = \<lparr>eg_indexes = indexes_new, eg_actors = [], eg_removed_labels = []\<rparr>"

section \<open>AddIndex\<close>

definition build_table :: "index_key \<Rightarrow> index_metadata \<Rightarrow> table_columns \<Rightarrow> table result" where
  "build_table key m table_columns =
     table_new key (im_primary_key_columns m) (im_partition_key_count m)
       (case im_partitioning m of LocalIndex cols \<Rightarrow> Some cols | GlobalIndex \<Rightarrow> None)
       (im_target_columns m) (im_nonpk_filtering_columns m) table_columns"

record add_index_context =
  ac_key :: index_key
  ac_table :: table
  ac_embeddings_stream :: channel
  ac_db_index :: channel
  ac_metadata :: index_metadata

definition monitor_items_new ::
  "engine_world \<Rightarrow> add_index_context \<Rightarrow> channel \<Rightarrow> engine_state \<Rightarrow> channel result \<times> engine_state" where
  "monitor_items_new w ctx index eg =
     (case w_monitor_items w (ac_key ctx) of
        Inl e \<Rightarrow> (Inl e, eg)
      | Inr ch \<Rightarrow>
          (Ok ch, eg\<lparr>eg_actors := eg_actors eg @
             [\<lparr>ia_channel = ch, ia_key = ac_key ctx, ia_table = ac_table ctx,
               ia_rows = ac_embeddings_stream ctx, ia_index = index\<rparr>]\<rparr>))"

definition add_index_vs :: "engine_world \<Rightarrow> add_index_context \<Rightarrow> engine_state \<Rightarrow> unit result \<times> engine_state" where
  "add_index_vs w ctx eg =
     (case as_vs (im_kind (ac_metadata ctx)) of
        None \<Rightarrow> (Err (Bail ''add_index_vs must be called with a vector-search index''), eg)
      | Some options \<Rightarrow>
          (case w_create_vs w
                  \<lparr>vc_key = ac_key ctx, vc_dimensions = vs_dimensions options, vc_connectivity = vs_connectivity options,
                   vc_expansion_add = vs_expansion_add options, vc_expansion_search = vs_expansion_search options,
                   vc_space_type = vs_space_type options, vc_quantization = vs_quantization options\<rparr>
                  (ac_db_index ctx) of
             Inl e \<Rightarrow> (Inl e, eg)
           | Inr (vs_modify, vs_search) \<Rightarrow>
               (case monitor_items_new w ctx vs_modify eg of
                  (Inl e, eg1) \<Rightarrow> (Inl e, eg1)
                | (Inr monitor_actor, eg1) \<Rightarrow>
                    (case vs_entry_new vs_search monitor_actor (ac_db_index ctx) (ac_metadata ctx)
                            (w_table_columns w (ac_db_index ctx)) (w_full_scan_progress w (ac_db_index ctx)) of
                       Inl e \<Rightarrow> (Inl e, eg1)
                     | Inr entry \<Rightarrow>
                         (Ok (), eg1\<lparr>eg_indexes := insert_vs (ac_key ctx) entry (eg_indexes eg1)\<rparr>)))))"

definition add_index_fts :: "engine_world \<Rightarrow> add_index_context \<Rightarrow> engine_state \<Rightarrow> unit result \<times> engine_state" where
  "add_index_fts w ctx eg =
     (case as_fts (im_kind (ac_metadata ctx)) of
        None \<Rightarrow> (Err (Bail ''add_index_fts must be called with a full-text-search index''), eg)
      | Some options \<Rightarrow>
          let fts_sender = w_create_fts w \<lparr>fc_key = ac_key ctx, fc_analyzer = fts_analyzer options,
                fc_positions = fts_positions options\<rparr>
          in (case monitor_items_new w ctx fts_sender eg of
                (Inl e, eg1) \<Rightarrow> (Inl e, eg1)
              | (Inr monitor_actor, eg1) \<Rightarrow>
                  (case fts_entry_new (ac_metadata ctx) fts_sender monitor_actor (ac_db_index ctx)
                          (w_full_scan_progress w (ac_db_index ctx)) of
                     Inl e \<Rightarrow> (Inl e, eg1)
                   | Inr entry \<Rightarrow>
                       (Ok (), eg1\<lparr>eg_indexes := insert_fts (ac_key ctx) entry (eg_indexes eg1)\<rparr>))))"

definition add_index_pattern :: "engine_world \<Rightarrow> add_index_context \<Rightarrow> engine_state \<Rightarrow> unit result \<times> engine_state" where
  "add_index_pattern w ctx eg =
     (case as_pattern (im_kind (ac_metadata ctx)) of
        None \<Rightarrow> (Err (Bail ''add_index_pattern must be called with a pattern index''), eg)
      | Some _ \<Rightarrow>
          let pattern_sender = w_create_pattern w (ac_key ctx)
          in (case monitor_items_new w ctx pattern_sender eg of
                (Inl e, eg1) \<Rightarrow> (Inl e, eg1)
              | (Inr monitor_actor, eg1) \<Rightarrow>
                  (case pattern_entry_new (ac_metadata ctx) pattern_sender monitor_actor (ac_db_index ctx)
                          (w_full_scan_progress w (ac_db_index ctx)) of
                     Inl e \<Rightarrow> (Inl e, eg1)
                   | Inr entry \<Rightarrow>
                       (Ok (), eg1\<lparr>eg_indexes := insert_pattern (ac_key ctx) entry (eg_indexes eg1)\<rparr>))))"

definition add_index :: "engine_world \<Rightarrow> index_metadata \<Rightarrow> engine_state \<Rightarrow> unit result \<times> engine_state" where
  "add_index w m eg =
     (let key = im_key m
      in if contains_key (eg_indexes eg) key then (Ok (), eg)
         else case w_get_db_index w m of
           Inl e \<Rightarrow> (Inl e, eg)
         | Inr (db_index, embeddings_stream) \<Rightarrow>
             (case build_table key m (w_table_columns w db_index) of
                Inl e \<Rightarrow> (Inl e, eg)
              | Inr t \<Rightarrow>
                  let ctx = \<lparr>ac_key = key, ac_table = t, ac_embeddings_stream = embeddings_stream,
                             ac_db_index = db_index, ac_metadata = m\<rparr>
                  in case im_kind m of
                       Vs _ \<Rightarrow> add_index_vs w ctx eg
                     | Fts _ \<Rightarrow> add_index_fts w ctx eg
                     | Pattern \<Rightarrow> add_index_pattern w ctx eg))"

section \<open>The other messages\<close>

definition del_index :: "index_key \<Rightarrow> engine_state \<Rightarrow> unit result \<times> engine_state" where
  "del_index key eg =
     (case registry_remove key (eg_indexes eg) of
        (removed, ixs) \<Rightarrow>
          let eg1 = eg\<lparr>eg_indexes := ixs\<rparr>
          in if removed
             then (case index_key_keyspace key of
                     Inl e \<Rightarrow> (Inl e, eg1)
                   | Inr keyspace \<Rightarrow>
                       (case index_key_index key of
                          Inl e \<Rightarrow> (Inl e, eg1)
                        | Inr index \<Rightarrow>
                            (Ok (), eg1\<lparr>eg_removed_labels := eg_removed_labels eg1 @ [(keyspace, index)]\<rparr>)))
             else (Ok (), eg1))"

definition get_vs_index :: "index_key \<Rightarrow> engine_state \<Rightarrow> (channel \<times> channel) option" where
  "get_vs_index key eg = map_option (\<lambda>entry. (ie_index entry, ie_db_index entry)) (vs_entries (eg_indexes eg) key)"

definition get_fts_index :: "index_key \<Rightarrow> engine_state \<Rightarrow> (channel \<times> channel) option" where
  "get_fts_index key eg = map_option (\<lambda>entry. (ie_index entry, ie_db_index entry)) (fts_entries (eg_indexes eg) key)"

definition get_pattern_index :: "index_key \<Rightarrow> engine_state \<Rightarrow> (channel \<times> channel) option" where
  "get_pattern_index key eg = map_option (\<lambda>entry. (ie_index entry, ie_db_index entry)) (pattern_entries (eg_indexes eg) key)"

section \<open>The tick\<close>

text \<open>
  \<open>update_indexes\<close> first reads all entries; the orders in which the three hash maps iterate are
  an argument. Then it asks for each entry, and writes the entry back under its key if something
  changed.
\<close>

type_synonym key_orders = "index_key list \<times> index_key list \<times> index_key list"

type_synonym actual_index = "index_key \<times> channel \<times> progress \<times> index_status"

definition actual_of :: "(index_key \<Rightarrow> 'data index_entry option) \<Rightarrow> index_key list \<Rightarrow> actual_index list" where
  "actual_of entries keys =
     List.map_filter (\<lambda>key. map_option (\<lambda>entry. (key, ie_db_index entry, ie_progress entry, ie_status entry)) (entries key)) keys"

definition actual_indexes :: "key_orders \<Rightarrow> indexes \<Rightarrow> actual_index list" where
  "actual_indexes orders ixs =
     (case orders of (vs_keys, fts_keys, pattern_keys) \<Rightarrow>
        actual_of (vs_entries ixs) vs_keys @ actual_of (fts_entries ixs) fts_keys @
        actual_of (pattern_entries ixs) pattern_keys)"

definition set_entry :: "progress \<Rightarrow> index_status \<Rightarrow> 'data index_entry \<Rightarrow> 'data index_entry" where
  "set_entry new_progress new_status entry = entry\<lparr>ie_progress := new_progress, ie_status := new_status\<rparr>"

definition write_entry :: "index_key \<Rightarrow> progress \<Rightarrow> index_status \<Rightarrow> indexes \<Rightarrow> indexes" where
  "write_entry key new_progress new_status ixs =
     (case vs_entries ixs key of
        Some entry \<Rightarrow> ixs\<lparr>vs_entries := (vs_entries ixs)(key \<mapsto> set_entry new_progress new_status entry)\<rparr>
      | None \<Rightarrow>
          (case fts_entries ixs key of
             Some entry \<Rightarrow> ixs\<lparr>fts_entries := (fts_entries ixs)(key \<mapsto> set_entry new_progress new_status entry)\<rparr>
           | None \<Rightarrow>
               (case pattern_entries ixs key of
                  Some entry \<Rightarrow> ixs\<lparr>pattern_entries := (pattern_entries ixs)(key \<mapsto> set_entry new_progress new_status entry)\<rparr>
                | None \<Rightarrow> ixs)))"

fun update_each :: "engine_world \<Rightarrow> actual_index list \<Rightarrow> indexes \<Rightarrow> indexes result" where
  "update_each w [] ixs = Ok ixs"
| "update_each w ((key, db_index, progress, st) # rest) ixs =
     and_then (index_key_keyspace key) (\<lambda>keyspace.
     and_then (index_key_index key) (\<lambda>index.
       case w_index_status w keyspace index of
         None \<Rightarrow> update_each w rest ixs
       | Some new_status \<Rightarrow>
           let new_progress = w_full_scan_progress w db_index
           in update_each w rest
                (if new_progress \<noteq> progress \<or> new_status \<noteq> st
                 then write_entry key new_progress new_status ixs else ixs)))"

definition engine_update_indexes :: "engine_world \<Rightarrow> key_orders \<Rightarrow> engine_state \<Rightarrow> unit result \<times> engine_state" where
  "engine_update_indexes w orders eg =
     (case update_each w (actual_indexes orders (eg_indexes eg)) (eg_indexes eg) of
        Inl e \<Rightarrow> (Inl e, eg)
      | Inr ixs \<Rightarrow> (Ok (), eg\<lparr>eg_indexes := ixs\<rparr>))"

section \<open>The actor\<close>

datatype engine_msg =
    AddIndexMsg index_metadata
  | DelIndexMsg index_key
  | GetVsIndexMsg index_key
  | GetFtsIndexMsg index_key
  | GetPatternIndexMsg index_key
  | EngineTick key_orders

datatype engine_reply =
    AddIndexR "unit result"
  | GetIndexR "(channel \<times> channel) option"
  | NoReply

text \<open>A step: the reply, or the panic that ends the actor.\<close>

fun engine_step :: "engine_world \<Rightarrow> engine_msg \<Rightarrow> engine_state \<Rightarrow> engine_reply result \<times> engine_state" where
  "engine_step w (AddIndexMsg m) eg =
     (case add_index w m eg of
        (Inl (Panic e), eg') \<Rightarrow> (Err (Panic e), eg')
      | (r, eg') \<Rightarrow> (Ok (AddIndexR r), eg'))"
| "engine_step w (DelIndexMsg key) eg =
     (case del_index key eg of (Inl e, eg') \<Rightarrow> (Inl e, eg') | (Inr _, eg') \<Rightarrow> (Ok NoReply, eg'))"
| "engine_step w (GetVsIndexMsg key) eg = (Ok (GetIndexR (get_vs_index key eg)), eg)"
| "engine_step w (GetFtsIndexMsg key) eg = (Ok (GetIndexR (get_fts_index key eg)), eg)"
| "engine_step w (GetPatternIndexMsg key) eg = (Ok (GetIndexR (get_pattern_index key eg)), eg)"
| "engine_step w (EngineTick orders) eg =
     (case engine_update_indexes w orders eg of (Inl e, eg') \<Rightarrow> (Inl e, eg') | (Inr _, eg') \<Rightarrow> (Ok NoReply, eg'))"

fun engine_run :: "(engine_world \<times> engine_msg) list \<Rightarrow> engine_state \<Rightarrow> engine_reply list result \<times> engine_state" where
  "engine_run [] eg = (Ok [], eg)"
| "engine_run ((w, msg) # msgs) eg =
     (case engine_step w msg eg of
        (Inl e, eg1) \<Rightarrow> (Inl e, eg1)
      | (Inr reply, eg1) \<Rightarrow>
          (case engine_run msgs eg1 of
             (Inl e, eg2) \<Rightarrow> (Inl e, eg2)
           | (Inr replies, eg2) \<Rightarrow> (Ok (reply # replies), eg2)))"

end
