(* ===== verification/Monitor_Indexes.thy ===== *)
theory Monitor_Indexes
  imports Engine
begin

text \<open>
  Model of \<open>crates/vector-store/src/monitor_indexes.rs\<close>: the actor that reads the indexes from the
  database schema and asks the engine to delete and add indexes. What the database answers
  during a tick is a record; a set of metadata is iterated in the order the hash set gives,
  which is an argument. The calls to the engine are composed with the model of the engine.
\<close>

section \<open>What the database answers\<close>

datatype db_index_kind = VectorSearch | FullTextSearch | PatternSearch

record db_custom_index =
  dc_keyspace :: keyspace_name
  dc_index :: index_name
  dc_table :: table_name
  dc_primary_key_columns :: "column_name list"
  dc_partition_key_count :: nat
  dc_target_columns :: "column_name list"
  dc_partitioning :: db_index_partitioning
  dc_filtering_columns :: "column_name list"
  dc_alternator_attribute_types :: "(column_name, native_type) btree"
  dc_kind :: db_index_kind

definition dc_key :: "db_custom_index \<Rightarrow> index_key" where
  "dc_key idx = index_key_new (dc_keyspace idx) (dc_index idx)"

type_synonym uuid = "u8 list"

type_synonym vs_index_params = "nat \<times> nat \<times> nat \<times> space_type \<times> quantization"

record db_world =
  db_latest_schema_version :: "uuid result"
  db_valid_at_start :: "uuid \<Rightarrow> bool"
  db_valid_at_end :: "uuid \<Rightarrow> bool"
  db_get_indexes :: "db_custom_index list result"
  db_get_index_version :: "keyspace_name \<Rightarrow> table_name \<Rightarrow> index_name \<Rightarrow> index_version option result"
  db_get_target_dimensions :: "keyspace_name \<Rightarrow> table_name \<Rightarrow> index_name \<Rightarrow> column_name \<Rightarrow> nat option result"
  db_get_vs_params :: "keyspace_name \<Rightarrow> table_name \<Rightarrow> index_name \<Rightarrow> vs_index_params option result"
  db_get_fts_params :: "keyspace_name \<Rightarrow> table_name \<Rightarrow> index_name \<Rightarrow> index_options_fts option result"
  db_get_pattern_params :: "keyspace_name \<Rightarrow> table_name \<Rightarrow> index_name \<Rightarrow> unit option result"
  db_is_valid_index :: "index_metadata \<Rightarrow> bool"

section \<open>SchemaVersion\<close>

type_synonym schema_version = uuid

definition schema_version_new :: schema_version where
  "schema_version_new = uuid_nil"

definition has_changed :: "db_world \<Rightarrow> schema_version \<Rightarrow> uuid option \<times> schema_version" where
  "has_changed db version =
     (case db_latest_schema_version db of
        Inl _ \<Rightarrow> (None, version)
      | Inr latest \<Rightarrow> if version = latest then (None, version) else (Some latest, latest))"

definition schema_version_reset :: "schema_version \<Rightarrow> schema_version" where
  "schema_version_reset version = uuid_nil"

section \<open>get_indexes\<close>

definition connectivity_default :: nat where "connectivity_default = 16"
definition expansion_add_default :: nat where "expansion_add_default = 128"
definition expansion_search_default :: nat where "expansion_search_default = 64"

definition index_options_fts_default :: index_options_fts where
  "index_options_fts_default = \<lparr>fts_analyzer = Standard, fts_positions = True\<rparr>"

definition build_vs_index_kind :: "db_world \<Rightarrow> db_custom_index \<Rightarrow> index_kind option result" where
  "build_vs_index_kind db idx =
     and_then (db_get_target_dimensions db (dc_keyspace idx) (dc_table idx) (dc_index idx) (hd (dc_target_columns idx))) (\<lambda>dims.
       case dims of
         None \<Rightarrow> Ok None
       | Some dimensions \<Rightarrow>
           and_then (db_get_vs_params db (dc_keyspace idx) (dc_table idx) (dc_index idx)) (\<lambda>params.
             case (case params of
                     Some p \<Rightarrow> p
                   | None \<Rightarrow> (connectivity_default, expansion_add_default, expansion_search_default, Cosine, QF32)) of
               (connectivity, expansion_add, expansion_search, space, quant) \<Rightarrow>
                 Ok (Some (Vs \<lparr>vs_dimensions = dimensions, vs_connectivity = connectivity, vs_expansion_add = expansion_add,
                               vs_expansion_search = expansion_search, vs_space_type = space, vs_quantization = quant\<rparr>))))"

definition build_fts_index_kind :: "db_world \<Rightarrow> db_custom_index \<Rightarrow> index_kind result" where
  "build_fts_index_kind db idx =
     and_then (db_get_fts_params db (dc_keyspace idx) (dc_table idx) (dc_index idx)) (\<lambda>params.
       Ok (Fts (case params of Some options \<Rightarrow> options | None \<Rightarrow> index_options_fts_default)))"

definition build_pattern_index_kind :: "db_world \<Rightarrow> db_custom_index \<Rightarrow> index_kind result" where
  "build_pattern_index_kind db idx =
     and_then (db_get_pattern_params db (dc_keyspace idx) (dc_table idx) (dc_index idx)) (\<lambda>params. Ok Pattern)"

definition index_kind_of :: "db_world \<Rightarrow> db_custom_index \<Rightarrow> index_kind option result" where
  "index_kind_of db idx =
     (case dc_kind idx of
        VectorSearch \<Rightarrow> build_vs_index_kind db idx
      | FullTextSearch \<Rightarrow> and_then (build_fts_index_kind db idx) (\<lambda>kind. Ok (Some kind))
      | PatternSearch \<Rightarrow> and_then (build_pattern_index_kind db idx) (\<lambda>kind. Ok (Some kind)))"

definition metadata_of :: "db_custom_index \<Rightarrow> index_version \<Rightarrow> index_kind \<Rightarrow> index_metadata" where
  "metadata_of idx version kind =
     \<lparr>im_keyspace_name = dc_keyspace idx, im_index_name = dc_index idx, im_table_name = dc_table idx,
      im_primary_key_columns = dc_primary_key_columns idx, im_partition_key_count = dc_partition_key_count idx,
      im_target_columns = dc_target_columns idx, im_partitioning = dc_partitioning idx,
      im_filtering_columns = dc_filtering_columns idx,
      im_alternator_attribute_types = dc_alternator_attribute_types idx, im_version = version, im_kind = kind\<rparr>"

text \<open>The body of the loop: the metadata of one index, or \<open>None\<close> for an index that is skipped.\<close>

definition get_index :: "db_world \<Rightarrow> db_custom_index \<Rightarrow> index_metadata option result" where
  "get_index db idx =
     and_then (db_get_index_version db (dc_keyspace idx) (dc_table idx) (dc_index idx)) (\<lambda>v.
     and_then (ok_or v (Bail ''no options row for the index'')) (\<lambda>version.
     and_then (index_kind_of db idx) (\<lambda>k.
       case k of
         None \<Rightarrow> Ok None
       | Some kind \<Rightarrow>
           let m = metadata_of idx version kind
           in if db_is_valid_index db m then Ok (Some m) else Err (Bail ''get_indexes: not valid index''))))"

fun get_indexes_loop :: "db_world \<Rightarrow> db_custom_index list \<Rightarrow> index_metadata set \<Rightarrow> index_metadata set result" where
  "get_indexes_loop db [] indexes = Ok indexes"
| "get_indexes_loop db (idx # rest) indexes =
     and_then (get_index db idx) (\<lambda>m.
       get_indexes_loop db rest (case m of None \<Rightarrow> indexes | Some metadata \<Rightarrow> insert metadata indexes))"

definition get_indexes :: "db_world \<Rightarrow> uuid \<Rightarrow> index_metadata set result" where
  "get_indexes db version =
     (if \<not> db_valid_at_start db version then Err (Bail ''get_indexes: not valid schema at the start'')
      else and_then (db_get_indexes db) (\<lambda>rows.
           and_then (get_indexes_loop db rows {}) (\<lambda>indexes.
             if \<not> db_valid_at_end db version then Err (Bail ''get_indexes: not valid schema at the end'')
             else Ok indexes)))"

section \<open>Choosing what to delete and to add\<close>

fun is_fts :: "index_kind \<Rightarrow> bool" where
  "is_fts (Fts _) = True"
| "is_fts _ = False"

definition filter_disabled_index_kinds :: "index_metadata set \<Rightarrow> bool \<Rightarrow> index_metadata set" where
  "filter_disabled_index_kinds indexes fulltext_indexes =
     (if fulltext_indexes then indexes else {m \<in> indexes. \<not> is_fts (im_kind m)})"

definition should_delete :: "index_metadata \<Rightarrow> index_metadata set \<Rightarrow> bool" where
  "should_delete curr_idx new_indexes \<longleftrightarrow> curr_idx \<notin> new_indexes"

definition should_add :: "index_metadata \<Rightarrow> index_metadata set \<Rightarrow> bool" where
  "should_add new_idx curr_indexes \<longleftrightarrow> new_idx \<notin> curr_indexes"

definition should_delete_simulator :: "index_metadata \<Rightarrow> index_metadata set \<Rightarrow> bool" where
  "should_delete_simulator curr_idx new_indexes \<longleftrightarrow>
     (let curr = discard_version curr_idx
      in \<exists>new\<in>discard_version ` new_indexes. im_key curr = im_key new \<and> curr \<noteq> new)"

definition should_add_simulator :: "index_metadata \<Rightarrow> index_metadata set \<Rightarrow> bool" where
  "should_add_simulator new_idx curr_indexes \<longleftrightarrow>
     (let new = discard_version new_idx
      in \<forall>curr\<in>discard_version ` curr_indexes. curr \<noteq> new)"

definition discovered_indexes_simulator :: "index_metadata set \<Rightarrow> index_metadata set \<Rightarrow> index_metadata set" where
  "discovered_indexes_simulator curr_indexes new_indexes =
     {m \<in> curr_indexes. \<not> should_delete_simulator m new_indexes} \<union>
     {m \<in> new_indexes. should_add_simulator m curr_indexes}"

section \<open>The calls to the engine\<close>

text \<open>The index monitor waits for the engine's answer: a panic of the engine is its own.\<close>

fun del_indexes :: "index_metadata list \<Rightarrow> engine_state \<Rightarrow> unit result \<times> engine_state" where
  "del_indexes [] eg = (Ok (), eg)"
| "del_indexes (m # ms) eg =
     (case del_index (im_key m) eg of
        (Inl e, eg') \<Rightarrow> (Inl e, eg')
      | (Inr _, eg') \<Rightarrow> del_indexes ms eg')"

record add_indexes_r =
  ar_added :: "index_metadata set"
  ar_has_failures :: bool

fun add_indexes ::
  "engine_world \<Rightarrow> index_metadata list \<Rightarrow> add_indexes_r \<Rightarrow> engine_state \<Rightarrow> add_indexes_r result \<times> engine_state" where
  "add_indexes w [] r eg = (Ok r, eg)"
| "add_indexes w (m # ms) r eg =
     (case add_index w m eg of
        (Inl (Panic e), eg') \<Rightarrow> (Err (Panic e), eg')
      | (Inl (Bail _), eg') \<Rightarrow> add_indexes w ms (r\<lparr>ar_has_failures := True\<rparr>) eg'
      | (Inr _, eg') \<Rightarrow> add_indexes w ms (r\<lparr>ar_added := insert m (ar_added r)\<rparr>) eg')"

section \<open>The actor\<close>

record index_monitor =
  mi_schema_version :: schema_version
  mi_indexes :: "index_metadata set"
  mi_alter_index_simulator :: bool
  mi_fulltext_indexes :: bool

definition index_monitor_new :: "bool \<Rightarrow> bool \<Rightarrow> index_monitor" where
  "index_monitor_new alter_index_simulator fulltext_indexes =
     \<lparr>mi_schema_version = schema_version_new, mi_indexes = {},
      mi_alter_index_simulator = alter_index_simulator, mi_fulltext_indexes = fulltext_indexes\<rparr>"

type_synonym hash_order = "index_metadata set \<Rightarrow> index_metadata list"

text \<open>Everything of a tick after the list of indexes was read: delete, then add.\<close>

definition update_engine ::
  "hash_order \<Rightarrow> engine_world \<Rightarrow> index_metadata set \<Rightarrow> index_monitor \<Rightarrow> engine_state \<Rightarrow>
   unit result \<times> index_monitor \<times> engine_state" where
  "update_engine order w new_indexes mi eg =
     (let for_delete = (\<lambda>m. if mi_alter_index_simulator mi then should_delete_simulator m new_indexes
                            else should_delete m new_indexes);
          removed = filter for_delete (order (mi_indexes mi));
          mi1 = mi\<lparr>mi_indexes := mi_indexes mi - set removed\<rparr>
      in case del_indexes removed eg of
           (Inl e, eg1) \<Rightarrow> (Inl e, mi1, eg1)
         | (Inr _, eg1) \<Rightarrow>
             let for_add = (\<lambda>m. if mi_alter_index_simulator mi1 then should_add_simulator m (mi_indexes mi1)
                                else should_add m (mi_indexes mi1))
             in case add_indexes w (filter for_add (order new_indexes)) \<lparr>ar_added = {}, ar_has_failures = False\<rparr> eg1 of
                  (Inl e, eg2) \<Rightarrow> (Inl e, mi1, eg2)
                | (Inr r, eg2) \<Rightarrow>
                    let mi2 = mi1\<lparr>mi_indexes := mi_indexes mi1 \<union> ar_added r\<rparr>
                    in (Ok (), if ar_has_failures r
                               then mi2\<lparr>mi_schema_version := schema_version_reset (mi_schema_version mi2)\<rparr> else mi2, eg2))"

text \<open>One tick: the result, the events sent to the node state, and the new states.\<close>

definition monitor_tick ::
  "hash_order \<Rightarrow> db_world \<Rightarrow> engine_world \<Rightarrow> index_monitor \<Rightarrow> engine_state \<Rightarrow>
   unit result \<times> event list \<times> index_monitor \<times> engine_state" where
  "monitor_tick order db w mi eg =
     (case has_changed db (mi_schema_version mi) of
        (None, v) \<Rightarrow> (Ok (), [], mi\<lparr>mi_schema_version := v\<rparr>, eg)
      | (Some version, v) \<Rightarrow>
          let mi1 = mi\<lparr>mi_schema_version := v\<rparr>
          in case get_indexes db version of
               Inl _ \<Rightarrow>
                 (Ok (), [DiscoveringIndexes],
                  mi1\<lparr>mi_schema_version := schema_version_reset (mi_schema_version mi1)\<rparr>, eg)
             | Inr listed \<Rightarrow>
                 let new_indexes = filter_disabled_index_kinds listed (mi_fulltext_indexes mi1);
                     discovered = (if mi_alter_index_simulator mi1
                                   then discovered_indexes_simulator (mi_indexes mi1) new_indexes
                                   else new_indexes)
                 in case update_engine order w new_indexes mi1 eg of
                      (r, mi2, eg2) \<Rightarrow> (r, [DiscoveringIndexes, IndexesDiscovered discovered], mi2, eg2))"

definition update_flags :: "bool \<Rightarrow> bool \<Rightarrow> index_monitor \<Rightarrow> index_monitor" where
  "update_flags alter_index_simulator fulltext_indexes mi =
     mi\<lparr>mi_alter_index_simulator := alter_index_simulator, mi_fulltext_indexes := fulltext_indexes\<rparr>"

end
