(* ===== verification/Engine_Correct.thy ===== *)
theory Engine_Correct
  imports Engine
begin

text \<open>
  Correctness of the engine. The invariant joins the registry with the monitors: every index
  in the registry has a monitor that was started for its key, on a table that satisfies the
  invariant of tables and holds no row yet.
\<close>

section \<open>Invariant\<close>

text \<open>Other actors and the factories answer with errors, not panics.\<close>

definition world_ok :: "engine_world \<Rightarrow> bool" where
  "world_ok w \<longleftrightarrow>
     (\<forall>m. no_panic (w_get_db_index w m)) \<and> (\<forall>c ch. no_panic (w_create_vs w c ch)) \<and>
     (\<forall>key. no_panic (w_monitor_items w key))"

text \<open>\<open>NonemptyArc\<close>, and the distinct columns of a partition key.\<close>

definition metadata_ok :: "index_metadata \<Rightarrow> bool" where
  "metadata_ok m \<longleftrightarrow>
     im_target_columns m \<noteq> [] \<and> im_primary_key_columns m \<noteq> [] \<and>
     (case im_partitioning m of GlobalIndex \<Rightarrow> True | LocalIndex cols \<Rightarrow> distinct cols)"

fun msg_ok :: "engine_msg \<Rightarrow> bool" where
  "msg_ok (AddIndexMsg m) = metadata_ok m"
| "msg_ok _ = True"

definition table_fresh :: "driver \<Rightarrow> index_key \<Rightarrow> table \<Rightarrow> bool" where
  "table_fresh d key t \<longleftrightarrow>
     table_inv d t \<and> partition_room t \<and> bt_get (t_index_ids t) key \<noteq> None \<and> (\<forall>x. live t x = {})"

definition monitored :: "items_actor list \<Rightarrow> (index_key \<Rightarrow> 'data index_entry option) \<Rightarrow> bool" where
  "monitored actors entries \<longleftrightarrow>
     (\<forall>k e. entries k = Some e \<longrightarrow> (\<exists>a\<in>set actors. ia_channel a = ie_monitor e \<and> ia_key a = k))"

definition engine_inv :: "driver \<Rightarrow> engine_state \<Rightarrow> bool" where
  "engine_inv d eg \<longleftrightarrow>
     registry_inv (eg_indexes eg) \<and>
     (\<forall>key. contains_key (eg_indexes eg) key \<longrightarrow> CHR ''.'' \<in> set key) \<and>
     (\<forall>a\<in>set (eg_actors eg). table_fresh d (ia_key a) (ia_table a)) \<and>
     monitored (eg_actors eg) (vs_entries (eg_indexes eg)) \<and>
     monitored (eg_actors eg) (fts_entries (eg_indexes eg)) \<and>
     monitored (eg_actors eg) (pattern_entries (eg_indexes eg))"

lemma engine_inv_new: "engine_inv d engine_new"
  using registry_inv_new
  by (simp add: engine_inv_def engine_new_def) (simp add: contains_key_def indexes_new_def monitored_def)

lemma monitored_upd: "monitored actors entries \<Longrightarrow> (case e of None \<Rightarrow> True | Some v \<Rightarrow>
    \<exists>a\<in>set actors. ia_channel a = ie_monitor v \<and> ia_key a = key) \<Longrightarrow> monitored actors (entries(key := e))"
  by (auto simp: monitored_def)

lemma monitored_append: "monitored actors entries \<Longrightarrow> monitored (actors @ actors') entries"
  by (fastforce simp: monitored_def)

lemma key_has_dot: "CHR ''.'' \<in> set (im_key m)"
  by (simp add: im_key_def index_key_new_def)

lemma dotted_key:
  assumes "CHR ''.'' \<in> set key"
  obtains ks ix where "index_key_keyspace key = Ok ks" and "index_key_index key = Ok ix" and "key = index_key_new ks ix"
proof -
  obtain ks ix where "key = ks @ CHR ''.'' # ix" and "CHR ''.'' \<notin> set ks"
    using split_list_first [OF assms] by blast
  then show thesis
    using split_once_append [of "CHR ''.''" ks ix]
    by (intro that [of ks ix]) (simp_all add: index_key_keyspace_def index_key_index_def index_key_new_def)
qed

section \<open>AddIndex\<close>

lemma value_columns_no_panic: "no_panic (value_columns table_columns columns names)"
proof -
  have "no_panic (and_then (ok_or (table_columns name) (Bail b))
      (\<lambda>nt. and_then (column_new nt) (\<lambda>column. Ok (name, column))))" for name b
  proof (cases "table_columns name")
    case (Some nt)
    then show ?thesis by (cases nt) simp_all
  qed simp
  then show ?thesis by (simp add: value_columns_def collect_no_panic)
qed

lemma table_new_no_panic:
  assumes "target \<noteq> []"
  shows "no_panic (table_new key pk n partition_columns target filtering table_columns)"
proof -
  obtain x g where gen: "generator_next (partition_columns = None) generator_new = (Ok x, g)"
    using generator_first .
  note new = table_new_unfold [OF gen, of key pk n target filtering table_columns]
  note ok = table_new_ok [OF assms, where key = key and pk = pk and n = n and partition_columns = partition_columns
      and filtering = filtering and table_columns = table_columns]
  let ?vc = "value_columns table_columns (key_columns pk) ((case partition_columns of Some cols \<Rightarrow> cols | None \<Rightarrow> []) @ filtering)"
  show ?thesis
  proof (cases "table_new key pk n partition_columns target filtering table_columns")
    case (Inl e)
    then have bad: "\<not> schema_ok pk n partition_columns filtering table_columns" using ok by simp
    consider "n > length pk" | e' where "n \<le> length pk" "?vc = Err e'"
      using bad value_columns_total [of n pk table_columns partition_columns filtering]
      by (cases "length pk < n"; cases ?vc) auto
    then show ?thesis
    proof cases
      case 2
      then show ?thesis
        using value_columns_no_panic [of table_columns "key_columns pk"
            "(case partition_columns of Some cols \<Rightarrow> cols | None \<Rightarrow> []) @ filtering"]
        by (simp add: new no_panic_def)
    qed (simp add: new)
  qed simp
qed

lemma build_table_ok:
  assumes "metadata_ok m"
  shows "no_panic (build_table key m table_columns)"
    and "build_table key m table_columns = Ok t \<Longrightarrow> table_fresh d key t"
proof -
  have target: "im_target_columns m \<noteq> []" using assms by (simp add: metadata_ok_def)
  show "no_panic (build_table key m table_columns)"
    unfolding build_table_def by (rule table_new_no_panic [OF target])
  show "table_fresh d key t" if "build_table key m table_columns = Ok t"
    using table_new_ok [OF target, where key = key and pk = "im_primary_key_columns m" and n = "im_partition_key_count m"
        and partition_columns = "case im_partitioning m of GlobalIndex \<Rightarrow> None | LocalIndex cols \<Rightarrow> Some cols"
        and filtering = "im_nonpk_filtering_columns m" and table_columns = table_columns and d = d] that
    by (simp add: build_table_def table_fresh_def)
qed

text \<open>What an attempt to add the key \<open>key\<close> leaves.\<close>

definition added_ok :: "driver \<Rightarrow> index_key \<Rightarrow> engine_state \<Rightarrow> unit result \<times> engine_state \<Rightarrow> bool" where
  "added_ok d key eg result \<longleftrightarrow>
     engine_inv d (snd result) \<and> no_panic (fst result) \<and>
     (if is_ok (fst result) then \<forall>k. contains_key (eg_indexes (snd result)) k \<longleftrightarrow> k = key \<or> contains_key (eg_indexes eg) k
      else eg_indexes (snd result) = eg_indexes eg)"

lemma monitor_items_new_ok:
  assumes inv: "engine_inv d eg" and w: "world_ok w" and t: "table_fresh d (ac_key ctx) (ac_table ctx)"
    and run: "monitor_items_new w ctx index eg = (r, eg1)"
  shows "engine_inv d eg1" and "no_panic r" and "eg_indexes eg1 = eg_indexes eg"
    and "r = Ok ch \<Longrightarrow> \<exists>a\<in>set (eg_actors eg1). ia_channel a = ch \<and> ia_key a = ac_key ctx"
proof -
  note inv = inv [unfolded engine_inv_def]
  have "engine_inv d eg1 \<and> no_panic r \<and> eg_indexes eg1 = eg_indexes eg \<and>
      (r = Ok ch \<longrightarrow> (\<exists>a\<in>set (eg_actors eg1). ia_channel a = ch \<and> ia_key a = ac_key ctx))"
  proof (cases "w_monitor_items w (ac_key ctx)")
    case (Inl e)
    then have "no_panic (Inl e :: channel result)" using w by (metis world_ok_def)
    then show ?thesis using run inv Inl by (auto simp: monitor_items_new_def engine_inv_def)
  next
    case (Inr c)
    let ?a = "\<lparr>ia_channel = c, ia_key = ac_key ctx, ia_table = ac_table ctx,
               ia_rows = ac_embeddings_stream ctx, ia_index = index\<rparr>"
    have "r = Ok c" and "eg1 = eg\<lparr>eg_actors := eg_actors eg @ [?a]\<rparr>"
      using run Inr by (simp_all add: monitor_items_new_def)
    then show ?thesis
      using inv t by (auto simp: engine_inv_def intro: monitored_append)
  qed
  then show "engine_inv d eg1" and "no_panic r" and "eg_indexes eg1 = eg_indexes eg"
    and "r = Ok ch \<Longrightarrow> \<exists>a\<in>set (eg_actors eg1). ia_channel a = ch \<and> ia_key a = ac_key ctx" by blast+
qed

lemma engine_inv_indexes:
  assumes "engine_inv d eg" and "registry_inv ixs" and "\<And>k. contains_key ixs k \<Longrightarrow> CHR ''.'' \<in> set k"
    and "monitored (eg_actors eg) (vs_entries ixs)" and "monitored (eg_actors eg) (fts_entries ixs)"
    and "monitored (eg_actors eg) (pattern_entries ixs)"
  shows "engine_inv d (eg\<lparr>eg_indexes := ixs\<rparr>)"
  using assms by (simp add: engine_inv_def)

lemma insert_fts_fields [simp]:
  "vs_entries (insert_fts key f ixs) = vs_entries ixs" "fts_entries (insert_fts key f ixs) = (fts_entries ixs)(key \<mapsto> f)"
  "pattern_entries (insert_fts key f ixs) = pattern_entries ixs"
  by (simp_all add: insert_fts_def)

lemma insert_pattern_fields [simp]:
  "vs_entries (insert_pattern key p ixs) = vs_entries ixs" "fts_entries (insert_pattern key p ixs) = fts_entries ixs"
  "pattern_entries (insert_pattern key p ixs) = (pattern_entries ixs)(key \<mapsto> p)"
  by (simp_all add: insert_pattern_def)

lemma contains_key_insert [simp]:
  "contains_key (insert_vs key v ixs) k \<longleftrightarrow> k = key \<or> contains_key ixs k"
  "contains_key (insert_fts key f ixs) k \<longleftrightarrow> k = key \<or> contains_key ixs k"
  "contains_key (insert_pattern key p ixs) k \<longleftrightarrow> k = key \<or> contains_key ixs k"
  by (auto simp: contains_key_def)

lemma added_okI:
  assumes inv: "engine_inv d eg1" and same: "eg_indexes eg1 = eg_indexes eg" and dot: "CHR ''.'' \<in> set key"
    and reg: "registry_inv ixs" and keys: "\<And>k. contains_key ixs k \<longleftrightarrow> k = key \<or> contains_key (eg_indexes eg) k"
    and mon: "monitored (eg_actors eg1) (vs_entries ixs)" "monitored (eg_actors eg1) (fts_entries ixs)"
      "monitored (eg_actors eg1) (pattern_entries ixs)"
  shows "added_ok d key eg (Ok (), eg1\<lparr>eg_indexes := ixs\<rparr>)"
proof -
  have "contains_key (eg_indexes eg) k \<Longrightarrow> CHR ''.'' \<in> set k" for k
    using inv same by (simp add: engine_inv_def)
  then have "engine_inv d (eg1\<lparr>eg_indexes := ixs\<rparr>)"
    using dot keys by (intro engine_inv_indexes [OF inv reg _ mon]) auto
  then show ?thesis using keys by (simp add: added_ok_def)
qed

lemma added_ok_error: "engine_inv d eg' \<Longrightarrow> eg_indexes eg' = eg_indexes eg \<Longrightarrow> no_panic (Inl e :: unit result) \<Longrightarrow>
    added_ok d key eg (Inl e, eg')"
  by (simp add: added_ok_def)

text \<open>A message that adds an index: its context fits the metadata, and its key is new.\<close>

definition context_ok :: "driver \<Rightarrow> add_index_context \<Rightarrow> bool" where
  "context_ok d ctx \<longleftrightarrow>
     metadata_ok (ac_metadata ctx) \<and> ac_key ctx = im_key (ac_metadata ctx) \<and> table_fresh d (ac_key ctx) (ac_table ctx)"

lemma add_index_vs_ok:
  assumes inv: "engine_inv d eg" and w: "world_ok w" and ctx: "context_ok d ctx"
    and new: "\<not> contains_key (eg_indexes eg) (ac_key ctx)"
  shows "added_ok d (ac_key ctx) eg (add_index_vs w ctx eg)"
proof (cases "as_vs (im_kind (ac_metadata ctx))")
  case None
  then show ?thesis using inv by (simp add: add_index_vs_def added_ok_error)
next
  case (Some options)
  let ?cfg = "\<lparr>vc_key = ac_key ctx, vc_dimensions = vs_dimensions options, vc_connectivity = vs_connectivity options,
     vc_expansion_add = vs_expansion_add options, vc_expansion_search = vs_expansion_search options,
     vc_space_type = vs_space_type options, vc_quantization = vs_quantization options\<rparr>"
  show ?thesis
  proof (cases "w_create_vs w ?cfg (ac_db_index ctx)")
    case (Inl e)
    then have "no_panic (Inl e :: (channel \<times> channel) result)" using w by (metis world_ok_def)
    then show ?thesis using inv Inl Some by (simp add: add_index_vs_def added_ok_error no_panic_def)
  next
    case (Inr chs)
    obtain modify search where chs: "chs = (modify, search)" by fastforce
    obtain r eg1 where mon: "monitor_items_new w ctx modify eg = (r, eg1)" by fastforce
    have fresh: "table_fresh d (ac_key ctx) (ac_table ctx)" using ctx unfolding context_ok_def by blast
    note m = monitor_items_new_ok [OF inv w fresh mon]
    show ?thesis
    proof (cases r)
      case (Inl e)
      then show ?thesis
        using m Some Inr chs mon by (simp add: add_index_vs_def added_ok_error no_panic_def)
    next
      case (Inr ch)
      obtain entry where entry: "vs_entry_new search ch (ac_db_index ctx) (ac_metadata ctx)
          (w_table_columns w (ac_db_index ctx)) (w_full_scan_progress w (ac_db_index ctx)) = Ok entry"
        and fields: "ie_monitor entry = ch" "vd_partitioning (ie_data entry) = im_partitioning (ac_metadata ctx)"
        using Some ctx by (auto simp: vs_entry_new_def context_ok_def metadata_ok_def Let_def)
      have cols: "local_columns_ok (ie_data entry)"
        using ctx by (simp add: local_columns_ok_def fields context_ok_def metadata_ok_def)
      have reg: "registry_inv (insert_vs (ac_key ctx) entry (eg_indexes eg1))"
        using inv new m(3) cols by (intro registry_inv_insert_vs) (simp_all add: engine_inv_def)
      have "added_ok d (ac_key ctx) eg (Ok (), eg1\<lparr>eg_indexes := insert_vs (ac_key ctx) entry (eg_indexes eg1)\<rparr>)"
      proof (rule added_okI [OF m(1,3) _ reg])
        show "CHR ''.'' \<in> set (ac_key ctx)" using ctx key_has_dot by (simp add: context_ok_def)
        show "monitored (eg_actors eg1) (vs_entries (insert_vs (ac_key ctx) entry (eg_indexes eg1)))"
          using m(1) m(4) [OF Inr] fields by (simp add: engine_inv_def monitored_upd)
      qed (use m(1,3) in \<open>simp_all add: engine_inv_def\<close>)
      then show ?thesis
        using Some \<open>w_create_vs w ?cfg (ac_db_index ctx) = Inr chs\<close> chs mon Inr entry by (simp add: add_index_vs_def)
    qed
  qed
qed

lemma add_index_fts_ok:
  assumes inv: "engine_inv d eg" and w: "world_ok w" and ctx: "context_ok d ctx"
    and new: "\<not> contains_key (eg_indexes eg) (ac_key ctx)"
  shows "added_ok d (ac_key ctx) eg (add_index_fts w ctx eg)"
proof (cases "as_fts (im_kind (ac_metadata ctx))")
  case None
  then show ?thesis using inv by (simp add: add_index_fts_def added_ok_error)
next
  case (Some options)
  let ?sender = "w_create_fts w \<lparr>fc_key = ac_key ctx, fc_analyzer = fts_analyzer options, fc_positions = fts_positions options\<rparr>"
  obtain r eg1 where mon: "monitor_items_new w ctx ?sender eg = (r, eg1)" by fastforce
  have fresh: "table_fresh d (ac_key ctx) (ac_table ctx)" using ctx unfolding context_ok_def by blast
  note m = monitor_items_new_ok [OF inv w fresh mon]
  show ?thesis
  proof (cases r)
    case (Inl e)
    then show ?thesis using m Some mon by (simp add: add_index_fts_def Let_def added_ok_error no_panic_def)
  next
    case (Inr ch)
    obtain entry where entry: "fts_entry_new (ac_metadata ctx) ?sender ch (ac_db_index ctx)
        (w_full_scan_progress w (ac_db_index ctx)) = Ok entry" and fields: "ie_monitor entry = ch"
      using Some by (auto simp: fts_entry_new_def)
    have reg: "registry_inv (insert_fts (ac_key ctx) entry (eg_indexes eg1))"
      using inv new m(3) by (intro registry_inv_insert_fts) (simp_all add: engine_inv_def)
    have "added_ok d (ac_key ctx) eg (Ok (), eg1\<lparr>eg_indexes := insert_fts (ac_key ctx) entry (eg_indexes eg1)\<rparr>)"
    proof (rule added_okI [OF m(1,3) _ reg])
      show "CHR ''.'' \<in> set (ac_key ctx)" using ctx key_has_dot by (simp add: context_ok_def)
      show "monitored (eg_actors eg1) (fts_entries (insert_fts (ac_key ctx) entry (eg_indexes eg1)))"
        using m(1) m(4) [OF Inr] fields by (simp add: engine_inv_def monitored_upd)
    qed (use m(1,3) in \<open>simp_all add: engine_inv_def\<close>)
    then show ?thesis using Some mon Inr entry by (simp add: add_index_fts_def Let_def)
  qed
qed

lemma add_index_pattern_ok:
  assumes inv: "engine_inv d eg" and w: "world_ok w" and ctx: "context_ok d ctx"
    and new: "\<not> contains_key (eg_indexes eg) (ac_key ctx)"
  shows "added_ok d (ac_key ctx) eg (add_index_pattern w ctx eg)"
proof (cases "as_pattern (im_kind (ac_metadata ctx))")
  case None
  then show ?thesis using inv by (simp add: add_index_pattern_def added_ok_error)
next
  case (Some options)
  let ?sender = "w_create_pattern w (ac_key ctx)"
  obtain r eg1 where mon: "monitor_items_new w ctx ?sender eg = (r, eg1)" by fastforce
  have fresh: "table_fresh d (ac_key ctx) (ac_table ctx)" using ctx unfolding context_ok_def by blast
  note m = monitor_items_new_ok [OF inv w fresh mon]
  show ?thesis
  proof (cases r)
    case (Inl e)
    then show ?thesis using m Some mon by (simp add: add_index_pattern_def Let_def added_ok_error no_panic_def)
  next
    case (Inr ch)
    obtain entry where entry: "pattern_entry_new (ac_metadata ctx) ?sender ch (ac_db_index ctx)
        (w_full_scan_progress w (ac_db_index ctx)) = Ok entry" and fields: "ie_monitor entry = ch"
      using Some by (auto simp: pattern_entry_new_def)
    have reg: "registry_inv (insert_pattern (ac_key ctx) entry (eg_indexes eg1))"
      using inv new m(3) by (intro registry_inv_insert_pattern) (simp_all add: engine_inv_def)
    have "added_ok d (ac_key ctx) eg (Ok (), eg1\<lparr>eg_indexes := insert_pattern (ac_key ctx) entry (eg_indexes eg1)\<rparr>)"
    proof (rule added_okI [OF m(1,3) _ reg])
      show "CHR ''.'' \<in> set (ac_key ctx)" using ctx key_has_dot by (simp add: context_ok_def)
      show "monitored (eg_actors eg1) (pattern_entries (insert_pattern (ac_key ctx) entry (eg_indexes eg1)))"
        using m(1) m(4) [OF Inr] fields by (simp add: engine_inv_def monitored_upd)
    qed (use m(1,3) in \<open>simp_all add: engine_inv_def\<close>)
    then show ?thesis using Some mon Inr entry by (simp add: add_index_pattern_def Let_def)
  qed
qed

lemma add_index_ok:
  assumes inv: "engine_inv d eg" and w: "world_ok w" and m: "metadata_ok m"
  shows "added_ok d (im_key m) eg (add_index w m eg)"
proof (cases "contains_key (eg_indexes eg) (im_key m)")
  case True
  then show ?thesis using inv by (auto simp: add_index_def Let_def added_ok_def)
next
  case new: False
  show ?thesis
  proof (cases "w_get_db_index w m")
    case (Inl e)
    then have "no_panic (Inl e :: (channel \<times> channel) result)" using w by (metis world_ok_def)
    then show ?thesis using inv new Inl by (simp add: add_index_def Let_def added_ok_error no_panic_def)
  next
    case (Inr chs)
    obtain db_index stream where chs: "chs = (db_index, stream)" by fastforce
    show ?thesis
    proof (cases "build_table (im_key m) m (w_table_columns w db_index)")
      case (Inl e)
      have "no_panic (Inl e :: table result)" using build_table_ok(1) [OF m] Inl by metis
      then show ?thesis
        using inv new Inr chs Inl by (simp add: add_index_def Let_def added_ok_error no_panic_def)
    next
      case (Inr t)
      define ctx where "ctx = \<lparr>ac_key = im_key m, ac_table = t, ac_embeddings_stream = stream,
                             ac_db_index = db_index, ac_metadata = m\<rparr>"
      have ctx: "context_ok d ctx" and key: "ac_key ctx = im_key m"
        using m build_table_ok(2) [OF m Inr] by (simp_all add: ctx_def context_ok_def)
      have "add_index w m eg = (case im_kind m of Vs _ \<Rightarrow> add_index_vs w ctx eg | Fts _ \<Rightarrow> add_index_fts w ctx eg
          | Pattern \<Rightarrow> add_index_pattern w ctx eg)"
        using new \<open>w_get_db_index w m = Inr chs\<close> chs Inr
        by (cases "im_kind m") (simp_all add: add_index_def Let_def ctx_def)
      then show ?thesis
        using add_index_vs_ok [OF inv w ctx] add_index_fts_ok [OF inv w ctx] add_index_pattern_ok [OF inv w ctx] new key
        by (cases "im_kind m") simp_all
    qed
  qed
qed

section \<open>DelIndex\<close>

lemma registry_remove_entries:
  "vs_entries (snd (registry_remove key ixs)) k = Some v \<Longrightarrow> vs_entries ixs k = Some v"
  "fts_entries (snd (registry_remove key ixs)) k = Some f \<Longrightarrow> fts_entries ixs k = Some f"
  "pattern_entries (snd (registry_remove key ixs)) k = Some p \<Longrightarrow> pattern_entries ixs k = Some p"
  by (auto simp: registry_remove_def split: option.splits if_splits)

lemma monitored_sub: "monitored actors entries \<Longrightarrow> (\<And>k e. entries' k = Some e \<Longrightarrow> entries k = Some e) \<Longrightarrow> monitored actors entries'"
  by (simp add: monitored_def)

lemma del_index_ok:
  assumes inv: "engine_inv d eg"
  obtains eg' where "del_index key eg = (Ok (), eg')" and "engine_inv d eg'"
    and "\<And>k. contains_key (eg_indexes eg') k \<longleftrightarrow> k \<noteq> key \<and> contains_key (eg_indexes eg) k"
    and "eg_actors eg' = eg_actors eg"
proof -
  have reg: "registry_inv (eg_indexes eg)" using inv by (simp add: engine_inv_def)
  obtain removed ixs where run: "registry_remove key (eg_indexes eg) = (removed, ixs)" by fastforce
  have removed: "removed = contains_key (eg_indexes eg) key"
    and keys: "\<And>k. contains_key ixs k \<longleftrightarrow> k \<noteq> key \<and> contains_key (eg_indexes eg) k"
    using contains_key_remove [OF reg, of key] run by simp_all
  note entries = registry_remove_entries [of key "eg_indexes eg", unfolded run snd_conv]
  have inv1: "engine_inv d (eg\<lparr>eg_indexes := ixs\<rparr>)"
  proof (rule engine_inv_indexes [OF inv])
    show "registry_inv ixs" using registry_inv_remove [OF reg, of key] run by simp
    show "CHR ''.'' \<in> set k" if "contains_key ixs k" for k using that keys inv by (simp add: engine_inv_def)
    show "monitored (eg_actors eg) (vs_entries ixs)" "monitored (eg_actors eg) (fts_entries ixs)"
      "monitored (eg_actors eg) (pattern_entries ixs)"
      using inv by (auto simp: engine_inv_def dest: entries intro: monitored_sub)
  qed
  show thesis
  proof (cases removed)
    case False
    then show ?thesis
      using that [of "eg\<lparr>eg_indexes := ixs\<rparr>"] inv1 keys run by (simp add: del_index_def Let_def)
  next
    case True
    then have "CHR ''.'' \<in> set key" using removed inv by (simp add: engine_inv_def)
    then obtain ks ix where "index_key_keyspace key = Ok ks" "index_key_index key = Ok ix" by (rule dotted_key)
    moreover have "engine_inv d (eg\<lparr>eg_indexes := ixs, eg_removed_labels := l\<rparr>)" for l
      using inv1 by (simp add: engine_inv_def)
    ultimately show ?thesis
      using that [of "eg\<lparr>eg_indexes := ixs, eg_removed_labels := eg_removed_labels eg @ [(ks, ix)]\<rparr>"] keys run True
      by (simp add: del_index_def Let_def)
  qed
qed

section \<open>The tick\<close>

text \<open>Writing a status and a progress changes nothing else of an entry.\<close>

definition entry_kept :: "(index_key \<Rightarrow> 'data index_entry option) \<Rightarrow> (index_key \<Rightarrow> 'data index_entry option) \<Rightarrow> bool" where
  "entry_kept entries entries' \<longleftrightarrow>
     (\<forall>k. map_option (set_entry Done IndexInitializing) (entries' k) = map_option (set_entry Done IndexInitializing) (entries k))"

lemma entry_kept_refl [simp]: "entry_kept entries entries"
  by (simp add: entry_kept_def)

lemma entry_kept_set:
  "entry_kept entries entries' \<Longrightarrow> entries' k = Some e \<Longrightarrow> entry_kept entries (entries'(k \<mapsto> set_entry p st e))"
proof -
  assume kept: "entry_kept entries entries'" and k: "entries' k = Some e"
  have "map_option (set_entry Done IndexInitializing) (entries' k) = map_option (set_entry Done IndexInitializing) (entries k)"
    using kept by (simp add: entry_kept_def)
  then show ?thesis
    using kept k by (simp add: entry_kept_def) (simp add: set_entry_def)
qed

lemma entry_kept_at:
  assumes "entry_kept entries entries'"
  shows "entries' k = None \<longleftrightarrow> entries k = None"
    and "entries' k = Some e' \<Longrightarrow> \<exists>e. entries k = Some e \<and> ie_monitor e' = ie_monitor e \<and> ie_data e' = ie_data e"
proof -
  have k: "map_option (set_entry Done IndexInitializing) (entries' k) = map_option (set_entry Done IndexInitializing) (entries k)"
    using assms by (simp add: entry_kept_def)
  then show "entries' k = None \<longleftrightarrow> entries k = None"
    by (cases "entries' k"; cases "entries k") simp_all
  show "\<exists>e. entries k = Some e \<and> ie_monitor e' = ie_monitor e \<and> ie_data e' = ie_data e" if e': "entries' k = Some e'"
  proof (cases "entries k")
    case (Some e)
    then have "set_entry Done IndexInitializing e' = set_entry Done IndexInitializing e" using k e' by simp
    then have "ie_monitor (set_entry Done IndexInitializing e') = ie_monitor (set_entry Done IndexInitializing e)"
      and "ie_data (set_entry Done IndexInitializing e') = ie_data (set_entry Done IndexInitializing e)" by simp_all
    then show ?thesis using Some by (simp add: set_entry_def)
  qed (use k e' in simp)
qed

lemma entry_kept_dom: "entry_kept entries entries' \<Longrightarrow> dom entries' = dom entries"
  using entry_kept_at(1) [of entries entries'] by (auto simp: dom_def)

definition registry_kept :: "indexes \<Rightarrow> indexes \<Rightarrow> bool" where
  "registry_kept ixs ixs' \<longleftrightarrow>
     vs_routing ixs' = vs_routing ixs \<and> entry_kept (vs_entries ixs) (vs_entries ixs') \<and>
     entry_kept (fts_entries ixs) (fts_entries ixs') \<and> entry_kept (pattern_entries ixs) (pattern_entries ixs')"

lemma write_entry_kept: "registry_kept ixs ixs' \<Longrightarrow> registry_kept ixs (write_entry key p st ixs')"
  by (auto simp: registry_kept_def write_entry_def entry_kept_set split: option.split)

lemma monitored_kept: "monitored actors entries \<Longrightarrow> entry_kept entries entries' \<Longrightarrow> monitored actors entries'"
  unfolding monitored_def using entry_kept_at(2) by metis

lemma registry_kept_inv:
  assumes "registry_inv ixs" and kept: "registry_kept ixs ixs'"
  shows "registry_inv ixs'"
proof -
  note vs = entry_kept_at [of "vs_entries ixs" "vs_entries ixs'"]
  have v: "entry_kept (vs_entries ixs) (vs_entries ixs')" using kept by (simp add: registry_kept_def)
  have groups: "map_option (\<lambda>e. vd_routing_group (ie_data e)) (vs_entries ixs' k) =
      map_option (\<lambda>e. vd_routing_group (ie_data e)) (vs_entries ixs k)" for k
    using vs(1) [OF v, of k] vs(2) [OF v, of k] by (cases "vs_entries ixs' k") auto
  have "dom (vs_entries ixs') = dom (vs_entries ixs)" "dom (fts_entries ixs') = dom (fts_entries ixs)"
    "dom (pattern_entries ixs') = dom (pattern_entries ixs)"
    using kept by (simp_all add: registry_kept_def entry_kept_dom)
  moreover have "local_columns_ok (ie_data e)" if "vs_entries ixs' k = Some e" for k e
    using vs(2) [OF v that] assms(1) by (auto simp: registry_inv_def)
  moreover have "routing_inv ixs' = routing_inv ixs"
    using kept groups by (intro routing_inv_cong) (simp_all add: registry_kept_def group_keys_def)
  ultimately show ?thesis using assms(1) by (simp add: registry_inv_def)
qed

lemma contains_key_kept: "registry_kept ixs ixs' \<Longrightarrow> contains_key ixs' k = contains_key ixs k"
  using entry_kept_at(1) unfolding registry_kept_def contains_key_def by metis

text \<open>The tick runs through for entries whose keys have a dot, in any order.\<close>

lemma update_each_kept:
  assumes "\<forall>(key, rest)\<in>set acts. CHR ''.'' \<in> set key" and "registry_kept ixs ixs1"
  shows "\<exists>ixs2. update_each w acts ixs1 = Ok ixs2 \<and> registry_kept ixs ixs2"
  using assms
proof (induction acts arbitrary: ixs1)
  case (Cons act acts)
  obtain key db_index progress st where act: "act = (key, db_index, progress, st)" by (metis prod_cases4)
  have "CHR ''.'' \<in> set key" using Cons.prems(1) act by simp
  then obtain ks ix where key: "index_key_keyspace key = Ok ks" "index_key_index key = Ok ix" by (rule dotted_key)
  have dots: "\<forall>(key, rest)\<in>set acts. CHR ''.'' \<in> set key" using Cons.prems(1) by simp
  show ?case
    using key Cons.IH [OF dots] write_entry_kept Cons.prems(2)
    by (auto simp: act Let_def split: option.split)
qed simp

lemma actual_of_keys: "(key, rest) \<in> set (actual_of entries keys) \<Longrightarrow> entries key \<noteq> None"
  by (auto simp: actual_of_def map_filter_def split: if_splits)

lemma actual_indexes_keys:
  assumes "(key, rest) \<in> set (actual_indexes orders ixs)"
  shows "contains_key ixs key"
proof -
  obtain vs_keys fts_keys pattern_keys where "orders = (vs_keys, fts_keys, pattern_keys)" by (cases orders)
  then show ?thesis
    using assms by (auto simp: actual_indexes_def contains_key_def dest!: actual_of_keys)
qed

lemma engine_update_indexes_ok:
  assumes inv: "engine_inv d eg"
  obtains ixs where "engine_update_indexes w orders eg = (Ok (), eg\<lparr>eg_indexes := ixs\<rparr>)"
    and "engine_inv d (eg\<lparr>eg_indexes := ixs\<rparr>)" and "registry_kept (eg_indexes eg) ixs"
proof -
  have dots: "\<forall>(key, rest)\<in>set (actual_indexes orders (eg_indexes eg)). CHR ''.'' \<in> set key"
    using inv actual_indexes_keys by (fastforce simp: engine_inv_def)
  have "registry_kept (eg_indexes eg) (eg_indexes eg)" by (simp add: registry_kept_def)
  from update_each_kept [OF dots this]
  obtain ixs where ixs: "update_each w (actual_indexes orders (eg_indexes eg)) (eg_indexes eg) = Ok ixs"
    and kept: "registry_kept (eg_indexes eg) ixs" by blast
  have "engine_inv d (eg\<lparr>eg_indexes := ixs\<rparr>)"
    using inv kept contains_key_kept [OF kept] registry_kept_inv [OF _ kept]
    by (intro engine_inv_indexes [OF inv]) (auto simp: engine_inv_def registry_kept_def intro: monitored_kept)
  then show thesis
    using that [of ixs] ixs kept by (simp add: engine_update_indexes_def)
qed

text \<open>
  What a tick is to do: every entry takes the status its key has in the node, and then also the
  progress of its database index; an entry whose key the node does not know is left alone.
\<close>

definition status_of :: "engine_world \<Rightarrow> index_key \<Rightarrow> index_status option" where
  "status_of w key = (case split_once CHR ''.'' key of None \<Rightarrow> None | Some (ks, ix) \<Rightarrow> w_index_status w ks ix)"

definition refreshed :: "engine_world \<Rightarrow> index_key \<Rightarrow> 'data index_entry \<Rightarrow> 'data index_entry" where
  "refreshed w key e =
     (case status_of w key of None \<Rightarrow> e | Some st \<Rightarrow> set_entry (w_full_scan_progress w (ie_db_index e)) st e)"

definition refreshed_on ::
  "engine_world \<Rightarrow> index_key set \<Rightarrow> (index_key \<Rightarrow> 'data index_entry option) \<Rightarrow> (index_key \<Rightarrow> 'data index_entry option) \<Rightarrow> bool" where
  "refreshed_on w K entries entries' \<longleftrightarrow>
     (\<forall>k. entries' k = (if k \<in> K then map_option (refreshed w k) (entries k) else entries k))"

definition refresh_all :: "engine_world \<Rightarrow> index_key set \<Rightarrow> indexes \<Rightarrow> indexes \<Rightarrow> bool" where
  "refresh_all w K ixs ixs' \<longleftrightarrow>
     vs_routing ixs' = vs_routing ixs \<and> refreshed_on w K (vs_entries ixs) (vs_entries ixs') \<and>
     refreshed_on w K (fts_entries ixs) (fts_entries ixs') \<and> refreshed_on w K (pattern_entries ixs) (pattern_entries ixs')"

definition disjoint_entries :: "indexes \<Rightarrow> bool" where
  "disjoint_entries ixs \<longleftrightarrow>
     dom (vs_entries ixs) \<inter> dom (fts_entries ixs) = {} \<and> dom (vs_entries ixs) \<inter> dom (pattern_entries ixs) = {} \<and>
     dom (fts_entries ixs) \<inter> dom (pattern_entries ixs) = {}"

definition entry_facts :: "'data index_entry \<Rightarrow> channel \<times> progress \<times> index_status" where
  "entry_facts e = (ie_db_index e, ie_progress e, ie_status e)"

definition described :: "indexes \<Rightarrow> index_key \<Rightarrow> (channel \<times> progress \<times> index_status) option" where
  "described ixs k =
     (case vs_entries ixs k of
        Some e \<Rightarrow> Some (entry_facts e)
      | None \<Rightarrow> (case fts_entries ixs k of
                  Some e \<Rightarrow> Some (entry_facts e)
                | None \<Rightarrow> map_option entry_facts (pattern_entries ixs k)))"

lemma registry_disjoint: "registry_inv ixs \<Longrightarrow> disjoint_entries ixs"
  by (simp add: registry_inv_def disjoint_entries_def)

lemma set_entry_same: "ie_progress e = p \<Longrightarrow> ie_status e = st \<Longrightarrow> set_entry p st e = e"
  by (cases e) (simp add: set_entry_def)

lemma refreshed_on_none: "refreshed_on w {} entries entries"
  by (simp add: refreshed_on_def)

lemma refreshed_on_absent: "entries key = None \<Longrightarrow> refreshed_on w {key} entries entries"
  by (simp add: refreshed_on_def)

lemma refreshed_on_step:
  assumes "entries key = Some e" and "entry_facts e = (db_index, progress, st)" and "status_of w key = Some new"
    and "new_progress = w_full_scan_progress w db_index"
  shows "refreshed_on w {key} entries
     (if new_progress \<noteq> progress \<or> new \<noteq> st then entries(key \<mapsto> set_entry new_progress new e) else entries)"
  using assms set_entry_same [of e progress st]
  by (auto simp: refreshed_on_def refreshed_def entry_facts_def)

lemma refreshed_on_unknown: "status_of w key = None \<Longrightarrow> refreshed_on w {key} entries entries"
  by (auto simp: refreshed_on_def refreshed_def map_option_case split: option.split)

lemma refreshed_on_compose:
  "refreshed_on w {key} a b \<Longrightarrow> refreshed_on w K b c \<Longrightarrow> key \<notin> K \<Longrightarrow> refreshed_on w (insert key K) a c"
  by (simp add: refreshed_on_def)

lemma refreshed_on_dom: "refreshed_on w K a b \<Longrightarrow> dom b = dom a"
  by (auto simp: refreshed_on_def dom_def)

lemma refresh_step:
  assumes dis: "disjoint_entries ixs" and facts: "described ixs key = Some (db_index, progress, st)"
    and status: "status_of w key = Some new" and p: "new_progress = w_full_scan_progress w db_index"
  shows "refresh_all w {key} ixs (if new_progress \<noteq> progress \<or> new \<noteq> st then write_entry key new_progress new ixs else ixs)"
proof -
  have dis_k: "vs_entries ixs key = None \<or> fts_entries ixs key = None"
    "vs_entries ixs key = None \<or> pattern_entries ixs key = None"
    "fts_entries ixs key = None \<or> pattern_entries ixs key = None"
    using dis unfolding disjoint_entries_def by blast+
  consider (vs) e where "vs_entries ixs key = Some e" "fts_entries ixs key = None" "pattern_entries ixs key = None"
    | (fts) e where "vs_entries ixs key = None" "fts_entries ixs key = Some e" "pattern_entries ixs key = None"
    | (pattern) e where "vs_entries ixs key = None" "fts_entries ixs key = None" "pattern_entries ixs key = Some e"
    using facts dis_k by (auto simp: described_def split: option.splits)
  then show ?thesis
  proof cases
    case vs
    then show ?thesis
      using facts refreshed_on_step [of "vs_entries ixs" key e db_index progress st, OF vs(1) _ status p]
      by (cases "new_progress \<noteq> progress \<or> new \<noteq> st") (simp_all add: refresh_all_def described_def write_entry_def refreshed_on_absent)
  next
    case fts
    then show ?thesis
      using facts refreshed_on_step [of "fts_entries ixs" key e db_index progress st, OF fts(2) _ status p]
      by (cases "new_progress \<noteq> progress \<or> new \<noteq> st") (simp_all add: refresh_all_def described_def write_entry_def refreshed_on_absent)
  next
    case pattern
    then show ?thesis
      using facts refreshed_on_step [of "pattern_entries ixs" key e db_index progress st, OF pattern(3) _ status p]
      by (cases "new_progress \<noteq> progress \<or> new \<noteq> st") (simp_all add: refresh_all_def described_def write_entry_def refreshed_on_absent)
  qed
qed

lemma refresh_all_compose:
  "refresh_all w {key} a b \<Longrightarrow> refresh_all w K b c \<Longrightarrow> key \<notin> K \<Longrightarrow> refresh_all w (insert key K) a c"
  by (auto simp: refresh_all_def intro: refreshed_on_compose)

lemma refresh_all_disjoint: "refresh_all w K a b \<Longrightarrow> disjoint_entries a \<Longrightarrow> disjoint_entries b"
proof -
  assume all: "refresh_all w K a b" and dis: "disjoint_entries a"
  have "dom (vs_entries b) = dom (vs_entries a)" and "dom (fts_entries b) = dom (fts_entries a)"
    and "dom (pattern_entries b) = dom (pattern_entries a)"
    using all by (simp_all add: refresh_all_def refreshed_on_dom [of w K])
  then show ?thesis using dis by (simp add: disjoint_entries_def)
qed

lemma refresh_all_described:
  assumes "refresh_all w {key} a b" and "k \<noteq> key"
  shows "described b k = described a k"
proof -
  have "vs_entries b k = vs_entries a k" "fts_entries b k = fts_entries a k" "pattern_entries b k = pattern_entries a k"
    using assms by (simp_all add: refresh_all_def refreshed_on_def)
  then show ?thesis by (simp add: described_def split: option.split)
qed

lemma dotted_status:
  assumes "CHR ''.'' \<in> set key"
  obtains ks ix where "index_key_keyspace key = Ok ks" and "index_key_index key = Ok ix"
    and "status_of w key = w_index_status w ks ix" and "key = index_key_new ks ix"
proof -
  obtain ks ix where key: "key = ks @ CHR ''.'' # ix" and "CHR ''.'' \<notin> set ks"
    using split_list_first [OF assms] by blast
  then have "split_once CHR ''.'' key = Some (ks, ix)" by (simp add: split_once_append)
  with key show thesis
    by (intro that [of ks ix]) (simp_all add: index_key_keyspace_def index_key_index_def status_of_def index_key_new_def)
qed

lemma update_each_refreshes:
  assumes "disjoint_entries ixs" and "distinct (map fst acts)"
    and "\<forall>(key, facts)\<in>set acts. CHR ''.'' \<in> set key \<and> described ixs key = Some facts"
  shows "\<exists>ixs'. update_each w acts ixs = Ok ixs' \<and> refresh_all w (fst ` set acts) ixs ixs'"
  using assms
proof (induction acts arbitrary: ixs)
  case Nil
  then show ?case by (simp add: refresh_all_def refreshed_on_none)
next
  case (Cons act acts)
  obtain key db_index progress st where act: "act = (key, db_index, progress, st)" by (metis prod_cases4)
  have dot: "CHR ''.'' \<in> set key" and facts: "described ixs key = Some (db_index, progress, st)"
    using Cons.prems(3) act by simp_all
  obtain ks ix where key: "index_key_keyspace key = Ok ks" "index_key_index key = Ok ix"
    and status: "status_of w key = w_index_status w ks ix"
    using dotted_status [OF dot, of w] by blast
  have new: "key \<notin> fst ` set acts" and dist: "distinct (map fst acts)"
    using Cons.prems(2) act by simp_all
  have rest: "\<exists>ixs'. update_each w acts ixs1 = Ok ixs' \<and> refresh_all w (insert key (fst ` set acts)) ixs ixs'"
    if one: "refresh_all w {key} ixs ixs1" for ixs1
  proof -
    have "CHR ''.'' \<in> set k \<and> described ixs1 k = Some facts" if mem: "(k, facts) \<in> set acts" for k facts
    proof -
      have "k \<noteq> key" using new image_eqI [of k fst "(k, facts)" "set acts"] mem by auto
      then show ?thesis
        using Cons.prems(3) mem refresh_all_described [OF one] by auto
    qed
    then have "\<forall>(k, facts)\<in>set acts. CHR ''.'' \<in> set k \<and> described ixs1 k = Some facts" by blast
    from Cons.IH [OF refresh_all_disjoint [OF one Cons.prems(1)] dist this]
    show ?thesis using refresh_all_compose [OF one _ new] by blast
  qed
  show ?case
  proof (cases "w_index_status w ks ix")
    case None
    then have "refresh_all w {key} ixs ixs"
      using status by (simp add: refresh_all_def refreshed_on_unknown)
    from rest [OF this] show ?thesis using key None by (simp add: act)
  next
    case (Some new)
    have "status_of w key = Some new" using status Some by simp
    from rest [OF refresh_step [OF Cons.prems(1) facts this refl]] show ?thesis
      using key Some by (simp add: act Let_def)
  qed
qed

text \<open>The hash maps iterate over all their keys, each once.\<close>

definition orders_ok :: "key_orders \<Rightarrow> indexes \<Rightarrow> bool" where
  "orders_ok orders ixs =
     (case orders of (vs_keys, fts_keys, pattern_keys) \<Rightarrow>
        distinct vs_keys \<and> set vs_keys = dom (vs_entries ixs) \<and> distinct fts_keys \<and> set fts_keys = dom (fts_entries ixs) \<and>
        distinct pattern_keys \<and> set pattern_keys = dom (pattern_entries ixs))"

lemma actual_of_all:
  assumes "set keys = dom entries"
  shows "actual_of entries keys = map (\<lambda>k. (k, entry_facts (the (entries k)))) keys"
  using assms
proof -
  have "List.map_filter (\<lambda>key. map_option (\<lambda>e. (key, ie_db_index e, ie_progress e, ie_status e)) (entries key)) ks =
      map (\<lambda>k. (k, entry_facts (the (entries k)))) ks" if "set ks \<subseteq> dom entries" for ks
    using that by (induction ks) (auto simp: List.map_filter_simps entry_facts_def)
  then show ?thesis using assms by (simp add: actual_of_def)
qed

lemma actual_indexes_all:
  assumes "orders_ok orders ixs" and "disjoint_entries ixs"
  shows "distinct (map fst (actual_indexes orders ixs))" and "fst ` set (actual_indexes orders ixs) = {k. contains_key ixs k}"
    and "(key, facts) \<in> set (actual_indexes orders ixs) \<Longrightarrow> described ixs key = Some facts"
proof -
  obtain vs_keys fts_keys pattern_keys where o: "orders = (vs_keys, fts_keys, pattern_keys)" by (cases orders)
  have sets: "set vs_keys = dom (vs_entries ixs)" "set fts_keys = dom (fts_entries ixs)"
    "set pattern_keys = dom (pattern_entries ixs)"
    and dist: "distinct vs_keys" "distinct fts_keys" "distinct pattern_keys"
    using assms(1) by (simp_all add: orders_ok_def o)
  note all = actual_indexes_def [of orders ixs, unfolded o prod.case actual_of_all [OF sets(1)]
      actual_of_all [OF sets(2)] actual_of_all [OF sets(3)], folded o]
  have dis: "dom (vs_entries ixs) \<inter> dom (fts_entries ixs) = {}" "dom (vs_entries ixs) \<inter> dom (pattern_entries ixs) = {}"
    "dom (fts_entries ixs) \<inter> dom (pattern_entries ixs) = {}"
    using assms(2) by (simp_all add: disjoint_entries_def)
  have names: "map fst (actual_indexes orders ixs) = vs_keys @ fts_keys @ pattern_keys"
    by (simp add: all comp_def)
  show "distinct (map fst (actual_indexes orders ixs))"
    unfolding names using dist sets dis by auto
  have "fst ` set (actual_indexes orders ixs) = set (map fst (actual_indexes orders ixs))" by simp
  then show "fst ` set (actual_indexes orders ixs) = {k. contains_key ixs k}"
    unfolding names by (auto simp: sets contains_key_def)
  show "described ixs key = Some facts" if "(key, facts) \<in> set (actual_indexes orders ixs)"
    using that sets dis by (auto simp: all described_def split: option.splits)
qed

section \<open>Runs\<close>

lemma engine_step_ok:
  assumes inv: "engine_inv d eg" and w: "world_ok w" and msg: "msg_ok msg"
  obtains reply eg' where "engine_step w msg eg = (Ok reply, eg')" and "engine_inv d eg'"
proof (cases msg)
  case (AddIndexMsg m)
  obtain r eg' where run: "add_index w m eg = (r, eg')" by fastforce
  have "added_ok d (im_key m) eg (r, eg')"
    using add_index_ok [OF inv w, of m] msg AddIndexMsg run by simp
  then have "engine_inv d eg'" and "no_panic r" by (simp_all add: added_ok_def)
  moreover have "engine_step w msg eg = (Ok (AddIndexR r), eg')"
    using run AddIndexMsg \<open>no_panic r\<close> by (cases r) (auto simp: no_panic_def split: error.split)
  ultimately show thesis by (intro that)
next
  case (DelIndexMsg key)
  obtain eg' where "del_index key eg = (Ok (), eg')" "engine_inv d eg'"
    using del_index_ok [OF inv] .
  then show thesis using that [of NoReply eg'] DelIndexMsg by simp
next
  case (EngineTick orders)
  obtain ixs where "engine_update_indexes w orders eg = (Ok (), eg\<lparr>eg_indexes := ixs\<rparr>)"
    and "engine_inv d (eg\<lparr>eg_indexes := ixs\<rparr>)"
    using engine_update_indexes_ok [OF inv] .
  then show thesis using that [of NoReply] EngineTick by simp
qed (use that inv in simp_all)

lemma engine_run_ok:
  assumes "engine_inv d eg" and "list_all (\<lambda>(w, msg). world_ok w \<and> msg_ok msg) msgs"
  shows "case engine_run msgs eg of (r, eg') \<Rightarrow> is_ok r \<and> engine_inv d eg'"
  using assms
proof (induction msgs arbitrary: eg)
  case (Cons x msgs)
  obtain w msg where x: "x = (w, msg)" by fastforce
  obtain reply eg1 where step: "engine_step w msg eg = (Ok reply, eg1)" "engine_inv d eg1"
    using engine_step_ok [of d eg w msg] Cons.prems x by auto
  then show ?case
    using Cons.IH [OF step(2)] Cons.prems(2) by (auto simp: x result_simps split: prod.splits sum.splits)
qed simp

lemma tick_refreshes:
  assumes "engine_inv d eg" and "orders_ok orders (eg_indexes eg)"
  shows "case engine_update_indexes w orders eg of (r, eg') \<Rightarrow>
    r = Ok () \<and> eg' = eg\<lparr>eg_indexes := eg_indexes eg'\<rparr> \<and> vs_routing (eg_indexes eg') = vs_routing (eg_indexes eg) \<and>
    (\<forall>k. vs_entries (eg_indexes eg') k = map_option (refreshed w k) (vs_entries (eg_indexes eg) k) \<and>
       fts_entries (eg_indexes eg') k = map_option (refreshed w k) (fts_entries (eg_indexes eg) k) \<and>
       pattern_entries (eg_indexes eg') k = map_option (refreshed w k) (pattern_entries (eg_indexes eg) k))"
proof -
  let ?ixs = "eg_indexes eg"
  have dis: "disjoint_entries ?ixs" and dot: "\<And>k. contains_key ?ixs k \<Longrightarrow> CHR ''.'' \<in> set k"
    using assms(1) by (simp_all add: engine_inv_def registry_disjoint)
  note acts = actual_indexes_all [OF assms(2) dis]
  have "\<forall>(key, facts)\<in>set (actual_indexes orders ?ixs). CHR ''.'' \<in> set key \<and> described ?ixs key = Some facts"
    using acts(3) dot actual_indexes_keys by blast
  from update_each_refreshes [OF dis acts(1) this, of w]
  obtain ixs where ixs: "update_each w (actual_indexes orders ?ixs) ?ixs = Ok ixs"
    "refresh_all w {k. contains_key ?ixs k} ?ixs ixs"
    unfolding acts(2) by blast
  have "vs_entries ixs k = map_option (refreshed w k) (vs_entries ?ixs k)"
    "fts_entries ixs k = map_option (refreshed w k) (fts_entries ?ixs k)"
    "pattern_entries ixs k = map_option (refreshed w k) (pattern_entries ?ixs k)" for k
    using ixs(2) by (auto simp: refresh_all_def refreshed_on_def contains_key_def)
  moreover have "vs_routing ixs = vs_routing ?ixs" using ixs(2) by (simp add: refresh_all_def)
  ultimately show ?thesis using ixs(1) by (simp add: engine_update_indexes_def)
qed

section \<open>Properties\<close>

text \<open>
  C21: the engine is safe over every history. Whatever indexes are added, deleted, asked for and
  refreshed, and whatever errors the database and the factories answer with, no message makes
  the engine panic; the registry stays consistent (an index is in one of the three maps, every
  routing group lists exactly its indexes) and every index in it has a monitor that was started
  for its key, on a table that satisfies the invariant and holds no row yet.
\<close>

theorem engine_run_safe:
  assumes "list_all (\<lambda>(w, msg). world_ok w \<and> msg_ok msg) msgs"
  shows "case engine_run msgs engine_new of (r, eg) \<Rightarrow> is_ok r \<and> engine_inv d eg"
  using engine_inv_new assms by (rule engine_run_ok)

text \<open>
  The answer to \<open>add_index\<close> tells what happened. It is \<open>Ok\<close> exactly when the index is in the
  registry afterwards; an error leaves the registry as it was, and no other index is affected.
  If an index with the key already exists, the answer is \<open>Ok\<close> and nothing changes, also when
  the metadata differ.
\<close>

theorem add_index_answer:
  assumes "engine_inv d eg" and "world_ok w" and "metadata_ok m"
  shows "case add_index w m eg of (r, eg') \<Rightarrow>
    (is_ok r \<longleftrightarrow> contains_key (eg_indexes eg') (im_key m)) \<and>
    (\<not> is_ok r \<longrightarrow> eg_indexes eg' = eg_indexes eg) \<and>
    (\<forall>key. key \<noteq> im_key m \<longrightarrow> contains_key (eg_indexes eg') key = contains_key (eg_indexes eg) key) \<and>
    (contains_key (eg_indexes eg) (im_key m) \<longrightarrow> r = Ok () \<and> eg' = eg)"
proof -
  obtain r eg' where run: "add_index w m eg = (r, eg')" by fastforce
  have ok: "if is_ok r then \<forall>k. contains_key (eg_indexes eg') k \<longleftrightarrow> k = im_key m \<or> contains_key (eg_indexes eg) k
      else eg_indexes eg' = eg_indexes eg"
    using add_index_ok [OF assms] unfolding run added_ok_def fst_conv snd_conv by blast
  have dup: "r = Ok () \<and> eg' = eg" if "contains_key (eg_indexes eg) (im_key m)"
    using that run by (simp add: add_index_def)
  then have "is_ok r" if "contains_key (eg_indexes eg) (im_key m)" using that by simp
  then show ?thesis using ok dup by (auto simp: run split: if_splits)
qed

text \<open>
  A tick of the engine brings the registry up to date. When the hash maps iterate over their
  keys once each, in any order, every index afterwards has the status its key has in the node
  and the full-scan progress of its database index, unless the node does not know the key, in
  which case it keeps both; the tick does not panic and changes nothing else.
\<close>

theorem engine_tick_refreshes:
  assumes "engine_inv d eg" and "orders_ok orders (eg_indexes eg)"
  shows "case engine_update_indexes w orders eg of (r, eg') \<Rightarrow>
    r = Ok () \<and> eg' = eg\<lparr>eg_indexes := eg_indexes eg'\<rparr> \<and> vs_routing (eg_indexes eg') = vs_routing (eg_indexes eg) \<and>
    (\<forall>k. vs_entries (eg_indexes eg') k = map_option (refreshed w k) (vs_entries (eg_indexes eg) k) \<and>
       fts_entries (eg_indexes eg') k = map_option (refreshed w k) (fts_entries (eg_indexes eg) k) \<and>
       pattern_entries (eg_indexes eg') k = map_option (refreshed w k) (pattern_entries (eg_indexes eg) k))"
  using assms by (rule tick_refreshes)

section \<open>Witnesses\<close>

definition example_world :: engine_world where
  "example_world =
     \<lparr>w_get_db_index = (\<lambda>_. Ok (1, 2)), w_table_columns = (\<lambda>_ _. None), w_full_scan_progress = (\<lambda>_. Done),
      w_create_vs = (\<lambda>_ _. Err (Bail ''out of memory'')), w_create_fts = (\<lambda>_. 3), w_create_pattern = (\<lambda>_. 4),
      w_monitor_items = (\<lambda>_. Ok 5), w_index_status = (\<lambda>_ _. Some IndexServing)\<rparr>"

lemma example_world_ok: "world_ok example_world"
  by (simp add: world_ok_def example_world_def)

lemma example_metadata_ok: "metadata_ok example_metadata" "im_key example_metadata = ''ks.idx''"
  by (simp_all add: metadata_ok_def example_metadata_def im_key_def index_key_new_def)

theorem engine_run_safe_witness:
  "case engine_run [(example_world, AddIndexMsg example_metadata), (example_world, EngineTick ([], [''ks.idx''], [])),
      (example_world, DelIndexMsg ''ks.idx''), (example_world, GetFtsIndexMsg ''ks.idx'')] engine_new of
    (r, eg) \<Rightarrow> is_ok r \<and> engine_inv example_driver eg"
  by (rule engine_run_safe) (simp add: example_world_ok example_metadata_ok)

theorem add_index_answer_witness:
  "case add_index example_world example_metadata engine_new of (r, eg') \<Rightarrow>
    (is_ok r \<longleftrightarrow> contains_key (eg_indexes eg') (im_key example_metadata)) \<and>
    (\<not> is_ok r \<longrightarrow> eg_indexes eg' = eg_indexes engine_new) \<and>
    (\<forall>key. key \<noteq> im_key example_metadata \<longrightarrow> contains_key (eg_indexes eg') key = contains_key (eg_indexes engine_new) key) \<and>
    (contains_key (eg_indexes engine_new) (im_key example_metadata) \<longrightarrow> r = Ok () \<and> eg' = engine_new)"
  by (rule add_index_answer [where d = example_driver, OF engine_inv_new example_world_ok example_metadata_ok(1)])

lemma example_engine_added:
  obtains eg entry where "add_index example_world example_metadata engine_new = (Ok (), eg)"
    and "vs_entries (eg_indexes eg) = Map.empty" and "fts_entries (eg_indexes eg) = [''ks.idx'' \<mapsto> entry]"
    and "pattern_entries (eg_indexes eg) = Map.empty" and "ie_status entry = IndexInitializing"
proof -
  have target: "im_target_columns example_metadata \<noteq> []" by (simp add: example_metadata_def)
  have "schema_ok (im_primary_key_columns example_metadata) (im_partition_key_count example_metadata) None [] (\<lambda>_. None)"
    by (simp add: schema_ok_def example_metadata_def)
  then obtain t where t: "build_table ''ks.idx'' example_metadata (\<lambda>_. None) = Ok t"
    using table_new_ok [OF target, where key = "''ks.idx''" and pk = "im_primary_key_columns example_metadata"
        and n = "im_partition_key_count example_metadata" and partition_columns = None and filtering = "[]"
        and table_columns = "\<lambda>_. None" and d = example_driver]
    by (simp add: build_table_def im_nonpk_filtering_columns_def split: sum.splits) (simp add: example_metadata_def)
  have "add_index example_world example_metadata engine_new =
    (Ok (), \<lparr>eg_indexes = insert_fts ''ks.idx''
         \<lparr>ie_index = 3, ie_monitor = 5, ie_db_index = 1, ie_status = IndexInitializing, ie_progress = Done,
          ie_primary_key_columns = [''pk''], ie_data = \<lparr>fts_analyzer = Standard, fts_positions = True\<rparr>\<rparr> indexes_new,
       eg_actors = [\<lparr>ia_channel = 5, ia_key = ''ks.idx'', ia_table = t, ia_rows = 2, ia_index = 3\<rparr>],
       eg_removed_labels = []\<rparr>)"
    using t by (simp add: add_index_def example_metadata_ok engine_new_def contains_key_def indexes_new_def Let_def
        example_world_def)
      (simp add: example_metadata_def add_index_fts_def fts_entry_new_def as_fts_def monitor_items_new_def Let_def)
  then show thesis by (rule that) (simp_all add: indexes_new_def, simp)
qed

theorem engine_tick_refreshes_witness:
  "\<exists>eg. add_index example_world example_metadata engine_new = (Ok (), eg) \<and>
    (case engine_update_indexes example_world ([], [''ks.idx''], []) eg of (r, eg') \<Rightarrow>
       r = Ok () \<and> map_option ie_status (fts_entries (eg_indexes eg') ''ks.idx'') = Some IndexServing)"
proof -
  obtain eg entry where eg: "add_index example_world example_metadata engine_new = (Ok (), eg)"
    and entries: "vs_entries (eg_indexes eg) = Map.empty" "fts_entries (eg_indexes eg) = [''ks.idx'' \<mapsto> entry]"
      "pattern_entries (eg_indexes eg) = Map.empty"
    using example_engine_added by blast
  have inv: "engine_inv example_driver eg"
    using add_index_ok [OF engine_inv_new example_world_ok example_metadata_ok(1), of example_driver]
    unfolding eg by (simp add: added_ok_def)
  have orders: "orders_ok ([], [''ks.idx''], []) (eg_indexes eg)"
    by (simp add: orders_ok_def entries)
  have "ie_status (refreshed example_world ''ks.idx'' entry) = IndexServing"
    by (simp add: refreshed_def status_of_def split_once_def example_world_def set_entry_def)
  then show ?thesis
    using engine_tick_refreshes [OF inv orders, of example_world] eg by (auto simp: entries)
qed

end
