(* ===== verification/Discovery.thy ===== *)
theory Discovery
  imports Monitor_Indexes Engine_Correct
begin

text \<open>
  Discovery of indexes: the index monitor and the engine together. What the monitor believes
  and what the engine has in its registry agree after every event, in any order of the events
  and for any errors of the database and the factories; a tick that could not do everything
  forgets the schema version, so that the next tick tries again.
\<close>

section \<open>Agreement\<close>

definition in_sync :: "driver \<Rightarrow> index_monitor \<Rightarrow> engine_state \<Rightarrow> bool" where
  "in_sync d mi eg \<longleftrightarrow>
     engine_inv d eg \<and> finite (mi_indexes mi) \<and> inj_on im_key (mi_indexes mi) \<and>
     (\<forall>k. contains_key (eg_indexes eg) k \<longleftrightarrow> k \<in> im_key ` mi_indexes mi)"

definition listed_ok :: "db_custom_index \<Rightarrow> bool" where
  "listed_ok idx \<longleftrightarrow>
     dc_target_columns idx \<noteq> [] \<and> dc_primary_key_columns idx \<noteq> [] \<and>
     (case dc_partitioning idx of GlobalIndex \<Rightarrow> True | LocalIndex cols \<Rightarrow> distinct cols)"

text \<open>The schema has one index of a name in a keyspace, and its lists of columns are not empty.\<close>

definition db_ok :: "db_world \<Rightarrow> bool" where
  "db_ok db \<longleftrightarrow>
     (case db_get_indexes db of Inl _ \<Rightarrow> True | Inr rows \<Rightarrow> distinct (map dc_key rows) \<and> list_all listed_ok rows)"

text \<open>Iterating a hash set gives each element once.\<close>

definition order_ok :: "hash_order \<Rightarrow> bool" where
  "order_ok order \<longleftrightarrow> (\<forall>S. finite S \<longrightarrow> set (order S) = S \<and> distinct (order S))"

section \<open>The list of indexes\<close>

text \<open>A set of metadata the engine can be asked for: one of each key.\<close>

definition listing_ok :: "index_metadata set \<Rightarrow> bool" where
  "listing_ok S \<longleftrightarrow> finite S \<and> inj_on im_key S \<and> (\<forall>m\<in>S. metadata_ok m)"

lemma get_index_ok:
  assumes "get_index db idx = Ok (Some m)" and "listed_ok idx"
  shows "im_key m = dc_key idx" and "metadata_ok m"
proof -
  obtain v k where "m = metadata_of idx v k"
    using assms(1) by (auto simp: get_index_def Let_def result_simps split: option.splits if_splits)
  then show "im_key m = dc_key idx" and "metadata_ok m"
    using assms(2) by (simp_all add: metadata_of_def im_key_def dc_key_def metadata_ok_def listed_ok_def)
qed

lemma get_indexes_loop_ok:
  assumes "get_indexes_loop db rows acc = Ok S" and "listing_ok acc" and "distinct (map dc_key rows)"
    and "list_all listed_ok rows" and "im_key ` acc \<inter> dc_key ` set rows = {}"
  shows "listing_ok S"
  using assms
proof (induction rows arbitrary: acc)
  case (Cons idx rows)
  obtain m where m: "get_index db idx = Ok m"
    and rest: "get_indexes_loop db rows (case m of None \<Rightarrow> acc | Some x \<Rightarrow> insert x acc) = Ok S"
    using Cons.prems(1) by (auto simp: result_simps)
  show ?case
  proof (cases m)
    case None
    then show ?thesis using Cons.IH [of acc] rest Cons.prems by auto
  next
    case (Some x)
    have x: "im_key x = dc_key idx" "metadata_ok x"
      using get_index_ok [of db idx x] m Some Cons.prems(4) by simp_all
    have "listing_ok (insert x acc)"
      using Cons.prems(2,5) x by (auto simp: listing_ok_def)
    moreover have "im_key ` insert x acc \<inter> dc_key ` set rows = {}"
      using Cons.prems(3,5) x by auto
    ultimately show ?thesis
      using Cons.IH [of "insert x acc"] rest Some Cons.prems(3,4) by simp
  qed
qed simp

lemma get_indexes_ok:
  assumes "get_indexes db version = Ok S" and "db_ok db"
  shows "listing_ok S"
proof -
  obtain rows where rows: "db_get_indexes db = Ok rows" "get_indexes_loop db rows {} = Ok S"
    using assms(1) by (auto simp: get_indexes_def result_simps split: if_splits)
  then show ?thesis
    using get_indexes_loop_ok [OF rows(2)] assms(2) by (simp add: db_ok_def listing_ok_def)
qed

lemma listing_sub: "listing_ok S \<Longrightarrow> T \<subseteq> S \<Longrightarrow> listing_ok T"
  by (auto simp: listing_ok_def finite_subset inj_on_subset)

section \<open>The calls\<close>

lemma del_indexes_ok:
  assumes "engine_inv d eg"
  shows "\<exists>eg'. del_indexes ms eg = (Ok (), eg') \<and> engine_inv d eg' \<and>
    (\<forall>k. contains_key (eg_indexes eg') k \<longleftrightarrow> k \<notin> im_key ` set ms \<and> contains_key (eg_indexes eg) k)"
  using assms
proof (induction ms arbitrary: eg)
  case (Cons m ms)
  obtain eg1 where del: "del_index (im_key m) eg = (Ok (), eg1)" "engine_inv d eg1"
    and keys: "\<forall>k. contains_key (eg_indexes eg1) k \<longleftrightarrow> k \<noteq> im_key m \<and> contains_key (eg_indexes eg) k"
    using del_index_ok [OF Cons.prems, of "im_key m"] by metis
  obtain eg2 where "del_indexes ms eg1 = (Ok (), eg2)" "engine_inv d eg2"
    and "\<forall>k. contains_key (eg_indexes eg2) k \<longleftrightarrow> k \<notin> im_key ` set ms \<and> contains_key (eg_indexes eg1) k"
    using Cons.IH [OF del(2)] by blast
  then show ?case using del keys by auto
qed simp

lemma add_indexes_ok:
  assumes "engine_inv d eg" and "world_ok w" and "\<forall>m\<in>set ms. metadata_ok m" and "distinct (map im_key ms)"
    and "\<forall>m\<in>set ms. \<not> contains_key (eg_indexes eg) (im_key m)"
  shows "\<exists>A r' eg'. add_indexes w ms r eg = (Ok r', eg') \<and> engine_inv d eg' \<and>
    A \<subseteq> set ms \<and> ar_added r' = ar_added r \<union> A \<and> (ar_has_failures r' \<longleftrightarrow> ar_has_failures r \<or> A \<noteq> set ms) \<and>
    (\<forall>k. contains_key (eg_indexes eg') k \<longleftrightarrow> contains_key (eg_indexes eg) k \<or> k \<in> im_key ` A)"
  using assms
proof (induction ms arbitrary: r eg)
  case (Cons m ms)
  obtain a eg1 where run: "add_index w m eg = (a, eg1)" by fastforce
  have added: "added_ok d (im_key m) eg (a, eg1)"
    using add_index_ok [OF Cons.prems(1,2), of m] Cons.prems(3) run by simp
  then have inv1: "engine_inv d eg1" and np: "no_panic a" by (simp_all add: added_ok_def)
  have dist: "distinct (map im_key ms)" "im_key m \<notin> im_key ` set ms" using Cons.prems(4) by auto
  have mok: "\<forall>m\<in>set ms. metadata_ok m" using Cons.prems(3) by simp
  show ?case
  proof (cases a)
    case (Inl e)
    then obtain b where e: "e = Bail b" using np by (cases e) simp_all
    have same: "eg_indexes eg1 = eg_indexes eg" using added Inl by (simp add: added_ok_def)
    have "\<forall>m\<in>set ms. \<not> contains_key (eg_indexes eg1) (im_key m)" using Cons.prems(5) same by simp
    from Cons.IH [OF inv1 Cons.prems(2) mok dist(1) this, of "r\<lparr>ar_has_failures := True\<rparr>"]
    obtain A r' eg' where rec: "add_indexes w ms (r\<lparr>ar_has_failures := True\<rparr>) eg1 = (Ok r', eg')" "engine_inv d eg'"
      "A \<subseteq> set ms" "ar_added r' = ar_added r \<union> A" "ar_has_failures r'"
      "\<forall>k. contains_key (eg_indexes eg') k \<longleftrightarrow> contains_key (eg_indexes eg1) k \<or> k \<in> im_key ` A"
      by auto
    moreover have "m \<notin> A" using rec(3) dist(2) by auto
    ultimately show ?thesis
      using run Inl e same by (intro exI [of _ A] exI [of _ r'] exI [of _ eg']) auto
  next
    case (Inr u)
    have keys: "\<forall>k. contains_key (eg_indexes eg1) k \<longleftrightarrow> k = im_key m \<or> contains_key (eg_indexes eg) k"
      using added Inr by (simp add: added_ok_def)
    have "im_key x \<noteq> im_key m" if "x \<in> set ms" for x
      using dist(2) imageI [OF that, of im_key] by metis
    then have "\<forall>x\<in>set ms. \<not> contains_key (eg_indexes eg1) (im_key x)" using Cons.prems(5) keys by simp
    from Cons.IH [OF inv1 Cons.prems(2) mok dist(1) this, of "r\<lparr>ar_added := insert m (ar_added r)\<rparr>"]
    obtain A r' eg' where rec: "add_indexes w ms (r\<lparr>ar_added := insert m (ar_added r)\<rparr>) eg1 = (Ok r', eg')" "engine_inv d eg'"
      "A \<subseteq> set ms" "ar_added r' = insert m (ar_added r) \<union> A" "ar_has_failures r' \<longleftrightarrow> ar_has_failures r \<or> A \<noteq> set ms"
      "\<forall>k. contains_key (eg_indexes eg') k \<longleftrightarrow> contains_key (eg_indexes eg1) k \<or> k \<in> im_key ` A"
      by auto
    moreover have "insert m A = set (m # ms) \<longleftrightarrow> A = set ms"
    proof -
      have "m \<notin> set ms" using dist(2) by auto
      then show ?thesis using rec(3) by auto
    qed
    ultimately show ?thesis
      using run Inr keys by (intro exI [of _ "insert m A"] exI [of _ r'] exI [of _ eg']) auto
  qed
qed (auto intro: exI [of _ "{}"])

section \<open>Updating the engine\<close>

text \<open>What a tick aims at: the listed indexes, or in the simulator also those the schema dropped.\<close>

definition target_indexes :: "index_monitor \<Rightarrow> index_metadata set \<Rightarrow> index_metadata set" where
  "target_indexes mi new_indexes =
     (if mi_alter_index_simulator mi then discovered_indexes_simulator (mi_indexes mi) new_indexes else new_indexes)"

text \<open>The indexes kept are \<open>K\<close>, those added \<open>A\<close>: together the target, with different keys.\<close>

lemma simulator_choice:
  fixes I new :: "index_metadata set"
  assumes "inj_on im_key new"
  defines "K \<equiv> {m \<in> I. \<not> should_delete_simulator m new}"
  shows "K \<union> {m \<in> new. should_add_simulator m K} = discovered_indexes_simulator I new"
    and "im_key ` K \<inter> im_key ` {m \<in> new. should_add_simulator m K} = {}"
proof -
  have kept: "c \<in> K" if "c \<in> I" "m \<in> new" "discard_version c = discard_version m" for c m
  proof -
    have "im_key (discard_version c) = im_key m" using that(3) by simp
    then have key: "im_key c = im_key m" by simp
    have "discard_version c = discard_version n" if n: "n \<in> new" "im_key c = im_key n" for n
      using inj_onD [OF assms(1), of n m] n key \<open>m \<in> new\<close> \<open>discard_version c = discard_version m\<close> by simp
    then show ?thesis using that(1) by (auto simp: K_def should_delete_simulator_def Let_def)
  qed
  have "should_add_simulator m K = should_add_simulator m I" if "m \<in> new" for m
  proof
    assume add: "should_add_simulator m K"
    show "should_add_simulator m I"
      unfolding should_add_simulator_def Let_def
    proof
      fix x assume "x \<in> discard_version ` I"
      then obtain c where c: "c \<in> I" "x = discard_version c" by blast
      show "x \<noteq> discard_version m"
        using kept [OF c(1) that] add c(2) by (auto simp: should_add_simulator_def Let_def)
    qed
  qed (auto simp: should_add_simulator_def K_def Let_def)
  then show "K \<union> {m \<in> new. should_add_simulator m K} = discovered_indexes_simulator I new"
    by (auto simp: discovered_indexes_simulator_def K_def)
  have "im_key c \<noteq> im_key m" if "c \<in> K" "m \<in> new" "should_add_simulator m K" for c m
  proof
    assume "im_key c = im_key m"
    then have "im_key (discard_version c) = im_key (discard_version m)" by simp
    then have "discard_version c = discard_version m"
      using that(1,2) unfolding K_def should_delete_simulator_def Let_def by blast
    then show False using that(1,3) by (auto simp: should_add_simulator_def Let_def)
  qed
  then show "im_key ` K \<inter> im_key ` {m \<in> new. should_add_simulator m K} = {}" by auto
qed

lemma plain_choice:
  fixes I new :: "index_metadata set"
  assumes "inj_on im_key new"
  defines "K \<equiv> {m \<in> I. \<not> should_delete m new}"
  shows "K \<union> {m \<in> new. should_add m K} = new"
    and "im_key ` K \<inter> im_key ` {m \<in> new. should_add m K} = {}"
  using assms by (auto simp: should_delete_def should_add_def inj_on_def)

text \<open>
  How an update ends: without a panic, in agreement, and either at the target, with the schema
  version kept, or below it with the schema version forgotten.
\<close>

definition update_ok ::
  "driver \<Rightarrow> index_metadata set \<Rightarrow> index_monitor \<Rightarrow> unit result \<times> index_monitor \<times> engine_state \<Rightarrow> bool" where
  "update_ok d target mi result =
     (case result of (r, mi', eg') \<Rightarrow>
        r = Ok () \<and> in_sync d mi' eg' \<and> mi_indexes mi' \<subseteq> target \<and>
        mi_alter_index_simulator mi' = mi_alter_index_simulator mi \<and> mi_fulltext_indexes mi' = mi_fulltext_indexes mi \<and>
        (mi_schema_version mi' = uuid_nil \<or>
         mi_schema_version mi' = mi_schema_version mi \<and> mi_indexes mi' = target))"

lemma distinct_keys: "inj_on im_key (set ms) \<Longrightarrow> distinct ms \<Longrightarrow> distinct (map im_key ms)"
  by (simp add: distinct_map)

lemma update_engine_ok:
  assumes sync: "in_sync d mi eg" and order: "order_ok order" and w: "world_ok w" and new: "listing_ok new"
  shows "update_ok d (target_indexes mi new) mi (update_engine order w new mi eg)"
proof -
  let ?sim = "mi_alter_index_simulator mi"
  let ?I = "mi_indexes mi"
  define del where "del = (\<lambda>m. if ?sim then should_delete_simulator m new else should_delete m new)"
  define K where "K = {m \<in> ?I. \<not> del m}"
  define add where "add = (\<lambda>m. if ?sim then should_add_simulator m K else should_add m K)"
  have inj: "inj_on im_key new" and fin: "finite new" "finite ?I" and injI: "inj_on im_key ?I"
    using new sync by (simp_all add: listing_ok_def in_sync_def)
  have "K \<union> {m \<in> new. add m} = target_indexes mi new \<and> im_key ` K \<inter> im_key ` {m \<in> new. add m} = {}"
    using simulator_choice [OF inj, of ?I] plain_choice [OF inj, of ?I]
    by (cases ?sim) (simp_all add: target_indexes_def K_def add_def del_def)
  then have target: "K \<union> {m \<in> new. add m} = target_indexes mi new"
    and apart: "im_key ` K \<inter> im_key ` {m \<in> new. add m} = {}" by simp_all
  have orders: "set (order ?I) = ?I" "set (order new) = new" "distinct (order new)"
    using order fin by (simp_all add: order_ok_def)
  define removed where "removed = filter del (order ?I)"
  define adds where "adds = filter add (order new)"
  define mi1 where "mi1 = mi\<lparr>mi_indexes := K\<rparr>"
  have K: "?I - set removed = K" using orders by (auto simp: removed_def K_def)
  obtain eg1 where eg1: "del_indexes removed eg = (Ok (), eg1)" "engine_inv d eg1"
    and k1: "\<forall>k. contains_key (eg_indexes eg1) k \<longleftrightarrow> k \<notin> im_key ` set removed \<and> contains_key (eg_indexes eg) k"
    using del_indexes_ok [of d eg removed] sync by (auto simp: in_sync_def)
  have keys1: "contains_key (eg_indexes eg1) k \<longleftrightarrow> k \<in> im_key ` K" for k
  proof -
    have "im_key ` (?I - set removed) = im_key ` ?I - im_key ` set removed"
      using inj_on_image_set_diff [OF injI, of ?I "set removed"] orders by (auto simp: removed_def)
    then show ?thesis using k1 sync K by (auto simp: in_sync_def)
  qed
  have adds: "set adds = {m \<in> new. add m}" "distinct adds" using orders by (auto simp: adds_def)
  have "\<forall>m\<in>set adds. metadata_ok m" using new adds by (auto simp: listing_ok_def)
  moreover have "distinct (map im_key adds)"
    using inj adds by (intro distinct_keys) (auto intro: inj_on_subset)
  moreover have "\<forall>m\<in>set adds. \<not> contains_key (eg_indexes eg1) (im_key m)"
    using apart adds keys1 by auto
  ultimately obtain A r eg2 where run: "add_indexes w adds \<lparr>ar_added = {}, ar_has_failures = False\<rparr> eg1 = (Ok r, eg2)"
    and eg2: "engine_inv d eg2" and A: "A \<subseteq> set adds" "ar_added r = A" "ar_has_failures r \<longleftrightarrow> A \<noteq> set adds"
    and k2: "\<forall>k. contains_key (eg_indexes eg2) k \<longleftrightarrow> contains_key (eg_indexes eg1) k \<or> k \<in> im_key ` A"
    using add_indexes_ok [OF eg1(2) w, of adds "\<lparr>ar_added = {}, ar_has_failures = False\<rparr>"] by auto
  let ?mi2 = "mi\<lparr>mi_indexes := K \<union> A\<rparr>"
  have add_eq: "(\<lambda>m. if mi_alter_index_simulator (mi\<lparr>mi_indexes := K\<rparr>)
      then should_add_simulator m (mi_indexes (mi\<lparr>mi_indexes := K\<rparr>))
      else should_add m (mi_indexes (mi\<lparr>mi_indexes := K\<rparr>))) = add"
    by (simp add: add_def)
  have result: "update_engine order w new mi eg =
    (Ok (), if ar_has_failures r then ?mi2\<lparr>mi_schema_version := uuid_nil\<rparr> else ?mi2, eg2)"
    unfolding update_engine_def Let_def del_def [symmetric] removed_def [symmetric] K eg1(1) prod.case sum.case
      add_eq adds_def [symmetric] run
    using A(2) by (simp add: schema_version_reset_def)
  have "inj_on im_key (K \<union> A)"
  proof (rule inj_on_Un [THEN iffD2], intro conjI)
    show "inj_on im_key K" using injI by (auto simp: K_def intro: inj_on_subset)
    show "inj_on im_key A" using inj A(1) adds by (auto intro: inj_on_subset)
    show "im_key ` (K - A) \<inter> im_key ` (A - K) = {}" using apart A(1) adds by auto
  qed
  moreover have "finite (K \<union> A)" using fin A(1) finite_subset [of A "set adds"] by (auto simp: K_def)
  ultimately have "in_sync d ?mi2 eg2" "in_sync d (?mi2\<lparr>mi_schema_version := uuid_nil\<rparr>) eg2"
    using eg2 k2 keys1 by (auto simp: in_sync_def)
  moreover have "K \<union> A \<subseteq> target_indexes mi new" using A(1) adds target by auto
  moreover have "K \<union> A = target_indexes mi new" if "\<not> ar_has_failures r" using that A(3) adds target by simp
  ultimately show ?thesis
    by (cases "ar_has_failures r") (simp_all add: result update_ok_def)
qed

section \<open>A tick\<close>

lemma listing_enabled: "listing_ok S \<Longrightarrow> listing_ok (filter_disabled_index_kinds S b)"
  by (auto simp: filter_disabled_index_kinds_def intro: listing_sub)

lemma in_sync_version [simp]: "in_sync d (mi\<lparr>mi_schema_version := v\<rparr>) eg = in_sync d mi eg"
  by (simp add: in_sync_def)

lemma target_version [simp]: "target_indexes (mi\<lparr>mi_schema_version := v\<rparr>) new = target_indexes mi new"
  by (simp add: target_indexes_def)

text \<open>The three ways a tick ends.\<close>

definition tick_ok ::
  "driver \<Rightarrow> db_world \<Rightarrow> index_monitor \<Rightarrow> engine_state \<Rightarrow>
   unit result \<times> event list \<times> index_monitor \<times> engine_state \<Rightarrow> bool" where
  "tick_ok d db mi eg result =
     (case result of (r, events, mi', eg') \<Rightarrow>
        r = Ok () \<and> in_sync d mi' eg' \<and>
        (case fst (has_changed db (mi_schema_version mi)) of
           None \<Rightarrow> events = [] \<and> mi' = mi \<and> eg' = eg
         | Some version \<Rightarrow>
             (case get_indexes db version of
                Inl _ \<Rightarrow> events = [DiscoveringIndexes] \<and> mi' = mi\<lparr>mi_schema_version := uuid_nil\<rparr> \<and> eg' = eg
              | Inr listed \<Rightarrow>
                  let target = target_indexes mi (filter_disabled_index_kinds listed (mi_fulltext_indexes mi))
                  in events = [DiscoveringIndexes, IndexesDiscovered target] \<and> mi_indexes mi' \<subseteq> target \<and>
                     (mi_schema_version mi' = uuid_nil \<or> mi_schema_version mi' = version \<and> mi_indexes mi' = target))))"

lemma monitor_tick_ok:
  assumes sync: "in_sync d mi eg" and order: "order_ok order" and w: "world_ok w" and db: "db_ok db"
  shows "tick_ok d db mi eg (monitor_tick order db w mi eg)"
proof (cases "has_changed db (mi_schema_version mi)")
  case (Pair changed v)
  show ?thesis
  proof (cases changed)
    case None
    then have "v = mi_schema_version mi"
      using Pair by (auto simp: has_changed_def split: sum.splits if_splits)
    then show ?thesis using Pair None sync by (simp add: monitor_tick_def tick_ok_def)
  next
    case (Some version)
    then have v: "v = version" using Pair by (auto simp: has_changed_def split: sum.splits if_splits)
    show ?thesis
    proof (cases "get_indexes db version")
      case (Inl e)
      then show ?thesis
        using Pair Some v sync by (simp add: monitor_tick_def tick_ok_def Let_def schema_version_reset_def)
    next
      case (Inr listed)
      let ?new = "filter_disabled_index_kinds listed (mi_fulltext_indexes mi)"
      let ?mi1 = "mi\<lparr>mi_schema_version := version\<rparr>"
      have "listing_ok ?new" using get_indexes_ok [OF Inr db] by (rule listing_enabled)
      moreover have "in_sync d ?mi1 eg" using sync by simp
      ultimately have up: "update_ok d (target_indexes ?mi1 ?new) ?mi1 (update_engine order w ?new ?mi1 eg)"
        by (intro update_engine_ok [OF _ order w])
      obtain r mi' eg' where run: "update_engine order w ?new ?mi1 eg = (r, mi', eg')" by (metis prod_cases3)
      have "monitor_tick order db w mi eg = (r, [DiscoveringIndexes, IndexesDiscovered (target_indexes mi ?new)], mi', eg')"
        using Pair Some v Inr run by (simp add: monitor_tick_def Let_def target_indexes_def)
      then show ?thesis
        using up Pair Some Inr unfolding run by (simp add: update_ok_def tick_ok_def Let_def)
    qed
  qed
qed

section \<open>Runs\<close>

text \<open>
  The monitor, its configuration and the other users of the engine, interleaved: the engine
  also refreshes its registry and answers requests for indexes.
\<close>

datatype system_event =
    MonitorTick db_world engine_world
  | ConfigChanged bool bool
  | EngineEvent engine_world engine_msg

definition system_step ::
  "hash_order \<Rightarrow> system_event \<Rightarrow> index_monitor \<times> engine_state \<Rightarrow> unit result \<times> index_monitor \<times> engine_state" where
  "system_step order ev state =
     (case state of (mi, eg) \<Rightarrow>
        (case ev of
           MonitorTick db w \<Rightarrow> (case monitor_tick order db w mi eg of (r, events, mi', eg') \<Rightarrow> (r, mi', eg'))
         | ConfigChanged simulator fulltext \<Rightarrow> (Ok (), update_flags simulator fulltext mi, eg)
         | EngineEvent w msg \<Rightarrow>
             (case engine_step w msg eg of (r, eg') \<Rightarrow> (and_then r (\<lambda>_. Ok ()), mi, eg'))))"

fun system_run ::
  "hash_order \<Rightarrow> system_event list \<Rightarrow> index_monitor \<times> engine_state \<Rightarrow> unit result \<times> index_monitor \<times> engine_state" where
  "system_run order [] state = (Ok (), state)"
| "system_run order (ev # evs) state =
     (case system_step order ev state of
        (Inl e, state') \<Rightarrow> (Inl e, state')
      | (Inr _, state') \<Rightarrow> system_run order evs state')"

fun event_ok :: "system_event \<Rightarrow> bool" where
  "event_ok (MonitorTick db w) \<longleftrightarrow> db_ok db \<and> world_ok w"
| "event_ok (ConfigChanged _ _) \<longleftrightarrow> True"
| "event_ok (EngineEvent w msg) \<longleftrightarrow>
     (case msg of AddIndexMsg _ \<Rightarrow> False | DelIndexMsg _ \<Rightarrow> False | _ \<Rightarrow> True)"

lemma engine_query_ok:
  assumes "engine_inv d eg" and "event_ok (EngineEvent w msg)"
  shows "\<exists>reply eg'. engine_step w msg eg = (Ok reply, eg') \<and> engine_inv d eg' \<and>
    (\<forall>k. contains_key (eg_indexes eg') k = contains_key (eg_indexes eg) k)"
proof (cases msg)
  case (EngineTick orders)
  obtain ixs where "engine_update_indexes w orders eg = (Ok (), eg\<lparr>eg_indexes := ixs\<rparr>)"
    and "engine_inv d (eg\<lparr>eg_indexes := ixs\<rparr>)" and "registry_kept (eg_indexes eg) ixs"
    using engine_update_indexes_ok [OF assms(1)] .
  then show ?thesis using EngineTick contains_key_kept by simp
qed (use assms in simp_all)

lemma system_step_ok:
  assumes sync: "in_sync d mi eg" and order: "order_ok order" and ev: "event_ok ev"
  shows "case system_step order ev (mi, eg) of (r, mi', eg') \<Rightarrow> r = Ok () \<and> in_sync d mi' eg'"
proof (cases ev)
  case (MonitorTick db w)
  then show ?thesis
    using monitor_tick_ok [OF sync order, of w db] ev
    by (auto simp: system_step_def tick_ok_def split: prod.splits)
next
  case (ConfigChanged a b)
  then show ?thesis using sync by (simp add: system_step_def update_flags_def in_sync_def)
next
  case (EngineEvent w msg)
  have "engine_inv d eg" using sync by (simp add: in_sync_def)
  from engine_query_ok [OF this ev [unfolded EngineEvent]]
  show ?thesis using sync EngineEvent by (auto simp: system_step_def in_sync_def)
qed

lemma system_run_ok:
  assumes "in_sync d mi eg" and "order_ok order" and "list_all event_ok evs"
  shows "case system_run order evs (mi, eg) of (r, mi', eg') \<Rightarrow> r = Ok () \<and> in_sync d mi' eg'"
  using assms
proof (induction evs arbitrary: mi eg)
  case (Cons ev evs)
  obtain r mi1 eg1 where step: "system_step order ev (mi, eg) = (r, mi1, eg1)" by (metis prod_cases3)
  then have "r = Ok ()" and sync: "in_sync d mi1 eg1"
    using system_step_ok [OF Cons.prems(1,2), of ev] Cons.prems(3) by simp_all
  then show ?case using Cons.IH [OF sync Cons.prems(2)] Cons.prems(3) step by simp
qed simp

lemma in_sync_new: "in_sync d (index_monitor_new simulator fulltext) engine_new"
proof -
  have "\<not> contains_key (eg_indexes engine_new) k" for k
    by (simp add: engine_new_def contains_key_def indexes_new_def)
  then show ?thesis by (simp add: in_sync_def engine_inv_new index_monitor_new_def)
qed

section \<open>Properties\<close>

text \<open>
  C19: discovery and the engine agree over every history. Starting with no indexes, after any
  sequence of monitor ticks, configuration changes, refreshes and queries of the engine, with
  any database contents and any errors, nothing has panicked, and the registry of the engine
  holds exactly the keys of the indexes the monitor believes to exist, each once.
\<close>

theorem discovery_agrees:
  assumes "order_ok order" and "list_all event_ok evs"
  shows "case system_run order evs (index_monitor_new simulator fulltext, engine_new) of (r, mi, eg) \<Rightarrow>
    r = Ok () \<and> engine_inv d eg \<and> inj_on im_key (mi_indexes mi) \<and>
    {key. contains_key (eg_indexes eg) key} = im_key ` mi_indexes mi"
  using system_run_ok [OF in_sync_new assms, of d simulator fulltext]
  by (auto simp: in_sync_def split: prod.splits)

text \<open>
  C20: a tick finishes its work or is repeated. When the schema version did not change, a tick does
  nothing. When it changed and the schema can be read, the node state is told exactly the indexes
  the tick aims at (those listed and enabled; with the alter-index simulator also those the
  schema dropped), and afterwards either the registry holds exactly those, or the remembered
  version is the nil version, so that the next tick sees a change and tries again; when the
  schema cannot be read nothing else changes and the version is forgotten too.
\<close>

theorem tick_finishes_or_repeats:
  assumes "in_sync d mi eg" and "order_ok order" and "world_ok w" and "db_ok db"
  shows "case monitor_tick order db w mi eg of (r, events, mi', eg') \<Rightarrow>
    r = Ok () \<and> {key. contains_key (eg_indexes eg') key} = im_key ` mi_indexes mi' \<and>
    (case fst (has_changed db (mi_schema_version mi)) of
       None \<Rightarrow> events = [] \<and> mi' = mi \<and> eg' = eg
     | Some version \<Rightarrow>
         (case get_indexes db version of
            Inl _ \<Rightarrow> events = [DiscoveringIndexes] \<and> mi' = mi\<lparr>mi_schema_version := uuid_nil\<rparr> \<and> eg' = eg
          | Inr listed \<Rightarrow>
              let target = target_indexes mi (filter_disabled_index_kinds listed (mi_fulltext_indexes mi))
              in events = [DiscoveringIndexes, IndexesDiscovered target] \<and> mi_indexes mi' \<subseteq> target \<and>
                 (mi_schema_version mi' = uuid_nil \<or> mi_schema_version mi' = version \<and> mi_indexes mi' = target)))"
  using monitor_tick_ok [OF assms] by (auto simp: tick_ok_def in_sync_def split: prod.splits)

section \<open>Witnesses\<close>

definition some_order :: hash_order where
  "some_order S = (SOME ms. set ms = S \<and> distinct ms)"

lemma some_order_ok: "order_ok some_order"
  unfolding order_ok_def some_order_def
  by (intro allI impI, rule someI_ex) (rule finite_distinct_list)

definition example_db :: db_world where
  "example_db =
     \<lparr>db_latest_schema_version = Ok (replicate 16 1), db_valid_at_start = (\<lambda>_. True), db_valid_at_end = (\<lambda>_. True),
      db_get_indexes = Ok [\<lparr>dc_keyspace = ''ks'', dc_index = ''idx'', dc_table = ''t'', dc_primary_key_columns = [''pk''],
        dc_partition_key_count = 1, dc_target_columns = [''v''], dc_partitioning = GlobalIndex,
        dc_filtering_columns = [], dc_alternator_attribute_types = [], dc_kind = FullTextSearch\<rparr>],
      db_get_index_version = (\<lambda>_ _ _. Ok (Some (IndexVersion uuid_nil))), db_get_target_dimensions = (\<lambda>_ _ _ _. Ok None),
      db_get_vs_params = (\<lambda>_ _ _. Ok None), db_get_fts_params = (\<lambda>_ _ _. Ok None), db_get_pattern_params = (\<lambda>_ _ _. Ok None),
      db_is_valid_index = (\<lambda>_. True)\<rparr>"

lemma example_db_ok: "db_ok example_db"
  by (simp add: db_ok_def example_db_def listed_ok_def)

theorem discovery_agrees_witness:
  "case system_run some_order [MonitorTick example_db example_world, EngineEvent example_world (EngineTick ([], [''ks.idx''], [])),
        ConfigChanged True False, MonitorTick example_db example_world] (index_monitor_new False True, engine_new) of
    (r, mi, eg) \<Rightarrow>
      r = Ok () \<and> engine_inv example_driver eg \<and> inj_on im_key (mi_indexes mi) \<and>
      {key. contains_key (eg_indexes eg) key} = im_key ` mi_indexes mi"
  by (rule discovery_agrees [OF some_order_ok]) (simp add: example_db_ok example_world_ok)

lemma example_listing: "get_indexes example_db (replicate 16 1) = Ok {example_metadata}"
  by (simp add: get_indexes_def example_db_def get_index_def index_kind_of_def build_fts_index_kind_def Let_def)
    (simp add: metadata_of_def example_metadata_def index_options_fts_default_def)

theorem tick_finishes_or_repeats_witness:
  "case monitor_tick some_order example_db example_world (index_monitor_new False True) engine_new of (r, events, mi', eg') \<Rightarrow>
    r = Ok () \<and> {key. contains_key (eg_indexes eg') key} = im_key ` mi_indexes mi' \<and>
    events = [DiscoveringIndexes, IndexesDiscovered {example_metadata}]"
proof -
  have version: "fst (has_changed example_db (mi_schema_version (index_monitor_new False True))) = Some (replicate 16 1)"
    by (simp add: has_changed_def example_db_def index_monitor_new_def schema_version_new_def uuid_nil_def)
  have target: "target_indexes (index_monitor_new False True) (filter_disabled_index_kinds {example_metadata}
      (mi_fulltext_indexes (index_monitor_new False True))) = {example_metadata}"
    by (simp add: target_indexes_def filter_disabled_index_kinds_def index_monitor_new_def)
  show ?thesis
    using tick_finishes_or_repeats [OF in_sync_new [of example_driver False True] some_order_ok example_world_ok example_db_ok]
    unfolding version by (auto simp: example_listing target Let_def split: prod.splits)
qed

end
