(* ===== verification/Distances.thy ===== *)
theory Distances
  imports Index_Types
begin

text \<open>
  Model of \<open>crates/vector-store/src/distance.rs\<close>: the distances a search may report, by kind of
  space. A float is its IEEE bit pattern, as in the values; what the checks use of \<open>f32\<close>
  (comparison, \<open>is_nan\<close>, \<open>is_finite\<close>, \<open>fract\<close> and the conversion of an integer, rounded to the
  nearest even) is written out on it.
\<close>

section \<open>What is used of \<open>f32\<close>\<close>

definition f32_ge :: "u32 \<Rightarrow> u32 \<Rightarrow> bool" where
  "f32_ge a b \<longleftrightarrow> (case f32_partial_cmp a b of Some Greater \<Rightarrow> True | Some Equal \<Rightarrow> True | _ \<Rightarrow> False)"

definition f32_gt :: "u32 \<Rightarrow> u32 \<Rightarrow> bool" where
  "f32_gt a b \<longleftrightarrow> f32_partial_cmp a b = Some Greater"

definition f32_zero :: u32 where "f32_zero = 0"
definition f32_two :: u32 where "f32_two = 0x40000000"

definition f32_magnitude :: "u32 \<Rightarrow> nat" where
  "f32_magnitude x = unat (take_bit 31 x)"

definition f32_is_nan :: "u32 \<Rightarrow> bool" where
  "f32_is_nan x \<longleftrightarrow> float_nan 23 8 x"

definition f32_is_finite :: "u32 \<Rightarrow> bool" where
  "f32_is_finite x \<longleftrightarrow> f32_magnitude x < 255 * 2 ^ 23"

text \<open>\<open>fract() == 0.0\<close>: no bit of the significand is below the binary point.\<close>

definition f32_is_integral :: "u32 \<Rightarrow> bool" where
  "f32_is_integral x \<longleftrightarrow>
     (let e = f32_magnitude x div 2 ^ 23; m = f32_magnitude x mod 2 ^ 23
      in f32_magnitude x = 0 \<or> e < 255 \<and> (150 \<le> e \<or> 127 \<le> e \<and> m mod 2 ^ (150 - e) = 0))"

fun nat_log2 :: "nat \<Rightarrow> nat" where
  "nat_log2 n = (if n \<le> 1 then 0 else Suc (nat_log2 (n div 2)))"

declare nat_log2.simps [simp del]

definition f32_of_nat :: "nat \<Rightarrow> u32" where
  "f32_of_nat n =
     (if n = 0 then 0
      else let e = nat_log2 n
        in if e \<le> 23 then word_of_nat ((e + 127) * 2 ^ 23 + (n * 2 ^ (23 - e) - 2 ^ 23))
           else let s = e - 23; q = n div 2 ^ s; r = n mod 2 ^ s;
                    up = 2 ^ (s - 1) < r \<or> r = 2 ^ (s - 1) \<and> odd q
                in word_of_nat ((e + 127) * 2 ^ 23 + ((if up then q + 1 else q) - 2 ^ 23)))"

section \<open>Distance\<close>

datatype distance =
    DistEuclidean u32
  | DistCosine u32
  | DistDotProduct u32
  | DistHamming u32 nat

definition ensure :: "bool \<Rightarrow> string \<Rightarrow> unit result" where
  "ensure b msg = (if b then Ok () else Err (Bail msg))"

definition distance_try_from :: "u32 \<Rightarrow> space_type \<Rightarrow> nat option \<Rightarrow> distance result" where
  "distance_try_from v space dimensions =
     (case space of
        Cosine \<Rightarrow>
          and_then (ensure (f32_ge v f32_zero \<and> f32_ge f32_two v) ''Cosine distance must be in range [0.0, 2.0]'') (\<lambda>_.
          Ok (DistCosine v))
      | Euclidean \<Rightarrow>
          and_then (ensure (f32_ge v f32_zero) ''Euclidean distance must be >= 0.0'') (\<lambda>_.
          Ok (DistEuclidean v))
      | DotProduct \<Rightarrow>
          and_then (ensure (\<not> f32_is_nan v) ''Dot Product distance must be a valid number, got NaN'') (\<lambda>_.
          Ok (DistDotProduct v))
      | Hamming \<Rightarrow>
          and_then (ensure (f32_ge v f32_zero) ''Hamming distance must be >= 0.0'') (\<lambda>_.
          and_then (ensure (f32_is_finite v) ''Hamming distance must be a finite number'') (\<lambda>_.
          and_then (ensure (f32_is_integral v) ''Hamming distance must be an integer value'') (\<lambda>_.
          and_then (ok_or dimensions (Bail ''Dimensions must be provided for Hamming distance'')) (\<lambda>n.
          and_then (ensure (f32_ge (f32_of_nat n) v) ''Hamming distance cannot be greater than the number of dimensions'') (\<lambda>_.
          Ok (DistHamming v n)))))))"

definition new_euclidean :: "u32 \<Rightarrow> distance result" where
  "new_euclidean v = distance_try_from v Euclidean None"

definition new_cosine :: "u32 \<Rightarrow> distance result" where
  "new_cosine v = distance_try_from v Cosine None"

definition new_dot_product :: "u32 \<Rightarrow> distance result" where
  "new_dot_product v = distance_try_from v DotProduct None"

definition new_hamming :: "u32 \<Rightarrow> nat \<Rightarrow> distance result" where
  "new_hamming v n = distance_try_from v Hamming (Some n)"

fun distance_value :: "distance \<Rightarrow> u32" where
  "distance_value (DistEuclidean v) = v"
| "distance_value (DistCosine v) = v"
| "distance_value (DistDotProduct v) = v"
| "distance_value (DistHamming v _) = v"

section \<open>Integers as floats\<close>

lemma nat_log2_bounds: "0 < n \<Longrightarrow> 2 ^ nat_log2 n \<le> n \<and> n < 2 ^ Suc (nat_log2 n)"
proof (induction n rule: nat_log2.induct)
  case (1 n)
  show ?case
  proof (cases "n \<le> 1")
    case True
    then show ?thesis using 1 by (simp add: nat_log2.simps [of n])
  next
    case False
    then have "2 ^ nat_log2 (n div 2) \<le> n div 2 \<and> n div 2 < 2 ^ Suc (nat_log2 (n div 2))"
      using 1 by simp
    then show ?thesis
      using False by (simp add: nat_log2.simps [of n]) linarith
  qed
qed

lemma nat_log2_unique:
  assumes "2 ^ e \<le> n" and "n < 2 ^ Suc e"
  shows "nat_log2 n = e"
proof -
  have "0 < n" using assms(1) by (metis le_zero_eq not_gr_zero power_not_zero zero_neq_numeral)
  then have b: "2 ^ nat_log2 n \<le> n" "n < 2 ^ Suc (nat_log2 n)" using nat_log2_bounds by simp_all
  have "(2::nat) ^ e < 2 ^ Suc (nat_log2 n)" "(2::nat) ^ nat_log2 n < 2 ^ Suc e"
    using assms b by linarith+
  then show ?thesis by (simp only: power_strict_increasing_iff one_less_numeral_iff semiring_norm)
qed

text \<open>The bits of a positive integer below 2^24: exponent and significand.\<close>

definition f32_bits :: "nat \<Rightarrow> nat" where
  "f32_bits n = (if n = 0 then 0 else (nat_log2 n + 126) * 2 ^ 23 + n * 2 ^ (23 - nat_log2 n))"

lemma f32_bits_of:
  assumes "2 ^ e \<le> n" and "n < 2 ^ Suc e"
  shows "f32_bits n = (e + 126) * 2 ^ 23 + n * 2 ^ (23 - e)"
proof -
  have "n \<noteq> 0" using assms(1) by (metis le_zero_eq power_not_zero zero_neq_numeral)
  then show ?thesis using nat_log2_unique [OF assms] by (simp add: f32_bits_def)
qed

lemma small_log2: "0 < n \<Longrightarrow> n < 2 ^ 24 \<Longrightarrow> nat_log2 n \<le> 23"
proof (rule ccontr)
  assume "0 < n" "n < 2 ^ 24" "\<not> nat_log2 n \<le> 23"
  then have "(2::nat) ^ 24 \<le> 2 ^ nat_log2 n" by (intro power_increasing) simp_all
  then show False using nat_log2_bounds [OF \<open>0 < n\<close>] \<open>n < 2 ^ 24\<close> by linarith
qed

lemma scaled:
  fixes n :: nat
  assumes "e \<le> 23" and "2 ^ e \<le> n" and "n < 2 ^ Suc e"
  shows "2 ^ 23 \<le> n * 2 ^ (23 - e)" and "n * 2 ^ (23 - e) < 2 ^ 24"
proof -
  have p: "(2::nat) ^ e * 2 ^ (23 - e) = 2 ^ 23"
    using assms(1) by (metis add_diff_inverse_nat not_less power_add)
  have "2 ^ e * 2 ^ (23 - e) \<le> n * 2 ^ (23 - e)"
    using assms(2) by (rule mult_le_mono1)
  then show "2 ^ 23 \<le> n * 2 ^ (23 - e)" by (simp only: p)
  have "n * 2 ^ (23 - e) < 2 ^ Suc e * 2 ^ (23 - e)"
    using assms(3) by (rule mult_less_mono1) simp
  also have "\<dots> = 2 ^ 24" using p by simp
  finally show "n * 2 ^ (23 - e) < 2 ^ 24" .
qed

lemma f32_bits_range:
  assumes "0 < n" and "n < 2 ^ 24"
  shows "(nat_log2 n + 127) * 2 ^ 23 \<le> f32_bits n" and "f32_bits n < (nat_log2 n + 128) * 2 ^ 23"
  using scaled [OF small_log2 [OF assms], of n] nat_log2_bounds [OF assms(1)] assms(1)
  by (simp_all add: f32_bits_def algebra_simps)

lemma f32_bits_less:
  assumes "k < n" and "n < 2 ^ 24"
  shows "f32_bits k < f32_bits n"
proof (cases "k = 0")
  case True
  then show ?thesis using f32_bits_range [of n] assms by (simp add: f32_bits_def)
next
  case False
  have b: "2 ^ nat_log2 k \<le> k" "k < 2 ^ Suc (nat_log2 k)" "2 ^ nat_log2 n \<le> n" "n < 2 ^ Suc (nat_log2 n)"
    using nat_log2_bounds [of k] nat_log2_bounds [of n] assms False by simp_all
  show ?thesis
  proof (cases "nat_log2 k = nat_log2 n")
    case True
    then show ?thesis using assms False by (simp add: f32_bits_def)
  next
    case False
    have "\<not> nat_log2 n < nat_log2 k"
    proof
      assume "nat_log2 n < nat_log2 k"
      then have "(2::nat) ^ Suc (nat_log2 n) \<le> 2 ^ nat_log2 k" by (intro power_increasing) simp_all
      then show False using b assms(1) by linarith
    qed
    then have "nat_log2 k + 128 \<le> nat_log2 n + 127" using False by simp
    then have "(nat_log2 k + 128) * 2 ^ 23 \<le> (nat_log2 n + 127) * 2 ^ 23" by (rule mult_le_mono1)
    then show ?thesis
      using f32_bits_range(2) [of k] f32_bits_range(1) [of n] assms \<open>k \<noteq> 0\<close> by simp
  qed
qed

lemma f32_bits_le_iff: "k < 2 ^ 24 \<Longrightarrow> n < 2 ^ 24 \<Longrightarrow> f32_bits k \<le> f32_bits n \<longleftrightarrow> k \<le> n"
  using f32_bits_less [of k n] f32_bits_less [of n k] by (cases k n rule: linorder_cases) auto

lemma f32_bits_finite:
  assumes "n < 2 ^ 24"
  shows "f32_bits n < 151 * 2 ^ 23"
proof (cases "n = 0")
  case False
  have "(nat_log2 n + 128) * 2 ^ 23 \<le> 151 * 2 ^ 23"
    using small_log2 [of n] False assms by (intro mult_le_mono1) simp
  then show ?thesis using f32_bits_range(2) [of n] False assms by simp
qed (simp add: f32_bits_def)

lemma f32_of_nat_bits:
  assumes "n < 2 ^ 24"
  shows "unat (f32_of_nat n) = f32_bits n"
proof (cases "n = 0")
  case True
  then show ?thesis by (simp add: f32_of_nat_def f32_bits_def)
next
  case False
  have e: "nat_log2 n \<le> 23" using small_log2 False assms by simp
  have "2 ^ 23 \<le> n * 2 ^ (23 - nat_log2 n)"
    using scaled(1) [OF e, of n] nat_log2_bounds [of n] False by simp
  then have "(nat_log2 n + 127) * 2 ^ 23 + (n * 2 ^ (23 - nat_log2 n) - 2 ^ 23) = f32_bits n"
    using False by (simp add: f32_bits_def algebra_simps)
  then have "f32_of_nat n = word_of_nat (f32_bits n)"
    using False e by (simp add: f32_of_nat_def Let_def)
  then show ?thesis
    using f32_bits_finite [OF assms] by (simp add: unat_of_nat)
qed

lemma f32_magnitude_of:
  fixes x :: u32
  assumes "unat x < 2 ^ 31"
  shows "f32_magnitude x = unat x" and "\<not> bit x 31"
proof -
  have t: "take_bit 31 x = x"
    using assms by (metis mod_less take_bit_eq_mod unsigned_take_bit_eq word_unat_eq_iff)
  then show "f32_magnitude x = unat x" by (simp add: f32_magnitude_def)
  show "\<not> bit x 31" by (subst t [symmetric]) (simp add: bit_take_bit_iff)
qed

lemma f32_key_of: "unat (x :: u32) < 2 ^ 31 \<Longrightarrow> float_key 31 x = int (unat x)"
  using f32_magnitude_of [of x] by (simp add: float_key_def f32_magnitude_def)

lemma f32_nan_of: "unat (x :: u32) < 2 ^ 31 \<Longrightarrow> float_nan 23 8 x \<longleftrightarrow> 255 * 2 ^ 23 < unat x"
  using f32_magnitude_of [of x] by (simp add: float_nan_def f32_magnitude_def)

lemma f32_ge_of:
  "unat a \<le> 255 * 2 ^ 23 \<Longrightarrow> unat b \<le> 255 * 2 ^ 23 \<Longrightarrow> f32_ge a b \<longleftrightarrow> unat b \<le> unat a"
  by (auto simp: f32_ge_def f32_partial_cmp_def f32_nan_of f32_key_of ord_cmp_def simp del: of_nat_unat split: if_splits)

text \<open>The only pattern with a sign bit and no magnitude is the negative zero.\<close>

definition f32_neg_zero :: u32 where "f32_neg_zero = 2 ^ 31"

lemma f32_neg_zero_bits:
  assumes "bit (x :: u32) 31" and "f32_magnitude x = 0"
  shows "x = f32_neg_zero"
proof (rule bit_word_eqI)
  fix n assume n: "n < LENGTH(32)"
  have "take_bit 31 x = 0"
    using assms(2) unfolding f32_magnitude_def by (metis unsigned_0 word_unat_eq_iff)
  then have "\<not> bit x n" if "n < 31" by (metis bit_0_eq bit_take_bit_iff bot_apply bot_bool_def that)
  then show "bit x n = bit f32_neg_zero n"
    using assms(1) n by (cases "n = 31") (simp_all only: f32_neg_zero_def bit_exp_iff, simp_all)
qed

lemma f32_neg_zero_facts:
  "float_key 31 f32_neg_zero = 0" "\<not> float_nan 23 8 f32_neg_zero" "f32_magnitude f32_neg_zero = 0"
proof -
  have "take_bit 31 f32_neg_zero = 0"
    by (rule bit_word_eqI) (simp add: f32_neg_zero_def bit_take_bit_iff del: power_numeral, simp only: bit_exp_iff, simp)
  then show "float_key 31 f32_neg_zero = 0" "\<not> float_nan 23 8 f32_neg_zero" "f32_magnitude f32_neg_zero = 0"
    by (simp_all add: float_key_def float_nan_def f32_magnitude_def)
qed

lemma f32_unsigned:
  assumes "\<not> bit (x :: u32) 31"
  shows "unat x < 2 ^ 31"
proof -
  have "x = take_bit 31 x"
  proof (rule bit_eqI)
    fix n assume "possible_bit TYPE(u32) n"
    then have "n < 32" by simp
    then show "bit x n = bit (take_bit 31 x) n"
      using assms by (cases "n = 31") (auto simp: bit_simps)
  qed
  then show ?thesis by (metis take_bit_nat_less_exp unsigned_take_bit_eq)
qed

lemma f32_integral_bits:
  assumes x: "unat x = (e + 126) * 2 ^ 23 + s" and s: "2 ^ 23 \<le> s" "s < 2 ^ 24" and e: "e \<le> 23"
  shows "f32_is_integral x \<longleftrightarrow> s mod 2 ^ (23 - e) = 0"
proof -
  have m: "unat x = (e + 127) * 2 ^ 23 + (s - 2 ^ 23)" using x s by (simp add: algebra_simps)
  have "(e + 127) * 2 ^ 23 \<le> 150 * 2 ^ 23" using e by (intro mult_le_mono1) simp
  then have mag: "f32_magnitude x = unat x" using m s by (intro f32_magnitude_of) simp
  have parts: "f32_magnitude x div 2 ^ 23 = e + 127" "f32_magnitude x mod 2 ^ 23 = s - 2 ^ 23"
    using s unfolding mag m by (simp_all only: div_mult_self3 div_mult_self4 mod_mult_self3) simp_all
  have "(2::nat) ^ (23 - e) dvd 2 ^ 23" by (intro le_imp_power_dvd) simp
  then have "s mod 2 ^ (23 - e) = 0 \<longleftrightarrow> (s - 2 ^ 23) mod 2 ^ (23 - e) = 0"
    using s(1) by (metis dvd_diffD dvd_diff_nat mod_eq_0_iff_dvd)
  moreover have "f32_magnitude x \<noteq> 0" using mag m by simp
  ultimately show ?thesis
    unfolding f32_is_integral_def parts Let_def using e by auto
qed


lemma f32_of_nat_integral:
  assumes "k < 2 ^ 24"
  shows "f32_is_integral (f32_of_nat k)"
proof (cases "k = 0")
  case True
  then show ?thesis by (simp add: f32_of_nat_def f32_is_integral_def f32_magnitude_def)
next
  case False
  let ?e = "nat_log2 k"
  have e: "?e \<le> 23" using small_log2 False assms by simp
  have "2 ^ 23 \<le> k * 2 ^ (23 - ?e)" "k * 2 ^ (23 - ?e) < 2 ^ 24"
    using scaled [OF e, of k] nat_log2_bounds [of k] False by simp_all
  moreover have "unat (f32_of_nat k) = (?e + 126) * 2 ^ 23 + k * 2 ^ (23 - ?e)"
    using f32_of_nat_bits [OF assms] False by (simp add: f32_bits_def)
  ultimately show ?thesis using f32_integral_bits e by simp
qed

lemma f32_integral_is_nat:
  assumes "f32_is_integral x" and "\<not> bit x 31" and "unat x < 151 * 2 ^ 23"
  shows "\<exists>k<2 ^ 24. x = f32_of_nat k"
proof (cases "unat x = 0")
  case True
  then have "x = f32_of_nat 0" by (simp add: f32_of_nat_def unat_eq_zero)
  then show ?thesis by (intro exI [of _ 0]) simp
next
  case False
  define e where "e = unat x div 2 ^ 23 - 127"
  define s where "s = 2 ^ 23 + unat x mod 2 ^ 23"
  have mag: "f32_magnitude x = unat x"
    using f32_magnitude_of(1) assms(3) by simp
  have div: "127 \<le> unat x div 2 ^ 23" "unat x div 2 ^ 23 < 151"
    using assms(1,3) False unfolding f32_is_integral_def mag by (auto simp: Let_def less_mult_imp_div_less)
  then have e: "e \<le> 23" and x: "unat x = (e + 126) * 2 ^ 23 + s"
    using div_mult_mod_eq [of "unat x" "2 ^ 23"] by (simp_all add: e_def s_def algebra_simps)
  have s: "2 ^ 23 \<le> s" "s < 2 ^ 24" by (simp_all add: s_def)
  have "s mod 2 ^ (23 - e) = 0"
    using f32_integral_bits [OF x s e] assms(1) by simp
  then obtain k where k: "s = k * 2 ^ (23 - e)" by (metis dvd_div_mult_self mod_0_imp_dvd)
  have p: "(2::nat) ^ 23 = 2 ^ e * 2 ^ (23 - e)" "(2::nat) ^ 24 = 2 ^ Suc e * 2 ^ (23 - e)"
    using e by (simp_all flip: power_add)
  have "2 ^ e \<le> k" "k < 2 ^ Suc e"
    using s unfolding k p by (simp_all only: mult_le_cancel2 mult_less_cancel2)
  moreover from this(2) have "k < 2 ^ 24"
    using power_increasing [of "Suc e" 24 "2::nat"] e by linarith
  ultimately have "unat (f32_of_nat k) = unat x"
    using f32_of_nat_bits f32_bits_of x k by metis
  then show ?thesis using \<open>k < 2 ^ 24\<close> by (metis word_unat_eq_iff)
qed

section \<open>Property\<close>

text \<open>
  The distances accepted from an index of one-bit vectors are the numbers of differing bits:
  the integers from zero to the number of dimensions (or the negative zero, which compares equal
  to zero), and nothing else, as long as the dimensions are exact in a float.
\<close>

theorem hamming_distance_counts:
  assumes "n < 2 ^ 24"
  shows "is_ok (new_hamming v n) \<longleftrightarrow> v = f32_neg_zero \<or> (\<exists>k\<le>n. v = f32_of_nat k)"
proof -
  have ok: "is_ok (new_hamming v n) \<longleftrightarrow>
      f32_ge v f32_zero \<and> f32_is_finite v \<and> f32_is_integral v \<and> f32_ge (f32_of_nat n) v"
    by (simp add: new_hamming_def distance_try_from_def ensure_def)
  have n: "unat (f32_of_nat n) = f32_bits n" "f32_bits n < 151 * 2 ^ 23"
    using f32_of_nat_bits f32_bits_finite assms by simp_all
  show ?thesis
  proof (cases "bit v 31")
    case True
    have "f32_ge v f32_zero \<longleftrightarrow> f32_magnitude v = 0"
      using True by (auto simp: f32_ge_def f32_partial_cmp_def f32_zero_def float_key_def float_nan_def ord_cmp_def
          f32_magnitude_def simp del: of_nat_unat split: if_splits)
    moreover have "is_ok (new_hamming f32_neg_zero n)"
    proof -
      have "float_key 31 (f32_of_nat n) \<ge> 0" "\<not> float_nan 23 8 (f32_of_nat n)"
        using n by (simp_all add: f32_key_of f32_nan_of)
      then show ?thesis
        using f32_neg_zero_facts
        by (auto simp: new_hamming_def distance_try_from_def ensure_def f32_ge_def f32_partial_cmp_def ord_cmp_def
            f32_is_finite_def f32_is_integral_def f32_zero_def float_key_def [of 31 0] float_nan_def [of 23 8 0])
    qed
    moreover have "\<not> bit (f32_of_nat k) 31" if "k \<le> n" for k
      using f32_magnitude_of(2) [of "f32_of_nat k"] f32_of_nat_bits [of k] f32_bits_finite [of k] that assms by simp
    ultimately show ?thesis
      using ok True f32_neg_zero_bits [OF True] by (metis is_ok.simps(2))
  next
    case False
    then have v: "unat v < 2 ^ 31" by (rule f32_unsigned)
    have zero: "unat f32_zero = 0" by (simp add: f32_zero_def)
    have "v \<noteq> f32_neg_zero" using False by (auto simp: f32_neg_zero_def bit_exp_iff)
    moreover have "is_ok (new_hamming v n) \<longleftrightarrow> (\<exists>k\<le>n. v = f32_of_nat k)"
    proof
      assume "is_ok (new_hamming v n)"
      then have fin: "unat v < 255 * 2 ^ 23" and int: "f32_is_integral v" and le: "unat v \<le> f32_bits n"
        using n f32_ge_of [of "f32_of_nat n" v] f32_magnitude_of [OF v] unfolding ok by (simp_all add: f32_is_finite_def)
      then obtain k where "k < 2 ^ 24" "v = f32_of_nat k"
        using f32_integral_is_nat [OF int False] n(2) by auto
      then show "\<exists>k\<le>n. v = f32_of_nat k"
        using le f32_of_nat_bits f32_bits_le_iff assms by metis
    next
      assume "\<exists>k\<le>n. v = f32_of_nat k"
      then obtain k where k: "k \<le> n" "v = f32_of_nat k" by blast
      have b: "unat v = f32_bits k" "f32_bits k \<le> f32_bits n" and int: "f32_is_integral v"
        using k assms f32_of_nat_bits [of k] f32_bits_le_iff [of k n] f32_of_nat_integral [of k] by simp_all
      then show "is_ok (new_hamming v n)"
        using n f32_ge_of [of "f32_of_nat n" v] f32_ge_of [of v f32_zero] f32_magnitude_of [OF v] zero
        unfolding ok by (simp add: f32_is_finite_def)
    qed
    ultimately show ?thesis by simp
  qed
qed

theorem hamming_distance_counts_witness:
  "is_ok (new_hamming (f32_of_nat 128) 128) \<and> \<not> is_ok (new_hamming (f32_of_nat 129) 128)"
proof -
  have "f32_of_nat 129 \<noteq> f32_neg_zero"
    by (simp add: f32_of_nat_def f32_neg_zero_def nat_log2.simps)
  moreover have "f32_of_nat 129 \<noteq> f32_of_nat k" if "k \<le> 128" for k
    using f32_bits_less [of k 129] f32_of_nat_bits [of k] f32_of_nat_bits [of 129] that by auto
  ultimately show ?thesis
    using hamming_distance_counts [of 128] by (auto intro!: exI [of _ 128])
qed

lemma zero_distance [simp]: "distance_try_from 0 Euclidean n = Ok (DistEuclidean 0)"
  by (simp add: distance_try_from_def ensure_def f32_ge_def f32_partial_cmp_def float_nan_def float_key_def f32_zero_def ord_cmp_def)

end
