(* ===== verification/Usearch_Index.thy ===== *)
theory Usearch_Index
  imports Distances Monitor_Items
begin

text \<open>
  Model of the first part of \<open>crates/vector-store/src/vs_index/usearch.rs\<close>: the interface
  \<open>UsearchIndex\<close> between the actor and one index of vectors, the simulator of the source and the
  wrapper of the library, and the conversions of options and vectors for the library. A method
  on \<open>&self\<close> of an index with interior mutability returns the new state with its result. The
  library itself is a record of functions. The locale \<open>index_laws\<close> states what the actor relies
  on; it is interpreted for the simulator and proved for the wrapper of a library that keeps
  the contract of its documentation.
\<close>

section \<open>UsearchIndex\<close>

record 'i usearch_index =
  ui_reserve :: "nat \<Rightarrow> 'i \<Rightarrow> unit result \<times> 'i"
  ui_capacity :: "'i \<Rightarrow> nat"
  ui_add :: "primary_id \<Rightarrow> vector \<Rightarrow> 'i \<Rightarrow> unit result \<times> 'i"
  ui_remove :: "primary_id \<Rightarrow> 'i \<Rightarrow> bool result \<times> 'i"
  ui_search :: "vector \<Rightarrow> nat \<Rightarrow> 'i \<Rightarrow> (primary_id \<times> distance) result list result"
  ui_filtered_search :: "vector \<Rightarrow> nat \<Rightarrow> (primary_id \<Rightarrow> bool) \<Rightarrow> 'i \<Rightarrow> (primary_id \<times> distance) result list result"
  ui_get_vector :: "primary_id \<Rightarrow> 'i \<Rightarrow> vector option result"

locale index_laws =
  fixes ui :: "'i usearch_index"
    and keys :: "'i \<Rightarrow> primary_id set"
  assumes finite_keys: "finite (keys i)"
    and reserve_keys: "ui_reserve ui n i = (r, i') \<Longrightarrow> keys i' = keys i"
    and reserve_room: "ui_reserve ui n i = (Ok u, i') \<Longrightarrow> n \<le> ui_capacity ui i'"
    and add_ok: "ui_add ui p v i = (Ok u, i') \<Longrightarrow> keys i' = insert p (keys i) \<and> ui_capacity ui i' = ui_capacity ui i"
    and add_err: "ui_add ui p v i = (Err e, i') \<Longrightarrow> keys i' = keys i \<and> ui_capacity ui i' = ui_capacity ui i"
    and remove_any: "ui_remove ui p i = (b, i') \<Longrightarrow>
      b = Ok (p \<in> keys i) \<and> keys i' = keys i - {p} \<and> ui_capacity ui i' = ui_capacity ui i"
begin

lemma remove_cases:
  assumes "ui_remove ui p i = (r, i')"
  obtains "p \<in> keys i" "r = Ok True" | "p \<notin> keys i" "r = Ok False"
  using remove_any [OF assms] by (cases "p \<in> keys i") simp_all

lemma card_add: "ui_add ui p v i = (Ok u, i') \<Longrightarrow> p \<notin> keys i \<Longrightarrow> card (keys i') = card (keys i) + 1"
  using add_ok finite_keys by simp

lemma card_remove: "ui_remove ui p i = (Ok True, i') \<Longrightarrow> card (keys i') + 1 = card (keys i)"
  using remove_any [of p i "Ok True" i'] finite_keys [of i] card_Suc_Diff1 [of "keys i" p] by simp

end

text \<open>An index that is never short of memory: reserving succeeds, and so does an addition below the capacity.\<close>

locale reliable_index = index_laws ui keys for ui :: "'i usearch_index" and keys +
  assumes reserve_succeeds: "\<exists>i'. ui_reserve ui n i = (Ok (), i')"
    and add_within: "p \<notin> keys i \<Longrightarrow> card (keys i) < ui_capacity ui i \<Longrightarrow> \<exists>i'. ui_add ui p v i = (Ok (), i')"

section \<open>The simulator\<close>

text \<open>Durations are numbers of nanoseconds; waiting changes nothing.\<close>

record simulator =
  sim_config :: "nat list option"
  sim_search :: nat
  sim_add_remove :: nat
  sim_reserve :: nat
  sim_keys :: "(u64, unit) btree"
  sim_capacity :: nat

definition simulator_delay :: "nat list option \<Rightarrow> nat \<Rightarrow> nat" where
  "simulator_delay config idx = (case config of None \<Rightarrow> 0 | Some vec \<Rightarrow> (case vec_get vec idx of None \<Rightarrow> 0 | Some d \<Rightarrow> d))"

definition simulator_update :: "nat list option \<Rightarrow> simulator \<Rightarrow> simulator" where
  "simulator_update config sim =
     (if sim_config sim = config then sim
      else sim\<lparr>sim_search := simulator_delay config 0, sim_add_remove := simulator_delay config 1,
               sim_reserve := simulator_delay config 2, sim_config := config\<rparr>)"

definition simulator_new :: "nat list option \<Rightarrow> simulator" where
  "simulator_new config =
     simulator_update config
       \<lparr>sim_config = None, sim_search = 0, sim_add_remove = 0, sim_reserve = 0, sim_keys = [], sim_capacity = 0\<rparr>"

definition simulator_search :: "vector \<Rightarrow> nat \<Rightarrow> simulator \<Rightarrow> (primary_id \<times> distance) result list result" where
  "simulator_search v limit sim =
     (let ids = (if sim_keys sim = [] then [] else map (\<lambda>(raw, _). PrimaryId raw) (take limit (sim_keys sim)))
      in and_then (new_euclidean 0) (\<lambda>distance. Ok (map (\<lambda>row_id. Ok (row_id, distance)) ids)))"

definition simulator_index :: "simulator usearch_index" where
  "simulator_index =
     \<lparr>ui_reserve = (\<lambda>size sim. (Ok (), sim\<lparr>sim_capacity := size\<rparr>)),
      ui_capacity = sim_capacity,
      ui_add = (\<lambda>row_id v sim. (Ok (), sim\<lparr>sim_keys := bt_insert (primary_raw row_id) () (sim_keys sim)\<rparr>)),
      ui_remove = (\<lambda>row_id sim. (Ok (bt_contains (sim_keys sim) (primary_raw row_id)),
                                 sim\<lparr>sim_keys := bt_remove (primary_raw row_id) (sim_keys sim)\<rparr>)),
      ui_search = simulator_search,
      ui_filtered_search = (\<lambda>v limit keep sim. simulator_search v limit sim),
      ui_get_vector = (\<lambda>row_id sim. Ok None)\<rparr>"

definition simulator_ids :: "simulator \<Rightarrow> primary_id set" where
  "simulator_ids sim = PrimaryId ` set (map fst (sim_keys sim))"

lemma in_simulator_ids: "p \<in> simulator_ids sim \<longleftrightarrow> bt_get (sim_keys sim) (primary_raw p) \<noteq> None"
proof -
  have "p \<in> PrimaryId ` A \<longleftrightarrow> primary_raw p \<in> A" for A by (cases p) auto
  then show ?thesis by (simp add: simulator_ids_def bt_get_def map_of_eq_None_iff)
qed

lemma simulator_ids_insert:
  "simulator_ids (sim\<lparr>sim_keys := bt_insert (primary_raw p) () (sim_keys sim)\<rparr>) = insert p (simulator_ids sim)"
  using in_simulator_ids by (auto simp: primary_id.expand split: if_splits)

lemma simulator_ids_remove:
  "simulator_ids (sim\<lparr>sim_keys := bt_remove (primary_raw p) (sim_keys sim)\<rparr>) = simulator_ids sim - {p}"
  using in_simulator_ids by (auto simp: primary_id.expand split: if_splits)

interpretation sim: reliable_index simulator_index simulator_ids
proof unfold_locales
  show "finite (simulator_ids i)" for i
    by (simp add: simulator_ids_def)
  show "simulator_ids i' = simulator_ids i" if "ui_reserve simulator_index n i = (r, i')" for n i r i'
    using that by (clarsimp simp: simulator_index_def simulator_ids_def)
  show "r = Ok (p \<in> simulator_ids i) \<and> simulator_ids i' = simulator_ids i - {p} \<and>
      ui_capacity simulator_index i' = ui_capacity simulator_index i" if "ui_remove simulator_index p i = (r, i')" for p i r i'
    using that by (auto simp: simulator_index_def simulator_ids_remove in_simulator_ids)
qed (auto simp: simulator_index_def simulator_ids_insert)

section \<open>The library\<close>

datatype scalar_kind = SkF32 | SkF16 | SkBF16 | SkI8 | SkB1

text \<open>\<open>MkOther\<close>: the metrics of the library the program does not use.\<close>

datatype metric_kind = MkCos | MkL2sq | MkIP | MkHamming | MkOther nat

fun scalar_kind_of :: "quantization \<Rightarrow> scalar_kind" where
  "scalar_kind_of QF32 = SkF32"
| "scalar_kind_of QF16 = SkF16"
| "scalar_kind_of QBF16 = SkBF16"
| "scalar_kind_of QI8 = SkI8"
| "scalar_kind_of QB1 = SkB1"

definition metric_of_config :: "quantization \<Rightarrow> space_type \<Rightarrow> metric_kind result" where
  "metric_of_config quantization space =
     (if quantization = QB1
      then (case space of Hamming \<Rightarrow> Ok MkHamming | _ \<Rightarrow> Err (Bail ''B1 quantization requires binary space type.''))
      else (case space of
              Cosine \<Rightarrow> Ok MkCos | Euclidean \<Rightarrow> Ok MkL2sq | DotProduct \<Rightarrow> Ok MkIP
            | Hamming \<Rightarrow> Err (Bail ''Binary space type requires B1 quantization.'')))"

definition metric_kind_of :: "quantization \<Rightarrow> space_type \<Rightarrow> metric_kind result" where
  "metric_kind_of quantization space =
     (if quantization = QB1 then Ok MkHamming else metric_of_config quantization space)"

fun space_of_metric :: "metric_kind \<Rightarrow> space_type result" where
  "space_of_metric MkCos = Ok Cosine"
| "space_of_metric MkL2sq = Ok Euclidean"
| "space_of_metric MkIP = Ok DotProduct"
| "space_of_metric MkHamming = Ok Hamming"
| "space_of_metric (MkOther _) = Err (Bail ''Unsupported MetricKind for SpaceType'')"

text \<open>
  The metric an index is created with is one whose distances can be read back: the wrapper never
  fails on the space type of an index the factory made.
\<close>

lemma metric_readable:
  "metric_kind_of q space = Ok m \<Longrightarrow> space_of_metric m = Ok (if q = QB1 then Hamming else space)"
  by (auto simp: metric_kind_of_def metric_of_config_def split: space_type.splits if_splits)

section \<open>One bit per dimension\<close>

definition chunk_to_byte :: "u32 list \<Rightarrow> u8" where
  "chunk_to_byte chunk =
     fold (\<lambda>(i, val) byte. if f32_gt val f32_zero then byte OR push_bit (7 - i) 1 else byte) (List.enumerate 0 chunk) 0"

function f32_to_b1x8 :: "u32 list \<Rightarrow> u8 list" where
  "f32_to_b1x8 vec =
     (if length vec < 8 then if vec = [] then [] else [chunk_to_byte vec]
      else chunk_to_byte (take 8 vec) # f32_to_b1x8 (drop 8 vec))"
  by pat_completeness auto
termination
  by (relation "measure length") simp_all

declare f32_to_b1x8.simps [simp del]

lemma bit_chunk_fold:
  assumes "k + length chunk \<le> 8" and "j < 8"
  shows "bit (fold (\<lambda>(i, val) byte. if f32_gt val f32_zero then byte OR push_bit (7 - i) 1 else byte)
      (List.enumerate k chunk) (b :: u8)) (7 - j)
    \<longleftrightarrow> bit b (7 - j) \<or> k \<le> j \<and> j < k + length chunk \<and> f32_gt (chunk ! (j - k)) f32_zero"
  using assms
proof (induction chunk arbitrary: k b)
  case (Cons x chunk)
  have "bit (push_bit (7 - k) (1 :: u8)) (7 - j) \<longleftrightarrow> j = k"
    using Cons.prems by (auto simp: bit_exp_iff)
  then show ?case
    using Cons.IH [of "Suc k"] Cons.prems by (cases "j = k") (auto simp: bit_or_iff nth_Cons' Suc_le_eq)
qed auto

lemma bit_chunk_to_byte:
  "length chunk \<le> 8 \<Longrightarrow> j < 8 \<Longrightarrow>
   bit (chunk_to_byte chunk) (7 - j) \<longleftrightarrow> j < length chunk \<and> f32_gt (chunk ! j) f32_zero"
  using bit_chunk_fold [of 0 chunk j 0] by (simp add: chunk_to_byte_def)

text \<open>
  A vector is packed into one bit per dimension: one byte for every started group of eight,
  the first dimension of a group in the most significant bit, a bit set exactly when the value
  is positive (not when it is zero, negative or no number), and zero bits after the last.
\<close>

theorem f32_to_b1x8_bits:
  shows "length (f32_to_b1x8 vec) = (length vec + 7) div 8 \<and>
    (\<forall>i<8 * length (f32_to_b1x8 vec).
       bit (f32_to_b1x8 vec ! (i div 8)) (7 - i mod 8) \<longleftrightarrow> i < length vec \<and> f32_gt (vec ! i) f32_zero)"
proof (induction vec rule: f32_to_b1x8.induct)
  case (1 vec)
  show ?case
  proof (cases "length vec < 8")
    case True
    then show ?thesis
    proof (cases "vec = []")
      case False
      then have "f32_to_b1x8 vec = [chunk_to_byte vec]" and "(length vec + 7) div 8 = 1"
        using True by (simp_all add: f32_to_b1x8.simps [of vec] div_nat_eqI Suc_leI)
      then show ?thesis using bit_chunk_to_byte [of vec] True by simp
    qed (simp add: f32_to_b1x8.simps)
  next
    case False
    let ?rest = "f32_to_b1x8 (drop 8 vec)"
    have unfold: "f32_to_b1x8 vec = chunk_to_byte (take 8 vec) # ?rest"
      using False by (simp add: f32_to_b1x8.simps [of vec])
    have len: "length (f32_to_b1x8 vec) = (length vec + 7) div 8"
      using 1 [OF False] False unfolding unfold by simp
    have "bit (f32_to_b1x8 vec ! (i div 8)) (7 - i mod 8) \<longleftrightarrow> i < length vec \<and> f32_gt (vec ! i) f32_zero"
      if "i < 8 * length (f32_to_b1x8 vec)" for i
    proof (cases "i < 8")
      case True
      then show ?thesis
        using bit_chunk_to_byte [of "take 8 vec" i] False unfolding unfold by simp
    next
      case ge: False
      then have "i div 8 = Suc ((i - 8) div 8)" "i mod 8 = (i - 8) mod 8"
        by (simp_all add: le_div_geq le_mod_geq)
      moreover have "i - 8 < 8 * length ?rest" using that ge unfolding unfold by simp
      ultimately show ?thesis
        using 1 [OF False] ge False unfolding unfold by (simp add: less_diff_conv2)
    qed
    then show ?thesis using len by blast
  qed
qed

theorem f32_to_b1x8_bits_witness:
  "length (f32_to_b1x8 (replicate 9 0x3f800000)) = 2"
  using f32_to_b1x8_bits [of "replicate 9 0x3f800000"] by simp

section \<open>ThreadedUsearchIndex\<close>

text \<open>
  The functions of \<open>usearch::Index\<close> the wrapper calls, by the type of the vectors; \<open>get\<close> fills a
  buffer of the given length and answers how many vectors it found.
\<close>

record 'x usearch_lib =
  ul_dimensions :: "'x \<Rightarrow> nat"
  ul_reserve :: "nat \<Rightarrow> nat \<Rightarrow> 'x \<Rightarrow> unit result \<times> 'x"
  ul_capacity :: "'x \<Rightarrow> nat"
  ul_add_f32 :: "u64 \<Rightarrow> u32 list \<Rightarrow> 'x \<Rightarrow> unit result \<times> 'x"
  ul_add_b1 :: "u64 \<Rightarrow> u8 list \<Rightarrow> 'x \<Rightarrow> unit result \<times> 'x"
  ul_remove :: "u64 \<Rightarrow> 'x \<Rightarrow> nat result \<times> 'x"
  ul_get :: "u64 \<Rightarrow> nat \<Rightarrow> 'x \<Rightarrow> (nat \<times> u32 list) result"
  ul_search_f32 :: "u32 list \<Rightarrow> nat \<Rightarrow> 'x \<Rightarrow> (u64 list \<times> u32 list) result"
  ul_search_b1 :: "u8 list \<Rightarrow> nat \<Rightarrow> 'x \<Rightarrow> (u64 list \<times> u32 list) result"
  ul_filtered_f32 :: "u32 list \<Rightarrow> nat \<Rightarrow> (u64 \<Rightarrow> bool) \<Rightarrow> 'x \<Rightarrow> (u64 list \<times> u32 list) result"
  ul_filtered_b1 :: "u8 list \<Rightarrow> nat \<Rightarrow> (u64 \<Rightarrow> bool) \<Rightarrow> 'x \<Rightarrow> (u64 list \<times> u32 list) result"

record 'x threaded =
  th_inner :: 'x
  th_threads :: nat
  th_quantization :: scalar_kind
  th_space_type :: metric_kind

definition threaded_new :: "'x result \<Rightarrow> quantization \<Rightarrow> metric_kind \<Rightarrow> nat \<Rightarrow> 'x threaded result" where
  "threaded_new created quantization metric threads =
     and_then created (\<lambda>inner. Ok \<lparr>th_inner = inner, th_threads = threads,
       th_quantization = scalar_kind_of quantization, th_space_type = metric\<rparr>)"

definition vector_dim :: "vector \<Rightarrow> nat option" where
  "vector_dim v = (if length v = 0 then None else Some (length v))"

definition threaded_matches ::
  "'x threaded \<Rightarrow> vector \<Rightarrow> u64 list \<times> u32 list \<Rightarrow> (primary_id \<times> distance) result list" where
  "threaded_matches th v found =
     map (\<lambda>(k, distance).
         and_then (space_of_metric (th_space_type th)) (\<lambda>space.
         and_then (distance_try_from distance space (vector_dim v)) (\<lambda>dist. Ok (PrimaryId k, dist))))
       (zip (fst found) (snd found))"

definition set_inner :: "'x threaded \<Rightarrow> 'r \<times> 'x \<Rightarrow> 'r \<times> 'x threaded" where
  "set_inner th answer = (fst answer, th\<lparr>th_inner := snd answer\<rparr>)"

definition threaded_add :: "'x usearch_lib \<Rightarrow> primary_id \<Rightarrow> vector \<Rightarrow> 'x threaded \<Rightarrow> unit result \<times> 'x threaded" where
  "threaded_add lib p v th =
     (if th_quantization th = SkB1
      then set_inner th (ul_add_b1 lib (primary_raw p) (f32_to_b1x8 v) (th_inner th))
      else set_inner th (ul_add_f32 lib (primary_raw p) v (th_inner th)))"

definition threaded_remove :: "'x usearch_lib \<Rightarrow> primary_id \<Rightarrow> 'x threaded \<Rightarrow> bool result \<times> 'x threaded" where
  "threaded_remove lib p th =
     (case ul_remove lib (primary_raw p) (th_inner th) of
        (r, x) \<Rightarrow> (and_then r (\<lambda>n. Ok (n \<noteq> 0)), th\<lparr>th_inner := x\<rparr>))"

definition threaded_get_vector :: "'x usearch_lib \<Rightarrow> primary_id \<Rightarrow> 'x threaded \<Rightarrow> vector option result" where
  "threaded_get_vector lib p th =
     and_then (ul_get lib (primary_raw p) (ul_dimensions lib (th_inner th)) (th_inner th)) (\<lambda>(n, buffer).
       Ok (if n = 0 then None else Some buffer))"

definition threaded_search ::
  "'x usearch_lib \<Rightarrow> vector \<Rightarrow> nat \<Rightarrow> 'x threaded \<Rightarrow> (primary_id \<times> distance) result list result" where
  "threaded_search lib v limit th =
     and_then
       (if th_quantization th = SkB1 then ul_search_b1 lib (f32_to_b1x8 v) limit (th_inner th)
        else ul_search_f32 lib v limit (th_inner th))
       (\<lambda>found. Ok (threaded_matches th v found))"

definition threaded_filtered_search ::
  "'x usearch_lib \<Rightarrow> vector \<Rightarrow> nat \<Rightarrow> (primary_id \<Rightarrow> bool) \<Rightarrow> 'x threaded \<Rightarrow> (primary_id \<times> distance) result list result" where
  "threaded_filtered_search lib v limit keep th =
     and_then
       (if th_quantization th = SkB1
        then ul_filtered_b1 lib (f32_to_b1x8 v) limit (\<lambda>row_id. keep (PrimaryId row_id)) (th_inner th)
        else ul_filtered_f32 lib v limit (\<lambda>row_id. keep (PrimaryId row_id)) (th_inner th))
       (\<lambda>found. Ok (threaded_matches th v found))"

definition threaded_index :: "'x usearch_lib \<Rightarrow> 'x threaded usearch_index" where
  "threaded_index lib =
     \<lparr>ui_reserve = (\<lambda>size th. set_inner th (ul_reserve lib size (th_threads th) (th_inner th))),
      ui_capacity = (\<lambda>th. ul_capacity lib (th_inner th)),
      ui_add = threaded_add lib,
      ui_remove = threaded_remove lib,
      ui_search = threaded_search lib,
      ui_filtered_search = threaded_filtered_search lib,
      ui_get_vector = threaded_get_vector lib\<rparr>"

text \<open>
  The documented contract of the library: what it stores is a set of keys; reserving makes room
  or fails; an addition stores the key or fails; a removal answers how many vectors it removed.
\<close>

definition adds_key :: "('x \<Rightarrow> 'k set) \<Rightarrow> ('x \<Rightarrow> nat) \<Rightarrow> 'k \<Rightarrow> 'x \<Rightarrow> unit result \<times> 'x \<Rightarrow> bool" where
  "adds_key stored capacity k x answer \<longleftrightarrow>
     capacity (snd answer) = capacity x \<and>
     stored (snd answer) = (if is_ok (fst answer) then insert k (stored x) else stored x)"

definition library_ok :: "'x usearch_lib \<Rightarrow> ('x \<Rightarrow> u64 set) \<Rightarrow> bool" where
  "library_ok lib stored \<longleftrightarrow>
     (\<forall>x. finite (stored x)) \<and>
     (\<forall>n threads x. case ul_reserve lib n threads x of (r, x') \<Rightarrow>
        stored x' = stored x \<and> (is_ok r \<longrightarrow> n \<le> ul_capacity lib x')) \<and>
     (\<forall>k v x. adds_key stored (ul_capacity lib) k x (ul_add_f32 lib k v x)) \<and>
     (\<forall>k v x. adds_key stored (ul_capacity lib) k x (ul_add_b1 lib k v x)) \<and>
     (\<forall>k x. case ul_remove lib k x of (r, x') \<Rightarrow>
        r = Ok (if k \<in> stored x then 1 else 0) \<and> stored x' = stored x - {k} \<and> ul_capacity lib x' = ul_capacity lib x)"

definition threaded_ids :: "('x \<Rightarrow> u64 set) \<Rightarrow> 'x threaded \<Rightarrow> primary_id set" where
  "threaded_ids stored th = PrimaryId ` stored (th_inner th)"

lemma in_threaded_ids: "p \<in> threaded_ids stored th \<longleftrightarrow> primary_raw p \<in> stored (th_inner th)"
  by (cases p) (auto simp: threaded_ids_def)

text \<open>The wrapper of a library that keeps its contract keeps the one of the interface.\<close>

lemma threaded_laws:
  assumes "library_ok lib stored"
  shows "index_laws (threaded_index lib) (threaded_ids stored)"
proof
  note ok = assms [unfolded library_ok_def]
  show "finite (threaded_ids stored i)" for i
    using ok by (simp add: threaded_ids_def)
  have add: "adds_key (threaded_ids stored) (ui_capacity (threaded_index lib)) p i (ui_add (threaded_index lib) p v i)"
    for p v i
  proof -
    have "adds_key stored (ul_capacity lib) k x (ul_add_f32 lib k v x)"
      "adds_key stored (ul_capacity lib) k x (ul_add_b1 lib k w x)" for k v w x
      using ok by blast+
    then show ?thesis
      by (cases p) (auto simp: threaded_index_def threaded_add_def set_inner_def adds_key_def threaded_ids_def)
  qed
  show "threaded_ids stored i' = insert p (threaded_ids stored i) \<and>
      ui_capacity (threaded_index lib) i' = ui_capacity (threaded_index lib) i"
    if "ui_add (threaded_index lib) p v i = (Ok u, i')" for p v i u i'
    using add [of p i v] that by (simp add: adds_key_def)
  show "threaded_ids stored i' = threaded_ids stored i \<and>
      ui_capacity (threaded_index lib) i' = ui_capacity (threaded_index lib) i"
    if "ui_add (threaded_index lib) p v i = (Err e, i')" for p v i e i'
    using add [of p i v] that by (simp add: adds_key_def)
  have "case ul_reserve lib n threads x of (r, x') \<Rightarrow> stored x' = stored x \<and> (is_ok r \<longrightarrow> n \<le> ul_capacity lib x')"
    for n threads x by (rule ok [THEN conjunct2, THEN conjunct1, THEN spec, THEN spec, THEN spec])
  then have reserve: "stored (snd (ul_reserve lib n threads x)) = stored x"
    "is_ok (fst (ul_reserve lib n threads x)) \<Longrightarrow> n \<le> ul_capacity lib (snd (ul_reserve lib n threads x))" for n threads x
    by (simp_all add: case_prod_beta)
  show "threaded_ids stored i' = threaded_ids stored i" if "ui_reserve (threaded_index lib) n i = (r, i')" for n i r i'
    using that reserve(1) by (auto simp: threaded_index_def set_inner_def threaded_ids_def)
  show "n \<le> ui_capacity (threaded_index lib) i'" if "ui_reserve (threaded_index lib) n i = (Ok u, i')" for n i u i'
    using that reserve(2) [of n "th_threads i" "th_inner i"] by (auto simp: threaded_index_def set_inner_def)
  show "b = Ok (p \<in> threaded_ids stored i) \<and> threaded_ids stored i' = threaded_ids stored i - {p} \<and>
      ui_capacity (threaded_index lib) i' = ui_capacity (threaded_index lib) i"
    if "ui_remove (threaded_index lib) p i = (b, i')" for p i b i'
  proof -
    obtain r x where r: "ul_remove lib (primary_raw p) (th_inner i) = (r, x)" by fastforce
    have "case ul_remove lib (primary_raw p) (th_inner i) of (r, x') \<Rightarrow>
        r = Ok (if primary_raw p \<in> stored (th_inner i) then 1 else 0) \<and>
        stored x' = stored (th_inner i) - {primary_raw p} \<and> ul_capacity lib x' = ul_capacity lib (th_inner i)"
      by (rule ok [THEN conjunct2, THEN conjunct2, THEN conjunct2, THEN conjunct2, THEN spec, THEN spec])
    then show ?thesis
      using that r in_threaded_ids [of _ stored] by (auto simp: threaded_index_def threaded_remove_def primary_id.expand)
  qed
qed

text \<open>A library with memory to spare: it reserves what it is asked for, and adds a new key below its capacity.\<close>

definition library_roomy :: "'x usearch_lib \<Rightarrow> ('x \<Rightarrow> u64 set) \<Rightarrow> bool" where
  "library_roomy lib stored \<longleftrightarrow>
     (\<forall>n threads x. is_ok (fst (ul_reserve lib n threads x))) \<and>
     (\<forall>k v x. k \<notin> stored x \<and> card (stored x) < ul_capacity lib x \<longrightarrow> is_ok (fst (ul_add_f32 lib k v x))) \<and>
     (\<forall>k v x. k \<notin> stored x \<and> card (stored x) < ul_capacity lib x \<longrightarrow> is_ok (fst (ul_add_b1 lib k v x)))"

lemma threaded_reliable:
  assumes "library_ok lib stored" and roomy: "library_roomy lib stored"
  shows "reliable_index (threaded_index lib) (threaded_ids stored)"
proof (intro reliable_index.intro reliable_index_axioms.intro threaded_laws assms(1))
  have reserve: "is_ok (fst (ul_reserve lib n threads x))" for n threads x
    using roomy by (simp add: library_roomy_def)
  show "\<exists>i'. ui_reserve (threaded_index lib) n i = (Ok (), i')" for n i
    using reserve [of n "th_threads i" "th_inner i"] by (auto simp: threaded_index_def set_inner_def is_ok_iff)
  show "\<exists>i'. ui_add (threaded_index lib) p v i = (Ok (), i')"
    if "p \<notin> threaded_ids stored i" "card (threaded_ids stored i) < ui_capacity (threaded_index lib) i" for p i v
  proof -
    have "inj_on PrimaryId (stored (th_inner i))" by (simp add: inj_on_def)
    then have "card (threaded_ids stored i) = card (stored (th_inner i))" by (simp add: threaded_ids_def card_image)
    then have "is_ok (fst (ul_add_f32 lib (primary_raw p) w (th_inner i)))" "is_ok (fst (ul_add_b1 lib (primary_raw p) b (th_inner i)))" for w b
      using that roomy by (simp_all add: library_roomy_def in_threaded_ids threaded_index_def)
    then show ?thesis
      by (auto simp: threaded_index_def threaded_add_def set_inner_def is_ok_iff)
  qed
qed

end
