(* ===== verification/Permits.thy ===== *)
theory Permits
  imports Prelude
begin

text \<open>
  Model of the module \<open>operation\<close> of \<open>crates/vector-store/src/vs_index/usearch.rs\<close>: the permits
  by which the actor of an index lets only one family of operations run at a time, and removals
  and reservations alone. \<open>permit\<close> is what a permit does when it is granted. How the actor waits
  for it is a machine of its own, in the atomic steps of the source (a load of the counter, a
  decrement, a notification), because the tasks that drop their permits run concurrently: it is
  proved that the machine grants a permit only when \<open>permit\<close> does and that no wake-up is lost.
\<close>

section \<open>Permits\<close>

datatype op_mode = ModeReserve | ModeInsert | ModeRemove | ModeSearch

fun is_exclusive :: "op_mode \<Rightarrow> bool" where
  "is_exclusive ModeInsert = False"
| "is_exclusive ModeSearch = False"
| "is_exclusive ModeReserve = True"
| "is_exclusive ModeRemove = True"

record operation_permits =
  op_mode :: op_mode
  op_counter :: nat

definition operation_new :: operation_permits where
  "operation_new = \<lparr>op_mode = ModeInsert, op_counter = 0\<rparr>"

text \<open>The permit that is granted, or \<open>None\<close> while \<open>permit\<close> has to wait.\<close>

definition permit :: "op_mode \<Rightarrow> operation_permits \<Rightarrow> operation_permits option" where
  "permit mode op =
     (if op_mode op \<noteq> mode \<and> op_counter op \<noteq> 0 then None
      else if is_exclusive mode \<and> op_counter op \<noteq> 0 then None
      else Some (op\<lparr>op_mode := mode, op_counter := op_counter op + 1\<rparr>))"

definition drop_permit :: "operation_permits \<Rightarrow> operation_permits" where
  "drop_permit op = op\<lparr>op_counter := op_counter op - 1\<rparr>"

lemma permit_Some:
  "permit mode op = Some op' \<longleftrightarrow>
     op_counter op = 0 \<and> op' = op\<lparr>op_mode := mode, op_counter := 1\<rparr> \<or>
     op_counter op \<noteq> 0 \<and> op_mode op = mode \<and> \<not> is_exclusive mode \<and> op' = op\<lparr>op_counter := op_counter op + 1\<rparr>"
  by (cases op) (auto simp: permit_def)

section \<open>Waiting for a permit\<close>

text \<open>
  Where the actor is: outside; before the test of the mode; waiting because of the mode; before
  the test of the counter; waiting because of the counter.
\<close>

datatype permit_pc = Outside | TestMode op_mode | WaitMode op_mode | TestCounter op_mode | WaitCounter op_mode

text \<open>\<open>Notify\<close> keeps at most one permit; a dropped permit that was the last has still to notify.\<close>

record permit_machine =
  pm_op :: operation_permits
  pm_notified :: bool
  pm_notifying :: nat
  pm_pc :: permit_pc

definition permit_machine_new :: permit_machine where
  "permit_machine_new = \<lparr>pm_op = operation_new, pm_notified = False, pm_notifying = 0, pm_pc = Outside\<rparr>"

inductive permit_step :: "permit_machine \<Rightarrow> permit_machine \<Rightarrow> bool" where
  enter: "pm_pc s = Outside \<Longrightarrow> permit_step s (s\<lparr>pm_pc := TestMode m\<rparr>)"
| same_mode: "pm_pc s = TestMode m \<Longrightarrow> op_mode (pm_op s) = m \<Longrightarrow> permit_step s (s\<lparr>pm_pc := TestCounter m\<rparr>)"
| switch_mode: "pm_pc s = TestMode m \<Longrightarrow> op_mode (pm_op s) \<noteq> m \<Longrightarrow> op_counter (pm_op s) = 0 \<Longrightarrow>
    permit_step s (s\<lparr>pm_op := (pm_op s)\<lparr>op_mode := m\<rparr>, pm_pc := TestCounter m\<rparr>)"
| wait_mode: "pm_pc s = TestMode m \<Longrightarrow> op_mode (pm_op s) \<noteq> m \<Longrightarrow> op_counter (pm_op s) \<noteq> 0 \<Longrightarrow>
    permit_step s (s\<lparr>pm_pc := WaitMode m\<rparr>)"
| wake_mode: "pm_pc s = WaitMode m \<Longrightarrow> pm_notified s \<Longrightarrow>
    permit_step s (s\<lparr>pm_notified := False, pm_pc := TestMode m\<rparr>)"
| grant: "pm_pc s = TestCounter m \<Longrightarrow> \<not> is_exclusive m \<or> op_counter (pm_op s) = 0 \<Longrightarrow>
    permit_step s (s\<lparr>pm_op := (pm_op s)\<lparr>op_counter := op_counter (pm_op s) + 1\<rparr>, pm_pc := Outside\<rparr>)"
| wait_counter: "pm_pc s = TestCounter m \<Longrightarrow> is_exclusive m \<Longrightarrow> op_counter (pm_op s) \<noteq> 0 \<Longrightarrow>
    permit_step s (s\<lparr>pm_pc := WaitCounter m\<rparr>)"
| wake_counter: "pm_pc s = WaitCounter m \<Longrightarrow> pm_notified s \<Longrightarrow>
    permit_step s (s\<lparr>pm_notified := False, pm_pc := TestCounter m\<rparr>)"
| drop_last: "op_counter (pm_op s) = 1 \<Longrightarrow>
    permit_step s (s\<lparr>pm_op := drop_permit (pm_op s), pm_notifying := pm_notifying s + 1\<rparr>)"
| drop_one: "op_counter (pm_op s) > 1 \<Longrightarrow> permit_step s (s\<lparr>pm_op := drop_permit (pm_op s)\<rparr>)"
| notify_one: "pm_notifying s > 0 \<Longrightarrow>
    permit_step s (s\<lparr>pm_notified := True, pm_notifying := pm_notifying s - 1\<rparr>)"

inductive permit_reachable :: "permit_machine \<Rightarrow> bool" where
  start: "permit_reachable permit_machine_new"
| step: "permit_reachable s \<Longrightarrow> permit_step s s' \<Longrightarrow> permit_reachable s'"

text \<open>The mode a granted permit is for, and the wake-up a waiting actor can rely on.\<close>

fun waits :: "permit_pc \<Rightarrow> bool" where
  "waits (WaitMode m) = True"
| "waits (WaitCounter m) = True"
| "waits _ = False"

fun mode_settled :: "permit_pc \<Rightarrow> op_mode \<Rightarrow> bool" where
  "mode_settled (TestCounter m) mode = (mode = m)"
| "mode_settled (WaitCounter m) mode = (mode = m)"
| "mode_settled _ mode = True"

definition permit_inv :: "permit_machine \<Rightarrow> bool" where
  "permit_inv s \<longleftrightarrow>
     mode_settled (pm_pc s) (op_mode (pm_op s)) \<and>
     (waits (pm_pc s) \<and> op_counter (pm_op s) = 0 \<longrightarrow> pm_notified s \<or> pm_notifying s > 0)"

lemma permit_step_inv: "permit_step s s' \<Longrightarrow> permit_inv s \<Longrightarrow> permit_inv s'"
  by (induction rule: permit_step.induct) (auto simp: permit_inv_def drop_permit_def)

lemma permit_reachable_inv: "permit_reachable s \<Longrightarrow> permit_inv s"
proof (induction rule: permit_reachable.induct)
  case start
  show ?case by (simp add: permit_inv_def permit_machine_new_def)
next
  case (step s s')
  then show ?case by (blast intro: permit_step_inv)
qed

section \<open>Properties\<close>

text \<open>
  No wake-up is lost. In every reachable state of the waiting machine, whatever the
  interleaving of the actor with the tasks that drop their permits, an actor that waits for its
  permit while no permit is held either has been notified or is about to be by a task that has
  dropped the last permit and not notified yet; so it never sleeps for ever on a free index.
\<close>

theorem no_lost_wakeup:
  assumes "permit_reachable s" and "waits (pm_pc s)" and "op_counter (pm_op s) = 0"
  shows "(\<exists>s'. permit_step s s' \<and> \<not> waits (pm_pc s')) \<or>
    (\<exists>s' s''. permit_step s s' \<and> permit_step s' s'' \<and> \<not> waits (pm_pc s''))"
proof -
  have wake: "\<exists>s'. permit_step s1 s' \<and> \<not> waits (pm_pc s')" if "pm_notified s1" "pm_pc s1 = pm_pc s" for s1
  proof (cases "pm_pc s")
    case (WaitMode m)
    then show ?thesis using permit_step.wake_mode [of s1 m] that by (intro exI) auto
  next
    case (WaitCounter m)
    then show ?thesis using permit_step.wake_counter [of s1 m] that by (intro exI) auto
  qed (use assms(2) in simp_all)
  consider "pm_notified s" | "pm_notifying s > 0"
    using permit_reachable_inv [OF assms(1)] assms(2,3) by (auto simp: permit_inv_def)
  then show ?thesis
  proof cases
    case 2
    let ?s1 = "s\<lparr>pm_notified := True, pm_notifying := pm_notifying s - 1\<rparr>"
    have "permit_step s ?s1" using 2 by (rule permit_step.notify_one)
    then show ?thesis using wake [of ?s1] by auto
  qed (use wake in blast)
qed

text \<open>The steps to a state where the actor waits for a removal while nobody holds a permit.\<close>

lemma permit_reachable_waiting:
  "permit_reachable \<lparr>pm_op = \<lparr>op_mode = ModeInsert, op_counter = 0\<rparr>, pm_notified = False, pm_notifying = 1,
     pm_pc = WaitMode ModeRemove\<rparr>"
proof -
  note next_state = permit_reachable.step
  have "permit_reachable (permit_machine_new\<lparr>pm_pc := TestMode ModeInsert\<rparr>)"
    by (rule next_state [OF permit_reachable.start permit_step.enter]) (simp add: permit_machine_new_def)
  from next_state [OF this permit_step.same_mode, of ModeInsert]
  have "permit_reachable (permit_machine_new\<lparr>pm_pc := TestCounter ModeInsert\<rparr>)"
    by (simp add: permit_machine_new_def operation_new_def)
  from next_state [OF this permit_step.grant, of ModeInsert]
  have "permit_reachable (permit_machine_new\<lparr>pm_op := \<lparr>op_mode = ModeInsert, op_counter = 1\<rparr>\<rparr>)"
    by (simp add: permit_machine_new_def operation_new_def)
  from next_state [OF this permit_step.enter, of ModeRemove]
  have "permit_reachable (permit_machine_new\<lparr>pm_op := \<lparr>op_mode = ModeInsert, op_counter = 1\<rparr>, pm_pc := TestMode ModeRemove\<rparr>)"
    by (simp add: permit_machine_new_def)
  from next_state [OF this permit_step.wait_mode, of ModeRemove]
  have "permit_reachable (permit_machine_new\<lparr>pm_op := \<lparr>op_mode = ModeInsert, op_counter = 1\<rparr>, pm_pc := WaitMode ModeRemove\<rparr>)"
    by (simp add: permit_machine_new_def)
  from next_state [OF this permit_step.drop_last] show ?thesis
    by (simp add: permit_machine_new_def drop_permit_def)
qed

theorem no_lost_wakeup_witness:
  "\<exists>s s' s''. permit_reachable s \<and> pm_pc s = WaitMode ModeRemove \<and>
     (permit_step s s' \<and> \<not> waits (pm_pc s') \<or> permit_step s s' \<and> permit_step s' s'' \<and> \<not> waits (pm_pc s''))"
  using no_lost_wakeup [OF permit_reachable_waiting] permit_reachable_waiting by fastforce

text \<open>The machine grants a permit only where \<open>permit\<close> does, with the same effect.\<close>

lemma granted_by_permit:
  assumes "permit_reachable s" and "pm_pc s = TestCounter m" and "permit_step s s'" and "pm_pc s' = Outside"
  shows "permit m (pm_op s) = Some (pm_op s')"
  using assms(3,2,4) permit_reachable_inv [OF assms(1)]
  by (cases rule: permit_step.cases) (auto simp: permit_inv_def permit_def)

end
