(* ===== verification/Memory.thy ===== *)
theory Memory
  imports Distances
begin

text \<open>
  Model of \<open>crates/vector-store/src/memory.rs\<close>: the actor that tells the indexes whether they
  may allocate. What the system reports (memory available and used) comes with each event.
  \<open>f64\<close> arithmetic is written out for the one product the actor computes: an integer is rounded
  to 53 significant bits, to the nearest even, as is its exact product with the binary fraction
  that the literal \<open>0.01\<close> denotes.
\<close>

section \<open>The memory limit\<close>

definition round_bits :: "nat \<Rightarrow> nat \<Rightarrow> nat" where
  "round_bits b n =
     (if n < 2 ^ b then n
      else let s = nat_log2 n + 1 - b; q = n div 2 ^ s; r = n mod 2 ^ s;
               up = 2 ^ (s - 1) < r \<or> r = 2 ^ (s - 1) \<and> odd q
           in (if up then q + 1 else q) * 2 ^ s)"

text \<open>\<open>MEMORY_SAFETY_BUFFER_RATIO\<close>, \<open>0.01\<close>, is this significand over 2^59.\<close>

definition RATIO_SIGNIFICAND :: nat where
  "RATIO_SIGNIFICAND = 5764607523034235"

definition ratio_of :: "nat \<Rightarrow> nat" where
  "ratio_of available = round_bits 53 (round_bits 53 available * RATIO_SIGNIFICAND) div 2 ^ 59"

definition MEMORY_SAFETY_BUFFER_MIN :: nat where
  "MEMORY_SAFETY_BUFFER_MIN = 200 * 1024 * 1024"

definition calculate_memory_limit :: "nat \<Rightarrow> nat option \<Rightarrow> nat" where
  "calculate_memory_limit available config_limit =
     (let safety_buffer = max (ratio_of available) MEMORY_SAFETY_BUFFER_MIN;
          system_limit = available - safety_buffer
      in case config_limit of Some limit \<Rightarrow> min limit system_limit | None \<Rightarrow> system_limit)"

section \<open>The actor\<close>

datatype allocate = CanAllocate | CannotAllocate

text \<open>The counters reported to \<open>Internals\<close>: how often usage crossed the limit, in each direction.\<close>

record crossings =
  below_limit :: nat
  above_limit :: nat

definition can_allocate :: "nat \<Rightarrow> nat \<Rightarrow> allocate \<Rightarrow> crossings \<Rightarrow> allocate \<times> crossings" where
  "can_allocate used limit current c =
     (if used < limit
      then (CanAllocate, if current = CannotAllocate then c\<lparr>below_limit := below_limit c + 1\<rparr> else c)
      else (CannotAllocate, if current = CanAllocate then c\<lparr>above_limit := above_limit c + 1\<rparr> else c))"

record memory_config =
  mc_limit :: "nat option"
  mc_interval :: "nat option"

definition MEMORY_INFO_REFRESH_INTERVAL :: nat where
  "MEMORY_INFO_REFRESH_INTERVAL = 1000000000"

definition interval_of :: "memory_config \<Rightarrow> nat" where
  "interval_of config = (case mc_interval config of Some d \<Rightarrow> d | None \<Rightarrow> MEMORY_INFO_REFRESH_INTERVAL)"

record memory_actor =
  ma_config :: memory_config
  ma_limit :: nat
  ma_interval :: nat
  ma_allocate :: allocate
  ma_crossings :: crossings

text \<open>An event carries what the system reports when it is handled.\<close>

datatype memory_event =
    ConfigChanged memory_config nat
  | Tick nat

definition memory_new :: "memory_config \<Rightarrow> nat \<Rightarrow> nat \<Rightarrow> memory_actor" where
  "memory_new config available used =
     (let limit = calculate_memory_limit available (mc_limit config);
          (allocate, c) = can_allocate used limit CanAllocate \<lparr>below_limit = 0, above_limit = 0\<rparr>
      in \<lparr>ma_config = config, ma_limit = limit, ma_interval = interval_of config, ma_allocate = allocate, ma_crossings = c\<rparr>)"

fun memory_step :: "memory_event \<Rightarrow> memory_actor \<Rightarrow> memory_actor" where
  "memory_step (ConfigChanged config available) m =
     (let m1 = (if mc_limit (ma_config m) \<noteq> mc_limit config
                then m\<lparr>ma_limit := calculate_memory_limit available (mc_limit config)\<rparr> else m);
          m2 = (if mc_interval (ma_config m) \<noteq> mc_interval config then m1\<lparr>ma_interval := interval_of config\<rparr> else m1)
      in m2\<lparr>ma_config := config\<rparr>)"
| "memory_step (Tick used) m =
     (let (allocate, c) = can_allocate used (ma_limit m) (ma_allocate m) (ma_crossings m)
      in m\<lparr>ma_allocate := allocate, ma_crossings := c\<rparr>)"

fun memory_run :: "memory_event list \<Rightarrow> memory_actor \<Rightarrow> memory_actor" where
  "memory_run [] m = m"
| "memory_run (e # es) m = memory_run es (memory_step e m)"

section \<open>Rounding\<close>

lemma round_bits_error:
  assumes "1 \<le> b"
  shows "2 ^ b * round_bits b n \<le> (2 ^ b + 1) * n" and "(2 ^ b - 1) * n \<le> 2 ^ b * round_bits b n"
proof -
  have "2 ^ b * round_bits b n \<le> (2 ^ b + 1) * n \<and> 2 ^ b * n \<le> 2 ^ b * round_bits b n + n"
  proof (cases "n < 2 ^ b")
    case False
    then have n: "0 < n" by (metis gr0I zero_less_numeral zero_less_power)
    define s where "s = nat_log2 n + 1 - b"
    define q where "q = n div 2 ^ s"
    define r where "r = n mod 2 ^ s"
    have log: "2 ^ nat_log2 n \<le> n" "n < 2 ^ Suc (nat_log2 n)" using nat_log2_bounds [OF n] by simp_all
    have "b \<le> nat_log2 n"
    proof (rule ccontr)
      assume "\<not> b \<le> nat_log2 n"
      then have "(2::nat) ^ Suc (nat_log2 n) \<le> 2 ^ b" by (intro power_increasing) simp_all
      then show False using log False by linarith
    qed
    then have s: "0 < s" and sb: "2 ^ b * 2 ^ (s - 1) = (2::nat) ^ nat_log2 n"
      by (simp_all add: s_def flip: power_add)
    have half: "(2::nat) ^ s = 2 * 2 ^ (s - 1)" using s by (cases s) simp_all
    have nq: "n = q * 2 ^ s + r" "r < 2 ^ s"
      unfolding q_def r_def by (simp_all only: div_mult_mod_eq) simp
    have r: "round_bits b n = (if 2 ^ (s - 1) < r \<or> r = 2 ^ (s - 1) \<and> odd q then q + 1 else q) * 2 ^ s"
      using False by (simp add: round_bits_def s_def q_def r_def Let_def)
    have up: "round_bits b n \<le> n + 2 ^ (s - 1)" and down: "n \<le> round_bits b n + 2 ^ (s - 1)"
      unfolding r using nq half by (auto simp: algebra_simps)
    have "2 ^ b * round_bits b n \<le> 2 ^ b * n + 2 ^ nat_log2 n"
      using mult_le_mono2 [OF up, of "2 ^ b"] by (simp only: distrib_left sb)
    moreover have "2 ^ b * n \<le> 2 ^ b * round_bits b n + 2 ^ nat_log2 n"
      using mult_le_mono2 [OF down, of "2 ^ b"] by (simp only: distrib_left sb)
    ultimately show ?thesis using log(1) by (simp add: algebra_simps)
  qed (simp add: round_bits_def)
  then show "2 ^ b * round_bits b n \<le> (2 ^ b + 1) * n" and "(2 ^ b - 1) * n \<le> 2 ^ b * round_bits b n"
    by (simp_all add: diff_mult_distrib le_diff_conv)
qed

text \<open>The buffer is one percent, up to one part in 2^50 and the truncation.\<close>

lemma ratio_upper: "ratio_of n * 100 * 2 ^ 50 \<le> n * (2 ^ 50 + 1)"
proof -
  let ?C = RATIO_SIGNIFICAND
  let ?a = "round_bits 53 n" and ?p = "round_bits 53 (round_bits 53 n * ?C)"
  have a: "2 ^ 53 * ?a \<le> (2 ^ 53 + 1) * n" and p: "2 ^ 53 * ?p \<le> (2 ^ 53 + 1) * (?a * ?C)"
    by (rule round_bits_error(1), simp)+
  have t: "ratio_of n * 2 ^ 59 \<le> ?p" by (simp add: ratio_of_def)
  have "ratio_of n * 100 * 2 ^ 50 * (2 ^ 59 * 2 ^ 53 * 2 ^ 53) = ratio_of n * 2 ^ 59 * (100 * 2 ^ 50 * 2 ^ 53 * 2 ^ 53)"
    by simp
  also have "\<dots> \<le> ?p * (100 * 2 ^ 50 * 2 ^ 53 * 2 ^ 53)"
    using t by (rule mult_le_mono1)
  also have "\<dots> = 2 ^ 53 * ?p * (100 * 2 ^ 50 * 2 ^ 53)" by simp
  also have "\<dots> \<le> (2 ^ 53 + 1) * (?a * ?C) * (100 * 2 ^ 50 * 2 ^ 53)"
    using p by (rule mult_le_mono1)
  also have "\<dots> = 2 ^ 53 * ?a * ((2 ^ 53 + 1) * ?C * (100 * 2 ^ 50))" by simp
  also have "\<dots> \<le> (2 ^ 53 + 1) * n * ((2 ^ 53 + 1) * ?C * (100 * 2 ^ 50))"
    using a by (rule mult_le_mono1)
  also have "\<dots> = n * ((2 ^ 53 + 1) * ((2 ^ 53 + 1) * ?C * (100 * 2 ^ 50)))" by simp
  also have "\<dots> \<le> n * ((2 ^ 50 + 1) * (2 ^ 59 * 2 ^ 53 * 2 ^ 53))"
    by (intro mult_le_mono2) (simp add: RATIO_SIGNIFICAND_def)
  also have "\<dots> = n * (2 ^ 50 + 1) * (2 ^ 59 * 2 ^ 53 * 2 ^ 53)" by simp
  finally show ?thesis by (simp only: mult_le_cancel2) simp
qed

section \<open>Properties\<close>

text \<open>
  The memory limit leaves the safety buffer free. It never exceeds the configured limit nor
  what is left of the available memory after 200 MiB; and when it is below the configured limit,
  what it holds back is 200 MiB or, up to the rounding of the floating-point product, one percent.
\<close>

theorem memory_limit_bounds:
  "calculate_memory_limit n c \<le> n - MEMORY_SAFETY_BUFFER_MIN \<and>
   (case c of Some l \<Rightarrow> calculate_memory_limit n c \<le> l | None \<Rightarrow> True) \<and>
   (c = Some (calculate_memory_limit n c) \<or>
    n - calculate_memory_limit n c \<le> MEMORY_SAFETY_BUFFER_MIN \<or>
    (n - calculate_memory_limit n c) * 100 * 2 ^ 50 \<le> n * (2 ^ 50 + 1))"
proof -
  let ?system = "n - max (ratio_of n) MEMORY_SAFETY_BUFFER_MIN"
  have limit: "calculate_memory_limit n c = (case c of Some l \<Rightarrow> min l ?system | None \<Rightarrow> ?system)"
    by (simp add: calculate_memory_limit_def Let_def)
  have "n - ?system \<le> MEMORY_SAFETY_BUFFER_MIN \<or> n - ?system \<le> ratio_of n"
    by (auto simp: max_def)
  then have "n - ?system \<le> MEMORY_SAFETY_BUFFER_MIN \<or> (n - ?system) * (100 * 2 ^ 50) \<le> n * (2 ^ 50 + 1)"
    using ratio_upper [of n] mult_le_mono1 [of "n - ?system" "ratio_of n" "100 * 2 ^ 50"] by (auto simp: mult.assoc)
  then show ?thesis
    unfolding limit by (auto simp: min_def split: option.splits)
qed

definition memory_inv :: "memory_actor \<Rightarrow> bool" where
  "memory_inv m \<longleftrightarrow>
     above_limit (ma_crossings m) = below_limit (ma_crossings m) + of_bool (ma_allocate m = CannotAllocate) \<and>
     (case mc_limit (ma_config m) of Some l \<Rightarrow> ma_limit m \<le> l | None \<Rightarrow> True) \<and>
     ma_interval m = interval_of (ma_config m)"

lemma limit_le_config: "c = Some l \<Longrightarrow> calculate_memory_limit n c \<le> l"
  by (simp add: calculate_memory_limit_def Let_def)

lemma memory_new_inv: "memory_inv (memory_new config available used)"
  by (auto simp: memory_inv_def memory_new_def can_allocate_def Let_def limit_le_config split: option.split)

lemma memory_step_inv: "memory_inv m \<Longrightarrow> memory_inv (memory_step e m)"
  by (cases e; cases "ma_allocate m")
    (auto simp: memory_inv_def can_allocate_def Let_def limit_le_config interval_of_def split: option.split option.split_asm)

lemma memory_run_inv: "memory_inv m \<Longrightarrow> memory_inv (memory_run es m)"
  by (induction es arbitrary: m) (auto intro: memory_step_inv)

lemma memory_run_append: "memory_run (es @ fs) m = memory_run fs (memory_run es m)"
  by (induction es arbitrary: m) simp_all

text \<open>
  The answer to the indexes follows the last measurement. After any sequence of measurements
  and changes of the configuration that ends with a measurement, allocation is allowed exactly
  when the memory used is below the limit; the limit and the interval are those of the current
  configuration, and the two counters differ by one exactly while allocation is refused.
\<close>

theorem memory_answer_current:
  "let m = memory_run (es @ [Tick used]) (memory_new config available used0)
   in (ma_allocate m = CanAllocate \<longleftrightarrow> used < ma_limit m) \<and>
      above_limit (ma_crossings m) = below_limit (ma_crossings m) + of_bool (ma_allocate m = CannotAllocate) \<and>
      (case mc_limit (ma_config m) of Some l \<Rightarrow> ma_limit m \<le> l | None \<Rightarrow> True) \<and>
      ma_interval m = interval_of (ma_config m)"
proof -
  have "memory_inv (memory_run (es @ [Tick used]) (memory_new config available used0))"
    by (intro memory_run_inv memory_new_inv)
  then show ?thesis
    by (simp add: memory_inv_def memory_run_append Let_def) (simp add: can_allocate_def)
qed

end
