(* ===== verification/Usearch.thy ===== *)
theory Usearch
  imports Usearch_Index Permits Memory Table_Search
begin

text \<open>
  Model of the second part of \<open>crates/vector-store/src/vs_index/usearch.rs\<close>: the actor of a vector
  index, with \<open>vs_index/actor.rs\<close>, \<open>vs_index/mod.rs\<close> and \<open>vs_index/validator.rs\<close>. The functions
  of the source come first: what a message is prepared to, what a task does to a partition, what
  a search answers. Then the actor, the channel to the workers and the tasks in flight are one
  system whose steps interleave freely: a partition is an object in a store, because tasks keep
  the object they were given when the actor drops it.
\<close>

section \<open>Messages\<close>

record search_filter =
  flt_restrictions :: "restriction list"
  flt_allow_filtering :: bool

datatype vs_index_search =
    Ann index_key vector nat "column_name list" nat
  | FilteredAnn index_key vector search_filter nat "column_name list" nat
  | Count index_key nat

datatype message = Modify vs_index_modify | Search vs_index_search

type_synonym column_answer = "column_name \<Rightarrow> cql_value option list option"
type_synonym ann_answer = "(primary_key list \<times> distance list \<times> column_answer) result"

text \<open>A reply on a one-shot channel, which is named by a number in the request.\<close>

datatype search_reply = AnnReply nat ann_answer | CountReply nat "nat result"

definition empty_column_values :: "column_name list \<Rightarrow> column_answer" where
  "empty_column_values return_columns = (\<lambda>c. if c \<in> set return_columns then Some [] else None)"

definition no_rows :: "nat \<Rightarrow> column_name list \<Rightarrow> search_reply" where
  "no_rows tx return_columns = AnnReply tx (Ok ([], [], empty_column_values return_columns))"

text \<open>Searches are received before modifications.\<close>

fun vs_recv ::
  "vs_index_search list \<Rightarrow> vs_index_modify list \<Rightarrow> (message \<times> vs_index_search list \<times> vs_index_modify list) option" where
  "vs_recv (s # ss) ms = Some (Search s, ss, ms)"
| "vs_recv [] (m # ms) = Some (Modify m, [], ms)"
| "vs_recv [] [] = None"

fun is_add :: "message \<Rightarrow> bool" where
  "is_add (Modify (VsAddVector _ _ _ _)) = True"
| "is_add _ = False"

text \<open>\<open>todo!()\<close> and \<open>unreachable!()\<close> are panics: it is proved that the actor never meets them.\<close>

fun mode_of :: "message \<Rightarrow> op_mode result" where
  "mode_of (Modify (VsAddVector _ _ _ _)) = Ok ModeInsert"
| "mode_of (Modify (VsRemoveVector _ _ _)) = Ok ModeRemove"
| "mode_of (Modify (VsRemovePartition _)) = Err (Panic ''not yet implemented'')"
| "mode_of (Search (Ann _ _ _ _ _)) = Ok ModeSearch"
| "mode_of (Search (FilteredAnn _ _ _ _ _ _)) = Ok ModeSearch"
| "mode_of (Search (Count _ _)) = Err (Panic ''internal error: entered unreachable code'')"

fun is_non_blocking :: "message \<Rightarrow> bool" where
  "is_non_blocking (Search (Ann _ _ _ _ _)) = True"
| "is_non_blocking _ = False"

definition check_memory_allocation :: "message \<Rightarrow> allocate \<Rightarrow> allocate \<Rightarrow> bool \<times> allocate" where
  "check_memory_allocation msg allocate prev =
     (if \<not> is_add msg then (True, prev) else (allocate \<noteq> CannotAllocate, allocate))"

definition embedding_dimensions :: "vector \<Rightarrow> nat \<Rightarrow> unit result" where
  "embedding_dimensions v dimensions =
     (if length v = 0 then Err (Bail ''Wrong embedding dimension'')
      else if length v \<noteq> dimensions then Err (Bail ''Wrong embedding dimension'')
      else Ok ())"

section \<open>PartitionState\<close>

definition RESERVE_INCREMENT_GLOBAL :: nat where "RESERVE_INCREMENT_GLOBAL = 1000000"
definition RESERVE_INCREMENT_LOCAL :: nat where "RESERVE_INCREMENT_LOCAL = 1000"

definition free_threshold :: "nat \<Rightarrow> nat \<Rightarrow> nat" where
  "free_threshold channel_size num_workers = channel_size + num_workers + 1"

record 'i partition_state =
  ps_partition_id :: partition_id
  ps_size :: nat
  ps_capacity :: nat
  ps_capacity_increment :: nat
  ps_free_threshold :: nat
  ps_idx :: 'i

definition partition_state_new :: "nat \<Rightarrow> nat \<Rightarrow> partition_id \<Rightarrow> 'i \<Rightarrow> 'i partition_state" where
  "partition_state_new channel_size num_workers q idx =
     \<lparr>ps_partition_id = q, ps_size = 0, ps_capacity = 0,
      ps_capacity_increment = (if is_global (partition_index_id q) then RESERVE_INCREMENT_GLOBAL else RESERVE_INCREMENT_LOCAL),
      ps_free_threshold = free_threshold channel_size num_workers, ps_idx = idx\<rparr>"

definition needs_more_capacity :: "'i partition_state \<Rightarrow> nat option" where
  "needs_more_capacity ps =
     (if ps_capacity ps - ps_size ps < ps_free_threshold ps then Some (ps_capacity ps + ps_capacity_increment ps) else None)"

record index_state =
  ixs_dimensions :: nat
  ixs_size :: nat
  ixs_operation :: operation_permits

definition index_state_new :: "nat \<Rightarrow> index_state" where
  "index_state_new dimensions = \<lparr>ixs_dimensions = dimensions, ixs_size = 0, ixs_operation = operation_new\<rparr>"

section \<open>preprocess\<close>

text \<open>
  The actor's maps; \<open>partitions\<close> maps to the address of the object. No operation depends on the
  order of the two \<open>BTreeMap\<close>s.
\<close>

record 'i usearch =
  us_states :: "index_id \<Rightarrow> index_state option"
  us_partitions :: "partition_id \<Rightarrow> nat option"
  us_store :: "'i partition_state list"

text \<open>What the actor is given: the interface of the index and the shape of the runtime.\<close>

record 'i usearch_params =
  up_index :: "'i usearch_index"
  up_driver :: driver
  up_dimensions :: nat
  up_channel_size :: nat
  up_num_workers :: nat

definition find_partition :: "'i usearch \<Rightarrow> partition_id \<Rightarrow> (index_id \<times> nat) option" where
  "find_partition us q =
     (case us_states us (partition_index_id q) of
        None \<Rightarrow> None
      | Some _ \<Rightarrow> map_option (Pair (partition_index_id q)) (us_partitions us q))"

definition add_partition :: "'i usearch_params \<Rightarrow> partition_id \<Rightarrow> 'i \<Rightarrow> 'i usearch \<Rightarrow> 'i usearch" where
  "add_partition P q idx us =
     (let x = partition_index_id q
      in \<lparr>us_states = (if us_states us x = None then (us_states us)(x \<mapsto> index_state_new (up_dimensions P)) else us_states us),
          us_partitions = (us_partitions us)(q \<mapsto> length (us_store us)),
          us_store = us_store us @ [partition_state_new (up_channel_size P) (up_num_workers P) q idx]\<rparr>)"

text \<open>
  The message to dispatch with its index state and partition, if any, and the replies sent at
  once. \<open>created\<close> is what \<open>index_fn\<close> answers if it is called.
\<close>

definition preprocess ::
  "'i usearch_params \<Rightarrow> 'i result \<Rightarrow> table \<Rightarrow> message \<Rightarrow> 'i usearch \<Rightarrow>
   ((index_id \<times> nat \<times> message) option \<times> search_reply list) result \<times> 'i usearch" where
  "preprocess P created t msg us =
     (case msg of
        Modify (VsAddVector q p v pr) \<Rightarrow>
          (case us_partitions us q of
             Some a \<Rightarrow> (Ok (map_option (\<lambda>_. (partition_index_id q, a, msg)) (us_states us (partition_index_id q)), []), us)
           | None \<Rightarrow>
               (case created of
                  Inl e \<Rightarrow> (Ok (None, []), us)
                | Inr idx \<Rightarrow> (Ok (Some (partition_index_id q, length (us_store us), msg), []), add_partition P q idx us)))
      | Modify (VsRemoveVector q p pr) \<Rightarrow>
          (Ok (map_option (\<lambda>(x, a). (x, a, msg)) (find_partition us q), []), us)
      | Modify (VsRemovePartition q) \<Rightarrow>
          (Ok (None, []), us\<lparr>us_partitions := (us_partitions us)(q := None)\<rparr>)
      | Search (Ann key v limit cols tx) \<Rightarrow>
          (and_then (search_partition_id t key None) (\<lambda>found.
             Ok (case Option.bind found (\<lambda>(q, _). find_partition us q) of
                   None \<Rightarrow> (None, [no_rows tx cols])
                 | Some (x, a) \<Rightarrow> (Some (x, a, msg), []))), us)
      | Search (FilteredAnn key v flt limit cols tx) \<Rightarrow>
          (and_then (search_partition_id t key (Some (flt_restrictions flt))) (\<lambda>found.
             Ok (case Option.bind found (\<lambda>(q, rest). map_option (Pair rest) (find_partition us q)) of
                   None \<Rightarrow> (None, [no_rows tx cols])
                 | Some (rest, x, a) \<Rightarrow>
                     (Some (x, a, Search (case rest of
                        Some rs \<Rightarrow> FilteredAnn key v (flt\<lparr>flt_restrictions := rs\<rparr>) limit cols tx
                      | None \<Rightarrow> Ann key v limit cols tx)), []))), us)
      | Search (Count key tx) \<Rightarrow>
          (Ok (None, [CountReply tx
             (case search_index_id t key of
                None \<Rightarrow> Err (Bail ''index id not found for index key'')
              | Some x \<Rightarrow> Ok (case us_states us x of Some st \<Rightarrow> ixs_size st | None \<Rightarrow> 0))]), us))"

section \<open>process\<close>

definition reserve_partition :: "'i usearch_index \<Rightarrow> nat \<Rightarrow> 'i partition_state \<Rightarrow> 'i partition_state" where
  "reserve_partition ui capacity ps =
     (case ui_reserve ui capacity (ps_idx ps) of
        (Inl e, i) \<Rightarrow> ps\<lparr>ps_idx := i\<rparr>
      | (Inr _, i) \<Rightarrow> ps\<lparr>ps_idx := i, ps_capacity := ui_capacity ui i\<rparr>)"

definition add_embedding ::
  "'i usearch_index \<Rightarrow> primary_id \<Rightarrow> vector \<Rightarrow> 'i partition_state \<Rightarrow> nat \<Rightarrow> 'i partition_state \<times> nat" where
  "add_embedding ui p v ps sz =
     (case ui_add ui p v (ps_idx ps) of
        (Inl e, i) \<Rightarrow> (ps\<lparr>ps_idx := i\<rparr>, sz)
      | (Inr _, i) \<Rightarrow> (ps\<lparr>ps_idx := i, ps_size := ps_size ps + 1\<rparr>, sz + 1))"

definition remove_embedding ::
  "'i usearch_index \<Rightarrow> primary_id \<Rightarrow> 'i partition_state \<Rightarrow> nat \<Rightarrow> 'i partition_state \<times> nat" where
  "remove_embedding ui p ps sz =
     (case ui_remove ui p (ps_idx ps) of
        (Inr True, i) \<Rightarrow> (ps\<lparr>ps_idx := i, ps_size := ps_size ps - 1\<rparr>, sz - 1)
      | (_, i) \<Rightarrow> (ps\<lparr>ps_idx := i\<rparr>, sz))"

definition reconstruct_target_vector ::
  "'i usearch_index \<Rightarrow> 'i partition_state \<Rightarrow> primary_id \<Rightarrow> cql_value option result" where
  "reconstruct_target_vector ui ps p =
     (case ui_get_vector ui p (ps_idx ps) of
        Inl e \<Rightarrow> Err (Bail ''ann: unable to reconstruct the vector'')
      | Inr v \<Rightarrow> Ok (map_option (\<lambda>v. CqlVector (map CqlFloat v)) v))"

text \<open>The loop over the matches, and in it the loop over the requested columns.\<close>

fun push_values ::
  "table \<Rightarrow> partition_id \<Rightarrow> primary_id \<Rightarrow> column_name option \<Rightarrow> column_name list \<Rightarrow> column_answer \<Rightarrow> column_answer result" where
  "push_values t q p target [] vals = Ok vals"
| "push_values t q p target (c # cs) vals =
     (if Some c = target then push_values t q p target cs vals
      else and_then (column_value_for t q p c) (\<lambda>v.
        push_values t q p target cs (vals(c := map_option (\<lambda>vs. vs @ [v]) (vals c)))))"

fun collect_rows ::
  "table \<Rightarrow> partition_id \<Rightarrow> column_name option \<Rightarrow> column_name list \<Rightarrow> (primary_id \<times> distance) result list \<Rightarrow>
   primary_key list \<times> distance list \<times> column_answer \<times> primary_id list \<Rightarrow>
   (primary_key list \<times> distance list \<times> column_answer \<times> primary_id list) result" where
  "collect_rows t q target cols [] acc = Ok acc"
| "collect_rows t q target cols (m # ms) (keys, distances, vals, ids) =
     and_then m (\<lambda>(p, distance).
       case search_primary_key t q p of
         None \<Rightarrow> collect_rows t q target cols ms (keys, distances, vals, ids)
       | Some key \<Rightarrow>
           and_then (push_values t q p target (remdups cols) vals) (\<lambda>vals'.
             collect_rows t q target cols ms
               (keys @ [key], distances @ [distance], vals', if target = None then ids else ids @ [p])))"

definition returned_target :: "table \<Rightarrow> partition_id \<Rightarrow> column_name list \<Rightarrow> column_name option" where
  "returned_target t q return_columns =
     (if return_columns = [] then None
      else case target_column t (partition_index_id q) of
             None \<Rightarrow> None
           | Some c \<Rightarrow> if c \<in> set return_columns then Some c else None)"

definition collect_results ::
  "'i usearch_index \<Rightarrow> 'i partition_state \<Rightarrow> table \<Rightarrow> column_name list \<Rightarrow> (primary_id \<times> distance) result list \<Rightarrow> ann_answer" where
  "collect_results ui ps t return_columns matches =
     (let q = ps_partition_id ps; target = returned_target t q return_columns
      in and_then (collect_rows t q target return_columns matches ([], [], empty_column_values return_columns, []))
        (\<lambda>(keys, distances, vals, ids).
          case target of
            None \<Rightarrow> Ok (keys, distances, vals)
          | Some c \<Rightarrow>
              and_then (ok_or (vals c) (Panic ''target_column is one of the return_columns'')) (\<lambda>old.
              and_then (collect_result (reconstruct_target_vector ui ps) ids) (\<lambda>vs.
                Ok (keys, distances, vals(c \<mapsto> old @ vs))))))"

definition ann ::
  "'i usearch_index \<Rightarrow> 'i partition_state \<Rightarrow> table \<Rightarrow> vector \<Rightarrow> nat \<Rightarrow> column_name list \<Rightarrow> ann_answer" where
  "ann ui ps t v limit cols =
     (case ui_search ui v limit (ps_idx ps) of
        Inl e \<Rightarrow> Err (Bail ''ann: search failed'')
      | Inr matches \<Rightarrow> collect_results ui ps t cols matches)"

text \<open>The filter the library calls; that evaluating a restriction never panics is proved with the table.\<close>

definition id_ok :: "driver \<Rightarrow> table \<Rightarrow> partition_id \<Rightarrow> restriction list \<Rightarrow> primary_id \<Rightarrow> bool" where
  "id_ok d t q restrictions p \<longleftrightarrow> all_result (is_valid_for d t q p) restrictions = Ok True"

definition filtered_ann ::
  "'i usearch_index \<Rightarrow> driver \<Rightarrow> 'i partition_state \<Rightarrow> table \<Rightarrow> vector \<Rightarrow> search_filter \<Rightarrow> nat \<Rightarrow> column_name list \<Rightarrow> ann_answer" where
  "filtered_ann ui d ps t v flt limit cols =
     (case ui_filtered_search ui v limit (id_ok d t (ps_partition_id ps) (flt_restrictions flt)) (ps_idx ps) of
        Inl e \<Rightarrow> Err (Bail ''ann: search failed'')
      | Inr matches \<Rightarrow> collect_results ui ps t cols matches)"

definition process ::
  "'i usearch_params \<Rightarrow> table \<Rightarrow> nat \<Rightarrow> message \<Rightarrow> 'i partition_state \<Rightarrow> nat \<Rightarrow>
   (search_reply list \<times> 'i partition_state \<times> nat) result" where
  "process P t dimensions msg ps sz =
     (case msg of
        Modify (VsAddVector q p v pr) \<Rightarrow> Ok ([], add_embedding (up_index P) p v ps sz)
      | Modify (VsRemoveVector q p pr) \<Rightarrow> Ok ([], remove_embedding (up_index P) p ps sz)
      | Modify (VsRemovePartition q) \<Rightarrow> Err (Panic ''internal error: entered unreachable code'')
      | Search (Ann key v limit cols tx) \<Rightarrow>
          Ok ([AnnReply tx (and_then (embedding_dimensions v dimensions) (\<lambda>_. ann (up_index P) ps t v limit cols))], ps, sz)
      | Search (FilteredAnn key v flt limit cols tx) \<Rightarrow>
          Ok ([AnnReply tx (and_then (embedding_dimensions v dimensions) (\<lambda>_.
                filtered_ann (up_index P) (up_driver P) ps t v flt limit cols))], ps, sz)
      | Search (Count key tx) \<Rightarrow> Err (Panic ''internal error: entered unreachable code''))"

section \<open>The system\<close>

text \<open>A task in the channel of the workers or on a worker: a closure with what it captured.\<close>

datatype job = ReserveJob nat | ProcessJob message

type_synonym task = "index_id \<times> nat \<times> job"

fun run_job ::
  "'i usearch_params \<Rightarrow> table \<Rightarrow> nat \<Rightarrow> job \<Rightarrow> 'i partition_state \<Rightarrow> nat \<Rightarrow>
   (search_reply list \<times> 'i partition_state \<times> nat) result" where
  "run_job P t dimensions (ReserveJob capacity) ps sz = Ok ([], reserve_partition (up_index P) capacity ps, sz)"
| "run_job P t dimensions (ProcessJob msg) ps sz = process P t dimensions msg ps sz"

text \<open>
  Where the actor is: in \<open>recv\<close>; at the start of \<open>dispatch_task\<close>; waiting for the permit to
  reserve; sending the reservation; waiting for the permit of the message; sending its task.
\<close>

datatype usearch_pc =
    AtRecv
  | AtDispatch index_id nat message
  | AtReserve index_id nat message
  | SendReserve index_id nat nat message
  | AtPermit index_id nat message
  | SendTask index_id nat message
  | Crashed

record 'i usearch_system =
  sy_actor :: "'i usearch"
  sy_allocate_prev :: allocate
  sy_pc :: usearch_pc
  sy_modify :: "vs_index_modify list"
  sy_search :: "vs_index_search list"
  sy_queue :: "task list"
  sy_running :: "task list"
  sy_finishing :: "index_id list"
  sy_replies :: "search_reply list"

definition usearch_new :: "'i usearch" where
  "usearch_new = \<lparr>us_states = Map.empty, us_partitions = Map.empty, us_store = []\<rparr>"

definition system_new :: "vs_index_modify list \<Rightarrow> 'i usearch_system" where
  "system_new msgs =
     \<lparr>sy_actor = usearch_new, sy_allocate_prev = CanAllocate, sy_pc = AtRecv, sy_modify = msgs, sy_search = [],
      sy_queue = [], sy_running = [], sy_finishing = [], sy_replies = []\<rparr>"

definition set_operation :: "index_id \<Rightarrow> index_state \<Rightarrow> operation_permits \<Rightarrow> 'i usearch \<Rightarrow> 'i usearch" where
  "set_operation x st op us = us\<lparr>us_states := (us_states us)(x \<mapsto> st\<lparr>ixs_operation := op\<rparr>)\<rparr>"

definition pc_after :: "(index_id \<times> nat \<times> message) option \<Rightarrow> usearch_pc" where
  "pc_after next_task = (case next_task of None \<Rightarrow> AtRecv | Some (x, a, msg) \<Rightarrow> AtDispatch x a msg)"

text \<open>
  What the environment does during the steps: what the memory actor last published, what the
  factory creates, which tables the searches read, which searches are requested.
\<close>

record 'i usearch_env =
  ue_allocate :: "allocate \<Rightarrow> bool"
  ue_created :: "'i result \<Rightarrow> bool"
  ue_table :: "table \<Rightarrow> bool"
  ue_search :: "vs_index_search \<Rightarrow> bool"

inductive usearch_step :: "'i usearch_params \<Rightarrow> 'i usearch_env \<Rightarrow> 'i usearch_system \<Rightarrow> 'i usearch_system \<Rightarrow> bool"
  for P E where
  search_arrives: "ue_search E m \<Longrightarrow> usearch_step P E s (s\<lparr>sy_search := sy_search s @ [m]\<rparr>)"
| receive:
    "sy_pc s = AtRecv \<Longrightarrow> vs_recv (sy_search s) (sy_modify s) = Some (msg, ss, ms) \<Longrightarrow>
     ue_allocate E allocate \<Longrightarrow> check_memory_allocation msg allocate (sy_allocate_prev s) = (True, prev) \<Longrightarrow>
     ue_created E created \<Longrightarrow> ue_table E t \<Longrightarrow> preprocess P created t msg (sy_actor s) = (Ok (next_task, replies), us) \<Longrightarrow>
     usearch_step P E s (s\<lparr>sy_actor := us, sy_allocate_prev := prev, sy_pc := pc_after next_task, sy_modify := ms, sy_search := ss,
       sy_replies := sy_replies s @ replies\<rparr>)"
| refuse:
    "sy_pc s = AtRecv \<Longrightarrow> vs_recv (sy_search s) (sy_modify s) = Some (msg, ss, ms) \<Longrightarrow>
     ue_allocate E allocate \<Longrightarrow> check_memory_allocation msg allocate (sy_allocate_prev s) = (False, prev) \<Longrightarrow>
     usearch_step P E s (s\<lparr>sy_allocate_prev := prev, sy_modify := ms, sy_search := ss\<rparr>)"
| receive_panics:
    "sy_pc s = AtRecv \<Longrightarrow> vs_recv (sy_search s) (sy_modify s) = Some (msg, ss, ms) \<Longrightarrow>
     ue_created E created \<Longrightarrow> ue_table E t \<Longrightarrow> preprocess P created t msg (sy_actor s) = (Err e, us) \<Longrightarrow>
     usearch_step P E s (s\<lparr>sy_pc := Crashed\<rparr>)"
| dispatch:
    "sy_pc s = AtDispatch x a msg \<Longrightarrow>
     usearch_step P E s (s\<lparr>sy_pc := if is_add msg \<and> needs_more_capacity (us_store (sy_actor s) ! a) \<noteq> None
                                    then AtReserve x a msg else AtPermit x a msg\<rparr>)"
| permit_reserve:
    "sy_pc s = AtReserve x a msg \<Longrightarrow> us_states (sy_actor s) x = Some st \<Longrightarrow>
     permit ModeReserve (ixs_operation st) = Some op \<Longrightarrow> needs_more_capacity (us_store (sy_actor s) ! a) = Some capacity \<Longrightarrow>
     usearch_step P E s (s\<lparr>sy_actor := set_operation x st op (sy_actor s), sy_pc := SendReserve x a capacity msg\<rparr>)"
| permit_unused:
    "sy_pc s = AtReserve x a msg \<Longrightarrow> us_states (sy_actor s) x = Some st \<Longrightarrow>
     permit ModeReserve (ixs_operation st) = Some op \<Longrightarrow> needs_more_capacity (us_store (sy_actor s) ! a) = None \<Longrightarrow>
     usearch_step P E s (s\<lparr>sy_actor := set_operation x st (drop_permit op) (sy_actor s), sy_pc := AtPermit x a msg\<rparr>)"
| send_reserve:
    "sy_pc s = SendReserve x a capacity msg \<Longrightarrow> length (sy_queue s) < up_channel_size P \<Longrightarrow>
     usearch_step P E s (s\<lparr>sy_queue := sy_queue s @ [(x, a, ReserveJob capacity)], sy_pc := AtPermit x a msg\<rparr>)"
| permit_message:
    "sy_pc s = AtPermit x a msg \<Longrightarrow> mode_of msg = Ok mode \<Longrightarrow> us_states (sy_actor s) x = Some st \<Longrightarrow>
     permit mode (ixs_operation st) = Some op \<Longrightarrow>
     usearch_step P E s (s\<lparr>sy_actor := set_operation x st op (sy_actor s), sy_pc := SendTask x a msg\<rparr>)"
| permit_panics:
    "sy_pc s = AtPermit x a msg \<Longrightarrow> mode_of msg = Err e \<Longrightarrow> usearch_step P E s (s\<lparr>sy_pc := Crashed\<rparr>)"
| send_task:
    "sy_pc s = SendTask x a msg \<Longrightarrow> length (sy_queue s) < up_channel_size P \<Longrightarrow>
     usearch_step P E s (s\<lparr>sy_queue := sy_queue s @ [(x, a, ProcessJob msg)], sy_pc := AtRecv\<rparr>)"
| start_task:
    "sy_queue s = tk # q \<Longrightarrow> length (sy_running s) + length (sy_finishing s) < up_num_workers P \<Longrightarrow>
     usearch_step P E s (s\<lparr>sy_queue := q, sy_running := sy_running s @ [tk]\<rparr>)"
| run_task:
    "sy_running s = before @ (x, a, job) # after \<Longrightarrow> us_states (sy_actor s) x = Some st \<Longrightarrow> ue_table E t \<Longrightarrow>
     run_job P t (ixs_dimensions st) job (us_store (sy_actor s) ! a) (ixs_size st) = Ok (replies, ps, sz) \<Longrightarrow>
     usearch_step P E s (s\<lparr>sy_actor := (sy_actor s)\<lparr>us_states := (us_states (sy_actor s))(x \<mapsto> st\<lparr>ixs_size := sz\<rparr>),
                                                us_store := (us_store (sy_actor s))[a := ps]\<rparr>,
                           sy_running := before @ after, sy_finishing := x # sy_finishing s,
                           sy_replies := sy_replies s @ replies\<rparr>)"
| finish_task:
    "sy_finishing s = before @ x # after \<Longrightarrow> us_states (sy_actor s) x = Some st \<Longrightarrow>
     usearch_step P E s (s\<lparr>sy_actor := set_operation x st (drop_permit (ixs_operation st)) (sy_actor s),
                           sy_finishing := before @ after\<rparr>)"

inductive usearch_reachable :: "'i usearch_params \<Rightarrow> 'i usearch_env \<Rightarrow> vs_index_modify list \<Rightarrow> 'i usearch_system \<Rightarrow> bool"
  for P E msgs where
  start: "usearch_reachable P E msgs (system_new msgs)"
| step: "usearch_reachable P E msgs s \<Longrightarrow> usearch_step P E s s' \<Longrightarrow> usearch_reachable P E msgs s'"

end
