(* ===== verification/Usearch_Permits.thy ===== *)
theory Usearch_Permits
  imports Usearch
begin

text \<open>
  The actor of a vector index never panics, and its permits do what they are for: the tasks in
  flight on the partitions of an index are of one family, and a removal or a reservation is in
  flight alone. These facts do not depend on the index library.
\<close>

section \<open>What is in flight\<close>

fun pc_granted :: "usearch_pc \<Rightarrow> task list" where
  "pc_granted (SendReserve x a capacity msg) = [(x, a, ReserveJob capacity)]"
| "pc_granted (SendTask x a msg) = [(x, a, ProcessJob msg)]"
| "pc_granted _ = []"

fun pc_waiting :: "usearch_pc \<Rightarrow> (index_id \<times> nat \<times> message) option" where
  "pc_waiting (AtDispatch x a msg) = Some (x, a, msg)"
| "pc_waiting (AtReserve x a msg) = Some (x, a, msg)"
| "pc_waiting (SendReserve x a capacity msg) = Some (x, a, msg)"
| "pc_waiting (AtPermit x a msg) = Some (x, a, msg)"
| "pc_waiting _ = None"

text \<open>The tasks that hold a permit and have not run: on a worker, in the channel, or being sent.\<close>

definition held :: "'i usearch_system \<Rightarrow> task list" where
  "held s = sy_running s @ sy_queue s @ pc_granted (sy_pc s)"

fun job_mode :: "job \<Rightarrow> op_mode result" where
  "job_mode (ReserveJob capacity) = Ok ModeReserve"
| "job_mode (ProcessJob msg) = mode_of msg"

section \<open>Addresses\<close>

definition cell :: "'i usearch \<Rightarrow> nat \<Rightarrow> partition_id" where
  "cell us a = ps_partition_id (us_store us ! a)"

text \<open>A message that can be dispatched on the partition \<open>q\<close>.\<close>

fun msg_fits :: "partition_id \<Rightarrow> message \<Rightarrow> bool" where
  "msg_fits q (Modify (VsAddVector q' p v pr)) = (q' = q)"
| "msg_fits q (Modify (VsRemoveVector q' p pr)) = (q' = q)"
| "msg_fits q (Modify (VsRemovePartition q')) = False"
| "msg_fits q (Search (Count key tx)) = False"
| "msg_fits q (Search _) = True"

fun job_fits :: "partition_id \<Rightarrow> job \<Rightarrow> bool" where
  "job_fits q (ReserveJob capacity) = True"
| "job_fits q (ProcessJob msg) = msg_fits q msg"

definition task_ok :: "'i usearch \<Rightarrow> task \<Rightarrow> bool" where
  "task_ok us tk =
     (case tk of (x, a, job) \<Rightarrow>
        a < length (us_store us) \<and> partition_index_id (cell us a) = x \<and> us_states us x \<noteq> None \<and> job_fits (cell us a) job)"

definition maps_ok :: "'i usearch \<Rightarrow> bool" where
  "maps_ok us \<longleftrightarrow>
     (\<forall>q a. us_partitions us q = Some a \<longrightarrow>
        a < length (us_store us) \<and> cell us a = q \<and> us_states us (partition_index_id q) \<noteq> None)"

text \<open>The store only grows and its partitions keep their identifiers; index states are never removed.\<close>

definition extends :: "'i usearch \<Rightarrow> 'i usearch \<Rightarrow> bool" where
  "extends us us' \<longleftrightarrow>
     length (us_store us) \<le> length (us_store us') \<and> (\<forall>a<length (us_store us). cell us' a = cell us a) \<and>
     (\<forall>x. us_states us x \<noteq> None \<longrightarrow> us_states us' x \<noteq> None)"

lemma msg_fits_mode: "msg_fits q msg \<Longrightarrow> \<exists>m. mode_of msg = Ok m"
  by (induction q msg rule: msg_fits.induct) simp_all

lemma job_fits_mode: "job_fits q job \<Longrightarrow> \<exists>m. job_mode job = Ok m"
  by (cases job) (auto dest: msg_fits_mode)

lemma is_add_mode [simp]: "is_add msg \<Longrightarrow> mode_of msg = Ok ModeInsert"
  by (cases msg rule: is_add.cases) simp_all

lemma task_ok_extends: "task_ok us tk \<Longrightarrow> extends us us' \<Longrightarrow> task_ok us' tk"
  by (auto simp: task_ok_def extends_def)

lemma extends_refl [simp]: "extends us us"
  by (simp add: extends_def)

lemma extends_add_partition: "extends us (add_partition P q i us)"
  by (auto simp: extends_def add_partition_def cell_def nth_append Let_def)

lemma find_partition_Some:
  "find_partition us q = Some (x, a) \<Longrightarrow> x = partition_index_id q \<and> us_partitions us q = Some a \<and> us_states us x \<noteq> None"
  by (auto simp: find_partition_def split: option.splits)

lemma find_partition_None: "maps_ok us \<Longrightarrow> find_partition us q = None \<Longrightarrow> us_partitions us q = None"
  by (cases "us_partitions us q") (fastforce simp: find_partition_def maps_ok_def split: option.splits)+

lemma find_partition_ok:
  "maps_ok us \<Longrightarrow> find_partition us q = Some (x, a) \<Longrightarrow> job_fits q job \<Longrightarrow> task_ok us (x, a, job)"
  using find_partition_Some [of us q x a] by (auto simp: maps_ok_def task_ok_def)

lemma maps_ok_add_partition: "maps_ok us \<Longrightarrow> maps_ok (add_partition P q i us)"
  by (auto simp: maps_ok_def add_partition_def partition_state_new_def cell_def nth_append Let_def less_Suc_eq)

lemma task_ok_add_partition:
  "job_fits q job \<Longrightarrow> task_ok (add_partition P q i us) (partition_index_id q, length (us_store us), job)"
  by (simp add: task_ok_def add_partition_def cell_def partition_state_new_def Let_def)

section \<open>Preparing a message\<close>

lemma preprocess_ok:
  assumes "preprocess P created t msg us = (r, us')" and "maps_ok us"
  shows "maps_ok us' \<and> extends us us' \<and>
    (\<forall>x a m replies. r = Ok (Some (x, a, m), replies) \<longrightarrow> task_ok us' (x, a, ProcessJob m) \<and> (is_add m \<longleftrightarrow> is_add msg))"
proof (cases msg)
  case (Modify m)
  show ?thesis
  proof (cases m)
    case (VsAddVector q p v pr)
    show ?thesis
    proof (cases "us_partitions us q")
      case None
      then show ?thesis
        using assms Modify VsAddVector maps_ok_add_partition [OF assms(2)] extends_add_partition
          task_ok_add_partition [of q "ProcessJob msg"]
        by (cases created) (auto simp: preprocess_def)
    next
      case (Some a)
      then have "task_ok us (partition_index_id q, a, ProcessJob msg)"
        using assms(2) Modify VsAddVector by (auto simp: maps_ok_def task_ok_def)
      then show ?thesis
        using assms Modify VsAddVector Some by (auto simp: preprocess_def)
    qed
  next
    case (VsRemoveVector q p pr)
    then show ?thesis
      using assms Modify find_partition_ok [OF assms(2), of q _ _ "ProcessJob msg"] by (auto simp: preprocess_def)
  next
    case (VsRemovePartition q)
    then show ?thesis
      using assms Modify by (auto simp: preprocess_def maps_ok_def extends_def cell_def split: if_splits)
  qed
next
  case (Search m)
  have us: "us' = us" using assms(1) Search by (cases m) (auto simp: preprocess_def)
  have "task_ok us (x, a, ProcessJob m') \<and> \<not> is_add m'" if r: "r = Ok (Some (x, a, m'), replies)" for x a m' replies
  proof (cases m)
    case (Ann key v limit cols tx)
    then obtain q rest where "find_partition us q = Some (x, a)" "m' = msg"
      using assms(1) Search r by (auto simp: preprocess_def result_simps bind_eq_Some_conv split: option.splits)
    then show ?thesis
      using find_partition_ok [OF assms(2)] Ann Search by simp
  next
    case (FilteredAnn key v flt limit cols tx)
    let ?found = "\<lambda>found. Option.bind found (\<lambda>(q, rest). map_option (Pair rest) (find_partition us q))"
    obtain found where found: "(case ?found found of
          None \<Rightarrow> (None, [no_rows tx cols])
        | Some (rest, x, a) \<Rightarrow>
            (Some (x, a, Search (case rest of
               Some rs \<Rightarrow> FilteredAnn key v (flt\<lparr>flt_restrictions := rs\<rparr>) limit cols tx
             | None \<Rightarrow> Ann key v limit cols tx)), [])) = (Some (x, a, m'), replies)"
      using assms(1) Search FilteredAnn r by (simp add: preprocess_def and_then_eq_Inr) blast
    then obtain q rest where "find_partition us q = Some (x, a)"
      and "m' = Search (case rest of Some rs \<Rightarrow> FilteredAnn key v (flt\<lparr>flt_restrictions := rs\<rparr>) limit cols tx
                                   | None \<Rightarrow> Ann key v limit cols tx)"
      by (cases "?found found") (auto simp: bind_eq_Some_conv)
    then show ?thesis
      using find_partition_ok [OF assms(2)] by (auto split: option.split)
  next
    case (Count key tx)
    then show ?thesis using assms(1) Search r by (auto simp: preprocess_def)
  qed
  then show ?thesis using us assms(2) Search by simp
qed

section \<open>The invariant\<close>

definition permits_ok :: "'i usearch_system \<Rightarrow> index_id \<Rightarrow> operation_permits \<Rightarrow> bool" where
  "permits_ok s x op \<longleftrightarrow>
     op_counter op = count_list (map fst (held s)) x + count_list (sy_finishing s) x \<and>
     (\<forall>a job. (x, a, job) \<in> set (held s) \<longrightarrow> job_mode job = Ok (op_mode op)) \<and>
     (is_exclusive (op_mode op) \<longrightarrow> op_counter op \<le> 1)"

definition system_inv :: "'i usearch_params \<Rightarrow> 'i usearch_env \<Rightarrow> 'i usearch_system \<Rightarrow> bool" where
  "system_inv P E s \<longleftrightarrow>
     maps_ok (sy_actor s) \<and>
     (\<forall>tk\<in>set (held s). task_ok (sy_actor s) tk) \<and>
     (\<forall>x a msg. pc_waiting (sy_pc s) = Some (x, a, msg) \<longrightarrow> task_ok (sy_actor s) (x, a, ProcessJob msg)) \<and>
     (\<forall>x\<in>set (sy_finishing s). us_states (sy_actor s) x \<noteq> None) \<and>
     (\<forall>x st. us_states (sy_actor s) x = Some st \<longrightarrow> permits_ok s x (ixs_operation st)) \<and>
     (\<forall>x a msg. sy_pc s = AtReserve x a msg \<longrightarrow> is_add msg) \<and>
     (\<forall>x a capacity msg. sy_pc s = SendReserve x a capacity msg \<longrightarrow> is_add msg) \<and>
     (\<forall>m\<in>set (sy_search s). ue_search E m) \<and>
     length (sy_running s) + length (sy_finishing s) \<le> up_num_workers P \<and> length (sy_queue s) \<le> up_channel_size P"

lemma system_invD:
  assumes "system_inv P E s"
  shows "maps_ok (sy_actor s)" and "tk \<in> set (held s) \<Longrightarrow> task_ok (sy_actor s) tk"
    and "pc_waiting (sy_pc s) = Some (x, a, msg) \<Longrightarrow> task_ok (sy_actor s) (x, a, ProcessJob msg)"
    and "x \<in> set (sy_finishing s) \<Longrightarrow> us_states (sy_actor s) x \<noteq> None"
    and "us_states (sy_actor s) x = Some st \<Longrightarrow> permits_ok s x (ixs_operation st)"
  using assms by (auto simp: system_inv_def)

lemma system_inv_new: "system_inv P E (system_new msgs)"
  by (simp add: system_inv_def system_new_def usearch_new_def maps_ok_def held_def)

lemma extends_set_operation: "us_states us x = Some st \<Longrightarrow> extends us (set_operation x st op us)"
  by (auto simp: extends_def set_operation_def cell_def)

lemma maps_ok_set_operation: "maps_ok us \<Longrightarrow> us_states us x = Some st \<Longrightarrow> maps_ok (set_operation x st op us)"
  by (auto simp: maps_ok_def set_operation_def cell_def)

lemma set_operation_states [simp]:
  "us_states (set_operation x st op us) y = (if y = x then Some (st\<lparr>ixs_operation := op\<rparr>) else us_states us y)"
  "us_store (set_operation x st op us) = us_store us" "us_partitions (set_operation x st op us) = us_partitions us"
  by (simp_all add: set_operation_def)

text \<open>A granted permit is counted and settles the mode.\<close>

lemma permits_ok_granted:
  assumes ok: "permits_ok s x op" and permit: "permit mode op = Some op'"
    and held: "held s' = held s @ [(x, a, job)]" and "sy_finishing s' = sy_finishing s" and job: "job_mode job = Ok mode"
  shows "permits_ok s' x op'"
proof -
  have "op_counter op' = op_counter op + 1" and mode: "op_mode op' = mode"
    using permit by (auto simp: permit_Some)
  moreover have "job_mode job' = Ok mode" if "(x, a', job') \<in> set (held s')" for a' job'
  proof (cases "op_counter op = 0")
    case True
    then have "x \<notin> set (map fst (held s))" using ok by (simp add: permits_ok_def count_list_0_iff)
    then have "(x, a', job') \<notin> set (held s)" by force
    then show ?thesis using that held job by auto
  next
    case False
    then have "op_mode op = mode" using permit by (auto simp: permit_Some)
    then show ?thesis using that held job ok by (auto simp: permits_ok_def)
  qed
  moreover have "is_exclusive mode \<longrightarrow> op_counter op' \<le> 1"
    using permit by (auto simp: permit_Some)
  ultimately show ?thesis
    using ok assms(3,4) by (simp add: permits_ok_def)
qed

text \<open>Moving a task from one place to the next, or ending it, keeps the others' permits.\<close>

lemma permits_ok_other:
  assumes "permits_ok s y op" and "\<And>a job. (y, a, job) \<in> set (held s') \<Longrightarrow> (y, a, job) \<in> set (held s)"
    and "count_list (map fst (held s')) y + count_list (sy_finishing s') y = count_list (map fst (held s)) y + count_list (sy_finishing s) y"
  shows "permits_ok s' y op"
  using assms by (fastforce simp: permits_ok_def)

lemma permits_ok_dropped:
  assumes "permits_ok s x op" and "held s' = held s" and "sy_finishing s = before @ x # after" and "sy_finishing s' = before @ after"
  shows "permits_ok s' x (drop_permit op)"
  using assms by (auto simp: permits_ok_def drop_permit_def)

lemma preprocess_states:
  assumes "preprocess P created t msg us = (r, us')" and "us_states us' x = Some st"
  shows "us_states us x = Some st \<or> us_states us x = None \<and> st = index_state_new (up_dimensions P)"
proof (cases msg)
  case (Modify m)
  then show ?thesis
    using assms by (cases m) (auto simp: preprocess_def add_partition_def Let_def split: option.splits sum.splits if_splits)
next
  case (Search m)
  then show ?thesis using assms by (cases m) (auto simp: preprocess_def)
qed

lemma permits_ok_new:
  assumes "\<forall>tk\<in>set (held s). task_ok (sy_actor s) tk" and "\<forall>x\<in>set (sy_finishing s). us_states (sy_actor s) x \<noteq> None"
    and "us_states (sy_actor s) x = None" and "held s' = held s" and "sy_finishing s' = sy_finishing s"
  shows "permits_ok s' x operation_new"
proof -
  have "(x, a, job) \<notin> set (held s)" for a job
    using assms(1,3) by (auto simp: task_ok_def)
  then have "x \<notin> fst ` set (held s)" by force
  moreover have "x \<notin> set (sy_finishing s)" using assms(2,3) by blast
  ultimately show ?thesis
    using assms(4,5) \<open>\<And>job a. (x, a, job) \<notin> set (held s)\<close>
    by (simp add: permits_ok_def operation_new_def count_list_0_iff)
qed

text \<open>The steps that touch neither the permits nor the tasks.\<close>

lemma permits_ok_same: "permits_ok s x op \<Longrightarrow> held s' = held s \<Longrightarrow> sy_finishing s' = sy_finishing s \<Longrightarrow> permits_ok s' x op"
  unfolding permits_ok_def by metis

lemma system_inv_frame:
  assumes "system_inv P E s" and "sy_actor s' = sy_actor s" and "held s' = held s" and "sy_finishing s' = sy_finishing s"
    and "pc_waiting (sy_pc s') = pc_waiting (sy_pc s) \<or> pc_waiting (sy_pc s') = None"
    and "\<And>x a msg. sy_pc s' = AtReserve x a msg \<Longrightarrow> is_add msg" and "\<And>x a capacity msg. sy_pc s' = SendReserve x a capacity msg \<Longrightarrow> is_add msg"
    and "\<forall>m\<in>set (sy_search s'). ue_search E m"
    and "length (sy_running s') + length (sy_finishing s') \<le> up_num_workers P" and "length (sy_queue s') \<le> up_channel_size P"
  shows "system_inv P E s'"
  using assms permits_ok_same [of s _ _ s'] by (auto simp: system_inv_def)

lemma vs_recv_search: "vs_recv ss ms = Some (msg, ss', ms') \<Longrightarrow> set ss' \<subseteq> set ss"
  by (cases ss; cases ms) auto

lemma pc_after_simps [simp]: "pc_granted (pc_after n) = []" "pc_waiting (pc_after n) = n"
  "pc_after n \<noteq> AtReserve x a msg" "pc_after n \<noteq> SendReserve x a capacity msg" "pc_after n \<noteq> Crashed"
  by (auto simp: pc_after_def split: option.splits)

lemma run_job_partition:
  "run_job P t dimensions job ps sz = Ok (replies, ps', sz') \<Longrightarrow>
     ps_partition_id ps' = ps_partition_id ps \<and> ps_free_threshold ps' = ps_free_threshold ps \<and>
     ps_capacity_increment ps' = ps_capacity_increment ps"
  by (cases job)
    (auto simp: reserve_partition_def process_def add_embedding_def remove_embedding_def
      split: message.splits vs_index_modify.splits vs_index_search.splits prod.splits sum.splits bool.splits)

lemma system_inv_step: "usearch_step P E s s' \<Longrightarrow> system_inv P E s \<Longrightarrow> system_inv P E s'"
proof (induction rule: usearch_step.induct)
  case (search_arrives m s)
  show ?case
    by (rule system_inv_frame [OF search_arrives(2)]) (use search_arrives in \<open>auto simp: held_def system_inv_def split: if_splits\<close>)
next
  case (receive s msg ss ms allocate prev created t next_task replies us)
  let ?s = "s\<lparr>sy_actor := us, sy_allocate_prev := prev, sy_pc := pc_after next_task, sy_modify := ms, sy_search := ss,
    sy_replies := sy_replies s @ replies\<rparr>"
  have held: "held ?s = held s" using receive(1) by (simp add: held_def)
  note inv = system_invD [OF receive(8)]
  note p = preprocess_ok [OF receive(7) inv(1)]
  have "permits_ok ?s x (ixs_operation st)" if "us_states us x = Some st" for x st
  proof (cases "us_states (sy_actor s) x")
    case None
    then have "ixs_operation st = operation_new"
      using preprocess_states [OF receive(7) that] by (auto simp: index_state_new_def)
    then show ?thesis using permits_ok_new [of s x ?s] inv(2,4) None held by simp
  next
    case (Some st0)
    then have "permits_ok s x (ixs_operation st)"
      using preprocess_states [OF receive(7) that] inv(5) [of x st] by auto
    then show ?thesis using held by (rule permits_ok_same) simp
  qed
  moreover have "\<forall>tk\<in>set (held s). task_ok us tk" using inv(2) p by (blast intro: task_ok_extends)
  moreover have "\<forall>x\<in>set (sy_finishing s). us_states us x \<noteq> None" using inv(4) p by (simp add: extends_def)
  ultimately show ?case
    using receive(8) p vs_recv_search [OF receive(2)] held by (auto simp: system_inv_def)
next
  case (refuse s msg ss ms allocate prev)
  show ?case
    by (rule system_inv_frame [OF refuse(5)]) (use refuse vs_recv_search [OF refuse(2)] in \<open>auto simp: held_def system_inv_def split: if_splits\<close>)
next
  case (receive_panics s msg ss ms created t e us)
  show ?case
    by (rule system_inv_frame [OF receive_panics(6)]) (use receive_panics in \<open>auto simp: held_def system_inv_def split: if_splits\<close>)
next
  case (dispatch s x a msg)
  show ?case
    by (rule system_inv_frame [OF dispatch(2)]) (use dispatch in \<open>auto simp: held_def system_inv_def split: if_splits\<close>)
next
  case (permit_reserve s x a msg st op capacity)
  let ?s = "s\<lparr>sy_actor := set_operation x st op (sy_actor s), sy_pc := SendReserve x a capacity msg\<rparr>"
  have held: "held ?s = held s @ [(x, a, ReserveJob capacity)]" using permit_reserve(1) by (simp add: held_def)
  note inv = system_invD [OF permit_reserve(5)] and ext = extends_set_operation [OF permit_reserve(2), of op]
  have task: "task_ok (sy_actor s) (x, a, ProcessJob msg)" using inv(3) [of x a msg] permit_reserve(1) by simp
  have "permits_ok ?s y (ixs_operation st')" if "us_states (sy_actor ?s) y = Some st'" for y st'
  proof (cases "y = x")
    case True
    then show ?thesis
      using that permits_ok_granted [OF inv(5) [OF permit_reserve(2)] permit_reserve(3) held] by auto
  next
    case False
    then show ?thesis using that inv(5) [of y st'] held by (auto simp: permits_ok_def)
  qed
  moreover have "\<forall>tk\<in>set (held ?s). task_ok (sy_actor ?s) tk"
  proof -
    have "task_ok (sy_actor s) (x, a, ReserveJob capacity)" using task by (simp add: task_ok_def)
    then show ?thesis using inv(2) ext held by (auto intro: task_ok_extends)
  qed
  ultimately show ?case
    using permit_reserve task ext maps_ok_set_operation [OF inv(1) permit_reserve(2)]
    by (auto simp: system_inv_def intro: task_ok_extends)
next
  case (permit_unused s x a msg st op)
  let ?s = "s\<lparr>sy_actor := set_operation x st (drop_permit op) (sy_actor s), sy_pc := AtPermit x a msg\<rparr>"
  have held: "held ?s = held s" using permit_unused(1) by (simp add: held_def)
  note inv = system_invD [OF permit_unused(5)] and ext = extends_set_operation [OF permit_unused(2), of "drop_permit op"]
  have "permits_ok ?s y (ixs_operation st')" if "us_states (sy_actor ?s) y = Some st'" for y st'
  proof (cases "y = x")
    case True
    have "op_counter (ixs_operation st) = 0" using permit_unused(3) by (auto simp: permit_Some)
    then have "permits_ok s x (drop_permit op)"
      using inv(5) [OF permit_unused(2)] permit_unused(3)
      by (auto simp: permits_ok_def permit_Some drop_permit_def count_list_0_iff image_iff)
    then show ?thesis using that True held by (auto intro: permits_ok_same)
  next
    case False
    then show ?thesis using that inv(5) [of y st'] held by (auto intro: permits_ok_same)
  qed
  moreover have "\<forall>tk\<in>set (held ?s). task_ok (sy_actor ?s) tk"
    using inv(2) ext held by (auto intro: task_ok_extends)
  ultimately show ?case
    using permit_unused ext maps_ok_set_operation [OF inv(1) permit_unused(2)]
    by (auto simp: system_inv_def intro: task_ok_extends)
next
  case (send_reserve s x a capacity msg)
  show ?case
    by (rule system_inv_frame [OF send_reserve(3)]) (use send_reserve in \<open>auto simp: held_def system_inv_def split: if_splits\<close>)
next
  case (permit_message s x a msg mode st op)
  let ?s = "s\<lparr>sy_actor := set_operation x st op (sy_actor s), sy_pc := SendTask x a msg\<rparr>"
  have held: "held ?s = held s @ [(x, a, ProcessJob msg)]" using permit_message(1) by (simp add: held_def)
  note inv = system_invD [OF permit_message(5)] and ext = extends_set_operation [OF permit_message(3), of op]
  have task: "task_ok (sy_actor s) (x, a, ProcessJob msg)" using inv(3) [of x a msg] permit_message(1) by simp
  have "permits_ok ?s y (ixs_operation st')" if "us_states (sy_actor ?s) y = Some st'" for y st'
  proof (cases "y = x")
    case True
    then show ?thesis
      using that permits_ok_granted [OF inv(5) [OF permit_message(3)] permit_message(4) held] permit_message(2) by auto
  next
    case False
    then show ?thesis using that inv(5) [of y st'] held by (auto simp: permits_ok_def)
  qed
  moreover have "\<forall>tk\<in>set (held ?s). task_ok (sy_actor ?s) tk"
    using inv(2) ext held task by (auto intro: task_ok_extends)
  ultimately show ?case
    using permit_message ext maps_ok_set_operation [OF inv(1) permit_message(3)]
    by (auto simp: system_inv_def intro: task_ok_extends)
next
  case (permit_panics s x a msg e)
  show ?case
    by (rule system_inv_frame [OF permit_panics(3)]) (use permit_panics in \<open>auto simp: held_def system_inv_def split: if_splits\<close>)
next
  case (send_task s x a msg)
  show ?case
    by (rule system_inv_frame [OF send_task(3)]) (use send_task in \<open>auto simp: held_def system_inv_def split: if_splits\<close>)
next
  case (start_task s tk q)
  show ?case
    by (rule system_inv_frame [OF start_task(3)]) (use start_task in \<open>auto simp: held_def system_inv_def split: if_splits\<close>)
next
  case (run_task s before x a job after st t replies ps sz)
  let ?us = "(sy_actor s)\<lparr>us_states := (us_states (sy_actor s))(x \<mapsto> st\<lparr>ixs_size := sz\<rparr>),
    us_store := (us_store (sy_actor s))[a := ps]\<rparr>"
  let ?s = "s\<lparr>sy_actor := ?us, sy_running := before @ after, sy_finishing := x # sy_finishing s, sy_replies := sy_replies s @ replies\<rparr>"
  note inv = system_invD [OF run_task(5)]
  have held: "held s = before @ (x, a, job) # after @ sy_queue s @ pc_granted (sy_pc s)"
    "held ?s = before @ after @ sy_queue s @ pc_granted (sy_pc s)"
    using run_task(1) by (simp_all add: held_def)
  have cells: "cell ?us b = cell (sy_actor s) b" for b
    using run_job_partition [OF run_task(4)] inv(2) [of "(x, a, job)"] held
    by (cases "b = a") (simp_all add: cell_def task_ok_def)
  then have ext: "extends (sy_actor s) ?us" by (simp add: extends_def)
  have "permits_ok ?s y (ixs_operation st')" if st': "us_states ?us y = Some st'" for y st'
  proof -
    obtain st0 where "us_states (sy_actor s) y = Some st0" "ixs_operation st' = ixs_operation st0"
      using st' run_task(2) by (cases "y = x") auto
    then have "permits_ok s y (ixs_operation st')" using inv(5) [of y st0] by simp
    then show ?thesis
    proof (rule permits_ok_other)
      show "(y, b, j) \<in> set (held s)" if "(y, b, j) \<in> set (held ?s)" for b j
        using that unfolding held by auto
      show "count_list (map fst (held ?s)) y + count_list (sy_finishing ?s) y =
          count_list (map fst (held s)) y + count_list (sy_finishing s) y"
        unfolding held by simp
    qed
  qed
  moreover have "maps_ok ?us" using inv(1) cells run_task(2) by (auto simp: maps_ok_def)
  moreover have "\<forall>tk\<in>set (held ?s). task_ok ?us tk" using inv(2) ext held by (auto intro: task_ok_extends)
  moreover have "length (before @ after) + length (x # sy_finishing s) \<le> up_num_workers P"
    using run_task(1,5) by (simp add: system_inv_def)
  ultimately show ?case
    using run_task(5) ext run_task(2) by (auto simp: system_inv_def intro: task_ok_extends)
next
  case (finish_task s before x after st)
  let ?s = "s\<lparr>sy_actor := set_operation x st (drop_permit (ixs_operation st)) (sy_actor s), sy_finishing := before @ after\<rparr>"
  have held: "held ?s = held s" by (simp add: held_def)
  note inv = system_invD [OF finish_task(3)] and ext = extends_set_operation [OF finish_task(2), of "drop_permit (ixs_operation st)"]
  have "permits_ok ?s y (ixs_operation st')" if "us_states (sy_actor ?s) y = Some st'" for y st'
  proof (cases "y = x")
    case True
    then show ?thesis
      using that permits_ok_dropped [OF inv(5) [OF finish_task(2)], of ?s before after] finish_task(1) held by auto
  next
    case False
    then show ?thesis using that inv(5) [of y st'] finish_task(1) held by (auto simp: permits_ok_def)
  qed
  moreover have "\<forall>tk\<in>set (held ?s). task_ok (sy_actor ?s) tk"
    using inv(2) ext held by (auto intro: task_ok_extends)
  ultimately show ?case
    using finish_task ext maps_ok_set_operation [OF inv(1) finish_task(2)]
    by (auto simp: system_inv_def intro: task_ok_extends)
qed

lemma reachable_system_inv: "usearch_reachable P E msgs s \<Longrightarrow> system_inv P E s"
  by (induction rule: usearch_reachable.induct) (auto intro: system_inv_new system_inv_step)

section \<open>No panic\<close>

text \<open>The values compared with a partition key in a search are of types a key can hold.\<close>

fun search_storable :: "vs_index_search \<Rightarrow> bool" where
  "search_storable (FilteredAnn key v flt limit cols tx) \<longleftrightarrow>
     (\<forall>r\<in>set (flt_restrictions flt). case r of REq l val \<Rightarrow> storable val | _ \<Rightarrow> True)"
| "search_storable _ \<longleftrightarrow> True"

lemma find_eq_storable:
  assumes "\<forall>r\<in>set rs. case r of REq l val \<Rightarrow> storable val | _ \<Rightarrow> True" and "find_eq c rs = Some v"
  shows "storable v"
  using assms by (induction rs) (auto split: restriction.splits if_splits)

lemma collect_key_storable:
  assumes "\<And>c v. f c = Some v \<Longrightarrow> storable v"
  shows "\<exists>k. collect_key (\<lambda>c. Ok (f c)) names cnt buf = Ok k"
proof (induction names arbitrary: cnt buf)
  case (Cons name names)
  show ?case
  proof (cases "f name")
    case (Some v)
    then obtain bytes where "encode_value v = Ok bytes" using assms by (auto simp: storable_def is_ok_iff)
    then show ?thesis using Some Cons.IH by simp
  qed simp
qed simp

lemma search_partition_total:
  assumes "\<forall>r\<in>set rs. case r of REq l val \<Rightarrow> storable val | _ \<Rightarrow> True"
  shows "\<exists>found. search_partition_id t key (Some rs) = Ok found"
proof -
  have key: "\<exists>found. partition_key_from_restrictions cols rs = Ok found" for cols
  proof -
    obtain k where "collect_key (\<lambda>c. Ok (find_eq c rs)) (take MAX_COLUMNS cols) 0 [] = Ok k"
      using collect_key_storable [of "\<lambda>c. find_eq c rs"] find_eq_storable [OF assms] by blast
    then show ?thesis by (simp add: partition_key_from_restrictions_def)
  qed
  show ?thesis
  proof (cases "Option.bind (bt_get (t_index_ids t) key) (bt_get (t_indexes t))")
    case None
    then show ?thesis by (auto simp: search_partition_id_def bind_eq_None_conv split: option.split)
  next
    case (Some ix)
    show ?thesis
    proof (cases "ix_data ix")
      case (Local li)
      then show ?thesis
        using Some key [of "li_partition_key_columns li"] by (auto simp: search_partition_id_def bind_eq_Some_conv)
    qed (use Some in \<open>auto simp: search_partition_id_def bind_eq_Some_conv\<close>)
  qed
qed

lemma search_partition_none: "\<exists>found. search_partition_id t key None = Ok found"
  by (auto simp: search_partition_id_def split: option.split index_data.split)

lemma preprocess_total:
  assumes "case msg of Search m \<Rightarrow> search_storable m | _ \<Rightarrow> True"
  shows "fst (preprocess P created t msg us) \<noteq> Err e"
proof (cases msg)
  case (Modify m)
  then show ?thesis by (cases m) (auto simp: preprocess_def split: option.split sum.split)
next
  case (Search m)
  show ?thesis
  proof (cases m)
    case (Ann key v limit cols tx)
    then show ?thesis
      using Search search_partition_none [of t key] by (auto simp: preprocess_def)
  next
    case (FilteredAnn key v flt limit cols tx)
    then show ?thesis
      using Search assms search_partition_total [of "flt_restrictions flt" t key] by (auto simp: preprocess_def)
  qed (simp add: preprocess_def Search)
qed

lemma vs_recv_request: "vs_recv ss ms = Some (Search m, ss', ms') \<Longrightarrow> m \<in> set ss"
  by (cases ss; cases ms) auto

lemma not_crashed_step:
  assumes "usearch_step P E s s'" and "system_inv P E s" and "sy_pc s \<noteq> Crashed" and "\<And>m. ue_search E m \<Longrightarrow> search_storable m"
  shows "sy_pc s' \<noteq> Crashed"
  using assms(1)
proof (cases rule: usearch_step.cases)
  case (receive_panics msg ss ms created t e us)
  have "case msg of Search m \<Rightarrow> search_storable m | _ \<Rightarrow> True"
    using vs_recv_request receive_panics(3) assms(2,4) by (auto simp: system_inv_def split: message.split)
  then show ?thesis using preprocess_total [of msg P created t "sy_actor s" e] receive_panics by simp
next
  case (permit_panics x a msg e)
  then show ?thesis
    using system_invD(3) [OF assms(2), of x a msg] msg_fits_mode [of _ msg] by (auto simp: task_ok_def)
qed (use assms(3) in auto)

lemma reachable_not_crashed:
  assumes "usearch_reachable P E msgs s" and "\<And>m. ue_search E m \<Longrightarrow> search_storable m"
  shows "sy_pc s \<noteq> Crashed"
  using assms(1)
proof (induction rule: usearch_reachable.induct)
  case (step s s')
  show ?case
    by (rule not_crashed_step [OF step(2) reachable_system_inv [OF step(1)] step(3)]) (rule assms(2))
qed (simp add: system_new_def)

section \<open>Property\<close>

text \<open>
  C36: the tasks of an index do not get in each other's way. Whatever the messages, the searches and
  the schedule of the actor and the workers: the actor never reaches a \<open>todo!\<close> or \<open>unreachable!\<close>
  and never panics on a search; two tasks in flight on an index are of the same family; and while
  a removal or a reservation is in flight, nothing else is in flight on that index.
\<close>

theorem usearch_exclusion:
  assumes "usearch_reachable P E msgs s" and "\<And>m. ue_search E m \<Longrightarrow> search_storable m"
  shows "sy_pc s \<noteq> Crashed \<and>
    (\<forall>x a job b job'. (x, a, job) \<in> set (held s) \<and> (x, b, job') \<in> set (held s) \<longrightarrow>
       job_mode job = job_mode job' \<and>
       (job_mode job \<in> {Ok ModeReserve, Ok ModeRemove} \<longrightarrow>
          count_list (map fst (held s)) x + count_list (sy_finishing s) x = 1))"
proof
  show "sy_pc s \<noteq> Crashed" using assms by (rule reachable_not_crashed)
  have inv: "system_inv P E s" using assms(1) by (rule reachable_system_inv)
  show "\<forall>x a job b job'. (x, a, job) \<in> set (held s) \<and> (x, b, job') \<in> set (held s) \<longrightarrow>
       job_mode job = job_mode job' \<and>
       (job_mode job \<in> {Ok ModeReserve, Ok ModeRemove} \<longrightarrow>
          count_list (map fst (held s)) x + count_list (sy_finishing s) x = 1)"
  proof (intro allI impI)
    fix x a job b job'
    assume h: "(x, a, job) \<in> set (held s) \<and> (x, b, job') \<in> set (held s)"
    then obtain st where "us_states (sy_actor s) x = Some st"
      using system_invD(2) [OF inv, of "(x, a, job)"] by (auto simp: task_ok_def)
    then have ok: "permits_ok s x (ixs_operation st)" by (rule system_invD(5) [OF inv])
    have "x \<in> set (map fst (held s))" using h by force
    then have "count_list (map fst (held s)) x \<noteq> 0" by (simp only: count_list_0_iff) simp
    then show "job_mode job = job_mode job' \<and>
       (job_mode job \<in> {Ok ModeReserve, Ok ModeRemove} \<longrightarrow>
          count_list (map fst (held s)) x + count_list (sy_finishing s) x = 1)"
      using ok h by (fastforce simp: permits_ok_def)
  qed
qed

section \<open>An index of the simulator\<close>

definition simulator_params :: "driver \<Rightarrow> nat \<Rightarrow> nat \<Rightarrow> simulator usearch_params" where
  "simulator_params d dimensions workers =
     \<lparr>up_index = simulator_index, up_driver = d, up_dimensions = dimensions, up_channel_size = 3 * workers, up_num_workers = workers\<rparr>"

definition simulator_env :: "nat list option \<Rightarrow> (table \<Rightarrow> bool) \<Rightarrow> simulator usearch_env" where
  "simulator_env config tables =
     \<lparr>ue_allocate = (\<lambda>a. a = CanAllocate), ue_created = (\<lambda>r. r = Ok (simulator_new config)), ue_table = tables,
      ue_search = search_storable\<rparr>"

definition example_add :: vs_index_modify where
  "example_add = VsAddVector (PartitionId 0) (PrimaryId 7) [0x3f800000] ProgressNone"

definition example_cell :: "simulator partition_state" where
  "example_cell = partition_state_new 3 1 (PartitionId 0) (simulator_new None)"

definition example_system :: "operation_permits \<Rightarrow> usearch_pc \<Rightarrow> simulator usearch_system" where
  "example_system op pc =
     (system_new [])\<lparr>sy_actor := \<lparr>us_states = [IndexId 0 \<mapsto> \<lparr>ixs_dimensions = 1, ixs_size = 0, ixs_operation = op\<rparr>],
                                us_partitions = [PartitionId 0 \<mapsto> 0], us_store = [example_cell]\<rparr>, sy_pc := pc\<rparr>"

lemma example_index: "partition_index_id (PartitionId 0) = IndexId 0" "\<not> is_global (IndexId 0)"
  by (simp_all add: partition_index_id_def is_global_def)

lemma example_needs: "needs_more_capacity example_cell = Some 1000"
  by (simp add: needs_more_capacity_def example_cell_def partition_state_new_def free_threshold_def example_index
      RESERVE_INCREMENT_LOCAL_def)

lemma example_reserving:
  assumes "tables t"
  shows "usearch_reachable (simulator_params d 1 1) (simulator_env None tables) [example_add]
    (example_system \<lparr>op_mode = ModeReserve, op_counter = 1\<rparr> (SendReserve (IndexId 0) 0 1000 (Modify example_add)))"
proof -
  let ?P = "simulator_params d 1 1" and ?E = "simulator_env None tables" and ?m = "Modify example_add"
  note later = usearch_reachable.step [where P = ?P and E = ?E and msgs = "[example_add]"]
  have pre: "preprocess ?P (Ok (simulator_new None)) t ?m usearch_new =
      (Ok (Some (IndexId 0, 0, ?m), []), sy_actor (example_system operation_new AtRecv))"
    by (simp add: preprocess_def example_add_def usearch_new_def add_partition_def example_system_def example_cell_def
        simulator_params_def index_state_new_def example_index fun_eq_iff)
  have "usearch_step ?P ?E (system_new [example_add]) (example_system operation_new (AtDispatch (IndexId 0) 0 ?m))"
    using usearch_step.receive [where P = ?P and E = ?E and s = "system_new [example_add]" and msg = ?m and ss = "[]" and ms = "[]"
        and allocate = CanAllocate and prev = CanAllocate and created = "Ok (simulator_new None)" and t = t
        and next_task = "Some (IndexId 0, 0, ?m)" and replies = "[]" and us = "sy_actor (example_system operation_new AtRecv)"] pre assms
    by (simp add: system_new_def simulator_env_def check_memory_allocation_def pc_after_def example_system_def)
  then have "usearch_reachable ?P ?E [example_add] (example_system operation_new (AtDispatch (IndexId 0) 0 ?m))"
    by (rule later [OF usearch_reachable.start])
  moreover have "usearch_step ?P ?E (example_system operation_new (AtDispatch (IndexId 0) 0 ?m))
      (example_system operation_new (AtReserve (IndexId 0) 0 ?m))"
    using usearch_step.dispatch [where P = ?P and E = ?E and s = "example_system operation_new (AtDispatch (IndexId 0) 0 ?m)"]
      example_needs by (simp add: example_system_def system_new_def example_add_def)
  ultimately have "usearch_reachable ?P ?E [example_add] (example_system operation_new (AtReserve (IndexId 0) 0 ?m))"
    by (rule later)
  moreover have "usearch_step ?P ?E (example_system operation_new (AtReserve (IndexId 0) 0 ?m))
      (example_system \<lparr>op_mode = ModeReserve, op_counter = 1\<rparr> (SendReserve (IndexId 0) 0 1000 ?m))"
    using usearch_step.permit_reserve [where P = ?P and E = ?E and s = "example_system operation_new (AtReserve (IndexId 0) 0 ?m)"
        and x = "IndexId 0" and a = 0 and msg = ?m
        and st = "\<lparr>ixs_dimensions = 1, ixs_size = 0, ixs_operation = operation_new\<rparr>"
        and op = "\<lparr>op_mode = ModeReserve, op_counter = 1\<rparr>" and capacity = 1000] example_needs
    by (simp add: example_system_def system_new_def set_operation_def permit_def operation_new_def)
  ultimately show ?thesis by (rule later)
qed

theorem usearch_exclusion_witness:
  "\<exists>s. usearch_reachable (simulator_params example_driver 1 1) (simulator_env None (\<lambda>t. t = example_table)) [example_add] s \<and>
     (IndexId 0, 0, ReserveJob 1000) \<in> set (held s) \<and> count_list (map fst (held s)) (IndexId 0) + count_list (sy_finishing s) (IndexId 0) = 1"
proof -
  let ?s = "example_system \<lparr>op_mode = ModeReserve, op_counter = 1\<rparr> (SendReserve (IndexId 0) 0 1000 (Modify example_add))"
  have r: "usearch_reachable (simulator_params example_driver 1 1) (simulator_env None (\<lambda>t. t = example_table)) [example_add] ?s"
    by (rule example_reserving) (rule refl)
  have "(IndexId 0, 0, ReserveJob 1000) \<in> set (held ?s)"
    by (simp add: held_def example_system_def system_new_def)
  then show ?thesis
    using r usearch_exclusion [OF r] by (intro exI [of _ ?s]) (fastforce simp: simulator_env_def)
qed

end
