(* ===== verification/Usearch_Contents.thy ===== *)
theory Usearch_Contents
  imports Usearch_Permits
begin

text \<open>
  What an index of the actor will hold once the tasks in flight have run, and that no step
  changes it but the receipt of a message: the permits make the order in which the workers run
  the tasks irrelevant.
\<close>

section \<open>Pending changes\<close>

fun added :: "job \<Rightarrow> primary_id list" where
  "added (ProcessJob (Modify (VsAddVector q p v pr))) = [p]"
| "added _ = []"

fun removed :: "job \<Rightarrow> primary_id list" where
  "removed (ProcessJob (Modify (VsRemoveVector q p pr))) = [p]"
| "removed _ = []"

definition pending :: "(job \<Rightarrow> 'b list) \<Rightarrow> nat \<Rightarrow> task list \<Rightarrow> 'b list" where
  "pending f a tasks = concat (map (\<lambda>(x, b, job). if b = a then f job else []) tasks)"

lemma pending_simps [simp]:
  "pending f a [] = []"
  "pending f a ((x, b, job) # tasks) = (if b = a then f job else []) @ pending f a tasks"
  "pending f a (tasks @ tasks') = pending f a tasks @ pending f a tasks'"
  by (simp_all add: pending_def)

lemma pending_none: "(\<And>x job. (x, a, job) \<in> set tasks \<Longrightarrow> f job = []) \<Longrightarrow> pending f a tasks = []"
  by (auto simp: pending_def)

lemma in_pending: "p \<in> set (pending f a tasks) \<longleftrightarrow> (\<exists>x job. (x, a, job) \<in> set tasks \<and> p \<in> set (f job))"
  by (fastforce simp: pending_def split: if_splits)

lemma added_mode: "p \<in> set (added job) \<Longrightarrow> job_mode job = Ok ModeInsert"
  by (cases job rule: added.cases) auto

lemma removed_mode: "p \<in> set (removed job) \<Longrightarrow> job_mode job = Ok ModeRemove"
  by (cases job rule: removed.cases) auto

lemma pending_other:
  assumes "\<And>x job. (x, a, job) \<in> set tasks \<Longrightarrow> job_mode job = Ok m" and "\<And>p job. p \<in> set (f job) \<Longrightarrow> job_mode job = Ok m'"
    and "m \<noteq> m'"
  shows "pending f a tasks = []"
proof (rule pending_none)
  show "f job = []" if "(x, a, job) \<in> set tasks" for x job
    using assms(1) [OF that] assms(2) [of _ job] assms(3) by (cases "f job") auto
qed

definition stored_at :: "('i \<Rightarrow> primary_id set) \<Rightarrow> 'i usearch_system \<Rightarrow> nat \<Rightarrow> primary_id set" where
  "stored_at keys s a = keys (ps_idx (us_store (sy_actor s) ! a))"

definition settled :: "('i \<Rightarrow> primary_id set) \<Rightarrow> 'i usearch_system \<Rightarrow> nat \<Rightarrow> primary_id set" where
  "settled keys s a = (stored_at keys s a \<union> set (pending added a (held s))) - set (pending removed a (held s))"

lemma settled_frame: "us_store (sy_actor s') = us_store (sy_actor s) \<Longrightarrow> held s' = held s \<Longrightarrow> settled keys s' = settled keys s"
  by (simp add: settled_def stored_at_def fun_eq_iff)

text \<open>The message that waits for its permit is the last to take effect.\<close>

fun effect :: "nat \<Rightarrow> message \<Rightarrow> nat \<Rightarrow> primary_id set \<Rightarrow> primary_id set" where
  "effect a (Modify (VsAddVector q p v pr)) b S = (if b = a then insert p S else S)"
| "effect a (Modify (VsRemoveVector q p pr)) b S = (if b = a then S - {p} else S)"
| "effect a _ b S = S"

definition expected :: "('i \<Rightarrow> primary_id set) \<Rightarrow> 'i usearch_system \<Rightarrow> nat \<Rightarrow> primary_id set" where
  "expected keys s b =
     (case pc_waiting (sy_pc s) of None \<Rightarrow> settled keys s b | Some (x, a, msg) \<Rightarrow> effect a msg b (settled keys s b))"

lemma expected_frame:
  "us_store (sy_actor s') = us_store (sy_actor s) \<Longrightarrow> held s' = held s \<Longrightarrow> pc_waiting (sy_pc s') = pc_waiting (sy_pc s) \<Longrightarrow>
   expected keys s' = expected keys s"
  using settled_frame [of s' s keys] by (intro ext) (auto simp: expected_def split: option.split)

lemma effect_other [simp]: "b \<noteq> a \<Longrightarrow> effect a msg b S = S"
  by (cases "(a, msg, b, S)" rule: effect.cases) auto

lemma effect_mono: "S \<subseteq> S' \<Longrightarrow> effect a msg b S \<subseteq> effect a msg b S'"
  by (cases "(a, msg, b, S)" rule: effect.cases) auto

section \<open>What the permits give\<close>

text \<open>The tasks on one address are of one index, hence of one family; an exclusive one is alone.\<close>

lemma held_family:
  assumes "system_inv P E s" and "(x, a, job) \<in> set (held s)" and "(y, a, job') \<in> set (held s)"
  shows "y = x \<and> job_mode job' = job_mode job"
proof -
  note inv = system_invD [OF assms(1)]
  have "y = x" using inv(2) [OF assms(2)] inv(2) [OF assms(3)] by (simp add: task_ok_def)
  moreover obtain st where "us_states (sy_actor s) x = Some st"
    using inv(2) [OF assms(2)] by (auto simp: task_ok_def)
  ultimately show ?thesis
    using inv(5) [of x st] assms(2,3) by (auto simp: permits_ok_def)
qed

lemma held_alone:
  assumes "system_inv P E s" and "held s = before @ (x, a, job) # after" and "job_mode job = Ok m" and "is_exclusive m"
  shows "pending f a before = [] \<and> pending f a after = []"
proof -
  note inv = system_invD [OF assms(1)]
  have task: "(x, a, job) \<in> set (held s)" using assms(2) by simp
  obtain st where st: "us_states (sy_actor s) x = Some st"
    using inv(2) [OF task] by (auto simp: task_ok_def)
  have ok: "permits_ok s x (ixs_operation st)" using inv(5) [OF st] .
  then have "job_mode job = Ok (op_mode (ixs_operation st))" using task by (simp add: permits_ok_def)
  then have "op_mode (ixs_operation st) = m" using assms(3) by simp
  then have "count_list (map fst (held s)) x \<le> 1" using ok assms(4) by (simp add: permits_ok_def)
  then have "count_list (map fst before) x = 0" "count_list (map fst after) x = 0"
    using assms(2) by simp_all
  then have alone: "x \<notin> fst ` set before" "x \<notin> fst ` set after" by (simp_all add: count_list_0_iff)
  have "y = x" if "(y, a, job') \<in> set (held s)" for y job'
    using held_family [OF assms(1) task that] by simp
  then have "(y, a, job') \<notin> set before" "(y, a, job') \<notin> set after" for y job'
    using alone assms(2) by force+
  then show ?thesis by (auto intro!: pending_none)
qed

lemma idle_pending:
  assumes "system_inv P E s" and "us_states (sy_actor s) (partition_index_id (cell (sy_actor s) a)) = Some st"
    and "op_counter (ixs_operation st) = 0"
  shows "pending f a (held s) = []"
proof (rule pending_none)
  fix x job
  assume task: "(x, a, job) \<in> set (held s)"
  then have "x = partition_index_id (cell (sy_actor s) a)"
    using system_invD(2) [OF assms(1) task] by (simp add: task_ok_def)
  then have "permits_ok s x (ixs_operation st)" using system_invD(5) [OF assms(1)] assms(2) by simp
  then have "x \<notin> fst ` set (held s)" using assms(3) by (simp add: permits_ok_def count_list_0_iff)
  then show "f job = []" using task by force
qed

lemma pending_exclusive:
  assumes "system_inv P E s" and "p \<in> set (pending added a (held s))"
  shows "pending removed a (held s) = []"
proof (rule pending_other [OF _ removed_mode op_mode.distinct(7)])
  fix x job
  assume task: "(x, a, job) \<in> set (held s)"
  obtain y job' where "(y, a, job') \<in> set (held s)" and "job_mode job' = Ok ModeInsert"
    using assms(2) added_mode unfolding in_pending by blast
  then show "job_mode job = Ok ModeInsert"
    using held_family [OF assms(1) _ task] by simp
qed

section \<open>Steps\<close>

text \<open>
  A permit that is granted turns the waiting message into a task. Nothing else waits, and what
  is in flight is of the family of the message or has run.
\<close>

lemma settled_granted:
  assumes inv: "system_inv P E s" and task: "task_ok (sy_actor s) (x, a, ProcessJob msg)"
    and st: "us_states (sy_actor s) x = Some st" and "mode_of msg = Ok mode" and permit: "permit mode (ixs_operation st) = Some op"
    and "held s' = held s @ [(x, a, ProcessJob msg)]" and "us_store (sy_actor s') = us_store (sy_actor s)"
  shows "settled keys s' b = effect a msg b (settled keys s b)"
proof (cases "b = a")
  case True
  have idle: "pending f a (held s) = []" if "op_counter (ixs_operation st) = 0" for f
    using idle_pending [OF inv _ that, of a] task st by (simp add: task_ok_def)
  have "pending removed a (held s) = []" if insert: "mode = ModeInsert"
  proof (cases "op_counter (ixs_operation st) = 0")
    case False
    have "job_mode job = Ok ModeInsert" if held: "(y, a, job) \<in> set (held s)" for y job
    proof -
      have "y = x" using system_invD(2) [OF inv held] task by (simp add: task_ok_def)
      then show ?thesis
        using system_invD(5) [OF inv st] held False permit insert by (auto simp: permits_ok_def permit_Some)
    qed
    then show ?thesis by (rule pending_other [OF _ removed_mode op_mode.distinct(7)]) simp_all
  qed (rule idle)
  moreover have "pending added a (held s) = [] \<and> pending removed a (held s) = []" if "mode = ModeRemove"
    using idle permit that by (cases "op_counter (ixs_operation st) = 0") (auto simp: permit_Some)
  ultimately show ?thesis
    using True assms(4,6,7) by (cases msg rule: mode_of.cases) (auto simp: settled_def stored_at_def)
next
  case False
  then show ?thesis using assms(6,7) by (simp add: settled_def stored_at_def)
qed

text \<open>What the actor has taken from its channel, and the entries it was told by that.\<close>

definition told :: "vs_index_modify list \<Rightarrow> 'i usearch_system \<Rightarrow> entry set \<Rightarrow> bool" where
  "told msgs s S \<longleftrightarrow> (\<exists>taken. msgs = taken @ sy_modify s \<and> told_all vs_told taken {} = Some S)"

lemma told_all_append: "told_all f (xs @ ys) S = Option.bind (told_all f xs S) (told_all f ys)"
  by (induction xs arbitrary: S) (auto split: Option.bind_splits)

lemma told_new: "told msgs (system_new msgs) {}"
  by (simp add: told_def system_new_def)

lemma told_same: "told msgs s S \<Longrightarrow> sy_modify s' = sy_modify s \<Longrightarrow> told msgs s' S"
  by (simp add: told_def)

lemma told_unique: "told msgs s S \<Longrightarrow> told msgs s S' \<Longrightarrow> S' = S"
  by (auto simp: told_def)

lemma told_take:
  assumes "told msgs s S" and "told_all vs_told msgs {} \<noteq> None" and "sy_modify s = m # sy_modify s'"
  shows "\<exists>S'. vs_told m S = Some S' \<and> told msgs s' S'"
proof -
  obtain taken where taken: "msgs = taken @ m # sy_modify s'" "told_all vs_told taken {} = Some S"
    using assms(1,3) by (auto simp: told_def)
  then obtain S' where "vs_told m S = Some S'"
    using assms(2) by (auto simp: told_all_append split: Option.bind_splits)
  moreover from this have "told msgs s' S'"
    using taken by (auto simp: told_def told_all_snoc intro!: exI [of _ "taken @ [m]"])
  ultimately show ?thesis by blast
qed

text \<open>What a task does to the partition it was given.\<close>

lemma process_search: "process P t dimensions (Search m) ps sz = Ok (replies, ps', sz') \<Longrightarrow> ps' = ps \<and> sz' = sz"
  by (cases m) (auto simp: process_def)

lemma preprocess_search:
  assumes "preprocess P created t (Search m) us = (r, us')"
  shows "us' = us \<and> (r = Ok (Some (x, a, msg), replies) \<longrightarrow> (\<exists>m'. msg = Search m'))"
proof (cases m)
  case (FilteredAnn key v flt limit cols tx)
  have "\<exists>m'. msg = Search m'" if r: "r = Ok (Some (x, a, msg), replies)"
  proof -
    obtain found where "(case Option.bind found (\<lambda>(q, rest). map_option (Pair rest) (find_partition us q)) of
          None \<Rightarrow> (None, [no_rows tx cols])
        | Some (rest, x, a) \<Rightarrow>
            (Some (x, a, Search (case rest of
               Some rs \<Rightarrow> FilteredAnn key v (flt\<lparr>flt_restrictions := rs\<rparr>) limit cols tx
             | None \<Rightarrow> Ann key v limit cols tx)), [])) = (Some (x, a, msg), replies)"
      using assms FilteredAnn r by (simp add: preprocess_def and_then_eq_Inr) blast
    then show ?thesis
      by (cases "Option.bind found (\<lambda>(q, rest). map_option (Pair rest) (find_partition us q))") auto
  qed
  then show ?thesis using assms FilteredAnn by (simp add: preprocess_def)
qed (use assms in \<open>auto simp: preprocess_def and_then_eq_Inr split: option.splits prod.splits\<close>)

lemma effect_search [simp]: "effect a (Search m) b S = S"
  by simp

lemma vs_recv_modify: "vs_recv ss ms = Some (msg, ss', ms') \<Longrightarrow> (case msg of Modify m \<Rightarrow> ms = m # ms' | Search m \<Rightarrow> ms' = ms)"
  by (cases ss; cases ms) auto

text \<open>The actor, with an index that keeps its contract and whose new instances are empty.\<close>

locale usearch_actor = index_laws "up_index P" keys
  for P :: "'i usearch_params" and keys :: "'i \<Rightarrow> primary_id set" +
  fixes E :: "'i usearch_env"
  assumes created_empty: "ue_created E (Ok i) \<Longrightarrow> keys i = {}"
begin

definition adds_succeed :: "job \<Rightarrow> 'i partition_state \<Rightarrow> bool" where
  "adds_succeed job ps \<longleftrightarrow>
     (\<forall>q p v pr. job = ProcessJob (Modify (VsAddVector q p v pr)) \<longrightarrow> is_ok (fst (ui_add (up_index P) p v (ps_idx ps))))"

lemma run_job_keys:
  assumes "run_job P t dimensions job ps sz = Ok (replies, ps', sz')"
  shows "keys (ps_idx ps') - set (removed job) \<subseteq> (keys (ps_idx ps) \<union> set (added job)) - set (removed job) \<and>
    keys (ps_idx ps') \<inter> set (removed job) = {} \<and>
    (adds_succeed job ps \<longrightarrow> keys (ps_idx ps') = (keys (ps_idx ps) \<union> set (added job)) - set (removed job))"
proof (cases job)
  case (ReserveJob capacity)
  obtain r i where "ui_reserve (up_index P) capacity (ps_idx ps) = (r, i)" by fastforce
  then show ?thesis
    using assms ReserveJob reserve_keys by (cases r) (auto simp: reserve_partition_def)
next
  case (ProcessJob msg)
  show ?thesis
  proof (cases msg)
    case (Modify m)
    show ?thesis
    proof (cases m)
      case (VsAddVector q p v pr)
      obtain r i where "ui_add (up_index P) p v (ps_idx ps) = (r, i)" by fastforce
      then show ?thesis
        using assms ProcessJob Modify VsAddVector add_ok add_err
        by (cases r) (auto simp: process_def add_embedding_def adds_succeed_def)
    next
      case (VsRemoveVector q p pr)
      obtain r i where r: "ui_remove (up_index P) p (ps_idx ps) = (r, i)" by fastforce
      have "ps_idx ps' = i"
        using assms ProcessJob Modify VsRemoveVector r
        by (auto simp: process_def remove_embedding_def split: sum.splits bool.splits)
      then show ?thesis
        using remove_any [OF r] ProcessJob Modify VsRemoveVector by auto
    qed (use assms ProcessJob Modify in \<open>simp add: process_def\<close>)
  next
    case (Search m)
    then have "ps' = ps" using assms ProcessJob process_search [of P t dimensions m ps sz replies ps' sz'] by simp
    then show ?thesis using ProcessJob Search by simp
  qed
qed

text \<open>A task that runs brings no surprise: what it changes was pending.\<close>

lemma settled_run:
  assumes inv: "system_inv P E s" and running: "sy_running s = before @ (x, a, job) # after"
    and run: "run_job P t dimensions job (us_store (sy_actor s) ! a) sz = Ok (replies, ps, sz')"
    and store: "us_store (sy_actor s') = (us_store (sy_actor s))[a := ps]"
    and held': "held s' = before @ after @ sy_queue s @ pc_granted (sy_pc s)"
  shows "settled keys s' b \<subseteq> settled keys s b \<and>
    (adds_succeed job (us_store (sy_actor s) ! a) \<longrightarrow> settled keys s' b = settled keys s b)"
proof (cases "b = a")
  case True
  have held: "held s = before @ (x, a, job) # (after @ sy_queue s @ pc_granted (sy_pc s))"
    using running by (simp add: held_def)
  have "a < length (us_store (sy_actor s))"
    using system_invD(2) [OF inv, of "(x, a, job)"] held by (simp add: task_ok_def)
  then have new: "stored_at keys s' a = keys (ps_idx ps)" using store by (simp add: stored_at_def)
  note keys = run_job_keys [OF run]
  define rest where "rest = before @ after @ sy_queue s @ pc_granted (sy_pc s)"
  have split: "set (pending f a (held s)) = set (f job) \<union> set (pending f a rest)" for f
    unfolding held rest_def by auto
  have old: "settled keys s a =
      (stored_at keys s a \<union> set (added job) \<union> set (pending added a rest)) - set (removed job) - set (pending removed a rest)"
    by (auto simp: settled_def split)
  have new': "settled keys s' a = (keys (ps_idx ps) \<union> set (pending added a rest)) - set (pending removed a rest)"
    using new held' by (simp add: settled_def rest_def)
  show ?thesis
  proof (cases "removed job = []")
    case False
    then have "job_mode job = Ok ModeRemove" using removed_mode last_in_set by blast
    then have "pending f a rest = []" for f :: "job \<Rightarrow> primary_id list"
      using held_alone [OF inv held, where f = f] by (simp add: rest_def)
    moreover have "added job = []" using False by (cases job rule: removed.cases) auto
    ultimately show ?thesis
      using keys unfolding \<open>b = a\<close> old new' by (auto simp: stored_at_def)
  next
    case no_removal: True
    show ?thesis using keys no_removal unfolding \<open>b = a\<close> old new' by (auto simp: stored_at_def)
  qed
next
  case False
  then show ?thesis
    using running held' store by (simp add: settled_def stored_at_def held_def)
qed

text \<open>No step but the receipt of a modification changes what is expected, unless an addition fails.\<close>

lemma expected_step:
  assumes "usearch_step P E s s'" and inv: "system_inv P E s" and "sy_modify s' = sy_modify s"
  shows "us_partitions (sy_actor s') = us_partitions (sy_actor s) \<and>
    length (us_store (sy_actor s')) = length (us_store (sy_actor s)) \<and> cell (sy_actor s') = cell (sy_actor s) \<and>
    expected keys s' b \<subseteq> expected keys s b \<and>
    ((\<forall>(x, a, job)\<in>set (sy_running s). adds_succeed job (us_store (sy_actor s) ! a)) \<longrightarrow> expected keys s' b = expected keys s b)"
  using assms(1)
proof (cases rule: usearch_step.cases)
  case (receive msg ss ms allocate prev created t next_task replies us)
  then obtain m where msg: "msg = Search m"
    using vs_recv_modify [OF receive(3)] assms(3) by (cases msg) auto
  have "us = sy_actor s \<and> (\<forall>x a m'. next_task = Some (x, a, m') \<longrightarrow> (\<exists>m''. m' = Search m''))"
    using preprocess_search receive(8) unfolding msg by blast
  then show ?thesis
    using receive(1,2) by (auto simp: expected_def settled_def stored_at_def held_def split: option.split)
next
  case (permit_panics x a msg e)
  then show ?thesis using system_invD(3) [OF inv, of x a msg] msg_fits_mode [of _ msg] by (auto simp: task_ok_def)
next
  case (permit_message x a msg mode st op)
  have "settled keys s' b = effect a msg b (settled keys s b)"
    using permit_message system_invD(3) [OF inv, of x a msg]
    by (intro settled_granted [OF inv _ permit_message(4,3,5)]) (simp_all add: held_def)
  then show ?thesis using permit_message by (auto simp: expected_def cell_def)
next
  case (run_task before x a job after st t replies ps sz)
  have "settled keys s' b \<subseteq> settled keys s b \<and>
      (adds_succeed job (us_store (sy_actor s) ! a) \<longrightarrow> settled keys s' b = settled keys s b)"
    using run_task by (intro settled_run [OF inv run_task(2) run_task(5)]) (simp_all add: held_def)
  moreover have "cell (sy_actor s') = cell (sy_actor s)"
  proof
    fix c
    have "a < length (us_store (sy_actor s))"
      using system_invD(2) [OF inv, of "(x, a, job)"] run_task(2) by (simp add: held_def task_ok_def)
    then show "cell (sy_actor s') c = cell (sy_actor s) c"
      using run_task(1) run_job_partition [OF run_task(5)] by (cases "c = a") (simp_all add: cell_def)
  qed
  ultimately show ?thesis
    using run_task(1,2) effect_mono [of "settled keys s' b" "settled keys s b"] by (auto simp: expected_def split: option.split)
next
  case (permit_reserve x a msg st op capacity)
  then have "settled keys s' b = settled keys s b" by (simp add: settled_def stored_at_def held_def)
  then show ?thesis using permit_reserve by (auto simp: expected_def cell_def)
qed (use expected_frame [of s' s keys] in \<open>auto simp: held_def cell_def fun_eq_iff\<close>)

text \<open>
  \<open>sound\<close>: what is expected in a partition is what the index was told; \<open>complete\<close>: all of it is
  expected somewhere. A refused or failed addition makes the second false, and only that.
\<close>

definition sound :: "'i usearch_system \<Rightarrow> entry set \<Rightarrow> bool" where
  "sound s S \<longleftrightarrow>
     (\<forall>a<length (us_store (sy_actor s)). \<forall>p\<in>expected keys s a.
        us_partitions (sy_actor s) (cell (sy_actor s) a) = Some a \<and> (cell (sy_actor s) a, p) \<in> S)"

definition complete :: "'i usearch_system \<Rightarrow> entry set \<Rightarrow> bool" where
  "complete s S \<longleftrightarrow> (\<forall>(q, p)\<in>S. \<exists>a. us_partitions (sy_actor s) q = Some a \<and> p \<in> expected keys s a)"

lemma sound_frame:
  assumes "sound s S" and "us_partitions (sy_actor s') = us_partitions (sy_actor s)"
    and "length (us_store (sy_actor s')) = length (us_store (sy_actor s))" and "cell (sy_actor s') = cell (sy_actor s)"
    and "\<And>b. expected keys s' b \<subseteq> expected keys s b" and "S \<subseteq> S'"
  shows "sound s' S'"
  using assms unfolding sound_def by (metis subsetD)

lemma complete_frame:
  assumes "complete s S" and "us_partitions (sy_actor s') = us_partitions (sy_actor s)"
    and "\<And>b. expected keys s' b = expected keys s b"
  shows "complete s' S"
  using assms by (simp add: complete_def)

text \<open>The receipt of a modification, by the three kinds.\<close>

lemma receive_modify:
  assumes inv: "system_inv P E s" and idle: "sy_pc s = AtRecv" and told: "vs_told m S = Some S'"
    and created: "ue_created E created" and pre: "preprocess P created t (Modify m) (sy_actor s) = (Ok (next_task, replies), us)"
    and s': "sy_actor s' = us" "held s' = held s" "pc_waiting (sy_pc s') = next_task"
  shows "(sound s S \<longrightarrow> sound s' S') \<and> (is_ok created \<and> complete s S \<longrightarrow> complete s' S')"
proof -
  have maps: "maps_ok (sy_actor s)" using inv by (simp add: system_inv_def)
  have before: "expected keys s b = settled keys s b" for b using idle by (simp add: expected_def)
  have at: "cell (sy_actor s) a = q" if "us_partitions (sy_actor s) q = Some a" for q a
    using that maps by (simp add: maps_ok_def)
  show ?thesis
  proof (cases m)
    case (VsAddVector q p v pr)
    have S': "S' = insert (q, p) S" using told VsAddVector by (simp split: if_splits)
    show ?thesis
    proof (cases "us_partitions (sy_actor s) q")
      case (Some a)
      then obtain st where "us_states (sy_actor s) (partition_index_id q) = Some st"
        using maps by (auto simp: maps_ok_def)
      then have "us = sy_actor s" "next_task = Some (partition_index_id q, a, Modify m)"
        using pre VsAddVector Some by (auto simp: preprocess_def)
      moreover from this have "expected keys s' b = (if b = a then insert p (expected keys s b) else expected keys s b)" for b
        using settled_frame [of s' s keys] s' VsAddVector before by (simp add: expected_def)
      ultimately show ?thesis
        using Some at [OF Some] S' s'(1) by (fastforce simp: sound_def complete_def)
    next
      case None
      show ?thesis
      proof (cases created)
        case (Inl e)
        then have "us = sy_actor s" "next_task = None" using pre VsAddVector None by (auto simp: preprocess_def)
        moreover from this have "expected keys s' b = expected keys s b" for b
          using settled_frame [of s' s keys] s' before by (simp add: expected_def)
        ultimately show ?thesis
          using sound_frame [of s S s' S'] S' s'(1) Inl by auto
      next
        case (Inr idx)
        let ?n = "length (us_store (sy_actor s))"
        have us: "us = add_partition P q idx (sy_actor s)" "next_task = Some (partition_index_id q, ?n, Modify m)"
          using pre VsAddVector None Inr by (auto simp: preprocess_def)
        have held: "pending f ?n (held s) = []" for f :: "job \<Rightarrow> primary_id list"
          using inv by (intro pending_none) (fastforce simp: system_inv_def task_ok_def)
        have "keys idx = {}" using created Inr created_empty by simp
        then have new: "expected keys s' ?n = {p}"
          using us s' VsAddVector held by (simp add: expected_def settled_def stored_at_def add_partition_def Let_def partition_state_new_def)
        have old: "expected keys s' b = expected keys s b" if "b < ?n" for b
          using that us s' VsAddVector before
          by (simp add: expected_def settled_def stored_at_def add_partition_def Let_def nth_append)
        have "cell us ?n = q" and "\<And>b. b < ?n \<Longrightarrow> cell us b = cell (sy_actor s) b" and "length (us_store us) = Suc ?n"
          and "us_partitions us = (us_partitions (sy_actor s))(q \<mapsto> ?n)"
          using us(1) by (simp_all add: cell_def add_partition_def Let_def partition_state_new_def nth_append)
        moreover have "b < ?n" if "us_partitions (sy_actor s) q' = Some b" for q' b
          using that maps by (simp add: maps_ok_def)
        ultimately show ?thesis
          using None new old S' s'(1) by (fastforce simp: sound_def complete_def less_Suc_eq)
      qed
    qed
  next
    case (VsRemoveVector q p pr)
    have S': "S' = S - {(q, p)}" using told VsRemoveVector by (simp split: if_splits)
    have us: "us = sy_actor s" "next_task = map_option (\<lambda>(x, a). (x, a, Modify m)) (find_partition (sy_actor s) q)"
      using pre VsRemoveVector by (auto simp: preprocess_def)
    show ?thesis
    proof (cases "find_partition (sy_actor s) q")
      case None
      then have "expected keys s' b = expected keys s b" for b
        using us s' settled_frame [of s' s keys] before by (simp add: expected_def)
      moreover have "us_partitions (sy_actor s) q = None" using maps None by (rule find_partition_None)
      ultimately show ?thesis
        using S' s'(1) us(1) by (fastforce simp: sound_def complete_def)
    next
      case (Some found)
      then obtain x a where found: "find_partition (sy_actor s) q = Some (x, a)" by (cases found) simp
      then have q: "us_partitions (sy_actor s) q = Some a" using find_partition_Some by blast
      have now: "expected keys s' b = (if b = a then expected keys s b - {p} else expected keys s b)" for b
        using us s' settled_frame [of s' s keys] before found VsRemoveVector by (simp add: expected_def)
      have "us_partitions (sy_actor s) (cell (sy_actor s) b) = Some b \<and> (cell (sy_actor s) b, p') \<in> S'"
        if "sound s S" "b < length (us_store (sy_actor s))" "p' \<in> expected keys s' b" for b p'
      proof -
        have "p' \<in> expected keys s b" and "b = a \<longrightarrow> p' \<noteq> p" using that(3) by (auto simp: now split: if_splits)
        then show ?thesis using that(1,2) q at [OF q] S' by (auto simp: sound_def)
      qed
      moreover have "\<exists>b. us_partitions (sy_actor s) q' = Some b \<and> p' \<in> expected keys s' b"
        if c: "complete s S" and e: "(q', p') \<in> S'" for q' p'
      proof -
        obtain b where b: "us_partitions (sy_actor s) q' = Some b" "p' \<in> expected keys s b"
          using c e unfolding S' complete_def by blast
        moreover have "q' = q" if "b = a" using at [OF b(1)] at [OF q] that by simp
        ultimately show ?thesis using e S' by (auto simp: now)
      qed
      ultimately show ?thesis
        unfolding sound_def complete_def s'(1) us(1) by blast
    qed
  next
    case (VsRemovePartition q)
    have S': "S' = S" "q \<notin> fst ` S" using told VsRemovePartition by (simp_all split: if_splits)
    have us: "us = (sy_actor s)\<lparr>us_partitions := (us_partitions (sy_actor s))(q := None)\<rparr>" "next_task = None"
      using pre VsRemovePartition by (auto simp: preprocess_def)
    have "expected keys s' b = expected keys s b" for b
      using us s' settled_frame [of s' s keys] before by (simp add: expected_def)
    moreover have "q' \<noteq> q" if "(q', p') \<in> S" for q' p'
      using that S'(2) by force
    moreover have "cell us b = cell (sy_actor s) b" for b using us(1) by (simp add: cell_def)
    ultimately show ?thesis
      using S'(1) s'(1) us(1) by (fastforce simp: sound_def complete_def)
  qed
qed

lemma step_told:
  assumes step: "usearch_step P E s s'" and inv: "system_inv P E s" and told: "told msgs s S"
    and all: "told_all vs_told msgs {} \<noteq> None"
  shows "\<exists>S'. told msgs s' S' \<and> (sound s S \<longrightarrow> sound s' S') \<and>
    ((\<forall>(x, a, job)\<in>set (sy_running s). adds_succeed job (us_store (sy_actor s) ! a)) \<and>
     (\<forall>r. ue_created E r \<longrightarrow> is_ok r) \<and> (\<forall>a. ue_allocate E a \<longrightarrow> a = CanAllocate) \<and> complete s S \<longrightarrow> complete s' S')"
proof (cases "sy_modify s' = sy_modify s")
  case True
  note same = expected_step [OF step inv True]
  show ?thesis
    using told_same [OF told True] same sound_frame [of s S s' S] complete_frame [of s S s'] by blast
next
  case False
  from step show ?thesis
  proof (cases rule: usearch_step.cases)
    case (receive msg ss ms allocate prev created t next_task replies us)
    obtain m where m: "msg = Modify m" "sy_modify s = m # ms"
      using vs_recv_modify [OF receive(3)] False receive(1) by (cases msg) auto
    then obtain S' where S': "vs_told m S = Some S'" "told msgs s' S'"
      using told_take [OF told all, of m s'] receive(1) by auto
    have "(sound s S \<longrightarrow> sound s' S') \<and> (is_ok created \<and> complete s S \<longrightarrow> complete s' S')"
      using receive m(1) by (intro receive_modify [OF inv receive(2) S'(1) receive(6)]) (auto simp: held_def)
    then show ?thesis using S' receive(6) by blast
  next
    case (refuse msg ss ms allocate prev)
    obtain m where m: "msg = Modify m" "sy_modify s = m # ms"
      using vs_recv_modify [OF refuse(3)] False refuse(1) by (cases msg) auto
    then obtain S' where S': "vs_told m S = Some S'" "told msgs s' S'"
      using told_take [OF told all, of m s'] refuse(1) by auto
    have "is_add msg" and allocate: "allocate = CannotAllocate"
      using refuse(5) by (auto simp: check_memory_allocation_def split: if_splits)
    then have "S \<subseteq> S'" using m(1) S'(1) by (cases m) (auto split: if_splits)
    moreover have "expected keys s' = expected keys s"
      using refuse(1) by (intro expected_frame) (simp_all add: held_def)
    ultimately have "sound s S \<longrightarrow> sound s' S'"
      using refuse(1) sound_frame [of s S s' S'] by simp
    then show ?thesis using S'(2) refuse(4) allocate by blast
  qed (use False in auto)
qed

lemma sound_new: "sound (system_new msgs) {}"
  by (simp add: sound_def system_new_def usearch_new_def)

lemma complete_new: "complete (system_new msgs) {}"
  by (simp add: complete_def)

theorem reachable_sound:
  assumes "usearch_reachable P E msgs s" and "told_all vs_told msgs {} \<noteq> None"
  shows "\<exists>S. told msgs s S \<and> sound s S"
  using assms
proof (induction rule: usearch_reachable.induct)
  case start
  show ?case using told_new sound_new by blast
next
  case (step s s')
  then obtain S where "told msgs s S" "sound s S" by blast
  then show ?case
    using step_told [OF step(2) reachable_system_inv [OF step(1)] _ step(4)] by blast
qed

end

end
