(* ===== verification/Usearch_Reserve.thy ===== *)
theory Usearch_Reserve
  imports Usearch_Contents
begin

text \<open>
  The reservation of memory in the actor of a vector index, for an index that fails only when it
  has no room: every addition that is dispatched finds room, whatever the workers have done by
  then, so that none fails; and the sizes the actor keeps are the numbers of stored vectors.
\<close>

fun reserving :: "job \<Rightarrow> nat list" where
  "reserving (ReserveJob capacity) = [capacity]"
| "reserving _ = []"

lemma reserving_mode: "capacity \<in> set (reserving job) \<Longrightarrow> job_mode job = Ok ModeReserve"
  by (cases job) auto

text \<open>The size of an index is the number of vectors in all its partitions, dropped ones included.\<close>

definition index_cells :: "'i usearch \<Rightarrow> index_id \<Rightarrow> nat set" where
  "index_cells us x = {a. a < length (us_store us) \<and> partition_index_id (cell us a) = x}"

definition sizes_ok :: "'i usearch \<Rightarrow> bool" where
  "sizes_ok us \<longleftrightarrow>
     (\<forall>a<length (us_store us). us_states us (partition_index_id (cell us a)) \<noteq> None) \<and>
     (\<forall>x st. us_states us x = Some st \<longrightarrow> ixs_size st = (\<Sum>a\<in>index_cells us x. ps_size (us_store us ! a)))"

lemma finite_index_cells [simp]: "finite (index_cells us x)"
  by (simp add: index_cells_def)

lemma sizes_ok_new: "sizes_ok usearch_new"
  by (simp add: sizes_ok_def usearch_new_def)

lemma sizes_ok_set_operation: "sizes_ok us \<Longrightarrow> us_states us x = Some st \<Longrightarrow> sizes_ok (set_operation x st op us)"
  by (auto simp: sizes_ok_def index_cells_def cell_def)

lemma sizes_ok_add_partition:
  assumes "sizes_ok us"
  shows "sizes_ok (add_partition P q i us)"
proof -
  let ?us = "add_partition P q i us" and ?n = "length (us_store us)"
  have store: "us_store ?us = us_store us @ [partition_state_new (up_channel_size P) (up_num_workers P) q i]"
    by (simp add: add_partition_def Let_def)
  have cells: "index_cells ?us x = (if x = partition_index_id q then insert ?n (index_cells us x) else index_cells us x)" for x
    using store by (auto simp: index_cells_def cell_def nth_append partition_state_new_def less_Suc_eq)
  have same: "(\<Sum>a\<in>index_cells us x. ps_size (us_store ?us ! a)) = (\<Sum>a\<in>index_cells us x. ps_size (us_store us ! a))" for x
    using store by (intro sum.cong) (auto simp: index_cells_def nth_append)
  have sum: "(\<Sum>a\<in>index_cells ?us x. ps_size (us_store ?us ! a)) = (\<Sum>a\<in>index_cells us x. ps_size (us_store us ! a))" for x
  proof -
    have "?n \<notin> index_cells us x" "ps_size (us_store ?us ! ?n) = 0"
      using store by (simp_all add: index_cells_def partition_state_new_def)
    then show ?thesis using same [of x] by (cases "x = partition_index_id q") (simp_all add: cells)
  qed
  have "index_cells us x = {}" if "us_states us x = None" for x
    using assms that by (auto simp: sizes_ok_def index_cells_def)
  then have "ixs_size st = (\<Sum>a\<in>index_cells ?us x. ps_size (us_store ?us ! a))" if "us_states ?us x = Some st" for x st
    using assms that unfolding sum
    by (auto simp: sizes_ok_def add_partition_def Let_def index_state_new_def split: if_splits)
  moreover have "us_states ?us (partition_index_id (cell ?us a)) \<noteq> None" if "a < length (us_store ?us)" for a
    using assms that store
    by (cases "a = ?n") (auto simp: sizes_ok_def cell_def add_partition_def Let_def nth_append partition_state_new_def)
  ultimately show ?thesis by (simp add: sizes_ok_def)
qed

lemma sizes_ok_preprocess:
  assumes "sizes_ok us" and "preprocess P created t msg us = (r, us')"
  shows "sizes_ok us'"
proof (cases msg)
  case (Modify m)
  have "sizes_ok (us\<lparr>us_partitions := (us_partitions us)(q := None)\<rparr>)" for q
    using assms(1) by (simp add: sizes_ok_def index_cells_def cell_def)
  then show ?thesis
    using assms sizes_ok_add_partition [OF assms(1), of P] Modify
    by (cases m) (auto simp: preprocess_def split: option.splits sum.splits)
next
  case (Search m)
  then show ?thesis using assms preprocess_search [of P created t m us r us'] by blast
qed

lemma sizes_ok_run:
  assumes "sizes_ok us" and "task_ok us (x, a, job)" and "us_states us x = Some st" and "ps_partition_id ps = cell us a"
    and size: "ps_size (us_store us ! a) \<le> ixs_size st \<longrightarrow> sz + ps_size (us_store us ! a) = ixs_size st + ps_size ps"
  shows "sizes_ok (us\<lparr>us_states := (us_states us)(x \<mapsto> st\<lparr>ixs_size := sz\<rparr>), us_store := (us_store us)[a := ps]\<rparr>)"
proof -
  define us' where "us' = us\<lparr>us_states := (us_states us)(x \<mapsto> st\<lparr>ixs_size := sz\<rparr>), us_store := (us_store us)[a := ps]\<rparr>"
  have us': "us_states us' = (us_states us)(x \<mapsto> st\<lparr>ixs_size := sz\<rparr>)" "us_store us' = (us_store us)[a := ps]"
    by (simp_all add: us'_def)
  have a: "a \<in> index_cells us x" "a < length (us_store us)" using assms(2) by (simp_all add: task_ok_def index_cells_def)
  have cells: "cell us' b = cell us b" for b
    using assms(4) a(2) us'(2) by (cases "b = a") (simp_all add: cell_def)
  then have index: "index_cells us' y = index_cells us y" for y using us'(2) by (simp add: index_cells_def)
  have rest: "(\<Sum>b\<in>index_cells us y - {a}. ps_size (us_store us' ! b)) = (\<Sum>b\<in>index_cells us y - {a}. ps_size (us_store us ! b))" for y
    using us'(2) by (intro sum.cong) auto
  have "ixs_size st = (\<Sum>b\<in>index_cells us x. ps_size (us_store us ! b))" using assms(1,3) by (simp add: sizes_ok_def)
  then have old: "ixs_size st = ps_size (us_store us ! a) + (\<Sum>b\<in>index_cells us x - {a}. ps_size (us_store us ! b))"
    using a(1) by (simp add: sum.remove)
  have "(\<Sum>b\<in>index_cells us x. ps_size (us_store us' ! b)) = ps_size ps + (\<Sum>b\<in>index_cells us x - {a}. ps_size (us_store us ! b))"
    using a rest [of x] us'(2) by (simp add: sum.remove [of _ a])
  then have "sz = (\<Sum>b\<in>index_cells us x. ps_size (us_store us' ! b))" using size old by simp
  moreover have "(\<Sum>b\<in>index_cells us y. ps_size (us_store us' ! b)) = (\<Sum>b\<in>index_cells us y. ps_size (us_store us ! b))" if "y \<noteq> x" for y
    using that a us'(2) by (intro sum.cong) (auto simp: index_cells_def nth_list_update)
  ultimately show ?thesis
    using assms(1,3) us' unfolding us'_def [symmetric] by (auto simp: sizes_ok_def cells index)
qed

locale reliable_actor = usearch_actor P keys E + reliable_index "up_index P" keys
  for P :: "'i usearch_params" and keys :: "'i \<Rightarrow> primary_id set" and E :: "'i usearch_env" +
  assumes created_ok: "ue_created E r \<Longrightarrow> is_ok r"
    and never_refused: "ue_allocate E a \<Longrightarrow> a = CanAllocate"
begin

definition cell_ok :: "'i partition_state \<Rightarrow> primary_id list \<Rightarrow> nat list \<Rightarrow> bool" where
  "cell_ok ps adds reserves \<longleftrightarrow>
     ps_size ps = card (keys (ps_idx ps)) \<and> distinct adds \<and> set adds \<inter> keys (ps_idx ps) = {} \<and>
     ps_size ps + length adds \<le> ps_capacity ps \<and> ps_capacity ps \<le> ui_capacity (up_index P) (ps_idx ps) \<and>
     (\<forall>capacity\<in>set reserves. ps_capacity ps \<le> capacity) \<and>
     ps_free_threshold ps = free_threshold (up_channel_size P) (up_num_workers P) \<and> 0 < ps_capacity_increment ps"

lemma cell_ok_perm: "cell_ok ps adds reserves \<Longrightarrow> mset adds' = mset adds \<Longrightarrow> set reserves' = set reserves \<Longrightarrow> cell_ok ps adds' reserves'"
  using mset_eq_imp_distinct_iff [of adds' adds] mset_eq_setD [of adds' adds] mset_eq_length [of adds' adds]
  by (simp add: cell_ok_def)

lemma cell_ok_add:
  assumes "cell_ok ps adds reserves" and "p \<in> set adds"
  shows "p \<notin> keys (ps_idx ps) \<and> card (keys (ps_idx ps)) < ui_capacity (up_index P) (ps_idx ps)"
proof -
  have "0 < length adds" using assms(2) by (rule length_pos_if_in_set)
  then have "ps_size ps < ps_capacity ps" using assms(1) unfolding cell_ok_def by linarith
  then show ?thesis using assms by (auto simp: cell_ok_def)
qed

lemma add_room:
  assumes "cell_ok ps adds reserves" and "p \<in> set adds"
  shows "card (keys (ps_idx ps)) + length adds \<le> ui_capacity (up_index P) (ps_idx ps) \<and>
    is_ok (fst (ui_add (up_index P) p v (ps_idx ps)))"
proof -
  obtain i where "ui_add (up_index P) p v (ps_idx ps) = (Ok (), i)"
    using cell_ok_add [OF assms] add_within by blast
  then show ?thesis using assms(1) by (simp add: cell_ok_def)
qed

lemma cell_ok_created: "ue_created E (Ok i) \<Longrightarrow> cell_ok (partition_state_new (up_channel_size P) (up_num_workers P) q i) [] []"
  using created_empty by (simp add: cell_ok_def partition_state_new_def RESERVE_INCREMENT_GLOBAL_def RESERVE_INCREMENT_LOCAL_def)

text \<open>A task that runs uses the room that was kept for it.\<close>

lemma run_cell:
  assumes run: "run_job P t dimensions job ps sz = Ok (replies, ps', sz')"
    and ok: "cell_ok ps (added job @ adds) (reserving job @ reserves)"
    and alone: "reserving job \<noteq> [] \<Longrightarrow> adds = [] \<and> reserves = []" and family: "added job \<noteq> [] \<Longrightarrow> reserves = []"
  shows "cell_ok ps' adds reserves \<and> adds_succeed job ps \<and>
    (ps_size ps \<le> sz \<longrightarrow> sz' + ps_size ps = sz + ps_size ps') \<and>
    ps_size ps' \<le> ps_size ps + length (added job) \<and>
    (\<forall>capacity\<in>set (reserving job). capacity \<le> ps_capacity ps') \<and> ps_capacity ps \<le> ps_capacity ps'"
proof (cases job)
  case (ReserveJob capacity)
  obtain i where i: "ui_reserve (up_index P) capacity (ps_idx ps) = (Ok (), i)" using reserve_succeeds by blast
  have "ps' = ps\<lparr>ps_idx := i, ps_capacity := ui_capacity (up_index P) i\<rparr>" "sz' = sz"
    using run ReserveJob i by (simp_all add: reserve_partition_def)
  then show ?thesis
    using ok alone ReserveJob reserve_keys [OF i] reserve_room [OF i] by (auto simp: cell_ok_def adds_succeed_def)
next
  case (ProcessJob msg)
  show ?thesis
  proof (cases msg)
    case (Search m)
    then have "ps' = ps" "sz' = sz"
      using run ProcessJob process_search [of P t dimensions m ps sz replies ps' sz'] by simp_all
    then show ?thesis using ok ProcessJob Search by (simp add: adds_succeed_def)
  next
    case (Modify m)
    show ?thesis
    proof (cases m)
      case (VsAddVector q p v pr)
      have "p \<notin> keys (ps_idx ps) \<and> card (keys (ps_idx ps)) < ui_capacity (up_index P) (ps_idx ps)"
        using cell_ok_add [OF ok, of p] ProcessJob Modify VsAddVector by simp
      then obtain i where i: "ui_add (up_index P) p v (ps_idx ps) = (Ok (), i)" using add_within by blast
      then have "ps' = ps\<lparr>ps_idx := i, ps_size := ps_size ps + 1\<rparr>" "sz' = sz + 1"
        using run ProcessJob Modify VsAddVector by (simp_all add: process_def add_embedding_def)
      then show ?thesis
        using ok ProcessJob Modify VsAddVector i add_ok [OF i] card_add [OF i] by (auto simp: cell_ok_def adds_succeed_def)
    next
      case (VsRemoveVector q p pr)
      obtain r i where i: "ui_remove (up_index P) p (ps_idx ps) = (r, i)" by fastforce
      show ?thesis
      proof (rule remove_cases [OF i])
        assume "p \<in> keys (ps_idx ps)" and r: "r = Ok True"
        then have "ps' = ps\<lparr>ps_idx := i, ps_size := ps_size ps - 1\<rparr>" "sz' = sz - 1"
          using run ProcessJob Modify VsRemoveVector i by (simp_all add: process_def remove_embedding_def)
        then show ?thesis
          using ok ProcessJob Modify VsRemoveVector remove_any [OF i] card_remove [of p "ps_idx ps" i] i r
          by (auto simp: cell_ok_def adds_succeed_def)
      next
        assume "p \<notin> keys (ps_idx ps)" and r: "r = Ok False"
        then have "ps' = ps\<lparr>ps_idx := i\<rparr>" "sz' = sz"
          using run ProcessJob Modify VsRemoveVector i by (simp_all add: process_def remove_embedding_def)
        then show ?thesis
          using ok ProcessJob Modify VsRemoveVector remove_any [OF i] \<open>p \<notin> keys (ps_idx ps)\<close>
          by (simp add: cell_ok_def adds_succeed_def)
      qed
    qed (use run ProcessJob Modify in \<open>simp add: process_def\<close>)
  qed
qed

text \<open>
  An addition that was sent to its permit has room: in the capacity, or in the reservation that
  will have run by the time the permit is granted.
\<close>

definition ready :: "'i usearch_system \<Rightarrow> nat \<Rightarrow> bool" where
  "ready s a \<longleftrightarrow>
     (let ps = us_store (sy_actor s) ! a
      in ps_size ps + length (pending added a (held s)) + 1 \<le> ps_capacity ps \<or>
         (\<exists>capacity\<in>set (pending reserving a (held s)). ps_size ps + 1 \<le> capacity))"

definition cells_ok :: "'i usearch_system \<Rightarrow> bool" where
  "cells_ok s \<longleftrightarrow>
     (\<forall>a<length (us_store (sy_actor s)).
        cell_ok (us_store (sy_actor s) ! a) (pending added a (held s)) (pending reserving a (held s)))"

fun pc_ok :: "'i usearch_system \<Rightarrow> usearch_pc \<Rightarrow> bool" where
  "pc_ok s (SendReserve x a capacity msg) = (ps_size (us_store (sy_actor s) ! a) + 1 \<le> capacity)"
| "pc_ok s (AtPermit x a msg) = (is_add msg \<longrightarrow> ready s a)"
| "pc_ok s _ = True"

text \<open>The vector of a waiting addition is in no index.\<close>

fun fresh :: "'i usearch_system \<Rightarrow> (index_id \<times> nat \<times> message) option \<Rightarrow> bool" where
  "fresh s (Some (x, a, Modify (VsAddVector q p v pr))) = (p \<notin> settled keys s a)"
| "fresh s _ = True"

definition room_inv :: "'i usearch_system \<Rightarrow> bool" where
  "room_inv s \<longleftrightarrow> cells_ok s \<and> pc_ok s (sy_pc s) \<and> fresh s (pc_waiting (sy_pc s))"

lemma ready_frame: "us_store (sy_actor s') = us_store (sy_actor s) \<Longrightarrow> held s' = held s \<Longrightarrow> ready s' = ready s"
  by (simp add: ready_def fun_eq_iff)

lemma cells_ok_frame: "us_store (sy_actor s') = us_store (sy_actor s) \<Longrightarrow> held s' = held s \<Longrightarrow> cells_ok s' = cells_ok s"
  by (simp add: cells_ok_def)

lemma pc_ok_frame:
  "us_store (sy_actor s') = us_store (sy_actor s) \<Longrightarrow> held s' = held s \<Longrightarrow> pc_ok s' pc = pc_ok s pc"
  using ready_frame [of s' s] by (cases pc) simp_all

lemma fresh_mono: "(\<And>a. settled keys s' a \<subseteq> settled keys s a) \<Longrightarrow> fresh s w \<Longrightarrow> fresh s' w"
  by (cases "(s, w)" rule: fresh.cases) auto

lemma room_frame:
  assumes "room_inv s" and "us_store (sy_actor s') = us_store (sy_actor s)" and "held s' = held s"
    and "pc_waiting (sy_pc s') = pc_waiting (sy_pc s) \<or> pc_waiting (sy_pc s') = None"
    and "pc_ok s (sy_pc s) \<Longrightarrow> pc_ok s (sy_pc s')"
  shows "room_inv s'"
proof -
  have "fresh s' (pc_waiting (sy_pc s))"
    using assms(1) settled_frame [OF assms(2,3), of keys] fresh_mono [of s' s] by (simp add: room_inv_def)
  then have "fresh s' (pc_waiting (sy_pc s'))" using assms(4) by auto
  then show ?thesis
    using assms cells_ok_frame [of s' s] pc_ok_frame [of s' s] by (simp add: room_inv_def)
qed

lemma length_pending: "length (pending added a tasks) \<le> length tasks"
proof (induction tasks)
  case (Cons task tasks)
  have "length (added job) \<le> 1" for job by (cases job rule: added.cases) auto
  then show ?case using Cons by (cases task) (auto intro: le_trans add_mono)
qed simp

text \<open>The threshold leaves room for every task the channel and the workers can hold.\<close>

lemma enough_room:
  assumes "system_inv P E s" and "cells_ok s" and "a < length (us_store (sy_actor s))" and "pc_granted (sy_pc s) = []"
    and "needs_more_capacity (us_store (sy_actor s) ! a) = None"
  shows "ready s a"
proof -
  have "length (pending added a (held s)) \<le> up_num_workers P + up_channel_size P"
    using length_pending [of a "held s"] assms(1,4) by (simp add: held_def system_inv_def)
  then show ?thesis
    using assms(2,3,5) unfolding ready_def cells_ok_def cell_ok_def
    by (auto simp: needs_more_capacity_def free_threshold_def Let_def split: if_splits)
qed

lemma more_capacity:
  assumes "cell_ok ps adds reserves" and "needs_more_capacity ps = Some capacity"
  shows "ps_size ps + 1 \<le> capacity \<and> ps_capacity ps \<le> capacity"
  using assms by (auto simp: cell_ok_def needs_more_capacity_def split: if_splits)

lemma room_run:
  assumes inv: "system_inv P E s" and room: "room_inv s" and running: "sy_running s = before @ (x, a, job) # after"
    and run: "run_job P t dimensions job (us_store (sy_actor s) ! a) sz = Ok (replies, ps, sz')"
    and store: "us_store (sy_actor s') = (us_store (sy_actor s))[a := ps]" and pc: "sy_pc s' = sy_pc s"
    and held': "held s' = before @ after @ sy_queue s @ pc_granted (sy_pc s)"
  shows "room_inv s' \<and> adds_succeed job (us_store (sy_actor s) ! a) \<and>
    (ps_size (us_store (sy_actor s) ! a) \<le> sz \<longrightarrow> sz' + ps_size (us_store (sy_actor s) ! a) = sz + ps_size ps)"
proof -
  let ?old = "us_store (sy_actor s) ! a"
  have held: "held s = before @ (x, a, job) # (after @ sy_queue s @ pc_granted (sy_pc s))"
    using running by (simp add: held_def)
  define rest where "rest = before @ after @ sy_queue s @ pc_granted (sy_pc s)"
  have now: "held s' = rest" using held' by (simp add: rest_def)
  have task: "(x, a, job) \<in> set (held s)" using held by simp
  have a: "a < length (us_store (sy_actor s))"
    using system_invD(2) [OF inv task] by (simp add: task_ok_def)
  have family: "job_mode job' = job_mode job" if "(y, a, job') \<in> set rest" for y job'
    using held_family [OF inv task] that held by (auto simp: rest_def)
  have "cell_ok ?old (pending added a (held s)) (pending reserving a (held s))"
    using room a by (simp add: room_inv_def cells_ok_def)
  then have ok: "cell_ok ?old (added job @ pending added a rest) (reserving job @ pending reserving a rest)"
    by (rule cell_ok_perm) (auto simp: held rest_def)
  have alone: "pending added a rest = [] \<and> pending reserving a rest = []" if "reserving job \<noteq> []"
  proof -
    have "job_mode job = Ok ModeReserve" using that reserving_mode last_in_set by blast
    then show ?thesis
      using held_alone [OF inv held, where f = added] held_alone [OF inv held, where f = reserving] by (simp add: rest_def)
  qed
  have none: "pending reserving a rest = []" if "added job \<noteq> []"
  proof (rule pending_other [OF _ reserving_mode op_mode.distinct(2)])
    show "job_mode job' = Ok ModeInsert" if "(y, a, job') \<in> set rest" for y job'
      using family [OF that] \<open>added job \<noteq> []\<close> added_mode last_in_set by metis
  qed simp_all
  note cell = run_cell [OF run ok alone none]
  have settled: "settled keys s' b \<subseteq> settled keys s b" for b
    using settled_run [OF inv running run store held'] by simp
  have "cells_ok s'"
    unfolding cells_ok_def
  proof (intro allI impI)
    fix b
    assume b: "b < length (us_store (sy_actor s'))"
    show "cell_ok (us_store (sy_actor s') ! b) (pending added b (held s')) (pending reserving b (held s'))"
    proof (cases "b = a")
      case True
      then show ?thesis using cell a store now by simp
    next
      case False
      then have same: "pending added b (held s) = pending added b rest" "pending reserving b (held s) = pending reserving b rest"
        by (simp_all add: held rest_def)
      have "cell_ok (us_store (sy_actor s) ! b) (pending added b (held s)) (pending reserving b (held s))"
        using room b store by (simp add: room_inv_def cells_ok_def)
      then show ?thesis using False store unfolding same now by simp
    qed
  qed
  moreover have "pc_ok s' (sy_pc s')"
  proof (cases "sy_pc s")
    case (SendReserve y b capacity msg)
    then have "capacity \<in> set (pending reserving b rest)" by (simp add: rest_def)
    then have "added job = []" if "b = a" using that none by force
    then show ?thesis
      using SendReserve room pc store cell a by (cases "b = a") (auto simp: room_inv_def)
  next
    case (AtPermit y b msg)
    have "ready s' b" if "ready s b"
    proof (cases "b = a")
      case True
      have "length (pending added a (held s)) = length (added job) + length (pending added a rest)"
        by (simp add: held rest_def)
      moreover have "set (pending reserving a (held s)) = set (reserving job) \<union> set (pending reserving a rest)"
        by (auto simp: held rest_def)
      ultimately consider "ps_size ?old + length (added job) + length (pending added a rest) + 1 \<le> ps_capacity ?old"
        | capacity where "capacity \<in> set (reserving job)" "ps_size ?old + 1 \<le> capacity"
        | capacity where "capacity \<in> set (pending reserving a rest)" "ps_size ?old + 1 \<le> capacity"
        using \<open>ready s b\<close> True by (auto simp: ready_def Let_def)
      then show ?thesis
      proof cases
        case 1
        then show ?thesis using True cell a store now by (simp add: ready_def Let_def)
      next
        case 2
        then have "pending added a rest = []" "added job = []" using alone by (cases job; force)+
        then show ?thesis using 2 True cell a store now by (fastforce simp: ready_def Let_def)
      next
        case 3
        then have "added job = []" using none by force
        then show ?thesis using 3 True cell a store now by (fastforce simp: ready_def Let_def)
      qed
    next
      case False
      then have "pending added b (held s) = pending added b rest" "pending reserving b (held s) = pending reserving b rest"
        by (simp_all add: held rest_def)
      then show ?thesis using that False store now by (simp add: ready_def)
    qed
    then show ?thesis using AtPermit room pc by (simp add: room_inv_def)
  qed (use pc in simp_all)
  moreover have "fresh s' (pc_waiting (sy_pc s'))"
    using settled room pc fresh_mono [of s' s] by (simp add: room_inv_def)
  ultimately show ?thesis
    using cell by (simp add: room_inv_def)
qed

lemma room_receive:
  assumes inv: "system_inv P E s" and room: "room_inv s" and idle: "sy_pc s = AtRecv" and sound: "sound s S"
    and told: "\<And>m. msg = Modify m \<Longrightarrow> vs_told m S \<noteq> None" and created: "ue_created E created"
    and pre: "preprocess P created t msg (sy_actor s) = (Ok (next_task, replies), us)"
    and s': "sy_actor s' = us" "held s' = held s" "sy_pc s' = pc_after next_task"
  shows "room_inv s'"
proof -
  have pc: "pc_ok s' (sy_pc s')" using s'(3) by (simp add: pc_after_def split: option.split)
  have none: "pending f (length (us_store (sy_actor s))) (held s) = []" for f :: "job \<Rightarrow> 'b list"
    using inv by (intro pending_none) (fastforce simp: system_inv_def task_ok_def)
  have nones: "pending reserving (length (us_store (sy_actor s))) (held s) = []"
    using inv by (intro pending_none) (fastforce simp: system_inv_def task_ok_def)
  have before: "settled keys s a \<subseteq> snd ` S" if "a < length (us_store (sy_actor s))" for a
    using sound that idle by (force simp: sound_def expected_def)
  show ?thesis
  proof (cases "us_store us = us_store (sy_actor s)")
    case True
    have "fresh s' next_task"
    proof (cases msg)
      case (Search m)
      then have "\<forall>x a m'. next_task = Some (x, a, m') \<longrightarrow> (\<exists>m''. m' = Search m'')"
        using preprocess_search pre by blast
      then show ?thesis by (cases "(s', next_task)" rule: fresh.cases) auto
    next
      case (Modify m)
      have "p \<notin> settled keys s a" if "next_task = Some (x, a, Modify (VsAddVector q p v pr))" for x a q p v pr
      proof -
        have "us_partitions (sy_actor s) q = Some a"
          using pre Modify that True
          by (cases m) (auto simp: preprocess_def add_partition_def Let_def split: option.splits sum.splits)
        then have "a < length (us_store (sy_actor s))" using inv by (simp add: system_inv_def maps_ok_def)
        moreover have "m = VsAddVector q p v pr"
          using pre Modify that by (cases m) (auto simp: preprocess_def split: option.splits sum.splits)
        ultimately show ?thesis using before told [OF Modify] by (fastforce split: if_splits)
      qed
      then have "fresh s next_task" by (cases "(s, next_task)" rule: fresh.cases) auto
      then show ?thesis using settled_frame [of s' s keys] True s' by (intro fresh_mono [of s' s]) simp_all
    qed
    then show ?thesis
      using room pc True s' cells_ok_frame [of s' s] by (simp add: room_inv_def)
  next
    case False
    let ?n = "length (us_store (sy_actor s))"
    have "preprocess P created t (Search m) (sy_actor s) = (r, us) \<Longrightarrow> us = sy_actor s" for m r
      using preprocess_search by blast
    then obtain q p v pr idx where new: "created = Ok idx" "us = add_partition P q idx (sy_actor s)"
        "next_task = Some (partition_index_id q, ?n, msg)" "msg = Modify (VsAddVector q p v pr)"
      using pre False by (cases msg; cases "case msg of Modify m \<Rightarrow> m")
        (auto simp: preprocess_def split: option.splits sum.splits)
    have store: "us_store us = us_store (sy_actor s) @ [partition_state_new (up_channel_size P) (up_num_workers P) q idx]"
      using new(2) by (simp add: add_partition_def Let_def)
    have "keys idx = {}" using created created_empty new(1) by simp
    then have "settled keys s' ?n = {}"
      using none [of added] s' store by (simp add: settled_def stored_at_def partition_state_new_def)
    then have "fresh s' next_task" using new(3,4) by simp
    moreover have "cells_ok s'"
      unfolding cells_ok_def
    proof (intro allI impI)
      fix a
      assume "a < length (us_store (sy_actor s'))"
      then consider "a < ?n" | "a = ?n" using s'(1) store by fastforce
      then show "cell_ok (us_store (sy_actor s') ! a) (pending added a (held s')) (pending reserving a (held s'))"
      proof cases
        case 1
        then show ?thesis using room s' store by (simp add: room_inv_def cells_ok_def nth_append)
      next
        case 2
        then show ?thesis using s' store none [of added] nones cell_ok_created [of idx q] created new(1) by simp
      qed
    qed
    ultimately show ?thesis using pc s'(3) by (simp add: room_inv_def)
  qed
qed

lemma room_granted:
  assumes inv: "system_inv P E s" and room: "room_inv s" and at: "sy_pc s = AtPermit x a msg" and mode: "mode_of msg = Ok mode"
    and st: "us_states (sy_actor s) x = Some st" and permit: "permit mode (ixs_operation st) = Some op"
    and s': "held s' = held s @ [(x, a, ProcessJob msg)]" "us_store (sy_actor s') = us_store (sy_actor s)" "sy_pc s' = SendTask x a msg"
  shows "room_inv s'"
proof -
  have task: "task_ok (sy_actor s) (x, a, ProcessJob msg)" using system_invD(3) [OF inv, of x a msg] at by simp
  then have a: "a < length (us_store (sy_actor s))" by (simp add: task_ok_def)
  note cell = room [unfolded room_inv_def cells_ok_def, THEN conjunct1, rule_format]
  have "cell_ok (us_store (sy_actor s') ! b) (pending added b (held s')) (pending reserving b (held s'))"
    if "b < length (us_store (sy_actor s))" for b
  proof (cases "b = a \<and> is_add msg")
    case False
    then have "pending added b [(x, a, ProcessJob msg)] = []" by (cases msg rule: is_add.cases) auto
    then show ?thesis using cell [OF that] s' by (rule_tac cell_ok_perm) simp_all
  next
    case True
    then obtain q p v pr where msg: "msg = Modify (VsAddVector q p v pr)" by (cases msg rule: is_add.cases) auto
    have insert: "mode = ModeInsert" using mode msg by simp
    have "settled keys s' a = effect a msg a (settled keys s a)"
      using settled_granted [OF inv task st mode permit s'(1,2)] .
    have inserts: "job_mode job = Ok ModeInsert" if held: "(y, a, job) \<in> set (held s)" for y job
    proof -
      have "y = x" using system_invD(2) [OF inv held] task by (simp add: task_ok_def)
      then have "x \<in> fst ` set (held s)" using held by force
      then show ?thesis
        using system_invD(5) [OF inv st] held \<open>y = x\<close> permit insert
        by (auto simp: permits_ok_def permit_Some count_list_0_iff)
    qed
    have no_removal: "pending removed a (held s) = []"
      by (rule pending_other [of a "held s" ModeInsert _ ModeRemove]) (blast intro: inserts removed_mode | simp)+
    have no_reserve: "pending reserving a (held s) = []"
      by (rule pending_other [of a "held s" ModeInsert _ ModeReserve]) (blast intro: inserts reserving_mode | simp)+
    note none = no_removal no_reserve
    have "p \<notin> settled keys s a" using room at msg by (simp add: room_inv_def)
    then have "p \<notin> keys (ps_idx (us_store (sy_actor s) ! a))" "p \<notin> set (pending added a (held s))"
      using none by (simp_all add: settled_def stored_at_def)
    moreover have "ready s a" using room at msg by (simp add: room_inv_def)
    ultimately show ?thesis
      using True cell [OF a] s' none msg by (auto simp: cell_ok_def ready_def Let_def)
  qed
  moreover have "fresh s' (pc_waiting (sy_pc s'))" using s'(3) by simp
  ultimately show ?thesis using s' by (simp add: room_inv_def cells_ok_def)
qed

text \<open>All of it together, for every step.\<close>

lemma room_step:
  assumes step: "usearch_step P E s s'" and inv: "system_inv P E s" and told: "told msgs s S"
    and all: "told_all vs_told msgs {} \<noteq> None" and sound: "sound s S" and room: "room_inv s" and sizes: "sizes_ok (sy_actor s)"
  shows "room_inv s' \<and> sizes_ok (sy_actor s')"
  using step
proof (cases rule: usearch_step.cases)
  case (receive msg ss ms allocate prev created t next_task replies us)
  have "vs_told m S \<noteq> None" if "msg = Modify m" for m
    using told_take [OF told all, of m s'] vs_recv_modify [OF receive(3)] receive(1) that by auto
  then have "room_inv s'"
    using receive(1,2) by (intro room_receive [OF inv room receive(2) sound _ receive(6,8)]) (auto simp: held_def)
  then show ?thesis using receive(1) sizes_ok_preprocess [OF sizes receive(8)] by simp
next
  case (dispatch x a msg)
  have "ready s a" if "is_add msg \<longrightarrow> needs_more_capacity (us_store (sy_actor s) ! a) = None" "is_add msg"
  proof (rule enough_room [OF inv])
    show "a < length (us_store (sy_actor s))"
      using system_invD(3) [OF inv, of x a msg] dispatch(2) by (simp add: task_ok_def)
  qed (use that dispatch room in \<open>auto simp: room_inv_def\<close>)
  then have "pc_ok s (sy_pc s')" using dispatch(1) by simp
  then have "room_inv s'" using dispatch by (intro room_frame [OF room]) (simp_all add: held_def)
  then show ?thesis using dispatch sizes by simp
next
  case (permit_reserve x a msg st op capacity)
  have task: "task_ok (sy_actor s) (x, a, ProcessJob msg)"
    using system_invD(3) [OF inv, of x a msg] permit_reserve(2) by simp
  have held: "held s' = held s @ [(x, a, ReserveJob capacity)]" using permit_reserve(1,2) by (simp add: held_def)
  have a: "cell_ok (us_store (sy_actor s) ! a) (pending added a (held s)) (pending reserving a (held s))"
    using room task by (simp add: room_inv_def cells_ok_def task_ok_def)
  note more = more_capacity [OF a permit_reserve(5)]
  have "cells_ok s'"
    using room more permit_reserve(1) unfolding cells_ok_def held room_inv_def by (auto simp: cell_ok_def)
  moreover have "settled keys s' b = settled keys s b" for b
    using permit_reserve(1) unfolding settled_def stored_at_def held by simp
  then have "fresh s' (pc_waiting (sy_pc s'))"
    using room permit_reserve(1,2) fresh_mono [of s' s] by (simp add: room_inv_def)
  ultimately have "room_inv s'" using more permit_reserve(1) by (simp add: room_inv_def)
  then show ?thesis using permit_reserve(1) sizes_ok_set_operation [OF sizes permit_reserve(3)] by simp
next
  case (permit_unused x a msg st op)
  have "ready s a"
    using system_invD(3) [OF inv, of x a msg] permit_unused room
    by (intro enough_room [OF inv]) (simp_all add: task_ok_def room_inv_def)
  then have "room_inv s'" using permit_unused by (intro room_frame [OF room]) (simp_all add: held_def)
  then show ?thesis using permit_unused(1) sizes_ok_set_operation [OF sizes permit_unused(3)] by simp
next
  case (send_reserve x a capacity msg)
  have "ready s a" using room send_reserve(2) by (auto simp: room_inv_def ready_def Let_def held_def)
  then have "room_inv s'" using send_reserve by (intro room_frame [OF room]) (simp_all add: held_def)
  then show ?thesis using send_reserve(1) sizes by simp
next
  case (permit_message x a msg mode st op)
  have "room_inv s'"
    using permit_message by (intro room_granted [OF inv room permit_message(2-5)]) (simp_all add: held_def)
  then show ?thesis using permit_message(1) sizes_ok_set_operation [OF sizes permit_message(4)] by simp
next
  case (run_task before x a job after st t replies ps sz)
  have task: "task_ok (sy_actor s) (x, a, job)" using system_invD(2) [OF inv] run_task(2) by (simp add: held_def)
  have ran: "room_inv s' \<and>
      (ps_size (us_store (sy_actor s) ! a) \<le> ixs_size st \<longrightarrow> sz + ps_size (us_store (sy_actor s) ! a) = ixs_size st + ps_size ps)"
    using run_task(1) room_run [OF inv room run_task(2,5), of s'] by (simp add: held_def)
  then show ?thesis
    using run_task(1) run_job_partition [OF run_task(5)] sizes_ok_run [OF sizes task run_task(3), of ps sz]
    by (simp add: cell_def)
next
  case (finish_task before x after st)
  have "room_inv s'" using finish_task by (intro room_frame [OF room]) (simp_all add: held_def)
  then show ?thesis using finish_task(1) sizes_ok_set_operation [OF sizes finish_task(3)] by simp
qed (use room sizes in \<open>auto intro!: room_frame [OF room] simp: held_def\<close>)

lemma room_adds_succeed:
  assumes inv: "system_inv P E s" and room: "room_inv s"
  shows "\<forall>(x, a, job)\<in>set (sy_running s). adds_succeed job (us_store (sy_actor s) ! a)"
proof (clarify)
  fix x a job
  assume running: "(x, a, job) \<in> set (sy_running s)"
  then have held: "(x, a, job) \<in> set (held s)" by (simp add: held_def)
  then have a: "cell_ok (us_store (sy_actor s) ! a) (pending added a (held s)) (pending reserving a (held s))"
    using room system_invD(2) [OF inv held] by (simp add: room_inv_def cells_ok_def task_ok_def)
  show "adds_succeed job (us_store (sy_actor s) ! a)"
  proof (unfold adds_succeed_def, intro allI impI)
    fix q p v pr
    assume "job = ProcessJob (Modify (VsAddVector q p v pr))"
    then have "p \<in> set (pending added a (held s))" using held in_pending by fastforce
    then show "is_ok (fst (ui_add (up_index P) p v (ps_idx (us_store (sy_actor s) ! a))))"
      using add_room [OF a] by blast
  qed
qed

theorem reachable_reliable:
  assumes "usearch_reachable P E msgs s" and "told_all vs_told msgs {} \<noteq> None"
  shows "\<exists>S. told msgs s S \<and> sound s S \<and> complete s S \<and> room_inv s \<and> sizes_ok (sy_actor s)"
  using assms
proof (induction rule: usearch_reachable.induct)
  case start
  have "room_inv (system_new msgs)"
    by (simp add: room_inv_def cells_ok_def system_new_def usearch_new_def)
  then show ?case
    using told_new sound_new complete_new sizes_ok_new by (auto simp: system_new_def)
next
  case (step s s')
  then obtain S where S: "told msgs s S" "sound s S" "complete s S" "room_inv s" "sizes_ok (sy_actor s)" by blast
  have inv: "system_inv P E s" using step(1) by (rule reachable_system_inv)
  obtain S' where "told msgs s' S'" "sound s' S'" "complete s' S'"
    using step_told [OF step(2) inv S(1) step(4)] S(2,3) room_adds_succeed [OF inv S(4)] created_ok never_refused by blast
  then show ?case
    using room_step [OF step(2) inv S(1) step(4) S(2,4,5)] by blast
qed

end

end
