(* ===== verification/Usearch_Progress.thy ===== *)
theory Usearch_Progress
  imports Usearch_Permits
begin

text \<open>
  The actor of a vector index and its workers never block for good: while anything is left to
  do some step is possible, every step but the arrival of a search takes off the work that is
  left, and so every schedule ends with empty channels and all permits given back.
\<close>

fun pc_work :: "usearch_pc \<Rightarrow> nat" where
  "pc_work AtRecv = 0"
| "pc_work (AtDispatch x a msg) = 11"
| "pc_work (AtReserve x a msg) = 10"
| "pc_work (SendReserve x a capacity msg) = 9"
| "pc_work (AtPermit x a msg) = 5"
| "pc_work (SendTask x a msg) = 4"
| "pc_work Crashed = 0"

definition work :: "'i usearch_system \<Rightarrow> nat" where
  "work s = 12 * (length (sy_modify s) + length (sy_search s)) + pc_work (sy_pc s) +
     3 * length (sy_queue s) + 2 * length (sy_running s) + length (sy_finishing s)"

definition drained :: "'i usearch_system \<Rightarrow> bool" where
  "drained s \<longleftrightarrow> sy_pc s = AtRecv \<and> sy_modify s = [] \<and> sy_search s = [] \<and> sy_queue s = [] \<and> sy_running s = [] \<and> sy_finishing s = []"

text \<open>A step that is not the arrival of a search.\<close>

definition own_step :: "'i usearch_params \<Rightarrow> 'i usearch_env \<Rightarrow> 'i usearch_system \<Rightarrow> 'i usearch_system \<Rightarrow> bool" where
  "own_step P E s s' \<longleftrightarrow> usearch_step P E s s' \<and> length (sy_search s') \<le> length (sy_search s)"

lemma vs_recv_length: "vs_recv ss ms = Some (msg, ss', ms') \<Longrightarrow> length ms + length ss = Suc (length ms' + length ss')"
  by (cases ss; cases ms) auto

lemma own_step_work:
  assumes own: "own_step P E s s'" and "sy_pc s' \<noteq> Crashed"
  shows "work s' < work s"
proof -
  have step: "usearch_step P E s s'" and search: "length (sy_search s') \<le> length (sy_search s)"
    using own by (simp_all add: own_step_def)
  from step show ?thesis
  proof (cases rule: usearch_step.cases)
    case (receive msg ss ms allocate prev created t next_task replies us)
    have "pc_work (pc_after next_task) < 12" by (auto simp: pc_after_def split: option.split)
    then show ?thesis using receive vs_recv_length [OF receive(3)] by (simp add: work_def)
  next
    case (refuse msg ss ms allocate prev)
    then show ?thesis using vs_recv_length [OF refuse(3)] by (simp add: work_def)
  qed (use search assms(2) in \<open>auto simp: work_def\<close>)
qed

text \<open>A task that can be dispatched runs to its end.\<close>

lemma process_total: "msg_fits q msg \<Longrightarrow> \<exists>r. process P t dimensions msg ps sz = Ok r"
  by (cases "(q, msg)" rule: msg_fits.cases) (auto simp: process_def)

lemma run_job_total: "job_fits q job \<Longrightarrow> \<exists>r. run_job P t dimensions job ps sz = Ok r"
  using process_total by (cases job) auto

text \<open>While a permit is out, some task can move.\<close>

lemma tasks_progress:
  assumes inv: "system_inv P E s" and t: "ue_table E t" and workers: "0 < up_num_workers P"
    and busy: "sy_queue s \<noteq> [] \<or> sy_running s \<noteq> [] \<or> sy_finishing s \<noteq> []"
  shows "\<exists>s'. own_step P E s s'"
proof -
  consider (finish) x after where "sy_finishing s = x # after" | (run) x a job after where "sy_running s = (x, a, job) # after"
    | (start) tk q where "sy_queue s = tk # q" "sy_running s = []" "sy_finishing s = []"
    using busy by (cases "sy_finishing s"; cases "sy_running s"; cases "sy_queue s") auto
  then show ?thesis
  proof cases
    case finish
    then obtain st where "us_states (sy_actor s) x = Some st" using system_invD(4) [OF inv, of x] by auto
    then have "usearch_step P E s (s\<lparr>sy_actor := set_operation x st (drop_permit (ixs_operation st)) (sy_actor s),
        sy_finishing := [] @ after\<rparr>)"
      using finish by (intro usearch_step.finish_task) simp_all
    then show ?thesis by (fastforce simp: own_step_def)
  next
    case run
    then have task: "task_ok (sy_actor s) (x, a, job)" using system_invD(2) [OF inv] by (simp add: held_def)
    then obtain st where st: "us_states (sy_actor s) x = Some st" by (auto simp: task_ok_def)
    obtain replies ps sz where
      "run_job P t (ixs_dimensions st) job (us_store (sy_actor s) ! a) (ixs_size st) = Ok (replies, ps, sz)"
      using run_job_total task by (fastforce simp: task_ok_def)
    then have "usearch_step P E s (s\<lparr>sy_actor := (sy_actor s)\<lparr>us_states := (us_states (sy_actor s))(x \<mapsto> st\<lparr>ixs_size := sz\<rparr>),
          us_store := (us_store (sy_actor s))[a := ps]\<rparr>,
        sy_running := [] @ after, sy_finishing := x # sy_finishing s, sy_replies := sy_replies s @ replies\<rparr>)"
      using run st t by (intro usearch_step.run_task) simp_all
    then show ?thesis by (fastforce simp: own_step_def)
  next
    case start
    then have "usearch_step P E s (s\<lparr>sy_queue := q, sy_running := sy_running s @ [tk]\<rparr>)"
      using workers by (intro usearch_step.start_task) simp_all
    then show ?thesis by (fastforce simp: own_step_def)
  qed
qed

text \<open>A permit that is refused is waited for: a task of the index holds one.\<close>

lemma permit_or_busy:
  assumes inv: "system_inv P E s" and "us_states (sy_actor s) x = Some st" and "permit mode (ixs_operation st) = None"
    and "pc_granted (sy_pc s) = []"
  shows "sy_queue s \<noteq> [] \<or> sy_running s \<noteq> [] \<or> sy_finishing s \<noteq> []"
proof -
  have "op_counter (ixs_operation st) \<noteq> 0" using assms(3) by (auto simp: permit_def split: if_splits)
  then show ?thesis
    using system_invD(5) [OF inv assms(2)] assms(4) by (auto simp: permits_ok_def held_def)
qed

lemma own_progress:
  assumes inv: "system_inv P E s" and pc: "sy_pc s \<noteq> Crashed" and left: "\<not> drained s"
    and t: "ue_table E t" and allocate: "ue_allocate E allocate" and created: "ue_created E created"
    and workers: "0 < up_num_workers P" and channel: "0 < up_channel_size P"
  shows "\<exists>s'. own_step P E s s'"
proof -
  note busy = tasks_progress [OF inv t workers]
  have own: "\<exists>s'. own_step P E s s'" if "usearch_step P E s s'" "sy_search s' = sy_search s" for s'
    using that by (auto simp: own_step_def)
  have waiting: "\<exists>st. us_states (sy_actor s) x = Some st" if "pc_waiting (sy_pc s) = Some (x, a, msg)" for x a msg
    using system_invD(3) [OF inv that] by (auto simp: task_ok_def)
  show ?thesis
  proof (cases "sy_pc s")
    case AtRecv
    show ?thesis
    proof (cases "vs_recv (sy_search s) (sy_modify s)")
      case None
      then have "sy_search s = [] \<and> sy_modify s = []" by (cases "(sy_search s, sy_modify s)" rule: vs_recv.cases) auto
      then show ?thesis using busy left AtRecv by (auto simp: drained_def)
    next
      case (Some found)
      then obtain msg ss ms where recv: "vs_recv (sy_search s) (sy_modify s) = Some (msg, ss, ms)" by (cases found) auto
      have fewer: "length ss \<le> length (sy_search s)"
        using recv by (cases "(sy_search s, sy_modify s)" rule: vs_recv.cases) auto
      obtain ok prev where check: "check_memory_allocation msg allocate (sy_allocate_prev s) = (ok, prev)" by fastforce
      obtain r us where pre: "preprocess P created t msg (sy_actor s) = (r, us)" by fastforce
      show ?thesis
      proof (cases ok)
        case False
        then show ?thesis
          using usearch_step.refuse [OF AtRecv recv allocate, where prev = prev and P = P] check fewer by (fastforce simp: own_step_def)
      next
        case ok: True
        show ?thesis
        proof (cases r)
          case (Inl e)
          then show ?thesis
            using usearch_step.receive_panics [OF AtRecv recv created t, where e = e and us = us] pre by (fastforce simp: own_step_def)
        next
          case (Inr out)
          then obtain next_task replies where "r = Ok (next_task, replies)" by (cases out) simp
          then show ?thesis
            using usearch_step.receive [OF AtRecv recv allocate _ created t, where prev = prev and next_task = next_task and replies = replies and us = us] check ok pre fewer
            by (fastforce simp: own_step_def)
        qed
      qed
    qed
  next
    case (AtDispatch x a msg)
    show ?thesis by (rule own [OF usearch_step.dispatch [OF AtDispatch]]) simp
  next
    case (AtReserve x a msg)
    obtain st where st: "us_states (sy_actor s) x = Some st" using waiting AtReserve by fastforce
    show ?thesis
    proof (cases "permit ModeReserve (ixs_operation st)")
      case None
      then show ?thesis using busy permit_or_busy [OF inv st] AtReserve by simp
    next
      case (Some op)
      show ?thesis
      proof (cases "needs_more_capacity (us_store (sy_actor s) ! a)")
        case None
        show ?thesis by (rule own [OF usearch_step.permit_unused [OF AtReserve st Some None]]) simp
      next
        case (Some capacity)
        show ?thesis
          by (rule own [OF usearch_step.permit_reserve [OF AtReserve st \<open>permit ModeReserve (ixs_operation st) = Some op\<close> Some]]) simp
      qed
    qed
  next
    case (SendReserve x a capacity msg)
    show ?thesis
    proof (cases "length (sy_queue s) < up_channel_size P")
      case True
      show ?thesis by (rule own [OF usearch_step.send_reserve [OF SendReserve True]]) simp
    qed (use busy channel in fastforce)
  next
    case (AtPermit x a msg)
    obtain st where st: "us_states (sy_actor s) x = Some st" using waiting AtPermit by fastforce
    have "msg_fits (cell (sy_actor s) a) msg"
      using system_invD(3) [OF inv, of x a msg] AtPermit by (simp add: task_ok_def)
    then obtain mode where mode: "mode_of msg = Ok mode" using msg_fits_mode by blast
    show ?thesis
    proof (cases "permit mode (ixs_operation st)")
      case None
      then show ?thesis using busy permit_or_busy [OF inv st] AtPermit by simp
    next
      case (Some op)
      show ?thesis by (rule own [OF usearch_step.permit_message [OF AtPermit mode st Some]]) simp
    qed
  next
    case (SendTask x a msg)
    show ?thesis
    proof (cases "length (sy_queue s) < up_channel_size P")
      case True
      show ?thesis by (rule own [OF usearch_step.send_task [OF SendTask True]]) simp
    qed (use busy channel in fastforce)
  qed (use pc in simp)
qed

text \<open>So a run without new searches drains everything, whichever steps it takes.\<close>

lemma reaches_drained:
  assumes "usearch_reachable P E msgs s" and storable: "\<And>m. ue_search E m \<Longrightarrow> search_storable m"
    and "ue_table E t" and "ue_allocate E allocate" and "ue_created E created"
    and "0 < up_num_workers P" and "0 < up_channel_size P"
  shows "\<exists>s'. (own_step P E)\<^sup>*\<^sup>* s s' \<and> usearch_reachable P E msgs s' \<and> drained s'"
  using assms(1)
proof (induction "work s" arbitrary: s rule: less_induct)
  case less
  show ?case
  proof (cases "drained s")
    case True
    then show ?thesis using less.prems by blast
  next
    case False
    have "sy_pc s \<noteq> Crashed" by (rule reachable_not_crashed [OF less.prems storable])
    then obtain s1 where s1: "own_step P E s s1"
      using own_progress [OF reachable_system_inv [OF less.prems] _ False] assms(3-7) by blast
    then have r: "usearch_reachable P E msgs s1"
      using usearch_reachable.step [OF less.prems] by (simp add: own_step_def)
    have "sy_pc s1 \<noteq> Crashed" by (rule reachable_not_crashed [OF r storable])
    then have "work s1 < work s" using own_step_work [OF s1] by simp
    then obtain s' where "(own_step P E)\<^sup>*\<^sup>* s1 s'" "usearch_reachable P E msgs s'" "drained s'"
      using less.hyps [OF _ r] by blast
    then show ?thesis using s1 converse_rtranclp_into_rtranclp [of "own_step P E" s s1 s'] by blast
  qed
qed

end
