(* ===== verification/Usearch_Correct.thy ===== *)
theory Usearch_Correct
  imports Usearch_Reserve Usearch_Progress
begin

text \<open>
  The actor of a vector index does what it is told: when it has drained its channel, the vectors
  stored in its partitions are the entries it was told, none is ever stored that was not told,
  and \<open>Count\<close> answers their number. It does drain its channel, whatever the schedule. The
  properties hold for every index that keeps the contracts \<open>usearch_actor\<close> and
  \<open>reliable_actor\<close>; both are interpreted on the simulator of the source and proved for the
  wrapper of a library that keeps its contract.
\<close>

section \<open>Idle\<close>

text \<open>The actor waits for messages and no task is left that could change an index.\<close>

definition idle :: "'i usearch_system \<Rightarrow> bool" where
  "idle s \<longleftrightarrow> sy_pc s = AtRecv \<and> sy_modify s = [] \<and> sy_queue s = [] \<and> sy_running s = []"

definition contents :: "('i \<Rightarrow> primary_id set) \<Rightarrow> 'i usearch_system \<Rightarrow> entry set" where
  "contents keys s = {(q, p). \<exists>a. us_partitions (sy_actor s) q = Some a \<and> p \<in> stored_at keys s a}"

lemma idle_held: "idle s \<Longrightarrow> held s = []"
  by (simp add: idle_def held_def)

lemma idle_expected: "idle s \<Longrightarrow> expected keys s a = stored_at keys s a"
  using idle_held [of s] by (simp add: expected_def settled_def idle_def)

lemma idle_told: "idle s \<Longrightarrow> told msgs s S \<longleftrightarrow> told_all vs_told msgs {} = Some S"
  by (simp add: told_def idle_def)

context usearch_actor
begin

lemma idle_contents_told:
  assumes "usearch_reachable P E msgs s" and "told_all vs_told msgs {} = Some S" and "idle s"
  shows "contents keys s \<subseteq> S"
proof -
  obtain S' where "told msgs s S'" "sound s S'" using reachable_sound [OF assms(1)] assms(2) by auto
  then have "sound s S" using idle_told [OF assms(3)] assms(2) by simp
  moreover have "maps_ok (sy_actor s)"
    using reachable_system_inv [OF assms(1)] by (simp add: system_inv_def)
  ultimately show ?thesis
    using idle_expected [OF assms(3), of keys] by (auto simp: contents_def sound_def maps_ok_def)
qed

end

context reliable_actor
begin

lemma idle_facts:
  assumes "usearch_reachable P E msgs s" and "told_all vs_told msgs {} = Some S" and "idle s"
  shows "sound s S \<and> complete s S \<and> room_inv s \<and> sizes_ok (sy_actor s)"
proof -
  obtain S' where S': "told msgs s S'" "sound s S' \<and> complete s S' \<and> room_inv s \<and> sizes_ok (sy_actor s)"
    using reachable_reliable [OF assms(1)] assms(2) by auto
  have "S' = S" using S'(1) idle_told [OF assms(3)] assms(2) by simp
  then show ?thesis using S'(2) by simp
qed

lemma idle_contents:
  assumes "usearch_reachable P E msgs s" and "told_all vs_told msgs {} = Some S" and "idle s"
  shows "contents keys s = S"
proof
  show "contents keys s \<subseteq> S" by (rule idle_contents_told [OF assms])
  have "complete s S" using idle_facts [OF assms] by simp
  then show "S \<subseteq> contents keys s"
    using idle_expected [OF assms(3), of keys] by (auto simp: contents_def complete_def)
qed

lemma idle_size:
  assumes "usearch_reachable P E msgs s" and "told_all vs_told msgs {} = Some S" and "idle s"
    and "us_states (sy_actor s) x = Some st"
  shows "ixs_size st = card {e \<in> S. partition_index_id (fst e) = x}"
proof -
  let ?us = "sy_actor s"
  note facts = idle_facts [OF assms(1-3)]
  have maps: "maps_ok ?us" using reachable_system_inv [OF assms(1)] by (simp add: system_inv_def)
  have sound: "us_partitions ?us (cell ?us a) = Some a \<and> (cell ?us a, p) \<in> S"
    if "a < length (us_store ?us)" "p \<in> stored_at keys s a" for a p
    using facts that idle_expected [OF assms(3), of keys] by (simp add: sound_def)
  have sizes: "ps_size (us_store ?us ! a) = card (stored_at keys s a)" if "a < length (us_store ?us)" for a
    using facts that by (simp add: room_inv_def cells_ok_def cell_ok_def stored_at_def)
  let ?entry = "\<lambda>(a, p). (cell ?us a, p)" and ?at = "Sigma (index_cells ?us x) (stored_at keys s)"
  have "inj_on ?entry ?at"
  proof (rule inj_onI)
    fix e e'
    assume "e \<in> ?at" "e' \<in> ?at" and same: "?entry e = ?entry e'"
    then obtain a p b p' where e: "e = (a, p)" "e' = (b, p')" by (cases e; cases e')
    then have "us_partitions ?us (cell ?us a) = Some a" "us_partitions ?us (cell ?us b) = Some b"
      using sound [of a p] sound [of b p'] \<open>e \<in> ?at\<close> \<open>e' \<in> ?at\<close> unfolding index_cells_def by blast+
    moreover have cells: "cell ?us a = cell ?us b" and p: "p = p'" using same e by simp_all
    ultimately have "Some a = Some b" unfolding cells by metis
    then show "e = e'" using e p by simp
  qed
  moreover have "?entry ` ?at = {e \<in> S. partition_index_id (fst e) = x}"
  proof
    show "?entry ` ?at \<subseteq> {e \<in> S. partition_index_id (fst e) = x}"
    proof
      fix e
      assume "e \<in> ?entry ` ?at"
      then obtain a p where "e = (cell ?us a, p)" "a \<in> index_cells ?us x" "p \<in> stored_at keys s a" by auto
      then show "e \<in> {e \<in> S. partition_index_id (fst e) = x}"
        using sound [of a p] by (simp add: index_cells_def)
    qed
    show "{e \<in> S. partition_index_id (fst e) = x} \<subseteq> ?entry ` ?at"
    proof
      fix e
      assume e: "e \<in> {e \<in> S. partition_index_id (fst e) = x}"
      then have "e \<in> contents keys s" using idle_contents [OF assms(1-3)] by simp
      then obtain q p a where a: "e = (q, p)" "us_partitions ?us q = Some a" "p \<in> stored_at keys s a"
        by (auto simp: contents_def)
      then have "a < length (us_store ?us)" "cell ?us a = q" using maps by (auto simp: maps_ok_def)
      then have "(a, p) \<in> ?at" "?entry (a, p) = e" using a e by (simp_all add: index_cells_def)
      then show "e \<in> ?entry ` ?at" by (metis imageI)
    qed
  qed
  ultimately have "card {e \<in> S. partition_index_id (fst e) = x} = card ?at"
    by (metis card_image)
  also have "\<dots> = (\<Sum>a\<in>index_cells ?us x. card (stored_at keys s a))"
    using finite_keys by (simp add: card_SigmaI stored_at_def)
  also have "\<dots> = (\<Sum>a\<in>index_cells ?us x. ps_size (us_store ?us ! a))"
    using sizes by (intro sum.cong) (simp_all add: index_cells_def)
  finally show ?thesis using facts assms(4) by (simp add: sizes_ok_def)
qed

text \<open>An index the actor has no state for was told nothing.\<close>

lemma idle_no_state:
  assumes "usearch_reachable P E msgs s" and "told_all vs_told msgs {} = Some S" and "idle s"
    and "us_states (sy_actor s) x = None"
  shows "{e \<in> S. partition_index_id (fst e) = x} = {}"
proof -
  have "maps_ok (sy_actor s)" using reachable_system_inv [OF assms(1)] by (simp add: system_inv_def)
  then have "us_states (sy_actor s) (partition_index_id (fst e)) \<noteq> None" if "e \<in> contents keys s" for e
    using that by (auto simp: contents_def maps_ok_def)
  then show ?thesis
    using idle_contents [OF assms(1-3)] assms(4) by blast
qed

end

section \<open>The two implementations\<close>

lemma threaded_actor:
  assumes "library_ok lib stored" and "up_index P = threaded_index lib"
    and "\<And>th. ue_created E (Ok th) \<Longrightarrow> stored (th_inner th) = {}"
  shows "usearch_actor P (threaded_ids stored) E"
  using threaded_laws [OF assms(1)] assms(2,3)
  by (intro usearch_actor.intro usearch_actor_axioms.intro) (simp_all add: threaded_ids_def)

lemma threaded_reliable_actor:
  assumes "library_ok lib stored" and "library_roomy lib stored" and "up_index P = threaded_index lib"
    and "\<And>th. ue_created E (Ok th) \<Longrightarrow> stored (th_inner th) = {}" and "\<And>r. ue_created E r \<Longrightarrow> is_ok r"
    and "\<And>a. ue_allocate E a \<Longrightarrow> a = CanAllocate"
  shows "reliable_actor P (threaded_ids stored) E"
  using threaded_actor [OF assms(1,3,4)] threaded_reliable [OF assms(1,2)] assms(3,5,6)
  by (intro reliable_actor.intro reliable_actor_axioms.intro) simp_all

lemma simulator_new_empty [simp]: "simulator_ids (simulator_new config) = {}"
  by (simp add: simulator_new_def simulator_ids_def simulator_update_def)

interpretation sim_actor: reliable_actor "simulator_params d dimensions workers" simulator_ids "simulator_env config tables"
proof (intro reliable_actor.intro usearch_actor.intro usearch_actor_axioms.intro reliable_actor_axioms.intro)
  show "index_laws (up_index (simulator_params d dimensions workers)) simulator_ids"
    by (simp add: simulator_params_def sim.index_laws_axioms)
  show "reliable_index (up_index (simulator_params d dimensions workers)) simulator_ids"
    by (simp add: simulator_params_def sim.reliable_index_axioms)
  show "simulator_ids i = {}" if "ue_created (simulator_env config tables) (Ok i)" for i
    using that by (simp add: simulator_env_def)
qed (auto simp: simulator_env_def)

text \<open>The simulator is drained from every state, so the states of the properties exist.\<close>

lemma simulator_drains:
  assumes "tables t"
  shows "\<exists>s. usearch_reachable (simulator_params d dimensions 1) (simulator_env config tables) msgs s \<and> drained s"
proof -
  have "\<exists>s'. (own_step (simulator_params d dimensions 1) (simulator_env config tables))\<^sup>*\<^sup>* (system_new msgs) s' \<and>
      usearch_reachable (simulator_params d dimensions 1) (simulator_env config tables) msgs s' \<and> drained s'"
    by (rule reaches_drained [OF usearch_reachable.start, where t = t and allocate = CanAllocate and created = "Ok (simulator_new config)"])
      (simp_all add: simulator_env_def simulator_params_def assms)
  then show ?thesis by blast
qed

lemma drained_idle: "drained s \<Longrightarrow> idle s"
  by (simp add: drained_def idle_def)

section \<open>Properties\<close>

text \<open>
  C32: an index that is never short of memory does exactly what it is told. Whatever the
  schedule of the actor and the workers and whatever searches are interleaved, once the channel
  is empty and no task is left, the vectors stored in the partitions of the actor are the
  entries it was told and not told to remove: none lost, none twice, none in another partition.
\<close>

theorem usearch_in_step:
  assumes "reliable_actor P keys E" and "usearch_reachable P E msgs s"
    and "told_all vs_told msgs {} = Some S" and "idle s"
  shows "contents keys s = S"
  using assms by (rule reliable_actor.idle_contents)

theorem usearch_in_step_witness:
  "\<exists>s. usearch_reachable (simulator_params example_driver 1 1) (simulator_env None (\<lambda>t. t = example_table)) [example_add] s \<and>
     contents simulator_ids s = {(PartitionId 0, PrimaryId 7)}"
proof -
  obtain s where s: "usearch_reachable (simulator_params example_driver 1 1) (simulator_env None (\<lambda>t. t = example_table)) [example_add] s"
    and "drained s"
    using simulator_drains [of "\<lambda>t. t = example_table"] by blast
  have "told_all vs_told [example_add] {} = Some {(PartitionId 0, PrimaryId 7)}" by (simp add: example_add_def)
  from usearch_in_step [OF sim_actor.reliable_actor_axioms s this drained_idle [OF \<open>drained s\<close>]] s
  show ?thesis by (intro exI [of _ s] conjI)
qed

text \<open>
  Even when memory runs out, nothing is stored that was not asked for: if additions are
  refused because of the memory limit or fail in the library, or partitions cannot be created,
  then what is stored once the actor is idle is still a part of the entries it was told. In
  particular a removal is never lost and never overtaken by the addition it follows.
\<close>

theorem usearch_stores_only_told:
  assumes "usearch_actor P keys E" and "usearch_reachable P E msgs s"
    and "told_all vs_told msgs {} = Some S" and "idle s"
  shows "contents keys s \<subseteq> S"
  using assms by (rule usearch_actor.idle_contents_told)

definition full_env :: "simulator usearch_env" where
  "full_env = \<lparr>ue_allocate = (\<lambda>a. True), ue_created = (\<lambda>r. r = Ok (simulator_new None) \<or> r = Err (Bail [])),
     ue_table = (\<lambda>t. t = example_table), ue_search = search_storable\<rparr>"

interpretation full_actor: usearch_actor "simulator_params d dimensions workers" simulator_ids full_env
  by (intro usearch_actor.intro usearch_actor_axioms.intro)
    (auto simp: simulator_params_def full_env_def sim.index_laws_axioms)

theorem usearch_stores_only_told_witness:
  "\<exists>s. usearch_reachable (simulator_params example_driver 1 1) full_env [example_add] s \<and>
     contents simulator_ids s \<subseteq> {(PartitionId 0, PrimaryId 7)}"
proof -
  have "\<exists>s'. (own_step (simulator_params example_driver 1 1) full_env)\<^sup>*\<^sup>* (system_new [example_add]) s' \<and>
      usearch_reachable (simulator_params example_driver 1 1) full_env [example_add] s' \<and> drained s'"
    by (rule reaches_drained [OF usearch_reachable.start, where t = example_table and allocate = CannotAllocate and created = "Err (Bail [])"])
      (simp_all add: full_env_def simulator_params_def)
  then obtain s where s: "usearch_reachable (simulator_params example_driver 1 1) full_env [example_add] s" and "drained s"
    by blast
  have "told_all vs_told [example_add] {} = Some {(PartitionId 0, PrimaryId 7)}" by (simp add: example_add_def)
  from usearch_stores_only_told [OF full_actor.usearch_actor_axioms s this drained_idle [OF \<open>drained s\<close>]] s
  show ?thesis by (intro exI [of _ s] conjI)
qed

text \<open>
  C34: no addition is dispatched without room. At every moment the vectors of a partition and the
  additions on their way to it fit into what the library has reserved, so that the addition of
  a task in flight cannot fail for want of capacity: the threshold at which more is reserved
  covers the channel of the workers, the workers and the message at hand.
\<close>

theorem usearch_reserved:
  assumes "reliable_actor P keys E" and "usearch_reachable P E msgs s" and "told_all vs_told msgs {} \<noteq> None"
    and "(x, a, ProcessJob (Modify (VsAddVector q p v pr))) \<in> set (held s)"
  shows "card (stored_at keys s a) + length (pending added a (held s)) \<le> ui_capacity (up_index P) (ps_idx (us_store (sy_actor s) ! a)) \<and>
    is_ok (fst (ui_add (up_index P) p v (ps_idx (us_store (sy_actor s) ! a))))"
proof -
  have inv: "system_inv P E s" using assms(2) by (rule reachable_system_inv)
  obtain S where "reliable_actor.room_inv P keys s"
    using reliable_actor.reachable_reliable [OF assms(1-3)] by blast
  then have "reliable_actor.cell_ok P keys (us_store (sy_actor s) ! a) (pending added a (held s)) (pending reserving a (held s))"
    using system_invD(2) [OF inv assms(4)]
    by (simp add: reliable_actor.room_inv_def [OF assms(1)] reliable_actor.cells_ok_def [OF assms(1)] task_ok_def)
  moreover have "p \<in> set (pending added a (held s))" using assms(4) in_pending by fastforce
  ultimately show ?thesis
    using reliable_actor.add_room [OF assms(1)] by (simp add: stored_at_def)
qed

lemma example_adding:
  assumes "tables t"
  shows "\<exists>s. usearch_reachable (simulator_params d 1 1) (simulator_env None tables) [example_add] s \<and>
    (IndexId 0, 0, ProcessJob (Modify example_add)) \<in> set (held s)"
proof -
  let ?P = "simulator_params d 1 1" and ?E = "simulator_env None tables" and ?m = "Modify example_add"
  note later = usearch_reachable.step [where P = ?P and E = ?E and msgs = "[example_add]"]
  define s0 where "s0 = example_system \<lparr>op_mode = ModeReserve, op_counter = 1\<rparr> (SendReserve (IndexId 0) 0 1000 ?m)"
  define s1 where "s1 = s0\<lparr>sy_queue := sy_queue s0 @ [(IndexId 0, 0, ReserveJob 1000)], sy_pc := AtPermit (IndexId 0) 0 ?m\<rparr>"
  define s2 where "s2 = s1\<lparr>sy_queue := [], sy_running := sy_running s1 @ [(IndexId 0, 0, ReserveJob 1000)]\<rparr>"
  let ?st = "\<lambda>op. \<lparr>ixs_dimensions = 1, ixs_size = 0, ixs_operation = op\<rparr>"
  let ?ps = "reserve_partition simulator_index 1000 example_cell"
  define s3 where "s3 = s2\<lparr>sy_actor := (sy_actor s2)\<lparr>us_states := (us_states (sy_actor s2))
        (IndexId 0 \<mapsto> ?st \<lparr>op_mode = ModeReserve, op_counter = 1\<rparr>\<lparr>ixs_size := 0\<rparr>), us_store := (us_store (sy_actor s2))[0 := ?ps]\<rparr>,
      sy_running := [] @ [], sy_finishing := IndexId 0 # sy_finishing s2, sy_replies := sy_replies s2 @ []\<rparr>"
  define s4 where "s4 = s3\<lparr>sy_actor := set_operation (IndexId 0) (?st \<lparr>op_mode = ModeReserve, op_counter = 1\<rparr>)
        (drop_permit (ixs_operation (?st \<lparr>op_mode = ModeReserve, op_counter = 1\<rparr>))) (sy_actor s3), sy_finishing := [] @ []\<rparr>"
  define s5 where "s5 = s4\<lparr>sy_actor := set_operation (IndexId 0) (?st \<lparr>op_mode = ModeReserve, op_counter = 0\<rparr>)
        \<lparr>op_mode = ModeInsert, op_counter = 1\<rparr> (sy_actor s4), sy_pc := SendTask (IndexId 0) 0 ?m\<rparr>"
  note states = s5_def s4_def s3_def s2_def s1_def s0_def example_system_def system_new_def
  have "usearch_reachable ?P ?E [example_add] s0"
    unfolding s0_def using assms by (rule example_reserving)
  then have "usearch_reachable ?P ?E [example_add] s1"
    by (rule later) (unfold s1_def, rule usearch_step.send_reserve, simp_all add: states simulator_params_def)
  then have "usearch_reachable ?P ?E [example_add] s2"
    by (rule later) (unfold s2_def, rule usearch_step.start_task, simp_all add: states simulator_params_def)
  then have "usearch_reachable ?P ?E [example_add] s3"
    by (rule later) (unfold s3_def, rule usearch_step.run_task [where t = t],
      simp_all add: states simulator_params_def simulator_env_def assms, simp)
  then have "usearch_reachable ?P ?E [example_add] s4"
    by (rule later) (unfold s4_def, rule usearch_step.finish_task, simp_all add: states)
  then have "usearch_reachable ?P ?E [example_add] s5"
    by (rule later) (unfold s5_def, rule usearch_step.permit_message [where mode = ModeInsert],
      simp_all add: states example_add_def permit_def set_operation_def drop_permit_def)
  moreover have "(IndexId 0, 0, ProcessJob ?m) \<in> set (held s5)" by (simp add: held_def s5_def)
  ultimately show ?thesis by blast
qed

theorem usearch_reserved_witness:
  "\<exists>s. usearch_reachable (simulator_params example_driver 1 1) (simulator_env None (\<lambda>t. t = example_table)) [example_add] s \<and>
     (IndexId 0, 0, ProcessJob (Modify example_add)) \<in> set (held s) \<and>
     card (stored_at simulator_ids s 0) + length (pending added 0 (held s)) \<le>
       ui_capacity simulator_index (ps_idx (us_store (sy_actor s) ! 0))"
proof -
  obtain s where s: "usearch_reachable (simulator_params example_driver 1 1) (simulator_env None (\<lambda>t. t = example_table)) [example_add] s"
    and task: "(IndexId 0, 0, ProcessJob (Modify example_add)) \<in> set (held s)"
    using example_adding [of "\<lambda>t. t = example_table"] by blast
  have "told_all vs_told [example_add] {} \<noteq> None" by (simp add: example_add_def)
  from usearch_reserved [OF sim_actor.reliable_actor_axioms s this task [unfolded example_add_def]] s task
  show ?thesis by (intro exI [of _ s] conjI) (simp_all add: simulator_params_def)
qed

text \<open>
  \<open>Count\<close> answers the number of entries. When the actor is idle, the count of an index is the
  number of entries it was told and not told to remove, over all partitions of that index.
\<close>

theorem usearch_count:
  assumes "reliable_actor P keys E" and "usearch_reachable P E msgs s"
    and "told_all vs_told msgs {} = Some S" and "idle s" and "search_index_id t key = Some x"
  shows "preprocess P created t (Search (Count key tx)) (sy_actor s) =
    (Ok (None, [CountReply tx (Ok (card {e \<in> S. partition_index_id (fst e) = x}))]), sy_actor s)"
proof (cases "us_states (sy_actor s) x")
  case None
  then show ?thesis
    using assms(5) reliable_actor.idle_no_state [OF assms(1-4) None] unfolding preprocess_def by (simp del: Collect_empty_eq)
next
  case (Some st)
  then show ?thesis
    using reliable_actor.idle_size [OF assms(1-4) Some] assms(5) by (simp add: preprocess_def)
qed

theorem usearch_count_witness:
  "\<exists>s. usearch_reachable (simulator_params example_driver 1 1) (simulator_env None (\<lambda>t. t = returning_table)) [example_add] s \<and>
     preprocess (simulator_params example_driver 1 1) (Ok (simulator_new None)) returning_table (Search (Count ''ks.idx'' 0)) (sy_actor s) =
       (Ok (None, [CountReply 0 (Ok 1)]), sy_actor s)"
proof -
  obtain s where s: "usearch_reachable (simulator_params example_driver 1 1) (simulator_env None (\<lambda>t. t = returning_table)) [example_add] s"
    and "drained s"
    using simulator_drains [of "\<lambda>t. t = returning_table"] by blast
  have told: "told_all vs_told [example_add] {} = Some {(PartitionId 0, PrimaryId 7)}" by (simp add: example_add_def)
  have "search_index_id returning_table ''ks.idx'' = Some (IndexId 0)" by code_simp
  from usearch_count [OF sim_actor.reliable_actor_axioms s told drained_idle [OF \<open>drained s\<close>] this]
  have "preprocess (simulator_params example_driver 1 1) (Ok (simulator_new None)) returning_table (Search (Count ''ks.idx'' 0)) (sy_actor s) =
      (Ok (None, [CountReply 0 (Ok (card {e \<in> {(PartitionId 0, PrimaryId 7)}. partition_index_id (fst e) = IndexId 0}))]), sy_actor s)" .
  moreover have "{e \<in> {(PartitionId 0, PrimaryId 7)}. partition_index_id (fst e) = IndexId 0} = {(PartitionId 0, PrimaryId 7)}"
    using example_index by auto
  ultimately show ?thesis using s by (intro exI [of _ s] conjI) simp_all
qed

text \<open>
  C33: the actor and the workers finish. Every step but the arrival of a search takes off the
  work that is left, so no schedule runs forever without new searches; and as long as anything
  is left in a channel, at a worker or with the actor, some step is possible, so the run ends
  with both channels empty, all tasks done and all permits given back. In particular waiting
  for a permit and for room in the channel of the workers never deadlocks.
\<close>

theorem usearch_drains:
  assumes "usearch_reachable P E msgs s" and "\<And>m. ue_search E m \<Longrightarrow> search_storable m"
    and "ue_table E t" and "ue_allocate E allocate" and "ue_created E created"
    and "0 < up_num_workers P" and "0 < up_channel_size P"
  shows "(\<forall>s'. own_step P E s s' \<longrightarrow> work s' < work s) \<and> (drained s \<or> (\<exists>s'. own_step P E s s')) \<and>
    (\<exists>s'. (own_step P E)\<^sup>*\<^sup>* s s' \<and> usearch_reachable P E msgs s' \<and> drained s')"
proof (intro conjI allI impI)
  show "work s' < work s" if "own_step P E s s'" for s'
  proof (rule own_step_work [OF that])
    have "usearch_reachable P E msgs s'"
      using usearch_reachable.step [OF assms(1)] that by (simp add: own_step_def)
    then show "sy_pc s' \<noteq> Crashed" by (rule reachable_not_crashed) (rule assms(2))
  qed
  show "drained s \<or> (\<exists>s'. own_step P E s s')"
    using own_progress [OF reachable_system_inv [OF assms(1)] reachable_not_crashed [OF assms(1,2)]] assms(3-7) by blast
qed (rule reaches_drained [OF assms])

theorem usearch_drains_witness:
  "\<exists>s. usearch_reachable (simulator_params example_driver 1 1) (simulator_env None (\<lambda>t. t = example_table)) [example_add] s \<and> drained s"
  using usearch_drains [OF usearch_reachable.start [of "simulator_params example_driver 1 1" "simulator_env None (\<lambda>t. t = example_table)" "[example_add]"],
      where t = example_table and allocate = CanAllocate and created = "Ok (simulator_new None)"]
  by (auto simp: simulator_env_def simulator_params_def)

end
