(* ===== verification/Usearch_Answers.thy ===== *)
theory Usearch_Answers
  imports Usearch
begin

text \<open>
  What a search of a vector index answers: the rows of the table behind the matches of the
  library, in the order of the library, with the requested columns aligned to them; and with a
  filter, only rows that satisfy every restriction.
\<close>

section \<open>Rows of an answer\<close>

text \<open>The matches that still are rows of the table.\<close>

fun resolve :: "table \<Rightarrow> partition_id \<Rightarrow> (primary_id \<times> distance) result list \<Rightarrow> (primary_id \<times> distance \<times> primary_key) list" where
  "resolve t q [] = []"
| "resolve t q (Inl e # ms) = resolve t q ms"
| "resolve t q (Inr (p, dist) # ms) =
     (case search_primary_key t q p of None \<Rightarrow> resolve t q ms | Some k \<Rightarrow> (p, dist, k) # resolve t q ms)"

lemma resolve_match:
  "(p, dist, k) \<in> set (resolve t q ms) \<Longrightarrow> Ok (p, dist) \<in> set ms \<and> search_primary_key t q p = Some k"
  by (induction t q ms rule: resolve.induct) (auto split: option.splits)

lemma push_values_spec:
  assumes "push_values t q p target cols vals = Ok vals'" and "distinct cols"
  shows "vals' c =
    (if c \<in> set cols \<and> Some c \<noteq> target then map_option (\<lambda>vs. vs @ [THE v. column_value_for t q p c = Ok v]) (vals c) else vals c) \<and>
    (c \<in> set cols \<and> Some c \<noteq> target \<longrightarrow> (\<exists>v. column_value_for t q p c = Ok v))"
  using assms
proof (induction cols arbitrary: vals)
  case (Cons d cols)
  show ?case
  proof (cases "Some d = target")
    case True
    then show ?thesis using Cons by auto
  next
    case False
    then obtain v where v: "column_value_for t q p d = Ok v"
      and rest: "push_values t q p target cols (vals(d := map_option (\<lambda>vs. vs @ [v]) (vals d))) = Ok vals'"
      using Cons.prems(1) by (auto simp: and_then_eq_Inr)
    have "d \<notin> set cols" "distinct cols" using Cons.prems(2) by simp_all
    then show ?thesis using Cons.IH [OF rest] v False by (cases "c = d") auto
  qed
qed simp

text \<open>The value of a column in a row, once it is known to exist.\<close>

definition cell_value :: "table \<Rightarrow> partition_id \<Rightarrow> primary_id \<Rightarrow> column_name \<Rightarrow> cql_value option" where
  "cell_value t q p c = (THE v. column_value_for t q p c = Ok v)"

lemma collect_rows_spec:
  assumes "collect_rows t q target cols ms (keys, distances, vals, ids) = Ok (keys', distances', vals', ids')"
  shows "let rows = resolve t q ms in
    (\<forall>m\<in>set ms. is_ok m) \<and> keys' = keys @ map (snd \<circ> snd) rows \<and> distances' = distances @ map (fst \<circ> snd) rows \<and>
    ids' = (if target = None then ids else ids @ map fst rows) \<and>
    (\<forall>c. vals' c = (if c \<in> set cols \<and> Some c \<noteq> target
                   then map_option (\<lambda>vs. vs @ map (\<lambda>row. cell_value t q (fst row) c) rows) (vals c) else vals c)) \<and>
    (\<forall>row\<in>set rows. \<forall>c\<in>set cols. Some c \<noteq> target \<longrightarrow> column_value_for t q (fst row) c = Ok (cell_value t q (fst row) c))"
  using assms
proof (induction ms arbitrary: keys distances vals ids)
  case Nil
  then show ?case by (auto simp: option.map_ident)
next
  case (Cons m ms)
  then obtain p dist where m: "m = Ok (p, dist)" by (auto simp: and_then_eq_Inr)
  show ?case
  proof (cases "search_primary_key t q p")
    case None
    then have "collect_rows t q target cols ms (keys, distances, vals, ids) = Ok (keys', distances', vals', ids')"
      using Cons.prems m by simp
    from Cons.IH [OF this] show ?thesis using m None by (simp add: Let_def)
  next
    case (Some k)
    then obtain vals1 where push: "push_values t q p target (remdups cols) vals = Ok vals1"
      and rest: "collect_rows t q target cols ms (keys @ [k], distances @ [dist], vals1, if target = None then ids else ids @ [p]) =
        Ok (keys', distances', vals', ids')"
      using Cons.prems m by (auto simp: and_then_eq_Inr)
    have ok: "column_value_for t q p c = Ok (cell_value t q p c)" if c: "c \<in> set cols" "Some c \<noteq> target" for c
    proof -
      have "\<exists>v. column_value_for t q p c = Ok v"
        using push_values_spec [OF push, of c] c by simp
      then obtain v where "column_value_for t q p c = Ok v" by blast
      then show ?thesis by (simp add: cell_value_def)
    qed
    have step: "vals1 c = (if c \<in> set cols \<and> Some c \<noteq> target
        then map_option (\<lambda>vs. vs @ [cell_value t q p c]) (vals c) else vals c)" for c
      using push_values_spec [OF push, of c] by (simp add: cell_value_def)
    show ?thesis
      using Cons.IH [OF rest] m Some ok by (auto simp: Let_def step option.map_comp comp_def)
  qed
qed

text \<open>Every entry of the library can be read back into a column of the answer.\<close>

lemma reconstruct_all:
  "collect_result (reconstruct_target_vector ui ps) ids = Ok vs \<Longrightarrow>
   length vs = length ids \<and> (\<forall>i<length ids. reconstruct_target_vector ui ps (ids ! i) = Ok (vs ! i))"
  using collect_result_length collect_result_nth by blast

lemma collect_results_Ok:
  assumes "collect_results ui ps t cols ms = Ok (keys, distances, vals)"
  shows "let rows = resolve t (ps_partition_id ps) ms; target = returned_target t (ps_partition_id ps) cols in
    (\<forall>m\<in>set ms. is_ok m) \<and> keys = map (snd \<circ> snd) rows \<and> distances = map (fst \<circ> snd) rows \<and>
    (\<forall>c. c \<notin> set cols \<longrightarrow> vals c = None) \<and>
    (\<forall>c\<in>set cols. \<exists>vs. vals c = Some vs \<and> length vs = length rows \<and>
       (\<forall>i<length rows.
          (if Some c = target then reconstruct_target_vector ui ps (fst (rows ! i))
           else column_value_for t (ps_partition_id ps) (fst (rows ! i)) c) = Ok (vs ! i)))"
proof -
  define q where "q = ps_partition_id ps"
  define rows where "rows = resolve t q ms"
  define target where "target = returned_target t q cols"
  obtain vals0 ids where collected: "collect_rows t q target cols ms ([], [], empty_column_values cols, []) = Ok (keys, distances, vals0, ids)"
    and finish: "case target of None \<Rightarrow> vals = vals0
      | Some c \<Rightarrow> \<exists>old vs. vals0 c = Some old \<and> collect_result (reconstruct_target_vector ui ps) ids = Ok vs \<and> vals = vals0(c \<mapsto> old @ vs)"
  proof -
    obtain keys0 distances0 vals0 ids where collected:
        "collect_rows t q target cols ms ([], [], empty_column_values cols, []) = Ok (keys0, distances0, vals0, ids)"
      and rest: "(case target of
          None \<Rightarrow> Ok (keys0, distances0, vals0)
        | Some c \<Rightarrow>
            and_then (ok_or (vals0 c) (Panic ''target_column is one of the return_columns'')) (\<lambda>old.
            and_then (collect_result (reconstruct_target_vector ui ps) ids) (\<lambda>vs.
              Ok (keys0, distances0, vals0(c \<mapsto> old @ vs))))) = Ok (keys, distances, vals)"
      using assms by (auto simp: collect_results_def Let_def q_def target_def and_then_eq_Inr)
    show thesis
      by (rule that [of vals0 ids]) (use collected rest in \<open>cases target; auto simp: and_then_eq_Inr ok_or_eq_Inr\<close>)+
  qed
  note spec = collect_rows_spec [OF collected, folded rows_def, unfolded Let_def]
  have "c \<in> set cols" if "target = Some c" for c
    using that by (auto simp: target_def returned_target_def split: option.splits if_splits)
  moreover have vals0: "vals0 c = (if c \<in> set cols \<and> Some c \<noteq> target
      then Some (map (\<lambda>row. cell_value t q (fst row) c) rows) else empty_column_values cols c)" for c
    using spec by (simp add: empty_column_values_def)
  have "\<exists>vs. vals c = Some vs \<and> length vs = length rows \<and>
       (\<forall>i<length rows. (if Some c = target then reconstruct_target_vector ui ps (fst (rows ! i))
                        else column_value_for t q (fst (rows ! i)) c) = Ok (vs ! i))"
    if c: "c \<in> set cols" for c
  proof (cases "Some c = target")
    case True
    then obtain old vs where old: "vals0 c = Some old" "collect_result (reconstruct_target_vector ui ps) ids = Ok vs"
      "vals = vals0(c \<mapsto> old @ vs)"
      using finish by (cases target) auto
    then have "old = []" using vals0 [of c] True c by (simp add: empty_column_values_def)
    moreover have "ids = map fst rows" using spec True by auto
    ultimately show ?thesis using old reconstruct_all [OF old(2)] True by simp
  next
    case False
    then have "vals c = vals0 c" using finish by (cases target) auto
    then show ?thesis using False vals0 [of c] c spec by simp
  qed
  moreover have "vals c = None" if "c \<notin> set cols" for c
    using finish vals0 [of c] that calculation(1) by (cases target) (auto simp: empty_column_values_def)
  ultimately show ?thesis
    using spec unfolding q_def [symmetric] by (simp add: Let_def rows_def [symmetric] target_def [symmetric])
qed

section \<open>A library that answers what it stores\<close>

text \<open>The documented contract of searching: keys that are stored, and with a filter only those it lets pass.\<close>

definition library_searches :: "'x usearch_lib \<Rightarrow> ('x \<Rightarrow> u64 set) \<Rightarrow> bool" where
  "library_searches lib stored \<longleftrightarrow>
     (\<forall>v limit x found. ul_search_f32 lib v limit x = Ok found \<longrightarrow> set (fst found) \<subseteq> stored x) \<and>
     (\<forall>v limit x found. ul_search_b1 lib v limit x = Ok found \<longrightarrow> set (fst found) \<subseteq> stored x) \<and>
     (\<forall>v limit keep x found. ul_filtered_f32 lib v limit keep x = Ok found \<longrightarrow> set (fst found) \<subseteq> {k \<in> stored x. keep k}) \<and>
     (\<forall>v limit keep x found. ul_filtered_b1 lib v limit keep x = Ok found \<longrightarrow> set (fst found) \<subseteq> {k \<in> stored x. keep k})"

lemma threaded_matches_key:
  assumes "Ok (p, dist) \<in> set (threaded_matches th v found)"
  shows "primary_raw p \<in> set (fst found)"
proof -
  let ?read = "\<lambda>(k, distance). and_then (space_of_metric (th_space_type th)) (\<lambda>space.
    and_then (distance_try_from distance space (vector_dim v)) (\<lambda>dist. Ok (PrimaryId k, dist)))"
  obtain k distance where entry: "(k, distance) \<in> set (zip (fst found) (snd found))" and "?read (k, distance) = Ok (p, dist)"
    using assms unfolding threaded_matches_def by (metis (no_types, lifting) imageE list.set_map surj_pair)
  then have "p = PrimaryId k" by (auto simp: and_then_eq_Inr)
  then show ?thesis using set_zip_leftD [OF entry] by simp
qed

lemma all_result_True: "all_result g xs = Ok True \<Longrightarrow> x \<in> set xs \<Longrightarrow> g x = Ok True"
proof (induction xs)
  case (Cons y ys)
  then obtain b where "g y = Ok b" "(if b then all_result g ys else Ok False) = Ok True" by (auto simp: and_then_eq_Inr)
  then show ?case using Cons by (cases b) auto
qed simp

lemma filtered_search_keys:
  assumes "library_searches lib stored" and "threaded_filtered_search lib v limit keep th = Ok ms" and "Ok (p, dist) \<in> set ms"
  shows "p \<in> threaded_ids stored th \<and> keep p"
proof -
  have b1: "set (fst found) \<subseteq> {k \<in> stored x. ok k}" if "ul_filtered_b1 lib w limit ok x = Ok found" for w ok x found
    using assms(1) that unfolding library_searches_def by blast
  have f32: "set (fst found) \<subseteq> {k \<in> stored x. ok k}" if "ul_filtered_f32 lib w limit ok x = Ok found" for w ok x found
    using assms(1) that unfolding library_searches_def by blast
  have "\<exists>found. ms = threaded_matches th v found \<and> set (fst found) \<subseteq> {k \<in> stored (th_inner th). keep (PrimaryId k)}"
  proof (cases "th_quantization th = SkB1")
    case True
    then obtain found where "ul_filtered_b1 lib (f32_to_b1x8 v) limit (\<lambda>k. keep (PrimaryId k)) (th_inner th) = Ok found"
      and "ms = threaded_matches th v found"
      using assms(2) by (auto simp: threaded_filtered_search_def and_then_eq_Inr)
    then show ?thesis using b1 by blast
  next
    case False
    then obtain found where "ul_filtered_f32 lib v limit (\<lambda>k. keep (PrimaryId k)) (th_inner th) = Ok found"
      and "ms = threaded_matches th v found"
      using assms(2) by (auto simp: threaded_filtered_search_def and_then_eq_Inr)
    then show ?thesis using f32 by blast
  qed
  then obtain found where "ms = threaded_matches th v found"
    and "set (fst found) \<subseteq> {k \<in> stored (th_inner th). keep (PrimaryId k)}"
    by blast
  then have "primary_raw p \<in> stored (th_inner th) \<and> keep (PrimaryId (primary_raw p))"
    using threaded_matches_key assms(3) by blast
  then show ?thesis by (cases p) (simp add: in_threaded_ids)
qed

text \<open>
  A library as a list of keys, to instantiate the contracts: it stores keys only, and finds the
  first ones at distance zero.
\<close>

record key_list =
  kl_capacity :: nat
  kl_keys :: "u64 list"

definition list_lib :: "key_list usearch_lib" where
  "list_lib =
     \<lparr>ul_dimensions = (\<lambda>x. 1),
      ul_reserve = (\<lambda>n threads x. (Ok (), x\<lparr>kl_capacity := n\<rparr>)),
      ul_capacity = kl_capacity,
      ul_add_f32 = (\<lambda>k v x. (Ok (), x\<lparr>kl_keys := List.insert k (kl_keys x)\<rparr>)),
      ul_add_b1 = (\<lambda>k v x. (Ok (), x\<lparr>kl_keys := List.insert k (kl_keys x)\<rparr>)),
      ul_remove = (\<lambda>k x. (Ok (if k \<in> set (kl_keys x) then 1 else 0), x\<lparr>kl_keys := removeAll k (kl_keys x)\<rparr>)),
      ul_get = (\<lambda>k n x. Ok (0, replicate n 0)),
      ul_search_f32 = (\<lambda>v limit x. Ok (take limit (kl_keys x), replicate (length (kl_keys x)) 0)),
      ul_search_b1 = (\<lambda>v limit x. Ok (take limit (kl_keys x), replicate (length (kl_keys x)) 0)),
      ul_filtered_f32 = (\<lambda>v limit keep x. Ok (take limit (filter keep (kl_keys x)), replicate (length (kl_keys x)) 0)),
      ul_filtered_b1 = (\<lambda>v limit keep x. Ok (take limit (filter keep (kl_keys x)), replicate (length (kl_keys x)) 0))\<rparr>"

lemma list_lib_ok:
  "library_ok list_lib (\<lambda>x. set (kl_keys x))" "library_roomy list_lib (\<lambda>x. set (kl_keys x))"
  "library_searches list_lib (\<lambda>x. set (kl_keys x))"
  by (auto simp: library_ok_def library_roomy_def library_searches_def list_lib_def adds_key_def dest: in_set_takeD)

interpretation list_index: reliable_index "threaded_index list_lib" "threaded_ids (\<lambda>x. set (kl_keys x))"
  by (rule threaded_reliable [OF list_lib_ok(1,2)])

section \<open>An answer\<close>

definition example_row :: primary_id where
  "example_row = new_epoch (PrimaryId 0) (Epoch 1)"

definition example_partition :: "'i \<Rightarrow> 'i partition_state" where
  "example_partition idx =
     \<lparr>ps_partition_id = partition_global (IndexId 32768), ps_size = 1, ps_capacity = 9, ps_capacity_increment = 9,
      ps_free_threshold = 5, ps_idx = idx\<rparr>"

definition example_stored :: "key_list threaded" where
  "example_stored =
     \<lparr>th_inner = \<lparr>kl_capacity = 9, kl_keys = [primary_raw example_row]\<rparr>, th_threads = 1, th_quantization = SkF32, th_space_type = MkL2sq\<rparr>"

lemma example_row_facts:
  "search_primary_key example_table (partition_global (IndexId 32768)) example_row = Some example_key"
  "target_column example_table (IndexId 32768) = Some ''v''"
  "column_value_for example_table (partition_global (IndexId 32768)) example_row ''pk'' = Ok (Some (CqlInt 1))"
  "is_valid_for example_driver example_table (partition_global (IndexId 32768)) example_row (RLt ''pk'' (CqlInt 30)) = Ok True"
  by code_simp+

lemma example_raw: "PrimaryId (primary_raw p) = p"
  by (cases p) simp

lemma example_ann: "ann simulator_index (example_partition (simulator_new None\<lparr>sim_keys := [(primary_raw example_row, ())]\<rparr>)) example_table []
    5 [''v'', ''pk''] = Ok ([example_key], [DistEuclidean 0], [''v'' \<mapsto> [None], ''pk'' \<mapsto> [Some (CqlInt 1)]])"
  by (simp add: ann_def simulator_index_def simulator_search_def new_euclidean_def collect_results_def returned_target_def
      example_partition_def example_row_facts example_raw reconstruct_target_vector_def empty_column_values_def fun_eq_iff Let_def)

lemma example_filtered: "filtered_ann (threaded_index list_lib) example_driver (example_partition example_stored) example_table [1]
    \<lparr>flt_restrictions = [RLt ''pk'' (CqlInt 30)], flt_allow_filtering = True\<rparr> 5 [] = Ok ([example_key], [DistEuclidean 0], \<lambda>_. None)"
  by (simp add: filtered_ann_def threaded_index_def threaded_filtered_search_def list_lib_def threaded_matches_def example_stored_def
      collect_results_def returned_target_def id_ok_def
      example_partition_def example_row_facts example_raw empty_column_values_def fun_eq_iff Let_def)

section \<open>Properties\<close>

text \<open>
  An answer is a list of rows. If a search answers, it answers the matches of the library
  that still are rows of the table, in their order: their primary keys, their distances, and for
  every requested column as many values as there are rows, each the value of that row; the
  column that is the target of the index is read back from the index instead. Columns that were
  not requested are not answered.
\<close>

theorem search_answer_rows:
  assumes "ann ui ps t v limit cols = Ok (keys, distances, vals)"
  shows "\<exists>ms. ui_search ui v limit (ps_idx ps) = Ok ms \<and>
    (let rows = resolve t (ps_partition_id ps) ms; target = returned_target t (ps_partition_id ps) cols in
      (\<forall>m\<in>set ms. is_ok m) \<and> keys = map (snd \<circ> snd) rows \<and> distances = map (fst \<circ> snd) rows \<and>
      (\<forall>c. c \<notin> set cols \<longrightarrow> vals c = None) \<and>
      (\<forall>c\<in>set cols. \<exists>vs. vals c = Some vs \<and> length vs = length rows \<and>
         (\<forall>i<length rows.
            (if Some c = target then reconstruct_target_vector ui ps (fst (rows ! i))
             else column_value_for t (ps_partition_id ps) (fst (rows ! i)) c) = Ok (vs ! i))))"
proof -
  obtain ms where "ui_search ui v limit (ps_idx ps) = Ok ms" and "collect_results ui ps t cols ms = Ok (keys, distances, vals)"
    using assms by (auto simp: ann_def split: sum.splits)
  then show ?thesis using collect_results_Ok by blast
qed

theorem search_answer_rows_witness:
  "\<exists>ms. ui_search simulator_index [] 5 (simulator_new None\<lparr>sim_keys := [(primary_raw example_row, ())]\<rparr>) = Ok ms \<and>
     map (snd \<circ> snd) (resolve example_table (partition_global (IndexId 32768)) ms) = [example_key]"
  using search_answer_rows [OF example_ann] by (simp add: example_partition_def Let_def) metis

text \<open>
  C35: a filtered search answers only rows that satisfy the filter. With a library that keeps the
  contract of filtered searching, every key of the answer is the key of a row that is stored in
  the index and that every restriction of the filter holds for; there are as many distances.
\<close>

theorem filtered_answers_match:
  assumes "library_searches lib stored"
    and "filtered_ann (threaded_index lib) d ps t v flt limit cols = Ok (keys, distances, vals)"
  shows "length distances = length keys \<and>
    (\<forall>key\<in>set keys. \<exists>p\<in>threaded_ids stored (ps_idx ps).
       search_primary_key t (ps_partition_id ps) p = Some key \<and>
       (\<forall>r\<in>set (flt_restrictions flt). is_valid_for d t (ps_partition_id ps) p r = Ok True))"
proof -
  let ?q = "ps_partition_id ps"
  obtain ms where found: "threaded_filtered_search lib v limit (id_ok d t ?q (flt_restrictions flt)) (ps_idx ps) = Ok ms"
    and collected: "collect_results (threaded_index lib) ps t cols ms = Ok (keys, distances, vals)"
    using assms(2) by (auto simp: filtered_ann_def threaded_index_def split: sum.splits)
  have keys: "keys = map (snd \<circ> snd) (resolve t ?q ms)" "distances = map (fst \<circ> snd) (resolve t ?q ms)"
    using collect_results_Ok [OF collected] by (simp_all add: Let_def)
  have "\<exists>p\<in>threaded_ids stored (ps_idx ps). search_primary_key t ?q p = Some key \<and>
      (\<forall>r\<in>set (flt_restrictions flt). is_valid_for d t ?q p r = Ok True)" if "key \<in> set keys" for key
  proof -
    obtain p dist where row: "(p, dist, key) \<in> set (resolve t ?q ms)" using \<open>key \<in> set keys\<close> keys by auto
    note match = resolve_match [OF row]
    have "p \<in> threaded_ids stored (ps_idx ps) \<and> id_ok d t ?q (flt_restrictions flt) p"
      using filtered_search_keys [OF assms(1) found] match by blast
    then show ?thesis using match all_result_True by (fastforce simp: id_ok_def)
  qed
  then show ?thesis using keys by simp
qed

theorem filtered_answers_match_witness:
  "\<exists>p\<in>threaded_ids (\<lambda>x. set (kl_keys x)) example_stored.
     search_primary_key example_table (partition_global (IndexId 32768)) p = Some example_key \<and>
     is_valid_for example_driver example_table (partition_global (IndexId 32768)) p (RLt ''pk'' (CqlInt 30)) = Ok True"
  using filtered_answers_match [OF list_lib_ok(3) example_filtered] by (simp add: example_partition_def)

end
