(* ===== verification/Workers.thy ===== *)
theory Workers
  imports Prelude
begin

text \<open>
  Model of \<open>crates/vector-store/src/worker.rs\<close> and \<open>perf.rs\<close>: the pool of workers that runs the
  tasks of the indexes, and the dedicated thread that takes a blocking task when all workers are
  busy. Each worker is a machine that moves in the atomic steps of the source; the two counters
  are shared. What the tasks do is not part of the pool.
\<close>

section \<open>The shape of the pool\<close>

definition num_workers :: "nat \<Rightarrow> nat" where
  "num_workers runtime = (if runtime = 0 then 1 else runtime)"

definition channel_size :: "nat \<Rightarrow> nat" where
  "channel_size runtime = num_workers runtime * 3"

section \<open>The workers\<close>

datatype worker_msg = SpawnNonBlocking | SpawnBlocking | SpawnAsyncNonBlocking | SpawnAsyncBlocking

fun may_block :: "worker_msg \<Rightarrow> bool" where
  "may_block SpawnBlocking = True"
| "may_block SpawnAsyncBlocking = True"
| "may_block _ = False"

text \<open>
  Where a worker is: receiving; about to count its message; about to choose where to run it, with
  the number of messages in flow it saw; after it counted itself on the thread, with the number
  it saw; running the task itself; running it in the thread; done with the thread; done.
\<close>

datatype worker_pc =
    Receiving
  | Received worker_msg
  | Choosing worker_msg nat
  | Acquiring nat
  | RunningHere
  | InThread
  | Finishing

record pool =
  pool_size :: nat
  pool_pcs :: "nat \<Rightarrow> worker_pc"
  pool_in_flow :: nat
  pool_thread_in_flow :: nat

definition pool_new :: "nat \<Rightarrow> pool" where
  "pool_new n = \<lparr>pool_size = n, pool_pcs = (\<lambda>_. Receiving), pool_in_flow = 0, pool_thread_in_flow = 0\<rparr>"

definition set_pc :: "nat \<Rightarrow> worker_pc \<Rightarrow> pool \<Rightarrow> pool" where
  "set_pc i pc s = s\<lparr>pool_pcs := (pool_pcs s)(i := pc)\<rparr>"

text \<open>The rules \<open>not_busy\<close> to \<open>give_up\<close> are \<open>try_acquire_thread\<close>, \<open>leave_thread\<close> the end of \<open>run_in_thread\<close>.\<close>

inductive worker_step :: "pool \<Rightarrow> pool \<Rightarrow> bool" where
  receive: "i < pool_size s \<Longrightarrow> pool_pcs s i = Receiving \<Longrightarrow> worker_step s (set_pc i (Received msg) s)"
| count_in: "i < pool_size s \<Longrightarrow> pool_pcs s i = Received msg \<Longrightarrow>
    worker_step s (set_pc i (Choosing msg (pool_in_flow s + 1)) (s\<lparr>pool_in_flow := pool_in_flow s + 1\<rparr>))"
| not_blocking: "i < pool_size s \<Longrightarrow> pool_pcs s i = Choosing msg n \<Longrightarrow> \<not> may_block msg \<Longrightarrow>
    worker_step s (set_pc i RunningHere s)"
| not_busy: "i < pool_size s \<Longrightarrow> pool_pcs s i = Choosing msg n \<Longrightarrow> may_block msg \<Longrightarrow> n \<noteq> pool_size s \<Longrightarrow>
    worker_step s (set_pc i RunningHere s)"
| try_acquire: "i < pool_size s \<Longrightarrow> pool_pcs s i = Choosing msg n \<Longrightarrow> may_block msg \<Longrightarrow> n = pool_size s \<Longrightarrow>
    worker_step s (set_pc i (Acquiring (pool_thread_in_flow s + 1)) (s\<lparr>pool_thread_in_flow := pool_thread_in_flow s + 1\<rparr>))"
| acquired: "i < pool_size s \<Longrightarrow> pool_pcs s i = Acquiring 1 \<Longrightarrow> worker_step s (set_pc i InThread s)"
| give_up: "i < pool_size s \<Longrightarrow> pool_pcs s i = Acquiring n \<Longrightarrow> n \<noteq> 1 \<Longrightarrow>
    worker_step s (set_pc i RunningHere (s\<lparr>pool_thread_in_flow := pool_thread_in_flow s - 1\<rparr>))"
| leave_thread: "i < pool_size s \<Longrightarrow> pool_pcs s i = InThread \<Longrightarrow>
    worker_step s (set_pc i Finishing (s\<lparr>pool_thread_in_flow := pool_thread_in_flow s - 1\<rparr>))"
| task_done: "i < pool_size s \<Longrightarrow> pool_pcs s i = RunningHere \<Longrightarrow> worker_step s (set_pc i Finishing s)"
| count_out: "i < pool_size s \<Longrightarrow> pool_pcs s i = Finishing \<Longrightarrow>
    worker_step s (set_pc i Receiving (s\<lparr>pool_in_flow := pool_in_flow s - 1\<rparr>))"

inductive pool_reachable :: "nat \<Rightarrow> pool \<Rightarrow> bool" for n where
  start: "pool_reachable n (pool_new n)"
| step: "pool_reachable n s \<Longrightarrow> worker_step s s' \<Longrightarrow> pool_reachable n s'"

section \<open>Invariant\<close>

fun counted :: "worker_pc \<Rightarrow> bool" where
  "counted Receiving = False"
| "counted (Received _) = False"
| "counted _ = True"

fun on_thread :: "worker_pc \<Rightarrow> bool" where
  "on_thread (Acquiring _) = True"
| "on_thread InThread = True"
| "on_thread _ = False"

text \<open>Having seen a one is being first: a worker that holds or is about to hold the thread.\<close>

fun owns_thread :: "worker_pc \<Rightarrow> bool" where
  "owns_thread (Acquiring n) = (n = 1)"
| "owns_thread InThread = True"
| "owns_thread _ = False"

definition who :: "(worker_pc \<Rightarrow> bool) \<Rightarrow> pool \<Rightarrow> nat set" where
  "who P s = {i. i < pool_size s \<and> P (pool_pcs s i)}"

definition pool_inv :: "pool \<Rightarrow> bool" where
  "pool_inv s \<longleftrightarrow>
     pool_in_flow s = card (who counted s) \<and>
     pool_thread_in_flow s = card (who on_thread s) \<and>
     (\<forall>i<pool_size s. \<forall>n. pool_pcs s i = Acquiring n \<longrightarrow> 0 < n) \<and>
     card (who owns_thread s) \<le> 1"

lemma finite_who [simp]: "finite (who P s)"
  by (simp add: who_def)

lemma who_frame [simp]: "who P (s\<lparr>pool_in_flow := a\<rparr>) = who P s" "who P (s\<lparr>pool_thread_in_flow := a\<rparr>) = who P s"
  by (simp_all add: who_def)

lemma who_set_pc:
  assumes "i < pool_size s"
  shows "who P (set_pc i pc s) = (if P pc then insert i (who P s) else who P s - {i})"
  using assms by (auto simp: who_def set_pc_def)

lemma card_who_set_pc:
  assumes "i < pool_size s"
  shows "card (who P (set_pc i pc s)) + (if P (pool_pcs s i) then 1 else 0) = card (who P s) + (if P pc then 1 else 0)"
proof -
  have "i \<in> who P s \<longleftrightarrow> P (pool_pcs s i)" using assms by (simp add: who_def)
  then show ?thesis
    using card_Suc_Diff1 [of "who P s" i] by (auto simp: who_set_pc [OF assms] insert_absorb)
qed

lemma set_pc_simps [simp]:
  "pool_in_flow (set_pc i pc s) = pool_in_flow s" "pool_thread_in_flow (set_pc i pc s) = pool_thread_in_flow s"
  "pool_size (set_pc i pc s) = pool_size s" "pool_pcs (set_pc i pc s) j = (if j = i then pc else pool_pcs s j)"
  by (simp_all add: set_pc_def)

lemma owner_on_thread: "owns_thread pc \<Longrightarrow> on_thread pc"
  by (cases pc) simp_all

lemma pool_inv_positive:
  assumes "pool_inv s" and "i < pool_size s"
  shows "counted (pool_pcs s i) \<Longrightarrow> 0 < pool_in_flow s" and "on_thread (pool_pcs s i) \<Longrightarrow> 0 < pool_thread_in_flow s"
  using assms by (auto simp: pool_inv_def card_gt_0_iff) (auto simp: who_def)

text \<open>One worker moves and adjusts the counters by what it stood for and stands for.\<close>

lemma pool_inv_move:
  assumes inv: "pool_inv s" and i: "i < pool_size s"
    and flow: "a + of_bool (counted (pool_pcs s i)) = pool_in_flow s + of_bool (counted pc)"
    and thread: "b + of_bool (on_thread (pool_pcs s i)) = pool_thread_in_flow s + of_bool (on_thread pc)"
    and owner: "owns_thread pc \<Longrightarrow> owns_thread (pool_pcs s i) \<or> pool_thread_in_flow s = 0"
    and seen: "\<And>n. pc = Acquiring n \<Longrightarrow> 0 < n"
  shows "pool_inv (set_pc i pc (s\<lparr>pool_in_flow := a, pool_thread_in_flow := b\<rparr>))"
proof -
  let ?s = "s\<lparr>pool_in_flow := a, pool_thread_in_flow := b\<rparr>"
  note move = card_who_set_pc [of i ?s _ pc]
  have "card (who counted (set_pc i pc ?s)) = a" "card (who on_thread (set_pc i pc ?s)) = b"
    using move [of counted] move [of on_thread] flow thread i inv by (simp_all add: pool_inv_def of_bool_def split: if_splits)
  moreover have "card (who owns_thread (set_pc i pc ?s)) \<le> 1"
  proof (cases "pool_thread_in_flow s = 0")
    case True
    then have "who on_thread s = {}" using inv by (simp add: pool_inv_def)
    then have "who owns_thread s = {}" using owner_on_thread by (auto simp: who_def)
    then show ?thesis using move [of owns_thread] i by (simp split: if_splits)
  next
    case False
    then show ?thesis using move [of owns_thread] i inv owner by (simp add: pool_inv_def split: if_splits)
  qed
  ultimately show ?thesis using inv seen by (simp add: pool_inv_def)
qed

lemma worker_step_inv: "worker_step s s' \<Longrightarrow> pool_inv s \<Longrightarrow> pool_inv s'"
proof (induction rule: worker_step.induct)
  case (receive i s msg)
  then show ?case using pool_inv_move [of s i "pool_in_flow s" "Received msg" "pool_thread_in_flow s"] by simp
next
  case (count_in i s msg)
  then show ?case
    using pool_inv_move [of s i "pool_in_flow s + 1" "Choosing msg (pool_in_flow s + 1)" "pool_thread_in_flow s"] by simp
next
  case (not_blocking i s msg n)
  then show ?case using pool_inv_move [of s i "pool_in_flow s" RunningHere "pool_thread_in_flow s"] by simp
next
  case (not_busy i s msg n)
  then show ?case using pool_inv_move [of s i "pool_in_flow s" RunningHere "pool_thread_in_flow s"] by simp
next
  case (try_acquire i s msg n)
  then show ?case
    using pool_inv_move [of s i "pool_in_flow s" "Acquiring (pool_thread_in_flow s + 1)" "pool_thread_in_flow s + 1"] by simp
next
  case (acquired i s)
  then show ?case using pool_inv_move [of s i "pool_in_flow s" InThread "pool_thread_in_flow s"] by simp
next
  case (give_up i s n)
  then show ?case
    using pool_inv_move [of s i "pool_in_flow s" RunningHere "pool_thread_in_flow s - 1"] pool_inv_positive [of s i] by simp
next
  case (leave_thread i s)
  then show ?case
    using pool_inv_move [of s i "pool_in_flow s" Finishing "pool_thread_in_flow s - 1"] pool_inv_positive [of s i] by simp
next
  case (task_done i s)
  then show ?case using pool_inv_move [of s i "pool_in_flow s" Finishing "pool_thread_in_flow s"] by simp
next
  case (count_out i s)
  then show ?case
    using pool_inv_move [of s i "pool_in_flow s - 1" Receiving "pool_thread_in_flow s"] pool_inv_positive [of s i] by simp
qed

lemma pool_reachable_inv: "pool_reachable n s \<Longrightarrow> pool_inv s \<and> pool_size s = n"
proof (induction rule: pool_reachable.induct)
  case start
  show ?case by (simp add: pool_inv_def pool_new_def who_def)
next
  case (step s s')
  have "pool_size s' = pool_size s" using step(2) by (cases rule: worker_step.cases) simp_all
  then show ?case using step worker_step_inv by simp
qed

section \<open>Properties\<close>

text \<open>
  The dedicated thread is given to one worker at a time, however the workers interleave, and
  the number of messages in flow never exceeds the number of workers, so the test for all workers
  being busy can succeed.
\<close>

theorem one_worker_on_thread:
  assumes "pool_reachable n s"
  shows "(i < n \<longrightarrow> j < n \<longrightarrow> pool_pcs s i = InThread \<longrightarrow> pool_pcs s j = InThread \<longrightarrow> i = j) \<and>
    pool_in_flow s \<le> n \<and> pool_thread_in_flow s \<le> pool_in_flow s"
proof (intro conjI impI)
  have inv: "pool_inv s" and n: "pool_size s = n" using pool_reachable_inv [OF assms] by simp_all
  have "who counted s \<subseteq> {..<n}" using n by (auto simp: who_def)
  then show "pool_in_flow s \<le> n" using inv card_mono [of "{..<n}"] by (simp add: pool_inv_def)
  have "who on_thread s \<subseteq> who counted s"
    unfolding who_def by (auto elim: on_thread.elims)
  then show "pool_thread_in_flow s \<le> pool_in_flow s" using inv card_mono [of "who counted s"] by (simp add: pool_inv_def)
  assume "i < n" "j < n" "pool_pcs s i = InThread" "pool_pcs s j = InThread"
  then have "{i, j} \<subseteq> who owns_thread s" using n by (simp add: who_def)
  then have "card {i, j} \<le> 1" using inv card_mono [of "who owns_thread s" "{i, j}"] by (simp add: pool_inv_def)
  then show "i = j" by (cases "i = j") simp_all
qed

text \<open>A pool of one worker that runs its blocking task in the thread.\<close>

lemma example_in_thread:
  "pool_reachable 1 \<lparr>pool_size = 1, pool_pcs = (\<lambda>_. Receiving)(0 := InThread), pool_in_flow = 1, pool_thread_in_flow = 1\<rparr>"
proof -
  note simps = pool_new_def set_pc_def
  note later = pool_reachable.step
  have "pool_reachable 1 (set_pc 0 (Received SpawnBlocking) (pool_new 1))"
    by (rule later [OF pool_reachable.start worker_step.receive]) (simp_all add: simps)
  from later [OF this worker_step.count_in, of 0 SpawnBlocking]
  have "pool_reachable 1 (set_pc 0 (Choosing SpawnBlocking 1) (pool_new 1\<lparr>pool_in_flow := 1\<rparr>))"
    by (simp add: simps)
  from later [OF this worker_step.try_acquire, of 0 SpawnBlocking 1]
  have "pool_reachable 1 (set_pc 0 (Acquiring 1) (pool_new 1\<lparr>pool_in_flow := 1, pool_thread_in_flow := 1\<rparr>))"
    by (simp add: simps)
  from later [OF this worker_step.acquired, of 0] show ?thesis
    by (simp add: simps)
qed

theorem one_worker_on_thread_witness:
  "\<exists>s. pool_reachable 1 s \<and> pool_pcs s 0 = InThread \<and> pool_in_flow s \<le> 1 \<and> pool_thread_in_flow s \<le> pool_in_flow s"
  using one_worker_on_thread [OF example_in_thread] example_in_thread by (intro exI conjI) auto

end
