(* ===== verification/Full_Scan.thy ===== *)
theory Full_Scan
  imports Node_State
begin

text \<open>
  The full scan of a base table (\<open>db_index.rs\<close>): the token ranges of \<open>fullscan_ranges\<close>, the scan of
  one range with its retries (\<open>preform_range_scan\<close>), \<open>scan_ranges\<close> as a machine whose steps are
  those of its main loop, of the tasks of the ranges and of the pipeline that acknowledges rows,
  and the actor of the database index with its two phases, its events and its answers.

  The token ring, \<open>Token::new\<close>, the rows of a range and the conversion of a length to a percentage
  are arguments.
\<close>

section \<open>Token ranges\<close>

text \<open>Tokens are \<open>i64\<close>; \<open>i64_wrap\<close> is the result of an operation that overflows.\<close>

definition i64_wrap :: "int \<Rightarrow> int" where
  "i64_wrap x = (x + 2 ^ 63) mod 2 ^ 64 - 2 ^ 63"

type_synonym token = int

type_synonym token_range = "token \<times> token"

definition TOKEN_MAX :: token where
  "TOKEN_MAX = 2 ^ 63 - 1"

definition TOKEN_MIN :: token where
  "TOKEN_MIN = - TOKEN_MAX"

text \<open>\<open>circular_tuple_windows\<close> of pairs.\<close>

definition circular_pairs :: "'a list \<Rightarrow> ('a \<times> 'a) list" where
  "circular_pairs xs = zip xs (rotate1 xs)"

definition fullscan_ranges :: "(int \<Rightarrow> token) \<Rightarrow> token list \<Rightarrow> token_range list" where
  "fullscan_ranges token_new token_ring =
     (let tokens = token_new TOKEN_MIN # token_ring
      in map (\<lambda>(begin_token, end_token).
                if begin_token > end_token then (begin_token, token_new TOKEN_MAX)
                else (begin_token, token_new (i64_wrap (end_token - 1))))
             (circular_pairs tokens))"

text \<open>\<open>abs_diff\<close> of two \<open>i64\<close> is a \<open>u64\<close>.\<close>

definition range_length :: "token_range \<Rightarrow> u64" where
  "range_length r = (case r of (begin_token, end_token) \<Rightarrow>
     word_of_int \<bar>end_token - i64_wrap (begin_token - 1)\<bar>)"

definition progress_from :: "(u64 \<Rightarrow> u64) \<Rightarrow> u64 \<Rightarrow> progress" where
  "progress_from percentage v = (if v = - 1 then Done else InProgress (percentage v))"

section \<open>One range\<close>

text \<open>
  \<open>preform_range_scan\<close>: the outcomes of the attempts to open the stream of a range, as they come.
  The result is the sleeps of the retries and, once an attempt ends the loop, its outcome.
\<close>

datatype 'a attempt = Opened 'a | RetryableError | NonRetryableError

definition START_RETRY_TIMEOUT :: nat where
  "START_RETRY_TIMEOUT = 100"

definition RETRY_TIMEOUT_LIMIT :: nat where
  "RETRY_TIMEOUT_LIMIT = 16000"

definition INCREASE_RATE :: nat where
  "INCREASE_RATE = 2"

fun retry_loop :: "'a attempt list \<Rightarrow> nat \<Rightarrow> nat list \<times> 'a result option" where
  "retry_loop [] retry_timeout = ([], None)"
| "retry_loop (Opened rows # attempts) retry_timeout = ([], Some (Ok rows))"
| "retry_loop (NonRetryableError # attempts) retry_timeout =
     ([], Some (Err (Bail ''Non-retryable error during scan of the range'')))"
| "retry_loop (RetryableError # attempts) retry_timeout =
     (let next = (if retry_timeout < RETRY_TIMEOUT_LIMIT then retry_timeout * INCREASE_RATE else retry_timeout)
      in case retry_loop attempts next of (sleeps, outcome) \<Rightarrow> (retry_timeout # sleeps, outcome))"

definition preform_range_scan :: "'a attempt list \<Rightarrow> nat list \<times> 'a result option" where
  "preform_range_scan attempts = retry_loop attempts START_RETRY_TIMEOUT"

definition nr_parallel_queries :: "nat \<Rightarrow> nat result" where
  "nr_parallel_queries shards =
     (if shards * 3 < 2 ^ 64 then Ok (shards * 3) else Err (Panic ''unwrap on None''))"

section \<open>All ranges\<close>

text \<open>
  A task of a range: the rows it has not sent, whether it still holds its permit, the length it
  will report and the guards of its rows that the pipeline has not dropped.
\<close>

record 'row range_task =
  rt_rows :: "'row list"
  rt_permit :: bool
  rt_length :: u64
  rt_guards :: nat

text \<open>
  Where the main loop of \<open>scan_ranges\<close> is.\<close>

datatype scan_pc =
    NextRange
  | OpeningRange token_range
  | JoiningTasks
  | ScanDone "unit result"

text \<open>
  \<open>sc_sent\<close> are the rows in the channel to the pipeline or past it, \<open>sc_unsent\<close> those that were
  lost because the receiver of the channel is gone (the error of \<open>send\<close> is ignored). \<open>sc_unacked\<close>
  is the number of guards the pipeline holds; \<open>sc_orphaned\<close> of them belong to rows of tasks that
  do not run any more. \<open>sc_failed\<close> are the tasks whose end \<open>join_next\<close> reports as an error, as they
  were when they failed: the loop only logs them.
\<close>

record 'row scan =
  sc_ranges :: "token_range list"
  sc_pc :: scan_pc
  sc_permits :: nat
  sc_tasks :: "'row range_task list"
  sc_completed :: u64
  sc_sent :: "'row list"
  sc_unsent :: "'row list"
  sc_unacked :: nat
  sc_orphaned :: nat
  sc_failed :: "'row range_task list"

definition scan_new :: "token_range list \<Rightarrow> nat \<Rightarrow> 'row scan" where
  "scan_new ranges concurrency =
     \<lparr>sc_ranges = ranges, sc_pc = NextRange, sc_permits = concurrency, sc_tasks = [], sc_completed = 0, sc_sent = [],
      sc_unsent = [], sc_unacked = 0, sc_orphaned = 0, sc_failed = []\<rparr>"

text \<open>
  \<open>TakeRange\<close>: the loop acquires a permit for the next range; \<open>OpenRange\<close>: the stream of the
  range answered, and the task is spawned or the scan fails and its tasks are aborted;
  \<open>SendRow\<close>: a task sends a row with a guard; if the receiver is gone, the row is lost and the guard
  dropped at once; \<open>DropPermit\<close>: all rows are sent; \<open>AckRow\<close>: the pipeline drops a guard;
  \<open>CompleteRange\<close>: the last guard was dropped and the length is added; \<open>TaskFails\<close>: a task panics
  (or is dropped by the runtime), which releases its permit, adds no length and leaves its guards in
  the pipeline; \<open>AckOrphan\<close>: the pipeline drops such a guard; \<open>JoinTasks\<close> and \<open>FinishScan\<close>: the
  end of the loops. The last loop returns \<open>Ok\<close> once every task ended, whether it completed or failed.
\<close>

datatype 'row scan_event =
    TakeRange
  | OpenRange "'row list result"
  | SendRow nat bool
  | DropPermit nat
  | AckRow nat
  | CompleteRange nat
  | TaskFails nat
  | AckOrphan
  | JoinTasks
  | FinishScan

definition update_task :: "nat \<Rightarrow> ('row range_task \<Rightarrow> 'row range_task) \<Rightarrow> 'row scan \<Rightarrow> 'row scan" where
  "update_task i f s = s\<lparr>sc_tasks := (sc_tasks s)[i := f (sc_tasks s ! i)]\<rparr>"

fun scan_step :: "'row scan_event \<Rightarrow> 'row scan \<Rightarrow> 'row scan option" where
  "scan_step TakeRange s =
     (case sc_ranges s of
        [] \<Rightarrow> None
      | r # ranges \<Rightarrow>
          if sc_pc s = NextRange \<and> 0 < sc_permits s
          then Some (s\<lparr>sc_ranges := ranges, sc_pc := OpeningRange r, sc_permits := sc_permits s - 1\<rparr>)
          else None)"
| "scan_step (OpenRange rows) s =
     (case sc_pc s of
        OpeningRange r \<Rightarrow>
          (case rows of
             Inl e \<Rightarrow>
               Some (s\<lparr>sc_pc := ScanDone (Err e), sc_tasks := [],
                       sc_orphaned := sc_orphaned s + sum_list (map rt_guards (sc_tasks s))\<rparr>)
           | Inr rs \<Rightarrow>
               Some (s\<lparr>sc_pc := NextRange,
                       sc_tasks := sc_tasks s @ [\<lparr>rt_rows = rs, rt_permit = True, rt_length = range_length r, rt_guards = 0\<rparr>]\<rparr>))
      | _ \<Rightarrow> None)"
| "scan_step (SendRow i received) s =
     (case vec_get (sc_tasks s) i of
        Some t \<Rightarrow>
          (case rt_rows t of
             [] \<Rightarrow> None
           | row # rows \<Rightarrow>
               if received
               then Some (update_task i (\<lambda>t. t\<lparr>rt_rows := rows, rt_guards := rt_guards t + 1\<rparr>)
                      (s\<lparr>sc_sent := sc_sent s @ [row], sc_unacked := sc_unacked s + 1\<rparr>))
               else Some (update_task i (\<lambda>t. t\<lparr>rt_rows := rows\<rparr>) (s\<lparr>sc_unsent := sc_unsent s @ [row]\<rparr>)))
      | None \<Rightarrow> None)"
| "scan_step (DropPermit i) s =
     (case vec_get (sc_tasks s) i of
        Some t \<Rightarrow>
          if rt_rows t = [] \<and> rt_permit t
          then Some (update_task i (\<lambda>t. t\<lparr>rt_permit := False\<rparr>) (s\<lparr>sc_permits := sc_permits s + 1\<rparr>))
          else None
      | None \<Rightarrow> None)"
| "scan_step (AckRow i) s =
     (case vec_get (sc_tasks s) i of
        Some t \<Rightarrow>
          if 0 < rt_guards t
          then Some (update_task i (\<lambda>t. t\<lparr>rt_guards := rt_guards t - 1\<rparr>) (s\<lparr>sc_unacked := sc_unacked s - 1\<rparr>))
          else None
      | None \<Rightarrow> None)"
| "scan_step (CompleteRange i) s =
     (case vec_get (sc_tasks s) i of
        Some t \<Rightarrow>
          if rt_rows t = [] \<and> \<not> rt_permit t \<and> rt_guards t = 0
          then Some (s\<lparr>sc_completed := sc_completed s + rt_length t, sc_tasks := drop_nth i (sc_tasks s)\<rparr>)
          else None
      | None \<Rightarrow> None)"
| "scan_step (TaskFails i) s =
     (case vec_get (sc_tasks s) i of
        Some t \<Rightarrow>
          Some (s\<lparr>sc_tasks := drop_nth i (sc_tasks s), sc_failed := sc_failed s @ [t],
                  sc_permits := sc_permits s + of_bool (rt_permit t), sc_orphaned := sc_orphaned s + rt_guards t\<rparr>)
      | None \<Rightarrow> None)"
| "scan_step AckOrphan s =
     (if 0 < sc_orphaned s then Some (s\<lparr>sc_orphaned := sc_orphaned s - 1, sc_unacked := sc_unacked s - 1\<rparr>) else None)"
| "scan_step JoinTasks s =
     (if sc_pc s = NextRange \<and> sc_ranges s = [] then Some (s\<lparr>sc_pc := JoiningTasks\<rparr>) else None)"
| "scan_step FinishScan s =
     (if sc_pc s = JoiningTasks \<and> sc_tasks s = [] then Some (s\<lparr>sc_pc := ScanDone (Ok ())\<rparr>) else None)"

end
