(* ===== verification/Full_Scan_Correct.thy ===== *)
theory Full_Scan_Correct
  imports Full_Scan "HOL-Library.Multiset"
begin

text \<open>
  Correctness of the full scan. The ranges partition the tokens, so their lengths sum to
  \<open>u64::MAX\<close>; the invariant of the scan accounts for every permit, every token, every guard and every
  row, those of tasks that failed included; with it the progress says \<open>Done\<close> exactly when every range
  was sent and acknowledged, and none failed. A measure that every step decreases, and an enabled
  step in every unfinished state, show that a scan whose rows are acknowledged ends.
\<close>

section \<open>The ranges\<close>

text \<open>\<open>Token::new\<close> of the driver: the least \<open>i64\<close> is no token and is replaced by the greatest.\<close>

definition token_new_ok :: "(int \<Rightarrow> token) \<Rightarrow> bool" where
  "token_new_ok token_new \<longleftrightarrow> (\<forall>v. token_new v = (if v = - (2 ^ 63) then 2 ^ 63 - 1 else v))"

definition ring_ok :: "token list \<Rightarrow> bool" where
  "ring_ok ring \<longleftrightarrow> sorted_wrt (<) ring \<and> list_all (\<lambda>t. TOKEN_MIN < t \<and> t \<le> TOKEN_MAX) ring"

text \<open>The ranges between consecutive tokens, the last one up to the greatest token.\<close>

fun ring_ranges :: "token \<Rightarrow> token list \<Rightarrow> token_range list" where
  "ring_ranges a [] = [(a, TOKEN_MAX)]"
| "ring_ranges a (t # ts) = (a, t - 1) # ring_ranges t ts"

definition range_of :: "token_range \<Rightarrow> token set" where
  "range_of r = {fst r..snd r}"

lemma i64_wrap_id: "- (2 ^ 63) \<le> x \<Longrightarrow> x < 2 ^ 63 \<Longrightarrow> i64_wrap x = x"
  by (simp add: i64_wrap_def)

lemma fullscan_tail:
  assumes new: "token_new_ok token_new" and "TOKEN_MIN < a" and "a \<le> TOKEN_MAX"
    and "sorted_wrt (<) (a # ts)" and "list_all (\<lambda>t. TOKEN_MIN < t \<and> t \<le> TOKEN_MAX) ts"
  shows "map (\<lambda>(b, e). if b > e then (b, token_new TOKEN_MAX) else (b, token_new (i64_wrap (e - 1))))
           (zip (a # ts) (ts @ [TOKEN_MIN])) = ring_ranges a ts"
  using assms(2-)
proof (induction ts arbitrary: a)
  case Nil
  then show ?case using new by (simp add: token_new_ok_def TOKEN_MAX_def)
next
  case (Cons t ts)
  have "i64_wrap (t - 1) = t - 1"
    using Cons.prems by (intro i64_wrap_id) (simp_all add: TOKEN_MIN_def TOKEN_MAX_def)
  then have "token_new (i64_wrap (t - 1)) = t - 1"
    using Cons.prems new by (simp add: token_new_ok_def TOKEN_MIN_def TOKEN_MAX_def)
  then show ?case using Cons by simp
qed

lemma fullscan_ranges_eq:
  assumes "token_new_ok token_new" and "ring_ok ring"
  shows "fullscan_ranges token_new ring = ring_ranges TOKEN_MIN ring"
proof -
  have min: "token_new TOKEN_MIN = TOKEN_MIN"
    using assms(1) by (simp add: token_new_ok_def TOKEN_MIN_def TOKEN_MAX_def)
  show ?thesis
  proof (cases ring)
    case Nil
    have "i64_wrap (TOKEN_MIN - 1) = - (2 ^ 63)"
      by (simp add: i64_wrap_def TOKEN_MIN_def TOKEN_MAX_def)
    then show ?thesis
      using assms(1) by (simp add: fullscan_ranges_def circular_pairs_def min Nil token_new_ok_def TOKEN_MAX_def TOKEN_MIN_def)
  next
    case (Cons t ts)
    have "i64_wrap (t - 1) = t - 1"
      using assms(2) by (intro i64_wrap_id) (simp_all add: Cons ring_ok_def TOKEN_MIN_def TOKEN_MAX_def)
    then have t: "token_new (i64_wrap (t - 1)) = t - 1" "TOKEN_MIN < t"
      using assms by (simp_all add: Cons ring_ok_def token_new_ok_def TOKEN_MIN_def TOKEN_MAX_def)
    then show ?thesis
      using fullscan_tail [OF assms(1), of t ts] assms(2)
      by (simp add: fullscan_ranges_def circular_pairs_def min Cons ring_ok_def)
  qed
qed

text \<open>A ring above \<open>a\<close>.\<close>

definition ring_above :: "token \<Rightarrow> token list \<Rightarrow> bool" where
  "ring_above a ts \<longleftrightarrow> a \<le> TOKEN_MAX \<and> sorted_wrt (<) (a # ts) \<and> list_all (\<lambda>t. t \<le> TOKEN_MAX) ts"

lemma ring_above_Cons: "ring_above a (t # ts) \<longleftrightarrow> a < t \<and> ring_above t ts"
  by (auto simp: ring_above_def list_all_iff)

lemma ring_above_min: "ring_ok ring \<Longrightarrow> ring_above TOKEN_MIN ring"
  by (auto simp: ring_ok_def ring_above_def list_all_iff TOKEN_MIN_def TOKEN_MAX_def)

lemma ring_ranges_bounds:
  "ring_above a ts \<Longrightarrow> r \<in> set (ring_ranges a ts) \<Longrightarrow> a \<le> fst r \<and> fst r \<le> snd r \<and> snd r \<le> TOKEN_MAX"
proof (induction ts arbitrary: a)
  case (Cons t ts)
  then have "a < t" "ring_above t ts" "t \<le> TOKEN_MAX"
    by (simp_all add: ring_above_Cons) (simp add: ring_above_def)
  then show ?case using Cons.IH [of t] Cons.prems(2) by auto
qed (simp add: ring_above_def)

lemma ring_ranges_sorted: "ring_above a ts \<Longrightarrow> sorted_wrt (\<lambda>r s. snd r < fst s) (ring_ranges a ts)"
proof (induction ts arbitrary: a)
  case (Cons t ts)
  then have "ring_above t ts" by (simp add: ring_above_Cons)
  then show ?case using Cons.IH [of t] ring_ranges_bounds [of t ts] by force
qed simp

lemma ring_ranges_union: "ring_above a ts \<Longrightarrow> (\<Union>r\<in>set (ring_ranges a ts). range_of r) = {a..TOKEN_MAX}"
proof (induction ts arbitrary: a)
  case (Cons t ts)
  then have "a < t" "ring_above t ts" "t \<le> TOKEN_MAX"
    by (simp_all add: ring_above_Cons) (simp add: ring_above_def)
  then show ?case using Cons.IH [of t] by (auto simp: range_of_def)
qed (simp add: range_of_def)

lemma unat_word_of_int_u64: "0 \<le> n \<Longrightarrow> n < 2 ^ 64 \<Longrightarrow> unat (word_of_int n :: u64) = nat n"
  by (simp add: unat_eq_nat_uint uint_word_of_int)

lemma range_length_nat:
  assumes "TOKEN_MIN \<le> fst r" and "fst r \<le> snd r" and "snd r \<le> TOKEN_MAX"
  shows "unat (range_length r) = nat (snd r - fst r + 1)"
proof -
  have "i64_wrap (fst r - 1) = fst r - 1"
    using assms by (intro i64_wrap_id) (simp_all add: TOKEN_MIN_def TOKEN_MAX_def)
  then have "\<bar>snd r - i64_wrap (fst r - 1)\<bar> = snd r - fst r + 1"
    using assms(2) by simp
  then have "range_length r = word_of_int (snd r - fst r + 1)"
    by (cases r) (simp only: range_length_def prod.case fst_conv snd_conv)
  moreover have "0 \<le> snd r - fst r + 1" "snd r - fst r + 1 < 2 ^ 64"
    using assms by (simp_all add: TOKEN_MIN_def TOKEN_MAX_def)
  ultimately show ?thesis
    using unat_word_of_int_u64 by metis
qed

lemma ring_ranges_length:
  "ring_above a ts \<Longrightarrow> TOKEN_MIN \<le> a \<Longrightarrow>
     sum_list (map (\<lambda>r. unat (range_length r)) (ring_ranges a ts)) = nat (TOKEN_MAX - a + 1)"
proof (induction ts arbitrary: a)
  case Nil
  then show ?case using range_length_nat [of "(a, TOKEN_MAX)"] by (simp add: ring_above_def)
next
  case (Cons t ts)
  then have at: "a < t" "ring_above t ts" "t \<le> TOKEN_MAX"
    by (simp_all add: ring_above_Cons) (simp add: ring_above_def)
  then show ?case
    using Cons.IH [of t] Cons.prems(2) range_length_nat [of "(a, t - 1)"] by simp
qed

lemma fullscan_length:
  assumes "token_new_ok token_new" and "ring_ok ring"
  shows "sum_list (map (\<lambda>r. unat (range_length r)) (fullscan_ranges token_new ring)) = 2 ^ 64 - 1"
    and "\<forall>r\<in>set (fullscan_ranges token_new ring). 0 < unat (range_length r)"
proof -
  note above = ring_above_min [OF assms(2)]
  show "sum_list (map (\<lambda>r. unat (range_length r)) (fullscan_ranges token_new ring)) = 2 ^ 64 - 1"
    using ring_ranges_length [OF above] by (simp add: fullscan_ranges_eq [OF assms] TOKEN_MIN_def TOKEN_MAX_def)
  show "\<forall>r\<in>set (fullscan_ranges token_new ring). 0 < unat (range_length r)"
    using ring_ranges_bounds [OF above] range_length_nat by (fastforce simp: fullscan_ranges_eq [OF assms])
qed

section \<open>The invariant of the scan\<close>

text \<open>
  The rows of a range are \<open>R r\<close>: the stream of a range, once open, yields them. Opening a range may
  fail at any time, a task may fail at any time, and the receiver of the rows may be gone.
\<close>

definition faithful :: "(token_range \<Rightarrow> 'row list) \<Rightarrow> 'row scan_event \<Rightarrow> 'row scan \<Rightarrow> bool" where
  "faithful R ev s \<longleftrightarrow>
     (case ev of
        OpenRange (Inr rows) \<Rightarrow> (\<forall>r. sc_pc s = OpeningRange r \<longrightarrow> rows = R r)
      | _ \<Rightarrow> True)"

text \<open>
  The steps of a scan that goes well: no range or task fails, the receiver is there, and only guards
  of running tasks are dropped.
\<close>

definition undisturbed :: "'row scan_event \<Rightarrow> bool" where
  "undisturbed ev \<longleftrightarrow>
     (case ev of
        OpenRange (Inl _) \<Rightarrow> False
      | SendRow _ received \<Rightarrow> received
      | TaskFails _ \<Rightarrow> False
      | AckOrphan \<Rightarrow> False
      | _ \<Rightarrow> True)"

inductive scan_reachable :: "(token_range \<Rightarrow> 'row list) \<Rightarrow> token_range list \<Rightarrow> nat \<Rightarrow> 'row scan \<Rightarrow> bool"
  for R ranges concurrency where
  scan_start: "scan_reachable R ranges concurrency (scan_new ranges concurrency)"
| scan_next: "scan_reachable R ranges concurrency s \<Longrightarrow> faithful R ev s \<Longrightarrow> scan_step ev s = Some s' \<Longrightarrow>
    scan_reachable R ranges concurrency s'"

definition opened_range :: "scan_pc \<Rightarrow> token_range list" where
  "opened_range pc = (case pc of OpeningRange r \<Rightarrow> [r] | _ \<Rightarrow> [])"

text \<open>The tokens not counted and the rows not sent (for tasks that failed they never will be), and the permits in use.\<close>

definition tokens_left :: "'row scan \<Rightarrow> nat" where
  "tokens_left s =
     sum_list (map (\<lambda>r. unat (range_length r)) (opened_range (sc_pc s) @ sc_ranges s)) +
     sum_list (map (\<lambda>t. unat (rt_length t)) (sc_tasks s @ sc_failed s))"

definition rows_left :: "(token_range \<Rightarrow> 'row list) \<Rightarrow> 'row scan \<Rightarrow> 'row multiset" where
  "rows_left R s =
     sum_list (map (\<lambda>r. mset (R r)) (opened_range (sc_pc s) @ sc_ranges s)) +
     sum_list (map (\<lambda>t. mset (rt_rows t)) (sc_tasks s @ sc_failed s))"

definition permits_used :: "'row scan \<Rightarrow> nat" where
  "permits_used s = length (opened_range (sc_pc s)) + sum_list (map (\<lambda>t. of_bool (rt_permit t)) (sc_tasks s))"

definition scan_failed :: "'row scan \<Rightarrow> bool" where
  "scan_failed s \<longleftrightarrow> (\<exists>e. sc_pc s = ScanDone (Err e))"

definition scan_inv :: "(token_range \<Rightarrow> 'row list) \<Rightarrow> token_range list \<Rightarrow> nat \<Rightarrow> 'row scan \<Rightarrow> bool" where
  "scan_inv R ranges concurrency s \<longleftrightarrow>
     sc_unacked s = sum_list (map rt_guards (sc_tasks s)) + sc_orphaned s \<and>
     (if scan_failed s then sc_tasks s = [] \<and> sc_completed s \<noteq> - 1
      else unat (sc_completed s) + tokens_left s = 2 ^ 64 - 1 \<and>
        mset (sc_sent s) + mset (sc_unsent s) + rows_left R s = sum_list (map (\<lambda>r. mset (R r)) ranges) \<and>
        sc_permits s + permits_used s = concurrency \<and>
        sc_orphaned s \<le> sum_list (map rt_guards (sc_failed s)) \<and>
        (\<forall>t\<in>set (sc_tasks s @ sc_failed s). 0 < unat (rt_length t)) \<and>
        (\<forall>r\<in>set (opened_range (sc_pc s) @ sc_ranges s). 0 < unat (range_length r)) \<and>
        (sc_pc s = JoiningTasks \<longrightarrow> sc_ranges s = []) \<and>
        (sc_pc s = ScanDone (Ok ()) \<longrightarrow> sc_ranges s = [] \<and> sc_tasks s = []))"

lemma opened_range_simps [simp]:
  "opened_range NextRange = []" "opened_range (OpeningRange r) = [r]" "opened_range JoiningTasks = []"
  "opened_range (ScanDone x) = []"
  by (simp_all add: opened_range_def)

lemma scan_inv_start:
  assumes "sum_list (map (\<lambda>r. unat (range_length r)) ranges) = 2 ^ 64 - 1" and "\<forall>r\<in>set ranges. 0 < unat (range_length r)"
  shows "scan_inv R ranges n (scan_new ranges n)"
  using assms by (simp add: scan_inv_def scan_failed_def scan_new_def tokens_left_def rows_left_def permits_used_def)

lemma not_failed_step: "\<not> scan_failed s \<Longrightarrow> \<not> scan_failed (update_task i f s)"
  by (simp add: scan_failed_def update_task_def)

text \<open>After the end the pipeline only drops the guards of tasks that do not run any more.\<close>

lemma ended_step:
  assumes "sc_pc s = ScanDone res" and "sc_tasks s = []" and "scan_step ev s = Some s'"
  shows "ev = AckOrphan \<and> 0 < sc_orphaned s \<and> s' = s\<lparr>sc_orphaned := sc_orphaned s - 1, sc_unacked := sc_unacked s - 1\<rparr>"
  using assms by (cases ev) (auto simp: vec_get_def split: list.splits option.splits if_splits)

text \<open>Replacing one task.\<close>

lemma scan_inv_update:
  assumes inv: "scan_inv R ranges n s" and ok: "\<not> scan_failed s" and i: "i < length (sc_tasks s)"
    and len: "rt_length (f (sc_tasks s ! i)) = rt_length (sc_tasks s ! i)"
    and rows: "mset sent + mset unsent + mset (rt_rows (f (sc_tasks s ! i))) =
      mset (sc_sent s) + mset (sc_unsent s) + mset (rt_rows (sc_tasks s ! i))"
    and permits: "p + of_bool (rt_permit (f (sc_tasks s ! i))) = sc_permits s + of_bool (rt_permit (sc_tasks s ! i))"
    and guards: "unacked + rt_guards (sc_tasks s ! i) = sc_unacked s + rt_guards (f (sc_tasks s ! i))"
    and s2: "s2 = update_task i f (s\<lparr>sc_sent := sent, sc_unsent := unsent, sc_permits := p, sc_unacked := unacked\<rparr>)"
  shows "scan_inv R ranges n s2"
proof -
  let ?t = "sc_tasks s ! i"
  have same: "sc_pc s2 = sc_pc s" "sc_ranges s2 = sc_ranges s" "sc_completed s2 = sc_completed s"
    "sc_tasks s2 = (sc_tasks s)[i := f ?t]" "sc_sent s2 = sent" "sc_unsent s2 = unsent" "sc_permits s2 = p"
    "sc_unacked s2 = unacked" "sc_failed s2 = sc_failed s" "sc_orphaned s2 = sc_orphaned s"
    by (simp_all add: s2 update_task_def)
  note inv = inv [unfolded scan_inv_def, simplified ok if_False]
  have "tokens_left s2 = tokens_left s"
    using sum_list_update [OF i, of "\<lambda>t. unat (rt_length t)" "f ?t"] len by (simp add: tokens_left_def same)
  moreover have "mset sent + mset unsent + rows_left R s2 = mset (sc_sent s) + mset (sc_unsent s) + rows_left R s"
  proof -
    let ?T = "sum_list (map (\<lambda>t. mset (rt_rows t)) (sc_tasks s))" and ?T' = "sum_list (map (\<lambda>t. mset (rt_rows t)) ((sc_tasks s)[i := f ?t]))"
    have "(mset sent + mset unsent) + ?T' + mset (rt_rows ?t) = (mset sent + mset unsent + mset (rt_rows (f ?t))) + ?T"
      using sum_list_update [OF i, of "\<lambda>t. mset (rt_rows t)" "f ?t"] by (simp add: add.assoc add.commute)
    also have "\<dots> = (mset (sc_sent s) + mset (sc_unsent s)) + ?T + mset (rt_rows ?t)"
      unfolding rows by (simp add: add.assoc add.commute)
    finally have "(mset sent + mset unsent) + ?T' = (mset (sc_sent s) + mset (sc_unsent s)) + ?T" by simp
    then show ?thesis
      by (simp add: rows_left_def same ac_simps)
  qed
  moreover have "p + permits_used s2 = sc_permits s + permits_used s"
    using sum_list_update [OF i, of "\<lambda>t. of_bool (rt_permit t) :: nat" "f ?t"] permits
    by (simp add: permits_used_def same)
  moreover have "sc_unacked s2 = sum_list (map rt_guards (sc_tasks s2)) + sc_orphaned s2"
    using sum_list_update [OF i, of rt_guards "f ?t"] guards inv by (simp add: same)
  moreover have "\<forall>t\<in>set (sc_tasks s2 @ sc_failed s2). 0 < unat (rt_length t)"
    using inv len i by (auto simp: same dest!: set_update_subset_insert [THEN subsetD])
  moreover have "sc_tasks s \<noteq> []" using i by auto
  moreover have "\<not> scan_failed s2" using ok by (simp add: scan_failed_def same)
  ultimately show ?thesis
    using inv by (simp add: scan_inv_def same)
qed

lemma unat_minus_one_u64: "unat (- 1 :: u64) = 2 ^ 64 - 1"
  by (simp add: unsigned_minus_1_eq_mask mask_eq_exp_minus_1)

lemma scan_inv_orphan:
  assumes "scan_inv R ranges n s" and "scan_step AckOrphan s = Some s'"
  shows "scan_inv R ranges n s'"
  using assms by (auto simp: scan_inv_def scan_failed_def tokens_left_def rows_left_def permits_used_def split: if_splits)

text \<open>A task that ends, with or without its length: its rows, tokens, permit and guards leave the tasks.\<close>

lemma drop_task_sums:
  assumes "i < length (sc_tasks s)"
  shows "sum_list (map (\<lambda>t. unat (rt_length t)) (drop_nth i (sc_tasks s))) + unat (rt_length (sc_tasks s ! i)) =
      sum_list (map (\<lambda>t. unat (rt_length t)) (sc_tasks s))"
    and "sum_list (map (\<lambda>t. mset (rt_rows t)) (drop_nth i (sc_tasks s))) + mset (rt_rows (sc_tasks s ! i)) =
      sum_list (map (\<lambda>t. mset (rt_rows t)) (sc_tasks s))"
    and "sum_list (map (\<lambda>t. of_bool (rt_permit t) :: nat) (drop_nth i (sc_tasks s))) + of_bool (rt_permit (sc_tasks s ! i)) =
      sum_list (map (\<lambda>t. of_bool (rt_permit t)) (sc_tasks s))"
    and "sum_list (map rt_guards (drop_nth i (sc_tasks s))) + rt_guards (sc_tasks s ! i) = sum_list (map rt_guards (sc_tasks s))"
  using sum_list_drop_nth [OF assms, of "\<lambda>t. unat (rt_length t)"] sum_list_drop_nth [OF assms, of "\<lambda>t. mset (rt_rows t)"]
    sum_list_drop_nth [OF assms, of "\<lambda>t. of_bool (rt_permit t) :: nat"] sum_list_drop_nth [OF assms, of rt_guards]
  by (simp_all add: add.commute)

lemma scan_inv_complete:
  assumes inv: "scan_inv R ranges n s" and ok: "\<not> scan_failed s" and step: "scan_step (CompleteRange i) s = Some s'"
  shows "scan_inv R ranges n s'"
proof -
  let ?t = "sc_tasks s ! i"
  have i: "i < length (sc_tasks s)" "rt_rows ?t = []" "\<not> rt_permit ?t" "rt_guards ?t = 0"
    "s' = s\<lparr>sc_completed := sc_completed s + rt_length ?t, sc_tasks := drop_nth i (sc_tasks s)\<rparr>"
    using step by (auto split: option.splits if_splits)
  note inv = inv [unfolded scan_inv_def, simplified ok if_False] and sums = drop_task_sums [OF i(1)]
  have "unat (sc_completed s) + unat (rt_length ?t) < 2 ^ 64"
    using inv sums(1) by (simp add: tokens_left_def)
  then have "unat (sc_completed s + rt_length ?t) = unat (sc_completed s) + unat (rt_length ?t)"
    by (simp add: unat_word_ariths(1))
  then have "unat (sc_completed s') + tokens_left s' = unat (sc_completed s) + tokens_left s"
    using sums(1) by (simp add: i(5) tokens_left_def)
  moreover have "rows_left R s' = rows_left R s" "permits_used s' = permits_used s"
    "sum_list (map rt_guards (sc_tasks s')) = sum_list (map rt_guards (sc_tasks s))"
    using sums(2-4) i(2-4) by (simp_all add: i(5) rows_left_def permits_used_def)
  moreover have "set (sc_tasks s') \<subseteq> set (sc_tasks s)" "sc_tasks s \<noteq> []"
    using set_drop_nth [of i "sc_tasks s"] i(1) by (auto simp: i(5))
  ultimately show ?thesis
    using inv ok by (auto simp: scan_inv_def scan_failed_def i(5))
qed

lemma scan_inv_task_fails:
  assumes inv: "scan_inv R ranges n s" and ok: "\<not> scan_failed s" and step: "scan_step (TaskFails i) s = Some s'"
  shows "scan_inv R ranges n s'"
proof -
  let ?t = "sc_tasks s ! i"
  have i: "i < length (sc_tasks s)"
    "s' = s\<lparr>sc_tasks := drop_nth i (sc_tasks s), sc_failed := sc_failed s @ [?t],
        sc_permits := sc_permits s + of_bool (rt_permit ?t), sc_orphaned := sc_orphaned s + rt_guards ?t\<rparr>"
    using step by (auto split: option.splits)
  note inv = inv [unfolded scan_inv_def, simplified ok if_False] and sums = drop_task_sums [OF i(1)]
  have "tokens_left s' = tokens_left s" "rows_left R s' = rows_left R s"
    using sums(1,2) [symmetric] by (simp_all add: i(2) tokens_left_def rows_left_def ac_simps)
  moreover have "sc_permits s' + permits_used s' = sc_permits s + permits_used s"
    "sum_list (map rt_guards (sc_tasks s')) + sc_orphaned s' = sum_list (map rt_guards (sc_tasks s)) + sc_orphaned s"
    using sums(3,4) by (simp_all add: i(2) permits_used_def)
  moreover have "set (sc_tasks s' @ sc_failed s') \<subseteq> set (sc_tasks s @ sc_failed s)" "sc_tasks s \<noteq> []"
    using set_drop_nth [of i "sc_tasks s"] i(1) by (auto simp: i(2))
  ultimately show ?thesis
    using inv ok by (auto simp: scan_inv_def scan_failed_def i(2))
qed

lemma scan_inv_running_step:
  assumes inv: "scan_inv R ranges n s" and ok: "\<not> scan_failed s" and faithful: "faithful R ev s" and step: "scan_step ev s = Some s'"
  shows "scan_inv R ranges n s'"
proof -
  note inv' = inv [unfolded scan_inv_def, simplified ok if_False]
  show ?thesis
  proof (cases ev)
    case TakeRange
    then show ?thesis
      using step inv' by (auto simp: scan_inv_def scan_failed_def tokens_left_def rows_left_def permits_used_def
          split: list.splits if_splits)
  next
    case (OpenRange rows)
    obtain r where r: "sc_pc s = OpeningRange r"
      using step OpenRange by (auto split: scan_pc.splits)
    show ?thesis
    proof (cases rows)
      case (Inl e)
      have "unat (sc_completed s) < unat (- 1 :: u64)"
        using inv' r by (simp add: tokens_left_def unat_minus_one_u64)
      then have "sc_completed s \<noteq> - 1" by auto
      then show ?thesis
        using step OpenRange Inl r inv' by (auto simp: scan_inv_def scan_failed_def)
    next
      case (Inr rs)
      then have "rs = R r" using faithful OpenRange r by (simp add: faithful_def)
      then show ?thesis
        using step inv' OpenRange Inr r
        by (auto simp: scan_inv_def scan_failed_def tokens_left_def rows_left_def permits_used_def ac_simps)
    qed
  next
    case (SendRow i received)
    let ?f = "\<lambda>t rows. t\<lparr>rt_rows := rows, rt_guards := rt_guards t + 1\<rparr>"
    obtain row rows where i: "i < length (sc_tasks s)" "rt_rows (sc_tasks s ! i) = row # rows"
      using step SendRow by (auto split: option.splits list.splits)
    show ?thesis
    proof (cases received)
      case True
      then show ?thesis
        using step SendRow i by (intro scan_inv_update [OF inv ok i(1), where f = "\<lambda>t. ?f t rows"
              and sent = "sc_sent s @ [row]" and unsent = "sc_unsent s" and p = "sc_permits s" and unacked = "sc_unacked s + 1"])
          (simp_all add: vec_get_def)
    next
      case False
      then show ?thesis
        using step SendRow i by (intro scan_inv_update [OF inv ok i(1), where f = "\<lambda>t. t\<lparr>rt_rows := rows\<rparr>"
              and sent = "sc_sent s" and unsent = "sc_unsent s @ [row]" and p = "sc_permits s" and unacked = "sc_unacked s"])
          (simp_all add: vec_get_def)
    qed
  next
    case (DropPermit i)
    then have i: "i < length (sc_tasks s)" "rt_permit (sc_tasks s ! i)"
      "s' = update_task i (\<lambda>t. t\<lparr>rt_permit := False\<rparr>) (s\<lparr>sc_permits := sc_permits s + 1\<rparr>)"
      using step by (auto split: option.splits if_splits)
    then show ?thesis
      by (intro scan_inv_update [OF inv ok i(1), where f = "\<lambda>t. t\<lparr>rt_permit := False\<rparr>"
            and sent = "sc_sent s" and unsent = "sc_unsent s" and p = "sc_permits s + 1" and unacked = "sc_unacked s"]) simp_all
  next
    case (AckRow i)
    then have i: "i < length (sc_tasks s)" "0 < rt_guards (sc_tasks s ! i)"
      "s' = update_task i (\<lambda>t. t\<lparr>rt_guards := rt_guards t - 1\<rparr>) (s\<lparr>sc_unacked := sc_unacked s - 1\<rparr>)"
      using step by (auto split: option.splits if_splits)
    have "0 < sc_unacked s"
      using inv' drop_task_sums(4) [OF i(1)] i(2) by simp
    then show ?thesis
      using i by (intro scan_inv_update [OF inv ok i(1), where f = "\<lambda>t. t\<lparr>rt_guards := rt_guards t - 1\<rparr>"
            and sent = "sc_sent s" and unsent = "sc_unsent s" and p = "sc_permits s" and unacked = "sc_unacked s - 1"]) simp_all
  next
    case (CompleteRange i)
    then show ?thesis using scan_inv_complete [OF inv ok] step by simp
  next
    case (TaskFails i)
    then show ?thesis using scan_inv_task_fails [OF inv ok] step by simp
  next
    case AckOrphan
    then show ?thesis using scan_inv_orphan [OF inv] step by simp
  next
    case JoinTasks
    then show ?thesis
      using step inv' by (auto simp: scan_inv_def scan_failed_def tokens_left_def rows_left_def permits_used_def split: if_splits)
  next
    case FinishScan
    then show ?thesis
      using step inv' by (auto simp: scan_inv_def scan_failed_def tokens_left_def rows_left_def permits_used_def split: if_splits)
  qed
qed

lemma scan_inv_step:
  assumes inv: "scan_inv R ranges n s" and faithful: "faithful R ev s" and step: "scan_step ev s = Some s'"
  shows "scan_inv R ranges n s'"
proof (cases "scan_failed s")
  case True
  then have "ev = AckOrphan"
    using ended_step [OF _ _ step] inv by (auto simp: scan_inv_def scan_failed_def)
  then show ?thesis using scan_inv_orphan [OF inv] step by simp
next
  case False
  then show ?thesis by (rule scan_inv_running_step [OF inv _ faithful step])
qed

lemma scan_reachable_inv:
  assumes "scan_reachable R ranges n s" and "sum_list (map (\<lambda>r. unat (range_length r)) ranges) = 2 ^ 64 - 1"
    and "\<forall>r\<in>set ranges. 0 < unat (range_length r)"
  shows "scan_inv R ranges n s"
  using assms(1) by induction (auto intro: scan_inv_start [OF assms(2,3)] scan_inv_step)

lemma sum_list_positive:
  "\<forall>x\<in>set xs. 0 < f x \<Longrightarrow> sum_list (map f xs) = (0 :: nat) \<longleftrightarrow> xs = []"
  by (cases xs) auto

lemma scan_inv_done:
  assumes "scan_inv R ranges n s"
  shows "sc_completed s = - 1 \<longleftrightarrow> \<not> scan_failed s \<and> opened_range (sc_pc s) @ sc_ranges s = [] \<and>
    sc_tasks s = [] \<and> sc_failed s = []"
proof (cases "scan_failed s")
  case True
  then show ?thesis using assms by (simp add: scan_inv_def)
next
  case False
  note inv = assms [unfolded scan_inv_def, simplified False if_False]
  have "sc_completed s = - 1 \<longleftrightarrow> unat (sc_completed s) = 2 ^ 64 - 1"
    by (metis unat_minus_one_u64 word_unat_eq_iff)
  also have "\<dots> \<longleftrightarrow> tokens_left s = 0"
    using inv by linarith
  also have "\<dots> \<longleftrightarrow> opened_range (sc_pc s) @ sc_ranges s = [] \<and> sc_tasks s @ sc_failed s = []"
    using sum_list_positive [of "sc_tasks s @ sc_failed s" "\<lambda>t. unat (rt_length t)"]
      sum_list_positive [of "opened_range (sc_pc s) @ sc_ranges s" "\<lambda>r. unat (range_length r)"] inv
    unfolding tokens_left_def by blast
  finally show ?thesis using False by simp
qed

lemma sum_list_mset: "sum_list (map (\<lambda>r. mset (R r)) xs) = mset (concat (map R xs))"
  by (induction xs) simp_all

text \<open>What a scan that returned without an error leaves.\<close>

lemma scan_inv_end:
  assumes "scan_inv R ranges n s" and "sc_pc s = ScanDone (Ok ())"
  shows "mset (sc_sent s) + mset (sc_unsent s) + mset (concat (map rt_rows (sc_failed s))) = mset (concat (map R ranges))"
    and "sc_unacked s \<le> sum_list (map rt_guards (sc_failed s))"
    and "sc_completed s = - 1 \<longleftrightarrow> sc_failed s = []"
proof -
  have ok: "\<not> scan_failed s" using assms(2) by (simp add: scan_failed_def)
  note inv = assms(1) [unfolded scan_inv_def, simplified ok if_False]
  have no_tasks: "sc_ranges s = []" "sc_tasks s = []" using inv assms(2) by simp_all
  show "mset (sc_sent s) + mset (sc_unsent s) + mset (concat (map rt_rows (sc_failed s))) = mset (concat (map R ranges))"
    using inv assms(2) no_tasks by (simp add: rows_left_def sum_list_mset)
  show "sc_unacked s \<le> sum_list (map rt_guards (sc_failed s))"
    using inv assms(2) by simp
  show "sc_completed s = - 1 \<longleftrightarrow> sc_failed s = []"
    using scan_inv_done [OF assms(1)] ok inv assms(2) by simp
qed

lemma progress_from_Done: "progress_from percentage v = Done \<longleftrightarrow> v = - 1"
  by (simp add: progress_from_def)

lemma length_filter_sum: "length (filter P xs) = sum_list (map (\<lambda>x. of_bool (P x)) xs)"
  by (induction xs) simp_all

section \<open>The scan ends\<close>

definition task_weight :: "'row range_task \<Rightarrow> nat" where
  "task_weight t = 2 * length (rt_rows t) + of_bool (rt_permit t) + rt_guards t + 1"

definition pc_weight :: "(token_range \<Rightarrow> 'row list) \<Rightarrow> scan_pc \<Rightarrow> nat" where
  "pc_weight R pc =
     (case pc of NextRange \<Rightarrow> 2 | OpeningRange r \<Rightarrow> 2 * length (R r) + 5 | JoiningTasks \<Rightarrow> 1 | ScanDone _ \<Rightarrow> 0)"

definition scan_weight :: "(token_range \<Rightarrow> 'row list) \<Rightarrow> 'row scan \<Rightarrow> nat" where
  "scan_weight R s =
     sum_list (map (\<lambda>r. 2 * length (R r) + 4) (sc_ranges s)) + sum_list (map task_weight (sc_tasks s)) + sc_orphaned s +
     pc_weight R (sc_pc s)"

lemma guards_weight: "sum_list (map rt_guards ts) \<le> sum_list (map task_weight ts)"
  by (induction ts) (simp_all add: task_weight_def)

lemma update_weight:
  assumes "i < length (sc_tasks s)" and "task_weight (f (sc_tasks s ! i)) < task_weight (sc_tasks s ! i)"
    and "sc_tasks s' = sc_tasks s" and "sc_ranges s' = sc_ranges s" and "sc_pc s' = sc_pc s"
    and "sc_orphaned s' = sc_orphaned s"
  shows "scan_weight R (update_task i f s') < scan_weight R s"
  using sum_list_update [OF assms(1), of task_weight "f (sc_tasks s ! i)"] assms(2-)
  by (simp add: scan_weight_def update_task_def)

lemma scan_step_weight:
  assumes "faithful R ev s" and "scan_step ev s = Some s'"
  shows "scan_weight R s' < scan_weight R s"
proof (cases ev)
  case TakeRange
  then show ?thesis
    using assms(2) by (auto simp: scan_weight_def pc_weight_def split: list.splits if_splits)
next
  case (OpenRange rows)
  then show ?thesis
    using assms guards_weight [of "sc_tasks s"]
    by (cases rows) (auto simp: scan_weight_def pc_weight_def task_weight_def faithful_def split: scan_pc.splits)
next
  case (SendRow i received)
  then show ?thesis
    using assms by (auto split: option.splits list.splits if_splits intro!: update_weight simp: task_weight_def)
next
  case (DropPermit i)
  then show ?thesis
    using assms by (auto split: option.splits if_splits intro!: update_weight simp: task_weight_def)
next
  case (AckRow i)
  then show ?thesis
    using assms by (auto split: option.splits if_splits intro!: update_weight simp: task_weight_def)
next
  case (CompleteRange i)
  then show ?thesis
    using assms sum_list_drop_nth [of i "sc_tasks s" task_weight]
    by (auto simp: scan_weight_def task_weight_def split: option.splits if_splits)
next
  case (TaskFails i)
  then show ?thesis
    using assms sum_list_drop_nth [of i "sc_tasks s" task_weight]
    by (auto simp: scan_weight_def task_weight_def split: option.splits if_splits)
next
  case AckOrphan
  then show ?thesis using assms by (auto simp: scan_weight_def split: if_splits)
next
  case JoinTasks
  then show ?thesis using assms by (auto simp: scan_weight_def pc_weight_def split: if_splits)
next
  case FinishScan
  then show ?thesis using assms by (auto simp: scan_weight_def pc_weight_def split: if_splits)
qed

text \<open>A task can always go on.\<close>

lemma task_enabled:
  assumes "i < length (sc_tasks s)"
  shows "\<exists>ev s'. faithful R ev s \<and> undisturbed ev \<and> scan_step ev s = Some s' \<and> ev \<in> {SendRow i True, DropPermit i, AckRow i, CompleteRange i}"
proof -
  let ?t = "sc_tasks s ! i"
  consider "rt_rows ?t \<noteq> []" | "rt_rows ?t = []" "rt_permit ?t" | "0 < rt_guards ?t"
    | "rt_rows ?t = []" "\<not> rt_permit ?t" "rt_guards ?t = 0"
    by blast
  then show ?thesis
  proof cases
    case 1
    then show ?thesis using assms by (intro exI [of _ "SendRow i True"]) (auto simp: faithful_def undisturbed_def vec_get_def split: list.split)
  next
    case 2
    then show ?thesis using assms by (intro exI [of _ "DropPermit i"]) (auto simp: faithful_def undisturbed_def vec_get_def)
  next
    case 3
    then show ?thesis using assms by (intro exI [of _ "AckRow i"]) (auto simp: faithful_def undisturbed_def vec_get_def)
  next
    case 4
    then show ?thesis using assms by (intro exI [of _ "CompleteRange i"]) (auto simp: faithful_def undisturbed_def vec_get_def)
  qed
qed

lemma scan_enabled:
  assumes inv: "scan_inv R ranges n s" and n: "0 < n" and run: "\<not> (\<exists>r. sc_pc s = ScanDone r)"
  shows "\<exists>ev s'. faithful R ev s \<and> undisturbed ev \<and> scan_step ev s = Some s'"
proof (cases "sc_pc s")
  case NextRange
  show ?thesis
  proof (cases "sc_ranges s")
    case Nil
    then show ?thesis using NextRange by (intro exI [of _ JoinTasks]) (simp add: faithful_def undisturbed_def)
  next
    case (Cons r rs)
    show ?thesis
    proof (cases "sc_permits s")
      case 0
      then have "permits_used s = n"
        using inv run by (auto simp: scan_inv_def scan_failed_def split: if_splits)
      then have "sc_tasks s \<noteq> []"
        using n NextRange by (auto simp: permits_used_def)
      then show ?thesis using task_enabled [of 0 s R] by blast
    next
      case (Suc k)
      then show ?thesis using NextRange Cons by (intro exI [of _ TakeRange]) (simp add: faithful_def undisturbed_def)
    qed
  qed
next
  case (OpeningRange r)
  then show ?thesis by (intro exI [of _ "OpenRange (Ok (R r))"]) (simp add: faithful_def undisturbed_def)
next
  case JoiningTasks
  show ?thesis
  proof (cases "sc_tasks s")
    case Nil
    then show ?thesis using JoiningTasks by (intro exI [of _ FinishScan]) (simp add: faithful_def undisturbed_def)
  next
    case (Cons t ts)
    then show ?thesis using task_enabled [of 0 s R] by auto
  qed
qed (use run in auto)

section \<open>Properties\<close>

text \<open>
  The ranges of a full scan partition the tokens. For a ring of distinct tokens in order, all
  above the least one (as the driver keeps it), even for an empty ring, the ranges are disjoint,
  in order, and together hold every token; their lengths sum to \<open>u64::MAX\<close> without wrapping.
\<close>

theorem fullscan_ranges_partition:
  assumes "token_new_ok token_new" and "ring_ok ring"
  shows "sorted_wrt (\<lambda>r s. snd r < fst s) (fullscan_ranges token_new ring) \<and>
    (\<Union>r\<in>set (fullscan_ranges token_new ring). {fst r..snd r}) = {TOKEN_MIN..TOKEN_MAX} \<and>
    sum_list (map (\<lambda>r. unat (range_length r)) (fullscan_ranges token_new ring)) = 2 ^ 64 - 1"
  using ring_ranges_sorted [OF ring_above_min [OF assms(2)]] ring_ranges_union [OF ring_above_min [OF assms(2)]]
    fullscan_length(1) [OF assms]
  by (simp add: fullscan_ranges_eq [OF assms] range_of_def)

text \<open>
  What the progress of a full scan promises. In every state of a scan of the whole ring, with
  any interleaving of the range tasks, of the acknowledgements and of failures: the progress is
  \<open>Done\<close> only when no task failed, exactly the rows of all ranges have been sent (or were lost on a
  receiver that is gone) and every row in the pipeline was acknowledged; a scan that returned without
  an error has the progress \<open>Done\<close> exactly when no task failed; and no more ranges than the limit
  are read at once.
\<close>

theorem scan_progress_exact:
  assumes "token_new_ok token_new" and "ring_ok ring"
    and "scan_reachable R (fullscan_ranges token_new ring) n s"
  shows "(progress_from percentage (sc_completed s) = Done \<longrightarrow>
       sc_failed s = [] \<and> mset (sc_sent s) + mset (sc_unsent s) = mset (concat (map R (fullscan_ranges token_new ring))) \<and>
       sc_unacked s = 0) \<and>
    (sc_pc s = ScanDone (Ok ()) \<longrightarrow> (progress_from percentage (sc_completed s) = Done \<longleftrightarrow> sc_failed s = [])) \<and>
    length (filter rt_permit (sc_tasks s)) \<le> n"
proof -
  have inv: "scan_inv R (fullscan_ranges token_new ring) n s"
    using scan_reachable_inv [OF assms(3)] fullscan_length [OF assms(1,2)] by blast
  note finished = scan_inv_done [OF inv]
  have "sc_failed s = [] \<and> mset (sc_sent s) + mset (sc_unsent s) = mset (concat (map R (fullscan_ranges token_new ring))) \<and>
      sc_unacked s = 0" if "sc_completed s = - 1"
    using inv finished that by (auto simp: scan_inv_def rows_left_def sum_list_mset)
  moreover note scan_inv_end(3) [OF inv]
  moreover have "length (filter rt_permit (sc_tasks s)) = sum_list (map (\<lambda>t. of_bool (rt_permit t)) (sc_tasks s))"
    by (rule length_filter_sum)
  ultimately show ?thesis
    using inv by (auto simp: progress_from_Done scan_inv_def permits_used_def split: if_splits)
qed

text \<open>
  C17: a full scan ends. Every step of the scan, also one that fails or loses a row, decreases a
  measure of the rows and guards that are left, and as long as the scan has not returned some step is
  enabled that needs no failure: the main loop or a task can go on, or the pipeline still has a row
  of a running task to acknowledge. So with a limit of at least one range, a scan whose rows are
  acknowledged returns after at most that many steps, in every schedule.
\<close>

theorem scan_terminates:
  assumes "token_new_ok token_new" and "ring_ok ring" and "0 < n"
    and "scan_reachable R (fullscan_ranges token_new ring) n s"
  shows "(\<forall>ev s'. faithful R ev s \<and> scan_step ev s = Some s' \<longrightarrow> scan_weight R s' < scan_weight R s) \<and>
    ((\<exists>r. sc_pc s = ScanDone r) \<or> (\<exists>ev s'. faithful R ev s \<and> undisturbed ev \<and> scan_step ev s = Some s'))"
proof -
  have "scan_inv R (fullscan_ranges token_new ring) n s"
    using scan_reachable_inv [OF assms(4)] fullscan_length [OF assms(1,2)] by blast
  then show ?thesis
    using scan_enabled [OF _ assms(3)] scan_step_weight by blast
qed

text \<open>The sleeps between the attempts double while they are below the limit.\<close>

lemma retry_loop_sleeps:
  "retry_loop (replicate k RetryableError @ Opened rows # rest) (100 * 2 ^ min j 8) =
     (map (\<lambda>i. 100 * 2 ^ min (j + i) 8) [0..<k], Some (Ok rows))"
proof (induction k arbitrary: j)
  case (Suc k)
  have next1: "(if 100 * 2 ^ min j 8 < RETRY_TIMEOUT_LIMIT then 100 * 2 ^ min j 8 * INCREASE_RATE else 100 * 2 ^ min j 8) =
      (100 * 2 ^ min (Suc j) 8 :: nat)"
  proof (cases "j < 8")
    case True
    then have "j \<in> {0, 1, 2, 3, 4, 5, 6, 7}" by auto
    then show ?thesis by (auto simp: RETRY_TIMEOUT_LIMIT_def INCREASE_RATE_def)
  qed (simp add: RETRY_TIMEOUT_LIMIT_def INCREASE_RATE_def)
  have "map (\<lambda>i. 100 * 2 ^ min (j + i) 8 :: nat) [0..<Suc k] =
      100 * 2 ^ min j 8 # map (\<lambda>i. 100 * 2 ^ min (Suc j + i) 8) [0..<k]"
    by (simp add: upt_conv_Cons map_Suc_upt [symmetric] comp_def del: upt_Suc)
  then show ?case
    using Suc [of "Suc j"] unfolding replicate_Suc append_Cons retry_loop.simps Let_def next1 by simp
qed simp

text \<open>
  The retries of a range. A range that fails \<open>k\<close> times with a retryable error is opened by the
  next attempt, after sleeps of 100 ms that double up to 25.6 s: the sleeps exceed
  \<open>RETRY_TIMEOUT_LIMIT\<close>, 16 s, because the limit is compared before the doubling.
\<close>

theorem retry_sleeps:
  "preform_range_scan (replicate k RetryableError @ Opened rows # rest) =
     (map (\<lambda>i. 100 * 2 ^ min i 8) [0..<k], Some (Ok rows)) \<and>
   RETRY_TIMEOUT_LIMIT < 100 * 2 ^ 8"
  using retry_loop_sleeps [of k rows rest 0]
  by (simp add: preform_range_scan_def START_RETRY_TIMEOUT_def RETRY_TIMEOUT_LIMIT_def)

section \<open>Witnesses\<close>

fun scan_steps :: "'row scan_event list \<Rightarrow> 'row scan \<Rightarrow> 'row scan option" where
  "scan_steps [] s = Some s"
| "scan_steps (ev # evs) s = Option.bind (scan_step ev s) (scan_steps evs)"

fun faithful_run :: "(token_range \<Rightarrow> 'row list) \<Rightarrow> 'row scan_event list \<Rightarrow> 'row scan \<Rightarrow> bool" where
  "faithful_run R [] s = True"
| "faithful_run R (ev # evs) s = (faithful R ev s \<and> (case scan_step ev s of None \<Rightarrow> True | Some s' \<Rightarrow> faithful_run R evs s'))"

lemma scan_steps_reachable:
  "scan_reachable R ranges n s \<Longrightarrow> faithful_run R evs s \<Longrightarrow> scan_steps evs s = Some s' \<Longrightarrow> scan_reachable R ranges n s'"
proof (induction evs arbitrary: s)
  case (Cons ev evs)
  then obtain s1 where "scan_step ev s = Some s1" "faithful R ev s" "faithful_run R evs s1" "scan_steps evs s1 = Some s'"
    by (auto simp: bind_eq_Some_conv)
  then show ?case using Cons.IH [of s1] scan_next [OF Cons.prems(1)] by blast
qed simp

definition example_token_new :: "int \<Rightarrow> token" where
  "example_token_new v = (if v = - (2 ^ 63) then 2 ^ 63 - 1 else v)"

lemma example_token_new_ok: "token_new_ok example_token_new"
  by (simp add: token_new_ok_def example_token_new_def)

text \<open>A ring of one token: two ranges, the second with one row.\<close>

lemma example_ring: "ring_ok [0]" "fullscan_ranges example_token_new [0] = [(TOKEN_MIN, - 1), (0, TOKEN_MAX)]"
proof -
  show ring: "ring_ok [0]" by (simp add: ring_ok_def TOKEN_MIN_def TOKEN_MAX_def)
  show "fullscan_ranges example_token_new [0] = [(TOKEN_MIN, - 1), (0, TOKEN_MAX)]"
    by (simp add: fullscan_ranges_eq [OF example_token_new_ok ring])
qed

definition example_rows :: "token_range \<Rightarrow> nat list" where
  "example_rows r = (if fst r = 0 then [7] else [])"

definition example_schedule :: "nat scan_event list" where
  "example_schedule =
     [TakeRange, OpenRange (Ok []), DropPermit 0, TakeRange, OpenRange (Ok [7]), SendRow 1 True, CompleteRange 0,
      DropPermit 0, JoinTasks, AckRow 0, CompleteRange 0, FinishScan]"

lemma example_scan:
  obtains s where "scan_reachable example_rows (fullscan_ranges example_token_new [0]) 1 s" and "sc_pc s = ScanDone (Ok ())"
    and "sc_sent s = [7]" and "sc_unsent s = []" and "sc_failed s = []"
proof -
  let ?s0 = "scan_new (fullscan_ranges example_token_new [0]) 1 :: nat scan"
  have run: "faithful_run example_rows example_schedule ?s0"
    "\<exists>s. scan_steps example_schedule ?s0 = Some s \<and> sc_pc s = ScanDone (Ok ()) \<and> sc_sent s = [7] \<and>
      sc_unsent s = [] \<and> sc_failed s = []"
    by (simp_all add: example_schedule_def example_ring(2) scan_new_def faithful_def example_rows_def vec_get_def update_task_def
        drop_nth_def TOKEN_MIN_def TOKEN_MAX_def)
  then show thesis
    using scan_steps_reachable [OF scan_start run(1)] that by blast
qed

text \<open>The same ring, but the task of the second range fails after its row is sent; its guard is still out.\<close>

definition failing_schedule :: "nat scan_event list" where
  "failing_schedule =
     [TakeRange, OpenRange (Ok []), DropPermit 0, TakeRange, OpenRange (Ok [7]), SendRow 1 True, CompleteRange 0,
      TaskFails 0, JoinTasks, FinishScan]"

lemma failing_scan:
  obtains s where "scan_reachable example_rows (fullscan_ranges example_token_new [0]) 1 s" and "sc_pc s = ScanDone (Ok ())"
    and "sc_failed s = [\<lparr>rt_rows = [], rt_permit = True, rt_length = 2 ^ 63, rt_guards = 1\<rparr>]" and "sc_unacked s = 1"
proof -
  let ?s0 = "scan_new (fullscan_ranges example_token_new [0]) 1 :: nat scan"
  have run: "faithful_run example_rows failing_schedule ?s0"
    "\<exists>s. scan_steps failing_schedule ?s0 = Some s \<and> sc_pc s = ScanDone (Ok ()) \<and>
      sc_failed s = [\<lparr>rt_rows = [], rt_permit = True, rt_length = 2 ^ 63, rt_guards = 1\<rparr>] \<and> sc_unacked s = 1"
    by (simp_all add: failing_schedule_def example_ring(2) scan_new_def faithful_def example_rows_def vec_get_def update_task_def
        drop_nth_def range_length_def i64_wrap_def TOKEN_MIN_def TOKEN_MAX_def)
  then show thesis
    using scan_steps_reachable [OF scan_start run(1)] that by blast
qed

theorem fullscan_ranges_partition_witness:
  "fullscan_ranges example_token_new [0] = [(TOKEN_MIN, - 1), (0, TOKEN_MAX)] \<and>
   sum_list (map (\<lambda>r. unat (range_length r)) [(TOKEN_MIN, - 1), (0, TOKEN_MAX)]) = 2 ^ 64 - 1"
  using fullscan_ranges_partition [OF example_token_new_ok example_ring(1)] unfolding example_ring(2) by blast

theorem scan_progress_exact_witness:
  "\<exists>s. scan_reachable example_rows (fullscan_ranges example_token_new [0]) 1 s \<and> sc_pc s = ScanDone (Ok ()) \<and>
     progress_from (\<lambda>_. 0) (sc_completed s) = Done \<and> mset (sc_sent s) = {#7#} \<and> sc_unacked s = 0"
proof -
  obtain s where s: "scan_reachable example_rows (fullscan_ranges example_token_new [0]) 1 s" "sc_pc s = ScanDone (Ok ())"
    "sc_sent s = [7]" "sc_unsent s = []" "sc_failed s = []"
    by (rule example_scan)
  show ?thesis
    using scan_progress_exact [OF example_token_new_ok example_ring(1) s(1)] s by auto
qed

theorem scan_terminates_witness:
  "\<exists>ev s'. faithful example_rows ev (scan_new (fullscan_ranges example_token_new [0]) 1) \<and> undisturbed ev \<and>
     scan_step ev (scan_new (fullscan_ranges example_token_new [0]) 1) = Some s' \<and>
     scan_weight example_rows s' < scan_weight example_rows (scan_new (fullscan_ranges example_token_new [0]) 1)"
proof -
  have "\<not> (\<exists>r. sc_pc (scan_new (fullscan_ranges example_token_new [0]) 1) = ScanDone r)"
    by (simp add: scan_new_def)
  then show ?thesis
    using scan_terminates [OF example_token_new_ok example_ring(1) zero_less_one scan_start, of example_rows] by blast
qed

end
