(* ===== verification/Table_Schema.thy ===== *)
theory Table_Schema
  imports Monitor_Correct Table_New
begin

text \<open>
  The schema of a table: the indexes it knows, the columns each of them stores and their types.
  \<open>Table::new\<close> fixes it; the lemmas show that no operation changes it, whatever its outcome (a
  success, an error or a panic half way), so that a value that fits a column fits it for the life
  of the table.
\<close>

section \<open>The schema of an index\<close>

named_theorems schema_simps \<open>operations that keep the schema\<close>

definition data_columns :: "index_data \<Rightarrow> column_name list" where
  "data_columns data = (case data of Global \<Rightarrow> [] | Local li \<Rightarrow> li_nonpk_partition_key_columns li)"

definition index_columns :: "index \<Rightarrow> column_name list" where
  "index_columns ix = data_columns (ix_data ix) @ ix_filtering_columns ix"

lemma index_columns_eq: "index_columns ix = nonpk_partition_key_columns ix @ ix_filtering_columns ix"
  by (simp add: index_columns_def data_columns_def nonpk_partition_key_columns_def)

lemma resize_ids_columns [schema_simps]: "data_columns (resize_ids n data) = data_columns data"
  by (cases data) (simp_all add: data_columns_def)

lemma resize_primary_ids_with_columns [schema_simps]:
  "index_columns (snd (resize_primary_ids_with n ix)) = index_columns ix"
  by (simp add: resize_primary_ids_with_def index_columns_def Let_def schema_simps split: sum.split)

lemma resize_partition_ids_columns [schema_simps]:
  "index_columns (snd (resize_partition_ids ix)) = index_columns ix"
  by (simp add: resize_partition_ids_def resize_partition_ids_local_def index_columns_def data_columns_def Let_def
      split: index_data.split sum.split prod.split)

lemma create_partition_columns [schema_simps]:
  "data_columns (snd (create_partition key data)) = data_columns data"
  by (cases data) (simp_all add: create_partition_local_def data_columns_def Let_def
      split: sum.split prod.split option.split)

lemma remove_row_columns [schema_simps]:
  "data_columns (snd (remove_row_from_partition p q data)) = data_columns data"
  by (cases data) (simp_all add: remove_row_local_def data_columns_def Let_def
      split: prod.split option.split)

lemma insert_row_columns [schema_simps]:
  "data_columns (insert_row_into_partition p q data) = data_columns data"
  by (cases data) (simp_all add: insert_row_local_def data_columns_def Let_def split: option.split)

lemma update_work_new_columns [schema_simps]:
  "data_columns (w_data (snd (update_work_new pp c n w))) = data_columns (w_data w)"
  using create_partition_columns [of _ "w_data w"]
  by (cases pp) (auto split: sum.split prod.split simp del: create_partition.simps, (metis snd_conv)+)

lemma apply_work_columns [schema_simps]:
  "data_columns (snd (apply_work work cur_id new_id vs data)) = data_columns data"
proof -
  have removed: "data_columns data' = data_columns data" if "remove_row_from_partition p q data = (b, data')" for p q b data'
    using remove_row_columns [of p q data] that by simp
  show ?thesis
    by (cases work) (auto simp: remove_row_def insert_row_columns dest!: removed split: prod.split option.split
        simp del: remove_row_from_partition.simps insert_row_into_partition.simps)
qed

lemma update_index_columns [schema_simps]:
  "index_columns (snd (update_index p pp vs tss ix)) = index_columns ix"
proof -
  have work: "data_columns (w_data w') = data_columns (w_data w)" if "update_work_new pp c n w = (r, w')" for c n w r w'
    using update_work_new_columns [of pp c n w] that by simp
  have applied: "data_columns data' = data_columns data" if "apply_work wk a b v data = (ops, data')" for wk a b v data ops data'
    using apply_work_columns [of wk a b v data] that by simp
  show ?thesis
    by (auto simp: update_index_def index_columns_def Let_def dest!: work applied
        split: option.split sum.split prod.split simp del: update_work_new.simps apply_work.simps)
qed

section \<open>The schema of a table\<close>

definition same_columns :: "table \<Rightarrow> table \<Rightarrow> bool" where
  "same_columns t t' \<longleftrightarrow>
     t_index_ids t' = t_index_ids t \<and>
     (\<forall>x. map_option index_columns (bt_get (t_indexes t') x) = map_option index_columns (bt_get (t_indexes t) x)) \<and>
     (\<forall>name. map_option col_type (bt_get (t_columns t') name) = map_option col_type (bt_get (t_columns t) name))"

lemma same_columns_refl [simp]: "same_columns t t"
  by (simp add: same_columns_def)

lemma same_columns_trans [trans]: "same_columns t t1 \<Longrightarrow> same_columns t1 t2 \<Longrightarrow> same_columns t t2"
  by (simp add: same_columns_def)

lemma same_columns_index:
  assumes "same_columns t t'" and "bt_get (t_indexes t) x = Some ix"
  obtains ix' where "bt_get (t_indexes t') x = Some ix'" and "index_columns ix' = index_columns ix"
proof -
  have "map_option index_columns (bt_get (t_indexes t') x) = Some (index_columns ix)"
    using assms by (simp add: same_columns_def)
  then show thesis using that by (auto simp: map_option_eq_Some)
qed

lemma same_columns_column:
  assumes "same_columns t t'" and "bt_get (t_columns t) name = Some col"
  obtains col' where "bt_get (t_columns t') name = Some col'" and "col_type col' = col_type col"
proof -
  have "map_option col_type (bt_get (t_columns t') name) = Some (col_type col)"
    using assms by (simp add: same_columns_def)
  then show thesis using that by (auto simp: map_option_eq_Some)
qed

lemma try_for_each_keeps:
  assumes "\<forall>v. g (snd (f v)) = g v"
  shows "map_option g (bt_get (snd (bt_try_for_each f m)) x) = map_option g (bt_get m x)"
  using assms
proof (induction f m rule: bt_try_for_each.induct)
  case (2 f k v m)
  have "g v' = g v" if "f v = (r, v')" for r v'
    using "2.prems" that by (metis snd_conv)
  with 2 show ?case
    by (auto simp: bt_get_def split: prod.splits sum.splits)
qed simp

lemma resized_columns:
  "map_option col_type (bt_get (bt_map (column_resize_with n) columns) name) = map_option col_type (bt_get columns name)"
  by (simp add: option.map_comp comp_def)

lemma reserve_primary_ids_schema: "same_columns t (snd (reserve_primary_ids t))"
proof -
  have "map_option index_columns (bt_get ixs x) = map_option index_columns (bt_get m x)"
    if "bt_try_for_each (resize_primary_ids_with n) m = (r, ixs)" for n r x and m ixs :: "(index_id, index) btree"
    using try_for_each_keeps [of index_columns "resize_primary_ids_with n" m x] that
    by (simp add: resize_primary_ids_with_columns)
  then show ?thesis
    by (auto simp: reserve_primary_ids_def same_columns_def Let_def resized_columns simp del: bt_get_map split: prod.split)
qed

lemma reserve_partition_ids_schema: "same_columns t (snd (reserve_partition_ids t))"
  using try_for_each_keeps [of index_columns resize_partition_ids "t_indexes t"]
  by (auto simp: resize_partition_ids_columns reserve_partition_ids_def same_columns_def split: prod.split)

lemma add_primary_key_schema: "same_columns t (snd (add_primary_key d key t))"
  by (simp add: add_primary_key_def same_columns_def Let_def split: sum.split option.split prod.split)

lemma update_columns_types:
  "map_option col_type (bt_get (snd (update_columns p names vals columns)) name) = map_option col_type (bt_get columns name)"
proof (induction p names vals columns rule: update_columns.induct)
  case (1 p nm names t val vals columns)
  show ?case
  proof (cases "bt_get columns nm")
    case (Some col)
    show ?thesis
    proof (cases "column_write p t val col")
      case (Inr col')
      then show ?thesis
        using Some "1.IH" [OF Some Inr [folded column_write_case]] column_write_cells(2) [OF Inr]
        by (simp add: column_write_case)
    qed (simp add: Some column_write_case)
  qed simp
qed simp_all

lemma update_row_schema:
  assumes "bt_get (t_indexes t) x = Some ix"
  shows "same_columns t (snd (update_row x p names vals v tss ix t))"
proof -
  have types: "map_option col_type (bt_get columns name) = map_option col_type (bt_get (t_columns t) name)"
    if "update_columns p names vals (t_columns t) = (r, columns)" for r columns name
    using update_columns_types [of p names vals "t_columns t" name] that by simp
  have ixs: "index_columns ix' = index_columns ix" if "update_index p pp v tss ix = (r, ix')" for pp r ix'
    using update_index_columns [of p pp v tss ix] that by simp
  show ?thesis
    using assms by (auto simp: update_row_def same_columns_def Let_def types ixs split: prod.split sum.split)
qed

lemma upsert_schema: "same_columns t (snd (upsert d key pk vals t))"
proof -
  obtain r1 t1 r2 t2 r3 t3 where run: "reserve_primary_ids t = (r1, t1)" "reserve_partition_ids t1 = (r2, t2)"
    "add_primary_key d pk t2 = (r3, t3)"
    by fastforce
  have "same_columns t t1" "same_columns t1 t2" "same_columns t2 t3"
    using reserve_primary_ids_schema [of t] reserve_partition_ids_schema [of t1] add_primary_key_schema [of t2 d pk]
    by (simp_all add: run)
  then have "same_columns t t2" "same_columns t t3"
    by (meson same_columns_trans)+
  then show ?thesis
    using \<open>same_columns t t1\<close> same_columns_trans [OF _ update_row_schema, of t t3]
    by (simp add: upsert_def run split: sum.split option.split)
qed

lemma delete_schema: "same_columns t (snd (delete d key pk timestamp t))"
proof -
  obtain r1 t1 where run: "add_primary_key d pk t = (r1, t1)" by fastforce
  have "same_columns t t1"
    using add_primary_key_schema [of t d pk] by (simp add: run)
  then show ?thesis
    using same_columns_trans [OF _ update_row_schema, of t t1]
    by (simp add: delete_def run split: sum.split option.split)
qed

lemma row_answer_schema: "same_columns t (snd (row_answer d key row t))"
  by (simp add: row_answer_def upsert_schema delete_schema split: db_indexed_operation.split)

lemma monitor_row_schema: "same_columns (mo_table mo) (mo_table (snd (monitor_row d D key row mo)))"
proof -
  obtain r pr where row: "row = (r, pr)" by fastforce
  have "mo_table (snd (monitor_apply D pr answer mo)) = snd answer" for answer
    by (simp add: monitor_apply_def Let_def split: prod.split sum.split error.split)
  then show ?thesis
    by (simp add: row monitor_row_answer row_answer_schema)
qed

lemma monitor_run_schema: "same_columns (mo_table mo) (mo_table (snd (monitor_run d D key rows mo)))"
proof (induction rows arbitrary: mo)
  case (Cons row rows)
  obtain r mo1 where row: "monitor_row d D key row mo = (r, mo1)" by fastforce
  then have "same_columns (mo_table mo) (mo_table mo1)"
    using monitor_row_schema [of mo d D key row] by simp
  then show ?case
    using same_columns_trans [OF _ Cons.IH [of mo1]]
    by (simp add: row split: sum.split dispatch_status.split)
qed simp

section \<open>The schema a table is created with\<close>

definition stored_names :: "column_name list \<Rightarrow> column_name list option \<Rightarrow> column_name list \<Rightarrow> column_name list" where
  "stored_names pk partition_columns filtering =
     (case partition_columns of Some cols \<Rightarrow> filter (\<lambda>col. col \<notin> set pk) cols | None \<Rightarrow> []) @ filtering"

lemma value_columns_types:
  assumes "value_columns types (key_columns pk) names = Ok kvs" and "name \<in> set names" and "name \<notin> set pk"
  shows "\<exists>col. bt_get (bt_extend kvs (key_columns pk)) name = Some col \<and> col_type col \<noteq> None \<and> col_type col = types name"
proof -
  let ?names = "filter (\<lambda>name. \<not> bt_contains (key_columns pk) name) names"
  note c = assms(1) [unfolded value_columns_def]
  have nth: "fst (kvs ! i) = ?names ! i \<and> col_type (snd (kvs ! i)) \<noteq> None \<and> col_type (snd (kvs ! i)) = types (?names ! i)"
    if "i < length ?names" for i
    using collect_result_nth [OF c that] by (cases "kvs ! i") (auto simp: result_simps dest: col_inv_new)
  have "name \<in> set ?names"
    using assms(2,3) key_columns_contains [of pk name] by simp
  then obtain i where i: "i < length ?names" "?names ! i = name"
    unfolding in_set_conv_nth by blast
  then have "name \<in> fst ` set kvs"
    using nth [OF i(1)] collect_result_length [OF c] by (metis image_eqI nth_mem)
  then obtain col where col: "map_of (rev kvs) name = Some col"
    by (cases "map_of (rev kvs) name") (auto simp: map_of_eq_None_iff)
  then have "(name, col) \<in> set kvs" by (auto dest: map_of_SomeD)
  then obtain j where j: "j < length kvs" "kvs ! j = (name, col)" by (auto simp: in_set_conv_nth)
  then have "col_type col \<noteq> None \<and> col_type col = types name"
    using nth [of j] collect_result_length [OF c] by (metis fst_conv snd_conv)
  moreover have "bt_get (bt_extend kvs (key_columns pk)) name = Some col"
    using col by (simp add: bt_get_extend)
  ultimately show ?thesis by blast
qed

lemma table_new_columns:
  assumes "table_new key pk n partition_columns target filtering types = Ok t"
  obtains x ix where "bt_get (t_index_ids t) key = Some x" and "bt_get (t_indexes t) x = Some ix"
    and "index_columns ix = stored_names pk partition_columns filtering"
    and "\<And>name. name \<in> set (stored_names pk partition_columns filtering) \<Longrightarrow> name \<notin> set pk \<Longrightarrow>
           \<exists>col. bt_get (t_columns t) name = Some col \<and> col_type col \<noteq> None \<and> col_type col = types name"
proof -
  obtain x g where gen: "generator_next (partition_columns = None) generator_new = (Ok x, g)"
    using generator_first .
  let ?ix = "index_new x pk partition_columns target filtering"
  let ?names = "(case partition_columns of Some cols \<Rightarrow> cols | None \<Rightarrow> []) @ filtering"
  obtain kvs where kvs: "value_columns types (key_columns pk) ?names = Ok kvs"
    using assms by (auto simp: table_new_unfold [OF gen] result_simps split: if_splits)
  define t0 where "t0 = bare_table key n (list_ex (\<lambda>col. types col = Some NT_Decimal) (drop n pk))
      (bt_extend kvs (key_columns pk)) g x ?ix"
  obtain t1 where t1: "reserve_primary_ids t0 = (Ok (), t1)" "reserve_partition_ids t1 = (Ok (), t)"
    using assms by (auto simp: table_new_unfold [OF gen] kvs t0_def split: if_splits prod.splits sum.splits)
  have "same_columns t0 t"
    using same_columns_trans [OF reserve_primary_ids_schema [of t0], of t] reserve_partition_ids_schema [of t1]
    by (simp add: t1)
  then have same: "t_index_ids t = t_index_ids t0"
      "map_option index_columns (bt_get (t_indexes t) x) = map_option index_columns (bt_get (t_indexes t0) x)"
      "\<And>name. map_option col_type (bt_get (t_columns t) name) = map_option col_type (bt_get (t_columns t0) name)"
    by (simp_all add: same_columns_def)
  have t0: "bt_get (t_index_ids t0) key = Some x" "bt_get (t_indexes t0) x = Some ?ix"
      "t_columns t0 = bt_extend kvs (key_columns pk)"
    by (simp_all add: t0_def bare_table_def bt_get_def)
  then obtain ix where ix: "bt_get (t_indexes t) x = Some ix" "index_columns ix = index_columns ?ix"
    using same(2) by (auto simp: map_option_case split: option.splits)
  have "index_columns ?ix = stored_names pk partition_columns filtering"
    by (simp add: index_columns_def data_columns_def index_new_def index_new_local_def index_new_global_def
        stored_names_def split: option.split)
  moreover have "\<exists>col. bt_get (t_columns t) name = Some col \<and> col_type col \<noteq> None \<and> col_type col = types name"
    if "name \<in> set (stored_names pk partition_columns filtering)" "name \<notin> set pk" for name
  proof -
    have "name \<in> set ?names" using that(1) by (auto simp: stored_names_def split: option.splits)
    from value_columns_types [OF kvs this that(2)] show ?thesis
      using same(3) [of name] t0(3) by (auto simp: map_option_case split: option.splits)
  qed
  ultimately show thesis
    using that [of x ix] t0(1) same(1) ix by simp
qed

end
