(* ===== verification/Db_Rows_Correct.thy ===== *)
theory Db_Rows_Correct
  imports Db_Rows Table_Schema
begin

text \<open>
  Correctness of the row decoding. The encoding of an embedding as a tagged sequence of big-endian
  floats is inverted exactly; the recursive walk over the chunks is the plain layout of a row (the
  key, then pairs of a value and its write time); and a row that conforms to the schema of the
  base table decodes to a row that every table built from the same schema accepts.
\<close>

section \<open>Embeddings\<close>

definition f32_to_be_bytes :: "u32 \<Rightarrow> u8 list" where
  "f32_to_be_bytes f = rev (to_le f)"

definition vector_blob :: "vector \<Rightarrow> u8 list" where
  "vector_blob v = ALTERNATOR_TYPE_FLOAT32VECTOR # concat (map f32_to_be_bytes v)"

lemma length_f32_to_be_bytes [simp]: "length (f32_to_be_bytes f) = 4"
  by (simp add: f32_to_be_bytes_def)

lemma f32_from_to_be_bytes [simp]: "f32_from_be_bytes (f32_to_be_bytes f) = f"
  by (simp add: f32_from_be_bytes_def f32_to_be_bytes_def)

lemma f32_to_from_be_bytes: "length bs = 4 \<Longrightarrow> f32_to_be_bytes (f32_from_be_bytes bs) = bs"
  by (simp add: f32_from_be_bytes_def f32_to_be_bytes_def to_le_from_le)

lemma list4: "length bs = 4 \<longleftrightarrow> (\<exists>a b c d. bs = [a, b, c, d])"
  by (auto simp: numeral_eq_Suc length_Suc_conv)

lemma chunks4_append: "length c = 4 \<Longrightarrow> chunks4 (c @ bytes) = (c # fst (chunks4 bytes), snd (chunks4 bytes))"
  by (auto simp: list4 split: prod.split)

lemma chunks4_concat: "list_all (\<lambda>c. length c = 4) cs \<Longrightarrow> chunks4 (concat cs) = (cs, [])"
  by (induction cs) (simp_all add: chunks4_append)

lemma chunks4_inverse: "chunks4 bytes = (cs, r) \<Longrightarrow> list_all (\<lambda>c. length c = 4) cs \<and> bytes = concat cs @ r \<and> length r < 4"
  by (induction bytes arbitrary: cs r rule: chunks4.induct) (auto split: prod.splits)

lemma vector_binary_iff:
  "parse_alternator_vector_binary bytes = Ok v \<longleftrightarrow> bytes = concat (map f32_to_be_bytes v)"
proof
  assume parse: "parse_alternator_vector_binary bytes = Ok v"
  then obtain cs where cs: "chunks4 bytes = (cs, [])" "v = map f32_from_be_bytes cs"
    by (auto simp: parse_alternator_vector_binary_def split: prod.splits if_splits)
  then have "list_all (\<lambda>c. length c = 4) cs" "bytes = concat cs"
    using chunks4_inverse [OF cs(1)] by simp_all
  moreover have "map (f32_to_be_bytes \<circ> f32_from_be_bytes) cs = cs"
    using calculation(1) by (intro map_idI) (simp add: list_all_iff f32_to_from_be_bytes)
  ultimately show "bytes = concat (map f32_to_be_bytes v)"
    by (simp add: cs(2))
next
  assume "bytes = concat (map f32_to_be_bytes v)"
  then show "parse_alternator_vector_binary bytes = Ok v"
    using chunks4_concat [of "map f32_to_be_bytes v"]
    by (simp add: parse_alternator_vector_binary_def list_all_iff comp_def)
qed

section \<open>The layout of a row\<close>

lemma transpose_opt_Ok:
  "transpose_opt f o1 = Ok r \<longleftrightarrow> (case o1 of None \<Rightarrow> r = None | Some x \<Rightarrow> (\<exists>y. f x = Ok y \<and> r = Some y))"
  by (cases o1) (auto simp: result_simps)

text \<open>Cell \<open>i\<close>: what columns \<open>2 i\<close> and \<open>2 i + 1\<close> say.\<close>

definition parse_pair ::
  "decoders \<Rightarrow> timestamp \<Rightarrow> nat \<Rightarrow> index_kind \<Rightarrow> native_type option list \<Rightarrow> db_value option list \<Rightarrow> nat \<Rightarrow> nat \<Rightarrow>
   db_indexed_value timestamped result" where
  "parse_pair D default_timestamp len kind decode_types columns idx i =
     and_then (parse_cell D kind len decode_types (idx + i) (columns ! (2 * i))) (\<lambda>v.
     and_then (parse_writetime default_timestamp (columns ! (2 * i + 1))) (\<lambda>ts. Ok (timestamped_new ts v)))"

lemma parse_chunks_iff:
  "parse_chunks D dt len kind types idx columns = Ok vs \<longleftrightarrow>
     length columns = 2 * length vs \<and> (\<forall>i<length vs. parse_pair D dt len kind types columns idx i = Ok (vs ! i))"
proof (induction D dt len kind types idx columns arbitrary: vs rule: parse_chunks.induct)
  case (2 D dt len kind types idx x)
  then show ?case by (auto simp: result_simps)
next
  case (3 D dt len kind types idx x wt columns)
  show ?case
  proof (cases vs)
    case Nil
    then show ?thesis by (auto simp: result_simps)
  next
    case (Cons w ws)
    have pair0: "parse_pair D dt len kind types (x # wt # columns) idx 0 = Ok w \<longleftrightarrow>
        (\<exists>v ts. parse_cell D kind len types idx x = Ok v \<and> parse_writetime dt wt = Ok ts \<and> w = timestamped_new ts v)"
      by (auto simp: parse_pair_def result_simps)
    have pairS: "parse_pair D dt len kind types (x # wt # columns) idx (Suc i) =
        parse_pair D dt len kind types columns (Suc idx) i" for i
      by (simp add: parse_pair_def)
    have "parse_chunks D dt len kind types idx (x # wt # columns) = Ok vs \<longleftrightarrow>
        parse_pair D dt len kind types (x # wt # columns) idx 0 = Ok w \<and>
        parse_chunks D dt len kind types (Suc idx) columns = Ok ws"
      unfolding pair0 by (auto simp: result_simps Cons)
    then show ?thesis
      by (auto simp: "3.IH" Cons pairS less_Suc_eq_0_disj)
  qed
qed auto

lemma primary_key_loop_iff:
  "primary_key_loop columns n buf = Ok (Some key) \<longleftrightarrow>
     (\<exists>vs. columns = map (Some \<circ> DbValueCql) vs \<and> from_iter_loop vs n buf = Ok key)"
proof (induction columns n buf rule: primary_key_loop.induct)
  case (2 v columns n buf)
  have cons: "(\<exists>vs. Some (DbValueCql v) # columns = map (Some \<circ> DbValueCql) vs \<and> P vs) \<longleftrightarrow>
      (\<exists>ws. columns = map (Some \<circ> DbValueCql) ws \<and> P (v # ws))" for P
    by (auto simp: Cons_eq_map_conv)
  show ?case
    unfolding cons by (cases "encode_value v") (simp_all add: 2 comp_def)
qed auto

lemma parse_primary_key_iff:
  assumes "length columns \<le> MAX_COLUMNS"
  shows "parse_primary_key columns = Ok (Some key) \<longleftrightarrow>
    (\<exists>vs. columns = map (Some \<circ> DbValueCql) vs \<and> ik_from_iter vs = Ok key)"
  using assms by (auto simp: parse_primary_key_def primary_key_loop_iff ik_from_iter_def)

text \<open>
  The layout a scanned row has: the primary key, then for each target, partition-key and filtering
  column its value and its write time.
\<close>

definition scan_cells :: "decoders \<Rightarrow> statements \<Rightarrow> db_value option list \<Rightarrow> db_indexed_value timestamped list \<Rightarrow> bool" where
  "scan_cells D st row values \<longleftrightarrow>
     length values = length (st_target_columns st) + length (st_nonpk_partition_key_columns st) +
       length (st_filtering_columns st) \<and>
     (\<forall>i<length values. parse_pair D Timestamp_MIN (length (st_target_columns st)) (st_kind st) (st_alternator_decode_types st)
        (drop (length (st_primary_key_columns st)) row) 0 i = Ok (values ! i))"

lemma parse_values_iff:
  assumes "0 < len"
  shows "parse_values D columns dt len kind types = Ok values \<longleftrightarrow>
    len \<le> length values \<and> length columns = 2 * length values \<and>
    (\<forall>i<length values. parse_pair D (case dt of Some t \<Rightarrow> t | None \<Rightarrow> Timestamp_MIN) len kind types columns 0 i = Ok (values ! i))"
proof -
  let ?dt = "case dt of Some t \<Rightarrow> t | None \<Rightarrow> Timestamp_MIN"
  have "parse_values D columns dt len kind types = Ok values \<longleftrightarrow>
      len \<le> length values \<and> parse_chunks D ?dt len kind types 0 columns = Ok values"
    using assms by (cases "parse_chunks D ?dt len kind types 0 columns") (auto simp: parse_values_def Let_def)
  then show ?thesis by (simp add: parse_chunks_iff)
qed

lemma scan_row_iff:
  assumes "st_target_columns st \<noteq> []" and "length (st_primary_key_columns st) \<le> MAX_COLUMNS"
  shows "scan_row D st row = Ok (Some r) \<longleftrightarrow>
    length row = columns_len_expected st \<and>
    (\<exists>vs values. take (length (st_primary_key_columns st)) row = map (Some \<circ> DbValueCql) vs \<and>
       ik_from_iter vs = Ok (row_primary_key r) \<and> scan_cells D st row values \<and>
       r = \<lparr>row_primary_key = row_primary_key r, row_operation = DbUpsert values\<rparr>)"
proof -
  let ?np = "length (st_primary_key_columns st)" and ?len = "length (st_target_columns st)"
  let ?cols = "drop ?np row"
  have cells: "length row = columns_len_expected st \<Longrightarrow>
      parse_values D ?cols None ?len (st_kind st) (st_alternator_decode_types st) = Ok vs \<longleftrightarrow> scan_cells D st row vs" for vs
    using assms(1) by (auto simp: parse_values_iff scan_cells_def columns_len_expected_def)
  have key: "parse_primary_key (take ?np row) = Ok (Some k) \<longleftrightarrow>
      (\<exists>vs. take ?np row = map (Some \<circ> DbValueCql) vs \<and> ik_from_iter vs = Ok k)" for k
    using assms(2) by (intro parse_primary_key_iff) simp
  show ?thesis
  proof (cases "length row = columns_len_expected st")
    case True
    show ?thesis
    proof (cases "parse_values D ?cols None ?len (st_kind st) (st_alternator_decode_types st)")
      case (Inl e)
      then have "\<not> scan_cells D st row vs" for vs using cells [OF True, of vs] by simp
      with Inl True show ?thesis by (cases e) (simp_all add: scan_row_def)
    next
      case (Inr values0)
      then have "scan_cells D st row vs \<longleftrightarrow> vs = values0" for vs using cells [OF True, of vs] by auto
      with Inr True show ?thesis
        using key by (cases r) (auto simp: scan_row_def result_simps)
    qed
  qed (simp add: scan_row_def)
qed

section \<open>Types\<close>

text \<open>
  What the driver documents: a value deserialised as a native type has that type, or is the empty
  value; it is well formed, and its size is that of the bytes it was read from.
\<close>

definition fits_type :: "native_type \<Rightarrow> cql_value \<Rightarrow> bool" where
  "fits_type nt v \<longleftrightarrow> storable v \<and> (value_type v = Some nt \<or> v = CqlEmpty)"

definition decoders_ok :: "decoders \<Rightarrow> bool" where
  "decoders_ok D \<longleftrightarrow> (\<forall>nt bytes v. length bytes < 2 ^ 31 \<longrightarrow> dc_cql D nt bytes = Some v \<longrightarrow> fits_type nt v)"

text \<open>
  A row of the base table: the key columns hold storable values; a partition-key or filtering
  column that is a column of the table holds a value of its type, any other one the bytes of an
  attribute of \<open>:attrs\<close>.
\<close>

definition cell_conforms :: "table_columns \<Rightarrow> column_name \<Rightarrow> db_value option \<Rightarrow> bool" where
  "cell_conforms real_columns name value \<longleftrightarrow>
     (case value of
        Some (DbValueCql v) \<Rightarrow>
          (case real_columns name of
             Some nt \<Rightarrow> fits_type nt v
           | None \<Rightarrow> (case v of CqlBlob bytes \<Rightarrow> length bytes < 2 ^ 31 | _ \<Rightarrow> False))
      | _ \<Rightarrow> True)"

definition stored_columns :: "statements \<Rightarrow> column_name list" where
  "stored_columns st = st_nonpk_partition_key_columns st @ st_filtering_columns st"

definition cells_conform :: "table_columns \<Rightarrow> column_name list \<Rightarrow> nat \<Rightarrow> db_value option list \<Rightarrow> bool" where
  "cells_conform real_columns names target_len columns \<longleftrightarrow>
     (\<forall>i<length names. cell_conforms real_columns (names ! i) (columns ! (2 * (target_len + i))))"

definition row_conforms :: "table_columns \<Rightarrow> statements \<Rightarrow> db_value option list \<Rightarrow> bool" where
  "row_conforms real_columns st row \<longleftrightarrow>
     (\<forall>v. Some (DbValueCql v) \<in> set (take (length (st_primary_key_columns st)) row) \<longrightarrow> storable v) \<and>
     cells_conform real_columns (stored_columns st) (length (st_target_columns st))
       (drop (length (st_primary_key_columns st)) row)"

lemma scalar_fits:
  assumes "decoders_ok D" and "length bytes < 2 ^ 31" and "parse_alternator_scalar D bytes nt = Ok v"
  shows "fits_type nt v"
proof -
  obtain tag payload where "bytes = tag # payload" "dc_cql D nt payload = Some v"
    using assms(3) by (cases bytes) (auto simp: parse_alternator_scalar_def result_simps split: if_splits)
  then show ?thesis
    using assms(1,2) unfolding decoders_ok_def by (metis Suc_lessD length_Cons)
qed

text \<open>The two tables of types agree.\<close>

lemma filtering_fits:
  assumes D: "decoders_ok D" and cell: "cell_conforms real_columns name (Some value)"
    and parse: "parse_filtering D (if real_columns name \<noteq> None then None else im_alternator_native_type m name) value = Ok x"
    and types: "merge_table_columns m filtering real_columns alternator name = Some nt"
  shows "\<exists>v. x = DbFiltering v \<and> fits_type nt v"
proof -
  obtain v where v: "value = DbValueCql v"
    using parse by (cases "value") (simp_all add: parse_filtering_def filtering_value_def)
  show ?thesis
  proof (cases "real_columns name")
    case (Some nt0)
    then have "nt = nt0" "fits_type nt0 v"
      using types cell by (auto simp: merge_table_columns_def map_add_def v cell_conforms_def split: if_splits)
    then show ?thesis
      using parse by (auto simp: parse_filtering_def filtering_value_def v Some result_simps split: cql_value.splits)
  next
    case None
    then obtain bytes where bytes: "v = CqlBlob bytes" "length bytes < 2 ^ 31"
      using cell by (auto simp: v cell_conforms_def split: cql_value.splits)
    then have blob: "fits_type NT_Blob v"
      by (simp add: fits_type_def storable_def var_len_def)
    show ?thesis
    proof (cases "im_alternator_native_type m name")
      case None0: None
      then have "nt = NT_Blob" "x = DbFiltering v"
        using types None parse
        by (auto simp: merge_table_columns_def map_add_def parse_filtering_def filtering_value_def v bytes split: if_splits)
      then show ?thesis using blob by simp
    next
      case (Some at)
      then have "nt = at"
        using types None by (auto simp: merge_table_columns_def map_add_def bt_contains_def im_alternator_native_type_def split: if_splits)
      moreover obtain y where "parse_alternator_scalar D bytes at = Ok y" "x = DbFiltering y"
        using parse None Some by (auto simp: parse_filtering_def filtering_value_def v bytes result_simps)
      ultimately show ?thesis
        using scalar_fits [OF D bytes(2)] by blast
    qed
  qed
qed

lemma into_value_timestamped: "fst (into_value t) = timestamped_value t"
  by (simp add: into_value_def timestamped_value_def)

definition kind_fits :: "index_kind \<Rightarrow> splitting_values \<Rightarrow> bool" where
  "kind_fits kind = (case kind of Vs _ \<Rightarrow> is_vector | _ \<Rightarrow> is_document)"

definition no_empty :: "db_indexed_value timestamped list \<Rightarrow> bool" where
  "no_empty values \<longleftrightarrow> (\<forall>v\<in>set values. timestamped_value v \<noteq> Some (DbFiltering CqlEmpty))"

lemma parse_document_fits: "parse_document value = Ok x \<Longrightarrow> \<exists>doc. x = DbDocument doc"
  by (auto simp: parse_document_def split: db_value.splits cql_value.splits)

lemma parse_indexed_fits:
  assumes "parse_indexed_value D value kind = Ok x"
  shows "\<exists>w. split_value x = Ok w \<and> kind_fits kind w"
proof (cases kind)
  case (Vs opts)
  then show ?thesis
    using assms by (auto simp: parse_indexed_value_def kind_fits_def result_simps split: db_value.splits)
next
  case (Fts opts)
  then show ?thesis
    using assms parse_document_fits [of "value" x] by (auto simp: parse_indexed_value_def kind_fits_def)
next
  case Pattern
  then show ?thesis
    using assms parse_document_fits [of "value" x] by (auto simp: parse_indexed_value_def kind_fits_def)
qed

lemma statements_new_fields:
  assumes "statements_new w m = Ok st" and "tw_table w = Some columns"
  shows "st_target_columns st = im_target_columns m" and "st_kind st = im_kind m"
    and "st_primary_key_columns st = im_primary_key_columns m"
    and "length (st_primary_key_columns st) \<le> MAX_COLUMNS"
    and "st_table_columns st = merge_table_columns m (im_nonpk_filtering_columns m) (real_columns_of columns)
           (is_alternator (im_keyspace_name m))"
    and "st_alternator_decode_types st = alternator_decode_types (stored_columns st) m (real_columns_of columns)"
    and "stored_columns st = stored_names (im_primary_key_columns m)
           (case im_partitioning m of LocalIndex cols \<Rightarrow> Some cols | GlobalIndex \<Rightarrow> None) (im_nonpk_filtering_columns m)"
  using assms
  by (auto simp: statements_new_def stored_columns_def stored_names_def im_nonpk_partition_key_columns_def Let_def
      result_simps split: if_splits db_index_partitioning.splits)

lemma stored_not_key:
  assumes "statements_new w m = Ok st" and "tw_table w = Some columns" and "name \<in> set (stored_columns st)"
  shows "name \<notin> set (im_primary_key_columns m)"
  using assms(3) statements_new_fields(7) [OF assms(1,2)]
  by (auto simp: stored_names_def im_nonpk_filtering_columns_def split: option.splits)

text \<open>The values of a scanned row: a value of the kind of the index, then one per stored column.\<close>

definition values_typed :: "index_kind \<Rightarrow> table_columns \<Rightarrow> column_name list \<Rightarrow> db_indexed_value timestamped list \<Rightarrow> bool" where
  "values_typed kind types names values \<longleftrightarrow>
     (case values of [] \<Rightarrow> False | v # rest \<Rightarrow>
        (\<forall>x. timestamped_value v = Some x \<longrightarrow> (\<exists>w. split_value x = Ok w \<and> kind_fits kind w)) \<and>
        length rest = length names \<and>
        (\<forall>i<length names. \<forall>x nt. timestamped_value (rest ! i) = Some x \<longrightarrow> types (names ! i) = Some nt \<longrightarrow>
           (\<exists>y. x = DbFiltering y \<and> fits_type nt y)))"

lemma parse_pair_value:
  assumes "parse_pair D dt len kind types columns idx i = Ok u" and "timestamped_value u = Some x"
  obtains raw where "columns ! (2 * i) = Some raw"
    and "parse_cell D kind len types (idx + i) (Some raw) = Ok (Some x)"
proof -
  obtain v ts where "parse_cell D kind len types (idx + i) (columns ! (2 * i)) = Ok v" "u = timestamped_new ts v"
    using assms(1) by (auto simp: parse_pair_def result_simps)
  then show thesis
    using that assms(2) by (cases "columns ! (2 * i)") (auto simp: parse_cell_def split: if_splits)
qed

lemma cells_typed:
  assumes D: "decoders_ok D" and len: "length values = Suc (length names)"
    and cells: "cells_conform real names 1 cols"
    and pair: "\<And>i. i < length values \<Longrightarrow>
      parse_pair D dt 1 kind (alternator_decode_types names m real) cols 0 i = Ok (values ! i)"
  shows "values_typed kind (merge_table_columns m filtering real alternator) names values"
proof -
  let ?types = "alternator_decode_types names m real"
  obtain v rest where vs: "values = v # rest" using len by (cases "values") auto
  have "\<exists>w. split_value x = Ok w \<and> kind_fits kind w" if x: "timestamped_value v = Some x" for x
  proof -
    have "parse_pair D dt 1 kind ?types cols 0 0 = Ok v"
      using pair [of 0] by (simp add: vs)
    then obtain raw where "parse_indexed_value D raw kind = Ok x"
      using x by (rule parse_pair_value) (auto simp: parse_cell_def result_simps)
    then show ?thesis by (rule parse_indexed_fits)
  qed
  moreover have "\<exists>y. x = DbFiltering y \<and> fits_type nt y"
    if i: "i < length names" and x: "timestamped_value (rest ! i) = Some x"
      and nt: "merge_table_columns m filtering real alternator (names ! i) = Some nt"
    for i x nt
  proof -
    let ?name = "names ! i"
    have decode: "Option.bind (vec_get ?types i) id = (if real ?name \<noteq> None then None else im_alternator_native_type m ?name)"
      using i by (simp add: alternator_decode_types_def vec_get_def)
    have "parse_pair D dt 1 kind ?types cols 0 (1 + i) = Ok (rest ! i)"
      using pair [of "1 + i"] i len by (simp add: vs)
    then obtain raw where raw: "cols ! (2 * (1 + i)) = Some raw"
      "parse_filtering D (if real ?name \<noteq> None then None else im_alternator_native_type m ?name) raw = Ok x"
      using x by (rule parse_pair_value) (auto simp: parse_cell_def decode result_simps simp del: not_None_eq)
    have "cell_conforms real ?name (cols ! (2 * (1 + i)))"
      using cells i by (simp add: cells_conform_def)
    from filtering_fits [OF D this [unfolded raw(1)] raw(2) nt] show ?thesis .
  qed
  ultimately show ?thesis
    using len by (simp add: values_typed_def vs)
qed

lemma scan_cells_typed:
  assumes D: "decoders_ok D" and new: "statements_new w m = Ok st" "tw_table w = Some columns"
    and one: "length (im_target_columns m) = 1" and row: "row_conforms (real_columns_of columns) st row"
    and cells: "scan_cells D st row values"
  shows "values_typed (im_kind m) (st_table_columns st) (stored_columns st) values"
proof -
  note f = statements_new_fields [OF new]
  show ?thesis unfolding f(5)
  proof (rule cells_typed [OF D])
    show "length values = Suc (length (stored_columns st))"
      using cells one by (simp add: scan_cells_def f(1) stored_columns_def)
    show "cells_conform (real_columns_of columns) (stored_columns st) 1 (drop (length (st_primary_key_columns st)) row)"
      using row one by (simp add: row_conforms_def f(1))
    show "parse_pair D Timestamp_MIN 1 (im_kind m) (alternator_decode_types (stored_columns st) m (real_columns_of columns))
        (drop (length (st_primary_key_columns st)) row) 0 i = Ok (values ! i)" if "i < length values" for i
      using cells one that by (simp add: scan_cells_def f(1,2,6))
  qed
qed

lemma values_typed_row_ok:
  assumes "values_typed kind types names values" and "key_of vs pk" and "\<forall>name\<in>set names. types name \<noteq> None"
  shows "row_ok (kind_fits kind) \<lparr>row_primary_key = pk, row_operation = DbUpsert values\<rparr>"
proof -
  obtain v rest where vs: "values = v # rest" using assms(1) by (cases "values") (auto simp: values_typed_def)
  note typed = assms(1) [unfolded values_typed_def vs list.case]
  have "storable y" if u: "u \<in> set values" "timestamped_value u = Some (DbFiltering y)" for u y
  proof (cases "u = v")
    case True
    then show ?thesis using typed u by auto
  next
    case False
    then obtain i where i: "i < length names" "rest ! i = u"
      using u typed by (auto simp: vs in_set_conv_nth)
    then obtain nt where "types (names ! i) = Some nt" using assms(3) nth_mem by blast
    then show ?thesis using typed i u(2) by (auto simp: fits_type_def)
  qed
  then show ?thesis
    using typed assms(2) by (auto simp: row_ok_def values_ok_def into_value_timestamped vs)
qed

lemma split_typed:
  assumes "values_typed kind types names values" and "\<forall>name\<in>set names. types name \<noteq> None"
  obtains s where "split_values_filtering values = Ok s" and "length (sv_filtering s) = length names"
    and "\<And>i y nt. i < length names \<Longrightarrow> snd (sv_filtering s ! i) = Some y \<Longrightarrow> types (names ! i) = Some nt \<Longrightarrow>
           fits_type nt y \<and> (no_empty values \<longrightarrow> y \<noteq> CqlEmpty)"
proof -
  obtain v rest where vs: "values = v # rest" using assms(1) by (cases "values") (auto simp: values_typed_def)
  note typed = assms(1) [unfolded values_typed_def vs list.case]
  have filtering: "split_filtering (rest ! i) =
      Ok (timestamp_of (rest ! i), case timestamped_value (rest ! i) of Some (DbFiltering y) \<Rightarrow> Some y | _ \<Rightarrow> None)"
    if "i < length names" for i
  proof -
    obtain nt where "types (names ! i) = Some nt" using assms(2) nth_mem \<open>i < length names\<close> by blast
    then have "\<exists>y. x = DbFiltering y" if "timestamped_value (rest ! i) = Some x" for x
      using typed \<open>i < length names\<close> that by blast
    then show ?thesis
      by (cases "timestamped_value (rest ! i)") (fastforce simp: split_filtering_def into_value_timestamped)+
  qed
  have "is_ok (collect_result split_filtering rest)"
    unfolding collect_result_total using filtering typed by (auto simp: in_set_conv_nth)
  then obtain fs where fs: "collect_result split_filtering rest = Ok fs" by (auto simp: result_simps)
  have nth: "length fs = length names" "\<And>i. i < length names \<Longrightarrow> split_filtering (rest ! i) = Ok (fs ! i)"
    using collect_result_length [OF fs] collect_result_nth [OF fs] typed by simp_all
  obtain s where s: "split_values_filtering values = Ok s" "sv_filtering s = fs"
    using typed fs
    by (cases "timestamped_value v") (auto simp: split_values_filtering_def into_value_timestamped vs Let_def result_simps)
  have fit: "fits_type nt y \<and> (no_empty values \<longrightarrow> y \<noteq> CqlEmpty)"
    if i: "i < length names" "snd (sv_filtering s ! i) = Some y" "types (names ! i) = Some nt" for i y nt
  proof -
    have y: "timestamped_value (rest ! i) = Some (DbFiltering y)"
      using filtering [OF i(1)] nth(2) [OF i(1)] i(2) s(2) by (auto split: option.splits db_indexed_value.splits)
    moreover have "rest ! i \<in> set values" using i(1) typed by (simp add: vs)
    ultimately show ?thesis using typed i by (auto simp: no_empty_def)
  qed
  show thesis
  proof (rule that [OF s(1)])
    show "length (sv_filtering s) = length names" by (simp add: s(2) nth(1))
  qed (use fit in blast)+
qed

lemma typed_accepted:
  assumes "values_typed kind types names values" and "no_empty values"
    and "bt_get (t_index_ids t) key = Some x" and "bt_get (t_indexes t) x = Some ix" and "index_columns ix = names"
    and "\<And>name. name \<in> set names \<Longrightarrow>
           \<exists>col. bt_get (t_columns t) name = Some col \<and> col_type col \<noteq> None \<and> col_type col = types name"
  shows "row_accepted t key values"
proof -
  have known: "\<forall>name\<in>set names. types name \<noteq> None"
    using assms(6) by metis
  obtain s where s: "split_values_filtering values = Ok s" "length (sv_filtering s) = length names"
    "\<And>i y nt. i < length names \<Longrightarrow> snd (sv_filtering s ! i) = Some y \<Longrightarrow> types (names ! i) = Some nt \<Longrightarrow>
           fits_type nt y \<and> (no_empty values \<longrightarrow> y \<noteq> CqlEmpty)"
    by (rule split_typed [OF assms(1) known]) (rule that)
  have "case bt_get (t_columns t) (names ! i) of None \<Rightarrow> False | Some col \<Rightarrow> col_accepts col (snd (sv_filtering s ! i))"
    if i: "i < length names" for i
  proof -
    obtain col nt where col: "bt_get (t_columns t) (names ! i) = Some col" "col_type col = Some nt" "types (names ! i) = Some nt"
      using assms(6) [of "names ! i"] i by force
    have "value_type y = Some nt" if "snd (sv_filtering s ! i) = Some y" for y
      using s(3) [OF i that col(3)] assms(2) by (auto simp: fits_type_def)
    then show ?thesis by (simp add: col col_accepts_def)
  qed
  then have "columns_accept (t_columns t) names (sv_filtering s)"
    using s(2) by (auto simp: columns_accept_def list_all_length split: prod.split)
      (metis snd_conv)
  then show ?thesis
    using assms(3-5) s(1) by (simp add: row_accepted_def index_columns_eq)
qed

section \<open>No panic\<close>

lemma storable_encodes: "storable v \<Longrightarrow> \<exists>bs. encode_value v = Ok bs"
  by (auto simp: storable_def result_simps)

lemma primary_key_loop_ok:
  "\<forall>v. Some (DbValueCql v) \<in> set columns \<longrightarrow> storable v \<Longrightarrow> is_ok (primary_key_loop columns n buf)"
proof (induction columns n buf rule: primary_key_loop.induct)
  case (2 v columns n buf)
  then obtain bs where "encode_value v = Ok bs" using storable_encodes [of v] by auto
  then show ?case using 2 by simp
qed simp_all

lemma parse_alternator_vector_no_panic: "no_panic (parse_alternator_vector D bytes)"
  by (auto simp: parse_alternator_vector_def parse_alternator_vector_binary_def parse_alternator_list_json_def
      intro!: no_panic_and_then collect_no_panic split: list.split prod.split)

lemma parse_indexed_no_panic: "no_panic (parse_indexed_value D v kind)"
proof -
  have "no_panic (case v of CqlFloat f \<Rightarrow> Ok f | _ \<Rightarrow> Err (Bail ''bad type of embedding element''))" for v :: cql_value
    by (cases v) simp_all
  then have "no_panic (vector_try_from D v)" for v
    by (auto simp: vector_try_from_def parse_alternator_vector_no_panic intro!: collect_no_panic split: cql_value.split)
  moreover have "no_panic (parse_document v)" for v
    by (auto simp: parse_document_def split: db_value.split cql_value.split)
  ultimately show ?thesis
    by (auto simp: parse_indexed_value_def intro!: no_panic_and_then split: index_kind.split db_value.split)
qed

lemma parse_filtering_no_panic: "no_panic (parse_filtering D nt v)"
proof -
  have "no_panic (filtering_value v)"
    by (cases v) (simp_all add: filtering_value_def)
  moreover have "no_panic (parse_alternator_scalar D bytes t)" for bytes t
    by (auto simp: parse_alternator_scalar_def intro!: no_panic_and_then split: list.split native_type.split)
  ultimately show ?thesis
    unfolding parse_filtering_def by (auto intro!: no_panic_and_then split: cql_value.split option.split)
qed

lemma parse_cell_no_panic: "no_panic (parse_cell D kind len types idx v)"
  by (cases v) (auto simp: parse_cell_def intro!: no_panic_and_then parse_indexed_no_panic parse_filtering_no_panic)

lemma parse_chunks_no_panic: "no_panic (parse_chunks D dt len kind types idx columns)"
proof (induction D dt len kind types idx columns rule: parse_chunks.induct)
  case (3 D dt len kind types idx x wt columns)
  have "no_panic (parse_writetime dt wt)"
    by (auto simp: parse_writetime_def split: option.split db_value.split cql_value.split)
  then show ?case
    using 3 by (auto intro!: no_panic_and_then parse_cell_no_panic)
qed (auto intro!: no_panic_and_then parse_cell_no_panic)

lemma parse_values_no_panic: "0 < len \<Longrightarrow> no_panic (parse_values D cols dt len kind types)"
  using parse_chunks_no_panic by (auto simp: parse_values_def Let_def intro!: no_panic_and_then)

lemma scan_row_ok:
  assumes "st_target_columns st \<noteq> []" and "row_conforms real_columns st row"
  shows "is_ok (scan_row D st row)"
proof -
  let ?np = "length (st_primary_key_columns st)" and ?len = "length (st_target_columns st)"
  have "no_panic (parse_values D cols None ?len kind types)" for cols kind types
    using assms(1) by (intro parse_values_no_panic) simp
  moreover have "is_ok (parse_primary_key (take ?np row))"
    using assms(2) unfolding parse_primary_key_def row_conforms_def
    by (intro primary_key_loop_ok) (meson in_set_takeD)
  ultimately show ?thesis
    by (auto simp: scan_row_def Let_def no_panic_def result_simps split: sum.split error.split)
qed

section \<open>Rows for the table of the index\<close>

text \<open>
  The table created from the types of the statements accepts values typed by them, after the
  monitor of items has processed any rows.
\<close>

lemma typed_row_accepted:
  assumes "statements_new w m = Ok st" and "tw_table w = Some columns"
    and "build_table key m (st_table_columns st) = Ok (mo_table mo)"
    and typed: "values_typed (im_kind m) (st_table_columns st) (stored_columns st) vals" and "key_of ws pk"
  shows "row_ok (kind_fits (im_kind m)) \<lparr>row_primary_key = pk, row_operation = DbUpsert vals\<rparr>"
    and "no_empty vals \<Longrightarrow> row_accepted (mo_table (snd (monitor_run d dispatch key rows mo))) key vals"
proof -
  note f = statements_new_fields [OF assms(1,2)]
  obtain x ix where ix: "bt_get (t_index_ids (mo_table mo)) key = Some x" "bt_get (t_indexes (mo_table mo)) x = Some ix"
    "index_columns ix = stored_columns st"
    and cols: "\<And>name. name \<in> set (stored_columns st) \<Longrightarrow>
       \<exists>col. bt_get (t_columns (mo_table mo)) name = Some col \<and> col_type col \<noteq> None \<and> col_type col = st_table_columns st name"
    using stored_not_key [OF assms(1,2)]
    by (rule_tac table_new_columns [OF assms(3) [unfolded build_table_def]]) (auto simp: f(7))
  show "row_ok (kind_fits (im_kind m)) \<lparr>row_primary_key = pk, row_operation = DbUpsert vals\<rparr>"
    using values_typed_row_ok [OF typed assms(5)] cols by metis
  let ?t = "mo_table (snd (monitor_run d dispatch key rows mo))"
  have same: "same_columns (mo_table mo) ?t" by (rule monitor_run_schema)
  obtain ix' where ix': "bt_get (t_indexes ?t) x = Some ix'" "index_columns ix' = index_columns ix"
    using same_columns_index [OF same ix(2)] .
  have id: "bt_get (t_index_ids ?t) key = Some x"
    using same ix(1) by (simp add: same_columns_def)
  have "\<exists>col. bt_get (t_columns ?t) name = Some col \<and> col_type col \<noteq> None \<and> col_type col = st_table_columns st name"
    if "name \<in> set (stored_columns st)" for name
    using cols [OF that] same_columns_column [OF same] by metis
  then show "no_empty vals \<Longrightarrow> row_accepted ?t key vals"
    using typed_accepted [OF typed _ id ix'(1) ix'(2) [unfolded ix(3)]] by blast
qed

section \<open>Properties\<close>

text \<open>
  Round trip of an embedding in an Alternator attribute. The optimised encoding is decoded
  exactly from the big-endian bytes of its floats: every vector can be written and is read back,
  and a payload that decodes is the encoding of what it decodes to (so a length that is no
  multiple of four, in particular, is refused).
\<close>

theorem vector_blob_roundtrip:
  "parse_alternator_vector D (ALTERNATOR_TYPE_FLOAT32VECTOR # payload) = Ok v \<longleftrightarrow>
     ALTERNATOR_TYPE_FLOAT32VECTOR # payload = vector_blob v"
  by (simp add: parse_alternator_vector_def vector_binary_iff vector_blob_def)

text \<open>
  C7: scanned rows are well typed. Prepare the statements of an index from the schema of its base
  table, create the table of the index with the types these statements report, and let the
  monitor of items process any rows. A row of the base table that conforms to the schema never
  makes the scan panic; if it is not dropped, it satisfies what the pipeline relies on (a proper
  key, storable values, a value of the kind of the index), and unless a filtering value is the
  empty value, each of its values has the type of the column it will be stored in: the types used
  to decode the attributes and those used to create the columns agree.
\<close>

theorem scanned_row_accepted:
  assumes "decoders_ok D" and "statements_new w m = Ok st" and "tw_table w = Some columns"
    and "length (im_target_columns m) = 1" and "build_table key m (st_table_columns st) = Ok (mo_table mo)"
    and "row_conforms (real_columns_of columns) st row"
  shows "case scan_row D st row of
      Inl e \<Rightarrow> False
    | Inr None \<Rightarrow> True
    | Inr (Some r) \<Rightarrow>
        row_ok (kind_fits (im_kind m)) r \<and>
        (\<forall>values. row_operation r = DbUpsert values \<longrightarrow> no_empty values \<longrightarrow>
           row_accepted (mo_table (snd (monitor_run d dispatch key rows mo))) key values)"
proof (cases "scan_row D st row")
  case (Inl e)
  moreover have "st_target_columns st \<noteq> []"
    using assms(4) statements_new_fields(1) [OF assms(2,3)] by auto
  ultimately show ?thesis using scan_row_ok [OF _ assms(6), of D] by simp
next
  case (Inr o1)
  show ?thesis
  proof (cases o1)
    case (Some r)
    note f = statements_new_fields [OF assms(2,3)]
    have target: "st_target_columns st \<noteq> []" using assms(4) f(1) by auto
    obtain vs vals where vs: "take (length (st_primary_key_columns st)) row = map (Some \<circ> DbValueCql) vs"
      "ik_from_iter vs = Ok (row_primary_key r)" and cells: "scan_cells D st row vals"
      and r: "r = \<lparr>row_primary_key = row_primary_key r, row_operation = DbUpsert vals\<rparr>"
      using Inr [unfolded Some] unfolding scan_row_iff [OF target f(4)] by blast
    have typed: "values_typed (im_kind m) (st_table_columns st) (stored_columns st) vals"
      using scan_cells_typed [OF assms(1-4,6) cells] .
    have "list_all cql_wf vs"
      using assms(6) by (auto simp: row_conforms_def vs(1) list_all_iff storable_def)
    then obtain ws where key: "key_of ws (row_primary_key r)"
      using from_iter_key_of [OF _ vs(2)] by blast
    show ?thesis
      using typed_row_accepted(1) [OF assms(2,3,5) typed key] r
        typed_row_accepted(2) [OF assms(2,3,5) typed key, where d = d and dispatch = dispatch and rows = rows]
      by (simp add: Inr Some) (metis db_indexed_operation.inject(1) db_indexed_row.select_convs(2))
  qed (simp add: Inr)
qed

section \<open>Witnesses\<close>

text \<open>An Alternator table: the key \<open>pk\<close>, an embedding \<open>v\<close> and a text attribute \<open>color\<close>.\<close>

definition alternator_metadata :: index_metadata where
  "alternator_metadata =
     \<lparr>im_keyspace_name = ''alternator_ks'', im_index_name = ''idx'', im_table_name = ''t'',
      im_primary_key_columns = [''pk''], im_partition_key_count = 1, im_target_columns = [''v''],
      im_partitioning = GlobalIndex, im_filtering_columns = [''color''],
      im_alternator_attribute_types = [(''color'', NT_Text)], im_version = IndexVersion uuid_nil,
      im_kind = Vs \<lparr>vs_dimensions = 1, vs_connectivity = 0, vs_expansion_add = 0, vs_expansion_search = 0,
                   vs_space_type = Cosine, vs_quantization = QF32\<rparr>\<rparr>"

definition alternator_world :: table_world where
  "alternator_world =
     \<lparr>tw_session = Ok (), tw_schema_agreement = Ok (), tw_table = Some [''pk'' \<mapsto> Native NT_Int, '':attrs'' \<mapsto> Collection],
      tw_prepare_range_scan = Ok (), tw_prepare_fetch_vector = Ok ()\<rparr>"

definition alternator_decoders :: decoders where
  "alternator_decoders =
     \<lparr>dc_cql = (\<lambda>nt bytes. if nt = NT_Text \<and> utf8_valid bytes then Some (CqlText bytes)
                           else if nt = NT_Blob then Some (CqlBlob bytes) else None),
      dc_json_list = (\<lambda>_. None), dc_f32 = (\<lambda>_. None)\<rparr>"

definition alternator_statements :: statements where
  "alternator_statements =
     \<lparr>st_primary_key_columns = [''pk''], st_nonpk_partition_key_columns = [], st_target_columns = [''v''],
      st_filtering_columns = [''color''],
      st_table_columns = merge_table_columns alternator_metadata [''color''] [''pk'' \<mapsto> NT_Int] True,
      st_alternator_decode_types = [Some NT_Text], st_kind = im_kind alternator_metadata\<rparr>"

definition alternator_row :: "db_value option list" where
  "alternator_row =
     [Some (DbValueCql (CqlInt 1)), Some (DbValueCql (CqlBlob [5, 63, 128, 0, 0])), Some (DbValueCql (CqlBigInt 7)),
      Some (DbValueCql (CqlBlob [0, 97])), None]"

lemma alternator_decoders_ok: "decoders_ok alternator_decoders"
  by (auto simp: decoders_ok_def alternator_decoders_def fits_type_def storable_def var_len_def)

lemma alternator_real: "real_columns_of [''pk'' \<mapsto> Native NT_Int, '':attrs'' \<mapsto> Collection] = [''pk'' \<mapsto> NT_Int]"
  by (auto simp: real_columns_of_def)

lemma alternator_new: "statements_new alternator_world alternator_metadata = Ok alternator_statements"
  by (simp add: statements_new_def alternator_world_def alternator_metadata_def alternator_statements_def
      im_nonpk_partition_key_columns_def im_nonpk_filtering_columns_def MAX_COLUMNS_def Let_def alternator_real
      is_alternator_def alternator_decode_types_def im_alternator_native_type_def bt_get_def)

lemma alternator_conforms: "row_conforms [''pk'' \<mapsto> NT_Int] alternator_statements alternator_row"
  by (simp add: row_conforms_def cells_conform_def alternator_statements_def alternator_row_def stored_columns_def cell_conforms_def
      storable_def)

lemma alternator_float:
  "parse_indexed_value alternator_decoders (DbValueCql (CqlBlob [5, 63, 128, 0, 0])) (im_kind alternator_metadata) =
     Ok (DbVector [1065353216])"
  by (simp add: parse_indexed_value_def alternator_metadata_def vector_try_from_def parse_alternator_vector_def
      ALTERNATOR_TYPE_FLOAT32VECTOR_def parse_alternator_vector_binary_def f32_from_be_bytes_def from_le_def)

lemma alternator_color:
  "parse_filtering alternator_decoders (Some NT_Text) (DbValueCql (CqlBlob [0, 97])) = Ok (DbFiltering (CqlText [97]))"
  by (simp add: parse_filtering_def filtering_value_def parse_alternator_scalar_def ALTERNATOR_TYPE_S_def
      alternator_decoders_def in_range_def)

lemma alternator_scanned:
  "scan_row alternator_decoders alternator_statements alternator_row =
     Ok (Some \<lparr>row_primary_key = example_key,
               row_operation = DbUpsert [timestamped_new (from_micros 7) (Some (DbVector [1065353216])),
                                         timestamped_new Timestamp_MIN (Some (DbFiltering (CqlText [97])))]\<rparr>)"
proof -
  have key: "parse_primary_key [Some (DbValueCql (CqlInt 1))] = Ok (Some example_key)"
    by (simp add: parse_primary_key_iff MAX_COLUMNS_def) (intro exI [of _ "[CqlInt 1]"], simp add: key_of_from_iter [OF example_key_of])
  show ?thesis
    by (simp add: scan_row_def alternator_statements_def alternator_row_def columns_len_expected_def parse_values_def
        parse_cell_def parse_writetime_def alternator_float alternator_color key vec_get_def)
qed

text \<open>The table of the index.\<close>

lemma alternator_table:
  obtains t where "build_table ''alternator_ks.idx'' alternator_metadata (st_table_columns alternator_statements) = Ok t"
proof -
  let ?types = "st_table_columns alternator_statements"
  have "?types ''color'' = Some NT_Text"
    by (simp add: alternator_statements_def merge_table_columns_def map_add_def alternator_metadata_def
        im_alternator_native_type_def bt_get_def)
  then have "schema_ok [''pk''] 1 None [''color''] ?types"
    by (simp add: schema_ok_def)
  moreover have "build_table ''alternator_ks.idx'' alternator_metadata ?types =
      table_new ''alternator_ks.idx'' [''pk''] 1 None [''v''] [''color''] ?types"
    by (simp add: build_table_def alternator_metadata_def im_nonpk_filtering_columns_def)
  ultimately show thesis
    using table_new_ok [where target = "[''v'']" and key = "''alternator_ks.idx''" and pk = "[''pk'']" and n = 1
        and partition_columns = None and filtering = "[''color'']" and table_columns = ?types and d = example_driver] that
    by (auto split: sum.splits)
qed

theorem scanned_row_accepted_witness:
  "\<exists>t r. build_table ''alternator_ks.idx'' alternator_metadata (st_table_columns alternator_statements) = Ok t \<and>
     scan_row alternator_decoders alternator_statements alternator_row = Ok (Some r) \<and>
     row_ok is_vector r \<and> (\<exists>values. row_operation r = DbUpsert values \<and> row_accepted t ''alternator_ks.idx'' values)"
proof -
  obtain t where t: "build_table ''alternator_ks.idx'' alternator_metadata (st_table_columns alternator_statements) = Ok t"
    by (rule alternator_table)
  let ?mo = "(example_monitor (VsRemovePartition (partition_global (IndexId 32768))))\<lparr>mo_table := t\<rparr>"
  have "tw_table alternator_world = Some [''pk'' \<mapsto> Native NT_Int, '':attrs'' \<mapsto> Collection]"
    and "length (im_target_columns alternator_metadata) = 1"
    by (simp_all add: alternator_world_def alternator_metadata_def)
  note fit = scanned_row_accepted [OF alternator_decoders_ok alternator_new this, of "''alternator_ks.idx''" ?mo alternator_row
      example_driver vs_dispatch "[]"]
  show ?thesis
    using fit t by (simp add: alternator_real alternator_conforms alternator_scanned no_empty_def kind_fits_def
        alternator_metadata_def [THEN arg_cong [of _ _ im_kind]])
qed

end
