(* ===== verification/Db_Index.thy ===== *)
theory Db_Index
  imports Full_Scan_Correct Db_Rows_Correct Table_Search
begin

text \<open>
  The actor of the database index (\<open>db_index.rs\<close>): the initial scan, the loop that serves requests
  while it runs and after it, the events it sends to the node, and the point reads of vectors; and
  their client, the source of vectors of the DiskANN index (\<open>BaseTableSource\<close> of
  \<open>vs_index/diskann/scylla.rs\<close>).

  The rest of the driver is an argument: the ranges and the number of shards (which may fail, when
  the session is gone), and the point read of a key.
\<close>

section \<open>Point reads\<close>

text \<open>
  \<open>fetch_vectors\<close>: \<open>session\<close> is the answer of the session watch (\<open>None\<close>: the index is dead,
  \<open>Some None\<close>: no session); \<open>fetch\<close> is a point read under a permit. The answers keep the order of
  the keys.
\<close>

fun last_error :: "'a result list \<Rightarrow> error option" where
  "last_error [] = None"
| "last_error (Inr _ # rs) = last_error rs"
| "last_error (Inl e # rs) = (case last_error rs of None \<Rightarrow> Some e | Some e' \<Rightarrow> Some e')"

definition fetch_vectors ::
  "unit option option \<Rightarrow> (primary_key \<Rightarrow> vector option result) \<Rightarrow> primary_key list \<Rightarrow> vector option list result" where
  "fetch_vectors session fetch keys =
     and_then (ok_or session (Bail ''fetch_vectors: index dead'')) (\<lambda>session.
     and_then (ok_or session (Bail ''fetch_vectors: no active session'')) (\<lambda>_.
     let results = map fetch keys;
         failures = length (filter (\<lambda>r. \<not> is_ok r) results);
         vectors = map (\<lambda>r. case r of Inr v \<Rightarrow> v | Inl _ \<Rightarrow> None) results
     in if failures = length keys
        then (case last_error results of Some e \<Rightarrow> Err e | None \<Rightarrow> Err (Panic ''unwrap on None''))
        else Ok vectors))"

text \<open>\<open>BaseTableSource::get\<close>: \<open>get_vectors\<close> is the request to the actor.\<close>

definition flatten_keys :: "'a option list \<Rightarrow> 'a list" where
  "flatten_keys keys = map the (filter (\<lambda>k. k \<noteq> None) keys)"

fun spread_answers :: "'k option list \<Rightarrow> 'v option list \<Rightarrow> 'v option list result" where
  "spread_answers [] fetched = Ok []"
| "spread_answers (None # keys) fetched = and_then (spread_answers keys fetched) (\<lambda>vs. Ok (None # vs))"
| "spread_answers (Some _ # keys) [] = Err (Panic ''unwrap on None'')"
| "spread_answers (Some _ # keys) (v # fetched) = and_then (spread_answers keys fetched) (\<lambda>vs. Ok (v # vs))"

definition base_table_get ::
  "table \<Rightarrow> (primary_key list \<Rightarrow> vector option list result) \<Rightarrow> partition_id \<Rightarrow> primary_id list \<Rightarrow>
   vector option list result" where
  "base_table_get t get_vectors partition_id ids =
     (let keys = map (search_primary_key t partition_id) ids;
          wanted = flatten_keys keys
      in if wanted = [] then Ok (replicate (length ids) None)
         else and_then (get_vectors wanted) (\<lambda>fetched.
                if length fetched \<noteq> length wanted
                then Err (Bail ''BaseTableSource::get: unexpected number of vectors'')
                else spread_answers keys fetched))"

section \<open>The actor\<close>

definition initial_scan :: "index_kind \<Rightarrow> token_range list result \<Rightarrow> nat result \<Rightarrow> 'row scan option" where
  "initial_scan kind ranges concurrency =
     (case kind of
        Pattern \<Rightarrow> None
      | _ \<Rightarrow>
          Some (case and_then ranges (\<lambda>rs. and_then concurrency (\<lambda>n. Ok (rs, n))) of
                  Inl e \<Rightarrow> (scan_new [] 0)\<lparr>sc_pc := ScanDone (Err e)\<rparr>
                | Inr (rs, n) \<Rightarrow> scan_new rs n))"

datatype db_index_msg = GetTableColumns | FullScanProgress | GetVectors "primary_key list"

datatype db_index_reply =
    TableColumnsReply table_columns
  | ProgressReply progress
  | VectorsReply "vector option list result"

datatype db_index_phase = DbScanning | DbServing | DbStopped

record 'row db_index =
  di_statements :: statements
  di_metadata :: index_metadata
  di_scan :: "'row scan option"
  di_phase :: db_index_phase
  di_events :: "event list"
  di_processing :: "db_index_msg list"

definition db_index_new :: "statements \<Rightarrow> index_metadata \<Rightarrow> 'row scan option \<Rightarrow> 'row db_index" where
  "db_index_new st m scan =
     \<lparr>di_statements = st, di_metadata = m, di_scan = scan, di_phase = DbScanning, di_events = [FullScanStarted m],
      di_processing = []\<rparr>"

text \<open>\<open>process\<close>: the length completed is read when the request is processed.\<close>

definition db_index_process ::
  "(u64 \<Rightarrow> u64) \<Rightarrow> (primary_key list \<Rightarrow> vector option list result) \<Rightarrow> 'row db_index \<Rightarrow> db_index_msg \<Rightarrow> db_index_reply" where
  "db_index_process percentage fetch di msg =
     (case msg of
        GetTableColumns \<Rightarrow> TableColumnsReply (st_table_columns (di_statements di))
      | FullScanProgress \<Rightarrow>
          ProgressReply (progress_from percentage (case di_scan di of Some s \<Rightarrow> sc_completed s | None \<Rightarrow> 0))
      | GetVectors keys \<Rightarrow> VectorsReply (fetch keys))"

text \<open>
  The steps: of the scan, the scan returning to the actor, a request arriving and being answered by
  its task, and the channel closing. The scan runs only while the actor polls it: dropping its future
  aborts its tasks. Guards of rows in the pipeline may be dropped at any time.
\<close>

datatype 'row db_index_event =
    ScanEvent "'row scan_event"
  | ScanReturned
  | RequestReceived db_index_msg
  | RequestProcessed nat
  | RequestsClosed

fun of_pipeline :: "'row scan_event \<Rightarrow> bool" where
  "of_pipeline (AckRow _) = True"
| "of_pipeline AckOrphan = True"
| "of_pipeline _ = False"

fun db_index_step ::
  "(u64 \<Rightarrow> u64) \<Rightarrow> (primary_key list \<Rightarrow> vector option list result) \<Rightarrow> 'row db_index_event \<Rightarrow> 'row db_index \<Rightarrow>
   (db_index_reply option \<times> 'row db_index) option" where
  "db_index_step percentage fetch (ScanEvent ev) di =
     (case di_scan di of
        None \<Rightarrow> None
      | Some s \<Rightarrow>
          if di_phase di \<noteq> DbScanning \<and> \<not> of_pipeline ev then None
          else map_option (\<lambda>s'. (None, di\<lparr>di_scan := Some s'\<rparr>)) (scan_step ev s))"
| "db_index_step percentage fetch ScanReturned di =
     (case di_scan di of
        None \<Rightarrow> None
      | Some s \<Rightarrow>
          if di_phase di = DbScanning
          then case sc_pc s of
                 ScanDone (Inr _) \<Rightarrow>
                   Some (None, di\<lparr>di_phase := DbServing, di_events := di_events di @ [FullScanFinished (di_metadata di)]\<rparr>)
               | ScanDone (Inl _) \<Rightarrow> Some (None, di\<lparr>di_phase := DbServing\<rparr>)
               | _ \<Rightarrow> None
          else None)"
| "db_index_step percentage fetch (RequestReceived msg) di =
     (if di_phase di \<noteq> DbStopped then Some (None, di\<lparr>di_processing := di_processing di @ [msg]\<rparr>) else None)"
| "db_index_step percentage fetch (RequestProcessed i) di =
     (case vec_get (di_processing di) i of
        None \<Rightarrow> None
      | Some msg \<Rightarrow>
          Some (Some (db_index_process percentage fetch di msg), di\<lparr>di_processing := drop_nth i (di_processing di)\<rparr>))"
| "db_index_step percentage fetch RequestsClosed di =
     (if di_phase di \<noteq> DbStopped then Some (None, di\<lparr>di_phase := DbStopped\<rparr>) else None)"

section \<open>Reading vectors back\<close>

lemma last_error_iff: "last_error rs = None \<longleftrightarrow> list_all is_ok rs"
  by (induction rs rule: last_error.induct) (auto split: option.split)

lemma last_error_in: "last_error rs = Some e \<Longrightarrow> Inl e \<in> set rs"
  by (induction rs rule: last_error.induct) (auto split: option.splits)

lemma length_filter_all: "length (filter P xs) = length xs \<longleftrightarrow> (\<forall>x\<in>set xs. P x)"
proof (induction xs)
  case (Cons x xs)
  have "length (filter P xs) < Suc (length xs)"
    using length_filter_le [of P xs] by (simp add: less_Suc_eq_le)
  with Cons show ?case by auto
qed simp

lemma fetch_vectors_eq:
  assumes "keys \<noteq> []"
  shows "case fetch_vectors (Some (Some ())) fetch keys of
      Inl e \<Rightarrow> (\<forall>k\<in>set keys. \<not> is_ok (fetch k)) \<and> (\<exists>k\<in>set keys. fetch k = Err e)
    | Inr vs \<Rightarrow> vs = map (\<lambda>k. case fetch k of Inr v \<Rightarrow> v | Inl _ \<Rightarrow> None) keys \<and> (\<exists>k\<in>set keys. is_ok (fetch k))"
proof -
  let ?rs = "map fetch keys"
  have all: "length (filter (\<lambda>r. \<not> is_ok r) ?rs) = length keys \<longleftrightarrow> (\<forall>k\<in>set keys. \<not> is_ok (fetch k))"
    using length_filter_all [of "\<lambda>r. \<not> is_ok r" ?rs] by simp
  show ?thesis
  proof (cases "\<forall>k\<in>set keys. \<not> is_ok (fetch k)")
    case True
    obtain k where "k \<in> set keys" using assms by (cases keys) auto
    then have "\<not> list_all is_ok ?rs" using True by (auto simp: list_all_iff)
    then obtain e where e: "last_error ?rs = Some e" using last_error_iff [of ?rs] by auto
    then have "\<exists>k\<in>set keys. fetch k = Err e" using last_error_in [OF e] by auto
    then show ?thesis
      using True all e by (simp add: fetch_vectors_def Let_def)
  next
    case False
    then show ?thesis using all by (auto simp: fetch_vectors_def Let_def comp_def)
  qed
qed

lemma spread_answers_eq:
  "length fetched = length (flatten_keys keys) \<Longrightarrow>
     \<exists>vs. spread_answers keys fetched = Ok vs \<and> length vs = length keys"
  by (induction keys fetched rule: spread_answers.induct) (auto simp: flatten_keys_def)

lemma spread_answers_map:
  "spread_answers keys (map f (flatten_keys keys)) = Ok (map (\<lambda>k. case k of None \<Rightarrow> None | Some x \<Rightarrow> f x) keys)"
  by (induction keys) (auto simp: flatten_keys_def split: option.split)

lemma flatten_keys_set: "k \<in> set (flatten_keys keys) \<longleftrightarrow> Some k \<in> set keys"
  by (induction keys) (auto simp: flatten_keys_def)

lemma flatten_keys_empty: "flatten_keys keys = [] \<longleftrightarrow> keys = replicate (length keys) None"
  by (induction keys) (auto simp: flatten_keys_def)

section \<open>The events\<close>

inductive db_index_reachable ::
  "(token_range \<Rightarrow> 'row list) \<Rightarrow> (u64 \<Rightarrow> u64) \<Rightarrow> (primary_key list \<Rightarrow> vector option list result) \<Rightarrow> 'row db_index \<Rightarrow>
   'row db_index \<Rightarrow> bool"
  for R percentage fetch start where
  db_start: "db_index_reachable R percentage fetch start start"
| db_next: "db_index_reachable R percentage fetch start di \<Longrightarrow>
    (\<And>sev s. ev = ScanEvent sev \<Longrightarrow> di_scan di = Some s \<Longrightarrow> faithful R sev s) \<Longrightarrow>
    db_index_step percentage fetch ev di = Some (reply, di') \<Longrightarrow> db_index_reachable R percentage fetch start di'"

definition db_index_inv ::
  "(token_range \<Rightarrow> 'row list) \<Rightarrow> token_range list \<Rightarrow> nat \<Rightarrow> index_metadata \<Rightarrow> 'row db_index \<Rightarrow> bool" where
  "db_index_inv R ranges n m di \<longleftrightarrow>
     di_metadata di = m \<and>
     (case di_scan di of None \<Rightarrow> im_kind m = Pattern | Some s \<Rightarrow> im_kind m \<noteq> Pattern \<and> scan_reachable R ranges n s) \<and>
     (di_events di = [FullScanStarted m] \<or>
      di_events di = [FullScanStarted m, FullScanFinished m] \<and> di_phase di \<noteq> DbScanning \<and>
        (\<exists>s. di_scan di = Some s \<and> sc_pc s = ScanDone (Ok ())))"

text \<open>A scan that returned stays so; only guards of tasks that failed are dropped.\<close>

lemma scan_done_stays:
  assumes "scan_inv R ranges n s" and "sc_pc s = ScanDone (Ok ())" and "scan_step ev s = Some s'"
  shows "sc_pc s' = ScanDone (Ok ())"
  using ended_step [OF assms(2) _ assms(3)] assms(1,2) by (auto simp: scan_inv_def scan_failed_def)

lemma db_index_inv_step:
  assumes inv: "db_index_inv R ranges n m di" and faithful: "\<And>sev s. ev = ScanEvent sev \<Longrightarrow> di_scan di = Some s \<Longrightarrow> faithful R sev s"
    and step: "db_index_step percentage fetch ev di = Some (reply, di')"
    and ranges: "sum_list (map (\<lambda>r. unat (range_length r)) ranges) = 2 ^ 64 - 1" "\<forall>r\<in>set ranges. 0 < unat (range_length r)"
  shows "db_index_inv R ranges n m di'"
proof (cases ev)
  case (ScanEvent sev)
  then obtain s s' where s: "di_scan di = Some s" "scan_step sev s = Some s'" "di' = di\<lparr>di_scan := Some s'\<rparr>"
    using step by (auto split: option.splits if_splits)
  have reach: "scan_reachable R ranges n s" using inv s(1) by (simp add: db_index_inv_def)
  then have "scan_reachable R ranges n s'"
    using faithful [OF ScanEvent s(1)] s(2) by (rule scan_next)
  moreover have "sc_pc s = ScanDone (Ok ()) \<Longrightarrow> sc_pc s' = ScanDone (Ok ())"
    using scan_done_stays [OF scan_reachable_inv [OF reach ranges] _ s(2)] .
  ultimately show ?thesis
    using inv s by (auto simp: db_index_inv_def)
next
  case ScanReturned
  then show ?thesis
    using step inv by (auto simp: db_index_inv_def split: option.splits if_splits scan_pc.splits sum.splits)
next
  case (RequestReceived msg)
  then show ?thesis using step inv by (auto simp: db_index_inv_def split: if_splits)
next
  case (RequestProcessed i)
  then show ?thesis using step inv by (auto simp: db_index_inv_def split: option.splits)
next
  case RequestsClosed
  then show ?thesis using step inv by (auto simp: db_index_inv_def split: if_splits)
qed

lemma db_index_reachable_inv:
  assumes "db_index_reachable R percentage fetch (db_index_new st m (initial_scan (im_kind m) (Ok ranges) (Ok n))) di"
    and "sum_list (map (\<lambda>r. unat (range_length r)) ranges) = 2 ^ 64 - 1" "\<forall>r\<in>set ranges. 0 < unat (range_length r)"
  shows "db_index_inv R ranges n m di"
  using assms(1)
proof induction
  case db_start
  show ?case
    by (auto simp: db_index_inv_def db_index_new_def initial_scan_def scan_start split: index_kind.split option.split)
next
  case (db_next di ev reply di')
  show ?case by (rule db_index_inv_step [OF db_next.IH db_next.hyps(2,3) assms(2,3)])
qed

section \<open>Properties\<close>

text \<open>
  C8: what the end of a full scan means when the node hears of it. In every run of the actor of an
  index, with any interleaving of the scan, the acknowledgements, the requests, the shutdown and
  failures: it announces the start of the scan first, and announces the end at most once, and never
  for an index of a kind that is not scanned yet (a pattern index). When it announced the end, every
  row of every token range has been sent to the index exactly once, was lost because the receiver of
  the rows is gone, or was left by a range task that failed (which the code only
  logs); the rows of all ranges whose task did not fail were acknowledged; and the actor answers
  that the progress is \<open>Done\<close> exactly when no task failed. So without such a failure exactly the rows
  of all ranges were sent, and all of them were acknowledged.
\<close>

theorem full_scan_finished_exact:
  assumes "token_new_ok token_new" and "ring_ok ring" and "ranges = fullscan_ranges token_new ring"
    and "db_index_reachable R percentage fetch (db_index_new st m (initial_scan (im_kind m) (Ok ranges) (Ok n))) di"
  shows "di_events di = [FullScanStarted m] \<or>
    di_events di = [FullScanStarted m, FullScanFinished m] \<and> im_kind m \<noteq> Pattern \<and>
      (\<exists>s. di_scan di = Some s \<and>
         mset (sc_sent s) + mset (sc_unsent s) + mset (concat (map rt_rows (sc_failed s))) = mset (concat (map R ranges)) \<and>
         sc_unacked s \<le> sum_list (map rt_guards (sc_failed s)) \<and>
         (db_index_process percentage fetch di FullScanProgress = ProgressReply Done \<longleftrightarrow> sc_failed s = []) \<and>
         (sc_failed s = [] \<and> sc_unsent s = [] \<longrightarrow>
            mset (sc_sent s) = mset (concat (map R ranges)) \<and> sc_unacked s = 0))"
proof -
  note len = fullscan_length [OF assms(1,2), folded assms(3)]
  have inv: "db_index_inv R ranges n m di"
    using db_index_reachable_inv [OF assms(4) len] .
  show ?thesis
  proof (cases "di_events di = [FullScanStarted m]")
    case False
    then obtain s where s: "di_events di = [FullScanStarted m, FullScanFinished m]" "im_kind m \<noteq> Pattern"
      "di_scan di = Some s" "sc_pc s = ScanDone (Ok ())" "scan_reachable R ranges n s"
      using inv by (auto simp: db_index_inv_def split: option.splits)
    note scan = scan_inv_end [OF scan_reachable_inv [OF s(5) len] s(4)]
    have "db_index_process percentage fetch di FullScanProgress = ProgressReply Done \<longleftrightarrow> sc_failed s = []"
      using scan(3) by (simp add: db_index_process_def s(3) progress_from_Done)
    then show ?thesis
      using s(1-3) scan(1,2) by (intro disjI2 conjI exI [of _ s]) auto
  qed blast
qed

text \<open>
  Reading vectors back from the base table. For any identifiers, the answer is aligned with
  them: a row whose identifier is not valid any more, whose vector is missing or whose point read
  failed has no vector, every other one has its own. The request fails only when there was
  something to read and every read failed, with the error of one of them; in particular neither
  the bookkeeping of the failures nor the spreading of the answers ever panics.
\<close>

theorem base_table_get_aligned:
  "case base_table_get t (fetch_vectors (Some (Some ())) fetch) q ids of
     Inr vs \<Rightarrow>
       vs = map (\<lambda>i. case search_primary_key t q i of
                       None \<Rightarrow> None
                     | Some k \<Rightarrow> (case fetch k of Inr v \<Rightarrow> v | Inl _ \<Rightarrow> None)) ids
   | Inl e \<Rightarrow>
       (\<exists>i\<in>set ids. \<exists>k. search_primary_key t q i = Some k \<and> fetch k = Err e) \<and>
       (\<forall>i\<in>set ids. \<forall>k. search_primary_key t q i = Some k \<longrightarrow> \<not> is_ok (fetch k))"
proof -
  let ?keys = "map (search_primary_key t q) ids"
  let ?v = "\<lambda>k. case fetch k of Inr v \<Rightarrow> v | Inl _ \<Rightarrow> None"
  show ?thesis
  proof (cases "flatten_keys ?keys = []")
    case True
    then have "?keys = replicate (length ids) None" using flatten_keys_empty [of ?keys] by simp
    then have "search_primary_key t q i = None" if "i \<in> set ids" for i
      using that by (metis in_set_replicate list.set_map image_eqI)
    then have "replicate (length ids) None =
        map (\<lambda>i. case search_primary_key t q i of None \<Rightarrow> None | Some k \<Rightarrow> ?v k) ids"
      by (simp add: map_replicate_const [symmetric])
    then show ?thesis using True by (simp add: base_table_get_def Let_def)
  next
    case False
    have set_keys: "k \<in> set (flatten_keys ?keys) \<longleftrightarrow> (\<exists>i\<in>set ids. search_primary_key t q i = Some k)" for k
      unfolding flatten_keys_set by auto (metis image_eqI)
    show ?thesis
    proof (cases "fetch_vectors (Some (Some ())) fetch (flatten_keys ?keys)")
      case (Inl e)
      then have "\<forall>k\<in>set (flatten_keys ?keys). \<not> is_ok (fetch k)" "\<exists>k\<in>set (flatten_keys ?keys). fetch k = Err e"
        using fetch_vectors_eq [OF False, of fetch] by simp_all
      then have "\<forall>i\<in>set ids. \<forall>k. search_primary_key t q i = Some k \<longrightarrow> \<not> is_ok (fetch k)"
        "\<exists>i\<in>set ids. \<exists>k. search_primary_key t q i = Some k \<and> fetch k = Err e"
        using set_keys by blast+
      then show ?thesis
        using False Inl by (simp add: base_table_get_def Let_def)
    next
      case (Inr vs)
      then have "vs = map ?v (flatten_keys ?keys)"
        using fetch_vectors_eq [OF False, of fetch] by simp
      then show ?thesis
        using Inr False spread_answers_map [of ?keys ?v] by (simp add: base_table_get_def Let_def comp_def)
    qed
  qed
qed

section \<open>Witnesses\<close>

text \<open>The actor of an index whose scan goes as scheduled, and announces its end.\<close>

lemma example_announced:
  fixes ranges and start :: "nat db_index"
  defines "ranges \<equiv> fullscan_ranges example_token_new [0]"
  defines "start \<equiv> db_index_new alternator_statements alternator_metadata (initial_scan (im_kind alternator_metadata) (Ok ranges) (Ok 1))"
  assumes "scan_reachable example_rows ranges 1 s" and "sc_pc s = ScanDone (Ok ())"
  shows "db_index_reachable example_rows (\<lambda>_. 0) (\<lambda>_. Ok []) start
    (start\<lparr>di_scan := Some s, di_phase := DbServing, di_events := [FullScanStarted alternator_metadata, FullScanFinished alternator_metadata]\<rparr>)"
proof -
  let ?reach = "db_index_reachable example_rows (\<lambda>_. 0) (\<lambda>_. Ok []) start"
  have scan: "initial_scan (im_kind alternator_metadata) (Ok ranges) (Ok 1) = Some (scan_new ranges 1 :: nat scan)"
    by (simp add: initial_scan_def alternator_metadata_def)
  have along: "?reach (start\<lparr>di_scan := Some s\<rparr>)" if "scan_reachable example_rows ranges 1 s" for s
    using that
  proof induction
    case scan_start
    have "start\<lparr>di_scan := Some (scan_new ranges 1)\<rparr> = start"
      unfolding start_def db_index_new_def scan by simp
    then show ?case by (simp only: db_start)
  next
    case (scan_next s ev s')
    show ?case
    proof (rule db_next [OF scan_next.IH, where ev = "ScanEvent ev" and reply = None])
      show "faithful example_rows sev s2" if "ScanEvent ev = ScanEvent sev" "di_scan (start\<lparr>di_scan := Some s\<rparr>) = Some s2" for sev s2
        using that scan_next.hyps(2) by simp
    qed (simp add: start_def db_index_new_def scan_next.hyps(3))
  qed
  show ?thesis
    by (rule db_next [OF along [OF assms(3)], where ev = ScanReturned and reply = None])
      (simp_all add: start_def db_index_new_def assms(4))
qed

text \<open>
  Two runs: in the first one the row is sent and acknowledged; in the second one a range task fails,
  the end is announced nevertheless, and the progress does not reach \<open>Done\<close>.
\<close>

theorem full_scan_finished_exact_witness:
  "let ranges = fullscan_ranges example_token_new [0];
       start = db_index_new alternator_statements alternator_metadata (initial_scan (im_kind alternator_metadata) (Ok ranges) (Ok 1));
       finished = [FullScanStarted alternator_metadata, FullScanFinished alternator_metadata]
   in (\<exists>di. db_index_reachable example_rows (\<lambda>_. 0) (\<lambda>_. Ok []) start di \<and> di_events di = finished \<and>
        (\<exists>s. di_scan di = Some s \<and> mset (sc_sent s) = {#7#} \<and> sc_unacked s = 0)) \<and>
      (\<exists>di. db_index_reachable example_rows (\<lambda>_. 0) (\<lambda>_. Ok []) start di \<and> di_events di = finished \<and>
        (\<exists>s. di_scan di = Some s \<and> sc_unacked s = 1) \<and>
        db_index_process (\<lambda>_. 0) (\<lambda>_. Ok []) di FullScanProgress \<noteq> ProgressReply Done)"
proof -
  note exact = full_scan_finished_exact [OF example_token_new_ok example_ring(1) refl example_announced]
  obtain s where s: "scan_reachable example_rows (fullscan_ranges example_token_new [0]) 1 s" "sc_pc s = ScanDone (Ok ())"
    "sc_sent s = [7]" "sc_unsent s = []" "sc_failed s = []"
    by (rule example_scan)
  obtain t where t: "scan_reachable example_rows (fullscan_ranges example_token_new [0]) 1 t" "sc_pc t = ScanDone (Ok ())"
    "sc_failed t = [\<lparr>rt_rows = [], rt_permit = True, rt_length = 2 ^ 63, rt_guards = 1\<rparr>]" "sc_unacked t = 1"
    by (rule failing_scan)
  have "mset (sc_sent s) = {#7#} \<and> sc_unacked s = 0"
    using exact [OF s(1,2)] s(4,5) by (simp add: example_ring(2) example_rows_def TOKEN_MIN_def TOKEN_MAX_def)
  moreover have "db_index_process (\<lambda>_. 0) (\<lambda>_. Ok []) (db_index_new alternator_statements alternator_metadata
        (initial_scan (im_kind alternator_metadata) (Ok (fullscan_ranges example_token_new [0])) (Ok 1))
      \<lparr>di_scan := Some t, di_phase := DbServing, di_events := [FullScanStarted alternator_metadata, FullScanFinished alternator_metadata]\<rparr>)
      FullScanProgress \<noteq> ProgressReply Done"
    using exact [OF t(1,2)] t(3) by simp
  ultimately show ?thesis
    unfolding Let_def using example_announced [OF s(1,2)] example_announced [OF t(1,2)] t(4)
    by (intro conjI exI) (assumption | simp)+
qed

theorem base_table_get_aligned_witness:
  "(case base_table_get example_table (fetch_vectors (Some (Some ())) (\<lambda>_. Ok (Some [1]))) (partition_global (IndexId 32768))
           [new_epoch (PrimaryId 0) (Epoch 1), PrimaryId 1] of
      Inr vs \<Rightarrow> length vs = 2
    | Inl _ \<Rightarrow> False) \<and>
   (case base_table_get example_table (fetch_vectors (Some (Some ())) (\<lambda>_. Err (Bail ''timeout''))) (partition_global (IndexId 32768))
           [new_epoch (PrimaryId 0) (Epoch 1), PrimaryId 1] of
      Inr vs \<Rightarrow> vs = [None, None]
    | Inl e \<Rightarrow> e = Bail ''timeout'')"
  using base_table_get_aligned [where t = example_table and fetch = "\<lambda>_. Ok (Some [1])" and q = "partition_global (IndexId 32768)" and ids = "[new_epoch (PrimaryId 0) (Epoch 1), PrimaryId 1]"]
    base_table_get_aligned [where t = example_table and fetch = "\<lambda>_. Err (Bail ''timeout'')" and q = "partition_global (IndexId 32768)" and ids = "[new_epoch (PrimaryId 0) (Epoch 1), PrimaryId 1]"]
  by (auto split: sum.splits option.splits)

end
