(* ===== verification/Cdc_Consumer.thy ===== *)
theory Cdc_Consumer
  imports Db_Rows_Correct
begin

text \<open>
  The consumers of a CDC reader (\<open>db_cdc/consumer.rs\<close>): which changes of the log are passed on, what
  is read from the base table for them, and the pipeline of consumers, spawned reads and the
  channel to the index that the code runs concurrently.

  The reader library is an argument: a row of the log is its operation, its time and what
  \<open>take_value\<close> answers for a column of the key (the columns of a key are distinct, so no value is
  taken twice). So is the answer of the database to the read of a row.
\<close>

section \<open>Changes of the log\<close>

datatype operation_type =
    PreImage | RowUpdate | RowInsert | RowDelete | PartitionDelete
  | RowRangeDelInclLeft | RowRangeDelExclLeft | RowRangeDelInclRight | RowRangeDelExclRight | PostImage

datatype cdc_operation = CdcUpsert | CdcDelete

record 'uuid cdc_row =
  cr_operation :: operation_type
  cr_time :: 'uuid
  cr_take_value :: "column_name \<Rightarrow> cql_value option"

text \<open>\<open>CdcConsumerData\<close>, without the handles; \<open>cd_lag\<close> is the histogram of the index.\<close>

record cdc_data =
  cd_primary_key_columns :: "column_name list"
  cd_nonpk_partition_key_columns :: "column_name list"
  cd_target_columns :: "column_name list"
  cd_filtering_columns :: "column_name list"
  cd_alternator_decode_types :: "native_type option list"
  cd_kind :: index_kind
  cd_lag :: nat

definition cdc_factory_new ::
  "(column_name \<Rightarrow> column_type option) option \<Rightarrow> unit result \<Rightarrow> nat \<Rightarrow> index_metadata \<Rightarrow> cdc_data result" where
  "cdc_factory_new table prepare_fetch_row lag m =
     and_then (ok_or table (Bail ''table does not exist'')) (\<lambda>columns.
     let filtering_columns = im_nonpk_filtering_columns m;
         nonpk_partition_key_columns = (case im_nonpk_partition_key_columns m of Some cols \<Rightarrow> cols | None \<Rightarrow> []);
         decode_types = alternator_decode_types (nonpk_partition_key_columns @ filtering_columns) m (real_columns_of columns)
     in and_then prepare_fetch_row (\<lambda>_.
        Ok \<lparr>cd_primary_key_columns = im_primary_key_columns m,
            cd_nonpk_partition_key_columns = nonpk_partition_key_columns,
            cd_target_columns = im_target_columns m, cd_filtering_columns = filtering_columns,
            cd_alternator_decode_types = decode_types, cd_kind = im_kind m, cd_lag = lag\<rparr>))"

section \<open>CdcConsumerData\<close>

text \<open>\<open>process_upsert\<close> up to the send; \<open>fetch\<close> is the read of a row.\<close>

definition process_upsert ::
  "decoders \<Rightarrow> cdc_data \<Rightarrow> (primary_key \<Rightarrow> db_value option list option result) \<Rightarrow> cql_value list \<Rightarrow> timestamp \<Rightarrow>
   db_indexed_row result" where
  "process_upsert D cd fetch primary_key timestamp =
     and_then (ik_from_iter primary_key) (\<lambda>primary_key.
     and_then (fetch primary_key) (\<lambda>rows_result.
     case rows_result of
       None \<Rightarrow> Ok \<lparr>row_primary_key = primary_key, row_operation = DbDelete timestamp\<rparr>
     | Some columns \<Rightarrow>
         let target_columns_len = length (cd_target_columns cd);
             columns_len_expected = (target_columns_len + length (cd_nonpk_partition_key_columns cd) +
                                     length (cd_filtering_columns cd)) * 2
         in if length columns \<noteq> columns_len_expected then Err (Bail ''Unexpected number of columns in row'')
            else and_then (parse_values D columns (Some timestamp) target_columns_len (cd_kind cd)
                             (cd_alternator_decode_types cd))
                   (\<lambda>values. Ok \<lparr>row_primary_key = primary_key, row_operation = DbUpsert values\<rparr>)))"

definition process_delete :: "cql_value list \<Rightarrow> timestamp \<Rightarrow> db_indexed_row result" where
  "process_delete primary_key timestamp =
     and_then (ik_from_iter primary_key)
       (\<lambda>primary_key. Ok \<lparr>row_primary_key = primary_key, row_operation = DbDelete timestamp\<rparr>)"

section \<open>CdcConsumer\<close>

record cdc_consumer =
  cc_primary_key :: "cql_value list"
  cc_timestamp :: timestamp
  cc_operation :: cdc_operation

definition new_consumer :: cdc_consumer where
  "new_consumer = \<lparr>cc_primary_key = [], cc_timestamp = Timestamp_MIN, cc_operation = CdcUpsert\<rparr>"

definition operation_of :: "operation_type \<Rightarrow> cdc_operation option" where
  "operation_of operation =
     (case operation of
        PartitionDelete \<Rightarrow> Some CdcDelete
      | RowDelete \<Rightarrow> Some CdcDelete
      | RowUpdate \<Rightarrow> Some CdcUpsert
      | RowInsert \<Rightarrow> Some CdcUpsert
      | PostImage \<Rightarrow> Some CdcUpsert
      | _ \<Rightarrow> None)"

fun collect_option :: "'a option list \<Rightarrow> 'a list option" where
  "collect_option [] = Some []"
| "collect_option (None # xs) = None"
| "collect_option (Some x # xs) = map_option (\<lambda>ys. x # ys) (collect_option xs)"

text \<open>
  \<open>consume_cdc\<close> up to \<open>process_row\<close>: \<open>Ok None\<close> when the row is skipped, and the consumer that
  processes the row otherwise.
\<close>

definition consume_cdc ::
  "cdc_data \<Rightarrow> ('uuid \<Rightarrow> (u64 \<times> u32) option) \<Rightarrow> bool \<Rightarrow> 'uuid cdc_row \<Rightarrow> cdc_consumer \<Rightarrow> cdc_consumer option result" where
  "consume_cdc cd get_timestamp tx_open row self =
     (if \<not> tx_open then Ok None
      else case operation_of (cr_operation row) of
        None \<Rightarrow> Ok None
      | Some operation \<Rightarrow>
          (case collect_option (map (cr_take_value row) (cd_primary_key_columns cd)) of
             None \<Rightarrow> Ok None
           | Some primary_key \<Rightarrow>
               and_then (timestamp_try_from_uuid get_timestamp (cr_time row)) (\<lambda>timestamp.
                 if timestamp = cc_timestamp self \<and> primary_key = cc_primary_key self \<and> operation = cc_operation self
                 then Ok None
                 else Ok (Some (self\<lparr>cc_primary_key := primary_key, cc_timestamp := timestamp, cc_operation := operation\<rparr>)))))"

section \<open>The pipeline\<close>

text \<open>
  The consumers of the readers of one index (one per stream), their spawned reads, the semaphore
  they share and the channel to the index. A consumer that processes an upsert waits for a permit
  (\<open>CdcAcquire\<close>), one that processes a delete waits for room in the channel (\<open>CdcSend\<close>); a spawned
  task first reads the row and then waits for room. \<open>pl_log\<close> records what became of each change,
  in this order: the rows sent to the index are its \<open>ChangeSent\<close> entries, an error is logged.
\<close>

type_synonym change = "cql_value list \<times> timestamp \<times> cdc_operation"

datatype cdc_pc = CdcIdle | CdcAcquire | CdcSend | CdcFailed error

datatype upsert_task =
    UpsertFetch "cql_value list" timestamp
  | UpsertSend "cql_value list" timestamp db_indexed_row

datatype change_outcome = ChangeSent db_indexed_row | ChangeUnsent | ChangeFailed error

record cdc_pipeline =
  pl_consumers :: "(cdc_consumer \<times> cdc_pc) list"
  pl_permits :: nat
  pl_upserts :: "upsert_task list"
  pl_open :: bool
  pl_log :: "(change \<times> change_outcome) list"

definition pipeline_new :: "nat \<Rightarrow> cdc_pipeline" where
  "pipeline_new permits =
     \<lparr>pl_consumers = [], pl_permits = permits, pl_upserts = [], pl_open = True, pl_log = []\<rparr>"

definition change_of_consumer :: "cdc_consumer \<Rightarrow> change" where
  "change_of_consumer c = (cc_primary_key c, cc_timestamp c, cc_operation c)"

text \<open>The rows in the channel, with the token that observes their lag.\<close>

fun sent_rows :: "nat \<Rightarrow> (change \<times> change_outcome) list \<Rightarrow> (db_indexed_row \<times> async_in_progress) list" where
  "sent_rows lag [] = []"
| "sent_rows lag (((key, ts, operation), ChangeSent r) # log) = (r, ProgressCdc lag ts) # sent_rows lag log"
| "sent_rows lag (_ # log) = sent_rows lag log"

definition send_outcome :: "cdc_pipeline \<Rightarrow> db_indexed_row \<Rightarrow> change_outcome" where
  "send_outcome s row = (if pl_open s then ChangeSent row else ChangeUnsent)"

datatype 'uuid cdc_event =
    NewConsumer
  | ConsumeCdc nat "'uuid cdc_row"
  | AcquirePermit nat
  | SendDelete nat
  | FetchRow nat "primary_key \<Rightarrow> db_value option list option result"
  | SendUpsert nat
  | CloseChannel

fun cdc_step ::
  "decoders \<Rightarrow> cdc_data \<Rightarrow> ('uuid \<Rightarrow> (u64 \<times> u32) option) \<Rightarrow> 'uuid cdc_event \<Rightarrow> cdc_pipeline \<Rightarrow> cdc_pipeline option" where
  "cdc_step D cd get_timestamp NewConsumer s =
     Some (s\<lparr>pl_consumers := pl_consumers s @ [(new_consumer, CdcIdle)]\<rparr>)"
| "cdc_step D cd get_timestamp (ConsumeCdc i row) s =
     (case vec_get (pl_consumers s) i of
        Some (c, CdcIdle) \<Rightarrow>
          Some (case consume_cdc cd get_timestamp (pl_open s) row c of
             Inl e \<Rightarrow> s\<lparr>pl_consumers := (pl_consumers s)[i := (c, CdcFailed e)]\<rparr>
           | Inr None \<Rightarrow> s
           | Inr (Some c') \<Rightarrow>
               s\<lparr>pl_consumers := (pl_consumers s)[i := (c', if cc_operation c' = CdcUpsert then CdcAcquire else CdcSend)]\<rparr>)
      | _ \<Rightarrow> None)"
| "cdc_step D cd get_timestamp (AcquirePermit i) s =
     (case vec_get (pl_consumers s) i of
        Some (c, CdcAcquire) \<Rightarrow>
          if 0 < pl_permits s
          then Some (s\<lparr>pl_consumers := (pl_consumers s)[i := (c, CdcIdle)], pl_permits := pl_permits s - 1,
                       pl_upserts := pl_upserts s @ [UpsertFetch (cc_primary_key c) (cc_timestamp c)]\<rparr>)
          else None
      | _ \<Rightarrow> None)"
| "cdc_step D cd get_timestamp (SendDelete i) s =
     (case vec_get (pl_consumers s) i of
        Some (c, CdcSend) \<Rightarrow>
          Some (case process_delete (cc_primary_key c) (cc_timestamp c) of
             Inl e \<Rightarrow> s\<lparr>pl_consumers := (pl_consumers s)[i := (c, CdcFailed e)],
                        pl_log := pl_log s @ [(change_of_consumer c, ChangeFailed e)]\<rparr>
           | Inr row \<Rightarrow> s\<lparr>pl_consumers := (pl_consumers s)[i := (c, CdcIdle)],
                          pl_log := pl_log s @ [(change_of_consumer c, send_outcome s row)]\<rparr>)
      | _ \<Rightarrow> None)"
| "cdc_step D cd get_timestamp (FetchRow j fetch) s =
     (case vec_get (pl_upserts s) j of
        Some (UpsertFetch key ts) \<Rightarrow>
          Some (case process_upsert D cd fetch key ts of
             Inl e \<Rightarrow> s\<lparr>pl_upserts := drop_nth j (pl_upserts s), pl_permits := pl_permits s + 1,
                        pl_log := pl_log s @ [((key, ts, CdcUpsert), ChangeFailed e)]\<rparr>
           | Inr row \<Rightarrow> s\<lparr>pl_upserts := (pl_upserts s)[j := UpsertSend key ts row]\<rparr>)
      | _ \<Rightarrow> None)"
| "cdc_step D cd get_timestamp (SendUpsert j) s =
     (case vec_get (pl_upserts s) j of
        Some (UpsertSend key ts row) \<Rightarrow>
          Some (s\<lparr>pl_upserts := drop_nth j (pl_upserts s), pl_permits := pl_permits s + 1,
                  pl_log := pl_log s @ [((key, ts, CdcUpsert), send_outcome s row)]\<rparr>)
      | _ \<Rightarrow> None)"
| "cdc_step D cd get_timestamp CloseChannel s = Some (s\<lparr>pl_open := False\<rparr>)"

end
