(* ===== verification/Cdc_Consumer_Correct.thy ===== *)
theory Cdc_Consumer_Correct
  imports Cdc_Consumer
begin

text \<open>
  Correctness of the CDC consumers: which changes they process, as a filter of the rows of the log
  with consecutive duplicates removed; that none is lost or repeated between a consumer and the
  channel to the index, whatever the interleaving; that the pipeline drains; and that the rows
  sent are rows the table of the index accepts.
\<close>

section \<open>The changes a consumer processes\<close>

definition change_of :: "cdc_data \<Rightarrow> ('uuid \<Rightarrow> (u64 \<times> u32) option) \<Rightarrow> 'uuid cdc_row \<Rightarrow> change option" where
  "change_of cd get_timestamp row =
     (case operation_of (cr_operation row) of
        None \<Rightarrow> None
      | Some operation \<Rightarrow>
          (case collect_option (map (cr_take_value row) (cd_primary_key_columns cd)) of
             None \<Rightarrow> None
           | Some key \<Rightarrow>
               (case timestamp_try_from_uuid get_timestamp (cr_time row) of
                  Inl _ \<Rightarrow> None
                | Inr ts \<Rightarrow> Some (key, ts, operation))))"

definition changes :: "cdc_data \<Rightarrow> ('uuid \<Rightarrow> (u64 \<times> u32) option) \<Rightarrow> 'uuid cdc_row list \<Rightarrow> change list" where
  "changes cd get_timestamp rows = remdups_adj (List.map_filter (change_of cd get_timestamp) rows)"

lemma remdups_adj_snoc:
  "remdups_adj (xs @ [x]) = (if xs \<noteq> [] \<and> last xs = x then remdups_adj xs else remdups_adj xs @ [x])"
  by (induction xs rule: remdups_adj.induct) auto

lemma changes_nil [simp]: "changes cd get_timestamp [] = []"
  by (simp add: changes_def)

lemma changes_snoc:
  "changes cd get_timestamp (rows @ [row]) =
     (case change_of cd get_timestamp row of
        None \<Rightarrow> changes cd get_timestamp rows
      | Some ch \<Rightarrow>
          if changes cd get_timestamp rows \<noteq> [] \<and> last (changes cd get_timestamp rows) = ch then changes cd get_timestamp rows
          else changes cd get_timestamp rows @ [ch])"
  by (auto simp: changes_def List.map_filter_def remdups_adj_snoc split: option.split)

lemma collect_option_length: "collect_option xs = Some ys \<Longrightarrow> length ys = length xs"
  by (induction xs arbitrary: ys rule: collect_option.induct) auto

lemma collect_option_set: "collect_option xs = Some ys \<Longrightarrow> y \<in> set ys \<longleftrightarrow> Some y \<in> set xs"
  by (induction xs arbitrary: ys rule: collect_option.induct) auto

lemma change_of_key:
  "change_of cd get_timestamp row = Some (key, ts, operation) \<Longrightarrow> length key = length (cd_primary_key_columns cd)"
  by (auto simp: change_of_def dest: collect_option_length split: option.splits sum.splits)

text \<open>What the consumer remembers is the last change it processed.\<close>

definition remembers :: "cdc_consumer \<Rightarrow> change list \<Rightarrow> bool" where
  "remembers c chs \<longleftrightarrow> (if chs = [] then c = new_consumer else change_of_consumer c = last chs)"

lemma remembers_last:
  assumes "remembers c chs" and "key \<noteq> []"
  shows "chs \<noteq> [] \<and> last chs = (key, ts, operation) \<longleftrightarrow>
    ts = cc_timestamp c \<and> key = cc_primary_key c \<and> operation = cc_operation c"
  using assms by (cases "chs = []") (auto simp: remembers_def change_of_consumer_def new_consumer_def)

lemma consume_cdc_changes:
  assumes remembers: "remembers c (changes cd get_timestamp rows)" and key: "cd_primary_key_columns cd \<noteq> []"
  shows "case consume_cdc cd get_timestamp True row c of
      Inl e \<Rightarrow> changes cd get_timestamp (rows @ [row]) = changes cd get_timestamp rows
    | Inr None \<Rightarrow> changes cd get_timestamp (rows @ [row]) = changes cd get_timestamp rows
    | Inr (Some c') \<Rightarrow> changes cd get_timestamp (rows @ [row]) = changes cd get_timestamp rows @ [change_of_consumer c']"
proof (cases "change_of cd get_timestamp row")
  case None
  then show ?thesis
    by (auto simp: consume_cdc_def change_of_def changes_snoc split: option.splits sum.splits)
next
  case (Some ch)
  obtain k ts operation where ch: "ch = (k, ts, operation)" by (cases ch)
  have "k \<noteq> []" using change_of_key [OF Some [unfolded ch]] key by auto
  note last = remembers_last [OF remembers this, of ts operation]
  have step: "consume_cdc cd get_timestamp True row c =
      (if ts = cc_timestamp c \<and> k = cc_primary_key c \<and> operation = cc_operation c then Ok None
       else Ok (Some (c\<lparr>cc_primary_key := k, cc_timestamp := ts, cc_operation := operation\<rparr>)))"
    using Some by (auto simp: consume_cdc_def change_of_def ch split: option.splits sum.splits)
  show ?thesis
    unfolding step changes_snoc Some option.case ch last by (simp add: change_of_consumer_def)
qed

section \<open>No change is lost\<close>

text \<open>The rows each consumer has been given, beside the state of the pipeline.\<close>

fun history :: "'uuid cdc_event \<Rightarrow> 'uuid cdc_row list list \<Rightarrow> 'uuid cdc_row list list" where
  "history NewConsumer hs = hs @ [[]]"
| "history (ConsumeCdc i row) hs = hs[i := hs ! i @ [row]]"
| "history _ hs = hs"

inductive cdc_run ::
  "decoders \<Rightarrow> cdc_data \<Rightarrow> ('uuid \<Rightarrow> (u64 \<times> u32) option) \<Rightarrow> nat \<Rightarrow> 'uuid cdc_row list list \<Rightarrow> cdc_pipeline \<Rightarrow> bool"
  for D cd get_timestamp limit where
  cdc_start: "cdc_run D cd get_timestamp limit [] (pipeline_new limit)"
| cdc_next: "cdc_run D cd get_timestamp limit hs s \<Longrightarrow> cdc_step D cd get_timestamp ev s = Some s' \<Longrightarrow>
    cdc_run D cd get_timestamp limit (history ev hs) s'"

fun upsert_change :: "upsert_task \<Rightarrow> change" where
  "upsert_change (UpsertFetch key ts) = (key, ts, CdcUpsert)"
| "upsert_change (UpsertSend key ts row) = (key, ts, CdcUpsert)"

definition in_progress :: "cdc_consumer \<times> cdc_pc \<Rightarrow> change multiset" where
  "in_progress cp = (if snd cp \<in> {CdcAcquire, CdcSend} then {#change_of_consumer (fst cp)#} else {#})"

definition pending :: "cdc_pipeline \<Rightarrow> change multiset" where
  "pending s = sum_list (map in_progress (pl_consumers s)) + mset (map upsert_change (pl_upserts s))"

fun outcome_ok :: "decoders \<Rightarrow> cdc_data \<Rightarrow> change \<times> change_outcome \<Rightarrow> bool" where
  "outcome_ok D cd ((key, ts, CdcDelete), ChangeSent row) = (process_delete key ts = Ok row)"
| "outcome_ok D cd ((key, ts, CdcUpsert), ChangeSent row) = (\<exists>fetch. process_upsert D cd fetch key ts = Ok row)"
| "outcome_ok D cd ((key, ts, CdcDelete), ChangeFailed e) = (process_delete key ts = Err e)"
| "outcome_ok D cd ((key, ts, CdcUpsert), ChangeFailed e) = (\<exists>fetch. process_upsert D cd fetch key ts = Err e)"
| "outcome_ok D cd (ch, ChangeUnsent) = False"

fun task_ok :: "decoders \<Rightarrow> cdc_data \<Rightarrow> upsert_task \<Rightarrow> bool" where
  "task_ok D cd (UpsertFetch key ts) = True"
| "task_ok D cd (UpsertSend key ts row) = (\<exists>fetch. process_upsert D cd fetch key ts = Ok row)"

fun pc_ok :: "cdc_consumer \<times> cdc_pc \<Rightarrow> bool" where
  "pc_ok (c, CdcAcquire) = (cc_operation c = CdcUpsert)"
| "pc_ok (c, CdcSend) = (cc_operation c = CdcDelete)"
| "pc_ok (c, _) = True"

definition cdc_inv ::
  "decoders \<Rightarrow> cdc_data \<Rightarrow> ('uuid \<Rightarrow> (u64 \<times> u32) option) \<Rightarrow> nat \<Rightarrow> 'uuid cdc_row list list \<Rightarrow> cdc_pipeline \<Rightarrow> bool" where
  "cdc_inv D cd get_timestamp limit hs s \<longleftrightarrow>
     pl_permits s + length (pl_upserts s) = limit \<and> list_all pc_ok (pl_consumers s) \<and> length hs = length (pl_consumers s) \<and>
     (pl_open s \<longrightarrow>
        (\<forall>i<length hs. remembers (fst (pl_consumers s ! i)) (changes cd get_timestamp (hs ! i))) \<and>
        list_all (task_ok D cd) (pl_upserts s) \<and> list_all (outcome_ok D cd) (pl_log s) \<and>
        sum_list (map (\<lambda>rows. mset (changes cd get_timestamp rows)) hs) = mset (map fst (pl_log s)) + pending s)"

lemma list_all_update: "list_all P xs \<Longrightarrow> P y \<Longrightarrow> list_all P (xs[i := y])"
  by (auto simp: list_all_iff dest: set_update_subset_insert [THEN subsetD])

lemma list_all_drop_nth: "list_all P xs \<Longrightarrow> list_all P (drop_nth i xs)"
  by (auto simp: list_all_iff dest: set_drop_nth [THEN subsetD])

lemma mset_drop_nth: "i < length xs \<Longrightarrow> mset (map f xs) = mset (map f (drop_nth i xs)) + {#f (xs ! i)#}"
  by (subst id_take_nth_drop [of i xs]) (simp_all add: drop_nth_def)

lemma pending_consumer:
  assumes "i < length (pl_consumers s)"
  shows "pending (s\<lparr>pl_consumers := (pl_consumers s)[i := cp]\<rparr>) + in_progress (pl_consumers s ! i) = pending s + in_progress cp"
  using sum_list_update [OF assms, of in_progress cp] by (simp add: pending_def ac_simps)

lemma inv_new_consumer:
  "cdc_inv D cd get_timestamp limit hs s \<Longrightarrow> cdc_step D cd get_timestamp NewConsumer s = Some s' \<Longrightarrow>
   cdc_inv D cd get_timestamp limit (history NewConsumer hs) s'"
  by (auto simp: cdc_inv_def nth_append remembers_def less_Suc_eq pending_def in_progress_def)

lemma inv_consume_cdc:
  assumes inv: "cdc_inv D cd get_timestamp limit hs s" and key: "cd_primary_key_columns cd \<noteq> []"
    and step: "cdc_step D cd get_timestamp (ConsumeCdc i row) s = Some s'"
  shows "cdc_inv D cd get_timestamp limit (history (ConsumeCdc i row) hs) s'"
proof -
  let ?ch = "changes cd get_timestamp" and ?sum = "\<lambda>hs. sum_list (map (\<lambda>rows. mset (changes cd get_timestamp rows)) hs)"
  obtain c where c: "i < length (pl_consumers s)" "pl_consumers s ! i = (c, CdcIdle)"
    using step by (auto split: option.splits prod.splits cdc_pc.splits)
  have i: "i < length hs" and wf: "length hs = length (pl_consumers s)"
    using inv c(1) by (auto simp: cdc_inv_def)
  let ?r = "consume_cdc cd get_timestamp (pl_open s) row c"
  have s': "s' = (case ?r of
       Inl e \<Rightarrow> s\<lparr>pl_consumers := (pl_consumers s)[i := (c, CdcFailed e)]\<rparr>
     | Inr None \<Rightarrow> s
     | Inr (Some c') \<Rightarrow>
         s\<lparr>pl_consumers := (pl_consumers s)[i := (c', if cc_operation c' = CdcUpsert then CdcAcquire else CdcSend)]\<rparr>)"
    using step c by (simp add: vec_get_def)
  show ?thesis
  proof (cases "pl_open s")
    case False
    then have "s' = s" by (simp add: s' consume_cdc_def)
    then show ?thesis using inv False by (simp add: cdc_inv_def)
  next
    case True
    have mem: "remembers c (?ch (hs ! i))" using inv True i c(2) by (auto simp: cdc_inv_def)
    have "?sum (hs[i := hs ! i @ [row]]) + mset (?ch (hs ! i)) = ?sum hs + mset (?ch (hs ! i @ [row]))"
      using sum_list_update [OF i, where f = "\<lambda>rows. mset (?ch rows)"] by simp
    note sum = this
    note cases = consume_cdc_changes [OF mem key, of row]
    consider (failed) e where "?r = Err e" | (skipped) "?r = Ok None" | (taken) c' where "?r = Ok (Some c')"
      by (cases ?r) (auto split: option.splits)
    then show ?thesis
    proof cases
      case failed
      then have same: "?ch (hs ! i @ [row]) = ?ch (hs ! i)" using cases True by simp
      then have "?sum (hs[i := hs ! i @ [row]]) = ?sum hs" using sum by simp
      moreover have "pending (s\<lparr>pl_consumers := (pl_consumers s)[i := (c, CdcFailed e)]\<rparr>) = pending s"
        using pending_consumer [OF c(1), of "(c, CdcFailed e)"] c(2) by (simp add: in_progress_def)
      ultimately show ?thesis
        using inv True mem same c i
        by (auto simp: s' [unfolded failed] cdc_inv_def list_all_update nth_list_update)
    next
      case skipped
      then have same: "?ch (hs ! i @ [row]) = ?ch (hs ! i)" using cases True by simp
      then have "?sum (hs[i := hs ! i @ [row]]) = ?sum hs" using sum by simp
      then show ?thesis
        using inv True mem same c i
        by (auto simp: s' [unfolded skipped] cdc_inv_def nth_list_update)
    next
      case taken
      then have more: "?ch (hs ! i @ [row]) = ?ch (hs ! i) @ [change_of_consumer c']" using cases True by simp
      then have "?sum (hs[i := hs ! i @ [row]]) = ?sum hs + {#change_of_consumer c'#}" using sum by simp
      moreover let ?cp = "(c', if cc_operation c' = CdcUpsert then CdcAcquire else CdcSend)"
      have "pending (s\<lparr>pl_consumers := (pl_consumers s)[i := ?cp]\<rparr>) = pending s + {#change_of_consumer c'#}"
        using pending_consumer [OF c(1), of ?cp] c(2) by (simp add: in_progress_def)
      moreover have "pc_ok ?cp" by (cases "cc_operation c'") auto
      moreover have "remembers c' (?ch (hs ! i @ [row]))" by (simp add: more remembers_def)
      ultimately show ?thesis
        using inv True c i
        by (auto simp: s' [unfolded taken] cdc_inv_def list_all_update nth_list_update)
    qed
  qed
qed

lemma inv_acquire_permit:
  assumes inv: "cdc_inv D cd get_timestamp limit hs s" and step: "cdc_step D cd get_timestamp (AcquirePermit i) s = Some s'"
  shows "cdc_inv D cd get_timestamp limit hs s'"
proof -
  obtain c where c: "i < length (pl_consumers s)" "pl_consumers s ! i = (c, CdcAcquire)" "0 < pl_permits s"
    and s': "s' = s\<lparr>pl_consumers := (pl_consumers s)[i := (c, CdcIdle)], pl_permits := pl_permits s - 1,
                    pl_upserts := pl_upserts s @ [UpsertFetch (cc_primary_key c) (cc_timestamp c)]\<rparr>"
    using step by (auto split: option.splits prod.splits cdc_pc.splits if_splits)
  have "pc_ok (pl_consumers s ! i)" using inv c(1) by (auto simp: cdc_inv_def list_all_length)
  then have "change_of_consumer c = (cc_primary_key c, cc_timestamp c, CdcUpsert)"
    by (simp add: c(2) change_of_consumer_def)
  moreover have "pending (s\<lparr>pl_consumers := (pl_consumers s)[i := (c, CdcIdle)]\<rparr>) + {#change_of_consumer c#} = pending s"
    using pending_consumer [OF c(1), of "(c, CdcIdle)"] c(2) by (simp add: in_progress_def)
  ultimately have "pending s' = pending s"
    by (simp add: s' pending_def ac_simps)
  moreover have "fst ((pl_consumers s)[i := (c, CdcIdle)] ! j) = fst (pl_consumers s ! j)" for j
    using c by (cases "i = j") simp_all
  ultimately show ?thesis
    using inv c(3) by (auto simp: s' cdc_inv_def list_all_update)
qed

lemma inv_send_delete:
  assumes inv: "cdc_inv D cd get_timestamp limit hs s" and step: "cdc_step D cd get_timestamp (SendDelete i) s = Some s'"
  shows "cdc_inv D cd get_timestamp limit hs s'"
proof -
  obtain c where c: "i < length (pl_consumers s)" "pl_consumers s ! i = (c, CdcSend)"
    using step by (auto split: option.splits prod.splits cdc_pc.splits)
  have "pc_ok (pl_consumers s ! i)" using inv c(1) by (auto simp: cdc_inv_def list_all_length)
  then have ch: "change_of_consumer c = (cc_primary_key c, cc_timestamp c, CdcDelete)"
    by (simp add: c(2) change_of_consumer_def)
  obtain pc out where s': "s' = s\<lparr>pl_consumers := (pl_consumers s)[i := (c, pc)],
      pl_log := pl_log s @ [(change_of_consumer c, out)]\<rparr>" and pc: "pc = CdcIdle \<or> (\<exists>e. pc = CdcFailed e)"
    and out: "pl_open s \<longrightarrow> outcome_ok D cd (change_of_consumer c, out)"
    using step c by (cases "process_delete (cc_primary_key c) (cc_timestamp c)") (auto simp: vec_get_def ch send_outcome_def)
  have "pending (s\<lparr>pl_consumers := (pl_consumers s)[i := (c, pc)]\<rparr>) + {#change_of_consumer c#} = pending s"
    using pending_consumer [OF c(1), of "(c, pc)"] c(2) pc by (auto simp: in_progress_def)
  then have "pending s' + {#change_of_consumer c#} = pending s"
    by (simp add: s' pending_def)
  then have "mset (map fst (pl_log s')) + pending s' = mset (map fst (pl_log s)) + pending s"
    by (simp add: s' ac_simps)
  moreover have "fst ((pl_consumers s)[i := (c, pc)] ! j) = fst (pl_consumers s ! j)" for j
    using c by (cases "i = j") simp_all
  ultimately show ?thesis
    using inv out pc by (auto simp: s' cdc_inv_def list_all_update)
qed

lemma inv_task:
  assumes inv: "cdc_inv D cd get_timestamp limit hs s" and j: "j < length (pl_upserts s)"
    and s': "s' = s\<lparr>pl_upserts := drop_nth j (pl_upserts s), pl_permits := pl_permits s + 1,
                    pl_log := pl_log s @ [(upsert_change (pl_upserts s ! j), out)]\<rparr>"
    and out: "pl_open s \<longrightarrow> outcome_ok D cd (upsert_change (pl_upserts s ! j), out)"
  shows "cdc_inv D cd get_timestamp limit hs s'"
proof -
  have "mset (map fst (pl_log s')) + pending s' = mset (map fst (pl_log s)) + pending s"
    using mset_drop_nth [OF j, of upsert_change] by (simp add: s' pending_def ac_simps)
  then show ?thesis
    using inv out j by (auto simp: s' cdc_inv_def list_all_drop_nth)
qed

lemma inv_fetch_row:
  assumes inv: "cdc_inv D cd get_timestamp limit hs s" and step: "cdc_step D cd get_timestamp (FetchRow j fetch) s = Some s'"
  shows "cdc_inv D cd get_timestamp limit hs s'"
proof -
  obtain key ts where j: "j < length (pl_upserts s)" "pl_upserts s ! j = UpsertFetch key ts"
    using step by (auto split: option.splits upsert_task.splits)
  show ?thesis
  proof (cases "process_upsert D cd fetch key ts")
    case (Inl e)
    then have "s' = s\<lparr>pl_upserts := drop_nth j (pl_upserts s), pl_permits := pl_permits s + 1,
                    pl_log := pl_log s @ [(upsert_change (pl_upserts s ! j), ChangeFailed e)]\<rparr>"
      using step j by (simp add: vec_get_def)
    with inv j(1) show ?thesis by (rule inv_task) (use Inl j(2) in auto)
  next
    case (Inr row)
    then have s': "s' = s\<lparr>pl_upserts := (pl_upserts s)[j := UpsertSend key ts row]\<rparr>"
      using step j by (simp add: vec_get_def)
    have "map upsert_change ((pl_upserts s)[j := UpsertSend key ts row]) = map upsert_change (pl_upserts s)"
      using j by (simp add: map_update list_update_same_conv)
    from arg_cong [OF this, of mset] have "pending s' = pending s" by (simp add: s' pending_def)
    then show ?thesis
      using inv Inr by (auto simp: s' cdc_inv_def intro!: list_all_update)
  qed
qed

lemma inv_send_upsert:
  assumes inv: "cdc_inv D cd get_timestamp limit hs s" and step: "cdc_step D cd get_timestamp (SendUpsert j) s = Some s'"
  shows "cdc_inv D cd get_timestamp limit hs s'"
proof -
  obtain key ts row where j: "j < length (pl_upserts s)" "pl_upserts s ! j = UpsertSend key ts row"
    and s': "s' = s\<lparr>pl_upserts := drop_nth j (pl_upserts s), pl_permits := pl_permits s + 1,
                    pl_log := pl_log s @ [(upsert_change (pl_upserts s ! j), send_outcome s row)]\<rparr>"
    using step by (auto split: option.splits upsert_task.splits)
  have "pl_open s \<longrightarrow> task_ok D cd (pl_upserts s ! j)"
    using inv j(1) by (auto simp: cdc_inv_def list_all_length)
  then show ?thesis
    using j by (intro inv_task [OF inv j(1) s']) (auto simp: send_outcome_def)
qed

lemma cdc_inv_step:
  assumes "cdc_inv D cd get_timestamp limit hs s" and "cd_primary_key_columns cd \<noteq> []"
    and "cdc_step D cd get_timestamp ev s = Some s'"
  shows "cdc_inv D cd get_timestamp limit (history ev hs) s'"
proof (cases ev)
  case CloseChannel
  then show ?thesis using assms by (auto simp: cdc_inv_def)
qed (use assms inv_new_consumer inv_consume_cdc inv_acquire_permit inv_send_delete inv_fetch_row inv_send_upsert in \<open>auto simp del: cdc_step.simps\<close>)

lemma cdc_run_inv:
  assumes "cdc_run D cd get_timestamp limit hs s" and "cd_primary_key_columns cd \<noteq> []"
  shows "cdc_inv D cd get_timestamp limit hs s"
  using assms(1)
proof induction
  case cdc_start
  then show ?case by (simp add: cdc_inv_def pipeline_new_def pending_def)
next
  case (cdc_next hs s ev s')
  then show ?case using assms(2) cdc_inv_step by blast
qed

section \<open>The pipeline drains\<close>

fun consumer_weight :: "cdc_consumer \<times> cdc_pc \<Rightarrow> nat" where
  "consumer_weight (c, CdcAcquire) = 3"
| "consumer_weight (c, CdcSend) = 1"
| "consumer_weight (c, _) = 0"

fun upsert_weight :: "upsert_task \<Rightarrow> nat" where
  "upsert_weight (UpsertFetch key ts) = 2"
| "upsert_weight (UpsertSend key ts row) = 1"

definition cdc_weight :: "cdc_pipeline \<Rightarrow> nat" where
  "cdc_weight s = sum_list (map consumer_weight (pl_consumers s)) + sum_list (map upsert_weight (pl_upserts s))"

text \<open>The steps that need nothing new from the reader.\<close>

fun own_step :: "'uuid cdc_event \<Rightarrow> bool" where
  "own_step (AcquirePermit i) = True"
| "own_step (SendDelete i) = True"
| "own_step (FetchRow j fetch) = True"
| "own_step (SendUpsert j) = True"
| "own_step _ = False"

lemma cdc_weight_decreases:
  assumes "own_step ev" and "cdc_step D cd get_timestamp ev s = Some s'"
  shows "cdc_weight s' < cdc_weight s"
proof (cases ev)
  case (AcquirePermit i)
  then obtain c where c: "i < length (pl_consumers s)" "pl_consumers s ! i = (c, CdcAcquire)"
    and s': "pl_consumers s' = (pl_consumers s)[i := (c, CdcIdle)]"
      "pl_upserts s' = pl_upserts s @ [UpsertFetch (cc_primary_key c) (cc_timestamp c)]"
    using assms(2) by (auto split: option.splits prod.splits cdc_pc.splits if_splits)
  then show ?thesis
    using sum_list_update [OF c(1), of consumer_weight "(c, CdcIdle)"] by (simp add: cdc_weight_def)
next
  case (SendDelete i)
  then obtain c pc where c: "i < length (pl_consumers s)" "pl_consumers s ! i = (c, CdcSend)"
    and s': "pl_consumers s' = (pl_consumers s)[i := (c, pc)]" "pl_upserts s' = pl_upserts s" "consumer_weight (c, pc) = 0"
    using assms(2) by (auto split: option.splits prod.splits cdc_pc.splits sum.splits)
  then show ?thesis
    using sum_list_update [OF c(1), of consumer_weight "(c, pc)"] by (simp add: cdc_weight_def)
next
  case (FetchRow j fetch)
  then obtain key ts where j: "j < length (pl_upserts s)" "pl_upserts s ! j = UpsertFetch key ts"
    using assms(2) by (auto split: option.splits upsert_task.splits)
  show ?thesis
  proof (cases "process_upsert D cd fetch key ts")
    case (Inl e)
    then show ?thesis
      using sum_list_drop_nth [OF j(1), of upsert_weight] assms(2) FetchRow j by (auto simp: cdc_weight_def vec_get_def)
  next
    case (Inr row)
    then show ?thesis
      using sum_list_update [OF j(1), of upsert_weight "UpsertSend key ts row"] assms(2) FetchRow j
      by (auto simp: cdc_weight_def vec_get_def)
  qed
next
  case (SendUpsert j)
  then obtain key ts row where j: "j < length (pl_upserts s)" "pl_upserts s ! j = UpsertSend key ts row"
    and s': "pl_consumers s' = pl_consumers s" "pl_upserts s' = drop_nth j (pl_upserts s)"
    using assms(2) by (auto split: option.splits upsert_task.splits)
  then show ?thesis
    using sum_list_drop_nth [OF j(1), of upsert_weight] by (simp add: cdc_weight_def)
qed (use assms(1) in auto)

lemma positive_summand: "0 < sum_list (map f xs) \<Longrightarrow> \<exists>i<length xs. 0 < (f (xs ! i) :: nat)"
  by (induction xs) (auto simp: nth_Cons split: nat.splits)

lemma upsert_moves:
  assumes "j < length (pl_upserts s)"
  shows "\<exists>ev s'. own_step ev \<and> cdc_step D cd get_timestamp ev s = Some s'"
proof (cases "pl_upserts s ! j")
  case (UpsertFetch key ts)
  then have "cdc_step D cd get_timestamp (FetchRow j (\<lambda>_. Ok None)) s \<noteq> None"
    using assms by (simp add: vec_get_def)
  then show ?thesis by (meson not_None_eq own_step.simps(3))
next
  case (UpsertSend key ts row)
  then have "cdc_step D cd get_timestamp (SendUpsert j) s \<noteq> None"
    using assms by (simp add: vec_get_def)
  then show ?thesis by (meson not_None_eq own_step.simps(4))
qed

lemma cdc_not_stuck:
  assumes "pl_permits s + length (pl_upserts s) = limit" and "0 < limit" and "0 < cdc_weight s"
  shows "\<exists>ev s'. own_step ev \<and> cdc_step D cd get_timestamp ev s = Some s'"
proof (cases "pl_upserts s = []")
  case True
  then have "0 < sum_list (map consumer_weight (pl_consumers s))" using assms(3) by (simp add: cdc_weight_def)
  then obtain i c pc where i: "i < length (pl_consumers s)" "pl_consumers s ! i = (c, pc)" "0 < consumer_weight (c, pc)"
    using positive_summand by (metis surj_pair)
  then consider "pc = CdcAcquire" | "pc = CdcSend" by (cases pc) auto
  then show ?thesis
  proof cases
    case 1
    then have "cdc_step D cd get_timestamp (AcquirePermit i) s \<noteq> None"
      using i assms(1,2) True by (simp add: vec_get_def)
    then show ?thesis by (meson not_None_eq own_step.simps(1))
  next
    case 2
    then have "cdc_step D cd get_timestamp (SendDelete i) s \<noteq> None"
      using i by (simp add: vec_get_def)
    then show ?thesis by (meson not_None_eq own_step.simps(2))
  qed
next
  case False
  then show ?thesis using upsert_moves [of 0 s] by simp
qed

lemma pending_weight:
  assumes "cdc_weight s = 0"
  shows "pending s = {#}"
proof -
  have upserts: "pl_upserts s = []"
  proof (cases "pl_upserts s")
    case (Cons u us)
    then show ?thesis using assms by (cases u) (auto simp: cdc_weight_def)
  qed
  have "in_progress (c, pc) = {#}" if "(c, pc) \<in> set (pl_consumers s)" for c pc
    using assms that by (cases pc) (force simp: cdc_weight_def in_progress_def)+
  moreover have "\<forall>x\<in>set xs. f x = {#} \<Longrightarrow> sum_list (map f xs) = {#}" for xs and f :: "cdc_consumer \<times> cdc_pc \<Rightarrow> change multiset"
    by (induction xs) simp_all
  ultimately have "sum_list (map in_progress (pl_consumers s)) = {#}" by (metis surj_pair)
  then show ?thesis by (simp add: pending_def upserts)
qed

section \<open>The rows sent\<close>

lemma cdc_factory_fields:
  assumes "cdc_factory_new (Some columns) prepared lag m = Ok cd" and "statements_new w m = Ok st" and "tw_table w = Some columns"
  shows "cd_target_columns cd = im_target_columns m" and "cd_kind cd = im_kind m"
    and "cd_primary_key_columns cd = im_primary_key_columns m"
    and "cd_nonpk_partition_key_columns cd @ cd_filtering_columns cd = stored_columns st"
    and "cd_alternator_decode_types cd = alternator_decode_types (stored_columns st) m (real_columns_of columns)"
  using assms
  by (auto simp: cdc_factory_new_def statements_new_def stored_columns_def Let_def result_simps split: if_splits)

lemma fetched_values_typed:
  assumes D: "decoders_ok D" and factory: "cdc_factory_new (Some columns) prepared lag m = Ok cd"
    and new: "statements_new w m = Ok st" "tw_table w = Some columns"
    and one: "length (im_target_columns m) = 1" and cells: "cells_conform (real_columns_of columns) (stored_columns st) 1 cols"
    and len: "length cols = (1 + length (cd_nonpk_partition_key_columns cd) + length (cd_filtering_columns cd)) * 2"
    and parse: "parse_values D cols (Some ts) 1 (cd_kind cd) (cd_alternator_decode_types cd) = Ok vals"
  shows "values_typed (im_kind m) (st_table_columns st) (stored_columns st) vals"
proof -
  note c = cdc_factory_fields [OF factory new]
  have pairs: "length cols = 2 * length vals" "\<And>i. i < length vals \<Longrightarrow>
      parse_pair D ts 1 (im_kind m) (alternator_decode_types (stored_columns st) m (real_columns_of columns)) cols 0 i = Ok (vals ! i)"
    using parse by (simp_all add: parse_values_iff c(2,5))
  have "length (stored_columns st) = length (cd_nonpk_partition_key_columns cd) + length (cd_filtering_columns cd)"
    by (simp flip: c(4))
  then have "length vals = Suc (length (stored_columns st))" using pairs(1) len by simp
  then show ?thesis
    unfolding statements_new_fields(5) [OF new]
    using pairs(2) by (intro cells_typed [OF D _ cells])
qed

lemma storable_key:
  assumes "list_all storable key"
  obtains pk where "ik_from_iter key = Ok pk" and "key_of (take 255 key) pk"
proof -
  have "\<forall>v\<in>set (take 255 key). is_ok (encode_value v)"
    using assms by (auto simp: list_all_iff storable_def dest: in_set_takeD)
  then have "is_ok (collect_result encode_value (take 255 key))"
    by (simp add: collect_result_total)
  then obtain pk where "ik_from_iter key = Ok pk" by (cases "ik_from_iter key") (auto simp: from_iter_eq result_simps)
  moreover from this have "key_of (take 255 key) pk"
    using assms by (intro from_iter_key_of) (auto simp: list_all_iff storable_def)
  ultimately show thesis using that by blast
qed

section \<open>Properties\<close>

text \<open>
  C9: no change is lost and none is repeated. Run any number of CDC consumers with any interleaving
  of the rows of the log, permits, spawned reads and sends, while the index listens. The changes
  to process are, for each consumer, the supported rows with a full key and a valid time, without
  those that repeat the change just before them. At any moment they are exactly those sent or
  failed with a logged error and those still in progress; each row sent is the deletion, or the
  outcome of the read, for its change, with its time; and with no step left nothing is in progress.
\<close>

theorem cdc_changes_exact:
  assumes "cdc_run D cd get_timestamp limit hs s" and "cd_primary_key_columns cd \<noteq> []" and "pl_open s"
  shows "sum_list (map (\<lambda>rows. mset (changes cd get_timestamp rows)) hs) = mset (map fst (pl_log s)) + pending s \<and>
    list_all (outcome_ok D cd) (pl_log s) \<and> (cdc_weight s = 0 \<longrightarrow> pending s = {#})"
  using cdc_run_inv [OF assms(1,2)] assms(3) pending_weight by (auto simp: cdc_inv_def)

text \<open>
  C23: the pipeline drains. In every run with at least one permit, whatever the interleaving and
  whether or not the index still listens: as long as a consumer or a spawned read is busy, one of
  them can move without a new row of the log (no deadlock on the permits), and every such move
  brings the pipeline closer to idle, so that it is idle after at most \<open>cdc_weight\<close> of them.
\<close>

theorem cdc_drains:
  assumes "cdc_run D cd get_timestamp limit hs s" and "cd_primary_key_columns cd \<noteq> []" and "0 < limit"
  shows "(0 < cdc_weight s \<longrightarrow> (\<exists>ev s'. own_step ev \<and> cdc_step D cd get_timestamp ev s = Some s')) \<and>
    (\<forall>ev s'. own_step ev \<longrightarrow> cdc_step D cd get_timestamp ev s = Some s' \<longrightarrow> cdc_weight s' < cdc_weight s)"
proof -
  have "pl_permits s + length (pl_upserts s) = limit"
    using cdc_run_inv [OF assms(1,2)] by (simp add: cdc_inv_def)
  from cdc_not_stuck [OF this assms(3), of D cd get_timestamp] show ?thesis
    using cdc_weight_decreases by blast
qed

text \<open>
  C24: rows that come by CDC are well typed. Prepare the statements of an index and its consumers
  from the schema of the base table, create the table of the index with the types the statements
  report, and let the monitor of items process any rows. For a change with storable key values
  and a row that conforms to the schema, processing an upsert does not panic, and the row it sends
  satisfies what the pipeline relies on; unless a filtering value is the empty value, the table
  accepts it, as it accepts a scanned row: both ways into the index decode alike.
\<close>

theorem cdc_row_accepted:
  assumes "decoders_ok D" and "cdc_factory_new (Some columns) prepared lag m = Ok cd"
    and "statements_new w m = Ok st" and "tw_table w = Some columns"
    and "length (im_target_columns m) = 1" and "build_table key m (st_table_columns st) = Ok (mo_table mo)"
    and "list_all storable primary_key" and "no_panic (fetch (projr (ik_from_iter primary_key)))"
    and "\<forall>pk cols. fetch pk = Ok (Some cols) \<longrightarrow> cells_conform (real_columns_of columns) (stored_columns st) 1 cols"
  shows "case process_upsert D cd fetch primary_key ts of
      Inl e \<Rightarrow> (\<exists>msg. e = Bail msg)
    | Inr r \<Rightarrow>
        row_ok (kind_fits (im_kind m)) r \<and>
        (\<forall>values. row_operation r = DbUpsert values \<longrightarrow> no_empty values \<longrightarrow>
           row_accepted (mo_table (snd (monitor_run d dispatch key rows mo))) key values)"
proof -
  obtain pk where pk: "ik_from_iter primary_key = Ok pk" "key_of (take 255 primary_key) pk"
    by (rule storable_key [OF assms(7)])
  note c = cdc_factory_fields [OF assms(2-4)]
  have one: "length (cd_target_columns cd) = 1" by (simp add: c(1) assms(5))
  show ?thesis
  proof (cases "fetch pk")
    case (Inl e)
    then show ?thesis using assms(8) pk(1) by (cases e) (simp_all add: process_upsert_def)
  next
    case (Inr o1)
    show ?thesis
    proof (cases o1)
      case None
      then show ?thesis using Inr pk by (auto simp: process_upsert_def row_ok_def)
    next
      case (Some cols)
      let ?expected = "(1 + length (cd_nonpk_partition_key_columns cd) + length (cd_filtering_columns cd)) * 2"
      let ?parsed = "parse_values D cols (Some ts) 1 (cd_kind cd) (cd_alternator_decode_types cd)"
      have outcome: "process_upsert D cd fetch primary_key ts =
          (if length cols \<noteq> ?expected then Err (Bail ''Unexpected number of columns in row'')
           else and_then ?parsed (\<lambda>values. Ok \<lparr>row_primary_key = pk, row_operation = DbUpsert values\<rparr>))"
        by (simp add: process_upsert_def pk(1) Inr Some one)
      have cells: "cells_conform (real_columns_of columns) (stored_columns st) 1 cols"
        using assms(9) Inr Some by blast
      show ?thesis
      proof (cases "length cols = ?expected")
        case True
        show ?thesis
        proof (cases ?parsed)
          case (Inl e)
          moreover have "no_panic ?parsed" by (rule parse_values_no_panic) simp
          ultimately show ?thesis using True by (cases e) (simp_all add: outcome)
        next
          case (Inr vals)
          have typed: "values_typed (im_kind m) (st_table_columns st) (stored_columns st) vals"
            using fetched_values_typed [OF assms(1-5) cells True Inr] .
          note ok = typed_row_accepted [OF assms(3,4,6) typed pk(2)]
          show ?thesis
            using ok(1) ok(2) [where d = d and dispatch = dispatch and rows = rows] True Inr by (simp add: outcome)
        qed
      qed (simp add: outcome)
    qed
  qed
qed

section \<open>Witnesses\<close>

fun cdc_steps ::
  "decoders \<Rightarrow> cdc_data \<Rightarrow> ('uuid \<Rightarrow> (u64 \<times> u32) option) \<Rightarrow> 'uuid cdc_event list \<Rightarrow>
   'uuid cdc_row list list \<times> cdc_pipeline \<Rightarrow> ('uuid cdc_row list list \<times> cdc_pipeline) option" where
  "cdc_steps D cd get_timestamp [] hs = Some hs"
| "cdc_steps D cd get_timestamp (ev # evs) (hs, s) =
     (case cdc_step D cd get_timestamp ev s of
        None \<Rightarrow> None
      | Some s' \<Rightarrow> cdc_steps D cd get_timestamp evs (history ev hs, s'))"

lemma cdc_steps_run:
  "cdc_run D cd get_timestamp limit hs s \<Longrightarrow> cdc_steps D cd get_timestamp evs (hs, s) = Some (hs', s') \<Longrightarrow>
   cdc_run D cd get_timestamp limit hs' s'"
proof (induction evs arbitrary: hs s)
  case (Cons ev evs)
  then obtain s1 where "cdc_step D cd get_timestamp ev s = Some s1"
    "cdc_steps D cd get_timestamp evs (history ev hs, s1) = Some (hs', s')"
    by (auto split: option.splits)
  then show ?case using Cons.IH cdc_next [OF Cons.prems(1)] by blast
qed simp

text \<open>
  The Alternator table again: the key 1 is inserted (twice in the log), then deleted. The delete is
  sent before the read of the insert, which then finds no row.
\<close>

definition example_cdc_data :: cdc_data where
  "example_cdc_data =
     \<lparr>cd_primary_key_columns = [''pk''], cd_nonpk_partition_key_columns = [], cd_target_columns = [''v''],
      cd_filtering_columns = [''color''], cd_alternator_decode_types = [Some NT_Text],
      cd_kind = im_kind alternator_metadata, cd_lag = 0\<rparr>"

definition example_cdc_row :: "operation_type \<Rightarrow> u64 \<Rightarrow> u64 cdc_row" where
  "example_cdc_row operation time =
     \<lparr>cr_operation = operation, cr_time = time, cr_take_value = [''pk'' \<mapsto> CqlInt 1]\<rparr>"

definition example_cdc_time :: "u64 \<Rightarrow> (u64 \<times> u32) option" where
  "example_cdc_time u = Some (u, 0)"

definition example_cdc_timestamp :: "u64 \<Rightarrow> timestamp" where
  "example_cdc_timestamp u = from_100_nanos (ticks (from_seconds u) + ucast ((0 :: u32) div 100))"

definition example_cdc_events :: "u64 cdc_event list" where
  "example_cdc_events =
     [NewConsumer, ConsumeCdc 0 (example_cdc_row RowInsert 1), AcquirePermit 0, ConsumeCdc 0 (example_cdc_row RowInsert 1),
      ConsumeCdc 0 (example_cdc_row RowDelete 2), SendDelete 0, FetchRow 0 (\<lambda>_. Ok None), SendUpsert 0]"

definition example_cdc_log :: "(change \<times> change_outcome) list" where
  "example_cdc_log =
     [(([CqlInt 1], example_cdc_timestamp 2, CdcDelete),
       ChangeSent \<lparr>row_primary_key = example_key, row_operation = DbDelete (example_cdc_timestamp 2)\<rparr>),
      (([CqlInt 1], example_cdc_timestamp 1, CdcUpsert),
       ChangeSent \<lparr>row_primary_key = example_key, row_operation = DbDelete (example_cdc_timestamp 1)\<rparr>)]"

lemma example_cdc_try_from: "timestamp_try_from_uuid example_cdc_time u = Ok (example_cdc_timestamp u)"
  by (simp add: timestamp_try_from_uuid_def example_cdc_time_def example_cdc_timestamp_def)

lemma example_cdc_consume:
  "consume_cdc example_cdc_data example_cdc_time True (example_cdc_row operation u) c =
     (case operation_of operation of
        None \<Rightarrow> Ok None
      | Some op1 \<Rightarrow>
          if example_cdc_timestamp u = cc_timestamp c \<and> [CqlInt 1] = cc_primary_key c \<and> op1 = cc_operation c then Ok None
          else Ok (Some (c\<lparr>cc_primary_key := [CqlInt 1], cc_timestamp := example_cdc_timestamp u, cc_operation := op1\<rparr>)))"
  by (simp add: consume_cdc_def example_cdc_row_def example_cdc_data_def example_cdc_try_from split: option.split)

lemma example_from_iter: "ik_from_iter [CqlInt 1] = Ok example_key"
  by (rule key_of_from_iter [OF example_key_of])

lemma example_cdc_run:
  "cdc_run alternator_decoders example_cdc_data example_cdc_time 1
     [[example_cdc_row RowInsert 1, example_cdc_row RowInsert 1, example_cdc_row RowDelete 2]]
     \<lparr>pl_consumers = [(\<lparr>cc_primary_key = [CqlInt 1], cc_timestamp = example_cdc_timestamp 2, cc_operation = CdcDelete\<rparr>, CdcIdle)],
      pl_permits = 1, pl_upserts = [], pl_open = True, pl_log = example_cdc_log\<rparr>"
  by (rule cdc_steps_run [OF cdc_start, where evs = example_cdc_events])
    (simp add: example_cdc_events_def pipeline_new_def vec_get_def example_cdc_consume new_consumer_def operation_of_def
      process_delete_def process_upsert_def example_from_iter send_outcome_def change_of_consumer_def example_cdc_log_def
      drop_nth_def)

lemma example_cdc_keys: "cd_primary_key_columns example_cdc_data \<noteq> []"
  by (simp add: example_cdc_data_def)

theorem cdc_changes_exact_witness:
  "mset (changes example_cdc_data example_cdc_time
       [example_cdc_row RowInsert 1, example_cdc_row RowInsert 1, example_cdc_row RowDelete 2]) =
     mset (map fst example_cdc_log) \<and> length example_cdc_log = 2"
  using cdc_changes_exact [OF example_cdc_run example_cdc_keys]
  by (simp add: pending_def in_progress_def example_cdc_log_def)

theorem cdc_drains_witness:
  "\<exists>s. cdc_weight s = 3 \<and>
     (\<exists>ev s'. own_step ev \<and> cdc_step alternator_decoders example_cdc_data example_cdc_time ev s = Some s' \<and> cdc_weight s' < 3)"
proof -
  define s where "s = (pipeline_new 1)\<lparr>pl_consumers :=
      [(\<lparr>cc_primary_key = [CqlInt 1], cc_timestamp = example_cdc_timestamp 1, cc_operation = CdcUpsert\<rparr>, CdcAcquire)]\<rparr>"
  have "cdc_steps alternator_decoders example_cdc_data example_cdc_time
      [NewConsumer, ConsumeCdc 0 (example_cdc_row RowInsert 1)] ([], pipeline_new 1) = Some ([[example_cdc_row RowInsert 1]], s)"
    by (simp add: s_def pipeline_new_def vec_get_def example_cdc_consume new_consumer_def operation_of_def)
  from cdc_drains [OF cdc_steps_run [OF cdc_start this] example_cdc_keys]
  have "0 < cdc_weight s \<longrightarrow> (\<exists>ev s'. own_step ev \<and> cdc_step alternator_decoders example_cdc_data example_cdc_time ev s = Some s')"
    "\<forall>ev s'. own_step ev \<longrightarrow> cdc_step alternator_decoders example_cdc_data example_cdc_time ev s = Some s' \<longrightarrow> cdc_weight s' < cdc_weight s"
    by auto
  moreover have "cdc_weight s = 3" by (simp add: s_def cdc_weight_def pipeline_new_def)
  ultimately show ?thesis by (metis zero_less_numeral)
qed

lemma example_cdc_factory:
  "cdc_factory_new (Some [''pk'' \<mapsto> Native NT_Int, '':attrs'' \<mapsto> Collection]) (Ok ()) 0 alternator_metadata = Ok example_cdc_data"
  by (simp add: cdc_factory_new_def example_cdc_data_def alternator_metadata_def im_nonpk_partition_key_columns_def
      im_nonpk_filtering_columns_def alternator_real alternator_decode_types_def im_alternator_native_type_def bt_get_def)

definition example_fetched :: "db_value option list" where
  "example_fetched = drop 1 alternator_row"

theorem cdc_row_accepted_witness:
  "\<exists>t r. build_table ''alternator_ks.idx'' alternator_metadata (st_table_columns alternator_statements) = Ok t \<and>
     process_upsert alternator_decoders example_cdc_data (\<lambda>_. Ok (Some example_fetched)) [CqlInt 1] (from_micros 9) = Ok r \<and>
     row_ok is_vector r \<and> (\<exists>values. row_operation r = DbUpsert values \<and> row_accepted t ''alternator_ks.idx'' values)"
proof -
  obtain t where t: "build_table ''alternator_ks.idx'' alternator_metadata (st_table_columns alternator_statements) = Ok t"
    by (rule alternator_table)
  let ?mo = "(example_monitor (VsRemovePartition (partition_global (IndexId 32768))))\<lparr>mo_table := t\<rparr>"
  have world: "tw_table alternator_world = Some [''pk'' \<mapsto> Native NT_Int, '':attrs'' \<mapsto> Collection]"
    "length (im_target_columns alternator_metadata) = 1"
    by (simp_all add: alternator_world_def alternator_metadata_def)
  have cells: "cells_conform [''pk'' \<mapsto> NT_Int] (stored_columns alternator_statements) 1 example_fetched"
    using alternator_conforms by (simp add: row_conforms_def example_fetched_def alternator_statements_def)
  have key: "list_all storable [CqlInt 1]" by (simp add: storable_def)
  have fetched: "process_upsert alternator_decoders example_cdc_data (\<lambda>_. Ok (Some example_fetched)) [CqlInt 1] (from_micros 9) =
      Ok \<lparr>row_primary_key = example_key,
          row_operation = DbUpsert [timestamped_new (from_micros 7) (Some (DbVector [1065353216])),
                                    timestamped_new (from_micros 9) (Some (DbFiltering (CqlText [97])))]\<rparr>"
    by (simp add: process_upsert_def example_from_iter example_cdc_data_def example_fetched_def alternator_row_def
        parse_values_def parse_cell_def parse_writetime_def alternator_float alternator_color vec_get_def)
  note fit = cdc_row_accepted [OF alternator_decoders_ok example_cdc_factory alternator_new world, where key = "''alternator_ks.idx''" and mo = ?mo
      and primary_key = "[CqlInt 1]" and fetch = "\<lambda>_. Ok (Some example_fetched)" and ts = "from_micros 9"
      and d = example_driver and dispatch = vs_dispatch and rows = "[]"]
  show ?thesis
    using fit t key cells by (simp add: alternator_real fetched no_empty_def kind_fits_def
        alternator_metadata_def [THEN arg_cong [of _ _ im_kind]])
qed

end
