(* ===== verification/Cdc_Actor.thy ===== *)
theory Cdc_Actor
  imports Prelude
begin

text \<open>
  The actor that manages one CDC reader of an index (\<open>db_cdc/actor.rs\<close>) and the session watch it
  waits on (\<open>DbIndexSession\<close> of \<open>db_index.rs\<close>): stopping, restarting and backing off, the task that
  runs the handler of the reader, the notifications between them, and the metrics of the reader.

  A \<open>Duration\<close> is its number of nanoseconds. A \<open>Notify\<close> holds at most one notification. The clock,
  the handler (when and how it returns) and the driver (whether a reader can be built) are
  arguments; a reader is the configuration it was built with.
\<close>

section \<open>Parameters\<close>

definition duration_from_millis :: "nat \<Rightarrow> nat" where
  "duration_from_millis ms = ms * 1000000"

definition duration_from_secs :: "nat \<Rightarrow> nat" where
  "duration_from_secs s = s * 1000000000"

definition duration_from_mins :: "nat \<Rightarrow> nat" where
  "duration_from_mins m = duration_from_secs (m * 60)"

definition CHECKPOINT_TIMESTAMP_OFFSET :: nat where
  "CHECKPOINT_TIMESTAMP_OFFSET = duration_from_mins 10"

definition DEFAULT_CONSISTENT_SAFETY_INTERVAL :: nat where
  "DEFAULT_CONSISTENT_SAFETY_INTERVAL = duration_from_secs 30"

definition DEFAULT_CONSISTENT_SLEEP_INTERVAL :: nat where
  "DEFAULT_CONSISTENT_SLEEP_INTERVAL = duration_from_secs 10"

definition DEFAULT_REALTIME_SAFETY_INTERVAL :: nat where
  "DEFAULT_REALTIME_SAFETY_INTERVAL = duration_from_millis 100"

definition DEFAULT_REALTIME_SLEEP_INTERVAL :: nat where
  "DEFAULT_REALTIME_SLEEP_INTERVAL = duration_from_millis 500"

definition DEFAULT_BACKOFF_DURATION :: nat where
  "DEFAULT_BACKOFF_DURATION = duration_from_secs 5"

record cdc_config =
  cf_safety_interval :: "nat option"
  cf_sleep_interval :: "nat option"
  cf_fine_safety_interval :: "nat option"
  cf_fine_sleep_interval :: "nat option"

record cdc_reader_params =
  rp_safety_interval :: nat
  rp_sleep_interval :: nat

definition unwrap_or :: "'a option \<Rightarrow> 'a \<Rightarrow> 'a" where
  "unwrap_or o1 x = (case o1 of Some y \<Rightarrow> y | None \<Rightarrow> x)"

definition params_wide :: "cdc_config \<Rightarrow> cdc_reader_params" where
  "params_wide config =
     \<lparr>rp_safety_interval = unwrap_or (cf_safety_interval config) DEFAULT_CONSISTENT_SAFETY_INTERVAL,
      rp_sleep_interval = unwrap_or (cf_sleep_interval config) DEFAULT_CONSISTENT_SLEEP_INTERVAL\<rparr>"

definition params_fine :: "cdc_config \<Rightarrow> cdc_reader_params" where
  "params_fine config =
     \<lparr>rp_safety_interval = unwrap_or (cf_fine_safety_interval config) DEFAULT_REALTIME_SAFETY_INTERVAL,
      rp_sleep_interval = unwrap_or (cf_fine_sleep_interval config) DEFAULT_REALTIME_SLEEP_INTERVAL\<rparr>"

datatype cdc_reader_config = Wide | Fine

definition name_and_params_fn :: "cdc_reader_config \<Rightarrow> string \<times> (cdc_config \<Rightarrow> cdc_reader_params)" where
  "name_and_params_fn c = (case c of Wide \<Rightarrow> (''wide'', params_wide) | Fine \<Rightarrow> (''fine'', params_fine))"

section \<open>DbIndexSession\<close>

text \<open>
  The watched session (\<open>None\<close>: not connected), whether its sender still exists, whether its value has
  not been seen, and whether the index is alive.
\<close>

record session_watch =
  sw_session :: "nat option"
  sw_changed :: bool
  sw_sender :: bool
  sw_alive :: bool

text \<open>\<open>None\<close>: it keeps waiting.\<close>

definition wait_for_changed :: "session_watch \<Rightarrow> (nat option option \<times> session_watch) option" where
  "wait_for_changed w =
     (if \<not> sw_alive w then Some (None, w)
      else if sw_changed w then Some (Some (sw_session w), w\<lparr>sw_changed := False\<rparr>)
      else if \<not> sw_sender w then Some (None, w)
      else None)"

definition wait_for_session :: "session_watch \<Rightarrow> nat result option" where
  "wait_for_session w =
     (if \<not> sw_alive w then Some (Err (Bail ''DbIndexSession is no longer alive''))
      else case sw_session w of
        Some session \<Rightarrow> Some (Ok session)
      | None \<Rightarrow> if \<not> sw_sender w then Some (Err (Bail ''DbIndexSession: session stream is no longer alive'')) else None)"

definition current_session :: "session_watch \<Rightarrow> nat option option" where
  "current_session w = (if sw_alive w then Some (sw_session w) else None)"

definition mark_changed :: "session_watch \<Rightarrow> session_watch" where
  "mark_changed w = w\<lparr>sw_changed := True\<rparr>"

section \<open>CdcReaderState\<close>

record cdc_reader =
  rd_session :: nat
  rd_start_timestamp :: nat
  rd_params :: cdc_reader_params

datatype handler_task = HandlerRunning | HandlerFinished nat | HandlerPanicked

text \<open>\<open>rs_up\<close> is the gauge \<open>cdc_reader_up\<close>, \<open>None\<close> when the series is removed.\<close>

record reader_state =
  rs_reader :: "cdc_reader option"
  rs_handler_task :: "handler_task option"
  rs_shutdown_notify :: bool
  rs_error_notify :: bool
  rs_start :: nat
  rs_params_fn :: "cdc_config \<Rightarrow> cdc_reader_params"
  rs_up :: "bool option"
  rs_handler_errors :: nat
  rs_restarts :: nat

definition reader_state_new :: "nat \<Rightarrow> (cdc_config \<Rightarrow> cdc_reader_params) \<Rightarrow> reader_state" where
  "reader_state_new now params_fn =
     \<lparr>rs_reader = None, rs_handler_task = None, rs_shutdown_notify = False, rs_error_notify = False, rs_start = now,
      rs_params_fn = params_fn, rs_up = Some False, rs_handler_errors = 0, rs_restarts = 0\<rparr>"

text \<open>
  The task of \<open>spawn_handler_task\<close>: the handler returns \<open>Ok\<close> or an error, the shutdown notification
  arrives, or the task panics; otherwise it ends with the time.
\<close>

datatype handler_exit = ExitOk | ExitErr | ExitShutdown | ExitPanic

definition handler_exits :: "handler_exit \<Rightarrow> nat \<Rightarrow> reader_state \<Rightarrow> handler_task \<times> reader_state" where
  "handler_exits exit now s =
     (case exit of
        ExitOk \<Rightarrow> (HandlerFinished now, s)
      | ExitErr \<Rightarrow> (HandlerFinished now, s\<lparr>rs_handler_errors := rs_handler_errors s + 1, rs_error_notify := True\<rparr>)
      | ExitShutdown \<Rightarrow> (HandlerFinished now, s\<lparr>rs_shutdown_notify := False\<rparr>)
      | ExitPanic \<Rightarrow> (HandlerPanicked, s))"

text \<open>
  What the surroundings do during a call: how and when a handler that is still running ends, the
  time after that, and what the driver answers.
\<close>

record actor_world =
  aw_exit :: handler_exit
  aw_exit_time :: nat
  aw_now :: nat
  aw_factory :: "unit result"
  aw_build :: "unit result"

definition stop_reader :: "actor_world \<Rightarrow> reader_state \<Rightarrow> reader_state" where
  "stop_reader w s =
     (let s1 = s\<lparr>rs_reader := None\<rparr>;
          s2 = (case rs_handler_task s1 of
                  None \<Rightarrow> s1
                | Some task \<Rightarrow>
                    let s3 = s1\<lparr>rs_handler_task := None, rs_shutdown_notify := True\<rparr>;
                        (ended, s4) = (case task of
                            HandlerRunning \<Rightarrow> handler_exits (aw_exit w) (aw_exit_time w) s3
                          | _ \<Rightarrow> (task, s3))
                    in s4\<lparr>rs_start := (case ended of HandlerFinished t \<Rightarrow> t | _ \<Rightarrow> aw_now w)\<rparr>)
      in s2\<lparr>rs_up := Some False\<rparr>)"

definition create_cdc_reader :: "actor_world \<Rightarrow> nat \<Rightarrow> cdc_reader_params \<Rightarrow> nat \<Rightarrow> cdc_reader result" where
  "create_cdc_reader w start params session =
     and_then (aw_factory w) (\<lambda>_.
     and_then (if start < CHECKPOINT_TIMESTAMP_OFFSET then Err (Panic ''overflow when subtracting durations'')
               else Ok (start - CHECKPOINT_TIMESTAMP_OFFSET)) (\<lambda>cdc_start.
     and_then (aw_build w) (\<lambda>_.
       Ok \<lparr>rd_session = session, rd_start_timestamp = cdc_start, rd_params = params\<rparr>)))"

definition restart_reader ::
  "actor_world \<Rightarrow> cdc_reader_params \<Rightarrow> nat \<Rightarrow> reader_state \<Rightarrow> unit result \<times> reader_state" where
  "restart_reader w params session s =
     (let s1 = (stop_reader w s)\<lparr>rs_shutdown_notify := False\<rparr>
      in case create_cdc_reader w (rs_start s1) params session of
        Inr reader \<Rightarrow> (Ok (), s1\<lparr>rs_reader := Some reader, rs_handler_task := Some HandlerRunning, rs_up := Some True\<rparr>)
      | Inl (Panic msg) \<Rightarrow> (Err (Panic msg), s1)
      | Inl (Bail _) \<Rightarrow> (Ok (), s1\<lparr>rs_up := Some False, rs_error_notify := True\<rparr>))"

definition handle_session_change ::
  "actor_world \<Rightarrow> cdc_config \<Rightarrow> nat option \<Rightarrow> reader_state \<Rightarrow> unit result \<times> reader_state" where
  "handle_session_change w config session s =
     (case session of
        Some session \<Rightarrow>
          let s1 = s\<lparr>rs_error_notify := False\<rparr>
          in restart_reader w (rs_params_fn s1 config) session s1
      | None \<Rightarrow> (Ok (), stop_reader w s))"

definition restart_after_backoff ::
  "actor_world \<Rightarrow> cdc_config \<Rightarrow> nat option \<Rightarrow> reader_state \<Rightarrow> unit result \<times> reader_state" where
  "restart_after_backoff w config session s =
     (case session of
        Some session \<Rightarrow>
          let s1 = s\<lparr>rs_restarts := rs_restarts s + 1\<rparr>
          in restart_reader w (rs_params_fn s1 config) session s1
      | None \<Rightarrow> (Ok (), s))"

definition remove_metrics :: "reader_state \<Rightarrow> reader_state" where
  "remove_metrics s = s\<lparr>rs_up := None\<rparr>"

section \<open>The actor\<close>

datatype actor_phase = ActorRunning | ActorStopped | ActorPanicked string

record cdc_actor =
  ca_reader :: reader_state
  ca_config :: cdc_config
  ca_watch :: session_watch
  ca_senders :: bool
  ca_backoff :: "nat option"
  ca_err_counter :: nat
  ca_phase :: actor_phase

definition cdc_actor_new :: "nat \<Rightarrow> cdc_config \<Rightarrow> cdc_reader_config \<Rightarrow> session_watch \<Rightarrow> cdc_actor" where
  "cdc_actor_new now config reader_config watch =
     \<lparr>ca_reader = reader_state_new now (snd (name_and_params_fn reader_config)), ca_config = config,
      ca_watch = mark_changed watch, ca_senders = True, ca_backoff = None, ca_err_counter = 0, ca_phase = ActorRunning\<rparr>"

text \<open>
  The surroundings change the session, the configuration, the life of the index and the senders;
  the handler ends by itself; and the loop takes one of its branches. \<open>ca_backoff\<close> is the time at
  which the sleep of the current \<open>select\<close> ends: every branch either sets it or ends the sleep.
\<close>

datatype actor_event =
    SetSession "nat option"
  | DropSessionSender
  | IndexDead
  | SetConfig cdc_config
  | DropSenders
  | HandlerExits handler_exit nat
  | BranchRecv actor_world
  | BranchSession actor_world
  | BranchError nat
  | BranchBackoff actor_world

fun after_reader :: "cdc_actor \<Rightarrow> unit result \<times> reader_state \<Rightarrow> cdc_actor" where
  "after_reader a (Inr _, s) = a\<lparr>ca_reader := s\<rparr>"
| "after_reader a (Inl (Panic msg), s) = a\<lparr>ca_reader := s, ca_phase := ActorPanicked msg\<rparr>"
| "after_reader a (Inl (Bail msg), s) = a\<lparr>ca_reader := s\<rparr>"

definition cleanup :: "actor_world \<Rightarrow> cdc_actor \<Rightarrow> cdc_actor" where
  "cleanup w a = a\<lparr>ca_reader := remove_metrics (stop_reader w (ca_reader a)), ca_phase := ActorStopped\<rparr>"

fun surroundings :: "actor_event \<Rightarrow> cdc_actor \<Rightarrow> cdc_actor option" where
  "surroundings (SetSession session) a =
     (if sw_sender (ca_watch a)
      then Some (a\<lparr>ca_watch := (ca_watch a)\<lparr>sw_session := session, sw_changed := True\<rparr>\<rparr>) else None)"
| "surroundings DropSessionSender a = Some (a\<lparr>ca_watch := (ca_watch a)\<lparr>sw_sender := False\<rparr>\<rparr>)"
| "surroundings IndexDead a = Some (a\<lparr>ca_watch := (ca_watch a)\<lparr>sw_alive := False\<rparr>\<rparr>)"
| "surroundings (SetConfig config) a = Some (a\<lparr>ca_config := config\<rparr>)"
| "surroundings DropSenders a = Some (a\<lparr>ca_senders := False\<rparr>)"
| "surroundings (HandlerExits exit now) a =
     (if rs_handler_task (ca_reader a) = Some HandlerRunning \<and> (exit = ExitShutdown \<longrightarrow> rs_shutdown_notify (ca_reader a))
      then case handler_exits exit now (ca_reader a) of
             (ended, s) \<Rightarrow> Some (a\<lparr>ca_reader := s\<lparr>rs_handler_task := Some ended\<rparr>\<rparr>)
      else None)"
| "surroundings _ a = None"

fun branch :: "actor_event \<Rightarrow> cdc_actor \<Rightarrow> cdc_actor option" where
  "branch (BranchRecv w) a = (if ca_senders a then None else Some (cleanup w a))"
| "branch (BranchSession w) a =
     (case wait_for_changed (ca_watch a) of
        None \<Rightarrow> None
      | Some (None, watch) \<Rightarrow> Some (cleanup w (a\<lparr>ca_watch := watch\<rparr>))
      | Some (Some session, watch) \<Rightarrow>
          Some (after_reader (a\<lparr>ca_watch := watch, ca_err_counter := 0, ca_backoff := None\<rparr>)
                  (handle_session_change w (ca_config a) session (ca_reader a))))"
| "branch (BranchError now) a =
     (if rs_error_notify (ca_reader a)
      then Some (a\<lparr>ca_reader := (ca_reader a)\<lparr>rs_error_notify := False, rs_up := Some False\<rparr>,
                   ca_err_counter := ca_err_counter a + 1, ca_backoff := Some (now + DEFAULT_BACKOFF_DURATION)\<rparr>)
      else None)"
| "branch (BranchBackoff w) a =
     (case ca_backoff a of
        None \<Rightarrow> None
      | Some deadline \<Rightarrow>
          if aw_now w < deadline then None
          else case current_session (ca_watch a) of
            None \<Rightarrow> Some (cleanup w a)
          | Some session \<Rightarrow>
              Some (after_reader (a\<lparr>ca_backoff := None\<rparr>)
                      (restart_after_backoff w (ca_config a) session (ca_reader a))))"
| "branch _ a = None"

definition actor_step :: "actor_event \<Rightarrow> cdc_actor \<Rightarrow> cdc_actor option" where
  "actor_step ev a =
     (case surroundings ev a of
        Some a' \<Rightarrow> Some a'
      | None \<Rightarrow> if ca_phase a = ActorRunning then branch ev a else None)"

end
