(* ===== verification/Cdc_Actor_Correct.thy ===== *)
theory Cdc_Actor_Correct
  imports Cdc_Actor Engine_Correct
begin

text \<open>
  Correctness of the actor of a CDC reader: a reader and its handler come and go together, the
  actor never waits for nothing while there is a session and no working reader, and the times the
  readers of one actor cover follow each other without a gap. The last theorem shows what these
  times do not say: a reader that fails before it has read anything moves the start of the next.
\<close>

section \<open>Runs\<close>

text \<open>
  A run records each handler that ended: the time its reader started from, the time and the way it
  ended. The clock does not go back, and the driver answers with errors, not with panics.
\<close>

type_synonym window = "nat \<times> nat \<times> handler_exit"

fun event_times :: "actor_event \<Rightarrow> nat list" where
  "event_times (HandlerExits exit t) = [t]"
| "event_times (BranchRecv w) = [aw_exit_time w, aw_now w]"
| "event_times (BranchSession w) = [aw_exit_time w, aw_now w]"
| "event_times (BranchError t) = [t]"
| "event_times (BranchBackoff w) = [aw_exit_time w, aw_now w]"
| "event_times _ = []"

fun driver_answers :: "actor_event \<Rightarrow> bool" where
  "driver_answers (BranchSession w) = (no_panic (aw_factory w) \<and> no_panic (aw_build w))"
| "driver_answers (BranchBackoff w) = (no_panic (aw_factory w) \<and> no_panic (aw_build w))"
| "driver_answers _ = True"

fun branch_stops :: "actor_event \<Rightarrow> cdc_actor \<Rightarrow> actor_world option" where
  "branch_stops (BranchRecv w) a = Some w"
| "branch_stops (BranchSession w) a = Some w"
| "branch_stops (BranchBackoff w) a = (if current_session (ca_watch a) = Some None then None else Some w)"
| "branch_stops _ a = None"

definition handler_ended :: "actor_event \<Rightarrow> cdc_actor \<Rightarrow> (nat \<times> handler_exit) option" where
  "handler_ended ev a =
     (if rs_handler_task (ca_reader a) \<noteq> Some HandlerRunning then None
      else case ev of
        HandlerExits exit t \<Rightarrow> Some (t, exit)
      | _ \<Rightarrow> map_option (\<lambda>w. (aw_exit_time w, aw_exit w)) (branch_stops ev a))"

definition ended_windows :: "actor_event \<Rightarrow> cdc_actor \<Rightarrow> window list" where
  "ended_windows ev a =
     (case (rs_reader (ca_reader a), handler_ended ev a) of
        (Some r, Some (t, exit)) \<Rightarrow> [(rd_start_timestamp r, t, exit)]
      | _ \<Rightarrow> [])"

inductive actor_run ::
  "nat \<Rightarrow> cdc_config \<Rightarrow> cdc_reader_config \<Rightarrow> session_watch \<Rightarrow> window list \<Rightarrow> nat \<Rightarrow> cdc_actor \<Rightarrow> bool"
  for t0 config reader_config watch where
  actor_start: "actor_run t0 config reader_config watch [] t0 (cdc_actor_new t0 config reader_config watch)"
| actor_next: "actor_run t0 config reader_config watch windows clk a \<Longrightarrow> sorted (clk # event_times ev) \<Longrightarrow>
    driver_answers ev \<Longrightarrow> actor_step ev a = Some a' \<Longrightarrow>
    actor_run t0 config reader_config watch (windows @ ended_windows ev a) (last (clk # event_times ev)) a'"

definition no_panics :: "window list \<Rightarrow> bool" where
  "no_panics windows \<longleftrightarrow> (\<forall>(from, to, exit)\<in>set windows. exit \<noteq> ExitPanic)"

definition last_end :: "nat \<Rightarrow> window list \<Rightarrow> nat" where
  "last_end t0 windows = (if windows = [] then t0 else fst (snd (last windows)))"

text \<open>Each window starts ten minutes before the previous one ended.\<close>

fun chained :: "nat \<Rightarrow> window list \<Rightarrow> bool" where
  "chained t [] = True"
| "chained t ((from, to, exit) # windows) =
     (CHECKPOINT_TIMESTAMP_OFFSET \<le> t \<and> from = t - CHECKPOINT_TIMESTAMP_OFFSET \<and> t \<le> to \<and> chained to windows)"

lemma chained_snoc:
  "chained t (windows @ [(from, to, exit)]) \<longleftrightarrow>
     chained t windows \<and> CHECKPOINT_TIMESTAMP_OFFSET \<le> last_end t windows \<and>
     from = last_end t windows - CHECKPOINT_TIMESTAMP_OFFSET \<and> last_end t windows \<le> to"
  by (induction t windows rule: chained.induct) (auto simp: last_end_def)

lemma last_end_snoc [simp]: "last_end t (windows @ [(from, to, exit)]) = to"
  by (simp add: last_end_def)

lemma chained_le: "chained t windows \<Longrightarrow> t \<le> last_end t windows"
  by (induction t windows rule: chained.induct) (auto simp: last_end_def split: if_splits)

lemma chained_covers:
  "chained t windows \<Longrightarrow> t - CHECKPOINT_TIMESTAMP_OFFSET \<le> x \<Longrightarrow> x \<le> last_end t windows \<Longrightarrow> windows \<noteq> [] \<Longrightarrow>
     \<exists>(from, to, exit)\<in>set windows. from \<le> x \<and> x \<le> to"
proof (induction t windows rule: chained.induct)
  case (2 t "from" to exit windows)
  show ?case
  proof (cases "x \<le> to \<or> windows = []")
    case True
    then show ?thesis using 2 by (auto simp: last_end_def)
  next
    case False
    then show ?thesis using 2 by (auto simp: last_end_def split: if_splits)
  qed
qed simp

section \<open>The state of the reader\<close>

definition reader_inv :: "nat \<Rightarrow> window list \<Rightarrow> reader_state \<Rightarrow> bool" where
  "reader_inv t0 windows s \<longleftrightarrow>
     (rs_reader s = None \<longleftrightarrow> rs_handler_task s = None) \<and>
     (rs_handler_task s = Some HandlerRunning \<longrightarrow> \<not> rs_shutdown_notify s) \<and>
     (rs_up s = Some True \<longrightarrow> rs_reader s \<noteq> None) \<and>
     CHECKPOINT_TIMESTAMP_OFFSET \<le> t0 \<and> chained t0 windows \<and>
     (case rs_handler_task s of
        None \<Rightarrow> rs_start s = last_end t0 windows
      | Some HandlerRunning \<Rightarrow> \<exists>r. rs_reader s = Some r \<and> rd_start_timestamp r = last_end t0 windows - CHECKPOINT_TIMESTAMP_OFFSET
      | Some (HandlerFinished t) \<Rightarrow> t = last_end t0 windows \<and> windows \<noteq> []
      | Some HandlerPanicked \<Rightarrow> False)"

text \<open>There is a session, and the handler has failed or there is none.\<close>

definition needs_reader :: "window list \<Rightarrow> reader_state \<Rightarrow> bool" where
  "needs_reader windows s \<longleftrightarrow>
     rs_reader s = None \<or>
     (\<exists>t. rs_handler_task s = Some (HandlerFinished t)) \<and> windows \<noteq> [] \<and> snd (snd (last windows)) = ExitErr"

definition actor_inv :: "nat \<Rightarrow> window list \<Rightarrow> nat \<Rightarrow> cdc_actor \<Rightarrow> bool" where
  "actor_inv t0 windows clk a \<longleftrightarrow>
     reader_inv t0 windows (ca_reader a) \<and> last_end t0 windows \<le> clk \<and>
     (case ca_phase a of
        ActorRunning \<Rightarrow>
          sw_session (ca_watch a) \<noteq> None \<longrightarrow> needs_reader windows (ca_reader a) \<longrightarrow>
          rs_error_notify (ca_reader a) \<or> ca_backoff a \<noteq> None \<or> sw_changed (ca_watch a)
      | ActorStopped \<Rightarrow> rs_reader (ca_reader a) = None \<and> rs_up (ca_reader a) = None
      | ActorPanicked _ \<Rightarrow> False)"

text \<open>The windows after a call of \<open>stop\<close>.\<close>

definition stop_windows :: "actor_world \<Rightarrow> reader_state \<Rightarrow> window list" where
  "stop_windows w s =
     (case (rs_reader s, rs_handler_task s) of
        (Some r, Some HandlerRunning) \<Rightarrow> [(rd_start_timestamp r, aw_exit_time w, aw_exit w)]
      | _ \<Rightarrow> [])"

lemma stop_reader_inv:
  assumes inv: "reader_inv t0 windows s" and time: "last_end t0 windows \<le> clk" "clk \<le> aw_exit_time w"
    and ok: "no_panics (stop_windows w s)"
  defines "windows' \<equiv> windows @ stop_windows w s"
  shows "reader_inv t0 windows' (stop_reader w s)" and "rs_reader (stop_reader w s) = None"
    and "last_end t0 windows' \<le> aw_exit_time w" and "rs_start (stop_reader w s) = last_end t0 windows'"
    and "rs_params_fn (stop_reader w s) = rs_params_fn s"
proof -
  consider (none) "rs_handler_task s = None" "rs_reader s = None"
    | (running) r where "rs_handler_task s = Some HandlerRunning" "rs_reader s = Some r"
        "rd_start_timestamp r = last_end t0 windows - CHECKPOINT_TIMESTAMP_OFFSET"
    | (finished) r t where "rs_handler_task s = Some (HandlerFinished t)" "rs_reader s = Some r" "t = last_end t0 windows"
    using inv by (auto simp: reader_inv_def split: option.splits handler_task.splits)
  then have "reader_inv t0 windows' (stop_reader w s) \<and> rs_reader (stop_reader w s) = None \<and>
      last_end t0 windows' \<le> aw_exit_time w \<and> rs_start (stop_reader w s) = last_end t0 windows' \<and>
      rs_params_fn (stop_reader w s) = rs_params_fn s"
  proof cases
    case none
    then show ?thesis
      using inv time by (auto simp: windows'_def stop_windows_def stop_reader_def reader_inv_def)
  next
    case (running r)
    have "CHECKPOINT_TIMESTAMP_OFFSET \<le> last_end t0 windows"
      using inv chained_le [of t0 windows] by (auto simp: reader_inv_def)
    then show ?thesis
      using inv time running ok
      by (cases "aw_exit w")
        (auto simp: windows'_def stop_windows_def stop_reader_def reader_inv_def handler_exits_def chained_snoc no_panics_def)
  next
    case (finished r t)
    then show ?thesis
      using inv time by (auto simp: windows'_def stop_windows_def stop_reader_def reader_inv_def)
  qed
  then show "reader_inv t0 windows' (stop_reader w s)" and "rs_reader (stop_reader w s) = None"
    and "last_end t0 windows' \<le> aw_exit_time w" and "rs_start (stop_reader w s) = last_end t0 windows'"
    and "rs_params_fn (stop_reader w s) = rs_params_fn s"
    by auto
qed

lemma restart_reader_inv:
  assumes inv: "reader_inv t0 windows s" and time: "last_end t0 windows \<le> clk" "clk \<le> aw_exit_time w"
    and ok: "no_panics (stop_windows w s)" and fail: "no_panic (aw_factory w)" "no_panic (aw_build w)"
  defines "windows' \<equiv> windows @ stop_windows w s"
  shows "\<exists>s'. restart_reader w params session s = (Ok (), s') \<and> reader_inv t0 windows' s' \<and>
    (rs_reader s' = None \<longrightarrow> rs_error_notify s') \<and>
    (\<forall>r. rs_reader s' = Some r \<longrightarrow> rs_handler_task s' = Some HandlerRunning \<and> rs_up s' = Some True \<and>
       r = \<lparr>rd_session = session, rd_start_timestamp = last_end t0 windows' - CHECKPOINT_TIMESTAMP_OFFSET, rd_params = params\<rparr>)"
proof -
  note stop = stop_reader_inv [OF inv time ok, folded windows'_def]
  let ?s1 = "(stop_reader w s)\<lparr>rs_shutdown_notify := False\<rparr>"
  have no_handler: "rs_handler_task (stop_reader w s) = None"
    using stop(1,2) by (simp add: reader_inv_def)
  have "CHECKPOINT_TIMESTAMP_OFFSET \<le> last_end t0 windows'"
    using stop(1) chained_le [of t0 windows'] by (auto simp: reader_inv_def)
  then have create: "create_cdc_reader w (last_end t0 windows') params session =
      and_then (aw_factory w) (\<lambda>_. and_then (aw_build w) (\<lambda>_.
        Ok \<lparr>rd_session = session, rd_start_timestamp = last_end t0 windows' - CHECKPOINT_TIMESTAMP_OFFSET, rd_params = params\<rparr>))"
    by (simp add: create_cdc_reader_def)
  consider (built) u v where "aw_factory w = Ok u" "aw_build w = Ok v"
    | (failed) e where "create_cdc_reader w (last_end t0 windows') params session = Err (Bail e)"
  proof (cases "aw_factory w")
    case (Inl e)
    then show thesis using fail(1) that(2) by (cases e) (simp_all add: create)
  next
    case (Inr u)
    then show thesis using fail(2) that
      by (cases "aw_build w") (auto simp: create no_panic_def, metis error.exhaust)
  qed
  then show ?thesis
  proof cases
    case built
    then show ?thesis
      using stop(1) no_handler by (auto simp: restart_reader_def create reader_inv_def Let_def stop(4))
  next
    case failed
    then show ?thesis
      using stop(1,2) no_handler failed by (auto simp: restart_reader_def reader_inv_def Let_def stop(4))
  qed
qed

section \<open>The steps of the actor\<close>

lemma windows_of_branch:
  assumes "reader_inv t0 windows (ca_reader a)" and "branch_stops ev a = Some w" and "\<And>exit t. ev \<noteq> HandlerExits exit t"
  shows "ended_windows ev a = stop_windows w (ca_reader a)"
  using assms by (cases ev)
    (auto simp: ended_windows_def handler_ended_def stop_windows_def reader_inv_def split: option.splits handler_task.splits)

lemma windows_of_other:
  assumes "branch_stops ev a = None" and "\<And>exit t. ev \<noteq> HandlerExits exit t"
  shows "ended_windows ev a = []"
  using assms by (cases ev) (auto simp: ended_windows_def handler_ended_def split: option.splits)

lemma inv_handler_exits:
  assumes inv: "actor_inv t0 windows clk a" and step: "actor_step (HandlerExits exit t) a = Some a'" and "clk \<le> t"
    and ok: "no_panics (ended_windows (HandlerExits exit t) a)"
  shows "actor_inv t0 (windows @ ended_windows (HandlerExits exit t) a) t a'"
proof -
  have running: "rs_handler_task (ca_reader a) = Some HandlerRunning" "exit \<noteq> ExitShutdown"
    and a': "a' = a\<lparr>ca_reader := (snd (handler_exits exit t (ca_reader a)))
                \<lparr>rs_handler_task := Some (fst (handler_exits exit t (ca_reader a)))\<rparr>\<rparr>"
    using step inv by (auto simp: actor_step_def actor_inv_def reader_inv_def split: if_splits prod.splits)
  obtain r where r: "rs_reader (ca_reader a) = Some r"
    "rd_start_timestamp r = last_end t0 windows - CHECKPOINT_TIMESTAMP_OFFSET"
    using inv running by (auto simp: actor_inv_def reader_inv_def)
  have windows: "ended_windows (HandlerExits exit t) a = [(rd_start_timestamp r, t, exit)]"
    using r(1) running(1) by (simp add: ended_windows_def handler_ended_def)
  then have "exit \<noteq> ExitPanic" using ok by (simp add: no_panics_def)
  moreover have "CHECKPOINT_TIMESTAMP_OFFSET \<le> last_end t0 windows"
    using inv chained_le [of t0 windows] by (auto simp: actor_inv_def reader_inv_def)
  moreover have "last_end t0 windows \<le> t" using inv assms(3) by (simp add: actor_inv_def)
  ultimately show ?thesis
    using inv running r unfolding windows a'
    by (cases exit)
      (auto simp: actor_inv_def reader_inv_def handler_exits_def chained_snoc needs_reader_def split: actor_phase.splits)
qed

lemma inv_cleanup:
  assumes inv: "actor_inv t0 windows clk a" and "clk \<le> aw_exit_time w" "aw_exit_time w \<le> aw_now w"
    and ok: "no_panics (stop_windows w (ca_reader a))" and same: "ca_reader a1 = ca_reader a"
  shows "actor_inv t0 (windows @ stop_windows w (ca_reader a)) (aw_now w) (cleanup w a1)"
proof -
  have "reader_inv t0 windows (ca_reader a)" "last_end t0 windows \<le> clk" using inv by (auto simp: actor_inv_def)
  note stop = stop_reader_inv [OF this assms(2) ok]
  show ?thesis
    using stop(1-3) assms(3) by (auto simp: actor_inv_def cleanup_def remove_metrics_def same reader_inv_def)
qed

lemma inv_restart:
  assumes inv: "reader_inv t0 windows s" "last_end t0 windows \<le> clk" and time: "clk \<le> aw_exit_time w" "aw_exit_time w \<le> aw_now w"
    and ok: "no_panics (stop_windows w s)" and fail: "no_panic (aw_factory w)" "no_panic (aw_build w)"
    and phase: "ca_phase a1 = ActorRunning"
  shows "actor_inv t0 (windows @ stop_windows w s) (aw_now w) (after_reader a1 (restart_reader w params session s))"
proof -
  obtain s' where s': "restart_reader w params session s = (Ok (), s')"
    and s'_inv: "reader_inv t0 (windows @ stop_windows w s) s'" and notified: "rs_reader s' = None \<longrightarrow> rs_error_notify s'"
    and running: "\<And>r. rs_reader s' = Some r \<Longrightarrow> rs_handler_task s' = Some HandlerRunning"
    using restart_reader_inv [OF inv time(1) ok fail, of params session] by (elim exE conjE) simp
  have "last_end t0 (windows @ stop_windows w s) \<le> aw_now w"
    using stop_reader_inv(3) [OF inv time(1) ok] time(2) by simp
  moreover have "needs_reader ws s' \<Longrightarrow> rs_error_notify s'" for ws
    using notified running by (cases "rs_reader s'") (auto simp: needs_reader_def)
  ultimately show ?thesis
    using phase s'_inv unfolding s' after_reader.simps by (simp add: actor_inv_def)
qed

lemma reader_inv_flags:
  "reader_inv t0 windows (s\<lparr>rs_error_notify := b\<rparr>) = reader_inv t0 windows s"
  "reader_inv t0 windows (s\<lparr>rs_restarts := n\<rparr>) = reader_inv t0 windows s"
  "stop_windows w (s\<lparr>rs_error_notify := b\<rparr>) = stop_windows w s"
  "stop_windows w (s\<lparr>rs_restarts := n\<rparr>) = stop_windows w s"
  by (auto simp: reader_inv_def stop_windows_def split: option.split handler_task.split)

lemma inv_branch_session:
  assumes inv: "actor_inv t0 windows clk a" and step: "branch (BranchSession w) a = Some a'" and phase: "ca_phase a = ActorRunning"
    and time: "clk \<le> aw_exit_time w" "aw_exit_time w \<le> aw_now w"
    and ok: "no_panics (stop_windows w (ca_reader a))" and fail: "no_panic (aw_factory w)" "no_panic (aw_build w)"
  shows "actor_inv t0 (windows @ stop_windows w (ca_reader a)) (aw_now w) a'"
proof -
  have r: "reader_inv t0 windows (ca_reader a)" "last_end t0 windows \<le> clk" using inv by (auto simp: actor_inv_def)
  obtain o1 watch where wait: "wait_for_changed (ca_watch a) = Some (o1, watch)"
    using step by (auto split: option.splits)
  show ?thesis
  proof (cases o1)
    case None
    then have "a' = cleanup w (a\<lparr>ca_watch := watch\<rparr>)" using step wait by simp
    with inv_cleanup [OF inv time ok, of "a\<lparr>ca_watch := watch\<rparr>"] show ?thesis by simp
  next
    case (Some session)
    define a1 where "a1 = a\<lparr>ca_watch := watch, ca_err_counter := 0, ca_backoff := None\<rparr>"
    have a': "a' = after_reader a1 (handle_session_change w (ca_config a) session (ca_reader a))"
      using step wait Some by (simp add: a1_def)
    have watch: "sw_session watch = session" "ca_phase a1 = ActorRunning"
      using wait Some phase by (auto simp: wait_for_changed_def a1_def split: if_splits)
    show ?thesis
    proof (cases session)
      case None
      note stop = stop_reader_inv [OF r time(1) ok]
      show ?thesis
        using stop(1,3) time(2) None watch phase
        by (auto simp: a' handle_session_change_def a1_def actor_inv_def)
    next
      case (Some s1)
      let ?s = "(ca_reader a)\<lparr>rs_error_notify := False\<rparr>"
      show ?thesis
        using inv_restart [of t0 windows ?s clk w a1, OF _ r(2) time _ fail watch(2)] r(1) ok
        by (simp add: a' handle_session_change_def Some reader_inv_flags Let_def)
    qed
  qed
qed

lemma inv_branch_backoff:
  assumes inv: "actor_inv t0 windows clk a" and step: "branch (BranchBackoff w) a = Some a'" and phase: "ca_phase a = ActorRunning"
    and time: "clk \<le> aw_exit_time w" "aw_exit_time w \<le> aw_now w"
    and ok: "no_panics (ended_windows (BranchBackoff w) a)" and fail: "no_panic (aw_factory w)" "no_panic (aw_build w)"
  shows "actor_inv t0 (windows @ ended_windows (BranchBackoff w) a) (aw_now w) a'"
proof -
  have r: "reader_inv t0 windows (ca_reader a)" "last_end t0 windows \<le> clk" using inv by (auto simp: actor_inv_def)
  show ?thesis
  proof (cases "current_session (ca_watch a)")
    case None
    then have "ended_windows (BranchBackoff w) a = stop_windows w (ca_reader a)"
      using windows_of_branch [OF r(1), of "BranchBackoff w" w] by simp
    moreover have "a' = cleanup w a" using step None by (auto split: option.splits if_splits)
    ultimately show ?thesis using inv_cleanup [OF inv time, of a] ok by simp
  next
    case (Some session)
    define a1 where "a1 = a\<lparr>ca_backoff := None\<rparr>"
    have a': "a' = after_reader a1 (restart_after_backoff w (ca_config a) session (ca_reader a))"
      using step Some by (auto simp: a1_def split: option.splits if_splits)
    have a1: "ca_phase a1 = ActorRunning" by (simp add: a1_def phase)
    show ?thesis
    proof (cases session)
      case None
      then have "ended_windows (BranchBackoff w) a = []" using Some windows_of_other [of "BranchBackoff w" a] by simp
      moreover have "sw_session (ca_watch a) = None"
        using Some None by (auto simp: current_session_def split: if_splits)
      ultimately show ?thesis
        using inv time None phase by (auto simp: a' restart_after_backoff_def a1_def actor_inv_def)
    next
      case (Some s1)
      let ?s = "(ca_reader a)\<lparr>rs_restarts := rs_restarts (ca_reader a) + 1\<rparr>"
      have windows: "ended_windows (BranchBackoff w) a = stop_windows w (ca_reader a)"
        using windows_of_branch [OF r(1), of "BranchBackoff w" w] \<open>current_session (ca_watch a) = Some session\<close> Some by simp
      show ?thesis
        using inv_restart [of t0 windows ?s clk w a1, OF _ r(2) time _ fail a1] r(1) ok
        by (simp add: a' restart_after_backoff_def Some reader_inv_flags Let_def windows)
    qed
  qed
qed

lemma actor_inv_step:
  assumes inv: "actor_inv t0 windows clk a" and step: "actor_step ev a = Some a'"
    and time: "sorted (clk # event_times ev)" and ok: "no_panics (ended_windows ev a)" and driver: "driver_answers ev"
  shows "actor_inv t0 (windows @ ended_windows ev a) (last (clk # event_times ev)) a'"
proof (cases ev)
  case (HandlerExits exit t)
  then show ?thesis using inv_handler_exits [OF inv] step time ok by simp
next
  case (BranchRecv w)
  have "a' = cleanup w a" using step BranchRecv by (auto simp: actor_step_def split: if_splits)
  moreover have "ended_windows ev a = stop_windows w (ca_reader a)"
    using inv BranchRecv windows_of_branch [of t0 windows a ev w] by (simp add: actor_inv_def)
  ultimately show ?thesis using inv_cleanup [OF inv, of w a] time ok BranchRecv by simp
next
  case (BranchSession w)
  have "branch (BranchSession w) a = Some a'" "ca_phase a = ActorRunning"
    using step BranchSession by (auto simp: actor_step_def split: if_splits)
  moreover have "ended_windows ev a = stop_windows w (ca_reader a)"
    using inv BranchSession windows_of_branch [of t0 windows a ev w] by (simp add: actor_inv_def)
  ultimately show ?thesis using inv_branch_session [OF inv, of w a'] time ok driver BranchSession by simp
next
  case (BranchBackoff w)
  have "branch (BranchBackoff w) a = Some a'" "ca_phase a = ActorRunning"
    using step BranchBackoff by (auto simp: actor_step_def split: if_splits)
  then show ?thesis using inv_branch_backoff [OF inv, of w a'] time ok driver BranchBackoff by simp
next
  case (BranchError t)
  then show ?thesis
    using inv step time by (auto simp: actor_step_def actor_inv_def reader_inv_def ended_windows_def handler_ended_def
        needs_reader_def split: if_splits option.splits handler_task.splits)
next
  case (SetSession session)
  then show ?thesis
    using inv step by (auto simp: actor_step_def actor_inv_def ended_windows_def handler_ended_def
        split: if_splits option.splits actor_phase.splits)
qed (use inv step in \<open>auto simp: actor_step_def actor_inv_def ended_windows_def handler_ended_def
        split: if_splits option.splits actor_phase.splits\<close>)

lemma no_panics_append [simp]: "no_panics (xs @ ys) \<longleftrightarrow> no_panics xs \<and> no_panics ys"
  by (simp add: no_panics_def ball_Un)

lemma actor_run_inv:
  assumes "actor_run t0 config reader_config watch windows clk a" and "no_panics windows"
    and "CHECKPOINT_TIMESTAMP_OFFSET \<le> t0"
  shows "actor_inv t0 windows clk a"
  using assms(1,2)
proof induction
  case actor_start
  then show ?case
    using assms(3) by (simp add: actor_inv_def reader_inv_def cdc_actor_new_def reader_state_new_def last_end_def mark_changed_def)
next
  case (actor_next windows clk a ev a')
  then show ?case using actor_inv_step by simp
qed

section \<open>A reader that keeps failing\<close>

definition failing_world :: "nat \<Rightarrow> actor_world" where
  "failing_world t = \<lparr>aw_exit = ExitOk, aw_exit_time = t, aw_now = t, aw_factory = Ok (), aw_build = Ok ()\<rparr>"

lemma failing_world_simps [simp]:
  "aw_exit_time (failing_world t) = t" "aw_now (failing_world t) = t"
  "aw_factory (failing_world t) = Ok ()" "aw_build (failing_world t) = Ok ()"
  by (simp_all add: failing_world_def)

text \<open>When the \<open>n\<close>-th restart happens, and the end of the handler before it.\<close>

definition restart_time :: "nat \<Rightarrow> nat \<Rightarrow> nat" where
  "restart_time t0 n = t0 + n * DEFAULT_BACKOFF_DURATION"

definition failing_watch :: session_watch where
  "failing_watch = \<lparr>sw_session = Some 1, sw_changed = False, sw_sender = True, sw_alive = True\<rparr>"

definition failing_actor :: "nat \<Rightarrow> cdc_config \<Rightarrow> cdc_reader_config \<Rightarrow> nat \<Rightarrow> cdc_actor" where
  "failing_actor t0 config rc n =
     (let params_fn = snd (name_and_params_fn rc);
          start = restart_time t0 (n - 1)
      in \<lparr>ca_reader = \<lparr>rs_reader = Some \<lparr>rd_session = 1, rd_start_timestamp = start - CHECKPOINT_TIMESTAMP_OFFSET,
                                          rd_params = params_fn config\<rparr>,
                       rs_handler_task = Some HandlerRunning, rs_shutdown_notify = False, rs_error_notify = False,
                       rs_start = start, rs_params_fn = params_fn, rs_up = Some True, rs_handler_errors = n,
                       rs_restarts = n\<rparr>,
          ca_config = config, ca_watch = failing_watch, ca_senders = True, ca_backoff = None, ca_err_counter = n,
          ca_phase = ActorRunning\<rparr>)"

definition failing_windows :: "nat \<Rightarrow> nat \<Rightarrow> window list" where
  "failing_windows t0 n =
     map (\<lambda>k. (restart_time t0 (k - 1) - CHECKPOINT_TIMESTAMP_OFFSET, restart_time t0 k, ExitErr)) [0..<n]"

lemma failing_start:
  assumes "CHECKPOINT_TIMESTAMP_OFFSET \<le> t0"
  shows "actor_run t0 config rc failing_watch [] t0 (failing_actor t0 config rc 0)"
proof -
  have step: "actor_step (BranchSession (failing_world t0)) (cdc_actor_new t0 config rc failing_watch) =
      Some (failing_actor t0 config rc 0)"
    using assms
    by (simp add: actor_step_def cdc_actor_new_def failing_watch_def mark_changed_def wait_for_changed_def
        reader_state_new_def handle_session_change_def restart_reader_def stop_reader_def create_cdc_reader_def
        failing_actor_def restart_time_def Let_def)
  have windows: "ended_windows (BranchSession (failing_world t0)) (cdc_actor_new t0 config rc failing_watch) = []"
    by (simp add: ended_windows_def cdc_actor_new_def reader_state_new_def)
  have "sorted (t0 # event_times (BranchSession (failing_world t0)))"
    and "driver_answers (BranchSession (failing_world t0))"
    and "last (t0 # event_times (BranchSession (failing_world t0))) = t0"
    by simp_all
  then show ?thesis
    using actor_next [OF actor_start _ _ step] by (simp add: windows)
qed

lemma failing_round:
  assumes "CHECKPOINT_TIMESTAMP_OFFSET \<le> t0"
    and run: "actor_run t0 config rc failing_watch windows (restart_time t0 n) (failing_actor t0 config rc n)"
  shows "actor_run t0 config rc failing_watch
    (windows @ [(restart_time t0 (n - 1) - CHECKPOINT_TIMESTAMP_OFFSET, restart_time t0 n, ExitErr)])
    (restart_time t0 (Suc n)) (failing_actor t0 config rc (Suc n))"
proof -
  let ?t = "restart_time t0 n" and ?a = "failing_actor t0 config rc n"
  define a1 where "a1 = ?a\<lparr>ca_reader := (ca_reader ?a)\<lparr>rs_handler_task := Some (HandlerFinished ?t), rs_handler_errors := Suc n,
      rs_error_notify := True\<rparr>\<rparr>"
  define a2 where "a2 = a1\<lparr>ca_reader := (ca_reader a1)\<lparr>rs_error_notify := False, rs_up := Some False\<rparr>, ca_err_counter := Suc n,
      ca_backoff := Some (restart_time t0 (Suc n))\<rparr>"
  have s1: "actor_step (HandlerExits ExitErr ?t) ?a = Some a1"
    by (simp add: actor_step_def failing_actor_def handler_exits_def a1_def Let_def)
  have s2: "actor_step (BranchError ?t) a1 = Some a2"
    by (simp add: actor_step_def failing_actor_def a1_def a2_def Let_def restart_time_def)
  have s3: "actor_step (BranchBackoff (failing_world (restart_time t0 (Suc n)))) a2 = Some (failing_actor t0 config rc (Suc n))"
    using assms(1)
    by (simp add: actor_step_def failing_actor_def a1_def a2_def Let_def failing_watch_def
        current_session_def restart_after_backoff_def restart_reader_def stop_reader_def create_cdc_reader_def restart_time_def)
  have w1: "ended_windows (HandlerExits ExitErr ?t) ?a =
      [(restart_time t0 (n - 1) - CHECKPOINT_TIMESTAMP_OFFSET, restart_time t0 n, ExitErr)]"
    by (simp add: ended_windows_def handler_ended_def failing_actor_def Let_def)
  have w2: "ended_windows (BranchError ?t) a1 = []"
    and w3: "ended_windows (BranchBackoff (failing_world (restart_time t0 (Suc n)))) a2 = []"
    by (simp_all add: ended_windows_def handler_ended_def a1_def a2_def failing_actor_def Let_def)
  have le: "restart_time t0 n \<le> restart_time t0 (Suc n)" by (simp add: restart_time_def)
  from actor_next [OF run _ _ s1] have "actor_run t0 config rc failing_watch (windows @
      [(restart_time t0 (n - 1) - CHECKPOINT_TIMESTAMP_OFFSET, restart_time t0 n, ExitErr)]) ?t a1"
    by (simp add: w1)
  from actor_next [OF this _ _ s2] have "actor_run t0 config rc failing_watch (windows @
      [(restart_time t0 (n - 1) - CHECKPOINT_TIMESTAMP_OFFSET, restart_time t0 n, ExitErr)]) ?t a2"
    by (simp add: w2)
  from actor_next [OF this _ _ s3] show ?thesis
    by (simp add: w3 le)
qed

lemma failing_run:
  assumes "CHECKPOINT_TIMESTAMP_OFFSET \<le> t0"
  shows "actor_run t0 config rc failing_watch (failing_windows t0 n) (restart_time t0 n) (failing_actor t0 config rc n)"
proof (induction n)
  case 0
  then show ?case using failing_start [OF assms] by (simp add: failing_windows_def restart_time_def)
next
  case (Suc n)
  then show ?case using failing_round [OF assms Suc.IH] by (simp add: failing_windows_def)
qed

section \<open>Properties\<close>

text \<open>
  C10: a lost CDC reader comes back. In every run of the actor of a reader (any interleaving of
  session changes, errors of the handler, failures to build a reader and shutdown; the handler and
  the driver do not panic), the actor never panics, a reader and its handler task exist together, a handler is
  started without a stale request to shut down, and the gauge shows a reader as up only while there
  is one. While there is a session and no reader, or a handler that failed, there is a time from
  which a branch that leads to a restart can always be taken.
\<close>

theorem cdc_actor_recovers:
  assumes "actor_run t0 config rc watch windows clk a" and "no_panics windows" and "CHECKPOINT_TIMESTAMP_OFFSET \<le> t0"
  shows "(\<forall>msg. ca_phase a \<noteq> ActorPanicked msg) \<and>
    (rs_reader (ca_reader a) = None \<longleftrightarrow> rs_handler_task (ca_reader a) = None) \<and>
    (rs_handler_task (ca_reader a) = Some HandlerRunning \<longrightarrow> \<not> rs_shutdown_notify (ca_reader a)) \<and>
    (rs_up (ca_reader a) = Some True \<longrightarrow> rs_reader (ca_reader a) \<noteq> None) \<and>
    (ca_phase a = ActorStopped \<longrightarrow> rs_reader (ca_reader a) = None \<and> rs_up (ca_reader a) = None) \<and>
    (ca_phase a = ActorRunning \<longrightarrow> sw_session (ca_watch a) \<noteq> None \<longrightarrow> needs_reader windows (ca_reader a) \<longrightarrow>
       (\<exists>wake. \<forall>w. wake \<le> aw_now w \<longrightarrow>
          (\<exists>ev\<in>{BranchError (aw_now w), BranchSession w, BranchBackoff w}. actor_step ev a \<noteq> None)))"
proof -
  have inv: "actor_inv t0 windows clk a" using actor_run_inv [OF assms] .
  have "\<exists>wake. \<forall>w. wake \<le> aw_now w \<longrightarrow>
      (\<exists>ev\<in>{BranchError (aw_now w), BranchSession w, BranchBackoff w}. actor_step ev a \<noteq> None)"
    if running: "ca_phase a = ActorRunning" and needs: "sw_session (ca_watch a) \<noteq> None" "needs_reader windows (ca_reader a)"
  proof -
    consider "rs_error_notify (ca_reader a)" | deadline where "ca_backoff a = Some deadline" | "sw_changed (ca_watch a)"
      using inv running needs by (auto simp: actor_inv_def)
    then show ?thesis
    proof cases
      case 1
      then show ?thesis using running by (auto simp: actor_step_def)
    next
      case (2 deadline)
      then show ?thesis
        using running by (intro exI [of _ deadline]) (auto simp: actor_step_def split: option.split)
    next
      case 3
      then show ?thesis
        using running by (auto simp: actor_step_def wait_for_changed_def split: option.split)
    qed
  qed
  then show ?thesis
    using inv by (auto simp: actor_inv_def reader_inv_def)
qed

text \<open>
  The readers of an actor leave no gap. In every such run, the times from which successive
  readers read and at which they ended form a chain: the first starts ten minutes before the actor
  was created, each later one ten minutes before the previous one ended, however long there was no
  session in between; so every moment from the first start to the last end lies in one of these
  windows, and a reader that is running continues from them.
\<close>

theorem cdc_windows_chained:
  assumes "actor_run t0 config rc watch windows clk a" and "no_panics windows" and "CHECKPOINT_TIMESTAMP_OFFSET \<le> t0"
  shows "chained t0 windows \<and>
    (\<forall>x. windows \<noteq> [] \<longrightarrow> t0 - CHECKPOINT_TIMESTAMP_OFFSET \<le> x \<longrightarrow> x \<le> last_end t0 windows \<longrightarrow>
       (\<exists>(from, to, exit)\<in>set windows. from \<le> x \<and> x \<le> to)) \<and>
    (rs_handler_task (ca_reader a) = Some HandlerRunning \<longrightarrow>
       (\<exists>r. rs_reader (ca_reader a) = Some r \<and>
          rd_start_timestamp r = last_end t0 windows - CHECKPOINT_TIMESTAMP_OFFSET))"
proof -
  have inv: "reader_inv t0 windows (ca_reader a)"
    using actor_run_inv [OF assms] by (simp add: actor_inv_def)
  then have "chained t0 windows" by (simp add: reader_inv_def)
  with inv show ?thesis using chained_covers [of t0 windows] by (auto simp: reader_inv_def)
qed

text \<open>
  C25: what is not kept is how far a reader got. A handler that fails as soon as it starts, again
  and again, moves the start of the next reader by the five seconds of the backoff each time: after
  \<open>n\<close> failures, the running reader starts from ten minutes before the last failure, however many
  they were, although none of its predecessors read anything.
\<close>

theorem failing_reader_skips:
  assumes "CHECKPOINT_TIMESTAMP_OFFSET \<le> t0" and "0 < n"
  shows "\<exists>a r. actor_run t0 config rc failing_watch (failing_windows t0 n) (restart_time t0 n) a \<and>
    ca_phase a = ActorRunning \<and> rs_reader (ca_reader a) = Some r \<and> rs_handler_task (ca_reader a) = Some HandlerRunning \<and>
    rd_start_timestamp r = t0 + (n - 1) * DEFAULT_BACKOFF_DURATION - CHECKPOINT_TIMESTAMP_OFFSET"
  using failing_run [OF assms(1)]
  by (intro exI [of _ "failing_actor t0 config rc n"]) (simp add: failing_actor_def restart_time_def Let_def)

section \<open>Witnesses\<close>

definition example_config :: cdc_config where
  "example_config =
     \<lparr>cf_safety_interval = None, cf_sleep_interval = None, cf_fine_safety_interval = None, cf_fine_sleep_interval = None\<rparr>"

definition example_clock :: nat where
  "example_clock = duration_from_mins 60"

lemmas cdc_durations = duration_from_mins_def duration_from_secs_def CHECKPOINT_TIMESTAMP_OFFSET_def
  DEFAULT_BACKOFF_DURATION_def example_clock_def

lemma example_clock_ok: "CHECKPOINT_TIMESTAMP_OFFSET \<le> example_clock"
  by (simp add: cdc_durations)

lemma example_no_panics: "no_panics (failing_windows t0 n)"
  by (auto simp: no_panics_def failing_windows_def)

theorem cdc_actor_recovers_witness:
  "\<exists>a1. actor_step (HandlerExits ExitErr example_clock) (failing_actor example_clock example_config Wide 0) = Some a1 \<and>
     (\<exists>wake. \<forall>w. wake \<le> aw_now w \<longrightarrow>
        (\<exists>ev\<in>{BranchError (aw_now w), BranchSession w, BranchBackoff w}. actor_step ev a1 \<noteq> None))"
proof -
  let ?a = "failing_actor example_clock example_config Wide 0"
  define a1 where "a1 = ?a\<lparr>ca_reader := (ca_reader ?a)\<lparr>rs_handler_task := Some (HandlerFinished example_clock),
      rs_handler_errors := 1, rs_error_notify := True\<rparr>\<rparr>"
  let ?w = "[(example_clock - CHECKPOINT_TIMESTAMP_OFFSET, example_clock, ExitErr)]"
  have step: "actor_step (HandlerExits ExitErr example_clock) ?a = Some a1"
    by (simp add: actor_step_def failing_actor_def handler_exits_def a1_def Let_def)
  have "ended_windows (HandlerExits ExitErr example_clock) ?a = ?w"
    by (simp add: ended_windows_def handler_ended_def failing_actor_def Let_def restart_time_def)
  then have "actor_run example_clock example_config Wide failing_watch ?w example_clock a1"
    using actor_next [OF failing_start [OF example_clock_ok] _ _ step] by simp
  from cdc_actor_recovers [OF this _ example_clock_ok]
  show ?thesis
    using step by (simp add: no_panics_def needs_reader_def a1_def failing_actor_def failing_watch_def Let_def)
qed

theorem cdc_windows_chained_witness:
  "\<exists>(from, to, exit)\<in>set (failing_windows example_clock 2). from \<le> example_clock + 1 \<and> example_clock + 1 \<le> to"
proof -
  have "last_end example_clock (failing_windows example_clock 2) = restart_time example_clock 1" "failing_windows example_clock 2 \<noteq> []"
    by (simp_all add: failing_windows_def last_end_def upt_rec [of _ 2] upt_rec [of _ "Suc 1"] numeral_2_eq_2)
  then show ?thesis
    using cdc_windows_chained [OF failing_run [OF example_clock_ok, of example_config Wide 2] example_no_panics example_clock_ok]
    by (simp add: restart_time_def cdc_durations)
qed

text \<open>After 122 failures, in about ten minutes, the reader starts after the actor was created.\<close>

theorem failing_reader_skips_witness:
  "\<exists>(a :: cdc_actor) r. ca_phase a = ActorRunning \<and> rs_reader (ca_reader a) = Some r \<and> example_clock < rd_start_timestamp r"
proof -
  obtain a :: cdc_actor and r where "ca_phase a = ActorRunning" "rs_reader (ca_reader a) = Some r"
    and start: "rd_start_timestamp r = example_clock + (122 - 1) * DEFAULT_BACKOFF_DURATION - CHECKPOINT_TIMESTAMP_OFFSET"
    using failing_reader_skips [OF example_clock_ok, of 122 example_config Wide] by auto
  moreover have "example_clock < rd_start_timestamp r" unfolding start by (simp add: cdc_durations)
  ultimately show ?thesis by blast
qed

end
