(* ===== verification/Cql_Json.thy ===== *)
theory Cql_Json
  imports Columns
begin

text \<open>
  Between CQL values and JSON (\<open>to_json\<close> and \<open>from_json\<close> of \<open>cql_types.rs\<close>): the values of answers
  and of filters in the HTTP interface.

  The libraries are the fields of the record \<open>json_codec\<close>: the numbers of JSON, the casts between
  \<open>f32\<close> and \<open>f64\<close>, and the textual formats of UUIDs, times, hexadecimal strings, big numbers and
  addresses. \<open>numbers_ok\<close> states what is documented of the numbers and of the casts; of the textual
  formats nothing is assumed.
\<close>

section \<open>JSON\<close>

datatype 'num json =
    JNull
  | JBool bool
  | JNumber 'num
  | JString rust_string
  | JArray "'num json list"
  | JObject "(rust_string \<times> 'num json) list"

record 'num json_codec =
  jc_from_f64 :: "u64 \<Rightarrow> 'num option"
  jc_from_int :: "int \<Rightarrow> 'num"
  jc_as_f64 :: "'num \<Rightarrow> u64 option"
  jc_as_i64 :: "'num \<Rightarrow> int option"
  jc_number_to_string :: "'num \<Rightarrow> rust_string"
  jc_f32_to_f64 :: "u32 \<Rightarrow> u64"
  jc_f64_to_f32 :: "u64 \<Rightarrow> u32"
  jc_uuid_to_string :: "u8 list \<Rightarrow> rust_string"
  jc_parse_uuid :: "rust_string \<Rightarrow> u8 list option"
  jc_parse_timeuuid :: "rust_string \<Rightarrow> u8 list option"
  jc_format_date :: "u32 \<Rightarrow> rust_string option"
  jc_parse_date :: "rust_string \<Rightarrow> u32 option"
  jc_format_time :: "u64 \<Rightarrow> rust_string option"
  jc_parse_time :: "rust_string \<Rightarrow> u64 option"
  jc_format_timestamp :: "u64 \<Rightarrow> rust_string option"
  jc_parse_timestamp :: "rust_string \<Rightarrow> u64 option"
  jc_cql_timestamp_re :: "rust_string \<Rightarrow> rust_string option"
  jc_encode_prefixed :: "u8 list \<Rightarrow> rust_string"
  jc_decode_hex :: "rust_string \<Rightarrow> u8 list option"
  jc_bigint_to_string :: "u8 list \<Rightarrow> rust_string"
  jc_parse_bigint :: "rust_string \<Rightarrow> u8 list option"
  jc_decimal_to_string :: "cql_decimal \<Rightarrow> rust_string"
  jc_parse_decimal :: "rust_string \<Rightarrow> cql_decimal option"
  jc_inet_to_string :: "ip_addr \<Rightarrow> rust_string"
  jc_parse_inet :: "rust_string \<Rightarrow> ip_addr option"

text \<open>The bytes of the literals of the code.\<close>

definition T_PREFIX :: rust_string where
  "T_PREFIX = [84]"

definition HEX_PREFIX :: rust_string where
  "HEX_PREFIX = [48, 120]"

definition strip_prefix :: "rust_string \<Rightarrow> rust_string \<Rightarrow> rust_string option" where
  "strip_prefix p s = (if take (length p) s = p then Some (drop (length p) s) else None)"

section \<open>to\_json\<close>

definition of_format :: "string \<Rightarrow> rust_string option \<Rightarrow> 'num json result" where
  "of_format msg s = and_then (ok_or s (Bail msg)) (\<lambda>s. Ok (JString s))"

fun to_json :: "'num json_codec \<Rightarrow> cql_value \<Rightarrow> 'num json result"
  and to_jsons :: "'num json_codec \<Rightarrow> cql_value list \<Rightarrow> 'num json list result" where
  "to_json C (CqlAscii value) = Ok (JString value)"
| "to_json C (CqlText value) = Ok (JString value)"
| "to_json C (CqlBoolean value) = Ok (JBool value)"
| "to_json C (CqlDouble value) =
     and_then (ok_or (jc_from_f64 C value) (Bail ''CqlValue::Double should be finite'')) (\<lambda>n. Ok (JNumber n))"
| "to_json C (CqlFloat value) =
     and_then (ok_or (jc_from_f64 C (jc_f32_to_f64 C value)) (Bail ''CqlValue::Float should be finite''))
       (\<lambda>n. Ok (JNumber n))"
| "to_json C (CqlInt value) = Ok (JNumber (jc_from_int C (sint value)))"
| "to_json C (CqlBigInt value) = Ok (JNumber (jc_from_int C (sint value)))"
| "to_json C (CqlSmallInt value) = Ok (JNumber (jc_from_int C (sint value)))"
| "to_json C (CqlTinyInt value) = Ok (JNumber (jc_from_int C (sint value)))"
| "to_json C (CqlUuid value) = Ok (JString (jc_uuid_to_string C value))"
| "to_json C (CqlTimeuuid value) = Ok (JString (jc_uuid_to_string C value))"
| "to_json C (CqlDate value) = of_format ''time: date'' (jc_format_date C value)"
| "to_json C (CqlTime value) =
     and_then (ok_or (jc_format_time C value) (Bail ''time: time'')) (\<lambda>s.
     and_then (ok_or (strip_prefix T_PREFIX s) (Bail ''CqlValue::Time: wrong formatting detected'')) (\<lambda>s.
       Ok (JString s)))"
| "to_json C (CqlTimestamp value) = of_format ''time: timestamp'' (jc_format_timestamp C value)"
| "to_json C (CqlBlob value) = Ok (JString (jc_encode_prefixed C value))"
| "to_json C (CqlVarint value) = Ok (JString (jc_bigint_to_string C value))"
| "to_json C (CqlDecimalV value) = Ok (JString (jc_decimal_to_string C value))"
| "to_json C (CqlInet value) = Ok (JString (jc_inet_to_string C value))"
| "to_json C CqlEmpty =
     Err (Bail ''a primary key column holds an empty value, which has no JSON representation'')"
| "to_json C (CqlVector values) = and_then (to_jsons C values) (\<lambda>vs. Ok (JArray vs))"
| "to_json C _ = Err (Bail ''unsupported CQL type for a primary key column'')"
| "to_jsons C [] = Ok []"
| "to_jsons C (v # vs) = and_then (to_json C v) (\<lambda>j. and_then (to_jsons C vs) (\<lambda>js. Ok (j # js)))"

section \<open>from\_json\<close>

definition float_finite :: "nat \<Rightarrow> nat \<Rightarrow> 'a::len word \<Rightarrow> bool" where
  "float_finite m e x \<longleftrightarrow> unat (take_bit (m + e) x) < (2 ^ e - 1) * 2 ^ m"

text \<open>\<open>f32::MIN as f64\<close> and \<open>f32::MAX as f64\<close>.\<close>

definition F32_MIN :: u64 where
  "F32_MIN = 0xC7EFFFFFE0000000"

definition F32_MAX :: u64 where
  "F32_MAX = 0x47EFFFFFE0000000"

definition parse_or :: "string \<Rightarrow> 'a option \<Rightarrow> ('a \<Rightarrow> cql_value) \<Rightarrow> cql_value result" where
  "parse_or msg o1 f = and_then (ok_or o1 (Bail msg)) (\<lambda>x. Ok (f x))"

definition normalize_timestamp :: "'num json_codec \<Rightarrow> rust_string \<Rightarrow> rust_string" where
  "normalize_timestamp C value =
     (case jc_cql_timestamp_re C value of
        None \<Rightarrow> value
      | Some date \<Rightarrow> date @ T_PREFIX @ drop (length date + 1) value)"

definition from_string :: "'num json_codec \<Rightarrow> rust_string \<Rightarrow> native_type \<Rightarrow> cql_value result" where
  "from_string C value cql_type =
     (case cql_type of
        NT_Ascii \<Rightarrow> Ok (CqlAscii value)
      | NT_Text \<Rightarrow> Ok (CqlText value)
      | NT_Uuid \<Rightarrow> parse_or ''Failed to parse UUID from string'' (jc_parse_uuid C value) CqlUuid
      | NT_Timeuuid \<Rightarrow> parse_or ''Failed to parse TimeUUID from string'' (jc_parse_timeuuid C value) CqlTimeuuid
      | NT_Date \<Rightarrow> parse_or ''Failed to parse Date from string'' (jc_parse_date C value) CqlDate
      | NT_Time \<Rightarrow>
          parse_or ''Failed to parse Time from string''
            (jc_parse_time C (case strip_prefix T_PREFIX value of Some s \<Rightarrow> s | None \<Rightarrow> value)) CqlTime
      | NT_Timestamp \<Rightarrow>
          parse_or ''Failed to parse Timestamp from string'' (jc_parse_timestamp C (normalize_timestamp C value)) CqlTimestamp
      | NT_Blob \<Rightarrow>
          if strip_prefix HEX_PREFIX value = None then Err (Bail ''Blob value must be a '0x'-prefixed hex string'')
          else parse_or ''Invalid hex in blob value'' (jc_decode_hex C value) CqlBlob
      | NT_Varint \<Rightarrow> parse_or ''Failed to parse Varint from string'' (jc_parse_bigint C value) CqlVarint
      | NT_Decimal \<Rightarrow> parse_or ''Failed to parse Decimal from string'' (jc_parse_decimal C value) CqlDecimalV
      | NT_Inet \<Rightarrow> parse_or ''Failed to parse Inet from string'' (jc_parse_inet C value) CqlInet
      | _ \<Rightarrow> Err (Bail ''Cannot convert string to CqlValue, unsupported type''))"

text \<open>\<open>as_i64\<close>, then \<open>try_into\<close> an integer of \<open>n\<close> bits.\<close>

definition int_of_number :: "'num json_codec \<Rightarrow> 'num \<Rightarrow> nat \<Rightarrow> (int \<Rightarrow> cql_value) \<Rightarrow> cql_value result" where
  "int_of_number C value n f =
     and_then (ok_or (jc_as_i64 C value) (Bail ''Expected i64'')) (\<lambda>i.
       if - (2 ^ (n - 1)) \<le> i \<and> i < 2 ^ (n - 1) then Ok (f i) else Err (Bail ''out of range integral type conversion''))"

definition float_of_number :: "'num json_codec \<Rightarrow> 'num \<Rightarrow> cql_value result" where
  "float_of_number C value =
     and_then (ok_or (jc_as_f64 C value) (Bail ''Expected f32 (type f64) for CqlValue::Float'')) (\<lambda>value.
       if \<not> float_finite 52 11 value \<or> f64_partial_cmp value F32_MIN = Some Less \<or> f64_partial_cmp value F32_MAX = Some Greater
       then Err (Bail ''Expected f32 for CqlValue::Float: value out of range'')
       else
         let value = jc_f64_to_f32 C value
         in if \<not> float_finite 23 8 value then Err (Bail ''Expected finite f32 for CqlValue::Float'')
            else Ok (CqlFloat value))"

definition from_number :: "'num json_codec \<Rightarrow> 'num \<Rightarrow> native_type \<Rightarrow> cql_value result" where
  "from_number C value cql_type =
     (case cql_type of
        NT_Double \<Rightarrow> parse_or ''Expected f64 for CqlValue::Double'' (jc_as_f64 C value) CqlDouble
      | NT_Float \<Rightarrow> float_of_number C value
      | NT_Int \<Rightarrow> int_of_number C value 32 (\<lambda>i. CqlInt (word_of_int i))
      | NT_BigInt \<Rightarrow> parse_or ''Expected i64 for CqlValue::BigInt'' (jc_as_i64 C value) (\<lambda>i. CqlBigInt (word_of_int i))
      | NT_SmallInt \<Rightarrow> int_of_number C value 16 (\<lambda>i. CqlSmallInt (word_of_int i))
      | NT_TinyInt \<Rightarrow> int_of_number C value 8 (\<lambda>i. CqlTinyInt (word_of_int i))
      | NT_Varint \<Rightarrow>
          parse_or ''Failed to parse Varint from number'' (jc_parse_bigint C (jc_number_to_string C value)) CqlVarint
      | NT_Decimal \<Rightarrow>
          parse_or ''Failed to parse Decimal from number'' (jc_parse_decimal C (jc_number_to_string C value)) CqlDecimalV
      | _ \<Rightarrow> Err (Bail ''Cannot convert number to CqlValue, unsupported type''))"

definition from_json :: "'num json_codec \<Rightarrow> 'num json \<Rightarrow> native_type \<Rightarrow> cql_value result" where
  "from_json C value cql_type =
     (case value of
        JString value \<Rightarrow> from_string C value cql_type
      | JBool value \<Rightarrow>
          (case cql_type of
             NT_Boolean \<Rightarrow> Ok (CqlBoolean value)
           | _ \<Rightarrow> Err (Bail ''Cannot convert bool to CqlValue, unsupported type''))
      | JNumber value \<Rightarrow> from_number C value cql_type
      | _ \<Rightarrow> Err (Bail ''Cannot convert JSON value to CqlValue, unsupported type''))"

section \<open>What the libraries document\<close>

text \<open>
  A number holds exactly the finite floats, and gives back what it was made of; \<open>as_i64\<close> gives back
  an integer. A cast to \<open>f64\<close> is exact: the finite \<open>f32\<close> become finite \<open>f64\<close> between \<open>f32::MIN\<close> and
  \<open>f32::MAX\<close>, and the cast back gives the same \<open>f32\<close>.
\<close>

definition numbers_ok :: "'num json_codec \<Rightarrow> bool" where
  "numbers_ok C \<longleftrightarrow>
     (\<forall>f. (jc_from_f64 C f \<noteq> None) = float_finite 52 11 f) \<and>
     (\<forall>f n. jc_from_f64 C f = Some n \<longrightarrow> jc_as_f64 C n = Some f) \<and>
     (\<forall>i. - (2 ^ 63) \<le> i \<longrightarrow> i < 2 ^ 63 \<longrightarrow> jc_as_i64 C (jc_from_int C i) = Some i) \<and>
     (\<forall>x. float_finite 52 11 (jc_f32_to_f64 C x) = float_finite 23 8 x) \<and>
     (\<forall>x. float_finite 23 8 x \<longrightarrow>
        jc_f64_to_f32 C (jc_f32_to_f64 C x) = x \<and>
        f64_partial_cmp (jc_f32_to_f64 C x) F32_MIN \<noteq> Some Less \<and> f64_partial_cmp (jc_f32_to_f64 C x) F32_MAX \<noteq> Some Greater)"

text \<open>The types whose values are written as what they are, and not in the textual format of a library.\<close>

definition direct_types :: "native_type list" where
  "direct_types = [NT_Ascii, NT_Text, NT_Boolean, NT_Double, NT_Float, NT_Int, NT_BigInt, NT_SmallInt, NT_TinyInt]"

fun has_json :: "cql_value \<Rightarrow> bool" where
  "has_json (CqlDouble x) = float_finite 52 11 x"
| "has_json (CqlFloat x) = float_finite 23 8 x"
| "has_json _ = True"

lemma from_json_simps [simp]:
  "from_json C (JString s) nt = from_string C s nt"
  "from_json C (JNumber n) nt = from_number C n nt"
  "from_json C (JBool b) nt = (case nt of NT_Boolean \<Rightarrow> Ok (CqlBoolean b)
     | _ \<Rightarrow> Err (Bail ''Cannot convert bool to CqlValue, unsupported type''))"
  by (simp_all add: from_json_def)

lemma parse_or_simps [simp]: "parse_or msg (Some x) f = Ok (f x)" "parse_or msg None f = Err (Bail msg)"
  by (simp_all add: parse_or_def)

lemma parse_or_Ok: "parse_or msg o1 f = Ok v \<longleftrightarrow> (\<exists>x. o1 = Some x \<and> v = f x)"
  by (cases o1) auto

lemma of_format_Ok: "of_format msg o1 = Ok j \<longleftrightarrow> (\<exists>s. o1 = Some s \<and> j = JString s)"
  by (cases o1) (auto simp: of_format_def)

text \<open>
  An integer is read as a value of \<open>n\<close> bits exactly when such a value has it: nothing is truncated.
\<close>

lemma int_of_number_eq:
  assumes "numbers_ok C" and "- (2 ^ 63) \<le> i" and "i < 2 ^ 63" and "n = LENGTH('a)"
  shows "int_of_number C (jc_from_int C i) n (\<lambda>i. f (word_of_int i :: 'a::len word)) = Ok v \<longleftrightarrow> (\<exists>x. v = f x \<and> sint x = i)"
proof -
  have i: "jc_as_i64 C (jc_from_int C i) = Some i" using assms(1-3) by (simp add: numbers_ok_def)
  have fits: "- (2 ^ (n - 1)) \<le> i \<and> i < 2 ^ (n - 1) \<longleftrightarrow> sint (word_of_int i :: 'a word) = i"
  proof
    assume same: "sint (word_of_int i :: 'a word) = i"
    show "- (2 ^ (n - 1)) \<le> i \<and> i < 2 ^ (n - 1)"
      using sint_ge [of "word_of_int i :: 'a word"] sint_lt [of "word_of_int i :: 'a word"]
      unfolding same assms(4) by simp
  qed (simp add: assms(4) sint_sbintrunc' signed_take_bit_int_eq_self)
  show ?thesis
    using i fits by (auto simp: int_of_number_def)
qed

lemma bigint_of_number_eq:
  assumes "numbers_ok C" and "- (2 ^ 63) \<le> i" and "i < 2 ^ 63"
  shows "from_number C (jc_from_int C i) NT_BigInt = Ok v \<longleftrightarrow> (\<exists>x. v = CqlBigInt x \<and> sint x = i)"
proof -
  have "sint (word_of_int i :: u64) = i"
    using assms(2,3) by (simp add: sint_sbintrunc' signed_take_bit_int_eq_self)
  moreover have "jc_as_i64 C (jc_from_int C i) = Some i" using assms by (simp add: numbers_ok_def)
  ultimately show ?thesis by (auto simp: from_number_def)
qed

lemma sint_i64: "- (2 ^ 63) \<le> sint (x :: 'a::len word) \<and> sint x < 2 ^ 63" if "LENGTH('a) \<le> 64"
proof -
  have "(2 :: int) ^ (LENGTH('a) - 1) \<le> 2 ^ 63"
    using that by (intro power_increasing) auto
  then show ?thesis using sint_ge [of x] sint_lt [of x] by linarith
qed

text \<open>The type of what is read.\<close>

lemma from_json_type: "from_json C j nt = Ok v \<Longrightarrow> value_type v = Some nt"
  by (cases j; cases nt)
    (auto simp: from_json_def from_string_def from_number_def parse_or_Ok int_of_number_def float_of_number_def Let_def
      result_simps split: if_splits)

lemma no_panic_parse_or [simp]: "no_panic (parse_or msg o1 f)"
  by (cases o1) simp_all

lemma from_json_no_panic: "no_panic (from_json C j nt)"
proof -
  have "no_panic (from_string C s nt)" for s by (cases nt) (simp_all add: from_string_def)
  moreover have "no_panic (from_number C n nt)" for n
    by (cases nt)
      (auto simp: from_number_def int_of_number_def float_of_number_def Let_def intro!: no_panic_and_then)
  ultimately show ?thesis by (cases j) (auto simp: from_json_def split: native_type.split)
qed

section \<open>Reading back\<close>

lemma integers_read:
  assumes "numbers_ok C" and "- (2 ^ 63) \<le> i" and "i < 2 ^ 63"
  shows "from_number C (jc_from_int C i) NT_Int = Ok v \<longleftrightarrow> (\<exists>x. v = CqlInt x \<and> sint x = i)"
    and "from_number C (jc_from_int C i) NT_BigInt = Ok v \<longleftrightarrow> (\<exists>x. v = CqlBigInt x \<and> sint x = i)"
    and "from_number C (jc_from_int C i) NT_SmallInt = Ok v \<longleftrightarrow> (\<exists>x. v = CqlSmallInt x \<and> sint x = i)"
    and "from_number C (jc_from_int C i) NT_TinyInt = Ok v \<longleftrightarrow> (\<exists>x. v = CqlTinyInt x \<and> sint x = i)"
  using bigint_of_number_eq [OF assms] int_of_number_eq [OF assms, of 32 CqlInt v] int_of_number_eq [OF assms, of 16 CqlSmallInt v]
    int_of_number_eq [OF assms, of 8 CqlTinyInt v]
  by (simp_all add: from_number_def)

lemma float_read:
  assumes "numbers_ok C" and "jc_from_f64 C (jc_f32_to_f64 C x) = Some n"
  shows "from_number C n NT_Float = Ok (CqlFloat x)"
proof -
  have n: "jc_as_f64 C n = Some (jc_f32_to_f64 C x)" using assms by (simp add: numbers_ok_def)
  have "jc_from_f64 C (jc_f32_to_f64 C x) \<noteq> None" using assms(2) by simp
  then have "float_finite 52 11 (jc_f32_to_f64 C x)" using assms(1) unfolding numbers_ok_def by blast
  moreover from this have "float_finite 23 8 x" using assms(1) unfolding numbers_ok_def by blast
  moreover from this have "jc_f64_to_f32 C (jc_f32_to_f64 C x) = x"
    "f64_partial_cmp (jc_f32_to_f64 C x) F32_MIN \<noteq> Some Less" "f64_partial_cmp (jc_f32_to_f64 C x) F32_MAX \<noteq> Some Greater"
    using assms(1) unfolding numbers_ok_def by blast+
  ultimately show ?thesis using n by (simp add: from_number_def float_of_number_def)
qed

lemma direct_read_back:
  assumes numbers: "numbers_ok C" and nt: "value_type v = Some nt" "nt \<in> set direct_types" and json: "to_json C v = Ok j"
  shows "from_json C j nt = Ok v"
proof (cases v)
  case (CqlDouble x)
  then obtain n where "jc_from_f64 C x = Some n" "j = JNumber n" using json by (auto simp: result_simps)
  moreover from this have "jc_as_f64 C n = Some x" using numbers by (simp add: numbers_ok_def)
  ultimately show ?thesis using nt CqlDouble by (auto simp: from_number_def)
next
  case (CqlFloat x)
  then obtain n where "jc_from_f64 C (jc_f32_to_f64 C x) = Some n" "j = JNumber n" using json by (auto simp: result_simps)
  then show ?thesis using float_read [OF numbers] nt CqlFloat by auto
next
  case (CqlInt x)
  then show ?thesis using integers_read(1) [OF numbers, of "sint x" v] sint_i64 [of x] nt json by auto
next
  case (CqlBigInt x)
  then show ?thesis using integers_read(2) [OF numbers, of "sint x" v] sint_i64 [of x] nt json by auto
next
  case (CqlSmallInt x)
  then show ?thesis using integers_read(3) [OF numbers, of "sint x" v] sint_i64 [of x] nt json by auto
next
  case (CqlTinyInt x)
  then show ?thesis using integers_read(4) [OF numbers, of "sint x" v] sint_i64 [of x] nt json by auto
qed (use nt json in \<open>auto simp: direct_types_def from_string_def\<close>)

lemma direct_written:
  assumes "numbers_ok C" and "value_type v = Some nt" and "nt \<in> set direct_types"
  shows "is_ok (to_json C v) \<longleftrightarrow> has_json v"
proof -
  have "jc_from_f64 C f = None \<longleftrightarrow> \<not> float_finite 52 11 f" for f
    using assms(1) unfolding numbers_ok_def by blast
  moreover have "float_finite 52 11 (jc_f32_to_f64 C x) = float_finite 23 8 x" for x
    using assms(1) unfolding numbers_ok_def by blast
  ultimately show ?thesis
    using assms(2,3) by (cases v) (auto simp: direct_types_def result_simps not_None_eq [symmetric] simp del: not_None_eq)
qed

lemma float_read_finite: "from_json C j NT_Float = Ok v \<Longrightarrow> has_json v"
  by (cases j)
    (auto simp: from_json_def from_string_def from_number_def float_of_number_def result_simps Let_def split: if_splits)

section \<open>Properties\<close>

text \<open>
  C28: texts, booleans and numbers survive the trip through JSON. What the code writes to a client,
  in a key or a column of an answer, is read back with the type of its column as the very same value;
  only floats and doubles that are not finite cannot be written. An integer of JSON is read as a
  value of an integer type exactly when a value of that width has it, which is then the result:
  nothing is truncated or wrapped; and a float that is read is finite. Whatever JSON a client sends,
  and for every type, also those in the textual format of a library, what is read has the type that
  was asked for, and refusing it is an error, never a panic.
\<close>

theorem json_value_roundtrip:
  assumes numbers: "numbers_ok C"
  shows "(\<forall>v nt. value_type v = Some nt \<and> nt \<in> set direct_types \<longrightarrow>
      (is_ok (to_json C v) \<longleftrightarrow> has_json v) \<and> (\<forall>j. to_json C v = Ok j \<longrightarrow> from_json C j nt = Ok v)) \<and>
    (\<forall>i v. - (2 ^ 63) \<le> i \<and> i < 2 ^ 63 \<longrightarrow>
      (from_json C (JNumber (jc_from_int C i)) NT_Int = Ok v \<longleftrightarrow> (\<exists>x. v = CqlInt x \<and> sint x = i)) \<and>
      (from_json C (JNumber (jc_from_int C i)) NT_BigInt = Ok v \<longleftrightarrow> (\<exists>x. v = CqlBigInt x \<and> sint x = i)) \<and>
      (from_json C (JNumber (jc_from_int C i)) NT_SmallInt = Ok v \<longleftrightarrow> (\<exists>x. v = CqlSmallInt x \<and> sint x = i)) \<and>
      (from_json C (JNumber (jc_from_int C i)) NT_TinyInt = Ok v \<longleftrightarrow> (\<exists>x. v = CqlTinyInt x \<and> sint x = i))) \<and>
    (\<forall>j nt. no_panic (from_json C j nt) \<and>
      (\<forall>v. from_json C j nt = Ok v \<longrightarrow> value_type v = Some nt \<and> (nt = NT_Float \<longrightarrow> has_json v)))"
proof (intro conjI allI impI; (elim conjE)?)
  fix v nt j
  assume "value_type v = Some nt" "nt \<in> set direct_types"
  then show "is_ok (to_json C v) \<longleftrightarrow> has_json v" "to_json C v = Ok j \<Longrightarrow> from_json C j nt = Ok v"
    using direct_read_back [OF numbers] direct_written [OF numbers] by blast+
next
  fix i :: int and v
  assume i: "- (2 ^ 63) \<le> i" "i < 2 ^ 63"
  show "from_json C (JNumber (jc_from_int C i)) NT_Int = Ok v \<longleftrightarrow> (\<exists>x. v = CqlInt x \<and> sint x = i)"
    "from_json C (JNumber (jc_from_int C i)) NT_BigInt = Ok v \<longleftrightarrow> (\<exists>x. v = CqlBigInt x \<and> sint x = i)"
    "from_json C (JNumber (jc_from_int C i)) NT_SmallInt = Ok v \<longleftrightarrow> (\<exists>x. v = CqlSmallInt x \<and> sint x = i)"
    "from_json C (JNumber (jc_from_int C i)) NT_TinyInt = Ok v \<longleftrightarrow> (\<exists>x. v = CqlTinyInt x \<and> sint x = i)"
    unfolding from_json_simps by (rule integers_read [OF numbers i])+
next
  fix j nt v
  assume read: "from_json C j nt = Ok v"
  show "value_type v = Some nt" by (rule from_json_type [OF read])
  show "has_json v" if "nt = NT_Float" using read that float_read_finite by blast
qed (rule from_json_no_panic)

section \<open>Witnesses\<close>

text \<open>A codec with the documented laws: numbers are floats or integers, strings are plain bytes.\<close>

type_synonym example_number = "u64 + int"

definition example_codec :: "example_number json_codec" where
  "example_codec =
     \<lparr>jc_from_f64 = (\<lambda>f. if float_finite 52 11 f then Some (Inl f) else None), jc_from_int = Inr,
      jc_as_f64 = case_sum Some (\<lambda>_. None), jc_as_i64 = case_sum (\<lambda>_. None) Some, jc_number_to_string = (\<lambda>_. []),
      jc_f32_to_f64 = (\<lambda>x. if float_finite 23 8 x then ucast x else - 1), jc_f64_to_f32 = ucast,
      jc_uuid_to_string = id, jc_parse_uuid = Some, jc_parse_timeuuid = Some,
      jc_format_date = (\<lambda>x. Some (to_le x)), jc_parse_date = (\<lambda>s. Some (from_le s)),
      jc_format_time = (\<lambda>x. Some (T_PREFIX @ 0 # to_le x)), jc_parse_time = (\<lambda>s. Some (from_le (tl s))),
      jc_format_timestamp = (\<lambda>x. Some (to_le x)), jc_parse_timestamp = (\<lambda>s. Some (from_le s)),
      jc_cql_timestamp_re = (\<lambda>_. None),
      jc_encode_prefixed = (\<lambda>bs. HEX_PREFIX @ bs), jc_decode_hex = (\<lambda>s. Some (drop 2 s)),
      jc_bigint_to_string = id, jc_parse_bigint = Some,
      jc_decimal_to_string = (\<lambda>x. to_le (decimal_scale x) @ decimal_bytes x),
      jc_parse_decimal = (\<lambda>s. Some (CqlDecimal (drop 4 s) (from_le (take 4 s)))),
      jc_inet_to_string = (\<lambda>a. case a of V4 bs \<Rightarrow> 4 # bs | V6 bs \<Rightarrow> 6 # bs),
      jc_parse_inet = (\<lambda>s. case s of [] \<Rightarrow> None | b # bs \<Rightarrow> Some (if b = 4 then V4 bs else V6 bs))\<rparr>"

lemma example_widen:
  assumes "float_finite 23 8 x"
  shows "float_finite 52 11 (jc_f32_to_f64 example_codec x)" and "jc_f64_to_f32 example_codec (jc_f32_to_f64 example_codec x) = x"
    and "f64_partial_cmp (jc_f32_to_f64 example_codec x) F32_MIN \<noteq> Some Less"
    and "f64_partial_cmp (jc_f32_to_f64 example_codec x) F32_MAX \<noteq> Some Greater"
proof -
  have widen: "jc_f32_to_f64 example_codec x = ucast x" using assms by (simp add: example_codec_def)
  show "jc_f64_to_f32 example_codec (jc_f32_to_f64 example_codec x) = x"
    unfolding widen by (simp add: example_codec_def) (rule bit_word_eqI, simp add: bit_simps)
  have x: "unat x < 2 ^ 32" using unsigned_less [of x, where 'a = nat] by simp
  then have "unat (ucast x :: u64) = unat x"
    by (simp add: unsigned_ucast_eq take_bit_nat_eq_self_iff)
  moreover have "\<not> bit (ucast x :: u64) 63" by (auto simp: bit_simps dest: bit_imp_le_length)
  moreover have "unat (take_bit 63 (ucast x :: u64)) = unat x"
    using x calculation(1) by (simp add: unsigned_take_bit_eq take_bit_nat_eq_self_iff)
  moreover from this have "float_finite 52 11 (ucast x :: u64)" using x by (simp add: float_finite_def)
  then show "float_finite 52 11 (jc_f32_to_f64 example_codec x)" unfolding widen .
  ultimately have key: "float_key 63 (ucast x :: u64) = int (unat x)" by (simp add: float_key_def)
  have "\<not> uint x < - 5183643170566569984"
    using unsigned_greater_eq [of x, where 'a = int] by linarith
  moreover have "float_key 63 F32_MIN = - int 5183643170566569984" "float_key 63 F32_MAX = int 5183643170566569984"
    by (simp_all add: float_key_def F32_MIN_def F32_MAX_def bit_simps unsigned_take_bit_eq take_bit_eq_mod)
  ultimately show "f64_partial_cmp (jc_f32_to_f64 example_codec x) F32_MIN \<noteq> Some Less"
    and "f64_partial_cmp (jc_f32_to_f64 example_codec x) F32_MAX \<noteq> Some Greater"
    using key unsigned_less [of x, where 'a = int]
    unfolding widen by (simp_all add: f64_partial_cmp_def ord_cmp_def)
qed

lemma example_numbers_ok: "numbers_ok example_codec"
proof -
  have "unat (take_bit 63 (- 1 :: u64)) = 2 ^ 63 - 1"
    by (simp add: unsigned_take_bit_eq unsigned_minus_1_eq_mask take_bit_eq_mod mask_eq_exp_minus_1)
  then have "\<not> float_finite 52 11 (- 1 :: u64)" by (simp add: float_finite_def)
  then have "\<not> float_finite 23 8 x \<Longrightarrow> \<not> float_finite 52 11 (jc_f32_to_f64 example_codec x)" for x
    by (simp add: example_codec_def)
  then have "float_finite 52 11 (jc_f32_to_f64 example_codec x) = float_finite 23 8 x" for x
    using example_widen(1) by blast
  moreover have "(jc_from_f64 example_codec f \<noteq> None) = float_finite 52 11 f"
    "jc_from_f64 example_codec f = Some n \<longrightarrow> jc_as_f64 example_codec n = Some f"
    "jc_as_i64 example_codec (jc_from_int example_codec i) = Some i" for f n i
    by (auto simp: example_codec_def)
  ultimately show ?thesis
    unfolding numbers_ok_def using example_widen(2-4) by blast
qed

theorem json_value_roundtrip_witness:
  "from_json example_codec (JNumber (Inr (- 5))) NT_SmallInt = Ok (CqlSmallInt (- 5)) \<and>
   (\<forall>v. from_json example_codec (JNumber (Inr 40000)) NT_SmallInt \<noteq> Ok v)"
proof -
  have "to_json example_codec (CqlSmallInt (- 5)) = Ok (JNumber (Inr (- 5)))" "jc_from_int example_codec 40000 = Inr 40000"
    by (simp_all add: example_codec_def)
  moreover have "sint x \<noteq> 40000" for x :: "16 word" using sint_lt [of x] by simp
  moreover note exact = json_value_roundtrip [OF example_numbers_ok]
  have "from_json example_codec j NT_SmallInt = Ok (CqlSmallInt (- 5))" if "to_json example_codec (CqlSmallInt (- 5)) = Ok j" for j
    using conjunct1 [OF exact, rule_format, of "CqlSmallInt (- 5)" NT_SmallInt] that by (auto simp: direct_types_def)
  moreover have "from_json example_codec (JNumber (jc_from_int example_codec 40000)) NT_SmallInt = Ok v \<longleftrightarrow>
      (\<exists>x. v = CqlSmallInt x \<and> sint x = 40000)" for v
    using conjunct1 [OF conjunct2 [OF exact], rule_format, of 40000 v] by simp
  ultimately show ?thesis by simp
qed

end
