(* ===== verification/Http_Api.thy ===== *)
theory Http_Api
  imports Cql_Json Usearch Query_Routing
begin

text \<open>
  The types of the HTTP interface (\<open>crates/httpapi/src/lib.rs\<close>), their conversions from and to the
  types of the program, and the translation of the filter of a search (\<open>httproutes.rs\<close>,
  \<open>similarity.rs\<close>). A name is its characters; the numbers of JSON are a parameter.
\<close>

section \<open>Descriptions of indexes\<close>

datatype data_type = DT_F32 | DT_F16 | DT_BF16 | DT_I8 | DT_B1

datatype similarity_function = SF_Euclidean | SF_Cosine | SF_DotProduct | SF_Hamming

datatype http_index_status = HttpInitializing | HttpBootstrapping | HttpServing

datatype http_node_status = HttpNodeInitializing | HttpNodeConnectingToDb | HttpNodeBootstrapping | HttpNodeServing

datatype not_ready_reason = NodeBootstrapping | IndexBuilding string

record vector_index_options =
  vi_dimensions :: nat
  vi_maximum_node_connections :: nat
  vi_construction_beam_width :: nat
  vi_search_beam_width :: nat
  vi_similarity_function :: similarity_function
  vi_quantization :: data_type

record fulltext_index_options =
  fi_analyzer :: string
  fi_positions :: bool

datatype index_options = OptVector vector_index_options | OptFulltext fulltext_index_options | OptPattern

record index_info =
  ii_keyspace :: keyspace_name
  ii_index :: index_name
  ii_options :: index_options
  ii_status :: http_index_status
  ii_count :: nat
  ii_build_progress :: u64

definition data_type_from :: "quantization \<Rightarrow> data_type" where
  "data_type_from quantization =
     (case quantization of QF32 \<Rightarrow> DT_F32 | QF16 \<Rightarrow> DT_F16 | QBF16 \<Rightarrow> DT_BF16 | QI8 \<Rightarrow> DT_I8 | QB1 \<Rightarrow> DT_B1)"

definition similarity_function_from :: "space_type \<Rightarrow> similarity_function" where
  "similarity_function_from space_type =
     (case space_type of Euclidean \<Rightarrow> SF_Euclidean | Cosine \<Rightarrow> SF_Cosine | DotProduct \<Rightarrow> SF_DotProduct | Hamming \<Rightarrow> SF_Hamming)"

definition vector_options_from :: "index_options_vs \<Rightarrow> vector_index_options" where
  "vector_options_from options =
     \<lparr>vi_dimensions = vs_dimensions options, vi_maximum_node_connections = vs_connectivity options,
      vi_construction_beam_width = vs_expansion_add options, vi_search_beam_width = vs_expansion_search options,
      vi_similarity_function = similarity_function_from (vs_space_type options),
      vi_quantization = data_type_from (vs_quantization options)\<rparr>"

text \<open>\<open>to_string\<close> of an analyzer is its name in lower case.\<close>

definition analyzer_to_string :: "analyzer \<Rightarrow> string" where
  "analyzer_to_string a =
     (case a of Standard \<Rightarrow> ''standard'' | English \<Rightarrow> ''english'' | German \<Rightarrow> ''german'' | French \<Rightarrow> ''french''
      | Spanish \<Rightarrow> ''spanish'' | Italian \<Rightarrow> ''italian'' | Portuguese \<Rightarrow> ''portuguese'' | Russian \<Rightarrow> ''russian''
      | Simple \<Rightarrow> ''simple'' | Whitespace \<Rightarrow> ''whitespace'')"

definition fulltext_options_from :: "index_options_fts \<Rightarrow> fulltext_index_options" where
  "fulltext_options_from options =
     \<lparr>fi_analyzer = analyzer_to_string (fts_analyzer options), fi_positions = fts_positions options\<rparr>"

definition index_status_from :: "index_status \<Rightarrow> http_index_status" where
  "index_status_from status =
     (case status of IndexInitializing \<Rightarrow> HttpInitializing | IndexFullScanning \<Rightarrow> HttpBootstrapping
      | IndexServing \<Rightarrow> HttpServing)"

definition node_status_from :: "node_status \<Rightarrow> http_node_status" where
  "node_status_from status =
     (case status of NodeInitializing \<Rightarrow> HttpNodeInitializing | NodeConnectingToDb \<Rightarrow> HttpNodeConnectingToDb
      | NodeIndexingEmbeddings \<Rightarrow> HttpNodeBootstrapping | NodeDiscoveringIndexes \<Rightarrow> HttpNodeBootstrapping
      | NodeServing \<Rightarrow> HttpNodeServing)"

text \<open>\<open>100.0\<close>.\<close>

definition F64_HUNDRED :: u64 where
  "F64_HUNDRED = 0x4059000000000000"

definition progress_to_percentage :: "progress \<Rightarrow> u64" where
  "progress_to_percentage progress = (case progress of Done \<Rightarrow> F64_HUNDRED | InProgress percentage \<Rightarrow> percentage)"

section \<open>Similarity (similarity.rs)\<close>

text \<open>The arithmetic of \<open>f32\<close>; \<open>f32_of_nat\<close> is \<open>n as f32\<close>.\<close>

record f32_ops =
  fo_add :: "u32 \<Rightarrow> u32 \<Rightarrow> u32"
  fo_sub :: "u32 \<Rightarrow> u32 \<Rightarrow> u32"
  fo_div :: "u32 \<Rightarrow> u32 \<Rightarrow> u32"

definition f32_one :: u32 where
  "f32_one = 0x3F800000"

definition similarity_from :: "f32_ops \<Rightarrow> distance \<Rightarrow> u32" where
  "similarity_from F distance =
     (case distance of
        DistCosine d \<Rightarrow> fo_div F (fo_sub F f32_two d) f32_two
      | DistDotProduct d \<Rightarrow> fo_div F (fo_sub F f32_two d) f32_two
      | DistEuclidean d \<Rightarrow> fo_div F f32_one (fo_add F f32_one d)
      | DistHamming d dim \<Rightarrow> fo_sub F f32_one (fo_div F d (f32_of_nat dim)))"

text \<open>\<open>serialize_saturated_f32\<close>: an infinity is written as the largest or smallest value.\<close>

definition saturated_f32 :: "u32 \<Rightarrow> u32" where
  "saturated_f32 value =
     (if value = 0x7F800000 then 0x7F7FFFFF else if value = 0xFF800000 then 0xFF7FFFFF else value)"

section \<open>Requests and answers of searches\<close>

datatype 'num http_restriction =
    HEq column_name "'num json"
  | HIn column_name "'num json list"
  | HLt column_name "'num json"
  | HLte column_name "'num json"
  | HGt column_name "'num json"
  | HGte column_name "'num json"
  | HEqTuple "column_name list" "'num json list"
  | HInTuple "column_name list" "'num json list list"
  | HLtTuple "column_name list" "'num json list"
  | HLteTuple "column_name list" "'num json list"
  | HGtTuple "column_name list" "'num json list"
  | HGteTuple "column_name list" "'num json list"

record 'num http_filter =
  hf_restrictions :: "'num http_restriction list"
  hf_allow_filtering :: bool

record 'num ann_request =
  rq_vector :: vector
  rq_filter :: "'num http_filter option"
  rq_limit :: nat
  rq_routing :: bool
  rq_return_columns :: "column_name list"

record 'num ann_response =
  ar_primary_keys :: "column_name \<Rightarrow> 'num json list option"
  ar_distances :: "u32 list"
  ar_similarity_scores :: "u32 list"
  ar_column_values :: "column_name \<Rightarrow> 'num json option list option"

record bm25_request =
  bq_query :: rust_string
  bq_limit :: nat

record highlight_request =
  hq_query :: rust_string
  hq_documents :: "rust_string list"

record like_request =
  lq_pattern :: rust_string
  lq_limit :: nat

section \<open>The filter\<close>

text \<open>The columns restricted by equality, and those restricted by a range.\<close>

fun restricted :: "'num http_restriction \<Rightarrow> column_name list \<times> column_name list" where
  "restricted (HEq lhs _) = ([lhs], [])"
| "restricted (HIn lhs _) = ([lhs], [])"
| "restricted (HLt lhs _) = ([], [lhs])"
| "restricted (HLte lhs _) = ([], [lhs])"
| "restricted (HGt lhs _) = ([], [lhs])"
| "restricted (HGte lhs _) = ([], [lhs])"
| "restricted (HEqTuple lhs _) = (lhs, [])"
| "restricted (HInTuple lhs _) = (lhs, [])"
| "restricted (HLtTuple lhs _) = ([], lhs)"
| "restricted (HLteTuple lhs _) = ([], lhs)"
| "restricted (HGtTuple lhs _) = ([], lhs)"
| "restricted (HGteTuple lhs _) = ([], lhs)"

definition restriction_columns :: "'num http_filter option \<Rightarrow> column_name list \<times> column_name list" where
  "restriction_columns json_filter =
     (case json_filter of
        None \<Rightarrow> ([], [])
      | Some f \<Rightarrow>
          (concat (map (fst \<circ> restricted) (hf_restrictions f)), concat (map (snd \<circ> restricted) (hf_restrictions f))))"

definition is_same_len :: "'a list \<Rightarrow> 'b list \<Rightarrow> unit result" where
  "is_same_len columns values =
     (if length columns \<noteq> length values
      then Err (Bail ''Length of column tuple does not match length of values tuple'') else Ok ())"

definition column_from_json ::
  "'num json_codec \<Rightarrow> column_name list \<Rightarrow> table_columns \<Rightarrow> column_name \<Rightarrow> 'num json \<Rightarrow> cql_value result" where
  "column_from_json C filtering_columns table_columns column value =
     (if column \<notin> set filtering_columns
      then Err (Bail ''Column in filter restriction is not part of the primary key or filtering columns, and cannot be used for filtering'')
      else and_then (ok_or (table_columns column)
             (Bail ''Column in filter restriction is not part of the table or is not a supported native type''))
             (from_json C value))"

text \<open>\<open>rhs.into_iter().enumerate()\<close>: an index out of bounds of \<open>lhs\<close> is a panic.\<close>

fun tuple_from ::
  "(column_name \<Rightarrow> 'num json \<Rightarrow> cql_value result) \<Rightarrow> column_name list \<Rightarrow> nat \<Rightarrow> 'num json list \<Rightarrow> cql_value list result" where
  "tuple_from f lhs idx [] = Ok []"
| "tuple_from f lhs idx (rhs # rest) =
     and_then (ok_or (vec_get lhs idx) (Panic ''index out of bounds'')) (\<lambda>column.
     and_then (f column rhs) (\<lambda>v.
     and_then (tuple_from f lhs (Suc idx) rest) (\<lambda>vs. Ok (v # vs))))"

definition tuple_restriction ::
  "(column_name \<Rightarrow> 'num json \<Rightarrow> cql_value result) \<Rightarrow> (column_name list \<Rightarrow> cql_value list \<Rightarrow> restriction) \<Rightarrow>
   column_name list \<Rightarrow> 'num json list \<Rightarrow> restriction result" where
  "tuple_restriction f R lhs rhs =
     and_then (is_same_len lhs rhs) (\<lambda>_. and_then (tuple_from f lhs 0 rhs) (\<lambda>vs. Ok (R lhs vs)))"

definition single_restriction ::
  "(column_name \<Rightarrow> 'num json \<Rightarrow> cql_value result) \<Rightarrow> (column_name \<Rightarrow> cql_value \<Rightarrow> restriction) \<Rightarrow> column_name \<Rightarrow> 'num json \<Rightarrow>
   restriction result" where
  "single_restriction f R lhs rhs = and_then (f lhs rhs) (\<lambda>v. Ok (R lhs v))"

fun translate_restriction ::
  "(column_name \<Rightarrow> 'num json \<Rightarrow> cql_value result) \<Rightarrow> 'num http_restriction \<Rightarrow> restriction result" where
  "translate_restriction f (HEq lhs rhs) = single_restriction f REq lhs rhs"
| "translate_restriction f (HIn lhs rhs) = and_then (collect_result (f lhs) rhs) (\<lambda>vs. Ok (RIn lhs vs))"
| "translate_restriction f (HLt lhs rhs) = single_restriction f RLt lhs rhs"
| "translate_restriction f (HLte lhs rhs) = single_restriction f RLte lhs rhs"
| "translate_restriction f (HGt lhs rhs) = single_restriction f RGt lhs rhs"
| "translate_restriction f (HGte lhs rhs) = single_restriction f RGte lhs rhs"
| "translate_restriction f (HEqTuple lhs rhs) = tuple_restriction f REqTuple lhs rhs"
| "translate_restriction f (HInTuple lhs rhs) =
     and_then (collect_result (\<lambda>rhs. and_then (is_same_len lhs rhs) (\<lambda>_. tuple_from f lhs 0 rhs)) rhs)
       (\<lambda>vs. Ok (RInTuple lhs vs))"
| "translate_restriction f (HLtTuple lhs rhs) = tuple_restriction f RLtTuple lhs rhs"
| "translate_restriction f (HLteTuple lhs rhs) = tuple_restriction f RLteTuple lhs rhs"
| "translate_restriction f (HGtTuple lhs rhs) = tuple_restriction f RGtTuple lhs rhs"
| "translate_restriction f (HGteTuple lhs rhs) = tuple_restriction f RGteTuple lhs rhs"

definition try_from_post_index_ann_filter ::
  "'num json_codec \<Rightarrow> 'num http_filter \<Rightarrow> column_name list \<Rightarrow> table_columns \<Rightarrow> search_filter result" where
  "try_from_post_index_ann_filter C json_filter filtering_columns table_columns =
     and_then (collect_result (translate_restriction (column_from_json C filtering_columns table_columns))
                 (hf_restrictions json_filter))
       (\<lambda>rs. Ok \<lparr>flt_restrictions = rs, flt_allow_filtering = hf_allow_filtering json_filter\<rparr>)"

section \<open>Primary keys of an answer\<close>

definition key_column_json :: "'num json_codec \<Rightarrow> nat \<Rightarrow> nat \<Rightarrow> primary_key \<Rightarrow> 'num json result" where
  "key_column_json C columns idx_column primary_key =
     and_then (ik_len primary_key) (\<lambda>len.
     if len \<noteq> columns then Err (Bail ''wrong size of a primary key'')
     else and_then (ik_get primary_key idx_column) (\<lambda>value.
          and_then (ok_or value (Panic ''primary key index out of bounds after length check'')) (to_json C)))"

text \<open>A \<open>HashMap\<close> collected from pairs: the later pair of a column wins.\<close>

definition try_collect_primary_keys ::
  "'num json_codec \<Rightarrow> column_name list \<Rightarrow> primary_key list \<Rightarrow> (column_name \<Rightarrow> 'num json list option) result" where
  "try_collect_primary_keys C primary_key_columns primary_keys =
     and_then (collect_result (\<lambda>(idx_column, column).
         and_then (collect_result (key_column_json C (length primary_key_columns) idx_column) primary_keys)
           (\<lambda>values. Ok (column, values)))
       (List.enumerate 0 primary_key_columns))
       (\<lambda>columns. Ok (map_of (rev columns)))"

end
