(* ===== verification/Http_Routes.thy ===== *)
theory Http_Routes
  imports Http_Api
begin

text \<open>
  The handlers of the HTTP interface (\<open>httproutes.rs\<close>): searches of the three kinds of index and
  descriptions of the indexes and of the node.

  What a handler asks another actor for is a field of the record \<open>backends\<close>: the answer of the
  index behind a channel, and the formatting of a percentage. The registry and the status of the
  node are fields of \<open>http_state\<close>. The errors of an index keep what the handlers tell apart by
  \<open>downcast_ref\<close>. The metrics, the log and the counters of the tests are left out. A panic of a
  handler is the error \<open>Panic\<close>; every other outcome is a response.
\<close>

section \<open>Responses\<close>

datatype status_code = StOk | StBadRequest | StForbidden | StNotFound | StInternalServerError | StServiceUnavailable

record info_response =
  ir_version :: string
  ir_service :: string
  ir_engine :: string

datatype 'num body =
    Message string
  | NotReady not_ready_reason
  | AnnBody "'num ann_response"
  | Bm25Body "column_name \<Rightarrow> 'num json list option" "u32 list"
  | HighlightBody "rust_string option list"
  | LikeBody "column_name \<Rightarrow> 'num json list option"
  | IndexBody index_info
  | IndexesBody "index_info list"
  | InfoBody info_response
  | NodeStatusBody http_node_status

type_synonym 'num response = "status_code \<times> 'num body"

text \<open>\<open>(status, err.to_string())\<close>: a panic is not caught.\<close>

definition respond_error :: "status_code \<Rightarrow> error \<Rightarrow> 'num response result" where
  "respond_error status e = (case e of Bail msg \<Rightarrow> Ok (status, Message msg) | Panic msg \<Rightarrow> Err (Panic msg))"

section \<open>What the handlers ask\<close>

datatype index_sender = SenderVs channel | SenderFts channel | SenderPattern channel

datatype protocol = Tls | Plain

record backends =
  be_ann :: "channel \<Rightarrow> index_key \<Rightarrow> vector \<Rightarrow> nat \<Rightarrow> column_name list \<Rightarrow>
     search_error + (primary_key list \<times> distance list \<times> column_answer)"
  be_filtered_ann :: "channel \<Rightarrow> index_key \<Rightarrow> vector \<Rightarrow> search_filter \<Rightarrow> nat \<Rightarrow> column_name list \<Rightarrow>
     search_error + (primary_key list \<times> distance list \<times> column_answer)"
  be_search :: "channel \<Rightarrow> index_key \<Rightarrow> rust_string \<Rightarrow> nat \<Rightarrow> search_error + (primary_key list \<times> u32 list)"
  be_highlight :: "channel \<Rightarrow> index_key \<Rightarrow> rust_string \<Rightarrow> rust_string list \<Rightarrow> search_error + rust_string option list"
  be_like :: "channel \<Rightarrow> index_key \<Rightarrow> rust_string \<Rightarrow> nat \<Rightarrow> search_error + primary_key list"
  be_count :: "index_sender \<Rightarrow> index_key \<Rightarrow> search_error + nat"
  be_format :: "u64 \<Rightarrow> string"
  be_gregorian :: gregorian
  be_f32 :: f32_ops

record http_state =
  hs_indexes :: indexes
  hs_node_status :: node_status
  hs_index_engine_version :: string
  hs_use_tls :: bool

fun error_text :: "search_error \<Rightarrow> string" where
  "error_text (VsIndexError msg) = msg"
| "error_text (QueryError msg) = msg"
| "error_text (OtherError msg) = msg"

section \<open>Common checks\<close>

definition full_name :: "keyspace_name \<Rightarrow> index_name \<Rightarrow> string" where
  "full_name keyspace index = keyspace @ ''.'' @ index"

definition missing_index :: "keyspace_name \<Rightarrow> index_name \<Rightarrow> 'num response" where
  "missing_index keyspace index = (StNotFound, Message (''missing index: '' @ full_name keyspace index))"

definition check_insecure_tls :: "bool \<Rightarrow> protocol option \<Rightarrow> 'num response option" where
  "check_insecure_tls use_tls protocol =
     (if use_tls \<and> protocol = Some Plain
      then Some (StForbidden, Message ''TLS is required, but the request was made over an insecure connection.'') else None)"

definition index_not_ready_reason ::
  "backends \<Rightarrow> node_status \<Rightarrow> keyspace_name \<Rightarrow> index_name \<Rightarrow> u64 \<Rightarrow> not_ready_reason" where
  "index_not_ready_reason B node keyspace index percentage =
     (if node = NodeServing
      then IndexBuilding (''Index '' @ full_name keyspace index @
             '' is not available yet as it is still being constructed, progress: '' @ be_format B percentage @ ''%'')
      else NodeBootstrapping)"

text \<open>The response for an index that is not serving, shared by the four kinds of search.\<close>

definition not_serving :: "backends \<Rightarrow> node_status \<Rightarrow> keyspace_name \<Rightarrow> index_name \<Rightarrow> progress \<Rightarrow> 'num response" where
  "not_serving B node keyspace index progress =
     (case progress of
        InProgress percentage \<Rightarrow>
          (StServiceUnavailable, NotReady (index_not_ready_reason B node keyspace index percentage))
      | Done \<Rightarrow>
          (StInternalServerError, Message (''Index '' @ full_name keyspace index @ '' is not serving, but full scan did finish.'')))"

definition check_index_serving ::
  "backends \<Rightarrow> node_status \<Rightarrow> keyspace_name \<Rightarrow> index_name \<Rightarrow> progress + 'a \<Rightarrow> 'num response + 'a" where
  "check_index_serving B node keyspace index serving_or_progress =
     (case serving_or_progress of
        Inr serving \<Rightarrow> Inr serving
      | Inl progress \<Rightarrow> Inl (not_serving B node keyspace index progress))"

definition serving_or_progress :: "'data index_entry \<Rightarrow> progress + channel \<times> column_name list" where
  "serving_or_progress entry =
     (if ie_status entry = IndexServing then Inr (ie_index entry, ie_primary_key_columns entry)
      else Inl (ie_progress entry))"

text \<open>A \<open>QueryError\<close> of a text index is the fault of the client.\<close>

definition text_error :: "string \<Rightarrow> search_error \<Rightarrow> 'num response" where
  "text_error what e =
     (case e of QueryError _ \<Rightarrow> StBadRequest | _ \<Rightarrow> StInternalServerError, Message (what @ '' request error: '' @ error_text e))"

section \<open>POST /indexes/{keyspace}/{index}/ann\<close>

definition column_json :: "'num json_codec \<Rightarrow> cql_value option \<Rightarrow> 'num json option" where
  "column_json C v = (case v of None \<Rightarrow> None | Some v \<Rightarrow> (case to_json C v of Inl _ \<Rightarrow> None | Inr j \<Rightarrow> Some j))"

definition ann_answered ::
  "'num json_codec \<Rightarrow> f32_ops \<Rightarrow> column_name list \<Rightarrow> primary_key list \<Rightarrow> distance list \<Rightarrow> column_answer \<Rightarrow> 'num response result" where
  "ann_answered C F primary_key_columns primary_keys distances column_values =
     (if length primary_keys \<noteq> length distances
      then Ok (StInternalServerError, Message ''wrong size of an ann response'')
      else case try_collect_primary_keys C primary_key_columns primary_keys of
             Inl e \<Rightarrow> respond_error StInternalServerError e
           | Inr keys \<Rightarrow>
               Ok (StOk, AnnBody \<lparr>ar_primary_keys = keys, ar_distances = map distance_value distances,
                 ar_similarity_scores = map (similarity_from F) distances,
                 ar_column_values = (\<lambda>c. map_option (map (column_json C)) (column_values c))\<rparr>))"

definition ann_search ::
  "backends \<Rightarrow> 'num json_codec \<Rightarrow> 'num ann_request \<Rightarrow> serving_index \<Rightarrow> 'num response result" where
  "ann_search B C request s =
     and_then (case rq_filter request of
         None \<Rightarrow> Ok (Inr (be_ann B (si_index s) (si_key s) (rq_vector request) (rq_limit request) (rq_return_columns request)))
       | Some json_filter \<Rightarrow>
           (case try_from_post_index_ann_filter C json_filter (si_filtering_columns s) (si_table_columns s) of
              Inl e \<Rightarrow> and_then (respond_error StBadRequest e) (\<lambda>resp. Ok (Inl resp))
            | Inr flt \<Rightarrow>
                Ok (Inr (be_filtered_ann B (si_index s) (si_key s) (rq_vector request) flt (rq_limit request)
                  (rq_return_columns request)))))
       (\<lambda>search_result.
          case search_result of
            Inl resp \<Rightarrow> Ok resp
          | Inr (Inl (VsIndexError msg)) \<Rightarrow> Ok (StBadRequest, Message msg)
          | Inr (Inl e) \<Rightarrow> Ok (StInternalServerError, Message (''index.ann request error: '' @ error_text e))
          | Inr (Inr (primary_keys, distances, column_values)) \<Rightarrow>
              ann_answered C (be_f32 B) (si_primary_key_columns s) primary_keys distances column_values)"

definition allows_filtering :: "'num ann_request \<Rightarrow> bool" where
  "allows_filtering request = (case rq_filter request of None \<Rightarrow> False | Some f \<Rightarrow> hf_allow_filtering f)"

text \<open>The match on \<open>best_index_state\<close> and what follows it.\<close>

definition ann_of_best ::
  "backends \<Rightarrow> 'num json_codec \<Rightarrow> http_state \<Rightarrow> keyspace_name \<Rightarrow> index_name \<Rightarrow> 'num ann_request \<Rightarrow> best_index_state \<Rightarrow>
   'num response result" where
  "ann_of_best B C st keyspace index request best =
     (case best of
        ServingIndex s \<Rightarrow>
          if si_needs_filtering s \<noteq> FilterNo \<and> \<not> allows_filtering request
          then Ok (StBadRequest, Message (''Index '' @ full_name keyspace index @ '' requires ALLOW FILTERING for this query''))
          else ann_search B C request s
      | NoGlobalIndex \<Rightarrow>
          Ok (StBadRequest, Message (''Global ANN query is not supported when only a local vector index is available for '' @
            full_name keyspace index))
      | NotServing progress \<Rightarrow> Ok (not_serving B (hs_node_status st) keyspace index progress)
      | NotFound \<Rightarrow> Ok (missing_index keyspace index))"

definition post_index_ann ::
  "backends \<Rightarrow> 'num json_codec \<Rightarrow> http_state \<Rightarrow> protocol option \<Rightarrow> keyspace_name \<Rightarrow> index_name \<Rightarrow> 'num ann_request \<Rightarrow>
   'num response result" where
  "post_index_ann B C st protocol keyspace index request =
     (case check_insecure_tls (hs_use_tls st) protocol of
        Some resp \<Rightarrow> Ok resp
      | None \<Rightarrow>
          let (equality_cols, range_cols) = restriction_columns (rq_filter request)
          in and_then (best_index (be_gregorian B) (hs_indexes st) (index_key_new keyspace index) equality_cols range_cols
                         (rq_routing request))
               (ann_of_best B C st keyspace index request))"

section \<open>The searches of text indexes\<close>

definition post_index_bm25 ::
  "backends \<Rightarrow> 'num json_codec \<Rightarrow> http_state \<Rightarrow> protocol option \<Rightarrow> keyspace_name \<Rightarrow> index_name \<Rightarrow> bm25_request \<Rightarrow>
   'num response result" where
  "post_index_bm25 B C st protocol keyspace index request =
     (case check_insecure_tls (hs_use_tls st) protocol of
        Some resp \<Rightarrow> Ok resp
      | None \<Rightarrow>
      case fts_entries (hs_indexes st) (index_key_new keyspace index) of
        None \<Rightarrow> Ok (missing_index keyspace index)
      | Some entry \<Rightarrow>
      case check_index_serving B (hs_node_status st) keyspace index (serving_or_progress entry) of
        Inl resp \<Rightarrow> Ok resp
      | Inr (sender, primary_key_columns) \<Rightarrow>
      case be_search B sender (index_key_new keyspace index) (bq_query request) (bq_limit request) of
        Inl e \<Rightarrow> Ok (text_error ''index.bm25'' e)
      | Inr (primary_keys, scores) \<Rightarrow>
          if length primary_keys \<noteq> length scores then Ok (StInternalServerError, Message ''wrong size of a bm25 response'')
          else case try_collect_primary_keys C primary_key_columns primary_keys of
                 Inl e \<Rightarrow> respond_error StInternalServerError e
               | Inr keys \<Rightarrow> Ok (StOk, Bm25Body keys scores))"

definition post_index_highlight ::
  "backends \<Rightarrow> http_state \<Rightarrow> protocol option \<Rightarrow> keyspace_name \<Rightarrow> index_name \<Rightarrow> highlight_request \<Rightarrow> 'num response" where
  "post_index_highlight B st protocol keyspace index request =
     (case check_insecure_tls (hs_use_tls st) protocol of
        Some resp \<Rightarrow> resp
      | None \<Rightarrow>
      case fts_entries (hs_indexes st) (index_key_new keyspace index) of
        None \<Rightarrow> missing_index keyspace index
      | Some entry \<Rightarrow>
      case check_index_serving B (hs_node_status st) keyspace index (serving_or_progress entry) of
        Inl resp \<Rightarrow> resp
      | Inr (sender, _) \<Rightarrow>
      case be_highlight B sender (index_key_new keyspace index) (hq_query request) (hq_documents request) of
        Inl e \<Rightarrow> text_error ''index.highlight'' e
      | Inr highlights \<Rightarrow> (StOk, HighlightBody highlights))"

definition post_index_like ::
  "backends \<Rightarrow> 'num json_codec \<Rightarrow> http_state \<Rightarrow> protocol option \<Rightarrow> keyspace_name \<Rightarrow> index_name \<Rightarrow> like_request \<Rightarrow>
   'num response result" where
  "post_index_like B C st protocol keyspace index request =
     (case check_insecure_tls (hs_use_tls st) protocol of
        Some resp \<Rightarrow> Ok resp
      | None \<Rightarrow>
      case pattern_entries (hs_indexes st) (index_key_new keyspace index) of
        None \<Rightarrow> Ok (missing_index keyspace index)
      | Some entry \<Rightarrow>
      case check_index_serving B (hs_node_status st) keyspace index (serving_or_progress entry) of
        Inl resp \<Rightarrow> Ok resp
      | Inr (sender, primary_key_columns) \<Rightarrow>
      case be_like B sender (index_key_new keyspace index) (lq_pattern request) (lq_limit request) of
        Inl e \<Rightarrow> Ok (text_error ''index.like'' e)
      | Inr primary_keys \<Rightarrow>
          (case try_collect_primary_keys C primary_key_columns primary_keys of
             Inl e \<Rightarrow> respond_error StInternalServerError e
           | Inr keys \<Rightarrow> Ok (StOk, LikeBody keys)))"

section \<open>Descriptions\<close>

definition described_vs :: "vs_index_entry \<Rightarrow> index_options \<times> index_sender \<times> index_status \<times> progress" where
  "described_vs entry =
     (OptVector (vector_options_from (vd_options (ie_data entry))), SenderVs (ie_index entry), ie_status entry, ie_progress entry)"

definition described_fts :: "fts_index_entry \<Rightarrow> index_options \<times> index_sender \<times> index_status \<times> progress" where
  "described_fts entry =
     (OptFulltext (fulltext_options_from (ie_data entry)), SenderFts (ie_index entry), ie_status entry, ie_progress entry)"

definition described_pattern :: "pattern_index_entry \<Rightarrow> index_options \<times> index_sender \<times> index_status \<times> progress" where
  "described_pattern entry = (OptPattern, SenderPattern (ie_index entry), ie_status entry, ie_progress entry)"

text \<open>The three lookups of \<open>get_index_info\<close>.\<close>

definition index_described :: "indexes \<Rightarrow> index_key \<Rightarrow> (index_options \<times> index_sender \<times> index_status \<times> progress) option" where
  "index_described ixs key =
     (case vs_entries ixs key of
        Some entry \<Rightarrow> Some (described_vs entry)
      | None \<Rightarrow>
          (case fts_entries ixs key of
             Some entry \<Rightarrow> Some (described_fts entry)
           | None \<Rightarrow> map_option described_pattern (pattern_entries ixs key)))"

definition index_info_of ::
  "keyspace_name \<Rightarrow> index_name \<Rightarrow> index_options \<times> index_sender \<times> index_status \<times> progress \<Rightarrow> nat \<Rightarrow> index_info" where
  "index_info_of keyspace index d n =
     (case d of (options, _, status, progress) \<Rightarrow>
        \<lparr>ii_keyspace = keyspace, ii_index = index, ii_options = options, ii_status = index_status_from status,
         ii_count = n, ii_build_progress = progress_to_percentage progress\<rparr>)"

definition get_index_info :: "backends \<Rightarrow> http_state \<Rightarrow> keyspace_name \<Rightarrow> index_name \<Rightarrow> 'num response" where
  "get_index_info B st keyspace index =
     (let key = index_key_new keyspace index; ixs = hs_indexes st in
      case index_described ixs key of
        None \<Rightarrow> missing_index keyspace index
      | Some d \<Rightarrow>
          (case be_count B (fst (snd d)) key of
             Inl e \<Rightarrow> (StInternalServerError, Message (''index.count request error: '' @ error_text e))
           | Inr n \<Rightarrow> (StOk, IndexBody (index_info_of keyspace index d n))))"

definition get_index_status :: "backends \<Rightarrow> http_state \<Rightarrow> keyspace_name \<Rightarrow> index_name \<Rightarrow> 'num response" where
  "get_index_status B st keyspace index = get_index_info B st keyspace index"

text \<open>
  \<open>get_indexes\<close> of the routes: a \<open>HashMap\<close> is iterated in an order the code does not choose, here the lists of
  keys \<open>vs\<close>, \<open>fts\<close> and \<open>pattern\<close> of the three maps. The keyspace and the index of a key are
  what \<open>IndexKey\<close> splits off, which panics on a key without a dot.
\<close>

definition listed_entries :: "('k \<Rightarrow> 'e option) \<Rightarrow> ('e \<Rightarrow> 'd) \<Rightarrow> 'k list \<Rightarrow> ('k \<times> 'd) list" where
  "listed_entries entries describe keys = List.map_filter (\<lambda>k. map_option (\<lambda>e. (k, describe e)) (entries k)) keys"

definition entry_info ::
  "backends \<Rightarrow> index_key \<times> index_options \<times> index_sender \<times> index_status \<times> progress \<Rightarrow> index_info option result" where
  "entry_info B entry =
     (case entry of (key, d) \<Rightarrow>
        (case be_count B (fst (snd d)) key of
           Inl _ \<Rightarrow> Ok None
         | Inr n \<Rightarrow>
             and_then (index_key_keyspace key) (\<lambda>keyspace.
             and_then (index_key_index key) (\<lambda>index. Ok (Some (index_info_of keyspace index d n))))))"

definition get_indexes_route ::
  "backends \<Rightarrow> http_state \<Rightarrow> index_key list \<Rightarrow> index_key list \<Rightarrow> index_key list \<Rightarrow> 'num response result" where
  "get_indexes_route B st vs fts pattern =
     (let ixs = hs_indexes st;
          entries = listed_entries (vs_entries ixs) described_vs vs @ listed_entries (fts_entries ixs) described_fts fts @
                    listed_entries (pattern_entries ixs) described_pattern pattern
      in and_then (collect_result (entry_info B) entries) (\<lambda>infos. Ok (StOk, IndexesBody (List.map_filter id infos))))"

text \<open>\<open>name\<close> and \<open>version\<close> are those of the build.\<close>

definition get_info :: "string \<Rightarrow> string \<Rightarrow> http_state \<Rightarrow> 'num response" where
  "get_info name version st =
     (StOk, InfoBody \<lparr>ir_version = version, ir_service = name, ir_engine = hs_index_engine_version st\<rparr>)"

definition get_status :: "http_state \<Rightarrow> 'num response" where
  "get_status st = (StOk, NodeStatusBody (node_status_from (hs_node_status st)))"

end
