(* ===== verification/Http_Correct.thy ===== *)
theory Http_Correct
  imports Http_Routes Engine_Correct Usearch_Answers
begin

text \<open>
  The correctness of the HTTP interface: the translation of filters, the statuses and the answers
  of a vector search, the answer for a table that the usearch index searched, and the agreement
  of the list of the indexes with the description of each.
\<close>

section \<open>Filters\<close>

text \<open>A restriction as columns and the rows of values they are compared with.\<close>

fun json_rows :: "'num http_restriction \<Rightarrow> column_name list \<times> 'num json list list" where
  "json_rows (HEq lhs rhs) = ([lhs], [[rhs]])"
| "json_rows (HIn lhs rhs) = ([lhs], map (\<lambda>v. [v]) rhs)"
| "json_rows (HLt lhs rhs) = ([lhs], [[rhs]])"
| "json_rows (HLte lhs rhs) = ([lhs], [[rhs]])"
| "json_rows (HGt lhs rhs) = ([lhs], [[rhs]])"
| "json_rows (HGte lhs rhs) = ([lhs], [[rhs]])"
| "json_rows (HEqTuple lhs rhs) = (lhs, [rhs])"
| "json_rows (HInTuple lhs rhs) = (lhs, rhs)"
| "json_rows (HLtTuple lhs rhs) = (lhs, [rhs])"
| "json_rows (HLteTuple lhs rhs) = (lhs, [rhs])"
| "json_rows (HGtTuple lhs rhs) = (lhs, [rhs])"
| "json_rows (HGteTuple lhs rhs) = (lhs, [rhs])"

text \<open>The restriction of the index with the same columns and comparison, on rows of CQL values.\<close>

fun with_rows :: "'num http_restriction \<Rightarrow> cql_value list list \<Rightarrow> restriction" where
  "with_rows (HEq lhs _) rows = REq lhs (hd (hd rows))"
| "with_rows (HIn lhs _) rows = RIn lhs (map hd rows)"
| "with_rows (HLt lhs _) rows = RLt lhs (hd (hd rows))"
| "with_rows (HLte lhs _) rows = RLte lhs (hd (hd rows))"
| "with_rows (HGt lhs _) rows = RGt lhs (hd (hd rows))"
| "with_rows (HGte lhs _) rows = RGte lhs (hd (hd rows))"
| "with_rows (HEqTuple lhs _) rows = REqTuple lhs (hd rows)"
| "with_rows (HInTuple lhs _) rows = RInTuple lhs rows"
| "with_rows (HLtTuple lhs _) rows = RLtTuple lhs (hd rows)"
| "with_rows (HLteTuple lhs _) rows = RLteTuple lhs (hd rows)"
| "with_rows (HGtTuple lhs _) rows = RGtTuple lhs (hd rows)"
| "with_rows (HGteTuple lhs _) rows = RGteTuple lhs (hd rows)"

definition row_from :: "(column_name \<Rightarrow> 'num json \<Rightarrow> cql_value result) \<Rightarrow> column_name list \<Rightarrow> 'num json list \<Rightarrow> cql_value list result" where
  "row_from f columns row =
     and_then (is_same_len columns row) (\<lambda>_. collect_result (\<lambda>(c, j). f c j) (zip columns row))"

lemma tuple_from_zip:
  "idx + length rhs \<le> length lhs \<Longrightarrow> tuple_from f lhs idx rhs = collect_result (\<lambda>(c, j). f c j) (zip (drop idx lhs) rhs)"
proof (induction rhs arbitrary: idx)
  case (Cons r rhs)
  then have "drop idx lhs = lhs ! idx # drop (Suc idx) lhs" "vec_get lhs idx = Some (lhs ! idx)"
    by (simp_all add: Cons_nth_drop_Suc vec_get_def)
  then show ?case using Cons.IH [of "Suc idx"] Cons.prems by (simp add: vec_get_def)
qed simp

lemma tuple_from_row: "and_then (is_same_len lhs rhs) (\<lambda>_. tuple_from f lhs 0 rhs) = row_from f lhs rhs"
  by (simp add: row_from_def is_same_len_def tuple_from_zip)

lemma row_from_single: "row_from f [c] [j] = and_then (f c j) (\<lambda>v. Ok [v])"
  by (simp add: row_from_def is_same_len_def)

lemma and_then_assoc: "and_then (and_then r f) g = and_then r (\<lambda>x. and_then (f x) g)"
  by (cases r) simp_all

lemma tuple_restriction_rows:
  "tuple_restriction f R lhs rhs = and_then (collect_result (row_from f lhs) [rhs]) (\<lambda>rows. Ok (R lhs (hd rows)))"
  by (simp add: tuple_restriction_def flip: tuple_from_row) (simp add: and_then_assoc)

lemma single_restriction_rows:
  "single_restriction f R lhs rhs = and_then (collect_result (row_from f [lhs]) [[rhs]]) (\<lambda>rows. Ok (R lhs (hd (hd rows))))"
  by (simp add: single_restriction_def row_from_single and_then_assoc)

lemma in_restriction_rows:
  "and_then (collect_result (f lhs) rhs) (\<lambda>vs. Ok (RIn lhs vs)) =
   and_then (collect_result (row_from f [lhs]) (map (\<lambda>v. [v]) rhs)) (\<lambda>rows. Ok (RIn lhs (map hd rows)))"
proof -
  have "collect_result (f lhs) rhs = and_then (collect_result (row_from f [lhs]) (map (\<lambda>v. [v]) rhs)) (\<lambda>rows. Ok (map hd rows))"
    by (induction rhs) (simp_all add: row_from_single and_then_assoc)
  then show ?thesis by (simp add: and_then_assoc)
qed

text \<open>The twelve cases are one: the rows are read, and put in the place of the JSON.\<close>

lemma translate_restriction_rows:
  "translate_restriction f r =
     and_then (collect_result (row_from f (fst (json_rows r))) (snd (json_rows r))) (\<lambda>rows. Ok (with_rows r rows))"
  by (cases r)
    (simp_all only: translate_restriction.simps json_rows.simps with_rows.simps fst_conv snd_conv
      single_restriction_rows tuple_restriction_rows in_restriction_rows tuple_from_row)

text \<open>What a restriction needs to be translated: equal lengths, stored columns of a known type, readable values.\<close>

definition accepted :: "'num json_codec \<Rightarrow> column_name list \<Rightarrow> table_columns \<Rightarrow> 'num http_restriction \<Rightarrow> bool" where
  "accepted C filtering_columns table_columns r \<longleftrightarrow>
     (\<forall>row\<in>set (snd (json_rows r)). length (fst (json_rows r)) = length row \<and>
        (\<forall>(c, j)\<in>set (zip (fst (json_rows r)) row). c \<in> set filtering_columns \<and>
           (\<exists>nt. table_columns c = Some nt \<and> is_ok (from_json C j nt))))"

text \<open>The translation: the same columns and comparison, each value read in the type of its column.\<close>

definition translated :: "'num json_codec \<Rightarrow> table_columns \<Rightarrow> 'num http_restriction \<Rightarrow> restriction \<Rightarrow> bool" where
  "translated C table_columns r r' \<longleftrightarrow>
     (\<exists>rows. r' = with_rows r rows \<and>
        list_all2 (\<lambda>row vs. list_all2 (\<lambda>(c, j) v. value_type v = table_columns c \<and>
            (\<exists>nt. table_columns c = Some nt \<and> from_json C j nt = Ok v)) (zip (fst (json_rows r)) row) vs)
          (snd (json_rows r)) rows)"

lemma collect_result_all2: "collect_result f xs = Ok ys \<Longrightarrow> list_all2 (\<lambda>x y. f x = Ok y) xs ys"
  by (induction xs arbitrary: ys) (auto simp: result_simps)

lemma is_ok_and_then_Ok: "is_ok (and_then r (\<lambda>x. Ok (g x))) = is_ok r"
  by (cases r) simp_all

lemma column_from_json_no_panic: "no_panic (column_from_json C fcols tc c j)"
  by (auto simp: column_from_json_def from_json_no_panic intro!: no_panic_and_then)

lemma column_from_json_Ok:
  "column_from_json C fcols tc c j = Ok v \<longleftrightarrow> c \<in> set fcols \<and> (\<exists>nt. tc c = Some nt \<and> from_json C j nt = Ok v)"
  by (auto simp: column_from_json_def result_simps)

lemma column_from_json_ok:
  "is_ok (column_from_json C fcols tc c j) \<longleftrightarrow> c \<in> set fcols \<and> (\<exists>nt. tc c = Some nt \<and> is_ok (from_json C j nt))"
  by (auto simp: is_ok_iff column_from_json_Ok)

lemma row_from_no_panic: "(\<And>c j. no_panic (f c j)) \<Longrightarrow> no_panic (row_from f columns row)"
  by (auto simp: row_from_def is_same_len_def intro!: no_panic_and_then collect_no_panic)

lemma row_from_ok: "is_ok (row_from f columns row) \<longleftrightarrow> length columns = length row \<and> (\<forall>(c, j)\<in>set (zip columns row). is_ok (f c j))"
  by (auto simp: row_from_def is_same_len_def collect_result_total)

lemma translate_accepted: "is_ok (translate_restriction (column_from_json C fcols tc) r) \<longleftrightarrow> accepted C fcols tc r"
  by (auto simp: translate_restriction_rows is_ok_and_then_Ok collect_result_total row_from_ok accepted_def column_from_json_ok)

lemma row_from_Ok:
  assumes "row_from (column_from_json C fcols tc) columns row = Ok vs"
  shows "list_all2 (\<lambda>(c, j) v. value_type v = tc c \<and> (\<exists>nt. tc c = Some nt \<and> from_json C j nt = Ok v)) (zip columns row) vs"
proof -
  have "list_all2 (\<lambda>x v. (\<lambda>(c, j). column_from_json C fcols tc c j) x = Ok v) (zip columns row) vs"
    using assms by (intro collect_result_all2) (auto simp: row_from_def result_simps)
  then show ?thesis
    by (rule list_all2_mono) (auto simp: column_from_json_Ok from_json_type)
qed

lemma translate_Ok:
  assumes "translate_restriction (column_from_json C fcols tc) r = Ok r'"
  shows "translated C tc r r'"
proof -
  obtain rows where rows: "collect_result (row_from (column_from_json C fcols tc) (fst (json_rows r))) (snd (json_rows r)) = Ok rows"
    and r': "r' = with_rows r rows"
    using assms by (auto simp: translate_restriction_rows result_simps)
  have "list_all2 (\<lambda>row vs. list_all2 (\<lambda>(c, j) v. value_type v = tc c \<and> (\<exists>nt. tc c = Some nt \<and> from_json C j nt = Ok v))
      (zip (fst (json_rows r)) row) vs) (snd (json_rows r)) rows"
    using collect_result_all2 [OF rows] by (rule list_all2_mono) (rule row_from_Ok)
  then show ?thesis using r' unfolding translated_def by blast
qed

lemma translate_no_panic: "no_panic (translate_restriction (column_from_json C fcols tc) r)"
  by (auto simp: translate_restriction_rows column_from_json_no_panic
      intro!: no_panic_and_then collect_no_panic row_from_no_panic)

lemma filter_no_panic: "no_panic (try_from_post_index_ann_filter C flt fcols tc)"
  by (auto simp: try_from_post_index_ann_filter_def translate_no_panic intro!: no_panic_and_then collect_no_panic)

lemma filter_Ok:
  assumes "try_from_post_index_ann_filter C json_filter fcols tc = Ok flt"
  shows "flt_allow_filtering flt = hf_allow_filtering json_filter \<and>
    (\<forall>r\<in>set (hf_restrictions json_filter). accepted C fcols tc r) \<and>
    list_all2 (translated C tc) (hf_restrictions json_filter) (flt_restrictions flt)"
proof -
  obtain rs where rs: "collect_result (translate_restriction (column_from_json C fcols tc)) (hf_restrictions json_filter) = Ok rs"
    and flt: "flt = \<lparr>flt_restrictions = rs, flt_allow_filtering = hf_allow_filtering json_filter\<rparr>"
    using assms by (auto simp: try_from_post_index_ann_filter_def result_simps)
  have "list_all2 (translated C tc) (hf_restrictions json_filter) rs"
    using collect_result_all2 [OF rs] by (rule list_all2_mono) (rule translate_Ok)
  moreover have "is_ok (collect_result (translate_restriction (column_from_json C fcols tc)) (hf_restrictions json_filter))"
    using rs by simp
  ultimately show ?thesis using flt by (simp add: collect_result_total translate_accepted)
qed

text \<open>
  C26: the filter of a search is translated faithfully. The translation never panics, although it
  indexes the columns of a tuple by position; it refuses a filter only if some restriction has
  tuples of different lengths, a column that the index does not store or whose type it does not
  know, or a value that cannot be read in the type of its column; and what it returns are the
  same restrictions in the same order, on values that have the types of their columns.
\<close>

theorem filter_translated:
  "case try_from_post_index_ann_filter C json_filter filtering_columns table_columns of
     Inl (Panic _) \<Rightarrow> False
   | Inl (Bail _) \<Rightarrow> \<exists>r\<in>set (hf_restrictions json_filter). \<not> accepted C filtering_columns table_columns r
   | Inr flt \<Rightarrow> flt_allow_filtering flt = hf_allow_filtering json_filter \<and>
       (\<forall>r\<in>set (hf_restrictions json_filter). accepted C filtering_columns table_columns r) \<and>
       list_all2 (translated C table_columns) (hf_restrictions json_filter) (flt_restrictions flt)"
proof (cases "try_from_post_index_ann_filter C json_filter filtering_columns table_columns")
  case (Inl e)
  then have "\<not> is_ok (collect_result (translate_restriction (column_from_json C filtering_columns table_columns)) (hf_restrictions json_filter))"
    by (auto simp: try_from_post_index_ann_filter_def result_simps)
  then show ?thesis
    using Inl filter_no_panic [of C json_filter filtering_columns table_columns]
    by (cases e) (auto simp: collect_result_total translate_accepted)
next
  case (Inr flt)
  then show ?thesis using filter_Ok by simp
qed

text \<open>The filter \<open>pk = 7 AND (pk, c) IN ((1, 2))\<close> of columns of the type \<open>int\<close>.\<close>

definition example_http_filter :: "example_number http_filter" where
  "example_http_filter =
     \<lparr>hf_restrictions = [HEq ''pk'' (JNumber (Inr 7)), HInTuple [''pk'', ''c''] [[JNumber (Inr 1), JNumber (Inr 2)]]],
      hf_allow_filtering = True\<rparr>"

lemma example_filter_Ok:
  "try_from_post_index_ann_filter example_codec example_http_filter [''pk'', ''c''] (\<lambda>_. Some NT_Int) =
     Ok \<lparr>flt_restrictions = [REq ''pk'' (CqlInt 7), RInTuple [''pk'', ''c''] [[CqlInt 1, CqlInt 2]]], flt_allow_filtering = True\<rparr>"
  by (simp add: try_from_post_index_ann_filter_def example_http_filter_def single_restriction_def column_from_json_def
      from_number_def int_of_number_def example_codec_def is_same_len_def vec_get_def)

theorem filter_translated_witness:
  "accepted example_codec [''pk'', ''c''] (\<lambda>_. Some NT_Int) (HInTuple [''pk'', ''c''] [[JNumber (Inr 1), JNumber (Inr 2)]]) \<and>
   translated example_codec (\<lambda>_. Some NT_Int) (HEq ''pk'' (JNumber (Inr 7))) (REq ''pk'' (CqlInt 7))"
  using filter_translated [where C = example_codec and json_filter = example_http_filter and
      filtering_columns = "[''pk'', ''c'']" and table_columns = "\<lambda>_. Some NT_Int"]
  unfolding example_filter_Ok by (simp add: example_http_filter_def)

section \<open>Primary keys\<close>

definition keys_hold :: "nat \<Rightarrow> cql_value list list \<Rightarrow> primary_key list \<Rightarrow> bool" where
  "keys_hold n vss keys \<longleftrightarrow> list_all2 key_of vss keys \<and> (\<forall>vs\<in>set vss. length vs = n)"

text \<open>One column of the keys, as the answer has it.\<close>

definition column_of :: "'num json_codec \<Rightarrow> cql_value list list \<Rightarrow> nat \<Rightarrow> 'num json list result" where
  "column_of C vss i = collect_result (\<lambda>vs. to_json C (vs ! i)) vss"

lemma key_column_json_key_of:
  "key_of vs key \<Longrightarrow> i < length vs \<Longrightarrow> key_column_json C (length vs) i key = to_json C (vs ! i)"
  by (simp add: key_column_json_def ik_len_key_of ik_get_key_of vec_get_def)

lemma key_column_of:
  assumes "keys_hold n vss keys" and "i < n"
  shows "collect_result (key_column_json C n i) keys = column_of C vss i"
proof -
  have "list_all2 key_of vss keys \<Longrightarrow> \<forall>vs\<in>set vss. length vs = n \<Longrightarrow> ?thesis"
    by (induction vss keys rule: list_all2_induct) (use assms(2) in \<open>auto simp: column_of_def key_column_json_key_of\<close>)
  then show ?thesis using assms(1) by (simp add: keys_hold_def)
qed

lemma to_json_no_panic: "no_panic (to_json C v)" and to_jsons_no_panic: "no_panic (to_jsons C vs)"
  by (induction C v and C vs rule: to_json_to_jsons.induct)
    (auto simp: of_format_def intro!: no_panic_and_then)

lemma try_collect_keys:
  assumes keys: "keys_hold (length columns) vss keys"
  shows "try_collect_primary_keys C columns keys =
    and_then (collect_result (\<lambda>(i, column). and_then (column_of C vss i) (\<lambda>js. Ok (column, js))) (List.enumerate 0 columns))
      (\<lambda>cs. Ok (map_of (rev cs)))"
proof -
  have "collect_result (\<lambda>(i, column). and_then (collect_result (key_column_json C (length columns) i) keys) (\<lambda>js. Ok (column, js)))
      (List.enumerate 0 columns) =
    collect_result (\<lambda>(i, column). and_then (column_of C vss i) (\<lambda>js. Ok (column, js))) (List.enumerate 0 columns)"
    by (rule collect_result_cong [OF refl]) (auto simp: in_set_enumerate_eq key_column_of [OF keys])
  then show ?thesis by (simp add: try_collect_primary_keys_def)
qed

lemma try_collect_Ok:
  assumes keys: "keys_hold (length columns) vss keys" and "distinct columns"
    and m: "try_collect_primary_keys C columns keys = Ok m"
  shows "dom m = set columns \<and> (\<forall>i<length columns. \<exists>js. column_of C vss i = Ok js \<and> m (columns ! i) = Some js)"
proof -
  obtain cs where cs: "collect_result (\<lambda>(i, column). and_then (column_of C vss i) (\<lambda>js. Ok (column, js))) (List.enumerate 0 columns) = Ok cs"
    and m: "m = map_of (rev cs)"
    using m by (auto simp: try_collect_keys [OF keys] result_simps)
  have len: "length cs = length columns" using collect_result_length [OF cs] by simp
  have nth: "\<exists>js. column_of C vss i = Ok js \<and> cs ! i = (columns ! i, js)" if "i < length columns" for i
    using collect_result_nth [OF cs, of i] that by (auto simp: nth_enumerate_eq result_simps)
  have "map fst cs = columns"
    using len nth by (intro nth_equalityI) fastforce+
  then have "distinct (map fst (rev cs))" using assms(2) by (simp add: rev_map [symmetric])
  then have at: "m c = Some js \<longleftrightarrow> (c, js) \<in> set cs" for c js
    unfolding m by (simp add: map_of_eq_Some_iff)
  have "dom m = fst ` set cs" unfolding m by (simp add: dom_map_of_conv_image_fst)
  also have "\<dots> = set columns" using \<open>map fst cs = columns\<close> by (metis list.set_map)
  finally have "dom m = set columns" .
  moreover have "\<exists>js. column_of C vss i = Ok js \<and> m (columns ! i) = Some js" if "i < length columns" for i
    using nth [OF that] len that at by (metis nth_mem)
  ultimately show ?thesis by blast
qed

lemma try_collect_Err:
  assumes keys: "keys_hold (length columns) vss keys" and e: "try_collect_primary_keys C columns keys = Err e"
  shows "\<exists>vs\<in>set vss. \<exists>v\<in>set vs. to_json C v = Err e"
proof -
  have "collect_result (\<lambda>(i, column). and_then (column_of C vss i) (\<lambda>js. Ok (column, js))) (List.enumerate 0 columns) = Err e"
    using e by (simp add: try_collect_keys [OF keys] result_simps)
  from collect_result_eq_Inl [OF this] obtain i where i: "i < length columns" and "column_of C vss i = Err e"
    by (auto simp: in_set_enumerate_eq result_simps)
  then obtain vs where vs: "vs \<in> set vss" "to_json C (vs ! i) = Err e"
    unfolding column_of_def using collect_result_eq_Inl by blast
  then have "vs ! i \<in> set vs" using i keys by (simp add: keys_hold_def)
  then show ?thesis using vs by blast
qed

lemma try_collect_no_panic:
  assumes "keys_hold (length columns) vss keys"
  shows "no_panic (try_collect_primary_keys C columns keys)"
  using try_collect_Err [OF assms] to_json_no_panic unfolding no_panic_def by metis

section \<open>Vector searches\<close>

text \<open>The columns that a request restricts by equality and by a range, and its key.\<close>

abbreviation equality_columns :: "'num ann_request \<Rightarrow> column_name list" where
  "equality_columns request \<equiv> fst (restriction_columns (rq_filter request))"

abbreviation range_columns :: "'num ann_request \<Rightarrow> column_name list" where
  "range_columns request \<equiv> snd (restriction_columns (rq_filter request))"

definition forbidden :: "http_state \<Rightarrow> protocol option \<Rightarrow> bool" where
  "forbidden st protocol \<longleftrightarrow> hs_use_tls st \<and> protocol = Some Plain"

text \<open>What an index answered a request: without a filter, or with the translated one.\<close>

definition index_answered ::
  "backends \<Rightarrow> 'num json_codec \<Rightarrow> index_key \<Rightarrow> vs_index_entry \<Rightarrow> 'num ann_request \<Rightarrow>
   search_error + (primary_key list \<times> distance list \<times> column_answer) \<Rightarrow> bool" where
  "index_answered B C k e request answer \<longleftrightarrow>
     (case rq_filter request of
        None \<Rightarrow> be_ann B (ie_index e) k (rq_vector request) (rq_limit request) (rq_return_columns request) = answer
      | Some f \<Rightarrow> \<exists>flt. list_all2 (translated C (vd_table_columns (ie_data e))) (hf_restrictions f) (flt_restrictions flt) \<and>
          be_filtered_ann B (ie_index e) k (rq_vector request) flt (rq_limit request) (rq_return_columns request) = answer)"

text \<open>The indexes answer with keys that have a value for every primary key column.\<close>

definition answers_keyed :: "backends \<Rightarrow> indexes \<Rightarrow> bool" where
  "answers_keyed B ixs \<longleftrightarrow>
     (\<forall>k e. vs_entries ixs k = Some e \<longrightarrow>
        (\<forall>v limit cols keys x. be_ann B (ie_index e) k v limit cols = Inr (keys, x) \<longrightarrow>
           (\<exists>vss. keys_hold (length (ie_primary_key_columns e)) vss keys)) \<and>
        (\<forall>v flt limit cols keys x. be_filtered_ann B (ie_index e) k v flt limit cols = Inr (keys, x) \<longrightarrow>
           (\<exists>vss. keys_hold (length (ie_primary_key_columns e)) vss keys)))"

lemma insecure_None: "\<not> forbidden st protocol \<Longrightarrow> check_insecure_tls (hs_use_tls st) protocol = None"
  by (auto simp: forbidden_def check_insecure_tls_def)

text \<open>What is served is what the entry of the routed key says.\<close>

definition served :: "index_key \<Rightarrow> vs_index_entry \<Rightarrow> needs_filtering \<Rightarrow> serving_index" where
  "served k e needs_filtering =
     \<lparr>si_key = k, si_index = ie_index e, si_primary_key_columns = ie_primary_key_columns e,
      si_filtering_columns = vd_filtering_columns (ie_data e), si_table_columns = vd_table_columns (ie_data e),
      si_needs_filtering = needs_filtering\<rparr>"

lemma best_index_served:
  assumes "best_index greg ixs key eqs ranges routing = Ok (ServingIndex s)"
  shows "\<exists>e. vs_entries ixs (si_key s) = Some e \<and> s = served (si_key s) e (si_needs_filtering s)"
proof -
  obtain req where "vs_entries ixs key = Some req"
    using assms by (cases "vs_entries ixs key") (auto simp: best_index_def)
  then obtain candidates scored where best: "(case max_by (candidate_cmp greg) scored of
        Some (routed_key, needs_filtering, _) \<Rightarrow> routed_state ixs routed_key needs_filtering
      | None \<Rightarrow> Ok (if list_ex (is_serving ixs) candidates then NoGlobalIndex else NotServing (ie_progress req))) = Ok (ServingIndex s)"
    using assms by (auto simp: best_index_def and_then_eq_Inr)
  then have "\<exists>k nf. routed_state ixs k nf = Ok (ServingIndex s)"
    by (cases "max_by (candidate_cmp greg) scored") (auto simp del: max_by_None split: if_splits)
  then show ?thesis by (auto simp: routed_state_def served_def result_simps)
qed

lemma ann_search_cases:
  "(\<exists>status msg. status \<in> {StBadRequest, StInternalServerError} \<and> ann_search B C request (served k e nf) = Ok (status, Message msg)) \<or>
   (\<exists>keys distances vals. index_answered B C k e request (Inr (keys, distances, vals)) \<and>
      ann_search B C request (served k e nf) = ann_answered C (be_f32 B) (ie_primary_key_columns e) keys distances vals)"
  (is "?error \<or> ?answer")
proof (cases "rq_filter request")
  case None
  then show ?thesis
    by (cases "be_ann B (ie_index e) k (rq_vector request) (rq_limit request) (rq_return_columns request)")
      (auto simp: ann_search_def served_def index_answered_def split: search_error.splits)
next
  case (Some f)
  show ?thesis
  proof (cases "try_from_post_index_ann_filter C f (vd_filtering_columns (ie_data e)) (vd_table_columns (ie_data e))")
    case (Inl err)
    then obtain msg where "err = Bail msg"
      using filter_no_panic [of C f "vd_filtering_columns (ie_data e)" "vd_table_columns (ie_data e)"] by (cases err) auto
    then have ?error using Inl Some by (simp add: ann_search_def served_def respond_error_def)
    then show ?thesis ..
  next
    case (Inr flt)
    let ?found = "be_filtered_ann B (ie_index e) k (rq_vector request) flt (rq_limit request) (rq_return_columns request)"
    have answered: "index_answered B C k e request ?found"
      using Some filter_Ok [OF Inr] by (auto simp: index_answered_def)
    show ?thesis
    proof (cases ?found)
      case (Inl err)
      then have ?error
        using Some Inr by (cases err) (simp_all add: ann_search_def served_def)
      then show ?thesis ..
    next
      case answer: (Inr found)
      then have ?answer
        using Some Inr answered by (cases found) (auto simp: ann_search_def served_def)
      then show ?thesis ..
    qed
  qed
qed

definition ann_body ::
  "'num json_codec \<Rightarrow> f32_ops \<Rightarrow> (column_name \<Rightarrow> 'num json list option) \<Rightarrow> distance list \<Rightarrow> column_answer \<Rightarrow> 'num ann_response" where
  "ann_body C F keys distances vals =
     \<lparr>ar_primary_keys = keys, ar_distances = map distance_value distances, ar_similarity_scores = map (similarity_from F) distances,
      ar_column_values = (\<lambda>c. map_option (map (column_json C)) (vals c))\<rparr>"

lemma ann_answered_Ok:
  "ann_answered C F columns keys distances vals = Ok (StOk, body) \<longleftrightarrow>
     length keys = length distances \<and>
     (\<exists>m. try_collect_primary_keys C columns keys = Ok m \<and> body = AnnBody (ann_body C F m distances vals))"
  by (auto simp: ann_answered_def respond_error_def ann_body_def split: sum.split error.split)

lemma ann_answered_keyed:
  assumes "keys_hold (length columns) vss keys"
  shows "\<exists>status body. ann_answered C F columns keys distances vals = Ok (status, body) \<and> status \<in> {StOk, StInternalServerError}"
  using try_collect_no_panic [OF assms, of C]
  by (auto simp: ann_answered_def respond_error_def no_panic_def split: sum.split error.split)

lemma ann_search_keyed:
  assumes "answers_keyed B ixs" and "vs_entries ixs k = Some e"
  shows "\<exists>status body. ann_search B C request (served k e nf) = Ok (status, body) \<and>
    status \<in> {StOk, StBadRequest, StInternalServerError}"
  using ann_search_cases [of B C request k e nf]
proof (elim disjE exE conjE)
  fix keys distances vals
  assume answered: "index_answered B C k e request (Inr (keys, distances, vals))"
    and run: "ann_search B C request (served k e nf) = ann_answered C (be_f32 B) (ie_primary_key_columns e) keys distances vals"
  have "\<exists>vss. keys_hold (length (ie_primary_key_columns e)) vss keys"
    using assms answered unfolding answers_keyed_def index_answered_def
    by (cases "rq_filter request"; simp only: option.case) blast+
  then show ?thesis using run ann_answered_keyed by (metis insert_iff)
qed auto

lemma post_index_ann_unfold:
  assumes "\<not> forbidden st protocol"
  shows "post_index_ann B C st protocol keyspace index request =
    and_then (best_index (be_gregorian B) (hs_indexes st) (index_key_new keyspace index) (equality_columns request)
        (range_columns request) (rq_routing request))
      (ann_of_best B C st keyspace index request)"
  by (simp add: post_index_ann_def insecure_None [OF assms] case_prod_beta Let_def)

lemma best_index_known: "best_index greg ixs key eqs ranges routing = Ok b \<Longrightarrow> b \<noteq> NotFound \<Longrightarrow> vs_entries ixs key \<noteq> None"
  by (cases "vs_entries ixs key") (simp_all add: best_index_def)

lemma eligible_serving: "eligible ixs eqs ranges k \<Longrightarrow> is_serving ixs k"
  by (auto simp: eligible_def is_serving_def split: option.splits)

text \<open>
  The status of a vector search tells what happened. If the indexes answer with keys of their
  columns, the handler always responds (no lookup or indexing in it panics): with 403 exactly if
  TLS is required and the request was made without; otherwise with 404 exactly if the index
  is not registered, with 503 exactly if it is still being built and no index that may answer
  in its place serves; and in every other case with 200, 400 or 500.
\<close>

theorem ann_statuses:
  assumes inv: "registry_inv (hs_indexes st)" and keyed: "answers_keyed B (hs_indexes st)"
  shows "\<exists>status body. post_index_ann B C st protocol keyspace index request = Ok (status, body) \<and>
    (let key = index_key_new keyspace index; ixs = hs_indexes st in
      (status = StForbidden \<longleftrightarrow> forbidden st protocol) \<and>
      (status = StNotFound \<longleftrightarrow> \<not> forbidden st protocol \<and> vs_entries ixs key = None) \<and>
      (status = StServiceUnavailable \<longleftrightarrow> \<not> forbidden st protocol \<and>
         (\<exists>e p. vs_entries ixs key = Some e \<and> ie_progress e = InProgress p) \<and>
         (\<forall>k. may_answer ixs key (rq_routing request) k \<longrightarrow> \<not> is_serving ixs k)))"
proof (cases "forbidden st protocol")
  case True
  then show ?thesis by (simp add: forbidden_def post_index_ann_def check_insecure_tls_def)
next
  case False
  note post = post_index_ann_unfold [OF False, of B C keyspace index request]
  note best = best_index_ok [OF inv, where greg = "be_gregorian B" and key = "index_key_new keyspace index"
      and eqs = "equality_columns request" and ranges = "range_columns request" and routing = "rq_routing request"]
  obtain b where b: "best_index (be_gregorian B) (hs_indexes st) (index_key_new keyspace index) (equality_columns request)
      (range_columns request) (rq_routing request) = Ok b"
    using best by (cases "best_index (be_gregorian B) (hs_indexes st) (index_key_new keyspace index) (equality_columns request)
      (range_columns request) (rq_routing request)") auto
  show ?thesis
  proof (cases b)
    case NotFound
    then show ?thesis using post b best False by (simp add: ann_of_best_def missing_index_def)
  next
    case (NotServing p)
    then obtain e where "vs_entries (hs_indexes st) (index_key_new keyspace index) = Some e" "p = ie_progress e"
      "\<forall>k. may_answer (hs_indexes st) (index_key_new keyspace index) (rq_routing request) k \<longrightarrow> \<not> is_serving (hs_indexes st) k"
      using b best by auto
    then show ?thesis
      using post b NotServing False by (cases "ie_progress e") (simp_all add: ann_of_best_def not_serving_def)
  next
    case NoGlobalIndex
    then have "vs_entries (hs_indexes st) (index_key_new keyspace index) \<noteq> None"
      using best_index_known [OF b] by simp
    then show ?thesis using NoGlobalIndex post b best False by (auto simp: ann_of_best_def Let_def)
  next
    case (ServingIndex s)
    obtain e where e: "vs_entries (hs_indexes st) (si_key s) = Some e" "s = served (si_key s) e (si_needs_filtering s)"
      using best_index_served b ServingIndex by blast
    have known: "vs_entries (hs_indexes st) (index_key_new keyspace index) \<noteq> None"
      using best_index_known [OF b] ServingIndex by simp
    have serving: "may_answer (hs_indexes st) (index_key_new keyspace index) (rq_routing request) (si_key s)"
      "is_serving (hs_indexes st) (si_key s)"
      using best b ServingIndex eligible_serving by auto
    obtain status body where "post_index_ann B C st protocol keyspace index request = Ok (status, body)"
      "status \<in> {StOk, StBadRequest, StInternalServerError}"
      using post b ServingIndex ann_search_keyed [OF keyed e(1), of C request "si_needs_filtering s"] e(2)
      by (cases "si_needs_filtering s \<noteq> FilterNo \<and> \<not> allows_filtering request") (auto simp: ann_of_best_def)
    then show ?thesis using known serving False by (auto simp: Let_def)
  qed
qed

text \<open>
  C11: an answer is what the best index answered. Whenever a vector search is answered with 200, an
  index answered it that serves, may answer for the requested one, stores every restricted
  column and has its partition columns restricted by equality, with none better in the order of
  routing; if columns are left to filter, the client allowed filtering; a filter was
  translated faithfully, never dropped; there are as many keys as distances; and the response
  has the distances and their scores in the order of the index, the keys by columns, and the
  values of the requested columns, a value that has no JSON as a null.
\<close>

theorem ann_answer_sound:
  assumes inv: "registry_inv (hs_indexes st)" and run: "post_index_ann B C st protocol keyspace index request = Ok (StOk, body)"
  shows "let key = index_key_new keyspace index; ixs = hs_indexes st;
             eqs = equality_columns request; ranges = range_columns request; routing = rq_routing request
    in \<exists>k e keys distances vals m. vs_entries ixs k = Some e \<and> may_answer ixs key routing k \<and> eligible ixs eqs ranges k \<and>
      (\<forall>k'. may_answer ixs key routing k' \<longrightarrow> eligible ixs eqs ranges k' \<longrightarrow>
         rank (be_gregorian B) (candidate_of ixs eqs ranges k') \<le> rank (be_gregorian B) (candidate_of ixs eqs ranges k)) \<and>
      (uncovered (ie_data e) eqs ranges > 0 \<longrightarrow> allows_filtering request) \<and>
      index_answered B C k e request (Inr (keys, distances, vals)) \<and> length keys = length distances \<and>
      try_collect_primary_keys C (ie_primary_key_columns e) keys = Ok m \<and> body = AnnBody (ann_body C (be_f32 B) m distances vals)"
proof -
  let ?ixs = "hs_indexes st" and ?key = "index_key_new keyspace index"
  have tls: "\<not> forbidden st protocol"
    using run by (auto simp: forbidden_def post_index_ann_def check_insecure_tls_def split: if_splits)
  obtain b where b: "best_index (be_gregorian B) ?ixs ?key (equality_columns request) (range_columns request) (rq_routing request) = Ok b"
    and of_best: "ann_of_best B C st keyspace index request b = Ok (StOk, body)"
    using run unfolding post_index_ann_unfold [OF tls] by (auto simp: and_then_eq_Inr)
  obtain s where s: "b = ServingIndex s" and allowed: "si_needs_filtering s = FilterNo \<or> allows_filtering request"
    and search: "ann_search B C request s = Ok (StOk, body)"
    using of_best by (cases b) (auto simp: ann_of_best_def missing_index_def not_serving_def split: progress.splits if_splits)
  obtain e where e: "vs_entries ?ixs (si_key s) = Some e" "s = served (si_key s) e (si_needs_filtering s)"
    using best_index_served b s by blast
  have search: "ann_search B C request (served (si_key s) e (si_needs_filtering s)) = Ok (StOk, body)"
    using search e(2) by simp
  obtain keys distances vals where answered: "index_answered B C (si_key s) e request (Inr (keys, distances, vals))"
    and body: "ann_answered C (be_f32 B) (ie_primary_key_columns e) keys distances vals = Ok (StOk, body)"
    using ann_search_cases [of B C request "si_key s" e "si_needs_filtering s"] search by auto
  have routed: "may_answer ?ixs ?key (rq_routing request) (si_key s)"
    "eligible ?ixs (equality_columns request) (range_columns request) (si_key s)"
    "si_needs_filtering s = score_of (uncovered (ie_data e) (equality_columns request) (range_columns request))"
    "\<forall>k'. may_answer ?ixs ?key (rq_routing request) k' \<longrightarrow> eligible ?ixs (equality_columns request) (range_columns request) k' \<longrightarrow>
       rank (be_gregorian B) (candidate_of ?ixs (equality_columns request) (range_columns request) k') \<le>
       rank (be_gregorian B) (candidate_of ?ixs (equality_columns request) (range_columns request) (si_key s))"
    using best_index_ok [OF inv, where greg = "be_gregorian B" and key = ?key and eqs = "equality_columns request"
        and ranges = "range_columns request" and routing = "rq_routing request"] b s e(1) by auto
  have "uncovered (ie_data e) (equality_columns request) (range_columns request) > 0 \<longrightarrow> allows_filtering request"
    using allowed routed(3) by (auto simp: score_of_def split: if_splits)
  moreover obtain m where "length keys = length distances" "try_collect_primary_keys C (ie_primary_key_columns e) keys = Ok m"
    "body = AnnBody (ann_body C (be_f32 B) m distances vals)"
    using body unfolding ann_answered_Ok by blast
  ultimately show ?thesis
    unfolding Let_def using e(1) routed answered
    by (intro exI [of _ "si_key s"] exI [of _ e] exI [of _ keys] exI [of _ distances] exI [of _ vals] exI [of _ m] conjI)
qed

section \<open>A search of a registry with one index\<close>

definition example_backends :: backends where
  "example_backends =
     \<lparr>be_ann = (\<lambda>_ _ _ _ _. Inr ([example_key], [DistEuclidean 0], \<lambda>_. None)),
      be_filtered_ann = (\<lambda>_ _ _ _ _ _. Inl (OtherError ''unused'')),
      be_search = (\<lambda>_ _ _ _. Inl (OtherError ''unused'')), be_highlight = (\<lambda>_ _ _ _. Inl (OtherError ''unused'')),
      be_like = (\<lambda>_ _ _ _. Inl (OtherError ''unused'')), be_count = (\<lambda>_ _. Inr 1), be_format = (\<lambda>_. []),
      be_gregorian = (\<lambda>_. None), be_f32 = \<lparr>fo_add = (+), fo_sub = (-), fo_div = (div)\<rparr>\<rparr>"

definition example_http_state :: http_state where
  "example_http_state =
     \<lparr>hs_indexes = example_registry, hs_node_status = NodeServing, hs_index_engine_version = ''usearch'', hs_use_tls = True\<rparr>"

definition example_request :: "example_number ann_request" where
  "example_request = \<lparr>rq_vector = [0, 0], rq_filter = None, rq_limit = 5, rq_routing = False, rq_return_columns = []\<rparr>"

lemma example_entries: "vs_entries (hs_indexes example_http_state) k = (if k = ''ks.idx'' then Some example_vs_entry else None)"
  by (simp add: example_http_state_def example_registry_def indexes_new_def)

lemma example_keys_hold: "keys_hold 1 [[CqlInt 1]] [example_key]"
  using example_key_of by (simp add: keys_hold_def)

lemma example_answers_keyed: "answers_keyed example_backends (hs_indexes example_http_state)"
  using example_keys_hold
  by (auto simp: answers_keyed_def example_entries example_backends_def) (auto simp: example_vs_entry_def)

lemma example_state_inv: "registry_inv (hs_indexes example_http_state)"
  using example_registry_inv by (simp add: example_http_state_def)

lemma example_ann_found:
  "\<exists>body. post_index_ann example_backends example_codec example_http_state (Some Tls) ''ks'' ''idx'' example_request = Ok (StOk, body)"
proof -
  have "try_collect_primary_keys example_codec [''pk''] [example_key] = Ok (map_of [(''pk'', [JNumber (Inr 1)])])"
    using try_collect_keys [of "[''pk'']" "[[CqlInt 1]]" "[example_key]" example_codec] example_keys_hold
    by (simp add: column_of_def example_codec_def)
  then show ?thesis
    by (simp add: post_index_ann_def check_insecure_tls_def restriction_columns_def example_request_def best_index_def
        example_entries index_key_new_def score_index_def max_by_def routed_state_def ann_of_best_def)
      (simp add: routed_state_def example_entries ann_of_best_def example_vs_entry_def score_of_def ann_search_def example_backends_def
        ann_answered_def)
qed

theorem ann_statuses_witness:
  "\<exists>status body. post_index_ann example_backends example_codec example_http_state (Some Plain) ''ks'' ''other'' example_request = Ok (status, body) \<and>
     status = StForbidden"
  using ann_statuses [OF example_state_inv example_answers_keyed, where C = example_codec and protocol = "Some Plain"
      and keyspace = "''ks''" and index = "''other''" and request = example_request]
  by (auto simp: forbidden_def example_http_state_def Let_def)

theorem ann_answer_sound_witness:
  "\<exists>body keys distances vals. post_index_ann example_backends example_codec example_http_state (Some Tls) ''ks'' ''idx'' example_request = Ok (StOk, body) \<and>
     index_answered example_backends example_codec ''ks.idx'' example_vs_entry example_request (Inr (keys, distances, vals))"
proof -
  obtain body where body: "post_index_ann example_backends example_codec example_http_state (Some Tls) ''ks'' ''idx'' example_request = Ok (StOk, body)"
    using example_ann_found by blast
  then show ?thesis
    using ann_answer_sound [OF example_state_inv body] by (auto simp: example_entries Let_def split: if_splits)
qed

section \<open>An answer of the usearch index\<close>

text \<open>
  Every stored key has \<open>n\<close> values. The table keeps this if it is asked to store such keys only,
  which is what the reader of rows builds.
\<close>

definition stored_keys :: "table \<Rightarrow> primary_key set" where
  "stored_keys t = {key. Some key \<in> set (t_primary_keys t)}"

definition keys_sized :: "nat \<Rightarrow> table \<Rightarrow> bool" where
  "keys_sized n t \<longleftrightarrow> (\<forall>key\<in>stored_keys t. ik_len key = Ok n)"

lemma stored_keys_resize: "reserve_primary_ids t = (r, t') \<Longrightarrow> stored_keys t' \<subseteq> stored_keys t"
  by (auto simp: reserve_primary_ids_def stored_keys_def vec_resize_def Let_def dest: in_set_takeD split: if_splits prod.splits)

lemma stored_keys_partitions: "reserve_partition_ids t = (r, t') \<Longrightarrow> stored_keys t' = stored_keys t"
  by (auto simp: reserve_partition_ids_def stored_keys_def split: prod.splits)

lemma stored_keys_add: "add_primary_key d key t = (r, t') \<Longrightarrow> stored_keys t' \<subseteq> insert key (stored_keys t)"
  by (auto simp: add_primary_key_def stored_keys_def Let_def dest!: set_update_subset_insert [THEN subsetD]
      split: sum.splits option.splits if_splits)

lemma stored_keys_update_row: "stored_keys (snd (update_row x p names flt vals ts ix t)) = stored_keys t"
  by (simp add: update_row_def stored_keys_def Let_def split: sum.split prod.split)

lemma stored_keys_upsert: "stored_keys (snd (upsert d index_key key values t)) \<subseteq> insert key (stored_keys t)"
proof -
  obtain r1 t1 where t1: "reserve_primary_ids t = (r1, t1)" by force
  obtain r2 t2 where t2: "reserve_partition_ids t1 = (r2, t2)" by force
  obtain r3 t3 where t3: "add_primary_key d key t2 = (r3, t3)" by force
  have "stored_keys t1 \<subseteq> stored_keys t" "stored_keys t2 = stored_keys t1" "stored_keys t3 \<subseteq> insert key (stored_keys t2)"
    using stored_keys_resize [OF t1] stored_keys_partitions [OF t2] stored_keys_add [OF t3] .
  moreover have "snd (upsert d index_key key values t) \<in> {t1, t2, t3} \<or>
      stored_keys (snd (upsert d index_key key values t)) = stored_keys t3"
    by (auto simp: upsert_def t1 t2 t3 stored_keys_update_row split: sum.split option.split)
  ultimately show ?thesis by auto
qed

lemma stored_keys_delete: "stored_keys (snd (delete d index_key key timestamp t)) \<subseteq> insert key (stored_keys t)"
proof -
  obtain r1 t1 where t1: "add_primary_key d key t = (r1, t1)" by force
  have "snd (delete d index_key key timestamp t) \<in> {t, t1} \<or> stored_keys (snd (delete d index_key key timestamp t)) = stored_keys t1"
    by (auto simp: delete_def t1 stored_keys_update_row split: sum.split option.split)
  then show ?thesis using stored_keys_add [OF t1] by auto
qed

lemma keys_sized_kept:
  assumes "keys_sized n t" and "ik_len key = Ok n"
  shows "keys_sized n (snd (upsert d index_key key values t))" and "keys_sized n (snd (delete d index_key key timestamp t))"
  using assms stored_keys_upsert [of d index_key key "values" t] stored_keys_delete [of d index_key key timestamp t]
  unfolding keys_sized_def by blast+

lemma keys_hold_all:
  "\<forall>key\<in>set keys. \<exists>vs. key_of vs key \<and> length vs = n \<Longrightarrow> \<exists>vss. keys_hold n vss keys"
proof (induction keys)
  case (Cons key keys)
  then obtain vs vss where "key_of vs key" "length vs = n" "keys_hold n vss keys" by auto
  then have "keys_hold n (vs # vss) (key # keys)" by (simp add: keys_hold_def)
  then show ?case ..
qed (simp add: keys_hold_def)

lemma found_key:
  assumes "table_inv d t" and "keys_sized n t" and "search_primary_key t q p = Some key"
  shows "\<exists>vs. key_of vs key \<and> length vs = n"
proof -
  have stored: "cv_get (t_primary_keys t) p = Some (Some key)"
    using assms(3) by (auto simp: search_primary_key_def split: if_splits option.splits)
  obtain vs where vs: "key_of vs key" using stored_key_ok [OF assms(1) stored] by blast
  moreover have "key \<in> stored_keys t"
    using stored by (auto simp: stored_keys_def cv_get_def in_set_conv_nth)
  then have "length vs = n" using ik_len_key_of [OF vs] assms(2) by (simp add: keys_sized_def)
  ultimately show ?thesis by blast
qed

lemma ann_collected: "ann ui ps t v limit cols = Ok x \<Longrightarrow> \<exists>ms. collect_results ui ps t cols ms = Ok x"
  by (auto simp: ann_def split: sum.splits)

lemma filtered_ann_collected: "filtered_ann ui d ps t v flt limit cols = Ok x \<Longrightarrow> \<exists>ms. collect_results ui ps t cols ms = Ok x"
  by (auto simp: filtered_ann_def split: sum.splits)

lemma found_rows:
  assumes inv: "table_inv d t" "keys_sized n t" and found: "collect_results ui ps t cols ms = Ok (keys, distances, vals)"
  shows "(\<exists>vss. keys_hold n vss keys) \<and> length distances = length keys \<and> dom vals = set cols \<and>
    (\<forall>c vs. vals c = Some vs \<longrightarrow> length vs = length keys)"
proof -
  note rows = collect_results_Ok [OF found, unfolded Let_def]
  have "\<exists>vs. key_of vs key \<and> length vs = n" if key: "key \<in> set keys" for key
  proof -
    obtain p dist where "(p, dist, key) \<in> set (resolve t (ps_partition_id ps) ms)" using key rows by auto
    then show ?thesis using resolve_match found_key [OF inv] by blast
  qed
  then have "\<exists>vss. keys_hold n vss keys" using keys_hold_all by blast
  moreover have "length distances = length keys" using rows by simp
  moreover have "dom vals = set cols" using rows by (metis (lifting) domD domI option.distinct(1) subsetI subset_antisym)
  moreover have "length vs = length keys" if "vals c = Some vs" for c vs
  proof -
    have "c \<in> set cols" using that rows by (metis option.distinct(1))
    then show ?thesis using that rows by fastforce
  qed
  ultimately show ?thesis by blast
qed

text \<open>
  C12: what the usearch index finds reaches the client row by row. For a table that satisfies its
  invariant and whose keys have a value for each primary key column, an answer of a search, with a
  filter or without, never makes the handler panic. Either it is written whole: for each
  key column the JSON of that value of every key, and distances, scores and the values of exactly
  the requested columns in lists of one length, so that position \<open>i\<close> of each is about the same
  row; or the response is an error and some value of a key has no JSON.
\<close>

theorem usearch_answer_rendered:
  assumes "table_inv d t" and "keys_sized (length columns) t" and "distinct columns"
    and found: "ann ui ps t v limit cols = Ok (keys, distances, vals) \<or>
      (\<exists>flt. filtered_ann ui d ps t v flt limit cols = Ok (keys, distances, vals))"
  shows "\<exists>vss. keys_hold (length columns) vss keys \<and>
    (case ann_answered C F columns keys distances vals of
       Inl _ \<Rightarrow> False
     | Inr (status, body) \<Rightarrow>
         (case body of
            AnnBody r \<Rightarrow> status = StOk \<and>
              dom (ar_primary_keys r) = set columns \<and>
              (\<forall>i<length columns. \<exists>js. ar_primary_keys r (columns ! i) = Some js \<and> column_of C vss i = Ok js \<and> length js = length keys) \<and>
              length (ar_distances r) = length keys \<and> length (ar_similarity_scores r) = length keys \<and>
              dom (ar_column_values r) = set cols \<and> (\<forall>c vs. ar_column_values r c = Some vs \<longrightarrow> length vs = length keys)
          | _ \<Rightarrow> status = StInternalServerError \<and> (\<exists>vs\<in>set vss. \<exists>v\<in>set vs. \<not> is_ok (to_json C v))))"
proof -
  obtain ms where collected: "collect_results ui ps t cols ms = Ok (keys, distances, vals)"
    using found ann_collected filtered_ann_collected by blast
  note rows = found_rows [OF assms(1,2) collected]
  then obtain vss where vss: "keys_hold (length columns) vss keys" by blast
  then have len: "length vss = length keys" by (auto simp: keys_hold_def dest: list_all2_lengthD)
  show ?thesis
  proof (cases "try_collect_primary_keys C columns keys")
    case (Inl e)
    then obtain vs v where bad: "vs \<in> set vss" "v \<in> set vs" "to_json C v = Err e" using try_collect_Err [OF vss] by blast
    moreover obtain msg where "e = Bail msg" using try_collect_no_panic [OF vss, of C] Inl by (cases e) auto
    ultimately show ?thesis
      using vss rows Inl by (intro exI [of _ vss]) (auto simp: ann_answered_def respond_error_def is_ok_iff intro!: bexI [of _ vs] bexI [of _ v])
  next
    case (Inr m)
    have "length js = length keys" if "column_of C vss i = Ok js" for i js
      using that len by (auto simp: column_of_def dest: collect_result_length)
    then have "\<exists>js. m (columns ! i) = Some js \<and> column_of C vss i = Ok js \<and> length js = length keys" if "i < length columns" for i
      using try_collect_Ok [OF vss assms(3) Inr] that by blast
    moreover have "dom (\<lambda>c. map_option (map (column_json C)) (vals c)) = dom vals" by (auto simp: dom_def)
    ultimately show ?thesis
      using vss rows Inr try_collect_Ok [OF vss assms(3) Inr]
      by (intro exI [of _ vss]) (auto simp: ann_answered_def)
  qed
qed

theorem usearch_answer_rendered_witness:
  "\<exists>vss. keys_hold 1 vss [example_key] \<and>
     (case ann_answered example_codec (be_f32 example_backends) [''pk''] [example_key] [DistEuclidean 0] [''v'' \<mapsto> [None], ''pk'' \<mapsto> [Some (CqlInt 1)]] of
        Inr (StOk, AnnBody r) \<Rightarrow> dom (ar_column_values r) = {''v'', ''pk''} | _ \<Rightarrow> False)"
proof -
  have sized: "keys_sized (length [''pk'']) example_table"
    using ik_len_key_of [OF example_key_of] by (simp add: keys_sized_def stored_keys_def example_table_def)
  have "try_collect_primary_keys example_codec [''pk''] [example_key] = Ok (map_of [(''pk'', [JNumber (Inr 1)])])"
    using try_collect_keys [of "[''pk'']" "[[CqlInt 1]]" "[example_key]" example_codec] example_keys_hold
    by (simp add: column_of_def example_codec_def)
  then obtain r where r: "ann_answered example_codec (be_f32 example_backends) [''pk''] [example_key] [DistEuclidean 0]
      [''v'' \<mapsto> [None], ''pk'' \<mapsto> [Some (CqlInt 1)]] = Ok (StOk, AnnBody r)"
    by (simp add: ann_answered_def)
  show ?thesis
    using usearch_answer_rendered [OF example_inv sized _ disjI1 [OF example_ann], where C = example_codec and F = "be_f32 example_backends"] r
    by auto
qed

end
