(* ===== verification/Http_Listing.thy ===== *)
theory Http_Listing
  imports Http_Correct
begin

text \<open>
  The description of the indexes: the list of all of them and the description of one agree. And
  the searches of the text indexes: when they answer, and with what status.
\<close>

section \<open>Keys and names\<close>

lemma dotted_names:
  assumes "CHR ''.'' \<in> set key"
  obtains keyspace index where "CHR ''.'' \<notin> set keyspace" and "key = index_key_new keyspace index"
    and "index_key_keyspace key = Ok keyspace" and "index_key_index key = Ok index"
proof -
  obtain keyspace index where names: "key = keyspace @ CHR ''.'' # index" "CHR ''.'' \<notin> set keyspace"
    using split_list_first [OF assms] by blast
  then show thesis
    using split_once_append [OF names(2), of index]
    by (intro that [of keyspace index]) (simp_all add: index_key_keyspace_def index_key_index_def index_key_new_def)
qed

lemma names_of_key:
  assumes "CHR ''.'' \<notin> set keyspace"
  shows "index_key_keyspace (index_key_new keyspace index) = Ok keyspace" "index_key_index (index_key_new keyspace index) = Ok index"
  using split_once_append [OF assms, of index] by (simp_all add: index_key_keyspace_def index_key_index_def index_key_new_def)

section \<open>The list\<close>

text \<open>The entries that the list is made of, and the description of one, where its index counts.\<close>

abbreviation all_entries ::
  "indexes \<Rightarrow> index_key list \<Rightarrow> index_key list \<Rightarrow> index_key list \<Rightarrow>
   (index_key \<times> index_options \<times> index_sender \<times> index_status \<times> progress) list" where
  "all_entries ixs vs fts pattern \<equiv>
     listed_entries (vs_entries ixs) described_vs vs @ listed_entries (fts_entries ixs) described_fts fts @
     listed_entries (pattern_entries ixs) described_pattern pattern"

definition counted ::
  "backends \<Rightarrow> index_key \<times> index_options \<times> index_sender \<times> index_status \<times> progress \<Rightarrow> index_info option" where
  "counted B entry =
     (case be_count B (fst (snd (snd entry))) (fst entry) of
        Inl _ \<Rightarrow> None
      | Inr n \<Rightarrow>
          (case index_key_keyspace (fst entry) of Inl _ \<Rightarrow> None | Inr keyspace \<Rightarrow>
           case index_key_index (fst entry) of Inl _ \<Rightarrow> None | Inr index \<Rightarrow> Some (index_info_of keyspace index (snd entry) n)))"

lemma in_listed_entries: "(k, d) \<in> set (listed_entries entries f keys) \<longleftrightarrow> k \<in> set keys \<and> (\<exists>e. entries k = Some e \<and> d = f e)"
  by (force simp: listed_entries_def map_filter_def split: option.splits)

lemma listed_keys:
  "set keys = dom entries \<Longrightarrow> map fst (listed_entries entries f keys) = keys"
proof -
  assume "set keys = dom entries"
  then have "\<forall>k\<in>set keys. entries k \<noteq> None" by auto
  then show ?thesis by (induction keys) (auto simp: listed_entries_def map_filter_simps)
qed

lemma in_all_entries:
  assumes inv: "registry_inv ixs" and all: "set vs = dom (vs_entries ixs)" "set fts = dom (fts_entries ixs)" "set pattern = dom (pattern_entries ixs)"
  shows "(k, d) \<in> set (all_entries ixs vs fts pattern) \<longleftrightarrow> index_described ixs k = Some d"
proof -
  have "dom (vs_entries ixs) \<inter> dom (fts_entries ixs) = {}" "dom (vs_entries ixs) \<inter> dom (pattern_entries ixs) = {}"
    "dom (fts_entries ixs) \<inter> dom (pattern_entries ixs) = {}"
    using inv by (simp_all add: registry_inv_def)
  then show ?thesis
    using all by (auto simp: in_listed_entries index_described_def split: option.split)
qed

lemma all_entries_once:
  assumes "registry_inv ixs" and all: "set vs = dom (vs_entries ixs)" "set fts = dom (fts_entries ixs)" "set pattern = dom (pattern_entries ixs)"
    and "distinct vs" "distinct fts" "distinct pattern"
  shows "distinct (map fst (all_entries ixs vs fts pattern))"
proof -
  have "dom (vs_entries ixs) \<inter> dom (fts_entries ixs) = {}" "dom (vs_entries ixs) \<inter> dom (pattern_entries ixs) = {}"
    "dom (fts_entries ixs) \<inter> dom (pattern_entries ixs) = {}"
    using assms(1) by (simp_all add: registry_inv_def)
  then have "distinct (vs @ fts @ pattern)" using assms(5-7) all by (simp add: Int_Un_distrib)
  then show ?thesis
    by (simp only: map_append listed_keys [OF all(1)] listed_keys [OF all(2)] listed_keys [OF all(3)])
qed

lemma in_flattened: "y \<in> set (List.map_filter id (map g xs)) \<longleftrightarrow> (\<exists>x\<in>set xs. g x = Some y)"
  by (induction xs) (auto simp: map_filter_simps split: option.split)

lemma described_known: "index_described ixs k = Some d \<Longrightarrow> contains_key ixs k"
  by (auto simp: index_described_def contains_key_def split: option.splits)

lemma collect_total: "\<forall>x\<in>set xs. f x = Ok (g x) \<Longrightarrow> collect_result f xs = Ok (map g xs)"
  by (induction xs) auto

lemma entry_info_counted:
  assumes "CHR ''.'' \<in> set (fst entry)"
  shows "entry_info B entry = Ok (counted B entry)"
proof -
  obtain keyspace index where "index_key_keyspace (fst entry) = Ok keyspace" "index_key_index (fst entry) = Ok index"
    using dotted_names [OF assms] by metis
  then show ?thesis by (cases entry) (auto simp: entry_info_def counted_def split: sum.split)
qed

lemma counted_key:
  assumes "counted B entry = Some info" and "CHR ''.'' \<in> set (fst entry)"
  shows "CHR ''.'' \<notin> set (ii_keyspace info)" and "index_key_new (ii_keyspace info) (ii_index info) = fst entry"
proof -
  obtain keyspace index where names: "CHR ''.'' \<notin> set keyspace" "fst entry = index_key_new keyspace index"
    "index_key_keyspace (fst entry) = Ok keyspace" "index_key_index (fst entry) = Ok index"
    using dotted_names [OF assms(2)] by metis
  then have "ii_keyspace info = keyspace" "ii_index info = index"
    using assms(1) by (auto simp: counted_def index_info_of_def case_prod_beta split: sum.splits)
  then show "CHR ''.'' \<notin> set (ii_keyspace info)" and "index_key_new (ii_keyspace info) (ii_index info) = fst entry"
    using names by simp_all
qed

lemma info_counted:
  "CHR ''.'' \<notin> set keyspace \<Longrightarrow>
   get_index_info B st keyspace index = (StOk, IndexBody info) \<longleftrightarrow>
     (\<exists>d. index_described (hs_indexes st) (index_key_new keyspace index) = Some d \<and>
        counted B (index_key_new keyspace index, d) = Some info)"
  using names_of_key [of keyspace index]
  by (auto simp: get_index_info_def missing_index_def counted_def Let_def split: option.splits sum.splits)

lemma keys_of_infos:
  assumes "\<forall>entry\<in>set entries. CHR ''.'' \<in> set (fst entry)"
  shows "map (\<lambda>info. index_key_new (ii_keyspace info) (ii_index info)) (List.map_filter id (map (counted B) entries)) =
    map fst (filter (\<lambda>entry. counted B entry \<noteq> None) entries)"
  using assms counted_key(2) by (induction entries) (auto simp: map_filter_simps split: option.split)

text \<open>
  C27: the list of the indexes and the description of one agree. In a state the engine reaches, and
  in whatever order the maps are iterated, the list is always answered with 200 and no name of
  an index makes it panic; it describes an index exactly if the route of that index
  answers 200 with the same description, so an index that is missing could not be counted; and
  it describes no index twice.
\<close>

theorem index_list_agrees:
  assumes "engine_inv d eg" and st: "hs_indexes st = eg_indexes eg"
    and orders: "orders_ok (vs, fts, pattern) (hs_indexes st)"
  shows "\<exists>infos. get_indexes_route B st vs fts pattern = (Ok (StOk, IndexesBody infos) :: 'num response result) \<and>
    (\<forall>info. info \<in> set infos \<longleftrightarrow>
       CHR ''.'' \<notin> set (ii_keyspace info) \<and>
       get_index_info B st (ii_keyspace info) (ii_index info) = (StOk, IndexBody info :: 'num body)) \<and>
    distinct (map (\<lambda>info. (ii_keyspace info, ii_index info)) infos)"
proof -
  let ?ixs = "hs_indexes st"
  let ?E = "all_entries ?ixs vs fts pattern"
  define infos where "infos = List.map_filter id (map (counted B) ?E)"
  have inv: "registry_inv ?ixs" and dots: "\<And>key. contains_key ?ixs key \<Longrightarrow> CHR ''.'' \<in> set key"
    using assms(1) st by (simp_all add: engine_inv_def)
  have all: "set vs = dom (vs_entries ?ixs)" "set fts = dom (fts_entries ?ixs)" "set pattern = dom (pattern_entries ?ixs)"
    and once: "distinct vs" "distinct fts" "distinct pattern"
    using orders by (simp_all add: orders_ok_def)
  note mem = in_all_entries [OF inv all]
  have dotted: "CHR ''.'' \<in> set (fst entry)" if entry: "entry \<in> set ?E" for entry
  proof -
    have "index_described ?ixs (fst entry) = Some (snd entry)" using entry mem [of "fst entry" "snd entry"] by simp
    then show ?thesis by (intro dots described_known)
  qed
  have "collect_result (entry_info B) ?E = Ok (map (counted B) ?E)"
    using dotted by (intro collect_total ballI entry_info_counted)
  then have answer: "get_indexes_route B st vs fts pattern = (Ok (StOk, IndexesBody infos) :: 'num response result)"
    by (simp add: get_indexes_route_def infos_def Let_def)
  have "info \<in> set infos \<longleftrightarrow> CHR ''.'' \<notin> set (ii_keyspace info) \<and>
      get_index_info B st (ii_keyspace info) (ii_index info) = (StOk, IndexBody info :: 'num body)" (is "_ \<longleftrightarrow> ?named") for info
  proof -
    have "info \<in> set infos \<longleftrightarrow> (\<exists>entry\<in>set ?E. counted B entry = Some info)"
      by (simp only: infos_def in_flattened)
    also have "\<dots> \<longleftrightarrow> ?named"
    proof
      assume "\<exists>entry\<in>set ?E. counted B entry = Some info"
      then obtain k data where entry: "(k, data) \<in> set ?E" "counted B (k, data) = Some info" by force
      note key = counted_key [OF entry(2) dotted [OF entry(1)]]
      have "index_described ?ixs k = Some data" using entry(1) mem by simp
      then have "get_index_info B st (ii_keyspace info) (ii_index info) = (StOk, IndexBody info :: 'num body)"
        unfolding info_counted [OF key(1)] using entry(2) key(2) by auto
      then show ?named using key(1) by simp
    next
      assume named: ?named
      then obtain data where "index_described ?ixs (index_key_new (ii_keyspace info) (ii_index info)) = Some data"
        "counted B (index_key_new (ii_keyspace info) (ii_index info), data) = Some info"
        using info_counted by blast
      then show "\<exists>entry\<in>set ?E. counted B entry = Some info" using mem by blast
    qed
    finally show ?thesis .
  qed
  moreover have keys: "map (\<lambda>info. index_key_new (ii_keyspace info) (ii_index info)) infos =
      map fst (filter (\<lambda>entry. counted B entry \<noteq> None) ?E)"
    unfolding infos_def by (rule keys_of_infos) (use dotted in blast)
  have "distinct (map (\<lambda>info. index_key_new (ii_keyspace info) (ii_index info)) infos)"
    unfolding keys by (rule distinct_map_filter) (rule all_entries_once [OF inv all once])
  then have "distinct (map (\<lambda>info. (ii_keyspace info, ii_index info)) infos)"
    by (auto simp: distinct_map inj_on_def)
  ultimately show ?thesis
    using answer by (intro exI [of _ infos] conjI allI)
qed

theorem index_list_agrees_witness:
  "\<exists>(eg :: engine_state) infos. fts_entries (eg_indexes eg) ''ks.idx'' \<noteq> None \<and>
     get_indexes_route example_backends (example_http_state\<lparr>hs_indexes := eg_indexes eg\<rparr>) [] [''ks.idx''] [] =
       (Ok (StOk, IndexesBody infos) :: example_number response result)"
proof -
  obtain eg entry where eg: "add_index example_world example_metadata engine_new = (Ok (), eg)"
    and entries: "vs_entries (eg_indexes eg) = Map.empty" "fts_entries (eg_indexes eg) = [''ks.idx'' \<mapsto> entry]"
      "pattern_entries (eg_indexes eg) = Map.empty"
    using example_engine_added by blast
  have inv: "engine_inv example_driver eg"
    using add_index_ok [OF engine_inv_new example_world_ok example_metadata_ok(1), of example_driver]
    unfolding eg by (simp add: added_ok_def)
  have "orders_ok ([], [''ks.idx''], []) (hs_indexes (example_http_state\<lparr>hs_indexes := eg_indexes eg\<rparr>))"
    by (simp add: orders_ok_def entries)
  from index_list_agrees [OF inv _ this, where 'num = example_number and B = example_backends]
  obtain infos where "get_indexes_route example_backends (example_http_state\<lparr>hs_indexes := eg_indexes eg\<rparr>) [] [''ks.idx''] [] =
      (Ok (StOk, IndexesBody infos) :: example_number response result)"
    by auto
  then show ?thesis using entries by (intro exI [of _ eg] exI [of _ infos]) simp
qed

section \<open>Text searches\<close>

text \<open>The index answers with keys of its columns.\<close>

definition text_keyed :: "backends \<Rightarrow> indexes \<Rightarrow> bool" where
  "text_keyed B ixs \<longleftrightarrow>
     (\<forall>k e. fts_entries ixs k = Some e \<longrightarrow> (\<forall>query limit keys scores. be_search B (ie_index e) k query limit = Inr (keys, scores) \<longrightarrow>
        (\<exists>vss. keys_hold (length (ie_primary_key_columns e)) vss keys))) \<and>
     (\<forall>k e. pattern_entries ixs k = Some e \<longrightarrow> (\<forall>query limit keys. be_like B (ie_index e) k query limit = Inr keys \<longrightarrow>
        (\<exists>vss. keys_hold (length (ie_primary_key_columns e)) vss keys)))"

text \<open>What the status of a search of a text index says, given its entry.\<close>

definition text_status :: "http_state \<Rightarrow> protocol option \<Rightarrow> 'data index_entry option \<Rightarrow> status_code \<Rightarrow> bool" where
  "text_status st protocol entry status \<longleftrightarrow>
     (status = StForbidden \<longleftrightarrow> forbidden st protocol) \<and>
     (status = StNotFound \<longleftrightarrow> \<not> forbidden st protocol \<and> entry = None) \<and>
     (status = StServiceUnavailable \<longleftrightarrow> \<not> forbidden st protocol \<and>
        (\<exists>e p. entry = Some e \<and> ie_status e \<noteq> IndexServing \<and> ie_progress e = InProgress p)) \<and>
     (status = StOk \<longrightarrow> (\<exists>e. entry = Some e \<and> ie_status e = IndexServing))"

text \<open>What the handlers share: the checks, and then the search of a serving index.\<close>

definition when_serving ::
  "backends \<Rightarrow> http_state \<Rightarrow> protocol option \<Rightarrow> keyspace_name \<Rightarrow> index_name \<Rightarrow> 'data index_entry option \<Rightarrow>
   (channel \<Rightarrow> column_name list \<Rightarrow> 'num response result) \<Rightarrow> 'num response result" where
  "when_serving B st protocol keyspace index entry search =
     (case check_insecure_tls (hs_use_tls st) protocol of
        Some resp \<Rightarrow> Ok resp
      | None \<Rightarrow>
      case entry of
        None \<Rightarrow> Ok (missing_index keyspace index)
      | Some entry \<Rightarrow>
      case check_index_serving B (hs_node_status st) keyspace index (serving_or_progress entry) of
        Inl resp \<Rightarrow> Ok resp
      | Inr (sender, primary_key_columns) \<Rightarrow> search sender primary_key_columns)"

lemma when_serving_status:
  assumes search: "\<And>e. entry = Some e \<Longrightarrow> ie_status e = IndexServing \<Longrightarrow>
      \<exists>status body. search (ie_index e) (ie_primary_key_columns e) = Ok (status, body) \<and>
        status \<in> {StOk, StBadRequest, StInternalServerError}"
  shows "\<exists>status body. when_serving B st protocol keyspace index entry search = Ok (status, body) \<and> text_status st protocol entry status"
proof (cases "forbidden st protocol")
  case True
  then show ?thesis by (simp add: when_serving_def forbidden_def check_insecure_tls_def text_status_def)
next
  case tls: False
  show ?thesis
  proof (cases entry)
    case None
    then show ?thesis using tls by (simp add: when_serving_def insecure_None missing_index_def text_status_def)
  next
    case (Some e)
    show ?thesis
    proof (cases "ie_status e = IndexServing")
      case True
      then have "when_serving B st protocol keyspace index entry search = search (ie_index e) (ie_primary_key_columns e)"
        using tls Some by (simp add: when_serving_def insecure_None check_index_serving_def serving_or_progress_def)
      then show ?thesis using search [OF Some True] tls Some True by (auto simp: text_status_def)
    next
      case False
      then show ?thesis
        using tls Some by (cases "ie_progress e")
          (simp_all add: when_serving_def insecure_None check_index_serving_def serving_or_progress_def not_serving_def text_status_def)
    qed
  qed
qed

lemma text_error_status: "\<exists>status body. text_error what e = (status, body) \<and> status \<in> {StOk, StBadRequest, StInternalServerError}"
  by (cases e) (simp_all add: text_error_def)

lemma collected_status:
  assumes "keys_hold (length columns) vss keys"
  shows "\<exists>status body. (case try_collect_primary_keys C columns keys of
      Inl e \<Rightarrow> respond_error StInternalServerError e | Inr m \<Rightarrow> Ok (StOk, f m)) = Ok (status, body) \<and>
    status \<in> {StOk, StBadRequest, StInternalServerError}"
  using try_collect_no_panic [OF assms, of C]
  by (auto simp: respond_error_def no_panic_def split: sum.split error.split)

definition bm25_search ::
  "backends \<Rightarrow> 'num json_codec \<Rightarrow> index_key \<Rightarrow> bm25_request \<Rightarrow> channel \<Rightarrow> column_name list \<Rightarrow> 'num response result" where
  "bm25_search B C key request sender columns =
     (case be_search B sender key (bq_query request) (bq_limit request) of
        Inl e \<Rightarrow> Ok (text_error ''index.bm25'' e)
      | Inr (primary_keys, scores) \<Rightarrow>
          if length primary_keys \<noteq> length scores then Ok (StInternalServerError, Message ''wrong size of a bm25 response'')
          else case try_collect_primary_keys C columns primary_keys of
                 Inl e \<Rightarrow> respond_error StInternalServerError e
               | Inr keys \<Rightarrow> Ok (StOk, Bm25Body keys scores))"

definition like_search ::
  "backends \<Rightarrow> 'num json_codec \<Rightarrow> index_key \<Rightarrow> like_request \<Rightarrow> channel \<Rightarrow> column_name list \<Rightarrow> 'num response result" where
  "like_search B C key request sender columns =
     (case be_like B sender key (lq_pattern request) (lq_limit request) of
        Inl e \<Rightarrow> Ok (text_error ''index.like'' e)
      | Inr primary_keys \<Rightarrow>
          (case try_collect_primary_keys C columns primary_keys of
             Inl e \<Rightarrow> respond_error StInternalServerError e
           | Inr keys \<Rightarrow> Ok (StOk, LikeBody keys)))"

definition highlight_search ::
  "backends \<Rightarrow> index_key \<Rightarrow> highlight_request \<Rightarrow> channel \<Rightarrow> column_name list \<Rightarrow> 'num response result" where
  "highlight_search B key request sender columns =
     Ok (case be_highlight B sender key (hq_query request) (hq_documents request) of
           Inl e \<Rightarrow> text_error ''index.highlight'' e
         | Inr highlights \<Rightarrow> (StOk, HighlightBody highlights))"

lemma handlers_when_serving:
  "post_index_bm25 B C st protocol keyspace index search =
     when_serving B st protocol keyspace index (fts_entries (hs_indexes st) (index_key_new keyspace index))
       (bm25_search B C (index_key_new keyspace index) search)"
  "post_index_like B C st protocol keyspace index like =
     when_serving B st protocol keyspace index (pattern_entries (hs_indexes st) (index_key_new keyspace index))
       (like_search B C (index_key_new keyspace index) like)"
  "Ok (post_index_highlight B st protocol keyspace index excerpt) =
     when_serving B st protocol keyspace index (fts_entries (hs_indexes st) (index_key_new keyspace index))
       (highlight_search B (index_key_new keyspace index) excerpt)"
  by (simp_all add: post_index_bm25_def post_index_like_def post_index_highlight_def when_serving_def bm25_search_def
      like_search_def highlight_search_def split: option.split sum.split)

text \<open>
  The status of a search of a text index tells what happened. If the indexes answer with keys
  of their columns, the three handlers of the full-text and pattern indexes always respond: with
  403 exactly if TLS is required and was not used; otherwise with 404 exactly if the index is
  not registered, with 503 exactly if it does not serve and its full scan is still going on, and
  with 200 only if it serves.
\<close>

theorem text_search_statuses:
  fixes C :: "'num json_codec"
  assumes "text_keyed B (hs_indexes st)"
  shows "let key = index_key_new keyspace index; ixs = hs_indexes st in
    (\<exists>status body. post_index_bm25 B C st protocol keyspace index search = Ok (status, body) \<and>
       text_status st protocol (fts_entries ixs key) status) \<and>
    (\<exists>status body. post_index_like B C st protocol keyspace index like = Ok (status, body) \<and>
       text_status st protocol (pattern_entries ixs key) status) \<and>
    (\<exists>status body. post_index_highlight B st protocol keyspace index excerpt = (status, body :: 'num body) \<and>
       text_status st protocol (fts_entries ixs key) status)"
proof -
  let ?key = "index_key_new keyspace index" and ?ixs = "hs_indexes st"
  have "\<exists>status body. bm25_search B C ?key search (ie_index e) (ie_primary_key_columns e) = Ok (status, body) \<and>
      status \<in> {StOk, StBadRequest, StInternalServerError}" if e: "fts_entries ?ixs ?key = Some e" for e
  proof (cases "be_search B (ie_index e) ?key (bq_query search) (bq_limit search)")
    case (Inr found)
    then obtain vss where "keys_hold (length (ie_primary_key_columns e)) vss (fst found)"
      using assms e unfolding text_keyed_def by (cases found) fastforce
    from collected_status [OF this, where C = C and f = "\<lambda>m. Bm25Body m (snd found)"] show ?thesis
      using Inr by (simp add: bm25_search_def case_prod_beta)
  next
    case (Inl err)
    then show ?thesis using text_error_status [of "''index.bm25''" err] by (simp add: bm25_search_def)
  qed
  moreover have "\<exists>status body. like_search B C ?key like (ie_index e) (ie_primary_key_columns e) = Ok (status, body) \<and>
      status \<in> {StOk, StBadRequest, StInternalServerError}" if e: "pattern_entries ?ixs ?key = Some e" for e
  proof (cases "be_like B (ie_index e) ?key (lq_pattern like) (lq_limit like)")
    case (Inr found)
    then obtain vss where "keys_hold (length (ie_primary_key_columns e)) vss found"
      using assms e unfolding text_keyed_def by blast
    from collected_status [OF this, where C = C and f = LikeBody] show ?thesis using Inr by (simp add: like_search_def)
  next
    case (Inl err)
    then show ?thesis using text_error_status [of "''index.like''" err] by (simp add: like_search_def)
  qed
  moreover have "\<exists>status body. highlight_search B ?key excerpt sender columns = Ok (status, body) \<and>
      status \<in> {StOk, StBadRequest, StInternalServerError}" for sender columns
    using text_error_status [of "''index.highlight''"]
    by (cases "be_highlight B sender ?key (hq_query excerpt) (hq_documents excerpt)") (simp_all add: highlight_search_def)
  note searches = calculation this
  have "\<exists>status body. post_index_bm25 B C st protocol keyspace index search = Ok (status, body) \<and>
      text_status st protocol (fts_entries ?ixs ?key) status"
    unfolding handlers_when_serving by (rule when_serving_status) (rule searches)
  moreover have "\<exists>status body. post_index_like B C st protocol keyspace index like = Ok (status, body) \<and>
      text_status st protocol (pattern_entries ?ixs ?key) status"
    unfolding handlers_when_serving by (rule when_serving_status) (rule searches)
  moreover have "\<exists>status body. Ok (post_index_highlight B st protocol keyspace index excerpt :: 'num response) = Ok (status, body) \<and>
      text_status st protocol (fts_entries ?ixs ?key) status"
    unfolding handlers_when_serving by (rule when_serving_status) (rule searches)
  ultimately show ?thesis unfolding Let_def by simp
qed

lemma example_text_keyed: "text_keyed example_backends (hs_indexes example_http_state)"
  by (simp add: text_keyed_def example_backends_def)

theorem text_search_statuses_witness:
  "\<exists>status body. post_index_like example_backends example_codec example_http_state (Some Tls) ''ks'' ''idx'' \<lparr>lq_pattern = [], lq_limit = 1\<rparr> =
     Ok (status, body) \<and> status = StNotFound"
proof -
  have "pattern_entries (hs_indexes example_http_state) ''ks.idx'' = None"
    by (simp add: example_http_state_def example_registry_def indexes_new_def)
  then show ?thesis
    using text_search_statuses [OF example_text_keyed, where C = example_codec and protocol = "Some Tls" and keyspace = "''ks''"
        and index = "''idx''" and like = "\<lparr>lq_pattern = [], lq_limit = 1\<rparr>"]
    by (auto simp: text_status_def forbidden_def Let_def index_key_new_def)
qed

end
