(* ===== verification/Fts_Index.thy ===== *)
theory Fts_Index
  imports Engine Monitor_Items Memory Table_Search
begin

text \<open>
  Model of \<open>crates/vector-store/src/fts_index/tantivy.rs\<close> with \<open>fts_index/actor.rs\<close>: the actor of a
  full-text index. The functions of the source come first, over the state of an index: its writer,
  its reader and the guards both hold. Then the actor, the channel to the workers, the tasks in
  flight and the loops that reload the readers are one system whose steps interleave freely; a
  task gives up the lock of the index between its steps. The library is the record \<open>tantivy\<close>. The
  code only moves guards (\<open>AsyncInProgress\<close>) about, so their type is a parameter.
\<close>

section \<open>The library\<close>

datatype tokenizer = SimpleTokenizer | WhitespaceTokenizer

datatype language =
    LangEnglish | LangGerman | LangFrench | LangSpanish | LangItalian | LangPortuguese | LangRussian

datatype token_filter = LowerCaser | StopWordFilter language | Stemmer language

record text_analyzer =
  ta_tokenizer :: tokenizer
  ta_filters :: "token_filter list"

datatype index_record_option = WithFreqs | WithFreqsAndPositions

record text_options =
  to_tokenizer :: string
  to_index_option :: index_record_option

datatype field_type = U64Field | TextField text_options

type_synonym schema = "(string \<times> field_type) list"

datatype field_value = U64Value u64 | TextValue rust_string

type_synonym tantivy_document = "(nat \<times> field_value) list"

datatype occur = Should | Must | MustNot

text \<open>A query is of the kinds the code looks into, or another.\<close>

datatype 'q fts_query = OtherQuery 'q | BoostQuery 'q "'q fts_query" | BooleanQuery "(occur \<times> 'q fts_query) list"

text \<open>
  An address of a document is its segment and its number there. A snippet is nothing when it is
  empty, and otherwise HTML that depends on the tags. An opstamp (\<open>u64\<close> in the library) counts the
  operations of a writer and is a natural number here.
\<close>

type_synonym doc_address = "nat \<times> nat"

record ('x, 'q) tantivy =
  tv_stop_words :: "language \<Rightarrow> bool"
  tv_create :: "schema \<Rightarrow> string \<Rightarrow> text_analyzer \<Rightarrow> 'x"
  tv_open_reader :: "'x \<Rightarrow> 'x option"
  tv_watch :: "'x \<Rightarrow> 'x option"
  tv_open_writer :: "'x \<Rightarrow> 'x option"
  tv_add_document :: "tantivy_document \<Rightarrow> 'x \<Rightarrow> bool \<times> 'x"
  tv_delete_term :: "nat \<Rightarrow> u64 \<Rightarrow> 'x \<Rightarrow> 'x"
  tv_commit :: "'x \<Rightarrow> nat option \<times> 'x"
  tv_load_metas :: "'x \<Rightarrow> nat option"
  tv_reload :: "'x \<Rightarrow> bool \<times> 'x"
  tv_num_docs :: "'x \<Rightarrow> nat"
  tv_parse_query :: "nat list \<Rightarrow> rust_string \<Rightarrow> 'x \<Rightarrow> 'q fts_query option"
  tv_search :: "'q fts_query \<Rightarrow> nat \<Rightarrow> 'x \<Rightarrow> (u32 \<times> doc_address) list option"
  tv_fast_column :: "nat \<Rightarrow> string \<Rightarrow> 'x \<Rightarrow> (nat \<Rightarrow> u64 option) option"
  tv_snippets :: "'q fts_query \<Rightarrow> nat \<Rightarrow> nat \<Rightarrow> 'x \<Rightarrow> (rust_string \<Rightarrow> (string \<Rightarrow> string \<Rightarrow> rust_string) option) option"
  tv_segments :: "'x \<Rightarrow> nat"
  tv_space_usage :: "'x \<Rightarrow> nat option"

section \<open>Analyzers, schema, documents\<close>

fun analyzer_name :: "analyzer \<Rightarrow> string" where
  "analyzer_name Standard = ''standard''"
| "analyzer_name English = ''english''"
| "analyzer_name German = ''german''"
| "analyzer_name French = ''french''"
| "analyzer_name Spanish = ''spanish''"
| "analyzer_name Italian = ''italian''"
| "analyzer_name Portuguese = ''portuguese''"
| "analyzer_name Russian = ''russian''"
| "analyzer_name Simple = ''simple''"
| "analyzer_name Whitespace = ''whitespace''"

definition stop_words :: "('x, 'q) tantivy \<Rightarrow> language \<Rightarrow> token_filter result" where
  "stop_words L language =
     (if tv_stop_words L language then Ok (StopWordFilter language) else Err (Bail ''fts: stop words unavailable''))"

definition language_pipeline :: "('x, 'q) tantivy \<Rightarrow> language \<Rightarrow> text_analyzer result" where
  "language_pipeline L language =
     and_then (stop_words L language) (\<lambda>f.
       Ok \<lparr>ta_tokenizer = SimpleTokenizer, ta_filters = [LowerCaser, f, Stemmer language]\<rparr>)"

fun build_token_pipeline :: "('x, 'q) tantivy \<Rightarrow> analyzer \<Rightarrow> text_analyzer result" where
  "build_token_pipeline L Whitespace = Ok \<lparr>ta_tokenizer = WhitespaceTokenizer, ta_filters = []\<rparr>"
| "build_token_pipeline L Simple = Ok \<lparr>ta_tokenizer = SimpleTokenizer, ta_filters = [LowerCaser]\<rparr>"
| "build_token_pipeline L Standard =
     and_then (stop_words L LangEnglish) (\<lambda>f. Ok \<lparr>ta_tokenizer = SimpleTokenizer, ta_filters = [LowerCaser, f]\<rparr>)"
| "build_token_pipeline L English = language_pipeline L LangEnglish"
| "build_token_pipeline L German = language_pipeline L LangGerman"
| "build_token_pipeline L French = language_pipeline L LangFrench"
| "build_token_pipeline L Spanish = language_pipeline L LangSpanish"
| "build_token_pipeline L Italian = language_pipeline L LangItalian"
| "build_token_pipeline L Portuguese = language_pipeline L LangPortuguese"
| "build_token_pipeline L Russian = language_pipeline L LangRussian"

definition text_options_for :: "string \<Rightarrow> bool \<Rightarrow> text_options" where
  "text_options_for tokenizer positions =
     \<lparr>to_tokenizer = tokenizer, to_index_option = (if positions then WithFreqsAndPositions else WithFreqs)\<rparr>"

definition build_schema :: "string \<Rightarrow> bool \<Rightarrow> schema" where
  "build_schema tokenizer positions =
     [(''primary_id'', U64Field), (''text'', TextField (text_options_for tokenizer positions))]"

text \<open>\<open>get_field\<close> and \<open>unwrap\<close>: a field is its position.\<close>

fun get_field :: "schema \<Rightarrow> string \<Rightarrow> nat result" where
  "get_field [] name = Err (Panic ''unwrap on Err'')"
| "get_field ((field, _) # rest) name =
     (if field = name then Ok 0 else and_then (get_field rest name) (\<lambda>i. Ok (Suc i)))"

definition create_doc :: "schema \<Rightarrow> primary_id \<Rightarrow> rust_string \<Rightarrow> tantivy_document result" where
  "create_doc schema p document =
     and_then (get_field schema ''primary_id'') (\<lambda>primary_id_field.
     and_then (get_field schema ''text'') (\<lambda>text_field.
       Ok [(primary_id_field, U64Value (primary_raw p)), (text_field, TextValue document)]))"

definition create_term :: "schema \<Rightarrow> primary_id \<Rightarrow> (nat \<times> u64) result" where
  "create_term schema p =
     and_then (get_field schema ''primary_id'') (\<lambda>primary_id_field. Ok (primary_id_field, primary_raw p))"

section \<open>IndexState\<close>

text \<open>Where the loop is that reloads a reader: waiting for a request, sending its task, waiting for it.\<close>

datatype reload_pc = ReloadWaits | ReloadSends | ReloadRuns

text \<open>
  \<open>fx_uncommitted\<close> is the writer's, \<open>fx_unsearchable\<close> to \<open>fx_reload_failed\<close> the \<open>ReloadState\<close>. The guards
  dropped are observed: those of searchable documents, and those of documents the library refused.
\<close>

record ('x, 'g) fts_state =
  fx_schema :: schema
  fx_tantivy :: 'x
  fx_uncommitted :: "'g list"
  fx_unsearchable :: "(nat, 'g list) btree"
  fx_reloaded :: nat
  fx_reload_failed :: bool
  fx_requested :: bool
  fx_reload_pc :: reload_pc
  fx_dropped :: "'g list"
  fx_failed :: "'g list"

definition index_state_build :: "('x, 'q) tantivy \<Rightarrow> analyzer \<Rightarrow> bool \<Rightarrow> ('x, 'g) fts_state result" where
  "index_state_build L analyzer positions =
     (let tokenizer = analyzer_name analyzer; schema = build_schema tokenizer positions in
      and_then (build_token_pipeline L analyzer) (\<lambda>pipeline.
      let index = tv_create L schema tokenizer pipeline in
      and_then (ok_or (tv_open_reader L index) (Bail ''fts: failed to create reader'')) (\<lambda>index.
      and_then (ok_or (tv_watch L index) (Bail ''fts: failed to watch index metas'')) (\<lambda>index.
      and_then (ok_or (tv_open_writer L index) (Bail ''fts: failed to create writer'')) (\<lambda>index.
        Ok \<lparr>fx_schema = schema, fx_tantivy = index, fx_uncommitted = [], fx_unsearchable = [], fx_reloaded = 0,
            fx_reload_failed = False, fx_requested = False, fx_reload_pc = ReloadWaits, fx_dropped = [], fx_failed = []\<rparr>)))))"

section \<open>Writer\<close>

definition uncommitted_docs :: "('x, 'g) fts_state \<Rightarrow> nat" where
  "uncommitted_docs st = length (fx_uncommitted st)"

definition has_uncommitted_docs :: "('x, 'g) fts_state \<Rightarrow> bool" where
  "has_uncommitted_docs st \<longleftrightarrow> fx_uncommitted st \<noteq> []"

definition writer_add_document ::
  "('x, 'q) tantivy \<Rightarrow> tantivy_document \<Rightarrow> 'g \<Rightarrow> ('x, 'g) fts_state \<Rightarrow> nat option \<times> ('x, 'g) fts_state" where
  "writer_add_document L doc g st =
     (case tv_add_document L doc (fx_tantivy st) of
        (False, x) \<Rightarrow> (None, st\<lparr>fx_tantivy := x, fx_failed := fx_failed st @ [g]\<rparr>)
      | (True, x) \<Rightarrow>
          let st1 = st\<lparr>fx_tantivy := x, fx_uncommitted := fx_uncommitted st @ [g]\<rparr>
          in (Some (uncommitted_docs st1), st1))"

definition writer_rm_document ::
  "('x, 'q) tantivy \<Rightarrow> nat \<times> u64 \<Rightarrow> 'g \<Rightarrow> ('x, 'g) fts_state \<Rightarrow> nat \<times> ('x, 'g) fts_state" where
  "writer_rm_document L t g st =
     (let st1 = st\<lparr>fx_tantivy := tv_delete_term L (fst t) (snd t) (fx_tantivy st), fx_uncommitted := fx_uncommitted st @ [g]\<rparr>
      in (uncommitted_docs st1, st1))"

definition writer_commit :: "('x, 'q) tantivy \<Rightarrow> ('x, 'g) fts_state \<Rightarrow> (nat \<times> 'g list) option \<times> ('x, 'g) fts_state" where
  "writer_commit L st =
     (case tv_commit L (fx_tantivy st) of
        (None, x) \<Rightarrow> (None, st\<lparr>fx_tantivy := x\<rparr>)
      | (Some opstamp, x) \<Rightarrow> (Some (opstamp, fx_uncommitted st), st\<lparr>fx_tantivy := x, fx_uncommitted := []\<rparr>))"

definition handle_add_document ::
  "('x, 'q) tantivy \<Rightarrow> primary_id \<Rightarrow> rust_string \<Rightarrow> 'g \<Rightarrow> ('x, 'g) fts_state \<Rightarrow> (nat \<times> ('x, 'g) fts_state) result" where
  "handle_add_document L p document g st =
     and_then (create_doc (fx_schema st) p document) (\<lambda>doc.
       Ok (case writer_add_document L doc g st of
             (Some n, st1) \<Rightarrow> (n, st1)
           | (None, st1) \<Rightarrow> (uncommitted_docs st1, st1)))"

definition handle_remove_document ::
  "('x, 'q) tantivy \<Rightarrow> primary_id \<Rightarrow> 'g \<Rightarrow> ('x, 'g) fts_state \<Rightarrow> (nat \<times> ('x, 'g) fts_state) result" where
  "handle_remove_document L p g st =
     and_then (create_term (fx_schema st) p) (\<lambda>t. Ok (writer_rm_document L t g st))"

section \<open>Reader\<close>

definition request_reload :: "('x, 'g) fts_state \<Rightarrow> ('x, 'g) fts_state" where
  "request_reload st = st\<lparr>fx_requested := True\<rparr>"

definition needs_reload :: "('x, 'g) fts_state \<Rightarrow> bool" where
  "needs_reload st \<longleftrightarrow> fx_reload_failed st \<or> fx_unsearchable st \<noteq> []"

text \<open>\<open>insert\<close> replaces, and so drops, what was there.\<close>

definition drop_guards_when_searchable :: "nat \<Rightarrow> 'g list \<Rightarrow> ('x, 'g) fts_state \<Rightarrow> ('x, 'g) fts_state" where
  "drop_guards_when_searchable commit_opstamp guards st =
     (if fx_reloaded st < commit_opstamp
      then st\<lparr>fx_unsearchable := bt_insert commit_opstamp guards (fx_unsearchable st),
              fx_dropped := fx_dropped st @ (case bt_get (fx_unsearchable st) commit_opstamp of Some old \<Rightarrow> old | None \<Rightarrow> [])\<rparr>
      else st\<lparr>fx_dropped := fx_dropped st @ guards\<rparr>)"

text \<open>The end of \<open>reload\<close>, under the lock of the reload state; the loop then waits again.\<close>

definition reload_finished :: "nat option \<Rightarrow> ('x, 'g) fts_state \<Rightarrow> ('x, 'g) fts_state" where
  "reload_finished reloaded st =
     (case reloaded of
        Some opstamp \<Rightarrow>
          st\<lparr>fx_reload_failed := False, fx_reloaded := opstamp,
             fx_unsearchable := filter (\<lambda>(committed, _). opstamp < committed) (fx_unsearchable st),
             fx_dropped := fx_dropped st @ concat (map snd (filter (\<lambda>(committed, _). \<not> opstamp < committed) (fx_unsearchable st))),
             fx_reload_pc := ReloadWaits\<rparr>
      | None \<Rightarrow> st\<lparr>fx_reload_failed := True, fx_reload_pc := ReloadWaits\<rparr>)"

section \<open>Searches\<close>

text \<open>An \<open>anyhow\<close> error of a handler is an answer; a panic is not.\<close>

fun answered :: "'a result \<Rightarrow> (search_error + 'a) result" where
  "answered (Inl (Bail msg)) = Ok (Inl (OtherError msg))"
| "answered (Inl (Panic msg)) = Err (Panic msg)"
| "answered (Inr x) = Ok (Inr x)"

fun answer_then :: "(search_error + 'a) result \<Rightarrow> ('a \<Rightarrow> (search_error + 'b) result) \<Rightarrow> (search_error + 'b) result" where
  "answer_then (Inl e) f = Inl e"
| "answer_then (Inr (Inl e)) f = Ok (Inl e)"
| "answer_then (Inr (Inr x)) f = f x"

definition make_query :: "('x, 'q) tantivy \<Rightarrow> nat \<Rightarrow> rust_string \<Rightarrow> 'x \<Rightarrow> (search_error + 'q fts_query) result" where
  "make_query L text_field query index =
     Ok (case tv_parse_query L [text_field] query index of
           None \<Rightarrow> Inl (QueryError ''fts: failed to parse query'')
         | Some q \<Rightarrow> Inr q)"

definition find_partition_id :: "table \<Rightarrow> index_key \<Rightarrow> partition_id result" where
  "find_partition_id t key =
     and_then (search_partition_id t key None) (\<lambda>found.
     and_then (ok_or found (Bail ''fts: partition id not found for index key'')) (\<lambda>(partition_id, _).
       Ok partition_id))"

definition hit_id :: "('x, 'q) tantivy \<Rightarrow> 'x \<Rightarrow> u32 \<times> doc_address \<Rightarrow> (u32 \<times> primary_id) result" where
  "hit_id L index hit =
     (case hit of (score, segment, doc) \<Rightarrow>
        and_then (ok_or (tv_fast_column L segment ''primary_id'' index) (Bail ''fts: failed to open the primary id column'')) (\<lambda>column.
        and_then (ok_or (column doc) (Bail ''fts: missing primary_id in the column'')) (\<lambda>raw_id.
          Ok (score, PrimaryId raw_id))))"

definition found_keys :: "table \<Rightarrow> partition_id \<Rightarrow> (u32 \<times> primary_id) list \<Rightarrow> (primary_key \<times> u32) list" where
  "found_keys t q hits = List.map_filter (\<lambda>(score, p). map_option (\<lambda>key. (key, score)) (search_primary_key t q p)) hits"

type_synonym fts_search_answer = "search_error + (primary_key list \<times> u32 list)"

definition handle_search ::
  "('x, 'q) tantivy \<Rightarrow> table \<Rightarrow> index_key \<Rightarrow> rust_string \<Rightarrow> nat \<Rightarrow> ('x, 'g) fts_state \<Rightarrow> fts_search_answer result" where
  "handle_search L t key query_str limit st =
     and_then (get_field (fx_schema st) ''text'') (\<lambda>text_field.
     answer_then (make_query L text_field query_str (fx_tantivy st)) (\<lambda>query.
     answer_then (answered (ok_or (tv_search L query limit (fx_tantivy st)) (Bail ''fts: search failed''))) (\<lambda>top_docs.
     answer_then (answered (find_partition_id t key)) (\<lambda>partition_id.
     answer_then (answered (collect_result (hit_id L (fx_tantivy st)) top_docs)) (\<lambda>hits.
       let found = found_keys t partition_id hits in Ok (Inr (map fst found, map snd found)))))))"

definition HIGHLIGHT_MAX_NUM_CHARS :: nat where "HIGHLIGHT_MAX_NUM_CHARS = 150"
definition HIGHLIGHT_PRE_TAG :: string where "HIGHLIGHT_PRE_TAG = ''<b>''"
definition HIGHLIGHT_POST_TAG :: string where "HIGHLIGHT_POST_TAG = ''</b>''"

fun strip_negated_clauses :: "'q fts_query \<Rightarrow> search_error + 'q fts_query"
  and strip_clauses :: "(occur \<times> 'q fts_query) list \<Rightarrow> search_error + (occur \<times> 'q fts_query) list" where
  "strip_negated_clauses (OtherQuery q) = Inr (OtherQuery q)"
| "strip_negated_clauses (BoostQuery b q) = Inl (QueryError ''fts: boosted queries are not supported for highlighting'')"
| "strip_negated_clauses (BooleanQuery clauses) =
     (case strip_clauses clauses of Inl e \<Rightarrow> Inl e | Inr clauses' \<Rightarrow> Inr (BooleanQuery clauses'))"
| "strip_clauses [] = Inr []"
| "strip_clauses ((occur, subquery) # clauses) =
     (if occur = MustNot then strip_clauses clauses
      else case strip_negated_clauses subquery of
             Inl e \<Rightarrow> Inl e
           | Inr subquery' \<Rightarrow>
               (case strip_clauses clauses of Inl e \<Rightarrow> Inl e | Inr clauses' \<Rightarrow> Inr ((occur, subquery') # clauses')))"

definition handle_highlight ::
  "('x, 'q) tantivy \<Rightarrow> rust_string \<Rightarrow> rust_string list \<Rightarrow> ('x, 'g) fts_state \<Rightarrow> (search_error + rust_string option list) result" where
  "handle_highlight L query_str documents st =
     and_then (get_field (fx_schema st) ''text'') (\<lambda>text_field.
     answer_then (make_query L text_field query_str (fx_tantivy st)) (\<lambda>query.
     answer_then (Ok (strip_negated_clauses query)) (\<lambda>query.
     answer_then (answered (ok_or (tv_snippets L query text_field HIGHLIGHT_MAX_NUM_CHARS (fx_tantivy st))
                    (Bail ''fts: failed to create snippet generator''))) (\<lambda>snippet.
       Ok (Inr (map (\<lambda>text. map_option (\<lambda>html. html HIGHLIGHT_PRE_TAG HIGHLIGHT_POST_TAG) (snippet text)) documents))))))"

record fts_stats =
  fst_num_docs :: nat
  fst_size_bytes :: nat
  fst_segment_count :: nat

definition fts_stats_default :: fts_stats where
  "fts_stats_default = \<lparr>fst_num_docs = 0, fst_size_bytes = 0, fst_segment_count = 0\<rparr>"

definition handle_stats :: "('x, 'q) tantivy \<Rightarrow> ('x, 'g) fts_state \<Rightarrow> (search_error + fts_stats) result" where
  "handle_stats L st =
     answer_then (answered (ok_or (tv_space_usage L (fx_tantivy st)) (Bail ''fts: failed to compute space usage''))) (\<lambda>size_bytes.
       Ok (Inr \<lparr>fst_num_docs = tv_num_docs L (fx_tantivy st), fst_size_bytes = size_bytes, fst_segment_count = tv_segments L (fx_tantivy st)\<rparr>))"

section \<open>Messages and tasks\<close>

text \<open>A reply on a one-shot channel, which is named by a number in the request.\<close>

datatype 'g fts_index =
    FtsAddDocument primary_id rust_string 'g
  | FtsRemoveDocument primary_id 'g
  | FtsCount index_key nat
  | FtsSearch index_key rust_string nat nat
  | FtsHighlight index_key rust_string "rust_string list" nat
  | FtsStats index_key nat

datatype fts_reply =
    FtsCountReply nat "search_error + nat"
  | FtsSearchReply nat fts_search_answer
  | FtsHighlightReply nat "search_error + rust_string option list"
  | FtsStatsReply nat "search_error + fts_stats"

text \<open>
  What is left of a task: a closure with what it captured. A task that wrote may go on to commit
  and, when that worked, to hand the guards to the reader; a reload reads the metadata, reloads the
  reader and records what it did.
\<close>

datatype 'g fts_job =
    AddJob primary_id rust_string 'g
  | RemoveJob primary_id 'g
  | CommitJob
  | GuardsJob nat "'g list"
  | SearchJob index_key rust_string nat nat
  | HighlightJob rust_string "rust_string list" nat
  | StatsJob nat
  | ReloadJob
  | ReloadReaderJob nat
  | ReloadFinishJob "nat option"

definition then_commit :: "nat \<Rightarrow> nat \<Rightarrow> 'g fts_job option" where
  "then_commit commit_threshold n = (if commit_threshold \<le> n then Some CommitJob else None)"

fun run_fts_job ::
  "('x, 'q) tantivy \<Rightarrow> nat \<Rightarrow> table \<Rightarrow> 'g fts_job \<Rightarrow> ('x, 'g) fts_state \<Rightarrow>
   ('g fts_job option \<times> fts_reply list \<times> ('x, 'g) fts_state) result" where
  "run_fts_job L n t (AddJob p document g) st =
     and_then (handle_add_document L p document g st) (\<lambda>(k, st1). Ok (then_commit n k, [], st1))"
| "run_fts_job L n t (RemoveJob p g) st =
     and_then (handle_remove_document L p g st) (\<lambda>(k, st1). Ok (then_commit n k, [], st1))"
| "run_fts_job L n t CommitJob st =
     (case writer_commit L st of
        (Some (opstamp, guards), st1) \<Rightarrow> Ok (Some (GuardsJob opstamp guards), [], st1)
      | (None, st1) \<Rightarrow> Ok (None, [], st1))"
| "run_fts_job L n t (GuardsJob opstamp guards) st = Ok (None, [], drop_guards_when_searchable opstamp guards st)"
| "run_fts_job L n t (SearchJob key query limit tx) st =
     and_then (handle_search L t key query limit st) (\<lambda>r. Ok (None, [FtsSearchReply tx r], st))"
| "run_fts_job L n t (HighlightJob query documents tx) st =
     and_then (handle_highlight L query documents st) (\<lambda>r. Ok (None, [FtsHighlightReply tx r], st))"
| "run_fts_job L n t (StatsJob tx) st =
     and_then (handle_stats L st) (\<lambda>r. Ok (None, [FtsStatsReply tx r], st))"
| "run_fts_job L n t ReloadJob st =
     Ok (Some (case tv_load_metas L (fx_tantivy st) of Some opstamp \<Rightarrow> ReloadReaderJob opstamp | None \<Rightarrow> ReloadFinishJob None), [], st)"
| "run_fts_job L n t (ReloadReaderJob opstamp) st =
     (case tv_reload L (fx_tantivy st) of (reloaded, x) \<Rightarrow>
        Ok (Some (ReloadFinishJob (if reloaded then Some opstamp else None)), [], st\<lparr>fx_tantivy := x\<rparr>))"
| "run_fts_job L n t (ReloadFinishJob reloaded) st = Ok (None, [], reload_finished reloaded st)"

section \<open>The actor\<close>

text \<open>The map \<open>states\<close> leads to the address of an \<open>Arc\<close>, which tasks keep.\<close>

type_synonym 'g fts_task = "nat \<times> 'g fts_job"

record ('x, 'g) fts_actor =
  fa_states :: "(index_id, nat) btree"
  fa_store :: "('x, 'g) fts_state list"
  fa_allocate_prev :: allocate

record ('x, 'q) fts_params =
  fp_library :: "('x, 'q) tantivy"
  fp_config :: fts_index_configuration
  fp_commit_threshold :: nat
  fp_channel_size :: nat
  fp_num_workers :: nat

definition COMMIT_INTERVAL :: nat where "COMMIT_INTERVAL = 1000000000"
definition MAX_UNCOMMITTED_THRESHOLD :: nat where "MAX_UNCOMMITTED_THRESHOLD = 10000"

definition get_or_create_state ::
  "('x, 'q) fts_params \<Rightarrow> table \<Rightarrow> ('x, 'g) fts_actor \<Rightarrow> nat option \<times> ('x, 'g) fts_actor" where
  "get_or_create_state P t ac =
     (case search_index_id t (fc_key (fp_config P)) of
        None \<Rightarrow> (None, ac)
      | Some index_id \<Rightarrow>
     (case bt_get (fa_states ac) index_id of
        Some a \<Rightarrow> (Some a, ac)
      | None \<Rightarrow>
     (case index_state_build (fp_library P) (fc_analyzer (fp_config P)) (fc_positions (fp_config P)) of
        Inl e \<Rightarrow> (None, ac)
      | Inr st \<Rightarrow>
          let a = length (fa_store ac)
          in (Some a, ac\<lparr>fa_states := bt_insert index_id a (fa_states ac), fa_store := fa_store ac @ [st]\<rparr>))))"

definition get_state :: "table \<Rightarrow> index_key \<Rightarrow> ('x, 'g) fts_actor \<Rightarrow> nat option" where
  "get_state t key ac = Option.bind (search_index_id t key) (bt_get (fa_states ac))"

definition can_allocate_memory :: "allocate \<Rightarrow> allocate \<Rightarrow> bool \<times> allocate" where
  "can_allocate_memory allocate prev = (allocate \<noteq> CannotAllocate, allocate)"

text \<open>
  The branch of a message: the task it sends, what it answers at once, and the guard that goes down
  with a message that is not carried out.
\<close>

fun fts_receive ::
  "('x, 'q) fts_params \<Rightarrow> table \<Rightarrow> allocate \<Rightarrow> 'g fts_index \<Rightarrow> ('x, 'g) fts_actor \<Rightarrow>
   'g fts_task option \<times> fts_reply list \<times> 'g list \<times> ('x, 'g) fts_actor" where
  "fts_receive P t allocate (FtsAddDocument p document g) ac =
     (case get_or_create_state P t ac of
        (None, ac1) \<Rightarrow> (None, [], [g], ac1)
      | (Some a, ac1) \<Rightarrow>
          (case can_allocate_memory allocate (fa_allocate_prev ac1) of (can, prev) \<Rightarrow>
             let ac2 = ac1\<lparr>fa_allocate_prev := prev\<rparr>
             in if can then (Some (a, AddJob p document g), [], [], ac2) else (None, [], [g], ac2)))"
| "fts_receive P t allocate (FtsRemoveDocument p g) ac =
     (case get_or_create_state P t ac of
        (None, ac1) \<Rightarrow> (None, [], [g], ac1)
      | (Some a, ac1) \<Rightarrow> (Some (a, RemoveJob p g), [], [], ac1))"
| "fts_receive P t allocate (FtsCount key tx) ac =
     (None, [FtsCountReply tx (Inr (case get_state t key ac of
         Some a \<Rightarrow> tv_num_docs (fp_library P) (fx_tantivy (fa_store ac ! a)) | None \<Rightarrow> 0))], [], ac)"
| "fts_receive P t allocate (FtsSearch key query limit tx) ac =
     (case get_state t key ac of
        None \<Rightarrow> (None, [FtsSearchReply tx (Inr ([], []))], [], ac)
      | Some a \<Rightarrow> (Some (a, SearchJob key query limit tx), [], [], ac))"
| "fts_receive P t allocate (FtsHighlight key query documents tx) ac =
     (case get_state t key ac of
        None \<Rightarrow> (None, [FtsHighlightReply tx (Inl (OtherError ''fts: missing index''))], [], ac)
      | Some a \<Rightarrow> (Some (a, HighlightJob query documents tx), [], [], ac))"
| "fts_receive P t allocate (FtsStats key tx) ac =
     (case get_state t key ac of
        None \<Rightarrow> (None, [FtsStatsReply tx (Inr fts_stats_default)], [], ac)
      | Some a \<Rightarrow> (Some (a, StatsJob tx), [], [], ac))"

text \<open>The body of the loop of a tick: the task it sends, or a reload it asks for.\<close>

definition tick_state :: "('x, 'g) fts_state \<Rightarrow> 'g fts_job option \<times> ('x, 'g) fts_state" where
  "tick_state st =
     (if has_uncommitted_docs st then (Some CommitJob, st)
      else if needs_reload st then (None, request_reload st)
      else (None, st))"

section \<open>The system\<close>

text \<open>
  Where the actor is: going through the states of a tick, and in \<open>select\<close> when none is left; sending
  a task, and then to go on with the tick. The monitor of items sends its messages in their order,
  \<open>fy_unsent\<close> are those to come; requests come at any time. \<open>fy_refused\<close> collects the guards of the
  messages that were not carried out.
\<close>

datatype 'g fts_pc = FtsTicking "nat list" | FtsSending "'g fts_task" "nat list" | FtsCrashed

record ('x, 'g) fts_system =
  fy_actor :: "('x, 'g) fts_actor"
  fy_pc :: "'g fts_pc"
  fy_unsent :: "'g fts_index list"
  fy_channel :: "'g fts_index list"
  fy_queue :: "'g fts_task list"
  fy_running :: "'g fts_task list"
  fy_replies :: "fts_reply list"
  fy_refused :: "'g list"

definition fts_new :: "'g fts_index list \<Rightarrow> ('x, 'g) fts_system" where
  "fts_new msgs =
     \<lparr>fy_actor = \<lparr>fa_states = [], fa_store = [], fa_allocate_prev = CanAllocate\<rparr>, fy_pc = FtsTicking [],
      fy_unsent = msgs, fy_channel = [], fy_queue = [], fy_running = [], fy_replies = [], fy_refused = []\<rparr>"

definition state_at :: "('x, 'g) fts_system \<Rightarrow> nat \<Rightarrow> ('x, 'g) fts_state" where
  "state_at s a = fa_store (fy_actor s) ! a"

definition set_state :: "nat \<Rightarrow> ('x, 'g) fts_state \<Rightarrow> ('x, 'g) fts_system \<Rightarrow> ('x, 'g) fts_system" where
  "set_state a st s = s\<lparr>fy_actor := (fy_actor s)\<lparr>fa_store := (fa_store (fy_actor s))[a := st]\<rparr>\<rparr>"

definition addresses :: "('x, 'g) fts_system \<Rightarrow> nat" where
  "addresses s = length (fa_store (fy_actor s))"

definition pc_then :: "'g fts_task option \<Rightarrow> nat list \<Rightarrow> 'g fts_pc" where
  "pc_then task rest = (case task of Some tk \<Rightarrow> FtsSending tk rest | None \<Rightarrow> FtsTicking rest)"

fun is_request :: "'g fts_index \<Rightarrow> bool" where
  "is_request (FtsAddDocument p document g) = False"
| "is_request (FtsRemoveDocument p g) = False"
| "is_request _ = True"

text \<open>
  What the environment does: what the memory actor last published, which tables are read, and which
  requests come. The watch of the directory calls back at any time.
\<close>

record 'g fts_env =
  fe_allocate :: "allocate \<Rightarrow> bool"
  fe_table :: "table \<Rightarrow> bool"
  fe_request :: "'g fts_index \<Rightarrow> bool"

text \<open>The steps of the program between two events of its environment.\<close>

inductive fts_internal :: "('x, 'q) fts_params \<Rightarrow> 'g fts_env \<Rightarrow> ('x, 'g) fts_system \<Rightarrow> ('x, 'g) fts_system \<Rightarrow> bool"
  for P E where
  receive:
    "fy_pc s = FtsTicking [] \<Longrightarrow> fy_channel s = msg # msgs \<Longrightarrow> fe_allocate E allocate \<Longrightarrow> fe_table E t \<Longrightarrow>
     fts_receive P t allocate msg (fy_actor s) = (task, replies, refused, ac) \<Longrightarrow>
     fts_internal P E s (s\<lparr>fy_actor := ac, fy_pc := pc_then task [], fy_channel := msgs,
       fy_replies := fy_replies s @ replies, fy_refused := fy_refused s @ refused\<rparr>)"
| tick_next:
    "fy_pc s = FtsTicking (a # rest) \<Longrightarrow> tick_state (state_at s a) = (job, st) \<Longrightarrow>
     fts_internal P E s (set_state a st s\<lparr>fy_pc := pc_then (map_option (Pair a) job) rest\<rparr>)"
| send:
    "fy_pc s = FtsSending tk rest \<Longrightarrow> length (fy_queue s) < fp_channel_size P \<Longrightarrow>
     fts_internal P E s (s\<lparr>fy_queue := fy_queue s @ [tk], fy_pc := FtsTicking rest\<rparr>)"
| reload_changed:
    "a < addresses s \<Longrightarrow> fx_reload_pc (state_at s a) = ReloadWaits \<Longrightarrow> fx_requested (state_at s a) \<Longrightarrow>
     fts_internal P E s (set_state a ((state_at s a)\<lparr>fx_requested := False, fx_reload_pc := ReloadSends\<rparr>) s)"
| reload_send:
    "a < addresses s \<Longrightarrow> fx_reload_pc (state_at s a) = ReloadSends \<Longrightarrow> length (fy_queue s) < fp_channel_size P \<Longrightarrow>
     fts_internal P E s (set_state a ((state_at s a)\<lparr>fx_reload_pc := ReloadRuns\<rparr>) s\<lparr>fy_queue := fy_queue s @ [(a, ReloadJob)]\<rparr>)"
| start_task:
    "fy_queue s = tk # queue \<Longrightarrow> length (fy_running s) < fp_num_workers P \<Longrightarrow>
     fts_internal P E s (s\<lparr>fy_queue := queue, fy_running := fy_running s @ [tk]\<rparr>)"
| run_task:
    "fy_running s = before @ (a, job) # after \<Longrightarrow> fe_table E t \<Longrightarrow>
     run_fts_job (fp_library P) (fp_commit_threshold P) t job (state_at s a) = Ok (rest, replies, st) \<Longrightarrow>
     fts_internal P E s (set_state a st s\<lparr>fy_running := before @ map (Pair a) (case rest of Some job' \<Rightarrow> [job'] | None \<Rightarrow> []) @ after,
       fy_replies := fy_replies s @ replies\<rparr>)"
| task_panics:
    "fy_running s = before @ (a, job) # after \<Longrightarrow> fe_table E t \<Longrightarrow>
     run_fts_job (fp_library P) (fp_commit_threshold P) t job (state_at s a) = Err e \<Longrightarrow>
     fts_internal P E s (s\<lparr>fy_pc := FtsCrashed\<rparr>)"

inductive fts_event :: "'g fts_env \<Rightarrow> ('x, 'g) fts_system \<Rightarrow> ('x, 'g) fts_system \<Rightarrow> bool"
  for E where
  monitor_sends:
    "fy_unsent s = msg # msgs \<Longrightarrow> fts_event E s (s\<lparr>fy_unsent := msgs, fy_channel := fy_channel s @ [msg]\<rparr>)"
| request:
    "fe_request E msg \<Longrightarrow> is_request msg \<Longrightarrow> fts_event E s (s\<lparr>fy_channel := fy_channel s @ [msg]\<rparr>)"
| tick:
    "fy_pc s = FtsTicking [] \<Longrightarrow> fts_event E s (s\<lparr>fy_pc := FtsTicking (map snd (fa_states (fy_actor s)))\<rparr>)"
| watch_calls:
    "a < addresses s \<Longrightarrow> fts_event E s (set_state a (request_reload (state_at s a)) s)"

inductive fts_reachable :: "('x, 'q) fts_params \<Rightarrow> 'g fts_env \<Rightarrow> 'g fts_index list \<Rightarrow> ('x, 'g) fts_system \<Rightarrow> bool"
  for P E msgs where
  start: "fts_reachable P E msgs (fts_new msgs)"
| internal: "fts_reachable P E msgs s \<Longrightarrow> fts_internal P E s s' \<Longrightarrow> fts_reachable P E msgs s'"
| event: "fts_reachable P E msgs s \<Longrightarrow> fts_event E s s' \<Longrightarrow> fts_reachable P E msgs s'"

end
