(* ===== verification/Fts_Guards.thy ===== *)
theory Fts_Guards
  imports Fts_Index "HOL-Library.Multiset"
begin

text \<open>
  What the full-text index relies on of its library, and the guards it holds: every guard is
  accounted for, and those the reader drops are of operations that are searchable.
\<close>

section \<open>The contract of the library\<close>

text \<open>What the library was told to do, in the order it was told; deleting a term deletes what was added before.\<close>

datatype logged = LogDoc tantivy_document | LogTerm nat u64

fun log_step :: "tantivy_document list \<Rightarrow> logged \<Rightarrow> tantivy_document list" where
  "log_step ds (LogDoc d) = ds @ [d]"
| "log_step ds (LogTerm field v) = filter (\<lambda>d. (field, U64Value v) \<notin> set d) ds"

definition documents_of :: "logged list \<Rightarrow> tantivy_document list" where
  "documents_of log = foldl log_step [] log"

text \<open>
  An index as its user sees it: what it was told, the opstamp of its last commit, how much of the
  log the last commit up to an opstamp holds, and how much of it the reader serves.
\<close>

record index_view =
  lv_schema :: schema
  lv_log :: "logged list"
  lv_stamp :: nat
  lv_upto :: "nat \<Rightarrow> nat"
  lv_served :: nat

definition empty_view :: "schema \<Rightarrow> index_view" where
  "empty_view schema = \<lparr>lv_schema = schema, lv_log = [], lv_stamp = 0, lv_upto = (\<lambda>_. 0), lv_served = 0\<rparr>"

definition committed :: "index_view \<Rightarrow> nat" where
  "committed v = lv_upto v (lv_stamp v)"

definition searchable :: "index_view \<Rightarrow> tantivy_document list" where
  "searchable v = documents_of (take (lv_served v) (lv_log v))"

definition commit_view :: "nat \<Rightarrow> index_view \<Rightarrow> index_view" where
  "commit_view opstamp v = v\<lparr>lv_stamp := opstamp, lv_upto := (\<lambda>c. if opstamp \<le> c then length (lv_log v) else lv_upto v c)\<rparr>"

definition reload_view :: "index_view \<Rightarrow> index_view" where
  "reload_view v = v\<lparr>lv_served := committed v\<rparr>"

definition log_view :: "logged \<Rightarrow> index_view \<Rightarrow> index_view" where
  "log_view l v = v\<lparr>lv_log := lv_log v @ [l]\<rparr>"

text \<open>
  Operations and commits take effect or fail as a whole; opstamps grow from commit to commit;
  the metadata is that of the last commit, and a reader that reloads serves the last commit.
\<close>

definition writer_ok :: "('x, 'q) tantivy \<Rightarrow> ('x \<Rightarrow> index_view) \<Rightarrow> bool" where
  "writer_ok L V \<longleftrightarrow>
     (\<forall>d x. V (snd (tv_add_document L d x)) = (if fst (tv_add_document L d x) then log_view (LogDoc d) (V x) else V x)) \<and>
     (\<forall>field v x. V (tv_delete_term L field v x) = log_view (LogTerm field v) (V x)) \<and>
     (\<forall>x. case tv_commit L x of
            (None, x') \<Rightarrow> V x' = V x
          | (Some opstamp, x') \<Rightarrow> V x' = commit_view opstamp (V x) \<and> (lv_log (V x) \<noteq> [] \<longrightarrow> lv_stamp (V x) < opstamp))"

definition reader_ok :: "('x, 'q) tantivy \<Rightarrow> ('x \<Rightarrow> index_view) \<Rightarrow> bool" where
  "reader_ok L V \<longleftrightarrow>
     (\<forall>x opstamp. tv_load_metas L x = Some opstamp \<longrightarrow> opstamp = lv_stamp (V x)) \<and>
     (\<forall>x. V (snd (tv_reload L x)) = (if fst (tv_reload L x) then reload_view (V x) else V x)) \<and>
     (\<forall>x. tv_num_docs L x = length (searchable (V x)))"

definition create_ok :: "('x, 'q) tantivy \<Rightarrow> ('x \<Rightarrow> index_view) \<Rightarrow> bool" where
  "create_ok L V \<longleftrightarrow>
     (\<forall>schema name pipeline. V (tv_create L schema name pipeline) = empty_view schema) \<and>
     (\<forall>x x'. tv_open_reader L x = Some x' \<or> tv_watch L x = Some x' \<or> tv_open_writer L x = Some x' \<longrightarrow> V x' = V x)"

text \<open>A search returns at most as many documents as asked for, and none twice; the column holds their identifiers.\<close>

definition search_ok :: "('x, 'q) tantivy \<Rightarrow> ('x \<Rightarrow> index_view) \<Rightarrow> bool" where
  "search_ok L V \<longleftrightarrow>
     (\<forall>query n x hits. tv_search L query n x = Some hits \<longrightarrow> length hits \<le> n \<and> distinct (map snd hits) \<and>
        (\<forall>score segment doc column raw_id. (score, segment, doc) \<in> set hits \<longrightarrow>
           tv_fast_column L segment ''primary_id'' x = Some column \<longrightarrow> column doc = Some raw_id \<longrightarrow>
           (\<exists>d\<in>set (searchable (V x)). \<exists>field. get_field (lv_schema (V x)) ''primary_id'' = Ok field \<and> (field, U64Value raw_id) \<in> set d)))"

definition tantivy_ok :: "('x, 'q) tantivy \<Rightarrow> ('x \<Rightarrow> index_view) \<Rightarrow> bool" where
  "tantivy_ok L V \<longleftrightarrow> writer_ok L V \<and> reader_ok L V \<and> create_ok L V \<and> search_ok L V"

text \<open>The document and the term of an identifier.\<close>

definition doc_of :: "primary_id \<Rightarrow> rust_string \<Rightarrow> tantivy_document" where
  "doc_of p document = [(0, U64Value (primary_raw p)), (1, TextValue document)]"

definition term_of :: "primary_id \<Rightarrow> logged" where
  "term_of p = LogTerm 0 (primary_raw p)"

lemma get_field_built [simp]:
  "get_field (build_schema tokenizer positions) ''primary_id'' = Ok 0"
  "get_field (build_schema tokenizer positions) ''text'' = Ok 1"
  by (simp_all add: build_schema_def)

lemma create_doc_built [simp]: "create_doc (build_schema tokenizer positions) p document = Ok (doc_of p document)"
  by (simp add: create_doc_def doc_of_def)

lemma create_term_built [simp]: "create_term (build_schema tokenizer positions) p = Ok (0, primary_raw p)"
  by (simp add: create_term_def)

lemma documents_of_snoc [simp]: "documents_of (log @ [l]) = log_step (documents_of log) l"
  by (simp add: documents_of_def)

lemma view_simps [simp]:
  "lv_schema (commit_view c v) = lv_schema v" "lv_log (commit_view c v) = lv_log v" "lv_stamp (commit_view c v) = c"
  "lv_upto (commit_view c v) = (\<lambda>c'. if c \<le> c' then length (lv_log v) else lv_upto v c')" "lv_served (commit_view c v) = lv_served v"
  "lv_schema (reload_view v) = lv_schema v" "lv_log (reload_view v) = lv_log v" "lv_stamp (reload_view v) = lv_stamp v"
  "lv_upto (reload_view v) = lv_upto v" "lv_served (reload_view v) = committed v"
  "lv_schema (log_view l v) = lv_schema v" "lv_log (log_view l v) = lv_log v @ [l]" "lv_stamp (log_view l v) = lv_stamp v"
  "lv_upto (log_view l v) = lv_upto v" "lv_served (log_view l v) = lv_served v"
  "committed (commit_view c v) = length (lv_log v)" "committed (reload_view v) = committed v"
  "committed (log_view l v) = committed v"
  by (simp_all add: commit_view_def reload_view_def log_view_def committed_def)

section \<open>The guards of an index\<close>

text \<open>The operation a message, a task or a guard is about; a guard is named by what it guards.\<close>

fun job_op :: "'g fts_job \<Rightarrow> (logged \<times> 'g) option" where
  "job_op (AddJob p document g) = Some (LogDoc (doc_of p document), g)"
| "job_op (RemoveJob p g) = Some (term_of p, g)"
| "job_op _ = None"

fun message_op :: "'g fts_index \<Rightarrow> (logged \<times> 'g) option" where
  "message_op (FtsAddDocument p document g) = Some (LogDoc (doc_of p document), g)"
| "message_op (FtsRemoveDocument p g) = Some (term_of p, g)"
| "message_op _ = None"

definition named :: "('g \<Rightarrow> logged) \<Rightarrow> (logged \<times> 'g) option \<Rightarrow> bool" where
  "named op_of r \<longleftrightarrow> (case r of None \<Rightarrow> True | Some (l, g) \<Rightarrow> op_of g = l)"

lemma named_None [simp]: "named op_of None"
  by (simp add: named_def)

fun guards_entry :: "'g fts_job \<Rightarrow> (nat \<times> 'g list) multiset" where
  "guards_entry (GuardsJob c gs) = {#(c, gs)#}"
| "guards_entry _ = {#}"

text \<open>Committed guards by their commit: with the reader, or on their way to it.\<close>

definition entries :: "('x, 'g) fts_state \<Rightarrow> 'g fts_job multiset \<Rightarrow> (nat \<times> 'g list) multiset" where
  "entries st js = mset (fx_unsearchable st) + \<Sum>\<^sub># (image_mset guards_entry js)"

definition entry_guards :: "(nat \<times> 'g list) multiset \<Rightarrow> 'g multiset" where
  "entry_guards E = \<Sum>\<^sub># (image_mset (\<lambda>e. mset (snd e)) E)"

fun is_reload :: "'g fts_job \<Rightarrow> bool" where
  "is_reload ReloadJob = True"
| "is_reload (ReloadReaderJob c) = True"
| "is_reload (ReloadFinishJob r) = True"
| "is_reload _ = False"

fun reload_opstamp :: "'g fts_job \<Rightarrow> nat option" where
  "reload_opstamp (ReloadReaderJob c) = Some c"
| "reload_opstamp (ReloadFinishJob r) = r"
| "reload_opstamp _ = None"

text \<open>What a task in flight may rely on.\<close>

fun job_ok :: "('g \<Rightarrow> logged) \<Rightarrow> index_view \<Rightarrow> 'g fts_job \<Rightarrow> bool" where
  "job_ok op_of v CommitJob \<longleftrightarrow> lv_log v \<noteq> []"
| "job_ok op_of v (ReloadReaderJob c) \<longleftrightarrow> c \<le> lv_stamp v"
| "job_ok op_of v (ReloadFinishJob (Some c)) \<longleftrightarrow> c \<le> lv_stamp v \<and> lv_upto v c \<le> lv_served v"
| "job_ok op_of v job \<longleftrightarrow> named op_of (job_op job)"

text \<open>An entry holds guards of operations that its commit holds.\<close>

definition entry_ok :: "('g \<Rightarrow> logged) \<Rightarrow> index_view \<Rightarrow> nat \<times> 'g list \<Rightarrow> bool" where
  "entry_ok op_of v e \<longleftrightarrow> fst e \<le> lv_stamp v \<and> op_of ` set (snd e) \<subseteq> set (take (lv_upto v (fst e)) (lv_log v))"

definition commits_ok :: "index_view \<Rightarrow> bool" where
  "commits_ok v \<longleftrightarrow> mono (lv_upto v) \<and> (\<forall>c. lv_upto v c \<le> committed v) \<and> committed v \<le> length (lv_log v) \<and>
     lv_served v \<le> committed v"

definition guards_inv ::
  "fts_index_configuration \<Rightarrow> ('g \<Rightarrow> logged) \<Rightarrow> index_view \<Rightarrow> ('x, 'g) fts_state \<Rightarrow> 'g fts_job multiset \<Rightarrow> bool" where
  "guards_inv config op_of v st js \<longleftrightarrow>
     fx_schema st = build_schema (analyzer_name (fc_analyzer config)) (fc_positions config) \<and> lv_schema v = fx_schema st \<and>
     commits_ok v \<and>
     map op_of (fx_uncommitted st) = drop (committed v) (lv_log v) \<and>
     image_mset op_of (mset (fx_dropped st) + entry_guards (entries st js)) = mset (take (committed v) (lv_log v)) \<and>
     (\<forall>e\<in>#entries st js. entry_ok op_of v e) \<and>
     (\<forall>c. count (image_mset fst (entries st js)) c \<le> 1) \<and>
     (fx_reloaded st = lv_stamp v \<or> lv_stamp v \<in># image_mset fst (entries st js)) \<and>
     (\<forall>job\<in>#js. \<forall>c. reload_opstamp job = Some c \<longrightarrow> fx_reloaded st \<le> c) \<and>
     fx_reloaded st \<le> lv_stamp v \<and> lv_upto v (fx_reloaded st) \<le> lv_served v \<and>
     op_of ` set (fx_dropped st) \<subseteq> set (take (lv_served v) (lv_log v)) \<and>
     (\<forall>job\<in>#js. job_ok op_of v job) \<and>
     size (filter_mset is_reload js) = of_bool (fx_reload_pc st = ReloadRuns)"

lemma upto_served: "commits_ok v \<Longrightarrow> c \<le> c' \<Longrightarrow> lv_upto v c' \<le> lv_served v \<Longrightarrow> lv_upto v c \<le> lv_served v"
  using monoD [of "lv_upto v" c c'] by (simp add: commits_ok_def)

lemma guards_invD:
  assumes "guards_inv config op_of v st js"
  shows "fx_schema st = build_schema (analyzer_name (fc_analyzer config)) (fc_positions config)" "lv_schema v = fx_schema st"
    and "commits_ok v" and "map op_of (fx_uncommitted st) = drop (committed v) (lv_log v)"
    and "image_mset op_of (mset (fx_dropped st) + entry_guards (entries st js)) = mset (take (committed v) (lv_log v))"
    and "e \<in># entries st js \<Longrightarrow> entry_ok op_of v e" and "count (image_mset fst (entries st js)) c \<le> 1"
    and "fx_reloaded st \<le> lv_stamp v" and "lv_upto v (fx_reloaded st) \<le> lv_served v"
    and "op_of ` set (fx_dropped st) \<subseteq> set (take (lv_served v) (lv_log v))"
    and "job \<in># js \<Longrightarrow> job_ok op_of v job" and "size (filter_mset is_reload js) = of_bool (fx_reload_pc st = ReloadRuns)"
    and "fx_reloaded st = lv_stamp v \<or> lv_stamp v \<in># image_mset fst (entries st js)"
    and "job \<in># js \<Longrightarrow> reload_opstamp job = Some c \<Longrightarrow> fx_reloaded st \<le> c"
  using assms by (auto simp: guards_inv_def)

lemma entries_simps [simp]:
  "entries st (add_mset job js) = guards_entry job + entries st js"
  "entries st (js + js') = entries st js + \<Sum>\<^sub># (image_mset guards_entry js')"
  "entry_guards (E + E') = entry_guards E + entry_guards E'"
  "entry_guards {#} = {#}" "entry_guards (add_mset e E) = mset (snd e) + entry_guards E"
  by (simp_all add: entries_def entry_guards_def)

lemma entries_cong: "fx_unsearchable st' = fx_unsearchable st \<Longrightarrow> entries st' js = entries st js"
  by (simp add: entries_def)

text \<open>A task that holds no committed guards and is no reload comes and goes.\<close>

lemma reload_opstamp_reload: "reload_opstamp job = Some c \<Longrightarrow> is_reload job"
  by (cases job) simp_all

lemma guards_inv_plain:
  assumes "guards_entry job = {#}" and "\<not> is_reload job"
  shows "guards_inv config op_of v st (add_mset job js) \<longleftrightarrow> guards_inv config op_of v st js \<and> job_ok op_of v job"
  using assms reload_opstamp_reload [of job] by (auto simp: guards_inv_def)

text \<open>An invariant of what a step does not change.\<close>

lemma guards_inv_frame:
  assumes "guards_inv config op_of v st js"
    and "fx_schema st' = fx_schema st" "fx_uncommitted st' = fx_uncommitted st" "fx_unsearchable st' = fx_unsearchable st"
      "fx_reloaded st' = fx_reloaded st" "fx_dropped st' = fx_dropped st"
      "(fx_reload_pc st' = ReloadRuns) = (fx_reload_pc st = ReloadRuns)"
  shows "guards_inv config op_of v st' js"
  using assms entries_cong [of st' st js] by (simp add: guards_inv_def)

lemma set_take_mono: "n \<le> m \<Longrightarrow> set (take n xs) \<subseteq> set (take m xs)"
  by (rule set_take_subset_set_take)

lemma job_ok_log: "job_ok op_of v job \<Longrightarrow> job_ok op_of (log_view l v) job"
  by (cases "(op_of, v, job)" rule: job_ok.cases) auto

lemma guards_inv_log:
  assumes inv: "guards_inv config op_of v st js" and "op_of g = l"
  shows "guards_inv config op_of (log_view l v) (st\<lparr>fx_tantivy := x, fx_uncommitted := fx_uncommitted st @ [g]\<rparr>) js"
proof -
  note I = guards_invD [OF inv]
  have c: "committed v \<le> length (lv_log v)" "lv_served v \<le> length (lv_log v)" "\<And>c. lv_upto v c \<le> length (lv_log v)"
    using I(3) order_trans by (auto simp: commits_ok_def)
  have "entry_ok op_of (log_view l v) e" if "entry_ok op_of v e" for e
    using that c(3) [of "fst e"] by (simp add: entry_ok_def)
  then show ?thesis
    using inv c assms(2) job_ok_log [of op_of v _ l] entries_cong [of "st\<lparr>fx_tantivy := x, fx_uncommitted := fx_uncommitted st @ [g]\<rparr>" st js]
    by (simp add: guards_inv_def commits_ok_def)
qed

lemma job_ok_commit: "job_ok op_of v job \<Longrightarrow> lv_stamp v < c \<Longrightarrow> job_ok op_of (commit_view c v) job"
  by (cases "(op_of, v, job)" rule: job_ok.cases) auto

lemma guards_inv_commit:
  assumes inv: "guards_inv config op_of v st js" and c: "lv_stamp v < c"
  shows "guards_inv config op_of (commit_view c v) (st\<lparr>fx_tantivy := x, fx_uncommitted := []\<rparr>) (add_mset (GuardsJob c (fx_uncommitted st)) js)"
    (is "guards_inv _ _ ?v ?st _")
proof -
  note I = guards_invD [OF inv]
  let ?log = "lv_log v" and ?k = "committed v"
  have unc: "map op_of (fx_uncommitted st) = drop ?k ?log" by (rule I(4))
  have entries: "entries ?st js = entries st js" by (rule entries_cong) simp
  have "image_mset op_of (mset (fx_dropped st) + entry_guards (entries st js)) + image_mset op_of (mset (fx_uncommitted st)) = mset ?log"
    unfolding I(5) by (metis append_take_drop_id mset_append mset_map unc)
  then have all: "image_mset op_of (mset (fx_dropped st)) + (image_mset op_of (mset (fx_uncommitted st)) + image_mset op_of (entry_guards (entries st js))) =
      mset ?log"
    by (simp add: ac_simps)
  have old: "fst e \<le> lv_stamp v" if "e \<in># entries st js" for e
    using I(6) [OF that] by (simp add: entry_ok_def)
  then have fresh: "count (image_mset fst (entries st js)) c = 0"
    using c by (force simp: count_eq_zero_iff)
  have "entry_ok op_of ?v e" if "e \<in># entries st js" for e
    using I(6) [OF that] c by (auto simp: entry_ok_def)
  moreover have "entry_ok op_of ?v (c, fx_uncommitted st)"
  proof -
    have "op_of ` set (fx_uncommitted st) = set (drop ?k ?log)" by (metis set_map unc)
    then show ?thesis by (auto simp: entry_ok_def dest: in_set_dropD)
  qed
  moreover have "commits_ok ?v"
    using I(3) c by (auto simp: commits_ok_def mono_def intro: order_trans)
  moreover have "lv_upto ?v (fx_reloaded st) \<le> lv_served ?v"
    using I(8,9) c by auto
  moreover have "count (image_mset fst (add_mset (c, fx_uncommitted st) (entries st js))) c' \<le> 1" for c'
    using I(7) [of c'] fresh by (cases "c' = c") simp_all
  ultimately show ?thesis
    using I(1,2,10,12,14) all entries job_ok_commit [OF I(11) c] order_trans [OF I(8) less_imp_le [OF c]]
    by (simp add: guards_inv_def)
qed

lemma bt_insert_new: "k \<notin> fst ` set m \<Longrightarrow> mset (bt_insert k v m) = add_mset (k, v) (mset m)"
  by (induction k v m rule: bt_insert.induct) auto

lemma guards_inv_hand_over:
  assumes inv: "guards_inv config op_of v st (add_mset (GuardsJob c gs) js)"
  shows "guards_inv config op_of v (drop_guards_when_searchable c gs st) js"
proof (cases "fx_reloaded st < c")
  case True
  note I = guards_invD [OF inv]
  have "count (image_mset fst (entries st js)) c = 0"
    using I(7) [of c] by simp
  then have new: "c \<notin> fst ` set (fx_unsearchable st)"
    by (force simp: entries_def count_eq_zero_iff)
  then have "bt_get (fx_unsearchable st) c = None"
    by (simp add: bt_get_def map_of_eq_None_iff)
  then have st: "drop_guards_when_searchable c gs st = st\<lparr>fx_unsearchable := bt_insert c gs (fx_unsearchable st)\<rparr>"
    using True by (simp add: drop_guards_when_searchable_def)
  have "entries (st\<lparr>fx_unsearchable := bt_insert c gs (fx_unsearchable st)\<rparr>) js = entries st (add_mset (GuardsJob c gs) js)"
    by (simp add: entries_def bt_insert_new [OF new])
  then show ?thesis
    using inv unfolding st by (simp add: guards_inv_def)
next
  case False
  note I = guards_invD [OF inv]
  have "entry_ok op_of v (c, gs)" using I(6) [of "(c, gs)"] by simp
  then have "op_of ` set gs \<subseteq> set (take (lv_upto v c) (lv_log v))" by (simp add: entry_ok_def)
  also have "\<dots> \<subseteq> set (take (lv_served v) (lv_log v))"
    using upto_served [OF I(3) _ I(9)] False by (intro set_take_mono) simp
  finally have "op_of ` set gs \<subseteq> set (take (lv_served v) (lv_log v))" .
  moreover have "count (image_mset fst (entries st js)) c' \<le> 1" for c'
    using I(7) [of c'] by (simp split: if_splits)
  moreover have "entries (st\<lparr>fx_dropped := fx_dropped st @ gs\<rparr>) js = entries st js"
    by (rule entries_cong) simp
  ultimately show ?thesis
    using inv False unfolding drop_guards_when_searchable_def by (auto simp: guards_inv_def ac_simps image_Un)
qed

lemma guards_inv_reload_start:
  assumes "guards_inv config op_of v st (add_mset ReloadJob js)" and "job_ok op_of v job" and "is_reload job"
    and "\<And>c. reload_opstamp job = Some c \<Longrightarrow> fx_reloaded st \<le> c"
  shows "guards_inv config op_of v st (add_mset job js)"
proof -
  have "guards_entry job = {#}" using assms(3) by (cases job) simp_all
  then show ?thesis using assms by (simp add: guards_inv_def)
qed

lemma job_ok_reload: "job_ok op_of v job \<Longrightarrow> lv_served v \<le> committed v \<Longrightarrow> job_ok op_of (reload_view v) job"
  by (cases "(op_of, v, job)" rule: job_ok.cases) auto

lemma guards_inv_reload_reader:
  assumes inv: "guards_inv config op_of v st (add_mset (ReloadReaderJob c) js)"
  shows "guards_inv config op_of (reload_view v) (st\<lparr>fx_tantivy := x\<rparr>) (add_mset (ReloadFinishJob (Some c)) js)"
proof -
  note I = guards_invD [OF inv]
  have served: "lv_served v \<le> committed v" "\<And>c. lv_upto v c \<le> committed v" using I(3) by (auto simp: commits_ok_def)
  have "set (take (lv_served v) (lv_log v)) \<subseteq> set (take (committed v) (lv_log v))"
    by (rule set_take_mono [OF served(1)])
  moreover have "entry_ok op_of (reload_view v) e" if "entry_ok op_of v e" for e
    using that by (simp add: entry_ok_def)
  moreover have "c \<le> lv_stamp v" using I(11) [of "ReloadReaderJob c"] by simp
  moreover have "entries (st\<lparr>fx_tantivy := x\<rparr>) js = entries st js" by (rule entries_cong) simp
  ultimately show ?thesis
    using inv served job_ok_reload [OF _ served(1), of op_of] by (auto simp: guards_inv_def commits_ok_def)
qed

lemma guards_inv_reload_failed:
  assumes "guards_inv config op_of v st (add_mset (ReloadReaderJob c) js)"
  shows "guards_inv config op_of v (st\<lparr>fx_tantivy := x\<rparr>) (add_mset (ReloadFinishJob None) js)"
  using assms entries_cong [of "st\<lparr>fx_tantivy := x\<rparr>" st js] by (simp add: guards_inv_def named_def)

lemma mset_concat_snd: "mset (concat (map snd m)) = entry_guards (mset m)"
  by (induction m) simp_all

lemma no_other_reload:
  assumes "guards_inv config op_of v st (add_mset job js)" and "is_reload job"
  shows "filter_mset is_reload js = {#}"
  using guards_invD(12) [OF assms(1)] assms(2) by (simp add: of_bool_def del: filter_mset_eq_conv split: if_splits)

lemma no_other_opstamp:
  "guards_inv config op_of v st (add_mset job js) \<Longrightarrow> is_reload job \<Longrightarrow> job' \<in># js \<Longrightarrow> reload_opstamp job' = None"
  using no_other_reload [of config op_of v st job js] reload_opstamp_reload [of job'] by (cases "reload_opstamp job'") auto

lemma guards_inv_reload_finish:
  assumes inv: "guards_inv config op_of v st (add_mset (ReloadFinishJob r) js)"
  shows "guards_inv config op_of v (reload_finished r st) js"
proof (cases r)
  case None
  let ?st = "st\<lparr>fx_reload_failed := True, fx_reload_pc := ReloadWaits\<rparr>"
  have same: "entries ?st js = entries st (add_mset (ReloadFinishJob r) js)"
    by (simp add: entries_def)
  have others: "job \<in># add_mset (ReloadFinishJob r) js" if "job \<in># js" for job
    using that by simp
  have st: "reload_finished r st = ?st" by (simp add: None reload_finished_def)
  note I = guards_invD [OF inv, folded same]
  show ?thesis
    unfolding guards_inv_def st
    using I(1-10,13) I(11,14) [OF others] no_other_reload [OF inv] by simp
next
  case (Some c)
  note I = guards_invD [OF inv]
  let ?keep = "filter (\<lambda>(committed, _). c < committed) (fx_unsearchable st)"
    and ?gone = "filter (\<lambda>(committed, _). \<not> c < committed) (fx_unsearchable st)"
  let ?jobs = "\<Sum>\<^sub># (image_mset guards_entry js)"
  have st: "entries (reload_finished r st) js = mset ?keep + ?jobs"
    by (simp add: entries_def Some reload_finished_def)
  have old: "entries st (add_mset (ReloadFinishJob r) js) = mset (fx_unsearchable st) + ?jobs"
    by (simp add: entries_def)
  note I = I [unfolded old]
  have split: "mset (fx_unsearchable st) = mset ?keep + mset ?gone"
    using multiset_partition [of "mset (fx_unsearchable st)" "\<lambda>(committed, _). c < committed"] by (simp add: case_prod_unfold)
  have c: "c \<le> lv_stamp v" "lv_upto v c \<le> lv_served v"
    using I(11) [of "ReloadFinishJob r"] by (simp_all add: Some)
  have gone: "op_of ` set (concat (map snd ?gone)) \<subseteq> set (take (lv_served v) (lv_log v))"
  proof -
    have "op_of ` set gs \<subseteq> set (take (lv_served v) (lv_log v))" if e: "(c', gs) \<in> set (fx_unsearchable st)" "\<not> c < c'" for c' gs
    proof -
      have "entry_ok op_of v (c', gs)" using I(6) [of "(c', gs)"] e(1) by simp
      moreover have "lv_upto v c' \<le> lv_served v"
        using upto_served [OF I(3) _ c(2)] e(2) by simp
      ultimately show ?thesis using set_take_mono by (fastforce simp: entry_ok_def)
    qed
    then show ?thesis by fastforce
  qed
  have "image_mset op_of (mset (fx_dropped st @ concat (map snd ?gone)) + entry_guards (mset ?keep + ?jobs)) =
      mset (take (committed v) (lv_log v))"
    using I(5) unfolding split by (simp add: mset_concat_snd ac_simps del: mset_filter mset_concat)
  moreover have "fx_reloaded st \<le> c" using I(14) [of "ReloadFinishJob r" c] by (simp add: Some)
  then have latest: "c = lv_stamp v \<or> lv_stamp v \<in># image_mset fst (mset ?keep + ?jobs)"
    using I(13) c(1) by (fastforce simp: order_antisym)
  moreover have "count (image_mset fst (mset ?keep + ?jobs)) c' \<le> 1" for c'
    using I(7) [of c'] unfolding split by (simp del: mset_filter)
  moreover have "entry_ok op_of v e" if "e \<in># mset ?keep + ?jobs" for e
    using I(6) [of e] that by auto
  ultimately show ?thesis
    using I(1-4,10-12) c gone no_other_reload [OF inv] no_other_opstamp [OF inv] latest unfolding guards_inv_def st
    by (simp add: Some reload_finished_def image_Un)
qed

section \<open>A task\<close>

lemma find_fts_partition_ok: "\<exists>r. answered (find_partition_id t key) = Ok r"
proof -
  have "\<exists>found. search_partition_id t key None = Ok found"
    by (simp add: search_partition_id_def split: option.splits index_data.splits)
  then obtain found where "search_partition_id t key None = Ok found" ..
  then show ?thesis by (cases found) (simp_all add: find_partition_id_def split: prod.split)
qed

lemma hit_id_no_panic: "no_panic (hit_id L x hit)"
  by (auto simp: hit_id_def split: prod.split intro!: no_panic_and_then)

lemma answered_no_panic: "no_panic r \<Longrightarrow> \<exists>a. answered r = Ok a"
  by (cases r rule: answered.cases) auto

lemma answer_then_ok: "\<exists>a. r = Ok a \<Longrightarrow> (\<And>x. \<exists>b. f x = Ok b) \<Longrightarrow> \<exists>b. answer_then r f = Ok b"
  by (cases "(r, f)" rule: answer_then.cases) auto

lemma answered_ok_or: "\<exists>a. answered (ok_or o1 (Bail msg)) = Ok a"
  by (rule answered_no_panic) simp

lemma handle_search_ok:
  assumes "fx_schema st = build_schema tokenizer positions"
  shows "\<exists>r. handle_search L t key query limit st = Ok r"
proof -
  have "\<exists>r. answered (collect_result (hit_id L (fx_tantivy st)) hits) = Ok r" for hits
    by (intro answered_no_panic collect_no_panic hit_id_no_panic)
  then show ?thesis
    using find_fts_partition_ok [of t key]
    by (auto simp: handle_search_def assms make_query_def Let_def intro!: answer_then_ok answered_ok_or)
qed

lemma handle_highlight_ok:
  assumes "fx_schema st = build_schema tokenizer positions"
  shows "\<exists>r. handle_highlight L query documents st = Ok r"
  by (auto simp: handle_highlight_def assms make_query_def intro!: answer_then_ok answered_ok_or)

lemma handle_stats_ok: "\<exists>r. handle_stats L st = Ok r"
  unfolding handle_stats_def by (intro answer_then_ok answered_no_panic) auto

definition option_mset :: "'a option \<Rightarrow> 'a multiset" where
  "option_mset r = (case r of Some x \<Rightarrow> {#x#} | None \<Rightarrow> {#})"

lemma option_mset_simps [simp]: "option_mset None = {#}" "option_mset (Some x) = {#x#}"
  by (simp_all add: option_mset_def)

text \<open>All guards in a state, and in a task.\<close>

definition state_guards :: "('x, 'g) fts_state \<Rightarrow> 'g multiset" where
  "state_guards st = mset (fx_uncommitted st @ fx_dropped st @ fx_failed st) + entry_guards (mset (fx_unsearchable st))"

fun job_guards :: "'g fts_job \<Rightarrow> 'g multiset" where
  "job_guards (AddJob p document g) = {#g#}"
| "job_guards (RemoveJob p g) = {#g#}"
| "job_guards (GuardsJob c gs) = mset gs"
| "job_guards _ = {#}"

text \<open>What a step of a task keeps: the invariant, and every guard.\<close>

definition step_ok ::
  "('x \<Rightarrow> index_view) \<Rightarrow> fts_index_configuration \<Rightarrow> ('g \<Rightarrow> logged) \<Rightarrow> ('x, 'g) fts_state \<Rightarrow> 'g fts_job \<Rightarrow> 'g fts_job multiset \<Rightarrow>
   'g fts_job option \<Rightarrow> ('x, 'g) fts_state \<Rightarrow> bool" where
  "step_ok V config op_of st job js rest st' \<longleftrightarrow>
     guards_inv config op_of (V (fx_tantivy st')) st' (js + option_mset rest) \<and>
     state_guards st' + \<Sum>\<^sub># (image_mset job_guards (option_mset rest)) = state_guards st + job_guards job"

lemma then_commit_mset:
  assumes "guards_inv config op_of v st js" and "0 < n" and "k = length (fx_uncommitted st)"
  shows "guards_inv config op_of v st (js + option_mset (then_commit n k))"
proof (cases "n \<le> k")
  case True
  then have "fx_uncommitted st \<noteq> []" using assms(2,3) by auto
  then have "lv_log v \<noteq> []" using guards_invD(4) [OF assms(1)] by auto
  then show ?thesis using assms(1) by (simp add: then_commit_def guards_inv_plain)
qed (use assms(1) in \<open>simp add: then_commit_def\<close>)

lemma then_commit_guards [simp]: "\<forall>job\<in>#option_mset (then_commit n k). job_guards job = {#}"
  by (simp add: then_commit_def)

lemma drop_guards_keeps:
  assumes inv: "guards_inv config op_of v st (add_mset (GuardsJob c gs) js)"
  shows "state_guards (drop_guards_when_searchable c gs st) = state_guards st + mset gs"
proof -
  have "count (image_mset fst (entries st js)) c = 0" using guards_invD(7) [OF inv, of c] by simp
  then have new: "c \<notin> fst ` set (fx_unsearchable st)" by (force simp: entries_def count_eq_zero_iff)
  then have "bt_get (fx_unsearchable st) c = None" by (simp add: bt_get_def map_of_eq_None_iff)
  then show ?thesis
    by (simp add: drop_guards_when_searchable_def state_guards_def bt_insert_new [OF new])
qed

lemma reload_finished_keeps: "state_guards (reload_finished r st) = state_guards st"
proof (cases r)
  case (Some c)
  have "mset (fx_unsearchable st) = mset (filter (\<lambda>(committed, _). c < committed) (fx_unsearchable st)) +
      mset (filter (\<lambda>(committed, _). \<not> c < committed) (fx_unsearchable st))"
    using multiset_partition [of "mset (fx_unsearchable st)" "\<lambda>(committed, _). c < committed"] by (simp add: case_prod_unfold)
  then show ?thesis
    by (simp add: Some reload_finished_def state_guards_def mset_concat_snd ac_simps del: mset_filter mset_concat)
qed (simp add: reload_finished_def state_guards_def)

lemma run_fts_ok:
  assumes ok: "tantivy_ok L V" and inv: "guards_inv config op_of (V (fx_tantivy st)) st (add_mset job js)" and n: "0 < n"
  shows "\<exists>rest replies st'. run_fts_job L n t job st = Ok (rest, replies, st') \<and> step_ok V config op_of st job js rest st'"
proof -
  let ?x = "fx_tantivy st"
  note schema = guards_invD(1) [OF inv]
  have W: "writer_ok L V" and R: "reader_ok L V" using ok by (auto simp: tantivy_ok_def)
  have plain: "guards_inv config op_of (V ?x) st js" "job_ok op_of (V ?x) job" if "guards_entry job = {#}" "\<not> is_reload job"
    using inv that by (auto simp: guards_inv_plain)
  show ?thesis
  proof (cases job)
    case (AddJob p document g)
    obtain added x where add: "tv_add_document L (doc_of p document) ?x = (added, x)" by fastforce
    have V: "V x = (if added then log_view (LogDoc (doc_of p document)) (V ?x) else V ?x)"
      using W add by (metis fst_conv snd_conv writer_ok_def)
    have js: "guards_inv config op_of (V ?x) st js" "op_of g = LogDoc (doc_of p document)"
      using plain AddJob by (simp_all add: named_def)
    show ?thesis
    proof (cases added)
      case True
      let ?st = "st\<lparr>fx_tantivy := x, fx_uncommitted := fx_uncommitted st @ [g]\<rparr>"
      have "guards_inv config op_of (V x) ?st js" using guards_inv_log [OF js] True by (simp add: V)
      from then_commit_mset [OF this n] show ?thesis
        by (simp add: AddJob handle_add_document_def schema writer_add_document_def add True uncommitted_docs_def step_ok_def state_guards_def Let_def)
    next
      case False
      let ?st = "st\<lparr>fx_tantivy := x, fx_failed := fx_failed st @ [g]\<rparr>"
      have "guards_inv config op_of (V x) ?st js" using guards_inv_frame [OF js(1), of ?st] False by (simp add: V)
      from then_commit_mset [OF this n] show ?thesis
        by (simp add: AddJob handle_add_document_def schema writer_add_document_def add False uncommitted_docs_def step_ok_def state_guards_def Let_def)
    qed
  next
    case (RemoveJob p g)
    let ?x' = "tv_delete_term L 0 (primary_raw p) ?x"
    let ?st = "st\<lparr>fx_tantivy := ?x', fx_uncommitted := fx_uncommitted st @ [g]\<rparr>"
    have V: "V ?x' = log_view (term_of p) (V ?x)" using W by (simp add: writer_ok_def term_of_def)
    have "guards_inv config op_of (V ?x') ?st js"
      using guards_inv_log [of config op_of "V ?x" st js g "term_of p" ?x'] plain RemoveJob V by (simp add: named_def)
    from then_commit_mset [OF this n] show ?thesis
      by (simp add: RemoveJob handle_remove_document_def schema writer_rm_document_def uncommitted_docs_def step_ok_def state_guards_def Let_def)
  next
    case CommitJob
    obtain r x where commit: "tv_commit L ?x = (r, x)" by fastforce
    have V: "case r of None \<Rightarrow> V x = V ?x
        | Some c \<Rightarrow> V x = commit_view c (V ?x) \<and> (lv_log (V ?x) \<noteq> [] \<longrightarrow> lv_stamp (V ?x) < c)"
      using W [unfolded writer_ok_def, THEN conjunct2, THEN conjunct2, THEN spec, of ?x] commit by (simp split: option.splits)
    have js: "guards_inv config op_of (V ?x) st js" "lv_log (V ?x) \<noteq> []" using plain CommitJob by simp_all
    show ?thesis
    proof (cases r)
      case None
      have "guards_inv config op_of (V x) (st\<lparr>fx_tantivy := x\<rparr>) js"
        using guards_inv_frame [OF js(1), of "st\<lparr>fx_tantivy := x\<rparr>"] V None by simp
      then show ?thesis by (simp add: CommitJob writer_commit_def commit None step_ok_def state_guards_def)
    next
      case (Some c)
      have "V x = commit_view c (V ?x)" "lv_stamp (V ?x) < c" using V Some js(2) by simp_all
      then show ?thesis
        using guards_inv_commit [OF js(1), of c x]
        by (simp add: CommitJob writer_commit_def commit Some step_ok_def state_guards_def)
    qed
  next
    case (GuardsJob c gs)
    have "fx_tantivy (drop_guards_when_searchable c gs st) = ?x" by (simp add: drop_guards_when_searchable_def)
    then show ?thesis
      using guards_inv_hand_over [of config op_of "V ?x" st c gs js] drop_guards_keeps [of config op_of "V ?x" st c gs js] inv
      by (simp add: GuardsJob step_ok_def)
  next
    case (SearchJob key query limit tx)
    then show ?thesis using plain handle_search_ok [OF schema, of L t key query limit] by (auto simp: step_ok_def)
  next
    case (HighlightJob query texts tx)
    then show ?thesis using plain handle_highlight_ok [OF schema, of L query texts] by (auto simp: step_ok_def)
  next
    case (StatsJob tx)
    then show ?thesis using plain handle_stats_ok [of L st] by (auto simp: step_ok_def)
  next
    case ReloadJob
    define next_job :: "'c fts_job" where
      "next_job = (case tv_load_metas L ?x of Some c \<Rightarrow> ReloadReaderJob c | None \<Rightarrow> ReloadFinishJob None)"
    have "job_ok op_of (V ?x) next_job" "is_reload next_job" "job_guards next_job = {#}"
      "reload_opstamp next_job = Some c \<Longrightarrow> fx_reloaded st \<le> c" for c
      using R guards_invD(8) [OF inv] by (auto simp: next_job_def reader_ok_def split: option.splits)
    then have "step_ok V config op_of st job js (Some next_job) st"
      using guards_inv_reload_start [OF inv [unfolded ReloadJob]] by (simp add: step_ok_def ReloadJob)
    then show ?thesis by (simp add: ReloadJob next_job_def)
  next
    case (ReloadReaderJob c)
    obtain reloaded x where reload: "tv_reload L ?x = (reloaded, x)" by fastforce
    have V: "V x = (if reloaded then reload_view (V ?x) else V ?x)" using R reload by (metis fst_conv snd_conv reader_ok_def)
    show ?thesis
      using guards_inv_reload_reader [OF inv [unfolded ReloadReaderJob], of x] guards_inv_reload_failed [OF inv [unfolded ReloadReaderJob], of x] V
      by (cases reloaded) (simp_all add: ReloadReaderJob reload step_ok_def state_guards_def)
  next
    case (ReloadFinishJob r)
    have "fx_tantivy (reload_finished r st) = ?x" by (cases r) (simp_all add: reload_finished_def)
    then show ?thesis
      using guards_inv_reload_finish [OF inv [unfolded ReloadFinishJob]] reload_finished_keeps [of r st]
      by (simp add: ReloadFinishJob step_ok_def)
  qed
qed

end
