(* ===== verification/Fts_Correct.thy ===== *)
theory Fts_Correct
  imports Fts_Guards
begin

text \<open>
  The invariant of the actor of a full-text index with its tasks in flight: each index keeps the
  invariant of its guards, and no guard of a message is lost or duplicated.
\<close>

section \<open>Tasks in flight\<close>

fun pc_held :: "'g fts_pc \<Rightarrow> 'g fts_task multiset" where
  "pc_held (FtsSending tk rest) = {#tk#}"
| "pc_held _ = {#}"

fun pc_rest :: "'g fts_pc \<Rightarrow> nat list" where
  "pc_rest (FtsTicking rest) = rest"
| "pc_rest (FtsSending tk rest) = rest"
| "pc_rest FtsCrashed = []"

definition in_flight :: "('x, 'g) fts_system \<Rightarrow> 'g fts_task multiset" where
  "in_flight s = mset (fy_running s) + mset (fy_queue s) + pc_held (fy_pc s)"

definition jobs_at :: "nat \<Rightarrow> 'g fts_task multiset \<Rightarrow> 'g fts_job multiset" where
  "jobs_at a T = image_mset snd (filter_mset (\<lambda>tk. fst tk = a) T)"

definition store_of :: "('x, 'g) fts_system \<Rightarrow> ('x, 'g) fts_state list" where
  "store_of s = fa_store (fy_actor s)"

definition message_guards :: "'g fts_index \<Rightarrow> 'g multiset" where
  "message_guards msg = option_mset (map_option snd (message_op msg))"

definition messages_guards :: "'g fts_index list \<Rightarrow> 'g multiset" where
  "messages_guards msgs = sum_list (map message_guards msgs)"

definition task_guards :: "'g fts_task multiset \<Rightarrow> 'g multiset" where
  "task_guards T = \<Sum>\<^sub># (image_mset (\<lambda>tk. job_guards (snd tk)) T)"

text \<open>Wherever a guard can be.\<close>

definition all_guards :: "('x, 'g) fts_system \<Rightarrow> 'g multiset" where
  "all_guards s = messages_guards (fy_unsent s) + messages_guards (fy_channel s) + mset (fy_refused s) +
     task_guards (in_flight s) + sum_list (map state_guards (store_of s))"

definition state_inv ::
  "('x, 'q) fts_params \<Rightarrow> ('x \<Rightarrow> index_view) \<Rightarrow> ('g \<Rightarrow> logged) \<Rightarrow> ('x, 'g) fts_state \<Rightarrow> 'g fts_job multiset \<Rightarrow> bool" where
  "state_inv P V op_of st js \<longleftrightarrow> guards_inv (fp_config P) op_of (V (fx_tantivy st)) st js"

definition fts_inv ::
  "('x, 'q) fts_params \<Rightarrow> ('x \<Rightarrow> index_view) \<Rightarrow> ('g \<Rightarrow> logged) \<Rightarrow> ('x, 'g) fts_system \<Rightarrow> bool" where
  "fts_inv P V op_of s \<longleftrightarrow>
     fy_pc s \<noteq> FtsCrashed \<and> (\<forall>tk\<in>#in_flight s. fst tk < addresses s) \<and> (\<forall>a\<in>set (pc_rest (fy_pc s)). a < addresses s) \<and>
     snd ` set (fa_states (fy_actor s)) = {..<addresses s} \<and>
     (\<forall>a<addresses s. state_inv P V op_of (state_at s a) (jobs_at a (in_flight s))) \<and>
     (\<forall>msg\<in>set (fy_channel s @ fy_unsent s). named op_of (message_op msg))"

lemma jobs_at_simps [simp]:
  "jobs_at a {#} = {#}"
  "jobs_at a (add_mset tk T) = (if fst tk = a then add_mset (snd tk) (jobs_at a T) else jobs_at a T)"
  "jobs_at a (T + T') = jobs_at a T + jobs_at a T'"
  by (simp_all add: jobs_at_def)

lemma task_guards_simps [simp]:
  "task_guards {#} = {#}" "task_guards (add_mset tk T) = job_guards (snd tk) + task_guards T"
  "task_guards (T + T') = task_guards T + task_guards T'"
  by (simp_all add: task_guards_def)

lemma messages_guards_simps [simp]:
  "messages_guards [] = {#}" "messages_guards (msg # msgs) = message_guards msg + messages_guards msgs"
  "messages_guards (msgs @ msgs') = messages_guards msgs + messages_guards msgs'"
  by (simp_all add: messages_guards_def)

lemma set_state_simps [simp]:
  "addresses (set_state a st s) = addresses s" "fy_pc (set_state a st s) = fy_pc s" "in_flight (set_state a st s) = in_flight s"
  "fy_unsent (set_state a st s) = fy_unsent s" "fy_channel (set_state a st s) = fy_channel s"
  "fy_queue (set_state a st s) = fy_queue s" "fy_running (set_state a st s) = fy_running s"
  "fy_refused (set_state a st s) = fy_refused s" "fy_replies (set_state a st s) = fy_replies s"
  "fa_states (fy_actor (set_state a st s)) = fa_states (fy_actor s)"
  "store_of (set_state a st s) = (store_of s)[a := st]" "fa_store (fy_actor (set_state a st s)) = (fa_store (fy_actor s))[a := st]"
  by (simp_all add: set_state_def addresses_def in_flight_def store_of_def)

lemma state_at_set [simp]: "a < addresses s \<Longrightarrow> state_at (set_state a st s) b = (if b = a then st else state_at s b)"
  by (simp add: set_state_def state_at_def addresses_def nth_list_update)

lemma same_actor:
  "fy_actor s' = fy_actor s \<Longrightarrow> addresses s' = addresses s" "fy_actor s' = fy_actor s \<Longrightarrow> state_at s' = state_at s"
  "fy_actor s' = fy_actor s \<Longrightarrow> store_of s' = store_of s"
  by (simp_all add: addresses_def state_at_def store_of_def fun_eq_iff)

lemma message_guards_request [simp]: "is_request msg \<Longrightarrow> message_guards msg = {#} \<and> named op_of (message_op msg)"
  by (cases msg) (simp_all add: message_guards_def)

lemma store_guards_set:
  assumes "a < addresses s"
  shows "sum_list (map state_guards ((store_of s)[a := st])) + state_guards (state_at s a) =
    sum_list (map state_guards (store_of s)) + state_guards st"
  using sum_list_update [of a "store_of s" state_guards st] assms by (simp add: store_of_def state_at_def addresses_def)

section \<open>Steps\<close>

text \<open>A state that a step changes at one address.\<close>

lemma fts_inv_set:
  assumes inv: "fts_inv P V op_of s" and a: "a < addresses s"
    and st: "state_inv P V op_of st (jobs_at a T)" and others: "\<And>b. b \<noteq> a \<Longrightarrow> jobs_at b T = jobs_at b (in_flight s)"
    and T: "in_flight s' = T" and bound: "\<forall>tk\<in>#T. fst tk < addresses s"
    and s': "fy_actor s' = fy_actor (set_state a st s)" "fy_channel s' = fy_channel s" "fy_unsent s' = fy_unsent s"
      "fy_pc s' \<noteq> FtsCrashed" "set (pc_rest (fy_pc s')) \<subseteq> set (pc_rest (fy_pc s))"
  shows "fts_inv P V op_of s'"
proof -
  have same: "addresses s' = addresses s" "state_at s' b = (if b = a then st else state_at s b)"
    "fa_states (fy_actor s') = fa_states (fy_actor s)" for b
    using same_actor(1,2) [OF s'(1)] a s'(1) by simp_all
  then have "state_inv P V op_of (state_at s' b) (jobs_at b T)" if "b < addresses s" for b
    using st others inv that by (cases "b = a") (simp_all add: fts_inv_def)
  then show ?thesis
    using inv same bound s' unfolding fts_inv_def T by (simp add: subset_iff)
qed

lemma fts_inv_frame:
  assumes inv: "fts_inv P V op_of s" and "in_flight s' = in_flight s"
    and s': "fy_actor s' = fy_actor s" "set (fy_channel s' @ fy_unsent s') \<subseteq> set (fy_channel s @ fy_unsent s)"
      "fy_pc s' \<noteq> FtsCrashed" "set (pc_rest (fy_pc s')) \<subseteq> set (pc_rest (fy_pc s)) \<union> snd ` set (fa_states (fy_actor s))"
  shows "fts_inv P V op_of s'"
proof -
  have "msg \<in> set (fy_channel s @ fy_unsent s)" if "msg \<in> set (fy_channel s' @ fy_unsent s')" for msg
    using s'(2) that by blast
  moreover have "a < addresses s" if "a \<in> set (pc_rest (fy_pc s'))" for a
    using s'(4) that inv by (fastforce simp: fts_inv_def)
  ultimately show ?thesis
    using inv assms(2) same_actor(1,2) [OF s'(1)] s'(1,3) unfolding fts_inv_def by simp
qed

lemma fts_invD:
  assumes "fts_inv P V op_of s"
  shows "fy_pc s \<noteq> FtsCrashed" "tk \<in># in_flight s \<Longrightarrow> fst tk < addresses s" "a \<in> set (pc_rest (fy_pc s)) \<Longrightarrow> a < addresses s"
    and "(x, a) \<in> set (fa_states (fy_actor s)) \<Longrightarrow> a < addresses s"
    and "a < addresses s \<Longrightarrow> state_inv P V op_of (state_at s a) (jobs_at a (in_flight s))"
    and "msg \<in> set (fy_channel s @ fy_unsent s) \<Longrightarrow> named op_of (message_op msg)"
    and "snd ` set (fa_states (fy_actor s)) = {..<addresses s}"
proof -
  show states: "snd ` set (fa_states (fy_actor s)) = {..<addresses s}" using assms by (simp add: fts_inv_def)
  show "(x, a) \<in> set (fa_states (fy_actor s)) \<Longrightarrow> a < addresses s" using states by (metis imageI lessThan_iff snd_conv)
qed (use assms in \<open>simp_all add: fts_inv_def\<close>)

text \<open>A state that changes nothing the invariant speaks of.\<close>

definition same_guards :: "('x, 'g) fts_state \<Rightarrow> ('x, 'g) fts_state \<Rightarrow> bool" where
  "same_guards st st' \<longleftrightarrow> fx_schema st' = fx_schema st \<and> fx_tantivy st' = fx_tantivy st \<and> fx_uncommitted st' = fx_uncommitted st \<and>
     fx_unsearchable st' = fx_unsearchable st \<and> fx_reloaded st' = fx_reloaded st \<and> fx_dropped st' = fx_dropped st \<and>
     fx_failed st' = fx_failed st"

lemma state_inv_same:
  "state_inv P V op_of st js \<Longrightarrow> same_guards st st' \<Longrightarrow> (fx_reload_pc st' = ReloadRuns) = (fx_reload_pc st = ReloadRuns) \<Longrightarrow>
   state_inv P V op_of st' js"
  unfolding state_inv_def by (simp add: same_guards_def guards_inv_frame)

lemma state_guards_same: "same_guards st st' \<Longrightarrow> state_guards st' = state_guards st"
  by (simp add: same_guards_def state_guards_def)

lemma same_guards_simps [simp]:
  "same_guards st st" "same_guards st (request_reload st)" "same_guards st (st\<lparr>fx_requested := b\<rparr>)"
  "same_guards st (st\<lparr>fx_requested := b, fx_reload_pc := pc\<rparr>)" "same_guards st (st\<lparr>fx_reload_pc := pc\<rparr>)"
  by (simp_all add: same_guards_def request_reload_def)

lemma state_inv_reload:
  assumes "state_inv P V op_of st js" and "fx_reload_pc st \<noteq> ReloadRuns"
  shows "state_inv P V op_of (st\<lparr>fx_reload_pc := ReloadRuns\<rparr>) (add_mset ReloadJob js)"
  using assms entries_cong [of "st\<lparr>fx_reload_pc := ReloadRuns\<rparr>" st js] by (simp add: state_inv_def guards_inv_def)

lemma built_ok:
  assumes "tantivy_ok L V" and "index_state_build L an positions = Ok st"
  shows "V (fx_tantivy st) = empty_view (fx_schema st) \<and> fx_schema st = build_schema (analyzer_name an) positions \<and>
    fx_uncommitted st = [] \<and> fx_unsearchable st = [] \<and> fx_dropped st = [] \<and> fx_failed st = [] \<and> fx_reloaded st = 0 \<and>
    fx_reload_pc st = ReloadWaits \<and> \<not> fx_requested st \<and> \<not> fx_reload_failed st"
  using assms by (auto simp: index_state_build_def tantivy_ok_def create_ok_def Let_def result_simps split del: if_split)

lemma built_inv:
  assumes "tantivy_ok (fp_library P) V" and "index_state_build (fp_library P) (fc_analyzer (fp_config P)) (fc_positions (fp_config P)) = Ok st"
  shows "state_inv P V op_of st {#}" and "state_guards st = {#}"
  using built_ok [OF assms]
  by (auto simp: state_inv_def guards_inv_def empty_view_def commits_ok_def committed_def mono_def entries_def entry_guards_def state_guards_def)

lemma bt_insert_snd:
  assumes "bt_get m k = None"
  shows "snd ` set (bt_insert k v m) = insert v (snd ` set m)"
proof -
  have "k \<notin> fst ` set m" using assms by (simp add: bt_get_def map_of_eq_None_iff)
  from arg_cong [OF bt_insert_new [OF this, of v], of set_mset] show ?thesis by simp
qed

text \<open>The branch of a message: at most one task, for a state that exists, and the guard stays or is refused.\<close>

lemma get_or_create_ok:
  assumes L: "tantivy_ok (fp_library P) V" and inv: "fts_inv P V op_of s" and run: "get_or_create_state P t (fy_actor s) = (found, ac)"
  shows "fts_inv P V op_of (s\<lparr>fy_actor := ac\<rparr>) \<and> addresses s \<le> length (fa_store ac) \<and>
    (\<forall>a. found = Some a \<longrightarrow> a < length (fa_store ac)) \<and>
    sum_list (map state_guards (fa_store ac)) = sum_list (map state_guards (store_of s))"
proof -
  consider (kept) "ac = fy_actor s" "\<And>a. found = Some a \<Longrightarrow> \<exists>x. bt_get (fa_states (fy_actor s)) x = Some a"
    | (new) x st where "index_state_build (fp_library P) (fc_analyzer (fp_config P)) (fc_positions (fp_config P)) = Ok st"
      "ac = (fy_actor s)\<lparr>fa_states := bt_insert x (addresses s) (fa_states (fy_actor s)), fa_store := store_of s @ [st]\<rparr>"
      "found = Some (addresses s)" "bt_get (fa_states (fy_actor s)) x = None"
    using run by (fastforce simp: get_or_create_state_def addresses_def store_of_def Let_def split: option.splits sum.splits)
  then show ?thesis
  proof cases
    case kept
    then have "a < addresses s" if "found = Some a" for a
      using kept(2) [OF that] fts_invD(4) [OF inv] by (auto simp: bt_get_def dest: map_of_SomeD)
    then show ?thesis using inv kept(1) by (simp add: addresses_def store_of_def)
  next
    case (new x st)
    note ac = new(2) and found = new(3) and absent = new(4) and new = new(1)
    let ?s = "s\<lparr>fy_actor := ac\<rparr>"
    have "jobs_at (addresses s) (in_flight s) = {#}"
      using fts_invD(2) [OF inv] by (fastforce simp: jobs_at_def filter_mset_eq_conv)
    then have at: "state_inv P V op_of (state_at ?s a) (jobs_at a (in_flight s))" if "a \<le> addresses s" for a
      using built_inv(1) [OF L new] fts_invD(5) [OF inv, of a] that
      by (cases "a = addresses s") (simp_all add: state_at_def ac addresses_def store_of_def nth_append)
    have "addresses ?s = Suc (addresses s)" "in_flight ?s = in_flight s"
      by (simp_all add: addresses_def store_of_def ac in_flight_def)
    moreover have "snd ` set (fa_states ac) = {..<Suc (addresses s)}"
      using bt_insert_snd [OF absent] inv by (simp add: ac fts_inv_def lessThan_Suc)
    ultimately have "fts_inv P V op_of ?s"
      using inv at fts_invD(1-3,6) [OF inv] unfolding fts_inv_def by (simp add: less_Suc_eq_le less_imp_le)
    then show ?thesis
      using built_inv(2) [OF L new] found by (simp add: ac store_of_def addresses_def)
  qed
qed

lemma fts_receive_ok:
  assumes L: "tantivy_ok (fp_library P) V" and inv: "fts_inv P V op_of s" and pc: "fy_pc s = FtsTicking []"
    and channel: "fy_channel s = msg # msgs"
    and run: "fts_receive P t allocate msg (fy_actor s) = (task, replies, refused, ac)"
    and s': "s' = s\<lparr>fy_actor := ac, fy_pc := pc_then task [], fy_channel := msgs, fy_replies := fy_replies s @ replies,
      fy_refused := fy_refused s @ refused\<rparr>"
  shows "fts_inv P V op_of s' \<and> all_guards s' = all_guards s"
proof -
  have flight: "in_flight s' = option_mset task + in_flight s"
    using pc by (cases task) (simp_all add: s' in_flight_def pc_then_def)
  have op: "named op_of (message_op msg)" using fts_invD(6) [OF inv, of msg] channel by simp
  have key: "fts_inv P V op_of (s\<lparr>fy_actor := ac\<rparr>) \<and> sum_list (map state_guards (fa_store ac)) = sum_list (map state_guards (store_of s)) \<and>
      (\<forall>a job. task = Some (a, job) \<longrightarrow> a < length (fa_store ac) \<and> guards_entry job = {#} \<and> \<not> is_reload job \<and>
         (\<forall>v. job_ok op_of v job)) \<and>
      task_guards (option_mset task) + mset refused = message_guards msg"
  proof (cases "is_request msg")
    case True
    have "a < addresses s" if "get_state t k (fy_actor s) = Some a" for k a
      using that fts_invD(4) [OF inv] by (auto simp: get_state_def bt_get_def bind_eq_Some_conv dest: map_of_SomeD)
    then show ?thesis
      using run inv True by (cases msg) (auto simp: store_of_def addresses_def message_guards_def split: option.splits)
  next
    case False
    obtain found ac1 where create: "get_or_create_state P t (fy_actor s) = (found, ac1)" by fastforce
    note created = get_or_create_ok [OF L inv create]
    have prev: "fts_inv P V op_of (s\<lparr>fy_actor := ac1\<lparr>fa_allocate_prev := p\<rparr>\<rparr>)" for p
      using created by (simp add: fts_inv_def addresses_def in_flight_def state_at_def)
    show ?thesis
      using run created create prev False op
      by (cases msg; cases found)
        (auto simp: can_allocate_memory_def message_guards_def named_def Let_def split: if_splits)
  qed
  let ?s1 = "s\<lparr>fy_actor := ac\<rparr>"
  have addr: "addresses s' = addresses ?s1" "state_at s' = state_at ?s1" "in_flight ?s1 = in_flight s"
    by (simp_all add: s' addresses_def state_at_def in_flight_def fun_eq_iff)
  have "fts_inv P V op_of s'"
  proof (cases task)
    case None
    then show ?thesis
      using key flight addr channel unfolding fts_inv_def by (auto simp: s' pc_then_def)
  next
    case (Some tk)
    obtain a job where tk: "tk = (a, job)" by fastforce
    have job: "a < addresses ?s1" "guards_entry job = {#}" "\<not> is_reload job" "\<And>v. job_ok op_of v job"
      using key by (auto simp: Some tk addresses_def)
    have "state_inv P V op_of st (jobs_at b (in_flight s')) = state_inv P V op_of st (jobs_at b (in_flight s))" for st b
      using job by (auto simp: flight Some tk state_inv_def guards_inv_plain)
    then show ?thesis
      using key flight addr channel job(1) unfolding fts_inv_def by (auto simp: s' pc_then_def Some tk)
  qed
  moreover have "all_guards s' = all_guards s"
  proof -
    have "task_guards (option_mset task) + mset refused = message_guards msg"
      "sum_list (map state_guards (fa_store ac)) = sum_list (map state_guards (store_of s))" using key by simp_all
    then show ?thesis using flight channel by (simp add: all_guards_def s' store_of_def ac_simps)
  qed
  ultimately show ?thesis ..
qed

lemma fts_run_ok:
  assumes L: "tantivy_ok (fp_library P) V" and n: "0 < fp_commit_threshold P" and inv: "fts_inv P V op_of s"
    and running: "fy_running s = before @ (a, job) # after"
  shows "\<exists>rest replies st. run_fts_job (fp_library P) (fp_commit_threshold P) t job (state_at s a) = Ok (rest, replies, st) \<and>
    (let s' = set_state a st s\<lparr>fy_running := before @ map (Pair a) (case rest of Some job' \<Rightarrow> [job'] | None \<Rightarrow> []) @ after,
       fy_replies := fy_replies s @ replies\<rparr>
     in fts_inv P V op_of s' \<and> all_guards s' = all_guards s)"
proof -
  define others where "others = mset before + mset after + mset (fy_queue s) + pc_held (fy_pc s)"
  have flight: "in_flight s = add_mset (a, job) others" by (simp add: in_flight_def running others_def)
  have a: "a < addresses s" using fts_invD(2) [OF inv, of "(a, job)"] flight by simp
  have "guards_inv (fp_config P) op_of (V (fx_tantivy (state_at s a))) (state_at s a) (add_mset job (jobs_at a others))"
    using fts_invD(5) [OF inv a] by (simp add: flight state_inv_def)
  from run_fts_ok [OF L this n] obtain rest replies st
    where run: "run_fts_job (fp_library P) (fp_commit_threshold P) t job (state_at s a) = Ok (rest, replies, st)"
      and step: "step_ok V (fp_config P) op_of (state_at s a) job (jobs_at a others) rest st" by blast
  let ?s = "set_state a st s\<lparr>fy_running := before @ map (Pair a) (case rest of Some job' \<Rightarrow> [job'] | None \<Rightarrow> []) @ after,
       fy_replies := fy_replies s @ replies\<rparr>"
  define T where "T = image_mset (Pair a) (option_mset rest) + others"
  have T: "in_flight ?s = T"
    by (cases rest) (simp_all add: in_flight_def T_def others_def)
  have jobs: "jobs_at a T = jobs_at a others + option_mset rest" "\<And>b. b \<noteq> a \<Longrightarrow> jobs_at b T = jobs_at b (in_flight s)"
    by (cases rest; simp add: T_def flight)+
  have "state_inv P V op_of st (jobs_at a T)"
    using step by (simp add: step_ok_def state_inv_def jobs)
  moreover have "\<forall>tk\<in>#T. fst tk < addresses s"
    using fts_invD(2) [OF inv] a by (auto simp: T_def flight)
  ultimately have "fts_inv P V op_of ?s"
    using fts_invD(1) [OF inv] by (intro fts_inv_set [OF inv a _ jobs(2) T]) simp_all
  moreover have "all_guards ?s = all_guards s"
  proof -
    have "state_guards st + task_guards T = state_guards (state_at s a) + task_guards (in_flight s)"
      using step by (cases rest) (simp_all add: step_ok_def T_def flight ac_simps)
    moreover have "store_of ?s = (store_of s)[a := st]" by (simp add: store_of_def set_state_def)
    ultimately have "sum_list (map state_guards (store_of ?s)) + task_guards T + state_guards (state_at s a) =
        sum_list (map state_guards (store_of s)) + task_guards (in_flight s) + state_guards (state_at s a)"
      using store_guards_set [OF a, of st] by (metis (no_types, lifting) add.assoc add.commute)
    then show ?thesis unfolding all_guards_def T by (simp add: ac_simps)
  qed
  ultimately show ?thesis using run by (auto simp: Let_def)
qed

text \<open>A step that only requests, queues or starts a reload.\<close>

lemma all_guards_same:
  assumes "a < addresses s" and "same_guards (state_at s a) st" and "fy_actor s' = fy_actor (set_state a st s)"
    and "in_flight s' = in_flight s + T" "task_guards T = {#}"
    and "fy_unsent s' = fy_unsent s" "fy_channel s' = fy_channel s" "fy_refused s' = fy_refused s"
  shows "all_guards s' = all_guards s"
proof -
  have "store_of s' = (store_of s)[a := st]" using assms(3) by (simp add: store_of_def set_state_def)
  then show ?thesis
    using store_guards_set [OF assms(1), of st] state_guards_same [OF assms(2)] assms(4-) by (simp add: all_guards_def)
qed

lemma tick_state_same: "tick_state st = (job, st') \<Longrightarrow> same_guards st st' \<and> fx_reload_pc st' = fx_reload_pc st \<and>
    (job = None \<or> job = Some CommitJob \<and> fx_uncommitted st \<noteq> [])"
  by (auto simp: tick_state_def has_uncommitted_docs_def request_reload_def same_guards_def split: if_splits)

lemma fts_internal_ok:
  assumes L: "tantivy_ok (fp_library P) V" and n: "0 < fp_commit_threshold P" and inv: "fts_inv P V op_of s"
    and step: "fts_internal P E s s'"
  shows "fts_inv P V op_of s' \<and> all_guards s' = all_guards s"
  using step
proof cases
  case (receive msg msgs allocate t task replies refused ac)
  show ?thesis by (rule fts_receive_ok [OF L inv receive(2,3,6,1)])
next
  case (tick_next a rest job st)
  have a: "a < addresses s" using fts_invD(3) [OF inv, of a] tick_next by simp
  note same = tick_state_same [OF tick_next(3)]
  let ?T = "image_mset (Pair a) (option_mset job)"
  have flight: "in_flight s' = ?T + in_flight s"
    using tick_next by (cases job) (simp_all add: in_flight_def pc_then_def)
  have "state_inv P V op_of st (jobs_at a (in_flight s))"
    using state_inv_same [OF fts_invD(5) [OF inv a]] same by simp
  moreover have "lv_log (V (fx_tantivy st)) \<noteq> []" if "job = Some CommitJob"
    using that same guards_invD(4) [OF fts_invD(5) [OF inv a, unfolded state_inv_def]] by (auto simp: same_guards_def)
  ultimately have "state_inv P V op_of st (jobs_at a (?T + in_flight s))"
    using same by (auto simp: state_inv_def guards_inv_plain)
  moreover have "jobs_at b (?T + in_flight s) = jobs_at b (in_flight s)" if "b \<noteq> a" for b
    using that by (cases job) simp_all
  moreover have "fy_pc s' \<noteq> FtsCrashed" "set (pc_rest (fy_pc s')) \<subseteq> set (pc_rest (fy_pc s))"
    using tick_next by (cases job; auto simp: pc_then_def)+
  ultimately have "fts_inv P V op_of s'"
    using fts_invD(2) [OF inv] a tick_next(1) by (intro fts_inv_set [OF inv a _ _ flight]) auto
  moreover have "all_guards s' = all_guards s"
    using same flight tick_next(1) by (intro all_guards_same [OF a, of st _ ?T]) (auto simp: ac_simps)
  ultimately show ?thesis ..
next
  case (send tk rest)
  have "in_flight s' = in_flight s" using send by (simp add: in_flight_def)
  then show ?thesis using fts_inv_frame [OF inv, of s'] send by (simp add: all_guards_def store_of_def)
next
  case (reload_changed a)
  let ?st = "(state_at s a)\<lparr>fx_requested := False, fx_reload_pc := ReloadSends\<rparr>"
  have "state_inv P V op_of ?st (jobs_at a (in_flight s))"
    using state_inv_same [OF fts_invD(5) [OF inv reload_changed(2)], of ?st] reload_changed(3) by simp
  moreover have "all_guards s' = all_guards s"
    using reload_changed by (intro all_guards_same [OF reload_changed(2), of ?st _ "{#}"]) simp_all
  moreover have "fts_inv P V op_of s'"
    using reload_changed(1) fts_invD(1,2) [OF inv] calculation(1)
    by (intro fts_inv_set [OF inv reload_changed(2), of ?st "in_flight s"]) simp_all
  ultimately show ?thesis by simp
next
  case (reload_send a)
  let ?st = "(state_at s a)\<lparr>fx_reload_pc := ReloadRuns\<rparr>" and ?T = "add_mset (a, ReloadJob) (in_flight s)"
  have flight: "in_flight s' = ?T" using reload_send(1) by (simp add: in_flight_def)
  have "state_inv P V op_of ?st (jobs_at a ?T)"
    using state_inv_reload [OF fts_invD(5) [OF inv reload_send(2)]] reload_send(3) by simp
  then have "fts_inv P V op_of s'"
    using reload_send(1) fts_invD(1,2) [OF inv] reload_send(2) by (intro fts_inv_set [OF inv reload_send(2) _ _ flight]) auto
  moreover have "all_guards s' = all_guards s"
    using reload_send(1) flight by (intro all_guards_same [OF reload_send(2), of ?st _ "{#(a, ReloadJob)#}"]) simp_all
  ultimately show ?thesis ..
next
  case (start_task tk queue)
  have "in_flight s' = in_flight s" using start_task by (simp add: in_flight_def)
  then show ?thesis using fts_inv_frame [OF inv, of s'] start_task fts_invD(1) [OF inv] by (auto simp: all_guards_def store_of_def)
next
  case (run_task before a job after t rest replies st)
  then show ?thesis using fts_run_ok [OF L n inv run_task(2), of t] by (auto simp: Let_def)
next
  case (task_panics before a job after t e)
  then show ?thesis using fts_run_ok [OF L n inv task_panics(2), of t] by auto
qed

lemma fts_event_ok:
  assumes inv: "fts_inv P V op_of s" and step: "fts_event E s s'"
  shows "fts_inv P V op_of s' \<and> all_guards s' = all_guards s"
  using step
proof cases
  case (monitor_sends msg msgs)
  then have "in_flight s' = in_flight s" by (simp add: in_flight_def)
  then show ?thesis
    using fts_inv_frame [OF inv, of s'] monitor_sends fts_invD(1) [OF inv] by (simp add: all_guards_def store_of_def)
next
  case (request msg)
  then have "in_flight s' = in_flight s" "addresses s' = addresses s" "state_at s' = state_at s"
    by (simp_all add: in_flight_def addresses_def state_at_def fun_eq_iff)
  then show ?thesis using inv request by (simp add: fts_inv_def all_guards_def store_of_def)
next
  case tick
  have "in_flight s' = in_flight s" using tick by (simp add: in_flight_def)
  then show ?thesis using fts_inv_frame [OF inv, of s'] tick by (simp add: all_guards_def store_of_def)
next
  case (watch_calls a)
  let ?st = "request_reload (state_at s a)"
  have "state_inv P V op_of ?st (jobs_at a (in_flight s))"
    using state_inv_same [OF fts_invD(5) [OF inv watch_calls(2)], of ?st] by (simp add: request_reload_def)
  moreover have "all_guards s' = all_guards s"
    using watch_calls by (intro all_guards_same [OF watch_calls(2), of ?st _ "{#}"]) simp_all
  moreover have "fts_inv P V op_of s'"
    using watch_calls(1) fts_invD(1,2) [OF inv] calculation(1)
    by (intro fts_inv_set [OF inv watch_calls(2), of ?st "in_flight s"]) simp_all
  ultimately show ?thesis by simp
qed

lemma fts_new_ok:
  assumes "list_all (\<lambda>msg. named op_of (message_op msg)) msgs"
  shows "fts_inv P V op_of (fts_new msgs) \<and> all_guards (fts_new msgs) = messages_guards msgs"
  using assms by (simp add: fts_inv_def fts_new_def in_flight_def addresses_def all_guards_def store_of_def list_all_iff)

text \<open>What the actor relies on: its library, a threshold, and that guards are named by what they guard.\<close>

definition fts_relies ::
  "('x, 'q) fts_params \<Rightarrow> ('x \<Rightarrow> index_view) \<Rightarrow> ('g \<Rightarrow> logged) \<Rightarrow> 'g fts_index list \<Rightarrow> bool" where
  "fts_relies P V op_of msgs \<longleftrightarrow>
     tantivy_ok (fp_library P) V \<and> 0 < fp_commit_threshold P \<and> list_all (\<lambda>msg. named op_of (message_op msg)) msgs"

lemma fts_reachable_ok:
  assumes "fts_reachable P E msgs s" and "fts_relies P V op_of msgs"
  shows "fts_inv P V op_of s \<and> all_guards s = messages_guards msgs"
  using assms(1)
proof induction
  case start
  show ?case using assms(2) by (intro fts_new_ok) (simp add: fts_relies_def)
next
  case (internal s s')
  then show ?case using fts_internal_ok [of P V op_of s E s'] assms(2) by (simp add: fts_relies_def)
next
  case (event s s')
  then show ?case using fts_event_ok [of P V op_of s E s'] by simp
qed

section \<open>Guards\<close>

text \<open>
  C14: a guard is dropped only when its document can be found. Take any messages of the monitor, each
  with a guard that names its operation, and any schedule of the actor, its workers, the reloads of
  the reader and the requests, with any failures of the library: no task panics, and every guard is
  in exactly one place. For every index, the guards the reader dropped are of operations that a
  search sees; they and the guards it still holds, or that are on their way to it, are those of the
  committed operations, and the writer holds those of the operations since.
\<close>

theorem fts_guards_exact:
  assumes "fts_relies P V op_of msgs" and "fts_reachable P E msgs s"
  shows "fy_pc s \<noteq> FtsCrashed \<and> all_guards s = messages_guards msgs \<and>
    (\<forall>a<addresses s. let st = state_at s a; v = V (fx_tantivy st) in
       op_of ` set (fx_dropped st) \<subseteq> set (take (lv_served v) (lv_log v)) \<and>
       image_mset op_of (mset (fx_dropped st) + entry_guards (entries st (jobs_at a (in_flight s)))) = mset (take (committed v) (lv_log v)) \<and>
       map op_of (fx_uncommitted st) = drop (committed v) (lv_log v))"
proof -
  have inv: "fts_inv P V op_of s" and all: "all_guards s = messages_guards msgs"
    using fts_reachable_ok [OF assms(2,1)] by simp_all
  have "guards_inv (fp_config P) op_of (V (fx_tantivy (state_at s a))) (state_at s a) (jobs_at a (in_flight s))" if "a < addresses s" for a
    using fts_invD(5) [OF inv that] by (simp add: state_inv_def)
  from guards_invD(4,5,10) [OF this] fts_invD(1) [OF inv] all show ?thesis by (simp add: Let_def)
qed

end
