(* ===== verification/Fts_Progress.thy ===== *)
theory Fts_Progress
  imports Fts_Correct
begin

text \<open>
  Nothing of the actor of a full-text index blocks for good: between two events of the environment
  every step decreases a measure, and the system only stops when it is idle. When the library does
  not fail, two ticks after the last message every operation is searchable and every guard dropped.
\<close>

section \<open>The measure\<close>

fun job_weight :: "'g fts_job \<Rightarrow> nat" where
  "job_weight (AddJob p document g) = 3"
| "job_weight (RemoveJob p g) = 3"
| "job_weight CommitJob = 2"
| "job_weight ReloadJob = 3"
| "job_weight (ReloadReaderJob c) = 2"
| "job_weight _ = 1"

definition state_weight :: "('x, 'g) fts_state \<Rightarrow> nat" where
  "state_weight st = (if fx_requested st then 6 else 0) + (if fx_reload_pc st = ReloadSends then 5 else 0)"

fun pc_weight :: "'g fts_pc \<Rightarrow> nat" where
  "pc_weight (FtsTicking rest) = 7 * length rest"
| "pc_weight (FtsSending tk rest) = job_weight (snd tk) + 2 + 7 * length rest"
| "pc_weight FtsCrashed = 0"

definition fts_weight :: "('x, 'g) fts_system \<Rightarrow> nat" where
  "fts_weight s = 6 * length (fy_channel s) + pc_weight (fy_pc s) + sum_list (map (\<lambda>tk. job_weight (snd tk) + 1) (fy_queue s)) +
     sum_list (map (\<lambda>tk. job_weight (snd tk)) (fy_running s)) + sum_list (map state_weight (store_of s))"

lemma job_weight_pos: "0 < job_weight job"
  by (cases job) simp_all

lemma store_weight_set:
  assumes "a < addresses s"
  shows "sum_list (map state_weight ((store_of s)[a := st])) + state_weight (state_at s a) =
    sum_list (map state_weight (store_of s)) + state_weight st"
  using sum_list_update [of a "store_of s" state_weight st] assms by (simp add: store_of_def state_at_def addresses_def)

lemma run_fts_weight:
  assumes "run_fts_job L n t job st = Ok (rest, replies, st')"
  shows "state_weight st' \<le> state_weight st \<and> (case rest of Some job' \<Rightarrow> job_weight job' | None \<Rightarrow> 0) < job_weight job"
  using assms
  by (cases job)
    (auto simp: result_simps handle_add_document_def handle_remove_document_def writer_add_document_def writer_rm_document_def
      writer_commit_def drop_guards_when_searchable_def reload_finished_def then_commit_def state_weight_def Let_def
      split: prod.splits option.splits bool.splits if_splits)

lemma get_or_create_weight:
  assumes L: "tantivy_ok (fp_library P) V" and run: "get_or_create_state P t ac = (found, ac')"
  shows "sum_list (map state_weight (fa_store ac')) = sum_list (map state_weight (fa_store ac))"
proof -
  have "state_weight st = 0"
    if "index_state_build (fp_library P) (fc_analyzer (fp_config P)) (fc_positions (fp_config P)) = Ok st" for st
    using built_ok [OF L that] by (simp add: state_weight_def)
  then show ?thesis using run by (auto simp: get_or_create_state_def Let_def split: option.splits sum.splits)
qed

lemma fts_receive_weight:
  assumes L: "tantivy_ok (fp_library P) V" and run: "fts_receive P t allocate msg ac = (task, replies, refused, ac')"
  shows "sum_list (map state_weight (fa_store ac')) = sum_list (map state_weight (fa_store ac)) \<and>
    pc_weight (pc_then task []) < 6"
proof (cases "is_request msg")
  case True
  then show ?thesis using run by (cases msg) (auto simp: pc_then_def split: option.splits)
next
  case False
  obtain found ac1 where create: "get_or_create_state P t ac = (found, ac1)" by fastforce
  show ?thesis
    using run create get_or_create_weight [OF L create] False
    by (cases msg; cases found) (auto simp: pc_then_def can_allocate_memory_def Let_def split: if_splits)
qed

lemma fts_internal_weight:
  assumes L: "tantivy_ok (fp_library P) V" and n: "0 < fp_commit_threshold P" and inv: "fts_inv P V op_of s"
    and step: "fts_internal P E s s'"
  shows "fts_weight s' < fts_weight s"
  using step
proof cases
  case (receive msg msgs allocate t task replies refused ac)
  then show ?thesis
    using fts_receive_weight [OF L receive(6)] by (simp add: fts_weight_def store_of_def)
next
  case (tick_next a rest job st)
  have a: "a < addresses s" using fts_invD(3) [OF inv, of a] tick_next by simp
  have "pc_weight (fy_pc s') + state_weight st < pc_weight (fy_pc s) + state_weight (state_at s a)"
    using tick_next by (auto simp: tick_state_def request_reload_def state_weight_def pc_then_def split: if_splits)
  then show ?thesis
    using store_weight_set [OF a, of st] tick_next(1) by (simp add: fts_weight_def store_of_def)
next
  case (send tk rest)
  then show ?thesis by (simp add: fts_weight_def store_of_def)
next
  case (reload_changed a)
  then show ?thesis
    using store_weight_set [OF reload_changed(2), of "(state_at s a)\<lparr>fx_requested := False, fx_reload_pc := ReloadSends\<rparr>"]
    by (simp add: fts_weight_def state_weight_def)
next
  case (reload_send a)
  then show ?thesis
    using store_weight_set [OF reload_send(2), of "(state_at s a)\<lparr>fx_reload_pc := ReloadRuns\<rparr>"]
    by (simp add: fts_weight_def state_weight_def store_of_def split: if_splits)
next
  case (start_task tk queue)
  then show ?thesis by (simp add: fts_weight_def store_of_def)
next
  case (run_task before a job after t rest replies st)
  have a: "a < addresses s" using fts_invD(2) [OF inv, of "(a, job)"] run_task(2) by (simp add: in_flight_def)
  show ?thesis
    using store_weight_set [OF a, of st] run_fts_weight [OF run_task(4)] run_task(1,2)
    by (cases rest) (simp_all add: fts_weight_def store_of_def)
next
  case (task_panics before a job after t e)
  then show ?thesis using fts_run_ok [OF L n inv task_panics(2), of t] by auto
qed

section \<open>Progress\<close>

definition fts_idle :: "('x, 'g) fts_system \<Rightarrow> bool" where
  "fts_idle s \<longleftrightarrow> fy_pc s = FtsTicking [] \<and> fy_channel s = [] \<and> fy_queue s = [] \<and> fy_running s = [] \<and>
     (\<forall>a<addresses s. fx_reload_pc (state_at s a) = ReloadWaits \<and> \<not> fx_requested (state_at s a))"

text \<open>There is room for a task, a worker, and an answer to what the actor reads.\<close>

definition fts_served :: "('x, 'q) fts_params \<Rightarrow> 'g fts_env \<Rightarrow> bool" where
  "fts_served P E \<longleftrightarrow> 0 < fp_channel_size P \<and> 0 < fp_num_workers P \<and> (\<exists>t. fe_table E t) \<and> (\<exists>al. fe_allocate E al)"

lemma idle_stuck: "fts_idle s \<Longrightarrow> \<not> fts_internal P E s s'"
  by (auto simp: fts_idle_def elim!: fts_internal.cases)

lemma fts_moves:
  assumes L: "tantivy_ok (fp_library P) V" and n: "0 < fp_commit_threshold P" and inv: "fts_inv P V op_of s"
    and env: "fts_served P E" and "\<not> fts_idle s"
  shows "\<exists>s'. fts_internal P E s s'"
proof -
  obtain t allocate where e: "fe_table E t" "fe_allocate E allocate" using env by (auto simp: fts_served_def)
  consider (running) "fy_running s \<noteq> []" | (queue) "fy_running s = []" "fy_queue s \<noteq> []"
    | (empty) "fy_running s = []" "fy_queue s = []" by blast
  then show ?thesis
  proof cases
    case running
    then obtain a job after where "fy_running s = [] @ (a, job) # after" by (cases "fy_running s") auto
    with fts_run_ok [OF L n inv this, of t] fts_internal.run_task [OF this e(1)] show ?thesis by blast
  next
    case queue
    then obtain tk q where "fy_queue s = tk # q" by (cases "fy_queue s") auto
    from fts_internal.start_task [OF this, of P E] queue env show ?thesis by (auto simp: fts_served_def)
  next
    case empty
    have room: "length (fy_queue s) < fp_channel_size P" using empty env by (simp add: fts_served_def)
    show ?thesis
    proof (cases "fy_pc s")
      case (FtsSending tk rest)
      from fts_internal.send [OF this room] show ?thesis by blast
    next
      case (FtsTicking rest)
      show ?thesis
      proof (cases rest)
        case (Cons a rest')
        obtain job st where "tick_state (state_at s a) = (job, st)" by fastforce
        from fts_internal.tick_next [OF FtsTicking [unfolded Cons] this] show ?thesis by blast
      next
        case Nil
        show ?thesis
        proof (cases "fy_channel s")
          case (Cons msg msgs)
          obtain task replies refused ac where "fts_receive P t allocate msg (fy_actor s) = (task, replies, refused, ac)"
            using prod_cases4 by blast
          from fts_internal.receive [OF FtsTicking [unfolded Nil] Cons e(2,1) this] show ?thesis by blast
        next
          case no_message: Nil
          obtain a where a: "a < addresses s" "fx_reload_pc (state_at s a) \<noteq> ReloadWaits \<or> fx_requested (state_at s a)"
            using assms(5) empty FtsTicking Nil no_message by (auto simp: fts_idle_def)
          have "jobs_at a (in_flight s) = {#}"
            using empty FtsTicking by (simp add: in_flight_def)
          then have "fx_reload_pc (state_at s a) \<noteq> ReloadRuns"
            using fts_invD(5) [OF inv a(1)] guards_invD(12) by (fastforce simp: state_inv_def)
          then consider "fx_reload_pc (state_at s a) = ReloadSends" | "fx_reload_pc (state_at s a) = ReloadWaits" "fx_requested (state_at s a)"
            using a(2) by (cases "fx_reload_pc (state_at s a)") auto
          then show ?thesis
            using fts_internal.reload_send [OF a(1) _ room] fts_internal.reload_changed [OF a(1), of P E] by cases blast+
        qed
      qed
    next
      case FtsCrashed
      then show ?thesis using fts_invD(1) [OF inv] by simp
    qed
  qed
qed

lemma fts_drains_inv:
  assumes L: "tantivy_ok (fp_library P) V" and n: "0 < fp_commit_threshold P" and env: "fts_served P E"
    and inv: "fts_inv P V op_of s"
  shows "\<exists>s'. (fts_internal P E)\<^sup>*\<^sup>* s s' \<and> fts_idle s'"
  using inv
proof (induction "fts_weight s" arbitrary: s rule: less_induct)
  case less
  show ?case
  proof (cases "fts_idle s")
    case False
    obtain s1 where step: "fts_internal P E s s1" using fts_moves [OF L n less.prems env False] by blast
    have "fts_weight s1 < fts_weight s" "fts_inv P V op_of s1"
      using fts_internal_weight [OF L n less.prems step] fts_internal_ok [OF L n less.prems step] by simp_all
    from less.hyps [OF this] step show ?thesis by (meson converse_rtranclp_into_rtranclp)
  qed blast
qed

text \<open>
  C37: the actor of a full-text index comes to rest. In every reachable state, whatever the library
  answers, each step decreases a measure until the next event of the environment (a message, a
  tick, a call of the watch), and a step is possible exactly until the system is idle: no message
  and no task is left and no reload is asked for.
\<close>

theorem fts_drains:
  assumes "fts_relies P V op_of msgs" and "fts_served P E" and "fts_reachable P E msgs s"
  shows "(\<forall>s'. fts_internal P E s s' \<longrightarrow> fts_weight s' < fts_weight s) \<and>
    ((\<exists>s'. fts_internal P E s s') \<longleftrightarrow> \<not> fts_idle s) \<and> (\<exists>s'. (fts_internal P E)\<^sup>*\<^sup>* s s' \<and> fts_idle s')"
proof -
  have L: "tantivy_ok (fp_library P) V" and n: "0 < fp_commit_threshold P" using assms(1) by (simp_all add: fts_relies_def)
  have inv: "fts_inv P V op_of s" using fts_reachable_ok [OF assms(3,1)] by simp
  show ?thesis
    using fts_internal_weight [OF L n inv] fts_moves [OF L n inv assms(2)] idle_stuck fts_drains_inv [OF L n assms(2) inv] by blast
qed

section \<open>Two ticks\<close>

text \<open>The library does not fail to commit, to read its metadata or to reload.\<close>

definition tantivy_reliable :: "('x, 'q) tantivy \<Rightarrow> bool" where
  "tantivy_reliable L \<longleftrightarrow>
     (\<forall>x. \<exists>c x'. tv_commit L x = (Some c, x')) \<and> (\<forall>x. \<exists>c. tv_load_metas L x = Some c) \<and> (\<forall>x. \<exists>x'. tv_reload L x = (True, x'))"

text \<open>Steps while no message comes; the watch may call back.\<close>

definition fts_quiet :: "('x, 'q) fts_params \<Rightarrow> 'g fts_env \<Rightarrow> ('x, 'g) fts_system \<Rightarrow> ('x, 'g) fts_system \<Rightarrow> bool" where
  "fts_quiet P E s s' \<longleftrightarrow>
     fts_internal P E s s' \<or> (\<exists>a<addresses s. s' = set_state a (request_reload (state_at s a)) s)"

definition ticked :: "('x, 'g) fts_system \<Rightarrow> ('x, 'g) fts_system" where
  "ticked s = s\<lparr>fy_pc := FtsTicking (map snd (fa_states (fy_actor s)))\<rparr>"

fun writes :: "'g fts_job \<Rightarrow> bool" where
  "writes (AddJob p document g) = True"
| "writes (RemoveJob p g) = True"
| "writes _ = False"

text \<open>After the first tick: an operation that is not committed will be.\<close>

definition commits_due :: "('x, 'g) fts_system \<Rightarrow> bool" where
  "commits_due s \<longleftrightarrow> fy_channel s = [] \<and> (\<forall>tk\<in>#in_flight s. \<not> writes (snd tk)) \<and>
     (\<forall>a<addresses s. fx_uncommitted (state_at s a) = [] \<or> a \<in> set (pc_rest (fy_pc s)) \<or> CommitJob \<in># jobs_at a (in_flight s))"

text \<open>After the second: a commit that is not searchable will be.\<close>

definition reload_due :: "('x \<Rightarrow> index_view) \<Rightarrow> ('x, 'g) fts_state \<Rightarrow> 'g fts_job multiset \<Rightarrow> bool \<Rightarrow> bool" where
  "reload_due V st js left \<longleftrightarrow> fx_uncommitted st = [] \<and>
     (fx_unsearchable st = [] \<or> left \<or> fx_requested st \<or> fx_reload_pc st \<noteq> ReloadWaits) \<and>
     (\<forall>job\<in>#js. \<not> writes job \<and> job \<noteq> CommitJob \<and> guards_entry job = {#} \<and> job \<noteq> ReloadFinishJob None \<and>
        (\<forall>c. reload_opstamp job = Some c \<longrightarrow> c = lv_stamp (V (fx_tantivy st))))"

definition reloads_due :: "('x \<Rightarrow> index_view) \<Rightarrow> ('x, 'g) fts_system \<Rightarrow> bool" where
  "reloads_due V s \<longleftrightarrow> fy_channel s = [] \<and>
     (\<forall>a<addresses s. reload_due V (state_at s a) (jobs_at a (in_flight s)) (a \<in> set (pc_rest (fy_pc s))))"

lemma run_fts_quiet:
  assumes "run_fts_job L n t job st = Ok (rest, replies, st')" and "\<not> writes job" and "tantivy_reliable L"
  shows "(rest \<noteq> None \<longrightarrow> \<not> writes (the rest)) \<and>
    (fx_uncommitted st = [] \<or> job = CommitJob \<longrightarrow> fx_uncommitted st' = []) \<and> fx_requested st' = fx_requested st"
proof (cases job)
  case CommitJob
  obtain c x where "tv_commit L (fx_tantivy st) = (Some c, x)" using assms(3) unfolding tantivy_reliable_def by blast
  then show ?thesis using assms(1) CommitJob by (auto simp: writer_commit_def)
qed (use assms(1,2) in \<open>auto simp: result_simps drop_guards_when_searchable_def reload_finished_def split: prod.splits option.splits if_splits\<close>)

text \<open>The shape of a step of a task.\<close>

lemma run_flight:
  assumes "fy_running s = before @ (a, job) # after"
    and "s' = set_state a st s\<lparr>fy_running := before @ map (Pair a) (case rest of Some job' \<Rightarrow> [job'] | None \<Rightarrow> []) @ after, fy_replies := r\<rparr>"
  obtains others where "in_flight s = add_mset (a, job) others" and "in_flight s' = image_mset (Pair a) (option_mset rest) + others"
proof
  let ?others = "mset before + mset after + mset (fy_queue s) + pc_held (fy_pc s)"
  show "in_flight s = add_mset (a, job) ?others" using assms(1) by (simp add: in_flight_def)
  show "in_flight s' = image_mset (Pair a) (option_mset rest) + ?others"
    using assms(2) by (cases rest) (simp_all add: in_flight_def)
qed

lemma commits_due_step:
  assumes L: "tantivy_ok (fp_library P) V" and n: "0 < fp_commit_threshold P" and reliable: "tantivy_reliable (fp_library P)"
    and inv: "fts_inv P V op_of s" and due: "commits_due s" and step: "fts_internal P E s s'"
  shows "commits_due s'"
  using step
proof cases
  case (receive msg msgs allocate t task replies refused ac)
  then show ?thesis using due by (simp add: commits_due_def)
next
  case (tick_next a rest job st)
  have a: "a < addresses s" using fts_invD(3) [OF inv, of a] tick_next by simp
  have flight: "in_flight s' = image_mset (Pair a) (option_mset job) + in_flight s"
    using tick_next by (cases job) (simp_all add: in_flight_def pc_then_def)
  have rest: "pc_rest (fy_pc s') = rest" using tick_next by (cases job) (simp_all add: pc_then_def)
  have st: "fx_uncommitted st = fx_uncommitted (state_at s a)" "job = None \<or> job = Some CommitJob"
      "fx_uncommitted st \<noteq> [] \<longrightarrow> job = Some CommitJob"
    using tick_next(3) by (auto simp: tick_state_def has_uncommitted_docs_def request_reload_def split: if_splits)
  have "state_at s' b = (if b = a then st else state_at s b)" for b
    using same_actor(2) [of s' "set_state a st s"] tick_next(1) a by simp
  moreover have "addresses s' = addresses s" "fy_channel s' = fy_channel s"
    using same_actor(1) [of s' "set_state a st s"] tick_next(1) by simp_all
  ultimately show ?thesis
    using due st tick_next(2) unfolding commits_due_def flight rest by (cases job) auto
next
  case (send tk rest)
  have "in_flight s' = in_flight s" "addresses s' = addresses s" "state_at s' = state_at s"
    using send by (simp_all add: in_flight_def addresses_def state_at_def fun_eq_iff)
  then show ?thesis using due send by (simp add: commits_due_def)
next
  case (reload_changed a)
  then show ?thesis using due by (auto simp: commits_due_def)
next
  case (reload_send a)
  have "in_flight s' = add_mset (a, ReloadJob) (in_flight s)" using reload_send(1) by (simp add: in_flight_def)
  moreover have "state_at s' b = (if b = a then (state_at s a)\<lparr>fx_reload_pc := ReloadRuns\<rparr> else state_at s b)" for b
    using same_actor(2) [of s' "set_state a ((state_at s a)\<lparr>fx_reload_pc := ReloadRuns\<rparr>) s"] reload_send(1,2) by simp
  moreover have "addresses s' = addresses s"
    using same_actor(1) [of s' "set_state a ((state_at s a)\<lparr>fx_reload_pc := ReloadRuns\<rparr>) s"] reload_send(1) by simp
  ultimately show ?thesis using due reload_send(1) by (auto simp: commits_due_def)
next
  case (start_task tk queue)
  have "in_flight s' = in_flight s" "addresses s' = addresses s" "state_at s' = state_at s"
    using start_task by (simp_all add: in_flight_def addresses_def state_at_def fun_eq_iff)
  then show ?thesis using due start_task by (simp add: commits_due_def)
next
  case (run_task before a job after t rest replies st)
  obtain others where flight: "in_flight s = add_mset (a, job) others" "in_flight s' = image_mset (Pair a) (option_mset rest) + others"
    using run_flight [OF run_task(2,1)] .
  have a: "a < addresses s" using fts_invD(2) [OF inv, of "(a, job)"] flight by simp
  have "\<not> writes job" using due flight by (simp add: commits_due_def)
  note quiet = run_fts_quiet [OF run_task(4) this reliable]
  have "state_at s' b = (if b = a then st else state_at s b)" for b
    using same_actor(2) [of s' "set_state a st s"] run_task(1) a by simp
  moreover have "addresses s' = addresses s" "fy_channel s' = fy_channel s" "fy_pc s' = fy_pc s"
    using same_actor(1) [of s' "set_state a st s"] run_task(1) by simp_all
  ultimately show ?thesis
    using due quiet unfolding commits_due_def flight by (cases rest) auto
next
  case (task_panics before a job after t e)
  then show ?thesis using fts_run_ok [OF L n inv task_panics(2), of t] by auto
qed

lemma run_reload_due:
  assumes run: "run_fts_job L n t job st = Ok (rest, replies, st')" and L: "tantivy_ok L V" and reliable: "tantivy_reliable L"
    and inv: "guards_inv config op_of (V (fx_tantivy st)) st (add_mset job js)" and due: "reload_due V st (add_mset job js) left"
  shows "reload_due V st' (js + option_mset rest) left"
proof (cases "is_reload job")
  case False
  then have "st' = st \<and> rest = None"
    using run due by (cases job) (auto simp: reload_due_def result_simps)
  then show ?thesis using due by (auto simp: reload_due_def)
next
  case reload: True
  have others: "reload_opstamp job' = None" if "job' \<in># js" for job'
    using no_other_opstamp [OF inv reload that] .
  have runs: "fx_reload_pc st = ReloadRuns"
    using guards_invD(12) [OF inv] reload by (cases "fx_reload_pc st = ReloadRuns") simp_all
  show ?thesis
  proof (cases job)
    case ReloadJob
    obtain c where c: "tv_load_metas L (fx_tantivy st) = Some c" using reliable unfolding tantivy_reliable_def by blast
    then have "c = lv_stamp (V (fx_tantivy st))" using L by (simp add: tantivy_ok_def reader_ok_def)
    then show ?thesis using run due c ReloadJob by (auto simp: reload_due_def)
  next
    case (ReloadReaderJob c)
    obtain x where x: "tv_reload L (fx_tantivy st) = (True, x)" using reliable unfolding tantivy_reliable_def by blast
    then have "V x = reload_view (V (fx_tantivy st))" using L unfolding tantivy_ok_def reader_ok_def by (metis fst_conv snd_conv)
    then show ?thesis using run due x ReloadReaderJob runs others by (auto simp: reload_due_def)
  next
    case (ReloadFinishJob r)
    then have r: "r = Some (lv_stamp (V (fx_tantivy st)))" using due by (cases r) (auto simp: reload_due_def)
    have "filter (\<lambda>(committed, _). lv_stamp (V (fx_tantivy st)) < committed) (fx_unsearchable st) = []"
    proof -
      have "\<not> lv_stamp (V (fx_tantivy st)) < fst e" if "e \<in> set (fx_unsearchable st)" for e
        using guards_invD(6) [OF inv, of e] that by (simp add: entries_def entry_ok_def not_less)
      then show ?thesis by (auto simp: filter_empty_conv)
    qed
    then show ?thesis using run due ReloadFinishJob r others by (auto simp: reload_due_def reload_finished_def)
  qed (use reload in simp_all)
qed

lemma reload_due_state:
  "reload_due V st js left \<Longrightarrow> same_guards st st' \<Longrightarrow>
   fx_unsearchable st = [] \<or> left' \<or> fx_requested st' \<or> fx_reload_pc st' \<noteq> ReloadWaits \<Longrightarrow> reload_due V st' js left'"
  by (simp add: reload_due_def same_guards_def)

lemma reload_due_mono: "reload_due V st js left \<Longrightarrow> left \<longrightarrow> left' \<Longrightarrow> reload_due V st js left'"
  by (auto simp: reload_due_def)

lemma reloads_due_set:
  assumes due: "reloads_due V s" and a: "a < addresses s" and s': "fy_actor s' = fy_actor (set_state a st s)" "fy_channel s' = []"
    and st: "reload_due V st (jobs_at a (in_flight s')) (a \<in> set (pc_rest (fy_pc s')))"
    and others: "\<And>b. b \<noteq> a \<Longrightarrow> jobs_at b (in_flight s') = jobs_at b (in_flight s)"
      "\<And>b. b \<noteq> a \<Longrightarrow> b \<in> set (pc_rest (fy_pc s)) \<longrightarrow> b \<in> set (pc_rest (fy_pc s'))"
  shows "reloads_due V s'"
proof -
  have same: "addresses s' = addresses s" "state_at s' b = (if b = a then st else state_at s b)" for b
    using same_actor(1,2) [OF s'(1)] a by simp_all
  have "reload_due V (state_at s' b) (jobs_at b (in_flight s')) (b \<in> set (pc_rest (fy_pc s')))" if "b < addresses s" for b
  proof (cases "b = a")
    case False
    have "reload_due V (state_at s b) (jobs_at b (in_flight s)) (b \<in> set (pc_rest (fy_pc s)))"
      using due that by (simp add: reloads_due_def)
    from reload_due_mono [OF this others(2) [OF False]] show ?thesis using same others(1) False by simp
  qed (use st same in simp)
  then show ?thesis using s'(2) same by (simp add: reloads_due_def)
qed

lemma reloads_due_step:
  assumes L: "tantivy_ok (fp_library P) V" and n: "0 < fp_commit_threshold P" and reliable: "tantivy_reliable (fp_library P)"
    and inv: "fts_inv P V op_of s" and due: "reloads_due V s" and step: "fts_internal P E s s'"
  shows "reloads_due V s'"
proof -
  have channel: "fy_channel s = []" using due by (simp add: reloads_due_def)
  have at: "reload_due V (state_at s a) (jobs_at a (in_flight s)) (a \<in> set (pc_rest (fy_pc s)))" if "a < addresses s" for a
    using due that by (simp add: reloads_due_def)
  show ?thesis
    using step
  proof cases
    case (receive msg msgs allocate t task replies refused ac)
    then show ?thesis using channel by simp
  next
    case (tick_next a rest job st)
    have a: "a < addresses s" using fts_invD(3) [OF inv, of a] tick_next by simp
    have job: "job = None" and st: "same_guards (state_at s a) st" "fx_reload_pc st = fx_reload_pc (state_at s a)"
      "fx_unsearchable (state_at s a) = [] \<or> fx_requested st"
      using tick_next(3) at [OF a]
      by (auto simp: tick_state_def has_uncommitted_docs_def needs_reload_def request_reload_def reload_due_def same_guards_def split: if_splits)
    have "in_flight s' = in_flight s" "pc_rest (fy_pc s') = rest"
      using tick_next job by (simp_all add: in_flight_def pc_then_def)
    moreover have "reload_due V st (jobs_at a (in_flight s)) (a \<in> set rest)"
      using reload_due_state [OF at [OF a] st(1)] st(3) by blast
    ultimately show ?thesis
      using tick_next(1,2) channel by (intro reloads_due_set [OF due a]) auto
  next
    case (send tk rest)
    have "in_flight s' = in_flight s" "addresses s' = addresses s" "state_at s' = state_at s"
      using send by (simp_all add: in_flight_def addresses_def state_at_def fun_eq_iff)
    then show ?thesis using due send by (simp add: reloads_due_def)
  next
    case (reload_changed a)
    have "reload_due V ((state_at s a)\<lparr>fx_requested := False, fx_reload_pc := ReloadSends\<rparr>) (jobs_at a (in_flight s)) (a \<in> set (pc_rest (fy_pc s)))"
      using reload_due_state [OF at [OF reload_changed(2)]] by simp
    then show ?thesis using reload_changed(1) channel by (intro reloads_due_set [OF due reload_changed(2)]) auto
  next
    case (reload_send a)
    have "reload_due V ((state_at s a)\<lparr>fx_reload_pc := ReloadRuns\<rparr>) (jobs_at a (in_flight s)) (a \<in> set (pc_rest (fy_pc s)))"
      using reload_due_state [OF at [OF reload_send(2)]] by simp
    then have "reload_due V ((state_at s a)\<lparr>fx_reload_pc := ReloadRuns\<rparr>) (add_mset ReloadJob (jobs_at a (in_flight s))) (a \<in> set (pc_rest (fy_pc s)))"
      by (simp add: reload_due_def)
    moreover have "in_flight s' = add_mset (a, ReloadJob) (in_flight s)" using reload_send(1) by (simp add: in_flight_def)
    ultimately show ?thesis using reload_send(1) channel by (intro reloads_due_set [OF due reload_send(2)]) auto
  next
    case (start_task tk queue)
    have "in_flight s' = in_flight s" "addresses s' = addresses s" "state_at s' = state_at s"
      using start_task by (simp_all add: in_flight_def addresses_def state_at_def fun_eq_iff)
    then show ?thesis using due start_task by (simp add: reloads_due_def)
  next
    case (run_task before a job after t rest replies st)
    obtain others where flight: "in_flight s = add_mset (a, job) others" "in_flight s' = image_mset (Pair a) (option_mset rest) + others"
      using run_flight [OF run_task(2,1)] .
    have a: "a < addresses s" using fts_invD(2) [OF inv, of "(a, job)"] flight by simp
    have "reload_due V st (jobs_at a others + option_mset rest) (a \<in> set (pc_rest (fy_pc s)))"
      using run_reload_due [OF run_task(4) L reliable] fts_invD(5) [OF inv a] at [OF a] flight by (simp add: state_inv_def)
    moreover have "jobs_at a (in_flight s') = jobs_at a others + option_mset rest" "\<And>b. b \<noteq> a \<Longrightarrow> jobs_at b (in_flight s') = jobs_at b (in_flight s)"
      unfolding flight by (cases rest; simp)+
    ultimately show ?thesis using run_task(1) channel by (intro reloads_due_set [OF due a]) auto
  next
    case (task_panics before a job after t e)
    then show ?thesis using fts_run_ok [OF L n inv task_panics(2), of t] by auto
  qed
qed

lemma quiet_reachable:
  "(fts_quiet P E)\<^sup>*\<^sup>* s s' \<Longrightarrow> fts_reachable P E msgs s \<Longrightarrow> fts_reachable P E msgs s'"
proof (induction rule: rtranclp_induct)
  case (step s1 s2)
  then show ?case
    using fts_reachable.internal fts_reachable.event [OF _ watch_calls] by (auto simp: fts_quiet_def)
qed

lemma ticked_reachable: "fts_reachable P E msgs s \<Longrightarrow> fts_idle s \<Longrightarrow> fts_reachable P E msgs (ticked s)"
  unfolding ticked_def by (rule fts_reachable.event [OF _ tick]) (simp_all add: fts_idle_def)

lemma idle_empty: "fts_idle s \<Longrightarrow> in_flight s = {#} \<and> pc_rest (fy_pc s) = []"
  by (simp add: fts_idle_def in_flight_def)

lemma ticked_simps [simp]:
  "addresses (ticked s) = addresses s" "state_at (ticked s) = state_at s" "fy_channel (ticked s) = fy_channel s"
  "pc_rest (fy_pc (ticked s)) = map snd (fa_states (fy_actor s))"
  by (simp_all add: ticked_def addresses_def state_at_def fun_eq_iff)

lemma ticked_flight: "fts_idle s \<Longrightarrow> in_flight (ticked s) = {#}"
  by (simp add: ticked_def fts_idle_def in_flight_def)

lemma quiet_keeps:
  assumes relies: "fts_relies P V op_of msgs" and reliable: "tantivy_reliable (fp_library P)"
    and run: "(fts_quiet P E)\<^sup>*\<^sup>* s s'" and reach: "fts_reachable P E msgs s"
  shows "commits_due s \<Longrightarrow> commits_due s'" and "reloads_due V s \<Longrightarrow> reloads_due V s'"
proof -
  have L: "tantivy_ok (fp_library P) V" and n: "0 < fp_commit_threshold P" using relies by (simp_all add: fts_relies_def)
  have *: "(commits_due s \<longrightarrow> commits_due s') \<and> (reloads_due V s \<longrightarrow> reloads_due V s')"
    using run
  proof (induction rule: rtranclp_induct)
    case (step s1 s2)
    have inv: "fts_inv P V op_of s1" using fts_reachable_ok [OF quiet_reachable [OF step.hyps(1) reach] relies] by simp
    have "(commits_due s1 \<longrightarrow> commits_due s2) \<and> (reloads_due V s1 \<longrightarrow> reloads_due V s2)"
    proof (cases "fts_internal P E s1 s2")
      case True
      then show ?thesis using commits_due_step [OF L n reliable inv] reloads_due_step [OF L n reliable inv] by blast
    next
      case False
      then obtain a where a: "a < addresses s1" "s2 = set_state a (request_reload (state_at s1 a)) s1"
        using step.hyps(2) by (auto simp: fts_quiet_def)
      have "commits_due s1 \<longrightarrow> commits_due s2" using a by (auto simp: commits_due_def request_reload_def)
      moreover have "reloads_due V s1 \<longrightarrow> reloads_due V s2"
        using a reload_due_state [of V "state_at s1 a" _ _ "request_reload (state_at s1 a)"]
        by (auto simp: reloads_due_def request_reload_def)
      ultimately show ?thesis ..
    qed
    then show ?case using step.IH by blast
  qed simp
  show "commits_due s \<Longrightarrow> commits_due s'" and "reloads_due V s \<Longrightarrow> reloads_due V s'" using * by blast+
qed

text \<open>An index that is settled: it holds no guard, and a search sees all it was told.\<close>

definition settled_state :: "('x \<Rightarrow> index_view) \<Rightarrow> ('x, 'g) fts_state \<Rightarrow> bool" where
  "settled_state V st \<longleftrightarrow> fx_uncommitted st = [] \<and> fx_unsearchable st = [] \<and>
     lv_served (V (fx_tantivy st)) = length (lv_log (V (fx_tantivy st)))"

lemma settledI:
  assumes inv: "guards_inv config op_of (V (fx_tantivy st)) st {#}" and st: "fx_uncommitted st = []" "fx_unsearchable st = []"
  shows "settled_state V st \<and> image_mset op_of (mset (fx_dropped st)) = mset (lv_log (V (fx_tantivy st)))"
proof -
  let ?v = "V (fx_tantivy st)"
  note I = guards_invD [OF inv]
  have none: "entries st {#} = {#}" using st(2) by (simp add: entries_def)
  have "fx_reloaded st = lv_stamp ?v" using I(13) by (simp add: none)
  then have "committed ?v \<le> lv_served ?v" using I(9) by (simp add: committed_def)
  moreover have "committed ?v = length (lv_log ?v)"
    using I(3,4) st(1) by (simp add: commits_ok_def)
  ultimately show ?thesis
    using I(3,5) st by (simp add: settled_state_def commits_ok_def none)
qed

lemma settled_after:
  assumes relies: "fts_relies P V op_of msgs" and reliable: "tantivy_reliable (fp_library P)"
    and reach: "fts_reachable P E msgs s" and "fts_idle s"
    and first: "(fts_quiet P E)\<^sup>*\<^sup>* (ticked s) s1" and "fts_idle s1"
    and second: "(fts_quiet P E)\<^sup>*\<^sup>* (ticked s1) s2" and "fts_idle s2"
  shows "\<forall>a<addresses s2. settled_state V (state_at s2 a) \<and>
    image_mset op_of (mset (fx_dropped (state_at s2 a))) = mset (lv_log (V (fx_tantivy (state_at s2 a))))"
proof -
  have reach1: "fts_reachable P E msgs s1"
    using quiet_reachable [OF first ticked_reachable [OF reach assms(4)]] .
  have reach2: "fts_reachable P E msgs s2"
    using quiet_reachable [OF second ticked_reachable [OF reach1 assms(6)]] .
  have inv: "fts_inv P V op_of s" "fts_inv P V op_of s1" "fts_inv P V op_of s2"
    using fts_reachable_ok [OF reach relies] fts_reachable_ok [OF reach1 relies] fts_reachable_ok [OF reach2 relies] by simp_all
  have "commits_due (ticked s)"
    using fts_invD(7) [OF inv(1)] assms(4) ticked_flight [OF assms(4)] by (auto simp: commits_due_def fts_idle_def)
  then have "commits_due s1" by (rule quiet_keeps(1) [OF relies reliable first ticked_reachable [OF reach assms(4)]])
  then have "fx_uncommitted (state_at s1 a) = []" if "a < addresses s1" for a
    using that idle_empty [OF assms(6)] by (simp add: commits_due_def)
  then have "reloads_due V (ticked s1)"
    using fts_invD(7) [OF inv(2)] assms(6) ticked_flight [OF assms(6)] by (auto simp: reloads_due_def reload_due_def fts_idle_def)
  then have "reloads_due V s2" by (rule quiet_keeps(2) [OF relies reliable second ticked_reachable [OF reach1 assms(6)]])
  then have "fx_uncommitted (state_at s2 a) = [] \<and> fx_unsearchable (state_at s2 a) = []" if "a < addresses s2" for a
    using that idle_empty [OF assms(8)] assms(8) by (auto simp: reloads_due_def reload_due_def fts_idle_def)
  moreover have "guards_inv (fp_config P) op_of (V (fx_tantivy (state_at s2 a))) (state_at s2 a) {#}" if "a < addresses s2" for a
    using fts_invD(5) [OF inv(3) that] idle_empty [OF assms(8)] by (simp add: state_inv_def)
  ultimately show ?thesis using settledI by blast
qed

text \<open>
  C15: two ticks after the last message every document can be found. If the library does not fail to
  commit and to reload, then from any reachable idle state, after a tick, any schedule until the
  system is idle again, another tick and any schedule until it is idle: every operation an index was
  told is searchable, no guard is held, and the guards dropped are those of all its operations; the
  calls of the watch are not needed for that, and do no harm.
\<close>

theorem fts_settles:
  assumes relies: "fts_relies P V op_of msgs" and reliable: "tantivy_reliable (fp_library P)"
    and reach: "fts_reachable P E msgs s" and "fts_idle s"
    and first: "(fts_quiet P E)\<^sup>*\<^sup>* (ticked s) s1" and "fts_idle s1"
    and second: "(fts_quiet P E)\<^sup>*\<^sup>* (ticked s1) s2" and "fts_idle s2"
  shows "\<forall>a<addresses s2. settled_state V (state_at s2 a) \<and>
    image_mset op_of (mset (fx_dropped (state_at s2 a))) = mset (lv_log (V (fx_tantivy (state_at s2 a))))"
  by (rule settled_after [OF assms])

end
