(* ===== verification/Fts_Contents.thy ===== *)
theory Fts_Contents
  imports Fts_Progress
begin

text \<open>
  What a full-text index finds. Tasks of different documents commute, so a document that is live
  is found; a removal that overtakes the addition of its document leaves a document behind, because
  tasks on one document are not kept in order.
\<close>

section \<open>Documents of a log\<close>

lemma in_documents_of:
  assumes "LogDoc d \<in> set log" and "\<And>field v. LogTerm field v \<in> set log \<Longrightarrow> (field, U64Value v) \<notin> set d"
  shows "d \<in> set (documents_of log)"
  using assms
proof (induction log rule: rev_induct)
  case (snoc l log)
  then show ?case by (cases l) auto
qed simp

lemma documents_of_logged: "d \<in> set (documents_of log) \<Longrightarrow> LogDoc d \<in> set log"
proof (induction log rule: rev_induct)
  case (snoc l log)
  then show ?case by (cases l) auto
qed (simp add: documents_of_def)

section \<open>What the index was told\<close>

fun added_id :: "'g fts_index \<Rightarrow> primary_id list" where
  "added_id (FtsAddDocument p document g) = [p]"
| "added_id _ = []"

fun removed_id :: "'g fts_index \<Rightarrow> primary_id list" where
  "removed_id (FtsRemoveDocument p g) = [p]"
| "removed_id _ = []"

definition added_ids :: "'g fts_index list \<Rightarrow> primary_id list" where
  "added_ids msgs = concat (map added_id msgs)"

definition removed_ids :: "'g fts_index list \<Rightarrow> primary_id list" where
  "removed_ids msgs = concat (map removed_id msgs)"

text \<open>The messages of the monitor; a guard is put together with what it guards.\<close>

fun fts_message :: "document_index \<Rightarrow> (logged \<times> async_in_progress) fts_index" where
  "fts_message (AddDocumentMsg p document pr) = FtsAddDocument p document (LogDoc (doc_of p document), pr)"
| "fts_message (RemoveDocumentMsg p pr) = FtsRemoveDocument p (term_of p, pr)"

lemma fts_messages_named: "list_all (\<lambda>msg. named fst (message_op msg)) (map fts_message msgs)"
proof (induction msgs)
  case (Cons msg msgs)
  then show ?case by (cases msg) (simp_all add: named_def)
qed simp

text \<open>With identifiers that are added once, what an index is told is what is added and not removed.\<close>

lemma told_ids:
  assumes "told_all documents_told msgs {} = Some S" and "distinct (added_ids (map fts_message msgs))"
  shows "S = set (added_ids (map fts_message msgs)) - set (removed_ids (map fts_message msgs)) \<and>
    set (removed_ids (map fts_message msgs)) \<subseteq> set (added_ids (map fts_message msgs))"
  using assms
proof (induction msgs arbitrary: S rule: rev_induct)
  case Nil
  then show ?case by (simp add: added_ids_def removed_ids_def)
next
  case (snoc msg msgs)
  obtain S0 where S0: "told_all documents_told msgs {} = Some S0" "documents_told msg S0 = Some S"
    using snoc.prems(1) by (auto simp: told_all_snoc bind_eq_Some_conv)
  have "distinct (added_ids (map fts_message msgs))" using snoc.prems(2) by (simp add: added_ids_def)
  note IH = snoc.IH [OF S0(1) this]
  show ?case
  proof (cases msg)
    case (AddDocumentMsg p document pr)
    then have "S = insert p S0" "p \<notin> set (added_ids (map fts_message msgs))"
      using S0(2) snoc.prems(2) by (auto simp: added_ids_def split: if_splits)
    then show ?thesis using IH AddDocumentMsg by (auto simp: added_ids_def removed_ids_def)
  next
    case (RemoveDocumentMsg p pr)
    then have "p \<in> S0" "S = S0 - {p}" using S0(2) by (auto split: if_splits)
    then show ?thesis using IH RemoveDocumentMsg by (auto simp: added_ids_def removed_ids_def)
  qed
qed

text \<open>The operations of the messages.\<close>

lemma logged_messages:
  "LogDoc d \<in> fst ` set_mset (messages_guards (map fts_message msgs)) \<longleftrightarrow>
     (\<exists>p document pr. d = doc_of p document \<and> AddDocumentMsg p document pr \<in> set msgs)"
  "LogTerm field v \<in> fst ` set_mset (messages_guards (map fts_message msgs)) \<longleftrightarrow>
     (\<exists>p pr. LogTerm field v = term_of p \<and> RemoveDocumentMsg p pr \<in> set msgs)"
proof (induction msgs)
  case (Cons msg msgs)
  {
    case 1
    then show ?case using Cons.IH by (cases msg) (auto simp: message_guards_def term_of_def image_Un)
  next
    case 2
    then show ?case using Cons.IH by (cases msg) (auto simp: message_guards_def term_of_def image_Un)
  }
qed simp_all

lemma removed_ids_iff: "p \<in> set (removed_ids (map fts_message msgs)) \<longleftrightarrow> (\<exists>pr. RemoveDocumentMsg p pr \<in> set msgs)"
proof (induction msgs)
  case (Cons msg msgs)
  then show ?case by (cases msg) (auto simp: removed_ids_def)
qed (simp add: removed_ids_def)

lemma added_ids_iff: "p \<in> set (added_ids (map fts_message msgs)) \<longleftrightarrow> (\<exists>document pr. AddDocumentMsg p document pr \<in> set msgs)"
proof (induction msgs)
  case (Cons msg msgs)
  then show ?case by (cases msg) (auto simp: added_ids_def)
qed (simp add: added_ids_def)

lemma doc_term: "(field, U64Value v) \<in> set (doc_of p document) \<and> LogTerm field v = term_of p' \<Longrightarrow> p' = p"
  by (cases p; cases p') (auto simp: doc_of_def term_of_def)

section \<open>One index\<close>

text \<open>The actor serves one key; while the tables give it one identifier, it has one state.\<close>

definition tables_agree :: "('x, 'q) fts_params \<Rightarrow> 'g fts_env \<Rightarrow> index_id \<Rightarrow> bool" where
  "tables_agree P E x \<longleftrightarrow> (\<forall>t. fe_table E t \<longrightarrow> search_index_id t (fc_key (fp_config P)) = Some x)"

definition one_index :: "index_id \<Rightarrow> ('x, 'g) fts_system \<Rightarrow> bool" where
  "one_index x s \<longleftrightarrow> fa_states (fy_actor s) = [] \<and> addresses s = 0 \<or> fa_states (fy_actor s) = [(x, 0)] \<and> addresses s = 1"

lemma get_or_create_one:
  assumes "search_index_id t (fc_key (fp_config P)) = Some x" and "one_index x s" and "get_or_create_state P t (fy_actor s) = (found, ac)"
  shows "one_index x (s\<lparr>fy_actor := ac\<rparr>)"
  using assms by (auto simp: one_index_def get_or_create_state_def addresses_def bt_get_def Let_def split: option.splits sum.splits if_splits)

lemma one_index_receive:
  assumes "search_index_id t (fc_key (fp_config P)) = Some x" and one: "one_index x s"
    and run: "fts_receive P t allocate msg (fy_actor s) = (task, replies, refused, ac)"
  shows "one_index x (s\<lparr>fy_actor := ac\<rparr>)"
proof (cases "is_request msg")
  case True
  then have "ac = fy_actor s" using run by (cases msg) (auto split: option.splits)
  then show ?thesis using one by simp
next
  case False
  obtain found ac1 where create: "get_or_create_state P t (fy_actor s) = (found, ac1)" by fastforce
  have "one_index x (s\<lparr>fy_actor := ac1\<lparr>fa_allocate_prev := prev\<rparr>\<rparr>)" for prev
    using get_or_create_one [OF assms(1,2) create] by (simp add: one_index_def addresses_def)
  then show ?thesis
    using run create get_or_create_one [OF assms(1,2) create] False
    by (cases msg; cases found) (auto simp: can_allocate_memory_def Let_def split: if_splits)
qed

lemma one_index_same:
  "one_index x s \<Longrightarrow> fa_states (fy_actor s') = fa_states (fy_actor s) \<Longrightarrow> addresses s' = addresses s \<Longrightarrow> one_index x s'"
  by (simp add: one_index_def)

lemma reachable_one_index:
  assumes "fts_reachable P E msgs s" and "tables_agree P E x"
  shows "one_index x s"
  using assms(1)
proof induction
  case start
  show ?case by (simp add: one_index_def fts_new_def addresses_def)
next
  case (internal s s')
  from internal.hyps(2) show ?case
  proof cases
    case (receive msg ms allocate t task replies refused ac)
    have "one_index x (s\<lparr>fy_actor := ac\<rparr>)"
      using assms(2) receive(5) by (intro one_index_receive [OF _ internal.IH receive(6)]) (simp add: tables_agree_def)
    then show ?thesis by (simp add: receive(1) one_index_def addresses_def)
  qed (use internal.IH in \<open>auto intro!: one_index_same [OF internal.IH] simp: addresses_def set_state_def\<close>)
next
  case (event s s')
  from event.hyps(2) show ?case
    by cases (use event.IH in \<open>auto intro!: one_index_same [OF event.IH] simp: addresses_def set_state_def\<close>)
qed

section \<open>Live documents\<close>

text \<open>The guards of what was not carried out: refused for want of memory or an index, or by the library.\<close>

definition lost_guards :: "('x, 'g) fts_system \<Rightarrow> 'g multiset" where
  "lost_guards s = mset (fy_refused s) + sum_list (map (\<lambda>st. mset (fx_failed st)) (store_of s))"

lemma settled_log:
  assumes relies: "fts_relies P V op_of msgs" and agree: "tables_agree P E x" and reach: "fts_reachable P E msgs s"
    and idle: "fts_idle s" "fy_unsent s = []" and settled: "\<forall>a<addresses s. settled_state V (state_at s a)"
  shows "image_mset op_of (messages_guards msgs - lost_guards s) =
      (if addresses s = 0 then {#} else mset (lv_log (V (fx_tantivy (state_at s 0))))) \<and> lost_guards s \<subseteq># messages_guards msgs"
proof -
  have inv: "fts_inv P V op_of s" and all: "all_guards s = messages_guards msgs"
    using fts_reachable_ok [OF reach relies] by simp_all
  have total: "mset (fy_refused s) + sum_list (map state_guards (store_of s)) = messages_guards msgs"
    using all idle idle_empty [OF idle(1)] by (simp add: all_guards_def fts_idle_def)
  show ?thesis
  proof (cases "addresses s = 0")
    case True
    then show ?thesis using total by (simp add: lost_guards_def addresses_def store_of_def flip: total)
  next
    case False
    then have one: "addresses s = 1" using reachable_one_index [OF reach agree] by (auto simp: one_index_def)
    then have store: "store_of s = [state_at s 0]"
      by (simp add: addresses_def store_of_def state_at_def length_Suc_conv)
         (metis nth_Cons_0)
    have "guards_inv (fp_config P) op_of (V (fx_tantivy (state_at s 0))) (state_at s 0) {#}"
      using fts_invD(5) [OF inv, of 0] one idle_empty [OF idle(1)] by (simp add: state_inv_def)
    moreover have st: "fx_uncommitted (state_at s 0) = []" "fx_unsearchable (state_at s 0) = []"
      using settled one by (simp_all add: settled_state_def)
    ultimately have log: "image_mset op_of (mset (fx_dropped (state_at s 0))) = mset (lv_log (V (fx_tantivy (state_at s 0))))"
      using settledI by blast
    have "messages_guards msgs = mset (fx_dropped (state_at s 0)) + lost_guards s"
      using total st by (simp add: store lost_guards_def state_guards_def ac_simps)
    then show ?thesis using log one by simp
  qed
qed

text \<open>
  C13: a document that is live in the table can be found. Take any messages of the monitor that add no
  identifier twice, and any schedule that carried them all out and settled (two ticks suffice): a
  search sees each document whose identifier was added and not removed since, unless its message was
  refused for want of memory or the library failed on it; and it sees nothing that was not added.
\<close>

theorem fts_documents_found:
  assumes relies: "fts_relies P V fst (map fts_message msgs)" and agree: "tables_agree P E x"
    and reach: "fts_reachable P E (map fts_message msgs) s" and idle: "fts_idle s" "fy_unsent s = []"
    and settled: "\<forall>a<addresses s. settled_state V (state_at s a)"
    and told: "told_all documents_told msgs {} = Some S" and once: "distinct (added_ids (map fts_message msgs))"
    and t: "search_index_id t (fc_key (fp_config P)) = Some x"
  shows "(\<forall>p document pr. AddDocumentMsg p document pr \<in> set msgs \<longrightarrow> p \<in> S \<longrightarrow> (LogDoc (doc_of p document), pr) \<notin># lost_guards s \<longrightarrow>
      (\<exists>a. get_state t (fc_key (fp_config P)) (fy_actor s) = Some a \<and> doc_of p document \<in> set (searchable (V (fx_tantivy (state_at s a)))))) \<and>
    (\<forall>a d. get_state t (fc_key (fp_config P)) (fy_actor s) = Some a \<longrightarrow> d \<in> set (searchable (V (fx_tantivy (state_at s a)))) \<longrightarrow>
      (\<exists>p document pr. d = doc_of p document \<and> AddDocumentMsg p document pr \<in> set msgs))"
proof -
  let ?msgs = "map fts_message msgs" and ?log = "lv_log (V (fx_tantivy (state_at s 0)))"
  note log = settled_log [OF relies agree reach idle settled]
  have one: "one_index x s" by (rule reachable_one_index [OF reach agree])
  have state: "get_state t (fc_key (fp_config P)) (fy_actor s) = (if addresses s = 0 then None else Some 0)"
    using one t by (auto simp: get_state_def one_index_def bt_get_def)
  have all: "searchable (V (fx_tantivy (state_at s 0))) = documents_of ?log" if "addresses s \<noteq> 0"
    using settled that by (simp add: searchable_def settled_state_def)
  have from_message: "l \<in> fst ` set_mset (messages_guards ?msgs)" if "addresses s \<noteq> 0" "l \<in> set ?log" for l
  proof -
    have "l \<in># image_mset fst (messages_guards ?msgs - lost_guards s)" using log that by simp
    then show ?thesis by (auto dest: in_diffD)
  qed
  have found: "addresses s \<noteq> 0 \<and> doc_of p document \<in> set (documents_of ?log)"
    if add: "AddDocumentMsg p document pr \<in> set msgs" and p: "p \<in> S" and kept: "(LogDoc (doc_of p document), pr) \<notin># lost_guards s" for p document pr
  proof -
    let ?g = "(LogDoc (doc_of p document), pr)"
    have "?g \<in># messages_guards ?msgs"
      using add by (induction msgs) (auto simp: message_guards_def)
    then have "?g \<in># messages_guards ?msgs - lost_guards s"
      using kept by (simp add: in_diff_count not_in_iff)
    then have logged: "LogDoc (doc_of p document) \<in># image_mset fst (messages_guards ?msgs - lost_guards s)" by force
    then have addr: "addresses s \<noteq> 0" "LogDoc (doc_of p document) \<in> set ?log" using log by (auto split: if_splits)
    have "(field, U64Value v) \<notin> set (doc_of p document)" if deleted: "LogTerm field v \<in> set ?log" for field v
    proof
      assume field: "(field, U64Value v) \<in> set (doc_of p document)"
      obtain p' pr' where removed: "LogTerm field v = term_of p'" "RemoveDocumentMsg p' pr' \<in> set msgs"
        using from_message [OF addr(1) deleted] logged_messages(2) by blast
      then have "p' = p" using doc_term field by blast
      then show False using removed(2) p told_ids [OF told once] removed_ids_iff by blast
    qed
    then show ?thesis using addr in_documents_of by blast
  qed
  have "\<exists>p document pr. d = doc_of p document \<and> AddDocumentMsg p document pr \<in> set msgs"
    if "addresses s \<noteq> 0" "d \<in> set (documents_of ?log)" for d
    using from_message [OF that(1) documents_of_logged [OF that(2)]] logged_messages(1) by blast
  then show ?thesis using state all found by (metis (no_types, lifting) option.inject option.distinct(1))
qed

section \<open>A removal that overtakes\<close>

lemma run_fts_log:
  assumes "run_fts_job L n t job st = Ok (rest, replies, st')" and "\<not> writes job" and L: "tantivy_ok L V"
  shows "lv_log (V (fx_tantivy st')) = lv_log (V (fx_tantivy st))"
proof (cases job)
  case CommitJob
  obtain r x where commit: "tv_commit L (fx_tantivy st) = (r, x)" by fastforce
  have "lv_log (V x) = lv_log (V (fx_tantivy st))"
    using L [unfolded tantivy_ok_def writer_ok_def, THEN conjunct1, THEN conjunct2, THEN conjunct2, THEN spec, of "fx_tantivy st"] commit
    by (simp split: option.splits)
  then show ?thesis using assms(1) CommitJob commit by (auto simp: writer_commit_def split: option.splits)
next
  case (ReloadReaderJob c)
  obtain reloaded x where reload: "tv_reload L (fx_tantivy st) = (reloaded, x)" by fastforce
  have "lv_log (V x) = lv_log (V (fx_tantivy st))"
    using L unfolding tantivy_ok_def reader_ok_def by (metis fst_conv reload snd_conv view_simps(7))
  then show ?thesis using assms(1) ReloadReaderJob reload by auto
qed (use assms(1,2) in \<open>auto simp: result_simps drop_guards_when_searchable_def reload_finished_def split: option.splits if_splits\<close>)

lemma quiet_log:
  assumes relies: "fts_relies P V op_of msgs" and reliable: "tantivy_reliable (fp_library P)"
    and run: "(fts_quiet P E)\<^sup>*\<^sup>* s s'" and reach: "fts_reachable P E msgs s" and due: "commits_due s"
  shows "addresses s' = addresses s \<and> (\<forall>a<addresses s. lv_log (V (fx_tantivy (state_at s' a))) = lv_log (V (fx_tantivy (state_at s a))))"
  using run
proof (induction rule: rtranclp_induct)
  case (step s1 s2)
  have L: "tantivy_ok (fp_library P) V" and n: "0 < fp_commit_threshold P" using relies by (simp_all add: fts_relies_def)
  have reach1: "fts_reachable P E msgs s1" using quiet_reachable [OF step.hyps(1) reach] .
  have inv: "fts_inv P V op_of s1" using fts_reachable_ok [OF reach1 relies] by simp
  have due1: "commits_due s1" using quiet_keeps(1) [OF relies reliable step.hyps(1) reach due] .
  have "addresses s2 = addresses s1 \<and> (\<forall>a<addresses s1. lv_log (V (fx_tantivy (state_at s2 a))) = lv_log (V (fx_tantivy (state_at s1 a))))"
  proof (cases "fts_internal P E s1 s2")
    case True
    then show ?thesis
    proof cases
      case (receive msg ms allocate t task replies refused ac)
      then show ?thesis using due1 by (simp add: commits_due_def)
    next
      case (tick_next a rest job st)
      have "a < addresses s1" using fts_invD(3) [OF inv, of a] tick_next by simp
      moreover have "fx_tantivy st = fx_tantivy (state_at s1 a)"
        using tick_state_same [OF tick_next(3)] by (simp add: same_guards_def)
      ultimately show ?thesis
        using same_actor(1,2) [of s2 "set_state a st s1"] tick_next(1) by simp
    next
      case (reload_changed a)
      then show ?thesis by simp
    next
      case (reload_send a)
      then show ?thesis
        using same_actor(1,2) [of s2 "set_state a ((state_at s1 a)\<lparr>fx_reload_pc := ReloadRuns\<rparr>) s1"] by simp
    next
      case (run_task before a job after t rest replies st)
      have a: "a < addresses s1" and job: "\<not> writes job"
        using fts_invD(2) [OF inv, of "(a, job)"] due1 run_task(2) by (auto simp: in_flight_def commits_due_def)
      have "lv_log (V (fx_tantivy st)) = lv_log (V (fx_tantivy (state_at s1 a)))"
        using run_fts_log [OF run_task(4) job L] .
      then show ?thesis using a same_actor(1,2) [of s2 "set_state a st s1"] run_task(1) by simp
    next
      case (task_panics before a job after t e)
      then show ?thesis using fts_run_ok [OF L n inv task_panics(2), of t] by auto
    qed (simp_all add: addresses_def state_at_def)
  next
    case False
    then obtain a where "a < addresses s1" "s2 = set_state a (request_reload (state_at s1 a)) s1"
      using step.hyps(2) by (auto simp: fts_quiet_def)
    then show ?thesis by (simp add: request_reload_def)
  qed
  then show ?case using step.IH by simp
qed simp

lemma run_add_built:
  assumes "fx_schema st = build_schema tokenizer positions" and "tv_add_document L (doc_of p document) (fx_tantivy st) = (True, x)"
    and "Suc (length (fx_uncommitted st)) < n"
  shows "run_fts_job L n t (AddJob p document g) st = Ok (None, [], st\<lparr>fx_tantivy := x, fx_uncommitted := fx_uncommitted st @ [g]\<rparr>)"
  using assms by (simp add: handle_add_document_def writer_add_document_def uncommitted_docs_def then_commit_def Let_def)

lemma run_remove_built:
  assumes "fx_schema st = build_schema tokenizer positions" and "Suc (length (fx_uncommitted st)) < n"
  shows "run_fts_job L n t (RemoveJob p g) st =
    Ok (None, [], st\<lparr>fx_tantivy := tv_delete_term L 0 (primary_raw p) (fx_tantivy st), fx_uncommitted := fx_uncommitted st @ [g]\<rparr>)"
  using assms by (simp add: handle_remove_document_def writer_rm_document_def uncommitted_docs_def then_commit_def Let_def)

lemma overtaken_run:
  fixes P :: "('x, 'q) fts_params" and g1 g2 :: 'g
  assumes L: "tantivy_ok (fp_library P) V" and workers: "2 \<le> fp_num_workers P" "0 < fp_channel_size P" and n: "2 < fp_commit_threshold P"
    and build: "index_state_build (fp_library P) (fc_analyzer (fp_config P)) (fc_positions (fp_config P)) = Ok (st0 :: ('x, 'g) fts_state)"
    and adds: "\<And>x. fst (tv_add_document (fp_library P) (doc_of p document) x)"
    and t: "fe_table E t" "search_index_id t (fc_key (fp_config P)) = Some x" and can: "fe_allocate E CanAllocate"
  shows "\<exists>s. fts_reachable P E [FtsAddDocument p document g1, FtsRemoveDocument p g2] s \<and> fts_idle s \<and> fy_unsent s = [] \<and> fy_refused s = [] \<and>
    addresses s = 1 \<and> lv_log (V (fx_tantivy (state_at s 0))) = [term_of p, LogDoc (doc_of p document)]"
proof -
  let ?L = "fp_library P" and ?A = "FtsAddDocument p document g1" and ?R = "FtsRemoveDocument p g2"
  let ?x1 = "tv_delete_term ?L 0 (primary_raw p) (fx_tantivy st0)"
  note st0 = built_ok [OF L build]
  have schema: "fx_schema st0 = build_schema (analyzer_name (fc_analyzer (fp_config P))) (fc_positions (fp_config P))" using st0 by simp
  define x2 where "x2 = snd (tv_add_document ?L (doc_of p document) ?x1)"
  have add: "tv_add_document ?L (doc_of p document) ?x1 = (True, x2)"
    using adds [of ?x1] by (simp add: x2_def prod_eq_iff)
  define st1 :: "('x, 'g) fts_state" where "st1 = st0\<lparr>fx_tantivy := ?x1, fx_uncommitted := [g2]\<rparr>"
  define st2 where "st2 = st1\<lparr>fx_tantivy := x2, fx_uncommitted := [g2, g1]\<rparr>"
  define ac where "ac st = \<lparr>fa_states = [(x, 0)], fa_store = [st], fa_allocate_prev = CanAllocate\<rparr>" for st :: "('x, 'g) fts_state"
  define sys :: "('x, 'g) fts_actor \<Rightarrow> 'g fts_pc \<Rightarrow> 'g fts_index list \<Rightarrow> 'g fts_index list \<Rightarrow> 'g fts_task list \<Rightarrow> 'g fts_task list \<Rightarrow> ('x, 'g) fts_system"
    where "sys a pc un ch q r = \<lparr>fy_actor = a, fy_pc = pc, fy_unsent = un, fy_channel = ch, fy_queue = q, fy_running = r, fy_replies = [], fy_refused = []\<rparr>"
      for a pc un ch q r
  let ?reach = "fts_reachable P E [?A, ?R]" and ?none = "\<lparr>fa_states = [], fa_store = [], fa_allocate_prev = CanAllocate\<rparr> :: ('x, 'g) fts_actor"
  note defs = sys_def ac_def
  have recv1: "fts_receive P t CanAllocate ?A ?none = (Some (0, AddJob p document g1), [], [], ac st0)"
    by (simp add: ac_def get_or_create_state_def t(2) build can_allocate_memory_def Let_def)
  have recv2: "fts_receive P t CanAllocate ?R (ac st0) = (Some (0, RemoveJob p g2), [], [], ac st0)"
    by (simp add: ac_def get_or_create_state_def t(2) bt_get_def)
  have r1: "run_fts_job ?L (fp_commit_threshold P) t (RemoveJob p g2) st0 = Ok (None, [], st1)"
    using run_remove_built [OF schema, of "fp_commit_threshold P" ?L t p g2] st0 n by (simp add: st1_def del: run_fts_job.simps)
  have r2: "run_fts_job ?L (fp_commit_threshold P) t (AddJob p document g1) st1 = Ok (None, [], st2)"
    using run_add_built [of st1, OF _ _ , of _ _ ?L p document x2 "fp_commit_threshold P" t g1] schema n add
    by (simp add: st1_def st2_def del: run_fts_job.simps)
  have "?reach (sys ?none (FtsTicking []) [?A, ?R] [] [] [])"
    using fts_reachable.start [of P E "[?A, ?R]"] by (simp add: fts_new_def sys_def)
  from fts_reachable.event [OF this monitor_sends] have "?reach (sys ?none (FtsTicking []) [?R] [?A] [] [])" by (simp add: sys_def)
  from fts_reachable.internal [OF this receive [OF _ _ can t(1), of _ ?A "[]"]] recv1
  have "?reach (sys (ac st0) (FtsSending (0, AddJob p document g1) []) [?R] [] [] [])"
    by (simp add: sys_def pc_then_def del: fts_receive.simps)
  from fts_reachable.internal [OF this send] have "?reach (sys (ac st0) (FtsTicking []) [?R] [] [(0, AddJob p document g1)] [])"
    using workers by (simp add: sys_def)
  from fts_reachable.internal [OF this start_task] have "?reach (sys (ac st0) (FtsTicking []) [?R] [] [] [(0, AddJob p document g1)])"
    using workers by (simp add: sys_def)
  from fts_reachable.event [OF this monitor_sends] have "?reach (sys (ac st0) (FtsTicking []) [] [?R] [] [(0, AddJob p document g1)])"
    by (simp add: sys_def)
  from fts_reachable.internal [OF this receive [OF _ _ can t(1), of _ ?R "[]"]] recv2
  have "?reach (sys (ac st0) (FtsSending (0, RemoveJob p g2) []) [] [] [] [(0, AddJob p document g1)])"
    by (simp add: sys_def pc_then_def del: fts_receive.simps)
  from fts_reachable.internal [OF this send] have "?reach (sys (ac st0) (FtsTicking []) [] [] [(0, RemoveJob p g2)] [(0, AddJob p document g1)])"
    using workers by (simp add: sys_def)
  from fts_reachable.internal [OF this start_task]
  have "?reach (sys (ac st0) (FtsTicking []) [] [] [] [(0, AddJob p document g1), (0, RemoveJob p g2)])"
    using workers by (simp add: sys_def)
  from fts_reachable.internal [OF this run_task [OF _ t(1), of _ "[(0, AddJob p document g1)]" 0 "RemoveJob p g2" "[]"]] r1
  have "?reach (sys (ac st1) (FtsTicking []) [] [] [] [(0, AddJob p document g1)])"
    by (simp add: defs state_at_def set_state_def del: run_fts_job.simps)
  from fts_reachable.internal [OF this run_task [OF _ t(1), of _ "[]" 0 "AddJob p document g1" "[]"]] r2
  have "?reach (sys (ac st2) (FtsTicking []) [] [] [] [])"
    by (simp add: defs state_at_def set_state_def del: run_fts_job.simps)
  moreover have "fts_idle (sys (ac st2) (FtsTicking []) [] [] [] [])"
    using st0 by (simp add: fts_idle_def defs addresses_def state_at_def st1_def st2_def)
  moreover have "lv_log (V x2) = [term_of p, LogDoc (doc_of p document)]"
  proof -
    have "V ?x1 = log_view (term_of p) (V (fx_tantivy st0))"
      using L by (simp add: tantivy_ok_def writer_ok_def term_of_def)
    moreover have "V x2 = log_view (LogDoc (doc_of p document)) (V ?x1)"
      using L add unfolding tantivy_ok_def writer_ok_def by (metis fst_conv snd_conv)
    ultimately show ?thesis using st0 by (simp add: empty_view_def)
  qed
  ultimately show ?thesis
    by (intro exI [of _ "sys (ac st2) (FtsTicking []) [] [] [] []"]) (simp add: defs addresses_def state_at_def st2_def)
qed

text \<open>
  C39: a removal may overtake the addition of its document. With two workers, nothing keeps the task of
  an addition and that of the removal sent after it in order (the actor of a vector index has permits
  for that): there is a schedule of the two messages after which the system is idle and settled, and
  the document can be found and is counted, although the index was told that it is gone.
\<close>

theorem removal_overtaken:
  fixes P :: "('x, 'q) fts_params"
  assumes relies: "fts_relies P V fst (map fts_message [AddDocumentMsg p document pr, RemoveDocumentMsg p pr'])"
    and reliable: "tantivy_reliable (fp_library P)" and served: "fts_served P E"
    and workers: "2 \<le> fp_num_workers P" and n: "2 < fp_commit_threshold P"
    and build: "index_state_build (fp_library P) (fc_analyzer (fp_config P)) (fc_positions (fp_config P)) =
      Ok (st0 :: ('x, logged \<times> async_in_progress) fts_state)"
    and adds: "\<And>x. fst (tv_add_document (fp_library P) (doc_of p document) x)"
    and t: "fe_table E t" "search_index_id t (fc_key (fp_config P)) = Some x" and can: "fe_allocate E CanAllocate"
  shows "told_all documents_told [AddDocumentMsg p document pr, RemoveDocumentMsg p pr'] {} = Some {} \<and>
    (\<exists>s. fts_reachable P E (map fts_message [AddDocumentMsg p document pr, RemoveDocumentMsg p pr']) s \<and> fts_idle s \<and>
       settled_state V (state_at s 0) \<and> searchable (V (fx_tantivy (state_at s 0))) = [doc_of p document] \<and>
       tv_num_docs (fp_library P) (fx_tantivy (state_at s 0)) = 1)"
proof -
  let ?msgs = "map fts_message [AddDocumentMsg p document pr, RemoveDocumentMsg p pr']"
  have L: "tantivy_ok (fp_library P) V" and n0: "0 < fp_commit_threshold P" using relies by (simp_all add: fts_relies_def)
  have room: "0 < fp_channel_size P" using served by (simp add: fts_served_def)
  obtain s where reach: "fts_reachable P E ?msgs s" and idle: "fts_idle s" and one: "addresses s = 1"
    and log: "lv_log (V (fx_tantivy (state_at s 0))) = [term_of p, LogDoc (doc_of p document)]"
    using overtaken_run [OF L workers room n build adds t can, of "(LogDoc (doc_of p document), pr)" "(term_of p, pr')"] by auto
  have quiet: "(fts_internal P E)\<^sup>*\<^sup>* u v \<Longrightarrow> (fts_quiet P E)\<^sup>*\<^sup>* u v" for u v
    by (rule rtranclp_mono [THEN predicate2D]) (auto simp: fts_quiet_def)
  have drain: "\<exists>v. (fts_quiet P E)\<^sup>*\<^sup>* (ticked u) v \<and> fts_idle v" if "fts_reachable P E ?msgs u" "fts_idle u" for u
    using fts_drains_inv [OF L n0 served] fts_reachable_ok [OF ticked_reachable [OF that] relies] quiet by blast
  obtain s1 where s1: "(fts_quiet P E)\<^sup>*\<^sup>* (ticked s) s1" "fts_idle s1" using drain [OF reach idle] by blast
  have reach1: "fts_reachable P E ?msgs s1" using quiet_reachable [OF s1(1) ticked_reachable [OF reach idle]] .
  obtain s2 where s2: "(fts_quiet P E)\<^sup>*\<^sup>* (ticked s1) s2" "fts_idle s2" using drain [OF reach1 s1(2)] by blast
  have due: "commits_due (ticked u)" if u: "fts_reachable P E ?msgs u" "fts_idle u" for u
    using fts_invD(7) fts_reachable_ok [OF u(1) relies] u(2) ticked_flight [OF u(2)] by (fastforce simp: commits_due_def fts_idle_def)
  have "addresses s2 = 1 \<and> lv_log (V (fx_tantivy (state_at s2 0))) = [term_of p, LogDoc (doc_of p document)]"
    using quiet_log [OF relies reliable s1(1) ticked_reachable [OF reach idle] due [OF reach idle]]
      quiet_log [OF relies reliable s2(1) ticked_reachable [OF reach1 s1(2)] due [OF reach1 s1(2)]] one log by simp
  moreover have "settled_state V (state_at s2 a)" if "a < addresses s2" for a
    using settled_after [OF relies reliable reach idle s1 s2] that by blast
  ultimately have "settled_state V (state_at s2 0)" "searchable (V (fx_tantivy (state_at s2 0))) = [doc_of p document]"
    by (simp_all add: searchable_def settled_state_def documents_of_def term_of_def)
  moreover have "fts_reachable P E ?msgs s2" using quiet_reachable [OF s2(1) ticked_reachable [OF reach1 s1(2)]] .
  moreover have "tv_num_docs (fp_library P) (fx_tantivy (state_at s2 0)) = 1"
    using L calculation(2) by (simp add: tantivy_ok_def reader_ok_def)
  ultimately show ?thesis using s2(2) by auto
qed

end
