(* ===== verification/Fts_Answers.thy ===== *)
theory Fts_Answers
  imports Fts_Contents Http_Listing
begin

text \<open>
  The answers of a full-text index: the keys a search finds can be written as JSON, and a
  highlight marks the positive terms of a query only.
\<close>

section \<open>Searches\<close>

lemma answer_then_Ok: "answer_then r f = Ok (Inr y) \<longleftrightarrow> (\<exists>x. r = Ok (Inr x) \<and> f x = Ok (Inr y))"
  by (cases "(r, f)" rule: answer_then.cases) auto

lemma answered_Ok [simp]: "answered r = Ok (Inr x) \<longleftrightarrow> r = Ok x"
  by (cases r rule: answered.cases) auto

lemma answered_Inl: "answered r = Ok (Inl e) \<Longrightarrow> \<exists>msg. e = OtherError msg \<and> r = Err (Bail msg)"
  by (cases r rule: answered.cases) auto

lemma found_keys_in: "(key, score) \<in> set (found_keys t q hits) \<Longrightarrow> \<exists>p. (score, p) \<in> set hits \<and> search_primary_key t q p = Some key"
  by (fastforce simp: found_keys_def List.map_filter_def)

lemma found_keys_length: "length (found_keys t q hits) \<le> length hits"
  by (simp add: found_keys_def List.map_filter_def length_filter_le le_trans)

lemma handle_search_Ok:
  assumes found: "handle_search L t key query limit st = Ok (Inr (keys, scores))"
  shows "\<exists>parsed top_docs q hits. tv_search L parsed limit (fx_tantivy st) = Some top_docs \<and>
    find_partition_id t key = Ok q \<and> collect_result (hit_id L (fx_tantivy st)) top_docs = Ok hits \<and>
    keys = map fst (found_keys t q hits) \<and> scores = map snd (found_keys t q hits)"
  using found unfolding handle_search_def
  by (fastforce simp: and_then_eq_Inr answer_then_Ok ok_or_eq_Inr make_query_def Let_def split: option.splits)

lemma hit_id_Ok:
  assumes "hit_id L x (score, segment, doc) = Ok (score', p)"
  shows "score' = score \<and> (\<exists>column. tv_fast_column L segment ''primary_id'' x = Some column \<and> column doc = Some (primary_raw p))"
  using assms by (auto simp: hit_id_def and_then_eq_Inr ok_or_eq_Inr)

lemma hit_searchable:
  assumes ok: "search_ok L V" and schema: "lv_schema (V x) = build_schema tokenizer positions"
    and search: "tv_search L parsed limit x = Some top_docs" and hits: "collect_result (hit_id L x) top_docs = Ok hits"
    and hit: "(score, p) \<in> set hits"
  shows "\<exists>d\<in>set (searchable (V x)). (0, U64Value (primary_raw p)) \<in> set d"
proof -
  obtain i where i: "i < length hits" "hits ! i = (score, p)" using hit by (auto simp: in_set_conv_nth)
  then have top: "i < length top_docs" using collect_result_length [OF hits] by simp
  obtain s segment doc where at: "top_docs ! i = (s, segment, doc)" by (cases "top_docs ! i") auto
  then have "(s, segment, doc) \<in> set top_docs" using top nth_mem by metis
  moreover obtain column where "tv_fast_column L segment ''primary_id'' x = Some column" "column doc = Some (primary_raw p)"
    using collect_result_nth [OF hits top] hit_id_Ok at i(2) by metis
  ultimately show ?thesis using ok search schema unfolding search_ok_def by (fastforce simp: schema)
qed

text \<open>
  C16: what a full-text search finds reaches the client row by row. For a table that satisfies its
  invariant and whose keys have a value for each primary key column, the answer holds at most as
  many keys as asked for, with a score each; each is the key of the table for a document that is
  searchable. Writing them does not panic: there is a list for each primary key column, with the JSON
  of that value of every key in the order of the scores, unless some value of a key has no JSON.
\<close>

theorem fts_answer_rendered:
  assumes L: "tantivy_ok L V" and schema: "lv_schema (V (fx_tantivy st)) = build_schema tokenizer positions"
    and t: "table_inv d t" "keys_sized (length columns) t" and columns: "distinct columns"
    and found: "handle_search L t key query limit st = Ok (Inr (keys, scores))"
  shows "length keys \<le> limit \<and> length scores = length keys \<and>
    (\<exists>q. find_partition_id t key = Ok q \<and> (\<forall>k\<in>set keys. \<exists>p. search_primary_key t q p = Some k \<and>
      (\<exists>doc\<in>set (searchable (V (fx_tantivy st))). (0, U64Value (primary_raw p)) \<in> set doc))) \<and>
    (\<exists>vss. keys_hold (length columns) vss keys \<and>
      (case try_collect_primary_keys C columns keys of
         Inr m \<Rightarrow> dom m = set columns \<and>
           (\<forall>i<length columns. \<exists>js. m (columns ! i) = Some js \<and> column_of C vss i = Ok js \<and> length js = length scores)
       | Inl (Bail msg) \<Rightarrow> \<exists>vs\<in>set vss. \<exists>v\<in>set vs. \<not> is_ok (to_json C v)
       | Inl (Panic msg) \<Rightarrow> False))"
proof -
  obtain parsed top_docs q hits where
    search: "tv_search L parsed limit (fx_tantivy st) = Some top_docs" "collect_result (hit_id L (fx_tantivy st)) top_docs = Ok hits"
    and q: "find_partition_id t key = Ok q"
    and keys: "keys = map fst (found_keys t q hits)" "scores = map snd (found_keys t q hits)"
    using handle_search_Ok [OF found] by blast
  have ok: "search_ok L V" using L by (simp add: tantivy_ok_def)
  have resolved: "\<exists>p. search_primary_key t q p = Some k \<and>
      (\<exists>doc\<in>set (searchable (V (fx_tantivy st))). (0, U64Value (primary_raw p)) \<in> set doc)" if "k \<in> set keys" for k
    using that keys(1) found_keys_in hit_searchable [OF ok schema search] by fastforce
  then have "\<exists>vss. keys_hold (length columns) vss keys"
    using keys_hold_all found_key [OF t] by (metis (no_types))
  then obtain vss where vss: "keys_hold (length columns) vss keys" ..
  have lengths: "length keys \<le> limit" "length scores = length keys"
  proof -
    have "length top_docs \<le> limit" using ok search(1) unfolding search_ok_def by blast
    then show "length keys \<le> limit"
      using found_keys_length [of t q hits] collect_result_length [OF search(2)] by (simp add: keys)
  qed (simp add: keys)
  have len: "length vss = length keys" using vss by (auto simp: keys_hold_def dest: list_all2_lengthD)
  have "case try_collect_primary_keys C columns keys of
         Inr m \<Rightarrow> dom m = set columns \<and>
           (\<forall>i<length columns. \<exists>js. m (columns ! i) = Some js \<and> column_of C vss i = Ok js \<and> length js = length scores)
       | Inl (Bail msg) \<Rightarrow> \<exists>vs\<in>set vss. \<exists>v\<in>set vs. \<not> is_ok (to_json C v)
       | Inl (Panic msg) \<Rightarrow> False"
  proof (cases "try_collect_primary_keys C columns keys")
    case (Inl e)
    then obtain vs v where "vs \<in> set vss" "v \<in> set vs" "\<not> is_ok (to_json C v)"
      using try_collect_Err [OF vss] by (fastforce simp: is_ok_iff)
    then show ?thesis using try_collect_no_panic [OF vss, of C] Inl by (cases e) auto
  next
    case (Inr m)
    have "length js = length scores" if "column_of C vss i = Ok js" for i js
      using that len lengths(2) by (auto simp: column_of_def dest: collect_result_length)
    then show ?thesis using try_collect_Ok [OF vss columns Inr] Inr by fastforce
  qed
  then show ?thesis using lengths q resolved vss by blast
qed

section \<open>Highlights\<close>

text \<open>The leaves of a query, those a match may owe its rank to, and what keeps it from a highlight.\<close>

fun all_leaves :: "'q fts_query \<Rightarrow> 'q list" and clause_leaves :: "(occur \<times> 'q fts_query) list \<Rightarrow> 'q list" where
  "all_leaves (OtherQuery q) = [q]"
| "all_leaves (BoostQuery b q) = all_leaves q"
| "all_leaves (BooleanQuery clauses) = clause_leaves clauses"
| "clause_leaves [] = []"
| "clause_leaves ((occur, q) # clauses) = all_leaves q @ clause_leaves clauses"

fun positive_leaves :: "'q fts_query \<Rightarrow> 'q list" and positive_clause_leaves :: "(occur \<times> 'q fts_query) list \<Rightarrow> 'q list" where
  "positive_leaves (OtherQuery q) = [q]"
| "positive_leaves (BoostQuery b q) = positive_leaves q"
| "positive_leaves (BooleanQuery clauses) = positive_clause_leaves clauses"
| "positive_clause_leaves [] = []"
| "positive_clause_leaves ((occur, q) # clauses) = (if occur = MustNot then [] else positive_leaves q) @ positive_clause_leaves clauses"

fun boosted :: "'q fts_query \<Rightarrow> bool" and boosted_clauses :: "(occur \<times> 'q fts_query) list \<Rightarrow> bool" where
  "boosted (OtherQuery q) = False"
| "boosted (BoostQuery b q) = True"
| "boosted (BooleanQuery clauses) = boosted_clauses clauses"
| "boosted_clauses [] = False"
| "boosted_clauses ((occur, q) # clauses) = (occur \<noteq> MustNot \<and> boosted q \<or> boosted_clauses clauses)"

lemma strip_leaves:
  fixes q :: "'q fts_query" and clauses :: "(occur \<times> 'q fts_query) list"
  shows "case strip_negated_clauses q of
      Inl e \<Rightarrow> boosted q \<and> (\<exists>msg. e = QueryError msg)
    | Inr q' \<Rightarrow> \<not> boosted q \<and> all_leaves q' = positive_leaves q \<and> positive_leaves q' = all_leaves q'"
    and "case strip_clauses clauses of
      Inl e \<Rightarrow> boosted_clauses clauses \<and> (\<exists>msg. e = QueryError msg)
    | Inr clauses' \<Rightarrow> \<not> boosted_clauses clauses \<and> clause_leaves clauses' = positive_clause_leaves clauses \<and>
        positive_clause_leaves clauses' = clause_leaves clauses'"
  by (induction q and clauses rule: strip_negated_clauses_strip_clauses.induct) (auto split: sum.splits)

text \<open>
  C38: a highlight marks what a match owes its rank to. Every text is highlighted, or not, in the
  order they came, with the tags and the length of the code, by a query whose leaves are those of the
  parsed one that are under no negation, in their order. A query that cannot be parsed, or with a
  boost under no negation, is an error of the query; any other error means the library could make
  no generator from the stripped query.
\<close>

theorem highlight_positive_terms:
  assumes schema: "fx_schema st = build_schema tokenizer positions"
  shows "\<exists>answer. handle_highlight L query texts st = Ok answer \<and>
    (let parsed = tv_parse_query L [1] query (fx_tantivy st);
         snippets = (\<lambda>q. tv_snippets L q 1 150 (fx_tantivy st));
         stripped = (\<lambda>q. \<exists>p. parsed = Some p \<and> \<not> boosted p \<and> all_leaves q = positive_leaves p \<and> positive_leaves q = all_leaves q)
     in case answer of
        Inr highlights \<Rightarrow> \<exists>q snippet. stripped q \<and> snippets q = Some snippet \<and>
          highlights = map (\<lambda>text. case snippet text of Some html \<Rightarrow> Some (html ''<b>'' ''</b>'') | None \<Rightarrow> None) texts
      | Inl (QueryError msg) \<Rightarrow> parsed = None \<or> (\<exists>p. parsed = Some p \<and> boosted p)
      | Inl (OtherError msg) \<Rightarrow> \<exists>q. stripped q \<and> snippets q = None
      | Inl (VsIndexError e) \<Rightarrow> False)"
proof (cases "tv_parse_query L [1] query (fx_tantivy st)")
  case None
  then show ?thesis by (simp add: handle_highlight_def schema make_query_def)
next
  case (Some p)
  show ?thesis
  proof (cases "strip_negated_clauses p")
    case (Inl e)
    then show ?thesis using Some strip_leaves(1) [of p] by (auto simp: handle_highlight_def schema make_query_def)
  next
    case (Inr q)
    have q: "\<not> boosted p" "all_leaves q = positive_leaves p" "positive_leaves q = all_leaves q"
      using strip_leaves(1) [of p] Inr by auto
    show ?thesis
    proof (cases "tv_snippets L q 1 150 (fx_tantivy st)")
      case None
      then show ?thesis using Some Inr q
        by (auto simp: handle_highlight_def schema make_query_def HIGHLIGHT_MAX_NUM_CHARS_def intro!: exI [of _ q])
    next
      case snippet: (Some snippet)
      have tags: "map_option (\<lambda>html. html ''<b>'' ''</b>'') = (\<lambda>r. case r of Some html \<Rightarrow> Some (html ''<b>'' ''</b>'') | None \<Rightarrow> None)"
        by (auto simp: fun_eq_iff split: option.split)
      show ?thesis using Some Inr q snippet
        by (auto simp: handle_highlight_def schema make_query_def HIGHLIGHT_MAX_NUM_CHARS_def HIGHLIGHT_PRE_TAG_def
            HIGHLIGHT_POST_TAG_def tags intro!: exI [of _ q])
    qed
  qed
qed

end
