(* ===== verification/Fts_Reference.thy ===== *)
theory Fts_Reference
  imports Fts_Answers Usearch_Answers
begin

text \<open>
  A library that keeps the contract of the full-text index, so that the hypotheses of its properties
  can hold, and what it takes for no document to be lost.
\<close>

section \<open>Schedules\<close>

lemma quiet_unsent: "fts_quiet P E s s' \<Longrightarrow> fy_unsent s' = fy_unsent s"
  by (auto simp: fts_quiet_def elim!: fts_internal.cases)

lemma quiet_unsent_run: "(fts_quiet P E)\<^sup>*\<^sup>* s s' \<Longrightarrow> fy_unsent s' = fy_unsent s"
  by (induction rule: rtranclp_induct) (auto dest: quiet_unsent)

lemma sends_all: "fts_reachable P E msgs s \<Longrightarrow> \<exists>s'. fts_reachable P E msgs s' \<and> fy_unsent s' = []"
proof (induction "fy_unsent s" arbitrary: s)
  case (Cons msg ms)
  from fts_reachable.event [OF Cons.prems monitor_sends [OF Cons.hyps(2) [symmetric]]] show ?case
    using Cons.hyps(1) by force
qed auto

text \<open>Everything is sent, two ticks pass, and the system is idle before, between and after them.\<close>

lemma ticks_exist:
  assumes relies: "fts_relies P V op_of msgs" and served: "fts_served P E"
  shows "\<exists>s s1 s2. fts_reachable P E msgs s \<and> fts_idle s \<and> (fts_quiet P E)\<^sup>*\<^sup>* (ticked s) s1 \<and> fts_idle s1 \<and>
    (fts_quiet P E)\<^sup>*\<^sup>* (ticked s1) s2 \<and> fts_idle s2 \<and> fts_reachable P E msgs s2 \<and> fy_unsent s2 = []"
proof -
  have L: "tantivy_ok (fp_library P) V" and n: "0 < fp_commit_threshold P" using relies by (simp_all add: fts_relies_def)
  have quiet: "(fts_internal P E)\<^sup>*\<^sup>* u v \<Longrightarrow> (fts_quiet P E)\<^sup>*\<^sup>* u v" for u v
    by (rule rtranclp_mono [THEN predicate2D]) (auto simp: fts_quiet_def)
  have drain: "\<exists>v. (fts_quiet P E)\<^sup>*\<^sup>* u v \<and> fts_idle v" if "fts_reachable P E msgs u" for u
    using fts_drains_inv [OF L n served] fts_reachable_ok [OF that relies] quiet by blast
  obtain u where u: "fts_reachable P E msgs u" "fy_unsent u = []" using sends_all [OF fts_reachable.start] by blast
  obtain s where s: "(fts_quiet P E)\<^sup>*\<^sup>* u s" "fts_idle s" using drain [OF u(1)] by blast
  have r: "fts_reachable P E msgs s" by (rule quiet_reachable [OF s(1) u(1)])
  obtain s1 where s1: "(fts_quiet P E)\<^sup>*\<^sup>* (ticked s) s1" "fts_idle s1" using drain [OF ticked_reachable [OF r s(2)]] by blast
  have r1: "fts_reachable P E msgs s1" by (rule quiet_reachable [OF s1(1) ticked_reachable [OF r s(2)]])
  obtain s2 where s2: "(fts_quiet P E)\<^sup>*\<^sup>* (ticked s1) s2" "fts_idle s2" using drain [OF ticked_reachable [OF r1 s1(2)]] by blast
  have r2: "fts_reachable P E msgs s2" by (rule quiet_reachable [OF s2(1) ticked_reachable [OF r1 s1(2)]])
  have "fy_unsent s2 = []"
    using quiet_unsent_run [OF s(1)] quiet_unsent_run [OF s1(1)] quiet_unsent_run [OF s2(1)] u(2) by (simp add: ticked_def)
  then show ?thesis using r s(2) s1 s2 r2 by blast
qed

section \<open>Nothing is lost\<close>

text \<open>The index exists and can be built, there is memory, and the library takes every document.\<close>

definition spares :: "('x, 'q) fts_params \<Rightarrow> 'g fts_env \<Rightarrow> bool" where
  "spares P E \<longleftrightarrow> (\<forall>t. fe_table E t \<longrightarrow> search_index_id t (fc_key (fp_config P)) \<noteq> None) \<and> \<not> fe_allocate E CannotAllocate \<and>
     (\<exists>st. index_state_build (fp_library P) (fc_analyzer (fp_config P)) (fc_positions (fp_config P)) = Ok (st :: ('x, unit) fts_state)) \<and>
     (\<forall>d x. fst (tv_add_document (fp_library P) d x))"

definition nothing_failed :: "('x, 'g) fts_system \<Rightarrow> bool" where
  "nothing_failed s \<longleftrightarrow> fy_refused s = [] \<and> (\<forall>st\<in>set (store_of s). fx_failed st = [])"

lemma builds_any:
  assumes "index_state_build L an positions = Ok (st :: ('x, 'h) fts_state)"
  shows "\<exists>st :: ('x, 'g) fts_state. index_state_build L an positions = Ok st \<and> fx_failed st = []"
  using assms by (auto simp: index_state_build_def Let_def result_simps)

lemma get_or_create_spared:
  fixes P :: "('x, 'q) fts_params" and ac :: "('x, 'g) fts_actor"
  assumes "spares P E" and "fe_table E t" and "get_or_create_state P t ac = (found, ac')" and "\<forall>st\<in>set (fa_store ac). fx_failed st = []"
  shows "found \<noteq> None \<and> (\<forall>st\<in>set (fa_store ac'). fx_failed st = [])"
proof -
  obtain st :: "('x, 'g) fts_state" where "index_state_build (fp_library P) (fc_analyzer (fp_config P)) (fc_positions (fp_config P)) = Ok st" "fx_failed st = []"
    using assms(1) builds_any unfolding spares_def by blast
  moreover obtain x where "search_index_id t (fc_key (fp_config P)) = Some x" using assms(1,2) by (auto simp: spares_def)
  ultimately show ?thesis
    using assms(3,4) by (cases "bt_get (fa_states ac) x") (auto simp: get_or_create_state_def Let_def intro: sym)
qed

lemma receive_spared:
  assumes spares: "spares P E" and env: "fe_table E t" "fe_allocate E allocate"
    and run: "fts_receive P t allocate msg ac = (task, replies, refused, ac')" and failed: "\<forall>st\<in>set (fa_store ac). fx_failed st = []"
  shows "refused = [] \<and> (\<forall>st\<in>set (fa_store ac'). fx_failed st = [])"
proof -
  obtain found ac1 where created: "get_or_create_state P t ac = (found, ac1)" by fastforce
  obtain a where "found = Some a" "\<forall>st\<in>set (fa_store ac1). fx_failed st = []"
    using get_or_create_spared [OF spares env(1) created failed] by auto
  moreover have "allocate \<noteq> CannotAllocate" using spares env(2) by (auto simp: spares_def)
  ultimately show ?thesis
    using run created failed by (cases msg) (auto simp: can_allocate_memory_def Let_def split: option.splits)
qed

lemma run_add_failed:
  assumes adds: "\<forall>d x. fst (tv_add_document L d x)" and run: "run_fts_job L n t (AddJob p document g) st = Ok (rest, replies, st')"
  shows "fx_failed st' = fx_failed st"
proof -
  obtain k where handled: "handle_add_document L p document g st = Ok (k, st')"
    using run by (auto simp: result_simps)
  then obtain doc where "create_doc (fx_schema st) p document = Ok doc"
    by (auto simp: handle_add_document_def result_simps)
  moreover obtain x where "tv_add_document L doc (fx_tantivy st) = (True, x)"
    using adds by (metis prod.exhaust_sel)
  ultimately show ?thesis using handled by (auto simp: handle_add_document_def writer_add_document_def Let_def)
qed

lemma run_failed:
  assumes "\<forall>d x. fst (tv_add_document L d x)" and run: "run_fts_job L n t job st = Ok (rest, replies, st')"
  shows "fx_failed st' = fx_failed st"
proof (cases job)
  case (AddJob p document g)
  then show ?thesis using run_add_failed assms by metis
next
  case (RemoveJob p g)
  then show ?thesis using run by (auto simp: result_simps handle_remove_document_def writer_rm_document_def Let_def)
next
  case CommitJob
  then show ?thesis using run by (auto simp: writer_commit_def split: option.splits prod.splits)
next
  case (GuardsJob c gs)
  then show ?thesis using run by (auto simp: drop_guards_when_searchable_def)
next
  case (ReloadFinishJob r)
  then show ?thesis using run by (auto simp: reload_finished_def split: option.splits)
qed (use run in \<open>auto simp: result_simps split: prod.splits\<close>)

lemma no_failed_guards: "\<forall>st\<in>set sts. fx_failed st = [] \<Longrightarrow> (\<Sum>st\<leftarrow>sts. mset (fx_failed st)) = {#}"
  by (induction sts) simp_all

lemma store_set: "a < addresses s \<Longrightarrow> set (store_of (set_state a st s)) \<subseteq> insert st (set (store_of s))"
  using set_update_subset_insert by fastforce

lemma internal_spared:
  assumes spares: "spares P E" and inv: "fts_inv P V op_of s" and L: "tantivy_ok (fp_library P) V" "0 < fp_commit_threshold P"
    and step: "fts_internal P E s s'" and failed: "nothing_failed s"
  shows "nothing_failed s'"
proof -
  have at: "fx_failed (state_at s a) = []" if "a < addresses s" for a
    using failed that by (simp add: nothing_failed_def state_at_def store_of_def addresses_def)
  have same: "nothing_failed u" if "store_of u = store_of (set_state a st s)" "fy_refused u = fy_refused s" "a < addresses s" "fx_failed st = []" for u a st
    using failed that store_set [OF that(3), of st] by (auto simp: nothing_failed_def)
  from step show ?thesis
  proof cases
    case (receive msg msgs allocate t task replies refused ac)
    then show ?thesis
      using receive_spared [OF spares receive(5,4,6)] failed by (simp add: nothing_failed_def store_of_def)
  next
    case (tick_next a rest job st)
    have "a < addresses s" using fts_invD(3) [OF inv, of a] tick_next(2) by simp
    then show ?thesis using same [of s' a st] tick_next(1,3) at [of a]
      by (auto simp: tick_state_def request_reload_def store_of_def split: if_splits)
  next
    case (reload_changed a)
    then show ?thesis using same [of s' a] at [of a] by simp
  next
    case (reload_send a)
    then show ?thesis using same [of s' a "(state_at s a)\<lparr>fx_reload_pc := ReloadRuns\<rparr>"] at [of a] by (simp add: store_of_def)
  next
    case (run_task before a job after t rest replies st)
    have a: "a < addresses s" using fts_invD(2) [OF inv, of "(a, job)"] run_task(2) by (simp add: in_flight_def)
    have "fx_failed st = []" using run_failed [OF _ run_task(4)] spares at [OF a] by (simp add: spares_def)
    then show ?thesis using same [of s' a st] a run_task(1) by (simp add: store_of_def)
  qed (use failed in \<open>simp_all add: nothing_failed_def store_of_def\<close>)
qed

lemma nothing_lost:
  assumes spares: "spares P E" and relies: "fts_relies P V op_of msgs" and reach: "fts_reachable P E msgs s"
  shows "lost_guards s = {#}"
proof -
  have L: "tantivy_ok (fp_library P) V" "0 < fp_commit_threshold P" using relies by (simp_all add: fts_relies_def)
  from reach have "nothing_failed s"
  proof induction
    case start
    show ?case by (simp add: nothing_failed_def fts_new_def store_of_def)
  next
    case (internal s s')
    show ?case
      using internal_spared [OF spares _ L internal.hyps(2) internal.IH] fts_reachable_ok [OF internal.hyps(1) relies] by blast
  next
    case (event s s')
    from event.hyps(2) show ?case
    proof cases
      case (watch_calls a)
      then have "fx_failed (request_reload (state_at s a)) = []"
        using event.IH by (simp add: nothing_failed_def request_reload_def state_at_def store_of_def addresses_def)
      then show ?thesis using event.IH watch_calls store_set [of a s "request_reload (state_at s a)"]
        by (auto simp: nothing_failed_def)
    qed (use event.IH in \<open>simp_all add: nothing_failed_def store_of_def\<close>)
  qed
  then show ?thesis using no_failed_guards [of "store_of s"] by (simp add: nothing_failed_def lost_guards_def)
qed

section \<open>A library\<close>

text \<open>An index that is its own view; every query finds every document, and a dash in it negates the rest.\<close>

definition example_column :: "index_view \<Rightarrow> nat \<Rightarrow> nat \<Rightarrow> u64 option" where
  "example_column x field doc =
     (if doc < length (searchable x)
      then (case map_of (searchable x ! doc) field of Some (U64Value v) \<Rightarrow> Some v | _ \<Rightarrow> None) else None)"

definition example_library :: "(index_view, rust_string) tantivy" where
  "example_library =
     \<lparr>tv_stop_words = (\<lambda>_. True),
      tv_create = (\<lambda>schema _ _. empty_view schema), tv_open_reader = Some, tv_watch = Some, tv_open_writer = Some,
      tv_add_document = (\<lambda>d x. (True, log_view (LogDoc d) x)),
      tv_delete_term = (\<lambda>field v. log_view (LogTerm field v)),
      tv_commit = (\<lambda>x. (Some (Suc (lv_stamp x)), commit_view (Suc (lv_stamp x)) x)),
      tv_load_metas = (\<lambda>x. Some (lv_stamp x)), tv_reload = (\<lambda>x. (True, reload_view x)),
      tv_num_docs = (\<lambda>x. length (searchable x)),
      tv_parse_query = (\<lambda>_ query _. Some (BooleanQuery [(Must, OtherQuery (takeWhile (\<lambda>c. c \<noteq> 45) query)),
        (MustNot, BoostQuery query (OtherQuery (tl (dropWhile (\<lambda>c. c \<noteq> 45) query))))])),
      tv_search = (\<lambda>_ n x. Some (map (\<lambda>i. (1, 0, i)) [0..<min n (length (searchable x))])),
      tv_fast_column = (\<lambda>_ name x. case get_field (lv_schema x) name of Inl _ \<Rightarrow> None | Inr field \<Rightarrow> Some (example_column x field)),
      tv_snippets = (\<lambda>q _ _ _. Some (\<lambda>text. if [text] = all_leaves q then Some (\<lambda>pre post. text) else None)),
      tv_segments = (\<lambda>_. 1), tv_space_usage = (\<lambda>_. None)\<rparr>"

lemma example_library_ok: "tantivy_ok example_library id"
proof -
  have "search_ok example_library id"
    by (auto simp: search_ok_def example_library_def distinct_map inj_on_def example_column_def
        split: sum.splits option.splits field_value.splits if_splits intro!: bexI [OF _ nth_mem] dest: map_of_SomeD)
  then show ?thesis
    by (simp add: tantivy_ok_def writer_ok_def reader_ok_def create_ok_def) (auto simp: example_library_def)
qed

lemma example_library_reliable: "tantivy_reliable example_library"
  by (simp add: tantivy_reliable_def example_library_def)

definition example_fts_params :: "(index_view, rust_string) fts_params" where
  "example_fts_params =
     \<lparr>fp_library = example_library, fp_config = \<lparr>fc_key = ''ks.idx'', fc_analyzer = English, fc_positions = True\<rparr>,
      fp_commit_threshold = MAX_UNCOMMITTED_THRESHOLD, fp_channel_size = 1, fp_num_workers = 2\<rparr>"

definition example_fts_env :: "'g fts_env" where
  "example_fts_env = \<lparr>fe_allocate = (\<lambda>allocate. allocate = CanAllocate), fe_table = (\<lambda>t. t = example_table), fe_request = (\<lambda>_. False)\<rparr>"

lemma example_index_id: "search_index_id example_table ''ks.idx'' = Some (IndexId 32768)"
  by (simp add: search_index_id_def example_gets)

lemma example_build:
  "index_state_build example_library English True = Ok
     \<lparr>fx_schema = build_schema ''english'' True, fx_tantivy = empty_view (build_schema ''english'' True), fx_uncommitted = [],
      fx_unsearchable = [], fx_reloaded = 0, fx_reload_failed = False, fx_requested = False, fx_reload_pc = ReloadWaits,
      fx_dropped = [], fx_failed = []\<rparr>"
  by (simp add: index_state_build_def language_pipeline_def stop_words_def Let_def) (simp add: example_library_def)

lemma example_fts_ok:
  "fts_relies example_fts_params id fst (map fts_message msgs)" "fts_served example_fts_params (example_fts_env :: 'g fts_env)"
  "tables_agree example_fts_params (example_fts_env :: 'g fts_env) (IndexId 32768)"
  "spares example_fts_params (example_fts_env :: 'g fts_env)"
  using example_library_ok fts_messages_named
  by (simp_all add: fts_relies_def fts_served_def tables_agree_def spares_def example_fts_params_def example_fts_env_def
      MAX_UNCOMMITTED_THRESHOLD_def example_index_id example_build) (simp add: example_library_def)

definition example_document :: document_index where
  "example_document = AddDocumentMsg example_row [97] (ProgressFullscan 1)"

section \<open>Witnesses\<close>

abbreviation example_messages :: "(logged \<times> async_in_progress) fts_index list" where
  "example_messages \<equiv> map fts_message [example_document]"

lemma example_told:
  "told_all documents_told [example_document] {} = Some {example_row}" "distinct (added_ids example_messages)"
  "message_guards (fts_message example_document) = {#(LogDoc (doc_of example_row [97]), ProgressFullscan 1)#}"
  by (simp_all add: example_document_def added_ids_def message_guards_def)

lemma example_settled:
  obtains s where "fts_reachable example_fts_params example_fts_env example_messages s" "fts_idle s" "fy_unsent s = []"
    "\<forall>a<addresses s. settled_state id (state_at s a)" "lost_guards s = {#}" "addresses s = 1"
proof -
  note relies = example_fts_ok(1) [of "[example_document]"]
  have reliable: "tantivy_reliable (fp_library example_fts_params)"
    using example_library_reliable by (simp add: example_fts_params_def)
  obtain s s1 s2 where s: "fts_reachable example_fts_params example_fts_env example_messages s" "fts_idle s"
      "(fts_quiet example_fts_params example_fts_env)\<^sup>*\<^sup>* (ticked s) s1" "fts_idle s1"
      "(fts_quiet example_fts_params example_fts_env)\<^sup>*\<^sup>* (ticked s1) s2" "fts_idle s2"
      "fts_reachable example_fts_params example_fts_env example_messages s2" "fy_unsent s2 = []"
    using ticks_exist [OF relies example_fts_ok(2)] by metis
  have settled: "\<forall>a<addresses s2. settled_state id (state_at s2 a)"
    using settled_after [OF relies reliable s(1-6)] by blast
  have lost: "lost_guards s2 = {#}" by (rule nothing_lost [OF example_fts_ok(4) relies s(7)])
  have "addresses s2 \<noteq> 0"
  proof
    assume none: "addresses s2 = 0"
    show False using settled_log [OF relies example_fts_ok(3) s(7,6,8) settled] none by (simp add: lost example_told(3))
  qed
  then have "addresses s2 = 1" using reachable_one_index [OF s(7) example_fts_ok(3)] by (auto simp: one_index_def)
  then show thesis using that s(6-8) settled lost by blast
qed

theorem fts_guards_exact_witness:
  "\<exists>s. fts_reachable example_fts_params example_fts_env example_messages s \<and> addresses s = 1 \<and>
    all_guards s = {#(LogDoc (doc_of example_row [97]), ProgressFullscan 1)#} \<and>
    fst ` set (fx_dropped (state_at s 0)) \<subseteq> set (lv_log (fx_tantivy (state_at s 0)))"
proof -
  obtain s where s: "fts_reachable example_fts_params example_fts_env example_messages s" "addresses s = 1"
    using example_settled by metis
  have "fst ` set (fx_dropped (state_at s 0)) \<subseteq> set (take (lv_served (fx_tantivy (state_at s 0))) (lv_log (fx_tantivy (state_at s 0))))"
    "all_guards s = messages_guards example_messages"
    using fts_guards_exact [OF example_fts_ok(1) s(1)] s(2) by (simp_all add: Let_def)
  then have "fst ` set (fx_dropped (state_at s 0)) \<subseteq> set (lv_log (fx_tantivy (state_at s 0)))"
    "all_guards s = {#(LogDoc (doc_of example_row [97]), ProgressFullscan 1)#}"
    using set_take_subset by (fastforce, simp add: example_told(3) del: One_nat_def)
  then show ?thesis using s by blast
qed

theorem fts_drains_witness:
  "\<exists>s'. (fts_internal example_fts_params example_fts_env)\<^sup>*\<^sup>* (fts_new example_messages) s' \<and> fts_idle s'"
  using fts_drains [OF example_fts_ok(1) example_fts_ok(2) fts_reachable.start] by blast

theorem fts_settles_witness:
  "\<exists>s. fts_reachable example_fts_params example_fts_env example_messages s \<and> fts_idle s \<and> fy_unsent s = [] \<and>
    (\<forall>a<addresses s. settled_state id (state_at s a) \<and>
      image_mset fst (mset (fx_dropped (state_at s a))) = mset (lv_log (fx_tantivy (state_at s a))))"
proof -
  note relies = example_fts_ok(1) [of "[example_document]"]
  have reliable: "tantivy_reliable (fp_library example_fts_params)"
    using example_library_reliable by (simp add: example_fts_params_def)
  obtain s s1 s2 where s: "fts_reachable example_fts_params example_fts_env example_messages s" "fts_idle s"
      "(fts_quiet example_fts_params example_fts_env)\<^sup>*\<^sup>* (ticked s) s1" "fts_idle s1"
      "(fts_quiet example_fts_params example_fts_env)\<^sup>*\<^sup>* (ticked s1) s2" "fts_idle s2"
      "fts_reachable example_fts_params example_fts_env example_messages s2" "fy_unsent s2 = []"
    using ticks_exist [OF relies example_fts_ok(2)] by metis
  show ?thesis using fts_settles [OF relies reliable s(1-6)] s(6-8) by auto
qed

theorem fts_documents_found_witness:
  "\<exists>s a. fts_reachable example_fts_params example_fts_env example_messages s \<and>
    get_state example_table ''ks.idx'' (fy_actor s) = Some a \<and>
    doc_of example_row [97] \<in> set (searchable (fx_tantivy (state_at s a)))"
proof -
  obtain s where s: "fts_reachable example_fts_params example_fts_env example_messages s" "fts_idle s" "fy_unsent s = []"
    "\<forall>a<addresses s. settled_state id (state_at s a)" "lost_guards s = {#}" "addresses s = 1"
    by (rule example_settled)
  have key: "fc_key (fp_config example_fts_params) = ''ks.idx''" by (simp add: example_fts_params_def)
  have id: "search_index_id example_table (fc_key (fp_config example_fts_params)) = Some (IndexId 32768)"
    by (simp add: key example_index_id)
  have added: "AddDocumentMsg example_row [97] (ProgressFullscan 1) \<in> set [example_document]"
    by (simp add: example_document_def)
  have kept: "(LogDoc (doc_of example_row [97]), ProgressFullscan 1) \<notin># lost_guards s" by (simp add: s(5))
  have "\<exists>a. get_state example_table ''ks.idx'' (fy_actor s) = Some a \<and> doc_of example_row [97] \<in> set (searchable (id (fx_tantivy (state_at s a))))"
    using fts_documents_found [OF example_fts_ok(1,3) s(1-4) example_told(1,2) id, THEN conjunct1, rule_format, OF added singletonI kept]
    unfolding key .
  then show ?thesis using s(1) by auto
qed

theorem removal_overtaken_witness:
  "\<exists>s. fts_reachable example_fts_params example_fts_env
      (map fts_message [AddDocumentMsg example_row [97] (ProgressFullscan 1), RemoveDocumentMsg example_row (ProgressFullscan 2)]) s \<and>
    fts_idle s \<and> searchable (fx_tantivy (state_at s 0)) = [doc_of example_row [97]] \<and>
    tv_num_docs example_library (fx_tantivy (state_at s 0)) = 1"
proof -
  have P: "fp_library example_fts_params = example_library" "2 \<le> fp_num_workers example_fts_params"
    "2 < fp_commit_threshold example_fts_params" "fc_key (fp_config example_fts_params) = ''ks.idx''"
    "fc_analyzer (fp_config example_fts_params) = English" "fc_positions (fp_config example_fts_params)"
    by (simp_all add: example_fts_params_def MAX_UNCOMMITTED_THRESHOLD_def)
  have E: "fe_table example_fts_env example_table" "fe_allocate example_fts_env CanAllocate" by (simp_all add: example_fts_env_def)
  have adds: "fst (tv_add_document (fp_library example_fts_params) (doc_of example_row [97]) x)" for x
    by (simp add: P example_library_def)
  have build: "index_state_build (fp_library example_fts_params) (fc_analyzer (fp_config example_fts_params))
      (fc_positions (fp_config example_fts_params)) = Ok \<lparr>fx_schema = build_schema ''english'' True,
      fx_tantivy = empty_view (build_schema ''english'' True), fx_uncommitted = [],
      fx_unsearchable = [], fx_reloaded = 0, fx_reload_failed = False, fx_requested = False, fx_reload_pc = ReloadWaits,
      fx_dropped = [], fx_failed = []\<rparr>"
    using example_build by (simp add: P)
  have reliable: "tantivy_reliable (fp_library example_fts_params)" using example_library_reliable by (simp add: P)
  have id: "search_index_id example_table (fc_key (fp_config example_fts_params)) = Some (IndexId 32768)"
    by (simp add: P example_index_id)
  show ?thesis
    using removal_overtaken [OF example_fts_ok(1) reliable example_fts_ok(2) P(2,3) build adds E(1) id E(2),
        where pr = "ProgressFullscan 1" and pr' = "ProgressFullscan 2"]
    by (auto simp: P)
qed

definition example_fts_state :: "(index_view, unit) fts_state" where
  "example_fts_state =
     \<lparr>fx_schema = build_schema ''english'' True,
      fx_tantivy = \<lparr>lv_schema = build_schema ''english'' True, lv_log = [LogDoc (doc_of example_row [97])], lv_stamp = 1, lv_upto = (\<lambda>c. if 1 \<le> c then 1 else 0), lv_served = 1\<rparr>,
      fx_uncommitted = [], fx_unsearchable = [], fx_reloaded = 1, fx_reload_failed = False, fx_requested = False,
      fx_reload_pc = ReloadWaits, fx_dropped = [()], fx_failed = []\<rparr>"

lemma example_searched: "handle_search example_library example_table ''ks.idx'' [97] 5 example_fts_state = Ok (Inr ([example_key], [1]))"
proof -
  have "find_partition_id example_table ''ks.idx'' = Ok (partition_global (IndexId 32768))"
    by (simp add: find_partition_id_def search_partition_id_def example_gets example_fields)
  then show ?thesis
    by (simp add: handle_search_def make_query_def hit_id_def example_library_def example_column_def example_fts_state_def searchable_def
        documents_of_def doc_of_def found_keys_def List.map_filter_def example_row_facts example_raw Let_def)
qed

theorem fts_answer_rendered_witness:
  "\<exists>m vss js. try_collect_primary_keys example_codec [''pk''] [example_key] = Ok m \<and>
    keys_hold 1 vss [example_key] \<and> m ''pk'' = Some js \<and> column_of example_codec vss 0 = Ok js \<and> length js = 1"
proof -
  have sized: "keys_sized (length [''pk'']) example_table"
    using ik_len_key_of [OF example_key_of] by (simp add: keys_sized_def stored_keys_def example_table_def)
  have collected: "try_collect_primary_keys example_codec [''pk''] [example_key] = Ok (map_of [(''pk'', [JNumber (Inr 1)])])"
    using try_collect_keys [of "[''pk'']" "[[CqlInt 1]]" "[example_key]" example_codec] example_keys_hold
    by (simp add: column_of_def example_codec_def)
  have "lv_schema (id (fx_tantivy example_fts_state)) = build_schema ''english'' True" by (simp add: example_fts_state_def)
  from fts_answer_rendered [OF example_library_ok this example_inv sized _ example_searched, of example_codec]
  show ?thesis by (auto simp: collected)
qed

theorem highlight_positive_terms_witness:
  "\<exists>highlights. handle_highlight example_library [97, 45, 98] [[97], [98]] example_fts_state = Ok (Inr highlights) \<and>
    highlights = [Some [97], None]"
proof -
  have "fx_schema example_fts_state = build_schema ''english'' True" by (simp add: example_fts_state_def)
  from highlight_positive_terms [OF this, of example_library "[97, 45, 98]" "[[97], [98]]"] obtain answer where
    "handle_highlight example_library [97, 45, 98] [[97], [98]] example_fts_state = Ok answer" and
    "(let parsed = tv_parse_query example_library [1] [97, 45, 98] (fx_tantivy example_fts_state);
          snippets = (\<lambda>q. tv_snippets example_library q 1 150 (fx_tantivy example_fts_state));
          stripped = (\<lambda>q. \<exists>p. parsed = Some p \<and> \<not> boosted p \<and> all_leaves q = positive_leaves p \<and> positive_leaves q = all_leaves q)
      in case answer of
        Inr highlights \<Rightarrow> \<exists>q snippet. stripped q \<and> snippets q = Some snippet \<and>
          highlights = map (\<lambda>text. case snippet text of Some html \<Rightarrow> Some (html ''<b>'' ''</b>'') | None \<Rightarrow> None) [[97], [98]]
      | Inl (QueryError msg) \<Rightarrow> parsed = None \<or> (\<exists>p. parsed = Some p \<and> boosted p)
      | Inl (OtherError msg) \<Rightarrow> \<exists>q. stripped q \<and> snippets q = None
      | Inl (VsIndexError e) \<Rightarrow> False)" by blast
  moreover have "tv_parse_query example_library [1] [97, 45, 98] x =
      Some (BooleanQuery [(Must, OtherQuery [97]), (MustNot, BoostQuery [97, 45, 98] (OtherQuery [98]))])"
    "tv_snippets example_library q 1 150 x = Some (\<lambda>text. if [text] = all_leaves q then Some (\<lambda>pre post. text) else None)" for q x
    by (simp_all add: example_library_def)
  ultimately show ?thesis
    by (auto simp: Let_def split: sum.splits search_error.splits)
qed

end
