(* ===== verification/Spec2Isabelle.thy ===== *)
theory Spec2Isabelle
  imports Table_Search Checkpoints Query_Routing Monitor_Correct Discovery Usearch_Correct Usearch_Answers Workers
    Db_Index Cdc_Consumer_Correct Cdc_Actor_Correct Http_Listing Fts_Reference
begin

text \<open>
  The vector store is the indexing service of a ScyllaDB cluster: it reads the indexes and the
  rows of base tables from the database, keeps vector, full-text and pattern indexes of them
  and answers searches. It is a set of actors. This library models the actors between the
  database and the index libraries, the data structures they keep, and the HTTP handlers in
  front of them; unless a path begins with \<open>crates\<close>, it is under \<open>crates/vector-store/src/\<close>.

  How the parts interact. The monitor of indexes (\<open>monitor_indexes.rs\<close>) compares the indexes the
  database schema lists with those it knows and asks the engine to delete and add indexes. The
  engine (\<open>engine.rs\<close>) keeps the registry (\<open>indexes.rs\<close>); for a new index it builds a table and
  starts a monitor of items. The monitor of items (\<open>monitor_items.rs\<close>) receives rows, from the
  full scan and from CDC in any order, writes them to the table (\<open>table/mod.rs\<close>) and sends the
  operations the table answers to the actor of the index. The node state (\<open>node_state.rs\<close>) hears
  what was discovered and scanned; the engine copies its status to the registry. A search
  chooses an index in the registry and turns the entries the index finds into keys with the
  table. The actor of a vector index (\<open>vs_index/usearch.rs\<close>) keeps one index of the library for
  every partition; it gives every insertion, removal and search to the workers (\<open>worker.rs\<close>) as
  a task, under a permit that keeps tasks of different modes apart, and refuses insertions when
  the memory limit (\<open>memory.rs\<close>) is reached. The actor of a full-text index (\<open>fts_index/tantivy.rs\<close>)
  does the same without permits, commits what was written every second or when much is pending, and
  holds the guard of an operation until a search can see it. The readers of CDC (\<open>db_cdc/actor.rs\<close>) follow the
  session of the database and give the rows of the log to consumers (\<open>db_cdc/consumer.rs\<close>), which
  turn them into rows for the monitor of items. The handlers of the routes (\<open>httproutes.rs\<close>) choose
  an index in the registry, translate the filter of a request, ask the index and write its answer
  as JSON (\<open>cql_types.rs\<close>).

  Theories, in the order they build on each other:
  \<^item> \<open>Prelude\<close>: words, results, bytes, \<open>BTreeMap\<close>; no code of the program.
  \<^item> \<open>Timestamps\<close> (\<open>timestamp.rs\<close>), \<open>Row_Ids\<close> (\<open>table/primary_id.rs\<close>, \<open>table/partition_id.rs\<close>),
    \<open>Vec_Chunks\<close> (\<open>table/vec_chunks.rs\<close>, \<open>table/chunk_timestamps.rs\<close>, \<open>table/column_vec_chunks.rs\<close>):
    the packed words and byte vectors a table is made of; round trips, bounds, independence of
    the fields of a chunk, and the refinement of the byte vector to a list of chunks.
  \<^item> \<open>Cql_Values\<close> (\<open>cql_types.rs\<close>), \<open>Invariant_Key\<close> (\<open>invariant_key.rs\<close>, \<open>primary_key.rs\<close>,
    \<open>partition_key.rs\<close>), \<open>Columns\<close> (\<open>table/column.rs\<close>, \<open>table/column_vec.rs\<close>), \<open>Index_Types\<close>
    (\<open>index_key.rs\<close>, part of \<open>lib.rs\<close>): values and their order, keys as bytes, typed columns
    in which the last write wins.
  \<^item> \<open>Id_Pool\<close>: the pools of identifiers of a table, once for rows and partitions.
  \<^item> \<open>Table_State\<close>, \<open>Table_Modify\<close>, \<open>Table_Search\<close> (\<open>table/mod.rs\<close>): the table.
    \<open>Table_Partitions\<close>, \<open>Table_Live\<close>, \<open>Table_Update\<close>, \<open>Table_Invariant\<close>, \<open>Table_Correct\<close>,
    \<open>Table_New\<close>: its invariant (\<open>table_inv\<close>), kept by every operation on every outcome; the
    refinement of \<open>upsert\<close> and \<open>delete\<close> to a set of live entries (\<open>live\<close>, \<open>index_exec\<close>); the
    behaviour on new, stale and deleted rows; the reasons for which an operation may fail.
    \<open>Table_Findings\<close>: two behaviours that the guards of the code do not intend.
  \<^item> \<open>Monitor_Items\<close>, \<open>Monitor_Correct\<close> (\<open>monitor_items.rs\<close>, \<open>async_in_progress.rs\<close>, the sending
    sides of \<open>vs_index/actor.rs\<close>, \<open>fts_index/actor.rs\<close>, \<open>pattern_index/actor.rs\<close>): what was sent
    to an index, executed, is what is live in the table.
  \<^item> \<open>Node_State\<close> (\<open>node_state.rs\<close>), \<open>Index_Registry\<close> and \<open>Query_Routing\<close> (\<open>indexes.rs\<close>),
    \<open>Engine\<close> and \<open>Engine_Correct\<close> (\<open>engine.rs\<close>), \<open>Monitor_Indexes\<close> and \<open>Discovery\<close>
    (\<open>monitor_indexes.rs\<close>): the life of an index from its discovery to its removal.
  \<^item> \<open>Distances\<close> (\<open>distance.rs\<close>), \<open>Memory\<close> (\<open>memory.rs\<close>), \<open>Workers\<close> (\<open>worker.rs\<close>, \<open>perf.rs\<close>),
    \<open>Permits\<close> (\<open>operation\<close> in \<open>vs_index/usearch.rs\<close>): what the actor of a vector index uses; the
    memory limit, the pool of workers and the permits as machines of atomic steps.
  \<^item> \<open>Usearch_Index\<close>, \<open>Usearch\<close> (\<open>vs_index/usearch.rs\<close>, \<open>vs_index/actor.rs\<close>, \<open>vs_index/mod.rs\<close>,
    \<open>vs_index/validator.rs\<close>): the index behind its interface, its two implementations, and the
    actor with the tasks it gives to the workers. \<open>Usearch_Permits\<close>: the invariant of the
    permits, by which tasks that must not overlap never do. \<open>Usearch_Contents\<close>: no step but the
    receipt of a message changes what an index will hold (\<open>settled\<close>, \<open>expected\<close>).
    \<open>Usearch_Reserve\<close>: every dispatched addition has room (\<open>room_inv\<close>), and the sizes are right
    (\<open>sizes_ok\<close>). \<open>Usearch_Progress\<close>: nothing blocks for good (\<open>work\<close> decreases).
    \<open>Usearch_Answers\<close>: the rows and columns of an answer, filters. \<open>Usearch_Correct\<close>: the
    properties of the actor, for the locales \<open>usearch_actor\<close> (additions may fail) and
    \<open>reliable_actor\<close> (they fail only without room), interpreted on the simulator and proved of the
    wrapper of a library.
  \<^item> \<open>Table_Schema\<close>: no operation of the table changes the columns of an index or their types.
    \<open>Db_Rows\<close> (\<open>alternator.rs\<close>, the conversion of \<open>vector.rs\<close>, the decoding of \<open>db_index.rs\<close>):
    from a row of the base table to a row of the pipeline. \<open>Db_Rows_Correct\<close>: the round trip of an
    embedding, and the well-typedness of scanned rows, which discharges for the full scan what
    the monitor of items assumes of its rows (\<open>row_ok\<close>) and what the table needs to accept them
    (\<open>row_accepted\<close>).
  \<^item> \<open>Full_Scan\<close> (\<open>db_index.rs\<close>): the token ranges and the machine of \<open>scan_ranges\<close>.
    \<open>Full_Scan_Correct\<close>: the ranges partition the tokens; \<open>scan_inv\<close> accounts for every token,
    row, guard and permit; \<open>scan_weight\<close> decreases. \<open>Db_Index\<close> (\<open>db_index.rs\<close>, the source of
    vectors of \<open>vs_index/diskann/scylla.rs\<close>): the actor that runs the scan and serves requests; the
    events it sends to the node; the point reads of vectors.
  \<^item> \<open>Checkpoints\<close> (\<open>db_cdc/checkpoint_saver.rs\<close>): the progress of the CDC readers.
    \<open>Cdc_Consumer\<close> (\<open>db_cdc/consumer.rs\<close>): the consumers, their spawned reads, permits and the
    channel as one machine. \<open>Cdc_Consumer_Correct\<close>: no change is lost or repeated (\<open>cdc_inv\<close>), the
    machine drains (\<open>cdc_weight\<close>), and its rows are accepted by the table. \<open>Cdc_Actor\<close>
    (\<open>db_cdc/actor.rs\<close>, the session watch of \<open>db_index.rs\<close>): the loop that restarts a reader when
    the session changes or the reader fails. \<open>Cdc_Actor_Correct\<close>: it recovers, the windows it reads
    overlap, and what a failing reader loses.
  \<^item> \<open>Cql_Json\<close> (\<open>cql_types.rs\<close>): values to JSON and back; texts, booleans and numbers unchanged. \<open>Http_Api\<close> (\<open>crates/httpapi/src/lib.rs\<close>,
    \<open>similarity.rs\<close>, conversions of \<open>httproutes.rs\<close>) and \<open>Http_Routes\<close> (\<open>httproutes.rs\<close>): the types of
    the interface and the handlers. \<open>Http_Correct\<close>: the translation of filters, the statuses and the
    answers of a vector search, and the answer of the usearch index on its way to the client.
    \<open>Http_Listing\<close>: the list of the indexes agrees with the description of each; the statuses of the
    searches of text indexes.
  \<^item> \<open>Fts_Index\<close> (\<open>fts_index/tantivy.rs\<close>, \<open>fts_index/actor.rs\<close>): the state of a full-text index, its
    functions, and the actor with its tasks and the loops that reload the readers. \<open>Fts_Guards\<close>: the
    contract of the library (\<open>tantivy_ok\<close>) over what a user sees of an index (\<open>index_view\<close>), and the
    invariant of the guards of one index (\<open>guards_inv\<close>). \<open>Fts_Correct\<close>: no guard is lost or dropped
    early (\<open>fts_inv\<close>). \<open>Fts_Progress\<close>: nothing blocks for good (\<open>fts_weight\<close> decreases), and two ticks
    make everything searchable. \<open>Fts_Contents\<close>: what is found, and how a removal can overtake the
    addition of its document. \<open>Fts_Answers\<close>: the answers of searches and highlights.
    \<open>Fts_Reference\<close>: a library that keeps the contract, and when no document is lost.
  \<^item> This theory: the properties that span components, from the rows to the stored vectors and
    from the node state to the registry, and the witnesses for them.

  Conventions. A struct is a record, an enum a datatype, a machine integer a word; \<open>usize\<close> is a
  natural number, because every index is tested against a narrower limit before it is packed.
  A \<open>BTreeMap\<close> is a sorted association list (\<open>bt_get\<close>, \<open>bt_insert\<close>, \<open>bt_remove\<close>), a \<open>HashMap\<close>
  a partial function, a \<open>HashSet\<close> a set; where the code iterates over a hash container, the
  order it meets is an argument. A fallible operation returns a \<open>result\<close>, the error being a
  \<open>Bail\<close> (an \<open>anyhow\<close> error) or a \<open>Panic\<close>; an operation on \<open>&mut self\<close> that can fail returns the
  result with the state it leaves behind. No model needs fuel: every loop is a recursion over
  the list it consumes.

  Parameters and hypotheses. What the driver and the numeric crates compute on values is the
  record \<open>driver\<close>. What other actors and factories answer while a message is handled is
  \<open>engine_world\<close>, what the database answers during a tick is \<open>db_world\<close>; \<open>world_ok\<close> and \<open>db_ok\<close>
  say that the database describes existing columns of supported types and lists an index once,
  \<open>orders_ok\<close> that the iteration order of a hash map lists its keys once. \<open>key_of\<close>, \<open>values_ok\<close>,
  \<open>fits\<close> say that a row has the key columns of the table, its columns in their order, and the
  value of the kind that is indexed. \<open>partition_room\<close> (and \<open>room_along\<close>, for each table
  of a run) says that fewer than 2^48 partition identifiers are in use: the code panics beyond.
  Every property with hypotheses has a witness at a table, engine or node that the operations
  of the code built.

  The functions of the \<open>usearch\<close> library are the record \<open>usearch_lib\<close>; what is relied on is
  \<open>library_ok\<close>, and the locales \<open>index_laws\<close> and \<open>reliable_index\<close> state it for the interface
  \<open>UsearchIndex\<close>, which the wrapper provides under \<open>library_ok\<close> and the simulator always. The
  actor of a vector index and its tasks are one system (\<open>usearch_step\<close>) that interleaves freely;
  what the memory actor publishes, the factory creates and the searches read are predicates of
  the environment. The messages of the monitor of items are in its channel from the start, in
  their order, and searches arrive at any time. A task takes effect in one step, between being
  started and giving its permit back.

  The functions of the \<open>tantivy\<close> library are the record \<open>tantivy\<close>; what is relied on is \<open>tantivy_ok\<close>:
  operations and commits take effect or fail as a whole, the opstamps of commits grow, a reload
  serves the last commit, and the column of identifiers is that of the documents found.
  \<open>tantivy_reliable\<close> says that commits and reloads do not fail; only liveness needs it. The actor, its
  tasks and the reloads are one system (\<open>fts_internal\<close>, \<open>fts_event\<close>) that interleaves freely; a task
  takes a step for each lock it takes. Opstamps are natural numbers.

  What the CQL driver decodes is the record \<open>decoders\<close>; \<open>decoders_ok\<close> says that a value read as a
  type has that type or is the empty value, and \<open>row_conforms\<close> that a row holds values of the
  types of the base table. \<open>token_new_ok\<close> is the normalisation of \<open>Token::new\<close> and \<open>ring_ok\<close> says
  that the driver lists the tokens of the ring once, in order, above the least token. The scan is
  a machine (\<open>scan_step\<close>) in which its loop, its tasks and the acknowledgements interleave freely, a
  range or its task may fail and the receiver of the rows may be gone at any time; \<open>faithful\<close> only
  says that an open range yields its rows, and \<open>undisturbed\<close> names the steps that are no failure.

  The consumers of CDC and their tasks are a machine (\<open>cdc_step\<close>) that interleaves freely; what the
  library of CDC reads is the sequence of rows the consumers are given. The session watch, the
  timers and the end of a handler are what \<open>actor_step\<close> is told in its branch. The formats and
  numbers of JSON are the record \<open>json_codec\<close>; \<open>numbers_ok\<close> says that numbers hold finite floats and
  integers exactly, and that widening an \<open>f32\<close> is exact; of the textual formats nothing is assumed.
  What an HTTP handler asks an index is the record \<open>backends\<close>; \<open>answers_keyed\<close> and \<open>text_keyed\<close>
  say that the keys of an answer have a value for each key column, which \<open>found_rows\<close>
  shows of the usearch index. The texts of errors do not repeat the values that the code formats
  into them.

  An actor handles one message at a time; its handler is one step of the model. Where a handler
  of the engine or of the monitor of indexes waits for other actors, their answers are
  arguments, so that a step is atomic with respect to the messages of the same actor, as in the
  code, and not with respect to the actors it asks. A send on a channel fails exactly when the
  receiver is gone; a channel that is full delays the sender, and delays are not modelled.

  Not modelled: the server itself, the routing table and the decoding of requests (\<open>httpserver.rs\<close>,
  the rest of \<open>httproutes.rs\<close>), the statements and the session of the database (\<open>db.rs\<close>,
  \<open>db_driver\<close>), the library that reads the CDC log, the clients and wrappers of the other index
  libraries (\<open>vs_index/opensearch.rs\<close>, the rest of \<open>vs_index/diskann\<close>, \<open>pattern_index\<close>
  behind its channel), configuration, TLS, metrics and internal counters: they
  are input and output, or calls of code that is not here. The test crates are not modelled.
\<close>

section \<open>From the engine to the index\<close>

definition started_monitor :: "items_actor \<Rightarrow> item_metrics \<Rightarrow> vs_index_modify channel_state monitor" where
  "started_monitor a m =
     \<lparr>mo_table = ia_table a, mo_index = \<lparr>ch_sent = [], ch_open = True\<rparr>, mo_metrics = m\<rparr>"

text \<open>
  A vector index is in step from its creation on: the table the engine gave the monitor knows its
  index, and the index is told exactly the live entries of the table, starting from nothing.
\<close>

lemma started_in_step:
  assumes "list_all (\<lambda>(w, msg). world_ok w \<and> msg_ok msg) msgs"
    and "a \<in> set (eg_actors (snd (engine_run msgs engine_new)))"
    and "list_all (row_ok is_vector) (map fst rows)"
    and "room_along d vs_dispatch (ia_key a) rows (started_monitor a m)"
  shows "\<exists>x. bt_get (t_index_ids (ia_table a)) (ia_key a) = Some x \<and>
    (case monitor_run d vs_dispatch (ia_key a) rows (started_monitor a m) of (r, mo') \<Rightarrow>
       table_inv d (mo_table mo') \<and> vs_holds (live (mo_table mo') x) (mo_index mo') \<and>
       (r = Ok Live \<or> (\<exists>e. r = Err (Panic e))))"
proof -
  have "engine_inv d (snd (engine_run msgs engine_new))"
    using engine_run_ok [OF engine_inv_new assms(1), of d] by (auto split: prod.splits)
  then have fresh: "table_fresh d (ia_key a) (ia_table a)"
    using assms(2) by (simp add: engine_inv_def)
  then obtain x where x: "bt_get (t_index_ids (ia_table a)) (ia_key a) = Some x"
    by (auto simp: table_fresh_def)
  have "vs_run.in_step d (ia_key a) x (started_monitor a m)"
    using fresh x by (simp add: vs_run.in_step_def started_monitor_def table_fresh_def vs_holds_def)
  from vs_run.run_in_step [OF this assms(3,4)] show ?thesis
    using x by (auto simp: vs_run.in_step_def)
qed

section \<open>From the rows to the stored vectors\<close>

text \<open>
  C1: what a vector index stores is what is live in the table. Take any history of the engine, any
  monitor of items it started, and any rows, from the scan or from CDC, in any order; give what
  the monitor sent to the actor of the index, with an index that is not short of memory, and let
  the actor and the workers run in any schedule, with any searches in between: whenever they are
  idle, the vectors stored in the partitions of the actor are the live entries of the table.
\<close>

theorem stored_vectors_are_live:
  assumes "list_all (\<lambda>(w, msg). world_ok w \<and> msg_ok msg) msgs"
    and "a \<in> set (eg_actors (snd (engine_run msgs engine_new)))"
    and "list_all (row_ok is_vector) (map fst rows)"
    and "room_along d vs_dispatch (ia_key a) rows (started_monitor a m)"
    and "monitor_run d vs_dispatch (ia_key a) rows (started_monitor a m) = (r, mo')"
    and "reliable_actor P keys E" and "usearch_reachable P E (ch_sent (mo_index mo')) s" and "idle s"
  shows "\<exists>x. bt_get (t_index_ids (ia_table a)) (ia_key a) = Some x \<and> contents keys s = live (mo_table mo') x"
proof -
  obtain x where x: "bt_get (t_index_ids (ia_table a)) (ia_key a) = Some x"
    and "vs_holds (live (mo_table mo') x) (mo_index mo')"
    using started_in_step [OF assms(1-4)] assms(5) by auto
  then have "contents keys s = live (mo_table mo') x"
    using reliable_actor.idle_contents [OF assms(6,7) _ assms(8)] by (simp add: vs_holds_def)
  then show ?thesis using x by blast
qed

section \<open>From the node state to the registry\<close>

text \<open>What the engine hears when it asks the node for the status of an index.\<close>

definition node_answers :: "node_state \<Rightarrow> keyspace_name \<Rightarrow> index_name \<Rightarrow> index_status option" where
  "node_answers s keyspace index =
     (case fst (node_step (GetIndexStatus keyspace index) s) of
        Some (IndexStatusReply r) \<Rightarrow> r
      | _ \<Rightarrow> None)"

text \<open>
  C31: an index recreated under a served key is served before it is scanned. If the node reports
  the key as serving, then after a discovery that lists an index with that key (other metadata,
  so a new index, whose full scan has not even started) the next tick of the engine gives the
  new entry of the full-text index the status \<open>Serving\<close>, whatever status it was created with.
\<close>

theorem recreated_index_served:
  assumes "engine_inv d eg" and "orders_ok orders (eg_indexes eg)"
    and "fts_entries (eg_indexes eg) (im_key metadata) = Some entry"
    and "ns_idxs s (im_key metadata) = Some IndexServing" and "metadata \<in> listed"
    and "w_index_status w = node_answers (handle_event (IndexesDiscovered listed) s)"
  shows "case engine_update_indexes w orders eg of (r, eg') \<Rightarrow>
    map_option ie_status (fts_entries (eg_indexes eg') (im_key metadata)) = Some IndexServing"
proof -
  let ?key = "im_key metadata" and ?s = "handle_event (IndexesDiscovered listed) s"
  obtain r eg' where run: "engine_update_indexes w orders eg = (r, eg')" by fastforce
  obtain ks ix where "index_key_keyspace ?key = Ok ks" "index_key_index ?key = Ok ix" "?key = index_key_new ks ix"
    and status: "status_of w ?key = w_index_status w ks ix"
    by (rule dotted_status [OF key_has_dot])
  have "ns_idxs ?s ?key = Some IndexServing"
    using assms(4,5) by (auto simp: indexes_discovered_def Let_def update_indexes_def)
  then have "w_index_status w ks ix = Some IndexServing"
    using \<open>?key = index_key_new ks ix\<close> by (simp add: assms(6) node_answers_def)
  then have "ie_status (refreshed w ?key entry) = IndexServing"
    using status by (simp add: refreshed_def set_entry_def)
  then show ?thesis
    using tick_refreshes [OF assms(1,2), of w] run assms(3) by simp
qed

section \<open>Witnesses\<close>

lemma example_started:
  obtains a where "a \<in> set (eg_actors (snd (engine_run [(example_world, AddIndexMsg example_metadata)] engine_new)))"
    and "partition_room (ia_table a)"
proof -
  obtain eg entry where eg: "add_index example_world example_metadata engine_new = (Ok (), eg)"
    "fts_entries (eg_indexes eg) = [''ks.idx'' \<mapsto> entry]"
    using example_engine_added by blast
  have inv: "engine_inv example_driver eg"
    using add_index_ok [OF engine_inv_new example_world_ok example_metadata_ok(1), of example_driver]
    unfolding eg by (simp add: added_ok_def)
  then have "monitored (eg_actors eg) [''ks.idx'' \<mapsto> entry]"
    using eg(2) by (simp add: engine_inv_def)
  then obtain a where "a \<in> set (eg_actors eg)"
    unfolding monitored_def by (metis fun_upd_same)
  moreover from this have "partition_room (ia_table a)"
    using inv by (simp add: engine_inv_def table_fresh_def)
  ultimately show thesis using that eg(1) by simp
qed

theorem stored_vectors_are_live_witness:
  "\<exists>a\<in>set (eg_actors (snd (engine_run [(example_world, AddIndexMsg example_metadata)] engine_new))).
   \<exists>x r mo' s. monitor_run example_driver vs_dispatch (ia_key a)
        [(\<lparr>row_primary_key = example_key, row_operation = DbUpsert (example_values (Timestamp 9))\<rparr>, ProgressNone)]
        (started_monitor a \<lparr>m_modified = (\<lambda>_. 0), m_dirty = False\<rparr>) = (r, mo') \<and>
     usearch_reachable (simulator_params example_driver 1 1) (simulator_env None (\<lambda>t. t = example_table)) (ch_sent (mo_index mo')) s \<and>
     contents simulator_ids s = live (mo_table mo') x"
proof -
  obtain a where a: "a \<in> set (eg_actors (snd (engine_run [(example_world, AddIndexMsg example_metadata)] engine_new)))"
    and room: "partition_room (ia_table a)"
    by (rule example_started)
  let ?rows = "[(\<lparr>row_primary_key = example_key, row_operation = DbUpsert (example_values (Timestamp 9))\<rparr>, ProgressNone)]"
  let ?mo = "started_monitor a \<lparr>m_modified = (\<lambda>_. 0), m_dirty = False\<rparr>"
  obtain r mo' where run: "monitor_run example_driver vs_dispatch (ia_key a) ?rows ?mo = (r, mo')" by fastforce
  obtain s where s: "usearch_reachable (simulator_params example_driver 1 1) (simulator_env None (\<lambda>t. t = example_table)) (ch_sent (mo_index mo')) s"
    and "drained s"
    using simulator_drains [of "\<lambda>t. t = example_table"] by blast
  have row: "row_ok is_vector \<lparr>row_primary_key = example_key, row_operation = DbUpsert (example_values (Timestamp 9))\<rparr>"
    by (simp add: row_ok_def example_values_ok example_has_key example_vector)
  have "\<exists>x. bt_get (t_index_ids (ia_table a)) (ia_key a) = Some x \<and> contents simulator_ids s = live (mo_table mo') x"
    by (rule stored_vectors_are_live [OF _ a _ _ run sim_actor.reliable_actor_axioms s drained_idle [OF \<open>drained s\<close>]])
      (simp_all add: example_world_ok example_metadata_ok row room room_along_one started_monitor_def del: room_along.simps)
  then show ?thesis using a run s by blast
qed

theorem recreated_index_served_witness:
  "\<exists>eg. add_index example_world example_metadata engine_new = (Ok (), eg) \<and>
    (let s = node_run (map SendEvent [IndexesDiscovered {example_metadata}, FullScanFinished example_metadata]) node_init;
         recreated = example_metadata\<lparr>im_filtering_columns := [''pk'']\<rparr>
     in case engine_update_indexes (example_world\<lparr>w_index_status := node_answers (handle_event (IndexesDiscovered {recreated}) s)\<rparr>)
               ([], [''ks.idx''], []) eg of
          (r, eg') \<Rightarrow> map_option ie_status (fts_entries (eg_indexes eg') ''ks.idx'') = Some IndexServing)"
proof -
  obtain eg entry where eg: "add_index example_world example_metadata engine_new = (Ok (), eg)"
    and entries: "vs_entries (eg_indexes eg) = Map.empty" "fts_entries (eg_indexes eg) = [''ks.idx'' \<mapsto> entry]"
      "pattern_entries (eg_indexes eg) = Map.empty"
    using example_engine_added by blast
  have inv: "engine_inv example_driver eg"
    using add_index_ok [OF engine_inv_new example_world_ok example_metadata_ok(1), of example_driver]
    unfolding eg by (simp add: added_ok_def)
  have orders: "orders_ok ([], [''ks.idx''], []) (eg_indexes eg)"
    by (simp add: orders_ok_def entries)
  let ?m = "example_metadata\<lparr>im_filtering_columns := [''pk'']\<rparr>"
  let ?s = "node_run (map SendEvent [IndexesDiscovered {example_metadata}, FullScanFinished example_metadata]) node_init"
  have key: "im_key ?m = ''ks.idx''"
    using example_metadata_ok(2) by (simp add: im_key_def)
  have "ns_idxs ?s ''ks.idx'' = Some IndexServing"
    by (simp add: indexes_discovered_def node_init_def update_indexes_def full_scan_finished_def set_index_status_def
        example_metadata_ok(2) Let_def)
  then show ?thesis
    using recreated_index_served [OF inv orders, of ?m entry ?s "{?m}"
        "example_world\<lparr>w_index_status := node_answers (handle_event (IndexesDiscovered {?m}) ?s)\<rparr>"] eg
    by (simp add: key entries Let_def)
qed

end
